(* ===== verification/Prelude.thy ===== *)
theory Prelude
  imports Main "HOL-Library.Word"
begin

text \<open>
  What every component shares: the machine integer types, the result of a kernel operation
  that may panic, the sequencing of such operations, and the arithmetic of alignment and
  pages that the memory components rest on.
\<close>

unbundle bit_operations_syntax

section \<open>Machine integers\<close>

type_synonym u8 = "8 word"
type_synonym u16 = "16 word"
type_synonym u32 = "32 word"
type_synonym u64 = "64 word"

text \<open>
  A C \<open>int\<close> result code is an \<open>int\<close>; storing it in a \<open>uint64_t\<close>
  register through \<open>(uint64_t)(int64_t)\<close> sign-extends it.
\<close>

definition sext64 :: "int \<Rightarrow> u64" where
  "sext64 r = word_of_int r"

named_theorems word_nat \<open>moves word arithmetic to the natural numbers\<close>
named_theorems res_simps \<open>rewrites for operations that may panic\<close>

section \<open>Operations that may panic\<close>

text \<open>
  \<open>PANIC(msg)\<close> never returns: it prints the message and parks the hart. An operation
  is a function to \<open>string + 'a\<close>, where \<open>Inl msg\<close> is the panic with its
  message and \<open>Inr\<close> carries the result and the new state.
\<close>

type_synonym 'a res = "string + 'a"

definition bindE :: "'a res \<Rightarrow> ('a \<Rightarrow> 'b res) \<Rightarrow> 'b res" where
  "bindE m f = (case m of Inl e \<Rightarrow> Inl e | Inr x \<Rightarrow> f x)"

lemma bindE_Inl [simp]: "bindE (Inl e) f = Inl e"
  by (simp add: bindE_def)

lemma bindE_Inr [simp]: "bindE (Inr x) f = f x"
  by (simp add: bindE_def)

lemma bindE_eq_Inr [res_simps]:
  "bindE m f = Inr y \<longleftrightarrow> (\<exists>x. m = Inr x \<and> f x = Inr y)"
  by (cases m) simp_all

lemma bindE_eq_Inl [res_simps]:
  "bindE m f = Inl e \<longleftrightarrow> m = Inl e \<or> (\<exists>x. m = Inr x \<and> f x = Inl e)"
  by (cases m) simp_all

lemma bindE_assoc: "bindE (bindE m f) g = bindE m (\<lambda>x. bindE (f x) g)"
  by (cases m) simp_all

lemma bindE_cong [fundef_cong]:
  assumes "m = m'" and "\<And>x. m' = Inr x \<Longrightarrow> f x = f' x"
  shows "bindE m f = bindE m' f'"
  using assms by (cases m') simp_all

lemma bindE_if: "bindE (if b then m else m') f = (if b then bindE m f else bindE m' f)"
  by simp

text \<open>
  \<open>returns m P\<close>: the operation does not panic, and its result and final state
  satisfy \<open>P\<close>.
\<close>

definition returns :: "('a \<times> 's) res \<Rightarrow> ('a \<Rightarrow> 's \<Rightarrow> bool) \<Rightarrow> bool" where
  "returns m P \<longleftrightarrow> (\<exists>x s. m = Inr (x, s) \<and> P x s)"

lemma returns_simps [simp]: "returns (Inr (x, s)) P = P x s" "\<not> returns (Inl e) P"
  by (simp_all add: returns_def)

lemma returns_bind [simp]:
  "returns (bindE m (\<lambda>(x, s). f x s)) P \<longleftrightarrow> returns m (\<lambda>x s. returns (f x s) P)"
  by (cases m) auto

lemma returns_mono: "returns m P \<Longrightarrow> (\<And>x s. P x s \<Longrightarrow> Q x s) \<Longrightarrow> returns m Q"
  by (auto simp: returns_def)

lemma returns_conj: "returns m P \<Longrightarrow> returns m Q \<Longrightarrow> returns m (\<lambda>x s. P x s \<and> Q x s)"
  by (auto simp: returns_def)

lemma returnsD: "returns m P \<Longrightarrow> m = Inr (x, s) \<Longrightarrow> P x s"
  by (auto simp: returns_def)

lemma returnsE:
  assumes "returns m P"
  obtains x s where "m = Inr (x, s)" and "P x s"
  using assms by (auto simp: returns_def)

lemma ex_res_mono:
  "\<exists>x s. m = Inr (x, s) \<and> P x s \<Longrightarrow> (\<And>x s. P x s \<Longrightarrow> Q x s) \<Longrightarrow> \<exists>x s. m = Inr (x, s) \<and> Q x s"
  by blast

text \<open>Running an operation a number of times, collecting its results.\<close>

primrec run_n :: "('s \<Rightarrow> ('a \<times> 's) res) \<Rightarrow> nat \<Rightarrow> 's \<Rightarrow> ('a list \<times> 's) res" where
  "run_n f 0 s = Inr ([], s)"
| "run_n f (Suc n) s =
     bindE (f s) (\<lambda>(x, s). bindE (run_n f n s) (\<lambda>(xs, s). Inr (x # xs, s)))"

text \<open>A \<open>for\<close> loop over a list of index values, stopped by a panic.\<close>

primrec for_each :: "('i \<Rightarrow> 's \<Rightarrow> (unit \<times> 's) res) \<Rightarrow> 'i list \<Rightarrow> 's \<Rightarrow> (unit \<times> 's) res" where
  "for_each f [] s = Inr ((), s)"
| "for_each f (i # is) s = bindE (f i s) (\<lambda>(_, s). for_each f is s)"

section \<open>Masks, alignment and pages\<close>

definition align_up :: "u64 \<Rightarrow> u64 \<Rightarrow> u64" where
  "align_up value alignment = (value + alignment - 1) AND NOT (alignment - 1)"

definition align_down :: "u64 \<Rightarrow> u64 \<Rightarrow> u64" where
  "align_down value alignment = value AND NOT (alignment - 1)"

definition PAGE_SIZE :: u64 where
  "PAGE_SIZE = 4096"

definition PAGE_MASK :: u64 where
  "PAGE_MASK = PAGE_SIZE - 1"

text \<open>The base address of the page an address lies in.\<close>

definition page_base :: "u64 \<Rightarrow> u64" where
  "page_base a = a AND NOT PAGE_MASK"

lemma PAGE_MASK_mask: "PAGE_MASK = mask 12"
  by (simp add: PAGE_MASK_def PAGE_SIZE_def mask_eq_exp_minus_1)

lemma unat_and_mask [word_nat]:
  fixes x :: "'a::len word"
  assumes "n < LENGTH('a)"
  shows "unat (x AND mask n) = unat x mod 2 ^ n"
proof -
  have "0 < (2 :: 'a word) ^ n"
    using assms by (simp add: word_gt_0)
  then have "x AND mask n = x mod 2 ^ n"
    by (simp add: word_mod_2p_is_mask)
  then have "unat (x AND mask n) = unat x mod unat ((2 :: 'a word) ^ n)"
    by (simp add: unat_mod)
  also have "unat ((2 :: 'a word) ^ n) = 2 ^ n"
    using assms by transfer (simp add: take_bit_eq_mod nat_mod_distrib nat_power_eq)
  finally show ?thesis .
qed

lemma and_not_mask_eq:
  fixes x :: "'a::len word"
  shows "x AND NOT (mask n) = x - (x AND mask n)"
proof -
  have "(x AND NOT (mask n)) + (x AND mask n) = (x AND NOT (mask n)) OR (x AND mask n)"
    by (rule disjunctive_add) (auto simp: bit_simps)
  also have "\<dots> = x"
    by (rule bit_word_eqI) (auto simp: bit_simps)
  finally show ?thesis by (simp add: eq_diff_eq)
qed

lemma unat_and_not_mask [word_nat]:
  fixes x :: "'a::len word"
  assumes "n < LENGTH('a)"
  shows "unat (x AND NOT (mask n)) = unat x - unat x mod 2 ^ n"
proof -
  have le: "x AND mask n \<le> x"
    by (rule word_and_le2)
  show ?thesis
    using assms by (simp add: and_not_mask_eq unat_sub [OF le] unat_and_mask)
qed

lemma unat64_lt: "unat (a :: u64) < 2 ^ 64"
  using unsigned_less [of a, where ?'a = nat] by simp

lemma unat_PAGE_SIZE [simp]: "unat PAGE_SIZE = 4096"
  by (simp add: PAGE_SIZE_def)

lemma unat_and_PAGE_MASK [word_nat]: "unat (a AND PAGE_MASK) = unat a mod 4096"
  by (simp add: PAGE_MASK_mask unat_and_mask)

lemma unat_page_base [word_nat]: "unat (page_base a) = unat a - unat a mod 4096"
  by (simp add: page_base_def PAGE_MASK_mask unat_and_not_mask)

lemma unat_page_base_div: "unat (page_base a) = unat a div 4096 * 4096"
  by (simp add: unat_page_base minus_mod_eq_div_mult)

lemma page_aligned_iff: "a AND PAGE_MASK = 0 \<longleftrightarrow> unat a mod 4096 = 0"
  by (metis unat_and_PAGE_MASK unat_eq_0)

lemma align_down_page: "align_down a PAGE_SIZE = page_base a"
  by (simp add: align_down_def page_base_def PAGE_MASK_def)

lemma page_base_aligned [simp]: "unat (page_base a) mod 4096 = 0"
  by (simp add: unat_page_base_div)

lemma page_base_le: "page_base a \<le> a"
  by (simp add: page_base_def word_and_le2)

lemma page_base_of_aligned: "unat a mod 4096 = 0 \<Longrightarrow> page_base a = a"
  by (simp add: word_unat_eq_iff unat_page_base)

lemma page_base_idem [simp]: "page_base (page_base a) = page_base a"
  by (simp add: page_base_of_aligned)

lemma align_up_page:
  assumes "unat a + 4095 < 2 ^ 64"
  shows "unat (align_up a PAGE_SIZE) = (unat a + 4095) div 4096 * 4096"
proof -
  have "unat (a + PAGE_SIZE - 1) = unat a + 4095"
    using assms by (simp add: PAGE_SIZE_def unat_word_ariths)
  then show ?thesis
    by (simp add: align_up_def PAGE_MASK_def [symmetric] page_base_def [symmetric] unat_page_base_div)
qed

text \<open>
  An offset inside a power-of-two aligned block neither wraps around nor leaves the block.
\<close>

lemma unat_add_aligned [word_nat]:
  fixes a b :: u64
  assumes "unat a mod n = 0" and "unat b < n" and "n dvd 2 ^ 64"
  shows "unat (a + b) = unat a + unat b"
proof -
  from assms(3) obtain k where k: "(2::nat) ^ 64 = n * k" by (rule dvdE)
  from assms(1) obtain q where q: "unat a = n * q" by auto
  have "unat a < 2 ^ 64" by (rule unat64_lt)
  then have "n * q < n * k" by (simp only: k q)
  then have "q < k" by (simp only: mult_less_cancel1)
  then have "n * q + n \<le> n * k"
    by (metis Suc_leI add.commute mult_Suc_right mult_le_mono2)
  with assms(2) q k have "unat a + unat b < 2 ^ 64" by linarith
  then show ?thesis by (simp add: unat_word_ariths)
qed

lemma page_base_add:
  assumes "unat p mod 4096 = 0" and "unat off < 4096"
  shows "page_base (p + off) = p"
proof -
  have "unat (p + off) = unat p + unat off"
    using assms by (intro unat_add_aligned [of _ 4096]) simp_all
  moreover have "(unat p + unat off) mod 4096 = unat off"
    using assms by (simp add: mod_add_left_eq [symmetric])
  ultimately show ?thesis
    by (simp add: word_unat_eq_iff unat_page_base)
qed

end
