(* ===== verification/Machine.thy ===== *)
theory Machine
  imports Prelude
begin

text \<open>
  The hart and the memory the kernel runs on: the control and status registers the C code
  touches (\<^verbatim>\<open>arch/riscv64/csr.h\<close>), interrupt masking
  (\<^verbatim>\<open>arch/riscv64/irq.h\<close>), byte-addressed physical memory with
  little-endian multi-byte accesses, the byte loops \<open>memory_zero\<close> and
  \<open>memory_copy\<close> that several files define for themselves, and the console of
  \<^verbatim>\<open>drivers/uart.c\<close>.
\<close>

section \<open>The state of the hart\<close>

type_synonym memory = "u64 \<Rightarrow> u8"

text \<open>
  The addresses the linker script assigns. They are constants of a build, so the model
  takes them as given and no operation changes them.
\<close>

record linker =
  page_bitmap_start :: u64
  page_bitmap_end :: u64
  text_start :: u64
  text_end :: u64
  rodata_start :: u64
  rodata_end :: u64
  data_start :: u64
  kernel_end :: u64
  ram_end :: u64
  trampoline_start :: u64
  trampoline_end :: u64
  thread_stacks_base :: u64
  thread_trampoline_addr :: u64
  trap_entry_addr :: u64
  trap_handle_user_addr :: u64
  first_user_exit_return_addr :: u64
  null_task_addr :: u64
  kernel_start :: u64
  stack_top :: u64
  machine_stack_top :: u64
  machine_trap_entry_addr :: u64
  supervisor_main_addr :: u64
  userret_addr :: u64
  usercopy_copy_start :: u64
  usercopy_copy_end :: u64
  usercopy_copy_fixup :: u64
  accel_mmio_addr :: u64
  accel_waiters_addr :: u64

text \<open>
  The hardware state. \<open>cycle_at n\<close> is the value the cycle counter shows at its
  \<open>n\<close>-th read; \<open>sfences\<close> counts executed \<open>sfence.vma\<close>
  instructions. The kernel state of the later theories extends this record, so the
  operations below are polymorphic in the extension.
\<close>

record hw =
  mem :: memory
  sstatus :: u64
  satp :: u64
  sfences :: nat
  console :: string
  cycle_at :: "nat \<Rightarrow> u64"
  cycle_reads :: nat
  link :: linker

definition SSTATUS_SIE :: u64 where "SSTATUS_SIE = 2"
definition SSTATUS_SPIE :: u64 where "SSTATUS_SPIE = 32"
definition SSTATUS_SPP :: u64 where "SSTATUS_SPP = 256"
definition SSTATUS_SUM :: u64 where "SSTATUS_SUM = 0x40000"
definition SATP_MODE_SV39 :: u64 where "SATP_MODE_SV39 = 0x8000000000000000"
definition MCAUSE_INTERRUPT :: u64 where "MCAUSE_INTERRUPT = 0x8000000000000000"
definition MCAUSE_BREAKPOINT :: u64 where "MCAUSE_BREAKPOINT = 3"
definition MCAUSE_ECALL_U_MODE :: u64 where "MCAUSE_ECALL_U_MODE = 8"
definition MCAUSE_INSTRUCTION_PAGE_FAULT :: u64 where "MCAUSE_INSTRUCTION_PAGE_FAULT = 12"
definition MCAUSE_LOAD_PAGE_FAULT :: u64 where "MCAUSE_LOAD_PAGE_FAULT = 13"
definition MCAUSE_STORE_PAGE_FAULT :: u64 where "MCAUSE_STORE_PAGE_FAULT = 15"
definition SCAUSE_SUPERVISOR_TIMER_INTERRUPT :: u64 where "SCAUSE_SUPERVISOR_TIMER_INTERRUPT = 5"

definition csr_set_sstatus :: "u64 \<Rightarrow> 'a hw_scheme \<Rightarrow> 'a hw_scheme" where
  "csr_set_sstatus bits s = s\<lparr>sstatus := sstatus s OR bits\<rparr>"

definition csr_clear_sstatus :: "u64 \<Rightarrow> 'a hw_scheme \<Rightarrow> 'a hw_scheme" where
  "csr_clear_sstatus bits s = s\<lparr>sstatus := sstatus s AND NOT bits\<rparr>"

definition csr_read_cycle :: "'a hw_scheme \<Rightarrow> u64 \<times> 'a hw_scheme" where
  "csr_read_cycle s = (cycle_at s (cycle_reads s), s\<lparr>cycle_reads := Suc (cycle_reads s)\<rparr>)"

definition sfence_vma :: "'a hw_scheme \<Rightarrow> 'a hw_scheme" where
  "sfence_vma s = s\<lparr>sfences := Suc (sfences s)\<rparr>"

section \<open>Interrupt masking\<close>

definition irq_save :: "'a hw_scheme \<Rightarrow> u64 \<times> 'a hw_scheme" where
  "irq_save s = (sstatus s, csr_clear_sstatus SSTATUS_SIE s)"

definition irq_restore :: "u64 \<Rightarrow> 'a hw_scheme \<Rightarrow> 'a hw_scheme" where
  "irq_restore state s =
     (if state AND SSTATUS_SIE \<noteq> 0 then csr_set_sstatus SSTATUS_SIE s
      else csr_clear_sstatus SSTATUS_SIE s)"

definition irq_enable :: "'a hw_scheme \<Rightarrow> 'a hw_scheme" where
  "irq_enable s = csr_set_sstatus SSTATUS_SIE s"

definition irq_disable :: "'a hw_scheme \<Rightarrow> 'a hw_scheme" where
  "irq_disable s = csr_clear_sstatus SSTATUS_SIE s"

text \<open>
  The kernel's critical-section idiom: \<open>irq_save()\<close> first, \<open>irq_restore()\<close>
  on every path that returns. A panic leaves the section with interrupts still masked.
\<close>

definition irq_masked ::
  "('a hw_scheme \<Rightarrow> ('b \<times> 'a hw_scheme) res) \<Rightarrow> 'a hw_scheme \<Rightarrow> ('b \<times> 'a hw_scheme) res"
where
  "irq_masked body s =
     (case irq_save s of (state, s) \<Rightarrow>
        bindE (body s) (\<lambda>(x, s). Inr (x, irq_restore state s)))"

section \<open>Memory accesses\<close>

definition read16 :: "memory \<Rightarrow> u64 \<Rightarrow> u16" where
  "read16 m a = ucast (m a) OR push_bit 8 (ucast (m (a + 1)))"

definition write16 :: "memory \<Rightarrow> u64 \<Rightarrow> u16 \<Rightarrow> memory" where
  "write16 m a v = m(a := ucast v, a + 1 := ucast (drop_bit 8 v))"

definition read32 :: "memory \<Rightarrow> u64 \<Rightarrow> u32" where
  "read32 m a = ucast (m a) OR push_bit 8 (ucast (m (a + 1)))
     OR push_bit 16 (ucast (m (a + 2))) OR push_bit 24 (ucast (m (a + 3)))"

definition write32 :: "memory \<Rightarrow> u64 \<Rightarrow> u32 \<Rightarrow> memory" where
  "write32 m a v = m(a := ucast v, a + 1 := ucast (drop_bit 8 v),
     a + 2 := ucast (drop_bit 16 v), a + 3 := ucast (drop_bit 24 v))"

definition read64 :: "memory \<Rightarrow> u64 \<Rightarrow> u64" where
  "read64 m a = ucast (m a) OR push_bit 8 (ucast (m (a + 1)))
     OR push_bit 16 (ucast (m (a + 2))) OR push_bit 24 (ucast (m (a + 3)))
     OR push_bit 32 (ucast (m (a + 4))) OR push_bit 40 (ucast (m (a + 5)))
     OR push_bit 48 (ucast (m (a + 6))) OR push_bit 56 (ucast (m (a + 7)))"

definition write64 :: "memory \<Rightarrow> u64 \<Rightarrow> u64 \<Rightarrow> memory" where
  "write64 m a v = m(a := ucast v, a + 1 := ucast (drop_bit 8 v),
     a + 2 := ucast (drop_bit 16 v), a + 3 := ucast (drop_bit 24 v),
     a + 4 := ucast (drop_bit 32 v), a + 5 := ucast (drop_bit 40 v),
     a + 6 := ucast (drop_bit 48 v), a + 7 := ucast (drop_bit 56 v))"

definition load64 :: "u64 \<Rightarrow> 'a hw_scheme \<Rightarrow> u64" where
  "load64 a s = read64 (mem s) a"

definition store64 :: "u64 \<Rightarrow> u64 \<Rightarrow> 'a hw_scheme \<Rightarrow> 'a hw_scheme" where
  "store64 a v s = s\<lparr>mem := write64 (mem s) a v\<rparr>"

text \<open>
  The byte loops, one step per iteration. \<open>fill_bytes\<close> stores the same byte at
  \<open>n\<close> consecutive addresses; \<open>memory_zero\<close> is its instance for 0.
\<close>

primrec fill_bytes :: "memory \<Rightarrow> u64 \<Rightarrow> u8 \<Rightarrow> nat \<Rightarrow> memory" where
  "fill_bytes m p v 0 = m"
| "fill_bytes m p v (Suc n) = (fill_bytes m p v n)(p + of_nat n := v)"

definition memory_zero :: "u64 \<Rightarrow> u64 \<Rightarrow> 'a hw_scheme \<Rightarrow> 'a hw_scheme" where
  "memory_zero p sz s = s\<lparr>mem := fill_bytes (mem s) p 0 (unat sz)\<rparr>"

primrec copy_bytes :: "memory \<Rightarrow> u64 \<Rightarrow> u64 \<Rightarrow> nat \<Rightarrow> memory" where
  "copy_bytes m dst src 0 = m"
| "copy_bytes m dst src (Suc n) =
     (let m' = copy_bytes m dst src n in m'(dst + of_nat n := m' (src + of_nat n)))"

definition memory_copy :: "u64 \<Rightarrow> u64 \<Rightarrow> u64 \<Rightarrow> 'a hw_scheme \<Rightarrow> 'a hw_scheme" where
  "memory_copy dst src sz s = s\<lparr>mem := copy_bytes (mem s) dst src (unat sz)\<rparr>"

section \<open>The console\<close>

text \<open>
  \<open>uart_putc\<close> waits until the transmitter is ready and writes one byte. The wait is
  the device's; the model records the bytes in the order they are written.
\<close>

definition uart_putc :: "char \<Rightarrow> 'a hw_scheme \<Rightarrow> 'a hw_scheme" where
  "uart_putc c s = s\<lparr>console := console s @ [c]\<rparr>"

definition console_putc :: "char \<Rightarrow> 'a hw_scheme \<Rightarrow> 'a hw_scheme" where
  "console_putc c s =
     (let s = (if c = CHR 0x0A then uart_putc CHR 0x0D s else s) in uart_putc c s)"

primrec console_write :: "string \<Rightarrow> 'a hw_scheme \<Rightarrow> 'a hw_scheme" where
  "console_write [] s = s"
| "console_write (c # cs) s = console_write cs (console_putc c s)"

definition hex_digits :: string where
  "hex_digits = ''0123456789abcdef''"

definition hex_digit :: "u64 \<Rightarrow> nat \<Rightarrow> char" where
  "hex_digit value shift = hex_digits ! unat (drop_bit shift value AND 0xf)"

definition console_write_hex64 :: "u64 \<Rightarrow> 'a hw_scheme \<Rightarrow> 'a hw_scheme" where
  "console_write_hex64 value s =
     fold (\<lambda>shift. console_putc (hex_digit value shift))
       [60, 56, 52, 48, 44, 40, 36, 32, 28, 24, 20, 16, 12, 8, 4, 0]
       (console_write ''0x'' s)"

section \<open>Critical sections are transparent\<close>

text \<open>
  A body that neither reads nor writes \<open>sstatus\<close> behaves the same inside
  \<open>irq_masked\<close>: the interrupt-enable bit is back to its old value whenever the
  operation returns.
\<close>

definition irq_neutral :: "('a hw_scheme \<Rightarrow> ('b \<times> 'a hw_scheme) res) \<Rightarrow> bool" where
  "irq_neutral body \<longleftrightarrow>
     (\<forall>s v. body (s\<lparr>sstatus := v\<rparr>) = map_sum id (map_prod id (\<lambda>t. t\<lparr>sstatus := v\<rparr>)) (body s))"

named_theorems neutral \<open>operations that leave sstatus alone\<close>

lemma irq_neutralI:
  "(\<And>s v. body (s\<lparr>sstatus := v\<rparr>) = map_sum id (map_prod id (\<lambda>t. t\<lparr>sstatus := v\<rparr>)) (body s))
   \<Longrightarrow> irq_neutral body"
  by (simp add: irq_neutral_def)

lemma irq_neutralD:
  "irq_neutral body \<Longrightarrow>
   body (s\<lparr>sstatus := v\<rparr>) = map_sum id (map_prod id (\<lambda>t. t\<lparr>sstatus := v\<rparr>)) (body s)"
  by (simp add: irq_neutral_def)

lemma restore_set_bit:
  fixes w :: "'a::len word"
  assumes "w AND 2 ^ k \<noteq> 0"
  shows "(w AND NOT (2 ^ k)) OR 2 ^ k = w"
proof -
  from assms obtain n where "bit w n" "bit (2 ^ k :: 'a word) n"
    by (auto simp: bit_eq_iff bit_simps)
  then have "bit w k" by (auto simp: bit_simps)
  then show ?thesis
    by (auto intro!: bit_word_eqI simp: bit_simps)
qed

lemma restore_clear_bit:
  fixes w :: "'a::len word"
  assumes "w AND b = 0"
  shows "w AND NOT b = w"
  using assms by (auto intro!: bit_word_eqI simp: bit_simps bit_eq_iff)

lemma irq_restore_saved:
  "irq_restore w (t\<lparr>sstatus := w AND NOT SSTATUS_SIE\<rparr>) = t\<lparr>sstatus := w\<rparr>"
  using restore_set_bit [of w 1] restore_clear_bit [of w 2]
  by (simp add: irq_restore_def csr_set_sstatus_def csr_clear_sstatus_def SSTATUS_SIE_def)

lemma irq_neutral_sstatus:
  assumes "irq_neutral body" and "body s = Inr (x, t)"
  shows "sstatus t = sstatus s"
proof -
  have "Inr (x, t) = body (s\<lparr>sstatus := sstatus s\<rparr>)"
    using assms(2) by simp
  also have "\<dots> = Inr (x, t\<lparr>sstatus := sstatus s\<rparr>)"
    using assms by (simp only: irq_neutralD) simp
  finally have "sstatus t = sstatus (t\<lparr>sstatus := sstatus s\<rparr>)" by simp
  then show ?thesis by simp
qed

lemma irq_masked_neutral:
  assumes "irq_neutral body"
  shows "irq_masked body s = body s"
proof (cases "body s")
  case (Inl e)
  then show ?thesis
    using irq_neutralD [OF assms, where s = s]
    by (simp add: irq_masked_def irq_save_def csr_clear_sstatus_def)
next
  case (Inr r)
  then obtain x t where r: "body s = Inr (x, t)" by (cases r) auto
  with assms have "sstatus t = sstatus s" by (rule irq_neutral_sstatus)
  then have "t\<lparr>sstatus := sstatus s\<rparr> = t" by simp
  with r show ?thesis
    using irq_neutralD [OF assms, where s = s]
    by (simp add: irq_masked_def irq_save_def csr_clear_sstatus_def irq_restore_saved)
qed

lemma neutral_masked [neutral]: "irq_neutral body \<Longrightarrow> irq_neutral (irq_masked body)"
  by (simp add: irq_masked_neutral irq_neutral_def)

lemma neutral_bind [neutral]:
  assumes "irq_neutral f" and "\<And>x. irq_neutral (g x)"
  shows "irq_neutral (\<lambda>s. bindE (f s) (\<lambda>(x, s). g x s))"
proof (rule irq_neutralI)
  fix s v
  show "bindE (f (s\<lparr>sstatus := v\<rparr>)) (\<lambda>(x, s). g x s) =
    map_sum id (map_prod id (\<lambda>t. t\<lparr>sstatus := v\<rparr>)) (bindE (f s) (\<lambda>(x, s). g x s))"
    using irq_neutralD [OF assms(1), where s = s and v = v] irq_neutralD [OF assms(2)]
    by (cases "f s") auto
qed

lemma neutral_return [neutral]: "irq_neutral (\<lambda>s. Inr (x, s))"
  by (rule irq_neutralI) simp

lemma neutral_if:
  assumes "irq_neutral f" "irq_neutral g" and "\<And>s v. P (s\<lparr>sstatus := v\<rparr>) = P s"
  shows "irq_neutral (\<lambda>s. if P s then f s else g s)"
  using assms by (simp add: irq_neutral_def)

text \<open>A body after a state update that commutes with a change of \<open>sstatus\<close>.\<close>

lemma neutral_after:
  assumes "irq_neutral f" and "\<And>s v. u (s\<lparr>sstatus := v\<rparr>) = (u s)\<lparr>sstatus := v\<rparr>"
  shows "irq_neutral (\<lambda>s. f (u s))"
  using assms by (simp add: irq_neutral_def)

lemma neutral_param:
  assumes "\<And>x. irq_neutral (f x)" and "\<And>s v. g (s\<lparr>sstatus := v\<rparr>) = g s"
  shows "irq_neutral (\<lambda>s. f (g s) s)"
  using assms by (simp add: irq_neutral_def)

end
