(* ===== verification/Memory_Laws.thy ===== *)
theory Memory_Laws
  imports Machine
begin

text \<open>
  The laws of the multi-byte accesses, stated once for any access width in the locale
  \<open>mem_cell\<close> and interpreted for the 16, 32 and 64 bit accesses of the kernel, and
  the effect of the byte loops on a single byte and on a whole page.
\<close>

section \<open>An access of some width\<close>

locale mem_cell =
  fixes rd :: "memory \<Rightarrow> u64 \<Rightarrow> 'v"
    and wr :: "memory \<Rightarrow> u64 \<Rightarrow> 'v \<Rightarrow> memory"
    and width :: nat
  assumes width_pos: "0 < width"
    and width_dvd: "width dvd 8"
    and rd_wr: "rd (wr m a v) a = v"
    and wr_outside: "(\<And>i. i < width \<Longrightarrow> b \<noteq> a + of_nat i) \<Longrightarrow> wr m a v b = m b"
    and wr_rd: "wr m a (rd m a) = m"
    and wr_wr: "wr (wr m a v) a w = wr m a w"
    and rd_local: "(\<And>i. i < width \<Longrightarrow> m (a + of_nat i) = m' (a + of_nat i)) \<Longrightarrow> rd m a = rd m' a"
begin

lemma width_le: "width \<le> 8"
  using width_dvd by (simp add: dvd_imp_le)

lemma cell_unat:
  fixes a :: u64
  assumes "unat a mod width = 0" and "i < width"
  shows "unat (a + of_nat i) = unat a + i"
proof -
  have i: "unat (of_nat i :: u64) = i"
    using assms(2) width_le by (simp add: unat_of_nat)
  have "width dvd 2 ^ 64"
    using width_dvd by (rule dvd_trans) simp
  then have "unat (a + of_nat i) = unat a + unat (of_nat i :: u64)"
    using unat_add_aligned [OF assms(1), of "of_nat i"] assms(2) i by simp
  with i show ?thesis by simp
qed

lemma cell_div:
  fixes a :: u64
  assumes "unat a mod width = 0" and "i < width"
  shows "unat (a + of_nat i) div width = unat a div width"
  using assms by (auto simp: cell_unat)

text \<open>Two distinct aligned cells share no byte.\<close>

lemma rd_wr_aligned:
  assumes "unat a mod width = 0" and "unat b mod width = 0" and "a \<noteq> b"
  shows "rd (wr m b v) a = rd m a"
proof (rule rd_local)
  fix i assume i: "i < width"
  have "unat a div width \<noteq> unat b div width"
    using assms by (metis add.right_neutral div_mult_mod_eq word_unat_eq_iff)
  then have "a + of_nat i \<noteq> b + of_nat j" if "j < width" for j
    using cell_div [OF assms(1) i] cell_div [OF assms(2) that] by metis
  then show "wr m b v (a + of_nat i) = m (a + of_nat i)"
    by (rule wr_outside)
qed

lemma cell_page:
  assumes "unat a mod width = 0" and "i < width"
  shows "page_base (a + of_nat i) = page_base a"
proof -
  obtain k where k: "8 = width * k" using width_dvd by (rule dvdE)
  have "unat (a + of_nat i) div width = unat a div width"
    using assms by (rule cell_div)
  then have "unat (a + of_nat i) div (width * (k * 512)) = unat a div (width * (k * 512))"
    by (simp add: div_mult2_eq)
  moreover have "width * (k * 512) = 4096" using k by (simp add: mult.commute)
  ultimately show ?thesis
    by (simp add: word_unat_eq_iff unat_page_base_div)
qed

text \<open>An aligned access stays in its page, so it sees and changes that page only.\<close>

lemma wr_other_page:
  assumes "unat a mod width = 0" and "page_base b \<noteq> page_base a"
  shows "wr m a v b = m b"
  using assms by (intro wr_outside) (metis cell_page)

lemma rd_page_cong:
  assumes "unat a mod width = 0" and "\<And>b. page_base b = page_base a \<Longrightarrow> m b = m' b"
  shows "rd m a = rd m' a"
  using assms by (intro rd_local) (simp add: cell_page)

end

section \<open>The kernel's accesses\<close>

lemma byte_of_word:
  fixes w :: "'a::len word"
  shows "ucast (ucast w :: u8) = take_bit 8 w"
  by (rule bit_word_eqI) (auto simp: bit_simps)

lemma or_next_byte:
  fixes v :: "'a::len word"
  shows "take_bit n v OR push_bit n (take_bit 8 (drop_bit n v)) = take_bit (n + 8) v"
  by (rule bit_word_eqI) (auto simp: bit_simps)

lemmas join_bytes = byte_of_word or_next_byte [of 8, simplified] or_next_byte [of 16, simplified]
  or_next_byte [of 24, simplified] or_next_byte [of 32, simplified] or_next_byte [of 40, simplified]
  or_next_byte [of 48, simplified] or_next_byte [of 56, simplified]

lemma take_bit_all:
  fixes v :: "'a::len word"
  assumes "LENGTH('a) \<le> n"
  shows "take_bit n v = v"
  using assms by (auto intro!: bit_word_eqI simp: bit_simps)

lemma ball_bytes:
  "(\<forall>i<2::nat. P i) \<longleftrightarrow> P 0 \<and> P 1"
  "(\<forall>i<4::nat. P i) \<longleftrightarrow> P 0 \<and> P 1 \<and> P 2 \<and> P 3"
  "(\<forall>i<8::nat. P i) \<longleftrightarrow> P 0 \<and> P 1 \<and> P 2 \<and> P 3 \<and> P 4 \<and> P 5 \<and> P 6 \<and> P 7"
  by (simp_all add: eval_nat_numeral All_less_Suc conj_ac)

lemma bit_byte_at:
  fixes x :: u8
  assumes "j + 8 \<le> LENGTH('a)"
  shows "bit (push_bit j (ucast x) :: 'a::len word) n \<longleftrightarrow> j \<le> n \<and> n < j + 8 \<and> bit x (n - j)"
  using assms bit_imp_le_length [of x "n - j"] by (auto simp: bit_simps)

lemma bit_byte_0:
  fixes x :: u8
  assumes "8 \<le> LENGTH('a)"
  shows "bit (ucast x :: 'a::len word) n \<longleftrightarrow> n < 8 \<and> bit x n"
  using assms bit_imp_le_length [of x n] by (auto simp: bit_simps)

lemma byte_ext:
  fixes w :: "'a::len word" and x :: u8
  assumes "\<And>n. n < 8 \<Longrightarrow> bit w (j + n) \<longleftrightarrow> bit x n"
  shows "ucast (drop_bit j w) = x"
  using assms by (intro bit_word_eqI) (simp add: bit_ucast_iff bit_drop_bit_eq)

lemmas bit_byte = bit_byte_at bit_byte_0 bit_or_iff

lemma byte_read16:
  "ucast (drop_bit 0 (read16 m a)) = m a" "ucast (drop_bit 8 (read16 m a)) = m (a + 1)"
  by (rule byte_ext, simp add: read16_def bit_byte)+

lemma byte_read32:
  "ucast (drop_bit 0 (read32 m a)) = m a" "ucast (drop_bit 8 (read32 m a)) = m (a + 1)"
  "ucast (drop_bit 16 (read32 m a)) = m (a + 2)" "ucast (drop_bit 24 (read32 m a)) = m (a + 3)"
  by (rule byte_ext, simp add: read32_def bit_byte)+

lemma byte_read64:
  "ucast (drop_bit 0 (read64 m a)) = m a" "ucast (drop_bit 8 (read64 m a)) = m (a + 1)"
  "ucast (drop_bit 16 (read64 m a)) = m (a + 2)" "ucast (drop_bit 24 (read64 m a)) = m (a + 3)"
  "ucast (drop_bit 32 (read64 m a)) = m (a + 4)" "ucast (drop_bit 40 (read64 m a)) = m (a + 5)"
  "ucast (drop_bit 48 (read64 m a)) = m (a + 6)" "ucast (drop_bit 56 (read64 m a)) = m (a + 7)"
  by (rule byte_ext, simp add: read64_def bit_byte)+

interpretation cell16: mem_cell read16 write16 2
proof (unfold_locales, goal_cases)
  case (3 m a v)
  show ?case
    by (simp add: read16_def write16_def join_bytes take_bit_all)
next
  case (4 b a m v)
  then have "\<forall>i<2. b \<noteq> a + of_nat i" by blast
  then show ?case by (simp add: ball_bytes write16_def)
next
  case (5 m a)
  show ?case
    by (simp add: write16_def byte_read16 [simplified])
next
  case (6 m a v w)
  show ?case
    by (rule ext) (simp add: write16_def)
next
  case (7 m a m')
  then have "\<forall>i<2. m (a + of_nat i) = m' (a + of_nat i)" by blast
  then show ?case by (simp add: ball_bytes read16_def)
qed simp_all

interpretation cell32: mem_cell read32 write32 4
proof (unfold_locales, goal_cases)
  case (3 m a v)
  show ?case
    by (simp add: read32_def write32_def join_bytes take_bit_all or.assoc [symmetric])
next
  case (4 b a m v)
  then have "\<forall>i<4. b \<noteq> a + of_nat i" by blast
  then show ?case by (simp add: ball_bytes write32_def)
next
  case (5 m a)
  show ?case
    by (simp add: write32_def byte_read32 [simplified])
next
  case (6 m a v w)
  show ?case
    by (rule ext) (simp add: write32_def)
next
  case (7 m a m')
  then have "\<forall>i<4. m (a + of_nat i) = m' (a + of_nat i)" by blast
  then show ?case by (simp add: ball_bytes read32_def)
qed simp_all

interpretation cell64: mem_cell read64 write64 8
proof (unfold_locales, goal_cases)
  case (3 m a v)
  show ?case
    by (simp add: read64_def write64_def join_bytes take_bit_all or.assoc [symmetric])
next
  case (4 b a m v)
  then have "\<forall>i<8. b \<noteq> a + of_nat i" by blast
  then show ?case by (simp add: ball_bytes write64_def)
next
  case (5 m a)
  show ?case
    by (simp add: write64_def byte_read64 [simplified])
next
  case (6 m a v w)
  show ?case
    by (rule ext) (simp add: write64_def)
next
  case (7 m a m')
  then have "\<forall>i<8. m (a + of_nat i) = m' (a + of_nat i)" by blast
  then show ?case by (simp add: ball_bytes read64_def)
qed simp_all

section \<open>The byte loops\<close>

lemma word_eq_of_nat:
  fixes w :: u64
  assumes "n < 2 ^ 64"
  shows "w = of_nat n \<longleftrightarrow> unat w = n"
  using assms by (auto simp: unat_of_nat)

lemma fill_bytes_apply:
  assumes "n \<le> 2 ^ 64"
  shows "fill_bytes m p v n a = (if unat (a - p) < n then v else m a)"
  using assms
proof (induction n)
  case 0
  then show ?case by simp
next
  case (Suc n)
  have "a = p + of_nat n \<longleftrightarrow> a - p = of_nat n"
    by (auto simp: algebra_simps)
  with Suc.prems have "a = p + of_nat n \<longleftrightarrow> unat (a - p) = n"
    by (simp add: word_eq_of_nat)
  with Suc show ?case by auto
qed

lemma copy_bytes_outside:
  assumes "n \<le> 2 ^ 64" and "n \<le> unat (a - dst)"
  shows "copy_bytes m dst src n a = m a"
  using assms
proof (induction n)
  case 0
  then show ?case by simp
next
  case (Suc n)
  then have "a \<noteq> dst + of_nat n"
    by (auto simp: unat_of_nat)
  with Suc show ?case by (simp add: Let_def)
qed

text \<open>When no source byte is overwritten, the copy is exact.\<close>

lemma copy_bytes_copies:
  assumes "i < n" and "n \<le> 2 ^ 64"
    and disj: "\<And>i. i < n \<Longrightarrow> n \<le> unat (src + of_nat i - dst)"
  shows "copy_bytes m dst src n (dst + of_nat i) = m (src + of_nat i)"
proof -
  have "copy_bytes m dst src k (dst + of_nat i) = m (src + of_nat i)" if "i < k" "k \<le> n" for k
    using that
  proof (induction k)
    case 0
    then show ?case by simp
  next
    case (Suc k)
    have src: "copy_bytes m dst src k (src + of_nat k) = m (src + of_nat k)"
      using Suc.prems disj [of k] assms(2) by (intro copy_bytes_outside) simp_all
    have eq: "dst + of_nat i = dst + (of_nat k :: u64) \<longleftrightarrow> i = k"
      using Suc.prems assms(2) by (simp add: word_eq_of_nat unat_of_nat)
    show ?case
    proof (cases "i = k")
      case True
      then show ?thesis by (simp add: Let_def src)
    next
      case False
      with Suc eq show ?thesis by (simp add: Let_def)
    qed
  qed
  with assms(1) show ?thesis by simp
qed

end
