(* ===== verification/Page_Alloc.thy ===== *)
theory Page_Alloc
  imports Memory_Laws
begin

text \<open>
  The physical page allocator, \<^verbatim>\<open>kernel/memory/page_alloc.c\<close>: a bitmap
  with one bit per managed page, a free counter and a next-fit hint. The theory ends with
  the interface the rest of the kernel relies on, the locale \<open>frame_allocator\<close>,
  and its interpretation on the code's operations.
\<close>

section \<open>State and operations\<close>

text \<open>
  The file's static variables. The bitmap's words live between two linker symbols and no
  other code touches them, so they are a list here; its length is \<open>page_bitmap_words\<close>.
\<close>

record pages = hw +
  page_bitmap :: "u64 list"
  page_bitmap_words :: u64
  managed_start :: u64
  managed_end :: u64
  total_pages :: u64
  free_pages :: u64
  next_free_hint :: u64
  page_allocator_initialized :: bool

definition BITMAP_WORD_BITS :: u64 where
  "BITMAP_WORD_BITS = 64"

definition bitmap_capacity_pages :: "'a pages_scheme \<Rightarrow> u64" where
  "bitmap_capacity_pages s = page_bitmap_words s * BITMAP_WORD_BITS"

definition bitmap_test :: "u64 list \<Rightarrow> u64 \<Rightarrow> bool" where
  "bitmap_test bm index =
     (let word = index div BITMAP_WORD_BITS; bit = index mod BITMAP_WORD_BITS
      in (bm ! unat word) AND push_bit (unat bit) 1 \<noteq> 0)"

definition bitmap_set :: "u64 list \<Rightarrow> u64 \<Rightarrow> u64 list" where
  "bitmap_set bm index =
     (let word = index div BITMAP_WORD_BITS; bit = index mod BITMAP_WORD_BITS
      in bm[unat word := (bm ! unat word) OR push_bit (unat bit) 1])"

definition bitmap_clear :: "u64 list \<Rightarrow> u64 \<Rightarrow> u64 list" where
  "bitmap_clear bm index =
     (let word = index div BITMAP_WORD_BITS; bit = index mod BITMAP_WORD_BITS
      in bm[unat word := (bm ! unat word) AND NOT (push_bit (unat bit) 1)])"

definition page_addr_from_index :: "'a pages_scheme \<Rightarrow> u64 \<Rightarrow> u64" where
  "page_addr_from_index s index = managed_start s + index * PAGE_SIZE"

definition page_index_from_addr :: "'a pages_scheme \<Rightarrow> u64 \<Rightarrow> u64" where
  "page_index_from_addr s addr = (addr - managed_start s) div PAGE_SIZE"

definition page_init :: "u64 \<Rightarrow> u64 \<Rightarrow> 'a pages_scheme \<Rightarrow> (unit \<times> 'a pages_scheme) res" where
  "page_init mem_start mem_end = irq_masked (\<lambda>s.
     let bitmap_bytes = page_bitmap_end (link s) - page_bitmap_start (link s) in
     if bitmap_bytes mod 8 \<noteq> 0 then Inl ''page bitmap is not word aligned''
     else let s = s\<lparr>page_bitmap_words := bitmap_bytes div 8\<rparr>;
              s = s\<lparr>page_bitmap := replicate (unat (page_bitmap_words s)) 0\<rparr>;
              s = s\<lparr>managed_start := align_up mem_start PAGE_SIZE\<rparr>;
              s = s\<lparr>managed_end := align_down mem_end PAGE_SIZE\<rparr> in
     if managed_end s < managed_start s then Inl ''invalid physical memory range''
     else let s = s\<lparr>total_pages := (managed_end s - managed_start s) div PAGE_SIZE\<rparr> in
     if total_pages s > bitmap_capacity_pages s then Inl ''page bitmap too small''
     else Inr ((), s\<lparr>free_pages := total_pages s, next_free_hint := 0,
                     page_allocator_initialized := True\<rparr>))"

text \<open>The search loop of \<open>page_alloc\<close>, from a given value of \<open>offset\<close> on.\<close>

function page_alloc_scan :: "'a pages_scheme \<Rightarrow> u64 \<Rightarrow> u64 option" where
  "page_alloc_scan s offset =
     (if offset < total_pages s
      then let i = (next_free_hint s + offset) mod total_pages s in
        if bitmap_test (page_bitmap s) i then page_alloc_scan s (offset + 1)
        else Some i
      else None)"
  by pat_completeness auto
termination
proof (relation "measure (\<lambda>(s, offset). unat (total_pages s - offset))", goal_cases)
  case 1
  show ?case by simp
next
  case (2 s offset i)
  then have lt: "unat offset < unat (total_pages s)" by (simp add: word_less_nat_alt)
  then have suc: "unat (offset + 1) = Suc (unat offset)"
    using unat64_lt [of "total_pages s"] by (simp add: unat_word_ariths)
  from lt suc have "offset \<le> total_pages s" and "offset + 1 \<le> total_pages s"
    by (simp_all add: word_le_nat_alt)
  with lt suc show ?case by (simp add: unat_sub)
qed

declare page_alloc_scan.simps [simp del]

definition page_alloc :: "'a pages_scheme \<Rightarrow> (u64 \<times> 'a pages_scheme) res" where
  "page_alloc = irq_masked (\<lambda>s.
     if \<not> page_allocator_initialized s then Inl ''page_alloc before page_init''
     else case page_alloc_scan s 0 of
       Some i \<Rightarrow>
         let s = s\<lparr>page_bitmap := bitmap_set (page_bitmap s) i\<rparr>;
             s = s\<lparr>free_pages := free_pages s - 1\<rparr>;
             s = s\<lparr>next_free_hint := (if total_pages s = 0 then 0 else (i + 1) mod total_pages s)\<rparr>
         in Inr (page_addr_from_index s i, s)
     | None \<Rightarrow> Inr (0, s))"

definition page_free :: "u64 \<Rightarrow> 'a pages_scheme \<Rightarrow> (unit \<times> 'a pages_scheme) res" where
  "page_free addr = irq_masked (\<lambda>s.
     if \<not> page_allocator_initialized s then Inl ''page_free before page_init''
     else if addr AND PAGE_MASK \<noteq> 0 \<or> addr < managed_start s \<or> addr \<ge> managed_end s
     then Inl ''invalid page_free address''
     else let index = page_index_from_addr s addr in
     if \<not> bitmap_test (page_bitmap s) index then Inl ''double page_free''
     else let s = s\<lparr>page_bitmap := bitmap_clear (page_bitmap s) index\<rparr>;
              s = s\<lparr>free_pages := free_pages s + 1\<rparr>
          in Inr ((), if index < next_free_hint s then s\<lparr>next_free_hint := index\<rparr> else s))"

definition page_free_count :: "'a pages_scheme \<Rightarrow> (u64 \<times> 'a pages_scheme) res" where
  "page_free_count = irq_masked (\<lambda>s.
     if \<not> page_allocator_initialized s then Inl ''page_free_count before page_init''
     else Inr (free_pages s, s))"

definition page_total_count :: "'a pages_scheme \<Rightarrow> (u64 \<times> 'a pages_scheme) res" where
  "page_total_count = irq_masked (\<lambda>s.
     if \<not> page_allocator_initialized s then Inl ''page_total_count before page_init''
     else Inr (total_pages s, s))"

definition page_managed_start :: "'a pages_scheme \<Rightarrow> u64" where
  "page_managed_start s = managed_start s"

definition page_managed_end :: "'a pages_scheme \<Rightarrow> u64" where
  "page_managed_end s = managed_end s"

definition page_range_is_managed_page_contained :: "u64 \<Rightarrow> u64 \<Rightarrow> 'a pages_scheme \<Rightarrow> bool" where
  "page_range_is_managed_page_contained addr len s =
     (if \<not> page_allocator_initialized s \<or> len = 0 then False
      else let end' = addr + len - 1 in
        if end' < addr then False
        else if addr < managed_start s \<or> end' \<ge> managed_end s then False
        else addr AND NOT PAGE_MASK = end' AND NOT PAGE_MASK)"

section \<open>The allocator's invariant\<close>

text \<open>
  \<open>used_pages\<close> are the indices whose bit is set, \<open>allocated\<close> the addresses
  handed out and not yet given back, \<open>managed_frames\<close> every address the allocator
  can hand out.
\<close>

definition used_pages :: "'a pages_scheme \<Rightarrow> u64 set" where
  "used_pages s = {i. i < total_pages s \<and> bitmap_test (page_bitmap s) i}"

definition allocated :: "'a pages_scheme \<Rightarrow> u64 set" where
  "allocated s = page_addr_from_index s ` used_pages s"

definition managed_frames :: "'a pages_scheme \<Rightarrow> u64 set" where
  "managed_frames s = page_addr_from_index s ` {i. i < total_pages s}"

definition pages_inv :: "'a pages_scheme \<Rightarrow> bool" where
  "pages_inv s \<longleftrightarrow>
     page_allocator_initialized s \<and>
     managed_start s \<noteq> 0 \<and>
     unat (managed_start s) mod 4096 = 0 \<and>
     unat (managed_end s) = unat (managed_start s) + unat (total_pages s) * 4096 \<and>
     length (page_bitmap s) = unat (page_bitmap_words s) \<and>
     unat (total_pages s) \<le> length (page_bitmap s) * 64 \<and>
     unat (free_pages s) + card (used_pages s) = unat (total_pages s) \<and>
     (next_free_hint s < total_pages s \<or> next_free_hint s = 0)"

section \<open>The bitmap\<close>

lemma bitmap_test_bit:
  "bitmap_test bm i \<longleftrightarrow> bit (bm ! (unat i div 64)) (unat i mod 64)"
  by (simp add: bitmap_test_def BITMAP_WORD_BITS_def Let_def unat_div unat_mod
      and_exp_eq_0_iff_not_bit)

lemma index_split:
  fixes i j :: u64
  shows "unat i div 64 = unat j div 64 \<Longrightarrow> unat i mod 64 = unat j mod 64 \<longleftrightarrow> i = j"
  by (metis div_mult_mod_eq word_unat_eq_iff)

lemma bitmap_test_set:
  assumes "unat i div 64 < length bm"
  shows "bitmap_test (bitmap_set bm i) j \<longleftrightarrow> j = i \<or> bitmap_test bm j"
  using assms index_split [of i j]
  by (cases "unat j div 64 = unat i div 64")
     (auto simp: bitmap_test_bit bitmap_set_def BITMAP_WORD_BITS_def Let_def unat_div unat_mod
       bit_simps)

lemma bitmap_test_clear:
  assumes "unat i div 64 < length bm"
  shows "bitmap_test (bitmap_clear bm i) j \<longleftrightarrow> j \<noteq> i \<and> bitmap_test bm j"
  using assms index_split [of i j]
  by (cases "unat j div 64 = unat i div 64")
     (auto simp: bitmap_test_bit bitmap_clear_def BITMAP_WORD_BITS_def Let_def unat_div unat_mod
       bit_simps)

lemma length_bitmap_set [simp]: "length (bitmap_set bm i) = length bm"
  by (simp add: bitmap_set_def Let_def)

lemma length_bitmap_clear [simp]: "length (bitmap_clear bm i) = length bm"
  by (simp add: bitmap_clear_def Let_def)

lemma bitmap_test_replicate: "unat i div 64 < n \<Longrightarrow> \<not> bitmap_test (replicate n 0) i"
  by (simp add: bitmap_test_bit)

section \<open>Page addresses\<close>

lemma used_pages_finite [simp]: "finite (used_pages s)"
  by simp

lemma pages_inv_word:
  assumes "pages_inv s" and "i < total_pages s"
  shows "unat i div 64 < length (page_bitmap s)"
  using assms by (auto simp: pages_inv_def word_less_nat_alt)

lemma unat_page_addr:
  assumes "pages_inv s" and "i < total_pages s"
  shows "unat (page_addr_from_index s i) = unat (managed_start s) + unat i * 4096"
proof -
  have "unat i * 4096 < unat (total_pages s) * 4096"
    using assms(2) by (simp add: word_less_nat_alt)
  then have lt: "unat (managed_start s) + unat i * 4096 < 2 ^ 64"
    using assms(1) unat64_lt [of "managed_end s"] by (simp add: pages_inv_def)
  then have "unat (i * PAGE_SIZE) = unat i * 4096"
    by (simp add: unat_word_ariths)
  with lt show ?thesis
    by (simp add: page_addr_from_index_def unat_word_ariths)
qed

lemma page_addr_inj:
  assumes "pages_inv s" and "i < total_pages s" and "j < total_pages s"
  shows "page_addr_from_index s i = page_addr_from_index s j \<longleftrightarrow> i = j"
  using unat_page_addr [OF assms(1,2)] unat_page_addr [OF assms(1,3)]
  by (auto simp: word_unat_eq_iff)

lemma page_addr_props:
  assumes "pages_inv s" and "i < total_pages s"
  shows "page_addr_from_index s i \<noteq> 0"
    and "unat (page_addr_from_index s i) mod 4096 = 0"
    and "managed_start s \<le> page_addr_from_index s i"
    and "page_addr_from_index s i < managed_end s"
proof -
  have "0 < unat (managed_start s)"
    using assms(1) by (simp add: pages_inv_def unat_gt_0)
  with unat_page_addr [OF assms] show "page_addr_from_index s i \<noteq> 0"
    by (metis add_is_0 less_numeral_extra(3) unat_0)
  show "unat (page_addr_from_index s i) mod 4096 = 0"
    using unat_page_addr [OF assms] assms(1) by (simp add: pages_inv_def)
  show "managed_start s \<le> page_addr_from_index s i"
    using unat_page_addr [OF assms] by (simp add: word_le_nat_alt)
  show "page_addr_from_index s i < managed_end s"
    using unat_page_addr [OF assms] assms by (simp add: pages_inv_def word_less_nat_alt)
qed

lemma page_index_of_addr:
  assumes "pages_inv s" and "i < total_pages s"
  shows "page_index_from_addr s (page_addr_from_index s i) = i"
proof -
  have "unat (page_addr_from_index s i - managed_start s) = unat i * 4096"
    using page_addr_props(3) [OF assms] unat_page_addr [OF assms] by (simp add: unat_sub)
  then show ?thesis
    by (simp add: page_index_from_addr_def word_unat_eq_iff unat_div)
qed

lemma managed_framesI:
  assumes "pages_inv s" and "a AND PAGE_MASK = 0" and "managed_start s \<le> a" and "a < managed_end s"
  shows "page_index_from_addr s a < total_pages s"
    and "page_addr_from_index s (page_index_from_addr s a) = a"
proof -
  let ?i = "page_index_from_addr s a"
  from assms(1) have start: "unat (managed_start s) mod 4096 = 0"
    and lim: "unat (managed_end s) = unat (managed_start s) + unat (total_pages s) * 4096"
    by (simp_all add: pages_inv_def)
  have i: "unat ?i = (unat a - unat (managed_start s)) div 4096"
    using assms(3) by (simp add: page_index_from_addr_def unat_div unat_sub)
  have "unat a - unat (managed_start s) < unat (total_pages s) * 4096"
    using lim assms(3,4) by (simp add: word_less_nat_alt word_le_nat_alt)
  then show lt: "?i < total_pages s"
    by (simp add: word_less_nat_alt i less_mult_imp_div_less)
  have "(unat a - unat (managed_start s)) mod 4096 = 0"
    using assms(2,3) start by (simp add: page_aligned_iff word_le_nat_alt mod_eq_0_iff_dvd dvd_diff_nat)
  then have "(unat a - unat (managed_start s)) div 4096 * 4096 = unat a - unat (managed_start s)"
    by auto
  then show "page_addr_from_index s ?i = a"
    using unat_page_addr [OF assms(1) lt] i assms(3) by (simp add: word_unat_eq_iff word_le_nat_alt)
qed

section \<open>The search loop\<close>

lemma page_alloc_scan_Some:
  assumes "page_alloc_scan s offset = Some i"
  shows "\<exists>k. offset \<le> k \<and> k < total_pages s \<and> i = (next_free_hint s + k) mod total_pages s \<and>
    \<not> bitmap_test (page_bitmap s) i \<and>
    (\<forall>j. offset \<le> j \<and> j < k \<longrightarrow> bitmap_test (page_bitmap s) ((next_free_hint s + j) mod total_pages s))"
  using assms
proof (induction s offset rule: page_alloc_scan.induct)
  case (1 s offset)
  let ?i = "(next_free_hint s + offset) mod total_pages s"
  from "1.prems" have lt: "offset < total_pages s"
    by (simp add: page_alloc_scan.simps split: if_splits)
  show ?case
  proof (cases "bitmap_test (page_bitmap s) ?i")
    case False
    with lt "1.prems" have "i = ?i" by (simp add: page_alloc_scan.simps)
    with False lt show ?thesis by (intro exI [of _ offset]) auto
  next
    case True
    with lt "1.prems" have "page_alloc_scan s (offset + 1) = Some i"
      by (simp add: page_alloc_scan.simps [of s offset])
    from "1.IH" [OF lt refl True this] obtain k where k:
      "offset + 1 \<le> k" "k < total_pages s" "i = (next_free_hint s + k) mod total_pages s"
      "\<not> bitmap_test (page_bitmap s) i"
      "\<forall>j. offset + 1 \<le> j \<and> j < k \<longrightarrow>
         bitmap_test (page_bitmap s) ((next_free_hint s + j) mod total_pages s)"
      by blast
    have suc: "unat (offset + 1) = Suc (unat offset)"
      using lt unat64_lt [of "total_pages s"] by (simp add: word_less_nat_alt unat_word_ariths)
    have "offset \<le> k" using k(1) suc by (simp add: word_le_nat_alt)
    moreover have "j = offset \<or> offset + 1 \<le> j" if "offset \<le> j" for j
      using that suc by (auto simp: word_le_nat_alt word_unat_eq_iff)
    ultimately show ?thesis using k True by blast
  qed
qed

lemma page_alloc_scan_None:
  assumes "page_alloc_scan s offset = None" and "offset \<le> k" and "k < total_pages s"
  shows "bitmap_test (page_bitmap s) ((next_free_hint s + k) mod total_pages s)"
  using assms
proof (induction s offset rule: page_alloc_scan.induct)
  case (1 s offset)
  from "1.prems"(2,3) have lt: "offset < total_pages s" by (rule order.strict_trans1)
  with "1.prems"(1) have hit: "bitmap_test (page_bitmap s) ((next_free_hint s + offset) mod total_pages s)"
    and rest: "page_alloc_scan s (offset + 1) = None"
    by (auto simp: page_alloc_scan.simps [of s offset] Let_def split: if_splits)
  show ?case
  proof (cases "k = offset")
    case True
    with hit show ?thesis by simp
  next
    case False
    have "unat (offset + 1) = Suc (unat offset)"
      using lt unat64_lt [of "total_pages s"] by (simp add: word_less_nat_alt unat_word_ariths)
    with False "1.prems"(2) have "offset + 1 \<le> k"
      by (auto simp: word_le_nat_alt word_unat_eq_iff)
    from "1.IH" [OF lt refl hit rest this "1.prems"(3)] show ?thesis .
  qed
qed

text \<open>The offsets below \<open>total_pages\<close> reach every page, whatever the hint.\<close>

lemma scan_reaches:
  assumes "pages_inv s" and "i < total_pages s"
  obtains k where "k < total_pages s" and "i = (next_free_hint s + k) mod total_pages s"
proof
  let ?H = "unat (next_free_hint s)" and ?T = "unat (total_pages s)" and ?I = "unat i"
  let ?K = "(?I + ?T - ?H) mod ?T"
  have I: "?I < ?T" using assms(2) by (simp add: word_less_nat_alt)
  then have "0 < ?T" by simp
  then have K: "?K < ?T" by simp
  have "?T * 4096 \<le> unat (managed_end s)" using assms(1) by (simp add: pages_inv_def)
  then have T: "?T * 4096 < 2 ^ 64" using unat64_lt [of "managed_end s"] by (rule order.strict_trans1)
  have H: "?H < ?T" using assms(1) I by (auto simp: pages_inv_def word_less_nat_alt)
  have uK: "unat (of_nat ?K :: u64) = ?K"
    using K T by (simp add: unat_of_nat)
  show "(of_nat ?K :: u64) < total_pages s"
    using K uK by (simp only: word_less_nat_alt)
  have "?H + ?K < 2 ^ 64" using H K T by linarith
  then have "unat (next_free_hint s + of_nat ?K) = ?H + ?K"
    by (simp add: unat_word_ariths uK)
  then have "unat ((next_free_hint s + of_nat ?K) mod total_pages s) = (?H + ?K) mod ?T"
    by (simp only: unat_mod)
  also have "\<dots> = (?H + (?I + ?T - ?H)) mod ?T" by (rule mod_add_right_eq)
  also have "\<dots> = ?I" using I H by simp
  finally show "i = (next_free_hint s + of_nat ?K) mod total_pages s"
    by (simp add: word_unat_eq_iff)
qed

lemma page_alloc_scan_full:
  assumes "pages_inv s" and "page_alloc_scan s 0 = None" and "i < total_pages s"
  shows "bitmap_test (page_bitmap s) i"
proof -
  obtain k where "k < total_pages s" "i = (next_free_hint s + k) mod total_pages s"
    using assms(1,3) by (rule scan_reaches)
  with page_alloc_scan_None [OF assms(2), of k] show ?thesis by simp
qed

section \<open>The operations outside their critical sections\<close>

lemma page_alloc_scan_sstatus [simp]:
  "page_alloc_scan (s\<lparr>sstatus := v\<rparr>) offset = page_alloc_scan s offset"
proof (induction s offset rule: page_alloc_scan.induct)
  case (1 s offset)
  then show ?case
    by (simp add: page_alloc_scan.simps [of s offset] page_alloc_scan.simps [of "s\<lparr>sstatus := v\<rparr>" offset]
        Let_def)
qed

definition page_alloc_body :: "'a pages_scheme \<Rightarrow> (u64 \<times> 'a pages_scheme) res" where
  "page_alloc_body s =
    (if \<not> page_allocator_initialized s then Inl ''page_alloc before page_init''
     else case page_alloc_scan s 0 of
       Some i \<Rightarrow> Inr (page_addr_from_index s i,
         s\<lparr>page_bitmap := bitmap_set (page_bitmap s) i, free_pages := free_pages s - 1,
           next_free_hint := (if total_pages s = 0 then 0 else (i + 1) mod total_pages s)\<rparr>)
     | None \<Rightarrow> Inr (0, s))"

lemma page_alloc_masked: "page_alloc = irq_masked page_alloc_body"
  unfolding page_alloc_def
  by (rule arg_cong [where f = irq_masked], rule ext)
     (simp add: page_alloc_body_def Let_def page_addr_from_index_def split: option.split)

lemma page_alloc_neutral [neutral]: "irq_neutral page_alloc_body"
  by (rule irq_neutralI)
     (simp add: page_alloc_body_def page_addr_from_index_def split: option.splits)

lemma page_alloc_eq: "page_alloc s = page_alloc_body s"
  by (simp add: page_alloc_masked irq_masked_neutral page_alloc_neutral)

definition page_free_body :: "u64 \<Rightarrow> 'a pages_scheme \<Rightarrow> (unit \<times> 'a pages_scheme) res" where
  "page_free_body addr s =
    (if \<not> page_allocator_initialized s then Inl ''page_free before page_init''
     else if addr AND PAGE_MASK \<noteq> 0 \<or> addr < managed_start s \<or> addr \<ge> managed_end s
     then Inl ''invalid page_free address''
     else let index = page_index_from_addr s addr in
     if \<not> bitmap_test (page_bitmap s) index then Inl ''double page_free''
     else Inr ((), s\<lparr>page_bitmap := bitmap_clear (page_bitmap s) index,
       free_pages := free_pages s + 1,
       next_free_hint := (if index < next_free_hint s then index else next_free_hint s)\<rparr>))"

lemma page_free_masked: "page_free addr = irq_masked (page_free_body addr)"
  unfolding page_free_def
  by (rule arg_cong [where f = irq_masked], rule ext) (simp add: page_free_body_def Let_def)

lemma page_free_neutral [neutral]: "irq_neutral (page_free_body addr)"
  by (rule irq_neutralI) (simp add: page_free_body_def page_index_from_addr_def Let_def)

lemma page_free_eq: "page_free addr s = page_free_body addr s"
  by (simp add: page_free_masked irq_masked_neutral page_free_neutral)

section \<open>What the operations do\<close>

lemma card_below_word: "card {i :: u64. i < t} = unat t"
proof -
  have "unat ` {i :: u64. i < t} = {..<unat t}"
  proof (intro equalityI subsetI)
    fix n assume "n \<in> {..<unat t}"
    then have "unat (of_nat n :: u64) = n" and "n < unat t"
      using unat64_lt [of t] by (simp_all add: unat_of_nat)
    then show "n \<in> unat ` {i :: u64. i < t}"
      by (intro image_eqI [of _ _ "of_nat n"]) (simp_all add: word_less_nat_alt)
  qed (auto simp: word_less_nat_alt)
  moreover have "inj_on unat {i :: u64. i < t}" by (rule inj_onI) (simp add: word_unat_eq_iff)
  ultimately show ?thesis by (metis card_image card_lessThan)
qed

lemma used_pages_card_le: "card (used_pages s) \<le> unat (total_pages s)"
proof -
  have "card (used_pages s) \<le> card {i. i < total_pages s}"
    by (rule card_mono) (auto simp: used_pages_def)
  then show ?thesis by (simp add: card_below_word)
qed

text \<open>The state after page \<open>i\<close> was marked used or free.\<close>

definition mark_used :: "u64 \<Rightarrow> 'a pages_scheme \<Rightarrow> 'a pages_scheme" where
  "mark_used i s = s\<lparr>page_bitmap := bitmap_set (page_bitmap s) i, free_pages := free_pages s - 1,
     next_free_hint := (i + 1) mod total_pages s\<rparr>"

definition mark_free :: "u64 \<Rightarrow> 'a pages_scheme \<Rightarrow> 'a pages_scheme" where
  "mark_free i s = s\<lparr>page_bitmap := bitmap_clear (page_bitmap s) i, free_pages := free_pages s + 1,
     next_free_hint := (if i < next_free_hint s then i else next_free_hint s)\<rparr>"

lemma page_addr_mark [simp]:
  "page_addr_from_index (mark_used i s) = page_addr_from_index s"
  "page_addr_from_index (mark_free i s) = page_addr_from_index s"
  by (simp_all add: mark_used_def mark_free_def page_addr_from_index_def fun_eq_iff)

lemma used_pages_mark_used:
  assumes "pages_inv s" and "i < total_pages s"
  shows "used_pages (mark_used i s) = insert i (used_pages s)"
  using assms by (auto simp: used_pages_def mark_used_def bitmap_test_set pages_inv_word)

lemma used_pages_mark_free:
  assumes "pages_inv s" and "i < total_pages s"
  shows "used_pages (mark_free i s) = used_pages s - {i}"
  using assms by (auto simp: used_pages_def mark_free_def bitmap_test_clear pages_inv_word)

lemma pages_inv_mark_used:
  assumes inv: "pages_inv s" and i: "i < total_pages s" and free: "\<not> bitmap_test (page_bitmap s) i"
  shows "pages_inv (mark_used i s)"
proof -
  have notin: "i \<notin> used_pages s" using free by (simp add: used_pages_def)
  then have card: "card (used_pages (mark_used i s)) = Suc (card (used_pages s))"
    using inv i by (simp add: used_pages_mark_used)
  with used_pages_card_le [of "mark_used i s"] have "card (used_pages s) < unat (total_pages s)"
    by (simp add: mark_used_def)
  with inv have "0 < unat (free_pages s)" by (simp add: pages_inv_def)
  then have "unat (free_pages s - 1) = unat (free_pages s) - 1"
    by (simp add: unat_minus_one unat_gt_0)
  moreover have "(i + 1) mod total_pages s < total_pages s"
    using i by (intro word_mod_less_divisor) (auto simp: word_gt_0 word_less_nat_alt)
  ultimately show ?thesis
    using inv card \<open>0 < unat (free_pages s)\<close> by (simp add: pages_inv_def mark_used_def)
qed

lemma pages_inv_mark_free:
  assumes inv: "pages_inv s" and i: "i \<in> used_pages s"
  shows "pages_inv (mark_free i s)"
proof -
  have lt: "i < total_pages s" using i by (simp add: used_pages_def)
  have card: "card (used_pages (mark_free i s)) = card (used_pages s) - 1"
    using inv i lt by (simp add: used_pages_mark_free)
  have pos: "0 < card (used_pages s)" using i by (simp add: card_gt_0_iff) blast
  then have "unat (free_pages s) < unat (total_pages s)"
    using inv by (simp add: pages_inv_def)
  then have "unat (free_pages s + 1) = Suc (unat (free_pages s))"
    using unat64_lt [of "total_pages s"] by (simp add: unat_word_ariths)
  with inv card pos lt show ?thesis
    by (auto simp: pages_inv_def mark_free_def)
qed

lemma allocated_mark_used:
  assumes "pages_inv s" and "i < total_pages s" and "\<not> bitmap_test (page_bitmap s) i"
  shows "allocated (mark_used i s) = insert (page_addr_from_index s i) (allocated s)"
    and "page_addr_from_index s i \<notin> allocated s"
proof -
  show "allocated (mark_used i s) = insert (page_addr_from_index s i) (allocated s)"
    using assms by (simp add: allocated_def used_pages_mark_used)
  show "page_addr_from_index s i \<notin> allocated s"
    using assms page_addr_inj [OF assms(1)] by (auto simp: allocated_def used_pages_def)
qed

lemma allocated_mark_free:
  assumes "pages_inv s" and "i \<in> used_pages s"
  shows "allocated (mark_free i s) = allocated s - {page_addr_from_index s i}"
proof -
  have lt: "i < total_pages s" using assms(2) by (simp add: used_pages_def)
  have "page_addr_from_index s j = page_addr_from_index s i \<longleftrightarrow> j = i" if "j \<in> used_pages s" for j
    using that lt by (intro page_addr_inj [OF assms(1)]) (auto simp: used_pages_def)
  then show ?thesis
    using assms lt by (auto simp: allocated_def used_pages_mark_free)
qed

lemma page_alloc_cases:
  assumes inv: "pages_inv s"
  obtains (full) "page_alloc s = Inr (0, s)" and "used_pages s = {i. i < total_pages s}"
  | (found) i where "page_alloc s = Inr (page_addr_from_index s i, mark_used i s)"
      and "page_alloc_scan s 0 = Some i"
      and "i < total_pages s" and "\<not> bitmap_test (page_bitmap s) i"
proof (cases "page_alloc_scan s 0")
  case None
  with inv have "page_alloc s = Inr (0, s)"
    by (simp add: page_alloc_eq page_alloc_body_def pages_inv_def)
  moreover have "used_pages s = {i. i < total_pages s}"
    using page_alloc_scan_full [OF inv None] by (auto simp: used_pages_def)
  ultimately show ?thesis by (rule full)
next
  case (Some i)
  then obtain k where "k < total_pages s" "i = (next_free_hint s + k) mod total_pages s"
    "\<not> bitmap_test (page_bitmap s) i"
    using page_alloc_scan_Some by blast
  then have i: "i < total_pages s" "\<not> bitmap_test (page_bitmap s) i"
    by (auto intro!: word_mod_less_divisor simp: word_gt_0)
  then have "total_pages s \<noteq> 0" by auto
  then have "page_alloc s = Inr (page_addr_from_index s i, mark_used i s)"
    using inv Some by (simp add: page_alloc_eq page_alloc_body_def pages_inv_def mark_used_def)
  from found [OF this Some i] show ?thesis .
qed

lemma page_free_allocated:
  assumes inv: "pages_inv s" and i: "i \<in> used_pages s"
  shows "page_free (page_addr_from_index s i) s = Inr ((), mark_free i s)"
proof -
  have lt: "i < total_pages s" and set: "bitmap_test (page_bitmap s) i"
    using i by (simp_all add: used_pages_def)
  note props = page_addr_props [OF inv lt]
  have "\<not> page_addr_from_index s i < managed_start s" and "\<not> managed_end s \<le> page_addr_from_index s i"
    using props(3,4) by simp_all
  moreover have "page_addr_from_index s i AND PAGE_MASK = 0"
    using props(2) by (simp add: page_aligned_iff)
  ultimately show ?thesis
    using inv set page_index_of_addr [OF inv lt]
    by (simp add: page_free_eq page_free_body_def pages_inv_def mark_free_def)
qed

section \<open>The interface of a frame allocator\<close>

text \<open>
  What the heap, the page tables, the user tasks and the accelerator rely on: an
  allocation either takes a frame nobody owns or reports 0 when every frame is owned, and
  only an owned frame can be given back.
\<close>

locale frame_allocator =
  fixes alloc :: "'s \<Rightarrow> (u64 \<times> 's) res"
    and free :: "u64 \<Rightarrow> 's \<Rightarrow> (unit \<times> 's) res"
    and inv :: "'s \<Rightarrow> bool"
    and owned :: "'s \<Rightarrow> u64 set"
    and frames :: "'s \<Rightarrow> u64 set"
  assumes frames_finite: "finite (frames s)"
    and frames_nonzero: "inv s \<Longrightarrow> 0 \<notin> frames s"
    and owned_frames: "inv s \<Longrightarrow> owned s \<subseteq> frames s"
    and alloc_returns: "inv s \<Longrightarrow> \<exists>p s'. alloc s = Inr (p, s')"
    and alloc_null: "inv s \<Longrightarrow> alloc s = Inr (0, s') \<Longrightarrow> s' = s \<and> owned s = frames s"
    and alloc_fresh: "inv s \<Longrightarrow> alloc s = Inr (p, s') \<Longrightarrow> p \<noteq> 0 \<Longrightarrow>
      inv s' \<and> p \<in> frames s - owned s \<and> owned s' = insert p (owned s) \<and> frames s' = frames s"
    and free_owned: "inv s \<Longrightarrow> p \<in> owned s \<Longrightarrow>
      \<exists>s'. free p s = Inr ((), s') \<and> inv s' \<and> owned s' = owned s - {p} \<and> frames s' = frames s"
    and free_foreign: "inv s \<Longrightarrow> p \<notin> owned s \<Longrightarrow> \<exists>e. free p s = Inl e"
begin

lemma alloc_available:
  assumes "inv s" and "owned s \<noteq> frames s"
  shows "\<exists>p s'. alloc s = Inr (p, s') \<and> p \<noteq> 0"
  using alloc_returns [OF assms(1)] alloc_null [OF assms(1)] assms(2) by metis

lemma alloc_free_owned:
  assumes "inv s" and "alloc s = Inr (p, s1)" and "p \<noteq> 0"
  shows "\<exists>s2. free p s1 = Inr ((), s2) \<and> inv s2 \<and> owned s2 = owned s \<and> frames s2 = frames s"
proof -
  from alloc_fresh [OF assms] have *: "inv s1" "p \<notin> owned s" "owned s1 = insert p (owned s)"
    "frames s1 = frames s" by auto
  then obtain s2 where "free p s1 = Inr ((), s2)" "inv s2" "owned s2 = owned s1 - {p}"
    "frames s2 = frames s1" using free_owned [of s1 p] by auto
  with * show ?thesis by auto
qed

lemma free_twice_fails:
  assumes "inv s" and "p \<in> owned s" and "free p s = Inr ((), s')"
  shows "\<exists>e. free p s' = Inl e"
proof -
  from free_owned [OF assms(1,2)] assms(3) have "inv s'" "owned s' = owned s - {p}" by auto
  then show ?thesis by (intro free_foreign) auto
qed

text \<open>
  As many allocations as there are free frames succeed, with pairwise distinct frames; the
  next one reports exhaustion.
\<close>

lemma alloc_until_exhausted:
  assumes "inv s" and "card (frames s - owned s) = n"
  shows "\<exists>ps s'. run_n alloc n s = Inr (ps, s') \<and> inv s' \<and> distinct ps \<and>
    set ps = frames s - owned s \<and> owned s' = frames s' \<and> frames s' = frames s \<and>
    alloc s' = Inr (0, s')"
  using assms
proof (induction n arbitrary: s)
  case 0
  then have all: "owned s = frames s"
    using owned_frames frames_finite [of s] by auto
  obtain p s' where a: "alloc s = Inr (p, s')" using alloc_returns 0 by blast
  have "p = 0"
    using alloc_fresh [OF 0(1) a] all by blast
  with a alloc_null [OF 0(1)] have "alloc s = Inr (0, s)" by auto
  with 0 all show ?case by auto
next
  case (Suc n)
  then have "owned s \<noteq> frames s" by auto
  then obtain p s1 where a: "alloc s = Inr (p, s1)" "p \<noteq> 0"
    using alloc_available Suc.prems(1) by blast
  note f = alloc_fresh [OF Suc.prems(1) a]
  then have split: "frames s - owned s = insert p (frames s1 - owned s1)"
    and new: "p \<notin> frames s1 - owned s1" by auto
  then have "card (frames s1 - owned s1) = n"
    using Suc.prems(2) frames_finite [of s1] by simp
  with Suc.IH [of s1] f obtain ps s' where
    "run_n alloc n s1 = Inr (ps, s')" "inv s'" "distinct ps" "set ps = frames s1 - owned s1"
    "owned s' = frames s'" "frames s' = frames s1" "alloc s' = Inr (0, s')"
    by blast
  with a f split new show ?case by auto
qed

end

lemma allocated_subset: "allocated s \<subseteq> managed_frames s"
  by (auto simp: allocated_def managed_frames_def used_pages_def)

lemma managed_frames_mark [simp]:
  "managed_frames (mark_used i s) = managed_frames s"
  "managed_frames (mark_free i s) = managed_frames s"
  by (simp_all add: managed_frames_def) (simp_all add: mark_used_def mark_free_def)

lemma not_allocated_panics:
  assumes inv: "pages_inv s" and "p \<notin> allocated s"
  shows "page_free p s =
    (if p AND PAGE_MASK \<noteq> 0 \<or> p < managed_start s \<or> managed_end s \<le> p
     then Inl ''invalid page_free address'' else Inl ''double page_free'')"
proof (cases "p AND PAGE_MASK \<noteq> 0 \<or> p < managed_start s \<or> managed_end s \<le> p")
  case True
  with inv show ?thesis by (simp add: page_free_eq page_free_body_def pages_inv_def)
next
  case False
  then have in_range: "p AND PAGE_MASK = 0" "managed_start s \<le> p" "p < managed_end s" by auto
  note idx = managed_framesI [OF inv this]
  have "\<not> bitmap_test (page_bitmap s) (page_index_from_addr s p)"
    using assms(2) idx by (force simp: allocated_def used_pages_def)
  with inv False show ?thesis by (simp add: page_free_eq page_free_body_def pages_inv_def)
qed

lemma page_addr_managed: "i < total_pages s \<Longrightarrow> page_addr_from_index s i \<in> managed_frames s"
  by (simp add: managed_frames_def)

interpretation pages: frame_allocator page_alloc page_free pages_inv allocated managed_frames
proof (unfold_locales, goal_cases)
  case (1 s)
  show ?case by (simp add: managed_frames_def)
next
  case (2 s)
  then show ?case using page_addr_props(1) [OF 2] by (auto simp: managed_frames_def)
next
  case (3 s)
  show ?case by (rule allocated_subset)
next
  case (4 s)
  then show ?case by (cases rule: page_alloc_cases) auto
next
  case (5 s s')
  from 5(1) show ?case
  proof (cases rule: page_alloc_cases)
    case full
    with 5(2) show ?thesis by (simp add: allocated_def managed_frames_def)
  next
    case (found i)
    with 5(2) page_addr_props(1) [OF 5(1)] show ?thesis by auto
  qed
next
  case (6 s p s')
  from 6(1) show ?case
  proof (cases rule: page_alloc_cases)
    case full
    with 6(2,3) show ?thesis by simp
  next
    case (found i)
    with 6 show ?thesis
      by (auto simp: pages_inv_mark_used allocated_mark_used page_addr_managed)
  qed
next
  case (7 s p)
  then obtain i where "i \<in> used_pages s" "p = page_addr_from_index s i"
    by (auto simp: allocated_def)
  with 7 show ?case
    by (simp add: page_free_allocated pages_inv_mark_free allocated_mark_free)
next
  case (8 s p)
  then show ?case by (simp add: not_allocated_panics)
qed

lemma managed_frames_card:
  assumes "pages_inv s"
  shows "card (managed_frames s - allocated s) = unat (free_pages s)"
proof -
  have inj: "inj_on (page_addr_from_index s) {i. i < total_pages s}"
    using page_addr_inj [OF assms] by (auto intro!: inj_onI)
  then have "card (managed_frames s) = unat (total_pages s)"
    by (simp add: managed_frames_def card_image card_below_word)
  moreover have "card (allocated s) = card (used_pages s)"
    unfolding allocated_def
    by (rule card_image) (rule inj_on_subset [OF inj], auto simp: used_pages_def)
  moreover have "card (managed_frames s - allocated s) = card (managed_frames s) - card (allocated s)"
    by (rule card_Diff_subset [OF _ allocated_subset]) (simp add: allocated_def)
  moreover have "unat (free_pages s) + card (used_pages s) = unat (total_pages s)"
    using assms by (simp add: pages_inv_def)
  ultimately show ?thesis by linarith
qed

lemma managed_frame_props:
  assumes "pages_inv s" and "p \<in> managed_frames s"
  shows "p \<noteq> 0" and "unat p mod 4096 = 0" and "managed_start s \<le> p" and "p < managed_end s"
  using assms page_addr_props [OF assms(1)] by (auto simp: managed_frames_def)

lemma page_alloc_frame:
  assumes "pages_inv s" and "page_alloc s = Inr (p, s')"
  shows "\<exists>bm fp hint. s' = s\<lparr>page_bitmap := bm, free_pages := fp, next_free_hint := hint\<rparr>"
  using assms(1)
proof (cases rule: page_alloc_cases)
  case full
  with assms(2) have "s' = s\<lparr>page_bitmap := page_bitmap s, free_pages := free_pages s,
    next_free_hint := next_free_hint s\<rparr>" by simp
  then show ?thesis by blast
next
  case (found i)
  with assms(2) show ?thesis by (auto simp: mark_used_def)
qed

lemma page_free_returns:
  assumes "page_free p s = Inr (u, s')"
  shows "s' = mark_free (page_index_from_addr s p) s"
  using assms by (auto simp: page_free_eq page_free_body_def mark_free_def Let_def split: if_splits)

lemma page_free_frame:
  assumes "page_free p s = Inr (u, s')"
  shows "\<exists>bm fp hint. s' = s\<lparr>page_bitmap := bm, free_pages := fp, next_free_hint := hint\<rparr>"
  using page_free_returns [OF assms] unfolding mark_free_def by blast

text \<open>The state \<open>page_init\<close> builds, and the conditions under which it does.\<close>

definition page_init_state :: "u64 \<Rightarrow> u64 \<Rightarrow> 'a pages_scheme \<Rightarrow> 'a pages_scheme" where
  "page_init_state mem_start mem_end s =
     (let words = (page_bitmap_end (link s) - page_bitmap_start (link s)) div 8;
          n = (page_base mem_end - align_up mem_start PAGE_SIZE) div PAGE_SIZE
      in s\<lparr>page_bitmap_words := words, page_bitmap := replicate (unat words) 0,
           managed_start := align_up mem_start PAGE_SIZE, managed_end := page_base mem_end,
           total_pages := n, free_pages := n, next_free_hint := 0,
           page_allocator_initialized := True\<rparr>)"

definition page_init_body :: "u64 \<Rightarrow> u64 \<Rightarrow> 'a pages_scheme \<Rightarrow> (unit \<times> 'a pages_scheme) res" where
  "page_init_body mem_start mem_end s =
     (let bytes = page_bitmap_end (link s) - page_bitmap_start (link s) in
      if bytes mod 8 \<noteq> 0 then Inl ''page bitmap is not word aligned''
      else if page_base mem_end < align_up mem_start PAGE_SIZE then Inl ''invalid physical memory range''
      else if (page_base mem_end - align_up mem_start PAGE_SIZE) div PAGE_SIZE > bytes div 8 * 64
      then Inl ''page bitmap too small''
      else Inr ((), page_init_state mem_start mem_end s))"

lemma page_init_masked: "page_init mem_start mem_end = irq_masked (page_init_body mem_start mem_end)"
  unfolding page_init_def
  by (rule arg_cong [where f = irq_masked], rule ext)
     (simp add: page_init_body_def page_init_state_def Let_def align_down_page
       bitmap_capacity_pages_def BITMAP_WORD_BITS_def)

lemma page_init_neutral [neutral]: "irq_neutral (page_init_body mem_start mem_end)"
  by (rule irq_neutralI) (simp add: page_init_body_def page_init_state_def Let_def)

lemma page_init_eq: "page_init mem_start mem_end s = page_init_body mem_start mem_end s"
  by (simp add: page_init_masked irq_masked_neutral page_init_neutral)

lemma page_init_state_inv:
  assumes nz: "mem_start \<noteq> 0" and lim: "unat mem_start + 4095 < 2 ^ 64"
    and range: "align_up mem_start PAGE_SIZE \<le> page_base mem_end"
    and fits: "(page_base mem_end - align_up mem_start PAGE_SIZE) div PAGE_SIZE \<le>
      (page_bitmap_end (link s) - page_bitmap_start (link s)) div 8 * 64"
  shows "pages_inv (page_init_state mem_start mem_end s)"
    and "used_pages (page_init_state mem_start mem_end s) = {}"
    and "mem_start \<le> managed_start (page_init_state mem_start mem_end s)"
proof -
  let ?words = "(page_bitmap_end (link s) - page_bitmap_start (link s)) div 8"
  let ?start = "align_up mem_start PAGE_SIZE" and ?lim = "page_base mem_end"
  let ?n = "(?lim - ?start) div PAGE_SIZE" and ?t = "page_init_state mem_start mem_end s"
  have start: "unat ?start = (unat mem_start + 4095) div 4096 * 4096"
    using lim by (rule align_up_page)
  have nz': "0 < unat mem_start" using nz by (simp add: unat_gt_0)
  have end_eq: "unat ?lim = unat ?start + unat ?n * 4096"
  proof -
    have n: "unat ?n = (unat ?lim - unat ?start) div 4096"
      using range by (simp add: unat_div unat_sub)
    moreover have "4096 dvd unat ?lim" and "4096 dvd unat ?start"
      by (simp_all add: unat_page_base_div start)
    ultimately show ?thesis
      using range by (simp add: word_le_nat_alt dvd_diff_nat)
  qed
  have cap: "unat ?n \<le> unat ?words * 64"
  proof -
    have "unat (?words * 64) \<le> unat ?words * 64"
      by (simp add: unat_word_ariths)
    with fits show ?thesis by (simp add: word_le_nat_alt)
  qed
  show used: "used_pages ?t = {}"
    using cap by (auto simp: used_pages_def page_init_state_def Let_def bitmap_test_replicate word_less_nat_alt)
  have "?start \<noteq> 0" using start nz' by (auto simp: word_unat_eq_iff)
  then show "pages_inv ?t"
    using used start end_eq cap by (simp add: pages_inv_def page_init_state_def Let_def)
  have "unat mem_start \<le> (unat mem_start + 4095) div 4096 * 4096" by arith
  then show "mem_start \<le> managed_start ?t"
    using start by (simp add: page_init_state_def Let_def word_le_nat_alt)
qed

section \<open>Properties\<close>

text \<open>
  \<open>page_init\<close> returns exactly when the bitmap is a whole number of words, the
  page-aligned range is not inverted and the bitmap has a bit for every page; it then
  leaves a well-formed allocator over whole pages inside the given range, all of them free,
  with the interrupt state it found.
\<close>

theorem page_init_establishes:
  assumes "mem_start \<noteq> 0" and "unat mem_start + 4095 < 2 ^ 64"
  shows "if (page_bitmap_end (link s) - page_bitmap_start (link s)) mod 8 = 0 \<and>
      align_up mem_start PAGE_SIZE \<le> align_down mem_end PAGE_SIZE \<and>
      (align_down mem_end PAGE_SIZE - align_up mem_start PAGE_SIZE) div PAGE_SIZE \<le>
        (page_bitmap_end (link s) - page_bitmap_start (link s)) div 8 * 64
    then \<exists>s'. page_init mem_start mem_end s = Inr ((), s') \<and> pages_inv s' \<and> allocated s' = {} \<and>
      free_pages s' = total_pages s' \<and> mem_start \<le> managed_start s' \<and> managed_end s' \<le> mem_end \<and>
      sstatus s' = sstatus s
    else \<exists>msg. page_init mem_start mem_end s = Inl msg"
proof -
  let ?t = "page_init_state mem_start mem_end s"
  have "managed_end ?t \<le> mem_end" and "sstatus ?t = sstatus s" and "free_pages ?t = total_pages ?t"
    by (simp_all add: page_init_state_def Let_def page_base_le)
  with page_init_state_inv [OF assms, of mem_end s] show ?thesis
    by (auto simp: page_init_eq page_init_body_def Let_def align_down_page allocated_def not_less
        simp del: mod_eq_0_iff_dvd)
qed

text \<open>
  C5: From a well-formed allocator \<open>page_alloc\<close> always returns. If a page is free
  it hands out one that is managed, page aligned, non-null and owned by nobody, and adds
  exactly that page to the owned ones; it returns null only when every page is owned, and
  then changes nothing.
\<close>

theorem page_alloc_fresh:
  assumes "pages_inv s"
  shows "\<exists>p s'. page_alloc s = Inr (p, s') \<and> pages_inv s' \<and>
    (if free_pages s = 0 then p = 0 \<and> s' = s \<and> allocated s = managed_frames s
     else p \<noteq> 0 \<and> p \<in> managed_frames s \<and> p \<notin> allocated s \<and> p AND PAGE_MASK = 0 \<and>
       managed_start s \<le> p \<and> p < managed_end s \<and>
       allocated s' = insert p (allocated s) \<and> free_pages s' = free_pages s - 1 \<and>
       mem s' = mem s \<and> sstatus s' = sstatus s)"
  using assms
proof (cases rule: page_alloc_cases)
  case full
  then have "free_pages s = 0"
    using assms by (simp add: pages_inv_def card_below_word unat_eq_0)
  with full assms show ?thesis by (simp add: allocated_def managed_frames_def)
next
  case (found i)
  have "i \<in> {i. i < total_pages s} - used_pages s" using found by (simp add: used_pages_def)
  then have "used_pages s \<noteq> {i. i < total_pages s}" by blast
  then have "card (used_pages s) \<noteq> card {i. i < total_pages s}"
    by (metis (no_types, lifting) card_subset_eq finite_code mem_Collect_eq subsetI used_pages_def)
  then have "free_pages s \<noteq> 0"
    using assms by (auto simp: pages_inv_def card_below_word)
  with found assms page_addr_props [OF assms found(3)] show ?thesis
    by (auto simp: pages_inv_mark_used allocated_mark_used page_addr_managed page_aligned_iff)
       (simp_all add: mark_used_def)
qed

text \<open>
  \<open>page_alloc\<close> is next-fit. The page it hands out is the first free one in
  cyclic order from the hint, and the hint moves just past it.
\<close>

theorem page_alloc_next_fit:
  assumes "pages_inv s" and "page_alloc s = Inr (p, s')" and "p \<noteq> 0"
  shows "\<exists>k. k < total_pages s \<and>
    p = page_addr_from_index s ((next_free_hint s + k) mod total_pages s) \<and>
    \<not> bitmap_test (page_bitmap s) ((next_free_hint s + k) mod total_pages s) \<and>
    (\<forall>j<k. bitmap_test (page_bitmap s) ((next_free_hint s + j) mod total_pages s)) \<and>
    next_free_hint s' = ((next_free_hint s + k) mod total_pages s + 1) mod total_pages s"
  using assms(1)
proof (cases rule: page_alloc_cases)
  case full
  with assms show ?thesis by simp
next
  case (found i)
  with page_alloc_scan_Some [OF found(2)] assms(2) show ?thesis
    by (auto simp: mark_used_def)
qed

text \<open>
  C6: \<open>page_free\<close> accepts exactly the pages that are handed out. Freeing one makes
  that page free again and touches nothing else; a misaligned or unmanaged address and a
  page that is already free each stop the kernel with their own message.
\<close>

theorem page_free_guarded:
  assumes "pages_inv s"
  shows "if p \<in> allocated s
    then \<exists>s'. page_free p s = Inr ((), s') \<and> pages_inv s' \<and> allocated s' = allocated s - {p} \<and>
      free_pages s' = free_pages s + 1 \<and> mem s' = mem s \<and> sstatus s' = sstatus s
    else page_free p s =
      (if p AND PAGE_MASK = 0 \<and> managed_start s \<le> p \<and> p < managed_end s
       then Inl ''double page_free'' else Inl ''invalid page_free address'')"
proof (cases "p \<in> allocated s")
  case True
  then obtain i where i: "i \<in> used_pages s" "p = page_addr_from_index s i"
    by (auto simp: allocated_def)
  then have "page_free p s = Inr ((), mark_free i s)"
    using assms by (simp add: page_free_allocated)
  moreover have "free_pages (mark_free i s) = free_pages s + 1" "mem (mark_free i s) = mem s"
    "sstatus (mark_free i s) = sstatus s" by (simp_all add: mark_free_def)
  ultimately show ?thesis
    using True i assms by (simp add: pages_inv_mark_free allocated_mark_free)
next
  case False
  with assms show ?thesis by (auto simp: not_allocated_panics not_less)
qed

text \<open>
  Allocating until the counter runs out hands out every free page exactly once, and
  the next allocation reports exhaustion.
\<close>

theorem page_alloc_exhausts:
  assumes "pages_inv s"
  shows "\<exists>ps s'. run_n page_alloc (unat (free_pages s)) s = Inr (ps, s') \<and> distinct ps \<and>
    set ps = managed_frames s - allocated s \<and> page_alloc s' = Inr (0, s')"
  using pages.alloc_until_exhausted [OF assms managed_frames_card [OF assms]] by blast

section \<open>A concrete allocator\<close>

text \<open>Four pages of RAM at \<open>0x80000000\<close> with a one-word bitmap.\<close>

definition demo_link :: linker where
  "demo_link = \<lparr>page_bitmap_start = 0x80200000, page_bitmap_end = 0x80200008,
     text_start = 0x80000000, text_end = 0x80001000, rodata_start = 0x80001000,
     rodata_end = 0x80002000, data_start = 0x80002000, kernel_end = 0x80003000,
     ram_end = 0x80043000, trampoline_start = 0x80000000, trampoline_end = 0x80000100,
     thread_stacks_base = 0x80300000, thread_trampoline_addr = 0x80000400,
     trap_entry_addr = 0x80000200, trap_handle_user_addr = 0x80000500,
     first_user_exit_return_addr = 0x80000600, null_task_addr = 0x80000700,
     kernel_start = 0x80000000, stack_top = 0x80400000, machine_stack_top = 0x80410000,
     machine_trap_entry_addr = 0x80000300, supervisor_main_addr = 0x80000800, userret_addr = 0x80000080,
     usercopy_copy_start = 0x80000900, usercopy_copy_end = 0x8000091c, usercopy_copy_fixup = 0x80000924,
     accel_mmio_addr = 0x80420000, accel_waiters_addr = 0x80430000\<rparr>"

definition demo_pages :: pages where
  "demo_pages = \<lparr>mem = (\<lambda>_. 0), sstatus = 2, satp = 0, sfences = 0, console = [],
     cycle_at = (\<lambda>_. 0), cycle_reads = 0, link = demo_link, page_bitmap = [],
     page_bitmap_words = 0, managed_start = 0, managed_end = 0, total_pages = 0,
     free_pages = 0, next_free_hint = 0, page_allocator_initialized = False\<rparr>"

definition demo_booted :: pages where
  "demo_booted = page_init_state 0x80000000 0x80004000 demo_pages"

lemma demo_booted_inv: "pages_inv demo_booted"
  unfolding demo_booted_def
  by (rule page_init_state_inv) (simp_all add: align_up_def page_base_def PAGE_MASK_def PAGE_SIZE_def
      demo_pages_def demo_link_def)

lemma demo_booted_used: "used_pages demo_booted = {}"
  unfolding demo_booted_def
  by (rule page_init_state_inv) (simp_all add: align_up_def page_base_def PAGE_MASK_def PAGE_SIZE_def
      demo_pages_def demo_link_def)

lemma demo_booted_fields:
  "free_pages demo_booted = 4" "total_pages demo_booted = 4" "next_free_hint demo_booted = 0"
  "managed_start demo_booted = 0x80000000" "page_bitmap demo_booted = [0]"
  "page_allocator_initialized demo_booted"
  by (simp_all add: demo_booted_def page_init_state_def align_up_def page_base_def PAGE_MASK_def
      PAGE_SIZE_def demo_pages_def demo_link_def Let_def)

theorem page_init_establishes_witness:
  "\<exists>s'. page_init 0x80000000 0x80004000 demo_pages = Inr ((), s') \<and> pages_inv s' \<and> allocated s' = {} \<and>
     free_pages s' = total_pages s'"
proof -
  have "(0x80000000 :: u64) \<noteq> 0" and "unat (0x80000000 :: u64) + 4095 < 2 ^ 64" by simp_all
  from page_init_establishes [OF this, where s = demo_pages and mem_end = "0x80004000"] show ?thesis
    by (auto simp: demo_pages_def demo_link_def align_up_def align_down_def PAGE_SIZE_def)
qed

theorem page_alloc_fresh_witness:
  "pages_inv demo_booted \<and> (\<exists>p s'. page_alloc demo_booted = Inr (p, s') \<and> p \<noteq> 0 \<and> free_pages s' = 3)"
  using page_alloc_fresh [OF demo_booted_inv] demo_booted_inv by (auto simp: demo_booted_fields)

lemma demo_alloc: "page_alloc demo_booted = Inr (0x80000000, mark_used 0 demo_booted)"
  by (simp add: page_alloc_eq page_alloc_body_def page_alloc_scan.simps demo_booted_fields
      bitmap_test_def mark_used_def page_addr_from_index_def Let_def)

theorem page_alloc_next_fit_witness:
  "page_alloc demo_booted = Inr (0x80000000, mark_used 0 demo_booted) \<and>
   next_free_hint (mark_used 0 demo_booted) = 1 \<and>
   (\<exists>k. (0x80000000 :: u64) = page_addr_from_index demo_booted (k mod 4))"
  using page_alloc_next_fit [OF demo_booted_inv demo_alloc] demo_alloc
  by (auto simp: demo_booted_fields mark_used_def)

theorem page_free_guarded_witness:
  "\<exists>s'. page_free 0x80000000 (mark_used 0 demo_booted) = Inr ((), s') \<and> allocated s' = {} \<and>
     page_free 0x80001000 (mark_used 0 demo_booted) = Inl ''double page_free'' \<and>
     page_free 0x80000010 (mark_used 0 demo_booted) = Inl ''invalid page_free address''"
proof -
  have "\<not> bitmap_test (page_bitmap demo_booted) 0" "(0 :: u64) < total_pages demo_booted"
    by (simp_all add: demo_booted_fields bitmap_test_def)
  note used = pages_inv_mark_used [OF demo_booted_inv this(2,1)]
    allocated_mark_used [OF demo_booted_inv this(2,1)]
  have owned: "allocated (mark_used 0 demo_booted) = {0x80000000}"
    using used by (simp add: allocated_def demo_booted_used page_addr_from_index_def demo_booted_fields)
  have bounds: "managed_start (mark_used 0 demo_booted) = 0x80000000"
    "managed_end (mark_used 0 demo_booted) = 0x80004000"
    by (simp_all add: mark_used_def demo_booted_def page_init_state_def align_up_def page_base_def
        PAGE_MASK_def PAGE_SIZE_def Let_def)
  show ?thesis
    using page_free_guarded [OF used(1), where p = "0x80000000"]
      page_free_guarded [OF used(1), where p = "0x80001000"]
      page_free_guarded [OF used(1), where p = "0x80000010"]
    by (auto simp: owned bounds PAGE_MASK_def PAGE_SIZE_def)
qed

theorem page_alloc_exhausts_witness:
  "\<exists>ps s'. run_n page_alloc 4 demo_booted = Inr (ps, s') \<and> distinct ps \<and> page_alloc s' = Inr (0, s')"
  using page_alloc_exhausts [OF demo_booted_inv] by (auto simp: demo_booted_fields)

end
