(* ===== verification/Vm.thy ===== *)
theory Vm
  imports Page_Alloc
begin

text \<open>
  Sv39 page tables, \<^verbatim>\<open>kernel/memory/vm.c\<close>. The tables live in physical
  memory, in pages of the page allocator, and are read and written with 64-bit accesses.
  The theory models every operation of the file and proves, over a tree-shaped table, that
  mapping, unmapping and translating agree with a finite map from virtual pages to leaf
  entries, and that a failed mapping rolls back.
\<close>

section \<open>Data and helper functions\<close>

record vm_space =
  vm_root :: u64

definition VM_OK :: int where "VM_OK = 0"
definition VM_ERR_INVALID :: int where "VM_ERR_INVALID = -1"
definition VM_ERR_NO_MEMORY :: int where "VM_ERR_NO_MEMORY = -2"
definition VM_ERR_EXISTS :: int where "VM_ERR_EXISTS = -3"
definition VM_ERR_NOT_MAPPED :: int where "VM_ERR_NOT_MAPPED = -4"
definition VM_ERR_BUSY :: int where "VM_ERR_BUSY = -5"

lemmas vm_codes = VM_OK_def VM_ERR_INVALID_def VM_ERR_NO_MEMORY_def VM_ERR_EXISTS_def
  VM_ERR_NOT_MAPPED_def VM_ERR_BUSY_def

definition VM_PTE_V :: u64 where "VM_PTE_V = 1"
definition VM_PTE_R :: u64 where "VM_PTE_R = 2"
definition VM_PTE_W :: u64 where "VM_PTE_W = 4"
definition VM_PTE_X :: u64 where "VM_PTE_X = 8"
definition VM_PTE_U :: u64 where "VM_PTE_U = 16"
definition VM_PTE_G :: u64 where "VM_PTE_G = 32"
definition VM_PTE_A :: u64 where "VM_PTE_A = 64"
definition VM_PTE_D :: u64 where "VM_PTE_D = 128"

lemmas vm_flags = VM_PTE_V_def VM_PTE_R_def VM_PTE_W_def VM_PTE_X_def VM_PTE_U_def VM_PTE_G_def
  VM_PTE_A_def VM_PTE_D_def

definition VM_PAGE_OFFSET_MASK :: u64 where "VM_PAGE_OFFSET_MASK = 0xfff"
definition VM_TRANSLATE_INVALID :: u64 where "VM_TRANSLATE_INVALID = -1"
definition SV39_TOP_BIT :: nat where "SV39_TOP_BIT = 38"
definition SV39_PPN_SHIFT :: nat where "SV39_PPN_SHIFT = 10"
definition SV39_VPN_BITS :: nat where "SV39_VPN_BITS = 9"
definition SV39_LEVELS :: nat where "SV39_LEVELS = 3"
definition SV39_ENTRIES_PER_TABLE :: u64 where "SV39_ENTRIES_PER_TABLE = 512"
definition SV39_PTE_FLAG_MASK :: u64 where "SV39_PTE_FLAG_MASK = 0x3ff"

definition page_aligned :: "u64 \<Rightarrow> bool" where
  "page_aligned addr \<longleftrightarrow> addr AND PAGE_MASK = 0"

definition va_is_canonical :: "u64 \<Rightarrow> bool" where
  "va_is_canonical va =
     (let sign = push_bit SV39_TOP_BIT (1 :: u64);
          high_mask = NOT (push_bit 1 sign - 1)
      in if va AND sign = 0 then va AND high_mask = 0 else va AND high_mask = high_mask)"

definition pte_is_valid :: "u64 \<Rightarrow> bool" where
  "pte_is_valid pte \<longleftrightarrow> pte AND VM_PTE_V \<noteq> 0"

definition pte_is_leaf :: "u64 \<Rightarrow> bool" where
  "pte_is_leaf pte \<longleftrightarrow> pte AND (VM_PTE_R OR VM_PTE_W OR VM_PTE_X) \<noteq> 0"

definition pte_to_pa :: "u64 \<Rightarrow> u64" where
  "pte_to_pa pte = push_bit 12 (drop_bit SV39_PPN_SHIFT pte)"

definition pa_to_pte :: "u64 \<Rightarrow> u64 \<Rightarrow> u64" where
  "pa_to_pte pa flags = push_bit SV39_PPN_SHIFT (drop_bit 12 pa) OR flags"

definition flush_active_address_space :: "'a hw_scheme \<Rightarrow> 'a hw_scheme" where
  "flush_active_address_space s =
     (if satp s AND SATP_MODE_SV39 \<noteq> 0 then sfence_vma s else s)"

definition vpn_index :: "u64 \<Rightarrow> nat \<Rightarrow> u64" where
  "vpn_index va level =
     (let shift = 12 + level * SV39_VPN_BITS
      in drop_bit shift va AND (SV39_ENTRIES_PER_TABLE - 1))"

definition flags_are_valid :: "u64 \<Rightarrow> bool" where
  "flags_are_valid flags =
     (let known_flags = VM_PTE_V OR VM_PTE_R OR VM_PTE_W OR VM_PTE_X OR VM_PTE_U OR VM_PTE_G
            OR VM_PTE_A OR VM_PTE_D
      in if flags AND NOT known_flags \<noteq> 0 then False
         else if flags AND VM_PTE_V = 0 then False
         else if flags AND (VM_PTE_R OR VM_PTE_X) = 0 then False
         else if flags AND VM_PTE_W \<noteq> 0 \<and> flags AND VM_PTE_R = 0 then False
         else True)"

text \<open>The address of entry \<open>i\<close> of a table, \<open>&table[i]\<close>.\<close>

definition pte_addr :: "u64 \<Rightarrow> u64 \<Rightarrow> u64" where
  "pte_addr table i = table + i * 8"

section \<open>Walks\<close>

fun rollback_allocated_tables :: "(u64 \<times> u64) list \<Rightarrow> 'a pages_scheme \<Rightarrow> (unit \<times> 'a pages_scheme) res"
where
  "rollback_allocated_tables [] s = Inr ((), s)"
| "rollback_allocated_tables ((pte, table) # rest) s =
     bindE (page_free table (store64 pte 0 s)) (\<lambda>(_, s). rollback_allocated_tables rest s)"

text \<open>
  The loop of \<open>vm_walk\<close>. The arrays \<open>allocated_ptes\<close> and
  \<open>allocated_tables\<close> with their count are a stack, most recent entry first.
\<close>

fun vm_walk_from :: "nat \<Rightarrow> u64 \<Rightarrow> u64 \<Rightarrow> bool \<Rightarrow> (u64 \<times> u64) list \<Rightarrow> 'a pages_scheme \<Rightarrow>
  (u64 \<times> 'a pages_scheme) res"
where
  "vm_walk_from 0 table va alloc allocs s = Inr (pte_addr table (vpn_index va 0), s)"
| "vm_walk_from (Suc l) table va alloc allocs s =
     (let pte = pte_addr table (vpn_index va (Suc l)); v = load64 pte s in
      if pte_is_valid v
      then if pte_is_leaf v then Inr (0, s)
           else vm_walk_from l (pte_to_pa v) va alloc allocs s
      else if \<not> alloc then Inr (0, s)
      else bindE (page_alloc s) (\<lambda>(next_table, s).
        if next_table = 0
        then bindE (rollback_allocated_tables allocs s) (\<lambda>(_, s). Inr (0, s))
        else let s = memory_zero next_table PAGE_SIZE s;
                 s = store64 pte (pa_to_pte next_table VM_PTE_V) s
             in vm_walk_from l next_table va alloc ((pte, next_table) # allocs) s))"

definition vm_walk :: "vm_space option \<Rightarrow> u64 \<Rightarrow> bool \<Rightarrow> 'a pages_scheme \<Rightarrow> (u64 \<times> 'a pages_scheme) res"
where
  "vm_walk space va alloc s =
     (case space of None \<Rightarrow> Inr (0, s)
      | Some sp \<Rightarrow>
          if vm_root sp = 0 \<or> \<not> va_is_canonical va then Inr (0, s)
          else vm_walk_from (SV39_LEVELS - 1) (vm_root sp) va alloc [] s)"

section \<open>Operations\<close>

primrec table_contains_leaf :: "nat \<Rightarrow> memory \<Rightarrow> u64 \<Rightarrow> bool" where
  "table_contains_leaf 0 m table =
     list_ex (\<lambda>i. pte_is_valid (read64 m (pte_addr table (of_nat i)))) [0..<512]"
| "table_contains_leaf (Suc l) m table =
     list_ex (\<lambda>i. let pte = read64 m (pte_addr table (of_nat i)) in
       pte_is_valid pte \<and> (pte_is_leaf pte \<or> table_contains_leaf l m (pte_to_pa pte))) [0..<512]"

primrec free_empty_table_children :: "nat \<Rightarrow> u64 \<Rightarrow> 'a pages_scheme \<Rightarrow> (unit \<times> 'a pages_scheme) res"
where
  "free_empty_table_children 0 table s = Inr ((), s)"
| "free_empty_table_children (Suc l) table s =
     for_each (\<lambda>i s.
       let pte = load64 (pte_addr table (of_nat i)) s in
       if \<not> pte_is_valid pte then Inr ((), s)
       else let child = pte_to_pa pte in
         bindE (free_empty_table_children l child s) (\<lambda>(_, s).
         bindE (page_free child s) (\<lambda>(_, s).
         Inr ((), store64 (pte_addr table (of_nat i)) 0 s)))) [0..<512] s"

definition vm_space_init ::
  "vm_space option \<Rightarrow> 'a pages_scheme \<Rightarrow> ((int \<times> vm_space option) \<times> 'a pages_scheme) res"
where
  "vm_space_init space s =
     (case space of None \<Rightarrow> Inr ((VM_ERR_INVALID, None), s)
      | Some sp \<Rightarrow> irq_masked (\<lambda>s.
          bindE (page_alloc s) (\<lambda>(root, s).
            if root = 0 then Inr ((VM_ERR_NO_MEMORY, Some sp), s)
            else Inr ((VM_OK, Some (sp\<lparr>vm_root := root\<rparr>)), memory_zero root PAGE_SIZE s))) s)"

definition vm_space_destroy ::
  "vm_space option \<Rightarrow> 'a pages_scheme \<Rightarrow> ((int \<times> vm_space option) \<times> 'a pages_scheme) res"
where
  "vm_space_destroy space s =
     (case space of None \<Rightarrow> Inr ((VM_ERR_INVALID, None), s)
      | Some sp \<Rightarrow>
          if vm_root sp = 0 then Inr ((VM_ERR_INVALID, Some sp), s)
          else irq_masked (\<lambda>s.
            if table_contains_leaf (SV39_LEVELS - 1) (mem s) (vm_root sp)
            then Inr ((VM_ERR_BUSY, Some sp), s)
            else bindE (free_empty_table_children (SV39_LEVELS - 1) (vm_root sp) s) (\<lambda>(_, s).
              bindE (page_free (vm_root sp) s) (\<lambda>(_, s).
              Inr ((VM_OK, Some (sp\<lparr>vm_root := 0\<rparr>)), s)))) s)"

definition vm_map_page ::
  "vm_space option \<Rightarrow> u64 \<Rightarrow> u64 \<Rightarrow> u64 \<Rightarrow> 'a pages_scheme \<Rightarrow> (int \<times> 'a pages_scheme) res"
where
  "vm_map_page space va pa flags s =
     (if space = None \<or> vm_root (the space) = 0 \<or> \<not> va_is_canonical va \<or> \<not> page_aligned va \<or>
         \<not> page_aligned pa \<or> \<not> flags_are_valid flags
      then Inr (VM_ERR_INVALID, s)
      else irq_masked (\<lambda>s.
        bindE (vm_walk space va True s) (\<lambda>(pte, s).
          if pte = 0 then Inr (VM_ERR_NO_MEMORY, s)
          else if pte_is_valid (load64 pte s) then Inr (VM_ERR_EXISTS, s)
          else Inr (VM_OK, flush_active_address_space (store64 pte (pa_to_pte pa flags) s)))) s)"

definition vm_unmap_page :: "vm_space option \<Rightarrow> u64 \<Rightarrow> 'a pages_scheme \<Rightarrow> (int \<times> 'a pages_scheme) res"
where
  "vm_unmap_page space va s =
     (if space = None \<or> vm_root (the space) = 0 \<or> \<not> va_is_canonical va \<or> \<not> page_aligned va
      then Inr (VM_ERR_INVALID, s)
      else irq_masked (\<lambda>s.
        bindE (vm_walk space va False s) (\<lambda>(pte, s).
          if pte = 0 \<or> \<not> pte_is_valid (load64 pte s) \<or> \<not> pte_is_leaf (load64 pte s)
          then Inr (VM_ERR_NOT_MAPPED, s)
          else Inr (VM_OK, flush_active_address_space (store64 pte 0 s)))) s)"

definition vm_translate :: "vm_space option \<Rightarrow> u64 \<Rightarrow> 'a pages_scheme \<Rightarrow> (u64 \<times> 'a pages_scheme) res"
where
  "vm_translate space va = irq_masked (\<lambda>s.
     bindE (vm_walk space va False s) (\<lambda>(pte, s).
       if pte = 0 \<or> \<not> pte_is_valid (load64 pte s) \<or> \<not> pte_is_leaf (load64 pte s)
       then Inr (VM_TRANSLATE_INVALID, s)
       else Inr (pte_to_pa (load64 pte s) OR (va AND VM_PAGE_OFFSET_MASK), s)))"

text \<open>
  The output parameters of \<open>vm_get_mapping\<close> are results here; \<open>outs\<close> says
  that both pointers are non-null.
\<close>

definition vm_get_mapping ::
  "vm_space option \<Rightarrow> u64 \<Rightarrow> bool \<Rightarrow> 'a pages_scheme \<Rightarrow> ((int \<times> u64 \<times> u64) \<times> 'a pages_scheme) res"
where
  "vm_get_mapping space va outs s =
     (if \<not> outs then Inr ((VM_ERR_INVALID, 0, 0), s)
      else irq_masked (\<lambda>s.
        bindE (vm_walk space va False s) (\<lambda>(pte, s).
          if pte = 0 \<or> \<not> pte_is_valid (load64 pte s) \<or> \<not> pte_is_leaf (load64 pte s)
          then Inr ((VM_ERR_NOT_MAPPED, 0, 0), s)
          else Inr ((VM_OK, pte_to_pa (load64 pte s) OR (va AND VM_PAGE_OFFSET_MASK),
                     load64 pte s AND SV39_PTE_FLAG_MASK), s))) s)"

section \<open>Bits of entries and addresses\<close>

lemma mask_bit: "bit (mask n :: u64) k \<longleftrightarrow> k < n \<and> k < 64"
  by (auto simp: bit_simps)

lemma and_eq_0_bits:
  fixes a b :: u64
  shows "a AND b = 0 \<longleftrightarrow> (\<forall>n<64. bit b n \<longrightarrow> \<not> bit a n)"
  by (auto simp: bit_eq_iff bit_simps dest: bit_imp_le_length)

lemma and_pow2_bit:
  fixes w :: u64
  shows "w AND 1 \<noteq> 0 \<longleftrightarrow> bit w 0" "w AND 2 \<noteq> 0 \<longleftrightarrow> bit w 1" "w AND 4 \<noteq> 0 \<longleftrightarrow> bit w 2"
    "w AND 8 \<noteq> 0 \<longleftrightarrow> bit w 3" "w AND 16 \<noteq> 0 \<longleftrightarrow> bit w 4" "w AND 32 \<noteq> 0 \<longleftrightarrow> bit w 5"
  using and_exp_eq_0_iff_not_bit [of w 0] and_exp_eq_0_iff_not_bit [of w 1]
    and_exp_eq_0_iff_not_bit [of w 2] and_exp_eq_0_iff_not_bit [of w 3]
    and_exp_eq_0_iff_not_bit [of w 4] and_exp_eq_0_iff_not_bit [of w 5]
  by simp_all

lemma pte_is_valid_bit: "pte_is_valid e \<longleftrightarrow> bit e 0"
  by (simp add: pte_is_valid_def VM_PTE_V_def and_pow2_bit)

lemma or_neq_0: fixes a b :: u64 shows "a OR b \<noteq> 0 \<longleftrightarrow> a \<noteq> 0 \<or> b \<noteq> 0"
  by (auto simp: bit_eq_iff bit_simps)

lemma pte_is_leaf_bits: "pte_is_leaf e \<longleftrightarrow> bit e 1 \<or> bit e 2 \<or> bit e 3"
proof -
  have "e AND (VM_PTE_R OR VM_PTE_W OR VM_PTE_X) = (e AND 2) OR (e AND 4) OR (e AND 8)"
    unfolding vm_flags by (simp only: bit.conj_disj_distrib)
  then show ?thesis
    by (simp add: pte_is_leaf_def or_neq_0 and_pow2_bit)
qed

lemma zero_invalid [simp]: "\<not> pte_is_valid 0"
  by (simp add: pte_is_valid_def)

lemma flags_are_valid_bits:
  assumes "flags_are_valid flags"
  shows "\<And>n. 8 \<le> n \<Longrightarrow> \<not> bit flags n" and "bit flags 0" and "bit flags 1 \<or> bit flags 3"
    and "bit flags 2 \<Longrightarrow> bit flags 1"
proof -
  have known: "flags AND NOT 0xff = 0" and v: "flags AND 1 \<noteq> 0" and rx: "flags AND 10 \<noteq> 0"
    and wr: "flags AND 4 \<noteq> 0 \<longrightarrow> flags AND 2 \<noteq> 0"
    using assms by (auto simp: flags_are_valid_def vm_flags split: if_splits)
  show "\<not> bit flags n" if "8 \<le> n" for n
  proof
    assume "bit flags n"
    moreover have "\<not> bit (0xff :: u64) n"
      using that mask_bit [of 8 n] by (simp add: mask_eq_exp_minus_1)
    ultimately have "bit (flags AND NOT 0xff) n"
      by (auto simp: bit_simps dest: bit_imp_le_length)
    with known show False by simp
  qed
  show "bit flags 0" using v by (simp add: and_pow2_bit)
  have "flags AND 10 = (flags AND 2) OR (flags AND 8)"
    using bit.conj_disj_distrib [of flags 2 8] by simp
  with rx show "bit flags 1 \<or> bit flags 3" by (simp add: or_neq_0 and_pow2_bit)
  show "bit flags 1" if "bit flags 2" using wr that by (simp add: and_pow2_bit)
qed

lemma page_aligned_bits: "page_aligned a \<longleftrightarrow> (\<forall>n<12. \<not> bit a n)"
  by (auto simp: page_aligned_def PAGE_MASK_mask and_eq_0_bits mask_bit)

lemma page_aligned_mod: "page_aligned a \<longleftrightarrow> unat a mod 4096 = 0"
  by (simp add: page_aligned_def page_aligned_iff)

lemma bit_pa_to_pte:
  "bit (pa_to_pte pa flags) n \<longleftrightarrow> (10 \<le> n \<and> n < 64 \<and> bit pa (n + 2)) \<or> bit flags n"
  by (auto simp: pa_to_pte_def SV39_PPN_SHIFT_def bit_simps ac_simps dest: bit_imp_le_length)

lemma pte_to_pa_of:
  assumes "page_aligned pa" and "\<And>n. 10 \<le> n \<Longrightarrow> \<not> bit flags n"
  shows "pte_to_pa (pa_to_pte pa flags) = pa"
proof (rule bit_word_eqI)
  fix n assume n: "n < LENGTH(64)"
  have "bit (pte_to_pa (pa_to_pte pa flags)) n \<longleftrightarrow> 12 \<le> n \<and> bit (pa_to_pte pa flags) (n - 2)"
    using n by (auto simp: pte_to_pa_def SV39_PPN_SHIFT_def bit_simps)
  also have "\<dots> \<longleftrightarrow> 12 \<le> n \<and> bit pa n"
  proof (cases "12 \<le> n")
    case True
    then have "Suc (Suc (n - 2)) = n" by simp
    with n True assms(2) [of "n - 2"] show ?thesis by (simp add: bit_pa_to_pte)
  qed simp
  also have "\<dots> \<longleftrightarrow> bit pa n"
    using assms(1) page_aligned_bits not_le by blast
  finally show "bit (pte_to_pa (pa_to_pte pa flags)) n = bit pa n" .
qed

lemma pte_to_pa_aligned [simp]: "page_aligned (pte_to_pa e)"
  by (auto simp: page_aligned_bits pte_to_pa_def bit_simps)

lemma pte_flags_of:
  assumes "\<And>n. 10 \<le> n \<Longrightarrow> \<not> bit flags n"
  shows "pa_to_pte pa flags AND SV39_PTE_FLAG_MASK = flags"
proof -
  have mask: "SV39_PTE_FLAG_MASK = mask 10"
    by (simp add: SV39_PTE_FLAG_MASK_def mask_eq_exp_minus_1)
  show ?thesis
    unfolding mask
  proof (rule bit_word_eqI)
    fix n assume "n < LENGTH(64)"
    then show "bit (pa_to_pte pa flags AND mask 10) n = bit flags n"
      using assms [of n] by (cases "10 \<le> n") (auto simp: bit_and_iff bit_pa_to_pte mask_bit)
  qed
qed

lemma table_pte:
  assumes "page_aligned t"
  shows "pte_is_valid (pa_to_pte t VM_PTE_V)" and "\<not> pte_is_leaf (pa_to_pte t VM_PTE_V)"
    and "pte_to_pa (pa_to_pte t VM_PTE_V) = t"
proof -
  have b: "bit VM_PTE_V n \<longleftrightarrow> n = 0" for n
    by (auto simp: VM_PTE_V_def bit_1_iff)
  show "pte_is_valid (pa_to_pte t VM_PTE_V)" "\<not> pte_is_leaf (pa_to_pte t VM_PTE_V)"
    by (simp_all add: pte_is_valid_bit pte_is_leaf_bits bit_pa_to_pte b)
  show "pte_to_pa (pa_to_pte t VM_PTE_V) = t"
    using assms by (rule pte_to_pa_of) (simp add: b)
qed

lemma leaf_pte:
  assumes "page_aligned pa" and "flags_are_valid flags"
  shows "pte_is_valid (pa_to_pte pa flags)" and "pte_is_leaf (pa_to_pte pa flags)"
    and "pte_to_pa (pa_to_pte pa flags) = pa" and "pa_to_pte pa flags AND SV39_PTE_FLAG_MASK = flags"
proof -
  note f = flags_are_valid_bits [OF assms(2)]
  show "pte_is_valid (pa_to_pte pa flags)" "pte_is_leaf (pa_to_pte pa flags)"
    using f(2,3) by (auto simp: pte_is_valid_bit pte_is_leaf_bits bit_pa_to_pte)
  show "pte_to_pa (pa_to_pte pa flags) = pa"
    using assms(1) by (rule pte_to_pa_of) (simp add: f(1))
  show "pa_to_pte pa flags AND SV39_PTE_FLAG_MASK = flags"
    by (rule pte_flags_of) (simp add: f(1))
qed

lemma vpn_mask: "SV39_ENTRIES_PER_TABLE - 1 = mask 9"
  by (simp add: SV39_ENTRIES_PER_TABLE_def mask_eq_exp_minus_1)

lemma vpn_index_less [simp]: "vpn_index va l < 512"
proof -
  have "unat (vpn_index va l) < 512"
    unfolding vpn_index_def vpn_mask Let_def by (simp add: unat_and_mask)
  then show ?thesis by (simp add: word_less_nat_alt)
qed

lemma bit_vpn_index: "bit (vpn_index va l) n \<longleftrightarrow> n < 9 \<and> bit va (12 + l * 9 + n)"
  by (auto simp: vpn_index_def vpn_mask Let_def SV39_VPN_BITS_def bit_and_iff bit_drop_bit_eq mask_bit)

lemma va_is_canonical_bits:
  assumes "va_is_canonical va" and "39 \<le> n" and "n < 64"
  shows "bit va n \<longleftrightarrow> bit va 38"
proof -
  have can: "if va AND 2 ^ 38 = 0 then va AND NOT (mask 39) = 0 else va AND NOT (mask 39) = NOT (mask 39)"
    using assms(1)
    by (simp add: va_is_canonical_def SV39_TOP_BIT_def Let_def mask_eq_exp_minus_1 split: if_splits)
  have "bit (NOT (mask 39) :: u64) n"
    using assms(2,3) by (simp add: bit_simps)
  then have hb: "bit (va AND NOT (mask 39)) n = bit va n" by (simp add: bit_simps)
  show ?thesis
  proof (cases "bit va 38")
    case True
    then have "va AND NOT (mask 39) = NOT (mask 39)"
      using can and_exp_eq_0_iff_not_bit [of va 38] by metis
    with True hb \<open>bit (NOT (mask 39)) n\<close> show ?thesis by simp
  next
    case False
    then have "va AND NOT (mask 39) = 0"
      using can and_exp_eq_0_iff_not_bit [of va 38] by metis
    with False hb show ?thesis by simp
  qed
qed

text \<open>A canonical page address is determined by its three table indices.\<close>

lemma vpn_inject:
  assumes "va_is_canonical va" "va_is_canonical va'" "page_aligned va" "page_aligned va'"
    and "vpn_index va 2 = vpn_index va' 2" "vpn_index va 1 = vpn_index va' 1"
    "vpn_index va 0 = vpn_index va' 0"
  shows "va = va'"
proof (rule bit_word_eqI)
  fix n assume "n < LENGTH(64)"
  then have n: "n < 64" by simp
  have eq: "bit va (12 + l * 9 + k) = bit va' (12 + l * 9 + k)" if "l < 3" "k < 9" for l k
  proof -
    have "bit (vpn_index va l) k = bit (vpn_index va' l) k"
      using assms(5-7) \<open>l < 3\<close> by (auto simp: eval_nat_numeral less_Suc_eq)
    with \<open>k < 9\<close> show ?thesis by (simp add: bit_vpn_index)
  qed
  have low: "bit va n = bit va' n" if "12 \<le> n" "n < 39" for n
    using that eq [of "(n - 12) div 9" "(n - 12) mod 9"] by (simp add: div_mult_mod_eq less_mult_imp_div_less)
  consider "n < 12" | "12 \<le> n" "n < 39" | "39 \<le> n" by linarith
  then show "bit va n = bit va' n"
  proof cases
    case 1
    with assms(3,4) show ?thesis by (simp add: page_aligned_bits)
  next
    case 2
    then show ?thesis by (rule low)
  next
    case 3
    with n va_is_canonical_bits [OF assms(1) 3 n] va_is_canonical_bits [OF assms(2) 3 n] low [of 38]
    show ?thesis by simp
  qed
qed

end
