(* ===== verification/Vm_Tables.thy ===== *)
theory Vm_Tables
  imports Vm "HOL-Library.Sublist"
begin

text \<open>
  The page tables as a tree in memory: the table a path of indices leads to, the
  well-formedness of a tree whose tables are pages owned by it, the leaf a virtual address
  selects, and the effect of the three stores the operations of
  \<^verbatim>\<open>vm.c\<close> perform, linking a fresh table, setting a leaf and clearing a
  leaf.
\<close>

section \<open>Entries\<close>

definition pt_entry :: "memory \<Rightarrow> u64 \<Rightarrow> u64 \<Rightarrow> u64" where
  "pt_entry m t i = read64 m (pte_addr t i)"

lemma unat_entry_offset:
  fixes i :: u64
  assumes "i < 512"
  shows "unat (i * 8) = unat i * 8"
  using assms by (simp add: unat_word_ariths word_less_nat_alt)

lemma pte_addr_unat:
  assumes "unat t mod 4096 = 0" and "i < 512"
  shows "unat (pte_addr t i) = unat t + unat i * 8"
proof -
  have "unat (i * 8) < 4096" using assms(2) by (simp add: unat_entry_offset word_less_nat_alt)
  then show ?thesis
    using unat_add_aligned [OF assms(1), of "i * 8"] assms(2) by (simp add: pte_addr_def unat_entry_offset)
qed

lemma pte_addr_props:
  assumes "unat t mod 4096 = 0" and "i < 512"
  shows "page_base (pte_addr t i) = t" and "unat (pte_addr t i) mod 8 = 0"
proof -
  have "unat (i * 8) < 4096" using assms(2) by (simp add: unat_entry_offset word_less_nat_alt)
  then show "page_base (pte_addr t i) = t"
    unfolding pte_addr_def using assms(1) by (intro page_base_add)
  have "(8 :: nat) dvd 4096" by simp
  with assms(1) have "unat t mod 8 = 0" by (metis mod_mod_cancel mod_0)
  then show "unat (pte_addr t i) mod 8 = 0"
    using pte_addr_unat [OF assms] by simp
qed

lemma pte_addr_inject:
  assumes "unat t mod 4096 = 0" "i < 512" "unat t' mod 4096 = 0" "i' < 512"
    and "pte_addr t i = pte_addr t' i'"
  shows "t = t' \<and> i = i'"
proof -
  have "t = t'" using pte_addr_props(1) assms by metis
  moreover from this have "unat i * 8 = unat i' * 8"
    using pte_addr_unat [OF assms(1,2)] pte_addr_unat [OF assms(3,4)] assms(5) by simp
  ultimately show ?thesis by (simp add: word_unat_eq_iff)
qed

lemma pte_addr_nonzero:
  assumes "unat t mod 4096 = 0" and "i < 512" and "t \<noteq> 0"
  shows "pte_addr t i \<noteq> 0"
  using pte_addr_unat [OF assms(1,2)] assms(3) by (metis add_is_0 unat_0 unat_eq_0)

lemma entry_write:
  assumes "unat t mod 4096 = 0" "i < 512" "unat t' mod 4096 = 0" "i' < 512"
  shows "pt_entry (write64 m (pte_addr t' i') v) t i = (if t = t' \<and> i = i' then v else pt_entry m t i)"
proof (cases "t = t' \<and> i = i'")
  case True
  then show ?thesis by (simp add: pt_entry_def cell64.rd_wr)
next
  case False
  then have "pte_addr t i \<noteq> pte_addr t' i'" using pte_addr_inject assms by metis
  with False show ?thesis
    using assms by (auto simp: pt_entry_def cell64.rd_wr_aligned pte_addr_props)
qed

text \<open>Memories that agree on a table's page have the same entries there.\<close>

definition agree_on :: "u64 set \<Rightarrow> memory \<Rightarrow> memory \<Rightarrow> bool" where
  "agree_on A m m' \<longleftrightarrow> (\<forall>b. page_base b \<in> A \<longrightarrow> m b = m' b)"

lemma agree_on_refl [simp]: "agree_on A m m"
  by (simp add: agree_on_def)

lemma agree_on_trans: "agree_on A m m' \<Longrightarrow> agree_on A m' m'' \<Longrightarrow> agree_on A m m''"
  by (simp add: agree_on_def)

lemma agree_on_sym: "agree_on A m m' \<Longrightarrow> agree_on A m' m"
  by (simp add: agree_on_def)

lemma agree_on_mono: "agree_on A m m' \<Longrightarrow> B \<subseteq> A \<Longrightarrow> agree_on B m m'"
  by (auto simp: agree_on_def)

lemma entry_agree:
  assumes "agree_on A m m'" and "t \<in> A" and "unat t mod 4096 = 0" and "i < 512"
  shows "pt_entry m t i = pt_entry m' t i"
  unfolding pt_entry_def using assms
  by (intro cell64.rd_page_cong) (simp_all add: pte_addr_props agree_on_def)

lemma agree_on_write:
  assumes "unat t mod 4096 = 0" "i < 512" and "t \<notin> A"
  shows "agree_on A m (write64 m (pte_addr t i) v)"
proof -
  have "write64 m (pte_addr t i) v b = m b" if "page_base b \<in> A" for b
    using assms that by (intro cell64.wr_other_page) (auto simp: pte_addr_props)
  then show ?thesis by (simp add: agree_on_def)
qed

lemma fill_page_apply:
  assumes "unat p mod 4096 = 0"
  shows "fill_bytes m p v 4096 b = (if page_base b = p then v else m b)"
proof -
  have "unat (b - p) < 4096 \<longleftrightarrow> page_base b = p"
  proof
    assume "unat (b - p) < 4096"
    then have "page_base (p + (b - p)) = p" using assms by (intro page_base_add)
    then show "page_base b = p" by simp
  next
    assume "page_base b = p"
    then have "p \<le> b" and "unat p = unat b - unat b mod 4096"
      by (auto simp: page_base_le unat_page_base)
    then show "unat (b - p) < 4096" by (simp add: unat_sub)
  qed
  then show ?thesis by (simp add: fill_bytes_apply)
qed

lemma agree_on_fill:
  assumes "unat p mod 4096 = 0" and "p \<notin> A"
  shows "agree_on A m (fill_bytes m p v 4096)"
  using assms by (auto simp: agree_on_def fill_page_apply)

lemma read64_zero: "(\<And>i. i < 8 \<Longrightarrow> m (a + of_nat i) = 0) \<Longrightarrow> read64 m a = 0"
  using cell64.rd_local [of m a "\<lambda>_. 0"] by (simp add: read64_def)

lemma entry_fill:
  assumes "unat p mod 4096 = 0" and "i < 512"
  shows "pt_entry (fill_bytes m p 0 4096) p i = 0"
  unfolding pt_entry_def using assms
  by (intro read64_zero) (simp add: fill_page_apply cell64.cell_page pte_addr_props)

section \<open>Paths and well-formed trees\<close>

definition next_table :: "memory \<Rightarrow> u64 \<Rightarrow> u64 \<Rightarrow> u64 option" where
  "next_table m t i =
     (let e = pt_entry m t i in if pte_is_valid e \<and> \<not> pte_is_leaf e then Some (pte_to_pa e) else None)"

primrec pt_table :: "memory \<Rightarrow> u64 \<Rightarrow> u64 list \<Rightarrow> u64 option" where
  "pt_table m t [] = Some t"
| "pt_table m t (i # p) = (case next_table m t i of None \<Rightarrow> None | Some t' \<Rightarrow> pt_table m t' p)"

lemma pt_table_snoc:
  "pt_table m t (p @ [i]) = (case pt_table m t p of None \<Rightarrow> None | Some t' \<Rightarrow> next_table m t' i)"
  by (induction p arbitrary: t) (simp_all split: option.split)

text \<open>The index paths of a three-level table.\<close>

definition vpath :: "u64 list \<Rightarrow> bool" where
  "vpath p \<longleftrightarrow> length p \<le> 2 \<and> (\<forall>i \<in> set p. i < 512)"

lemma vpath_Nil [simp]: "vpath []"
  by (simp add: vpath_def)

lemma vpath_snoc: "vpath (p @ [i]) \<longleftrightarrow> vpath p \<and> length p < 2 \<and> i < 512"
  by (auto simp: vpath_def)

text \<open>
  What every entry that \<open>vm.c\<close> writes has: no bit above the physical page number, and no page that is writable but
  not readable.
\<close>

definition pte_clean :: "u64 \<Rightarrow> bool" where
  "pte_clean e \<longleftrightarrow> drop_bit 62 e = 0 \<and> (e AND VM_PTE_W \<noteq> 0 \<longrightarrow> e AND VM_PTE_R \<noteq> 0)"

lemma pte_clean_bits: "pte_clean e \<longleftrightarrow> \<not> bit e 62 \<and> \<not> bit e 63 \<and> (bit e 2 \<longrightarrow> bit e 1)"
proof -
  have "drop_bit 62 e = 0 \<longleftrightarrow> \<not> bit e 62 \<and> \<not> bit e 63"
  proof
    assume "drop_bit 62 e = 0"
    then have "\<not> bit (drop_bit 62 e) n" for n by simp
    from this [of 0] this [of 1] show "\<not> bit e 62 \<and> \<not> bit e 63" by (simp add: bit_drop_bit_eq)
  next
    assume b: "\<not> bit e 62 \<and> \<not> bit e 63"
    have "\<not> bit e (62 + n)" for n
    proof (cases "n \<le> 1")
      case True
      then have "n = 0 \<or> n = 1" by auto
      with b show ?thesis by auto
    qed (auto dest: bit_imp_le_length)
    then show "drop_bit 62 e = 0" by (intro bit_word_eqI) (simp add: bit_drop_bit_eq)
  qed
  moreover have "e AND VM_PTE_W \<noteq> 0 \<longleftrightarrow> bit e 2" "e AND VM_PTE_R \<noteq> 0 \<longleftrightarrow> bit e 1"
    using and_exp_eq_0_iff_not_bit [of e 2] and_exp_eq_0_iff_not_bit [of e 1] by (simp_all add: VM_PTE_W_def VM_PTE_R_def)
  ultimately show ?thesis by (simp add: pte_clean_def)
qed

lemma table_pte_clean: "pte_clean (pa_to_pte t VM_PTE_V)"
  by (auto simp: pte_clean_bits bit_pa_to_pte VM_PTE_V_def bit_1_iff dest: bit_imp_le_length)

lemma leaf_pte_clean:
  assumes "flags_are_valid flags"
  shows "pte_clean (pa_to_pte pa flags)"
  using flags_are_valid_bits [OF assms] by (auto simp: pte_clean_bits bit_pa_to_pte dest: bit_imp_le_length)

text \<open>
  A well-formed tree: every table is a distinct page of the set \<open>A\<close>; every entry is 0
  or valid and clean, a link to a table on the upper two levels and a leaf on the last.
\<close>

definition pt_wf :: "u64 set \<Rightarrow> memory \<Rightarrow> u64 \<Rightarrow> bool" where
  "pt_wf A m root \<longleftrightarrow>
     (\<forall>p t. vpath p \<longrightarrow> pt_table m root p = Some t \<longrightarrow>
        t \<in> A \<and> (\<forall>i<512. pt_entry m t i = 0 \<or>
          pte_is_valid (pt_entry m t i) \<and> pte_clean (pt_entry m t i) \<and> (pte_is_leaf (pt_entry m t i) \<longleftrightarrow> length p = 2))) \<and>
     (\<forall>p q t. vpath p \<longrightarrow> vpath q \<longrightarrow> pt_table m root p = Some t \<longrightarrow> pt_table m root q = Some t \<longrightarrow> p = q)"

definition pt_tables :: "memory \<Rightarrow> u64 \<Rightarrow> u64 set" where
  "pt_tables m root = {t. \<exists>p. vpath p \<and> pt_table m root p = Some t}"

text \<open>The paths that lead to a table.\<close>

definition pt_paths :: "memory \<Rightarrow> u64 \<Rightarrow> u64 list set" where
  "pt_paths m root = {p. vpath p \<and> pt_table m root p \<noteq> None}"

definition va_path :: "u64 \<Rightarrow> u64 list" where
  "va_path va = [vpn_index va 2, vpn_index va 1]"

text \<open>The leaf entry a virtual address selects, the abstraction of the tree.\<close>

definition pt_lookup :: "memory \<Rightarrow> u64 \<Rightarrow> u64 \<Rightarrow> u64 option" where
  "pt_lookup m root va =
     (case pt_table m root (va_path va) of None \<Rightarrow> None
      | Some t \<Rightarrow> let e = pt_entry m t (vpn_index va 0) in if e = 0 then None else Some e)"

lemma va_path_vpath [simp]: "vpath (va_path va)" "length (va_path va) = 2"
  by (simp_all add: vpath_def va_path_def)

lemma pt_wf_table:
  assumes "pt_wf A m root" "vpath p" "pt_table m root p = Some t"
  shows "t \<in> A"
    and "i < 512 \<Longrightarrow> pt_entry m t i = 0 \<or>
      pte_is_valid (pt_entry m t i) \<and> pte_clean (pt_entry m t i) \<and> (pte_is_leaf (pt_entry m t i) \<longleftrightarrow> length p = 2)"
  using assms unfolding pt_wf_def by blast+

lemma pt_wf_inj:
  "pt_wf A m root \<Longrightarrow> vpath p \<Longrightarrow> vpath q \<Longrightarrow> pt_table m root p = Some t \<Longrightarrow>
   pt_table m root q = Some t \<Longrightarrow> p = q"
  unfolding pt_wf_def by blast

lemma pt_tables_subset: "pt_wf A m root \<Longrightarrow> pt_tables m root \<subseteq> A"
  by (auto simp: pt_tables_def dest: pt_wf_table(1))

lemma pt_wf_mono: "pt_wf A m root \<Longrightarrow> A \<subseteq> B \<Longrightarrow> pt_wf B m root"
  unfolding pt_wf_def by blast

text \<open>A set of page frames: page aligned and non-null addresses.\<close>

definition frames :: "u64 set \<Rightarrow> bool" where
  "frames A \<longleftrightarrow> (\<forall>a \<in> A. a \<noteq> 0 \<and> unat a mod 4096 = 0)"

lemma frames_mono: "frames A \<Longrightarrow> B \<subseteq> A \<Longrightarrow> frames B"
  by (auto simp: frames_def)

lemma frames_insert [simp]: "frames (insert a A) \<longleftrightarrow> a \<noteq> 0 \<and> unat a mod 4096 = 0 \<and> frames A"
  by (auto simp: frames_def)

text \<open>A tree depends on the pages of its own tables only.\<close>

lemma pt_table_agree:
  assumes wf: "pt_wf A m root" and fr: "frames A" and ag: "agree_on (pt_tables m root) m m'" and "vpath q"
  shows "pt_table m' root q = pt_table m root q"
  using \<open>vpath q\<close>
proof (induction q rule: rev_induct)
  case (snoc j q)
  then have q: "vpath q" "j < 512" by (auto simp: vpath_snoc)
  show ?case
  proof (cases "pt_table m root q")
    case None
    with snoc q show ?thesis by (simp add: pt_table_snoc)
  next
    case (Some t)
    then have "t \<in> pt_tables m root" "unat t mod 4096 = 0"
      using q pt_wf_table(1) [OF wf q(1) Some] fr by (auto simp: pt_tables_def frames_def)
    then have "pt_entry m t j = pt_entry m' t j" using ag q(2) by (intro entry_agree)
    with Some snoc q show ?thesis by (simp add: pt_table_snoc next_table_def)
  qed
qed simp

lemma pt_agree:
  assumes wf: "pt_wf A m root" and fr: "frames A" and ag: "agree_on (pt_tables m root) m m'"
  shows "pt_wf A m' root" and "pt_tables m' root = pt_tables m root"
    and "pt_lookup m' root = pt_lookup m root" and "pt_paths m' root = pt_paths m root"
proof -
  note tab = pt_table_agree [OF wf fr ag]
  have ent: "pt_entry m' t i = pt_entry m t i" if "vpath p" "pt_table m root p = Some t" "i < 512" for p t i
  proof -
    have "t \<in> pt_tables m root" "unat t mod 4096 = 0"
      using that pt_wf_table(1) [OF wf that(1,2)] fr by (auto simp: pt_tables_def frames_def)
    then show ?thesis using ag that(3) by (metis entry_agree)
  qed
  show "pt_wf A m' root"
    unfolding pt_wf_def
  proof (intro conjI allI impI)
    fix p t
    assume p: "vpath p" and t': "pt_table m' root p = Some t"
    then have t: "pt_table m root p = Some t" by (simp add: tab)
    from pt_wf_table(1) [OF wf p t] show "t \<in> A" .
    fix i :: u64 assume i: "i < 512"
    show "pt_entry m' t i = 0 \<or>
      pte_is_valid (pt_entry m' t i) \<and> pte_clean (pt_entry m' t i) \<and> (pte_is_leaf (pt_entry m' t i) \<longleftrightarrow> length p = 2)"
      using pt_wf_table(2) [OF wf p t i] ent [OF p t i] by simp
  next
    fix p q t
    assume "vpath p" "vpath q" "pt_table m' root p = Some t" "pt_table m' root q = Some t"
    then show "p = q" using pt_wf_inj [OF wf] by (simp add: tab)
  qed
  show "pt_tables m' root = pt_tables m root" by (auto simp: pt_tables_def tab)
  show "pt_paths m' root = pt_paths m root" by (auto simp: pt_paths_def tab)
  show "pt_lookup m' root = pt_lookup m root"
    by (rule ext) (auto simp: pt_lookup_def tab ent [OF va_path_vpath(1)] split: option.splits)
qed

lemma pt_table_append:
  "pt_table m t (p @ q) = (case pt_table m t p of None \<Rightarrow> None | Some t' \<Rightarrow> pt_table m t' q)"
  by (induction p arbitrary: t) (simp_all split: option.split)

section \<open>Stores to one entry\<close>

lemma pt_table_write:
  assumes wf: "pt_wf A m root" and fr: "frames A" and p: "vpath p" "pt_table m root p = Some t" "i < 512"
    and q: "vpath q" "\<not> prefix (p @ [i]) q"
  shows "pt_table (write64 m (pte_addr t i) v) root q = pt_table m root q"
  using q
proof (induction q rule: rev_induct)
  case (snoc j q)
  then have q: "vpath q" "j < 512" "\<not> prefix (p @ [i]) q" by (auto simp: vpath_snoc)
  note IH = snoc.IH [OF q(1,3)]
  show ?case
  proof (cases "pt_table m root q")
    case None
    with IH show ?thesis by (simp add: pt_table_snoc)
  next
    case (Some t')
    have al: "unat t' mod 4096 = 0" "unat t mod 4096 = 0"
      using pt_wf_table(1) [OF wf q(1) Some] pt_wf_table(1) [OF wf p(1,2)] fr by (auto simp: frames_def)
    have "\<not> (t' = t \<and> j = i)"
      using pt_wf_inj [OF wf p(1) q(1) p(2)] Some snoc.prems(2) by auto
    then have "pt_entry (write64 m (pte_addr t i) v) t' j = pt_entry m t' j"
      using al q(2) p(3) by (auto simp: entry_write)
    with IH Some show ?thesis by (simp add: pt_table_snoc next_table_def)
  qed
qed simp

text \<open>Setting or clearing a last-level entry.\<close>

lemma pt_set_leaf:
  assumes wf: "pt_wf A m root" and fr: "frames A"
    and p: "vpath p" "length p = 2" "pt_table m root p = Some t" "i < 512"
    and v: "v = 0 \<or> pte_is_valid v \<and> pte_clean v \<and> pte_is_leaf v"
  defines "m' \<equiv> write64 m (pte_addr t i) v"
  shows "pt_wf A m' root" and "pt_tables m' root = pt_tables m root"
    and "pt_lookup m' root va = (if va_path va = p \<and> vpn_index va 0 = i
           then if v = 0 then None else Some v else pt_lookup m root va)"
    and "agree_on (- {t}) m m'" and "pt_paths m' root = pt_paths m root"
proof -
  have tab: "pt_table m' root q = pt_table m root q" if "vpath q" for q
    unfolding m'_def using that p(2)
    by (intro pt_table_write [OF wf fr p(1,3,4)]) (auto simp: vpath_def dest: prefix_length_le)
  have al: "unat t' mod 4096 = 0" if "vpath q" "pt_table m root q = Some t'" for q t'
    using pt_wf_table(1) [OF wf that] fr by (auto simp: frames_def)
  have ent: "pt_entry m' t' j = (if q = p \<and> j = i then v else pt_entry m t' j)"
    if q: "vpath q" "pt_table m root q = Some t'" "j < 512" for q t' j
  proof -
    have "t' = t \<longleftrightarrow> q = p" using pt_wf_inj [OF wf q(1) p(1) q(2)] p(3) q(2) by auto
    then show ?thesis
      unfolding m'_def using entry_write [OF al [OF q(1,2)] q(3) al [OF p(1,3)] p(4)] by simp
  qed
  show "pt_wf A m' root"
    unfolding pt_wf_def
  proof (intro conjI allI impI)
    fix q t'
    assume q: "vpath q" and "pt_table m' root q = Some t'"
    then have t': "pt_table m root q = Some t'" by (simp add: tab)
    from pt_wf_table(1) [OF wf q t'] show "t' \<in> A" .
    fix j :: u64 assume j: "j < 512"
    show "pt_entry m' t' j = 0 \<or>
      pte_is_valid (pt_entry m' t' j) \<and> pte_clean (pt_entry m' t' j) \<and> (pte_is_leaf (pt_entry m' t' j) \<longleftrightarrow> length q = 2)"
      using pt_wf_table(2) [OF wf q t' j] ent [OF q t' j] v p(2) by auto
  next
    fix q q' t'
    assume "vpath q" "vpath q'" "pt_table m' root q = Some t'" "pt_table m' root q' = Some t'"
    then show "q = q'" using pt_wf_inj [OF wf] by (simp add: tab)
  qed
  show "pt_tables m' root = pt_tables m root" by (auto simp: pt_tables_def tab)
  show "pt_paths m' root = pt_paths m root" by (auto simp: pt_paths_def tab)
  show "pt_lookup m' root va = (if va_path va = p \<and> vpn_index va 0 = i
           then if v = 0 then None else Some v else pt_lookup m root va)"
    using ent [OF va_path_vpath(1)] p(3)
    by (auto simp: pt_lookup_def tab split: option.splits)
  show "agree_on (- {t}) m m'"
    unfolding m'_def using al [OF p(1,3)] p(4) by (intro agree_on_write) simp_all
qed

text \<open>Linking a fresh, zeroed page as a new table.\<close>

lemma pt_link:
  assumes wf: "pt_wf A m root" and fr: "frames (insert n A)" and n: "n \<notin> A"
    and p: "vpath p" "length p < 2" "pt_table m root p = Some t" "i < 512" "pt_entry m t i = 0"
  defines "m' \<equiv> write64 (fill_bytes m n 0 4096) (pte_addr t i) (pa_to_pte n VM_PTE_V)"
  shows "pt_wf (insert n A) m' root" and "pt_tables m' root = insert n (pt_tables m root)"
    and "pt_lookup m' root = pt_lookup m root" and "pt_table m' root (p @ [i]) = Some n"
    and "agree_on (- {t, n}) m m'" and "pt_paths m' root = insert (p @ [i]) (pt_paths m root)"
proof -
  define f where "f = fill_bytes m n 0 4096"
  have frA: "frames A" and nal: "unat n mod 4096 = 0" using fr by auto
  have nt: "t \<noteq> n" using pt_wf_table(1) [OF wf p(1,3)] n by blast
  have agf: "agree_on A m f" unfolding f_def using nal n by (rule agree_on_fill)
  then have agt: "agree_on (pt_tables m root) m f" using pt_tables_subset [OF wf] by (rule agree_on_mono)
  note wff = pt_agree(1) [OF wf frA agt] and tabf = pt_table_agree [OF wf frA agt]
  have al: "unat t' mod 4096 = 0" if "vpath q" "pt_table m root q = Some t'" for q t'
    using pt_wf_table(1) [OF wf that] frA by (auto simp: frames_def)
  have talign: "unat t mod 4096 = 0" using al p by blast
  have tf: "pt_table f root p = Some t" using tabf p by simp
  have entn: "pt_entry m' n j = 0" if "j < 512" for j
    unfolding m'_def using that nt nal talign p(4) by (simp add: entry_write entry_fill)
  have ent: "pt_entry m' t' j = (if q = p \<and> j = i then pa_to_pte n VM_PTE_V else pt_entry m t' j)"
    if q: "vpath q" "pt_table m root q = Some t'" "j < 512" for q t' j
  proof -
    have "t' = t \<longleftrightarrow> q = p" using pt_wf_inj [OF wf q(1) p(1) q(2)] p(3) q(2) by auto
    moreover have "pt_entry f t' j = pt_entry m t' j"
      using entry_agree [OF agf pt_wf_table(1) [OF wf q(1,2)] al [OF q(1,2)] q(3)] by simp
    ultimately show ?thesis
      unfolding m'_def f_def [symmetric] using al [OF q(1,2)] q(3) talign p(4) by (simp add: entry_write)
  qed
  have out: "pt_table m' root q = pt_table m root q" if "vpath q" "\<not> prefix (p @ [i]) q" for q
    unfolding m'_def f_def [symmetric] using pt_table_write [OF wff frA p(1) tf p(4) that] tabf that by simp
  have pn: "\<not> prefix (p @ [i]) p" by (auto dest: prefix_length_le)
  show new: "pt_table m' root (p @ [i]) = Some n"
    using out [OF p(1) pn] p(3) ent [OF p(1,3,4)] table_pte [of n] nal
    by (simp add: pt_table_snoc next_table_def page_aligned_mod)
  have below: "pt_table m' root ((p @ [i]) @ r) = (if r = [] then Some n else None)"
    if "vpath ((p @ [i]) @ r)" for r
  proof (cases r)
    case (Cons j r')
    then have "pt_table m' n r = None"
      using entn [of j] that by (simp add: next_table_def vpath_def)
    with Cons new show ?thesis by (simp add: pt_table_append [of _ _ "p @ [i]"] del: append_assoc)
  qed (simp add: new)
  have old: "pt_table m root ((p @ [i]) @ r) = None" for r
    using p(3,5) by (simp add: pt_table_append next_table_def)
  have tab: "pt_table m' root q = (if q = p @ [i] then Some n else pt_table m root q)" if "vpath q" for q
  proof (cases "prefix (p @ [i]) q")
    case True
    then obtain r where "q = (p @ [i]) @ r" by (auto simp: prefix_def)
    with below [of r] old [of r] that show ?thesis by simp
  next
    case False
    with out [OF that] show ?thesis by auto
  qed
  show "pt_wf (insert n A) m' root"
    unfolding pt_wf_def
  proof (intro conjI allI impI)
    fix q t'
    assume q: "vpath q" and t': "pt_table m' root q = Some t'"
    then show "t' \<in> insert n A" using pt_wf_table(1) [OF wf q] tab [OF q] by (auto split: if_splits)
    fix j :: u64 assume j: "j < 512"
    show "pt_entry m' t' j = 0 \<or>
      pte_is_valid (pt_entry m' t' j) \<and> pte_clean (pt_entry m' t' j) \<and> (pte_is_leaf (pt_entry m' t' j) \<longleftrightarrow> length q = 2)"
    proof (cases "q = p @ [i]")
      case True
      then show ?thesis using tab [OF q] t' entn [OF j] by simp
    next
      case False
      then have "pt_table m root q = Some t'" using tab [OF q] t' by simp
      with pt_wf_table(2) [OF wf q this j] ent [OF q this j] table_pte [of n] table_pte_clean [of n] nal p(2) show ?thesis
        by (auto simp: page_aligned_mod)
    qed
  next
    fix q q' t'
    assume "vpath q" "vpath q'" "pt_table m' root q = Some t'" "pt_table m' root q' = Some t'"
    then show "q = q'"
      using pt_wf_inj [OF wf] pt_wf_table(1) [OF wf] n by (auto simp: tab split: if_splits)
  qed
  have vpi: "vpath (p @ [i])" using p by (simp add: vpath_snoc)
  then show "pt_paths m' root = insert (p @ [i]) (pt_paths m root)"
    by (auto simp: pt_paths_def tab split: if_splits)
  note vpi
  moreover have "pt_table m' root q = Some x \<longleftrightarrow> q = p @ [i] \<and> x = n \<or> pt_table m root q = Some x"
    if "vpath q" for q x
    using old [of "[]"] tab [OF that] by auto
  ultimately show "pt_tables m' root = insert n (pt_tables m root)"
    unfolding pt_tables_def by blast
  show "pt_lookup m' root = pt_lookup m root"
  proof
    fix va
    show "pt_lookup m' root va = pt_lookup m root va"
    proof (cases "va_path va = p @ [i]")
      case True
      then show ?thesis using old [of "[]"] by (simp add: pt_lookup_def new entn)
    next
      case False
      then have "va_path va \<noteq> p" using p(2) va_path_vpath(2) [of va] by auto
      with False show ?thesis
        by (auto simp: pt_lookup_def tab ent [OF va_path_vpath(1)] split: option.split)
    qed
  qed
  have "agree_on (- {t, n}) m f" unfolding f_def using nal by (intro agree_on_fill) simp_all
  moreover have "agree_on (- {t, n}) f m'"
    unfolding m'_def f_def [symmetric] using talign p(4) by (intro agree_on_write) simp_all
  ultimately show "agree_on (- {t, n}) m m'" by (rule agree_on_trans)
qed

lemma pt_paths_prefix:
  assumes "p \<in> pt_paths m root" and "prefix q p"
  shows "q \<in> pt_paths m root"
proof -
  obtain r where p: "p = q @ r" using assms(2) by (auto simp: prefix_def)
  have "vpath q" using assms(1) by (auto simp: p pt_paths_def vpath_def)
  moreover have "pt_table m root q \<noteq> None"
    using assms(1) by (auto simp: p pt_paths_def pt_table_append split: option.splits)
  ultimately show ?thesis by (simp add: pt_paths_def)
qed

end
