(* ===== verification/Vm_Proofs.thy ===== *)
theory Vm_Proofs
  imports Vm_Tables
begin

text \<open>
  The operations of \<^verbatim>\<open>vm.c\<close> against the tree of
  \<open>Vm_Tables\<close>: mapping, unmapping, translation and destruction of address spaces,
  with the rollback of a mapping that runs out of pages.
\<close>

section \<open>The frame of the memory operations\<close>

text \<open>
  \<open>pool_step s s'\<close>: the two states differ in memory, the allocator's bookkeeping and
  the number of TLB flushes at most.
\<close>

definition pool_step :: "'a pages_scheme \<Rightarrow> 'a pages_scheme \<Rightarrow> bool" where
  "pool_step s s' \<longleftrightarrow> (\<exists>m n bm fp h. s' =
     s\<lparr>mem := m, sfences := n, page_bitmap := bm, free_pages := fp, next_free_hint := h\<rparr>)"

lemma pool_step_refl [simp]: "pool_step s s"
  unfolding pool_step_def
  by (intro exI [of _ "mem s"] exI [of _ "sfences s"] exI [of _ "page_bitmap s"]
      exI [of _ "free_pages s"] exI [of _ "next_free_hint s"]) simp

lemma pool_step_trans: "pool_step s s' \<Longrightarrow> pool_step s' s'' \<Longrightarrow> pool_step s s''"
  unfolding pool_step_def by force

lemma pool_step_mem [simp]: "pool_step s (s\<lparr>mem := m\<rparr>)"
  unfolding pool_step_def
  by (intro exI [of _ "m"] exI [of _ "sfences s"] exI [of _ "page_bitmap s"]
      exI [of _ "free_pages s"] exI [of _ "next_free_hint s"]) simp

lemma pool_step_mark:
  "pool_step s (mark_used i s)" "pool_step s (mark_free i s)"
  unfolding pool_step_def mark_used_def mark_free_def
  by (rule exI [of _ "mem s"], rule exI [of _ "sfences s"], intro exI, simp)+

lemma pool_step_store [simp]: "pool_step s (store64 a v s)" "pool_step s (memory_zero p n s)"
  by (simp_all add: store64_def memory_zero_def)

lemma pool_step_flush [simp]: "pool_step s (flush_active_address_space s)"
  unfolding pool_step_def flush_active_address_space_def sfence_vma_def
  by (intro exI [of _ "mem s"] exI [of _ "sfences (flush_active_address_space s)"]
      exI [of _ "page_bitmap s"] exI [of _ "free_pages s"] exI [of _ "next_free_hint s"])
     (simp add: flush_active_address_space_def sfence_vma_def)

lemma pool_step_alloc:
  assumes "pages_inv s" and "page_alloc s = Inr (p, s')"
  shows "pool_step s s'"
  using assms(1)
proof (cases rule: page_alloc_cases)
  case full
  with assms(2) show ?thesis by simp
next
  case (found i)
  with assms(2) show ?thesis by (auto simp: pool_step_mark)
qed

lemma pool_step_free: "page_free p s = Inr (u, s') \<Longrightarrow> pool_step s s'"
  using page_free_returns by (metis pool_step_mark(2))

lemma pool_step_fields:
  assumes "pool_step s s'"
  shows "managed_frames s' = managed_frames s" "sstatus s' = sstatus s" "satp s' = satp s"
    "link s' = link s" "console s' = console s" "managed_start s' = managed_start s"
    "managed_end s' = managed_end s" "total_pages s' = total_pages s"
    "page_allocator_initialized s' = page_allocator_initialized s"
  using assms by (auto simp: pool_step_def managed_frames_def page_addr_from_index_def)

text \<open>Memory contents are irrelevant to the allocator.\<close>

lemma pages_inv_mem [simp]: "pages_inv (s\<lparr>mem := m\<rparr>) = pages_inv s"
  by (simp add: pages_inv_def used_pages_def)

lemma pages_inv_sfences [simp]: "pages_inv (s\<lparr>sfences := n\<rparr>) = pages_inv s"
  by (simp add: pages_inv_def used_pages_def)

lemma allocated_mem [simp]: "allocated (s\<lparr>mem := m\<rparr>) = allocated s"
  by (simp add: allocated_def used_pages_def page_addr_from_index_def)

lemma allocated_sfences [simp]: "allocated (s\<lparr>sfences := n\<rparr>) = allocated s"
  by (simp add: allocated_def used_pages_def page_addr_from_index_def)

lemma flush_simps [simp]:
  "pages_inv (flush_active_address_space s) = pages_inv s"
  "allocated (flush_active_address_space s) = allocated s"
  "mem (flush_active_address_space s) = mem s"
  "free_pages (flush_active_address_space s) = free_pages s"
  by (simp_all add: flush_active_address_space_def sfence_vma_def)

lemma store_simps [simp]:
  "pages_inv (store64 a v s) = pages_inv s" "allocated (store64 a v s) = allocated s"
  "mem (store64 a v s) = write64 (mem s) a v" "free_pages (store64 a v s) = free_pages s"
  "pages_inv (memory_zero p n s) = pages_inv s" "allocated (memory_zero p n s) = allocated s"
  "mem (memory_zero p n s) = fill_bytes (mem s) p 0 (unat n)" "free_pages (memory_zero p n s) = free_pages s"
  by (simp_all add: store64_def memory_zero_def)

lemma frames_allocated:
  assumes "pages_inv s"
  shows "frames (allocated s)" and "frames (managed_frames s)"
  using managed_frame_props(1,2) [OF assms] allocated_subset [of s] by (auto simp: frames_def)

lemma free_pages_allocated:
  assumes "pages_inv s" "pages_inv s'" "managed_frames s' = managed_frames s" "allocated s' = allocated s"
  shows "free_pages s' = free_pages s"
  using managed_frames_card [OF assms(1)] managed_frames_card [OF assms(2)] assms(3,4)
  by (simp add: word_unat_eq_iff)

text \<open>The two outcomes of an allocation, in the form the clients use.\<close>

lemma page_alloc_outcome:
  assumes "pages_inv s"
  obtains (none) "page_alloc s = Inr (0, s)" and "free_pages s = 0"
  | (some) p s' where "page_alloc s = Inr (p, s')" and "p \<noteq> 0" and "unat p mod 4096 = 0"
      and "p \<notin> allocated s" and "p \<in> managed_frames s" and "pages_inv s'"
      and "allocated s' = insert p (allocated s)" and "pool_step s s'" and "mem s' = mem s"
      and "unat (free_pages s) = Suc (unat (free_pages s'))"
proof -
  obtain p s' where r: "page_alloc s = Inr (p, s')" using pages.alloc_returns [OF assms] by blast
  show thesis
  proof (cases "p = 0")
    case True
    with r pages.alloc_null [OF assms] have "page_alloc s = Inr (0, s)" "allocated s = managed_frames s" by auto
    moreover have "free_pages s = 0"
      using managed_frames_card [OF assms] calculation(2) by (simp add: unat_eq_0)
    ultimately show thesis by (intro none)
  next
    case False
    note f = pages.alloc_fresh [OF assms r False]
    have "p \<in> managed_frames s - allocated s" using f by blast
    then have "card (managed_frames s - allocated s) = Suc (card (managed_frames s - allocated s - {p}))"
      using pages.frames_finite [of s] by (intro card.remove) auto
    moreover have "managed_frames s' - allocated s' = managed_frames s - allocated s - {p}"
      using f by auto
    ultimately have "unat (free_pages s) = Suc (unat (free_pages s'))"
      using managed_frames_card [OF assms] managed_frames_card [of s'] f by simp
    moreover have "mem s' = mem s" using page_alloc_frame [OF assms r] by auto
    ultimately show thesis
      using r False f managed_frame_props [OF assms, of p] pool_step_alloc [OF assms r] by (intro some) auto
  qed
qed

section \<open>Walks that do not allocate\<close>

definition walk_path :: "nat \<Rightarrow> u64 \<Rightarrow> u64 list" where
  "walk_path l va = map (vpn_index va) (rev [1..<Suc l])"

lemma walk_path_simps [simp]:
  "walk_path 0 va = []" "walk_path (Suc l) va = vpn_index va (Suc l) # walk_path l va"
  by (simp_all add: walk_path_def)

lemma walk_path_2: "walk_path 2 va = va_path va"
  by (simp add: eval_nat_numeral va_path_def)

lemma vm_walk_from_lookup:
  "vm_walk_from l t va False allocs s =
     Inr (case pt_table (mem s) t (walk_path l va) of None \<Rightarrow> 0 | Some t' \<Rightarrow> pte_addr t' (vpn_index va 0), s)"
  by (induction l arbitrary: t) (auto simp: Let_def load64_def next_table_def pt_entry_def)

lemma vm_walk_lookup:
  assumes "vm_root sp \<noteq> 0" "va_is_canonical va"
  shows "vm_walk (Some sp) va False s =
    Inr (case pt_table (mem s) (vm_root sp) (va_path va) of None \<Rightarrow> 0 | Some t' \<Rightarrow> pte_addr t' (vpn_index va 0), s)"
  using assms by (simp add: vm_walk_def vm_walk_from_lookup SV39_LEVELS_def walk_path_2)

section \<open>Walks that allocate\<close>

text \<open>How many tables are missing between a table at level \<open>l\<close> and the leaf table.\<close>

primrec missing :: "nat \<Rightarrow> memory \<Rightarrow> u64 \<Rightarrow> u64 \<Rightarrow> nat" where
  "missing 0 m t va = 0"
| "missing (Suc l) m t va =
     (case next_table m t (vpn_index va (Suc l)) of None \<Rightarrow> Suc l | Some t' \<Rightarrow> missing l m t' va)"

lemma missing_fresh: "(\<And>i. i < 512 \<Longrightarrow> pt_entry m t i = 0) \<Longrightarrow> missing l m t va = l"
  by (cases l) (simp_all add: next_table_def)

definition vm_inv :: "u64 \<Rightarrow> 'a pages_scheme \<Rightarrow> bool" where
  "vm_inv root s \<longleftrightarrow> pages_inv s \<and> pt_wf (allocated s) (mem s) root"

text \<open>A state in which everything but the contents of free pages is as in \<open>s\<close>.\<close>

definition restored :: "'a pages_scheme \<Rightarrow> 'a pages_scheme \<Rightarrow> bool" where
  "restored s s' \<longleftrightarrow> pool_step s s' \<and> pages_inv s' \<and> allocated s' = allocated s \<and>
     agree_on (- (managed_frames s - allocated s)) (mem s) (mem s')"

text \<open>A state whose tree has grown by fresh tables, with the same leaves.\<close>

definition grown :: "u64 \<Rightarrow> 'a pages_scheme \<Rightarrow> 'a pages_scheme \<Rightarrow> bool" where
  "grown root s s' \<longleftrightarrow> vm_inv root s' \<and> pool_step s s' \<and>
     pt_lookup (mem s') root = pt_lookup (mem s) root \<and>
     (\<exists>N. N \<inter> allocated s = {} \<and> allocated s' = allocated s \<union> N \<and>
        pt_tables (mem s') root = pt_tables (mem s) root \<union> N) \<and>
     agree_on (- pt_tables (mem s') root) (mem s) (mem s')"

lemma restored_refl: "pages_inv s \<Longrightarrow> restored s s"
  by (simp add: restored_def)

lemma restored_trans:
  assumes "restored s s'" and "restored s' s''"
  shows "restored s s''"
proof -
  have "managed_frames s' = managed_frames s" using assms(1) by (auto simp: restored_def pool_step_fields)
  with assms show ?thesis
    by (auto simp: restored_def intro: pool_step_trans agree_on_trans)
qed

lemma grown_refl: "vm_inv root s \<Longrightarrow> grown root s s"
  by (auto simp: grown_def)

lemma grown_trans:
  assumes "grown root s s'" and "grown root s' s''"
  shows "grown root s s''"
proof -
  obtain N N' where N: "N \<inter> allocated s = {}" "allocated s' = allocated s \<union> N"
    "pt_tables (mem s') root = pt_tables (mem s) root \<union> N" and N': "N' \<inter> allocated s' = {}"
    "allocated s'' = allocated s' \<union> N'" "pt_tables (mem s'') root = pt_tables (mem s') root \<union> N'"
    using assms by (auto simp: grown_def)
  have "agree_on (- pt_tables (mem s'') root) (mem s) (mem s')"
    using assms(1) N'(3) by (auto simp: grown_def intro: agree_on_mono)
  then have "agree_on (- pt_tables (mem s'') root) (mem s) (mem s'')"
    using assms(2) by (auto simp: grown_def intro: agree_on_trans)
  moreover have "(N \<union> N') \<inter> allocated s = {}" using N N' by auto
  ultimately show ?thesis
    using assms N N' by (auto simp: grown_def intro: pool_step_trans intro!: exI [of _ "N \<union> N'"])
qed

lemma agree_on_write_cong: "agree_on A m m' \<Longrightarrow> agree_on A (write64 m a v) (write64 m' a v)"
  by (auto simp: agree_on_def write64_def)

lemma link_table:
  assumes inv: "vm_inv root s" and p: "vpath p" "length p < 2" "pt_table (mem s) root p = Some t"
    and i: "i < 512" "pt_entry (mem s) t i = 0"
    and n: "n \<noteq> 0" "unat n mod 4096 = 0" "n \<notin> allocated s"
    and s1: "pages_inv s1" "allocated s1 = insert n (allocated s)" "pool_step s s1" "mem s1 = mem s"
  defines "s2 \<equiv> store64 (pte_addr t i) (pa_to_pte n VM_PTE_V) (memory_zero n PAGE_SIZE s1)"
  shows "grown root s s2" and "pt_table (mem s2) root (p @ [i]) = Some n"
    and "\<And>j. j < 512 \<Longrightarrow> pt_entry (mem s2) n j = 0"
    and "pt_paths (mem s2) root = insert (p @ [i]) (pt_paths (mem s) root)"
proof -
  have wf: "pt_wf (allocated s) (mem s) root" and fr: "frames (insert n (allocated s))"
    using inv n by (auto simp: vm_inv_def frames_allocated)
  note link = pt_link [OF wf fr n(3) p i]
  have m2: "mem s2 = write64 (fill_bytes (mem s) n 0 4096) (pte_addr t i) (pa_to_pte n VM_PTE_V)"
    using s1(4) by (simp add: s2_def)
  have t: "t \<in> allocated s" "t \<in> pt_tables (mem s) root"
    using pt_wf_table(1) [OF wf p(1,3)] p by (auto simp: pt_tables_def)
  then have ta: "unat t mod 4096 = 0" "t \<noteq> n" using fr n by (auto simp: frames_def)
  have "pool_step s s2"
    unfolding s2_def
    by (rule pool_step_trans [OF s1(3) pool_step_trans [OF pool_step_store(2) pool_step_store(1)]])
  moreover have "vm_inv root s2" "allocated s2 = allocated s \<union> {n}"
    using link(1) s1 by (simp_all add: vm_inv_def m2 [symmetric]) (simp_all add: s2_def)
  moreover have tables: "pt_tables (mem s2) root = pt_tables (mem s) root \<union> {n}"
    using link(2) by (simp add: m2)
  moreover have "agree_on (- pt_tables (mem s2) root) (mem s) (mem s2)"
    using link(5) [folded m2] by (rule agree_on_mono) (use t tables in blast)
  moreover have "pt_lookup (mem s2) root = pt_lookup (mem s) root"
    using link(3) by (simp add: m2)
  ultimately show "grown root s s2"
    using n(3) unfolding grown_def by blast
  show "pt_table (mem s2) root (p @ [i]) = Some n" using link(4) by (simp add: m2)
  show "pt_paths (mem s2) root = insert (p @ [i]) (pt_paths (mem s) root)" using link(6) by (simp add: m2)
  show "pt_entry (mem s2) n j = 0" if "j < 512" for j
    using that ta n(2) i(1) by (simp add: m2 entry_write entry_fill)
qed

text \<open>One step of the rollback takes back one step of the walk.\<close>

lemma unlink_table:
  assumes inv: "pages_inv s" and t: "t \<in> allocated s" and i: "i < 512" "pt_entry (mem s) t i = 0"
    and n: "unat n mod 4096 = 0" "n \<notin> allocated s" "n \<in> managed_frames s"
    and s1: "pages_inv s1" "allocated s1 = insert n (allocated s)" "pool_step s s1" "mem s1 = mem s"
  defines "s2 \<equiv> store64 (pte_addr t i) (pa_to_pte n VM_PTE_V) (memory_zero n PAGE_SIZE s1)"
  assumes s3: "restored s2 s3"
  shows "\<exists>s4. page_free n (store64 (pte_addr t i) 0 s3) = Inr ((), s4) \<and> restored s s4"
proof -
  let ?a = "pte_addr t i" and ?v = "pa_to_pte n VM_PTE_V"
  have s3': "pages_inv s3" "allocated s3 = insert n (allocated s)" "pool_step s2 s3"
    "agree_on (- (managed_frames s2 - allocated s2)) (mem s2) (mem s3)"
    using s3 s1 by (auto simp: restored_def s2_def)
  have ps2: "pool_step s s2"
    unfolding s2_def
    by (rule pool_step_trans [OF s1(3) pool_step_trans [OF pool_step_store(2) pool_step_store(1)]])
  let ?F = "- (managed_frames s - allocated s)"
  have m3: "agree_on ?F (mem s2) (mem s3)"
    using s3'(4) s1(2) pool_step_fields(1) [OF ps2] by (auto simp: s2_def intro: agree_on_mono)
  obtain s4 where s4: "page_free n (store64 ?a 0 s3) = Inr ((), s4)" "pages_inv s4"
    "allocated s4 = allocated s"
    using pages.free_owned [of "store64 ?a 0 s3" n] s3' n(2) by auto
  note ps4 = pool_step_trans [OF pool_step_trans [OF ps2 s3'(3)]
      pool_step_trans [OF pool_step_store(1) pool_step_free [OF s4(1)]]]
  have m4: "mem s4 = write64 (mem s3) ?a 0"
    using page_free_frame [OF s4(1)] by auto
  have "n \<notin> ?F" using n by blast
  then have "agree_on ?F (mem s) (fill_bytes (mem s) n 0 4096)"
    using n(1) by (intro agree_on_fill)
  then have "agree_on ?F (write64 (mem s) ?a 0) (write64 (mem s2) ?a 0)"
    using s1(4) by (simp add: s2_def cell64.wr_wr agree_on_write_cong)
  moreover have "write64 (mem s) ?a 0 = mem s"
    using cell64.wr_rd [of "mem s" ?a] i(2) by (simp add: pt_entry_def)
  moreover have "agree_on ?F (write64 (mem s2) ?a 0) (mem s4)"
    unfolding m4 using m3 by (rule agree_on_write_cong)
  ultimately have "agree_on ?F (mem s) (mem s4)" by (simp only:) (rule agree_on_trans)
  with s4 ps4 show ?thesis by (auto simp: restored_def)
qed

lemma walk_path_length [simp]: "length (walk_path l va) = l"
  by (simp add: walk_path_def)

text \<open>What a walk that finds or builds its path reports.\<close>

definition walked :: "u64 \<Rightarrow> u64 list \<Rightarrow> u64 \<Rightarrow> nat \<Rightarrow> 'a pages_scheme \<Rightarrow> u64 \<Rightarrow> 'a pages_scheme \<Rightarrow> bool" where
  "walked root q va n s r s' \<longleftrightarrow> grown root s s' \<and>
     (\<exists>t. pt_table (mem s') root q = Some t \<and> r = pte_addr t (vpn_index va 0)) \<and>
     pt_paths (mem s') root = pt_paths (mem s) root \<union> {p. prefix p q} \<and>
     unat (free_pages s) = unat (free_pages s') + n"

lemma walked_grown:
  assumes "grown root s s1" and "walked root q va n s1 r s'"
    and "pt_paths (mem s1) root = insert p (pt_paths (mem s) root)" and "prefix p q"
    and "unat (free_pages s) = Suc (unat (free_pages s1))"
  shows "walked root q va (Suc n) s r s'"
proof -
  have "pt_paths (mem s') root = pt_paths (mem s) root \<union> {p. prefix p q}"
    using assms(2-4) by (auto simp: walked_def)
  with assms grown_trans [OF assms(1)] show ?thesis by (simp add: walked_def)
qed

lemma vm_walk_from_alloc:
  assumes "vm_inv root s" and "vpath p" "length p + l = 2" "pt_table (mem s) root p = Some t"
    and "\<And>s'. restored s s' \<Longrightarrow> \<exists>s''. rollback_allocated_tables allocs s' = Inr ((), s'') \<and> restored s0 s''"
  shows "\<exists>r s'. vm_walk_from l t va True allocs s = Inr (r, s') \<and>
    (missing l (mem s) t va = 0 \<longrightarrow> s' = s) \<and>
    (if missing l (mem s) t va \<le> unat (free_pages s)
     then walked root (p @ walk_path l va) va (missing l (mem s) t va) s r s'
     else r = 0 \<and> restored s0 s')"
  using assms
proof (induction l arbitrary: p t s allocs)
  case 0
  have "p \<in> pt_paths (mem s) root" using 0 by (simp add: pt_paths_def)
  then have "{q. prefix q p} \<subseteq> pt_paths (mem s) root" using pt_paths_prefix by blast
  with 0 show ?case by (auto simp: grown_refl walked_def)
next
  case (Suc l)
  let ?i = "vpn_index va (Suc l)"
  let ?v = "pt_entry (mem s) t ?i"
  have wf: "pt_wf (allocated s) (mem s) root" and pinv: "pages_inv s"
    using Suc.prems(1) by (auto simp: vm_inv_def)
  have len: "length p < 2" "length (p @ [?i]) + l = 2" and vp: "vpath (p @ [?i])"
    using Suc.prems(2,3) by (auto simp: vpath_snoc)
  have path: "p @ walk_path (Suc l) va = (p @ [?i]) @ walk_path l va" by simp
  have ld: "load64 (pte_addr t ?i) s = ?v" by (simp add: load64_def pt_entry_def)
  from pt_wf_table(2) [OF wf Suc.prems(2,4), of ?i] len
  consider (link) "pte_is_valid ?v" "\<not> pte_is_leaf ?v" | (empty) "?v = 0" by auto
  then show ?case
  proof cases
    case link
    then have nt: "next_table (mem s) t ?i = Some (pte_to_pa ?v)" by (simp add: next_table_def)
    with Suc.prems(4) have "pt_table (mem s) root (p @ [?i]) = Some (pte_to_pa ?v)"
      by (simp add: pt_table_snoc)
    note IH = Suc.IH [OF Suc.prems(1) vp len(2) this Suc.prems(5)]
    have run: "vm_walk_from (Suc l) t va True allocs s = vm_walk_from l (pte_to_pa ?v) va True allocs s"
      and miss: "missing (Suc l) (mem s) t va = missing l (mem s) (pte_to_pa ?v) va"
      using nt link ld by (simp_all add: Let_def)
    from IH show ?thesis unfolding run miss path .
  next
    case empty
    then have miss: "missing (Suc l) (mem s) t va = Suc l" by (simp add: next_table_def)
    from pinv show ?thesis
    proof (cases rule: page_alloc_outcome)
      case none
      with Suc.prems(5) [OF restored_refl [OF pinv]] miss empty ld show ?thesis by auto
    next
      case (some n s1)
      define s2 where "s2 = store64 (pte_addr t ?i) (pa_to_pte n VM_PTE_V) (memory_zero n PAGE_SIZE s1)"
      note link = link_table [OF Suc.prems(1,2) len(1) Suc.prems(4) vpn_index_less empty some(2-4,6-9), folded s2_def]
      have t: "t \<in> allocated s" using pt_wf_table(1) [OF wf Suc.prems(2,4)] .
      have undo: "\<exists>s''. rollback_allocated_tables ((pte_addr t ?i, n) # allocs) s' = Inr ((), s'') \<and> restored s0 s''"
        if "restored s2 s'" for s'
        using unlink_table [OF pinv t vpn_index_less empty some(3-9), folded s2_def, OF that] Suc.prems(5)
        by auto
      have "vm_inv root s2" using link(1) by (simp add: grown_def)
      note IH = Suc.IH [OF this vp len(2) link(2) undo]
      have fp2: "unat (free_pages s) = Suc (unat (free_pages s2))" using some(10) by (simp add: s2_def)
      have m: "missing l (mem s2) n va = l" using link(3) by (rule missing_fresh)
      from some(1,2) empty ld have run: "vm_walk_from (Suc l) t va True allocs s =
          vm_walk_from l n va True ((pte_addr t ?i, n) # allocs) s2"
        by (simp add: Let_def s2_def)
      from IH obtain r s' where r: "vm_walk_from (Suc l) t va True allocs s = Inr (r, s')"
        and res: "if l \<le> unat (free_pages s2) then walked root ((p @ [?i]) @ walk_path l va) va l s2 r s'
          else r = 0 \<and> restored s0 s'"
        unfolding run m by blast
      have pre: "prefix (p @ [?i]) ((p @ [?i]) @ walk_path l va)" by (rule prefixI) (rule refl)
      have fin: "if Suc l \<le> unat (free_pages s) then walked root (p @ walk_path (Suc l) va) va (Suc l) s r s'
          else r = 0 \<and> restored s0 s'"
        using res fp2 walked_grown [OF link(1) _ link(4) pre fp2] unfolding path by (auto split: if_splits)
      show ?thesis
        unfolding miss by (rule exI [of _ r], rule exI [of _ s'], intro conjI impI) (fact r, simp, fact fin)
    qed
  qed
qed

section \<open>Critical sections\<close>

lemma page_alloc_op_neutral [neutral]: "irq_neutral page_alloc"
  by (simp add: page_alloc_masked neutral)

lemma page_free_op_neutral [neutral]: "irq_neutral (page_free a)"
  by (simp add: page_free_masked neutral)

lemma sstatus_store [simp]:
  "store64 a v (s\<lparr>sstatus := w\<rparr>) = (store64 a v s)\<lparr>sstatus := w\<rparr>"
  "memory_zero p n (s\<lparr>sstatus := w\<rparr>) = (memory_zero p n s)\<lparr>sstatus := w\<rparr>"
  "load64 a (s\<lparr>sstatus := w\<rparr>) = load64 a s"
  "flush_active_address_space (s\<lparr>sstatus := w\<rparr>) = (flush_active_address_space s)\<lparr>sstatus := w\<rparr>"
  by (simp_all add: store64_def memory_zero_def load64_def flush_active_address_space_def sfence_vma_def)

lemma rollback_neutral [neutral]:
  "irq_neutral (rollback_allocated_tables allocs :: 'a pages_scheme \<Rightarrow> _)"
proof (induction allocs)
  case Nil
  show ?case by (simp add: irq_neutral_def)
next
  case (Cons a rest)
  obtain pte table where a: "a = (pte, table)" by fastforce
  have "irq_neutral (\<lambda>s :: 'a pages_scheme. page_free table (store64 pte 0 s))"
    by (rule neutral_after [OF page_free_op_neutral]) simp
  then have "irq_neutral (\<lambda>s :: 'a pages_scheme. bindE (page_free table (store64 pte 0 s)) (\<lambda>(x, s). rollback_allocated_tables rest s))"
    by (rule neutral_bind [where g = "\<lambda>_. rollback_allocated_tables rest"]) (rule Cons)
  then show ?case by (simp add: a irq_neutral_def)
qed

lemma vm_walk_from_neutral [neutral]:
  "irq_neutral (vm_walk_from l t va alloc allocs :: 'a pages_scheme \<Rightarrow> _)"
proof (induction l arbitrary: t allocs)
  case 0
  show ?case by (simp add: irq_neutral_def)
next
  case (Suc l)
  let ?pte = "pte_addr t (vpn_index va (Suc l))"
  have rb: "irq_neutral (\<lambda>s :: 'a pages_scheme. bindE (rollback_allocated_tables allocs s) (\<lambda>(_, s). Inr (0, s)))"
    by (intro neutral_bind rollback_neutral neutral_return)
  have lk: "irq_neutral (\<lambda>s :: 'a pages_scheme. vm_walk_from l n va alloc ((?pte, n) # allocs)
      (store64 ?pte (pa_to_pte n VM_PTE_V) (memory_zero n PAGE_SIZE s)))" for n
    by (rule neutral_after [OF Suc]) simp
  have al: "irq_neutral (\<lambda>s :: 'a pages_scheme. bindE (page_alloc s) (\<lambda>(n, s). if n = 0
      then bindE (rollback_allocated_tables allocs s) (\<lambda>(_, s). Inr (0, s))
      else vm_walk_from l n va alloc ((?pte, n) # allocs)
             (store64 ?pte (pa_to_pte n VM_PTE_V) (memory_zero n PAGE_SIZE s))))"
    by (intro neutral_bind neutral_if page_alloc_op_neutral rb lk) simp
  have st: "irq_neutral (\<lambda>s :: 'a pages_scheme. vm_walk_from l (pte_to_pa (load64 ?pte s)) va alloc allocs s)"
    by (rule neutral_param [where f = "\<lambda>x. vm_walk_from l x va alloc allocs"]) (simp_all add: Suc)
  show ?case
    unfolding vm_walk_from.simps Let_def
    by (intro neutral_if neutral_return st al) simp_all
qed

lemma vm_walk_neutral [neutral]: "irq_neutral (vm_walk space va alloc)"
proof (cases space)
  case None
  then show ?thesis by (simp add: irq_neutral_def vm_walk_def)
next
  case (Some sp)
  have "irq_neutral (\<lambda>s. if vm_root sp = 0 \<or> \<not> va_is_canonical va then Inr (0, s)
      else vm_walk_from (SV39_LEVELS - 1) (vm_root sp) va alloc [] s)"
    by (intro neutral_if neutral_return vm_walk_from_neutral) simp_all
  then show ?thesis by (simp add: irq_neutral_def vm_walk_def Some)
qed

end
