(* ===== verification/Vm_Spec.thy ===== *)
theory Vm_Spec
  imports Vm_Proofs
begin

text \<open>
  What an address space is to its users: a map from virtual pages to physical pages with their
  permission flags. The lookups, the mapping and the unmapping of \<^verbatim>\<open>vm.c\<close> are
  shown against this map.
\<close>

section \<open>The abstraction\<close>

definition vm_mapping :: "u64 \<Rightarrow> 'a hw_scheme \<Rightarrow> u64 \<Rightarrow> (u64 \<times> u64) option" where
  "vm_mapping root s va =
     (if va_is_canonical va \<and> page_aligned va
      then map_option (\<lambda>e. (pte_to_pa e, e AND SV39_PTE_FLAG_MASK)) (pt_lookup (mem s) root va)
      else None)"

lemma bit_page_base: "bit (page_base a) n \<longleftrightarrow> 12 \<le> n \<and> bit a n"
  by (auto simp: page_base_def PAGE_MASK_mask bit_simps dest: bit_imp_le_length)

lemma vpn_index_page_base [simp]: "vpn_index (page_base va) l = vpn_index va l"
  by (rule bit_word_eqI) (simp add: bit_vpn_index bit_page_base)

lemma va_is_canonical_iff: "va_is_canonical va \<longleftrightarrow> (\<forall>n. 39 \<le> n \<longrightarrow> n < 64 \<longrightarrow> bit va n = bit va 38)"
proof
  assume r: "\<forall>n. 39 \<le> n \<longrightarrow> n < 64 \<longrightarrow> bit va n = bit va 38"
  have "va AND NOT (mask 39) = (if bit va 38 then NOT (mask 39) else 0)"
    using r by (intro bit_word_eqI) (auto simp: bit_simps not_less)
  moreover have "bit va 38 \<longleftrightarrow> va AND 2 ^ 38 \<noteq> 0" using and_exp_eq_0_iff_not_bit [of va 38] by simp
  ultimately show "va_is_canonical va"
    by (simp add: va_is_canonical_def SV39_TOP_BIT_def Let_def mask_eq_exp_minus_1)
qed (simp add: va_is_canonical_bits)

lemma canonical_page_base [simp]: "va_is_canonical (page_base va) = va_is_canonical va"
  by (auto simp: va_is_canonical_iff bit_page_base)

lemma page_aligned_page_base [simp]: "page_aligned (page_base va)"
  by (simp add: page_aligned_mod)

lemma va_path_page_base [simp]: "va_path (page_base va) = va_path va"
  by (simp add: va_path_def)

lemma pt_lookup_page_base [simp]: "pt_lookup m root (page_base va) = pt_lookup m root va"
  by (simp add: pt_lookup_def cong: option.case_cong)

lemma same_leaf_iff:
  assumes "va_is_canonical va" "page_aligned va" "va_is_canonical va'" "page_aligned va'"
  shows "va_path va' = va_path va \<and> vpn_index va' 0 = vpn_index va 0 \<longleftrightarrow> va' = va"
  using vpn_inject [OF assms(3,1,4,2)] by (auto simp: va_path_def)

lemma pt_lookup_entry:
  assumes "pt_wf A m root"
  shows "pt_lookup m root va = Some e \<Longrightarrow> pte_is_valid e \<and> pte_is_leaf e"
  using pt_wf_table(2) [OF assms va_path_vpath(1) [of va], where i = "vpn_index va 0"]
  by (auto simp: pt_lookup_def Let_def split: option.splits if_splits)

section \<open>Lookups\<close>

text \<open>The part shared by the operations that look a page up: find a valid leaf.\<close>

lemma leaf_found:
  assumes wf: "pt_wf A (mem s) root" and fr: "frames A"
    and r: "r = (case pt_table (mem s) root (va_path va) of None \<Rightarrow> 0 | Some t' \<Rightarrow> pte_addr t' (vpn_index va 0))"
  shows "r = 0 \<or> \<not> pte_is_valid (load64 r s) \<or> \<not> pte_is_leaf (load64 r s) \<longleftrightarrow> pt_lookup (mem s) root va = None"
    and "pt_lookup (mem s) root va = Some e \<Longrightarrow> load64 r s = e"
proof -
  show "r = 0 \<or> \<not> pte_is_valid (load64 r s) \<or> \<not> pte_is_leaf (load64 r s) \<longleftrightarrow> pt_lookup (mem s) root va = None"
  proof (cases "pt_table (mem s) root (va_path va)")
    case None
    with r show ?thesis by (simp add: pt_lookup_def)
  next
    case (Some t)
    have t: "unat t mod 4096 = 0" "t \<noteq> 0"
      using pt_wf_table(1) [OF wf va_path_vpath(1) Some] fr by (auto simp: frames_def)
    then have "r \<noteq> 0" using pte_addr_nonzero r Some by simp
    moreover have "load64 r s = pt_entry (mem s) t (vpn_index va 0)" using r Some by (simp add: load64_def pt_entry_def)
    ultimately show ?thesis
      using pt_wf_table(2) [OF wf va_path_vpath(1) Some, where i = "vpn_index va 0"] Some
      by (auto simp: pt_lookup_def Let_def)
  qed
  show "load64 r s = e" if "pt_lookup (mem s) root va = Some e"
    using that r by (auto simp: pt_lookup_def load64_def pt_entry_def Let_def split: option.splits if_splits)
qed

lemma vm_inv_root:
  assumes "vm_inv root s"
  shows "root \<in> allocated s" and "root \<noteq> 0"
proof -
  show "root \<in> allocated s" using assms pt_wf_table(1) [of _ _ _ "[]"] by (auto simp: vm_inv_def)
  then show "root \<noteq> 0" using frames_allocated assms by (auto simp: vm_inv_def frames_def)
qed

lemma leaf_walk:
  assumes "vm_inv (vm_root sp) s"
  shows "bindE (vm_walk (Some sp) va False s) (\<lambda>(pte, s).
      if pte = 0 \<or> \<not> pte_is_valid (load64 pte s) \<or> \<not> pte_is_leaf (load64 pte s) then g s else h pte s) =
    (if va_is_canonical va then case pt_lookup (mem s) (vm_root sp) va of None \<Rightarrow> g s
       | Some e \<Rightarrow> h (pte_addr (the (pt_table (mem s) (vm_root sp) (va_path va))) (vpn_index va 0)) s
     else g s)"
proof (cases "va_is_canonical va")
  case True
  have wf: "pt_wf (allocated s) (mem s) (vm_root sp)" and fr: "frames (allocated s)"
    using assms by (auto simp: vm_inv_def frames_allocated)
  define r where "r = (case pt_table (mem s) (vm_root sp) (va_path va) of None \<Rightarrow> 0 | Some t' \<Rightarrow> pte_addr t' (vpn_index va 0))"
  have walk: "vm_walk (Some sp) va False s = Inr (r, s)"
    using vm_walk_lookup [OF vm_inv_root(2) [OF assms] True, of s] by (simp add: r_def)
  note found = leaf_found [OF wf fr r_def]
  have "pt_lookup (mem s) (vm_root sp) va = Some e \<Longrightarrow>
      r = pte_addr (the (pt_table (mem s) (vm_root sp) (va_path va))) (vpn_index va 0)" for e
    by (auto simp: r_def pt_lookup_def split: option.splits)
  then show ?thesis
    using True walk found(1) by (cases "pt_lookup (mem s) (vm_root sp) va") auto
next
  case False
  then show ?thesis by (simp add: vm_walk_def)
qed

lemma leaf_entry:
  "pt_lookup (mem s) root va = Some e \<Longrightarrow>
   load64 (pte_addr (the (pt_table (mem s) root (va_path va))) (vpn_index va 0)) s = e"
  by (auto simp: pt_lookup_def load64_def pt_entry_def Let_def split: option.splits if_splits)

lemma lookup_neutral: "irq_neutral (\<lambda>s. bindE (vm_walk space va False s) (\<lambda>(pte, s).
       if pte = 0 \<or> \<not> pte_is_valid (load64 pte s) \<or> \<not> pte_is_leaf (load64 pte s)
       then Inr (x, s) else Inr (f (load64 pte s), s)))"
  by (intro neutral_bind neutral_if vm_walk_neutral neutral_return
      neutral_param [where f = "\<lambda>x s. Inr (f x, s)"]) simp_all

lemma vm_translate_spec:
  assumes "vm_inv (vm_root sp) s"
  shows "vm_translate (Some sp) va s = Inr
    (if va_is_canonical va then case vm_mapping (vm_root sp) s (page_base va) of
        Some (pa, flags) \<Rightarrow> pa OR (va AND VM_PAGE_OFFSET_MASK) | None \<Rightarrow> VM_TRANSLATE_INVALID
     else VM_TRANSLATE_INVALID, s)"
  unfolding vm_translate_def leaf_walk [OF assms]
    irq_masked_neutral [OF lookup_neutral [where f = "\<lambda>v. pte_to_pa v OR (va AND VM_PAGE_OFFSET_MASK)"]]
  by (simp add: vm_mapping_def leaf_entry split: option.split)

lemma vm_get_mapping_spec:
  assumes "vm_inv (vm_root sp) s"
  shows "vm_get_mapping (Some sp) va outs s = Inr
    (if \<not> outs then (VM_ERR_INVALID, 0, 0)
     else if va_is_canonical va then case vm_mapping (vm_root sp) s (page_base va) of
        Some (pa, flags) \<Rightarrow> (VM_OK, pa OR (va AND VM_PAGE_OFFSET_MASK), flags)
      | None \<Rightarrow> (VM_ERR_NOT_MAPPED, 0, 0)
     else (VM_ERR_NOT_MAPPED, 0, 0), s)"
  unfolding vm_get_mapping_def leaf_walk [OF assms] irq_masked_neutral [OF lookup_neutral
    [where f = "\<lambda>v. (VM_OK, pte_to_pa v OR (va AND VM_PAGE_OFFSET_MASK), v AND SV39_PTE_FLAG_MASK)"]]
  by (simp add: vm_mapping_def leaf_entry split: option.split)

section \<open>Mapping and unmapping\<close>

lemma unmap_neutral: "irq_neutral (\<lambda>s. bindE (vm_walk space va False s) (\<lambda>(pte, s).
       if pte = 0 \<or> \<not> pte_is_valid (load64 pte s) \<or> \<not> pte_is_leaf (load64 pte s)
       then Inr (x, s) else Inr (y, flush_active_address_space (store64 pte v s))))"
  by (intro neutral_bind neutral_if vm_walk_neutral neutral_return neutral_after [OF neutral_return]) simp_all

lemma map_neutral: "irq_neutral (\<lambda>s. bindE (vm_walk space va True s) (\<lambda>(pte, s).
       if pte = 0 then Inr (x, s) else if pte_is_valid (load64 pte s) then Inr (y, s)
       else Inr (z, flush_active_address_space (store64 pte v s))))"
  by (intro neutral_bind neutral_if vm_walk_neutral neutral_return neutral_after [OF neutral_return]) simp_all

definition vm_args_ok :: "u64 \<Rightarrow> u64 \<Rightarrow> u64 \<Rightarrow> bool" where
  "vm_args_ok va pa flags \<longleftrightarrow>
     va_is_canonical va \<and> page_aligned va \<and> page_aligned pa \<and> flags_are_valid flags"

text \<open>The tables missing on the way to the leaf of \<open>va\<close>.\<close>

definition vm_missing :: "u64 \<Rightarrow> 'a hw_scheme \<Rightarrow> u64 \<Rightarrow> nat" where
  "vm_missing root s va = missing 2 (mem s) root va"

lemma missing_table: "missing l m t va = 0 \<longleftrightarrow> pt_table m t (walk_path l va) \<noteq> None"
  by (induction l arbitrary: t) (auto split: option.split)

lemma vm_missing_mapped: "vm_mapping root s va \<noteq> None \<Longrightarrow> vm_missing root s va = 0"
  by (auto simp: vm_missing_def missing_table walk_path_2 vm_mapping_def pt_lookup_def
      split: if_splits option.splits)

text \<open>
  A step that keeps the tree well formed, changes the allocator and the tables only, and
  takes fresh pages as tables only.
\<close>

definition vm_step :: "u64 \<Rightarrow> 'a pages_scheme \<Rightarrow> 'a pages_scheme \<Rightarrow> bool" where
  "vm_step root s s' \<longleftrightarrow> vm_inv root s' \<and> pool_step s s' \<and>
     (\<exists>N. N \<inter> allocated s = {} \<and> allocated s' = allocated s \<union> N \<and>
        pt_tables (mem s') root = pt_tables (mem s) root \<union> N) \<and>
     agree_on (- pt_tables (mem s') root) (mem s) (mem s')"

lemma vm_step_grown: "grown root s s' \<Longrightarrow> vm_step root s s'"
  by (auto simp: grown_def vm_step_def)

lemma set_leaf_step:
  assumes g: "grown root s s1" and t: "pt_table (mem s1) root (va_path va) = Some t"
    and v: "v = 0 \<or> pte_is_valid v \<and> pte_clean v \<and> pte_is_leaf v"
  defines "s2 \<equiv> flush_active_address_space (store64 (pte_addr t (vpn_index va 0)) v s1)"
  shows "vm_step root s s2" and "pt_paths (mem s2) root = pt_paths (mem s1) root"
    and "free_pages s2 = free_pages s1"
    and "pt_lookup (mem s2) root va' = (if va_path va' = va_path va \<and> vpn_index va' 0 = vpn_index va 0
           then if v = 0 then None else Some v else pt_lookup (mem s) root va')"
proof -
  have wf: "pt_wf (allocated s1) (mem s1) root" and fr: "frames (allocated s1)" and pinv: "pages_inv s1"
    using g by (auto simp: grown_def vm_inv_def frames_allocated)
  note leaf = pt_set_leaf [OF wf fr va_path_vpath t vpn_index_less [of va 0] v]
  have m2: "mem s2 = write64 (mem s1) (pte_addr t (vpn_index va 0)) v" by (simp add: s2_def)
  have ps: "pool_step s1 s2"
    unfolding s2_def by (rule pool_step_trans [OF pool_step_store(1) pool_step_flush])
  have "t \<in> pt_tables (mem s1) root" unfolding pt_tables_def using t va_path_vpath(1) by blast
  then have "agree_on (- pt_tables (mem s1) root) (mem s1) (mem s2)"
    unfolding m2 by (intro agree_on_mono [OF leaf(4)]) auto
  moreover have "agree_on (- pt_tables (mem s1) root) (mem s) (mem s1)" using g by (simp add: grown_def)
  ultimately have "agree_on (- pt_tables (mem s1) root) (mem s) (mem s2)" by (metis agree_on_trans)
  then have "agree_on (- pt_tables (mem s2) root) (mem s) (mem s2)" using leaf(2) by (simp add: m2)
  moreover have "pool_step s s2" using g ps by (auto simp: grown_def intro: pool_step_trans)
  moreover have "vm_inv root s2" "allocated s2 = allocated s1" "pt_tables (mem s2) root = pt_tables (mem s1) root"
    using leaf(1,2) pinv by (simp_all add: vm_inv_def s2_def)
  ultimately show "vm_step root s s2" using g by (auto simp: vm_step_def grown_def)
  show "pt_paths (mem s2) root = pt_paths (mem s1) root" using leaf(5) by (simp add: m2)
  show "free_pages s2 = free_pages s1" by (simp add: s2_def)
  show "pt_lookup (mem s2) root va' = (if va_path va' = va_path va \<and> vpn_index va' 0 = vpn_index va 0
           then if v = 0 then None else Some v else pt_lookup (mem s) root va')"
    using leaf(3) [of va'] g by (simp add: m2 grown_def)
qed

lemma vm_map_page_spec:
  assumes inv: "vm_inv (vm_root sp) s"
  shows "\<exists>r s'. vm_map_page (Some sp) va pa flags s = Inr (r, s') \<and>
    (if \<not> vm_args_ok va pa flags then r = VM_ERR_INVALID \<and> s' = s
     else if unat (free_pages s) < vm_missing (vm_root sp) s va then r = VM_ERR_NO_MEMORY \<and> restored s s'
     else if vm_mapping (vm_root sp) s va \<noteq> None then r = VM_ERR_EXISTS \<and> s' = s
     else r = VM_OK \<and> vm_step (vm_root sp) s s' \<and>
       vm_mapping (vm_root sp) s' = (vm_mapping (vm_root sp) s)(va \<mapsto> (pa, flags)) \<and>
       pt_paths (mem s') (vm_root sp) = pt_paths (mem s) (vm_root sp) \<union> {p. prefix p (va_path va)} \<and>
       unat (free_pages s) = unat (free_pages s') + vm_missing (vm_root sp) s va)"
proof (cases "vm_args_ok va pa flags")
  case False
  then show ?thesis by (auto simp: vm_map_page_def vm_args_ok_def)
next
  case True
  let ?root = "vm_root sp"
  note root = vm_inv_root(2) [OF inv]
  have args: "va_is_canonical va" "page_aligned va" "page_aligned pa" "flags_are_valid flags"
    using True by (auto simp: vm_args_ok_def)
  have eq: "vm_map_page (Some sp) va pa flags s = bindE (vm_walk_from 2 ?root va True [] s) (\<lambda>(pte, s).
       if pte = 0 then Inr (VM_ERR_NO_MEMORY, s) else if pte_is_valid (load64 pte s) then Inr (VM_ERR_EXISTS, s)
       else Inr (VM_OK, flush_active_address_space (store64 pte (pa_to_pte pa flags) s)))"
    unfolding vm_map_page_def irq_masked_neutral [OF map_neutral]
    using args root by (simp add: vm_walk_def SV39_LEVELS_def)

  note walks = vm_walk_from_alloc [OF inv vpath_Nil, of 2 ?root "[]" s va,
      unfolded append.simps walk_path_2, folded vm_missing_def, simplified]
  then obtain r s1 where walk: "vm_walk_from 2 ?root va True [] s = Inr (r, s1)"
    and same: "vm_missing ?root s va = 0 \<longrightarrow> s1 = s"
    and res: "if vm_missing ?root s va \<le> unat (free_pages s)
      then walked ?root (va_path va) va (vm_missing ?root s va) s r s1
      else r = 0 \<and> restored s s1"
    by (elim exE conjE) (rule that)
  show ?thesis
  proof (cases "vm_missing ?root s va \<le> unat (free_pages s)")
    case False
    with res True show ?thesis by (simp add: eq walk)
  next
    case enough: True
    then obtain t where g: "grown ?root s s1" and t: "pt_table (mem s1) ?root (va_path va) = Some t"
      and r: "r = pte_addr t (vpn_index va 0)"
      and paths: "pt_paths (mem s1) ?root = pt_paths (mem s) ?root \<union> {p. prefix p (va_path va)}"
      and free: "unat (free_pages s) = unat (free_pages s1) + vm_missing ?root s va"
      using res by (auto simp: walked_def)
    have wf: "pt_wf (allocated s1) (mem s1) ?root" and fr: "frames (allocated s1)"
      using g by (auto simp: grown_def vm_inv_def frames_allocated)
    have tf: "t \<noteq> 0" "unat t mod 4096 = 0"
      using pt_wf_table(1) [OF wf va_path_vpath(1) t] fr by (auto simp: frames_def)
    then have "r \<noteq> 0" using pte_addr_nonzero r by simp
    have e: "pte_is_valid (load64 r s1) \<longleftrightarrow> vm_mapping ?root s va \<noteq> None"
    proof -
      have "pt_lookup (mem s) ?root va = pt_lookup (mem s1) ?root va" using g by (simp add: grown_def)
      moreover have "load64 r s1 = pt_entry (mem s1) t (vpn_index va 0)" by (simp add: load64_def pt_entry_def r)
      ultimately show ?thesis
        using pt_wf_table(2) [OF wf va_path_vpath(1) t, where i = "vpn_index va 0"] args t
        by (auto simp: vm_mapping_def pt_lookup_def Let_def)
    qed
    show ?thesis
    proof (cases "vm_mapping ?root s va = None")
      case False
      with True enough e same vm_missing_mapped [OF False] \<open>r \<noteq> 0\<close> show ?thesis by (simp add: eq walk)
    next
      case fresh: True
      note leafv = leaf_pte [OF args(3,4)] leaf_pte_clean [OF args(4), of pa]
      note leaf = set_leaf_step [OF g t, of "pa_to_pte pa flags"]
      let ?s2 = "flush_active_address_space (store64 r (pa_to_pte pa flags) s1)"
      have nz: "pa_to_pte pa flags \<noteq> 0" using leafv(1) by auto
      have "vm_mapping ?root ?s2 = (vm_mapping ?root s)(va \<mapsto> (pa, flags))"
        using leaf(4) leafv nz args same_leaf_iff [OF args(1,2)] by (auto simp: vm_mapping_def r fun_eq_iff)
      with leaf(1-3) leafv True enough e fresh \<open>r \<noteq> 0\<close> paths free show ?thesis by (simp add: eq walk r)
    qed
  qed
qed

lemma vm_unmap_page_spec:
  assumes inv: "vm_inv (vm_root sp) s"
  shows "\<exists>r s'. vm_unmap_page (Some sp) va s = Inr (r, s') \<and>
    (if \<not> (va_is_canonical va \<and> page_aligned va) then r = VM_ERR_INVALID \<and> s' = s
     else if vm_mapping (vm_root sp) s va = None then r = VM_ERR_NOT_MAPPED \<and> s' = s
     else r = VM_OK \<and> vm_step (vm_root sp) s s' \<and> free_pages s' = free_pages s \<and>
       pt_paths (mem s') (vm_root sp) = pt_paths (mem s) (vm_root sp) \<and>
       vm_mapping (vm_root sp) s' = (vm_mapping (vm_root sp) s)(va := None))"
proof (cases "va_is_canonical va \<and> page_aligned va")
  case False
  then show ?thesis by (auto simp: vm_unmap_page_def)
next
  case True
  let ?root = "vm_root sp"
  let ?t = "the (pt_table (mem s) ?root (va_path va))"
  let ?s = "flush_active_address_space (store64 (pte_addr ?t (vpn_index va 0)) 0 s)"
  have eq: "vm_unmap_page (Some sp) va s =
    (case pt_lookup (mem s) ?root va of None \<Rightarrow> Inr (VM_ERR_NOT_MAPPED, s) | Some e \<Rightarrow> Inr (VM_OK, ?s))"
    unfolding vm_unmap_page_def irq_masked_neutral [OF unmap_neutral] leaf_walk [OF inv]
    using True vm_inv_root(2) [OF inv] by simp
  show ?thesis
  proof (cases "pt_lookup (mem s) ?root va")
    case None
    with True show ?thesis by (simp add: eq vm_mapping_def)
  next
    case (Some e)
    then have "pt_table (mem s) ?root (va_path va) = Some ?t"
      by (auto simp: pt_lookup_def split: option.splits)
    note leaf = set_leaf_step [OF grown_refl [OF inv] this, of 0, simplified]
    have "vm_mapping ?root ?s = (vm_mapping ?root s)(va := None)"
      using leaf(4) same_leaf_iff [of va] True by (auto simp: vm_mapping_def fun_eq_iff)
    with leaf(1-3) Some True show ?thesis by (simp add: eq vm_mapping_def)
  qed
qed

end
