(* ===== verification/Vm_Destroy.thy ===== *)
theory Vm_Destroy
  imports Vm_Spec
begin

text \<open>
  Creating and destroying address spaces: \<open>vm_space_init\<close> starts an empty tree on
  a fresh page, \<open>vm_space_destroy\<close> refuses while a leaf is left and otherwise gives
  back every table.
\<close>

section \<open>Loops with an invariant\<close>

lemma for_each_upt:
  assumes "I 0 s" and "\<And>k s. k < n \<Longrightarrow> I k s \<Longrightarrow> \<exists>s'. f k s = Inr ((), s') \<and> I (Suc k) s'"
  shows "\<exists>s'. for_each f [0..<n] s = Inr ((), s') \<and> I n s'"
proof -
  have "\<exists>s'. for_each f [k..<n] s = Inr ((), s') \<and> I n s'" if "k \<le> n" "I k s" for k s
    using that
  proof (induction "n - k" arbitrary: k s)
    case 0
    then show ?case by simp
  next
    case (Suc d)
    then have "k < n" by simp
    moreover from this obtain s1 where "f k s = Inr ((), s1)" "I (Suc k) s1" using assms(2) Suc.prems by blast
    ultimately show ?case using Suc by (simp add: upt_conv_Cons)
  qed
  with assms(1) show ?thesis by simp
qed

section \<open>Subtrees\<close>

text \<open>The tables at or below a path.\<close>

definition subtree :: "memory \<Rightarrow> u64 \<Rightarrow> u64 list \<Rightarrow> u64 set" where
  "subtree m root p = {t. \<exists>q. vpath (p @ q) \<and> pt_table m root (p @ q) = Some t}"

lemma subtree_Nil: "subtree m root [] = pt_tables m root"
  by (simp add: subtree_def pt_tables_def)

lemma subtree_mem: "vpath p \<Longrightarrow> pt_table m root p = Some t \<Longrightarrow> t \<in> subtree m root p"
  by (auto simp: subtree_def intro!: exI [of _ "[]"])

lemma subtree_unfold:
  assumes "vpath p" "length p < 2" "pt_table m root p = Some t"
  shows "subtree m root p = insert t (\<Union>i \<in> {..<512}. subtree m root (p @ [i]))"
proof (intro equalityI subsetI)
  fix x assume "x \<in> subtree m root p"
  then obtain q where q: "vpath (p @ q)" "pt_table m root (p @ q) = Some x" by (auto simp: subtree_def)
  show "x \<in> insert t (\<Union>i \<in> {..<512}. subtree m root (p @ [i]))"
  proof (cases q)
    case Nil
    with q assms show ?thesis by simp
  next
    case (Cons i r)
    with q have "i < 512" "vpath ((p @ [i]) @ r)" "pt_table m root ((p @ [i]) @ r) = Some x"
      by (auto simp: vpath_def)
    then have "x \<in> subtree m root (p @ [i])" unfolding subtree_def by blast
    with \<open>i < 512\<close> show ?thesis by auto
  qed
next
  fix x assume "x \<in> insert t (\<Union>i \<in> {..<512}. subtree m root (p @ [i]))"
  then show "x \<in> subtree m root p"
    using subtree_mem [OF assms(1,3)] by (auto simp: subtree_def)
qed

lemma subtree_empty: "pt_table m root p = None \<Longrightarrow> subtree m root p = {}"
  by (auto simp: subtree_def pt_table_append)

lemma subtree_leaf_level:
  assumes "vpath p" "length p = 2" "pt_table m root p = Some t"
  shows "subtree m root p = {t}"
proof -
  have "q = []" if "vpath (p @ q)" for q using that assms(2) by (cases q) (auto simp: vpath_def)
  then have "subtree m root p \<subseteq> {t}" using assms(3) by (fastforce simp: subtree_def)
  with subtree_mem [OF assms(1,3)] show ?thesis by blast
qed

lemma subtree_disjoint:
  assumes wf: "pt_wf A m root" and "i \<noteq> j"
  shows "subtree m root (p @ [i]) \<inter> subtree m root (p @ [j]) = {}"
proof -
  have False if "x \<in> subtree m root (p @ [i])" "x \<in> subtree m root (p @ [j])" for x
  proof -
    obtain q r where "vpath ((p @ [i]) @ q)" "pt_table m root ((p @ [i]) @ q) = Some x"
      "vpath ((p @ [j]) @ r)" "pt_table m root ((p @ [j]) @ r) = Some x"
      using \<open>x \<in> subtree m root (p @ [i])\<close> \<open>x \<in> subtree m root (p @ [j])\<close> unfolding subtree_def by blast
    from pt_wf_inj [OF wf this(1,3,2,4)] assms(2) show False by simp
  qed
  then show ?thesis by blast
qed

lemma subtree_above:
  assumes wf: "pt_wf A m root" and "vpath p" "pt_table m root p = Some t"
  shows "t \<notin> subtree m root (p @ [i])"
proof
  assume "t \<in> subtree m root (p @ [i])"
  then obtain q where "vpath ((p @ [i]) @ q)" "pt_table m root ((p @ [i]) @ q) = Some t"
    unfolding subtree_def by blast
  from pt_wf_inj [OF wf assms(2) this(1) assms(3) this(2)] show False by simp
qed

section \<open>Freeing the tables below a table\<close>

text \<open>The invariant of the loop over the entries of one table, after \<open>k\<close> of them.\<close>

definition freeing :: "memory \<Rightarrow> u64 \<Rightarrow> u64 list \<Rightarrow> u64 \<Rightarrow> 'a pages_scheme \<Rightarrow> nat \<Rightarrow> 'a pages_scheme \<Rightarrow> bool" where
  "freeing m root p t s0 k s \<longleftrightarrow> pages_inv s \<and> pool_step s0 s \<and>
     allocated s = allocated s0 - (\<Union>i \<in> {i. unat i < k}. subtree m root (p @ [i])) \<and>
     (\<forall>i<512. k \<le> unat i \<longrightarrow> agree_on (subtree m root (p @ [i])) m (mem s)) \<and>
     (\<forall>i<512. k \<le> unat i \<longrightarrow> pt_entry (mem s) t i = pt_entry m t i) \<and>
     agree_on (- subtree m root p) (mem s0) (mem s)"

lemma below_Suc: "{i :: u64. unat i < Suc k} = {i. unat i < k} \<union> {i. unat i = k}"
  by auto

lemma free_empty_table_children_spec:
  assumes wf: "pt_wf A m root" and fr: "frames A"
    and "vpath p" "length p + l = 2" "pt_table m root p = Some t"
    and "pages_inv s" "subtree m root p \<subseteq> allocated s" "agree_on (subtree m root p) m (mem s)"
  shows "\<exists>s'. free_empty_table_children l t s = Inr ((), s') \<and> pages_inv s' \<and> pool_step s s' \<and>
    allocated s' = allocated s - (subtree m root p - {t}) \<and> agree_on (- subtree m root p) (mem s) (mem s')"
  using assms(3-8)
proof (induction l arbitrary: p t s)
  case 0
  then show ?case by (simp add: subtree_leaf_level)
next
  case (Suc l)
  let ?S = "\<lambda>i. subtree m root (p @ [i])"
  have len: "length p < 2" using Suc.prems(2) by simp
  note unf = subtree_unfold [OF Suc.prems(1) len Suc.prems(3)]
  have tal: "unat t mod 4096 = 0" using pt_wf_table(1) [OF wf Suc.prems(1,3)] fr by (auto simp: frames_def)
  have sub: "?S i \<subseteq> subtree m root p" if "i < 512" for i using that unf by auto
  have tin: "t \<in> subtree m root p" using unf by simp
  have tout: "t \<notin> ?S i" for i using subtree_above [OF wf Suc.prems(1,3)] .
  let ?f = "\<lambda>i s. let pte = load64 (pte_addr t (of_nat i)) s in
       if \<not> pte_is_valid pte then Inr ((), s)
       else let child = pte_to_pa pte in
         bindE (free_empty_table_children l child s) (\<lambda>(_, s).
         bindE (page_free child s) (\<lambda>(_, s). Inr ((), store64 (pte_addr t (of_nat i)) 0 s)))"
  have init: "freeing m root p t s 0 s"
    using Suc.prems(4,6) tal sub entry_agree [OF Suc.prems(6) tin tal]
    unfolding freeing_def
    by (auto intro: agree_on_mono)
  have step: "\<exists>s'. ?f k s1 = Inr ((), s') \<and> freeing m root p t s (Suc k) s'"
    if k: "k < 512" and I: "freeing m root p t s k s1" for k s1
  proof -
    define i :: u64 where "i = of_nat k"
    have ik: "unat i = k" "i < 512" using k by (simp_all add: i_def unat_of_nat word_less_nat_alt)
    have only: "{j :: u64. unat j = k} = {i}" using ik(1) by (auto simp: word_unat_eq_iff)
    let ?v = "pt_entry m t i"
    have ld: "load64 (pte_addr t i) s1 = ?v"
      using I ik by (simp add: freeing_def load64_def pt_entry_def)
    from pt_wf_table(2) [OF wf Suc.prems(1,3) ik(2)] len
    consider (empty) "?v = 0" | (child) "pte_is_valid ?v" "\<not> pte_is_leaf ?v" by auto
    then show ?thesis
    proof cases
      case empty
      then have "?S i = {}" using Suc.prems(3) by (intro subtree_empty) (simp add: pt_table_snoc next_table_def)
      with I have "freeing m root p t s (Suc k) s1" by (simp add: freeing_def below_Suc only)
      with empty ld show ?thesis by (simp add: i_def [symmetric])
    next
      case child
      let ?c = "pte_to_pa ?v"
      have c: "pt_table m root (p @ [i]) = Some ?c"
        using child Suc.prems(3) by (simp add: pt_table_snoc next_table_def)
      have vp: "vpath (p @ [i])" "length (p @ [i]) + l = 2" using Suc.prems(1,2) ik(2) by (auto simp: vpath_snoc)
      have pinv: "pages_inv s1" using I by (simp add: freeing_def)
      have disj: "?S i \<inter> (\<Union>j \<in> {j. unat j < k}. ?S j) = {}"
      proof -
        have "?S i \<inter> ?S j = {}" if "unat j < k" for j
          using that ik(1) by (intro subtree_disjoint [OF wf]) auto
        then show ?thesis by blast
      qed
      have own: "?S i \<subseteq> allocated s1"
        using I disj sub [OF ik(2)] Suc.prems(5) by (auto simp: freeing_def)
      have ag: "agree_on (?S i) m (mem s1)" using I ik by (simp add: freeing_def)
      from Suc.IH [OF vp c pinv own ag] obtain s2 where s2: "free_empty_table_children l ?c s1 = Inr ((), s2)"
        "pages_inv s2" "pool_step s1 s2" "allocated s2 = allocated s1 - (?S i - {?c})"
        "agree_on (- ?S i) (mem s1) (mem s2)" by blast
      have cin: "?c \<in> ?S i" using subtree_mem [OF vp(1) c] .
      then have "?c \<in> allocated s2" using s2(4) own by blast
      moreover have "allocated s2 - {?c} = allocated s1 - ?S i" using s2(4) cin by blast
      ultimately obtain s3 where s3: "page_free ?c s2 = Inr ((), s3)" "pages_inv s3" "allocated s3 = allocated s1 - ?S i"
        using pages.free_owned [OF s2(2), of ?c] by auto
      have m3: "mem s3 = mem s2" using page_free_frame [OF s3(1)] by auto
      define s4 where "s4 = store64 (pte_addr t i) 0 s3"
      have run: "?f k s1 = Inr ((), s4)"
        using ld child s2(1) s3(1) by (simp add: i_def [symmetric] s4_def)
      have ps: "pool_step s s4"
        using I pool_step_trans [OF s2(3) pool_step_trans [OF pool_step_free [OF s3(1)] pool_step_store(1)]]
        by (auto simp: freeing_def s4_def intro: pool_step_trans)
      have m4: "agree_on X (mem s1) (mem s4)" if "X \<inter> ?S i = {}" "t \<notin> X" for X
      proof -
        have "agree_on X (mem s1) (mem s2)" using that(1) by (intro agree_on_mono [OF s2(5)]) auto
        moreover have "agree_on X (mem s2) (mem s4)"
          using tal ik(2) that(2) by (simp add: s4_def m3 agree_on_write)
        ultimately show ?thesis by (rule agree_on_trans)
      qed
      have ent: "pt_entry (mem s4) t j = pt_entry (mem s1) t j" if "j < 512" "j \<noteq> i" for j
        using entry_agree [OF s2(5) _ tal that(1)] tout [of i] that tal ik(2)
        by (simp add: s4_def m3 entry_write)
      have "freeing m root p t s (Suc k) s4"
        unfolding freeing_def
      proof (intro conjI allI impI)
        show "pages_inv s4" using s3(2) by (simp add: s4_def)
        show "pool_step s s4" by (rule ps)
        show "allocated s4 = allocated s - (\<Union>j \<in> {j. unat j < Suc k}. ?S j)"
          using s3(3) I by (auto simp: s4_def freeing_def below_Suc only)
        show "agree_on (?S j) m (mem s4)" if "j < 512" "Suc k \<le> unat j" for j
        proof -
          have "j \<noteq> i" using that(2) ik(1) by auto
          then have "agree_on (?S j) (mem s1) (mem s4)" using subtree_disjoint [OF wf] tout by (intro m4) auto
          with I that show ?thesis by (auto simp: freeing_def intro: agree_on_trans)
        qed
        show "pt_entry (mem s4) t j = pt_entry m t j" if "j < 512" "Suc k \<le> unat j" for j
        proof -
          have "j \<noteq> i" using that(2) ik(1) by auto
          with ent [OF that(1)] I that ik(1) show ?thesis by (simp add: freeing_def)
        qed
        have "agree_on (- subtree m root p) (mem s1) (mem s4)"
          using sub [OF ik(2)] tin by (intro m4) auto
        then show "agree_on (- subtree m root p) (mem s) (mem s4)"
          using I by (auto simp: freeing_def intro: agree_on_trans)
      qed
      with run show ?thesis by blast
    qed
  qed
  from for_each_upt [where I = "freeing m root p t s" and f = ?f and n = 512, OF init step]
  obtain s' where run: "for_each ?f [0..<512] s = Inr ((), s')" and I: "freeing m root p t s 512 s'" by blast
  have "(\<Union>i \<in> {i. unat i < 512}. ?S i) = subtree m root p - {t}"
    using unf tout by (auto simp: word_less_nat_alt)
  with run I show ?case by (auto simp: freeing_def)
qed

section \<open>Detecting a leaf\<close>

lemma index_of_nat: "(\<exists>i<512. P (of_nat i :: u64)) \<longleftrightarrow> (\<exists>i<512. P i)"
proof
  assume "\<exists>i<512. P (of_nat i :: u64)"
  then obtain i where "i < 512" "P (of_nat i)" by blast
  then show "\<exists>i<512. P i" by (intro exI [of _ "of_nat i"]) (simp add: word_less_nat_alt unat_of_nat)
next
  assume "\<exists>i<512. P i"
  then obtain i where "i < 512" "P i" by blast
  then show "\<exists>i<512. P (of_nat i :: u64)" by (intro exI [of _ "unat i"]) (simp add: word_less_nat_alt)
qed

lemma table_contains_leaf_iff:
  assumes wf: "pt_wf A m root" and "vpath p" "length p + l = 2" "pt_table m root p = Some t"
  shows "table_contains_leaf l m t \<longleftrightarrow>
    (\<exists>q t' i. vpath (p @ q) \<and> length (p @ q) = 2 \<and> pt_table m root (p @ q) = Some t' \<and> i < 512 \<and> pt_entry m t' i \<noteq> 0)"
  using assms(2-4)
proof (induction l arbitrary: p t)
  case 0
  then have e: "pte_is_valid (pt_entry m t i) \<longleftrightarrow> pt_entry m t i \<noteq> 0" if "i < 512" for i
    using pt_wf_table(2) [OF wf 0(1,3) that] by auto
  have "table_contains_leaf 0 m t \<longleftrightarrow> (\<exists>i<512. pte_is_valid (pt_entry m t i))"
    using index_of_nat [of "\<lambda>i. pte_is_valid (pt_entry m t i)"]
    by (simp add: list_ex_iff pt_entry_def Bex_def)
  also have "\<dots> \<longleftrightarrow> (\<exists>i<512. pt_entry m t i \<noteq> 0)" using e by blast
  also have "\<dots> \<longleftrightarrow> (\<exists>q t' i. vpath (p @ q) \<and> length (p @ q) = 2 \<and> pt_table m root (p @ q) = Some t' \<and> i < 512 \<and> pt_entry m t' i \<noteq> 0)"
    using 0 by auto
  finally show ?case .
next
  case (Suc l)
  let ?R = "\<lambda>p. \<exists>q t' i. vpath (p @ q) \<and> length (p @ q) = 2 \<and> pt_table m root (p @ q) = Some t' \<and> i < 512 \<and> pt_entry m t' i \<noteq> 0"
  have len: "length p < 2" using Suc.prems(2) by simp
  have child: "pte_is_valid (pt_entry m t i) \<and>
      (pte_is_leaf (pt_entry m t i) \<or> table_contains_leaf l m (pte_to_pa (pt_entry m t i))) \<longleftrightarrow> ?R (p @ [i])"
    if i: "i < 512" for i
  proof (cases "pte_is_valid (pt_entry m t i)")
    case True
    then have nl: "\<not> pte_is_leaf (pt_entry m t i)" using pt_wf_table(2) [OF wf Suc.prems(1,3) i] len by auto
    have "pt_table m root (p @ [i]) = Some (pte_to_pa (pt_entry m t i))"
      using True nl Suc.prems(3) by (simp add: pt_table_snoc next_table_def)
    with Suc.IH [of "p @ [i]"] Suc.prems i True nl show ?thesis by (simp add: vpath_snoc)
  next
    case False
    then have "pt_table m root (p @ [i] @ q) = None" for q
      using Suc.prems(3) by (simp add: pt_table_append next_table_def)
    with False show ?thesis by simp
  qed
  let ?L = "\<lambda>i. pte_is_valid (pt_entry m t i) \<and>
      (pte_is_leaf (pt_entry m t i) \<or> table_contains_leaf l m (pte_to_pa (pt_entry m t i)))"
  have "table_contains_leaf (Suc l) m t \<longleftrightarrow> (\<exists>i<512. ?L (of_nat i))"
    by (simp add: list_ex_iff pt_entry_def Bex_def Let_def)
  also have "\<dots> \<longleftrightarrow> (\<exists>i<512. ?L i)" by (rule index_of_nat)
  also have "\<dots> \<longleftrightarrow> (\<exists>i<512. ?R (p @ [i]))" by (intro ex_cong1 conj_cong refl child)
  also have "\<dots> \<longleftrightarrow> ?R p"
  proof
    assume "\<exists>i<512. ?R (p @ [i])"
    then obtain i q t' j where "vpath ((p @ [i]) @ q)" "length ((p @ [i]) @ q) = 2"
      "pt_table m root ((p @ [i]) @ q) = Some t'" "j < 512" "pt_entry m t' j \<noteq> 0" by (elim exE conjE)
    then show "?R p" by (intro exI [of _ "i # q"] exI [of _ t'] exI [of _ j]) simp
  next
    assume "?R p"
    then obtain q t' j where q: "vpath (p @ q)" "length (p @ q) = 2" "pt_table m root (p @ q) = Some t'" "j < 512"
      "pt_entry m t' j \<noteq> 0" by blast
    with len obtain i r where "q = i # r" by (cases q) auto
    with q have "i < 512" "vpath ((p @ [i]) @ r)" "length ((p @ [i]) @ r) = 2"
      "pt_table m root ((p @ [i]) @ r) = Some t'" by (auto simp: vpath_def)
    then show "\<exists>i<512. ?R (p @ [i])"
      using q(4,5) by (intro exI [of _ i] exI [of _ r] exI [of _ t'] exI [of _ j] conjI)
  qed
  finally show ?case .
qed

text \<open>Every triple of indices is the path of a canonical page address.\<close>

definition va_of_indices :: "u64 \<Rightarrow> u64 \<Rightarrow> u64 \<Rightarrow> u64" where
  "va_of_indices i2 i1 i0 = (if bit i2 8 then NOT (mask 39) else 0) OR
     push_bit 30 i2 OR push_bit 21 i1 OR push_bit 12 i0"

lemma bit_lt_512: "(i :: u64) < 512 \<Longrightarrow> bit i n \<Longrightarrow> n < 9"
proof -
  assume "i < 512" and b: "bit i n"
  then have "unat i < 2 ^ 9" by (simp add: word_less_nat_alt)
  then have "i = i AND mask 9" by (simp add: word_unat_eq_iff unat_and_mask)
  with b have "bit (mask 9 :: u64) n" by (metis bit_and_iff)
  then show "n < 9" by (simp add: bit_mask_iff)
qed

lemma bit_va_of_indices:
  assumes "i2 < 512" "i1 < 512" "i0 < 512" "n < 64"
  shows "bit (va_of_indices i2 i1 i0) n \<longleftrightarrow>
    (if n < 12 then False else if n < 21 then bit i0 (n - 12) else if n < 30 then bit i1 (n - 21)
     else if n < 39 then bit i2 (n - 30) else bit i2 8)"
proof -
  note lt = bit_lt_512 [OF assms(1)] bit_lt_512 [OF assms(2)] bit_lt_512 [OF assms(3)]
  have h2: "bit (push_bit 30 i2) n \<longleftrightarrow> 30 \<le> n \<and> n < 39 \<and> bit i2 (n - 30)" using lt(1) [of "n - 30"] assms(4)
    by (auto simp: bit_simps)
  have h1: "bit (push_bit 21 i1) n \<longleftrightarrow> 21 \<le> n \<and> n < 30 \<and> bit i1 (n - 21)" using lt(2) [of "n - 21"] assms(4)
    by (auto simp: bit_simps)
  have h0: "bit (push_bit 12 i0) n \<longleftrightarrow> 12 \<le> n \<and> n < 21 \<and> bit i0 (n - 12)" using lt(3) [of "n - 12"] assms(4)
    by (auto simp: bit_simps)
  have hs: "bit (if bit i2 8 then NOT (mask 39) else 0 :: u64) n \<longleftrightarrow> 39 \<le> n \<and> bit i2 8" using assms(4)
    by (auto simp: bit_simps)
  show ?thesis
    unfolding va_of_indices_def by (auto simp: bit_or_iff h2 h1 h0 hs)
qed

lemma va_of_indices:
  assumes "i2 < 512" "i1 < 512" "i0 < 512"
  defines "va \<equiv> va_of_indices i2 i1 i0"
  shows "va_is_canonical va" "page_aligned va" "va_path va = [i2, i1]" "vpn_index va 0 = i0"
proof -
  note b = bit_va_of_indices [OF assms(1-3), folded va_def]
  note lt = bit_lt_512 [OF assms(1)] bit_lt_512 [OF assms(2)] bit_lt_512 [OF assms(3)]
  show "va_is_canonical va" unfolding va_is_canonical_iff by (simp add: b)
  show "page_aligned va" unfolding page_aligned_bits by (simp add: b)
  have "vpn_index va 2 = i2"
  proof (rule bit_word_eqI)
    fix n show "bit (vpn_index va 2) n = bit i2 n" using lt(1) [of n] by (auto simp: bit_vpn_index b)
  qed
  moreover have "vpn_index va 1 = i1"
  proof (rule bit_word_eqI)
    fix n show "bit (vpn_index va 1) n = bit i1 n" using lt(2) [of n] by (auto simp: bit_vpn_index b)
  qed
  ultimately show "va_path va = [i2, i1]" by (simp add: va_path_def)
  show "vpn_index va 0 = i0"
  proof (rule bit_word_eqI)
    fix n show "bit (vpn_index va 0) n = bit i0 n" using lt(3) [of n] by (auto simp: bit_vpn_index b)
  qed
qed

lemma contains_leaf_mapping:
  assumes "vm_inv root s"
  shows "table_contains_leaf 2 (mem s) root \<longleftrightarrow> vm_mapping root s \<noteq> Map.empty"
proof -
  have wf: "pt_wf (allocated s) (mem s) root" using assms by (simp add: vm_inv_def)
  have iff: "table_contains_leaf 2 (mem s) root \<longleftrightarrow>
    (\<exists>q t' i. vpath q \<and> length q = 2 \<and> pt_table (mem s) root q = Some t' \<and> i < 512 \<and> pt_entry (mem s) t' i \<noteq> 0)"
    using table_contains_leaf_iff [OF wf vpath_Nil, of 2 root] by simp
  also have "\<dots> \<longleftrightarrow> (\<exists>va. vm_mapping root s va \<noteq> None)"
  proof
    assume "\<exists>q t' i. vpath q \<and> length q = 2 \<and> pt_table (mem s) root q = Some t' \<and> i < 512 \<and> pt_entry (mem s) t' i \<noteq> 0"
    then obtain q t' i where q: "vpath q" "length q = 2" "pt_table (mem s) root q = Some t'" "i < 512"
      "pt_entry (mem s) t' i \<noteq> 0" by blast
    then obtain i2 i1 where "q = [i2, i1]" by (auto simp: length_Suc_conv eval_nat_numeral)
    with q va_of_indices [of i2 i1 i] have "vm_mapping root s (va_of_indices i2 i1 i) \<noteq> None"
      by (simp add: vpath_def vm_mapping_def pt_lookup_def)
    then show "\<exists>va. vm_mapping root s va \<noteq> None" by blast
  next
    assume "\<exists>va. vm_mapping root s va \<noteq> None"
    then obtain va where "pt_lookup (mem s) root va \<noteq> None" by (auto simp: vm_mapping_def split: if_splits)
    then obtain t where "pt_table (mem s) root (va_path va) = Some t" "pt_entry (mem s) t (vpn_index va 0) \<noteq> 0"
      by (auto simp: pt_lookup_def Let_def split: option.splits if_splits)
    then show "\<exists>q t' i. vpath q \<and> length q = 2 \<and> pt_table (mem s) root q = Some t' \<and> i < 512 \<and> pt_entry (mem s) t' i \<noteq> 0"
      by (intro exI [of _ "va_path va"] exI [of _ t] exI [of _ "vpn_index va 0"]) simp
  qed
  finally show ?thesis by (auto simp: fun_eq_iff)
qed

section \<open>Creating and destroying\<close>

lemma for_each_neutral [neutral]:
  fixes f :: "'i \<Rightarrow> 'a hw_scheme \<Rightarrow> (unit \<times> 'a hw_scheme) res"
  assumes "\<And>i. irq_neutral (f i)"
  shows "irq_neutral (for_each f is)"
proof (induction "is")
  case Nil
  show ?case by (simp add: irq_neutral_def)
next
  case (Cons i "is")
  have "irq_neutral (\<lambda>s. bindE (f i s) (\<lambda>(x, s). for_each f is s))"
    by (rule neutral_bind [where g = "\<lambda>_. for_each f is"]) (rule assms, rule Cons)
  then show ?case by (simp add: irq_neutral_def)
qed

lemma free_children_neutral [neutral]:
  "irq_neutral (free_empty_table_children l t :: 'a pages_scheme \<Rightarrow> _)"
proof (induction l arbitrary: t)
  case 0
  show ?case by (simp add: irq_neutral_def)
next
  case (Suc l)
  let ?b = "\<lambda>i x s. bindE (free_empty_table_children l (pte_to_pa x) s) (\<lambda>(_, s).
      bindE (page_free (pte_to_pa x) s) (\<lambda>(_, s). Inr ((), store64 (pte_addr t (of_nat i)) 0 s)))"
  have st: "irq_neutral (\<lambda>s :: 'a pages_scheme. Inr ((), store64 a v s))" for a v
    by (rule neutral_after [OF neutral_return]) simp
  have b: "irq_neutral (?b i x :: 'a pages_scheme \<Rightarrow> _)" for i x
    by (intro neutral_bind Suc page_free_op_neutral st)
  have pb: "irq_neutral (\<lambda>s :: 'a pages_scheme. ?b i (load64 a s) s)" for i a
    by (rule neutral_param [where f = "?b i"], rule b) simp
  have "irq_neutral (\<lambda>s :: 'a pages_scheme. let pte = load64 (pte_addr t (of_nat i)) s in
       if \<not> pte_is_valid pte then Inr ((), s)
       else let child = pte_to_pa pte in
         bindE (free_empty_table_children l child s) (\<lambda>(_, s).
         bindE (page_free child s) (\<lambda>(_, s).
         Inr ((), store64 (pte_addr t (of_nat i)) 0 s))))" for i
    unfolding Let_def by (rule neutral_if [OF neutral_return pb]) simp
  then show ?case unfolding free_empty_table_children.simps by (rule for_each_neutral)
qed

lemma pt_wf_empty:
  assumes "root \<in> A" and "\<And>i. i < 512 \<Longrightarrow> pt_entry m root i = 0"
  shows "pt_wf A m root" and "pt_tables m root = {root}" and "pt_lookup m root va = None"
proof -
  have tab: "pt_table m root p = (if p = [] then Some root else None)" if "vpath p" for p
    using that assms(2) by (cases p) (simp_all add: vpath_def next_table_def)
  show "pt_wf A m root" using assms by (auto simp: pt_wf_def tab split: if_splits)
  show "pt_tables m root = {root}"
    using vpath_Nil by (auto simp: pt_tables_def tab split: if_splits intro!: exI [of _ "[]"])
  have "va_path va \<noteq> []" by (simp add: va_path_def)
  then show "pt_lookup m root va = None" by (simp add: pt_lookup_def tab)
qed

lemma vm_space_init_spec:
  assumes inv: "pages_inv s"
  shows "\<exists>r sp' s'. vm_space_init (Some sp) s = Inr ((r, Some sp'), s') \<and>
    (if free_pages s = 0 then r = VM_ERR_NO_MEMORY \<and> sp' = sp \<and> s' = s
     else r = VM_OK \<and> vm_inv (vm_root sp') s' \<and> vm_mapping (vm_root sp') s' = Map.empty \<and>
       vm_root sp' \<notin> allocated s \<and> allocated s' = insert (vm_root sp') (allocated s) \<and>
       pt_tables (mem s') (vm_root sp') = {vm_root sp'} \<and> pool_step s s' \<and>
       agree_on (- {vm_root sp'}) (mem s) (mem s'))"
proof -
  have eq: "vm_space_init (Some sp) s = bindE (page_alloc s) (\<lambda>(root, s).
      if root = 0 then Inr ((VM_ERR_NO_MEMORY, Some sp), s)
      else Inr ((VM_OK, Some (sp\<lparr>vm_root := root\<rparr>)), memory_zero root PAGE_SIZE s))"
    unfolding vm_space_init_def option.case
    by (intro irq_masked_neutral neutral_bind neutral_if neutral_return page_alloc_op_neutral
        neutral_after [OF neutral_return]) simp_all
  from inv show ?thesis
  proof (cases rule: page_alloc_outcome)
    case none
    then show ?thesis by (simp add: eq)
  next
    case (some p s1)
    let ?s = "memory_zero p PAGE_SIZE s1"
    have m: "mem ?s = fill_bytes (mem s) p 0 4096" using some(9) by simp
    have ent: "pt_entry (mem ?s) p i = 0" if "i < 512" for i unfolding m using some(3) that by (rule entry_fill)
    have "vm_inv p ?s" using pt_wf_empty(1) [OF _ ent, of "allocated ?s"] some by (simp add: vm_inv_def)
    moreover have "vm_mapping p ?s = Map.empty"
      using pt_wf_empty(3) [OF UNIV_I ent] by (simp add: vm_mapping_def fun_eq_iff)
    moreover have "pt_tables (mem ?s) p = {p}" using pt_wf_empty(2) [OF UNIV_I ent] .
    moreover have "agree_on (- {p}) (mem s) (mem ?s)" unfolding m using some(3) by (intro agree_on_fill) simp_all
    moreover have "pool_step s ?s" using some(8) pool_step_store(2) by (rule pool_step_trans)
    moreover have "free_pages s \<noteq> 0" using some(10) by auto
    ultimately show ?thesis using some by (simp add: eq)
  qed
qed

lemma vm_space_destroy_spec:
  assumes inv: "vm_inv (vm_root sp) s"
  shows "\<exists>r sp' s'. vm_space_destroy (Some sp) s = Inr ((r, Some sp'), s') \<and>
    (if vm_mapping (vm_root sp) s \<noteq> Map.empty then r = VM_ERR_BUSY \<and> sp' = sp \<and> s' = s
     else r = VM_OK \<and> vm_root sp' = 0 \<and> pages_inv s' \<and>
       allocated s' = allocated s - pt_tables (mem s) (vm_root sp) \<and> pool_step s s' \<and>
       agree_on (- pt_tables (mem s) (vm_root sp)) (mem s) (mem s'))"
proof -
  let ?root = "vm_root sp"
  have wf: "pt_wf (allocated s) (mem s) ?root" and pinv: "pages_inv s" using inv by (auto simp: vm_inv_def)
  have eq: "vm_space_destroy (Some sp) s =
      (if table_contains_leaf 2 (mem s) ?root then Inr ((VM_ERR_BUSY, Some sp), s)
       else bindE (free_empty_table_children 2 ?root s) (\<lambda>(_, s).
         bindE (page_free ?root s) (\<lambda>(_, s). Inr ((VM_OK, Some (sp\<lparr>vm_root := 0\<rparr>)), s))))"
    unfolding vm_space_destroy_def option.case SV39_LEVELS_def if_not_P [OF vm_inv_root(2) [OF inv]]
    by (subst irq_masked_neutral)
       (intro neutral_if neutral_bind neutral_return free_children_neutral page_free_op_neutral, simp_all)
  show ?thesis
  proof (cases "table_contains_leaf 2 (mem s) ?root")
    case True
    with contains_leaf_mapping [OF inv] show ?thesis by (simp add: eq)
  next
    case False
    have sub: "subtree (mem s) ?root [] \<subseteq> allocated s" using pt_tables_subset [OF wf] by (simp add: subtree_Nil)
    from free_empty_table_children_spec [OF wf frames_allocated(1) [OF pinv] vpath_Nil _ _ pinv sub, of 2 ?root]
    obtain s1 where s1: "free_empty_table_children 2 ?root s = Inr ((), s1)" "pages_inv s1" "pool_step s s1"
      "allocated s1 = allocated s - (pt_tables (mem s) ?root - {?root})"
      "agree_on (- pt_tables (mem s) ?root) (mem s) (mem s1)" by (auto simp: subtree_Nil)
    have root: "?root \<in> pt_tables (mem s) ?root" using subtree_mem [of "[]"] by (simp add: subtree_Nil)
    have "?root \<in> allocated s1" using s1(4) vm_inv_root(1) [OF inv] by blast
    moreover have "allocated s1 - {?root} = allocated s - pt_tables (mem s) ?root" using s1(4) root by blast
    ultimately obtain s2 where s2: "page_free ?root s1 = Inr ((), s2)" "pages_inv s2"
      "allocated s2 = allocated s - pt_tables (mem s) ?root"
      using pages.free_owned [OF s1(2), of ?root] by auto
    have "mem s2 = mem s1" using page_free_frame [OF s2(1)] by auto
    moreover have "pool_step s s2" using s1(3) pool_step_free [OF s2(1)] by (rule pool_step_trans)
    ultimately show ?thesis using False contains_leaf_mapping [OF inv] s1 s2 by (simp add: eq)
  qed
qed

end
