(* ===== verification/Vm_Contract.thy ===== *)
theory Vm_Contract
  imports Vm_Destroy
begin

text \<open>
  The interface of an address space as a locale, \<open>page_map\<close>, what follows from it for
  a client that maps several pages, its interpretation on the operations of
  \<^verbatim>\<open>vm.c\<close>, and the properties of that file.
\<close>

section \<open>The interface\<close>

locale page_map =
  fixes map_page :: "u64 \<Rightarrow> u64 \<Rightarrow> u64 \<Rightarrow> 's \<Rightarrow> (int \<times> 's) res"
    and unmap_page :: "u64 \<Rightarrow> 's \<Rightarrow> (int \<times> 's) res"
    and mapping :: "'s \<Rightarrow> u64 \<Rightarrow> (u64 \<times> u64) option"
    and inv :: "'s \<Rightarrow> bool"
    and valid_args :: "u64 \<Rightarrow> u64 \<Rightarrow> u64 \<Rightarrow> bool"
  assumes map_returns: "inv s \<Longrightarrow> \<exists>r s'. map_page va pa flags s = Inr (r, s') \<and> inv s'"
    and map_ok: "inv s \<Longrightarrow> map_page va pa flags s = Inr (VM_OK, s') \<Longrightarrow>
      valid_args va pa flags \<and> mapping s va = None \<and> mapping s' = (mapping s)(va \<mapsto> (pa, flags))"
    and map_fails: "inv s \<Longrightarrow> map_page va pa flags s = Inr (r, s') \<Longrightarrow> r \<noteq> VM_OK \<Longrightarrow> mapping s' = mapping s"
    and unmap_returns: "inv s \<Longrightarrow> \<exists>r s'. unmap_page va s = Inr (r, s') \<and> inv s'"
    and unmap_result: "inv s \<Longrightarrow> unmap_page va s = Inr (r, s') \<Longrightarrow>
      (if r = VM_OK then mapping s va \<noteq> None \<and> mapping s' = (mapping s)(va := None) else mapping s' = mapping s)"
    and unmap_mapped: "inv s \<Longrightarrow> mapping s va \<noteq> None \<Longrightarrow> \<exists>s'. unmap_page va s = Inr (VM_OK, s')"
begin

text \<open>Unmapping what was just mapped gives the old map back.\<close>

lemma map_unmap:
  assumes "inv s" and "map_page va pa flags s = Inr (VM_OK, s1)"
  shows "\<exists>s2. unmap_page va s1 = Inr (VM_OK, s2) \<and> inv s2 \<and> mapping s2 = mapping s"
proof -
  note ok = map_ok [OF assms]
  have inv1: "inv s1" using map_returns [OF assms(1), of va pa flags] assms(2) by auto
  have "mapping s1 va \<noteq> None" using ok by simp
  with unmap_mapped [OF inv1] obtain s2 where s2: "unmap_page va s1 = Inr (VM_OK, s2)" by blast
  with unmap_returns [OF inv1, of va] have "inv s2" by auto
  moreover have "mapping s2 = mapping s" using unmap_result [OF inv1 s2] ok by (auto simp: fun_eq_iff)
  ultimately show ?thesis using s2 by blast
qed

text \<open>Mapping a list of pages, stopping at the first failure.\<close>

primrec map_all :: "(u64 \<times> u64 \<times> u64) list \<Rightarrow> 's \<Rightarrow> (int \<times> 's) res" where
  "map_all [] s = Inr (VM_OK, s)"
| "map_all (x # xs) s = (case x of (va, pa, flags) \<Rightarrow>
     bindE (map_page va pa flags s) (\<lambda>(r, s). if r = VM_OK then map_all xs s else Inr (r, s)))"

lemma map_all_spec:
  assumes "inv s"
  shows "\<exists>r s'. map_all xs s = Inr (r, s') \<and> inv s' \<and>
    (\<exists>n \<le> length xs. (r = VM_OK \<longrightarrow> n = length xs) \<and> mapping s' = mapping s ++ map_of (rev (take n xs)))"
  using assms
proof (induction xs arbitrary: s)
  case Nil
  then show ?case by simp
next
  case (Cons x xs)
  obtain va pa flags where x: "x = (va, pa, flags)" by (cases x)
  obtain r s1 where r: "map_page va pa flags s = Inr (r, s1)" "inv s1" using map_returns [OF Cons.prems] by blast
  show ?case
  proof (cases "r = VM_OK")
    case True
    with r map_ok [OF Cons.prems] have m1: "mapping s1 = (mapping s)(va \<mapsto> (pa, flags))" by blast
    from Cons.IH [OF r(2)] obtain r' s' n where "map_all xs s1 = Inr (r', s')" "inv s'" "n \<le> length xs"
      "r' = VM_OK \<longrightarrow> n = length xs" "mapping s' = mapping s1 ++ map_of (rev (take n xs))" by blast
    then show ?thesis
      using r True m1 by (intro exI [of _ r'] exI [of _ s'] conjI exI [of _ "Suc n"]) (simp_all add: x map_add_assoc)
  next
    case False
    with r map_fails [OF Cons.prems r(1)] show ?thesis by (auto simp: x)
  qed
qed

end

section \<open>The implementation\<close>

lemma restored_vm:
  assumes "restored s s'" and "vm_inv root s"
  shows "vm_inv root s'" and "vm_mapping root s' = vm_mapping root s"
    and "pt_tables (mem s') root = pt_tables (mem s) root"
proof -
  have wf: "pt_wf (allocated s) (mem s) root" and fr: "frames (allocated s)"
    using assms(2) by (auto simp: vm_inv_def frames_allocated)
  have "agree_on (pt_tables (mem s) root) (mem s) (mem s')"
    using assms(1) pt_tables_subset [OF wf] by (auto simp: restored_def intro: agree_on_mono)
  note same = pt_agree [OF wf fr this]
  show "vm_inv root s'" using same(1) assms(1) by (simp add: vm_inv_def restored_def)
  show "vm_mapping root s' = vm_mapping root s" by (simp add: vm_mapping_def same(3) fun_eq_iff)
  show "pt_tables (mem s') root = pt_tables (mem s) root" by (rule same(2))
qed

lemma vm_step_inv: "vm_step root s s' \<Longrightarrow> vm_inv root s'"
  by (simp add: vm_step_def)

lemma vm_map_page_inv:
  assumes "vm_inv (vm_root sp) s"
  shows "\<exists>r s'. vm_map_page (Some sp) va pa flags s = Inr (r, s') \<and> vm_inv (vm_root sp) s' \<and>
    (if r = VM_OK then vm_args_ok va pa flags \<and> vm_mapping (vm_root sp) s va = None \<and>
       vm_mapping (vm_root sp) s' = (vm_mapping (vm_root sp) s)(va \<mapsto> (pa, flags))
     else vm_mapping (vm_root sp) s' = vm_mapping (vm_root sp) s)"
  by (rule ex_res_mono [OF vm_map_page_spec [OF assms]])
     (auto simp: restored_vm [OF _ assms] vm_step_inv vm_codes assms split: if_splits simp del: not_None_eq)

interpretation vm: page_map "vm_map_page (Some sp)" "vm_unmap_page (Some sp)" "vm_mapping (vm_root sp)"
  "vm_inv (vm_root sp)" vm_args_ok for sp
proof (unfold_locales, goal_cases)
  case (1 s va pa flags)
  with vm_map_page_inv [OF this, of va pa flags] show ?case by blast
next
  case (2 s va pa flags s')
  with vm_map_page_inv [OF 2(1), of va pa flags] show ?case by auto
next
  case (3 s va pa flags r s')
  with vm_map_page_inv [OF 3(1), of va pa flags] show ?case by auto
next
  case (4 s va)
  with vm_unmap_page_spec [OF 4, of va] show ?case by (auto simp: vm_step_inv split: if_splits)
next
  case (5 s va r s')
  with vm_unmap_page_spec [OF 5(1), of va] show ?case by (auto simp: vm_codes split: if_splits)
next
  case (6 s va)
  then have "va_is_canonical va \<and> page_aligned va" by (auto simp: vm_mapping_def split: if_splits)
  with 6 vm_unmap_page_spec [OF 6(1), of va] show ?case by auto
qed

section \<open>Properties\<close>

text \<open>
  C7: On a well-formed tree \<open>vm_map_page\<close> always returns. Bad arguments are
  refused; when fewer pages are free than tables are missing it reports
  \<open>VM_ERR_NO_MEMORY\<close> and the rollback has given every page back with the memory of
  all pages in use unchanged; an address that is mapped is refused; otherwise exactly the
  mapping of \<open>va\<close> is added, memory outside the tables is unchanged, and every
  page taken became a table.
\<close>

theorem vm_map_page_correct:
  assumes "vm_inv (vm_root sp) s"
  shows "\<exists>r s'. vm_map_page (Some sp) va pa flags s = Inr (r, s') \<and>
    (if \<not> (va_is_canonical va \<and> page_aligned va \<and> page_aligned pa \<and> flags_are_valid flags)
     then r = VM_ERR_INVALID \<and> s' = s
     else if unat (free_pages s) < vm_missing (vm_root sp) s va
     then r = VM_ERR_NO_MEMORY \<and> allocated s' = allocated s \<and> pages_inv s' \<and>
       agree_on (allocated s) (mem s) (mem s')
     else if vm_mapping (vm_root sp) s va \<noteq> None then r = VM_ERR_EXISTS \<and> s' = s
     else r = VM_OK \<and> vm_inv (vm_root sp) s' \<and>
       vm_mapping (vm_root sp) s' = (vm_mapping (vm_root sp) s)(va \<mapsto> (pa, flags)) \<and>
       agree_on (- pt_tables (mem s') (vm_root sp)) (mem s) (mem s') \<and>
       allocated s' - allocated s = pt_tables (mem s') (vm_root sp) - pt_tables (mem s) (vm_root sp))"
proof -
  have sub: "pt_tables (mem s) (vm_root sp) \<subseteq> allocated s"
    using assms pt_tables_subset by (auto simp: vm_inv_def)
  have a: "agree_on (allocated s) (mem s) (mem s')" if "restored s s'" for s'
    using that by (auto simp: restored_def intro: agree_on_mono)
  have b: "allocated s' - allocated s = pt_tables (mem s') (vm_root sp) - pt_tables (mem s) (vm_root sp)"
    if "vm_step (vm_root sp) s s'" for s'
    using that sub unfolding vm_step_def by blast
  show ?thesis
    using a b by (intro ex_res_mono [OF vm_map_page_spec [OF assms]])
      (auto simp: vm_args_ok_def restored_def vm_step_def split: if_splits)
qed

text \<open>
  C29: \<open>vm_unmap_page\<close> removes exactly the mapping of \<open>va\<close>: bad addresses and
  unmapped pages are refused without effect, and no page is taken or given back.
\<close>

theorem vm_unmap_page_correct:
  assumes "vm_inv (vm_root sp) s"
  shows "\<exists>r s'. vm_unmap_page (Some sp) va s = Inr (r, s') \<and>
    (if \<not> (va_is_canonical va \<and> page_aligned va) then r = VM_ERR_INVALID \<and> s' = s
     else if vm_mapping (vm_root sp) s va = None then r = VM_ERR_NOT_MAPPED \<and> s' = s
     else r = VM_OK \<and> vm_inv (vm_root sp) s' \<and>
       vm_mapping (vm_root sp) s' = (vm_mapping (vm_root sp) s)(va := None) \<and>
       agree_on (- pt_tables (mem s') (vm_root sp)) (mem s) (mem s'))"
  by (rule ex_res_mono [OF vm_unmap_page_spec [OF assms]]) (auto simp: vm_step_def split: if_splits)

text \<open>
  C31: What was mapped is what is translated. After a successful \<open>vm_map_page\<close>,
  \<open>vm_translate\<close> sends every address of the page to the same offset of the
  physical page, \<open>vm_get_mapping\<close> reports the flags given, and
  \<open>vm_unmap_page\<close> gives the previous mapping back.
\<close>

theorem vm_map_translate_roundtrip:
  assumes "vm_inv (vm_root sp) s" and "vm_map_page (Some sp) va pa flags s = Inr (VM_OK, s')"
    and "page_base a = va"
  shows "vm_translate (Some sp) a s' = Inr (pa + (a - va), s') \<and>
    vm_get_mapping (Some sp) a True s' = Inr ((VM_OK, pa + (a - va), flags), s') \<and>
    (\<exists>s''. vm_unmap_page (Some sp) va s' = Inr (VM_OK, s'') \<and>
       vm_mapping (vm_root sp) s'' = vm_mapping (vm_root sp) s)"
proof -
  note ok = vm.map_ok [OF assms(1,2)]
  have inv': "vm_inv (vm_root sp) s'" using vm.map_returns [OF assms(1), of va pa flags] assms(2) by auto
  have can: "va_is_canonical a" using ok assms(3) by (auto simp: vm_args_ok_def)
  have off: "a AND VM_PAGE_OFFSET_MASK = a - va"
  proof -
    have "VM_PAGE_OFFSET_MASK = mask 12" by (simp add: VM_PAGE_OFFSET_MASK_def mask_eq_exp_minus_1)
    moreover have "va = a - (a AND mask 12)"
      using and_not_mask_eq [of a 12] assms(3) by (simp only: page_base_def PAGE_MASK_mask)
    ultimately show ?thesis by simp
  qed
  have "pa AND (a AND mask 12) = 0"
    using ok by (auto simp: vm_args_ok_def page_aligned_bits bit_eq_iff bit_simps)
  then have "pa OR (a AND VM_PAGE_OFFSET_MASK) = pa + (a AND VM_PAGE_OFFSET_MASK)"
    by (intro disjunctive_add [symmetric])
       (auto simp: VM_PAGE_OFFSET_MASK_def mask_eq_exp_minus_1 bit_eq_iff bit_and_iff)
  with off have pa: "pa OR (a AND VM_PAGE_OFFSET_MASK) = pa + (a - va)" by simp
  show ?thesis
    using vm_translate_spec [OF inv', of a] vm_get_mapping_spec [OF inv', of a True] can ok assms(3) pa
      vm.map_unmap [OF assms(1,2)] by auto
qed

text \<open>
  \<open>vm_space_init\<close> makes an empty address space on one fresh page, or reports
  \<open>VM_ERR_NO_MEMORY\<close> and changes nothing when no page is free.
\<close>

theorem vm_space_init_correct:
  assumes "pages_inv s"
  shows "\<exists>r sp' s'. vm_space_init (Some sp) s = Inr ((r, Some sp'), s') \<and>
    (if free_pages s = 0 then r = VM_ERR_NO_MEMORY \<and> sp' = sp \<and> s' = s
     else r = VM_OK \<and> vm_inv (vm_root sp') s' \<and> vm_mapping (vm_root sp') s' = Map.empty \<and>
       vm_root sp' \<notin> allocated s \<and> allocated s' = insert (vm_root sp') (allocated s) \<and>
       agree_on (- {vm_root sp'}) (mem s) (mem s'))"
  using vm_space_init_spec [OF assms, of sp] by (elim ex_forward) (auto split: if_splits)

text \<open>
  C30: \<open>vm_space_destroy\<close> refuses with \<open>VM_ERR_BUSY\<close> exactly while some
  page is mapped; otherwise it gives back every table of the tree, the root included, and
  nothing else, with memory outside the tables unchanged.
\<close>

theorem vm_space_destroy_correct:
  assumes "vm_inv (vm_root sp) s"
  shows "\<exists>r sp' s'. vm_space_destroy (Some sp) s = Inr ((r, Some sp'), s') \<and>
    (if \<exists>va. vm_mapping (vm_root sp) s va \<noteq> None then r = VM_ERR_BUSY \<and> sp' = sp \<and> s' = s
     else r = VM_OK \<and> vm_root sp' = 0 \<and> pages_inv s' \<and>
       allocated s' = allocated s - pt_tables (mem s) (vm_root sp) \<and>
       agree_on (- pt_tables (mem s) (vm_root sp)) (mem s) (mem s'))"
proof -
  have "(\<exists>va. vm_mapping (vm_root sp) s va \<noteq> None) \<longleftrightarrow> vm_mapping (vm_root sp) s \<noteq> Map.empty"
    by (auto simp: fun_eq_iff)
  then show ?thesis
    using vm_space_destroy_spec [OF assms] by (elim ex_forward) (simp split: if_splits)
qed

section \<open>A concrete address space\<close>

abbreviation demo_flags :: u64 where
  "demo_flags \<equiv> VM_PTE_V OR VM_PTE_R OR VM_PTE_W"

lemma demo_args: "vm_args_ok 0x1000 0x80003000 demo_flags"
  by (simp add: vm_args_ok_def va_is_canonical_def SV39_TOP_BIT_def page_aligned_def PAGE_MASK_def
      PAGE_SIZE_def flags_are_valid_def vm_flags)

lemma missing_le: "missing l m t va \<le> l"
  by (induction l arbitrary: t) (auto split: option.split intro: le_SucI)

lemma demo_space:
  obtains sp s where "vm_space_init (Some \<lparr>vm_root = 0\<rparr>) demo_booted = Inr ((VM_OK, Some sp), s)"
    and "vm_inv (vm_root sp) s" and "vm_mapping (vm_root sp) s = Map.empty" and "unat (free_pages s) = 3"
    and "allocated s = {vm_root sp}"
proof -
  obtain r sp s where run: "vm_space_init (Some \<lparr>vm_root = 0\<rparr>) demo_booted = Inr ((r, Some sp), s)"
    and res: "r = VM_OK" "vm_inv (vm_root sp) s" "vm_mapping (vm_root sp) s = Map.empty"
    "vm_root sp \<notin> allocated demo_booted" "allocated s = insert (vm_root sp) (allocated demo_booted)"
    "pool_step demo_booted s"
    using vm_space_init_spec [OF demo_booted_inv, of "\<lparr>vm_root = 0\<rparr>"] by (auto simp: demo_booted_fields)
  have al: "allocated demo_booted = {}" by (simp add: allocated_def demo_booted_used)
  have "vm_root sp \<in> managed_frames demo_booted"
    using vm_inv_root(1) [OF res(2)] allocated_subset pool_step_fields(1) [OF res(6)] by auto
  then have "card (managed_frames s - allocated s) = card (managed_frames demo_booted - allocated demo_booted) - 1"
    using pages.frames_finite [of demo_booted] pool_step_fields(1) [OF res(6)] res(5) al by simp
  then have "unat (free_pages s) = 3"
    using managed_frames_card [OF demo_booted_inv] managed_frames_card [of s] res(2)
    by (simp add: vm_inv_def demo_booted_fields)
  with run res al show thesis by (intro that) auto
qed

lemma demo_mapped:
  obtains sp and s s' :: pages where "vm_inv (vm_root sp) s" and "vm_mapping (vm_root sp) s = Map.empty"
    and "vm_map_page (Some sp) 0x1000 0x80003000 demo_flags s = Inr (VM_OK, s')"
    and "vm_inv (vm_root sp) s'" and "vm_mapping (vm_root sp) s' = [0x1000 \<mapsto> (0x80003000, demo_flags)]"
proof -
  obtain sp s where s0: "vm_space_init (Some \<lparr>vm_root = 0\<rparr>) demo_booted = Inr ((VM_OK, Some sp), s)"
    and s: "vm_inv (vm_root sp) s" "vm_mapping (vm_root sp) s = Map.empty" "unat (free_pages s) = 3"
    and sa: "allocated s = {vm_root sp}"
    by (rule demo_space)
  have "\<not> unat (free_pages s) < vm_missing (vm_root sp) s 0x1000"
    using missing_le [of 2 "mem s" "vm_root sp" "0x1000"] s(3) by (simp add: vm_missing_def)
  with vm_map_page_spec [OF s(1), of "0x1000" "0x80003000" demo_flags] demo_args s
  obtain s' where "vm_map_page (Some sp) 0x1000 0x80003000 demo_flags s = Inr (VM_OK, s')"
    "vm_step (vm_root sp) s s'" "vm_mapping (vm_root sp) s' = [0x1000 \<mapsto> (0x80003000, demo_flags)]" by auto
  with s show thesis by (intro that) (auto simp: vm_step_inv)
qed

theorem vm_map_page_correct_witness:
  "\<exists>sp (s :: pages) s'. vm_inv (vm_root sp) s \<and> vm_map_page (Some sp) 0x1000 0x80003000 demo_flags s = Inr (VM_OK, s') \<and>
     vm_mapping (vm_root sp) s' 0x1000 = Some (0x80003000, demo_flags)"
proof -
  obtain sp s where s0: "vm_space_init (Some \<lparr>vm_root = 0\<rparr>) demo_booted = Inr ((VM_OK, Some sp), s)"
    and s: "vm_inv (vm_root sp) s" "vm_mapping (vm_root sp) s = Map.empty" "unat (free_pages s) = 3"
    and sa: "allocated s = {vm_root sp}"
    by (rule demo_space)
  have "\<not> unat (free_pages s) < vm_missing (vm_root sp) s 0x1000"
    using missing_le [of 2 "mem s" "vm_root sp" "0x1000"] s(3) by (simp add: vm_missing_def)
  with vm_map_page_correct [OF s(1), of "0x1000" "0x80003000" demo_flags] demo_args s
  have "\<exists>s'. vm_map_page (Some sp) 0x1000 0x80003000 demo_flags s = Inr (VM_OK, s') \<and>
     vm_mapping (vm_root sp) s' 0x1000 = Some (0x80003000, demo_flags)"
    by (auto simp: vm_args_ok_def)
  with s(1) show ?thesis by blast
qed

theorem vm_unmap_page_correct_witness:
  "\<exists>sp (s :: pages) s'. vm_inv (vm_root sp) s \<and> vm_mapping (vm_root sp) s 0x1000 \<noteq> None \<and>
     vm_unmap_page (Some sp) 0x1000 s = Inr (VM_OK, s') \<and> vm_mapping (vm_root sp) s' = Map.empty"
proof -
  obtain sp and s s' :: pages where s: "vm_inv (vm_root sp) s" "vm_mapping (vm_root sp) s = Map.empty"
    "vm_map_page (Some sp) 0x1000 0x80003000 demo_flags s = Inr (VM_OK, s')"
    and s': "vm_inv (vm_root sp) s'" "vm_mapping (vm_root sp) s' = [0x1000 \<mapsto> (0x80003000, demo_flags)]"
    by (rule demo_mapped)
  from s' vm_unmap_page_correct [of sp s' "0x1000"] demo_args
  have "\<exists>s''. vm_unmap_page (Some sp) 0x1000 s' = Inr (VM_OK, s'') \<and> vm_mapping (vm_root sp) s'' = Map.empty"
    by (auto simp: vm_args_ok_def)
  moreover have "vm_mapping (vm_root sp) s' 0x1000 \<noteq> None" using s'(2) by simp
  ultimately show ?thesis using s'(1) by blast
qed

theorem vm_map_translate_roundtrip_witness:
  "\<exists>sp (s :: pages). vm_translate (Some sp) 0x1234 s = Inr (0x80003234, s)"
proof -
  obtain sp and s s' :: pages where s: "vm_inv (vm_root sp) s" "vm_mapping (vm_root sp) s = Map.empty"
    "vm_map_page (Some sp) 0x1000 0x80003000 demo_flags s = Inr (VM_OK, s')"
    and s': "vm_inv (vm_root sp) s'" "vm_mapping (vm_root sp) s' = [0x1000 \<mapsto> (0x80003000, demo_flags)]"
    by (rule demo_mapped)
  from vm_map_translate_roundtrip [OF s(1,3), of "0x1234"]
  have "vm_translate (Some sp) 0x1234 s' = Inr (0x80003234, s')"
    by (simp add: page_base_def PAGE_MASK_def PAGE_SIZE_def)
  then show ?thesis by blast
qed

theorem vm_space_init_correct_witness:
  "pages_inv demo_booted \<and> (\<exists>sp s'. vm_space_init (Some \<lparr>vm_root = 0\<rparr>) demo_booted = Inr ((VM_OK, Some sp), s') \<and>
     vm_mapping (vm_root sp) s' = Map.empty \<and> allocated s' = {vm_root sp})"
  using vm_space_init_correct [OF demo_booted_inv, of "\<lparr>vm_root = 0\<rparr>"] demo_booted_inv
  by (auto simp: demo_booted_fields allocated_def demo_booted_used)

theorem vm_space_destroy_correct_witness:
  "(\<exists>sp sp' (s :: pages) s'. vm_space_destroy (Some sp) s = Inr ((VM_OK, Some sp'), s') \<and> allocated s = {vm_root sp} \<and>
     allocated s' = {}) \<and>
   (\<exists>sp (s :: pages). vm_space_destroy (Some sp) s = Inr ((VM_ERR_BUSY, Some sp), s))"
proof
  obtain sp s where s0: "vm_space_init (Some \<lparr>vm_root = 0\<rparr>) demo_booted = Inr ((VM_OK, Some sp), s)"
    and s: "vm_inv (vm_root sp) s" "vm_mapping (vm_root sp) s = Map.empty" "unat (free_pages s) = 3"
    and sa: "allocated s = {vm_root sp}"
    by (rule demo_space)
  have "vm_root sp \<in> pt_tables (mem s) (vm_root sp)" using subtree_mem [of "[]"] by (simp add: subtree_Nil)
  with vm_space_destroy_correct [OF s(1)] s(2) sa
  show "\<exists>sp sp' (s :: pages) s'. vm_space_destroy (Some sp) s = Inr ((VM_OK, Some sp'), s') \<and> allocated s = {vm_root sp} \<and>
     allocated s' = {}" by fastforce
next
  obtain sp and s s' :: pages where s: "vm_inv (vm_root sp) s" "vm_mapping (vm_root sp) s = Map.empty"
    "vm_map_page (Some sp) 0x1000 0x80003000 demo_flags s = Inr (VM_OK, s')"
    and s': "vm_inv (vm_root sp) s'" "vm_mapping (vm_root sp) s' = [0x1000 \<mapsto> (0x80003000, demo_flags)]"
    by (rule demo_mapped)
  from s' vm_space_destroy_correct [of sp s']
  have "vm_space_destroy (Some sp) s' = Inr ((VM_ERR_BUSY, Some sp), s')" by (auto split: if_splits)
  then show "\<exists>sp (s :: pages). vm_space_destroy (Some sp) s = Inr ((VM_ERR_BUSY, Some sp), s)" by blast
qed

end
