(* ===== verification/User_Space.thy ===== *)
theory User_Space
  imports Vm_Contract
begin

text \<open>
  The layout of user address spaces, \<^verbatim>\<open>kernel/memory/user_space.c\<close>: which
  virtual ranges and which physical pages user mappings may use, and the mappings every
  task gets. The theory shows that a user mapping never exposes device registers or memory
  outside the managed pages.
\<close>

section \<open>Layout and operations\<close>

definition USER_SPACE_CLINT_BASE :: u64 where "USER_SPACE_CLINT_BASE = 0x02000000"
definition USER_SPACE_CLINT_END :: u64 where "USER_SPACE_CLINT_END = 0x02010000"
definition USER_SPACE_UART0_BASE :: u64 where "USER_SPACE_UART0_BASE = 0x10000000"
definition USER_SPACE_UART0_END :: u64 where "USER_SPACE_UART0_END = USER_SPACE_UART0_BASE + PAGE_SIZE"
definition USER_SPACE_BASE :: u64 where "USER_SPACE_BASE = PAGE_SIZE"
definition USER_SPACE_CODE_BASE :: u64 where "USER_SPACE_CODE_BASE = USER_SPACE_BASE"
definition USER_SPACE_STACK_TOP :: u64 where "USER_SPACE_STACK_TOP = 0x40000000"
definition USER_SPACE_STACK_BASE :: u64 where "USER_SPACE_STACK_BASE = USER_SPACE_STACK_TOP - PAGE_SIZE"
definition USER_SPACE_TOP :: u64 where "USER_SPACE_TOP = USER_SPACE_STACK_TOP - 1"
definition USER_SPACE_SV39_MAXVA :: u64 where "USER_SPACE_SV39_MAXVA = 0x4000000000"
definition USER_TRAMPOLINE_VA :: u64 where "USER_TRAMPOLINE_VA = USER_SPACE_SV39_MAXVA - PAGE_SIZE"
definition USER_TRAP_CONTEXT_VA :: u64 where "USER_TRAP_CONTEXT_VA = USER_TRAMPOLINE_VA - PAGE_SIZE"

lemmas user_layout = USER_SPACE_CLINT_BASE_def USER_SPACE_CLINT_END_def USER_SPACE_UART0_BASE_def
  USER_SPACE_UART0_END_def USER_SPACE_BASE_def USER_SPACE_CODE_BASE_def USER_SPACE_STACK_TOP_def
  USER_SPACE_STACK_BASE_def USER_SPACE_TOP_def USER_SPACE_SV39_MAXVA_def USER_TRAMPOLINE_VA_def
  USER_TRAP_CONTEXT_VA_def PAGE_SIZE_def

definition ranges_overlap :: "u64 \<Rightarrow> u64 \<Rightarrow> u64 \<Rightarrow> u64 \<Rightarrow> bool" where
  "ranges_overlap a_start a_end b_start b_end \<longleftrightarrow> a_start < b_end \<and> b_start < a_end"

definition range_overlaps_platform_mmio :: "u64 \<Rightarrow> u64 \<Rightarrow> bool" where
  "range_overlaps_platform_mmio va end' \<longleftrightarrow>
     ranges_overlap va end' USER_SPACE_CLINT_BASE USER_SPACE_CLINT_END \<or>
     ranges_overlap va end' USER_SPACE_UART0_BASE USER_SPACE_UART0_END"

definition user_pa_range_is_valid :: "u64 \<Rightarrow> u64 \<Rightarrow> 'a pages_scheme \<Rightarrow> bool" where
  "user_pa_range_is_valid pa sz s =
     (let end' = pa + sz in
      if sz = 0 \<or> end' < pa then False
      else pa \<ge> page_managed_start s \<and> end' \<le> page_managed_end s)"

definition user_space_va_range_is_valid :: "u64 \<Rightarrow> u64 \<Rightarrow> bool" where
  "user_space_va_range_is_valid va sz =
     (let end' = va + sz in
      if sz = 0 \<or> end' < va then False
      else if va < USER_SPACE_BASE \<or> end' - 1 > USER_SPACE_TOP then False
      else \<not> range_overlaps_platform_mmio va end')"

definition user_space_map_page ::
  "vm_space option \<Rightarrow> u64 \<Rightarrow> u64 \<Rightarrow> u64 \<Rightarrow> 'a pages_scheme \<Rightarrow> (int \<times> 'a pages_scheme) res"
where
  "user_space_map_page space va pa flags s =
     (if \<not> user_space_va_range_is_valid va PAGE_SIZE \<or> \<not> user_pa_range_is_valid pa PAGE_SIZE s \<or>
         flags AND VM_PTE_U = 0 \<or> flags AND VM_PTE_G \<noteq> 0
      then Inr (VM_ERR_INVALID, s)
      else vm_map_page space va pa flags s)"

definition user_space_map_code_page :: "vm_space option \<Rightarrow> u64 \<Rightarrow> 'a pages_scheme \<Rightarrow> (int \<times> 'a pages_scheme) res"
where
  "user_space_map_code_page space pa s =
     user_space_map_page space USER_SPACE_CODE_BASE pa
       (VM_PTE_V OR VM_PTE_R OR VM_PTE_X OR VM_PTE_U OR VM_PTE_A) s"

definition user_space_map_stack_page :: "vm_space option \<Rightarrow> u64 \<Rightarrow> 'a pages_scheme \<Rightarrow> (int \<times> 'a pages_scheme) res"
where
  "user_space_map_stack_page space pa s =
     user_space_map_page space USER_SPACE_STACK_BASE pa
       (VM_PTE_V OR VM_PTE_R OR VM_PTE_W OR VM_PTE_U OR VM_PTE_A OR VM_PTE_D) s"

definition user_space_map_trap_support ::
  "vm_space option \<Rightarrow> u64 \<Rightarrow> 'a pages_scheme \<Rightarrow> (int \<times> 'a pages_scheme) res"
where
  "user_space_map_trap_support space trap_context_pa s =
     (let tstart = trampoline_start (link s); tend = trampoline_end (link s) in
      if space = None \<or> vm_root (the space) = 0 \<or> tstart = tend \<or> tend - tstart > PAGE_SIZE \<or>
         tstart AND PAGE_MASK \<noteq> 0 \<or> \<not> user_pa_range_is_valid trap_context_pa PAGE_SIZE s
      then Inr (VM_ERR_INVALID, s)
      else let trampoline_flags = VM_PTE_V OR VM_PTE_R OR VM_PTE_X OR VM_PTE_A;
               context_flags = VM_PTE_V OR VM_PTE_R OR VM_PTE_W OR VM_PTE_A OR VM_PTE_D
      in bindE (vm_map_page space USER_TRAMPOLINE_VA tstart trampoline_flags s) (\<lambda>(result, s).
         if result \<noteq> VM_OK then Inr (result, s)
         else bindE (vm_map_page space USER_TRAP_CONTEXT_VA trap_context_pa context_flags s) (\<lambda>(result, s).
           if result \<noteq> VM_OK
           then bindE (vm_unmap_page space USER_TRAMPOLINE_VA s) (\<lambda>(_, s). Inr (result, s))
           else Inr (VM_OK, s))))"

section \<open>Which ranges are allowed\<close>

lemma user_va_range_valid:
  assumes "user_space_va_range_is_valid va sz" and "x < sz"
  shows "USER_SPACE_BASE \<le> va + x" and "va + x \<le> USER_SPACE_TOP"
    and "\<not> (USER_SPACE_CLINT_BASE \<le> va + x \<and> va + x < USER_SPACE_CLINT_END)"
    and "\<not> (USER_SPACE_UART0_BASE \<le> va + x \<and> va + x < USER_SPACE_UART0_END)"
proof -
  have nz: "0 < unat sz" and nw: "va \<le> va + sz" and lo: "USER_SPACE_BASE \<le> va"
    and hi: "va + sz - 1 \<le> USER_SPACE_TOP" and mmio: "\<not> range_overlaps_platform_mmio va (va + sz)"
    using assms(1) by (auto simp: user_space_va_range_is_valid_def Let_def not_less unat_gt_0 split: if_splits)
  have x: "unat x < unat sz" using assms(2) by (simp add: word_less_nat_alt)
  have sum: "unat (va + sz) = unat va + unat sz"
    using nw by (metis unat_plus_simple)
  have "va \<le> va + x"
    using sum x unat64_lt [of "va + sz"] by (simp add: word_le_nat_alt unat_word_ariths)
  then have ux: "unat (va + x) = unat va + unat x" by (metis unat_plus_simple)
  have "va + sz \<noteq> 0" using sum nz by (auto simp: word_unat_eq_iff)
  then have "unat (va + sz - 1) = unat va + unat sz - 1" using sum by (simp add: unat_minus_one)
  with hi x ux show "va + x \<le> USER_SPACE_TOP" by (simp add: word_le_nat_alt)
  show "USER_SPACE_BASE \<le> va + x" using lo ux by (simp add: word_le_nat_alt)
  show "\<not> (USER_SPACE_CLINT_BASE \<le> va + x \<and> va + x < USER_SPACE_CLINT_END)"
    "\<not> (USER_SPACE_UART0_BASE \<le> va + x \<and> va + x < USER_SPACE_UART0_END)"
    using mmio sum ux x
    by (auto simp: range_overlaps_platform_mmio_def ranges_overlap_def word_le_nat_alt word_less_nat_alt)
qed

lemma user_pa_page_valid:
  assumes inv: "pages_inv s" and "user_pa_range_is_valid pa PAGE_SIZE s" and "page_aligned pa"
  shows "pa \<in> managed_frames s"
proof -
  have le: "pa \<le> pa + PAGE_SIZE" "managed_start s \<le> pa" "pa + PAGE_SIZE \<le> managed_end s"
    using assms(2) by (auto simp: user_pa_range_is_valid_def page_managed_start_def page_managed_end_def
        Let_def not_less split: if_splits)
  then have "unat (pa + PAGE_SIZE) = unat pa + 4096" by (metis unat_PAGE_SIZE unat_plus_simple)
  then have "pa < managed_end s" using le(3) by (simp add: word_less_nat_alt word_le_nat_alt)
  from managed_framesI [OF inv _ le(2) this] assms(3) show ?thesis
    by (metis managed_frames_def image_eqI mem_Collect_eq page_aligned_def)
qed

lemma managed_frame_pa_valid:
  assumes inv: "pages_inv s" and p: "p \<in> managed_frames s"
  shows "user_pa_range_is_valid p PAGE_SIZE s" and "page_aligned p"
proof -
  obtain i where i: "i < total_pages s" "p = page_addr_from_index s i" using p by (auto simp: managed_frames_def)
  have "unat p + 4096 \<le> unat (managed_end s)"
    using unat_page_addr [OF inv i(1)] i inv by (simp add: pages_inv_def word_less_nat_alt)
  moreover from this have "unat (p + PAGE_SIZE) = unat p + 4096"
    using unat64_lt [of "managed_end s"] by (simp add: unat_word_ariths)
  ultimately show "user_pa_range_is_valid p PAGE_SIZE s"
    using managed_frame_props(3) [OF inv p]
    by (simp add: user_pa_range_is_valid_def page_managed_start_def page_managed_end_def Let_def
        word_le_nat_alt word_less_nat_alt PAGE_SIZE_def)
  show "page_aligned p" using managed_frame_props(2) [OF inv p] by (simp add: page_aligned_mod)
qed

section \<open>What a series of mappings leaves alone\<close>

text \<open>
  A step of an address space: pages that are not tables stay owned and keep their
  contents; only tables are added.
\<close>

definition vm_frame :: "u64 \<Rightarrow> 'a pages_scheme \<Rightarrow> 'a pages_scheme \<Rightarrow> bool" where
  "vm_frame root s s' \<longleftrightarrow> vm_inv root s' \<and> pool_step s s' \<and>
     pt_tables (mem s) root \<subseteq> pt_tables (mem s') root \<and>
     allocated s' - pt_tables (mem s') root = allocated s - pt_tables (mem s) root \<and>
     agree_on (- (pt_tables (mem s') root \<union> (managed_frames s - allocated s))) (mem s) (mem s')"

lemma vm_tables_owned: "vm_inv root s \<Longrightarrow> pt_tables (mem s) root \<subseteq> allocated s"
  by (auto simp: vm_inv_def dest: pt_tables_subset)

lemma vm_frame_refl: "vm_inv root s \<Longrightarrow> vm_frame root s s"
  by (simp add: vm_frame_def)

lemma vm_frame_trans:
  assumes "vm_frame root s s1" and "vm_frame root s1 s2" and "vm_inv root s"
  shows "vm_frame root s s2"
proof -
  have ps: "pool_step s s1" and inv1: "vm_inv root s1" using assms(1) by (auto simp: vm_frame_def)
  have "allocated s \<subseteq> allocated s1"
    using assms(1) vm_tables_owned [OF inv1] by (auto simp: vm_frame_def)
  then have free: "managed_frames s1 - allocated s1 \<subseteq> managed_frames s - allocated s"
    using pool_step_fields(1) [OF ps] by auto
  let ?X = "- (pt_tables (mem s2) root \<union> (managed_frames s - allocated s))"
  have "agree_on ?X (mem s) (mem s1)" and "agree_on ?X (mem s1) (mem s2)"
    using assms free by (auto simp: vm_frame_def intro: agree_on_mono)
  then have "agree_on ?X (mem s) (mem s2)" by (rule agree_on_trans)
  with assms show ?thesis by (auto simp: vm_frame_def intro: pool_step_trans)
qed

lemma vm_frame_step:
  assumes "vm_step root s s'" and "vm_inv root s"
  shows "vm_frame root s s'"
  using assms vm_tables_owned [OF assms(2)] unfolding vm_step_def vm_frame_def
  by (auto intro: agree_on_mono)

lemma vm_frame_restored:
  assumes "restored s s'" and "vm_inv root s"
  shows "vm_frame root s s'"
  using assms restored_vm [OF assms] unfolding restored_def vm_frame_def
  by (auto intro: agree_on_mono)

lemma vm_map_page_frame:
  assumes "vm_inv (vm_root sp) s"
  shows "returns (vm_map_page (Some sp) va pa flags s) (\<lambda>r s'. vm_frame (vm_root sp) s s' \<and>
    vm_mapping (vm_root sp) s' =
      (if r = VM_OK then (vm_mapping (vm_root sp) s)(va \<mapsto> (pa, flags)) else vm_mapping (vm_root sp) s))"
  unfolding returns_def using assms
  by (intro ex_res_mono [OF vm_map_page_spec [OF assms]])
     (auto simp: vm_frame_refl vm_frame_step vm_frame_restored restored_vm vm_codes split: if_splits)

lemma vm_unmap_page_frame:
  assumes "vm_inv (vm_root sp) s"
  shows "returns (vm_unmap_page (Some sp) va s) (\<lambda>r s'. vm_frame (vm_root sp) s s' \<and>
    vm_mapping (vm_root sp) s' = (vm_mapping (vm_root sp) s)(va := None))"
  unfolding returns_def using assms
  by (intro ex_res_mono [OF vm_unmap_page_spec [OF assms]])
     (auto simp: vm_frame_refl vm_frame_step vm_codes fun_eq_iff vm_mapping_def split: if_splits)

lemma user_space_map_page_frame:
  assumes "vm_inv (vm_root sp) s"
  shows "returns (user_space_map_page (Some sp) va pa flags s) (\<lambda>r s'. vm_frame (vm_root sp) s s' \<and>
    vm_mapping (vm_root sp) s' =
      (if r = VM_OK then (vm_mapping (vm_root sp) s)(va \<mapsto> (pa, flags)) else vm_mapping (vm_root sp) s))"
  using assms vm_map_page_frame [OF assms] by (auto simp: user_space_map_page_def vm_frame_refl vm_codes)

lemma vm_frame_inv: "vm_frame root s s' \<Longrightarrow> vm_inv root s'"
  by (simp add: vm_frame_def)

definition trampoline_flags :: u64 where
  "trampoline_flags = VM_PTE_V OR VM_PTE_R OR VM_PTE_X OR VM_PTE_A"

definition context_flags :: u64 where
  "context_flags = VM_PTE_V OR VM_PTE_R OR VM_PTE_W OR VM_PTE_A OR VM_PTE_D"

text \<open>On failure the trampoline is not left mapped.\<close>

lemma user_space_map_trap_support_frame:
  assumes inv: "vm_inv (vm_root sp) s" and fresh: "vm_mapping (vm_root sp) s USER_TRAMPOLINE_VA = None"
  shows "returns (user_space_map_trap_support (Some sp) ctx s) (\<lambda>r s'. vm_frame (vm_root sp) s s' \<and>
    vm_mapping (vm_root sp) s' =
      (if r = VM_OK
       then (vm_mapping (vm_root sp) s)(USER_TRAMPOLINE_VA \<mapsto> (trampoline_start (link s), trampoline_flags),
              USER_TRAP_CONTEXT_VA \<mapsto> (ctx, context_flags))
       else vm_mapping (vm_root sp) s))"
proof -
  let ?t = "trampoline_start (link s)"
  let ?bad = "?t = trampoline_end (link s) \<or> trampoline_end (link s) - ?t > PAGE_SIZE \<or> ?t AND PAGE_MASK \<noteq> 0 \<or>
    \<not> user_pa_range_is_valid ctx PAGE_SIZE s"
  show ?thesis
  proof (cases ?bad)
    case True
    then show ?thesis
      using vm_inv_root(2) [OF inv] by (auto simp: user_space_map_trap_support_def Let_def inv vm_frame_refl vm_codes)
  next
    case False
    then have eq: "user_space_map_trap_support (Some sp) ctx s =
      bindE (vm_map_page (Some sp) USER_TRAMPOLINE_VA ?t trampoline_flags s) (\<lambda>(result, s).
         if result \<noteq> VM_OK then Inr (result, s)
         else bindE (vm_map_page (Some sp) USER_TRAP_CONTEXT_VA ctx context_flags s) (\<lambda>(result, s).
           if result \<noteq> VM_OK
           then bindE (vm_unmap_page (Some sp) USER_TRAMPOLINE_VA s) (\<lambda>(_, s). Inr (result, s))
           else Inr (VM_OK, s)))"
      using vm_inv_root(2) [OF inv] unfolding trampoline_flags_def context_flags_def
      by (simp add: user_space_map_trap_support_def Let_def)
    show ?thesis
      unfolding eq returns_bind
    proof (rule returns_mono [OF vm_map_page_frame [OF inv]])
      fix r s1
      assume 1: "vm_frame (vm_root sp) s s1 \<and> vm_mapping (vm_root sp) s1 = (if r = VM_OK
        then (vm_mapping (vm_root sp) s)(USER_TRAMPOLINE_VA \<mapsto> (?t, trampoline_flags))
        else vm_mapping (vm_root sp) s)"
      then have inv1: "vm_inv (vm_root sp) s1" by (simp add: vm_frame_def)
      show "returns (if r \<noteq> VM_OK then Inr (r, s1)
         else bindE (vm_map_page (Some sp) USER_TRAP_CONTEXT_VA ctx context_flags s1) (\<lambda>(result, s).
           if result \<noteq> VM_OK
           then bindE (vm_unmap_page (Some sp) USER_TRAMPOLINE_VA s) (\<lambda>(_, s). Inr (result, s))
           else Inr (VM_OK, s))) (\<lambda>r s'. vm_frame (vm_root sp) s s' \<and> vm_mapping (vm_root sp) s' =
        (if r = VM_OK
         then (vm_mapping (vm_root sp) s)(USER_TRAMPOLINE_VA \<mapsto> (?t, trampoline_flags),
              USER_TRAP_CONTEXT_VA \<mapsto> (ctx, context_flags))
         else vm_mapping (vm_root sp) s))"
      proof (cases "r = VM_OK")
        case False
        with 1 show ?thesis by simp
      next
        case True
        have "returns (vm_map_page (Some sp) USER_TRAP_CONTEXT_VA ctx context_flags s1) (\<lambda>r s2.
          returns (if r \<noteq> VM_OK then bindE (vm_unmap_page (Some sp) USER_TRAMPOLINE_VA s2) (\<lambda>(_, s). Inr (r, s))
           else Inr (VM_OK, s2)) (\<lambda>r s'. vm_frame (vm_root sp) s s' \<and> vm_mapping (vm_root sp) s' =
            (if r = VM_OK
             then (vm_mapping (vm_root sp) s)(USER_TRAMPOLINE_VA \<mapsto> (?t, trampoline_flags),
                  USER_TRAP_CONTEXT_VA \<mapsto> (ctx, context_flags))
             else vm_mapping (vm_root sp) s)))"
        proof (rule returns_mono [OF vm_map_page_frame [OF inv1]])
          fix r2 s2
          assume 2: "vm_frame (vm_root sp) s1 s2 \<and> vm_mapping (vm_root sp) s2 = (if r2 = VM_OK
            then (vm_mapping (vm_root sp) s1)(USER_TRAP_CONTEXT_VA \<mapsto> (ctx, context_flags))
            else vm_mapping (vm_root sp) s1)"
          then have inv2: "vm_inv (vm_root sp) s2" and f2: "vm_frame (vm_root sp) s s2"
            using 1 inv by (auto simp: vm_frame_inv intro: vm_frame_trans)
          show "returns (if r2 \<noteq> VM_OK then bindE (vm_unmap_page (Some sp) USER_TRAMPOLINE_VA s2) (\<lambda>(_, s). Inr (r2, s))
             else Inr (VM_OK, s2)) (\<lambda>r s'. vm_frame (vm_root sp) s s' \<and> vm_mapping (vm_root sp) s' =
              (if r = VM_OK
               then (vm_mapping (vm_root sp) s)(USER_TRAMPOLINE_VA \<mapsto> (?t, trampoline_flags),
                    USER_TRAP_CONTEXT_VA \<mapsto> (ctx, context_flags))
               else vm_mapping (vm_root sp) s))"
            using 1 2 True f2 fresh inv returns_mono [OF vm_unmap_page_frame [OF inv2, of USER_TRAMPOLINE_VA]]
            by (auto simp: fun_upd_idem intro!: returns_mono [OF vm_unmap_page_frame [OF inv2]] intro: vm_frame_trans)
        qed
        with True show ?thesis by simp
      qed
    qed
  qed
qed

section \<open>Properties\<close>

text \<open>
  C15: A user mapping is confined. When \<open>user_space_map_page\<close> succeeds, every
  address of the page lies in the user range and outside the registers of the interrupt
  controller and the serial port, the physical page is one the allocator manages, the
  entry is a user entry and not a global one; when it does not, no mapping changes.
\<close>

theorem user_space_map_page_confined:
  assumes "vm_inv (vm_root sp) s"
  shows "\<exists>r s'. user_space_map_page (Some sp) va pa flags s = Inr (r, s') \<and> vm_inv (vm_root sp) s' \<and>
    (if r = VM_OK
     then vm_mapping (vm_root sp) s' = (vm_mapping (vm_root sp) s)(va \<mapsto> (pa, flags)) \<and>
       pa \<in> managed_frames s \<and> flags AND VM_PTE_U \<noteq> 0 \<and> flags AND VM_PTE_G = 0 \<and>
       (\<forall>x<PAGE_SIZE. USER_SPACE_BASE \<le> va + x \<and> va + x \<le> USER_SPACE_TOP \<and>
          \<not> (USER_SPACE_CLINT_BASE \<le> va + x \<and> va + x < USER_SPACE_CLINT_END) \<and>
          \<not> (USER_SPACE_UART0_BASE \<le> va + x \<and> va + x < USER_SPACE_UART0_END))
     else vm_mapping (vm_root sp) s' = vm_mapping (vm_root sp) s)"
proof (cases "user_space_va_range_is_valid va PAGE_SIZE \<and> user_pa_range_is_valid pa PAGE_SIZE s \<and>
    flags AND VM_PTE_U \<noteq> 0 \<and> flags AND VM_PTE_G = 0")
  case True
  have inv: "pages_inv s" using assms by (simp add: vm_inv_def)
  note range = user_va_range_valid [of va PAGE_SIZE]
  have pa: "page_aligned pa \<Longrightarrow> pa \<in> managed_frames s" using user_pa_page_valid [OF inv] True by blast
  have eq: "user_space_map_page (Some sp) va pa flags s = vm_map_page (Some sp) va pa flags s"
    using True by (simp add: user_space_map_page_def)
  show ?thesis
    unfolding eq using True range pa
    by (intro ex_res_mono [OF vm_map_page_inv [OF assms]]) (auto simp: vm_args_ok_def split: if_splits)
next
  case False
  then have "user_space_map_page (Some sp) va pa flags s = Inr (VM_ERR_INVALID, s)"
    by (auto simp: user_space_map_page_def)
  with assms show ?thesis by (simp add: vm_codes)
qed

theorem user_space_map_page_confined_witness:
  "\<exists>sp (s :: pages) s'. vm_inv (vm_root sp) s \<and>
     user_space_map_page (Some sp) 0x1000 0x80003000 (VM_PTE_V OR VM_PTE_R OR VM_PTE_U) s = Inr (VM_OK, s') \<and>
     0x80003000 \<in> managed_frames s"
proof -
  let ?f = "VM_PTE_V OR VM_PTE_R OR VM_PTE_U"
  obtain sp s where run: "vm_space_init (Some \<lparr>vm_root = 0\<rparr>) demo_booted = Inr ((VM_OK, Some sp), s)"
    and s: "vm_inv (vm_root sp) s" "vm_mapping (vm_root sp) s = Map.empty" "unat (free_pages s) = 3"
    and sa: "allocated s = {vm_root sp}"
    by (rule demo_space)
  have ps: "pool_step demo_booted s"
    using vm_space_init_spec [OF demo_booted_inv, of "\<lparr>vm_root = 0\<rparr>"] run by (auto simp: demo_booted_fields)
  have bounds: "managed_start s = 0x80000000" "managed_end s = 0x80004000"
    using pool_step_fields(6,7) [OF ps]
    by (simp_all add: demo_booted_def page_init_state_def align_up_def page_base_def
        PAGE_MASK_def PAGE_SIZE_def Let_def)
  have eq: "user_space_map_page (Some sp) 0x1000 0x80003000 ?f s = vm_map_page (Some sp) 0x1000 0x80003000 ?f s"
    by (simp add: user_space_map_page_def user_space_va_range_is_valid_def range_overlaps_platform_mmio_def
        ranges_overlap_def user_pa_range_is_valid_def page_managed_start_def page_managed_end_def bounds
        user_layout vm_flags)
  have args: "vm_args_ok 0x1000 0x80003000 ?f"
    by (simp add: vm_args_ok_def va_is_canonical_def SV39_TOP_BIT_def page_aligned_def PAGE_MASK_def
        PAGE_SIZE_def flags_are_valid_def vm_flags)
  have "\<not> unat (free_pages s) < vm_missing (vm_root sp) s 0x1000"
    using missing_le [of 2 "mem s" "vm_root sp" "0x1000"] s(3) by (simp add: vm_missing_def)
  with vm_map_page_spec [OF s(1), of "0x1000" "0x80003000" ?f] args s
  obtain s' where "user_space_map_page (Some sp) 0x1000 0x80003000 ?f s = Inr (VM_OK, s')" unfolding eq by auto
  with user_space_map_page_confined [OF s(1), of "0x1000" "0x80003000" ?f] s(1) show ?thesis by auto
qed

end
