(* ===== verification/Paging.thy ===== *)
theory Paging
  imports User_Space
begin

text \<open>
  The kernel's own address space, \<^verbatim>\<open>kernel/memory/paging.c\<close>: an identity
  map of the image, the managed RAM and the device registers, and the trampoline page at
  the top of the user half. What the finished map contains is shown in \<open>Paging_Spec\<close>.
\<close>

section \<open>State and operations\<close>

record paging = pages +
  kernel_space :: vm_space
  kernel_satp :: u64

definition UART0_BASE :: u64 where "UART0_BASE = 0x10000000"
definition CLINT_MMIO_BASE :: u64 where "CLINT_MMIO_BASE = 0x02000000"
definition CLINT_MMIO_SIZE :: u64 where "CLINT_MMIO_SIZE = 0x00010000"

text \<open>
  The values \<open>addr\<close> takes in the loop of \<open>map_range\<close>: from the start page in
  steps of \<open>PAGE_SIZE\<close> while below the end. Both bounds are page aligned, so the
  counter meets the end exactly and never wraps.
\<close>

definition range_pages :: "u64 \<Rightarrow> u64 \<Rightarrow> u64 list" where
  "range_pages start end' =
     (let aligned_start = align_down start PAGE_SIZE; aligned_end = align_up end' PAGE_SIZE in
      if aligned_start < aligned_end
      then map (\<lambda>i. aligned_start + of_nat i * PAGE_SIZE) [0..<unat ((aligned_end - aligned_start) div PAGE_SIZE)]
      else [])"

text \<open>
  A failing \<open>vm_map_page\<close> ends in a panic; the diagnostic lines printed just before it
  are not part of the result.
\<close>

definition map_range :: "u64 \<Rightarrow> u64 \<Rightarrow> u64 \<Rightarrow> 'a paging_scheme \<Rightarrow> (unit \<times> 'a paging_scheme) res" where
  "map_range start end' flags s =
     for_each (\<lambda>addr s.
       bindE (vm_map_page (Some (kernel_space s)) addr addr flags s) (\<lambda>(result, s).
         if result \<noteq> VM_OK then Inl ''kernel identity map failed'' else Inr ((), s)))
       (range_pages start end') s"

definition text_flags :: u64 where "text_flags = VM_PTE_V OR VM_PTE_R OR VM_PTE_X OR VM_PTE_A"
definition ro_flags :: u64 where "ro_flags = VM_PTE_V OR VM_PTE_R OR VM_PTE_A"
definition rw_flags :: u64 where "rw_flags = VM_PTE_V OR VM_PTE_R OR VM_PTE_W OR VM_PTE_A OR VM_PTE_D"

definition paging_init_kernel :: "'a paging_scheme \<Rightarrow> (u64 \<times> 'a paging_scheme) res" where
  "paging_init_kernel s =
     bindE (vm_space_init (Some (kernel_space s)) s) (\<lambda>((result, space), s).
     let s = s\<lparr>kernel_space := the space\<rparr> in
     if result \<noteq> VM_OK then Inl ''kernel page table init failed''
     else
     bindE (map_range (text_start (link s)) (text_end (link s)) text_flags s) (\<lambda>(_, s).
     bindE (map_range (rodata_start (link s)) (rodata_end (link s)) ro_flags s) (\<lambda>(_, s).
     bindE (map_range (data_start (link s)) (kernel_end (link s)) rw_flags s) (\<lambda>(_, s).
     bindE (map_range (page_managed_start s) (ram_end (link s)) rw_flags s) (\<lambda>(_, s).
     bindE (map_range UART0_BASE (UART0_BASE + PAGE_SIZE) rw_flags s) (\<lambda>(_, s).
     bindE (map_range CLINT_MMIO_BASE (CLINT_MMIO_BASE + CLINT_MMIO_SIZE) rw_flags s) (\<lambda>(_, s).
     let tstart = trampoline_start (link s); tend = trampoline_end (link s) in
     if tstart = tend \<or> tend - tstart > PAGE_SIZE \<or> tstart AND PAGE_MASK \<noteq> 0
     then Inl ''kernel trampoline map failed''
     else bindE (vm_map_page (Some (kernel_space s)) USER_TRAMPOLINE_VA tstart text_flags s) (\<lambda>(result, s).
     if result \<noteq> VM_OK then Inl ''kernel trampoline map failed''
     else let s = s\<lparr>kernel_satp := SATP_MODE_SV39 OR drop_bit 12 (vm_root (kernel_space s))\<rparr>
          in Inr (kernel_satp s, s)))))))))"

definition paging_kernel_space :: "'a paging_scheme \<Rightarrow> vm_space" where
  "paging_kernel_space s = kernel_space s"

definition paging_kernel_satp :: "'a paging_scheme \<Rightarrow> u64" where
  "paging_kernel_satp s = kernel_satp s"

end
