(* ===== verification/Task.thy ===== *)
theory Task
  imports Paging
begin

text \<open>
  User tasks, \<^verbatim>\<open>kernel/user/task.c\<close>: an address space with a code, a stack
  and a trap-context page. The theory shows that a task that fails to start gives back
  every page it took, that a task that starts has exactly its four mappings, and that
  destroying it gives everything back.
\<close>

section \<open>State and operations\<close>

datatype user_task_state_t = USER_TASK_UNUSED | USER_TASK_READY | USER_TASK_EXITED | USER_TASK_DESTROYED

record user_task =
  ut_state :: user_task_state_t
  ut_address_space :: vm_space
  ut_user_satp :: u64
  ut_exit_code :: u64
  ut_code_page :: u64
  ut_stack_page :: u64
  ut_trap_context :: u64

text \<open>
  Task objects are statically allocated by their users and only this file accesses them
  through their pointers, so they are a store keyed by address, apart from byte memory. The
  trap context they point to is memory: it is shared with the trampoline.
\<close>

record utasks = paging +
  user_tasks :: "u64 \<Rightarrow> user_task"

definition task_at :: "'a utasks_scheme \<Rightarrow> u64 \<Rightarrow> user_task" where
  "task_at s task = user_tasks s task"

definition set_task :: "u64 \<Rightarrow> user_task \<Rightarrow> 'a utasks_scheme \<Rightarrow> 'a utasks_scheme" where
  "set_task task t s = s\<lparr>user_tasks := (user_tasks s)(task := t)\<rparr>"

text \<open>Offsets of the fields of \<open>trap_frame_t\<close> and \<open>user_trap_context_t\<close>.\<close>

definition FRAME_SP :: u64 where "FRAME_SP = 8"
definition FRAME_A0 :: u64 where "FRAME_A0 = 72"
definition FRAME_A1 :: u64 where "FRAME_A1 = 80"
definition FRAME_A7 :: u64 where "FRAME_A7 = 128"
definition FRAME_MEPC :: u64 where "FRAME_MEPC = 248"
definition FRAME_MSTATUS :: u64 where "FRAME_MSTATUS = 256"
definition FRAME_MCAUSE :: u64 where "FRAME_MCAUSE = 264"
definition FRAME_MTVAL :: u64 where "FRAME_MTVAL = 272"
definition CTX_KERNEL_SATP :: u64 where "CTX_KERNEL_SATP = 280"
definition CTX_USER_SATP :: u64 where "CTX_USER_SATP = 288"
definition CTX_KERNEL_TRAP_HANDLER :: u64 where "CTX_KERNEL_TRAP_HANDLER = 296"
definition CTX_KERNEL_TRAP_CONTEXT :: u64 where "CTX_KERNEL_TRAP_CONTEXT = 304"
definition CTX_KERNEL_STVEC :: u64 where "CTX_KERNEL_STVEC = 312"
definition CTX_KERNEL_SP :: u64 where "CTX_KERNEL_SP = 320"

definition user_task_reset :: "user_task \<Rightarrow> user_task" where
  "user_task_reset t = t\<lparr>ut_state := USER_TASK_UNUSED, ut_address_space := (ut_address_space t)\<lparr>vm_root := 0\<rparr>,
     ut_user_satp := 0, ut_exit_code := 0, ut_code_page := 0, ut_stack_page := 0, ut_trap_context := 0\<rparr>"

text \<open>The results of the four unmappings and of the destruction are ignored by the code.\<close>

definition user_task_release_resources ::
  "u64 \<Rightarrow> 'a utasks_scheme \<Rightarrow> (unit \<times> 'a utasks_scheme) res"
where
  "user_task_release_resources task s =
     bindE
       (if vm_root (ut_address_space (task_at s task)) \<noteq> 0
        then let sp = Some (ut_address_space (task_at s task)) in
          bindE (vm_unmap_page sp USER_SPACE_CODE_BASE s) (\<lambda>(_, s).
          bindE (vm_unmap_page sp USER_SPACE_STACK_BASE s) (\<lambda>(_, s).
          bindE (vm_unmap_page sp USER_TRAMPOLINE_VA s) (\<lambda>(_, s).
          bindE (vm_unmap_page sp USER_TRAP_CONTEXT_VA s) (\<lambda>(_, s).
          bindE (vm_space_destroy sp s) (\<lambda>((_, sp'), s).
            Inr ((), set_task task ((task_at s task)\<lparr>ut_address_space := the sp'\<rparr>) s))))))
        else Inr ((), s)) (\<lambda>(_, s).
     bindE (if ut_code_page (task_at s task) \<noteq> 0 then page_free (ut_code_page (task_at s task)) s
            else Inr ((), s)) (\<lambda>(_, s).
     bindE (if ut_stack_page (task_at s task) \<noteq> 0 then page_free (ut_stack_page (task_at s task)) s
            else Inr ((), s)) (\<lambda>(_, s).
     bindE (if ut_trap_context (task_at s task) \<noteq> 0 then page_free (ut_trap_context (task_at s task)) s
            else Inr ((), s)) (\<lambda>(_, s).
     Inr ((), set_task task ((task_at s task)\<lparr>
       ut_address_space := (ut_address_space (task_at s task))\<lparr>vm_root := 0\<rparr>, ut_user_satp := 0,
       ut_code_page := 0, ut_stack_page := 0, ut_trap_context := 0\<rparr>) s)))))"

definition user_task_cleanup_partial :: "u64 \<Rightarrow> 'a utasks_scheme \<Rightarrow> (unit \<times> 'a utasks_scheme) res" where
  "user_task_cleanup_partial task s =
     bindE (user_task_release_resources task s) (\<lambda>(_, s).
       Inr ((), set_task task (user_task_reset (task_at s task)) s))"

definition user_task_can_init :: "u64 \<Rightarrow> 'a utasks_scheme \<Rightarrow> bool" where
  "user_task_can_init task s =
     (if task = 0 then False
      else let t = task_at s task in
        if ut_state t = USER_TASK_UNUSED then True
        else ut_state t = USER_TASK_DESTROYED \<and> vm_root (ut_address_space t) = 0 \<and>
          ut_user_satp t = 0 \<and> ut_code_page t = 0 \<and> ut_stack_page t = 0 \<and> ut_trap_context t = 0)"

text \<open>
  The three mappings of \<open>user_task_init\<close>, tried in the order of the code's
  short-circuit condition; the result says whether all of them succeeded.
\<close>

definition user_task_map_pages :: "u64 \<Rightarrow> 'a utasks_scheme \<Rightarrow> (bool \<times> 'a utasks_scheme) res" where
  "user_task_map_pages task s =
     (let t = task_at s task; sp = Some (ut_address_space t) in
      bindE (user_space_map_code_page sp (ut_code_page t) s) (\<lambda>(r, s).
      if r \<noteq> VM_OK then Inr (False, s)
      else bindE (user_space_map_stack_page sp (ut_stack_page t) s) (\<lambda>(r, s).
      if r \<noteq> VM_OK then Inr (False, s)
      else bindE (user_space_map_trap_support sp (ut_trap_context t) s) (\<lambda>(r, s).
      Inr (r = VM_OK, s)))))"

text \<open>The fields of the trap context that \<open>user_task_init\<close> fills in.\<close>

definition user_task_fill_context :: "u64 \<Rightarrow> u64 \<Rightarrow> 'a utasks_scheme \<Rightarrow> 'a utasks_scheme" where
  "user_task_fill_context context user_satp s =
     (let s = store64 (context + CTX_KERNEL_SATP) (paging_kernel_satp s) s;
          s = store64 (context + CTX_USER_SATP) user_satp s;
          s = store64 (context + CTX_KERNEL_TRAP_HANDLER) (trap_handle_user_addr (link s)) s;
          s = store64 (context + CTX_KERNEL_TRAP_CONTEXT) context s;
          s = store64 (context + CTX_KERNEL_STVEC) (trap_entry_addr (link s)) s;
          s = store64 (context + CTX_KERNEL_SP) 0 s;
          s = store64 (context + FRAME_SP) USER_SPACE_STACK_TOP s;
          s = store64 (context + FRAME_MEPC) USER_SPACE_CODE_BASE s
      in store64 (context + FRAME_MSTATUS) SSTATUS_SPIE s)"

definition user_task_init :: "u64 \<Rightarrow> u64 \<Rightarrow> u64 \<Rightarrow> 'a utasks_scheme \<Rightarrow> (int \<times> 'a utasks_scheme) res" where
  "user_task_init task program program_size s =
     (if task = 0 \<or> program = 0 \<or> program_size = 0 \<or> program_size > PAGE_SIZE \<or> \<not> user_task_can_init task s
      then Inr (-1, s)
      else let s = set_task task (user_task_reset (task_at s task)) s in
      bindE (vm_space_init (Some (ut_address_space (task_at s task))) s) (\<lambda>((r, sp), s).
      let s = set_task task ((task_at s task)\<lparr>ut_address_space := the sp\<rparr>) s in
      if r \<noteq> VM_OK then Inr (-1, set_task task (user_task_reset (task_at s task)) s)
      else
      bindE (page_alloc s) (\<lambda>(p, s). let s = set_task task ((task_at s task)\<lparr>ut_code_page := p\<rparr>) s in
      bindE (page_alloc s) (\<lambda>(p, s). let s = set_task task ((task_at s task)\<lparr>ut_stack_page := p\<rparr>) s in
      bindE (page_alloc s) (\<lambda>(p, s). let s = set_task task ((task_at s task)\<lparr>ut_trap_context := p\<rparr>) s in
      if ut_code_page (task_at s task) = 0 \<or> ut_stack_page (task_at s task) = 0 \<or>
         ut_trap_context (task_at s task) = 0
      then bindE (user_task_cleanup_partial task s) (\<lambda>(_, s). Inr (-1, s))
      else
      let s = memory_zero (ut_code_page (task_at s task)) PAGE_SIZE s;
          s = memory_zero (ut_stack_page (task_at s task)) PAGE_SIZE s;
          s = memory_zero (ut_trap_context (task_at s task)) PAGE_SIZE s;
          s = memory_copy (ut_code_page (task_at s task)) program program_size s in
      bindE (user_task_map_pages task s) (\<lambda>(mapped, s).
      if \<not> mapped then bindE (user_task_cleanup_partial task s) (\<lambda>(_, s). Inr (-1, s))
      else
      let s = set_task task ((task_at s task)\<lparr>ut_user_satp :=
                SATP_MODE_SV39 OR drop_bit 12 (vm_root (ut_address_space (task_at s task)))\<rparr>) s;
          s = user_task_fill_context (ut_trap_context (task_at s task)) (ut_user_satp (task_at s task)) s
      in Inr (0, set_task task ((task_at s task)\<lparr>ut_state := USER_TASK_READY\<rparr>) s)))))))"

definition user_task_is_ready :: "u64 \<Rightarrow> 'a utasks_scheme \<Rightarrow> bool" where
  "user_task_is_ready task s \<longleftrightarrow> task \<noteq> 0 \<and> ut_state (task_at s task) = USER_TASK_READY \<and>
     vm_root (ut_address_space (task_at s task)) \<noteq> 0 \<and> ut_user_satp (task_at s task) \<noteq> 0 \<and>
     ut_trap_context (task_at s task) \<noteq> 0"

definition user_task_set_kernel_sp :: "u64 \<Rightarrow> u64 \<Rightarrow> 'a utasks_scheme \<Rightarrow> int \<times> 'a utasks_scheme" where
  "user_task_set_kernel_sp task kernel_sp s =
     (if \<not> user_task_is_ready task s \<or> kernel_sp = 0 then (-1, s)
      else (0, store64 (ut_trap_context (task_at s task) + CTX_KERNEL_SP) kernel_sp s))"

definition user_task_mark_exited :: "u64 \<Rightarrow> u64 \<Rightarrow> 'a utasks_scheme \<Rightarrow> int \<times> 'a utasks_scheme" where
  "user_task_mark_exited task exit_code s =
     (if \<not> user_task_is_ready task s then (-1, s)
      else (0, set_task task ((task_at s task)\<lparr>ut_state := USER_TASK_EXITED, ut_exit_code := exit_code\<rparr>) s))"

definition user_task_destroy :: "u64 \<Rightarrow> 'a utasks_scheme \<Rightarrow> (int \<times> 'a utasks_scheme) res" where
  "user_task_destroy task s =
     (if task = 0 \<or> ut_state (task_at s task) \<noteq> USER_TASK_EXITED then Inr (-1, s)
      else bindE (user_task_release_resources task s) (\<lambda>(_, s).
        Inr (0, set_task task ((task_at s task)\<lparr>ut_state := USER_TASK_DESTROYED\<rparr>) s)))"

definition user_task_state :: "u64 \<Rightarrow> 'a utasks_scheme \<Rightarrow> user_task_state_t" where
  "user_task_state task s = (if task = 0 then USER_TASK_UNUSED else ut_state (task_at s task))"

definition user_task_exit_code :: "u64 \<Rightarrow> 'a utasks_scheme \<Rightarrow> u64" where
  "user_task_exit_code task s = (if task = 0 then 0 else ut_exit_code (task_at s task))"

definition user_task_trap_frame :: "u64 \<Rightarrow> 'a utasks_scheme \<Rightarrow> u64" where
  "user_task_trap_frame task s =
     (if \<not> user_task_is_ready task s then 0 else ut_trap_context (task_at s task))"

definition user_task_satp :: "u64 \<Rightarrow> 'a utasks_scheme \<Rightarrow> u64" where
  "user_task_satp task s = (if user_task_is_ready task s then ut_user_satp (task_at s task) else 0)"

end
