(* ===== verification/Ring.thy ===== *)
theory Ring
  imports Prelude
begin

text \<open>
  Ring buffers, the data structure of the event trace, the ready queue and the wait queues:
  an array, the index of the oldest element and a count. The theory reads a ring as a list
  and shows what the array updates of the kernel do to that list.
\<close>

definition ring :: "nat \<Rightarrow> 'a list \<Rightarrow> nat \<Rightarrow> nat \<Rightarrow> 'a list" where
  "ring n xs h c = map (\<lambda>i. xs ! ((h + i) mod n)) [0..<c]"

lemma length_ring [simp]: "length (ring n xs h c) = c"
  by (simp add: ring_def)

lemma nth_ring [simp]: "i < c \<Longrightarrow> ring n xs h c ! i = xs ! ((h + i) mod n)"
  by (simp add: ring_def)

lemma ring_0 [simp]: "ring n xs h 0 = []"
  by (simp add: ring_def)

text \<open>Different positions of a ring are different elements of the array.\<close>

lemma ring_index_inj:
  fixes n h i j :: nat
  assumes "(h + i) mod n = (h + j) mod n" and "i < n" and "j < n"
  shows "i = j"
proof -
  have "(int h + int i) mod int n = (int h + int j) mod int n"
    using assms(1) by (metis of_nat_add zmod_int)
  then have "int i mod int n = int j mod int n"
    by (metis add_diff_cancel_left' mod_diff_left_eq mod_diff_right_eq)
  with assms show ?thesis by simp
qed

lemma ring_set:
  assumes "i < c" and "c \<le> n" and "length xs = n"
  shows "ring n (xs[(h + i) mod n := x]) h c = (ring n xs h c)[i := x]"
proof (rule nth_equalityI)
  fix j
  assume "j < length (ring n (xs[(h + i) mod n := x]) h c)"
  then have j: "j < c" by simp
  then have "(h + i) mod n = (h + j) mod n \<longleftrightarrow> i = j"
    using ring_index_inj [of h i n j] assms by auto
  moreover have "(h + i) mod n < n" using assms by simp
  ultimately show "ring n (xs[(h + i) mod n := x]) h c ! j = (ring n xs h c)[i := x] ! j"
    using j assms by (auto simp: nth_list_update)
qed simp

lemma ring_frame:
  assumes "c \<le> i" and "i < n" and "length xs = n"
  shows "ring n (xs[(h + i) mod n := x]) h c = ring n xs h c"
proof (rule nth_equalityI)
  fix j
  assume "j < length (ring n (xs[(h + i) mod n := x]) h c)"
  then have j: "j < c" by simp
  then have "(h + i) mod n \<noteq> (h + j) mod n"
    using ring_index_inj [of h i n j] assms by auto
  then show "ring n (xs[(h + i) mod n := x]) h c ! j = ring n xs h c ! j"
    using j by simp
qed simp

lemma ring_push:
  assumes "c < n" and "length xs = n"
  shows "ring n (xs[(h + c) mod n := x]) h (Suc c) = ring n xs h c @ [x]"
proof -
  have "(h + c) mod n < length xs" using assms by simp
  moreover have "ring n ys h (Suc c) = ring n ys h c @ [ys ! ((h + c) mod n)]" for ys :: "'a list"
    by (simp add: ring_def)
  ultimately show ?thesis using assms by (simp add: ring_frame)
qed

lemma ring_pop:
  assumes "h < n"
  shows "ring n xs h (Suc c) = xs ! h # ring n xs (Suc h mod n) c"
proof (rule nth_equalityI)
  fix i
  assume "i < length (ring n xs h (Suc c))"
  then show "ring n xs h (Suc c) ! i = (xs ! h # ring n xs (Suc h mod n) c) ! i"
    using assms by (cases i) (simp_all add: mod_add_left_eq)
qed simp

text \<open>Overwriting the oldest element of a full ring drops it and appends the new one.\<close>

lemma ring_overwrite:
  assumes "h < n" and "length xs = n"
  shows "ring n (xs[h := x]) (Suc h mod n) n = tl (ring n xs h n) @ [x]"
proof -
  obtain c where n: "n = Suc c" using assms(1) by (cases n) auto
  have idx: "(Suc h mod n + c) mod n = h"
  proof -
    have "Suc h mod n + c = (if Suc h = n then c else h + n)" using assms(1) n by auto
    moreover have "(h + n) mod n = h" using assms(1) by simp
    moreover have "c mod n = c" using n by simp
    ultimately show ?thesis using n by (cases "Suc h = n") auto
  qed
  have "ring n (xs[(Suc h mod n + c) mod n := x]) (Suc h mod n) (Suc c) = ring n xs (Suc h mod n) c @ [x]"
    by (rule ring_push) (use assms n in simp_all)
  moreover have "tl (ring n xs h (Suc c)) = ring n xs (Suc h mod n) c"
    using ring_pop [OF assms(1), of xs c] by simp
  ultimately show ?thesis by (simp only: idx n [symmetric])
qed

text \<open>
  Closing the gap at position \<open>i\<close>: the elements behind it move one place forward, in
  order. \<open>shift_down n\<close> is the loop over an array read as a ring.
\<close>

definition shift_step :: "nat \<Rightarrow> nat \<Rightarrow> nat \<Rightarrow> 'a list \<Rightarrow> 'a list" where
  "shift_step n h i xs = xs[(h + i) mod n := xs ! ((h + i + 1) mod n)]"

lemma shift_step_ring:
  assumes "Suc i < c" and "c \<le> n" and "length xs = n"
  shows "ring n (shift_step n h i xs) h c = (ring n xs h c)[i := ring n xs h c ! Suc i]"
  using assms by (simp add: shift_step_def ring_set)

lemma length_shift_step [simp]: "length (shift_step n h i xs) = length xs"
  by (simp add: shift_step_def)

lemma length_shift_fold [simp]: "length (fold (shift_step n h) is xs) = length xs"
  by (induction "is" arbitrary: xs) simp_all

lemma gap_step:
  assumes "i \<le> k" and "Suc k < length r"
  shows "(take i r @ take (k - i) (drop (Suc i) r) @ drop k r)[k := r ! Suc k] =
    take i r @ take (Suc k - i) (drop (Suc i) r) @ drop (Suc k) r"
proof -
  let ?p = "take i r @ take (k - i) (drop (Suc i) r)"
  have "(?p @ r ! k # drop (Suc k) r)[length ?p := r ! Suc k] = ?p @ r ! Suc k # drop (Suc k) r"
    by (rule list_update_length)
  moreover have "length ?p = k" using assms by simp
  moreover have "drop k r = r ! k # drop (Suc k) r" using assms by (simp add: Cons_nth_drop_Suc)
  moreover have "take (Suc k - i) (drop (Suc i) r) = take (k - i) (drop (Suc i) r) @ [r ! Suc k]"
    using assms by (simp add: Suc_diff_le take_Suc_conv_app_nth)
  ultimately show ?thesis by (simp only: append_assoc append.simps)
qed

lemma shift_fold_ring:
  assumes "i \<le> k" and "k < c" and "c \<le> n" and "length xs = n"
  shows "ring n (fold (shift_step n h) [i..<k] xs) h c =
    take i (ring n xs h c) @ take (k - i) (drop (Suc i) (ring n xs h c)) @ drop k (ring n xs h c)"
  using assms
proof (induction k)
  case (Suc k)
  show ?case
  proof (cases "i = Suc k")
    case False
    then have ik: "i \<le> k" using Suc.prems by simp
    let ?r = "ring n xs h c"
    have IH: "ring n (fold (shift_step n h) [i..<k] xs) h c = take i ?r @ take (k - i) (drop (Suc i) ?r) @ drop k ?r"
      using Suc ik by simp
    have "ring n (fold (shift_step n h) [i..<Suc k] xs) h c =
        (take i ?r @ take (k - i) (drop (Suc i) ?r) @ drop k ?r)[k := ?r ! Suc k]"
    proof -
      have "(take i ?r @ take (k - i) (drop (Suc i) ?r) @ drop k ?r) ! Suc k = ?r ! Suc k"
        using Suc.prems ik by (simp add: nth_append min_def Suc_diff_le) linarith
      then show ?thesis
        using Suc.prems ik IH by (simp add: shift_step_ring)
    qed
    also have "\<dots> = take i ?r @ take (Suc k - i) (drop (Suc i) ?r) @ drop (Suc k) ?r"
      by (rule gap_step) (use Suc.prems ik in simp_all)
    finally show ?thesis .
  qed simp
qed simp

text \<open>So dropping the last element afterwards removes the element at position \<open>i\<close>.\<close>

lemma shift_fold_remove:
  assumes "i < c" and "c \<le> n" and "length xs = n"
  shows "ring n (fold (shift_step n h) [i..<c - 1] xs) h (c - 1) =
    take i (ring n xs h c) @ drop (Suc i) (ring n xs h c)"
proof -
  have butl: "ring n ys h (c - 1) = take (c - 1) (ring n ys h c)" for ys :: "'a list"
    by (rule nth_equalityI) simp_all
  have "ring n (fold (shift_step n h) [i..<c - 1] xs) h c =
      take i (ring n xs h c) @ take (c - 1 - i) (drop (Suc i) (ring n xs h c)) @ drop (c - 1) (ring n xs h c)"
    by (rule shift_fold_ring) (use assms in simp_all)
  moreover have "c - 1 \<le> i \<Longrightarrow> c - 1 = i" using assms(1) by simp
  ultimately show ?thesis using assms unfolding butl by (auto simp: min_def)
qed

lemma remove1_at:
  assumes "i < length xs" and "xs ! i = x" and "\<forall>j<i. xs ! j \<noteq> x"
  shows "take i xs @ drop (Suc i) xs = remove1 x xs"
  using assms
proof (induction xs arbitrary: i)
  case (Cons y ys)
  show ?case
  proof (cases i)
    case (Suc k)
    have "y \<noteq> x" using Cons.prems(3) Suc by force
    moreover have "\<forall>j<k. ys ! j \<noteq> x" using Cons.prems(3) Suc by auto
    ultimately show ?thesis using Cons.IH [of k] Cons.prems Suc by simp
  qed (use Cons.prems in simp)
qed simp

end
