(* ===== verification/Trace.thy ===== *)
theory Trace
  imports Task Ring
begin

text \<open>
  The event trace, \<^verbatim>\<open>kernel/core/trace.c\<close>, with the tick counter of
  \<^verbatim>\<open>kernel/drivers/timer.c\<close> it stamps its events with. The trace is a
  ring of 128 events; the theory shows that it holds the most recent events in order, with
  consecutive sequence numbers and an exact count of the events it dropped.
\<close>

section \<open>State and operations\<close>

text \<open>
  The timer's state: \<open>mtime_at n\<close> is what the \<open>n\<close>-th read of the CLINT's
  \<open>mtime\<close> register gives, \<open>mtimecmp\<close> the machine deadline. The control
  and status registers the kernel uses besides \<open>sstatus\<close> and \<open>satp\<close> are a
  register file of their own.
\<close>

record csr_file =
  c_mstatus :: u64
  c_mcause :: u64
  c_mepc :: u64
  c_mie :: u64
  c_mip :: u64
  c_mtval :: u64
  c_mtvec :: u64
  c_mscratch :: u64
  c_medeleg :: u64
  c_mideleg :: u64
  c_mcounteren :: u64
  c_pmpaddr0 :: u64
  c_pmpcfg0 :: u64
  c_sie :: u64
  c_stvec :: u64
  c_scause :: u64
  c_sepc :: u64
  c_stval :: u64

record timer = utasks +
  ticks :: u64
  next_compare :: u64
  mtime_at :: "nat \<Rightarrow> u64"
  mtime_reads :: nat
  mtimecmp :: u64
  csrs :: csr_file

definition timer_ticks :: "'a timer_scheme \<Rightarrow> u64" where
  "timer_ticks s = ticks s"

type_synonym tid_t = u16

definition THREAD_NULL_TID :: tid_t where "THREAD_NULL_TID = 0"
definition THREAD_INVALID_TID :: tid_t where "THREAD_INVALID_TID = 0xffff"

datatype trace_type_t =
    TRACE_THREAD_CREATE | TRACE_CONTEXT_SWITCH | TRACE_THREAD_EXIT | TRACE_THREAD_SLEEP
  | TRACE_THREAD_WAKE | TRACE_WAIT_BLOCK | TRACE_WAIT_WAKE | TRACE_WAIT_TIMEOUT
  | TRACE_MUTEX_LOCK | TRACE_MUTEX_BLOCK | TRACE_MUTEX_TIMEOUT | TRACE_MUTEX_UNLOCK
  | TRACE_IDLE | TRACE_USER_SYSCALL_ENTER | TRACE_USER_SYSCALL_RETURN
  | TRACE_USER_SYSCALL_ERROR | TRACE_USER_ACCEL_VALIDATE | TRACE_USER_ACCEL_COPYBACK
  | TRACE_ACCEL_SUBMIT | TRACE_ACCEL_COMPLETE | TRACE_ACCEL_TIMEOUT | TRACE_ACCEL_RESET

record trace_event =
  ev_seq :: u64
  ev_tick :: u64
  ev_cycle :: u64
  ev_type :: trace_type_t
  ev_tid :: tid_t
  ev_other_tid :: tid_t
  ev_arg0 :: u64
  ev_arg1 :: u64

text \<open>\<open>trace_events\<close> has \<open>TRACE_CAPACITY\<close> elements.\<close>

record tracing = timer +
  trace_events :: "trace_event list"
  trace_next_seq :: u64
  trace_head :: u16
  trace_count :: u16
  trace_overwrites :: u64

definition TRACE_CAPACITY :: nat where "TRACE_CAPACITY = 128"

text \<open>
  Every enumerator has a name, so the \<open>default\<close> branch of the source is never taken
  for an event that was written by \<open>trace_emit\<close>.
\<close>

fun trace_type_name :: "trace_type_t \<Rightarrow> string" where
  "trace_type_name TRACE_THREAD_CREATE = ''thread_create''"
| "trace_type_name TRACE_CONTEXT_SWITCH = ''context_switch''"
| "trace_type_name TRACE_THREAD_EXIT = ''thread_exit''"
| "trace_type_name TRACE_THREAD_SLEEP = ''thread_sleep''"
| "trace_type_name TRACE_THREAD_WAKE = ''thread_wake''"
| "trace_type_name TRACE_WAIT_BLOCK = ''wait_block''"
| "trace_type_name TRACE_WAIT_WAKE = ''wait_wake''"
| "trace_type_name TRACE_WAIT_TIMEOUT = ''wait_timeout''"
| "trace_type_name TRACE_MUTEX_LOCK = ''mutex_lock''"
| "trace_type_name TRACE_MUTEX_BLOCK = ''mutex_block''"
| "trace_type_name TRACE_MUTEX_TIMEOUT = ''mutex_timeout''"
| "trace_type_name TRACE_MUTEX_UNLOCK = ''mutex_unlock''"
| "trace_type_name TRACE_IDLE = ''idle''"
| "trace_type_name TRACE_USER_SYSCALL_ENTER = ''user_syscall_enter''"
| "trace_type_name TRACE_USER_SYSCALL_RETURN = ''user_syscall_return''"
| "trace_type_name TRACE_USER_SYSCALL_ERROR = ''user_syscall_error''"
| "trace_type_name TRACE_USER_ACCEL_VALIDATE = ''user_accel_validate''"
| "trace_type_name TRACE_USER_ACCEL_COPYBACK = ''user_accel_copyback''"
| "trace_type_name TRACE_ACCEL_SUBMIT = ''accel_submit''"
| "trace_type_name TRACE_ACCEL_COMPLETE = ''accel_complete''"
| "trace_type_name TRACE_ACCEL_TIMEOUT = ''accel_timeout''"
| "trace_type_name TRACE_ACCEL_RESET = ''accel_reset''"

definition trace_init :: "'a tracing_scheme \<Rightarrow> 'a tracing_scheme" where
  "trace_init s =
     (let (irq_state, s) = irq_save s;
          s = s\<lparr>trace_next_seq := 0, trace_head := 0, trace_count := 0, trace_overwrites := 0\<rparr>
      in irq_restore irq_state s)"

text \<open>
  The index arithmetic is done in C's \<open>int\<close>, where two 16-bit values do not overflow,
  and cut to 16 bits after the remainder.
\<close>

definition trace_emit ::
  "trace_type_t \<Rightarrow> tid_t \<Rightarrow> tid_t \<Rightarrow> u64 \<Rightarrow> u64 \<Rightarrow> 'a tracing_scheme \<Rightarrow> 'a tracing_scheme"
where
  "trace_emit type tid other_tid arg0 arg1 s =
     (let (irq_state, s) = irq_save s;
          (index, s) =
            (if unat (trace_count s) < TRACE_CAPACITY
             then (of_nat ((unat (trace_head s) + unat (trace_count s)) mod TRACE_CAPACITY) :: u16,
                   s\<lparr>trace_count := trace_count s + 1\<rparr>)
             else (trace_head s,
                   s\<lparr>trace_head := of_nat ((unat (trace_head s) + 1) mod TRACE_CAPACITY),
                     trace_overwrites := trace_overwrites s + 1\<rparr>));
          seq = trace_next_seq s;
          s = s\<lparr>trace_next_seq := seq + 1\<rparr>;
          tick = timer_ticks s;
          (cycle, s) = csr_read_cycle s;
          event = \<lparr>ev_seq = seq, ev_tick = tick, ev_cycle = cycle, ev_type = type, ev_tid = tid,
            ev_other_tid = other_tid, ev_arg0 = arg0, ev_arg1 = arg1\<rparr>;
          s = s\<lparr>trace_events := (trace_events s)[unat index := event]\<rparr>
      in irq_restore irq_state s)"

definition dump_event :: "trace_event \<Rightarrow> 'a hw_scheme \<Rightarrow> 'a hw_scheme" where
  "dump_event event s =
     (let s = console_write ''trace: seq='' s;
          s = console_write_hex64 (ev_seq event) s;
          s = console_write '' tick='' s;
          s = console_write_hex64 (ev_tick event) s;
          s = console_write '' cycle='' s;
          s = console_write_hex64 (ev_cycle event) s;
          s = console_write '' type='' s;
          s = console_write (trace_type_name (ev_type event)) s;
          s = console_write '' tid='' s;
          s = console_write_hex64 (ucast (ev_tid event)) s;
          s = console_write '' other='' s;
          s = console_write_hex64 (ucast (ev_other_tid event)) s;
          s = console_write '' arg0='' s;
          s = console_write_hex64 (ev_arg0 event) s;
          s = console_write '' arg1='' s;
          s = console_write_hex64 (ev_arg1 event) s
      in console_write [CHR 0x0A] s)"

definition trace_dump :: "'a tracing_scheme \<Rightarrow> 'a tracing_scheme" where
  "trace_dump s =
     (let (irq_state, s) = irq_save s;
          s = console_write ''trace: begin count='' s;
          s = console_write_hex64 (ucast (trace_count s)) s;
          s = console_write '' overwrites='' s;
          s = console_write_hex64 (trace_overwrites s) s;
          s = console_write [CHR 0x0A] s;
          s = fold (\<lambda>i s. dump_event (trace_events s ! ((unat (trace_head s) + i) mod TRACE_CAPACITY)) s)
                [0..<unat (trace_count s)] s;
          s = console_write (''trace: end'' @ [CHR 0x0A]) s
      in irq_restore irq_state s)"

section \<open>The trace as a bounded log\<close>

text \<open>The events in the order \<open>trace_dump\<close> prints them, the oldest first.\<close>

definition trace_log :: "'a tracing_scheme \<Rightarrow> trace_event list" where
  "trace_log s = ring TRACE_CAPACITY (trace_events s) (unat (trace_head s)) (unat (trace_count s))"

text \<open>
  The ring is inside its bounds, the sequence numbers of its events end just below the next
  one, and the events ever emitted are the ones held and the ones overwritten.
\<close>

definition trace_inv :: "'a tracing_scheme \<Rightarrow> bool" where
  "trace_inv s \<longleftrightarrow> length (trace_events s) = TRACE_CAPACITY \<and> unat (trace_head s) < TRACE_CAPACITY \<and>
     unat (trace_count s) \<le> TRACE_CAPACITY \<and>
     trace_next_seq s = trace_overwrites s + ucast (trace_count s) \<and>
     map ev_seq (trace_log s) = map (\<lambda>i. trace_overwrites s + of_nat i) [0..<unat (trace_count s)]"

definition new_event ::
  "trace_type_t \<Rightarrow> tid_t \<Rightarrow> tid_t \<Rightarrow> u64 \<Rightarrow> u64 \<Rightarrow> 'a tracing_scheme \<Rightarrow> trace_event"
where
  "new_event type tid other arg0 arg1 s = \<lparr>ev_seq = trace_next_seq s, ev_tick = ticks s,
     ev_cycle = cycle_at s (cycle_reads s), ev_type = type, ev_tid = tid, ev_other_tid = other,
     ev_arg0 = arg0, ev_arg1 = arg1\<rparr>"

lemma irq_restore_masked:
  "sstatus t = w AND NOT SSTATUS_SIE \<Longrightarrow> irq_restore w t = t\<lparr>sstatus := w\<rparr>"
  using irq_restore_saved [of w t] by (metis hw.surjective hw.update_convs(2) hw.select_convs(2))

lemma trace_init_eq:
  "trace_init s = s\<lparr>trace_next_seq := 0, trace_head := 0, trace_count := 0, trace_overwrites := 0\<rparr>"
  by (simp add: trace_init_def irq_save_def csr_clear_sstatus_def Let_def irq_restore_masked)

lemma trace_emit_eq:
  "trace_emit type tid other arg0 arg1 s =
     (let e = new_event type tid other arg0 arg1 s in
      if unat (trace_count s) < TRACE_CAPACITY
      then s\<lparr>cycle_reads := Suc (cycle_reads s),
        trace_events := (trace_events s)[(unat (trace_head s) + unat (trace_count s)) mod TRACE_CAPACITY := e],
        trace_next_seq := trace_next_seq s + 1, trace_count := trace_count s + 1\<rparr>
      else s\<lparr>cycle_reads := Suc (cycle_reads s), trace_events := (trace_events s)[unat (trace_head s) := e],
        trace_next_seq := trace_next_seq s + 1,
        trace_head := of_nat ((unat (trace_head s) + 1) mod TRACE_CAPACITY),
        trace_overwrites := trace_overwrites s + 1\<rparr>)"
proof -
  have idx: "unat (of_nat (n mod 128) :: u16) = n mod 128" for n
    using mod_less_divisor [of 128 n] by (simp add: unat_of_nat take_bit_nat_eq_self_iff del: mod_less_divisor)
  show ?thesis
    by (cases "unat (trace_count s) < 128"; rule tracing.equality)
      (simp_all add: trace_emit_def irq_save_def csr_clear_sstatus_def csr_read_cycle_def Let_def new_event_def
        timer_ticks_def idx TRACE_CAPACITY_def irq_restore_masked)
qed

lemma unat_inc16: "unat (c :: u16) < 0xffff \<Longrightarrow> unat (c + 1) = Suc (unat c)"
  by (simp add: unat_word_ariths)

lemma unat_mod16: "0 < n \<Longrightarrow> n \<le> 0xffff \<Longrightarrow> unat (of_nat (k mod n) :: u16) = k mod n"
  using mod_less_divisor [of n k] by (simp add: unat_of_nat take_bit_nat_eq_self_iff del: mod_less_divisor)

text \<open>What emitting an event does to the log: the newest 128 events are kept.\<close>

lemma trace_emit_log:
  assumes "trace_inv s"
  shows "trace_log (trace_emit type tid other arg0 arg1 s) =
    (if length (trace_log s) = TRACE_CAPACITY then tl (trace_log s) else trace_log s) @
    [new_event type tid other arg0 arg1 s]"
proof (cases "unat (trace_count s) < TRACE_CAPACITY")
  case True
  then have "unat (trace_count s + 1) = Suc (unat (trace_count s))"
    by (intro unat_inc16) (simp add: TRACE_CAPACITY_def)
  with True assms show ?thesis
    by (simp add: trace_emit_eq Let_def trace_log_def trace_inv_def ring_push)
next
  case False
  then have "unat (trace_count s) = TRACE_CAPACITY" using assms by (simp add: trace_inv_def)
  with assms show ?thesis
    by (simp add: trace_emit_eq Let_def trace_log_def trace_inv_def ring_overwrite unat_mod16 TRACE_CAPACITY_def)
qed

lemma map_shift: "0 < n \<Longrightarrow> tl (map f [0..<n]) @ [f n] = map (\<lambda>i. f (Suc i)) [0..<n]"
  by (rule nth_equalityI) (auto simp: nth_append nth_tl intro!: arg_cong [of _ _ f])

lemma trace_emit_inv:
  assumes "trace_inv s"
  shows "trace_inv (trace_emit type tid other arg0 arg1 s)"
proof -
  let ?s = "trace_emit type tid other arg0 arg1 s"
  have cap: "unat (trace_count s) \<le> 128" and seqs: "map ev_seq (trace_log s) =
      map (\<lambda>i. trace_overwrites s + of_nat i) [0..<unat (trace_count s)]"
    and nxt: "trace_next_seq s = trace_overwrites s + ucast (trace_count s)"
    using assms by (simp_all add: trace_inv_def TRACE_CAPACITY_def)
  have len: "length (trace_log s) = unat (trace_count s)" by (simp add: trace_log_def)
  have ev: "ev_seq (new_event type tid other arg0 arg1 s) = trace_overwrites s + of_nat (unat (trace_count s))"
    by (simp add: new_event_def nxt)
  show ?thesis
  proof (cases "unat (trace_count s) < 128")
    case True
    then have c1: "unat (trace_count s + 1) = Suc (unat (trace_count s))" by (intro unat_inc16) simp
    have "ucast (trace_count s + 1) = (ucast (trace_count s) + 1 :: u64)"
      using c1 by (metis of_nat_Suc of_nat_unat add.commute)
    moreover have "map ev_seq (trace_log ?s) = map (\<lambda>i. trace_overwrites s + of_nat i) [0..<Suc (unat (trace_count s))]"
      using True by (simp add: trace_emit_log [OF assms] len TRACE_CAPACITY_def seqs ev)
    ultimately show ?thesis
      using assms True c1 nxt by (simp add: trace_inv_def trace_emit_eq Let_def TRACE_CAPACITY_def)
  next
    case False
    then have c: "unat (trace_count s) = 128" using cap by simp
    have "map ev_seq (trace_log ?s) = map (\<lambda>i. trace_overwrites s + 1 + of_nat i) [0..<unat (trace_count s)]"
    proof -
      have "map ev_seq (trace_log ?s) = tl (map ev_seq (trace_log s)) @ [trace_overwrites s + of_nat 128]"
        using c ev by (simp add: trace_emit_log [OF assms] len TRACE_CAPACITY_def map_tl)
      also have "\<dots> = map (\<lambda>i. trace_overwrites s + of_nat (Suc i)) [0..<128]"
        unfolding seqs c by (rule map_shift) simp
      finally show ?thesis by (simp add: c add.assoc)
    qed
    then show ?thesis
      using assms c nxt by (simp add: trace_inv_def trace_emit_eq Let_def TRACE_CAPACITY_def unat_mod16)
  qed
qed

lemma trace_init_inv:
  "length (trace_events s) = TRACE_CAPACITY \<Longrightarrow> trace_inv (trace_init s) \<and> trace_log (trace_init s) = []"
  by (simp add: trace_init_eq trace_inv_def trace_log_def TRACE_CAPACITY_def)

text \<open>A run of emitted events, and the event records it produces.\<close>

type_synonym emission = "trace_type_t \<times> tid_t \<times> tid_t \<times> u64 \<times> u64"

definition emit :: "emission \<Rightarrow> 'a tracing_scheme \<Rightarrow> 'a tracing_scheme" where
  "emit e s = (case e of (type, tid, other, arg0, arg1) \<Rightarrow> trace_emit type tid other arg0 arg1 s)"

primrec emitted :: "emission list \<Rightarrow> 'a tracing_scheme \<Rightarrow> trace_event list" where
  "emitted [] s = []"
| "emitted (e # es) s =
     (case e of (type, tid, other, arg0, arg1) \<Rightarrow> new_event type tid other arg0 arg1 s) # emitted es (emit e s)"

lemma emit_log:
  assumes "trace_inv s"
  shows "trace_inv (emit e s) \<and> trace_log (emit e s) =
    drop (Suc (length (trace_log s)) - TRACE_CAPACITY) (trace_log s @ emitted [e] s)"
proof -
  obtain type tid other arg0 arg1 where e: "e = (type, tid, other, arg0, arg1)" by (cases e)
  have le: "length (trace_log s) \<le> TRACE_CAPACITY" using assms by (simp add: trace_inv_def trace_log_def)
  show ?thesis
    using trace_emit_inv [OF assms] trace_emit_log [OF assms] le
    by (cases "trace_log s") (auto simp: emit_def e TRACE_CAPACITY_def)
qed

lemma length_emitted: "length (emitted es s) = length es"
  by (induction es arbitrary: s) simp_all

lemma keep_latest:
  fixes L E :: "'e list" and x :: 'e and n :: nat
  defines "K \<equiv> drop (Suc (length L) - n) (L @ [x])"
  shows "drop (length K + length E - n) (K @ E) = drop (length L + Suc (length E) - n) (L @ x # E)"
proof -
  let ?k = "Suc (length L) - n"
  have "K @ E = drop ?k (L @ x # E)" by (cases n) (simp_all add: K_def)
  moreover have "length K + length E - n + ?k = length L + Suc (length E) - n" by (simp add: K_def)
  ultimately show ?thesis by (simp only: drop_drop)
qed

text \<open>
  C38: Whatever is emitted, the trace holds the latest 128 events in the order they were
  emitted, numbered consecutively up to the next sequence number, and
  \<open>trace_overwrites\<close> counts the events that were dropped.
\<close>

theorem trace_keeps_latest:
  fixes s :: "'a tracing_scheme"
  assumes "trace_inv s"
  shows "trace_log (fold emit es s) =
      drop (length (trace_log s) + length es - TRACE_CAPACITY) (trace_log s @ emitted es s) \<and>
    map ev_seq (trace_log (fold emit es s)) =
      map (\<lambda>i. trace_overwrites (fold emit es s) + of_nat i) [0..<length (trace_log (fold emit es s))] \<and>
    trace_next_seq (fold emit es s) = trace_overwrites (fold emit es s) + of_nat (length (trace_log (fold emit es s)))"
proof -
  have "trace_inv (fold emit es s) \<and> trace_log (fold emit es s) =
      drop (length (trace_log s) + length es - TRACE_CAPACITY) (trace_log s @ emitted es s)"
    using assms
  proof (induction es arbitrary: s)
    case Nil
    then show ?case by (simp add: trace_inv_def trace_log_def)
  next
    case (Cons e es)
    from Cons.IH [of "emit e s"] emit_log [OF Cons.prems, of e] show ?case
      using keep_latest [where L = "trace_log s" and x = "hd (emitted [e] s)" and n = TRACE_CAPACITY and
          E = "emitted es (emit e s)"]
      by (simp add: length_emitted)
  qed
  moreover have "map ev_seq (trace_log t) = map (\<lambda>i. trace_overwrites t + of_nat i) [0..<length (trace_log t)] \<and>
      trace_next_seq t = trace_overwrites t + of_nat (length (trace_log t))"
    if "trace_inv t" for t :: "'a tracing_scheme"
    using that by (simp add: trace_inv_def trace_log_def)
  ultimately show ?thesis by blast
qed

theorem trace_keeps_latest_witness:
  "\<exists>s :: tracing. trace_inv s \<and>
     length (trace_log (fold emit (replicate 200 (TRACE_IDLE, 0, THREAD_INVALID_TID, 0, 0)) s)) = 128"
proof -
  let ?s = "undefined\<lparr>trace_events := replicate 128 undefined\<rparr> :: tracing"
  have inv: "trace_inv (trace_init ?s)" "trace_log (trace_init ?s) = []"
    using trace_init_inv [of ?s] by (simp_all add: TRACE_CAPACITY_def)
  show ?thesis
    using trace_keeps_latest [OF inv(1), of "replicate 200 (TRACE_IDLE, 0, THREAD_INVALID_TID, 0, 0)"] inv
    by (intro exI [of _ "trace_init ?s"]) (simp add: length_emitted TRACE_CAPACITY_def)
qed

end
