(* ===== verification/Tid_Queue.thy ===== *)
theory Tid_Queue
  imports Trace
begin

text \<open>
  The three queues of thread ids in \<^verbatim>\<open>kernel/core/thread.c\<close>: the ready queue
  (\<open>tid_queue\<close>) and the wait queues are rings, the sleep queue is an array sorted by
  wake-up tick. Each is shown to implement operations on lists; the two rings share the
  contract \<open>tid_fifo\<close>.
\<close>

section \<open>The data structures\<close>

definition THREAD_MAX :: nat where "THREAD_MAX = 8"

record tid_queue =
  tq_tids :: "tid_t list"
  tq_head :: u16
  tq_tail :: u16
  tq_count :: u16

record wait_queue =
  wq_tids :: "tid_t list"
  wq_head :: u16
  wq_tail :: u16
  wq_count :: u16
  wq_name :: "string option"

record sleep_queue =
  sq_tids :: "tid_t list"
  sq_count :: u16

definition tid_is_valid :: "tid_t \<Rightarrow> bool" where
  "tid_is_valid tid \<longleftrightarrow> unat tid < THREAD_MAX"

definition tid_is_real :: "tid_t \<Rightarrow> bool" where
  "tid_is_real tid \<longleftrightarrow> tid > THREAD_NULL_TID \<and> unat tid < THREAD_MAX"

definition tid_queue_init :: "tid_queue \<Rightarrow> tid_queue" where
  "tid_queue_init q = q\<lparr>tq_head := 0, tq_tail := 0, tq_count := 0\<rparr>"

definition tid_queue_empty :: "tid_queue \<Rightarrow> bool" where
  "tid_queue_empty q \<longleftrightarrow> tq_count q = 0"

definition tid_queue_full :: "tid_queue \<Rightarrow> bool" where
  "tid_queue_full q \<longleftrightarrow> unat (tq_count q) = THREAD_MAX - 1"

definition tid_queue_push :: "tid_queue \<Rightarrow> tid_t \<Rightarrow> int \<times> tid_queue" where
  "tid_queue_push q tid =
     (if tid_queue_full q then (-1, q)
      else let q = q\<lparr>tq_tids := (tq_tids q)[unat (tq_tail q) := tid]\<rparr>;
               q = q\<lparr>tq_tail := of_nat ((unat (tq_tail q) + 1) mod (THREAD_MAX - 1))\<rparr>
           in (0, q\<lparr>tq_count := tq_count q + 1\<rparr>))"

definition tid_queue_pop :: "tid_queue \<Rightarrow> tid_t \<times> tid_queue" where
  "tid_queue_pop q =
     (if tid_queue_empty q then (THREAD_INVALID_TID, q)
      else let tid = tq_tids q ! unat (tq_head q);
               q = q\<lparr>tq_head := of_nat ((unat (tq_head q) + 1) mod (THREAD_MAX - 1))\<rparr>
           in (tid, q\<lparr>tq_count := tq_count q - 1\<rparr>))"

definition wait_queue_empty :: "wait_queue \<Rightarrow> bool" where
  "wait_queue_empty q \<longleftrightarrow> wq_count q = 0"

definition wait_queue_full :: "wait_queue \<Rightarrow> bool" where
  "wait_queue_full q \<longleftrightarrow> unat (wq_count q) = THREAD_MAX - 1"

definition wait_queue_push :: "wait_queue \<Rightarrow> tid_t \<Rightarrow> (unit \<times> wait_queue) res" where
  "wait_queue_push q tid =
     (if wait_queue_full q then Inl ''wait queue full''
      else let q = q\<lparr>wq_tids := (wq_tids q)[unat (wq_tail q) := tid]\<rparr>;
               q = q\<lparr>wq_tail := of_nat ((unat (wq_tail q) + 1) mod (THREAD_MAX - 1))\<rparr>
           in Inr ((), q\<lparr>wq_count := wq_count q + 1\<rparr>))"

definition wait_queue_pop :: "wait_queue \<Rightarrow> tid_t \<times> wait_queue" where
  "wait_queue_pop q =
     (if wait_queue_empty q then (THREAD_INVALID_TID, q)
      else let tid = wq_tids q ! unat (wq_head q);
               q = q\<lparr>wq_head := of_nat ((unat (wq_head q) + 1) mod (THREAD_MAX - 1))\<rparr>
           in (tid, q\<lparr>wq_count := wq_count q - 1\<rparr>))"

text \<open>
  \<open>wait_queue_remove\<close> searches for the first position that holds the thread and moves
  the later entries one place forward in ring order.
\<close>

definition wait_queue_find :: "wait_queue \<Rightarrow> tid_t \<Rightarrow> nat option" where
  "wait_queue_find q tid =
     find (\<lambda>i. wq_tids q ! ((unat (wq_head q) + i) mod (THREAD_MAX - 1)) = tid) [0..<unat (wq_count q)]"

definition wait_queue_remove :: "wait_queue \<Rightarrow> tid_t \<Rightarrow> int \<times> wait_queue" where
  "wait_queue_remove q tid =
     (case wait_queue_find q tid of
        None \<Rightarrow> (-1, q)
      | Some found \<Rightarrow>
          let q = fold (\<lambda>i q. let dst = (unat (wq_head q) + i) mod (THREAD_MAX - 1);
                                 src = (unat (wq_head q) + i + 1) mod (THREAD_MAX - 1)
                             in q\<lparr>wq_tids := (wq_tids q)[dst := wq_tids q ! src]\<rparr>)
                    [found..<unat (wq_count q) - 1] q;
              q = q\<lparr>wq_count := wq_count q - 1\<rparr>
          in (0, q\<lparr>wq_tail := of_nat ((unat (wq_head q) + unat (wq_count q)) mod (THREAD_MAX - 1))\<rparr>))"

definition sleep_queue_init :: "sleep_queue \<Rightarrow> sleep_queue" where
  "sleep_queue_init q = q\<lparr>sq_count := 0\<rparr>"

definition sleep_queue_full :: "sleep_queue \<Rightarrow> bool" where
  "sleep_queue_full q \<longleftrightarrow> unat (sq_count q) = THREAD_MAX - 1"

definition sleep_queue_empty :: "sleep_queue \<Rightarrow> bool" where
  "sleep_queue_empty q \<longleftrightarrow> sq_count q = 0"

definition sleep_queue_peek :: "sleep_queue \<Rightarrow> tid_t" where
  "sleep_queue_peek q = (if sleep_queue_empty q then THREAD_INVALID_TID else sq_tids q ! 0)"

text \<open>
  The wake-up ticks are fields of the thread table, so the queue operations that compare
  them take them as the argument \<open>wake\<close>.
\<close>

function sleep_insert_index :: "(tid_t \<Rightarrow> u64) \<Rightarrow> u64 \<Rightarrow> sleep_queue \<Rightarrow> nat \<Rightarrow> nat" where
  "sleep_insert_index wake wake_tick q index =
     (if index < unat (sq_count q) \<and> wake (sq_tids q ! index) \<le> wake_tick
      then sleep_insert_index wake wake_tick q (index + 1) else index)"
  by pat_completeness auto

termination
  by (relation "measure (\<lambda>(_, _, q, index). unat (sq_count q) - index)") auto

declare sleep_insert_index.simps [simp del]

definition sleep_queue_insert :: "(tid_t \<Rightarrow> u64) \<Rightarrow> sleep_queue \<Rightarrow> tid_t \<Rightarrow> (unit \<times> sleep_queue) res" where
  "sleep_queue_insert wake q tid =
     (if sleep_queue_full q then Inl ''sleep queue full''
      else let wake_tick = wake tid;
               index = sleep_insert_index wake wake_tick q 0;
               q = fold (\<lambda>i q. q\<lparr>sq_tids := (sq_tids q)[i := sq_tids q ! (i - 1)]\<rparr>)
                     (rev [index + 1..<unat (sq_count q) + 1]) q;
               q = q\<lparr>sq_tids := (sq_tids q)[index := tid]\<rparr>
           in Inr ((), q\<lparr>sq_count := sq_count q + 1\<rparr>))"

definition sleep_shift :: "nat \<Rightarrow> sleep_queue \<Rightarrow> sleep_queue" where
  "sleep_shift i q = fold (\<lambda>j q. q\<lparr>sq_tids := (sq_tids q)[j - 1 := sq_tids q ! j]\<rparr>) [i + 1..<unat (sq_count q)] q"

definition sleep_queue_pop_head :: "sleep_queue \<Rightarrow> tid_t \<times> sleep_queue" where
  "sleep_queue_pop_head q =
     (if sleep_queue_empty q then (THREAD_INVALID_TID, q)
      else let tid = sq_tids q ! 0; q = sleep_shift 0 q in (tid, q\<lparr>sq_count := sq_count q - 1\<rparr>))"

definition sleep_queue_remove :: "sleep_queue \<Rightarrow> tid_t \<Rightarrow> int \<times> sleep_queue" where
  "sleep_queue_remove q tid =
     (case find (\<lambda>i. sq_tids q ! i = tid) [0..<unat (sq_count q)] of
        None \<Rightarrow> (-1, q)
      | Some i \<Rightarrow> let q = sleep_shift i q in (0, q\<lparr>sq_count := sq_count q - 1\<rparr>))"

section \<open>The contract of the rings\<close>

text \<open>
  A bounded first-in-first-out queue of thread ids: what the scheduler relies on when it
  pushes to and pops from the ready queue and the wait queues.
\<close>

locale tid_fifo =
  fixes ok :: "'q \<Rightarrow> bool" and items :: "'q \<Rightarrow> tid_t list"
    and push :: "'q \<Rightarrow> tid_t \<Rightarrow> 'q option" and pop :: "'q \<Rightarrow> tid_t \<times> 'q"
  assumes bounded: "ok q \<Longrightarrow> length (items q) \<le> THREAD_MAX - 1"
    and push_room: "ok q \<Longrightarrow> length (items q) < THREAD_MAX - 1 \<Longrightarrow>
      \<exists>q'. push q t = Some q' \<and> ok q' \<and> items q' = items q @ [t]"
    and push_full: "ok q \<Longrightarrow> length (items q) = THREAD_MAX - 1 \<Longrightarrow> push q t = None"
    and pop_empty: "ok q \<Longrightarrow> items q = [] \<Longrightarrow> pop q = (THREAD_INVALID_TID, q)"
    and pop_oldest: "ok q \<Longrightarrow> items q = t # ts \<Longrightarrow> \<exists>q'. pop q = (t, q') \<and> ok q' \<and> items q' = ts"
begin

primrec fill :: "tid_t list \<Rightarrow> 'q \<Rightarrow> 'q option" where
  "fill [] q = Some q"
| "fill (t # ts) q = (case push q t of None \<Rightarrow> None | Some q' \<Rightarrow> fill ts q')"

primrec drain :: "nat \<Rightarrow> 'q \<Rightarrow> tid_t list \<times> 'q" where
  "drain 0 q = ([], q)"
| "drain (Suc n) q = (let (t, q) = pop q; (ts, q) = drain n q in (t # ts, q))"

lemma fill_items:
  assumes "ok q" and "length (items q) + length ts \<le> THREAD_MAX - 1"
  shows "\<exists>q'. fill ts q = Some q' \<and> ok q' \<and> items q' = items q @ ts"
  using assms
proof (induction ts arbitrary: q)
  case (Cons t ts)
  obtain q1 where "push q t = Some q1" "ok q1" "items q1 = items q @ [t]"
    using push_room [of q t] Cons.prems by auto
  then show ?case using Cons.IH [of q1] Cons.prems by simp
qed simp

lemma drain_items:
  assumes "ok q" and "items q = ts @ us"
  shows "\<exists>q'. drain (length ts) q = (ts, q') \<and> ok q' \<and> items q' = us"
  using assms
proof (induction ts arbitrary: q)
  case (Cons t ts)
  obtain q1 where q1: "pop q = (t, q1)" "ok q1" "items q1 = ts @ us"
    using pop_oldest [of q t "ts @ us"] Cons.prems by auto
  then show ?case using Cons.IH [of q1] by (auto simp: Let_def)
qed simp

text \<open>What is put in comes out, in order.\<close>

lemma fill_drain:
  assumes "ok q" and "items q = []" and "length ts \<le> THREAD_MAX - 1"
  shows "\<exists>q'. fill ts q = Some q' \<and> (\<exists>q''. drain (length ts) q' = (ts, q'') \<and> ok q'' \<and> items q'' = [])"
  using fill_items [OF assms(1), of ts] drain_items [of _ ts "[]"] assms by fastforce

end

section \<open>The rings meet the contract\<close>

definition tq_items :: "tid_queue \<Rightarrow> tid_t list" where
  "tq_items q = ring (THREAD_MAX - 1) (tq_tids q) (unat (tq_head q)) (unat (tq_count q))"

definition tq_ok :: "tid_queue \<Rightarrow> bool" where
  "tq_ok q \<longleftrightarrow> length (tq_tids q) = THREAD_MAX - 1 \<and> unat (tq_head q) < THREAD_MAX - 1 \<and>
     unat (tq_count q) \<le> THREAD_MAX - 1 \<and>
     unat (tq_tail q) = (unat (tq_head q) + unat (tq_count q)) mod (THREAD_MAX - 1)"

definition wq_items :: "wait_queue \<Rightarrow> tid_t list" where
  "wq_items q = ring (THREAD_MAX - 1) (wq_tids q) (unat (wq_head q)) (unat (wq_count q))"

definition wq_ok :: "wait_queue \<Rightarrow> bool" where
  "wq_ok q \<longleftrightarrow> length (wq_tids q) = THREAD_MAX - 1 \<and> unat (wq_head q) < THREAD_MAX - 1 \<and>
     unat (wq_count q) \<le> THREAD_MAX - 1 \<and>
     unat (wq_tail q) = (unat (wq_head q) + unat (wq_count q)) mod (THREAD_MAX - 1)"

lemma unat_dec16: "c \<noteq> 0 \<Longrightarrow> unat (c - 1 :: u16) = unat c - 1"
  by (simp add: unat_minus_one)

lemma count_pos:
  fixes c :: u16
  assumes "c \<noteq> 0"
  shows "unat c = Suc (unat (c - 1))"
proof -
  have "0 < unat c" using assms by (simp add: unat_gt_0)
  then show ?thesis by (simp only: unat_dec16 [OF assms] Suc_pred' [symmetric])
qed

interpretation rq: tid_fifo tq_ok tq_items
  "\<lambda>q t. case tid_queue_push q t of (r, q') \<Rightarrow> if r < 0 then None else Some q'" tid_queue_pop
proof unfold_locales
  fix q :: tid_queue and t :: tid_t and ts
  show "tq_ok q \<Longrightarrow> length (tq_items q) \<le> THREAD_MAX - 1"
    by (simp add: tq_ok_def tq_items_def)
  assume ok: "tq_ok q"
  then have bnd: "unat (tq_head q) < 7" "unat (tq_count q) \<le> 7" by (simp_all add: tq_ok_def THREAD_MAX_def)
  show "length (tq_items q) = THREAD_MAX - 1 \<Longrightarrow>
      (case tid_queue_push q t of (r, q') \<Rightarrow> if r < 0 then None else Some q') = None"
    by (simp add: tq_items_def tid_queue_push_def tid_queue_full_def)
  show "tq_items q = [] \<Longrightarrow> tid_queue_pop q = (THREAD_INVALID_TID, q)"
    by (simp add: tq_items_def tid_queue_pop_def tid_queue_empty_def ring_def unat_eq_0)
  show "\<exists>q'. (case tid_queue_push q t of (r, q') \<Rightarrow> if r < 0 then None else Some q') = Some q' \<and>
      tq_ok q' \<and> tq_items q' = tq_items q @ [t]" if room: "length (tq_items q) < THREAD_MAX - 1"
  proof -
    have "unat (tq_count q) < 7" using room by (simp add: tq_items_def THREAD_MAX_def)
    then have "unat (tq_count q + 1) = Suc (unat (tq_count q))" by (intro unat_inc16) simp
    with ok room show ?thesis
      by (simp add: tid_queue_push_def tid_queue_full_def Let_def tq_ok_def tq_items_def THREAD_MAX_def
          ring_push unat_mod16 mod_Suc_eq)
  qed
  show "\<exists>q'. tid_queue_pop q = (t, q') \<and> tq_ok q' \<and> tq_items q' = ts" if it: "tq_items q = t # ts"
  proof -
    have nz: "tq_count q \<noteq> 0" using it by (auto simp: tq_items_def)
    note c = count_pos [OF nz]
    have "tq_items q = tq_tids q ! unat (tq_head q) #
        ring 7 (tq_tids q) (Suc (unat (tq_head q)) mod 7) (unat (tq_count q - 1))"
      unfolding tq_items_def c by (simp add: THREAD_MAX_def ring_pop bnd)
    with it ok nz c show ?thesis
      by (simp add: tid_queue_pop_def tid_queue_empty_def Let_def tq_ok_def tq_items_def THREAD_MAX_def unat_mod16
          mod_add_left_eq)
  qed
qed

interpretation wq: tid_fifo wq_ok wq_items
  "\<lambda>q t. case wait_queue_push q t of Inl _ \<Rightarrow> None | Inr (_, q') \<Rightarrow> Some q'" wait_queue_pop
proof unfold_locales
  fix q :: wait_queue and t :: tid_t and ts
  show "wq_ok q \<Longrightarrow> length (wq_items q) \<le> THREAD_MAX - 1"
    by (simp add: wq_ok_def wq_items_def)
  assume ok: "wq_ok q"
  then have bnd: "unat (wq_head q) < 7" "unat (wq_count q) \<le> 7" by (simp_all add: wq_ok_def THREAD_MAX_def)
  show "length (wq_items q) = THREAD_MAX - 1 \<Longrightarrow>
      (case wait_queue_push q t of Inl _ \<Rightarrow> None | Inr (_, q') \<Rightarrow> Some q') = None"
    by (simp add: wq_items_def wait_queue_push_def wait_queue_full_def)
  show "wq_items q = [] \<Longrightarrow> wait_queue_pop q = (THREAD_INVALID_TID, q)"
    by (simp add: wq_items_def wait_queue_pop_def wait_queue_empty_def ring_def unat_eq_0)
  show "\<exists>q'. (case wait_queue_push q t of Inl _ \<Rightarrow> None | Inr (_, q') \<Rightarrow> Some q') = Some q' \<and>
      wq_ok q' \<and> wq_items q' = wq_items q @ [t]" if room: "length (wq_items q) < THREAD_MAX - 1"
  proof -
    have "unat (wq_count q) < 7" using room by (simp add: wq_items_def THREAD_MAX_def)
    then have "unat (wq_count q + 1) = Suc (unat (wq_count q))" by (intro unat_inc16) simp
    with ok room show ?thesis
      by (simp add: wait_queue_push_def wait_queue_full_def Let_def wq_ok_def wq_items_def THREAD_MAX_def
          ring_push unat_mod16 mod_Suc_eq)
  qed
  show "\<exists>q'. wait_queue_pop q = (t, q') \<and> wq_ok q' \<and> wq_items q' = ts" if it: "wq_items q = t # ts"
  proof -
    have nz: "wq_count q \<noteq> 0" using it by (auto simp: wq_items_def)
    note c = count_pos [OF nz]
    have "wq_items q = wq_tids q ! unat (wq_head q) #
        ring 7 (wq_tids q) (Suc (unat (wq_head q)) mod 7) (unat (wq_count q - 1))"
      unfolding wq_items_def c by (simp add: THREAD_MAX_def ring_pop bnd)
    with it ok nz c show ?thesis
      by (simp add: wait_queue_pop_def wait_queue_empty_def Let_def wq_ok_def wq_items_def THREAD_MAX_def unat_mod16
          mod_add_left_eq)
  qed
qed

text \<open>The operations as the scheduler calls them.\<close>

lemma tid_queue_push_items:
  assumes "tq_ok q" and "length (tq_items q) < THREAD_MAX - 1"
  obtains q' where "tid_queue_push q t = (0, q')" and "tq_ok q'" and "tq_items q' = tq_items q @ [t]"
  using rq.push_room [OF assms, of t] assms(2)
  by (auto simp: tid_queue_push_def Let_def split: if_splits)

lemma wait_queue_push_items:
  assumes "wq_ok q" and "length (wq_items q) < THREAD_MAX - 1"
  obtains q' where "wait_queue_push q t = Inr ((), q')" and "wq_ok q'" and "wq_items q' = wq_items q @ [t]"
  using wq.push_room [OF assms, of t]
  by (auto simp: wait_queue_push_def Let_def split: if_splits)

section \<open>Removing a waiter\<close>

lemma find_first:
  "find P [0..<n] = Some i \<longleftrightarrow> i < n \<and> P i \<and> (\<forall>j<i. \<not> P j)"
  by (auto simp: find_Some_iff)

lemma wait_shift_fold:
  "fold (\<lambda>i q. let dst = (unat (wq_head q) + i) mod n; src = (unat (wq_head q) + i + 1) mod n
      in q\<lparr>wq_tids := (wq_tids q)[dst := wq_tids q ! src]\<rparr>) is q =
   q\<lparr>wq_tids := fold (shift_step n (unat (wq_head q))) is (wq_tids q)\<rparr>"
  by (induction "is" arbitrary: q) (simp_all add: Let_def shift_step_def)

lemma wait_queue_remove_items:
  assumes ok: "wq_ok q"
  shows "case wait_queue_remove q t of (r, q') \<Rightarrow>
    (if t \<in> set (wq_items q) then r = 0 \<and> wq_ok q' \<and> wq_items q' = remove1 t (wq_items q) else r = -1 \<and> q' = q)"
proof -
  let ?h = "unat (wq_head q)" and ?c = "unat (wq_count q)"
  have it: "wq_items q ! i = wq_tids q ! ((?h + i) mod 7)" if "i < ?c" for i
    using that by (simp add: wq_items_def THREAD_MAX_def)
  have len: "length (wq_items q) = ?c" by (simp add: wq_items_def)
  show ?thesis
  proof (cases "wait_queue_find q t")
    case None
    then have "\<forall>i<?c. wq_items q ! i \<noteq> t"
      by (auto simp: wait_queue_find_def find_None_iff it THREAD_MAX_def)
    then have "t \<notin> set (wq_items q)" by (auto simp: in_set_conv_nth len)
    with None show ?thesis by (simp add: wait_queue_remove_def)
  next
    case (Some i)
    then have i: "i < ?c" "wq_items q ! i = t" "\<forall>j<i. wq_items q ! j \<noteq> t"
      by (auto simp: wait_queue_find_def find_first THREAD_MAX_def it)
    then have mem: "t \<in> set (wq_items q)" by (auto simp: in_set_conv_nth len)
    have nz: "wq_count q \<noteq> 0" using i(1) by auto
    have bnd: "length (wq_tids q) = 7" "?c \<le> 7" "?h < 7" using ok by (simp_all add: wq_ok_def THREAD_MAX_def)
    have "take i (wq_items q) @ drop (Suc i) (wq_items q) = remove1 t (wq_items q)"
      by (rule remove1_at) (use i len in simp_all)
    then have rm: "ring 7 (fold (shift_step 7 ?h) [i..<?c - 1] (wq_tids q)) ?h (unat (wq_count q - 1)) =
        remove1 t (wq_items q)"
      using shift_fold_remove [OF i(1) bnd(2,1), of ?h] nz
      by (simp add: unat_dec16 wq_items_def THREAD_MAX_def)
    have "unat (wq_count q - 1) \<le> 7" using bnd nz by (simp add: unat_dec16)
    then show ?thesis
      using Some mem rm bnd unfolding wait_queue_remove_def wait_shift_fold
      by (simp add: Let_def wq_ok_def wq_items_def THREAD_MAX_def unat_mod16)
  qed
qed

section \<open>The sleep queue is a sorted list\<close>

definition sq_items :: "sleep_queue \<Rightarrow> tid_t list" where
  "sq_items q = take (unat (sq_count q)) (sq_tids q)"

definition sq_ok :: "sleep_queue \<Rightarrow> bool" where
  "sq_ok q \<longleftrightarrow> length (sq_tids q) = THREAD_MAX - 1 \<and> unat (sq_count q) \<le> THREAD_MAX - 1"

lemma sq_items_nth: "sq_ok q \<Longrightarrow> i < unat (sq_count q) \<Longrightarrow> sq_items q ! i = sq_tids q ! i"
  by (simp add: sq_items_def)

lemma length_sq_items: "sq_ok q \<Longrightarrow> length (sq_items q) = unat (sq_count q)"
  by (simp add: sq_ok_def sq_items_def)

text \<open>Inserting behind every sleeper that wakes no later keeps arrival order among equals.\<close>

definition insert_sleeper :: "(tid_t \<Rightarrow> u64) \<Rightarrow> tid_t \<Rightarrow> tid_t list \<Rightarrow> tid_t list" where
  "insert_sleeper wake t ts = takeWhile (\<lambda>x. wake x \<le> wake t) ts @ t # dropWhile (\<lambda>x. wake x \<le> wake t) ts"

lemma insert_index:
  assumes "sq_ok q" and "index \<le> unat (sq_count q)"
  shows "sleep_insert_index wake w q index = index + length (takeWhile (\<lambda>x. wake x \<le> w) (drop index (sq_items q)))"
  using assms
proof (induction wake w q index rule: sleep_insert_index.induct)
  case (1 wake w q index)
  show ?case
  proof (cases "index < unat (sq_count q)")
    case True
    then have d: "drop index (sq_items q) = sq_tids q ! index # drop (Suc index) (sq_items q)"
      using 1(2) by (metis Cons_nth_drop_Suc length_sq_items sq_items_nth)
    show ?thesis
    proof (cases "wake (sq_tids q ! index) \<le> w")
      case le: True
      then show ?thesis
        using 1(1) [OF conjI [OF True le]] 1(2) True d
        by (subst sleep_insert_index.simps) simp
    next
      case False
      then show ?thesis using d by (subst sleep_insert_index.simps) simp
    qed
  next
    case False
    then show ?thesis
      using 1(2,3) length_sq_items [OF 1(2)] by (subst sleep_insert_index.simps) simp
  qed
qed

lemma shift_up_nth:
  assumes "c < length xs" and "k < length xs"
  shows "fold (\<lambda>j xs. xs[j := xs ! (j - 1)]) (rev [i + 1..<c + 1]) xs ! k =
    (if i < k \<and> k \<le> c then xs ! (k - 1) else xs ! k)"
  using assms
proof (induction c arbitrary: xs)
  case (Suc c)
  show ?case
  proof (cases "i \<le> c")
    case True
    then have "rev [i + 1..<Suc c + 1] = Suc c # rev [i + 1..<c + 1]" by simp
    then show ?thesis using Suc True by (auto simp: nth_list_update)
  next
    case False
    then show ?thesis by auto
  qed
qed auto

lemma length_fold_update [simp]: "length (fold (\<lambda>j xs. xs[f j := g j xs]) is xs) = length xs"
  by (induction "is" arbitrary: xs) simp_all

lemma sq_fold:
  "fold (\<lambda>j q. q\<lparr>sq_tids := (sq_tids q)[f j := sq_tids q ! g j]\<rparr>) is q =
   q\<lparr>sq_tids := fold (\<lambda>j xs. xs[f j := xs ! g j]) is (sq_tids q)\<rparr>"
  by (induction "is" arbitrary: q) simp_all

lemma sleep_queue_insert_items:
  assumes ok: "sq_ok q" and room: "length (sq_items q) < THREAD_MAX - 1"
  obtains q' where "sleep_queue_insert wake q t = Inr ((), q')" and "sq_ok q'"
    and "sq_items q' = insert_sleeper wake t (sq_items q)"
proof -
  let ?c = "unat (sq_count q)" and ?T = "takeWhile (\<lambda>x. wake x \<le> wake t) (sq_items q)"
  let ?i = "length ?T"
  let ?xs = "(fold (\<lambda>j xs. xs[j := xs ! (j - 1)]) (rev [?i + 1..<?c + 1]) (sq_tids q))[?i := t]"
  define q' where "q' = q\<lparr>sq_tids := ?xs, sq_count := sq_count q + 1\<rparr>"
  have bnd: "length (sq_tids q) = 7" "?c < 7" "length (sq_items q) = ?c"
    using ok room length_sq_items [OF ok] by (simp_all add: sq_ok_def THREAD_MAX_def)
  have ile: "?i \<le> ?c" using length_takeWhile_le [of "\<lambda>x. wake x \<le> wake t" "sq_items q"] bnd(3) by simp
  have c1: "unat (sq_count q + 1) = Suc ?c" using bnd by (intro unat_inc16) simp
  have idx: "sleep_insert_index wake (wake t) q 0 = ?i" using insert_index [OF ok, of 0] by simp
  have run: "sleep_queue_insert wake q t = Inr ((), q')"
    using bnd(2) unfolding sleep_queue_insert_def Let_def idx sq_fold
    by (simp add: sleep_queue_full_def THREAD_MAX_def q'_def)
  have "sq_ok q'" using bnd c1 by (simp add: sq_ok_def q'_def THREAD_MAX_def)
  moreover have "sq_items q' = insert_sleeper wake t (sq_items q)"
  proof -
    have TD: "insert_sleeper wake t (sq_items q) = take ?i (sq_items q) @ t # drop ?i (sq_items q)"
      by (simp add: insert_sleeper_def takeWhile_eq_take [symmetric] dropWhile_eq_drop)
    have "take (Suc ?c) ?xs = take ?i (sq_items q) @ t # drop ?i (sq_items q)"
    proof (rule nth_equalityI)
      show "length (take (Suc ?c) ?xs) = length (take ?i (sq_items q) @ t # drop ?i (sq_items q))"
        using bnd ile by simp
      fix k
      assume "k < length (take (Suc ?c) ?xs)"
      then have k: "k \<le> ?c" by simp
      then have x: "?xs ! k = (if k = ?i then t else if ?i < k then sq_tids q ! (k - 1) else sq_tids q ! k)"
        using bnd ile shift_up_nth [of ?c "sq_tids q" k ?i]
        by (simp add: nth_list_update del: upt_Suc)
      have "(take ?i (sq_items q) @ t # drop ?i (sq_items q)) ! k =
          (if k = ?i then t else if ?i < k then sq_items q ! (k - 1) else sq_items q ! k)"
        using k ile bnd(3) by (auto simp: nth_append nth_Cons' min_def)
      then show "take (Suc ?c) ?xs ! k = (take ?i (sq_items q) @ t # drop ?i (sq_items q)) ! k"
        using x k ile sq_items_nth [OF ok] by auto
    qed
    moreover have "sq_items q' = take (Suc ?c) ?xs"
      by (simp add: sq_items_def q'_def c1 del: upt_Suc)
    ultimately show ?thesis by (simp only: TD)
  qed
  ultimately show thesis using run that by blast
qed

lemma sleep_shift_items:
  assumes ok: "sq_ok q" and i: "i < unat (sq_count q)"
  defines "q' \<equiv> (sleep_shift i q)\<lparr>sq_count := sq_count q - 1\<rparr>"
  shows "sq_ok q'" and "sq_items q' = take i (sq_items q) @ drop (Suc i) (sq_items q)"
proof -
  let ?c = "unat (sq_count q)"
  have bnd: "length (sq_tids q) = 7" "?c \<le> 7" using ok by (simp_all add: sq_ok_def THREAD_MAX_def)
  have nz: "sq_count q \<noteq> 0" using i by auto
  have r: "ring 7 xs 0 c = take c xs" if "length xs = 7" "c \<le> 7" for xs :: "tid_t list" and c
    using that by (intro nth_equalityI) simp_all
  have step: "fold (\<lambda>j xs. xs[j - 1 := xs ! j]) [Suc i..<c] xs = fold (shift_step 7 0) [i..<c - 1] xs"
    if "c \<le> 7" for c and xs :: "tid_t list"
  proof -
    have "[Suc i..<c] = map Suc [i..<c - 1]" by (cases c) (simp_all add: map_Suc_upt)
    then show ?thesis using that
      by (auto simp: fold_map shift_step_def fun_eq_iff intro!: fold_cong)
  qed
  have tids: "sq_tids q' = fold (shift_step 7 0) [i..<?c - 1] (sq_tids q)"
    using step [OF bnd(2)] by (simp add: q'_def sleep_shift_def sq_fold)
  have c1: "unat (sq_count q') = ?c - 1" using nz by (simp add: q'_def unat_dec16)
  show "sq_ok q'" using tids c1 bnd by (simp add: sq_ok_def THREAD_MAX_def)
  have "ring 7 (sq_tids q') 0 (?c - 1) = take i (ring 7 (sq_tids q) 0 ?c) @ drop (Suc i) (ring 7 (sq_tids q) 0 ?c)"
    using shift_fold_remove [OF i bnd(2,1), of 0] by (simp only: tids)
  then show "sq_items q' = take i (sq_items q) @ drop (Suc i) (sq_items q)"
    using bnd c1 tids by (simp add: sq_items_def r)
qed

lemma sleep_queue_pop_items:
  assumes "sq_ok q" and "sq_items q = t # ts"
  obtains q' where "sleep_queue_peek q = t" and "sleep_queue_pop_head q = (t, q')" and "sq_ok q'" and "sq_items q' = ts"
proof -
  have c: "0 < unat (sq_count q)" using length_sq_items [OF assms(1)] assms(2) by simp
  have "sq_tids q ! 0 = t" using sq_items_nth [OF assms(1) c] assms(2) by simp
  moreover have "sq_count (sleep_shift 0 q) = sq_count q" by (simp add: sleep_shift_def sq_fold)
  ultimately show thesis
    using that [of "(sleep_shift 0 q)\<lparr>sq_count := sq_count q - 1\<rparr>"] sleep_shift_items [OF assms(1) c] assms(2) c
    by (auto simp: sleep_queue_pop_head_def sleep_queue_peek_def sleep_queue_empty_def unat_gt_0 Let_def)
qed

lemma sleep_queue_empty_items:
  assumes "sq_ok q"
  shows "sq_items q = [] \<longleftrightarrow> sleep_queue_empty q"
  using length_sq_items [OF assms] by (auto simp: sleep_queue_empty_def unat_eq_0)

lemma sleep_queue_remove_items:
  assumes ok: "sq_ok q"
  shows "case sleep_queue_remove q t of (r, q') \<Rightarrow>
    (if t \<in> set (sq_items q) then r = 0 \<and> sq_ok q' \<and> sq_items q' = remove1 t (sq_items q) else r = -1 \<and> q' = q)"
proof (cases "find (\<lambda>i. sq_tids q ! i = t) [0..<unat (sq_count q)]")
  case None
  then have "\<forall>i<unat (sq_count q). sq_items q ! i \<noteq> t"
    by (auto simp: find_None_iff sq_items_nth [OF ok])
  then have "t \<notin> set (sq_items q)" by (auto simp: in_set_conv_nth length_sq_items [OF ok])
  with None show ?thesis by (simp add: sleep_queue_remove_def)
next
  case (Some i)
  then have i: "i < unat (sq_count q)" "sq_items q ! i = t" "\<forall>j<i. sq_items q ! j \<noteq> t"
    by (auto simp: find_first sq_items_nth [OF ok])
  then have mem: "t \<in> set (sq_items q)" by (auto simp: in_set_conv_nth length_sq_items [OF ok])
  have "take i (sq_items q) @ drop (Suc i) (sq_items q) = remove1 t (sq_items q)"
    by (rule remove1_at) (use i length_sq_items [OF ok] in simp_all)
  moreover have "sq_count (sleep_shift i q) = sq_count q" by (simp add: sleep_shift_def sq_fold)
  ultimately show ?thesis
    using Some mem sleep_shift_items [OF ok i(1)] by (simp add: sleep_queue_remove_def Let_def)
qed

end
