(* ===== verification/Thread.thy ===== *)
theory Thread
  imports Tid_Queue
begin

text \<open>
  The scheduler, \<^verbatim>\<open>kernel/core/thread.c\<close>: the thread table, the ready, sleep
  and wait queues, and every operation on them, translated statement by statement. The
  invariant and the correctness of the operations are in the theories that follow.
\<close>

section \<open>State\<close>

datatype thread_state_t = THREAD_UNUSED | THREAD_READY | THREAD_RUNNING | THREAD_BLOCKED | THREAD_EXITED

datatype thread_wait_reason_t =
  THREAD_WAIT_NONE | THREAD_WAIT_SLEEP | THREAD_WAIT_QUEUE | THREAD_WAIT_QUEUE_TIMEOUT

text \<open>
  Pointers are addresses with 0 for \<open>NULL\<close>; the flags are the C bytes that hold 0 or
  1. Only \<open>name\<close>, which the kernel stores and prints, is a string.
\<close>

record thread =
  th_tid :: tid_t
  th_state :: thread_state_t
  th_wait_reason :: thread_wait_reason_t
  th_wait_queue :: u64
  th_kernel_sp :: u64
  th_trap_frame :: u64
  th_address_space :: u64
  th_user_task :: u64
  th_quantum_ticks :: u16
  th_in_ready_queue :: bool
  th_in_sleep_queue :: bool
  th_in_wait_queue :: bool
  th_wake_tick :: u64
  th_wait_result :: int
  th_entry :: u64
  th_arg :: u64
  th_name :: "string option"

record usercopy_probe =
  up_active :: bool
  up_pc_start :: u64
  up_pc_end :: u64
  up_fixup_pc :: u64
  up_user_start :: u64
  up_user_end :: u64
  up_fault_cause :: u64

text \<open>
  The static variables of the file. \<open>threads\<close> and \<open>usercopy_probes\<close> are
  arrays indexed by thread id; wait queues live in their owners and are reached by address;
  \<open>current_thread\<close> is a pointer into the thread table, given by its index.
\<close>

record sched = tracing +
  threads :: "tid_t \<Rightarrow> thread"
  usercopy_probes :: "tid_t \<Rightarrow> usercopy_probe"
  ready_queue :: tid_queue
  sleep_queue :: sleep_queue
  wait_queues :: "u64 \<Rightarrow> wait_queue"
  current_thread :: "tid_t option"
  threads_initialized :: bool
  threads_started :: bool
  reschedule_requested :: bool
  preempt_disable_depth :: u16

definition THREAD_STACK_SIZE :: u64 where "THREAD_STACK_SIZE = 4096"
definition THREAD_QUANTUM_TICKS :: u16 where "THREAD_QUANTUM_TICKS = 10"
definition WAIT_OK :: int where "WAIT_OK = 0"
definition WAIT_TIMEOUT :: int where "WAIT_TIMEOUT = -1"
definition THREAD_TRAP_YIELD :: u64 where "THREAD_TRAP_YIELD = 1"
definition THREAD_TRAP_EXIT :: u64 where "THREAD_TRAP_EXIT = 2"
definition THREAD_TRAP_SLEEP :: u64 where "THREAD_TRAP_SLEEP = 3"
definition THREAD_TRAP_WAIT :: u64 where "THREAD_TRAP_WAIT = 4"
definition THREAD_TRAP_WAIT_TIMEOUT :: u64 where "THREAD_TRAP_WAIT_TIMEOUT = 5"
definition TRAP_FRAME_STACK_SIZE :: u64 where "TRAP_FRAME_STACK_SIZE = 288"

definition upd_thread :: "tid_t \<Rightarrow> (thread \<Rightarrow> thread) \<Rightarrow> 'a sched_scheme \<Rightarrow> 'a sched_scheme" where
  "upd_thread tid f s = s\<lparr>threads := (threads s)(tid := f (threads s tid))\<rparr>"

section \<open>Queue membership\<close>

definition trap_cause_is_usercopy_recoverable :: "u64 \<Rightarrow> bool" where
  "trap_cause_is_usercopy_recoverable cause \<longleftrightarrow>
     cause = MCAUSE_LOAD_PAGE_FAULT \<or> cause = MCAUSE_STORE_PAGE_FAULT"

definition usercopy_probe_clear :: "tid_t \<Rightarrow> 'a sched_scheme \<Rightarrow> 'a sched_scheme" where
  "usercopy_probe_clear tid s =
     (if \<not> tid_is_valid tid then s
      else s\<lparr>usercopy_probes := (usercopy_probes s)(tid := \<lparr>up_active = False, up_pc_start = 0, up_pc_end = 0,
             up_fixup_pc = 0, up_user_start = 0, up_user_end = 0, up_fault_cause = 0\<rparr>)\<rparr>)"

definition wait_queue_init :: "u64 \<Rightarrow> string option \<Rightarrow> 'a sched_scheme \<Rightarrow> (unit \<times> 'a sched_scheme) res" where
  "wait_queue_init queue name s =
     (if queue = 0 then Inl ''wait_queue_init null queue''
      else irq_masked (\<lambda>s. Inr ((), s\<lparr>wait_queues := (wait_queues s)(queue :=
        (wait_queues s queue)\<lparr>wq_head := 0, wq_tail := 0, wq_count := 0, wq_name := name\<rparr>)\<rparr>)) s)"

definition ready_enqueue :: "tid_t \<Rightarrow> 'a sched_scheme \<Rightarrow> (unit \<times> 'a sched_scheme) res" where
  "ready_enqueue tid s =
     (if \<not> tid_is_real tid then Inl ''attempted to enqueue non-real thread''
      else if th_state (threads s tid) \<noteq> THREAD_READY \<or> th_in_ready_queue (threads s tid) \<or>
        th_in_sleep_queue (threads s tid) \<or> th_in_wait_queue (threads s tid)
      then Inl ''ready queue invariant violation''
      else let (r, q) = tid_queue_push (ready_queue s) tid; s = s\<lparr>ready_queue := q\<rparr> in
        if r < 0 then Inl ''ready queue full''
        else Inr ((), upd_thread tid (\<lambda>th. th\<lparr>th_in_ready_queue := True\<rparr>) s))"

definition ready_dequeue :: "'a sched_scheme \<Rightarrow> (tid_t \<times> 'a sched_scheme) res" where
  "ready_dequeue s =
     (let (tid, q) = tid_queue_pop (ready_queue s); s = s\<lparr>ready_queue := q\<rparr> in
      if tid = THREAD_INVALID_TID then Inr (THREAD_INVALID_TID, s)
      else if \<not> tid_is_real tid then Inl ''ready queue contained invalid tid''
      else if th_state (threads s tid) \<noteq> THREAD_READY \<or> \<not> th_in_ready_queue (threads s tid)
      then Inl ''ready queue contained non-ready thread''
      else Inr (tid, upd_thread tid (\<lambda>th. th\<lparr>th_in_ready_queue := False\<rparr>) s))"

definition sleep_enqueue :: "tid_t \<Rightarrow> u64 \<Rightarrow> 'a sched_scheme \<Rightarrow> (unit \<times> 'a sched_scheme) res" where
  "sleep_enqueue tid wake_tick s =
     (if \<not> tid_is_real tid then Inl ''attempted to sleep non-real thread''
      else if th_state (threads s tid) \<noteq> THREAD_BLOCKED \<or> th_in_ready_queue (threads s tid) \<or>
        th_in_sleep_queue (threads s tid) \<or>
        (th_wait_reason (threads s tid) \<noteq> THREAD_WAIT_SLEEP \<and>
         th_wait_reason (threads s tid) \<noteq> THREAD_WAIT_QUEUE_TIMEOUT)
      then Inl ''sleep queue invariant violation''
      else let s = upd_thread tid (\<lambda>th. th\<lparr>th_wake_tick := wake_tick\<rparr>) s in
        bindE (sleep_queue_insert (\<lambda>t. th_wake_tick (threads s t)) (sleep_queue s) tid) (\<lambda>(_, q).
          Inr ((), upd_thread tid (\<lambda>th. th\<lparr>th_in_sleep_queue := True\<rparr>) (s\<lparr>sleep_queue := q\<rparr>))))"

definition wait_enqueue :: "u64 \<Rightarrow> tid_t \<Rightarrow> 'a sched_scheme \<Rightarrow> (unit \<times> 'a sched_scheme) res" where
  "wait_enqueue queue tid s =
     (if queue = 0 then Inl ''wait enqueue null queue''
      else if \<not> tid_is_real tid then Inl ''attempted to block non-real thread''
      else if th_state (threads s tid) \<noteq> THREAD_BLOCKED \<or> th_in_ready_queue (threads s tid) \<or>
        th_in_wait_queue (threads s tid) \<or>
        (th_wait_reason (threads s tid) \<noteq> THREAD_WAIT_QUEUE \<and>
         th_wait_reason (threads s tid) \<noteq> THREAD_WAIT_QUEUE_TIMEOUT) \<or>
        th_wait_queue (threads s tid) \<noteq> 0
      then Inl ''wait queue invariant violation''
      else bindE (wait_queue_push (wait_queues s queue) tid) (\<lambda>(_, q).
        Inr ((), upd_thread tid (\<lambda>th. th\<lparr>th_in_wait_queue := True, th_wait_queue := queue\<rparr>)
          (s\<lparr>wait_queues := (wait_queues s)(queue := q)\<rparr>))))"

definition wait_dequeue :: "u64 \<Rightarrow> 'a sched_scheme \<Rightarrow> (tid_t \<times> 'a sched_scheme) res" where
  "wait_dequeue queue s =
     (let (tid, q) = wait_queue_pop (wait_queues s queue);
          s = s\<lparr>wait_queues := (wait_queues s)(queue := q)\<rparr> in
      if tid = THREAD_INVALID_TID then Inr (THREAD_INVALID_TID, s)
      else if \<not> tid_is_real tid then Inl ''wait queue contained invalid tid''
      else if th_state (threads s tid) \<noteq> THREAD_BLOCKED \<or> \<not> th_in_wait_queue (threads s tid) \<or>
        th_wait_queue (threads s tid) \<noteq> queue
      then Inl ''wait queue contained non-blocked thread''
      else Inr (tid, upd_thread tid (\<lambda>th. th\<lparr>th_in_wait_queue := False, th_wait_queue := 0\<rparr>) s))"

definition wait_remove :: "tid_t \<Rightarrow> 'a sched_scheme \<Rightarrow> (unit \<times> 'a sched_scheme) res" where
  "wait_remove tid s =
     (let queue = th_wait_queue (threads s tid) in
      if queue = 0 \<or> \<not> th_in_wait_queue (threads s tid) then Inl ''wait remove invariant violation''
      else let (r, q) = wait_queue_remove (wait_queues s queue) tid;
               s = s\<lparr>wait_queues := (wait_queues s)(queue := q)\<rparr> in
        if r < 0 then Inl ''wait remove missing tid''
        else Inr ((), upd_thread tid (\<lambda>th. th\<lparr>th_in_wait_queue := False, th_wait_queue := 0\<rparr>) s))"

definition timeout_remove :: "tid_t \<Rightarrow> 'a sched_scheme \<Rightarrow> (unit \<times> 'a sched_scheme) res" where
  "timeout_remove tid s =
     (if \<not> th_in_sleep_queue (threads s tid) then Inl ''timeout remove invariant violation''
      else let (r, q) = sleep_queue_remove (sleep_queue s) tid; s = s\<lparr>sleep_queue := q\<rparr> in
        if r < 0 then Inl ''timeout remove missing tid''
        else Inr ((), upd_thread tid (\<lambda>th. th\<lparr>th_in_sleep_queue := False, th_wake_tick := 0\<rparr>) s))"

section \<open>Waking\<close>

text \<open>The updates of \<open>wake_blocked_thread\<close> between the removals and the enqueueing.\<close>

definition mark_woken :: "tid_t \<Rightarrow> int \<Rightarrow> 'a sched_scheme \<Rightarrow> 'a sched_scheme" where
  "mark_woken tid result s =
     (let s = trace_emit (if result = WAIT_TIMEOUT then TRACE_WAIT_TIMEOUT else TRACE_WAIT_WAKE) tid
                THREAD_INVALID_TID (sext64 result) 0 s;
          s = upd_thread tid (\<lambda>th. th\<lparr>th_wait_reason := THREAD_WAIT_NONE, th_wake_tick := 0,
                th_wait_result := result\<rparr>) s;
          s = (if th_trap_frame (threads s tid) \<noteq> 0
               then store64 (th_trap_frame (threads s tid) + FRAME_A0) (sext64 result) s else s)
      in upd_thread tid (\<lambda>th. th\<lparr>th_state := THREAD_READY\<rparr>) s)"

definition wake_blocked_thread :: "tid_t \<Rightarrow> int \<Rightarrow> 'a sched_scheme \<Rightarrow> (unit \<times> 'a sched_scheme) res" where
  "wake_blocked_thread tid result s =
     (if th_state (threads s tid) \<noteq> THREAD_BLOCKED \<or> th_in_ready_queue (threads s tid)
      then Inl ''wake blocked invariant violation''
      else
      bindE (if th_in_sleep_queue (threads s tid) then timeout_remove tid s else Inr ((), s)) (\<lambda>(_, s).
      bindE (if th_in_wait_queue (threads s tid) then wait_remove tid s else Inr ((), s)) (\<lambda>(_, s).
      ready_enqueue tid (mark_woken tid result s))))"

definition sleep_dequeue_expired :: "u64 \<Rightarrow> 'a sched_scheme \<Rightarrow> (tid_t \<times> 'a sched_scheme) res" where
  "sleep_dequeue_expired now s =
     (let tid = sleep_queue_peek (sleep_queue s) in
      if tid = THREAD_INVALID_TID then Inr (THREAD_INVALID_TID, s)
      else if th_state (threads s tid) \<noteq> THREAD_BLOCKED \<or> \<not> th_in_sleep_queue (threads s tid) \<or>
        (th_wait_reason (threads s tid) \<noteq> THREAD_WAIT_SLEEP \<and>
         th_wait_reason (threads s tid) \<noteq> THREAD_WAIT_QUEUE_TIMEOUT)
      then Inl ''sleep queue contained non-timeout thread''
      else if th_wake_tick (threads s tid) > now then Inr (THREAD_INVALID_TID, s)
      else let (popped, q) = sleep_queue_pop_head (sleep_queue s) in
        Inr (popped, upd_thread tid (\<lambda>th. th\<lparr>th_in_sleep_queue := False\<rparr>) (s\<lparr>sleep_queue := q\<rparr>)))"

text \<open>One pass of the loop in \<open>wake_sleepers\<close>, after a thread was taken out.\<close>

definition wake_sleeper :: "u64 \<Rightarrow> tid_t \<Rightarrow> 'a sched_scheme \<Rightarrow> (unit \<times> 'a sched_scheme) res" where
  "wake_sleeper now tid s =
     (if th_wait_reason (threads s tid) = THREAD_WAIT_QUEUE_TIMEOUT
      then if \<not> th_in_wait_queue (threads s tid) then Inl ''timed wait missing wait queue membership''
        else bindE (wait_remove tid s) (\<lambda>(_, s).
          wake_blocked_thread tid WAIT_TIMEOUT
            (trace_emit TRACE_THREAD_WAKE tid THREAD_INVALID_TID (sext64 WAIT_TIMEOUT) now s))
      else if th_wait_reason (threads s tid) = THREAD_WAIT_SLEEP
      then let s = upd_thread tid (\<lambda>th. th\<lparr>th_wake_tick := 0\<rparr>) s in
        wake_blocked_thread tid WAIT_OK
          (trace_emit TRACE_THREAD_WAKE tid THREAD_INVALID_TID (sext64 WAIT_OK) now s)
      else Inl ''unexpected timeout wait reason'')"

subsection \<open>Fields the helpers leave alone\<close>

lemma upd_thread_simps [simp]:
  "threads (upd_thread t f s) = (threads s)(t := f (threads s t))"
  "usercopy_probes (upd_thread t f s) = usercopy_probes s" "ready_queue (upd_thread t f s) = ready_queue s"
  "sleep_queue (upd_thread t f s) = sleep_queue s" "wait_queues (upd_thread t f s) = wait_queues s"
  "current_thread (upd_thread t f s) = current_thread s"
  "threads_initialized (upd_thread t f s) = threads_initialized s"
  "threads_started (upd_thread t f s) = threads_started s"
  "reschedule_requested (upd_thread t f s) = reschedule_requested s"
  "preempt_disable_depth (upd_thread t f s) = preempt_disable_depth s"
  "mem (upd_thread t f s) = mem s" "ticks (upd_thread t f s) = ticks s" "sstatus (upd_thread t f s) = sstatus s"
  "user_tasks (upd_thread t f s) = user_tasks s" "link (upd_thread t f s) = link s"
  "sched.more (upd_thread t f s) = sched.more s"
  by (simp_all add: upd_thread_def)

lemma trace_emit_sched [simp]:
  "threads (trace_emit ty a b c d s) = threads s" "usercopy_probes (trace_emit ty a b c d s) = usercopy_probes s"
  "ready_queue (trace_emit ty a b c d s) = ready_queue s" "sleep_queue (trace_emit ty a b c d s) = sleep_queue s"
  "wait_queues (trace_emit ty a b c d s) = wait_queues s" "current_thread (trace_emit ty a b c d s) = current_thread s"
  "threads_initialized (trace_emit ty a b c d s) = threads_initialized s"
  "threads_started (trace_emit ty a b c d s) = threads_started s"
  "reschedule_requested (trace_emit ty a b c d s) = reschedule_requested s"
  "preempt_disable_depth (trace_emit ty a b c d s) = preempt_disable_depth s"
  "sched.more (trace_emit ty a b c d s) = sched.more s"
  by (simp_all add: trace_emit_eq Let_def)

lemma trace_emit_below [simp]:
  "mem (trace_emit ty a b c d s) = mem s" "ticks (trace_emit ty a b c d s) = ticks s"
  "sstatus (trace_emit ty a b c d s) = sstatus s" "user_tasks (trace_emit ty a b c d s) = user_tasks s"
  "link (trace_emit ty a b c d s) = link s"
  by (simp_all add: trace_emit_eq Let_def)

lemma store64_sched [simp]:
  "threads (store64 p v s) = threads s" "usercopy_probes (store64 p v s) = usercopy_probes s"
  "ready_queue (store64 p v s) = ready_queue s" "sleep_queue (store64 p v s) = sleep_queue s"
  "wait_queues (store64 p v s) = wait_queues s" "current_thread (store64 p v s) = current_thread s"
  "threads_initialized (store64 p v s) = threads_initialized s"
  "threads_started (store64 p v s) = threads_started s"
  "reschedule_requested (store64 p v s) = reschedule_requested s"
  "preempt_disable_depth (store64 p v s) = preempt_disable_depth s"
  "ticks (store64 p v s) = ticks s" "sstatus (store64 p v s) = sstatus s" "user_tasks (store64 p v s) = user_tasks s"
  "link (store64 p v s) = link s"
  by (simp_all add: store64_def)

lemma mark_woken_sched [simp]:
  "threads (mark_woken t r s) = (threads s)(t := (threads s t)\<lparr>th_wait_reason := THREAD_WAIT_NONE,
     th_wake_tick := 0, th_wait_result := r, th_state := THREAD_READY\<rparr>)"
  "usercopy_probes (mark_woken t r s) = usercopy_probes s" "ready_queue (mark_woken t r s) = ready_queue s"
  "sleep_queue (mark_woken t r s) = sleep_queue s" "wait_queues (mark_woken t r s) = wait_queues s"
  "current_thread (mark_woken t r s) = current_thread s"
  "threads_initialized (mark_woken t r s) = threads_initialized s"
  "threads_started (mark_woken t r s) = threads_started s"
  "reschedule_requested (mark_woken t r s) = reschedule_requested s"
  "preempt_disable_depth (mark_woken t r s) = preempt_disable_depth s"
  "ticks (mark_woken t r s) = ticks s" "sstatus (mark_woken t r s) = sstatus s"
  "user_tasks (mark_woken t r s) = user_tasks s" "link (mark_woken t r s) = link s"
  by (simp_all add: mark_woken_def Let_def)

lemma mem_mark_woken:
  "mem (mark_woken t r s) = (if th_trap_frame (threads s t) \<noteq> 0
     then write64 (mem s) (th_trap_frame (threads s t) + FRAME_A0) (sext64 r) else mem s)"
  by (simp add: mark_woken_def Let_def store64_def)

subsection \<open>The loops end\<close>

text \<open>
  Every pass of the two wake-up loops takes a thread out of a queue and none puts one in,
  whatever state the queues are in.
\<close>

lemma sleep_queue_remove_count: "unat (sq_count (snd (sleep_queue_remove q t))) \<le> unat (sq_count q)"
proof (cases "find (\<lambda>i. sq_tids q ! i = t) [0..<unat (sq_count q)]")
  case (Some i)
  then have "i < unat (sq_count q)" by (simp add: find_first)
  then have "sq_count q \<noteq> 0" by auto
  then show ?thesis using Some by (simp add: sleep_queue_remove_def Let_def sleep_shift_def sq_fold unat_dec16)
qed (simp add: sleep_queue_remove_def)

lemma wait_queue_remove_count: "unat (wq_count (snd (wait_queue_remove q t))) \<le> unat (wq_count q)"
proof (cases "wait_queue_find q t")
  case (Some i)
  then have "i < unat (wq_count q)" by (simp add: wait_queue_find_def find_first)
  then have "wq_count q \<noteq> 0" by auto
  then show ?thesis using Some unfolding wait_queue_remove_def wait_shift_fold by (simp add: Let_def unat_dec16)
qed (simp add: wait_queue_remove_def)

lemma ready_enqueue_queues:
  "ready_enqueue t s = Inr (x, s') \<Longrightarrow> sleep_queue s' = sleep_queue s \<and> wait_queues s' = wait_queues s"
  by (auto simp: ready_enqueue_def Let_def split: if_splits prod.splits)

lemma wait_remove_queues:
  "wait_remove t s = Inr (x, s') \<Longrightarrow>
   sleep_queue s' = sleep_queue s \<and> unat (wq_count (wait_queues s' q)) \<le> unat (wq_count (wait_queues s q))"
  using wait_queue_remove_count [of "wait_queues s (th_wait_queue (threads s t))" t]
  by (auto simp: wait_remove_def Let_def split: if_splits prod.splits)

lemma timeout_remove_queues:
  "timeout_remove t s = Inr (x, s') \<Longrightarrow>
   unat (sq_count (sleep_queue s')) \<le> unat (sq_count (sleep_queue s)) \<and> wait_queues s' = wait_queues s"
  using sleep_queue_remove_count [of "sleep_queue s" t]
  by (auto simp: timeout_remove_def Let_def split: if_splits prod.splits)

lemma bindE_InrE:
  assumes "bindE m (\<lambda>(x, s). f x s) = Inr y"
  obtains x s where "m = Inr (x, s)" and "f x s = Inr y"
  using assms by (cases m) auto

lemma wake_blocked_queues:
  assumes "wake_blocked_thread t r s = Inr (x, s')"
  shows "unat (sq_count (sleep_queue s')) \<le> unat (sq_count (sleep_queue s))"
    and "unat (wq_count (wait_queues s' q)) \<le> unat (wq_count (wait_queues s q))"
proof -
  have guard: "\<not> (th_state (threads s t) \<noteq> THREAD_BLOCKED \<or> th_in_ready_queue (threads s t))"
    using assms unfolding wake_blocked_thread_def by (rule contrapos_pn) simp
  obtain u1 s1 u2 s2 where
    1: "(if th_in_sleep_queue (threads s t) then timeout_remove t s else Inr ((), s)) = Inr (u1, s1)" and
    2: "(if th_in_wait_queue (threads s1 t) then wait_remove t s1 else Inr ((), s1)) = Inr (u2, s2)" and
    e: "ready_enqueue t (mark_woken t r s2) = Inr (x, s')"
    using assms unfolding wake_blocked_thread_def if_not_P [OF guard]
    by (elim bindE_InrE) (rule that)
  have 3: "sleep_queue s' = sleep_queue s2 \<and> wait_queues s' = wait_queues s2"
    using ready_enqueue_queues [OF e] by simp
  have "unat (sq_count (sleep_queue s1)) \<le> unat (sq_count (sleep_queue s)) \<and> wait_queues s1 = wait_queues s"
    using 1 timeout_remove_queues by (auto split: if_splits)
  moreover have "sleep_queue s2 = sleep_queue s1 \<and> unat (wq_count (wait_queues s2 q)) \<le> unat (wq_count (wait_queues s1 q))"
    using 2 wait_remove_queues by (auto split: if_splits)
  ultimately show "unat (sq_count (sleep_queue s')) \<le> unat (sq_count (sleep_queue s))"
    and "unat (wq_count (wait_queues s' q)) \<le> unat (wq_count (wait_queues s q))"
    using 3 by auto
qed

lemma wake_sleeper_queues:
  assumes "wake_sleeper now t s = Inr (x, s')"
  shows "unat (sq_count (sleep_queue s')) \<le> unat (sq_count (sleep_queue s))"
  using assms
  by (auto simp: wake_sleeper_def Let_def res_simps dest!: wait_remove_queues wake_blocked_queues(1) split: if_splits)

lemma sleep_dequeue_count:
  assumes "sleep_dequeue_expired now s = Inr (t, s')" and "t \<noteq> THREAD_INVALID_TID"
  shows "unat (sq_count (sleep_queue s')) < unat (sq_count (sleep_queue s))"
proof -
  have ne: "sq_count (sleep_queue s) \<noteq> 0"
    using assms by (auto simp: sleep_dequeue_expired_def sleep_queue_peek_def sleep_queue_empty_def split: if_splits)
  then have "sleep_queue s' = snd (sleep_queue_pop_head (sleep_queue s))"
    using assms by (auto simp: sleep_dequeue_expired_def Let_def split: if_splits prod.splits)
  moreover have "unat (sq_count (snd (sleep_queue_pop_head (sleep_queue s)))) = unat (sq_count (sleep_queue s)) - 1"
    using ne by (simp add: sleep_queue_pop_head_def sleep_queue_empty_def Let_def sleep_shift_def sq_fold unat_dec16)
  moreover have "0 < unat (sq_count (sleep_queue s))" using ne by (simp add: unat_gt_0)
  ultimately show ?thesis by simp
qed

lemma wait_dequeue_count:
  assumes "wait_dequeue queue s = Inr (t, s')" and "t \<noteq> THREAD_INVALID_TID"
  shows "unat (wq_count (wait_queues s' queue)) < unat (wq_count (wait_queues s queue))"
proof -
  have ne: "wq_count (wait_queues s queue) \<noteq> 0"
    using assms by (auto simp: wait_dequeue_def wait_queue_pop_def wait_queue_empty_def split: if_splits)
  then have "wait_queues s' queue = snd (wait_queue_pop (wait_queues s queue))"
    using assms by (auto simp: wait_dequeue_def Let_def split: if_splits prod.splits)
  moreover have "0 < unat (wq_count (wait_queues s queue))" using ne by (simp add: unat_gt_0)
  ultimately show ?thesis using ne by (simp add: wait_queue_pop_def wait_queue_empty_def Let_def unat_dec16)
qed

section \<open>The wake-up loops\<close>

function wake_sleepers :: "u64 \<Rightarrow> 'a sched_scheme \<Rightarrow> (unit \<times> 'a sched_scheme) res" where
  "wake_sleepers now s =
     bindE (sleep_dequeue_expired now s) (\<lambda>r.
       if fst r = THREAD_INVALID_TID then Inr ((), snd r)
       else bindE (wake_sleeper now (fst r) (snd r)) (\<lambda>r. wake_sleepers now (snd r)))"
  by pat_completeness auto

termination
proof (relation "measure (\<lambda>(_, s). unat (sq_count (sleep_queue s)))")
  fix now and s :: "'a sched_scheme" and r r'
  assume "sleep_dequeue_expired now s = Inr r" "fst r \<noteq> THREAD_INVALID_TID" "wake_sleeper now (fst r) (snd r) = Inr r'"
  then have "unat (sq_count (sleep_queue (snd r'))) < unat (sq_count (sleep_queue s))"
    using sleep_dequeue_count [of now s "fst r" "snd r"] wake_sleeper_queues [of now "fst r" "snd r" "fst r'" "snd r'"]
    by (cases r; cases r') simp
  then show "((now, snd r'), now, s) \<in> measure (\<lambda>(_, s). unat (sq_count (sleep_queue s)))" by simp
qed simp

declare wake_sleepers.simps [simp del]

definition preempt_disable :: "'a sched_scheme \<Rightarrow> 'a sched_scheme" where
  "preempt_disable s = s\<lparr>preempt_disable_depth := preempt_disable_depth s + 1\<rparr>"

definition preempt_enable :: "'a sched_scheme \<Rightarrow> (unit \<times> 'a sched_scheme) res" where
  "preempt_enable s =
     (if preempt_disable_depth s = 0 then Inl ''preempt enable underflow''
      else Inr ((), s\<lparr>preempt_disable_depth := preempt_disable_depth s - 1\<rparr>))"

definition wait_queue_wake_one :: "u64 \<Rightarrow> 'a sched_scheme \<Rightarrow> (tid_t \<times> 'a sched_scheme) res" where
  "wait_queue_wake_one queue s =
     (if queue = 0 then Inl ''wait_queue_wake_one null queue''
      else irq_masked (\<lambda>s.
        bindE (wait_dequeue queue (preempt_disable s)) (\<lambda>(tid, s).
        bindE (if tid \<noteq> THREAD_INVALID_TID then wake_blocked_thread tid WAIT_OK s else Inr ((), s)) (\<lambda>(_, s).
        bindE (preempt_enable s) (\<lambda>(_, s). Inr (tid, s))))) s)"

function wake_all_loop :: "u64 \<Rightarrow> 'a sched_scheme \<Rightarrow> (unit \<times> 'a sched_scheme) res" where
  "wake_all_loop queue s =
     bindE (wait_dequeue queue s) (\<lambda>r.
       if fst r = THREAD_INVALID_TID then Inr ((), snd r)
       else bindE (wake_blocked_thread (fst r) WAIT_OK (snd r)) (\<lambda>r. wake_all_loop queue (snd r)))"
  by pat_completeness auto

termination
proof (relation "measure (\<lambda>(queue, s). unat (wq_count (wait_queues s queue)))")
  fix queue and s :: "'a sched_scheme" and r r'
  assume "wait_dequeue queue s = Inr r" "fst r \<noteq> THREAD_INVALID_TID" "wake_blocked_thread (fst r) WAIT_OK (snd r) = Inr r'"
  then have "unat (wq_count (wait_queues (snd r') queue)) < unat (wq_count (wait_queues s queue))"
    using wait_dequeue_count [of queue s "fst r" "snd r"]
      wake_blocked_queues(2) [of "fst r" WAIT_OK "snd r" "fst r'" "snd r'" queue]
    by (cases r; cases r') simp
  then show "((queue, snd r'), queue, s) \<in> measure (\<lambda>(queue, s). unat (wq_count (wait_queues s queue)))" by simp
qed simp

declare wake_all_loop.simps [simp del]

definition wait_queue_wake_all :: "u64 \<Rightarrow> 'a sched_scheme \<Rightarrow> (unit \<times> 'a sched_scheme) res" where
  "wait_queue_wake_all queue s =
     (if queue = 0 then Inl ''wait_queue_wake_all null queue''
      else irq_masked (\<lambda>s.
        bindE (wake_all_loop queue (preempt_disable s)) (\<lambda>(_, s). preempt_enable s)) s)"

section \<open>Creation and start\<close>

definition pick_next_thread :: "'a sched_scheme \<Rightarrow> (tid_t \<times> 'a sched_scheme) res" where
  "pick_next_thread s =
     bindE (ready_dequeue s) (\<lambda>(tid, s). Inr (if tid = THREAD_INVALID_TID then THREAD_NULL_TID else tid, s))"

definition ready_empty :: "'a sched_scheme \<Rightarrow> bool" where
  "ready_empty s \<longleftrightarrow> tid_queue_empty (ready_queue s)"

definition current_is_preemptible :: "'a sched_scheme \<Rightarrow> bool" where
  "current_is_preemptible s \<longleftrightarrow> threads_started s \<and>
     (case current_thread s of None \<Rightarrow> False
      | Some c \<Rightarrow> th_tid (threads s c) \<noteq> THREAD_NULL_TID \<and> th_state (threads s c) = THREAD_RUNNING \<and>
          preempt_disable_depth s = 0 \<and> \<not> ready_empty s)"

definition thread_stack_top :: "tid_t \<Rightarrow> 'a hw_scheme \<Rightarrow> u64" where
  "thread_stack_top tid s =
     align_down (thread_stacks_base (link s) + ucast tid * THREAD_STACK_SIZE + THREAD_STACK_SIZE) 16"

text \<open>The initial frame of a kernel thread: 35 zero words, then the three set fields.\<close>

definition prepare_initial_trap_frame :: "tid_t \<Rightarrow> 'a sched_scheme \<Rightarrow> 'a sched_scheme" where
  "prepare_initial_trap_frame t s =
     (let stack_top = thread_stack_top (th_tid (threads s t)) s;
          frame = align_down (stack_top - TRAP_FRAME_STACK_SIZE) 16;
          s = fold (\<lambda>i. store64 (frame + 8 * of_nat i) 0) [0..<35] s;
          s = store64 (frame + FRAME_SP) stack_top s;
          s = store64 (frame + FRAME_MEPC) (thread_trampoline_addr (link s)) s;
          s = store64 (frame + FRAME_MSTATUS) (SSTATUS_SPP OR SSTATUS_SPIE) s
      in upd_thread t (\<lambda>th. th\<lparr>th_kernel_sp := load64 (frame + FRAME_SP) s, th_trap_frame := frame\<rparr>) s)"

definition install_thread ::
  "tid_t \<Rightarrow> string option \<Rightarrow> u64 \<Rightarrow> u64 \<Rightarrow> 'a sched_scheme \<Rightarrow> (unit \<times> 'a sched_scheme) res"
where
  "install_thread tid name entry arg s =
     (if \<not> tid_is_valid tid then Inl ''invalid thread install tid''
      else
      let s = upd_thread tid (\<lambda>th. th\<lparr>th_tid := tid, th_state := THREAD_READY,
            th_wait_reason := THREAD_WAIT_NONE, th_wait_queue := 0, th_quantum_ticks := 0,
            th_in_ready_queue := False, th_in_sleep_queue := False, th_in_wait_queue := False,
            th_wake_tick := 0, th_wait_result := WAIT_OK, th_entry := entry, th_arg := arg,
            th_name := name, th_address_space := 0, th_user_task := 0\<rparr>) s;
          s = usercopy_probe_clear tid s
      in Inr ((), prepare_initial_trap_frame tid s))"

text \<open>\<open>address_space\<close> is the second field of \<open>user_task_t\<close>, at offset 8.\<close>

definition install_user_thread ::
  "tid_t \<Rightarrow> string option \<Rightarrow> u64 \<Rightarrow> 'a sched_scheme \<Rightarrow> (unit \<times> 'a sched_scheme) res"
where
  "install_user_thread tid name task s =
     (let frame = user_task_trap_frame task s in
      if \<not> tid_is_valid tid \<or> \<not> user_task_is_ready task s \<or> frame = 0 then Inl ''invalid user thread install''
      else
      let stack_top = thread_stack_top tid s;
          s = upd_thread tid (\<lambda>th. th\<lparr>th_tid := tid, th_state := THREAD_READY,
            th_wait_reason := THREAD_WAIT_NONE, th_wait_queue := 0, th_kernel_sp := stack_top,
            th_trap_frame := frame, th_address_space := task + 8, th_user_task := task,
            th_quantum_ticks := 0, th_in_ready_queue := False, th_in_sleep_queue := False,
            th_in_wait_queue := False, th_wake_tick := 0, th_wait_result := WAIT_OK, th_entry := 0,
            th_arg := 0, th_name := name\<rparr>) s;
          (r, s) = user_task_set_kernel_sp task stack_top s
      in if r < 0 then Inl ''user task kernel stack attach failed''
         else Inr ((), usercopy_probe_clear tid s))"

definition all_tids :: "tid_t list" where "all_tids = [0, 1, 2, 3, 4, 5, 6, 7]"

definition reset_thread :: "tid_t \<Rightarrow> 'a sched_scheme \<Rightarrow> 'a sched_scheme" where
  "reset_thread i s =
     usercopy_probe_clear i (upd_thread i (\<lambda>_. \<lparr>th_tid = i, th_state = THREAD_UNUSED,
       th_wait_reason = THREAD_WAIT_NONE, th_wait_queue = 0, th_kernel_sp = 0, th_trap_frame = 0,
       th_address_space = 0, th_user_task = 0, th_quantum_ticks = 0, th_in_ready_queue = False,
       th_in_sleep_queue = False, th_in_wait_queue = False, th_wake_tick = 0, th_wait_result = WAIT_OK,
       th_entry = 0, th_arg = 0, th_name = None\<rparr>) s)"

definition thread_init :: "'a sched_scheme \<Rightarrow> (unit \<times> 'a sched_scheme) res" where
  "thread_init s = irq_masked (\<lambda>s.
     let s = trace_init s;
         s = s\<lparr>ready_queue := tid_queue_init (ready_queue s), sleep_queue := sleep_queue_init (sleep_queue s)\<rparr>;
         s = fold reset_thread all_tids s;
         s = s\<lparr>current_thread := None, threads_started := False, threads_initialized := True,
               reschedule_requested := False, preempt_disable_depth := 0\<rparr>
     in bindE (install_thread THREAD_NULL_TID (Some ''null'') (null_task_addr (link s)) 0 s) (\<lambda>(_, s).
        Inr ((), console_write (''thread: initialized static table, null tid=0'' @ [CHR 0x0A]) s))) s"

text \<open>The first thread slot, from 1 on, that is unused or exited.\<close>

definition free_slot :: "'a sched_scheme \<Rightarrow> tid_t option" where
  "free_slot s = find (\<lambda>tid. th_state (threads s tid) = THREAD_UNUSED \<or> th_state (threads s tid) = THREAD_EXITED)
     (tl all_tids)"

definition thread_create ::
  "string option \<Rightarrow> u64 \<Rightarrow> u64 \<Rightarrow> 'a sched_scheme \<Rightarrow> (int \<times> 'a sched_scheme) res"
where
  "thread_create name entry arg s =
     (if \<not> threads_initialized s \<or> entry = 0 then Inr (-1, s)
      else irq_masked (\<lambda>s.
        case free_slot s of
          None \<Rightarrow> Inr (-1, s)
        | Some tid \<Rightarrow>
            bindE (install_thread tid name entry arg s) (\<lambda>(_, s).
            bindE (ready_enqueue tid s) (\<lambda>(_, s).
            Inr (uint tid, trace_emit TRACE_THREAD_CREATE tid THREAD_INVALID_TID 0 0 s)))) s)"

definition thread_create_user :: "string option \<Rightarrow> u64 \<Rightarrow> 'a sched_scheme \<Rightarrow> (int \<times> 'a sched_scheme) res" where
  "thread_create_user name task s =
     (if \<not> threads_initialized s \<or> \<not> user_task_is_ready task s then Inr (-1, s)
      else irq_masked (\<lambda>s.
        case free_slot s of
          None \<Rightarrow> Inr (-1, s)
        | Some tid \<Rightarrow>
            bindE (install_user_thread tid name task s) (\<lambda>(_, s).
            bindE (ready_enqueue tid s) (\<lambda>(_, s).
            Inr (uint tid, trace_emit TRACE_THREAD_CREATE tid THREAD_INVALID_TID 0 0 s)))) s)"

text \<open>
  \<open>thread_start\<close> does not return: it hands the frame of the first thread to
  \<open>trap_return_from_handler\<close>, with interrupts masked. The result is that frame.
\<close>

definition thread_start :: "'a sched_scheme \<Rightarrow> (u64 \<times> 'a sched_scheme) res" where
  "thread_start s =
     (if \<not> threads_initialized s \<or> threads_started s
      then Inl ''thread_start called before init or after start''
      else let (irq_state, s) = irq_save s in
        bindE (pick_next_thread s) (\<lambda>(next', s).
          let s = upd_thread next' (\<lambda>th. th\<lparr>th_state := THREAD_RUNNING, th_quantum_ticks := 0\<rparr>) s;
              s = s\<lparr>current_thread := Some next', threads_started := True\<rparr>;
              s = trace_emit TRACE_CONTEXT_SWITCH THREAD_INVALID_TID (th_tid (threads s next')) 0 0 s;
              s = console_write (''thread: starting scheduler'' @ [CHR 0x0A]) s
          in Inr (th_trap_frame (threads s next'), s)))"

section \<open>Requests of a running thread\<close>

text \<open>
  These functions execute \<open>ebreak\<close> with an operation in \<open>a7\<close> and arguments
  in \<open>a0\<close> and \<open>a1\<close>; the result is that request, or nothing when the
  function returns without trapping. \<open>wait_queue_sleep_timeout\<close> has a value to return
  in that case. The trap handler below serves the requests.
\<close>

definition thread_yield :: "'a sched_scheme \<Rightarrow> (u64 \<times> u64 \<times> u64) option" where
  "thread_yield s = (if \<not> threads_started s then None else Some (THREAD_TRAP_YIELD, 0, 0))"

definition thread_sleep :: "u64 \<Rightarrow> 'a sched_scheme \<Rightarrow> (u64 \<times> u64 \<times> u64) option" where
  "thread_sleep n s = (if \<not> threads_started s then None else Some (THREAD_TRAP_SLEEP, n, 0))"

definition wait_queue_sleep :: "u64 \<Rightarrow> 'a sched_scheme \<Rightarrow> (u64 \<times> u64 \<times> u64) option res" where
  "wait_queue_sleep queue s =
     (if \<not> threads_started s then Inr None
      else if queue = 0 then Inl ''wait_queue_sleep null queue''
      else Inr (Some (THREAD_TRAP_WAIT, queue, 0)))"

definition wait_queue_sleep_timeout ::
  "u64 \<Rightarrow> u64 \<Rightarrow> 'a sched_scheme \<Rightarrow> (int + u64 \<times> u64 \<times> u64) res"
where
  "wait_queue_sleep_timeout queue n s =
     (if \<not> threads_started s then Inr (Inl WAIT_TIMEOUT)
      else if queue = 0 then Inl ''wait_queue_sleep_timeout null queue''
      else if n = 0 then Inr (Inl WAIT_TIMEOUT)
      else Inr (Inr (THREAD_TRAP_WAIT_TIMEOUT, queue, n)))"

definition thread_exit :: "u64 \<times> u64 \<times> u64" where
  "thread_exit = (THREAD_TRAP_EXIT, 0, 0)"

definition thread_current_tid :: "'a sched_scheme \<Rightarrow> tid_t" where
  "thread_current_tid s = (case current_thread s of None \<Rightarrow> THREAD_NULL_TID | Some c \<Rightarrow> th_tid (threads s c))"

definition thread_current :: "'a sched_scheme \<Rightarrow> tid_t option" where
  "thread_current s = current_thread s"

section \<open>User-copy probes\<close>

definition thread_usercopy_probe_begin ::
  "u64 \<Rightarrow> u64 \<Rightarrow> u64 \<Rightarrow> u64 \<Rightarrow> u64 \<Rightarrow> u64 \<Rightarrow> 'a sched_scheme \<Rightarrow> (int \<times> 'a sched_scheme) res"
where
  "thread_usercopy_probe_begin pc_start pc_end fixup_pc user_start user_end fault_cause s =
     irq_masked (\<lambda>s.
       case current_thread s of
         None \<Rightarrow> Inr (-1, s)
       | Some c \<Rightarrow>
           if th_tid (threads s c) = THREAD_NULL_TID \<or> pc_start \<ge> pc_end \<or> fixup_pc = 0 \<or>
              user_start \<ge> user_end \<or> \<not> trap_cause_is_usercopy_recoverable fault_cause
           then Inr (-1, s)
           else if up_active (usercopy_probes s (th_tid (threads s c))) then Inr (-1, s)
           else Inr (0, s\<lparr>usercopy_probes := (usercopy_probes s)(th_tid (threads s c) :=
             \<lparr>up_active = True, up_pc_start = pc_start, up_pc_end = pc_end, up_fixup_pc = fixup_pc,
              up_user_start = user_start, up_user_end = user_end, up_fault_cause = fault_cause\<rparr>)\<rparr>)) s"

definition thread_usercopy_probe_end :: "'a sched_scheme \<Rightarrow> (unit \<times> 'a sched_scheme) res" where
  "thread_usercopy_probe_end s =
     irq_masked (\<lambda>s.
       case current_thread s of
         None \<Rightarrow> Inr ((), s)
       | Some c \<Rightarrow> if th_tid (threads s c) \<noteq> THREAD_NULL_TID
           then Inr ((), usercopy_probe_clear (th_tid (threads s c)) s) else Inr ((), s)) s"

definition thread_usercopy_probe_recover :: "u64 \<Rightarrow> u64 \<Rightarrow> 'a sched_scheme \<Rightarrow> bool \<times> 'a sched_scheme" where
  "thread_usercopy_probe_recover frame cause s =
     (case current_thread s of
        None \<Rightarrow> (False, s)
      | Some c \<Rightarrow>
          if frame = 0 \<or> th_tid (threads s c) = THREAD_NULL_TID \<or> \<not> trap_cause_is_usercopy_recoverable cause
          then (False, s)
          else let tid = th_tid (threads s c); probe = usercopy_probes s tid in
            if \<not> up_active probe \<or> cause \<noteq> up_fault_cause probe \<or>
               load64 (frame + FRAME_MEPC) s < up_pc_start probe \<or>
               load64 (frame + FRAME_MEPC) s \<ge> up_pc_end probe \<or>
               load64 (frame + FRAME_MTVAL) s < up_user_start probe \<or>
               load64 (frame + FRAME_MTVAL) s \<ge> up_user_end probe
            then (False, s)
            else let s = store64 (frame + FRAME_MEPC) (up_fixup_pc probe) s in
              (True, s\<lparr>usercopy_probes := (usercopy_probes s)(tid := probe\<lparr>up_active := False\<rparr>)\<rparr>))"

section \<open>The timer tick and the trap-side operations\<close>

definition thread_on_timer_tick :: "'a sched_scheme \<Rightarrow> (unit \<times> 'a sched_scheme) res" where
  "thread_on_timer_tick s =
     (if \<not> threads_started s then Inr ((), s)
      else bindE (wake_sleepers (timer_ticks s) s) (\<lambda>(_, s).
        case current_thread s of
          None \<Rightarrow> Inr ((), s)
        | Some c \<Rightarrow>
            if th_tid (threads s c) = THREAD_NULL_TID \<or> th_state (threads s c) \<noteq> THREAD_RUNNING then Inr ((), s)
            else
            let s = (if th_quantum_ticks (threads s c) < THREAD_QUANTUM_TICKS
                     then upd_thread c (\<lambda>th. th\<lparr>th_quantum_ticks := th_quantum_ticks th + 1\<rparr>) s else s)
            in Inr ((), if th_quantum_ticks (threads s c) \<ge> THREAD_QUANTUM_TICKS
                        then s\<lparr>reschedule_requested := True\<rparr> else s)))"

text \<open>
  The four switches end the same way: the chosen thread becomes the running one with a
  fresh quantum, and any pending request to reschedule is served by the switch.
\<close>

definition make_running :: "tid_t \<Rightarrow> 'a sched_scheme \<Rightarrow> 'a sched_scheme" where
  "make_running next' s =
     (upd_thread next' (\<lambda>th. th\<lparr>th_state := THREAD_RUNNING, th_quantum_ticks := 0\<rparr>) s)
       \<lparr>current_thread := Some next', reschedule_requested := False\<rparr>"

definition switch_to_next_from_trap :: "u64 \<Rightarrow> bool \<Rightarrow> 'a sched_scheme \<Rightarrow> (u64 \<times> 'a sched_scheme) res" where
  "switch_to_next_from_trap frame requeue_current s = irq_masked (\<lambda>s.
     let s = preempt_disable s in
     case current_thread s of
       None \<Rightarrow> Inl ''trap switch without running thread''
     | Some prev \<Rightarrow>
         if th_state (threads s prev) \<noteq> THREAD_RUNNING then Inl ''trap switch without running thread''
         else
         bindE
           (if requeue_current
            then if th_tid (threads s prev) = THREAD_NULL_TID then Inl ''attempted to requeue null thread''
              else let s = upd_thread prev (\<lambda>th. th\<lparr>th_trap_frame := frame,
                         th_kernel_sp := load64 (frame + FRAME_SP) s, th_state := THREAD_READY\<rparr>) s in
                bindE (ready_enqueue (th_tid (threads s prev)) s) (\<lambda>(_, s). Inr (0, s))
            else if th_tid (threads s prev) = THREAD_NULL_TID then Inl ''null thread cannot exit''
              else
              bindE
                (if th_user_task (threads s prev) \<noteq> 0
                 then if load64 (frame + FRAME_MSTATUS) s AND SSTATUS_SPP \<noteq> 0
                   then Inl ''user task exit invariant violation''
                   else let (r, s) = user_task_mark_exited (th_user_task (threads s prev))
                                       (load64 (frame + FRAME_A0) s) s in
                     if r < 0 then Inl ''user task exit invariant violation''
                     else Inr (th_user_task (threads s prev), s)
                 else Inr (0, s)) (\<lambda>(exited_user_task, s).
              let s = upd_thread prev (\<lambda>th. th\<lparr>th_trap_frame := 0, th_kernel_sp := 0, th_quantum_ticks := 0,
                    th_wait_reason := THREAD_WAIT_NONE, th_wait_queue := 0, th_in_ready_queue := False,
                    th_in_sleep_queue := False, th_in_wait_queue := False, th_wake_tick := 0,
                    th_wait_result := WAIT_OK, th_address_space := 0, th_user_task := 0,
                    th_state := THREAD_EXITED\<rparr>) s
              in Inr (exited_user_task, usercopy_probe_clear (th_tid (threads s prev)) s))) (\<lambda>(exited_user_task, s).
         bindE (pick_next_thread s) (\<lambda>(next', s).
         if th_trap_frame (threads s next') = 0 then Inl ''next thread has no trap frame''
         else
         let s = make_running next' s;
             s = trace_emit (if requeue_current then TRACE_CONTEXT_SWITCH else TRACE_THREAD_EXIT)
                   (th_tid (threads s prev)) (th_tid (threads s next')) (if requeue_current then 0 else 1) 0 s;
             s = (if \<not> requeue_current
                  then trace_emit TRACE_CONTEXT_SWITCH (th_tid (threads s prev)) (th_tid (threads s next')) 0 0 s
                  else s);
             next_frame = th_trap_frame (threads s next')
         in
         bindE (if exited_user_task \<noteq> 0
                then bindE (user_task_destroy exited_user_task s) (\<lambda>(r, s).
                  if r < 0 then Inl ''user task destroy failed'' else Inr ((), s))
                else Inr ((), s)) (\<lambda>(_, s).
         bindE (preempt_enable s) (\<lambda>(_, s). Inr (next_frame, s)))))) s"

definition thread_exit_current_from_trap :: "u64 \<Rightarrow> 'a sched_scheme \<Rightarrow> (u64 \<times> 'a sched_scheme) res" where
  "thread_exit_current_from_trap frame s = switch_to_next_from_trap frame False s"

definition switch_null_to_next_from_trap :: "u64 \<Rightarrow> 'a sched_scheme \<Rightarrow> (u64 \<times> 'a sched_scheme) res" where
  "switch_null_to_next_from_trap frame s = irq_masked (\<lambda>s.
     let s = preempt_disable s in
     case current_thread s of
       None \<Rightarrow> Inl ''null switch without running null thread''
     | Some prev \<Rightarrow>
         if th_tid (threads s prev) \<noteq> THREAD_NULL_TID \<or> th_state (threads s prev) \<noteq> THREAD_RUNNING
         then Inl ''null switch without running null thread''
         else
         let s = upd_thread prev (\<lambda>th. th\<lparr>th_trap_frame := frame, th_kernel_sp := load64 (frame + FRAME_SP) s,
               th_state := THREAD_READY\<rparr>) s in
         bindE (pick_next_thread s) (\<lambda>(next', s).
         if th_tid (threads s next') = THREAD_NULL_TID \<or> th_trap_frame (threads s next') = 0
         then Inl ''null switch without ready real thread''
         else
         let s = make_running next' s;
             s = trace_emit TRACE_CONTEXT_SWITCH (th_tid (threads s prev)) (th_tid (threads s next')) 0 0 s;
             next_frame = th_trap_frame (threads s next')
         in bindE (preempt_enable s) (\<lambda>(_, s). Inr (next_frame, s)))) s"

definition thread_yield_current_from_trap :: "u64 \<Rightarrow> 'a sched_scheme \<Rightarrow> (u64 \<times> 'a sched_scheme) res" where
  "thread_yield_current_from_trap frame s =
     (case current_thread s of
        None \<Rightarrow> Inr (frame, s)
      | Some c \<Rightarrow>
          if \<not> threads_started s then Inr (frame, s)
          else if ready_empty s then Inr (frame, upd_thread c (\<lambda>th. th\<lparr>th_quantum_ticks := 0\<rparr>) s)
          else if th_tid (threads s c) = THREAD_NULL_TID then switch_null_to_next_from_trap frame s
          else switch_to_next_from_trap frame True s)"

text \<open>
  How sleeping and waiting end: the next thread is chosen and started, preemption is
  enabled again, and the frame of the next thread is returned.
\<close>

definition switch_from_blocked :: "tid_t \<Rightarrow> 'a sched_scheme \<Rightarrow> (u64 \<times> 'a sched_scheme) res" where
  "switch_from_blocked prev s =
     bindE (pick_next_thread s) (\<lambda>(next', s).
     if th_trap_frame (threads s next') = 0 then Inl ''next thread has no trap frame''
     else
     let s = make_running next' s;
         s = trace_emit TRACE_CONTEXT_SWITCH (th_tid (threads s prev)) (th_tid (threads s next')) 0 0 s;
         next_frame = th_trap_frame (threads s next')
     in bindE (preempt_enable s) (\<lambda>(_, s). Inr (next_frame, s)))"

definition sleep_current_from_trap :: "u64 \<Rightarrow> u64 \<Rightarrow> 'a sched_scheme \<Rightarrow> (u64 \<times> 'a sched_scheme) res" where
  "sleep_current_from_trap frame n s = irq_masked (\<lambda>s.
     let s = preempt_disable s in
     case current_thread s of
       None \<Rightarrow> Inl ''sleep without running thread''
     | Some prev \<Rightarrow>
         if th_state (threads s prev) \<noteq> THREAD_RUNNING then Inl ''sleep without running thread''
         else if th_tid (threads s prev) = THREAD_NULL_TID then Inl ''null thread cannot sleep''
         else
         let wake_tick = timer_ticks s + n;
             s = upd_thread prev (\<lambda>th. th\<lparr>th_trap_frame := frame, th_kernel_sp := load64 (frame + FRAME_SP) s,
                   th_quantum_ticks := 0, th_wait_reason := THREAD_WAIT_SLEEP, th_wait_result := WAIT_OK,
                   th_state := THREAD_BLOCKED\<rparr>) s in
         bindE (sleep_enqueue (th_tid (threads s prev)) wake_tick s) (\<lambda>(_, s).
         let s = trace_emit TRACE_THREAD_SLEEP (th_tid (threads s prev)) THREAD_INVALID_TID wake_tick n s in
         switch_from_blocked prev s)) s"

definition thread_sleep_current_from_trap :: "u64 \<Rightarrow> u64 \<Rightarrow> 'a sched_scheme \<Rightarrow> (u64 \<times> 'a sched_scheme) res" where
  "thread_sleep_current_from_trap frame n s =
     (if \<not> threads_started s then Inr (frame, s)
      else case current_thread s of
        None \<Rightarrow> Inr (frame, s)
      | Some c \<Rightarrow>
          if th_tid (threads s c) = THREAD_NULL_TID then Inl ''null thread cannot sleep''
          else if n = 0 then thread_yield_current_from_trap frame s
          else sleep_current_from_trap frame n s)"

definition block_current_from_trap ::
  "u64 \<Rightarrow> u64 \<Rightarrow> u64 \<Rightarrow> 'a sched_scheme \<Rightarrow> (u64 \<times> 'a sched_scheme) res"
where
  "block_current_from_trap frame queue timeout_ticks s = irq_masked (\<lambda>s.
     let s = preempt_disable s in
     case current_thread s of
       None \<Rightarrow> Inl ''wait without running thread''
     | Some prev \<Rightarrow>
         if th_state (threads s prev) \<noteq> THREAD_RUNNING then Inl ''wait without running thread''
         else if th_tid (threads s prev) = THREAD_NULL_TID then Inl ''null thread cannot wait''
         else
         let s = upd_thread prev (\<lambda>th. th\<lparr>th_trap_frame := frame, th_kernel_sp := load64 (frame + FRAME_SP) s,
                   th_quantum_ticks := 0,
                   th_wait_reason := (if timeout_ticks = 0 then THREAD_WAIT_QUEUE else THREAD_WAIT_QUEUE_TIMEOUT),
                   th_wait_result := WAIT_OK, th_state := THREAD_BLOCKED\<rparr>) s in
         bindE (wait_enqueue queue (th_tid (threads s prev)) s) (\<lambda>(_, s).
         bindE (if timeout_ticks \<noteq> 0
                then sleep_enqueue (th_tid (threads s prev)) (timer_ticks s + timeout_ticks) s
                else Inr ((), s)) (\<lambda>(_, s).
         let s = trace_emit TRACE_WAIT_BLOCK (th_tid (threads s prev)) THREAD_INVALID_TID timeout_ticks 0 s in
         switch_from_blocked prev s))) s"

definition thread_handle_control_trap_from_trap :: "u64 \<Rightarrow> 'a sched_scheme \<Rightarrow> (u64 \<times> 'a sched_scheme) res" where
  "thread_handle_control_trap_from_trap frame s =
     (let op = load64 (frame + FRAME_A7) s;
          arg0 = load64 (frame + FRAME_A0) s;
          s = store64 (frame + FRAME_MEPC) (load64 (frame + FRAME_MEPC) s + 4) s in
      if \<not> threads_started s then Inr (frame, s)
      else if op = THREAD_TRAP_YIELD then thread_yield_current_from_trap frame s
      else if op = THREAD_TRAP_EXIT then switch_to_next_from_trap frame False s
      else if op = THREAD_TRAP_SLEEP then thread_sleep_current_from_trap frame arg0 s
      else if op = THREAD_TRAP_WAIT
      then if arg0 = 0 then Inl ''wait control trap null queue''
        else (case current_thread s of
          None \<Rightarrow> Inr (frame, s)
        | Some c \<Rightarrow> if th_tid (threads s c) = THREAD_NULL_TID then Inl ''null thread cannot wait''
            else block_current_from_trap frame arg0 0 s)
      else if op = THREAD_TRAP_WAIT_TIMEOUT
      then let n = load64 (frame + FRAME_A1) s in
        if arg0 = 0 then Inl ''timed wait control trap null queue''
        else (case current_thread s of
          None \<Rightarrow> Inr (frame, store64 (frame + FRAME_A0) (sext64 WAIT_TIMEOUT) s)
        | Some c \<Rightarrow> if th_tid (threads s c) = THREAD_NULL_TID then Inl ''null thread cannot timed wait''
            else if n = 0 then Inr (frame, store64 (frame + FRAME_A0) (sext64 WAIT_TIMEOUT) s)
            else block_current_from_trap frame arg0 n s)
      else Inl ''unknown thread control trap'')"

definition thread_maybe_preempt_from_trap :: "u64 \<Rightarrow> 'a sched_scheme \<Rightarrow> (u64 \<times> 'a sched_scheme) res" where
  "thread_maybe_preempt_from_trap frame s =
     (if \<not> reschedule_requested s then Inr (frame, s)
      else if \<not> current_is_preemptible s
      then (case current_thread s of
          None \<Rightarrow> Inr (frame, s)
        | Some c \<Rightarrow> if threads_started s \<and> th_tid (threads s c) \<noteq> THREAD_NULL_TID \<and> ready_empty s
            then Inr (frame, (upd_thread c (\<lambda>th. th\<lparr>th_quantum_ticks := 0\<rparr>) s)\<lparr>reschedule_requested := False\<rparr>)
            else Inr (frame, s))
      else switch_to_next_from_trap frame True s)"

definition thread_current_user_task_for_frame :: "u64 \<Rightarrow> 'a sched_scheme \<Rightarrow> u64" where
  "thread_current_user_task_for_frame frame s =
     (case current_thread s of
        None \<Rightarrow> 0
      | Some c \<Rightarrow>
          if frame = 0 \<or> th_user_task (threads s c) = 0 \<or> load64 (frame + FRAME_MSTATUS) s AND SSTATUS_SPP \<noteq> 0
          then 0
          else if th_trap_frame (threads s c) = frame then th_user_task (threads s c)
          else if user_task_trap_frame (th_user_task (threads s c)) s \<noteq> frame then 0
          else th_user_task (threads s c))"

definition thread_set_current_trap_frame_from_trap :: "u64 \<Rightarrow> 'a sched_scheme \<Rightarrow> 'a sched_scheme" where
  "thread_set_current_trap_frame_from_trap frame s =
     (case current_thread s of
        None \<Rightarrow> s
      | Some c \<Rightarrow> if frame = 0 then s else upd_thread c (\<lambda>th. th\<lparr>th_trap_frame := frame\<rparr>) s)"

text \<open>
  \<open>thread_trampoline\<close> up to the call of the thread's entry function, which is not code
  of the kernel's core: the result is the function and its argument. \<open>null_task\<close> up
  to its idle loop.
\<close>

definition thread_trampoline :: "'a sched_scheme \<Rightarrow> ((u64 \<times> u64) \<times> 'a sched_scheme) res" where
  "thread_trampoline s =
     (let s = irq_enable s in
      case current_thread s of
        None \<Rightarrow> Inl ''thread trampoline without current entry''
      | Some c \<Rightarrow> if th_entry (threads s c) = 0 then Inl ''thread trampoline without current entry''
          else Inr ((th_entry (threads s c), th_arg (threads s c)), s))"

definition null_task :: "'a sched_scheme \<Rightarrow> 'a sched_scheme" where
  "null_task s =
     (let s = irq_enable s;
          s = trace_emit TRACE_IDLE THREAD_NULL_TID THREAD_INVALID_TID 0 0 s
      in console_write (''thread: null idle'' @ [CHR 0x0A]) s)"

end
