(* ===== verification/Sched_Inv.thy ===== *)
theory Sched_Inv
  imports Thread
begin

text \<open>
  The invariant of the scheduler. \<open>qinv\<close> relates the membership flags in the thread
  table to the contents of the three kinds of queues, as lists; \<open>thread_ok\<close> relates
  the flags to the thread's state; \<open>sched_inv\<close> adds that exactly the current thread
  runs. \<open>Q\<close> is the set of addresses of initialised wait queues.
\<close>

section \<open>Thread ids\<close>

lemma real_unat: "tid_is_real t \<longleftrightarrow> 0 < unat t \<and> unat t < 8"
  by (simp add: tid_is_real_def THREAD_MAX_def THREAD_NULL_TID_def word_less_nat_alt)

lemma real_iff: "tid_is_real t \<longleftrightarrow> t \<in> {1, 2, 3, 4, 5, 6, 7}"
proof
  assume "tid_is_real t"
  then have "0 < unat t" "unat t < 8" by (simp_all only: real_unat)
  then have "unat t = 1 \<or> unat t = 2 \<or> unat t = 3 \<or> unat t = 4 \<or> unat t = 5 \<or> unat t = 6 \<or> unat t = 7"
    by linarith
  then show "t \<in> {1, 2, 3, 4, 5, 6, 7}" by (elim disjE) (simp_all add: word_unat_eq_iff)
next
  assume "t \<in> {1, 2, 3, 4, 5, 6, 7}"
  then show "tid_is_real t" unfolding real_unat by (elim insertE) simp_all
qed

lemma valid_iff: "tid_is_valid t \<longleftrightarrow> t = 0 \<or> tid_is_real t"
  by (auto simp: tid_is_valid_def tid_is_real_def THREAD_MAX_def THREAD_NULL_TID_def word_gt_0)

lemma not_real [simp]: "\<not> tid_is_real 0" "\<not> tid_is_real THREAD_INVALID_TID"
  by (simp_all add: real_iff THREAD_INVALID_TID_def)

lemma real_nonzero: "tid_is_real t \<Longrightarrow> t \<noteq> 0 \<and> t \<noteq> THREAD_INVALID_TID \<and> tid_is_valid t"
  using valid_iff by (cases "t = THREAD_INVALID_TID") auto

lemma real_room:
  assumes "distinct ts" and "\<forall>x\<in>set ts. tid_is_real x" and "tid_is_real t" and "t \<notin> set ts"
  shows "length ts < THREAD_MAX - 1"
proof -
  let ?U = "{1, 2, 3, 4, 5, 6, 7} :: tid_t set"
  have "set ts \<subseteq> ?U - {t}" using assms(2,4) unfolding real_iff by blast
  then have "card (set ts) \<le> card (?U - {t})" by (intro card_mono) auto
  also have "\<dots> < card ?U" using assms(3) unfolding real_iff by (intro card_Diff1_less) auto
  also have "card ?U \<le> 7" by (simp add: card_insert_if)
  finally show ?thesis using distinct_card [OF assms(1)] by (simp add: THREAD_MAX_def)
qed

section \<open>Inserting a sleeper\<close>

lemma insert_sleeper_set: "set (insert_sleeper wake t ts) = insert t (set ts)"
proof -
  let ?a = "takeWhile (\<lambda>x. wake x \<le> wake t) ts" and ?b = "dropWhile (\<lambda>x. wake x \<le> wake t) ts"
  have "set (a @ t # b) = insert t (set (a @ b))" for a b by auto
  then show ?thesis by (simp only: insert_sleeper_def takeWhile_dropWhile_id)
qed

lemma insert_sleeper_distinct: "distinct (insert_sleeper wake t ts) \<longleftrightarrow> distinct ts \<and> t \<notin> set ts"
proof -
  let ?a = "takeWhile (\<lambda>x. wake x \<le> wake t) ts" and ?b = "dropWhile (\<lambda>x. wake x \<le> wake t) ts"
  have "distinct (a @ t # b) \<longleftrightarrow> distinct (a @ b) \<and> t \<notin> set (a @ b)" for a b by auto
  then show ?thesis by (simp only: insert_sleeper_def takeWhile_dropWhile_id)
qed

lemma insert_sleeper_sorted:
  assumes "sorted (map wake ts)"
  shows "sorted (map wake (insert_sleeper wake t ts))"
proof -
  let ?P = "\<lambda>x. wake x \<le> wake t"
  have parts: "sorted (map wake (takeWhile ?P ts))" "sorted (map wake (dropWhile ?P ts))"
    "\<forall>x\<in>set (takeWhile ?P ts). \<forall>y\<in>set (dropWhile ?P ts). wake x \<le> wake y"
    using assms sorted_append [of "map wake (takeWhile ?P ts)" "map wake (dropWhile ?P ts)"]
    by (simp_all add: map_append [symmetric] del: map_append)
  have low: "wake x \<le> wake t" if "x \<in> set (takeWhile ?P ts)" for x
    using that set_takeWhileD by fastforce
  have high: "wake t \<le> wake y" if "y \<in> set (dropWhile ?P ts)" for y
  proof (cases "dropWhile ?P ts")
    case Nil
    then show ?thesis using that by (simp only: list.set empty_iff)
  next
    case (Cons z zs)
    then have "\<not> ?P z" using hd_dropWhile [of ?P ts] by simp
    moreover have "wake z \<le> wake y" using parts(2) that Cons by auto
    ultimately show ?thesis by (meson le_cases order_trans)
  qed
  have "sorted (map wake (a @ t # b))"
    if "sorted (map wake a)" "sorted (map wake b)" "\<forall>x\<in>set a. \<forall>y\<in>set b. wake x \<le> wake y"
      "\<forall>x\<in>set a. wake x \<le> wake t" "\<forall>y\<in>set b. wake t \<le> wake y" for a b
    using that by (auto simp: sorted_append)
  then show ?thesis unfolding insert_sleeper_def using parts low high by blast
qed

section \<open>Flags and queues\<close>

definition rinv :: "(tid_t \<Rightarrow> thread) \<Rightarrow> tid_t list \<Rightarrow> bool" where
  "rinv th R \<longleftrightarrow> distinct R \<and> (\<forall>t. t \<in> set R \<longleftrightarrow> tid_is_real t \<and> th_in_ready_queue (th t))"

definition sinv :: "(tid_t \<Rightarrow> thread) \<Rightarrow> tid_t list \<Rightarrow> bool" where
  "sinv th S \<longleftrightarrow> distinct S \<and> (\<forall>t. t \<in> set S \<longleftrightarrow> tid_is_real t \<and> th_in_sleep_queue (th t)) \<and>
     sorted (map (\<lambda>t. th_wake_tick (th t)) S)"

definition winv :: "u64 set \<Rightarrow> (tid_t \<Rightarrow> thread) \<Rightarrow> (u64 \<Rightarrow> tid_t list) \<Rightarrow> bool" where
  "winv Q th W \<longleftrightarrow> 0 \<notin> Q \<and> (\<forall>q\<in>Q. distinct (W q)) \<and>
     (\<forall>q\<in>Q. \<forall>t. t \<in> set (W q) \<longleftrightarrow> tid_is_real t \<and> th_in_wait_queue (th t) \<and> th_wait_queue (th t) = q) \<and>
     (\<forall>t. tid_is_real t \<longrightarrow> th_in_wait_queue (th t) \<longrightarrow> th_wait_queue (th t) \<in> Q)"

lemma rinv_frame:
  "rinv th R \<Longrightarrow> th_in_ready_queue x = th_in_ready_queue (th t) \<Longrightarrow> rinv (th(t := x)) R"
  by (simp add: rinv_def)

lemma sinv_frame:
  assumes "sinv th S" and "th_in_sleep_queue x = th_in_sleep_queue (th t)"
    and "th_wake_tick x = th_wake_tick (th t) \<or> \<not> th_in_sleep_queue (th t)"
  shows "sinv (th(t := x)) S"
proof -
  have "map (\<lambda>t'. th_wake_tick ((th(t := x)) t')) S = map (\<lambda>t'. th_wake_tick (th t')) S"
    using assms by (auto simp: sinv_def)
  then have "sorted (map (\<lambda>t'. th_wake_tick ((th(t := x)) t')) S)" using assms(1) by (simp only: sinv_def)
  with assms show ?thesis unfolding sinv_def by simp
qed

lemma winv_frame:
  "winv Q th W \<Longrightarrow> th_in_wait_queue x = th_in_wait_queue (th t) \<Longrightarrow>
   th_wait_queue x = th_wait_queue (th t) \<or> \<not> th_in_wait_queue (th t) \<Longrightarrow> winv Q (th(t := x)) W"
  by (auto simp: winv_def)

lemma rinv_push:
  "rinv th R \<Longrightarrow> tid_is_real t \<Longrightarrow> \<not> th_in_ready_queue (th t) \<Longrightarrow> th_in_ready_queue x \<Longrightarrow> rinv (th(t := x)) (R @ [t])"
  by (auto simp: rinv_def)

lemma rinv_pop:
  "rinv th (t # R) \<Longrightarrow> \<not> th_in_ready_queue x \<Longrightarrow> rinv (th(t := x)) R"
  "rinv th (t # R) \<Longrightarrow> tid_is_real t \<and> th_in_ready_queue (th t)"
  by (auto simp: rinv_def)

lemma sinv_insert:
  assumes "sinv th S" and "tid_is_real t" and "\<not> th_in_sleep_queue (th t)" and "th_in_sleep_queue x"
    and wake: "\<And>y. wake y = th_wake_tick ((th(t := x)) y)"
  shows "sinv (th(t := x)) (insert_sleeper wake t S)"
proof -
  have nt: "t \<notin> set S" using assms(1,3) by (simp add: sinv_def)
  have "map wake S = map (\<lambda>t'. th_wake_tick (th t')) S" using nt by (auto simp: wake)
  then have "sorted (map wake (insert_sleeper wake t S))"
    using assms(1) by (intro insert_sleeper_sorted) (simp only: sinv_def)
  moreover have "distinct (insert_sleeper wake t S)" using assms(1) nt by (simp add: insert_sleeper_distinct sinv_def)
  ultimately show ?thesis
    using assms(1,2,4) unfolding sinv_def wake by (simp add: insert_sleeper_set)
qed

lemma sorted_map_remove1: "sorted (map f xs) \<Longrightarrow> sorted (map f (remove1 x xs))"
  using set_remove1_subset [of x] by (induction xs) auto

lemma sinv_remove:
  assumes "sinv th S" and "\<not> th_in_sleep_queue x"
  shows "sinv (th(t := x)) (remove1 t S)"
proof -
  have S: "distinct S" "sorted (map (\<lambda>t. th_wake_tick (th t)) S)" using assms by (simp_all add: sinv_def)
  have "map (\<lambda>t'. th_wake_tick ((th(t := x)) t')) (remove1 t S) = map (\<lambda>t'. th_wake_tick (th t')) (remove1 t S)"
    using S(1) by auto
  then have "sorted (map (\<lambda>t'. th_wake_tick ((th(t := x)) t')) (remove1 t S))"
    using sorted_map_remove1 [OF S(2), of t] by (simp only:)
  with assms S(1) show ?thesis unfolding sinv_def by (auto simp: distinct_remove1)
qed

lemma winv_push:
  assumes "winv Q th W" and "tid_is_real t" and "\<not> th_in_wait_queue (th t)" and "q \<in> Q"
    and "th_in_wait_queue x" and "th_wait_queue x = q"
  shows "winv Q (th(t := x)) (W(q := W q @ [t]))"
  using assms by (auto simp: winv_def)

lemma winv_remove:
  assumes "winv Q th W" and "tid_is_real t" and "th_in_wait_queue (th t)" and "\<not> th_in_wait_queue x"
    and "th_wait_queue (th t) = q"
  shows "winv Q (th(t := x)) (W(q := remove1 t (W q)))" and "q \<in> Q" and "t \<in> set (W q)" and "q \<noteq> 0"
  using assms by (auto simp: winv_def distinct_remove1)

section \<open>The invariant of the whole scheduler\<close>

definition ready_list :: "'a sched_scheme \<Rightarrow> tid_t list" where
  "ready_list s = tq_items (ready_queue s)"

definition sleep_list :: "'a sched_scheme \<Rightarrow> tid_t list" where
  "sleep_list s = sq_items (sleep_queue s)"

definition wait_list :: "'a sched_scheme \<Rightarrow> u64 \<Rightarrow> tid_t list" where
  "wait_list s q = wq_items (wait_queues s q)"

definition queues_ok :: "u64 set \<Rightarrow> 'a sched_scheme \<Rightarrow> bool" where
  "queues_ok Q s \<longleftrightarrow> tq_ok (ready_queue s) \<and> sq_ok (sleep_queue s) \<and> (\<forall>q\<in>Q. wq_ok (wait_queues s q)) \<and>
     rinv (threads s) (ready_list s) \<and> sinv (threads s) (sleep_list s) \<and> winv Q (threads s) (wait_list s)"

text \<open>What a thread's state says about its flags.\<close>

definition thread_ok :: "tid_t \<Rightarrow> thread \<Rightarrow> bool" where
  "thread_ok t th \<longleftrightarrow> th_tid th = t \<and>
     (th_in_ready_queue th \<longleftrightarrow> th_state th = THREAD_READY) \<and>
     (th_in_sleep_queue th \<longleftrightarrow> th_state th = THREAD_BLOCKED \<and>
        th_wait_reason th \<in> {THREAD_WAIT_SLEEP, THREAD_WAIT_QUEUE_TIMEOUT}) \<and>
     (th_in_wait_queue th \<longleftrightarrow> th_state th = THREAD_BLOCKED \<and>
        th_wait_reason th \<in> {THREAD_WAIT_QUEUE, THREAD_WAIT_QUEUE_TIMEOUT}) \<and>
     (th_wait_reason th = THREAD_WAIT_NONE \<longleftrightarrow> th_state th \<noteq> THREAD_BLOCKED) \<and>
     (th_wait_queue th \<noteq> 0 \<longleftrightarrow> th_in_wait_queue th) \<and>
     (th_state th \<in> {THREAD_READY, THREAD_BLOCKED} \<longrightarrow> th_trap_frame th \<noteq> 0)"

text \<open>The null thread is in no queue and never blocks or ends.\<close>

definition null_ok :: "thread \<Rightarrow> bool" where
  "null_ok th \<longleftrightarrow> th_tid th = 0 \<and> \<not> th_in_ready_queue th \<and> th_state th \<in> {THREAD_READY, THREAD_RUNNING} \<and>
     (th_state th = THREAD_READY \<longrightarrow> th_trap_frame th \<noteq> 0)"

definition consistent :: "tid_t set \<Rightarrow> u64 set \<Rightarrow> 'a sched_scheme \<Rightarrow> bool" where
  "consistent H Q s \<longleftrightarrow> queues_ok Q s \<and> (\<forall>t. tid_is_real t \<longrightarrow> t \<notin> H \<longrightarrow> thread_ok t (threads s t)) \<and>
     null_ok (threads s 0)"

definition only_running :: "(tid_t \<Rightarrow> thread) \<Rightarrow> tid_t option \<Rightarrow> bool" where
  "only_running th c \<longleftrightarrow> (\<forall>t. tid_is_valid t \<longrightarrow> (th_state (th t) = THREAD_RUNNING \<longleftrightarrow> c = Some t)) \<and>
     (\<forall>t. c = Some t \<longrightarrow> tid_is_valid t)"

definition sched_inv :: "u64 set \<Rightarrow> 'a sched_scheme \<Rightarrow> bool" where
  "sched_inv Q s \<longleftrightarrow> consistent {} Q s \<and> only_running (threads s) (current_thread s) \<and>
     (threads_started s \<longleftrightarrow> current_thread s \<noteq> None) \<and> preempt_disable_depth s = 0 \<and> threads_initialized s"

subsection \<open>What the queue operations keep\<close>

definition kept :: "'a sched_scheme \<Rightarrow> 'a sched_scheme \<Rightarrow> bool" where
  "kept s s' \<longleftrightarrow> current_thread s' = current_thread s \<and> threads_initialized s' = threads_initialized s \<and>
     threads_started s' = threads_started s \<and> reschedule_requested s' = reschedule_requested s \<and>
     preempt_disable_depth s' = preempt_disable_depth s \<and> usercopy_probes s' = usercopy_probes s \<and>
     sched.more s' = sched.more s \<and> ticks s' = ticks s \<and> next_compare s' = next_compare s \<and> mtimecmp s' = mtimecmp s \<and>
     mtime_at s' = mtime_at s \<and> mtime_reads s' = mtime_reads s \<and> csrs s' = csrs s \<and>
     sstatus s' = sstatus s \<and> satp s' = satp s \<and> sfences s' = sfences s \<and> console s' = console s \<and>
     cycle_at s' = cycle_at s \<and> link s' = link s \<and> page_bitmap s' = page_bitmap s \<and>
     page_bitmap_words s' = page_bitmap_words s \<and> managed_start s' = managed_start s \<and>
     managed_end s' = managed_end s \<and> total_pages s' = total_pages s \<and> free_pages s' = free_pages s \<and>
     next_free_hint s' = next_free_hint s \<and> page_allocator_initialized s' = page_allocator_initialized s \<and>
     kernel_space s' = kernel_space s \<and> kernel_satp s' = kernel_satp s \<and> user_tasks s' = user_tasks s"

lemma kept_refl [simp]: "kept s s"
  by (simp add: kept_def)

lemma kept_trans [trans]: "kept s s1 \<Longrightarrow> kept s1 s2 \<Longrightarrow> kept s s2"
  by (simp add: kept_def)

lemma kept_updates [simp]:
  "kept s (upd_thread t f s')  = kept s s'" "kept s (s'\<lparr>ready_queue := r\<rparr>) = kept s s'"
  "kept s (s'\<lparr>sleep_queue := sq\<rparr>) = kept s s'" "kept s (s'\<lparr>wait_queues := w\<rparr>) = kept s s'"
  "kept s (trace_emit ty a b c d s') = kept s s'" "kept s (store64 p v s') = kept s s'"
  "kept s (mark_woken t x s') = kept s s'"
  by (simp_all add: kept_def upd_thread_def trace_emit_eq mark_woken_def store64_def Let_def)

lemma list_simps [simp]:
  "ready_list (upd_thread t f s) = ready_list s" "sleep_list (upd_thread t f s) = sleep_list s"
  "wait_list (upd_thread t f s) = wait_list s" "ready_list (s\<lparr>sleep_queue := sq\<rparr>) = ready_list s"
  "ready_list (s\<lparr>wait_queues := w\<rparr>) = ready_list s" "sleep_list (s\<lparr>ready_queue := r\<rparr>) = sleep_list s"
  "sleep_list (s\<lparr>wait_queues := w\<rparr>) = sleep_list s" "wait_list (s\<lparr>ready_queue := r\<rparr>) = wait_list s"
  "wait_list (s\<lparr>sleep_queue := sq\<rparr>) = wait_list s" "ready_list (trace_emit ty a b c d s) = ready_list s"
  "sleep_list (trace_emit ty a b c d s) = sleep_list s" "wait_list (trace_emit ty a b c d s) = wait_list s"
  "ready_list (store64 p v s) = ready_list s" "sleep_list (store64 p v s) = sleep_list s"
  "wait_list (store64 p v s) = wait_list s" "ready_list (mark_woken t x s) = ready_list s"
  "sleep_list (mark_woken t x s) = sleep_list s" "wait_list (mark_woken t x s) = wait_list s"
  "ready_list (s\<lparr>ready_queue := r\<rparr>) = tq_items r" "sleep_list (s\<lparr>sleep_queue := sq\<rparr>) = sq_items sq"
  by (simp_all add: ready_list_def sleep_list_def wait_list_def fun_eq_iff)

subsection \<open>The queue operations\<close>

lemma wait_list_set [simp]:
  "wait_list (s\<lparr>wait_queues := (wait_queues s)(q := x)\<rparr>) = (wait_list s)(q := wq_items x)"
  by (auto simp: wait_list_def fun_eq_iff)

lemma ready_enqueue_ok:
  assumes "queues_ok Q s" and "tid_is_real t" and "th_state (threads s t) = THREAD_READY"
    and "\<not> th_in_ready_queue (threads s t)" "\<not> th_in_sleep_queue (threads s t)" "\<not> th_in_wait_queue (threads s t)"
  obtains s' where "ready_enqueue t s = Inr ((), s')" and "queues_ok Q s'" and "kept s s'" and "mem s' = mem s"
    and "threads s' = (threads s)(t := (threads s t)\<lparr>th_in_ready_queue := True\<rparr>)"
    and "ready_list s' = ready_list s @ [t]" and "sleep_list s' = sleep_list s" and "wait_list s' = wait_list s"
proof -
  have inv: "tq_ok (ready_queue s)" "rinv (threads s) (ready_list s)" using assms(1) by (simp_all add: queues_ok_def)
  have "t \<notin> set (ready_list s)" using inv(2) assms(4) by (simp add: rinv_def)
  then have "length (tq_items (ready_queue s)) < THREAD_MAX - 1"
    using real_room [of "ready_list s" t] inv(2) assms(2) by (simp add: rinv_def ready_list_def)
  then obtain q where q: "tid_queue_push (ready_queue s) t = (0, q)" "tq_ok q" "tq_items q = ready_list s @ [t]"
    using tid_queue_push_items [OF inv(1)] unfolding ready_list_def by metis
  show thesis
  proof (rule that [of "upd_thread t (\<lambda>th. th\<lparr>th_in_ready_queue := True\<rparr>) (s\<lparr>ready_queue := q\<rparr>)"])
    show "ready_enqueue t s = Inr ((), upd_thread t (\<lambda>th. th\<lparr>th_in_ready_queue := True\<rparr>) (s\<lparr>ready_queue := q\<rparr>))"
      using assms q by (simp add: ready_enqueue_def)
    show "queues_ok Q (upd_thread t (\<lambda>th. th\<lparr>th_in_ready_queue := True\<rparr>) (s\<lparr>ready_queue := q\<rparr>))"
      using assms(1,2,4) q by (simp add: queues_ok_def rinv_push sinv_frame winv_frame)
  qed (use q in simp_all)
qed

lemma ready_dequeue_ok:
  assumes "queues_ok Q s" and "\<forall>t. tid_is_real t \<and> th_in_ready_queue (threads s t) \<longrightarrow> th_state (threads s t) = THREAD_READY"
  shows "ready_list s = [] \<Longrightarrow> ready_dequeue s = Inr (THREAD_INVALID_TID, s)"
    and "ready_list s = t # ts \<Longrightarrow> \<exists>s'. ready_dequeue s = Inr (t, s') \<and> queues_ok Q s' \<and> kept s s' \<and> mem s' = mem s \<and>
      tid_is_real t \<and> threads s' = (threads s)(t := (threads s t)\<lparr>th_in_ready_queue := False\<rparr>) \<and>
      ready_list s' = ts \<and> sleep_list s' = sleep_list s \<and> wait_list s' = wait_list s"
proof -
  have inv: "tq_ok (ready_queue s)" "rinv (threads s) (ready_list s)" using assms(1) by (simp_all add: queues_ok_def)
  show "ready_list s = [] \<Longrightarrow> ready_dequeue s = Inr (THREAD_INVALID_TID, s)"
    using rq.pop_empty [OF inv(1)] by (simp add: ready_dequeue_def ready_list_def)
  assume l: "ready_list s = t # ts"
  then have t: "tid_is_real t" "th_in_ready_queue (threads s t)" using rinv_pop(2) inv(2) by auto
  obtain q where q: "tid_queue_pop (ready_queue s) = (t, q)" "tq_ok q" "tq_items q = ts"
    using rq.pop_oldest [OF inv(1)] l by (auto simp: ready_list_def)
  let ?s = "upd_thread t (\<lambda>th. th\<lparr>th_in_ready_queue := False\<rparr>) (s\<lparr>ready_queue := q\<rparr>)"
  have "ready_dequeue s = Inr (t, ?s)"
    using q t assms(2) real_nonzero [OF t(1)] by (simp add: ready_dequeue_def)
  moreover have "queues_ok Q ?s"
    using assms(1) q rinv_pop(1) [of "threads s" t ts] l by (simp add: queues_ok_def sinv_frame winv_frame)
  ultimately show "\<exists>s'. ready_dequeue s = Inr (t, s') \<and> queues_ok Q s' \<and> kept s s' \<and> mem s' = mem s \<and>
      tid_is_real t \<and> threads s' = (threads s)(t := (threads s t)\<lparr>th_in_ready_queue := False\<rparr>) \<and>
      ready_list s' = ts \<and> sleep_list s' = sleep_list s \<and> wait_list s' = wait_list s"
    using q t by (intro exI [of _ ?s]) simp
qed

lemma sleep_enqueue_ok:
  assumes "queues_ok Q s" and "tid_is_real t" and "th_state (threads s t) = THREAD_BLOCKED"
    and "\<not> th_in_ready_queue (threads s t)" "\<not> th_in_sleep_queue (threads s t)"
    and "th_wait_reason (threads s t) \<in> {THREAD_WAIT_SLEEP, THREAD_WAIT_QUEUE_TIMEOUT}"
  obtains s' where "sleep_enqueue t w s = Inr ((), s')" and "queues_ok Q s'" and "kept s s'" and "mem s' = mem s"
    and "threads s' = (threads s)(t := (threads s t)\<lparr>th_wake_tick := w, th_in_sleep_queue := True\<rparr>)"
    and "ready_list s' = ready_list s" and "wait_list s' = wait_list s"
    and "sleep_list s' = insert_sleeper (\<lambda>x. if x = t then w else th_wake_tick (threads s x)) t (sleep_list s)"
proof -
  have inv: "sq_ok (sleep_queue s)" "sinv (threads s) (sleep_list s)" using assms(1) by (simp_all add: queues_ok_def)
  let ?wake = "\<lambda>x. if x = t then w else th_wake_tick (threads s x)"
  have "t \<notin> set (sleep_list s)" using inv(2) assms(5) by (simp add: sinv_def)
  then have room: "length (sq_items (sleep_queue s)) < THREAD_MAX - 1"
    using real_room [of "sleep_list s" t] inv(2) assms(2) by (simp add: sinv_def sleep_list_def)
  obtain q where q: "sleep_queue_insert ?wake (sleep_queue s) t = Inr ((), q)" "sq_ok q"
      "sq_items q = insert_sleeper ?wake t (sleep_list s)"
    by (rule sleep_queue_insert_items [OF inv(1) room, of ?wake t]) (simp add: sleep_list_def)
  let ?s = "upd_thread t (\<lambda>th. th\<lparr>th_in_sleep_queue := True\<rparr>)
      ((upd_thread t (\<lambda>th. th\<lparr>th_wake_tick := w\<rparr>) s)\<lparr>sleep_queue := q\<rparr>)"
  have wk: "(\<lambda>x. th_wake_tick (threads (upd_thread t (\<lambda>th. th\<lparr>th_wake_tick := w\<rparr>) s) x)) = ?wake" by auto
  have run: "sleep_enqueue t w s = Inr ((), ?s)"
  proof -
    have guard: "\<not> (th_state (threads s t) \<noteq> THREAD_BLOCKED \<or> th_in_ready_queue (threads s t) \<or>
        th_in_sleep_queue (threads s t) \<or> (th_wait_reason (threads s t) \<noteq> THREAD_WAIT_SLEEP \<and>
         th_wait_reason (threads s t) \<noteq> THREAD_WAIT_QUEUE_TIMEOUT))"
      using assms(3-6) by blast
    show ?thesis unfolding sleep_enqueue_def Let_def wk if_not_P [OF guard] using assms(2) q(1) by simp
  qed
  have th: "threads ?s = (threads s)(t := (threads s t)\<lparr>th_wake_tick := w, th_in_sleep_queue := True\<rparr>)" by simp
  have "queues_ok Q ?s"
  proof -
    let ?x = "(threads s t)\<lparr>th_wake_tick := w, th_in_sleep_queue := True\<rparr>"
    have "sinv ((threads s)(t := ?x)) (insert_sleeper ?wake t (sleep_list s))"
      by (rule sinv_insert [OF inv(2) assms(2,5)]) simp_all
    then show ?thesis
      unfolding queues_ok_def th using assms(1) q(2,3)
      by (simp add: queues_ok_def rinv_frame winv_frame)
  qed
  with run q show thesis by (intro that [of ?s]) simp_all
qed

lemma wait_enqueue_ok:
  assumes "queues_ok Q s" and "tid_is_real t" and "th_state (threads s t) = THREAD_BLOCKED" and "q \<in> Q"
    and "\<not> th_in_ready_queue (threads s t)" "\<not> th_in_wait_queue (threads s t)" "th_wait_queue (threads s t) = 0"
    and "th_wait_reason (threads s t) \<in> {THREAD_WAIT_QUEUE, THREAD_WAIT_QUEUE_TIMEOUT}"
  obtains s' where "wait_enqueue q t s = Inr ((), s')" and "queues_ok Q s'" and "kept s s'" and "mem s' = mem s"
    and "threads s' = (threads s)(t := (threads s t)\<lparr>th_in_wait_queue := True, th_wait_queue := q\<rparr>)"
    and "ready_list s' = ready_list s" and "sleep_list s' = sleep_list s"
    and "wait_list s' = (wait_list s)(q := wait_list s q @ [t])"
proof -
  have inv: "wq_ok (wait_queues s q)" "winv Q (threads s) (wait_list s)" using assms(1,4) by (simp_all add: queues_ok_def)
  have "t \<notin> set (wait_list s q)" using inv(2) assms(4,6) by (simp add: winv_def)
  moreover have "distinct (wait_list s q)" "\<forall>x\<in>set (wait_list s q). tid_is_real x"
    using inv(2) assms(4) by (simp_all add: winv_def)
  ultimately have "length (wq_items (wait_queues s q)) < THREAD_MAX - 1"
    using real_room [of "wait_list s q" t] assms(2) by (simp add: wait_list_def)
  then obtain x where x: "wait_queue_push (wait_queues s q) t = Inr ((), x)" "wq_ok x" "wq_items x = wait_list s q @ [t]"
    using wait_queue_push_items [OF inv(1)] unfolding wait_list_def by metis
  let ?s = "upd_thread t (\<lambda>th. th\<lparr>th_in_wait_queue := True, th_wait_queue := q\<rparr>)
      (s\<lparr>wait_queues := (wait_queues s)(q := x)\<rparr>)"
  have "q \<noteq> 0" using inv(2) assms(4) by (auto simp: winv_def)
  then have run: "wait_enqueue q t s = Inr ((), ?s)"
    using assms x by (auto simp: wait_enqueue_def)
  have "queues_ok Q ?s"
    using assms(1,2,4,6) x by (simp add: queues_ok_def rinv_frame sinv_frame winv_push)
  with run x show thesis by (intro that [of ?s]) simp_all
qed

lemma wait_dequeue_ok:
  assumes "queues_ok Q s" and "q \<in> Q"
    and "\<forall>t. tid_is_real t \<and> th_in_wait_queue (threads s t) \<longrightarrow> th_state (threads s t) = THREAD_BLOCKED"
  shows "wait_list s q = [] \<Longrightarrow> wait_dequeue q s = Inr (THREAD_INVALID_TID, s)"
    and "wait_list s q = t # ts \<Longrightarrow> \<exists>s'. wait_dequeue q s = Inr (t, s') \<and> queues_ok Q s' \<and> kept s s' \<and> mem s' = mem s \<and>
      tid_is_real t \<and> threads s' = (threads s)(t := (threads s t)\<lparr>th_in_wait_queue := False, th_wait_queue := 0\<rparr>) \<and>
      ready_list s' = ready_list s \<and> sleep_list s' = sleep_list s \<and> wait_list s' = (wait_list s)(q := ts)"
proof -
  have inv: "wq_ok (wait_queues s q)" "winv Q (threads s) (wait_list s)" using assms(1,2) by (simp_all add: queues_ok_def)
  show "wait_list s q = [] \<Longrightarrow> wait_dequeue q s = Inr (THREAD_INVALID_TID, s)"
    using wq.pop_empty [OF inv(1)] by (simp add: wait_dequeue_def wait_list_def)
  assume l: "wait_list s q = t # ts"
  then have t: "tid_is_real t" "th_in_wait_queue (threads s t)" "th_wait_queue (threads s t) = q"
    using inv(2) assms(2) unfolding winv_def by (metis list.set_intros(1))+
  obtain x where x: "wait_queue_pop (wait_queues s q) = (t, x)" "wq_ok x" "wq_items x = ts"
    using wq.pop_oldest [OF inv(1)] l by (auto simp: wait_list_def)
  let ?s = "upd_thread t (\<lambda>th. th\<lparr>th_in_wait_queue := False, th_wait_queue := 0\<rparr>)
      (s\<lparr>wait_queues := (wait_queues s)(q := x)\<rparr>)"
  have "wait_dequeue q s = Inr (t, ?s)"
    using x t assms(3) real_nonzero [OF t(1)] by (simp add: wait_dequeue_def)
  moreover have "queues_ok Q ?s"
    using assms(1,2) x t winv_remove(1) [OF inv(2) t(1,2) _ t(3),
        of "(threads s t)\<lparr>th_in_wait_queue := False, th_wait_queue := 0\<rparr>"] l
    by (simp add: queues_ok_def rinv_frame sinv_frame)
  ultimately show "\<exists>s'. wait_dequeue q s = Inr (t, s') \<and> queues_ok Q s' \<and> kept s s' \<and> mem s' = mem s \<and>
      tid_is_real t \<and> threads s' = (threads s)(t := (threads s t)\<lparr>th_in_wait_queue := False, th_wait_queue := 0\<rparr>) \<and>
      ready_list s' = ready_list s \<and> sleep_list s' = sleep_list s \<and> wait_list s' = (wait_list s)(q := ts)"
    using x t by (intro exI [of _ ?s]) simp
qed

lemma wait_remove_ok:
  assumes "queues_ok Q s" and "tid_is_real t" and "th_in_wait_queue (threads s t)"
  obtains s' where "wait_remove t s = Inr ((), s')" and "queues_ok Q s'" and "kept s s'" and "mem s' = mem s"
    and "threads s' = (threads s)(t := (threads s t)\<lparr>th_in_wait_queue := False, th_wait_queue := 0\<rparr>)"
    and "ready_list s' = ready_list s" and "sleep_list s' = sleep_list s"
    and "wait_list s' = (wait_list s)(th_wait_queue (threads s t) := remove1 t (wait_list s (th_wait_queue (threads s t))))"
proof -
  let ?q = "th_wait_queue (threads s t)"
  let ?th = "(threads s t)\<lparr>th_in_wait_queue := False, th_wait_queue := 0\<rparr>"
  have w: "winv Q (threads s) (wait_list s)" using assms(1) by (simp add: queues_ok_def)
  have rm: "winv Q ((threads s)(t := ?th)) ((wait_list s)(?q := remove1 t (wait_list s ?q)))"
    "?q \<in> Q" "t \<in> set (wait_list s ?q)" "?q \<noteq> 0"
    using winv_remove [OF w assms(2,3), of ?th ?q] by simp_all
  obtain x where x: "wait_queue_remove (wait_queues s ?q) t = (0, x)" "wq_ok x" "wq_items x = remove1 t (wait_list s ?q)"
    using wait_queue_remove_items [of "wait_queues s ?q" t] assms(1) rm(2,3)
    by (auto simp: queues_ok_def wait_list_def split: prod.splits)
  let ?s = "upd_thread t (\<lambda>th. th\<lparr>th_in_wait_queue := False, th_wait_queue := 0\<rparr>)
      (s\<lparr>wait_queues := (wait_queues s)(?q := x)\<rparr>)"
  have run: "wait_remove t s = Inr ((), ?s)" using assms(3) rm(4) x by (simp add: wait_remove_def)
  have "queues_ok Q ?s" using assms(1) x rm(1) by (simp add: queues_ok_def rinv_frame sinv_frame)
  with run x show thesis by (intro that [of ?s]) simp_all
qed

lemma timeout_remove_ok:
  assumes "queues_ok Q s" and "tid_is_real t" and "th_in_sleep_queue (threads s t)"
  obtains s' where "timeout_remove t s = Inr ((), s')" and "queues_ok Q s'" and "kept s s'" and "mem s' = mem s"
    and "threads s' = (threads s)(t := (threads s t)\<lparr>th_in_sleep_queue := False, th_wake_tick := 0\<rparr>)"
    and "ready_list s' = ready_list s" and "sleep_list s' = remove1 t (sleep_list s)" and "wait_list s' = wait_list s"
proof -
  have inv: "sq_ok (sleep_queue s)" "sinv (threads s) (sleep_list s)" using assms(1) by (simp_all add: queues_ok_def)
  have "t \<in> set (sleep_list s)" using inv(2) assms(2,3) by (simp add: sinv_def)
  then obtain x where x: "sleep_queue_remove (sleep_queue s) t = (0, x)" "sq_ok x" "sq_items x = remove1 t (sleep_list s)"
    using sleep_queue_remove_items [OF inv(1), of t] by (auto simp: sleep_list_def split: prod.splits)
  let ?s = "upd_thread t (\<lambda>th. th\<lparr>th_in_sleep_queue := False, th_wake_tick := 0\<rparr>) (s\<lparr>sleep_queue := x\<rparr>)"
  have run: "timeout_remove t s = Inr ((), ?s)" using assms(3) x by (simp add: timeout_remove_def)
  have "queues_ok Q ?s" using assms(1) x by (simp add: queues_ok_def rinv_frame sinv_remove winv_frame)
  with run x show thesis by (intro that [of ?s]) simp_all
qed

end
