(* ===== verification/Sched_Wake.thy ===== *)
theory Sched_Wake
  imports Sched_Inv
begin

text \<open>
  Waking threads: \<open>wake_blocked_thread\<close>, the tick's \<open>wake_sleepers\<close>,
  \<open>wait_queue_wake_one\<close> and \<open>wait_queue_wake_all\<close>.
\<close>

section \<open>Waking one thread\<close>

definition woken :: "int \<Rightarrow> thread \<Rightarrow> thread" where
  "woken r th = th\<lparr>th_in_sleep_queue := False, th_in_wait_queue := False, th_wait_queue := 0,
     th_wait_reason := THREAD_WAIT_NONE, th_wake_tick := 0, th_wait_result := r, th_state := THREAD_READY,
     th_in_ready_queue := True\<rparr>"

definition wake_mem :: "u64 \<Rightarrow> int \<Rightarrow> memory \<Rightarrow> memory" where
  "wake_mem frame r m = (if frame \<noteq> 0 then write64 m (frame + FRAME_A0) (sext64 r) else m)"

lemma woken_simps [simp]:
  "th_tid (woken r th) = th_tid th" "th_state (woken r th) = THREAD_READY" "th_wait_reason (woken r th) = THREAD_WAIT_NONE"
  "th_wait_queue (woken r th) = 0" "th_in_ready_queue (woken r th)" "\<not> th_in_sleep_queue (woken r th)"
  "\<not> th_in_wait_queue (woken r th)" "th_wake_tick (woken r th) = 0" "th_wait_result (woken r th) = r"
  "th_trap_frame (woken r th) = th_trap_frame th" "th_kernel_sp (woken r th) = th_kernel_sp th"
  "th_user_task (woken r th) = th_user_task th" "th_quantum_ticks (woken r th) = th_quantum_ticks th"
  by (simp_all add: woken_def)

lemma queues_ok_parts:
  assumes "queues_ok Q s"
  shows "rinv (threads s) (ready_list s)" "sinv (threads s) (sleep_list s)" "winv Q (threads s) (wait_list s)"
    "tq_ok (ready_queue s)" "sq_ok (sleep_queue s)" "q \<in> Q \<Longrightarrow> wq_ok (wait_queues s q)"
  using assms by (simp_all add: queues_ok_def)

text \<open>Updating a thread without touching what the queues depend on.\<close>

lemma queues_ok_upd:
  assumes "queues_ok Q s" and "th_in_ready_queue x = th_in_ready_queue (threads s t)"
    and "th_in_sleep_queue x = th_in_sleep_queue (threads s t)" and "th_in_wait_queue x = th_in_wait_queue (threads s t)"
    and "th_wait_queue x = th_wait_queue (threads s t) \<or> \<not> th_in_wait_queue (threads s t)"
    and "th_wake_tick x = th_wake_tick (threads s t) \<or> \<not> th_in_sleep_queue (threads s t)"
    and "threads s' = (threads s)(t := x)" "ready_queue s' = ready_queue s" "sleep_queue s' = sleep_queue s"
      "wait_queues s' = wait_queues s"
  shows "queues_ok Q s'"
  using assms unfolding queues_ok_def ready_list_def sleep_list_def wait_list_def
  by (simp add: rinv_frame sinv_frame winv_frame)

lemma wake_blocked_ok:
  assumes "queues_ok Q s" and real: "tid_is_real t" and "th_state (threads s t) = THREAD_BLOCKED"
    and "\<not> th_in_ready_queue (threads s t)" and "\<not> th_in_wait_queue (threads s t) \<Longrightarrow> th_wait_queue (threads s t) = 0"
  obtains s' where "wake_blocked_thread t r s = Inr ((), s')" and "queues_ok Q s'" and "kept s s'"
    and "threads s' = (threads s)(t := woken r (threads s t))" and "mem s' = wake_mem (th_trap_frame (threads s t)) r (mem s)"
    and "ready_list s' = ready_list s @ [t]" and "sleep_list s' = remove1 t (sleep_list s)"
    and "\<forall>q\<in>Q. wait_list s' q = remove1 t (wait_list s q)"
proof -
  let ?th = "threads s t"
  let ?th1 = "?th\<lparr>th_in_sleep_queue := False, th_wake_tick := (if th_in_sleep_queue ?th then 0 else th_wake_tick ?th)\<rparr>"
  let ?th2 = "?th1\<lparr>th_in_wait_queue := False, th_wait_queue := 0\<rparr>"
  obtain s1 where s1: "(if th_in_sleep_queue ?th then timeout_remove t s else Inr ((), s)) = Inr ((), s1)"
    "queues_ok Q s1" "kept s s1" "mem s1 = mem s" "threads s1 = (threads s)(t := ?th1)"
    "ready_list s1 = ready_list s" "sleep_list s1 = remove1 t (sleep_list s)" "wait_list s1 = wait_list s"
  proof (cases "th_in_sleep_queue ?th")
    case True
    obtain u where "timeout_remove t s = Inr ((), u)" "queues_ok Q u" "kept s u" "mem u = mem s"
      "threads u = (threads s)(t := ?th\<lparr>th_in_sleep_queue := False, th_wake_tick := 0\<rparr>)"
      "ready_list u = ready_list s" "sleep_list u = remove1 t (sleep_list s)" "wait_list u = wait_list s"
      by (rule timeout_remove_ok [OF assms(1) real True])
    then show thesis using True by (intro that [of u]) simp_all
  next
    case False
    then have "t \<notin> set (sleep_list s)" using queues_ok_parts(2) [OF assms(1)] by (simp add: sinv_def)
    then have "sleep_list s = remove1 t (sleep_list s)" by (simp add: remove1_idem)
    moreover have "threads s = (threads s)(t := ?th1)" using False by (simp add: fun_eq_iff)
    ultimately show thesis using False assms(1) by (intro that [of s]) (simp_all only: if_False kept_refl)
  qed
  have w1: "th_in_wait_queue (threads s1 t) = th_in_wait_queue ?th" "th_wait_queue (threads s1 t) = th_wait_queue ?th"
    using s1(5) by simp_all
  obtain s2 where s2: "(if th_in_wait_queue (threads s1 t) then wait_remove t s1 else Inr ((), s1)) = Inr ((), s2)"
    "queues_ok Q s2" "kept s1 s2" "mem s2 = mem s" "threads s2 = (threads s)(t := ?th2)"
    "ready_list s2 = ready_list s" "sleep_list s2 = remove1 t (sleep_list s)"
    "\<And>q. q \<in> Q \<Longrightarrow> wait_list s2 q = remove1 t (wait_list s q)"
  proof (cases "th_in_wait_queue ?th")
    case True
    then have in1: "th_in_wait_queue (threads s1 t)" by (simp add: w1)
    have other: "t \<notin> set (wait_list s q)" if "q \<in> Q" "q \<noteq> th_wait_queue ?th" for q
      using queues_ok_parts(3) [OF assms(1)] that by (simp add: winv_def)
    obtain u where "wait_remove t s1 = Inr ((), u)" "queues_ok Q u" "kept s1 u" "mem u = mem s1"
      "threads u = (threads s1)(t := (threads s1 t)\<lparr>th_in_wait_queue := False, th_wait_queue := 0\<rparr>)"
      "ready_list u = ready_list s1" "sleep_list u = sleep_list s1"
      "wait_list u = (wait_list s1)(th_wait_queue (threads s1 t) := remove1 t (wait_list s1 (th_wait_queue (threads s1 t))))"
      by (rule wait_remove_ok [OF s1(2) real in1])
    then show thesis using s1 w1 True other by (intro that [of u]) (simp_all add: remove1_idem)
  next
    case False
    then have "t \<notin> set (wait_list s q)" if "q \<in> Q" for q
      using queues_ok_parts(3) [OF assms(1)] that by (simp add: winv_def)
    moreover have "?th1 = ?th2" using False assms(5) by simp
    ultimately show thesis using False s1 w1 by (intro that [of s1]) (simp_all add: remove1_idem)
  qed
  let ?s3 = "mark_woken t r s2"
  have th3: "threads ?s3 t = ?th2\<lparr>th_wait_reason := THREAD_WAIT_NONE, th_wake_tick := 0, th_wait_result := r,
      th_state := THREAD_READY\<rparr>" using s2(5) by simp
  have q3: "queues_ok Q ?s3"
    by (rule queues_ok_upd [OF s2(2), of "threads ?s3 t" t]) (simp_all add: s2(5))
  obtain s' where s': "ready_enqueue t ?s3 = Inr ((), s')" "queues_ok Q s'" "kept ?s3 s'" "mem s' = mem ?s3"
    "threads s' = (threads ?s3)(t := (threads ?s3 t)\<lparr>th_in_ready_queue := True\<rparr>)"
    "ready_list s' = ready_list ?s3 @ [t]" "sleep_list s' = sleep_list ?s3" "wait_list s' = wait_list ?s3"
    by (rule ready_enqueue_ok [OF q3 real]) (use assms(4) s2(5) in simp_all)
  have run: "wake_blocked_thread t r s = Inr ((), s')"
    using assms(3,4) s1(1) s2(1) s'(1) by (simp add: wake_blocked_thread_def)
  have k: "kept s s'" using kept_trans [OF kept_trans [OF s1(3) s2(3)]] s'(3) by (simp add: kept_trans [of s2 ?s3 s'])
  show thesis
  proof (rule that [OF run s'(2) k])
    show "threads s' = (threads s)(t := woken r ?th)"
      unfolding s'(5) th3 by (simp add: s2(5) woken_def)
    show "mem s' = wake_mem (th_trap_frame ?th) r (mem s)"
      unfolding s'(4) by (simp add: mem_mark_woken wake_mem_def s2(4,5))
  qed (use s' s2 in simp_all)
qed

text \<open>Waking a consistent blocked thread keeps everything consistent.\<close>

lemma consistent_upd:
  assumes "consistent H Q s" and "tid_is_real t" and "queues_ok Q s'" and "threads s' = (threads s)(t := x)" and "thread_ok t x"
  shows "consistent (H - {t}) Q s'"
proof -
  have "t \<noteq> 0" using real_nonzero [OF assms(2)] by simp
  with assms show ?thesis by (auto simp: consistent_def)
qed

lemma thread_ok_woken:
  "th_tid th = t \<Longrightarrow> th_trap_frame th \<noteq> 0 \<Longrightarrow> thread_ok t (woken r th)"
  by (simp add: thread_ok_def)

lemma blocked_frame: "thread_ok t th \<Longrightarrow> th_state th = THREAD_BLOCKED \<Longrightarrow> th_tid th = t \<and> th_trap_frame th \<noteq> 0"
  by (simp add: thread_ok_def)

lemma consistentD:
  assumes "consistent H Q s"
  shows "queues_ok Q s" and "tid_is_real t \<Longrightarrow> t \<notin> H \<Longrightarrow> thread_ok t (threads s t)" and "null_ok (threads s 0)"
  using assms by (simp_all add: consistent_def)

section \<open>The sleepers whose time has come\<close>

definition timeout_result :: "thread \<Rightarrow> int" where
  "timeout_result th = (if th_wait_reason th = THREAD_WAIT_QUEUE_TIMEOUT then WAIT_TIMEOUT else WAIT_OK)"

text \<open>One pass of the loop on the first sleeper.\<close>

lemma wake_first_sleeper:
  assumes con: "consistent {} Q s" and sl: "sleep_list s = t # S" and due: "th_wake_tick (threads s t) \<le> now"
  shows "\<exists>s1 s'. sleep_dequeue_expired now s = Inr (t, s1) \<and> wake_sleeper now t s1 = Inr ((), s') \<and> tid_is_real t \<and>
    consistent {} Q s' \<and> kept s s' \<and>
    threads s' = (threads s)(t := woken (timeout_result (threads s t)) (threads s t)) \<and>
    mem s' = wake_mem (th_trap_frame (threads s t)) (timeout_result (threads s t)) (mem s) \<and>
    ready_list s' = ready_list s @ [t] \<and> sleep_list s' = S \<and> (\<forall>q\<in>Q. wait_list s' q = remove1 t (wait_list s q))"
proof -
  let ?th = "threads s t" and ?r = "timeout_result (threads s t)"
  have q: "queues_ok Q s" by (rule consistentD(1) [OF con])
  have t: "tid_is_real t" "th_in_sleep_queue ?th" "t \<notin> set S"
    using queues_ok_parts(2) [OF q] sl by (auto simp: sinv_def)
  have ok: "thread_ok t ?th" by (rule consistentD(2) [OF con t(1)]) simp
  then have st: "th_state ?th = THREAD_BLOCKED" "\<not> th_in_ready_queue ?th" "th_trap_frame ?th \<noteq> 0" "th_tid ?th = t"
    "th_wait_reason ?th = THREAD_WAIT_SLEEP \<or> th_wait_reason ?th = THREAD_WAIT_QUEUE_TIMEOUT"
    "th_in_wait_queue ?th \<longleftrightarrow> th_wait_reason ?th = THREAD_WAIT_QUEUE_TIMEOUT"
    "th_wait_queue ?th \<noteq> 0 \<longleftrightarrow> th_in_wait_queue ?th"
    using t(2) by (auto simp: thread_ok_def)
  obtain x where x: "sleep_queue_peek (sleep_queue s) = t" "sleep_queue_pop_head (sleep_queue s) = (t, x)" "sq_ok x"
      "sq_items x = S"
    using sleep_queue_pop_items [OF queues_ok_parts(5) [OF q]] sl unfolding sleep_list_def by metis
  define s1 where "s1 = upd_thread t (\<lambda>th. th\<lparr>th_in_sleep_queue := False\<rparr>) (s\<lparr>sleep_queue := x\<rparr>)"
  have deq: "sleep_dequeue_expired now s = Inr (t, s1)"
    using x(1,2) real_nonzero [OF t(1)] st(1,5) t(2) due by (auto simp: sleep_dequeue_expired_def s1_def)
  have th1: "threads s1 = (threads s)(t := ?th\<lparr>th_in_sleep_queue := False\<rparr>)" by (simp add: s1_def)
  have rm: "remove1 t (sleep_list s) = S" using sl by simp
  have q1: "queues_ok Q s1"
    using q x(3,4) sinv_remove [OF queues_ok_parts(2) [OF q], of "?th\<lparr>th_in_sleep_queue := False\<rparr>" t] rm
    by (simp add: queues_ok_def s1_def rinv_frame winv_frame)
  have l1: "ready_list s1 = ready_list s" "sleep_list s1 = S" "wait_list s1 = wait_list s" "mem s1 = mem s" "kept s s1"
    using x(4) by (simp_all add: s1_def)
  have "\<exists>s'. wake_sleeper now t s1 = Inr ((), s') \<and> queues_ok Q s' \<and> kept s1 s' \<and>
      threads s' = (threads s)(t := woken ?r ?th) \<and> mem s' = wake_mem (th_trap_frame ?th) ?r (mem s) \<and>
      ready_list s' = ready_list s @ [t] \<and> sleep_list s' = S \<and> (\<forall>q\<in>Q. wait_list s' q = remove1 t (wait_list s q))"
  proof (cases "th_wait_reason ?th = THREAD_WAIT_QUEUE_TIMEOUT")
    case True
    then have in1: "th_in_wait_queue (threads s1 t)" using st(6) by (simp add: th1)
    obtain s2 where s2: "wait_remove t s1 = Inr ((), s2)" "queues_ok Q s2" "kept s1 s2" "mem s2 = mem s1"
      "threads s2 = (threads s1)(t := (threads s1 t)\<lparr>th_in_wait_queue := False, th_wait_queue := 0\<rparr>)"
      "ready_list s2 = ready_list s1" "sleep_list s2 = sleep_list s1"
      "wait_list s2 = (wait_list s1)(th_wait_queue (threads s1 t) := remove1 t (wait_list s1 (th_wait_queue (threads s1 t))))"
      by (rule wait_remove_ok [OF q1 t(1) in1])
    define s3 where "s3 = trace_emit TRACE_THREAD_WAKE t THREAD_INVALID_TID (sext64 WAIT_TIMEOUT) now s2"
    have q3: "queues_ok Q s3" using s2(2) by (simp add: s3_def queues_ok_def)
    have th3: "threads s3 t = ?th\<lparr>th_in_sleep_queue := False, th_in_wait_queue := False, th_wait_queue := 0\<rparr>"
      "threads s3 = (threads s)(t := threads s3 t)"
      by (simp_all add: s3_def s2(5) th1)
    have pre: "th_state (threads s3 t) = THREAD_BLOCKED" "\<not> th_in_ready_queue (threads s3 t)"
      "\<not> th_in_wait_queue (threads s3 t) \<Longrightarrow> th_wait_queue (threads s3 t) = 0"
      using st by (simp_all add: th3(1))
    obtain s' where s': "wake_blocked_thread t WAIT_TIMEOUT s3 = Inr ((), s')" "queues_ok Q s'" "kept s3 s'"
      "threads s' = (threads s3)(t := woken WAIT_TIMEOUT (threads s3 t))"
      "mem s' = wake_mem (th_trap_frame (threads s3 t)) WAIT_TIMEOUT (mem s3)"
      "ready_list s' = ready_list s3 @ [t]" "sleep_list s' = remove1 t (sleep_list s3)"
      "\<forall>q\<in>Q. wait_list s' q = remove1 t (wait_list s3 q)"
      by (rule wake_blocked_ok [OF q3 t(1) pre(1,2,3)])
    have wl: "remove1 t (wait_list s3 q) = remove1 t (wait_list s q)" if "q \<in> Q" for q
    proof -
      have "distinct (wait_list s q)" using queues_ok_parts(3) [OF q] that by (simp add: winv_def)
      then show ?thesis using l1(3) by (auto simp: s3_def s2(8) remove1_idem)
    qed
    have "threads s' = (threads s)(t := woken WAIT_TIMEOUT ?th)"
      using s'(4) th3(2) by (simp add: th3(1) woken_def)
    moreover have "kept s1 s'" by (rule kept_trans [OF s2(3)]) (use s'(3) kept_trans [of s2 s3 s'] in \<open>simp add: s3_def\<close>)
    moreover have "?r = WAIT_TIMEOUT" by (simp add: timeout_result_def True)
    ultimately show ?thesis
      using s' True in1 s2(1) l1 t(3) wl th3(1) s2(4,6,7)
      by (intro exI [of _ s']) (simp add: wake_sleeper_def th1 s3_def remove1_idem)
  next
    case False
    then have sleep: "th_wait_reason ?th = THREAD_WAIT_SLEEP" using st(5) by simp
    define s3 where "s3 = trace_emit TRACE_THREAD_WAKE t THREAD_INVALID_TID (sext64 WAIT_OK) now
        (upd_thread t (\<lambda>th. th\<lparr>th_wake_tick := 0\<rparr>) s1)"
    have th3: "threads s3 t = ?th\<lparr>th_in_sleep_queue := False, th_wake_tick := 0\<rparr>"
      "threads s3 = (threads s)(t := threads s3 t)"
      by (simp_all add: s3_def th1)
    have q3: "queues_ok Q s3"
      by (rule queues_ok_upd [OF q1, of "threads s3 t" t]) (simp_all add: s3_def th1)
    have pre: "th_state (threads s3 t) = THREAD_BLOCKED" "\<not> th_in_ready_queue (threads s3 t)"
      "\<not> th_in_wait_queue (threads s3 t) \<Longrightarrow> th_wait_queue (threads s3 t) = 0"
      using st sleep by (simp_all add: th3(1))
    obtain s' where s': "wake_blocked_thread t WAIT_OK s3 = Inr ((), s')" "queues_ok Q s'" "kept s3 s'"
      "threads s' = (threads s3)(t := woken WAIT_OK (threads s3 t))"
      "mem s' = wake_mem (th_trap_frame (threads s3 t)) WAIT_OK (mem s3)"
      "ready_list s' = ready_list s3 @ [t]" "sleep_list s' = remove1 t (sleep_list s3)"
      "\<forall>q\<in>Q. wait_list s' q = remove1 t (wait_list s3 q)"
      by (rule wake_blocked_ok [OF q3 t(1) pre(1,2,3)])
    have "threads s' = (threads s)(t := woken WAIT_OK ?th)"
      using s'(4) th3(2) by (simp add: th3(1) woken_def)
    moreover have "kept s1 s'" using s'(3) kept_trans [of s1 s3 s'] by (simp add: s3_def)
    moreover have "?r = WAIT_OK" by (simp add: timeout_result_def sleep)
    ultimately show ?thesis
      using s' sleep l1 t(3) th3(1)
      by (intro exI [of _ s']) (simp add: wake_sleeper_def th1 s3_def remove1_idem)
  qed
  then obtain s' where s': "wake_sleeper now t s1 = Inr ((), s')" "queues_ok Q s'" "kept s1 s'"
      "threads s' = (threads s)(t := woken ?r ?th)" "mem s' = wake_mem (th_trap_frame ?th) ?r (mem s)"
      "ready_list s' = ready_list s @ [t]" "sleep_list s' = S" "\<forall>q\<in>Q. wait_list s' q = remove1 t (wait_list s q)"
    by blast
  have "consistent ({} - {t}) Q s'"
    by (rule consistent_upd [OF con t(1) s'(2,4)]) (rule thread_ok_woken [OF st(4,3)])
  moreover have "kept s s'" using kept_trans [OF l1(5) s'(3)] .
  ultimately show ?thesis using deq s' t(1) by (intro exI [of _ s1] exI [of _ s']) simp
qed

lemma due_prefix:
  fixes f :: "'x \<Rightarrow> u64"
  assumes "sorted (map f xs)" and "xs = x # ys" and "\<not> f x \<le> c"
  shows "filter (\<lambda>x. f x \<le> c) xs = []"
  using assms by (auto simp: filter_empty_conv dest: order_trans)

definition due :: "u64 \<Rightarrow> 'a sched_scheme \<Rightarrow> tid_t list" where
  "due now s = filter (\<lambda>t. th_wake_tick (threads s t) \<le> now) (sleep_list s)"

definition woken_at :: "u64 \<Rightarrow> 'a sched_scheme \<Rightarrow> tid_t \<Rightarrow> thread" where
  "woken_at now s t = (if t \<in> set (due now s) then woken (timeout_result (threads s t)) (threads s t) else threads s t)"

lemma sleep_dequeue_none:
  assumes con: "consistent {} Q s" and none: "due now s = []"
  shows "sleep_dequeue_expired now s = Inr (THREAD_INVALID_TID, s)"
proof (cases "sleep_list s")
  case Nil
  then have "sleep_queue_empty (sleep_queue s)"
    using sleep_queue_empty_items [OF queues_ok_parts(5) [OF consistentD(1) [OF con]]] by (simp add: sleep_list_def)
  then show ?thesis by (simp add: sleep_dequeue_expired_def sleep_queue_peek_def)
next
  case (Cons t S)
  note q = consistentD(1) [OF con]
  have t: "tid_is_real t" "th_in_sleep_queue (threads s t)" using queues_ok_parts(2) [OF q] Cons by (auto simp: sinv_def)
  have "thread_ok t (threads s t)" by (rule consistentD(2) [OF con t(1)]) simp
  then have st: "th_state (threads s t) = THREAD_BLOCKED"
    "th_wait_reason (threads s t) = THREAD_WAIT_SLEEP \<or> th_wait_reason (threads s t) = THREAD_WAIT_QUEUE_TIMEOUT"
    using t(2) by (auto simp: thread_ok_def)
  have "sleep_queue_peek (sleep_queue s) = t"
    using sleep_queue_pop_items [OF queues_ok_parts(5) [OF q]] Cons unfolding sleep_list_def by metis
  moreover have "th_wake_tick (threads s t) > now" using none Cons by (simp add: due_def not_le split: if_splits)
  ultimately show ?thesis using st t(2) by (auto simp: sleep_dequeue_expired_def Let_def)
qed

lemma wake_sleepers_ok:
  fixes s :: "'a sched_scheme"
  assumes "consistent {} Q s"
  shows "returns (wake_sleepers now s) (\<lambda>_ s'. consistent {} Q s' \<and> kept s s' \<and> threads s' = woken_at now s \<and>
    ready_list s' = ready_list s @ due now s \<and>
    sleep_list s' = filter (\<lambda>t. th_wake_tick (threads s t) > now) (sleep_list s) \<and>
    (\<forall>q\<in>Q. wait_list s' q = filter (\<lambda>t. t \<notin> set (due now s)) (wait_list s q)))"
  using assms
proof (induction "sleep_list s" arbitrary: s)
  case Nil
  then have "due now s = []" by (simp add: due_def)
  then show ?case
    using sleep_dequeue_none [OF Nil.prems] Nil
    by (subst wake_sleepers.simps) (simp add: woken_at_def fun_eq_iff)
next
  case (Cons t S)
  note q = consistentD(1) [OF Cons.prems]
  have srt: "sorted (map (\<lambda>t. th_wake_tick (threads s t)) (sleep_list s))" and dist: "distinct (sleep_list s)"
    using queues_ok_parts(2) [OF q] by (simp_all add: sinv_def)
  show ?case
  proof (cases "th_wake_tick (threads s t) \<le> now")
    case False
    have none: "due now s = []" unfolding due_def by (rule due_prefix [OF srt Cons.hyps(2) [symmetric] False])
    then have "filter (\<lambda>t. th_wake_tick (threads s t) > now) (sleep_list s) = sleep_list s"
      by (auto simp: due_def filter_empty_conv not_le intro!: filter_True)
    then show ?thesis
      using sleep_dequeue_none [OF Cons.prems none] Cons.prems none
      by (subst wake_sleepers.simps) (simp add: woken_at_def fun_eq_iff)
  next
    case True
    let ?r = "timeout_result (threads s t)"
    obtain s1 s2 where run: "sleep_dequeue_expired now s = Inr (t, s1)" "wake_sleeper now t s1 = Inr ((), s2)"
      and t: "tid_is_real t" and s2: "consistent {} Q s2" "kept s s2"
        "threads s2 = (threads s)(t := woken ?r (threads s t))"
        "ready_list s2 = ready_list s @ [t]" "sleep_list s2 = S" "\<forall>q\<in>Q. wait_list s2 q = remove1 t (wait_list s q)"
      using wake_first_sleeper [OF Cons.prems Cons.hyps(2) [symmetric] True] by (elim exE conjE) (rule that)
    have nt: "t \<notin> set S" using dist Cons.hyps(2) [symmetric] by simp
    have due: "due now s = t # due now s2"
      using Cons.hyps(2) [symmetric] True nt s2(3,5) by (auto simp: due_def intro!: filter_cong)
    have rest: "filter (\<lambda>t. th_wake_tick (threads s2 t) > now) (sleep_list s2) =
        filter (\<lambda>t. th_wake_tick (threads s t) > now) (sleep_list s)"
      using Cons.hyps(2) [symmetric] True nt s2(3,5) by (auto simp: not_less intro!: filter_cong)
    have ntd: "t \<notin> set (due now s2)" using nt s2(5) by (simp add: due_def)
    have th: "woken_at now s2 = woken_at now s"
      using ntd by (auto simp: woken_at_def due s2(3) fun_eq_iff)
    have wl: "filter (\<lambda>t. t \<notin> set (due now s2)) (wait_list s2 q) = filter (\<lambda>t. t \<notin> set (due now s)) (wait_list s q)"
      if "q \<in> Q" for q
    proof -
      have "distinct (wait_list s q)" using queues_ok_parts(3) [OF q] that by (simp add: winv_def)
      then have "wait_list s2 q = filter (\<lambda>x. x \<noteq> t) (wait_list s q)"
        using s2(6) that by (simp add: distinct_remove1_removeAll removeAll_filter_not_eq)
          (auto intro: filter_cong)
      then show ?thesis by (auto simp: due intro: filter_cong)
    qed
    have "wake_sleepers now s = wake_sleepers now s2"
      using run real_nonzero [OF t] by (subst wake_sleepers.simps) simp
    then show ?thesis
      using Cons.hyps(1) [OF s2(5) [symmetric] s2(1)] kept_trans [OF s2(2)] wl s2(4)
      by (auto elim!: returns_mono simp: th due rest)
  qed
qed

section \<open>Critical sections of the scheduler\<close>

text \<open>
  What holds of a body run with interrupts masked holds of the critical section, with the
  interrupt-enable bit as it was.
\<close>

lemma masked_returns:
  assumes "returns (body (s\<lparr>sstatus := sstatus s AND NOT SSTATUS_SIE\<rparr>)) (\<lambda>x s2.
    sstatus s2 = sstatus s AND NOT SSTATUS_SIE \<and> P x (s2\<lparr>sstatus := sstatus s\<rparr>))"
  shows "returns (irq_masked body s) P"
  using assms
  by (rule returnsE) (simp add: irq_masked_def irq_save_def csr_clear_sstatus_def irq_restore_masked)

lemma sstatus_sched [simp]:
  "ready_list (s\<lparr>sstatus := v\<rparr>) = ready_list s" "sleep_list (s\<lparr>sstatus := v\<rparr>) = sleep_list s"
  "wait_list (s\<lparr>sstatus := v\<rparr>) = wait_list s"
  "ready_list (s\<lparr>preempt_disable_depth := d\<rparr>) = ready_list s" "sleep_list (s\<lparr>preempt_disable_depth := d\<rparr>) = sleep_list s"
  "wait_list (s\<lparr>preempt_disable_depth := d\<rparr>) = wait_list s"
  by (simp_all add: ready_list_def sleep_list_def wait_list_def fun_eq_iff)

lemma sstatus_inv [simp]:
  "queues_ok Q (s\<lparr>sstatus := v\<rparr>) = queues_ok Q s" "consistent H Q (s\<lparr>sstatus := v\<rparr>) = consistent H Q s"
  "sched_inv Q (s\<lparr>sstatus := v\<rparr>) = sched_inv Q s"
  "queues_ok Q (s\<lparr>preempt_disable_depth := d\<rparr>) = queues_ok Q s"
  "consistent H Q (s\<lparr>preempt_disable_depth := d\<rparr>) = consistent H Q s"
  by (simp_all add: queues_ok_def consistent_def sched_inv_def)

lemma preempt_off_on:
  assumes "preempt_disable_depth s = 0" and "kept (preempt_disable (s\<lparr>sstatus := v\<rparr>)) s2"
  shows "preempt_enable s2 = Inr ((), s2\<lparr>preempt_disable_depth := 0\<rparr>)"
    and "kept s (s2\<lparr>preempt_disable_depth := 0, sstatus := sstatus s\<rparr>)"
    and "sstatus s2 = v"
  using assms by (simp_all add: kept_def preempt_disable_def preempt_enable_def)

lemma preempt_disable_sched [simp]:
  "threads (preempt_disable s) = threads s" "ready_list (preempt_disable s) = ready_list s"
  "sleep_list (preempt_disable s) = sleep_list s" "wait_list (preempt_disable s) = wait_list s"
  "consistent H Q (preempt_disable s) = consistent H Q s" "mem (preempt_disable s) = mem s"
  "queues_ok Q (preempt_disable s) = queues_ok Q s" "current_thread (preempt_disable s) = current_thread s"
  "ticks (preempt_disable s) = ticks s" "user_tasks (preempt_disable s) = user_tasks s"
  by (simp_all add: preempt_disable_def)

section \<open>Waking waiters\<close>

lemma wake_first_waiter:
  assumes con: "consistent {} Q s" and Q: "q \<in> Q" and wl: "wait_list s q = t # ts"
  shows "\<exists>s1 s'. wait_dequeue q s = Inr (t, s1) \<and> wake_blocked_thread t WAIT_OK s1 = Inr ((), s') \<and> tid_is_real t \<and>
    th_state (threads s t) = THREAD_BLOCKED \<and>
    consistent {} Q s' \<and> kept s s' \<and> threads s' = (threads s)(t := woken WAIT_OK (threads s t)) \<and>
    mem s' = wake_mem (th_trap_frame (threads s t)) WAIT_OK (mem s) \<and>
    ready_list s' = ready_list s @ [t] \<and> sleep_list s' = remove1 t (sleep_list s) \<and>
    (\<forall>q'\<in>Q. wait_list s' q' = ((wait_list s)(q := ts)) q')"
proof -
  let ?th = "threads s t"
  note q = consistentD(1) [OF con]
  have blocked: "\<forall>x. tid_is_real x \<and> th_in_wait_queue (threads s x) \<longrightarrow> th_state (threads s x) = THREAD_BLOCKED"
    using consistentD(2) [OF con] by (auto simp: thread_ok_def)
  obtain s1 where s1: "wait_dequeue q s = Inr (t, s1)" "queues_ok Q s1" "kept s s1" "mem s1 = mem s" "tid_is_real t"
    "threads s1 = (threads s)(t := ?th\<lparr>th_in_wait_queue := False, th_wait_queue := 0\<rparr>)"
    "ready_list s1 = ready_list s" "sleep_list s1 = sleep_list s" "wait_list s1 = (wait_list s)(q := ts)"
    using wait_dequeue_ok(2) [OF q Q blocked wl] by (elim exE conjE) (rule that)
  have inw: "th_in_wait_queue ?th"
    using queues_ok_parts(3) [OF q] Q wl unfolding winv_def by (metis list.set_intros(1))
  have ok: "thread_ok t ?th" by (rule consistentD(2) [OF con s1(5)]) simp
  then have st: "th_state ?th = THREAD_BLOCKED" "\<not> th_in_ready_queue ?th" "th_tid ?th = t" "th_trap_frame ?th \<noteq> 0"
    using inw by (auto simp: thread_ok_def)
  have pre: "th_state (threads s1 t) = THREAD_BLOCKED" "\<not> th_in_ready_queue (threads s1 t)"
    "\<not> th_in_wait_queue (threads s1 t) \<Longrightarrow> th_wait_queue (threads s1 t) = 0"
    using st by (simp_all add: s1(6))
  obtain s' where s': "wake_blocked_thread t WAIT_OK s1 = Inr ((), s')" "queues_ok Q s'" "kept s1 s'"
    "threads s' = (threads s1)(t := woken WAIT_OK (threads s1 t))"
    "mem s' = wake_mem (th_trap_frame (threads s1 t)) WAIT_OK (mem s1)"
    "ready_list s' = ready_list s1 @ [t]" "sleep_list s' = remove1 t (sleep_list s1)"
    "\<forall>q\<in>Q. wait_list s' q = remove1 t (wait_list s1 q)"
    by (rule wake_blocked_ok [OF s1(2,5) pre(1,2,3)])
  have th: "threads s' = (threads s)(t := woken WAIT_OK ?th)"
    by (simp add: s'(4) s1(6) woken_def)
  have "consistent ({} - {t}) Q s'"
    by (rule consistent_upd [OF con s1(5) s'(2) th]) (rule thread_ok_woken [OF st(3,4)])
  moreover have "t \<notin> set (wait_list s1 q')" if "q' \<in> Q" for q'
    using queues_ok_parts(3) [OF s1(2)] that by (simp add: winv_def s1(6))
  ultimately show ?thesis
    using s1 s' th st(1) kept_trans [OF s1(3) s'(3)]
    by (intro exI [of _ s1] exI [of _ s']) (simp add: remove1_idem)
qed

lemma only_running_woken:
  assumes "only_running th c" and "th_state (th t) = THREAD_BLOCKED" and "th_state x = THREAD_READY"
  shows "only_running (th(t := x)) c"
proof -
  have "c \<noteq> Some t" using assms(1,2) by (auto simp: only_running_def)
  with assms show ?thesis by (auto simp: only_running_def)
qed

text \<open>The wait results that a wake-up writes into the frames of the waiters.\<close>

definition wake_all_mem :: "(tid_t \<Rightarrow> thread) \<Rightarrow> tid_t list \<Rightarrow> memory \<Rightarrow> memory" where
  "wake_all_mem th ts m = fold (\<lambda>t. wake_mem (th_trap_frame (th t)) WAIT_OK) ts m"

lemma wake_all_mem_Cons:
  "wake_all_mem (th(t := woken r (th t))) ts (wake_mem (th_trap_frame (th t)) WAIT_OK m) = wake_all_mem th (t # ts) m"
proof -
  have "(\<lambda>x. wake_mem (th_trap_frame ((th(t := woken r (th t))) x)) WAIT_OK) = (\<lambda>x. wake_mem (th_trap_frame (th x)) WAIT_OK)"
    by (simp add: fun_eq_iff)
  then show ?thesis by (simp add: wake_all_mem_def)
qed

lemma wake_all_loop_ok:
  fixes s :: "'a sched_scheme"
  assumes "consistent {} Q s" and "q \<in> Q" and "only_running (threads s) c"
  shows "returns (wake_all_loop q s) (\<lambda>_ s'. consistent {} Q s' \<and> kept s s' \<and> only_running (threads s') c \<and>
    threads s' = (\<lambda>t. if t \<in> set (wait_list s q) then woken WAIT_OK (threads s t) else threads s t) \<and>
    ready_list s' = ready_list s @ wait_list s q \<and>
    sleep_list s' = filter (\<lambda>t. t \<notin> set (wait_list s q)) (sleep_list s) \<and>
    (\<forall>q'\<in>Q. wait_list s' q' = (if q' = q then [] else wait_list s q')) \<and>
    mem s' = wake_all_mem (threads s) (wait_list s q) (mem s))"
  using assms
proof (induction "wait_list s q" arbitrary: s)
  case Nil
  have blocked: "\<forall>x. tid_is_real x \<and> th_in_wait_queue (threads s x) \<longrightarrow> th_state (threads s x) = THREAD_BLOCKED"
    using consistentD(2) [OF Nil.prems(1)] by (auto simp: thread_ok_def)
  have "wait_dequeue q s = Inr (THREAD_INVALID_TID, s)"
    by (rule wait_dequeue_ok(1) [OF consistentD(1) [OF Nil.prems(1)] Nil.prems(2) blocked Nil.hyps [symmetric]])
  then show ?case using Nil by (subst wake_all_loop.simps) (auto simp: wake_all_mem_def)
next
  case (Cons t ts)
  note q = consistentD(1) [OF Cons.prems(1)]
  obtain s1 s2 where run: "wait_dequeue q s = Inr (t, s1)" "wake_blocked_thread t WAIT_OK s1 = Inr ((), s2)"
    and t: "tid_is_real t" "th_state (threads s t) = THREAD_BLOCKED" and s2: "consistent {} Q s2" "kept s s2"
      "threads s2 = (threads s)(t := woken WAIT_OK (threads s t))"
      "ready_list s2 = ready_list s @ [t]" "sleep_list s2 = remove1 t (sleep_list s)"
      "\<forall>q'\<in>Q. wait_list s2 q' = ((wait_list s)(q := ts)) q'"
      "mem s2 = wake_mem (th_trap_frame (threads s t)) WAIT_OK (mem s)"
    using wake_first_waiter [OF Cons.prems(1,2) Cons.hyps(2) [symmetric]] by (elim exE conjE) (rule that)
  have wl: "wait_list s2 q = ts" using s2(6) Cons.prems(2) by simp
  have nt: "t \<notin> set ts"
    using queues_ok_parts(3) [OF q] Cons.prems(2) Cons.hyps(2) [symmetric] by (auto simp: winv_def)
  have run2: "only_running (threads s2) c"
    unfolding s2(3) by (rule only_running_woken [OF Cons.prems(3) t(2)]) simp
  have "distinct (sleep_list s)" using queues_ok_parts(2) [OF q] by (simp add: sinv_def)
  then have sl: "filter (\<lambda>x. x \<notin> set ts) (sleep_list s2) = filter (\<lambda>x. x \<notin> set (t # ts)) (sleep_list s)"
    by (simp add: s2(5) distinct_remove1_removeAll removeAll_filter_not_eq) (auto intro: filter_cong)
  have th: "(\<lambda>x. if x \<in> set ts then woken WAIT_OK (threads s2 x) else threads s2 x) =
      (\<lambda>x. if x \<in> set (t # ts) then woken WAIT_OK (threads s x) else threads s x)"
    using nt by (auto simp: s2(3) fun_eq_iff)
  have mm: "wake_all_mem (threads s2) ts (mem s2) = wake_all_mem (threads s) (t # ts) (mem s)"
    unfolding s2(3,7) by (rule wake_all_mem_Cons)
  have "wake_all_loop q s = wake_all_loop q s2"
    using run real_nonzero [OF t(1)] by (subst wake_all_loop.simps) simp
  moreover note Cons.hyps(1) [OF wl [symmetric] s2(1) Cons.prems(2) run2]
  ultimately show ?case
    using kept_trans [OF s2(2)] s2(4,6) sl th mm Cons.hyps(2) [symmetric] wl
    by (auto elim!: returns_mono)
qed

end
