(* ===== verification/Sched_Switch.thy ===== *)
theory Sched_Switch
  imports Sched_Wake
begin

text \<open>
  Switching threads: choosing the next thread, and the operations of the running thread that
  give up the processor.
\<close>

section \<open>Choosing the next thread\<close>

lemma kept_upd_left [simp]: "kept (upd_thread t f s) s' = kept s s'"
  by (simp add: kept_def upd_thread_def)

definition next_tid :: "'a sched_scheme \<Rightarrow> tid_t" where
  "next_tid s = (case ready_list s of [] \<Rightarrow> THREAD_NULL_TID | t # _ \<Rightarrow> t)"

definition run_next :: "'a sched_scheme \<Rightarrow> tid_t \<Rightarrow> thread" where
  "run_next s = (threads s)(next_tid s := (threads s (next_tid s))\<lparr>th_in_ready_queue := False,
     th_state := THREAD_RUNNING, th_quantum_ticks := 0\<rparr>)"

lemma make_running_simps [simp]:
  "threads (make_running n s) = (threads s)(n := (threads s n)\<lparr>th_state := THREAD_RUNNING, th_quantum_ticks := 0\<rparr>)"
  "current_thread (make_running n s) = Some n" "reschedule_requested (make_running n s) = False"
  "ready_list (make_running n s) = ready_list s" "sleep_list (make_running n s) = sleep_list s"
  "wait_list (make_running n s) = wait_list s" "mem (make_running n s) = mem s"
  "ready_queue (make_running n s) = ready_queue s" "sleep_queue (make_running n s) = sleep_queue s"
  "wait_queues (make_running n s) = wait_queues s" "preempt_disable_depth (make_running n s) = preempt_disable_depth s"
  by (simp_all add: make_running_def ready_list_def sleep_list_def wait_list_def fun_eq_iff)

text \<open>\<open>pick_next_thread\<close> followed by the start of the chosen thread.\<close>

lemma pick_next_ok:
  assumes con: "consistent {} Q s" and idle: "only_running (threads s) None"
  shows "\<exists>s1. pick_next_thread s = Inr (next_tid s, s1) \<and> th_trap_frame (threads s1 (next_tid s)) \<noteq> 0 \<and>
    th_trap_frame (threads s1 (next_tid s)) = th_trap_frame (threads s (next_tid s)) \<and>
    th_tid (threads s1 (next_tid s)) = next_tid s \<and> tid_is_valid (next_tid s) \<and> mem s1 = mem s \<and> kept s s1 \<and>
    threads (make_running (next_tid s) s1) = run_next s \<and>
    consistent {} Q (make_running (next_tid s) s1) \<and> only_running (run_next s) (Some (next_tid s)) \<and>
    ready_list s1 = tl (ready_list s) \<and> sleep_list s1 = sleep_list s \<and> wait_list s1 = wait_list s"
proof -
  note q = consistentD(1) [OF con]
  have ready: "\<forall>x. tid_is_real x \<and> th_in_ready_queue (threads s x) \<longrightarrow> th_state (threads s x) = THREAD_READY"
    using consistentD(2) [OF con] by (auto simp: thread_ok_def)
  let ?n = "next_tid s"
  have run: "only_running (run_next s) (Some ?n)" if "tid_is_valid ?n"
    using idle that by (auto simp: only_running_def run_next_def)
  show ?thesis
  proof (cases "ready_list s")
    case Nil
    then have n: "?n = 0" by (simp add: next_tid_def THREAD_NULL_TID_def)
    have "pick_next_thread s = Inr (?n, s)"
      using ready_dequeue_ok(1) [OF q ready Nil] by (simp add: pick_next_thread_def n THREAD_NULL_TID_def)
    moreover have nul: "null_ok (threads s 0)" by (rule consistentD(3) [OF con])
    moreover have "th_state (threads s 0) \<noteq> THREAD_RUNNING" using idle valid_iff [of 0] by (auto simp: only_running_def)
    moreover have "threads (make_running 0 s) = run_next s" using nul
      by (cases "threads s 0") (simp add: run_next_def n null_ok_def)
    moreover have "consistent {} Q (make_running 0 s)"
    proof -
      have "queues_ok Q (make_running 0 s)"
        by (rule queues_ok_upd [OF q, of "(threads s 0)\<lparr>th_state := THREAD_RUNNING, th_quantum_ticks := 0\<rparr>" 0]) simp_all
      then show ?thesis using con nul by (auto simp: consistent_def null_ok_def)
    qed
    ultimately show ?thesis using n run valid_iff [of 0] Nil by (intro exI [of _ s]) (auto simp: null_ok_def)
  next
    case (Cons t R)
    then have n: "?n = t" by (simp add: next_tid_def)
    obtain s1 where s1: "ready_dequeue s = Inr (t, s1)" "queues_ok Q s1" "kept s s1" "mem s1 = mem s" "tid_is_real t"
      "threads s1 = (threads s)(t := (threads s t)\<lparr>th_in_ready_queue := False\<rparr>)"
      "ready_list s1 = R" "sleep_list s1 = sleep_list s" "wait_list s1 = wait_list s"
      using ready_dequeue_ok(2) [OF q ready Cons] by (elim exE conjE) (rule that)
    have ok: "thread_ok t (threads s t)" by (rule consistentD(2) [OF con s1(5)]) simp
    have "th_in_ready_queue (threads s t)" using rinv_pop(2) queues_ok_parts(1) [OF q] Cons by metis
    then have st: "th_state (threads s t) = THREAD_READY" "th_trap_frame (threads s t) \<noteq> 0" "th_tid (threads s t) = t"
      using ok by (auto simp: thread_ok_def)
    have th: "threads (make_running t s1) = run_next s" by (simp add: run_next_def n s1(6))
    have q2: "queues_ok Q (make_running t s1)"
      by (rule queues_ok_upd [OF s1(2), of "(threads s1 t)\<lparr>th_state := THREAD_RUNNING, th_quantum_ticks := 0\<rparr>" t]) simp_all
    have "consistent ({} - {t}) Q (make_running t s1)"
    proof (rule consistent_upd [OF con s1(5) q2])
      show "threads (make_running t s1) = (threads s)(t := (threads s t)\<lparr>th_in_ready_queue := False,
          th_state := THREAD_RUNNING, th_quantum_ticks := 0\<rparr>)" by (simp add: s1(6))
    qed (use ok st in \<open>simp add: thread_ok_def\<close>)
    then show ?thesis
      using s1 st th n real_nonzero [OF s1(5)] Cons run by (intro exI [of _ s1]) (auto simp: pick_next_thread_def)
  qed
qed

lemma only_running_stop:
  "only_running th (Some c) \<Longrightarrow> th_state x \<noteq> THREAD_RUNNING \<Longrightarrow> only_running (th(c := x)) None"
  by (auto simp: only_running_def)

text \<open>How a switch ends, from a state in which no thread runs and preemption is off once.\<close>

lemma switch_from_blocked_ok:
  fixes s :: "'a sched_scheme"
  assumes con: "consistent {} Q s" and idle: "only_running (threads s) None" and depth: "preempt_disable_depth s = 1"
  shows "\<exists>s'. switch_from_blocked prev s = Inr (th_trap_frame (threads s (next_tid s)), s') \<and>
    consistent {} Q s' \<and> only_running (threads s') (Some (next_tid s)) \<and> threads s' = run_next s \<and>
    kept (s\<lparr>current_thread := Some (next_tid s), reschedule_requested := False, preempt_disable_depth := 0\<rparr>) s' \<and>
    ready_list s' = tl (ready_list s) \<and> sleep_list s' = sleep_list s \<and> wait_list s' = wait_list s \<and> mem s' = mem s"
proof -
  let ?n = "next_tid s"
  obtain s1 where s1: "pick_next_thread s = Inr (?n, s1)" "th_trap_frame (threads s1 ?n) \<noteq> 0"
    "th_trap_frame (threads s1 ?n) = th_trap_frame (threads s ?n)" "mem s1 = mem s" "kept s s1"
    "threads (make_running ?n s1) = run_next s" "consistent {} Q (make_running ?n s1)"
    "only_running (run_next s) (Some ?n)" "ready_list s1 = tl (ready_list s)" "sleep_list s1 = sleep_list s"
    "wait_list s1 = wait_list s"
    using pick_next_ok [OF con idle] by (elim exE conjE) (rule that)
  define s2 where "s2 = trace_emit TRACE_CONTEXT_SWITCH (th_tid (threads (make_running ?n s1) prev))
      (th_tid (threads (make_running ?n s1) ?n)) 0 0 (make_running ?n s1)"
  let ?s = "s2\<lparr>preempt_disable_depth := 0\<rparr>"
  have d: "preempt_disable_depth s2 = 1" using s1(5) depth by (simp add: s2_def kept_def)
  have th2: "threads s2 = run_next s" using s1(6) by (simp add: s2_def)
  have l2: "ready_list s2 = tl (ready_list s)" "sleep_list s2 = sleep_list s" "wait_list s2 = wait_list s" "mem s2 = mem s"
    using s1 by (simp_all add: s2_def)
  have "switch_from_blocked prev s = Inr (th_trap_frame (threads s ?n), ?s)"
    using s1(1,2,3) d by (simp add: switch_from_blocked_def Let_def preempt_enable_def s2_def)
  moreover have "consistent {} Q s2"
    using s1(7) unfolding s2_def by (simp add: consistent_def queues_ok_def)
  moreover have "kept (s\<lparr>current_thread := Some ?n, reschedule_requested := False, preempt_disable_depth := 0\<rparr>) ?s"
    using s1(5) by (simp add: kept_def s2_def trace_emit_eq make_running_def upd_thread_def Let_def)
  ultimately show ?thesis
    using s1(8) th2 l2 by (intro exI [of _ ?s]) simp
qed

section \<open>Leaving the processor\<close>

lemma current_facts:
  assumes "sched_inv Q s" and "current_thread s = Some c"
  shows "tid_is_valid c" "th_state (threads s c) = THREAD_RUNNING" "th_tid (threads s c) = c" "threads_started s"
    "c \<noteq> 0 \<Longrightarrow> tid_is_real c" "preempt_disable_depth s = 0" "threads_initialized s" "consistent {} Q s"
    "only_running (threads s) (Some c)" "queues_ok Q s"
    "c \<noteq> 0 \<Longrightarrow> thread_ok c (threads s c)"
    "c \<noteq> 0 \<Longrightarrow> \<not> th_in_ready_queue (threads s c) \<and> \<not> th_in_sleep_queue (threads s c) \<and>
       \<not> th_in_wait_queue (threads s c) \<and> th_wait_queue (threads s c) = 0"
proof -
  show v: "tid_is_valid c" and r: "th_state (threads s c) = THREAD_RUNNING"
    using assms by (auto simp: sched_inv_def only_running_def)
  show real: "c \<noteq> 0 \<Longrightarrow> tid_is_real c" using v valid_iff by auto
  show con: "consistent {} Q s" and "threads_started s" "preempt_disable_depth s = 0" "threads_initialized s"
    "only_running (threads s) (Some c)" using assms by (auto simp: sched_inv_def)
  then show "queues_ok Q s" by (simp add: consistent_def)
  show ok: "c \<noteq> 0 \<Longrightarrow> thread_ok c (threads s c)" using consistentD(2) [OF con] real by blast
  then show "c \<noteq> 0 \<Longrightarrow> \<not> th_in_ready_queue (threads s c) \<and> \<not> th_in_sleep_queue (threads s c) \<and>
       \<not> th_in_wait_queue (threads s c) \<and> th_wait_queue (threads s c) = 0"
    using r by (auto simp: thread_ok_def)
  show "th_tid (threads s c) = c" using ok consistentD(3) [OF con] by (cases "c = 0") (auto simp: thread_ok_def null_ok_def)
qed

lemma masked_returns_eq:
  assumes "body (s\<lparr>sstatus := sstatus s AND NOT SSTATUS_SIE\<rparr>) = m"
    and "returns m (\<lambda>x s2. sstatus s2 = sstatus s AND NOT SSTATUS_SIE \<and> P x (s2\<lparr>sstatus := sstatus s\<rparr>))"
  shows "returns (irq_masked body s) P"
  using assms by (intro masked_returns) simp

definition left_cpu :: "'a sched_scheme \<Rightarrow> 'a sched_scheme \<Rightarrow> 'a sched_scheme \<Rightarrow> bool" where
  "left_cpu s s4 s' \<longleftrightarrow> current_thread s' = Some (next_tid s4) \<and> threads s' = run_next s4 \<and>
     ready_list s' = tl (ready_list s4) \<and> sleep_list s' = sleep_list s4 \<and> wait_list s' = wait_list s4 \<and>
     mem s' = mem s4 \<and> kept (s\<lparr>current_thread := Some (next_tid s4), reschedule_requested := False\<rparr>) s'"

lemma leave_ok:
  fixes s s4 :: "'a sched_scheme"
  assumes inv: "sched_inv Q s" and cur: "current_thread s = Some c" and con: "consistent {} Q s4"
    and th: "threads s4 = (threads s)(c := x)" and nr: "th_state x \<noteq> THREAD_RUNNING"
    and k: "kept (preempt_disable (s\<lparr>sstatus := v\<rparr>)) s4"
  shows "returns (switch_from_blocked prev s4) (\<lambda>f s5. sstatus s5 = v \<and> f = th_trap_frame (threads s4 (next_tid s4)) \<and>
    sched_inv Q (s5\<lparr>sstatus := sstatus s\<rparr>) \<and> left_cpu s s4 (s5\<lparr>sstatus := sstatus s\<rparr>))"
proof -
  note c = current_facts [OF inv cur]
  have idle: "only_running (threads s4) None" unfolding th by (rule only_running_stop [OF c(9) nr])
  have depth: "preempt_disable_depth s4 = 1" using k c(6) by (simp add: kept_def preempt_disable_def)
  obtain s5 where s5: "switch_from_blocked prev s4 = Inr (th_trap_frame (threads s4 (next_tid s4)), s5)"
    "consistent {} Q s5" "only_running (threads s5) (Some (next_tid s4))" "threads s5 = run_next s4"
    "kept (s4\<lparr>current_thread := Some (next_tid s4), reschedule_requested := False, preempt_disable_depth := 0\<rparr>) s5"
    "ready_list s5 = tl (ready_list s4)" "sleep_list s5 = sleep_list s4" "wait_list s5 = wait_list s4" "mem s5 = mem s4"
    using switch_from_blocked_ok [OF con idle depth, of prev] by (elim exE conjE) (rule that)
  have "kept (s\<lparr>current_thread := Some (next_tid s4), reschedule_requested := False\<rparr>) (s5\<lparr>sstatus := sstatus s\<rparr>)"
    using k s5(5) c(6) by (simp add: kept_def preempt_disable_def)
  moreover have "sstatus s5 = v" "preempt_disable_depth s5 = 0" "current_thread s5 = Some (next_tid s4)"
    "threads_started s5" "threads_initialized s5"
    using k s5(5) c(4,7) by (simp_all add: kept_def preempt_disable_def)
  ultimately show ?thesis
    using s5 by (simp add: sched_inv_def left_cpu_def)
qed

text \<open>The thread record of a thread that goes to sleep.\<close>

definition sleeping :: "u64 \<Rightarrow> u64 \<Rightarrow> u64 \<Rightarrow> thread \<Rightarrow> thread" where
  "sleeping frame sp w th = th\<lparr>th_trap_frame := frame, th_kernel_sp := sp, th_quantum_ticks := 0,
     th_wait_reason := THREAD_WAIT_SLEEP, th_wait_result := WAIT_OK, th_state := THREAD_BLOCKED,
     th_wake_tick := w, th_in_sleep_queue := True\<rparr>"

lemma sleep_current_ok:
  fixes s :: "'a sched_scheme"
  assumes inv: "sched_inv Q s" and cur: "current_thread s = Some c" and nz: "c \<noteq> 0" and frame: "frame \<noteq> 0"
  shows "returns (sleep_current_from_trap frame n s) (\<lambda>f s'. sched_inv Q s' \<and>
    (\<exists>s4. left_cpu s s4 s' \<and> f = th_trap_frame (threads s4 (next_tid s4)) \<and> mem s4 = mem s \<and>
      threads s4 = (threads s)(c := sleeping frame (load64 (frame + FRAME_SP) s) (ticks s + n) (threads s c)) \<and>
      ready_list s4 = ready_list s \<and> wait_list s4 = wait_list s \<and>
      sleep_list s4 = insert_sleeper (\<lambda>t. if t = c then ticks s + n else th_wake_tick (threads s t)) c (sleep_list s)))"
proof -
  note c = current_facts [OF inv cur]
  note real = c(5) [OF nz] and flags = c(12) [OF nz]
  let ?v = "sstatus s AND NOT SSTATUS_SIE"
  let ?s1 = "preempt_disable (s\<lparr>sstatus := ?v\<rparr>)"
  define s2 where "s2 = upd_thread c (\<lambda>th. th\<lparr>th_trap_frame := frame, th_kernel_sp := load64 (frame + FRAME_SP) ?s1,
     th_quantum_ticks := 0, th_wait_reason := THREAD_WAIT_SLEEP, th_wait_result := WAIT_OK, th_state := THREAD_BLOCKED\<rparr>) ?s1"
  have q2: "queues_ok Q s2"
    by (rule queues_ok_upd [OF c(10), of "threads s2 c" c]) (simp_all add: s2_def preempt_disable_def)
  have pre: "th_state (threads s2 c) = THREAD_BLOCKED" "\<not> th_in_ready_queue (threads s2 c)" "\<not> th_in_sleep_queue (threads s2 c)"
    "th_wait_reason (threads s2 c) \<in> {THREAD_WAIT_SLEEP, THREAD_WAIT_QUEUE_TIMEOUT}"
    using flags by (simp_all add: s2_def)
  obtain s3 where s3: "sleep_enqueue c (ticks s + n) s2 = Inr ((), s3)" "queues_ok Q s3" "kept s2 s3" "mem s3 = mem s2"
    "threads s3 = (threads s2)(c := (threads s2 c)\<lparr>th_wake_tick := ticks s + n, th_in_sleep_queue := True\<rparr>)"
    "ready_list s3 = ready_list s2" "wait_list s3 = wait_list s2"
    "sleep_list s3 = insert_sleeper (\<lambda>x. if x = c then ticks s + n else th_wake_tick (threads s2 x)) c (sleep_list s2)"
    by (rule sleep_enqueue_ok [OF q2 real pre])
  let ?x = "sleeping frame (load64 (frame + FRAME_SP) s) (ticks s + n) (threads s c)"
  have th3: "threads s3 = (threads s)(c := ?x)"
    unfolding s3(5) by (simp add: s2_def sleeping_def load64_def)
  define s4 where "s4 = trace_emit TRACE_THREAD_SLEEP (th_tid (threads s3 c)) THREAD_INVALID_TID (ticks s + n) n s3"
  have q4: "queues_ok Q s4" using s3(2) by (simp add: s4_def queues_ok_def)
  have "consistent ({} - {c}) Q s4"
    by (rule consistent_upd [OF c(8) real q4, of ?x])
      (use c(11) [OF nz] flags frame c(3) in \<open>simp_all add: s4_def th3 sleeping_def thread_ok_def\<close>)
  then have con: "consistent {} Q s4" by simp
  have k: "kept ?s1 s4" using s3(3) by (simp add: s4_def kept_def s2_def upd_thread_def trace_emit_eq Let_def)
  have wake: "(\<lambda>x. if x = c then ticks s + n else th_wake_tick (threads s2 x)) =
      (\<lambda>x. if x = c then ticks s + n else th_wake_tick (threads s x))" by (auto simp: s2_def)
  have facts: "mem s4 = mem s" "threads s4 = (threads s)(c := ?x)" "ready_list s4 = ready_list s" "wait_list s4 = wait_list s"
    "sleep_list s4 = insert_sleeper (\<lambda>t. if t = c then ticks s + n else th_wake_tick (threads s t)) c (sleep_list s)"
    using s3(4,6,7,8) wake by (simp_all add: s4_def th3) (simp_all add: s2_def)
  have leave: "returns (switch_from_blocked c s4) (\<lambda>f s5. sstatus s5 = ?v \<and> f = th_trap_frame (threads s4 (next_tid s4)) \<and>
      sched_inv Q (s5\<lparr>sstatus := sstatus s\<rparr>) \<and> left_cpu s s4 (s5\<lparr>sstatus := sstatus s\<rparr>))"
    by (rule leave_ok [OF inv cur con facts(2) _ k]) (simp add: sleeping_def)
  have tids: "th_tid (threads s2 c) = c" "th_tid (threads s3 c) = c" using c(3) by (simp_all add: s2_def s3(5))
  show ?thesis
    unfolding sleep_current_from_trap_def
    by (rule masked_returns_eq [where m = "switch_from_blocked c s4"])
      (use c(2,3) nz cur s3(1) tids leave facts in \<open>auto simp: THREAD_NULL_TID_def timer_ticks_def Let_def
         s2_def [symmetric] s4_def elim!: returns_mono\<close>)
qed

text \<open>The thread record of a thread that waits on queue \<open>q\<close>, with or without a timeout.\<close>

definition waiting :: "u64 \<Rightarrow> u64 \<Rightarrow> u64 \<Rightarrow> u64 \<Rightarrow> u64 \<Rightarrow> thread \<Rightarrow> thread" where
  "waiting frame sp q n now th =
     (let th = th\<lparr>th_trap_frame := frame, th_kernel_sp := sp, th_quantum_ticks := 0,
        th_wait_reason := (if n = 0 then THREAD_WAIT_QUEUE else THREAD_WAIT_QUEUE_TIMEOUT),
        th_wait_result := WAIT_OK, th_state := THREAD_BLOCKED, th_in_wait_queue := True, th_wait_queue := q\<rparr>
      in if n = 0 then th else th\<lparr>th_wake_tick := now + n, th_in_sleep_queue := True\<rparr>)"

lemma waiting_ok:
  assumes "thread_ok c th" and "th_state th = THREAD_RUNNING" and "q \<noteq> 0" and "frame \<noteq> 0"
  shows "thread_ok c (waiting frame sp q n now th)" and "th_state (waiting frame sp q n now th) = THREAD_BLOCKED"
  using assms by (auto simp: thread_ok_def waiting_def Let_def)

lemma block_current_ok:
  fixes s :: "'a sched_scheme"
  assumes inv: "sched_inv Q s" and cur: "current_thread s = Some c" and nz: "c \<noteq> 0" and frame: "frame \<noteq> 0" and Q: "q \<in> Q"
  shows "returns (block_current_from_trap frame q n s) (\<lambda>f s'. sched_inv Q s' \<and>
    (\<exists>s4. left_cpu s s4 s' \<and> f = th_trap_frame (threads s4 (next_tid s4)) \<and> mem s4 = mem s \<and>
      threads s4 = (threads s)(c := waiting frame (load64 (frame + FRAME_SP) s) q n (ticks s) (threads s c)) \<and>
      ready_list s4 = ready_list s \<and> wait_list s4 = (wait_list s)(q := wait_list s q @ [c]) \<and>
      sleep_list s4 = (if n = 0 then sleep_list s
        else insert_sleeper (\<lambda>t. if t = c then ticks s + n else th_wake_tick (threads s t)) c (sleep_list s))))"
proof -
  note c = current_facts [OF inv cur]
  note real = c(5) [OF nz] and flags = c(12) [OF nz]
  let ?v = "sstatus s AND NOT SSTATUS_SIE"
  let ?s1 = "preempt_disable (s\<lparr>sstatus := ?v\<rparr>)"
  define s2 where "s2 = upd_thread c (\<lambda>th. th\<lparr>th_trap_frame := frame, th_kernel_sp := load64 (frame + FRAME_SP) ?s1,
     th_quantum_ticks := 0, th_wait_reason := (if n = 0 then THREAD_WAIT_QUEUE else THREAD_WAIT_QUEUE_TIMEOUT),
     th_wait_result := WAIT_OK, th_state := THREAD_BLOCKED\<rparr>) ?s1"
  have q2: "queues_ok Q s2"
    by (rule queues_ok_upd [OF c(10), of "threads s2 c" c]) (simp_all add: s2_def preempt_disable_def)
  have pre: "th_state (threads s2 c) = THREAD_BLOCKED" "\<not> th_in_ready_queue (threads s2 c)"
    "\<not> th_in_wait_queue (threads s2 c)" "th_wait_queue (threads s2 c) = 0" "\<not> th_in_sleep_queue (threads s2 c)"
    "th_wait_reason (threads s2 c) \<in> {THREAD_WAIT_QUEUE, THREAD_WAIT_QUEUE_TIMEOUT}"
    "n \<noteq> 0 \<Longrightarrow> th_wait_reason (threads s2 c) = THREAD_WAIT_QUEUE_TIMEOUT"
    using flags by (simp_all add: s2_def)
  obtain s3 where s3: "wait_enqueue q c s2 = Inr ((), s3)" "queues_ok Q s3" "kept s2 s3" "mem s3 = mem s2"
    "threads s3 = (threads s2)(c := (threads s2 c)\<lparr>th_in_wait_queue := True, th_wait_queue := q\<rparr>)"
    "ready_list s3 = ready_list s2" "sleep_list s3 = sleep_list s2"
    "wait_list s3 = (wait_list s2)(q := wait_list s2 q @ [c])"
    by (rule wait_enqueue_ok [OF q2 real pre(1) Q pre(2,3,4,6)])
  let ?x = "waiting frame (load64 (frame + FRAME_SP) s) q n (ticks s) (threads s c)"
  let ?wake = "\<lambda>t. if t = c then ticks s + n else th_wake_tick (threads s t)"
  obtain s5 where s5: "(if n \<noteq> 0 then sleep_enqueue c (ticks s + n) s3 else Inr ((), s3)) = Inr ((), s5)"
    "queues_ok Q s5" "kept s3 s5" "mem s5 = mem s" "threads s5 = (threads s)(c := ?x)" "ready_list s5 = ready_list s"
    "wait_list s5 = (wait_list s)(q := wait_list s q @ [c])"
    "sleep_list s5 = (if n = 0 then sleep_list s else insert_sleeper ?wake c (sleep_list s))"
  proof (cases "n = 0")
    case True
    show thesis
      by (rule that [of s3]) (use True s3 in \<open>simp_all add: s2_def waiting_def load64_def\<close>)
  next
    case False
    have pre3: "th_state (threads s3 c) = THREAD_BLOCKED" "\<not> th_in_ready_queue (threads s3 c)"
      "\<not> th_in_sleep_queue (threads s3 c)" "th_wait_reason (threads s3 c) \<in> {THREAD_WAIT_SLEEP, THREAD_WAIT_QUEUE_TIMEOUT}"
      using pre False by (simp_all add: s3(5))
    obtain u where u: "sleep_enqueue c (ticks s + n) s3 = Inr ((), u)" "queues_ok Q u" "kept s3 u" "mem u = mem s3"
      "threads u = (threads s3)(c := (threads s3 c)\<lparr>th_wake_tick := ticks s + n, th_in_sleep_queue := True\<rparr>)"
      "ready_list u = ready_list s3" "wait_list u = wait_list s3"
      "sleep_list u = insert_sleeper (\<lambda>x. if x = c then ticks s + n else th_wake_tick (threads s3 x)) c (sleep_list s3)"
      by (rule sleep_enqueue_ok [OF s3(2) real pre3])
    have wk: "(\<lambda>x. if x = c then ticks s + n else th_wake_tick (threads s3 x)) = ?wake"
      by (auto simp: s3(5) s2_def)
    show thesis
      by (rule that [of u]) (use False u s3(4,6,7,8) in \<open>simp_all add: wk\<close>,
        simp_all add: s3(5) s2_def waiting_def load64_def)
  qed
  define s4 where "s4 = trace_emit TRACE_WAIT_BLOCK (th_tid (threads s5 c)) THREAD_INVALID_TID n 0 s5"
  have q4: "queues_ok Q s4" using s5(2) by (simp add: s4_def queues_ok_def)
  have q0: "q \<noteq> 0" using queues_ok_parts(3) [OF c(10)] Q by (auto simp: winv_def)
  note xok = waiting_ok [OF c(11) [OF nz] c(2) q0 frame]
  have "consistent ({} - {c}) Q s4"
    by (rule consistent_upd [OF c(8) real q4 _ xok(1)]) (simp add: s4_def s5(5))
  then have con: "consistent {} Q s4" by simp
  have k: "kept ?s1 s4" using kept_trans [OF s3(3) s5(3)] by (simp add: s4_def kept_def s2_def upd_thread_def trace_emit_eq Let_def)
  have facts: "mem s4 = mem s" "threads s4 = (threads s)(c := ?x)" "ready_list s4 = ready_list s"
    "wait_list s4 = (wait_list s)(q := wait_list s q @ [c])"
    "sleep_list s4 = (if n = 0 then sleep_list s else insert_sleeper ?wake c (sleep_list s))"
    using s5(4-8) by (simp_all add: s4_def)
  have leave: "returns (switch_from_blocked c s4) (\<lambda>f s5. sstatus s5 = ?v \<and> f = th_trap_frame (threads s4 (next_tid s4)) \<and>
      sched_inv Q (s5\<lparr>sstatus := sstatus s\<rparr>) \<and> left_cpu s s4 (s5\<lparr>sstatus := sstatus s\<rparr>))"
    by (rule leave_ok [OF inv cur con facts(2) _ k]) (simp add: xok(2))
  have tids: "th_tid (threads s2 c) = c" "th_tid (threads s3 c) = c" "th_tid (threads s c) = c"
    using c(3) by (simp_all add: s2_def s3(5))
  have tk: "timer_ticks s3 = ticks s" using s3(3) by (simp add: kept_def timer_ticks_def s2_def)
  show ?thesis
    unfolding block_current_from_trap_def
  proof (rule masked_returns_eq [where m = "switch_from_blocked c s4"], goal_cases)
    case 1
    show ?case
      using c(2,3) nz cur s3(1) s5(1) tids tk
      by (simp add: THREAD_NULL_TID_def Let_def s2_def [symmetric] s4_def) (auto split: if_splits)
  next
    case 2
    show ?case by (rule returns_mono [OF leave]) (use facts in blast)
  qed
qed

section \<open>Giving up the processor and staying ready\<close>

definition preempted :: "u64 \<Rightarrow> u64 \<Rightarrow> thread \<Rightarrow> thread" where
  "preempted frame sp th = th\<lparr>th_trap_frame := frame, th_kernel_sp := sp, th_state := THREAD_READY, th_in_ready_queue := True\<rparr>"

lemma requeue_ok:
  fixes s :: "'a sched_scheme"
  assumes inv: "sched_inv Q s" and cur: "current_thread s = Some c" and nz: "c \<noteq> 0" and frame: "frame \<noteq> 0"
  shows "returns (switch_to_next_from_trap frame True s) (\<lambda>f s'. sched_inv Q s' \<and>
    (\<exists>s4. left_cpu s s4 s' \<and> f = th_trap_frame (threads s4 (next_tid s4)) \<and> mem s4 = mem s \<and>
      threads s4 = (threads s)(c := preempted frame (load64 (frame + FRAME_SP) s) (threads s c)) \<and>
      ready_list s4 = ready_list s @ [c] \<and> wait_list s4 = wait_list s \<and> sleep_list s4 = sleep_list s))"
proof -
  note c = current_facts [OF inv cur]
  note real = c(5) [OF nz] and flags = c(12) [OF nz]
  let ?v = "sstatus s AND NOT SSTATUS_SIE"
  let ?s1 = "preempt_disable (s\<lparr>sstatus := ?v\<rparr>)"
  define s2 where "s2 = upd_thread c (\<lambda>th. th\<lparr>th_trap_frame := frame, th_kernel_sp := load64 (frame + FRAME_SP) ?s1,
     th_state := THREAD_READY\<rparr>) ?s1"
  have q2: "queues_ok Q s2"
    by (rule queues_ok_upd [OF c(10), of "threads s2 c" c]) (simp_all add: s2_def preempt_disable_def)
  have pre: "th_state (threads s2 c) = THREAD_READY" "\<not> th_in_ready_queue (threads s2 c)"
    "\<not> th_in_sleep_queue (threads s2 c)" "\<not> th_in_wait_queue (threads s2 c)"
    using flags by (simp_all add: s2_def)
  obtain s4 where s4: "ready_enqueue c s2 = Inr ((), s4)" "queues_ok Q s4" "kept s2 s4" "mem s4 = mem s2"
    "threads s4 = (threads s2)(c := (threads s2 c)\<lparr>th_in_ready_queue := True\<rparr>)"
    "ready_list s4 = ready_list s2 @ [c]" "sleep_list s4 = sleep_list s2" "wait_list s4 = wait_list s2"
    by (rule ready_enqueue_ok [OF q2 real pre])
  let ?x = "preempted frame (load64 (frame + FRAME_SP) s) (threads s c)"
  have facts: "mem s4 = mem s" "threads s4 = (threads s)(c := ?x)" "ready_list s4 = ready_list s @ [c]"
    "wait_list s4 = wait_list s" "sleep_list s4 = sleep_list s"
    using s4(4-8) by (simp_all add: s2_def preempted_def load64_def)
  have "consistent ({} - {c}) Q s4"
    by (rule consistent_upd [OF c(8) real s4(2) facts(2)])
      (use c(11) [OF nz] flags frame c(2) in \<open>auto simp: thread_ok_def preempted_def\<close>)
  then have con: "consistent {} Q s4" by simp
  have k: "kept ?s1 s4" using s4(3) by (simp add: s2_def)
  have leave: "returns (switch_from_blocked c s4) (\<lambda>f s5. sstatus s5 = ?v \<and> f = th_trap_frame (threads s4 (next_tid s4)) \<and>
      sched_inv Q (s5\<lparr>sstatus := sstatus s\<rparr>) \<and> left_cpu s s4 (s5\<lparr>sstatus := sstatus s\<rparr>))"
    by (rule leave_ok [OF inv cur con facts(2) _ k]) (simp add: preempted_def)
  have tids: "th_tid (threads s2 c) = c" using c(3) by (simp add: s2_def)
  show ?thesis
    unfolding switch_to_next_from_trap_def
  proof (rule masked_returns_eq [where m = "switch_from_blocked c s4"], goal_cases)
    case 1
    show ?case
      using c(2,3) nz cur s4(1) tids
      by (simp add: THREAD_NULL_TID_def Let_def s2_def [symmetric] switch_from_blocked_def bindE_assoc cong: if_cong)
  next
    case 2
    show ?case by (rule returns_mono [OF leave]) (use facts in blast)
  qed
qed

definition null_left :: "u64 \<Rightarrow> u64 \<Rightarrow> thread \<Rightarrow> thread" where
  "null_left frame sp th = th\<lparr>th_trap_frame := frame, th_kernel_sp := sp, th_state := THREAD_READY\<rparr>"

lemma null_switch_ok:
  fixes s :: "'a sched_scheme"
  assumes inv: "sched_inv Q s" and cur: "current_thread s = Some 0" and frame: "frame \<noteq> 0" and some: "ready_list s \<noteq> []"
  shows "returns (switch_null_to_next_from_trap frame s) (\<lambda>f s'. sched_inv Q s' \<and>
    (\<exists>s4. left_cpu s s4 s' \<and> f = th_trap_frame (threads s4 (next_tid s4)) \<and> mem s4 = mem s \<and>
      threads s4 = (threads s)(0 := null_left frame (load64 (frame + FRAME_SP) s) (threads s 0)) \<and>
      ready_list s4 = ready_list s \<and> wait_list s4 = wait_list s \<and> sleep_list s4 = sleep_list s))"
proof -
  note c = current_facts [OF inv cur]
  let ?v = "sstatus s AND NOT SSTATUS_SIE"
  let ?s1 = "preempt_disable (s\<lparr>sstatus := ?v\<rparr>)"
  define s4 where "s4 = upd_thread 0 (\<lambda>th. th\<lparr>th_trap_frame := frame, th_kernel_sp := load64 (frame + FRAME_SP) ?s1,
     th_state := THREAD_READY\<rparr>) ?s1"
  let ?x = "null_left frame (load64 (frame + FRAME_SP) s) (threads s 0)"
  have facts: "mem s4 = mem s" "threads s4 = (threads s)(0 := ?x)" "ready_list s4 = ready_list s"
    "wait_list s4 = wait_list s" "sleep_list s4 = sleep_list s"
    by (simp_all add: s4_def null_left_def load64_def)
  have q4: "queues_ok Q s4"
    by (rule queues_ok_upd [OF c(10), of "threads s4 0" 0]) (simp_all add: s4_def preempt_disable_def)
  have con: "consistent {} Q s4"
    using c(8) q4 frame by (auto simp: consistent_def facts(2) null_ok_def null_left_def)
  have k: "kept ?s1 s4" by (simp add: s4_def)
  have idle: "only_running (threads s4) None"
    unfolding facts(2) by (rule only_running_stop [OF c(9)]) (simp add: null_left_def)
  have leave: "returns (switch_from_blocked 0 s4) (\<lambda>f s5. sstatus s5 = ?v \<and> f = th_trap_frame (threads s4 (next_tid s4)) \<and>
      sched_inv Q (s5\<lparr>sstatus := sstatus s\<rparr>) \<and> left_cpu s s4 (s5\<lparr>sstatus := sstatus s\<rparr>))"
    by (rule leave_ok [OF inv cur con facts(2) _ k]) (simp add: null_left_def)
  have n: "tid_is_real (next_tid s4)"
  proof -
    obtain t R where "ready_list s4 = t # R" using some facts(3) by (cases "ready_list s") auto
    then show ?thesis using rinv_pop(2) queues_ok_parts(1) [OF q4] by (simp add: next_tid_def)
  qed
  obtain s1 where s1: "pick_next_thread s4 = Inr (next_tid s4, s1)" "th_tid (threads s1 (next_tid s4)) = next_tid s4"
      "th_trap_frame (threads s1 (next_tid s4)) \<noteq> 0"
    using pick_next_ok [OF con idle] by blast
  show ?thesis
    unfolding switch_null_to_next_from_trap_def
  proof (rule masked_returns_eq [where m = "switch_from_blocked 0 s4"], goal_cases)
    case 1
    show ?case
      using c(2,3) cur s1 real_nonzero [OF n]
      by (simp add: THREAD_NULL_TID_def Let_def s4_def [symmetric] switch_from_blocked_def)
  next
    case 2
    show ?case by (rule returns_mono [OF leave]) (use facts in blast)
  qed
qed

end
