(* ===== verification/Task_Proofs.thy ===== *)
theory Task_Proofs
  imports Task
begin

text \<open>
  The mappings of a user task: when a mapping succeeds exactly, how many pages it takes, and the map
  that \<open>user_task_map_pages\<close> builds.
\<close>

section \<open>Exact results of mappings\<close>

lemma vm_missing_paths:
  "vm_missing root s va =
     (if [vpn_index va 2] \<notin> pt_paths (mem s) root then 2
      else if va_path va \<notin> pt_paths (mem s) root then 1 else 0)"
  by (auto simp: vm_missing_def pt_paths_def va_path_def vpath_def eval_nat_numeral split: option.splits)

lemma prefix_va_path: "{p. prefix p (va_path va)} = {[], [vpn_index va 2], va_path va}"
  by (auto simp: va_path_def prefix_Cons)

lemma vm_map_page_exact:
  assumes "vm_inv (vm_root sp) s" and "vm_args_ok va pa flags" and "vm_mapping (vm_root sp) s va = None"
  shows "returns (vm_map_page (Some sp) va pa flags s) (\<lambda>r s'. vm_frame (vm_root sp) s s' \<and>
    (if vm_missing (vm_root sp) s va \<le> unat (free_pages s)
     then r = VM_OK \<and> vm_mapping (vm_root sp) s' = (vm_mapping (vm_root sp) s)(va \<mapsto> (pa, flags)) \<and>
       pt_paths (mem s') (vm_root sp) =
         pt_paths (mem s) (vm_root sp) \<union> {[], [vpn_index va 2], va_path va} \<and>
       unat (free_pages s) = unat (free_pages s') + vm_missing (vm_root sp) s va
     else r = VM_ERR_NO_MEMORY \<and> vm_mapping (vm_root sp) s' = vm_mapping (vm_root sp) s))"
  unfolding returns_def using assms
  by (intro ex_res_mono [OF vm_map_page_spec [OF assms(1)]])
     (auto simp: vm_frame_step vm_frame_restored restored_vm prefix_va_path split: if_splits)

section \<open>The mappings of a task\<close>

definition code_flags :: u64 where
  "code_flags = VM_PTE_V OR VM_PTE_R OR VM_PTE_X OR VM_PTE_U OR VM_PTE_A"

definition stack_flags :: u64 where
  "stack_flags = VM_PTE_V OR VM_PTE_R OR VM_PTE_W OR VM_PTE_U OR VM_PTE_A OR VM_PTE_D"

lemmas task_flags = code_flags_def stack_flags_def trampoline_flags_def context_flags_def

definition task_vas :: "u64 set" where
  "task_vas = {USER_SPACE_CODE_BASE, USER_SPACE_STACK_BASE, USER_TRAMPOLINE_VA, USER_TRAP_CONTEXT_VA}"

definition task_mapping :: "u64 \<Rightarrow> u64 \<Rightarrow> u64 \<Rightarrow> u64 \<Rightarrow> u64 \<Rightarrow> (u64 \<times> u64) option" where
  "task_mapping code stack tramp ctx =
     [USER_SPACE_CODE_BASE \<mapsto> (code, code_flags), USER_SPACE_STACK_BASE \<mapsto> (stack, stack_flags),
      USER_TRAMPOLINE_VA \<mapsto> (tramp, trampoline_flags), USER_TRAP_CONTEXT_VA \<mapsto> (ctx, context_flags)]"

definition trampoline_ok :: "linker \<Rightarrow> bool" where
  "trampoline_ok l \<longleftrightarrow> trampoline_start l \<noteq> trampoline_end l \<and>
     trampoline_end l - trampoline_start l \<le> PAGE_SIZE \<and> trampoline_start l AND PAGE_MASK = 0"

lemma task_va_values:
  "USER_SPACE_CODE_BASE = 0x1000" "USER_SPACE_STACK_BASE = 0x3ffff000"
  "USER_TRAMPOLINE_VA = 0x3ffffff000" "USER_TRAP_CONTEXT_VA = 0x3fffffe000"
  by (simp_all add: user_layout)

lemma task_va_args:
  assumes "page_aligned pa"
  shows "vm_args_ok USER_SPACE_CODE_BASE pa code_flags" "vm_args_ok USER_SPACE_STACK_BASE pa stack_flags"
    "vm_args_ok USER_TRAMPOLINE_VA pa trampoline_flags" "vm_args_ok USER_TRAP_CONTEXT_VA pa context_flags"
  using assms by (simp_all add: vm_args_ok_def va_is_canonical_def SV39_TOP_BIT_def page_aligned_def
      PAGE_MASK_def PAGE_SIZE_def flags_are_valid_def vm_flags task_flags task_va_values)

lemma task_va_paths:
  "va_path USER_SPACE_CODE_BASE = [0, 0]" "va_path USER_SPACE_STACK_BASE = [0, 511]"
  "va_path USER_TRAMPOLINE_VA = [255, 511]" "va_path USER_TRAP_CONTEXT_VA = [255, 511]"
  "vpn_index USER_SPACE_CODE_BASE 2 = 0" "vpn_index USER_SPACE_STACK_BASE 2 = 0"
  "vpn_index USER_TRAMPOLINE_VA 2 = 255" "vpn_index USER_TRAP_CONTEXT_VA 2 = 255"
  by (simp_all add: va_path_def vpn_index_def SV39_VPN_BITS_def SV39_ENTRIES_PER_TABLE_def task_va_values)

lemma user_map_eqs:
  assumes "pages_inv s" and "pa \<in> managed_frames s"
  shows "user_space_map_code_page (Some sp) pa s = vm_map_page (Some sp) USER_SPACE_CODE_BASE pa code_flags s"
    "user_space_map_stack_page (Some sp) pa s = vm_map_page (Some sp) USER_SPACE_STACK_BASE pa stack_flags s"
proof -
  have va: "user_space_va_range_is_valid USER_SPACE_CODE_BASE PAGE_SIZE"
    "user_space_va_range_is_valid USER_SPACE_STACK_BASE PAGE_SIZE"
    by (simp_all add: user_space_va_range_is_valid_def range_overlaps_platform_mmio_def ranges_overlap_def user_layout)
  have u: "code_flags AND VM_PTE_U \<noteq> 0" "code_flags AND VM_PTE_G = 0"
    "stack_flags AND VM_PTE_U \<noteq> 0" "stack_flags AND VM_PTE_G = 0"
    by (simp_all add: task_flags vm_flags)
  show "user_space_map_code_page (Some sp) pa s = vm_map_page (Some sp) USER_SPACE_CODE_BASE pa code_flags s"
    "user_space_map_stack_page (Some sp) pa s = vm_map_page (Some sp) USER_SPACE_STACK_BASE pa stack_flags s"
    using va u managed_frame_pa_valid(1) [OF assms]
    by (simp_all add: user_space_map_code_page_def user_space_map_stack_page_def user_space_map_page_def
        flip: code_flags_def stack_flags_def)
qed

lemma vm_frame_fields:
  assumes "vm_frame root s s'"
  shows "managed_frames s' = managed_frames s" "link s' = link s" "pages_inv s'" "vm_inv root s'"
  using assms pool_step_fields(1,4) by (auto simp: vm_frame_def vm_inv_def)

text \<open>The trap support takes two tables, both at the first of its two mappings.\<close>

lemma map_trap_support_exact:
  assumes inv: "vm_inv (vm_root sp) s" and ctx: "ctx \<in> managed_frames s"
    and fresh: "vm_mapping (vm_root sp) s USER_TRAMPOLINE_VA = None"
      "vm_mapping (vm_root sp) s USER_TRAP_CONTEXT_VA = None"
    and paths: "[255] \<notin> pt_paths (mem s) (vm_root sp)"
  shows "returns (user_space_map_trap_support (Some sp) ctx s) (\<lambda>r s'.
    (r = VM_OK \<longleftrightarrow> trampoline_ok (link s) \<and> 2 \<le> unat (free_pages s)) \<and>
    (r = VM_OK \<longrightarrow> unat (free_pages s) = unat (free_pages s') + 2))"
proof (cases "trampoline_ok (link s)")
  case False
  then have "user_space_map_trap_support (Some sp) ctx s = Inr (VM_ERR_INVALID, s)"
    by (auto simp: user_space_map_trap_support_def Let_def trampoline_ok_def not_less)
  with False show ?thesis by (simp add: vm_codes)
next
  case True
  let ?root = "vm_root sp" and ?t = "trampoline_start (link s)"
  have pinv: "pages_inv s" using inv by (simp add: vm_inv_def)
  have al: "page_aligned ?t" "page_aligned ctx"
    using True managed_frame_pa_valid(2) [OF pinv ctx] by (auto simp: trampoline_ok_def page_aligned_def)
  have eq: "user_space_map_trap_support (Some sp) ctx s =
      bindE (vm_map_page (Some sp) USER_TRAMPOLINE_VA ?t trampoline_flags s) (\<lambda>(result, s).
         if result \<noteq> VM_OK then Inr (result, s)
         else bindE (vm_map_page (Some sp) USER_TRAP_CONTEXT_VA ctx context_flags s) (\<lambda>(result, s).
           if result \<noteq> VM_OK
           then bindE (vm_unmap_page (Some sp) USER_TRAMPOLINE_VA s) (\<lambda>(_, s). Inr (result, s))
           else Inr (VM_OK, s)))"
    using True vm_inv_root(2) [OF inv] managed_frame_pa_valid(1) [OF pinv ctx]
    unfolding trampoline_flags_def context_flags_def
    by (simp add: user_space_map_trap_support_def Let_def trampoline_ok_def not_less [symmetric])
  have m1: "vm_missing ?root s USER_TRAMPOLINE_VA = 2"
    using paths by (simp add: vm_missing_paths task_va_paths)
  obtain r s1 where r1: "vm_map_page (Some sp) USER_TRAMPOLINE_VA ?t trampoline_flags s = Inr (r, s1)"
    and f1: "vm_frame ?root s s1" and res: "if 2 \<le> unat (free_pages s)
     then r = VM_OK \<and> vm_mapping ?root s1 = (vm_mapping ?root s)(USER_TRAMPOLINE_VA \<mapsto> (?t, trampoline_flags)) \<and>
       pt_paths (mem s1) ?root = pt_paths (mem s) ?root \<union> {[], [255], [255, 511]} \<and>
       unat (free_pages s) = unat (free_pages s1) + 2
     else r = VM_ERR_NO_MEMORY \<and> vm_mapping ?root s1 = vm_mapping ?root s"
    using vm_map_page_exact [OF inv task_va_args(3) [OF al(1)] fresh(1)] unfolding m1 task_va_paths
    by (rule returnsE) blast
  show ?thesis
  proof (cases "2 \<le> unat (free_pages s)")
    case False
    with res r1 show ?thesis by (simp add: eq vm_codes)
  next
    case enough: True
    note inv1 = vm_frame_fields(4) [OF f1]
    have fresh1: "vm_mapping ?root s1 USER_TRAP_CONTEXT_VA = None"
      using enough res fresh by (simp add: task_va_values)
    have m2: "vm_missing ?root s1 USER_TRAP_CONTEXT_VA = 0"
      using enough res by (simp add: vm_missing_paths task_va_paths)
    obtain r2 s2 where r2: "vm_map_page (Some sp) USER_TRAP_CONTEXT_VA ctx context_flags s1 = Inr (r2, s2)"
      and "r2 = VM_OK" "unat (free_pages s1) = unat (free_pages s2)"
      using vm_map_page_exact [OF inv1 task_va_args(4) [OF al(2)] fresh1] unfolding m2
      by (rule returnsE) simp
    with enough res r1 True show ?thesis by (simp add: eq)
  qed
qed

lemma task_mapping_dom: "dom (task_mapping code stack tramp ctx) = task_vas"
  by (auto simp: task_mapping_def task_vas_def)

lemma user_task_map_pages_spec:
  fixes s :: "'a utasks_scheme"
  defines "t \<equiv> \<lambda>task. task_at s task"
  assumes root: "root = vm_root (ut_address_space (t task))" and inv: "vm_inv root s"
    and fresh: "vm_mapping root s = Map.empty" and paths: "pt_paths (mem s) root = {[]}"
    and pages: "ut_code_page (t task) \<in> managed_frames s" "ut_stack_page (t task) \<in> managed_frames s"
      "ut_trap_context (t task) \<in> managed_frames s"
  shows "returns (user_task_map_pages task s) (\<lambda>ok s'. vm_frame root s s' \<and> dom (vm_mapping root s') \<subseteq> task_vas \<and>
    (ok \<longleftrightarrow> trampoline_ok (link s) \<and> 5 \<le> unat (free_pages s)) \<and>
    (ok \<longrightarrow> vm_mapping root s' = task_mapping (ut_code_page (t task)) (ut_stack_page (t task))
        (trampoline_start (link s)) (ut_trap_context (t task)) \<and>
      unat (free_pages s) = unat (free_pages s') + 5))"
proof -
  let ?sp = "ut_address_space (t task)"
  let ?code = "ut_code_page (t task)" and ?stack = "ut_stack_page (t task)" and ?ctx = "ut_trap_context (t task)"
  have pinv: "pages_inv s" using inv by (simp add: vm_inv_def)
  note al = managed_frame_pa_valid(2) [OF pinv]
  have m1: "vm_missing root s USER_SPACE_CODE_BASE = 2" by (simp add: vm_missing_paths task_va_paths paths)
  note x1 = vm_map_page_exact [of ?sp s, folded root, OF inv task_va_args(1) [OF al [OF pages(1)]],
      unfolded m1 task_va_paths paths fresh, OF refl, folded user_map_eqs(1) [OF pinv pages(1), of ?sp]]
  obtain r1 s1 where r1: "user_space_map_code_page (Some ?sp) ?code s = Inr (r1, s1)" and f1: "vm_frame root s s1"
    and res1: "if 2 \<le> unat (free_pages s)
      then r1 = VM_OK \<and> vm_mapping root s1 = [USER_SPACE_CODE_BASE \<mapsto> (?code, code_flags)] \<and>
        pt_paths (mem s1) root = {[]} \<union> {[], [0], [0, 0]} \<and> unat (free_pages s) = unat (free_pages s1) + 2
      else r1 = VM_ERR_NO_MEMORY \<and> vm_mapping root s1 = Map.empty"
    by (rule returnsE [OF x1]) (elim conjE, rule that)
  show ?thesis
  proof (cases "2 \<le> unat (free_pages s)")
    case False
    with r1 f1 res1 show ?thesis by (simp add: user_task_map_pages_def Let_def vm_codes t_def)
  next
    case e1: True
    note ff1 = vm_frame_fields [OF f1]
    have m2: "vm_missing root s1 USER_SPACE_STACK_BASE = 1"
      using e1 res1 by (simp add: vm_missing_paths task_va_paths)
    have stack1: "?stack \<in> managed_frames s1" using pages(2) ff1(1) by simp
    have none1: "vm_mapping root s1 USER_SPACE_STACK_BASE = None" using e1 res1 by (simp add: task_va_values)
    note x2 = vm_map_page_exact [of ?sp s1, folded root, OF ff1(4) task_va_args(2) [OF al [OF pages(2)]] none1,
        unfolded m2 task_va_paths, folded user_map_eqs(2) [OF ff1(3) stack1, of ?sp]]
    obtain r2 s2 where r2: "user_space_map_stack_page (Some ?sp) ?stack s1 = Inr (r2, s2)" and f2: "vm_frame root s1 s2"
      and res2: "if 1 \<le> unat (free_pages s1)
        then r2 = VM_OK \<and> vm_mapping root s2 = (vm_mapping root s1)(USER_SPACE_STACK_BASE \<mapsto> (?stack, stack_flags)) \<and>
          pt_paths (mem s2) root = pt_paths (mem s1) root \<union> {[], [0], [0, 511]} \<and>
          unat (free_pages s1) = unat (free_pages s2) + 1
        else r2 = VM_ERR_NO_MEMORY \<and> vm_mapping root s2 = vm_mapping root s1"
      by (rule returnsE [OF x2]) (elim conjE, rule that)
    note f12 = vm_frame_trans [OF f1 f2 inv]
    show ?thesis
    proof (cases "1 \<le> unat (free_pages s1)")
      case False
      with e1 r1 r2 f12 res1 res2 show ?thesis
        by (auto simp: user_task_map_pages_def Let_def vm_codes t_def task_vas_def)
    next
      case e2: True
      note ff2 = vm_frame_fields [OF f12]
      have ctx2: "?ctx \<in> managed_frames s2" using pages(3) ff2(1) by simp
      have none2: "vm_mapping root s2 USER_TRAMPOLINE_VA = None" "vm_mapping root s2 USER_TRAP_CONTEXT_VA = None"
        "[255] \<notin> pt_paths (mem s2) root"
        using e1 e2 res1 res2 by (simp_all add: task_va_values)
      note x3 = returns_conj [OF user_space_map_trap_support_frame [of ?sp s2, folded root, OF ff2(4) none2(1)]
            map_trap_support_exact [of ?sp s2, folded root, OF ff2(4) ctx2 none2], unfolded ff2(2)]
      obtain r3 s3 where r3: "user_space_map_trap_support (Some ?sp) ?ctx s2 = Inr (r3, s3)"
        and f3: "vm_frame root s2 s3" and res3: "vm_mapping root s3 = (if r3 = VM_OK
            then (vm_mapping root s2)(USER_TRAMPOLINE_VA \<mapsto> (trampoline_start (link s), trampoline_flags),
              USER_TRAP_CONTEXT_VA \<mapsto> (?ctx, context_flags))
            else vm_mapping root s2)"
        "r3 = VM_OK \<longleftrightarrow> trampoline_ok (link s) \<and> 2 \<le> unat (free_pages s2)"
        "r3 = VM_OK \<longrightarrow> unat (free_pages s2) = unat (free_pages s3) + 2"
        by (rule returnsE [OF x3]) (elim conjE, rule that)
      have ok: "r3 = VM_OK \<longleftrightarrow> trampoline_ok (link s) \<and> 5 \<le> unat (free_pages s)"
        using e1 e2 res1 res2 res3(2) by auto
      have "dom (vm_mapping root s3) \<subseteq> task_vas" using e1 e2 res1 res2 res3(1) by (auto simp: task_vas_def)
      with e1 e2 r1 r2 r3 res1 res2 res3 ok vm_frame_trans [OF f12 f3 inv] show ?thesis
        by (auto simp: user_task_map_pages_def Let_def t_def task_mapping_def)
    qed
  qed
qed

end
