(* ===== verification/Task_Lifecycle.thy ===== *)
theory Task_Lifecycle
  imports Task_Proofs
begin

text \<open>
  Releasing a task's resources, and with it the two outcomes of \<open>user_task_init\<close> and
  the effect of \<open>user_task_destroy\<close>.
\<close>

section \<open>The task store and the memory operations\<close>

lemma set_task_simps [simp]:
  "mem (set_task k t s) = mem s" "link (set_task k t s) = link s" "free_pages (set_task k t s) = free_pages s"
  "pages_inv (set_task k t s) = pages_inv s" "allocated (set_task k t s) = allocated s"
  "managed_frames (set_task k t s) = managed_frames s" "kernel_satp (set_task k t s) = kernel_satp s"
  "vm_inv root (set_task k t s) = vm_inv root s" "vm_mapping root (set_task k t s) = vm_mapping root s"
  "sstatus (set_task k t s) = sstatus s"
  by (simp_all add: set_task_def pages_inv_def used_pages_def allocated_def managed_frames_def
      page_addr_from_index_def vm_inv_def vm_mapping_def fun_eq_iff)

lemma task_at_set [simp]: "task_at (set_task k t s) k' = (if k' = k then t else task_at s k')"
  by (simp add: set_task_def task_at_def)

lemma set_task_set [simp]: "set_task k t (set_task k t' s) = set_task k t s"
  by (simp add: set_task_def)

lemma pool_step_task: "pool_step s s' \<Longrightarrow> task_at s' = task_at s \<and> kernel_satp s' = kernel_satp s"
  by (auto simp: pool_step_def task_at_def)

lemma pool_step_set_task:
  assumes "pool_step s s'"
  shows "pool_step (set_task k t s) (set_task k t s')"
proof -
  obtain m n bm fp h where
    "s' = s\<lparr>mem := m, sfences := n, page_bitmap := bm, free_pages := fp, next_free_hint := h\<rparr>"
    using assms by (auto simp: pool_step_def)
  then have "set_task k t s' = (set_task k t s)\<lparr>mem := m, sfences := n, page_bitmap := bm, free_pages := fp,
      next_free_hint := h\<rparr>" by (simp add: set_task_def)
  then show ?thesis unfolding pool_step_def by blast
qed

text \<open>Steps that change memory, the allocator and the one task object.\<close>

definition task_step :: "u64 \<Rightarrow> 'a utasks_scheme \<Rightarrow> 'a utasks_scheme \<Rightarrow> bool" where
  "task_step k s s' \<longleftrightarrow> pool_step (set_task k (task_at s' k) s) s'"

lemma task_step_pool: "pool_step s s' \<Longrightarrow> task_step k s s'"
  using pool_step_set_task [of s s' k "task_at s k"] pool_step_task [of s s']
  by (simp add: task_step_def set_task_def task_at_def)

lemma task_step_set [simp]: "task_step k s (set_task k t s)"
  by (simp add: task_step_def)

lemma task_step_trans:
  assumes "task_step k s s1" and "task_step k s1 s2"
  shows "task_step k s s2"
proof -
  have "pool_step (set_task k (task_at s2 k) (set_task k (task_at s1 k) s)) (set_task k (task_at s2 k) s1)"
    using assms(1) unfolding task_step_def by (rule pool_step_set_task)
  with assms(2) show ?thesis by (auto simp: task_step_def intro: pool_step_trans)
qed

lemma task_step_fields:
  assumes "task_step k s s'"
  shows "managed_frames s' = managed_frames s" "link s' = link s" "kernel_satp s' = kernel_satp s"
    "k' \<noteq> k \<Longrightarrow> task_at s' k' = task_at s k'" "sstatus s' = sstatus s"
  using pool_step_fields(1,4,2) [OF assms [unfolded task_step_def]]
    pool_step_task [OF assms [unfolded task_step_def]] task_at_set [of k "task_at s' k" s k']
  by auto

section \<open>Releasing\<close>

text \<open>Everything outside the free pages: kernel memory and pages in use.\<close>

definition in_use :: "'a pages_scheme \<Rightarrow> u64 set" where
  "in_use s = - managed_frames s \<union> allocated s"

lemma vm_frame_agree:
  assumes "vm_frame root s s'" and "vm_inv root s"
  shows "agree_on (in_use s - pt_tables (mem s) root) (mem s) (mem s')"
proof -
  have inv': "vm_inv root s'" using assms(1) by (simp add: vm_frame_def)
  have "pt_tables (mem s') root \<subseteq> managed_frames s"
    using vm_tables_owned [OF inv'] allocated_subset [of s'] vm_frame_fields(1) [OF assms(1)] by blast
  moreover have "(allocated s - pt_tables (mem s) root) \<inter> pt_tables (mem s') root = {}"
    using assms(1) by (auto simp: vm_frame_def)
  ultimately show ?thesis
    using assms(1) unfolding vm_frame_def in_use_def by (elim conjE) (rule agree_on_mono, assumption, blast)
qed

lemma release_space:
  assumes inv: "vm_inv (vm_root sp) s" and dom: "dom (vm_mapping (vm_root sp) s) \<subseteq> task_vas"
  shows "\<exists>sp' s'. (\<forall>k. bindE (vm_unmap_page (Some sp) USER_SPACE_CODE_BASE s) (\<lambda>(_, s).
          bindE (vm_unmap_page (Some sp) USER_SPACE_STACK_BASE s) (\<lambda>(_, s).
          bindE (vm_unmap_page (Some sp) USER_TRAMPOLINE_VA s) (\<lambda>(_, s).
          bindE (vm_unmap_page (Some sp) USER_TRAP_CONTEXT_VA s) (\<lambda>(_, s).
          bindE (vm_space_destroy (Some sp) s) (\<lambda>((_, sp'), s). k sp' s))))) = k (Some sp') s') \<and>
    vm_root sp' = 0 \<and> pages_inv s' \<and> pool_step s s' \<and>
    allocated s' = allocated s - pt_tables (mem s) (vm_root sp) \<and>
    agree_on (in_use s - pt_tables (mem s) (vm_root sp)) (mem s) (mem s')"
proof -
  let ?root = "vm_root sp"
  obtain r1 s1 where 1: "vm_unmap_page (Some sp) USER_SPACE_CODE_BASE s = Inr (r1, s1)" "vm_frame ?root s s1"
    "vm_mapping ?root s1 = (vm_mapping ?root s)(USER_SPACE_CODE_BASE := None)"
    using vm_unmap_page_frame [OF inv] by (rule returnsE) blast
  obtain r2 s2 where 2: "vm_unmap_page (Some sp) USER_SPACE_STACK_BASE s1 = Inr (r2, s2)" "vm_frame ?root s1 s2"
    "vm_mapping ?root s2 = (vm_mapping ?root s1)(USER_SPACE_STACK_BASE := None)"
    using vm_unmap_page_frame [OF vm_frame_inv [OF 1(2)]] by (rule returnsE) blast
  obtain r3 s3 where 3: "vm_unmap_page (Some sp) USER_TRAMPOLINE_VA s2 = Inr (r3, s3)" "vm_frame ?root s2 s3"
    "vm_mapping ?root s3 = (vm_mapping ?root s2)(USER_TRAMPOLINE_VA := None)"
    using vm_unmap_page_frame [OF vm_frame_inv [OF 2(2)]] by (rule returnsE) blast
  obtain r4 s4 where 4: "vm_unmap_page (Some sp) USER_TRAP_CONTEXT_VA s3 = Inr (r4, s4)" "vm_frame ?root s3 s4"
    "vm_mapping ?root s4 = (vm_mapping ?root s3)(USER_TRAP_CONTEXT_VA := None)"
    using vm_unmap_page_frame [OF vm_frame_inv [OF 3(2)]] by (rule returnsE) blast
  note f = vm_frame_trans [OF 1(2) vm_frame_trans [OF 2(2) vm_frame_trans [OF 3(2) 4(2)
      vm_frame_inv [OF 2(2)]] vm_frame_inv [OF 1(2)]] inv]
  have inv4: "vm_inv ?root s4" using f by (rule vm_frame_inv)
  have empty: "vm_mapping ?root s4 = Map.empty"
    using dom 1(3) 2(3) 3(3) 4(3) by (auto simp: task_vas_def fun_eq_iff)
  obtain r5 sp' s5 where 5: "vm_space_destroy (Some sp) s4 = Inr ((r5, Some sp'), s5)" "vm_root sp' = 0" "pages_inv s5"
    "allocated s5 = allocated s4 - pt_tables (mem s4) ?root" "pool_step s4 s5"
    "agree_on (- pt_tables (mem s4) ?root) (mem s4) (mem s5)"
    using vm_space_destroy_spec [OF inv4] empty by auto
  have al: "allocated s5 = allocated s - pt_tables (mem s) ?root" using 5(4) f by (simp add: vm_frame_def)
  have "(in_use s - pt_tables (mem s) ?root) \<inter> pt_tables (mem s4) ?root = {}"
  proof -
    have "pt_tables (mem s4) ?root \<subseteq> managed_frames s"
      using vm_tables_owned [OF inv4] allocated_subset [of s4] vm_frame_fields(1) [OF f] by blast
    with f show ?thesis by (auto simp: vm_frame_def in_use_def)
  qed
  then have "agree_on (in_use s - pt_tables (mem s) ?root) (mem s4) (mem s5)"
    by (intro agree_on_mono [OF 5(6)]) blast
  then have "agree_on (in_use s - pt_tables (mem s) ?root) (mem s) (mem s5)"
    using vm_frame_agree [OF f inv] by (metis agree_on_trans)
  moreover have "pool_step s s5" using f 5(5) by (auto simp: vm_frame_def intro: pool_step_trans)
  ultimately show ?thesis
    using 1(1) 2(1) 3(1) 4(1) 5(1-3) al by (intro exI [of _ sp'] exI [of _ s5]) simp
qed

text \<open>Giving back an optional page.\<close>

lemma free_optional:
  assumes "pages_inv s" and "p \<noteq> 0 \<longrightarrow> p \<in> allocated s"
  shows "\<exists>s'. (if p \<noteq> 0 then page_free p s else Inr ((), s)) = Inr ((), s') \<and> pages_inv s' \<and>
    pool_step s s' \<and> mem s' = mem s \<and> allocated s' = allocated s - {p}"
proof (cases "p = 0")
  case True
  have "0 \<notin> allocated s" using frames_allocated(1) [OF assms(1)] by (auto simp: frames_def)
  with True assms show ?thesis by auto
next
  case False
  with assms obtain s' where s': "page_free p s = Inr ((), s')" "pages_inv s'" "allocated s' = allocated s - {p}"
    using pages.free_owned [OF assms(1), of p] by auto
  moreover have "mem s' = mem s" using page_free_frame [OF s'(1)] by auto
  ultimately show ?thesis using False pool_step_free [OF s'(1)] by auto
qed

text \<open>
  A task that can be released: its tables, and the pages it holds beside them. The field
  \<open>root\<close> may be null when the address space was never created.
\<close>

definition task_pages :: "user_task \<Rightarrow> u64 set" where
  "task_pages t = {ut_code_page t, ut_stack_page t, ut_trap_context t} - {0}"

definition task_tables :: "user_task \<Rightarrow> 'a hw_scheme \<Rightarrow> u64 set" where
  "task_tables t s = (let root = vm_root (ut_address_space t) in if root = 0 then {} else pt_tables (mem s) root)"

definition task_distinct :: "user_task \<Rightarrow> bool" where
  "task_distinct t \<longleftrightarrow>
     (ut_code_page t \<noteq> 0 \<longrightarrow> ut_code_page t \<noteq> ut_stack_page t \<and> ut_code_page t \<noteq> ut_trap_context t) \<and>
     (ut_stack_page t \<noteq> 0 \<longrightarrow> ut_stack_page t \<noteq> ut_trap_context t)"

definition task_owns :: "user_task \<Rightarrow> 'a utasks_scheme \<Rightarrow> bool" where
  "task_owns t s \<longleftrightarrow> pages_inv s \<and> task_distinct t \<and> task_pages t \<subseteq> allocated s - task_tables t s \<and>
     (vm_root (ut_address_space t) \<noteq> 0 \<longrightarrow> vm_inv (vm_root (ut_address_space t)) s \<and>
        dom (vm_mapping (vm_root (ut_address_space t)) s) \<subseteq> task_vas)"

definition task_emptied :: "user_task \<Rightarrow> user_task \<Rightarrow> bool" where
  "task_emptied t t' \<longleftrightarrow> vm_root (ut_address_space t') = 0 \<and> ut_user_satp t' = 0 \<and> ut_code_page t' = 0 \<and>
     ut_stack_page t' = 0 \<and> ut_trap_context t' = 0 \<and> ut_state t' = ut_state t \<and> ut_exit_code t' = ut_exit_code t"

lemma agree_on_mem: "mem s = mem s' \<Longrightarrow> agree_on A (mem s) (mem s')"
  by simp

lemma release_pages:
  fixes s :: "'a utasks_scheme"
  assumes inv: "pages_inv s" and dist: "task_distinct (task_at s task)" and own: "task_pages (task_at s task) \<subseteq> allocated s"
  shows "\<exists>s'. bindE (if ut_code_page (task_at s task) \<noteq> 0 then page_free (ut_code_page (task_at s task)) s
            else Inr ((), s)) (\<lambda>(_, s).
     bindE (if ut_stack_page (task_at s task) \<noteq> 0 then page_free (ut_stack_page (task_at s task)) s
            else Inr ((), s)) (\<lambda>(_, s).
     bindE (if ut_trap_context (task_at s task) \<noteq> 0 then page_free (ut_trap_context (task_at s task)) s
            else Inr ((), s)) (\<lambda>(_, s). k s))) = k s' \<and>
    pages_inv s' \<and> pool_step s s' \<and> mem s' = mem s \<and> allocated s' = allocated s - task_pages (task_at s task)"
proof -
  let ?t = "task_at s task"
  have z: "0 \<notin> allocated s" using frames_allocated(1) [OF inv] by (auto simp: frames_def)
  obtain s1 where 1: "(if ut_code_page ?t \<noteq> 0 then page_free (ut_code_page ?t) s else Inr ((), s)) = Inr ((), s1)"
    "pages_inv s1" "pool_step s s1" "mem s1 = mem s" "allocated s1 = allocated s - {ut_code_page ?t}"
    using free_optional [OF inv, of "ut_code_page ?t"] own by (auto simp: task_pages_def)
  have t1: "task_at s1 = task_at s" using pool_step_task [OF 1(3)] by simp
  obtain s2 where 2: "(if ut_stack_page ?t \<noteq> 0 then page_free (ut_stack_page ?t) s1 else Inr ((), s1)) = Inr ((), s2)"
    "pages_inv s2" "pool_step s1 s2" "mem s2 = mem s1" "allocated s2 = allocated s1 - {ut_stack_page ?t}"
  proof -
    have "ut_stack_page ?t \<noteq> 0 \<longrightarrow> ut_stack_page ?t \<in> allocated s1"
    proof
      assume nz: "ut_stack_page ?t \<noteq> 0"
      then have "ut_stack_page ?t \<in> allocated s" using own unfolding task_pages_def by blast
      moreover have "ut_stack_page ?t \<noteq> ut_code_page ?t" using dist nz unfolding task_distinct_def by metis
      ultimately show "ut_stack_page ?t \<in> allocated s1" unfolding 1(5) by blast
    qed
    from free_optional [OF 1(2) this] that show thesis by blast
  qed
  have t2: "task_at s2 = task_at s" using pool_step_task [OF 2(3)] t1 by simp
  obtain s3 where 3: "(if ut_trap_context ?t \<noteq> 0 then page_free (ut_trap_context ?t) s2 else Inr ((), s2)) = Inr ((), s3)"
    "pages_inv s3" "pool_step s2 s3" "mem s3 = mem s2" "allocated s3 = allocated s2 - {ut_trap_context ?t}"
  proof -
    have "ut_trap_context ?t \<noteq> 0 \<longrightarrow> ut_trap_context ?t \<in> allocated s2"
    proof
      assume nz: "ut_trap_context ?t \<noteq> 0"
      then have "ut_trap_context ?t \<in> allocated s" using own unfolding task_pages_def by blast
      moreover have "ut_trap_context ?t \<noteq> ut_code_page ?t" "ut_trap_context ?t \<noteq> ut_stack_page ?t"
        using dist nz unfolding task_distinct_def by metis+
      ultimately show "ut_trap_context ?t \<in> allocated s2" unfolding 2(5) 1(5) by blast
    qed
    from free_optional [OF 2(2) this] that show thesis by blast
  qed
  have "allocated s3 = allocated s - task_pages ?t" using 1(5) 2(5) 3(5) z by (auto simp: task_pages_def)
  moreover have "pool_step s s3" by (rule pool_step_trans [OF 1(3) pool_step_trans [OF 2(3) 3(3)]])
  moreover have "mem s3 = mem s" using 1(4) 2(4) 3(4) by simp
  ultimately show ?thesis
    using 3(2) by (intro exI [of _ s3] conjI) (simp_all only: 1(1) 2(1) 3(1) t1 t2 bindE_Inr prod.case)
qed

lemma user_task_release_spec:
  fixes s :: "'a utasks_scheme"
  defines "t \<equiv> \<lambda>task. task_at s task"
  assumes own: "task_owns (t task) s"
  shows "returns (user_task_release_resources task s) (\<lambda>_ s'. pages_inv s' \<and> task_step task s s' \<and>
    task_emptied (t task) (task_at s' task) \<and>
    allocated s' = allocated s - (task_tables (t task) s \<union> task_pages (t task)) \<and>
    agree_on (in_use s - task_tables (t task) s) (mem s) (mem s'))"
proof -
  let ?sp = "ut_address_space (t task)" and ?T = "task_tables (t task) s"
  let ?X = "in_use s - ?T"
  \<comment> \<open>the address space\<close>
  obtain s1 where 1: "(if vm_root (ut_address_space (task_at s task)) \<noteq> 0
        then let sp = Some (ut_address_space (task_at s task)) in
          bindE (vm_unmap_page sp USER_SPACE_CODE_BASE s) (\<lambda>(_, s).
          bindE (vm_unmap_page sp USER_SPACE_STACK_BASE s) (\<lambda>(_, s).
          bindE (vm_unmap_page sp USER_TRAMPOLINE_VA s) (\<lambda>(_, s).
          bindE (vm_unmap_page sp USER_TRAP_CONTEXT_VA s) (\<lambda>(_, s).
          bindE (vm_space_destroy sp s) (\<lambda>((_, sp'), s).
            Inr ((), set_task task ((task_at s task)\<lparr>ut_address_space := the sp'\<rparr>) s))))))
        else Inr ((), s)) = Inr ((), s1)"
    and s1: "pages_inv s1" "task_step task s s1" "allocated s1 = allocated s - ?T" "agree_on ?X (mem s) (mem s1)"
      "\<exists>sp'. task_at s1 task = (t task)\<lparr>ut_address_space := sp'\<rparr> \<and> vm_root sp' = 0"
  proof (cases "vm_root ?sp = 0")
    case True
    have ex: "\<exists>sp'. task_at s task = (t task)\<lparr>ut_address_space := sp'\<rparr> \<and> vm_root sp' = 0"
      by (rule exI [of _ ?sp]) (simp add: t_def True [unfolded t_def])
    have "?T = {}" using True by (simp add: task_tables_def)
    moreover have "pages_inv s" using own by (simp add: task_owns_def)
    ultimately show thesis
      using True by (intro that [OF _ _ _ _ _ ex]) (simp_all add: t_def task_step_pool)
  next
    case False
    then have inv: "vm_inv (vm_root ?sp) s" "dom (vm_mapping (vm_root ?sp) s) \<subseteq> task_vas"
      using own by (auto simp: task_owns_def)
    have T: "?T = pt_tables (mem s) (vm_root ?sp)" using False by (simp add: task_tables_def Let_def)
    obtain sp' s' where r: "\<And>k :: vm_space option \<Rightarrow> 'a utasks_scheme \<Rightarrow> (unit \<times> 'a utasks_scheme) res. bindE (vm_unmap_page (Some ?sp) USER_SPACE_CODE_BASE s) (\<lambda>(_, s).
          bindE (vm_unmap_page (Some ?sp) USER_SPACE_STACK_BASE s) (\<lambda>(_, s).
          bindE (vm_unmap_page (Some ?sp) USER_TRAMPOLINE_VA s) (\<lambda>(_, s).
          bindE (vm_unmap_page (Some ?sp) USER_TRAP_CONTEXT_VA s) (\<lambda>(_, s).
          bindE (vm_space_destroy (Some ?sp) s) (\<lambda>((_, sp'), s). k sp' s))))) = k (Some sp') s'"
      and s': "vm_root sp' = 0" "pages_inv s'" "pool_step s s'" "allocated s' = allocated s - ?T"
        "agree_on ?X (mem s) (mem s')"
      using release_space [OF inv, folded T] by (elim exE conjE) (rule that, erule spec, assumption+)
    note run = r [of "\<lambda>sp' s. Inr ((), set_task task ((task_at s task)\<lparr>ut_address_space := the sp'\<rparr>) s)"]
    have "task_at s' = task_at s" using pool_step_task [OF s'(3)] by simp
    with s' run False show thesis
      by (intro that [of "set_task task ((task_at s' task)\<lparr>ut_address_space := sp'\<rparr>) s'"])
         (auto simp: t_def intro: task_step_trans [OF task_step_pool task_step_set])
  qed
  \<comment> \<open>the pages\<close>
  obtain sp' where t1: "task_at s1 task = (t task)\<lparr>ut_address_space := sp'\<rparr>" "vm_root sp' = 0" using s1(5) by blast
  have pages1: "task_pages (task_at s1 task) = task_pages (t task)" "task_distinct (task_at s1 task)"
    using own by (simp_all add: t1 task_pages_def task_distinct_def task_owns_def)
  have own1: "task_pages (task_at s1 task) \<subseteq> allocated s1"
    using own s1(3) unfolding pages1(1) by (auto simp: task_owns_def)
  let ?k = "\<lambda>s. Inr ((), set_task task ((task_at s task)\<lparr>
       ut_address_space := (ut_address_space (task_at s task))\<lparr>vm_root := 0\<rparr>, ut_user_satp := 0,
       ut_code_page := 0, ut_stack_page := 0, ut_trap_context := 0\<rparr>) s) :: (unit \<times> 'a utasks_scheme) res"
  from release_pages [OF s1(1) pages1(2) own1, of ?k]
  obtain s2 where 2: "user_task_release_resources task s = ?k s2" and s2: "pages_inv s2" "pool_step s1 s2"
    "mem s2 = mem s1" "allocated s2 = allocated s1 - task_pages (t task)"
    unfolding user_task_release_resources_def 1 pages1(1) by (simp add: bindE_Inr) blast
  have t2: "task_at s2 = task_at s1" using pool_step_task [OF s2(2)] by simp
  have "task_step task s s2" using s1(2) task_step_pool [OF s2(2)] by (rule task_step_trans)
  then have ts: "task_step task s (set_task task t' s2)" for t' by (rule task_step_trans) simp
  show ?thesis
    unfolding 2 using s1 s2 t1 t2 ts by (auto simp: task_emptied_def Un_assoc)
qed

end
