(* ===== verification/Task_Init.thy ===== *)
theory Task_Init
  imports Task_Lifecycle
begin

text \<open>
  \<open>user_task_init\<close>: nine pages make a task, and a start that fails on the way
  leaves no trace. With it, the properties of \<^verbatim>\<open>kernel/user/task.c\<close>.
\<close>

section \<open>Taking the three pages\<close>

lemma page_alloc_any:
  assumes "pages_inv s"
  shows "\<exists>p s'. page_alloc s = Inr (p, s') \<and> pages_inv s' \<and> pool_step s s' \<and> mem s' = mem s \<and>
    allocated s' = allocated s \<union> ({p} - {0}) \<and> (p \<noteq> 0 \<longrightarrow> p \<in> managed_frames s - allocated s) \<and>
    unat (free_pages s) = unat (free_pages s') + (if p = 0 then 0 else 1) \<and> (p = 0 \<longrightarrow> unat (free_pages s) = 0)"
  using assms
proof (cases rule: page_alloc_outcome)
  case none
  with assms show ?thesis by auto
next
  case (some p s')
  then show ?thesis by (intro exI [of _ p] exI [of _ s']) simp
qed

lemma task_step_alloc: "pool_step s s' \<Longrightarrow> task_step k s (set_task k t s')"
  by (rule task_step_trans [OF task_step_pool task_step_set])

text \<open>The three allocations of \<open>user_task_init\<close>, with what follows as a continuation.\<close>

lemma alloc_task_pages:
  fixes s :: "'a utasks_scheme"
  assumes inv: "pages_inv s" and zero: "task_pages (task_at s task) = {}"
  shows "\<exists>s'. (\<forall>k :: 'a utasks_scheme \<Rightarrow> (int \<times> 'a utasks_scheme) res.
      bindE (page_alloc s) (\<lambda>(p, s). let s = set_task task ((task_at s task)\<lparr>ut_code_page := p\<rparr>) s in
      bindE (page_alloc s) (\<lambda>(p, s). let s = set_task task ((task_at s task)\<lparr>ut_stack_page := p\<rparr>) s in
      bindE (page_alloc s) (\<lambda>(p, s). let s = set_task task ((task_at s task)\<lparr>ut_trap_context := p\<rparr>) s in
      k s))) = k s') \<and> pages_inv s' \<and> task_step task s s' \<and> mem s' = mem s \<and>
    task_distinct (task_at s' task) \<and> task_pages (task_at s' task) \<subseteq> managed_frames s - allocated s \<and>
    allocated s' = allocated s \<union> task_pages (task_at s' task) \<and>
    ut_address_space (task_at s' task) = ut_address_space (task_at s task) \<and>
    ut_state (task_at s' task) = ut_state (task_at s task) \<and>
    (if 3 \<le> unat (free_pages s)
     then ut_code_page (task_at s' task) \<noteq> 0 \<and> ut_stack_page (task_at s' task) \<noteq> 0 \<and>
       ut_trap_context (task_at s' task) \<noteq> 0 \<and> unat (free_pages s) = unat (free_pages s') + 3
     else ut_code_page (task_at s' task) = 0 \<or> ut_stack_page (task_at s' task) = 0 \<or>
       ut_trap_context (task_at s' task) = 0)"
proof -
  let ?t0 = "task_at s task"
  obtain c s1 where 1: "page_alloc s = Inr (c, s1)" "pages_inv s1" "pool_step s s1" "mem s1 = mem s"
    "allocated s1 = allocated s \<union> ({c} - {0})" "c \<noteq> 0 \<longrightarrow> c \<in> managed_frames s - allocated s"
    "unat (free_pages s) = unat (free_pages s1) + (if c = 0 then 0 else 1)" "c = 0 \<longrightarrow> unat (free_pages s) = 0"
    using page_alloc_any [OF inv] by (elim exE conjE) (rule that)
  define u1 where "u1 = set_task task (?t0\<lparr>ut_code_page := c\<rparr>) s1"
  have u1: "pages_inv u1" using 1(2) by (simp add: u1_def)
  obtain k s2 where 2: "page_alloc u1 = Inr (k, s2)" "pages_inv s2" "pool_step u1 s2" "mem s2 = mem u1"
    "allocated s2 = allocated u1 \<union> ({k} - {0})" "k \<noteq> 0 \<longrightarrow> k \<in> managed_frames u1 - allocated u1"
    "unat (free_pages u1) = unat (free_pages s2) + (if k = 0 then 0 else 1)" "k = 0 \<longrightarrow> unat (free_pages u1) = 0"
    using page_alloc_any [OF u1] by (elim exE conjE) (rule that)
  define u2 where "u2 = set_task task (?t0\<lparr>ut_code_page := c, ut_stack_page := k\<rparr>) s2"
  have u2: "pages_inv u2" using 2(2) by (simp add: u2_def)
  obtain x s3 where 3: "page_alloc u2 = Inr (x, s3)" "pages_inv s3" "pool_step u2 s3" "mem s3 = mem u2"
    "allocated s3 = allocated u2 \<union> ({x} - {0})" "x \<noteq> 0 \<longrightarrow> x \<in> managed_frames u2 - allocated u2"
    "unat (free_pages u2) = unat (free_pages s3) + (if x = 0 then 0 else 1)" "x = 0 \<longrightarrow> unat (free_pages u2) = 0"
    using page_alloc_any [OF u2] by (elim exE conjE) (rule that)
  define u3 where "u3 = set_task task (?t0\<lparr>ut_code_page := c, ut_stack_page := k, ut_trap_context := x\<rparr>) s3"
  have t1: "task_at s1 = task_at s" "managed_frames s1 = managed_frames s"
    using pool_step_task [OF 1(3)] pool_step_fields(1) [OF 1(3)] by auto
  have t2: "task_at s2 = task_at u1" "managed_frames s2 = managed_frames s"
    using pool_step_task [OF 2(3)] pool_step_fields(1) [OF 2(3)] t1 by (auto simp: u1_def)
  have t3: "task_at s3 = task_at u2" using pool_step_task [OF 3(3)] by auto
  have run: "bindE (page_alloc s) (\<lambda>(p, s). let s = set_task task ((task_at s task)\<lparr>ut_code_page := p\<rparr>) s in
      bindE (page_alloc s) (\<lambda>(p, s). let s = set_task task ((task_at s task)\<lparr>ut_stack_page := p\<rparr>) s in
      bindE (page_alloc s) (\<lambda>(p, s). let s = set_task task ((task_at s task)\<lparr>ut_trap_context := p\<rparr>) s in
      f s))) = f u3" for f :: "'a utasks_scheme \<Rightarrow> (int \<times> 'a utasks_scheme) res"
    using 1(1) 2(1) 3(1) t1 t2 t3 by (simp add: u1_def u2_def u3_def Let_def)
  have ts: "task_step task s u3"
    unfolding u3_def
    by (rule task_step_trans [OF task_step_trans [OF task_step_alloc [OF 1(3)] task_step_alloc [OF 2(3) [unfolded u1_def]]]
          task_step_alloc [OF 3(3) [unfolded u2_def]]])
  have tu: "task_at u3 task = ?t0\<lparr>ut_code_page := c, ut_stack_page := k, ut_trap_context := x\<rparr>" by (simp add: u3_def)
  have al: "allocated u1 = allocated s \<union> ({c} - {0})" "allocated u2 = allocated s \<union> ({c, k} - {0})"
    "allocated u3 = allocated s \<union> ({c, k, x} - {0})" "managed_frames u1 = managed_frames s"
    "managed_frames u2 = managed_frames s"
    using 1(5) 2(5) 3(5) t1 t2 by (auto simp: u1_def u2_def u3_def)
  have k: "k \<noteq> 0 \<longrightarrow> k \<noteq> c \<and> k \<in> managed_frames s - allocated s"
    and x: "x \<noteq> 0 \<longrightarrow> x \<noteq> c \<and> x \<noteq> k \<and> x \<in> managed_frames s - allocated s"
    using 2(6) 3(6) unfolding al by auto
  have pages: "task_pages (task_at u3 task) = {c, k, x} - {0}" by (simp add: tu task_pages_def)
  have "task_distinct (task_at u3 task)" using k x by (simp add: tu task_distinct_def) metis
  moreover have "{c, k, x} - {0} \<subseteq> managed_frames s - allocated s" using 1(6) k x by blast
  moreover have "if 3 \<le> unat (free_pages s) then c \<noteq> 0 \<and> k \<noteq> 0 \<and> x \<noteq> 0 \<and> unat (free_pages s) = unat (free_pages u3) + 3
      else c = 0 \<or> k = 0 \<or> x = 0"
  proof -
    have "unat (free_pages s1) = unat (free_pages s2) + (if k = 0 then 0 else 1)" "k = 0 \<longrightarrow> unat (free_pages s1) = 0"
      "unat (free_pages s2) = unat (free_pages u3) + (if x = 0 then 0 else 1)" "x = 0 \<longrightarrow> unat (free_pages s2) = 0"
      using 2(7,8) 3(7,8) by (simp_all add: u1_def u2_def u3_def)
    with 1(7,8) show ?thesis by (cases "c = 0"; cases "k = 0"; cases "x = 0") simp_all
  qed
  moreover have "pages_inv u3" "mem u3 = mem s" using 3(2,4) 2(4) 1(4) by (simp_all add: u1_def u2_def u3_def)
  ultimately show ?thesis
    using run ts al(3) pages by (intro exI [of _ u3]) (simp add: tu)
qed

section \<open>Filling the pages\<close>

lemma mem_op_simps [simp]:
  "task_at (memory_zero p n s) = task_at s" "task_at (memory_copy d a n s) = task_at s"
  "task_at (store64 a v s) = task_at s" "kernel_satp (store64 a v s) = kernel_satp s"
  "link (store64 a v s) = link s" "link (memory_zero p n s) = link s" "link (memory_copy d a n s) = link s"
  "mem (memory_copy d a n s) = copy_bytes (mem s) d a (unat n)"
  "pages_inv (memory_copy d a n s) = pages_inv s" "allocated (memory_copy d a n s) = allocated s"
  "free_pages (memory_copy d a n s) = free_pages s"
  "managed_frames (memory_copy d a n s) = managed_frames s" "managed_frames (memory_zero p n s) = managed_frames s"
  "managed_frames (store64 a v s) = managed_frames s"
  by (simp_all add: task_at_def fun_eq_iff memory_zero_def memory_copy_def store64_def managed_frames_def
      page_addr_from_index_def)

lemma pool_step_copy [simp]: "pool_step s (memory_copy d a n s)"
  by (simp add: memory_copy_def)

lemma byte_in_page:
  assumes "unat p mod 4096 = 0" and "unat (b - p) < 4096"
  shows "page_base b = p"
  using page_base_add [OF assms(1), of "b - p"] assms(2) by simp

lemma copy_page_apply:
  assumes p: "unat p mod 4096 = 0" and n: "n \<le> 4096"
    and src: "\<And>i. i < n \<Longrightarrow> page_base (src + of_nat i) \<noteq> p"
  shows "copy_bytes m p src n b = (if unat (b - p) < n then m (src + (b - p)) else m b)"
proof (cases "unat (b - p) < n")
  case False
  then show ?thesis using n by (simp add: copy_bytes_outside)
next
  case True
  let ?i = "unat (b - p)"
  have far: "n \<le> unat (src + of_nat i - p)" if "i < n" for i
  proof (rule ccontr)
    assume "\<not> n \<le> unat (src + of_nat i - p)"
    then have "unat (src + of_nat i - p) < 4096" using n by simp
    then have "page_base (src + of_nat i) = p" by (rule byte_in_page [OF p])
    with src [OF that] show False by simp
  qed
  have "copy_bytes m p src n (p + of_nat ?i) = m (src + of_nat ?i)"
    using True n far by (intro copy_bytes_copies) simp_all
  with True show ?thesis by simp
qed

text \<open>The state before the mappings: three zeroed pages, the program in the first.\<close>

definition load_program :: "u64 \<Rightarrow> u64 \<Rightarrow> u64 \<Rightarrow> 'a utasks_scheme \<Rightarrow> 'a utasks_scheme" where
  "load_program task program program_size s =
     (let t = task_at s task in
      memory_copy (ut_code_page t) program program_size
        (memory_zero (ut_trap_context t) PAGE_SIZE
          (memory_zero (ut_stack_page t) PAGE_SIZE (memory_zero (ut_code_page t) PAGE_SIZE s))))"

lemma load_program_simps [simp]:
  "task_at (load_program k a n s) = task_at s" "pages_inv (load_program k a n s) = pages_inv s"
  "allocated (load_program k a n s) = allocated s" "free_pages (load_program k a n s) = free_pages s"
  "managed_frames (load_program k a n s) = managed_frames s" "link (load_program k a n s) = link s"
  by (simp_all add: load_program_def Let_def)

lemma load_program_step: "pool_step s (load_program k a n s)"
  unfolding load_program_def Let_def
  by (rule pool_step_trans [OF pool_step_trans [OF pool_step_trans [OF pool_step_store(2) pool_step_store(2)]
          pool_step_store(2)] pool_step_copy])

lemma load_program_mem:
  fixes s :: "'a utasks_scheme"
  defines "t \<equiv> \<lambda>k. task_at s k"
  assumes al: "unat (ut_code_page (t k)) mod 4096 = 0" "unat (ut_stack_page (t k)) mod 4096 = 0"
      "unat (ut_trap_context (t k)) mod 4096 = 0" and n: "n \<le> PAGE_SIZE"
    and src: "\<And>i. i < unat n \<Longrightarrow> page_base (a + of_nat i) \<notin> {ut_code_page (t k), ut_stack_page (t k), ut_trap_context (t k)}"
  shows "mem (load_program k a n s) b =
    (if unat (b - ut_code_page (t k)) < unat n then mem s (a + (b - ut_code_page (t k)))
     else if page_base b \<in> {ut_code_page (t k), ut_stack_page (t k), ut_trap_context (t k)} then 0 else mem s b)"
proof -
  have n': "unat n \<le> 4096" using n by (simp add: word_le_nat_alt)
  let ?m = "fill_bytes (fill_bytes (fill_bytes (mem s) (ut_code_page (t k)) 0 4096) (ut_stack_page (t k)) 0 4096)
    (ut_trap_context (t k)) 0 4096"
  have fill: "?m b = (if page_base b \<in> {ut_code_page (t k), ut_stack_page (t k), ut_trap_context (t k)} then 0 else mem s b)" for b
    using al by (auto simp: fill_page_apply)
  have "mem (load_program k a n s) = copy_bytes ?m (ut_code_page (t k)) a (unat n)"
    by (simp add: load_program_def Let_def t_def)
  moreover have "page_base (a + (b - ut_code_page (t k))) \<notin> {ut_code_page (t k), ut_stack_page (t k), ut_trap_context (t k)}"
    if "unat (b - ut_code_page (t k)) < unat n"
    using src [OF that] by simp
  moreover have "copy_bytes ?m (ut_code_page (t k)) a (unat n) b =
      (if unat (b - ut_code_page (t k)) < unat n then ?m (a + (b - ut_code_page (t k))) else ?m b)"
    using src by (intro copy_page_apply [OF al(1) n']) blast
  ultimately show ?thesis by (simp add: fill)
qed

lemma field_aligned:
  fixes p off :: u64
  assumes "unat p mod 4096 = 0" and "unat off < 4096" and "unat off mod 8 = 0"
  shows "unat (p + off) mod 8 = 0"
proof -
  have "unat (p + off) = unat p + unat off" using assms(1,2) by (intro unat_add_aligned [of _ 4096]) simp_all
  moreover have "unat p mod 8 = 0"
    using assms(1) mod_mod_cancel [of 8 4096 "unat p"] by simp
  ultimately show ?thesis using assms(3) by (metis add_0 mod_add_left_eq)
qed

lemma store_in_page:
  assumes "unat p mod 4096 = 0" and "unat off < 4096" and "unat off mod 8 = 0"
  shows "agree_on (- {p}) m (write64 m (p + off) v)"
proof -
  note al = field_aligned [OF assms]
  have "write64 m (p + off) v b = m b" if "page_base b \<noteq> p" for b
    using that page_base_add [OF assms(1,2)] by (intro cell64.wr_other_page [OF al]) simp
  then show ?thesis by (simp add: agree_on_def)
qed

lemma fill_context_frame:
  fixes s :: "'a utasks_scheme"
  assumes "unat p mod 4096 = 0"
  shows "agree_on (- {p}) (mem s) (mem (user_task_fill_context p usatp s))"
    and "pool_step s (user_task_fill_context p usatp s)"
proof -
  note w = store_in_page [OF assms]
  show "agree_on (- {p}) (mem s) (mem (user_task_fill_context p usatp s))"
    unfolding user_task_fill_context_def Let_def store_simps
    by (intro agree_on_trans [OF _ w] agree_on_refl)
       (simp_all add: CTX_KERNEL_SATP_def CTX_USER_SATP_def CTX_KERNEL_TRAP_HANDLER_def CTX_KERNEL_TRAP_CONTEXT_def
         CTX_KERNEL_STVEC_def CTX_KERNEL_SP_def FRAME_SP_def FRAME_MEPC_def FRAME_MSTATUS_def)
  show "pool_step s (user_task_fill_context p usatp s)"
    unfolding user_task_fill_context_def Let_def
    by (intro pool_step_trans [OF _ pool_step_store(1)] pool_step_refl)
qed

text \<open>What a fresh task starts with in its trap context.\<close>

definition context_ready :: "u64 \<Rightarrow> u64 \<Rightarrow> 'a utasks_scheme \<Rightarrow> bool" where
  "context_ready ctx usatp s \<longleftrightarrow>
     load64 (ctx + FRAME_MEPC) s = USER_SPACE_CODE_BASE \<and> load64 (ctx + FRAME_SP) s = USER_SPACE_STACK_TOP \<and>
     load64 (ctx + FRAME_MSTATUS) s = SSTATUS_SPIE \<and> load64 (ctx + CTX_USER_SATP) s = usatp \<and>
     load64 (ctx + CTX_KERNEL_SATP) s = kernel_satp s \<and> load64 (ctx + CTX_KERNEL_TRAP_CONTEXT) s = ctx \<and>
     load64 (ctx + CTX_KERNEL_TRAP_HANDLER) s = trap_handle_user_addr (link s) \<and>
     load64 (ctx + CTX_KERNEL_STVEC) s = trap_entry_addr (link s) \<and> load64 (ctx + CTX_KERNEL_SP) s = 0"

lemma read_other_field:
  assumes "unat p mod 4096 = 0" and "unat a < 4096" "unat b < 4096" "unat a mod 8 = 0" "unat b mod 8 = 0" "a \<noteq> b"
  shows "read64 (write64 m (p + b) v) (p + a) = read64 m (p + a)"
proof -
  have "unat (p + a) mod 8 = 0" "unat (p + b) mod 8 = 0" using assms by (simp_all only: field_aligned)
  moreover have "p + a \<noteq> p + b" using assms(6) by simp
  ultimately show ?thesis by (rule cell64.rd_wr_aligned)
qed

lemma fill_context_ready:
  fixes s :: "'a utasks_scheme"
  assumes "unat p mod 4096 = 0"
  shows "context_ready p usatp (user_task_fill_context p usatp s)"
  using assms
  by (simp add: context_ready_def user_task_fill_context_def Let_def load64_def paging_kernel_satp_def
      cell64.rd_wr read_other_field CTX_KERNEL_SATP_def CTX_USER_SATP_def CTX_KERNEL_TRAP_HANDLER_def
      CTX_KERNEL_TRAP_CONTEXT_def CTX_KERNEL_STVEC_def CTX_KERNEL_SP_def FRAME_SP_def FRAME_MEPC_def FRAME_MSTATUS_def)

section \<open>A task under construction\<close>

text \<open>
  The state of a task while \<open>user_task_init\<close> builds it from the state \<open>s\<close>:
  it owns exactly the pages taken since.
\<close>

definition building :: "u64 \<Rightarrow> 'a utasks_scheme \<Rightarrow> 'a utasks_scheme \<Rightarrow> bool" where
  "building task s u \<longleftrightarrow> task_step task s u \<and> task_owns (task_at u task) u \<and>
     allocated u = allocated s \<union> (task_tables (task_at u task) u \<union> task_pages (task_at u task)) \<and>
     (task_tables (task_at u task) u \<union> task_pages (task_at u task)) \<inter> allocated s = {} \<and>
     agree_on (in_use s) (mem s) (mem u)"

definition untouched :: "u64 \<Rightarrow> 'a utasks_scheme \<Rightarrow> 'a utasks_scheme \<Rightarrow> bool" where
  "untouched task s s' \<longleftrightarrow> pages_inv s' \<and> task_step task s s' \<and> allocated s' = allocated s \<and>
     agree_on (in_use s) (mem s) (mem s')"

lemma cleanup_building:
  assumes "building task s u"
  shows "returns (user_task_cleanup_partial task u) (\<lambda>_ s'. untouched task s s' \<and>
    ut_state (task_at s' task) = USER_TASK_UNUSED)"
proof -
  let ?t = "task_at u task"
  let ?own = "task_tables ?t u \<union> task_pages ?t"
  have b: "task_step task s u" "task_owns ?t u" "allocated u = allocated s \<union> ?own" "?own \<inter> allocated s = {}"
    "agree_on (in_use s) (mem s) (mem u)" using assms by (auto simp: building_def)
  obtain s1 where 1: "user_task_release_resources task u = Inr ((), s1)" "pages_inv s1" "task_step task u s1"
    "allocated s1 = allocated u - ?own" "agree_on (in_use u - task_tables ?t u) (mem u) (mem s1)"
    using user_task_release_spec [OF b(2)] by (rule returnsE) auto
  have "in_use s \<subseteq> in_use u - task_tables ?t u"
  proof -
    have "task_tables ?t u \<subseteq> managed_frames s"
      using b(3) allocated_subset [of u] task_step_fields(1) [OF b(1)] by blast
    then show ?thesis using b(3,4) task_step_fields(1) [OF b(1)] by (auto simp: in_use_def)
  qed
  then have "agree_on (in_use s) (mem s) (mem s1)"
    using b(5) 1(5) by (metis agree_on_mono agree_on_trans)
  moreover have "allocated s1 = allocated s" using 1(4) b(3,4) by blast
  moreover have "task_step task s (set_task task t' s1)" for t'
    using b(1) 1(3) by (metis task_step_trans task_step_set)
  ultimately show ?thesis
    using 1(1,2) by (simp add: user_task_cleanup_partial_def untouched_def user_task_reset_def)
qed

lemma free_insert:
  assumes "pages_inv s" "pages_inv s'" "managed_frames s' = managed_frames s"
    and "allocated s' = insert p (allocated s)" "p \<notin> allocated s"
  shows "unat (free_pages s) = Suc (unat (free_pages s'))"
proof -
  have "p \<in> managed_frames s" using assms(3,4) allocated_subset [of s'] by auto
  then have "card (managed_frames s - allocated s) = Suc (card (managed_frames s - allocated s - {p}))"
    using assms(5) pages.frames_finite [of s] by (intro card.remove) auto
  moreover have "managed_frames s' - allocated s' = managed_frames s - allocated s - {p}" using assms(3,4) by auto
  ultimately show ?thesis using managed_frames_card [OF assms(1)] managed_frames_card [OF assms(2)] by simp
qed

lemma paths_of_root:
  assumes "pt_wf A m root" and "pt_tables m root = {root}"
  shows "pt_paths m root = {[]}"
proof -
  have "p = []" if "p \<in> pt_paths m root" for p
  proof -
    from \<open>p \<in> pt_paths m root\<close> obtain t where t: "vpath p" "pt_table m root p = Some t"
      by (auto simp: pt_paths_def)
    then have "t \<in> pt_tables m root" unfolding pt_tables_def by blast
    then have "t = root" using assms(2) by simp
    with pt_wf_inj [OF assms(1) t(1) vpath_Nil t(2)] show ?thesis by simp
  qed
  then show ?thesis by (auto simp: pt_paths_def)
qed

text \<open>The first stage: the address space.\<close>

lemma vm_inv_mem_cong:
  assumes inv: "vm_inv root s" and mem: "agree_on (pt_tables (mem s) root) (mem s) (mem s')"
    and "pages_inv s'" "allocated s \<subseteq> allocated s'"
  shows "vm_inv root s'" "vm_mapping root s' = vm_mapping root s" "pt_tables (mem s') root = pt_tables (mem s) root"
    "pt_paths (mem s') root = pt_paths (mem s) root"
proof -
  have wf: "pt_wf (allocated s) (mem s) root" and fr: "frames (allocated s)"
    using inv by (auto simp: vm_inv_def frames_allocated)
  note same = pt_agree [OF wf fr mem]
  show "vm_inv root s'" using pt_wf_mono [OF same(1) assms(4)] assms(3) by (simp add: vm_inv_def)
  show "vm_mapping root s' = vm_mapping root s" by (simp add: vm_mapping_def same(3) fun_eq_iff)
  show "pt_tables (mem s') root = pt_tables (mem s) root" "pt_paths (mem s') root = pt_paths (mem s) root"
    by (fact same(2), fact same(4))
qed

text \<open>
  The second stage: from an empty address space to the mapped pages. The result says
  whether the task was built.
\<close>

definition started :: "u64 \<Rightarrow> u64 \<Rightarrow> u64 \<Rightarrow> 'a utasks_scheme \<Rightarrow> 'a utasks_scheme \<Rightarrow> bool" where
  "started task program n s s' \<longleftrightarrow>
     (let t = task_at s' task; root = vm_root (ut_address_space t) in
      building task s s' \<and> ut_state t = USER_TASK_READY \<and> user_task_is_ready task s' \<and>
      vm_mapping root s' = task_mapping (ut_code_page t) (ut_stack_page t) (trampoline_start (link s)) (ut_trap_context t) \<and>
      ut_code_page t \<noteq> 0 \<and> ut_stack_page t \<noteq> 0 \<and> ut_user_satp t = SATP_MODE_SV39 OR drop_bit 12 root \<and>
      (\<forall>b. page_base b = ut_code_page t \<longrightarrow> mem s' b =
        (if unat (b - ut_code_page t) < unat n then mem s (program + (b - ut_code_page t)) else 0)) \<and>
      (\<forall>b. page_base b = ut_stack_page t \<longrightarrow> mem s' b = 0) \<and>
      context_ready (ut_trap_context t) (ut_user_satp t) s')"

lemma satp_nonzero: "SATP_MODE_SV39 OR x \<noteq> 0"
  by (simp add: SATP_MODE_SV39_def or_neq_0)

lemma building_pages:
  fixes s u2 :: "'a utasks_scheme"
  assumes b: "building task s u" and inv: "vm_inv (vm_root (ut_address_space (task_at u task))) u"
    and "mem u2 = mem u" "pages_inv u2" "task_step task u u2" "task_distinct (task_at u2 task)"
    and "task_pages (task_at u task) = {}" "task_pages (task_at u2 task) \<subseteq> managed_frames u - allocated u"
    and "allocated u2 = allocated u \<union> task_pages (task_at u2 task)"
    and "ut_address_space (task_at u2 task) = ut_address_space (task_at u task)"
  shows "building task s u2"
proof -
  let ?root = "vm_root (ut_address_space (task_at u task))"
  note same = vm_inv_mem_cong [OF inv, of u2]
  have tab: "task_tables (task_at u2 task) u2 = task_tables (task_at u task) u"
    using assms(3,10) by (simp add: task_tables_def Let_def)
  have tabs: "task_tables (task_at u task) u \<subseteq> allocated u" using b by (auto simp: building_def)
  have "vm_inv ?root u2" "vm_mapping ?root u2 = vm_mapping ?root u"
    using same(1,2) assms(3,4,9) by simp_all
  then have "task_owns (task_at u2 task) u2"
    using b assms(4,6,8,9,10) tab tabs by (auto simp: task_owns_def building_def)
  moreover have "task_step task s u2" using b assms(5) by (auto simp: building_def intro: task_step_trans)
  moreover have "allocated u2 = allocated s \<union> (task_tables (task_at u2 task) u2 \<union> task_pages (task_at u2 task))"
    using b assms(7,9) tab by (auto simp: building_def)
  moreover have "(task_tables (task_at u2 task) u2 \<union> task_pages (task_at u2 task)) \<inter> allocated s = {}"
    using b assms(8) tab by (auto simp: building_def)
  ultimately show ?thesis using b assms(3) by (simp add: building_def)
qed

text \<open>What the stages share: a built-up task with all three pages and an empty tree.\<close>

definition staged :: "u64 \<Rightarrow> 'a utasks_scheme \<Rightarrow> 'a utasks_scheme \<Rightarrow> bool" where
  "staged task s u \<longleftrightarrow>
     (let t = task_at u task; root = vm_root (ut_address_space t) in
      building task s u \<and> root \<noteq> 0 \<and> pt_tables (mem u) root = {root} \<and> vm_mapping root u = Map.empty \<and>
      ut_code_page t \<noteq> 0 \<and> ut_stack_page t \<noteq> 0 \<and> ut_trap_context t \<noteq> 0)"

lemma stagedD:
  fixes s u :: "'a utasks_scheme"
  defines "t \<equiv> \<lambda>task. task_at u task"
  assumes "staged task s u"
  shows "building task s u" "pages_inv u" "vm_inv (vm_root (ut_address_space (t task))) u"
    "pt_tables (mem u) (vm_root (ut_address_space (t task))) = {vm_root (ut_address_space (t task))}"
    "vm_mapping (vm_root (ut_address_space (t task))) u = Map.empty"
    "task_pages (t task) = {ut_code_page (t task), ut_stack_page (t task), ut_trap_context (t task)}"
    "task_tables (t task) u = {vm_root (ut_address_space (t task))}"
    "task_pages (t task) \<subseteq> allocated u - {vm_root (ut_address_space (t task))}"
    "frames (task_pages (t task))" "ut_code_page (t task) \<noteq> ut_stack_page (t task)"
    "ut_code_page (t task) \<noteq> ut_trap_context (t task)" "ut_stack_page (t task) \<noteq> ut_trap_context (t task)"
proof -
  show b: "building task s u" and "pages_inv u" "vm_inv (vm_root (ut_address_space (t task))) u"
    and tab: "pt_tables (mem u) (vm_root (ut_address_space (t task))) = {vm_root (ut_address_space (t task))}"
    and "vm_mapping (vm_root (ut_address_space (t task))) u = Map.empty"
    using assms(2) by (auto simp: staged_def Let_def building_def task_owns_def t_def)
  show "task_pages (t task) = {ut_code_page (t task), ut_stack_page (t task), ut_trap_context (t task)}"
    using assms(2) by (auto simp: staged_def Let_def t_def task_pages_def)
  show tt: "task_tables (t task) u = {vm_root (ut_address_space (t task))}"
    using assms(2) by (simp add: staged_def Let_def t_def task_tables_def)
  show sub: "task_pages (t task) \<subseteq> allocated u - {vm_root (ut_address_space (t task))}"
    using b tt by (auto simp: building_def task_owns_def t_def)
  have "pages_inv u" using b by (simp add: building_def task_owns_def)
  then have "frames (allocated u)" by (rule frames_allocated)
  then show "frames (task_pages (t task))" by (rule frames_mono) (use sub in blast)
  show "ut_code_page (t task) \<noteq> ut_stack_page (t task)" "ut_code_page (t task) \<noteq> ut_trap_context (t task)"
    "ut_stack_page (t task) \<noteq> ut_trap_context (t task)"
    using assms(2) by (auto simp: staged_def Let_def building_def task_owns_def task_distinct_def t_def)
qed

lemma stage_load:
  fixes s u :: "'a utasks_scheme"
  assumes st: "staged task s u" and n: "n \<le> PAGE_SIZE"
    and src: "\<And>i. i < unat n \<Longrightarrow> page_base (program + of_nat i) \<in> in_use s"
  defines "t \<equiv> \<lambda>task. task_at u task" and "v \<equiv> load_program task program n u"
  shows "staged task s v"
    and "page_base b = ut_code_page (t task) \<Longrightarrow> mem v b =
      (if unat (b - ut_code_page (t task)) < unat n then mem s (program + (b - ut_code_page (t task))) else 0)"
    and "page_base b = ut_stack_page (t task) \<Longrightarrow> mem v b = 0"
proof -
  let ?P = "task_pages (t task)" and ?root = "vm_root (ut_address_space (t task))"
  note d = stagedD [OF st, folded t_def]
  have al: "unat (ut_code_page (t task)) mod 4096 = 0" "unat (ut_stack_page (t task)) mod 4096 = 0"
    "unat (ut_trap_context (t task)) mod 4096 = 0" using d(6,9) by (auto simp: frames_def)
  have out: "in_use s \<inter> ?P = {}"
  proof -
    have "?P \<subseteq> managed_frames s"
    proof -
      have "managed_frames u = managed_frames s" using d(1) task_step_fields(1) unfolding building_def by blast
      with d(8) allocated_subset [of u] show ?thesis by blast
    qed
    moreover have "?P \<inter> allocated s = {}" using d(1) by (auto simp: building_def t_def)
    ultimately show ?thesis by (auto simp: in_use_def)
  qed
  have src': "page_base (program + of_nat i) \<notin> {ut_code_page (t task), ut_stack_page (t task), ut_trap_context (t task)}"
    if "i < unat n" for i
    using src [OF that] out d(6) by auto
  note mem_v = load_program_mem [where k = task and s = u and a = program and n = n, folded t_def v_def, OF al n src']
  have agP: "agree_on (- ?P) (mem u) (mem v)"
  proof -
    have "unat (b - ut_code_page (t task)) < unat n \<Longrightarrow> page_base b = ut_code_page (t task)" for b
      using n by (intro byte_in_page [OF al(1)]) (simp add: word_le_nat_alt)
    then show ?thesis using mem_v d(6) by (auto simp: agree_on_def)
  qed
  have agu: "agree_on (in_use s) (mem s) (mem u)" using d(1) by (simp add: building_def)
  have agv: "agree_on (in_use s) (mem s) (mem v)"
    by (rule agree_on_trans [OF agu agree_on_mono [OF agP]]) (use out in blast)
  have "agree_on (pt_tables (mem u) ?root) (mem u) (mem v)"
    by (rule agree_on_mono [OF agP]) (use d(4,8) in auto)
  note same = vm_inv_mem_cong [OF d(3) this]
  have sv: "vm_inv ?root v" "vm_mapping ?root v = Map.empty" "pt_tables (mem v) ?root = {?root}"
    using same d(2,4,5) by (simp_all add: v_def)
  have tv: "task_at v = task_at u" by (simp add: v_def)
  have "?root \<noteq> 0" using st by (simp add: staged_def Let_def t_def)
  then have tabv: "task_tables (t task) v = {?root}" using sv(3) by (simp add: task_tables_def)
  have "task_step task s v"
    using d(1) load_program_step [of u task program n]
    by (auto simp: building_def v_def intro: task_step_trans task_step_pool)
  then have "building task s v"
    using d(1,2,7,8) sv tabv agv unfolding building_def task_owns_def tv t_def by (simp add: v_def)
  then show "staged task s v"
    using st sv by (simp add: staged_def Let_def tv t_def)
  have smem: "mem u (program + (b - ut_code_page (t task))) = mem s (program + (b - ut_code_page (t task)))"
    if "unat (b - ut_code_page (t task)) < unat n"
    using agu src [OF that] by (simp add: agree_on_def)
  show "mem v b = (if unat (b - ut_code_page (t task)) < unat n
      then mem s (program + (b - ut_code_page (t task))) else 0)"
    if "page_base b = ut_code_page (t task)"
    using that smem mem_v [of b] by auto
  show "mem v b = 0" if "page_base b = ut_stack_page (t task)"
  proof -
    have "\<not> unat (b - ut_code_page (t task)) < unat n"
    proof
      assume "unat (b - ut_code_page (t task)) < unat n"
      then have "page_base b = ut_code_page (t task)"
        using n by (intro byte_in_page [OF al(1)]) (simp add: word_le_nat_alt)
      with that d(10) show False by simp
    qed
    with that mem_v [of b] show ?thesis by simp
  qed
qed

lemma stage_map:
  fixes s v :: "'a utasks_scheme"
  assumes st: "staged task s v"
  defines "t \<equiv> \<lambda>task. task_at v task"
  shows "returns (user_task_map_pages task v) (\<lambda>ok w. building task s w \<and> task_at w = task_at v \<and>
    kernel_satp w = kernel_satp v \<and>
    (ok \<longleftrightarrow> trampoline_ok (link s) \<and> 5 \<le> unat (free_pages v)) \<and>
    (ok \<longrightarrow> vm_mapping (vm_root (ut_address_space (t task))) w =
       task_mapping (ut_code_page (t task)) (ut_stack_page (t task)) (trampoline_start (link s)) (ut_trap_context (t task)) \<and>
       unat (free_pages v) = unat (free_pages w) + 5) \<and>
    agree_on (task_pages (t task)) (mem v) (mem w))"
proof -
  let ?root = "vm_root (ut_address_space (t task))" and ?P = "task_pages (t task)"
  note d = stagedD [OF st, folded t_def]
  have ts: "task_step task s v" using d(1) by (simp add: building_def)
  note f = task_step_fields [OF ts]
  have al: "allocated v = allocated s \<union> ({?root} \<union> ?P)" "({?root} \<union> ?P) \<inter> allocated s = {}"
    using d(1,7) by (auto simp: building_def t_def)
  have man: "ut_code_page (t task) \<in> managed_frames v" "ut_stack_page (t task) \<in> managed_frames v"
    "ut_trap_context (t task) \<in> managed_frames v"
    using d(6,8) allocated_subset [of v] by auto
  have wf: "pt_wf (allocated v) (mem v) ?root" using d(3) by (simp add: vm_inv_def)
  note spec = user_task_map_pages_spec [where s = v and task = task, folded t_def, OF refl d(3) d(5)
      paths_of_root [OF wf d(4)] man, unfolded f(2)]
  have nz: "?root \<noteq> 0" using st by (simp add: staged_def Let_def t_def)
  show ?thesis
  proof (rule returns_mono [OF spec], elim conjE)
    fix ok w
    assume fr: "vm_frame ?root v w" and dom: "dom (vm_mapping ?root w) \<subseteq> task_vas"
      and ok: "ok = (trampoline_ok (link s) \<and> 5 \<le> unat (free_pages v))"
      and map: "ok \<longrightarrow> vm_mapping ?root w = task_mapping (ut_code_page (t task)) (ut_stack_page (t task))
          (trampoline_start (link s)) (ut_trap_context (t task)) \<and> unat (free_pages v) = unat (free_pages w) + 5"
    have ps: "pool_step v w" and invw: "vm_inv ?root w" using fr by (auto simp: vm_frame_def)
    have tw: "task_at w = task_at v" "kernel_satp w = kernel_satp v" using pool_step_task [OF ps] by auto
    let ?T = "pt_tables (mem w) ?root"
    have tabw: "task_tables (t task) w = ?T" using nz by (simp add: task_tables_def)
    have diff: "allocated w - ?T = allocated s \<union> ?P" using fr al d(4,8) by (auto simp: vm_frame_def)
    have sub: "?T \<subseteq> allocated w" using vm_tables_owned [OF invw] .
    have ag: "agree_on (in_use v - {?root}) (mem v) (mem w)" using vm_frame_agree [OF fr d(3)] d(4) by simp
    have "in_use s \<subseteq> in_use v - {?root}"
    proof -
      have "?root \<in> managed_frames s" using al(1) allocated_subset [of v] f(1) by auto
      then show ?thesis using al f(1) by (auto simp: in_use_def)
    qed
    then have "agree_on (in_use s) (mem s) (mem w)"
      using d(1) ag by (auto simp: building_def intro: agree_on_trans agree_on_mono)
    moreover have "task_owns (t task) w"
      using invw dom diff sub d(1) tabw by (auto simp: task_owns_def building_def t_def vm_inv_def)
    moreover have "task_step task s w" using ts task_step_pool [OF ps] by (rule task_step_trans)
    moreover have "allocated w = allocated s \<union> (?T \<union> ?P)" "(?T \<union> ?P) \<inter> allocated s = {}"
      using diff sub al(2) by blast+
    ultimately have "building task s w" by (simp add: building_def tw tabw flip: t_def)
    moreover have "agree_on ?P (mem v) (mem w)"
      using ag by (rule agree_on_mono) (use d(8) in \<open>auto simp: in_use_def\<close>)
    ultimately show "building task s w \<and> task_at w = task_at v \<and> kernel_satp w = kernel_satp v \<and>
      ok = (trampoline_ok (link s) \<and> 5 \<le> unat (free_pages v)) \<and>
      (ok \<longrightarrow> vm_mapping ?root w = task_mapping (ut_code_page (t task)) (ut_stack_page (t task))
         (trampoline_start (link s)) (ut_trap_context (t task)) \<and> unat (free_pages v) = unat (free_pages w) + 5) \<and>
      agree_on ?P (mem v) (mem w)"
      using tw ok map by blast
  qed
qed

text \<open>The last stage: the satp value, the trap context and the state.\<close>

definition finish_task :: "u64 \<Rightarrow> 'a utasks_scheme \<Rightarrow> 'a utasks_scheme" where
  "finish_task task s =
     (let s = set_task task ((task_at s task)\<lparr>ut_user_satp :=
                SATP_MODE_SV39 OR drop_bit 12 (vm_root (ut_address_space (task_at s task)))\<rparr>) s;
          s = user_task_fill_context (ut_trap_context (task_at s task)) (ut_user_satp (task_at s task)) s
      in set_task task ((task_at s task)\<lparr>ut_state := USER_TASK_READY\<rparr>) s)"

lemma fill_context_simps [simp]:
  "task_at (user_task_fill_context c x s) = task_at s" "pages_inv (user_task_fill_context c x s) = pages_inv s"
  "allocated (user_task_fill_context c x s) = allocated s"
  "managed_frames (user_task_fill_context c x s) = managed_frames s" "free_pages (user_task_fill_context c x s) = free_pages s"
  by (simp_all add: user_task_fill_context_def Let_def)

lemma context_ready_set [simp]: "context_ready c x (set_task k t s) = context_ready c x s"
  by (simp add: context_ready_def load64_def)

lemma stage_finish:
  fixes s w :: "'a utasks_scheme"
  defines "t \<equiv> \<lambda>task. task_at w task"
  assumes b: "building task s w" and nz: "vm_root (ut_address_space (t task)) \<noteq> 0" "task \<noteq> 0"
    "ut_code_page (t task) \<noteq> 0" "ut_stack_page (t task) \<noteq> 0" "ut_trap_context (t task) \<noteq> 0"
    and map: "vm_mapping (vm_root (ut_address_space (t task))) w = task_mapping (ut_code_page (t task))
      (ut_stack_page (t task)) (trampoline_start (link s)) (ut_trap_context (t task))"
    and code: "\<And>b. page_base b = ut_code_page (t task) \<Longrightarrow> mem w b =
      (if unat (b - ut_code_page (t task)) < unat n then mem s (program + (b - ut_code_page (t task))) else 0)"
    and stack: "\<And>b. page_base b = ut_stack_page (t task) \<Longrightarrow> mem w b = 0"
  shows "started task program n s (finish_task task w)"
proof -
  let ?root = "vm_root (ut_address_space (t task))" and ?x = "ut_trap_context (t task)" and ?P = "task_pages (t task)"
  let ?u = "SATP_MODE_SV39 OR drop_bit 12 ?root"
  let ?w1 = "set_task task ((t task)\<lparr>ut_user_satp := ?u\<rparr>) w"
  let ?w2 = "user_task_fill_context ?x ?u ?w1"
  let ?z = "finish_task task w"
  have own: "task_owns (t task) w" using b by (simp add: building_def t_def)
  then have inv: "vm_inv ?root w" "pages_inv w" and sub: "?P \<subseteq> allocated w - pt_tables (mem w) ?root"
    using nz by (auto simp: task_owns_def task_tables_def Let_def)
  have P: "?P = {ut_code_page (t task), ut_stack_page (t task), ?x}" using nz by (auto simp: task_pages_def)
  have fr: "frames (allocated w)" using inv(2) by (rule frames_allocated)
  then have xal: "unat ?x mod 4096 = 0" using sub P by (auto simp: frames_def)
  have z: "?z = set_task task ((t task)\<lparr>ut_user_satp := ?u, ut_state := USER_TASK_READY\<rparr>) ?w2"
    by (simp add: finish_task_def Let_def t_def)
  have tz: "task_at ?z task = (t task)\<lparr>ut_user_satp := ?u, ut_state := USER_TASK_READY\<rparr>" by (simp add: z)
  have ag: "agree_on (- {?x}) (mem w) (mem ?z)"
    using fill_context_frame(1) [OF xal, of ?w1 ?u] by (simp add: z)
  have "agree_on (pt_tables (mem w) ?root) (mem w) (mem ?z)"
    by (rule agree_on_mono [OF ag]) (use sub P in blast)
  from vm_inv_mem_cong [OF inv(1) this] inv(2)
  have sz: "vm_inv ?root ?z" "vm_mapping ?root ?z = vm_mapping ?root w"
    "pt_tables (mem ?z) ?root = pt_tables (mem w) ?root" by (simp_all add: z)
  have pz: "task_pages (task_at ?z task) = ?P" "task_tables (task_at ?z task) ?z = task_tables (t task) w"
    "task_distinct (task_at ?z task) = task_distinct (t task)"
    using sz(3) by (simp_all add: tz task_pages_def task_tables_def task_distinct_def Let_def)
  have ownz: "task_owns (task_at ?z task) ?z"
    using own sz inv(2) pz by (simp add: task_owns_def tz) (simp add: z)
  have "task_step task s ?z"
  proof -
    have "task_step task w ?w1" by simp
    moreover have "task_step task ?w1 ?w2" using fill_context_frame(2) [OF xal] by (rule task_step_pool)
    ultimately have "task_step task w ?w2" by (rule task_step_trans)
    then have "task_step task w ?z" unfolding z by (rule task_step_trans) (rule task_step_set)
    then show ?thesis using b by (auto simp: building_def intro: task_step_trans)
  qed
  moreover have xout: "?x \<notin> in_use s"
  proof -
    have "?x \<in> managed_frames w" using sub P allocated_subset [of w] by auto
    moreover have "?x \<notin> allocated s" using b P by (auto simp: building_def t_def)
    moreover have "managed_frames w = managed_frames s" using b task_step_fields(1) unfolding building_def by blast
    ultimately show ?thesis by (simp add: in_use_def)
  qed
  have "agree_on (in_use s) (mem w) (mem ?z)" by (rule agree_on_mono [OF ag]) (use xout in blast)
  then have "agree_on (in_use s) (mem s) (mem ?z)" using b by (auto simp: building_def intro: agree_on_trans)
  moreover have "allocated ?z = allocated w" by (simp add: z)
  ultimately have bz: "building task s ?z"
    using b ownz pz unfolding building_def by (simp add: t_def)
  have diff: "ut_code_page (t task) \<noteq> ?x" "ut_stack_page (t task) \<noteq> ?x"
    using own nz by (auto simp: task_owns_def task_distinct_def)
  have memz: "page_base b \<noteq> ?x \<Longrightarrow> mem ?z b = mem w b" for b using ag by (simp add: agree_on_def)
  have "context_ready ?x ?u ?z"
    using fill_context_ready [OF xal, of ?u ?w1] by (simp add: z)
  then show ?thesis
    using bz nz map code stack diff memz sz(2)
    unfolding started_def Let_def tz user_task_is_ready_def
    by (simp add: satp_nonzero)
qed

section \<open>The whole of \<open>user_task_init\<close>\<close>

text \<open>
  The body of \<open>user_task_init\<close> behind its argument checks, in stages.
\<close>

definition init_stages :: "u64 \<Rightarrow> u64 \<Rightarrow> u64 \<Rightarrow> 'a utasks_scheme \<Rightarrow> (int \<times> 'a utasks_scheme) res" where
  "init_stages task program n s =
     (if ut_code_page (task_at s task) = 0 \<or> ut_stack_page (task_at s task) = 0 \<or> ut_trap_context (task_at s task) = 0
      then bindE (user_task_cleanup_partial task s) (\<lambda>(_, s). Inr (-1, s))
      else bindE (user_task_map_pages task (load_program task program n s)) (\<lambda>(mapped, s).
        if \<not> mapped then bindE (user_task_cleanup_partial task s) (\<lambda>(_, s). Inr (-1, s))
        else Inr (0, finish_task task s)))"

lemma user_task_init_stages:
  assumes "task \<noteq> 0" "program \<noteq> 0" "n \<noteq> 0" "n \<le> PAGE_SIZE" "user_task_can_init task s"
  shows "user_task_init task program n s =
    bindE (vm_space_init (Some (ut_address_space (user_task_reset (task_at s task))))
        (set_task task (user_task_reset (task_at s task)) s)) (\<lambda>((r, sp), s).
      let s = set_task task ((task_at s task)\<lparr>ut_address_space := the sp\<rparr>) s in
      if r \<noteq> VM_OK then Inr (-1, set_task task (user_task_reset (task_at s task)) s)
      else
      bindE (page_alloc s) (\<lambda>(p, s). let s = set_task task ((task_at s task)\<lparr>ut_code_page := p\<rparr>) s in
      bindE (page_alloc s) (\<lambda>(p, s). let s = set_task task ((task_at s task)\<lparr>ut_stack_page := p\<rparr>) s in
      bindE (page_alloc s) (\<lambda>(p, s). let s = set_task task ((task_at s task)\<lparr>ut_trap_context := p\<rparr>) s in
      init_stages task program n s))))"
proof -
  have "user_task_init task program n s = (let s = set_task task (user_task_reset (task_at s task)) s in
      bindE (vm_space_init (Some (ut_address_space (task_at s task))) s) (\<lambda>((r, sp), s).
      let s = set_task task ((task_at s task)\<lparr>ut_address_space := the sp\<rparr>) s in
      if r \<noteq> VM_OK then Inr (-1, set_task task (user_task_reset (task_at s task)) s)
      else
      bindE (page_alloc s) (\<lambda>(p, s). let s = set_task task ((task_at s task)\<lparr>ut_code_page := p\<rparr>) s in
      bindE (page_alloc s) (\<lambda>(p, s). let s = set_task task ((task_at s task)\<lparr>ut_stack_page := p\<rparr>) s in
      bindE (page_alloc s) (\<lambda>(p, s). let s = set_task task ((task_at s task)\<lparr>ut_trap_context := p\<rparr>) s in
      init_stages task program n s)))))"
    using assms unfolding user_task_init_def init_stages_def finish_task_def load_program_def Let_def
    by (simp only: mem_op_simps) (simp add: not_less [symmetric])
  then show ?thesis by (simp add: Let_def)
qed

lemma init_stages_spec:
  fixes s u :: "'a utasks_scheme"
  assumes b: "building task s u" and root: "vm_root (ut_address_space (task_at u task)) \<noteq> 0"
      "pt_tables (mem u) (vm_root (ut_address_space (task_at u task))) = {vm_root (ut_address_space (task_at u task))}"
      "vm_mapping (vm_root (ut_address_space (task_at u task))) u = Map.empty"
    and args: "task \<noteq> 0" "n \<le> PAGE_SIZE" "\<And>i. i < unat n \<Longrightarrow> page_base (program + of_nat i) \<in> in_use s"
  shows "returns (init_stages task program n u) (\<lambda>r s'.
    if ut_code_page (task_at u task) \<noteq> 0 \<and> ut_stack_page (task_at u task) \<noteq> 0 \<and> ut_trap_context (task_at u task) \<noteq> 0 \<and>
       trampoline_ok (link s) \<and> 5 \<le> unat (free_pages u)
    then r = 0 \<and> started task program n s s' \<and> unat (free_pages u) = unat (free_pages s') + 5
    else r = -1 \<and> untouched task s s' \<and> ut_state (task_at s' task) = USER_TASK_UNUSED)"
proof (cases "ut_code_page (task_at u task) = 0 \<or> ut_stack_page (task_at u task) = 0 \<or> ut_trap_context (task_at u task) = 0")
  case True
  then have "init_stages task program n u = bindE (user_task_cleanup_partial task u) (\<lambda>(_, s). Inr (-1, s))"
    by (simp add: init_stages_def)
  then show ?thesis using True by (auto intro!: returns_mono [OF cleanup_building [OF b]])
next
  case False
  let ?v = "load_program task program n u" and ?t = "task_at u task"
  have st: "staged task s u" using b root False by (simp add: staged_def Let_def)
  have src: "i < unat n \<Longrightarrow> page_base (program + of_nat i) \<in> in_use s" for i by (rule args(3))
  note ld = stage_load [OF st args(2), of program, OF src]
  note mapped = stage_map [OF ld(1), simplified]
  obtain ok w where run: "user_task_map_pages task ?v = Inr (ok, w)" and w: "building task s w" "task_at w = task_at u"
    and ok: "ok \<longleftrightarrow> trampoline_ok (link s) \<and> 5 \<le> unat (free_pages u)"
    and map: "ok \<longrightarrow> vm_mapping (vm_root (ut_address_space ?t)) w =
       task_mapping (ut_code_page ?t) (ut_stack_page ?t) (trampoline_start (link s)) (ut_trap_context ?t) \<and>
       unat (free_pages u) = unat (free_pages w) + 5"
    and ag: "agree_on (task_pages ?t) (mem ?v) (mem w)"
    by (rule returnsE [OF mapped]) (elim conjE, rule that, assumption+)
  have stg: "init_stages task program n u = (if \<not> ok then bindE (user_task_cleanup_partial task w) (\<lambda>(_, s). Inr (-1, s))
        else Inr (0, finish_task task w))"
    using False run by (simp add: init_stages_def)
  show ?thesis
  proof (cases ok)
    case no: False
    then show ?thesis using stg ok False by (auto intro!: returns_mono [OF cleanup_building [OF w(1)]])
  next
    case yes: True
    have P: "ut_code_page ?t \<in> task_pages ?t" "ut_stack_page ?t \<in> task_pages ?t"
      using False by (simp_all add: task_pages_def)
    have mw: "mem w b = mem ?v b" if "page_base b \<in> task_pages ?t" for b
      using ag that by (simp add: agree_on_def)
    have "started task program n s (finish_task task w)"
    proof (rule stage_finish [OF w(1)])
      show "mem w b = (if unat (b - ut_code_page (task_at w task)) < unat n
          then mem s (program + (b - ut_code_page (task_at w task))) else 0)"
        if "page_base b = ut_code_page (task_at w task)" for b
        using that mw [of b] P ld(2) [of b] by (simp add: w(2))
      show "mem w b = 0" if "page_base b = ut_stack_page (task_at w task)" for b
        using that mw [of b] P ld(3) [of b] by (simp add: w(2))
    qed (use False root args map yes w in auto)
    moreover have "free_pages (finish_task task w) = free_pages w" by (simp add: finish_task_def Let_def)
    ultimately show ?thesis using stg yes ok map False by simp
  qed
qed

lemma building_space:
  fixes s :: "'a utasks_scheme"
  assumes inv: "pages_inv s" and free: "free_pages s \<noteq> 0"
  shows "\<exists>sp' s1. vm_space_init (Some (ut_address_space (user_task_reset (task_at s task))))
        (set_task task (user_task_reset (task_at s task)) s) = Inr ((VM_OK, Some sp'), s1) \<and>
    task_at s1 task = user_task_reset (task_at s task) \<and> vm_root sp' \<noteq> 0 \<and>
    building task s (set_task task ((task_at s1 task)\<lparr>ut_address_space := sp'\<rparr>) s1) \<and>
    pt_tables (mem s1) (vm_root sp') = {vm_root sp'} \<and> vm_mapping (vm_root sp') s1 = Map.empty \<and>
    unat (free_pages s) = Suc (unat (free_pages s1))"
proof -
  let ?t0 = "user_task_reset (task_at s task)"
  let ?u0 = "set_task task ?t0 s"
  have inv0: "pages_inv ?u0" using inv by simp
  obtain sp' s1 where run: "vm_space_init (Some (ut_address_space ?t0)) ?u0 = Inr ((VM_OK, Some sp'), s1)"
    and s1: "vm_inv (vm_root sp') s1" "vm_mapping (vm_root sp') s1 = Map.empty" "vm_root sp' \<notin> allocated s"
      "allocated s1 = insert (vm_root sp') (allocated s)" "pt_tables (mem s1) (vm_root sp') = {vm_root sp'}"
      "pool_step ?u0 s1" "agree_on (- {vm_root sp'}) (mem s) (mem s1)"
    using vm_space_init_spec [OF inv0, of "ut_address_space ?t0"] free by auto
  let ?root = "vm_root sp'"
  have pinv: "pages_inv s1" and nz: "?root \<noteq> 0" using s1(1) vm_inv_root(2) by (auto simp: vm_inv_def)
  have t1: "task_at s1 task = ?t0" using pool_step_task [OF s1(6)] by simp
  have man: "managed_frames s1 = managed_frames s" using pool_step_fields(1) [OF s1(6)] by simp
  have "?root \<in> managed_frames s" using s1(4) allocated_subset [of s1] man by auto
  then have "?root \<notin> in_use s" using s1(3) by (simp add: in_use_def)
  then have ag: "agree_on (in_use s) (mem s) (mem s1)" by (intro agree_on_mono [OF s1(7)]) blast
  let ?u1 = "set_task task (?t0\<lparr>ut_address_space := sp'\<rparr>) s1"
  have pages: "task_pages (?t0\<lparr>ut_address_space := sp'\<rparr>) = {}" "task_distinct (?t0\<lparr>ut_address_space := sp'\<rparr>)"
    "task_tables (?t0\<lparr>ut_address_space := sp'\<rparr>) ?u1 = {?root}"
    using nz s1(5) by (simp_all add: task_pages_def task_distinct_def task_tables_def user_task_reset_def)
  have "task_step task s ?u1"
    by (rule task_step_trans [OF task_step_trans [OF task_step_set task_step_pool [OF s1(6)]] task_step_set])
  then have "building task s ?u1"
    using pages pinv s1 ag by (simp add: building_def task_owns_def)
  with run t1 nz s1 free_insert [OF inv pinv man s1(4,3)] show ?thesis by auto
qed

lemma user_task_init_spec:
  fixes s :: "'a utasks_scheme"
  assumes "pages_inv s" and "\<And>i. i < unat n \<Longrightarrow> page_base (program + of_nat i) \<in> in_use s"
  shows "returns (user_task_init task program n s) (\<lambda>r s'.
    agree_on (in_use s) (mem s) (mem s') \<and> (\<forall>k. k \<noteq> task \<longrightarrow> task_at s' k = task_at s k) \<and>
    (if task = 0 \<or> program = 0 \<or> n = 0 \<or> n > PAGE_SIZE \<or> \<not> user_task_can_init task s then r = -1 \<and> s' = s
     else if trampoline_ok (link s) \<and> 9 \<le> unat (free_pages s) then r = 0 \<and> started task program n s s' \<and> unat (free_pages s) = unat (free_pages s') + 9
     else r = -1 \<and> pages_inv s' \<and> allocated s' = allocated s \<and> ut_state (task_at s' task) = USER_TASK_UNUSED))"
proof (cases "task = 0 \<or> program = 0 \<or> n = 0 \<or> n > PAGE_SIZE \<or> \<not> user_task_can_init task s")
  case True
  then have "user_task_init task program n s = Inr (-1, s)" by (auto simp: user_task_init_def)
  with True show ?thesis by auto
next
  case False
  let ?t0 = "user_task_reset (task_at s task)"
  have args: "task \<noteq> 0" "program \<noteq> 0" "n \<noteq> 0" "n \<le> PAGE_SIZE" "user_task_can_init task s"
    using False by (auto simp: not_less)
  note eq = user_task_init_stages [OF args]
  have post: "agree_on (in_use s) (mem s) (mem s') \<and> (\<forall>k. k \<noteq> task \<longrightarrow> task_at s' k = task_at s k)"
    if "building task s s' \<or> untouched task s s'" for s'
    using that task_step_fields(4) by (auto simp: building_def untouched_def)
  have st: "started task program n s s' \<Longrightarrow> building task s s'" for s' by (simp add: started_def Let_def)
  show ?thesis
  proof (cases "free_pages s = 0")
    case True
    have "vm_space_init (Some (ut_address_space ?t0)) (set_task task ?t0 s) =
        Inr ((VM_ERR_NO_MEMORY, Some (ut_address_space ?t0)), set_task task ?t0 s)"
      using vm_space_init_spec [of "set_task task ?t0 s" "ut_address_space ?t0"] assms(1) True by auto
    with True False assms(1) show ?thesis by (simp add: eq vm_codes user_task_reset_def)
  next
    case some: False
    obtain sp' s1 where run: "vm_space_init (Some (ut_address_space ?t0)) (set_task task ?t0 s) = Inr ((VM_OK, Some sp'), s1)"
      and s1: "task_at s1 task = ?t0" "vm_root sp' \<noteq> 0"
        "building task s (set_task task ((task_at s1 task)\<lparr>ut_address_space := sp'\<rparr>) s1)"
        "pt_tables (mem s1) (vm_root sp') = {vm_root sp'}" "vm_mapping (vm_root sp') s1 = Map.empty"
        "unat (free_pages s) = Suc (unat (free_pages s1))"
      using building_space [OF assms(1) some, of task] by (elim exE conjE) (rule that)
    define u1 where "u1 = set_task task ((task_at s1 task)\<lparr>ut_address_space := sp'\<rparr>) s1"
    have tu1: "task_at u1 task = ?t0\<lparr>ut_address_space := sp'\<rparr>" by (simp add: u1_def s1(1))
    have b1: "building task s u1" using s1(3) by (simp add: u1_def)
    have inv1: "pages_inv u1" "vm_inv (vm_root (ut_address_space (task_at u1 task))) u1"
      using b1 s1(2) by (auto simp: building_def task_owns_def tu1)
    have p1: "task_pages (task_at u1 task) = {}" by (simp add: tu1 task_pages_def user_task_reset_def)
    obtain u2 where k: "\<And>k :: 'a utasks_scheme \<Rightarrow> (int \<times> 'a utasks_scheme) res.
      bindE (page_alloc u1) (\<lambda>(p, s). let s = set_task task ((task_at s task)\<lparr>ut_code_page := p\<rparr>) s in
      bindE (page_alloc s) (\<lambda>(p, s). let s = set_task task ((task_at s task)\<lparr>ut_stack_page := p\<rparr>) s in
      bindE (page_alloc s) (\<lambda>(p, s). let s = set_task task ((task_at s task)\<lparr>ut_trap_context := p\<rparr>) s in
      k s))) = k u2"
      and u2: "pages_inv u2" "task_step task u1 u2" "mem u2 = mem u1" "task_distinct (task_at u2 task)"
        "task_pages (task_at u2 task) \<subseteq> managed_frames u1 - allocated u1"
        "allocated u2 = allocated u1 \<union> task_pages (task_at u2 task)"
        "ut_address_space (task_at u2 task) = ut_address_space (task_at u1 task)"
        "ut_state (task_at u2 task) = ut_state (task_at u1 task)"
      and three: "if 3 \<le> unat (free_pages u1)
        then ut_code_page (task_at u2 task) \<noteq> 0 \<and> ut_stack_page (task_at u2 task) \<noteq> 0 \<and>
          ut_trap_context (task_at u2 task) \<noteq> 0 \<and> unat (free_pages u1) = unat (free_pages u2) + 3
        else ut_code_page (task_at u2 task) = 0 \<or> ut_stack_page (task_at u2 task) = 0 \<or>
          ut_trap_context (task_at u2 task) = 0"
      using alloc_task_pages [OF inv1(1) p1] by (elim exE conjE) (rule that, erule spec)
    have b2: "building task s u2"
      by (rule building_pages [OF b1 inv1(2) u2(3,1,2,4) p1 u2(5,6,7)])
    have root2: "vm_root (ut_address_space (task_at u2 task)) = vm_root sp'" using u2(7) by (simp add: tu1)
    have mu: "mem u2 = mem s1" using u2(3) by (simp add: u1_def)
    have vmu: "vm_mapping (vm_root sp') u2 = vm_mapping (vm_root sp') s1"
      by (rule ext) (simp add: vm_mapping_def mu)
    have root: "vm_root (ut_address_space (task_at u2 task)) \<noteq> 0"
      "pt_tables (mem u2) (vm_root (ut_address_space (task_at u2 task))) = {vm_root (ut_address_space (task_at u2 task))}"
      "vm_mapping (vm_root (ut_address_space (task_at u2 task))) u2 = Map.empty"
      using s1(2,4,5) mu vmu by (simp_all add: root2)
    note stages = init_stages_spec [OF b2 root args(1,4) assms(2)]
    have run2: "user_task_init task program n s = init_stages task program n u2"
      using run k by (simp add: eq u1_def Let_def)
    have iff: "(ut_code_page (task_at u2 task) \<noteq> 0 \<and> ut_stack_page (task_at u2 task) \<noteq> 0 \<and>
        ut_trap_context (task_at u2 task) \<noteq> 0 \<and> trampoline_ok (link s) \<and> 5 \<le> unat (free_pages u2)) =
        (trampoline_ok (link s) \<and> 9 \<le> unat (free_pages s))"
      and four: "9 \<le> unat (free_pages s) \<Longrightarrow> unat (free_pages s) = unat (free_pages u2) + 4"
    proof -
      have u: "unat (free_pages s) = Suc (unat (free_pages u1))" using s1(6) by (simp add: u1_def)
      with three show "(ut_code_page (task_at u2 task) \<noteq> 0 \<and> ut_stack_page (task_at u2 task) \<noteq> 0 \<and>
        ut_trap_context (task_at u2 task) \<noteq> 0 \<and> trampoline_ok (link s) \<and> 5 \<le> unat (free_pages u2)) =
        (trampoline_ok (link s) \<and> 9 \<le> unat (free_pages s))" by (cases "3 \<le> unat (free_pages u1)") auto
      show "9 \<le> unat (free_pages s) \<Longrightarrow> unat (free_pages s) = unat (free_pages u2) + 4" using three u by auto
    qed
    show ?thesis
      unfolding run2 if_not_P [OF False]
    proof (rule returns_mono [OF stages [unfolded iff]])
      fix r s'
      assume out: "if trampoline_ok (link s) \<and> 9 \<le> unat (free_pages s)
        then r = 0 \<and> started task program n s s' \<and> unat (free_pages u2) = unat (free_pages s') + 5
        else r = -1 \<and> untouched task s s' \<and> ut_state (task_at s' task) = USER_TASK_UNUSED"
      then have "building task s s' \<or> untouched task s s'" by (simp split: if_splits add: st)
      note p = post [OF this]
      have "pages_inv s' \<and> allocated s' = allocated s" if "untouched task s s'"
        using that by (simp add: untouched_def)
      with out p show "agree_on (in_use s) (mem s) (mem s') \<and> (\<forall>k. k \<noteq> task \<longrightarrow> task_at s' k = task_at s k) \<and>
        (if trampoline_ok (link s) \<and> 9 \<le> unat (free_pages s)
         then r = 0 \<and> started task program n s s' \<and> unat (free_pages s) = unat (free_pages s') + 9
         else r = -1 \<and> pages_inv s' \<and> allocated s' = allocated s \<and> ut_state (task_at s' task) = USER_TASK_UNUSED)"
        using four by (auto split: if_splits)
    qed
  qed
qed

text \<open>Recording an exit does not change what a task owns.\<close>

lemma exited_owns:
  fixes s :: "'a utasks_scheme"
  shows "task_pages (t\<lparr>ut_state := x, ut_exit_code := c\<rparr>) = task_pages t"
    and "task_tables (t\<lparr>ut_state := x, ut_exit_code := c\<rparr>) (set_task task t' s) = task_tables t s"
    and "task_distinct (t\<lparr>ut_state := x, ut_exit_code := c\<rparr>) = task_distinct t"
    and "task_owns t s \<Longrightarrow> task_owns (t\<lparr>ut_state := x, ut_exit_code := c\<rparr>) (set_task task t' s)"
proof -
  show pg: "task_pages (t\<lparr>ut_state := x, ut_exit_code := c\<rparr>) = task_pages t"
    and tb: "task_tables (t\<lparr>ut_state := x, ut_exit_code := c\<rparr>) (set_task task t' s) = task_tables t s"
    and ds: "task_distinct (t\<lparr>ut_state := x, ut_exit_code := c\<rparr>) = task_distinct t"
    by (simp_all add: task_pages_def task_tables_def task_distinct_def Let_def)
  show "task_owns t s \<Longrightarrow> task_owns (t\<lparr>ut_state := x, ut_exit_code := c\<rparr>) (set_task task t' s)"
    unfolding task_owns_def pg tb ds by simp
qed

section \<open>Properties\<close>

text \<open>
  C14: \<open>user_task_init\<close> always returns. Bad arguments or a task in use change
  nothing. Otherwise the start succeeds exactly when nine pages are free (the root, three
  task pages and five tables) and the trampoline is well placed, and takes these nine; then the task owns exactly
  the pages taken, its address space holds exactly the code, stack, trampoline and context
  pages with their permissions, the code page holds the program followed by zeros and the
  trap context enters it. In every case no memory in use before changes and no other task
  is affected; a failed start has given every page back.
\<close>

theorem user_task_init_correct:
  fixes s :: "'a utasks_scheme"
  assumes "pages_inv s" and "\<And>i. i < unat n \<Longrightarrow> page_base (program + of_nat i) \<in> in_use s"
  shows "returns (user_task_init task program n s) (\<lambda>r s'.
    agree_on (in_use s) (mem s) (mem s') \<and> (\<forall>k. k \<noteq> task \<longrightarrow> task_at s' k = task_at s k) \<and>
    (if task = 0 \<or> program = 0 \<or> n = 0 \<or> n > PAGE_SIZE \<or> \<not> user_task_can_init task s then r = -1 \<and> s' = s
     else if trampoline_ok (link s) \<and> 9 \<le> unat (free_pages s) then r = 0 \<and> started task program n s s' \<and> unat (free_pages s) = unat (free_pages s') + 9
     else r = -1 \<and> pages_inv s' \<and> allocated s' = allocated s \<and> ut_state (task_at s' task) = USER_TASK_UNUSED))"
  using assms by (rule user_task_init_spec)

text \<open>
  C32: \<open>user_task_destroy\<close> refuses a task that has not exited. On an exited task
  it gives back every table and page of the task and nothing else, leaves all other memory
  in use alone, and the task can be initialised again.
\<close>

theorem user_task_destroy_correct:
  fixes s :: "'a utasks_scheme"
  assumes "task_owns (task_at s task) s" and "task \<noteq> 0"
  shows "returns (user_task_destroy task s) (\<lambda>r s'.
    if ut_state (task_at s task) \<noteq> USER_TASK_EXITED then r = -1 \<and> s' = s
    else r = 0 \<and> pages_inv s' \<and> ut_state (task_at s' task) = USER_TASK_DESTROYED \<and> user_task_can_init task s' \<and>
      allocated s' = allocated s - (task_tables (task_at s task) s \<union> task_pages (task_at s task)) \<and>
      agree_on (in_use s - task_tables (task_at s task) s) (mem s) (mem s') \<and>
      (\<forall>k. k \<noteq> task \<longrightarrow> task_at s' k = task_at s k))"
proof (cases "ut_state (task_at s task) = USER_TASK_EXITED")
  case False
  then show ?thesis by (simp add: user_task_destroy_def)
next
  case True
  have "returns (user_task_release_resources task s) (\<lambda>_ s'. pages_inv s' \<and>
    task_emptied (task_at s task) (task_at s' task) \<and> (\<forall>k. k \<noteq> task \<longrightarrow> task_at s' k = task_at s k) \<and>
    allocated s' = allocated s - (task_tables (task_at s task) s \<union> task_pages (task_at s task)) \<and>
    agree_on (in_use s - task_tables (task_at s task) s) (mem s) (mem s'))"
    by (rule returns_mono [OF user_task_release_spec [OF assms(1)]]) (auto simp: task_step_fields(4))
  then show ?thesis
    using True assms(2)
    by (auto simp: user_task_destroy_def task_emptied_def user_task_can_init_def elim!: returns_mono)
qed

text \<open>
  C33: A task's whole life costs nothing: after a successful \<open>user_task_init\<close>, an
  exit and \<open>user_task_destroy\<close>, exactly the pages owned before are owned again, with
  their contents unchanged, and the task can be started again.
\<close>

theorem user_task_lifecycle:
  fixes s :: "'a utasks_scheme"
  assumes "pages_inv s" and "\<And>i. i < unat n \<Longrightarrow> page_base (program + of_nat i) \<in> in_use s"
    and "user_task_init task program n s = Inr (0, s1)"
  shows "fst (user_task_mark_exited task code s1) = 0 \<and>
    returns (user_task_destroy task (snd (user_task_mark_exited task code s1))) (\<lambda>r s'. r = 0 \<and> pages_inv s' \<and>
      allocated s' = allocated s \<and> agree_on (in_use s) (mem s) (mem s') \<and> user_task_can_init task s' \<and>
      user_task_exit_code task s' = code)"
proof -
  let ?t = "task_at s1 task" and ?s2 = "snd (user_task_mark_exited task code s1)"
  from returnsD [OF user_task_init_spec [OF assms(1,2)] assms(3)]
  have st: "started task program n s s1" and nz: "task \<noteq> 0" by (auto split: if_splits)
  then have b: "building task s s1" and ready: "user_task_is_ready task s1" by (auto simp: started_def Let_def)
  then have s2: "user_task_mark_exited task code s1 =
      (0, set_task task (?t\<lparr>ut_state := USER_TASK_EXITED, ut_exit_code := code\<rparr>) s1)"
    by (simp add: user_task_mark_exited_def)
  let ?t2 = "?t\<lparr>ut_state := USER_TASK_EXITED, ut_exit_code := code\<rparr>"
  have same: "task_pages ?t2 = task_pages ?t" "task_tables ?t2 ?s2 = task_tables ?t s1" "task_distinct ?t2 = task_distinct ?t"
    by (simp_all add: s2 exited_owns)
  have own: "task_owns (task_at ?s2 task) ?s2"
    using b by (simp add: building_def s2 exited_owns(4))
  let ?own = "task_tables ?t s1 \<union> task_pages ?t"
  have al: "allocated s1 - ?own = allocated s" using b by (auto simp: building_def)
  have sub: "in_use s \<subseteq> in_use s1 - task_tables ?t s1"
  proof -
    have "managed_frames s1 = managed_frames s" using b task_step_fields(1) unfolding building_def by blast
    moreover have "task_tables ?t s1 \<subseteq> managed_frames s1" using b allocated_subset [of s1] by (auto simp: building_def)
    ultimately show ?thesis using b by (auto simp: building_def in_use_def)
  qed
  have pages: "in_use ?s2 = in_use s1" "mem ?s2 = mem s1" "allocated ?s2 = allocated s1" by (simp_all add: s2 in_use_def)
  have rel: "returns (user_task_release_resources task ?s2) (\<lambda>_ s'. pages_inv s' \<and>
      task_emptied ?t2 (task_at s' task) \<and> allocated s' = allocated s \<and> agree_on (in_use s) (mem s) (mem s'))"
  proof (rule returns_mono [OF user_task_release_spec [OF own]], elim conjE, intro conjI)
    fix s'
    assume "pages_inv s'" "task_emptied (task_at ?s2 task) (task_at s' task)"
      "allocated s' = allocated ?s2 - (task_tables (task_at ?s2 task) ?s2 \<union> task_pages (task_at ?s2 task))"
      and ag: "agree_on (in_use ?s2 - task_tables (task_at ?s2 task) ?s2) (mem ?s2) (mem s')"
    then show "pages_inv s'" "task_emptied ?t2 (task_at s' task)" "allocated s' = allocated s"
      using same al by (simp_all add: s2)
    have "agree_on (in_use s) (mem s1) (mem s')"
      using ag same pages by (simp add: s2 agree_on_mono [OF _ sub])
    then show "agree_on (in_use s) (mem s) (mem s')" using b by (auto simp: building_def intro: agree_on_trans)
  qed
  then show ?thesis
    using nz by (auto simp: s2 user_task_destroy_def task_emptied_def user_task_can_init_def user_task_exit_code_def
        elim!: returns_mono)
qed

section \<open>A concrete task\<close>

text \<open>Sixteen pages, the program in the kernel's data section.\<close>

definition demo_utasks :: utasks where
  "demo_utasks = page_init_state 0x80010000 0x80020000
     (\<lparr>mem = (\<lambda>a. if a = 0x80002000 then 0x73 else 0), sstatus = 2, satp = 0, sfences = 0, console = [],
      cycle_at = (\<lambda>_. 0), cycle_reads = 0, link = demo_link, page_bitmap = [], page_bitmap_words = 0,
      managed_start = 0, managed_end = 0, total_pages = 0, free_pages = 0, next_free_hint = 0,
      page_allocator_initialized = False, kernel_space = \<lparr>vm_root = 0\<rparr>, kernel_satp = 0,
      user_tasks = (\<lambda>_. \<lparr>ut_state = USER_TASK_UNUSED, ut_address_space = \<lparr>vm_root = 0\<rparr>, ut_user_satp = 0,
        ut_exit_code = 0, ut_code_page = 0, ut_stack_page = 0, ut_trap_context = 0\<rparr>)\<rparr>)"

lemma demo_utasks_facts:
  "pages_inv demo_utasks" "free_pages demo_utasks = 16" "trampoline_ok (link demo_utasks)"
  "user_task_can_init 0x80002800 demo_utasks" "managed_start demo_utasks = 0x80010000"
proof -
  show "pages_inv demo_utasks"
    unfolding demo_utasks_def
    by (rule page_init_state_inv) (simp_all add: align_up_def page_base_def PAGE_MASK_def PAGE_SIZE_def demo_link_def)
  show "free_pages demo_utasks = 16" "trampoline_ok (link demo_utasks)" "user_task_can_init 0x80002800 demo_utasks"
    "managed_start demo_utasks = 0x80010000"
    by (simp_all add: demo_utasks_def page_init_state_def align_up_def page_base_def PAGE_MASK_def PAGE_SIZE_def
        demo_link_def Let_def trampoline_ok_def user_task_can_init_def task_at_def)
qed

lemma demo_program_in_use: "i < unat (4 :: u64) \<Longrightarrow> page_base (0x80002000 + of_nat i) \<in> in_use demo_utasks"
proof -
  assume i: "i < unat (4 :: u64)"
  then have "unat (of_nat i :: u64) < 4096" by (simp add: unat_of_nat)
  then have "page_base (0x80002000 + of_nat i) = 0x80002000" by (intro page_base_add) simp_all
  moreover have "0x80002000 \<notin> managed_frames demo_utasks"
    using managed_frame_props(3) [OF demo_utasks_facts(1), of "0x80002000"] demo_utasks_facts(5) by auto
  ultimately show ?thesis by (simp add: in_use_def)
qed

lemma demo_started:
  obtains s1 where "user_task_init 0x80002800 0x80002000 4 demo_utasks = Inr (0, s1)"
    and "started 0x80002800 0x80002000 4 demo_utasks s1"
  using user_task_init_spec [where task = "0x80002800" and program = "0x80002000" and n = 4, OF demo_utasks_facts(1) demo_program_in_use]
  by (rule returnsE) (auto simp: demo_utasks_facts PAGE_SIZE_def)

theorem user_task_init_correct_witness:
  "\<exists>s1. user_task_init 0x80002800 0x80002000 4 demo_utasks = Inr (0, s1) \<and>
     started 0x80002800 0x80002000 4 demo_utasks s1 \<and> user_task_is_ready 0x80002800 s1"
  using user_task_init_correct [where task = "0x80002800" and program = "0x80002000" and n = 4, OF demo_utasks_facts(1) demo_program_in_use]
  by (rule returnsE) (auto simp: demo_utasks_facts PAGE_SIZE_def started_def Let_def)

theorem user_task_destroy_correct_witness:
  "\<exists>(s :: utasks) s'. ut_state (task_at s 0x80002800) = USER_TASK_READY \<and> user_task_destroy 0x80002800 s = Inr (-1, s) \<and>
     user_task_destroy 0x80002800 (snd (user_task_mark_exited 0x80002800 7 s)) = Inr (0, s')"
proof -
  obtain s1 where st: "started 0x80002800 0x80002000 4 demo_utasks s1" by (rule demo_started)
  then have b: "task_owns (task_at s1 0x80002800) s1" "ut_state (task_at s1 0x80002800) = USER_TASK_READY"
    "user_task_is_ready 0x80002800 s1" by (auto simp: started_def Let_def building_def)
  let ?t2 = "(task_at s1 0x80002800)\<lparr>ut_state := USER_TASK_EXITED, ut_exit_code := 7\<rparr>"
  let ?s2 = "set_task 0x80002800 ?t2 s1"
  have m: "snd (user_task_mark_exited 0x80002800 7 s1) = ?s2" using b(3) by (simp add: user_task_mark_exited_def)
  have own: "task_owns (task_at ?s2 0x80002800) ?s2"
    using b(1) by (simp add: exited_owns(4))
  have "user_task_destroy 0x80002800 s1 = Inr (-1, s1)"
    using b(2) by (simp add: user_task_destroy_def)
  moreover obtain s' where "user_task_destroy 0x80002800 ?s2 = Inr (0, s')"
    using user_task_destroy_correct [OF own] by (auto elim!: returnsE)
  ultimately show ?thesis using b(2) by (intro exI [where x = s1] exI [where x = s'] conjI) (simp_all only: m)
qed

theorem user_task_lifecycle_witness:
  "\<exists>s1 s'. user_task_init 0x80002800 0x80002000 4 demo_utasks = Inr (0, s1) \<and>
     user_task_destroy 0x80002800 (snd (user_task_mark_exited 0x80002800 7 s1)) = Inr (0, s') \<and>
     allocated s' = allocated demo_utasks"
proof -
  obtain s1 where run: "user_task_init 0x80002800 0x80002000 4 demo_utasks = Inr (0, s1)" by (rule demo_started)
  from user_task_lifecycle [OF demo_utasks_facts(1) demo_program_in_use run, of 7]
  show ?thesis using run by (auto elim!: returnsE)
qed

end
