(* ===== verification/Sched_Exit.thy ===== *)
theory Sched_Exit
  imports Sched_Switch Task_Init
begin

text \<open>
  Ending the current thread, and with it the user task it runs: the one scheduler operation
  that reaches down to the address spaces and the page allocator.
\<close>

section \<open>The memory components under the scheduler\<close>

text \<open>Equal memory and equal allocator state: all the task predicates depend on.\<close>

definition same_pool :: "'a pages_scheme \<Rightarrow> 'a pages_scheme \<Rightarrow> bool" where
  "same_pool s s' \<longleftrightarrow> mem s' = mem s \<and> link s' = link s \<and> page_bitmap s' = page_bitmap s \<and>
     page_bitmap_words s' = page_bitmap_words s \<and> managed_start s' = managed_start s \<and>
     managed_end s' = managed_end s \<and> total_pages s' = total_pages s \<and> free_pages s' = free_pages s \<and>
     next_free_hint s' = next_free_hint s \<and> page_allocator_initialized s' = page_allocator_initialized s"

lemma same_pool_pages:
  assumes "same_pool s s'"
  shows "pages_inv s' = pages_inv s" "allocated s' = allocated s" "managed_frames s' = managed_frames s"
    "in_use s' = in_use s" "vm_inv root s' = vm_inv root s" "vm_mapping root s' = vm_mapping root s"
proof -
  have m: "mem s' = mem s" using assms by (simp add: same_pool_def)
  show p: "pages_inv s' = pages_inv s" "allocated s' = allocated s" "managed_frames s' = managed_frames s"
    using assms by (simp_all add: same_pool_def pages_inv_def used_pages_def allocated_def managed_frames_def
      page_addr_from_index_def)
  show "in_use s' = in_use s" unfolding in_use_def p ..
  show "vm_inv root s' = vm_inv root s" unfolding vm_inv_def p m ..
  show "vm_mapping root s' = vm_mapping root s" by (rule ext) (simp add: vm_mapping_def m)
qed

lemma same_pool_task:
  fixes s :: "'a utasks_scheme"
  assumes "same_pool s s'"
  shows "task_tables t s' = task_tables t s" "task_owns t s' = task_owns t s"
proof -
  show "task_tables t s' = task_tables t s" using assms by (simp add: task_tables_def same_pool_def Let_def)
  then show "task_owns t s' = task_owns t s" unfolding task_owns_def by (simp only: same_pool_pages [OF assms])
qed

lemma exited_pool:
  fixes s :: "'a utasks_scheme"
  assumes p: "same_pool s s'"
  shows "task_tables (t\<lparr>ut_state := x, ut_exit_code := c\<rparr>) s' = task_tables t s"
    and "task_pages (t\<lparr>ut_state := x, ut_exit_code := c\<rparr>) = task_pages t"
    and "task_owns t s \<Longrightarrow> task_owns (t\<lparr>ut_state := x, ut_exit_code := c\<rparr>) s'"
proof -
  show tb: "task_tables (t\<lparr>ut_state := x, ut_exit_code := c\<rparr>) s' = task_tables t s"
    using same_pool_task(1) [OF p] by (simp add: task_tables_def Let_def)
  show "task_pages (t\<lparr>ut_state := x, ut_exit_code := c\<rparr>) = task_pages t" by (rule exited_owns(1))
  show "task_owns t s \<Longrightarrow> task_owns (t\<lparr>ut_state := x, ut_exit_code := c\<rparr>) s'"
    unfolding task_owns_def tb exited_owns(1,3) same_pool_pages [OF p] by simp
qed

lemma same_pool_trans: "same_pool s s1 \<Longrightarrow> same_pool s1 s2 \<Longrightarrow> same_pool s s2"
  by (simp add: same_pool_def)

lemma same_pool_trace: "same_pool s (trace_emit ty a b x y s)"
  by (simp add: same_pool_def trace_emit_eq Let_def)

lemma same_pool_run: "same_pool s (make_running n s)"
  by (simp add: same_pool_def make_running_def upd_thread_def)

lemma kept_same_pool: "kept s s' \<Longrightarrow> mem s' = mem s \<Longrightarrow> same_pool s s'"
  by (simp add: kept_def same_pool_def)

text \<open>A step on a task object changes nothing of the scheduler.\<close>

lemma task_step_sched:
  fixes s :: "'a sched_scheme"
  assumes "task_step k s s'"
  shows "threads s' = threads s" "ready_queue s' = ready_queue s" "sleep_queue s' = sleep_queue s"
    "wait_queues s' = wait_queues s" "current_thread s' = current_thread s" "threads_started s' = threads_started s"
    "threads_initialized s' = threads_initialized s" "preempt_disable_depth s' = preempt_disable_depth s"
    "reschedule_requested s' = reschedule_requested s" "ticks s' = ticks s" "sstatus s' = sstatus s"
    "usercopy_probes s' = usercopy_probes s" "sched.more s' = sched.more s"
proof -
  obtain t m n bm fp h where s': "s' = s\<lparr>user_tasks := (user_tasks s)(k := t), mem := m, sfences := n,
      page_bitmap := bm, free_pages := fp, next_free_hint := h\<rparr>"
    using assms unfolding task_step_def pool_step_def set_task_def by blast
  show "threads s' = threads s" "ready_queue s' = ready_queue s" "sleep_queue s' = sleep_queue s"
    "wait_queues s' = wait_queues s" "current_thread s' = current_thread s" "threads_started s' = threads_started s"
    "threads_initialized s' = threads_initialized s" "preempt_disable_depth s' = preempt_disable_depth s"
    "reschedule_requested s' = reschedule_requested s" "ticks s' = ticks s" "sstatus s' = sstatus s"
    "usercopy_probes s' = usercopy_probes s" "sched.more s' = sched.more s"
    unfolding s' by simp_all
qed

lemma destroy_exited:
  fixes s :: "'a utasks_scheme"
  assumes own: "task_owns (task_at s task) s" and "task \<noteq> 0" and "ut_state (task_at s task) = USER_TASK_EXITED"
  shows "returns (user_task_destroy task s) (\<lambda>r s'. r = 0 \<and> pages_inv s' \<and> task_step task s s' \<and>
    ut_state (task_at s' task) = USER_TASK_DESTROYED \<and> ut_exit_code (task_at s' task) = ut_exit_code (task_at s task) \<and>
    allocated s' = allocated s - (task_tables (task_at s task) s \<union> task_pages (task_at s task)) \<and>
    agree_on (in_use s - task_tables (task_at s task) s) (mem s) (mem s'))"
proof -
  have "user_task_destroy task s = bindE (user_task_release_resources task s) (\<lambda>(_, s).
      Inr (0, set_task task ((task_at s task)\<lparr>ut_state := USER_TASK_DESTROYED\<rparr>) s))"
    using assms(2,3) by (simp add: user_task_destroy_def)
  moreover have "returns (user_task_release_resources task s) (\<lambda>_ s'. pages_inv s' \<and>
      task_step task s (set_task task ((task_at s' task)\<lparr>ut_state := USER_TASK_DESTROYED\<rparr>) s') \<and>
      ut_exit_code (task_at s' task) = ut_exit_code (task_at s task) \<and>
      allocated s' = allocated s - (task_tables (task_at s task) s \<union> task_pages (task_at s task)) \<and>
      agree_on (in_use s - task_tables (task_at s task) s) (mem s) (mem s'))"
    by (rule returns_mono [OF user_task_release_spec [OF own]])
      (auto simp: task_emptied_def intro: task_step_trans [OF _ task_step_set])
  ultimately show ?thesis by (auto elim!: returns_mono)
qed

section \<open>Exit\<close>

definition exited :: "thread \<Rightarrow> thread" where
  "exited th = th\<lparr>th_trap_frame := 0, th_kernel_sp := 0, th_quantum_ticks := 0, th_wait_reason := THREAD_WAIT_NONE,
     th_wait_queue := 0, th_in_ready_queue := False, th_in_sleep_queue := False, th_in_wait_queue := False,
     th_wake_tick := 0, th_wait_result := WAIT_OK, th_address_space := 0, th_user_task := 0, th_state := THREAD_EXITED\<rparr>"

lemma thread_ok_exited: "thread_ok c th \<Longrightarrow> thread_ok c (exited th)"
  by (simp add: thread_ok_def exited_def)

text \<open>The scheduler's part of the exit, up to the release of the task.\<close>

definition exit_thread :: "tid_t \<Rightarrow> 'a sched_scheme \<Rightarrow> 'a sched_scheme" where
  "exit_thread c s = usercopy_probe_clear c (upd_thread c exited s)"

lemma exit_thread_simps [simp]:
  "threads (exit_thread c s) = (threads s)(c := exited (threads s c))" "ready_queue (exit_thread c s) = ready_queue s"
  "sleep_queue (exit_thread c s) = sleep_queue s" "wait_queues (exit_thread c s) = wait_queues s"
  "preempt_disable_depth (exit_thread c s) = preempt_disable_depth s" "sstatus (exit_thread c s) = sstatus s"
  "ticks (exit_thread c s) = ticks s" "user_tasks (exit_thread c s) = user_tasks s" "same_pool s (exit_thread c s)"
  "threads_started (exit_thread c s) = threads_started s" "threads_initialized (exit_thread c s) = threads_initialized s"
  "sched.more (exit_thread c s) = sched.more s"
  by (simp_all add: exit_thread_def usercopy_probe_clear_def same_pool_def upd_thread_def)

lemma exit_switch_ok:
  fixes s s2 :: "'a sched_scheme"
  assumes inv: "sched_inv Q s" and cur: "current_thread s = Some c" and nz: "c \<noteq> 0"
    and s2: "threads s2 = threads s" "ready_queue s2 = ready_queue s" "sleep_queue s2 = sleep_queue s"
      "wait_queues s2 = wait_queues s"
  defines "n \<equiv> next_tid s"
  shows "\<exists>s4. pick_next_thread (exit_thread c s2) = Inr (n, s4) \<and> th_trap_frame (threads s4 n) \<noteq> 0 \<and>
    th_trap_frame (threads s4 n) = th_trap_frame (threads s n) \<and> kept (exit_thread c s2) s4 \<and>
    mem s4 = mem s2 \<and> consistent {} Q (make_running n s4) \<and>
    threads (make_running n s4) = ((threads s)(c := exited (threads s c)))(n := (threads s n)\<lparr>th_in_ready_queue := False,
      th_state := THREAD_RUNNING, th_quantum_ticks := 0\<rparr>) \<and>
    only_running (threads (make_running n s4)) (Some n) \<and> ready_list s4 = tl (ready_list s) \<and>
    sleep_list s4 = sleep_list s \<and> wait_list s4 = wait_list s \<and> n \<noteq> c"
proof -
  let ?s3 = "exit_thread c s2"
  note c = current_facts [OF inv cur]
  note real = c(5) [OF nz] and flags = c(12) [OF nz]
  have lists: "ready_list ?s3 = ready_list s" "sleep_list ?s3 = sleep_list s" "wait_list ?s3 = wait_list s"
    using s2 by (simp_all add: ready_list_def sleep_list_def wait_list_def fun_eq_iff)
  have th3: "threads ?s3 = (threads s)(c := exited (threads s c))" by (simp add: s2(1))
  have q3: "queues_ok Q ?s3"
    by (rule queues_ok_upd [OF c(10), of "exited (threads s c)" c])
      (use flags s2 in \<open>simp_all add: exited_def\<close>)
  have "consistent ({} - {c}) Q ?s3"
    by (rule consistent_upd [OF c(8) real q3 th3 thread_ok_exited [OF c(11) [OF nz]]])
  then have con: "consistent {} Q ?s3" by simp
  have idle: "only_running (threads ?s3) None"
    unfolding th3 by (rule only_running_stop [OF c(9)]) (simp add: exited_def)
  have n3: "next_tid ?s3 = n" by (simp add: n_def next_tid_def lists)
  have nc: "n \<noteq> c"
    using queues_ok_parts(1) [OF c(10)] flags nz
    by (cases "ready_list s") (auto simp: n_def next_tid_def THREAD_NULL_TID_def rinv_def)
  obtain s4 where s4: "pick_next_thread ?s3 = Inr (n, s4)" "th_trap_frame (threads s4 n) \<noteq> 0"
    "th_trap_frame (threads s4 n) = th_trap_frame (threads ?s3 n)" "mem s4 = mem ?s3" "kept ?s3 s4"
    "threads (make_running n s4) = run_next ?s3" "consistent {} Q (make_running n s4)"
    "only_running (run_next ?s3) (Some n)" "ready_list s4 = tl (ready_list ?s3)" "sleep_list s4 = sleep_list ?s3"
    "wait_list s4 = wait_list ?s3"
    using pick_next_ok [OF con idle] unfolding n3 by (elim exE conjE) (rule that)
  have run: "run_next ?s3 = ((threads s)(c := exited (threads s c)))(n := (threads s n)\<lparr>th_in_ready_queue := False,
      th_state := THREAD_RUNNING, th_quantum_ticks := 0\<rparr>)"
    using nc unfolding run_next_def n3 th3 by (simp add: fun_eq_iff)
  have "mem ?s3 = mem s2" using exit_thread_simps(9) [of s2 c] by (simp add: same_pool_def)
  with s4 run nc lists s2(1) show ?thesis by (intro exI [of _ s4]) simp
qed

text \<open>What is left of the current thread's task after the exit.\<close>

definition task_gone :: "u64 \<Rightarrow> u64 \<Rightarrow> 'a utasks_scheme \<Rightarrow> 'a utasks_scheme \<Rightarrow> bool" where
  "task_gone task code s s' \<longleftrightarrow>
     (if task = 0 then same_pool s s' \<and> user_tasks s' = user_tasks s
      else pages_inv s' \<and> ut_state (task_at s' task) = USER_TASK_DESTROYED \<and> ut_exit_code (task_at s' task) = code \<and>
        allocated s' = allocated s - (task_tables (task_at s task) s \<union> task_pages (task_at s task)) \<and>
        agree_on (in_use s - task_tables (task_at s task) s) (mem s) (mem s') \<and>
        (\<forall>k. k \<noteq> task \<longrightarrow> task_at s' k = task_at s k))"

lemma task_gone_later:
  fixes s :: "'a utasks_scheme"
  assumes g: "task_gone task code s s1" and p: "same_pool s1 s2" and u: "user_tasks s2 = user_tasks s1"
  shows "task_gone task code s s2"
proof -
  have "task_at s2 = task_at s1" "mem s2 = mem s1" using u p by (simp_all add: task_at_def same_pool_def fun_eq_iff)
  moreover have "same_pool s s1 \<Longrightarrow> same_pool s s2" by (rule same_pool_trans [OF _ p])
  ultimately show ?thesis using g unfolding task_gone_def same_pool_pages [OF p] by (simp add: u split: if_splits)
qed

definition exit_done :: "tid_t \<Rightarrow> u64 \<Rightarrow> 'a sched_scheme \<Rightarrow> 'a sched_scheme \<Rightarrow> bool" where
  "exit_done c code s s' \<longleftrightarrow> current_thread s' = Some (next_tid s) \<and>
     threads s' = ((threads s)(c := exited (threads s c)))(next_tid s := (threads s (next_tid s))\<lparr>
       th_in_ready_queue := False, th_state := THREAD_RUNNING, th_quantum_ticks := 0\<rparr>) \<and>
     ready_list s' = tl (ready_list s) \<and> sleep_list s' = sleep_list s \<and> wait_list s' = wait_list s \<and>
     ticks s' = ticks s \<and> sched.more s' = sched.more s \<and> task_gone (th_user_task (threads s c)) code s s'"

lemma exit_ok:
  fixes s :: "'a sched_scheme"
  assumes inv: "sched_inv Q s" and cur: "current_thread s = Some c" and nz: "c \<noteq> 0"
    and user: "th_user_task (threads s c) \<noteq> 0 \<Longrightarrow> load64 (frame + FRAME_MSTATUS) s AND SSTATUS_SPP = 0 \<and>
      user_task_is_ready (th_user_task (threads s c)) s \<and> task_owns (task_at s (th_user_task (threads s c))) s"
  shows "returns (switch_to_next_from_trap frame False s) (\<lambda>f s'. sched_inv Q s' \<and>
    f = th_trap_frame (threads s (next_tid s)) \<and> exit_done c (load64 (frame + FRAME_A0) s) s s')"
proof -
  note c = current_facts [OF inv cur]
  let ?task = "th_user_task (threads s c)" and ?n = "next_tid s"
  let ?v = "sstatus s AND NOT SSTATUS_SIE" and ?code = "load64 (frame + FRAME_A0) s"
  let ?s1 = "preempt_disable (s\<lparr>sstatus := ?v\<rparr>)"
  let ?t2 = "(task_at s ?task)\<lparr>ut_state := USER_TASK_EXITED, ut_exit_code := ?code\<rparr>"
  define s2 where "s2 = (if ?task = 0 then ?s1 else set_task ?task ?t2 ?s1)"
  have s2: "threads s2 = threads s" "ready_queue s2 = ready_queue s" "sleep_queue s2 = sleep_queue s"
    "wait_queues s2 = wait_queues s" "preempt_disable_depth s2 = 1" "ticks s2 = ticks s" "sstatus s2 = ?v"
    "threads_started s2" "threads_initialized s2" "same_pool s s2" "mem s2 = mem s" "sched.more s2 = sched.more s"
    using c(4,6,7) by (simp_all add: s2_def preempt_disable_def set_task_def same_pool_def)
  have t2: "?task \<noteq> 0 \<Longrightarrow> task_at s2 = (task_at s)(?task := ?t2)" "?task = 0 \<Longrightarrow> user_tasks s2 = user_tasks s"
    by (simp_all add: s2_def preempt_disable_def set_task_def task_at_def fun_eq_iff)
  obtain s4 where s4: "pick_next_thread (exit_thread c s2) = Inr (?n, s4)" "th_trap_frame (threads s4 ?n) \<noteq> 0"
    "th_trap_frame (threads s4 ?n) = th_trap_frame (threads s ?n)" "kept (exit_thread c s2) s4" "mem s4 = mem s2"
    "consistent {} Q (make_running ?n s4)"
    "threads (make_running ?n s4) = ((threads s)(c := exited (threads s c)))(?n := (threads s ?n)\<lparr>th_in_ready_queue := False,
      th_state := THREAD_RUNNING, th_quantum_ticks := 0\<rparr>)"
    "only_running (threads (make_running ?n s4)) (Some ?n)" "ready_list s4 = tl (ready_list s)"
    "sleep_list s4 = sleep_list s" "wait_list s4 = wait_list s" "?n \<noteq> c"
    using exit_switch_ok [OF inv cur nz s2(1-4)] by (elim exE conjE) (rule that)
  define s6 where "s6 = trace_emit TRACE_CONTEXT_SWITCH (th_tid (threads (make_running ?n s4) c))
      (th_tid (threads (make_running ?n s4) ?n)) 0 0
      (trace_emit TRACE_THREAD_EXIT (th_tid (threads (make_running ?n s4) c)) (th_tid (threads (make_running ?n s4) ?n)) 1 0
        (make_running ?n s4))"
  have m3: "mem (exit_thread c s2) = mem s2" using exit_thread_simps(9) [of s2 c] by (simp add: same_pool_def)
  have "same_pool s2 s4"
    by (rule same_pool_trans [OF exit_thread_simps(9) kept_same_pool [OF s4(4)]]) (simp only: s4(5) m3)
  moreover have "same_pool s4 s6" unfolding s6_def
    by (intro same_pool_trans [OF _ same_pool_trace] same_pool_run)
  ultimately have p6: "same_pool s2 s6" by (rule same_pool_trans)
  have u6: "user_tasks s6 = user_tasks s2" "sstatus s6 = ?v" "preempt_disable_depth s6 = 1" "ticks s6 = ticks s"
    "threads_started s6" "threads_initialized s6" "current_thread s6 = Some ?n" "sched.more s6 = sched.more s"
    using s4(4) s2(5-9,12) by (simp_all add: s6_def kept_def make_running_def upd_thread_def)
  have th6: "threads s6 = ((threads s)(c := exited (threads s c)))(?n := (threads s ?n)\<lparr>th_in_ready_queue := False,
      th_state := THREAD_RUNNING, th_quantum_ticks := 0\<rparr>)" using s4(7) by (simp add: s6_def)
  have l6: "ready_list s6 = tl (ready_list s)" "sleep_list s6 = sleep_list s" "wait_list s6 = wait_list s"
    using s4(9-11) by (simp_all add: s6_def)
  have con6: "consistent {} Q s6" "only_running (threads s6) (Some ?n)"
    using s4(6,8) unfolding s6_def by (simp_all add: consistent_def queues_ok_def)
  let ?D = "if ?task \<noteq> 0 then bindE (user_task_destroy ?task s6) (\<lambda>(r, s).
      if r < 0 then Inl ''user task destroy failed'' else Inr ((), s)) else Inr ((), s6)"
  have D: "returns ?D (\<lambda>_ s7. threads s7 = threads s6 \<and> ready_queue s7 = ready_queue s6 \<and> sleep_queue s7 = sleep_queue s6 \<and>
      wait_queues s7 = wait_queues s6 \<and> current_thread s7 = Some ?n \<and> sstatus s7 = ?v \<and> preempt_disable_depth s7 = 1 \<and>
      threads_started s7 \<and> threads_initialized s7 \<and> ticks s7 = ticks s \<and> sched.more s7 = sched.more s \<and> task_gone ?task ?code s s7)"
  proof (cases "?task = 0")
    case True
    then show ?thesis
      using same_pool_trans [OF s2(10) p6] t2(2) u6 by (simp add: task_gone_def)
  next
    case False
    have ta6: "task_at s6 = (task_at s)(?task := ?t2)" using u6(1) t2(1) [OF False] by (simp add: task_at_def fun_eq_iff)
    have p: "same_pool s s6" by (rule same_pool_trans [OF s2(10) p6])
    have own: "task_owns (task_at s6 ?task) s6"
      using exited_pool(3) [OF p] user [OF False] by (simp add: ta6)
    note tabs = exited_pool(1,2) [OF p, where t = "task_at s ?task" and x = USER_TASK_EXITED and c = ?code]
    have "returns (user_task_destroy ?task s6) (\<lambda>r s7. r = 0 \<and> pages_inv s7 \<and> task_step ?task s6 s7 \<and>
        ut_state (task_at s7 ?task) = USER_TASK_DESTROYED \<and> ut_exit_code (task_at s7 ?task) = ut_exit_code (task_at s6 ?task) \<and>
        allocated s7 = allocated s6 - (task_tables (task_at s6 ?task) s6 \<union> task_pages (task_at s6 ?task)) \<and>
        agree_on (in_use s6 - task_tables (task_at s6 ?task) s6) (mem s6) (mem s7))"
      by (rule destroy_exited [OF own False]) (simp add: ta6)
    then show ?thesis
    proof (rule returnsE)
      fix r s7
      assume run: "user_task_destroy ?task s6 = Inr (r, s7)" and o: "r = 0 \<and> pages_inv s7 \<and> task_step ?task s6 s7 \<and>
        ut_state (task_at s7 ?task) = USER_TASK_DESTROYED \<and> ut_exit_code (task_at s7 ?task) = ut_exit_code (task_at s6 ?task) \<and>
        allocated s7 = allocated s6 - (task_tables (task_at s6 ?task) s6 \<union> task_pages (task_at s6 ?task)) \<and>
        agree_on (in_use s6 - task_tables (task_at s6 ?task) s6) (mem s6) (mem s7)"
      then have ts: "task_step ?task s6 s7" by simp
      have "task_gone ?task ?code s s7"
        using o False tabs same_pool_pages [OF p] p task_step_fields(4) [OF ts]
        by (simp add: task_gone_def ta6 same_pool_def)
      then show ?thesis
        using run o False task_step_sched [OF ts] u6 by simp
    qed
  qed
  show ?thesis
    unfolding switch_to_next_from_trap_def
  proof (rule masked_returns_eq [where m = "bindE ?D (\<lambda>(_, s). bindE (preempt_enable s) (\<lambda>(_, s).
      Inr (th_trap_frame (threads s4 ?n), s)))"], goal_cases)
    case 1
    have ex: "exited = (\<lambda>th. th\<lparr>th_trap_frame := 0, th_kernel_sp := 0, th_quantum_ticks := 0,
        th_wait_reason := THREAD_WAIT_NONE, th_wait_queue := 0, th_in_ready_queue := False,
        th_in_sleep_queue := False, th_in_wait_queue := False, th_wake_tick := 0,
        th_wait_result := WAIT_OK, th_address_space := 0, th_user_task := 0, th_state := THREAD_EXITED\<rparr>)"
      by (simp add: exited_def fun_eq_iff)
    show ?case
    proof (cases "?task = 0")
      case True
      then have "s2 = ?s1" by (simp add: s2_def)
      then show ?thesis
        using c(2,3) nz cur True s4(1,2,12)
        by (simp add: THREAD_NULL_TID_def Let_def exit_thread_def ex s6_def)
    next
      case False
      then have "s2 = set_task ?task ?t2 ?s1" by (simp add: s2_def)
      moreover have "load64 a ?s1 = load64 a s" "user_task_is_ready ?task ?s1 = user_task_is_ready ?task s"
        "task_at ?s1 = task_at s" "threads (set_task k t ?s1) = threads s" for a k t
        by (simp_all add: preempt_disable_def load64_def user_task_is_ready_def task_at_def set_task_def fun_eq_iff)
      ultimately show ?thesis
        using c(2,3) nz cur False s4(1,2,12) user [OF False]
        by (simp add: THREAD_NULL_TID_def Let_def exit_thread_def ex s6_def user_task_mark_exited_def)
    qed
  next
    case 2
    show ?case
      unfolding returns_bind
    proof (rule returns_mono [OF D], goal_cases)
      case (1 x s7)
      then have s7: "threads s7 = threads s6" "ready_queue s7 = ready_queue s6" "sleep_queue s7 = sleep_queue s6"
        "wait_queues s7 = wait_queues s6" "current_thread s7 = Some ?n" "sstatus s7 = ?v" "preempt_disable_depth s7 = 1"
        "threads_started s7" "threads_initialized s7" "ticks s7 = ticks s" "task_gone ?task ?code s s7" "sched.more s7 = sched.more s"
        by simp_all
      let ?s = "s7\<lparr>preempt_disable_depth := 0, sstatus := sstatus s\<rparr>"
      have l7: "ready_list s7 = ready_list s6" "sleep_list s7 = sleep_list s6" "wait_list s7 = wait_list s6"
        using s7 by (simp_all add: ready_list_def sleep_list_def wait_list_def fun_eq_iff)
      have "consistent {} Q s7" using con6(1) s7 l7 by (simp add: consistent_def queues_ok_def)
      then have "sched_inv Q ?s" using con6(2) s7 by (simp add: sched_inv_def)
      moreover have "task_gone ?task ?code s ?s"
        by (rule task_gone_later [OF s7(11)]) (simp_all add: same_pool_def)
      ultimately show ?case
        using s7 s4(3) l7 l6 th6 by (simp add: preempt_enable_def exit_done_def)
    qed
  qed
qed

end
