(* ===== verification/Sched_Ops.thy ===== *)
theory Sched_Ops
  imports Sched_Exit
begin

text \<open>
  The entry points of the scheduler: what the timer interrupt, the trap handler and the other
  kernel components call, each shown to return and to keep the scheduler's invariant.
\<close>

section \<open>The tick\<close>

lemma sched_inv_upd:
  assumes inv: "sched_inv Q s" and "tid_is_real t"
    and x: "th_in_ready_queue x = th_in_ready_queue (threads s t)" "th_in_sleep_queue x = th_in_sleep_queue (threads s t)"
      "th_in_wait_queue x = th_in_wait_queue (threads s t)" "th_wait_queue x = th_wait_queue (threads s t)"
      "th_wake_tick x = th_wake_tick (threads s t)" "th_state x = th_state (threads s t)" "thread_ok t x"
    and s': "threads s' = (threads s)(t := x)" "ready_queue s' = ready_queue s" "sleep_queue s' = sleep_queue s"
      "wait_queues s' = wait_queues s" "current_thread s' = current_thread s" "threads_started s' = threads_started s"
      "preempt_disable_depth s' = preempt_disable_depth s" "threads_initialized s' = threads_initialized s"
  shows "sched_inv Q s'"
proof -
  have con: "consistent {} Q s" and run: "only_running (threads s) (current_thread s)"
    using inv by (simp_all add: sched_inv_def)
  have q: "queues_ok Q s'" by (rule queues_ok_upd [OF consistentD(1) [OF con] x(1-3)]) (use x s' in simp_all)
  have "consistent ({} - {t}) Q s'" by (rule consistent_upd [OF con assms(2) q s'(1) x(7)])
  moreover have "only_running (threads s') (current_thread s')" using run x(6) s' by (simp add: only_running_def)
  ultimately show ?thesis using inv s' by (simp add: sched_inv_def)
qed

lemma thread_ok_quantum: "thread_ok t th \<Longrightarrow> thread_ok t (th\<lparr>th_quantum_ticks := n\<rparr>)"
  by (simp add: thread_ok_def)

lemma quantum_inv:
  assumes "sched_inv Q s" and "tid_is_real t"
  shows "sched_inv Q (upd_thread t (\<lambda>th. th\<lparr>th_quantum_ticks := f th\<rparr>) s)"
    and "sched_inv Q ((upd_thread t (\<lambda>th. th\<lparr>th_quantum_ticks := f th\<rparr>) s)\<lparr>reschedule_requested := b\<rparr>)"
proof -
  have "thread_ok t (threads s t)" using assms consistentD(2) by (auto simp: sched_inv_def)
  then have ok: "thread_ok t ((threads s t)\<lparr>th_quantum_ticks := f (threads s t)\<rparr>)" by (rule thread_ok_quantum)
  show "sched_inv Q (upd_thread t (\<lambda>th. th\<lparr>th_quantum_ticks := f th\<rparr>) s)"
    by (rule sched_inv_upd [OF assms, where x = "(threads s t)\<lparr>th_quantum_ticks := f (threads s t)\<rparr>"])
      (use ok in simp_all)
  show "sched_inv Q ((upd_thread t (\<lambda>th. th\<lparr>th_quantum_ticks := f th\<rparr>) s)\<lparr>reschedule_requested := b\<rparr>)"
    by (rule sched_inv_upd [OF assms, where x = "(threads s t)\<lparr>th_quantum_ticks := f (threads s t)\<rparr>"])
      (use ok in simp_all)
qed

text \<open>Sleepers are blocked, so the running thread is not among those a tick wakes.\<close>

lemma due_blocked:
  assumes "consistent {} Q s" and "t \<in> set (due now s)"
  shows "tid_is_real t" and "th_state (threads s t) = THREAD_BLOCKED"
proof -
  have t: "tid_is_real t \<and> th_in_sleep_queue (threads s t)"
    using assms(2) queues_ok_parts(2) [OF consistentD(1) [OF assms(1)]] by (auto simp: due_def sinv_def)
  then show "tid_is_real t" by simp
  show "th_state (threads s t) = THREAD_BLOCKED"
    using consistentD(2) [OF assms(1), of t] t by (simp add: thread_ok_def)
qed

lemma woken_at_running:
  assumes "consistent {} Q s" and "only_running (threads s) c"
  shows "only_running (woken_at now s) c" and "c = Some t \<Longrightarrow> woken_at now s t = threads s t"
proof -
  have st: "th_state (woken_at now s x) = THREAD_RUNNING \<longleftrightarrow> th_state (threads s x) = THREAD_RUNNING" for x
    using due_blocked(2) [OF assms(1), of x now] by (auto simp: woken_at_def)
  then show "only_running (woken_at now s) c" using assms(2) by (simp add: only_running_def)
  show "c = Some t \<Longrightarrow> woken_at now s t = threads s t"
    using due_blocked [OF assms(1), of t now] assms(2) real_nonzero by (auto simp: woken_at_def only_running_def)
qed

text \<open>The running thread's record after a tick, and whether the tick asks for a switch.\<close>

definition ticked :: "thread \<Rightarrow> thread" where
  "ticked th = (if th_quantum_ticks th < THREAD_QUANTUM_TICKS
     then th\<lparr>th_quantum_ticks := th_quantum_ticks th + 1\<rparr> else th)"

lemma tick_ok:
  fixes s :: "'a sched_scheme"
  assumes inv: "sched_inv Q s" and cur: "current_thread s = Some c"
  shows "returns (thread_on_timer_tick s) (\<lambda>_ s'. sched_inv Q s' \<and> current_thread s' = Some c \<and>
    threads s' = (if c = 0 then woken_at (ticks s) s else (woken_at (ticks s) s)(c := ticked (threads s c))) \<and>
    ready_list s' = ready_list s @ due (ticks s) s \<and>
    sleep_list s' = filter (\<lambda>t. th_wake_tick (threads s t) > ticks s) (sleep_list s) \<and>
    (\<forall>q\<in>Q. wait_list s' q = filter (\<lambda>t. t \<notin> set (due (ticks s) s)) (wait_list s q)) \<and>
    reschedule_requested s' = (reschedule_requested s \<or>
      c \<noteq> 0 \<and> th_quantum_ticks (ticked (threads s c)) \<ge> THREAD_QUANTUM_TICKS) \<and> ticks s' = ticks s)"
proof -
  note c = current_facts [OF inv cur]
  note run = woken_at_running [OF c(8,9), where now = "ticks s"]
  show ?thesis
  proof (rule returnsE [OF wake_sleepers_ok [OF c(8), of "ticks s"]])
    fix u s1
    assume w: "wake_sleepers (ticks s) s = Inr (u, s1)" and "consistent {} Q s1 \<and> kept s s1 \<and>
      threads s1 = woken_at (ticks s) s \<and> ready_list s1 = ready_list s @ due (ticks s) s \<and>
      sleep_list s1 = filter (\<lambda>t. th_wake_tick (threads s t) > ticks s) (sleep_list s) \<and>
      (\<forall>q\<in>Q. wait_list s1 q = filter (\<lambda>t. t \<notin> set (due (ticks s) s)) (wait_list s q))"
    then have s1: "consistent {} Q s1" "kept s s1" "threads s1 = woken_at (ticks s) s"
      "ready_list s1 = ready_list s @ due (ticks s) s"
      "sleep_list s1 = filter (\<lambda>t. th_wake_tick (threads s t) > ticks s) (sleep_list s)"
      "\<forall>q\<in>Q. wait_list s1 q = filter (\<lambda>t. t \<notin> set (due (ticks s) s)) (wait_list s q)" by blast+
    have k: "current_thread s1 = Some c" "threads_started s1" "threads_initialized s1" "preempt_disable_depth s1 = 0"
      "reschedule_requested s1 = reschedule_requested s" "ticks s1 = ticks s"
      using s1(2) cur c(4,6,7) by (simp_all add: kept_def)
    have i1: "sched_inv Q s1" using s1(1) run(1) k by (simp add: sched_inv_def s1(3))
    have tc: "threads s1 c = threads s c" using run(2) s1(3) by simp
    show ?thesis
    proof (cases "c = 0")
      case True
      then show ?thesis using w s1 k i1 tc c(3,4) by (simp add: thread_on_timer_tick_def timer_ticks_def THREAD_NULL_TID_def)
    next
      case False
      let ?f = "\<lambda>th. if th_quantum_ticks th < THREAD_QUANTUM_TICKS then th_quantum_ticks th + 1 else th_quantum_ticks th"
      let ?s2 = "upd_thread c ticked s1"
      have tk: "ticked = (\<lambda>th. th\<lparr>th_quantum_ticks := ?f th\<rparr>)" by (auto simp: ticked_def fun_eq_iff)
      have body: "thread_on_timer_tick s = Inr ((), if th_quantum_ticks (ticked (threads s c)) \<ge> THREAD_QUANTUM_TICKS
          then ?s2\<lparr>reschedule_requested := True\<rparr> else ?s2)"
        using w k(1) c(2,3,4) False unfolding thread_on_timer_tick_def timer_ticks_def
        by (cases "th_quantum_ticks (threads s c) < THREAD_QUANTUM_TICKS")
          (simp_all add: THREAD_NULL_TID_def ticked_def Let_def upd_thread_def tc fun_upd_idem [where f = "threads s1", OF tc])
      have "sched_inv Q ?s2" "sched_inv Q (?s2\<lparr>reschedule_requested := True\<rparr>)"
        unfolding tk by (rule quantum_inv [OF i1 c(5) [OF False]])+
      moreover have "ready_list (?s2\<lparr>reschedule_requested := True\<rparr>) = ready_list s1"
        "sleep_list (?s2\<lparr>reschedule_requested := True\<rparr>) = sleep_list s1"
        "wait_list (?s2\<lparr>reschedule_requested := True\<rparr>) = wait_list s1"
        by (simp_all add: ready_list_def sleep_list_def wait_list_def fun_eq_iff)
      ultimately show ?thesis unfolding body using s1 k tc False by simp
    qed
  qed
qed

lemma tick_keeps:
  fixes s :: "'a sched_scheme"
  assumes inv: "sched_inv Q s" and cur: "current_thread s = Some c"
  shows "returns (thread_on_timer_tick s) (\<lambda>_ s'. next_compare s' = next_compare s \<and> mtimecmp s' = mtimecmp s \<and>
    csrs s' = csrs s \<and> sched.more s' = sched.more s)"
proof (rule returnsE [OF wake_sleepers_ok [OF current_facts(8) [OF inv cur], of "ticks s"]])
  fix u s1
  assume w: "wake_sleepers (ticks s) s = Inr (u, s1)" and k: "consistent {} Q s1 \<and> kept s s1 \<and>
    threads s1 = woken_at (ticks s) s \<and> ready_list s1 = ready_list s @ due (ticks s) s \<and>
    sleep_list s1 = filter (\<lambda>t. th_wake_tick (threads s t) > ticks s) (sleep_list s) \<and>
    (\<forall>q\<in>Q. wait_list s1 q = filter (\<lambda>t. t \<notin> set (due (ticks s) s)) (wait_list s q))"
  then have "next_compare s1 = next_compare s" "mtimecmp s1 = mtimecmp s" "csrs s1 = csrs s" "sched.more s1 = sched.more s"
    by (simp_all add: kept_def)
  then show ?thesis
    using w current_facts(4) [OF inv cur]
    by (auto simp: thread_on_timer_tick_def timer_ticks_def upd_thread_def Let_def split: option.splits)
qed

section \<open>Waking waiters\<close>

definition wake_waiters :: "tid_t set \<Rightarrow> (tid_t \<Rightarrow> thread) \<Rightarrow> tid_t \<Rightarrow> thread" where
  "wake_waiters T th t = (if t \<in> T then woken WAIT_OK (th t) else th t)"

lemma wake_one_ok:
  fixes s :: "'a sched_scheme"
  assumes inv: "sched_inv Q s" and Q: "q \<in> Q"
  shows "returns (wait_queue_wake_one q s) (\<lambda>t s'. sched_inv Q s' \<and> kept s s' \<and>
    t = (case wait_list s q of [] \<Rightarrow> THREAD_INVALID_TID | t # _ \<Rightarrow> t) \<and>
    threads s' = wake_waiters (set (take 1 (wait_list s q))) (threads s) \<and>
    ready_list s' = ready_list s @ take 1 (wait_list s q) \<and>
    sleep_list s' = filter (\<lambda>t. t \<notin> set (take 1 (wait_list s q))) (sleep_list s) \<and>
    (\<forall>q'\<in>Q. wait_list s' q' = (if q' = q then tl (wait_list s q) else wait_list s q')))"
proof -
  let ?s1 = "preempt_disable (s\<lparr>sstatus := sstatus s AND NOT SSTATUS_SIE\<rparr>)"
  have con: "consistent {} Q s" and run: "only_running (threads s) (current_thread s)" and d: "preempt_disable_depth s = 0"
    using inv by (simp_all add: sched_inv_def)
  have con1: "consistent {} Q ?s1" using con by simp
  have q0: "q \<noteq> 0" using Q queues_ok_parts(3) [OF consistentD(1) [OF con]] by (auto simp: winv_def)
  show ?thesis
  proof (cases "wait_list s q")
    case Nil
    have d1: "wait_dequeue q ?s1 = Inr (THREAD_INVALID_TID, ?s1)"
      by (rule wait_dequeue_ok(1) [OF consistentD(1) [OF con1] Q])
        (use con Nil consistentD(2) [OF con1] in \<open>auto simp: thread_ok_def\<close>)
    note e = preempt_off_on [OF d kept_refl]
    have idem: "?s1\<lparr>preempt_disable_depth := 0\<rparr> = s\<lparr>sstatus := sstatus s AND NOT SSTATUS_SIE\<rparr>"
      using d by (simp add: preempt_disable_def)
    show ?thesis
      unfolding wait_queue_wake_one_def using q0
      by simp (rule masked_returns_eq, rule refl, use inv Nil d1 e idem in \<open>simp add: wake_waiters_def fun_eq_iff\<close>)
  next
    case (Cons t ts)
    have wl: "wait_list ?s1 q = t # ts" using Cons by simp
    obtain s2 s3 where w: "wait_dequeue q ?s1 = Inr (t, s2)" "wake_blocked_thread t WAIT_OK s2 = Inr ((), s3)"
      "tid_is_real t" "th_state (threads ?s1 t) = THREAD_BLOCKED" "consistent {} Q s3" "kept ?s1 s3"
      "threads s3 = (threads ?s1)(t := woken WAIT_OK (threads ?s1 t))"
      "mem s3 = wake_mem (th_trap_frame (threads ?s1 t)) WAIT_OK (mem ?s1)" "ready_list s3 = ready_list ?s1 @ [t]"
      "sleep_list s3 = remove1 t (sleep_list ?s1)" "\<forall>q'\<in>Q. wait_list s3 q' = ((wait_list ?s1)(q := ts)) q'"
      using wake_first_waiter [OF con1 Q wl] by (elim exE conjE) (rule that)
    note e = preempt_off_on [OF d w(6)]
    let ?s4 = "s3\<lparr>preempt_disable_depth := 0, sstatus := sstatus s\<rparr>"
    have run4: "only_running (threads ?s4) (current_thread s)"
      using only_running_woken [OF run, of t "woken WAIT_OK (threads s t)"] w(4,7) by simp
    have i4: "sched_inv Q ?s4"
      using inv e(2) run4 w(5) by (simp add: sched_inv_def kept_def)
    have ds: "distinct (sleep_list s)" using queues_ok_parts(2) [OF consistentD(1) [OF con]] by (simp add: sinv_def)
    then have sl: "remove1 t (sleep_list s) = filter (\<lambda>x. x \<noteq> t) (sleep_list s)" 
      by (simp add: distinct_remove1_removeAll removeAll_filter_not_eq eq_commute)
    have th: "(threads s)(t := woken WAIT_OK (threads s t)) = wake_waiters {t} (threads s)" by (auto simp: wake_waiters_def fun_eq_iff)
    show ?thesis
      unfolding wait_queue_wake_one_def using q0
      by simp (rule masked_returns_eq, rule refl,
        use i4 Cons w e real_nonzero [OF w(3)] sl th in \<open>auto\<close>)
  qed
qed

lemma wake_all_ok:
  fixes s :: "'a sched_scheme"
  assumes inv: "sched_inv Q s" and Q: "q \<in> Q"
  shows "returns (wait_queue_wake_all q s) (\<lambda>_ s'. sched_inv Q s' \<and> kept s s' \<and>
    threads s' = wake_waiters (set (wait_list s q)) (threads s) \<and> ready_list s' = ready_list s @ wait_list s q \<and>
    sleep_list s' = filter (\<lambda>t. t \<notin> set (wait_list s q)) (sleep_list s) \<and>
    (\<forall>q'\<in>Q. wait_list s' q' = (if q' = q then [] else wait_list s q')) \<and>
    mem s' = wake_all_mem (threads s) (wait_list s q) (mem s))"
proof -
  let ?s1 = "preempt_disable (s\<lparr>sstatus := sstatus s AND NOT SSTATUS_SIE\<rparr>)"
  have con: "consistent {} Q ?s1" and run: "only_running (threads ?s1) (current_thread s)" and d: "preempt_disable_depth s = 0"
    using inv by (simp_all add: sched_inv_def)
  have q0: "q \<noteq> 0" using Q queues_ok_parts(3) [OF consistentD(1) [OF con]] by (auto simp: winv_def)
  show ?thesis
    unfolding wait_queue_wake_all_def if_not_P [OF q0]
  proof (rule masked_returns_eq [OF refl], unfold returns_bind, rule returns_mono [OF wake_all_loop_ok [OF con Q run]], goal_cases)
    case (1 x s2)
    then have s2: "consistent {} Q s2" "kept ?s1 s2" "only_running (threads s2) (current_thread s)"
      "threads s2 = wake_waiters (set (wait_list s q)) (threads s)" "ready_list s2 = ready_list s @ wait_list s q"
      "sleep_list s2 = filter (\<lambda>t. t \<notin> set (wait_list s q)) (sleep_list s)"
      "\<forall>q'\<in>Q. wait_list s2 q' = (if q' = q then [] else wait_list s q')"
      "mem s2 = wake_all_mem (threads s) (wait_list s q) (mem s)"
      by (simp_all add: wake_waiters_def fun_eq_iff)
    note e = preempt_off_on [OF d s2(2)]
    have "sched_inv Q (s2\<lparr>preempt_disable_depth := 0, sstatus := sstatus s\<rparr>)"
      using inv e(2) s2(1,3) by (simp add: sched_inv_def kept_def)
    with s2 e show ?case by simp
  qed
qed

section \<open>Giving up the processor\<close>

text \<open>
  After a yield by \<open>c\<close>: with nobody ready the thread goes on with a fresh quantum;
  otherwise the first ready thread runs and \<open>c\<close>, unless it is the null thread, is the
  last one in line.
\<close>

definition yield_done :: "tid_t \<Rightarrow> u64 \<Rightarrow> 'a sched_scheme \<Rightarrow> u64 \<Rightarrow> 'a sched_scheme \<Rightarrow> bool" where
  "yield_done c frame s f s' \<longleftrightarrow> sleep_list s' = sleep_list s \<and> wait_list s' = wait_list s \<and> mem s' = mem s \<and>
     ticks s' = ticks s \<and> sched.more s' = sched.more s \<and>
     (case ready_list s of
        [] \<Rightarrow> f = frame \<and> current_thread s' = Some c \<and> ready_list s' = [] \<and>
          threads s' = (threads s)(c := (threads s c)\<lparr>th_quantum_ticks := 0\<rparr>)
      | n # ts \<Rightarrow> f = th_trap_frame (threads s n) \<and> current_thread s' = Some n \<and>
          ready_list s' = ts @ (if c = 0 then [] else [c]) \<and> \<not> reschedule_requested s' \<and>
          threads s' = (threads s)(c := (if c = 0 then null_left else preempted) frame (load64 (frame + FRAME_SP) s) (threads s c),
            n := (threads s n)\<lparr>th_in_ready_queue := False, th_state := THREAD_RUNNING, th_quantum_ticks := 0\<rparr>))"

lemma ready_empty_list: "queues_ok Q s \<Longrightarrow> ready_empty s \<longleftrightarrow> ready_list s = []"
  using queues_ok_parts(4) [of Q s]
  by (auto simp: ready_empty_def tid_queue_empty_def ready_list_def tq_items_def ring_def unat_eq_0)

lemma ready_other:
  assumes "sched_inv Q s" and "current_thread s = Some c" and "ready_list s = n # ts"
  shows "n \<noteq> c" and "tid_is_real n"
proof -
  note c = current_facts [OF assms(1,2)]
  have n: "tid_is_real n \<and> th_in_ready_queue (threads s n)"
    using queues_ok_parts(1) [OF c(10)] assms(3) by (auto simp: rinv_def)
  then show "tid_is_real n" by simp
  then have "n \<noteq> 0" using real_nonzero by blast
  then show "n \<noteq> c" using n c(12) by metis
qed

lemma kept_leftD:
  assumes "left_cpu s s4 s'"
  shows "current_thread s' = Some (next_tid s4)" "threads s' = run_next s4" "ready_list s' = tl (ready_list s4)"
    "sleep_list s' = sleep_list s4" "wait_list s' = wait_list s4" "mem s' = mem s4" "\<not> reschedule_requested s'"
    "ticks s' = ticks s" "sched.more s' = sched.more s"
  using assms by (simp_all add: left_cpu_def kept_def)

lemma yield_ok:
  fixes s :: "'a sched_scheme"
  assumes inv: "sched_inv Q s" and cur: "current_thread s = Some c" and frame: "frame \<noteq> 0"
  shows "returns (thread_yield_current_from_trap frame s) (\<lambda>f s'. sched_inv Q s' \<and> yield_done c frame s f s')"
proof (cases "ready_list s")
  case Nil
  note c = current_facts [OF inv cur]
  have e: "thread_yield_current_from_trap frame s = Inr (frame, upd_thread c (\<lambda>th. th\<lparr>th_quantum_ticks := 0\<rparr>) s)"
    using c(4) Nil cur by (simp add: thread_yield_current_from_trap_def ready_empty_list [OF c(10)])
  have "sched_inv Q (upd_thread c (\<lambda>th. th\<lparr>th_quantum_ticks := 0\<rparr>) s)"
  proof (cases "c = 0")
    case True
    have "queues_ok Q (upd_thread 0 (\<lambda>th. th\<lparr>th_quantum_ticks := 0\<rparr>) s)"
      by (rule queues_ok_upd [OF c(10), where t = 0 and x = "(threads s 0)\<lparr>th_quantum_ticks := 0\<rparr>"]) simp_all
    then show ?thesis
      using inv True real_nonzero by (auto simp: sched_inv_def consistent_def null_ok_def only_running_def)
  next
    case False
    show ?thesis by (rule quantum_inv(1) [OF inv c(5) [OF False]])
  qed
  then show ?thesis unfolding e using Nil cur by (simp add: yield_done_def)
next
  case (Cons n ts)
  note c = current_facts [OF inv cur]
  note other = ready_other [OF inv cur Cons]
  have n0: "n \<noteq> 0" using other(2) real_nonzero by blast
  show ?thesis
  proof (cases "c = 0")
    case True
    have e: "thread_yield_current_from_trap frame s = switch_null_to_next_from_trap frame s"
      using c(3,4) Cons cur True by (simp add: thread_yield_current_from_trap_def ready_empty_list [OF c(10)] THREAD_NULL_TID_def)
    show ?thesis
      unfolding e
    proof (rule returns_mono [OF null_switch_ok [OF inv _ frame]], goal_cases)
      case (3 f s')
      then obtain s4 where i: "sched_inv Q s'" and l: "left_cpu s s4 s'" and s4: "f = th_trap_frame (threads s4 (next_tid s4))"
        "mem s4 = mem s" "threads s4 = (threads s)(0 := null_left frame (load64 (frame + FRAME_SP) s) (threads s 0))"
        "ready_list s4 = ready_list s" "wait_list s4 = wait_list s" "sleep_list s4 = sleep_list s"
        by (elim exE conjE) (rule that)
      have "next_tid s4 = n" using s4(4) Cons by (simp add: next_tid_def)
      with i kept_leftD [OF l] s4 Cons True n0 show ?case by (simp add: yield_done_def run_next_def)
    qed (use cur True Cons in simp_all)
  next
    case False
    have e: "thread_yield_current_from_trap frame s = switch_to_next_from_trap frame True s"
      using c(3,4) Cons cur False by (simp add: thread_yield_current_from_trap_def ready_empty_list [OF c(10)] THREAD_NULL_TID_def)
    show ?thesis
      unfolding e
    proof (rule returns_mono [OF requeue_ok [OF inv cur False frame]], goal_cases)
      case (1 f s')
      then obtain s4 where i: "sched_inv Q s'" and l: "left_cpu s s4 s'" and s4: "f = th_trap_frame (threads s4 (next_tid s4))"
        "mem s4 = mem s" "threads s4 = (threads s)(c := preempted frame (load64 (frame + FRAME_SP) s) (threads s c))"
        "ready_list s4 = ready_list s @ [c]" "wait_list s4 = wait_list s" "sleep_list s4 = sleep_list s"
        by (elim exE conjE) (rule that)
      have "next_tid s4 = n" using s4(4) Cons by (simp add: next_tid_def)
      with i kept_leftD [OF l] s4 Cons False other(1) show ?case by (simp add: yield_done_def run_next_def)
    qed
  qed
qed

text \<open>A sleep of zero ticks is a yield; any other one puts the thread among the sleepers.\<close>

definition sleep_done :: "tid_t \<Rightarrow> u64 \<Rightarrow> u64 \<Rightarrow> 'a sched_scheme \<Rightarrow> u64 \<Rightarrow> 'a sched_scheme \<Rightarrow> bool" where
  "sleep_done c frame n s f s' \<longleftrightarrow> f = th_trap_frame (threads s (next_tid s)) \<and> current_thread s' = Some (next_tid s) \<and>
     \<not> reschedule_requested s' \<and> ready_list s' = tl (ready_list s) \<and> wait_list s' = wait_list s \<and> mem s' = mem s \<and>
     sleep_list s' = insert_sleeper (\<lambda>t. if t = c then ticks s + n else th_wake_tick (threads s t)) c (sleep_list s) \<and>
     threads s' = (threads s)(c := sleeping frame (load64 (frame + FRAME_SP) s) (ticks s + n) (threads s c),
       next_tid s := (threads s (next_tid s))\<lparr>th_in_ready_queue := False, th_state := THREAD_RUNNING, th_quantum_ticks := 0\<rparr>) \<and>
     ticks s' = ticks s \<and> sched.more s' = sched.more s"

lemma next_other:
  assumes "sched_inv Q s" and "current_thread s = Some c" and "c \<noteq> 0"
  shows "next_tid s \<noteq> c"
  using ready_other(1) [OF assms(1,2)] assms(3)
  by (cases "ready_list s") (auto simp: next_tid_def THREAD_NULL_TID_def)

lemma sleep_ok:
  fixes s :: "'a sched_scheme"
  assumes inv: "sched_inv Q s" and cur: "current_thread s = Some c" and nz: "c \<noteq> 0" and frame: "frame \<noteq> 0"
  shows "returns (thread_sleep_current_from_trap frame n s) (\<lambda>f s'. sched_inv Q s' \<and>
    (if n = 0 then yield_done c frame s f s' else sleep_done c frame n s f s'))"
proof -
  note c = current_facts [OF inv cur]
  show ?thesis
  proof (cases "n = 0")
    case True
    then have e: "thread_sleep_current_from_trap frame n s = thread_yield_current_from_trap frame s"
      using c(3,4) cur nz by (simp add: thread_sleep_current_from_trap_def THREAD_NULL_TID_def)
    show ?thesis unfolding e using True yield_ok [OF inv cur frame] by simp
  next
    case False
    then have e: "thread_sleep_current_from_trap frame n s = sleep_current_from_trap frame n s"
      using c(3,4) cur nz by (simp add: thread_sleep_current_from_trap_def THREAD_NULL_TID_def)
    show ?thesis
      unfolding e
    proof (rule returns_mono [OF sleep_current_ok [OF inv cur nz frame]], goal_cases)
      case (1 f s')
      then obtain s4 where i: "sched_inv Q s'" and l: "left_cpu s s4 s'" and s4: "f = th_trap_frame (threads s4 (next_tid s4))"
        "mem s4 = mem s" "threads s4 = (threads s)(c := sleeping frame (load64 (frame + FRAME_SP) s) (ticks s + n) (threads s c))"
        "ready_list s4 = ready_list s" "wait_list s4 = wait_list s"
        "sleep_list s4 = insert_sleeper (\<lambda>t. if t = c then ticks s + n else th_wake_tick (threads s t)) c (sleep_list s)"
        by (elim exE conjE) (rule that)
      have "next_tid s4 = next_tid s" using s4(4) by (simp add: next_tid_def)
      with i kept_leftD [OF l] s4 False next_other [OF inv cur nz] show ?case by (simp add: sleep_done_def run_next_def)
    qed
  qed
qed

definition block_done :: "tid_t \<Rightarrow> u64 \<Rightarrow> u64 \<Rightarrow> u64 \<Rightarrow> 'a sched_scheme \<Rightarrow> u64 \<Rightarrow> 'a sched_scheme \<Rightarrow> bool" where
  "block_done c frame q n s f s' \<longleftrightarrow> f = th_trap_frame (threads s (next_tid s)) \<and> current_thread s' = Some (next_tid s) \<and>
     \<not> reschedule_requested s' \<and> ready_list s' = tl (ready_list s) \<and> mem s' = mem s \<and>
     wait_list s' = (wait_list s)(q := wait_list s q @ [c]) \<and>
     sleep_list s' = (if n = 0 then sleep_list s
       else insert_sleeper (\<lambda>t. if t = c then ticks s + n else th_wake_tick (threads s t)) c (sleep_list s)) \<and>
     threads s' = (threads s)(c := waiting frame (load64 (frame + FRAME_SP) s) q n (ticks s) (threads s c),
       next_tid s := (threads s (next_tid s))\<lparr>th_in_ready_queue := False, th_state := THREAD_RUNNING, th_quantum_ticks := 0\<rparr>) \<and>
     ticks s' = ticks s \<and> sched.more s' = sched.more s"

lemma block_ok:
  fixes s :: "'a sched_scheme"
  assumes inv: "sched_inv Q s" and cur: "current_thread s = Some c" and nz: "c \<noteq> 0" and frame: "frame \<noteq> 0" and Q: "q \<in> Q"
  shows "returns (block_current_from_trap frame q n s) (\<lambda>f s'. sched_inv Q s' \<and> block_done c frame q n s f s')"
proof (rule returns_mono [OF block_current_ok [OF assms]], goal_cases)
  case (1 f s')
  then obtain s4 where i: "sched_inv Q s'" and l: "left_cpu s s4 s'" and s4: "f = th_trap_frame (threads s4 (next_tid s4))"
    "mem s4 = mem s" "threads s4 = (threads s)(c := waiting frame (load64 (frame + FRAME_SP) s) q n (ticks s) (threads s c))"
    "ready_list s4 = ready_list s" "wait_list s4 = (wait_list s)(q := wait_list s q @ [c])"
    "sleep_list s4 = (if n = 0 then sleep_list s
        else insert_sleeper (\<lambda>t. if t = c then ticks s + n else th_wake_tick (threads s t)) c (sleep_list s))"
    by (elim exE conjE) (rule that)
  have n: "next_tid s4 = next_tid s" using s4(4) by (simp add: next_tid_def)
  have nc: "next_tid s \<noteq> c" by (rule next_other [OF inv cur nz])
  have "threads s' = (threads s)(c := waiting frame (load64 (frame + FRAME_SP) s) q n (ticks s) (threads s c),
       next_tid s := (threads s (next_tid s))\<lparr>th_in_ready_queue := False, th_state := THREAD_RUNNING, th_quantum_ticks := 0\<rparr>)"
    unfolding kept_leftD(2) [OF l] run_next_def n s4(3) using nc by simp
  with i kept_leftD [OF l] s4 n nc show ?case by (simp add: block_done_def)
qed

text \<open>Preemption happens only when it was asked for, and never to the null thread.\<close>

definition preempt_done :: "tid_t \<Rightarrow> u64 \<Rightarrow> 'a sched_scheme \<Rightarrow> u64 \<Rightarrow> 'a sched_scheme \<Rightarrow> bool" where
  "preempt_done c frame s f s' \<longleftrightarrow>
     (if reschedule_requested s \<and> c \<noteq> 0 then yield_done c frame s f s' \<and> \<not> reschedule_requested s'
      else f = frame \<and> s' = s)"

lemma preempt_ok:
  fixes s :: "'a sched_scheme"
  assumes inv: "sched_inv Q s" and cur: "current_thread s = Some c" and frame: "frame \<noteq> 0"
  shows "returns (thread_maybe_preempt_from_trap frame s) (\<lambda>f s'. sched_inv Q s' \<and> preempt_done c frame s f s')"
proof -
  note c = current_facts [OF inv cur]
  consider (none) "\<not> reschedule_requested s \<or> c = 0" | (alone) "reschedule_requested s" "c \<noteq> 0" "ready_list s = []"
    | (switch) "reschedule_requested s" "c \<noteq> 0" "ready_list s \<noteq> []" by blast
  then show ?thesis
  proof cases
    case none
    then show ?thesis
      using inv cur c(3,4)
      by (auto simp: thread_maybe_preempt_from_trap_def current_is_preemptible_def preempt_done_def THREAD_NULL_TID_def)
  next
    case alone
    have e: "thread_maybe_preempt_from_trap frame s =
        Inr (frame, (upd_thread c (\<lambda>th. th\<lparr>th_quantum_ticks := 0\<rparr>) s)\<lparr>reschedule_requested := False\<rparr>)"
      using alone c(3,4) cur
      by (simp add: thread_maybe_preempt_from_trap_def current_is_preemptible_def THREAD_NULL_TID_def ready_empty_list [OF c(10)])
    have l: "ready_list (s\<lparr>reschedule_requested := False\<rparr>) = ready_list s" "sleep_list (s\<lparr>reschedule_requested := False\<rparr>) = sleep_list s"
      "wait_list (s\<lparr>reschedule_requested := False\<rparr>) = wait_list s" for s :: "'a sched_scheme"
      by (simp_all add: ready_list_def sleep_list_def wait_list_def fun_eq_iff)
    show ?thesis
      unfolding e using quantum_inv(2) [OF inv c(5) [OF alone(2)]] alone cur
      by (simp add: preempt_done_def yield_done_def l)
  next
    case switch
    have e: "thread_maybe_preempt_from_trap frame s = thread_yield_current_from_trap frame s"
      using switch c(2,3,4,6) cur
      by (simp add: thread_maybe_preempt_from_trap_def current_is_preemptible_def thread_yield_current_from_trap_def
          THREAD_NULL_TID_def ready_empty_list [OF c(10)])
    show ?thesis
      unfolding e
      by (rule returns_mono [OF yield_ok [OF inv cur frame]])
        (use switch in \<open>auto simp: preempt_done_def yield_done_def split: list.splits\<close>)
  qed
qed

end
