(* ===== verification/Sched_Create.thy ===== *)
theory Sched_Create
  imports Sched_Ops
begin

text \<open>
  Bringing the scheduler up: initialisation, creating kernel and user threads, wait queues, and
  the start.
\<close>

section \<open>Thread stacks and initial frames\<close>

text \<open>The stack area ends inside the address space.\<close>

definition stacks_ok :: "linker \<Rightarrow> bool" where
  "stacks_ok l \<longleftrightarrow> unat (thread_stacks_base l) + THREAD_MAX * 4096 < 2 ^ 64"

definition initial_frame :: "linker \<Rightarrow> tid_t \<Rightarrow> u64" where
  "initial_frame l t = align_down (align_down (thread_stacks_base l + ucast t * THREAD_STACK_SIZE + THREAD_STACK_SIZE) 16
     - TRAP_FRAME_STACK_SIZE) 16"

lemma unat_align16: "unat (align_down x 16) = unat x - unat x mod 16"
proof -
  have "align_down x 16 = x AND NOT (mask 4)" by (simp add: align_down_def mask_eq_exp_minus_1)
  then show ?thesis by (simp add: unat_and_not_mask)
qed

lemma initial_frame_ok:
  assumes "stacks_ok l" and "tid_is_valid t"
  shows "initial_frame l t \<noteq> 0" and "unat (initial_frame l t) mod 16 = 0"
    and "align_down (thread_stacks_base l + ucast t * THREAD_STACK_SIZE + THREAD_STACK_SIZE) 16 \<noteq> 0"
proof -
  let ?x = "thread_stacks_base l + ucast t * THREAD_STACK_SIZE + THREAD_STACK_SIZE"
  have t8: "unat t < 8" using assms(2) by (simp add: tid_is_valid_def THREAD_MAX_def)
  then have t: "unat (ucast t :: u64) = unat t" "unat t < 8" by (simp_all add: unsigned_ucast_eq take_bit_nat_def)
  have m: "unat (ucast t * THREAD_STACK_SIZE :: u64) = unat t * 4096"
    using t by (simp add: unat_word_ariths THREAD_STACK_SIZE_def)
  have x: "unat ?x = unat (thread_stacks_base l) + unat t * 4096 + 4096"
    using assms(1) t(2) m by (simp add: unat_word_ariths THREAD_STACK_SIZE_def stacks_ok_def THREAD_MAX_def)
  have a: "unat (align_down ?x 16) \<ge> 4080" using x by (simp add: unat_align16)
  then show "align_down ?x 16 \<noteq> 0" by auto
  have "TRAP_FRAME_STACK_SIZE \<le> align_down ?x 16" using a by (simp add: TRAP_FRAME_STACK_SIZE_def word_le_nat_alt)
  then have "unat (align_down ?x 16 - TRAP_FRAME_STACK_SIZE) \<ge> 3792" using a by (simp add: unat_sub TRAP_FRAME_STACK_SIZE_def)
  then have "unat (initial_frame l t) \<ge> 3776" by (simp add: initial_frame_def unat_align16)
  then show "initial_frame l t \<noteq> 0" by auto
  show "unat (initial_frame l t) mod 16 = 0" unfolding initial_frame_def unat_align16 by (metis minus_mod_eq_div_mult mod_mult_self2_is_0)
qed

text \<open>The words of a new thread's frame.\<close>

definition initial_word :: "linker \<Rightarrow> tid_t \<Rightarrow> nat \<Rightarrow> u64" where
  "initial_word l t i = (if i = 1 then align_down (thread_stacks_base l + ucast t * THREAD_STACK_SIZE + THREAD_STACK_SIZE) 16
     else if i = 31 then thread_trampoline_addr l else if i = 32 then SSTATUS_SPP OR SSTATUS_SPIE else 0)"

lemma word_addr:
  assumes "unat (p :: u64) mod 8 = 0"
  shows "unat (p + 8 * of_nat k) mod 8 = 0"
    and "i < 100 \<Longrightarrow> k < 100 \<Longrightarrow> p + 8 * of_nat i = p + 8 * of_nat k \<longleftrightarrow> i = k"
proof -
  have "unat (8 * of_nat k :: u64) mod 8 = 0" by (simp add: unat_word_ariths mod_mod_cancel)
  then have "(unat p + unat (8 * of_nat k :: u64)) mod 8 = 0" using assms by (simp add: mod_add_eq [symmetric])
  then show "unat (p + 8 * of_nat k) mod 8 = 0" 
    by (simp only: unat_word_ariths(1)) (simp add: mod_mod_cancel)
  show "i < 100 \<Longrightarrow> k < 100 \<Longrightarrow> p + 8 * of_nat i = p + 8 * of_nat k \<longleftrightarrow> i = k"
    by (simp only: add_left_cancel) (simp add: word_unat_eq_iff unat_word_ariths unat_of_nat)
qed

lemma read_word_write:
  assumes "unat p mod 8 = 0" and "i < 100" and "k < 100"
  shows "read64 (write64 m (p + 8 * of_nat k) v) (p + 8 * of_nat i) = (if i = k then v else read64 m (p + 8 * of_nat i))"
  using word_addr(2) [OF assms] by (auto simp: cell64.rd_wr intro: cell64.rd_wr_aligned word_addr(1) [OF assms(1)])

lemma write_word_outside:
  fixes m :: memory
  assumes "k < n" and "n < 100" and "8 * n \<le> unat (a - p)"
  shows "write64 m (p + 8 * of_nat k) v a = m a"
proof (rule cell64.wr_outside)
  fix i :: nat
  assume i: "i < 8"
  show "a \<noteq> p + 8 * of_nat k + of_nat i"
  proof
    assume "a = p + 8 * of_nat k + of_nat i"
    then have "a - p = of_nat (8 * k + i)" by simp
    then have "unat (a - p) = 8 * k + i" using assms(1,2) i by (simp add: unat_of_nat del: of_nat_add of_nat_mult)
    then show False using assms i by simp
  qed
qed

definition zero_words :: "u64 \<Rightarrow> nat \<Rightarrow> memory \<Rightarrow> memory" where
  "zero_words p n m = fold (\<lambda>i m. write64 m (p + 8 * of_nat i) 0) [0..<n] m"

lemma fold_store64: "fold (\<lambda>i. store64 (p + 8 * of_nat i) 0) [0..<n] s = s\<lparr>mem := zero_words p n (mem s)\<rparr>"
  by (induction n) (simp_all add: store64_def zero_words_def)

lemma zero_words_read:
  assumes "unat p mod 8 = 0" and "i < n" and "n < 100"
  shows "read64 (zero_words p n m) (p + 8 * of_nat i) = 0"
  using assms(2,3)
proof (induction n)
  case (Suc n)
  then show ?case using read_word_write [OF assms(1), of i n] by (auto simp: zero_words_def)
qed simp

lemma zero_words_outside:
  assumes "n < 100" and "8 * n \<le> unat (a - p)"
  shows "zero_words p n m a = m a"
  using assms
proof (induction n)
  case (Suc n)
  then show ?case using write_word_outside [of n "Suc n" a p] by (simp add: zero_words_def)
qed (simp add: zero_words_def)

text \<open>A new frame in memory, and nothing else changed.\<close>

definition new_frame :: "linker \<Rightarrow> tid_t \<Rightarrow> memory \<Rightarrow> memory \<Rightarrow> bool" where
  "new_frame l t m m' \<longleftrightarrow> (\<forall>i<35. read64 m' (initial_frame l t + 8 * of_nat i) = initial_word l t i) \<and>
     (\<forall>a. 280 \<le> unat (a - initial_frame l t) \<longrightarrow> m' a = m a)"

lemma prepare_ok:
  assumes l: "stacks_ok (link s)" and t: "tid_is_valid t" and "th_tid (threads s t) = t"
  shows "\<exists>m. prepare_initial_trap_frame t s = (upd_thread t (\<lambda>th. th\<lparr>th_kernel_sp := initial_word (link s) t 1,
      th_trap_frame := initial_frame (link s) t\<rparr>) s)\<lparr>mem := m\<rparr> \<and> new_frame (link s) t (mem s) m"
proof -
  let ?f = "initial_frame (link s) t" and ?sp = "initial_word (link s) t 1"
  let ?m = "write64 (write64 (write64 (zero_words ?f 35 (mem s)) (?f + FRAME_SP) ?sp)
      (?f + FRAME_MEPC) (thread_trampoline_addr (link s))) (?f + FRAME_MSTATUS) (SSTATUS_SPP OR SSTATUS_SPIE)"
  have f8: "unat ?f mod 8 = 0"
    using initial_frame_ok(2) [OF l t] mod_mod_cancel [of 8 16 "unat ?f"] by simp
  have off: "?f + FRAME_SP = ?f + 8" "?f + FRAME_MEPC = ?f + 248" "?f + FRAME_MSTATUS = ?f + 256"
    by (simp_all add: FRAME_SP_def FRAME_MEPC_def FRAME_MSTATUS_def)
  have rd: "read64 ?m (?f + 8 * of_nat i) = initial_word (link s) t i" if "i < 35" for i
  proof -
    have i: "i < 100" using that by simp
    show ?thesis
      unfolding off read_word_write [OF f8 i, of 1, simplified] read_word_write [OF f8 i, of 31, simplified]
        read_word_write [OF f8 i, of 32, simplified]
      using zero_words_read [OF f8 that] by (simp add: initial_word_def)
  qed
  have out: "?m a = mem s a" if "280 \<le> unat (a - ?f)" for a
    using that write_word_outside [of 1 35 a ?f] write_word_outside [of 31 35 a ?f] write_word_outside [of 32 35 a ?f]
    by (simp add: off zero_words_outside)
  have rd1: "read64 ?m (?f + FRAME_SP) = ?sp" using rd [of 1] off(1) by simp
  have top: "thread_stack_top t s = ?sp" by (simp add: thread_stack_top_def initial_word_def)
  have fr: "align_down (?sp - TRAP_FRAME_STACK_SIZE) 16 = ?f" by (simp add: initial_frame_def initial_word_def)
  have "prepare_initial_trap_frame t s = (upd_thread t (\<lambda>th. th\<lparr>th_kernel_sp := ?sp, th_trap_frame := ?f\<rparr>) s)\<lparr>mem := ?m\<rparr>"
    unfolding prepare_initial_trap_frame_def Let_def assms(3) top fr fold_store64
    using rd1 by (simp add: store64_def load64_def upd_thread_def)
  with rd out show ?thesis unfolding new_frame_def by blast
qed

section \<open>Creating threads\<close>

lemma all_tids_tl: "set (tl all_tids) = {t. tid_is_real t}"
  by (auto simp: all_tids_def real_iff)

definition is_free :: "thread \<Rightarrow> bool" where
  "is_free th \<longleftrightarrow> th_state th \<in> {THREAD_UNUSED, THREAD_EXITED}"

lemma sorted_tids: "sorted (tl all_tids)" "distinct (tl all_tids)"
  by (simp_all add: all_tids_def)

lemma free_slot_find: "free_slot s = find (\<lambda>t. is_free (threads s t)) (tl all_tids)"
  by (simp add: free_slot_def is_free_def cong: if_cong)

text \<open>The search returns the least free slot, and misses none.\<close>

lemma free_slot_Some:
  assumes "free_slot s = Some t"
  shows "tid_is_real t" and "is_free (threads s t)" and "\<forall>u. tid_is_real u \<longrightarrow> u < t \<longrightarrow> \<not> is_free (threads s u)"
proof -
  obtain i where i: "i < length (tl all_tids)" "is_free (threads s (tl all_tids ! i))" "t = tl all_tids ! i"
    "\<forall>j<i. \<not> is_free (threads s (tl all_tids ! j))"
    using assms unfolding free_slot_find find_Some_iff by blast
  then show "is_free (threads s t)" by simp
  have "t \<in> set (tl all_tids)" using i(1,3) by simp
  then show "tid_is_real t" by (simp add: all_tids_tl)
  show "\<forall>u. tid_is_real u \<longrightarrow> u < t \<longrightarrow> \<not> is_free (threads s u)"
  proof (intro allI impI)
    fix u
    assume u: "tid_is_real u" "u < t"
    then obtain j where j: "j < length (tl all_tids)" "u = tl all_tids ! j"
      by (metis all_tids_tl in_set_conv_nth mem_Collect_eq)
    have "j < i"
    proof (rule ccontr)
      assume "\<not> j < i"
      then have "t \<le> u" using sorted_nth_mono [OF sorted_tids(1), of i j] j i(1,3) by simp
      with u(2) show False by simp
    qed
    with i(4) j(2) show "\<not> is_free (threads s u)" by blast
  qed
qed

lemma free_slot_None: "free_slot s = None \<longleftrightarrow> (\<forall>t. tid_is_real t \<longrightarrow> \<not> is_free (threads s t))"
  unfolding free_slot_find find_None_iff using all_tids_tl by blast

text \<open>A thread that is about to join the ready queue for the first time.\<close>

definition fresh_ready :: "tid_t \<Rightarrow> thread \<Rightarrow> bool" where
  "fresh_ready t x \<longleftrightarrow> th_tid x = t \<and> th_state x = THREAD_READY \<and> th_wait_reason x = THREAD_WAIT_NONE \<and>
     th_wait_queue x = 0 \<and> \<not> th_in_ready_queue x \<and> \<not> th_in_sleep_queue x \<and> \<not> th_in_wait_queue x \<and> th_trap_frame x \<noteq> 0"

lemma enqueue_new:
  fixes s s1 :: "'a sched_scheme"
  assumes inv: "sched_inv Q s" and t: "tid_is_real t" and free: "is_free (threads s t)" and x: "fresh_ready t x"
    and s1: "threads s1 = (threads s)(t := x)" "ready_queue s1 = ready_queue s" "sleep_queue s1 = sleep_queue s"
      "wait_queues s1 = wait_queues s" "current_thread s1 = current_thread s" "threads_started s1 = threads_started s"
      "preempt_disable_depth s1 = preempt_disable_depth s" "threads_initialized s1 = threads_initialized s"
  shows "\<exists>s2. ready_enqueue t s1 = Inr ((), s2) \<and> sched_inv Q s2 \<and> kept s1 s2 \<and> mem s2 = mem s1 \<and>
    threads s2 = (threads s)(t := x\<lparr>th_in_ready_queue := True\<rparr>) \<and> ready_list s2 = ready_list s @ [t] \<and>
    sleep_list s2 = sleep_list s \<and> wait_list s2 = wait_list s"
proof -
  have con: "consistent {} Q s" and run: "only_running (threads s) (current_thread s)"
    using inv by (simp_all add: sched_inv_def)
  have ok: "thread_ok t (threads s t)" using consistentD(2) [OF con t] by simp
  have fl: "\<not> th_in_ready_queue (threads s t)" "\<not> th_in_sleep_queue (threads s t)" "\<not> th_in_wait_queue (threads s t)"
    "th_state (threads s t) \<noteq> THREAD_RUNNING"
    using ok free by (cases "th_state (threads s t)"; simp add: thread_ok_def is_free_def)+
  have q1: "queues_ok Q s1"
    by (rule queues_ok_upd [OF consistentD(1) [OF con], of x t]) (use fl x s1 in \<open>simp_all add: fresh_ready_def\<close>)
  have l1: "ready_list s1 = ready_list s" "sleep_list s1 = sleep_list s" "wait_list s1 = wait_list s"
    using s1 by (simp_all add: ready_list_def sleep_list_def wait_list_def fun_eq_iff)
  have x1: "th_state (threads s1 t) = THREAD_READY" "\<not> th_in_ready_queue (threads s1 t)"
    "\<not> th_in_sleep_queue (threads s1 t)" "\<not> th_in_wait_queue (threads s1 t)"
    using x s1(1) by (simp_all add: fresh_ready_def)
  obtain s2 where s2: "ready_enqueue t s1 = Inr ((), s2)" "queues_ok Q s2" "kept s1 s2" "mem s2 = mem s1"
    "threads s2 = (threads s1)(t := (threads s1 t)\<lparr>th_in_ready_queue := True\<rparr>)" "ready_list s2 = ready_list s1 @ [t]"
    "sleep_list s2 = sleep_list s1" "wait_list s2 = wait_list s1"
    by (rule ready_enqueue_ok [OF q1 t x1])
  have th2: "threads s2 = (threads s)(t := x\<lparr>th_in_ready_queue := True\<rparr>)" using s2(5) s1(1) by simp
  have xok: "thread_ok t (x\<lparr>th_in_ready_queue := True\<rparr>)" using x by (simp add: thread_ok_def fresh_ready_def)
  have "consistent ({} - {t}) Q s2" by (rule consistent_upd [OF con t s2(2) th2 xok])
  then have c2: "consistent {} Q s2" by simp
  have "only_running (threads s2) (current_thread s)"
    using run fl(4) x real_nonzero [OF t] by (auto simp: th2 only_running_def fresh_ready_def)
  then have "sched_inv Q s2" using inv c2 s2(3) s1 by (simp add: sched_inv_def kept_def)
  with s2 th2 l1 show ?thesis by (intro exI [of _ s2]) simp
qed

definition new_thread :: "linker \<Rightarrow> tid_t \<Rightarrow> string option \<Rightarrow> u64 \<Rightarrow> u64 \<Rightarrow> thread" where
  "new_thread l t name entry arg = \<lparr>th_tid = t, th_state = THREAD_READY, th_wait_reason = THREAD_WAIT_NONE,
     th_wait_queue = 0, th_kernel_sp = initial_word l t 1, th_trap_frame = initial_frame l t, th_address_space = 0,
     th_user_task = 0, th_quantum_ticks = 0, th_in_ready_queue = False, th_in_sleep_queue = False,
     th_in_wait_queue = False, th_wake_tick = 0, th_wait_result = WAIT_OK, th_entry = entry, th_arg = arg, th_name = name\<rparr>"

lemma install_ok:
  assumes l: "stacks_ok (link s)" and t: "tid_is_valid t"
  shows "\<exists>m. install_thread t name entry arg s =
      Inr ((), (usercopy_probe_clear t (upd_thread t (\<lambda>_. new_thread (link s) t name entry arg) s))\<lparr>mem := m\<rparr>) \<and>
    new_frame (link s) t (mem s) m"
proof -
  let ?s1 = "usercopy_probe_clear t (upd_thread t (\<lambda>th. th\<lparr>th_tid := t, th_state := THREAD_READY,
            th_wait_reason := THREAD_WAIT_NONE, th_wait_queue := 0, th_quantum_ticks := 0,
            th_in_ready_queue := False, th_in_sleep_queue := False, th_in_wait_queue := False,
            th_wake_tick := 0, th_wait_result := WAIT_OK, th_entry := entry, th_arg := arg,
            th_name := name, th_address_space := 0, th_user_task := 0\<rparr>) s)"
  have f: "link ?s1 = link s" "mem ?s1 = mem s" "th_tid (threads ?s1 t) = t"
    by (simp_all add: usercopy_probe_clear_def)
  obtain m where m: "prepare_initial_trap_frame t ?s1 = (upd_thread t (\<lambda>th. th\<lparr>th_kernel_sp := initial_word (link s) t 1,
      th_trap_frame := initial_frame (link s) t\<rparr>) ?s1)\<lparr>mem := m\<rparr>" "new_frame (link s) t (mem s) m"
    using prepare_ok [of ?s1 t, unfolded f, OF l t refl] by (elim exE conjE) (rule that)
  have "upd_thread t (\<lambda>th. th\<lparr>th_kernel_sp := initial_word (link s) t 1, th_trap_frame := initial_frame (link s) t\<rparr>) ?s1 =
      usercopy_probe_clear t (upd_thread t (\<lambda>_. new_thread (link s) t name entry arg) s)"
    by (cases "threads s t") (simp add: usercopy_probe_clear_def upd_thread_def new_thread_def)
  then show ?thesis using m t by (auto simp: install_thread_def Let_def)
qed

text \<open>What a successful creation leaves: the new thread last in line, all others as they were.\<close>

definition create_done :: "tid_t \<Rightarrow> thread \<Rightarrow> 'a sched_scheme \<Rightarrow> 'a sched_scheme \<Rightarrow> bool" where
  "create_done t x s s' \<longleftrightarrow> threads s' = (threads s)(t := x\<lparr>th_in_ready_queue := True\<rparr>) \<and>
     ready_list s' = ready_list s @ [t] \<and> sleep_list s' = sleep_list s \<and> wait_list s' = wait_list s \<and>
     current_thread s' = current_thread s \<and> threads_started s' = threads_started s \<and> user_tasks s' = user_tasks s \<and>
     ticks s' = ticks s \<and> link s' = link s \<and> sched.more s' = sched.more s"

lemma probe_clear_simps [simp]:
  "threads (usercopy_probe_clear t s) = threads s" "ready_queue (usercopy_probe_clear t s) = ready_queue s"
  "sleep_queue (usercopy_probe_clear t s) = sleep_queue s" "wait_queues (usercopy_probe_clear t s) = wait_queues s"
  "current_thread (usercopy_probe_clear t s) = current_thread s" "threads_started (usercopy_probe_clear t s) = threads_started s"
  "preempt_disable_depth (usercopy_probe_clear t s) = preempt_disable_depth s" "mem (usercopy_probe_clear t s) = mem s"
  "threads_initialized (usercopy_probe_clear t s) = threads_initialized s" "link (usercopy_probe_clear t s) = link s"
  "ticks (usercopy_probe_clear t s) = ticks s" "user_tasks (usercopy_probe_clear t s) = user_tasks s"
  "sstatus (usercopy_probe_clear t s) = sstatus s" "sched.more (usercopy_probe_clear t s) = sched.more s"
  "reschedule_requested (usercopy_probe_clear t s) = reschedule_requested s"
  by (simp_all add: usercopy_probe_clear_def)

lemma sched_inv_trace [simp]: "sched_inv Q (trace_emit ty a b c d s) = sched_inv Q s"
  by (simp add: sched_inv_def consistent_def queues_ok_def)

lemma create_ok:
  fixes s :: "'a sched_scheme"
  assumes inv: "sched_inv Q s" and l: "stacks_ok (link s)" and entry: "entry \<noteq> 0"
  shows "returns (thread_create name entry arg s) (\<lambda>r s'. sched_inv Q s' \<and>
    (case free_slot s of None \<Rightarrow> r = -1 \<and> s' = s
     | Some t \<Rightarrow> r = uint t \<and> create_done t (new_thread (link s) t name entry arg) s s' \<and>
         new_frame (link s) t (mem s) (mem s')))"
proof -
  let ?s0 = "s\<lparr>sstatus := sstatus s AND NOT SSTATUS_SIE\<rparr>"
  have g: "\<not> (\<not> threads_initialized s \<or> entry = 0)" using inv entry by (simp add: sched_inv_def)
  have fs: "free_slot ?s0 = free_slot s" by (simp add: free_slot_def)
  show ?thesis
  proof (cases "free_slot s")
    case None
    show ?thesis
      unfolding thread_create_def if_not_P [OF g]
      by (rule masked_returns) (use None fs inv in simp)
  next
    case (Some t)
    note t = free_slot_Some [OF Some]
    have v: "tid_is_valid t" using real_nonzero [OF t(1)] by blast
    let ?x = "new_thread (link s) t name entry arg"
    obtain m where m: "install_thread t name entry arg ?s0 = Inr ((), (usercopy_probe_clear t (upd_thread t (\<lambda>_. ?x) ?s0))\<lparr>mem := m\<rparr>)"
      "new_frame (link s) t (mem s) m"
      using install_ok [of ?s0 t name entry arg] l v by auto
    let ?s1 = "(usercopy_probe_clear t (upd_thread t (\<lambda>_. ?x) ?s0))\<lparr>mem := m\<rparr>"
    have x: "fresh_ready t ?x" using initial_frame_ok(1) [OF l v] by (simp add: fresh_ready_def new_thread_def)
    obtain s2 where s2: "ready_enqueue t ?s1 = Inr ((), s2)" "sched_inv Q s2" "kept ?s1 s2" "mem s2 = mem ?s1"
      "threads s2 = (threads s)(t := ?x\<lparr>th_in_ready_queue := True\<rparr>)" "ready_list s2 = ready_list s @ [t]"
      "sleep_list s2 = sleep_list s" "wait_list s2 = wait_list s"
      using enqueue_new [OF inv t(1,2) x, of ?s1] by auto
    show ?thesis
      unfolding thread_create_def if_not_P [OF g]
      by (rule masked_returns_eq [OF refl])
        (use fs Some m s2 in \<open>simp add: create_done_def kept_def\<close>)
  qed
qed

definition new_user_thread :: "linker \<Rightarrow> tid_t \<Rightarrow> string option \<Rightarrow> u64 \<Rightarrow> u64 \<Rightarrow> thread" where
  "new_user_thread l t name task frame = \<lparr>th_tid = t, th_state = THREAD_READY, th_wait_reason = THREAD_WAIT_NONE,
     th_wait_queue = 0, th_kernel_sp = initial_word l t 1, th_trap_frame = frame, th_address_space = task + 8,
     th_user_task = task, th_quantum_ticks = 0, th_in_ready_queue = False, th_in_sleep_queue = False,
     th_in_wait_queue = False, th_wake_tick = 0, th_wait_result = WAIT_OK, th_entry = 0, th_arg = 0, th_name = name\<rparr>"

lemma create_user_ok:
  fixes s :: "'a sched_scheme"
  assumes inv: "sched_inv Q s" and l: "stacks_ok (link s)" and ready: "user_task_is_ready task s"
  defines "ctx \<equiv> ut_trap_context (task_at s task)"
  shows "returns (thread_create_user name task s) (\<lambda>r s'. sched_inv Q s' \<and>
    (case free_slot s of None \<Rightarrow> r = -1 \<and> s' = s
     | Some t \<Rightarrow> r = uint t \<and> create_done t (new_user_thread (link s) t name task ctx) s s' \<and>
         mem s' = write64 (mem s) (ctx + CTX_KERNEL_SP) (initial_word (link s) t 1)))"
proof -
  let ?s0 = "s\<lparr>sstatus := sstatus s AND NOT SSTATUS_SIE\<rparr>"
  have g: "\<not> (\<not> threads_initialized s \<or> \<not> user_task_is_ready task s)" using inv ready by (simp add: sched_inv_def)
  have fs: "free_slot ?s0 = free_slot s" by (simp add: free_slot_def)
  have c: "ctx \<noteq> 0" using ready by (simp add: ctx_def user_task_is_ready_def)
  show ?thesis
  proof (cases "free_slot s")
    case None
    show ?thesis
      unfolding thread_create_user_def if_not_P [OF g]
      by (rule masked_returns) (use None fs inv in simp)
  next
    case (Some t)
    note t = free_slot_Some [OF Some]
    have v: "tid_is_valid t" using real_nonzero [OF t(1)] by blast
    let ?x = "new_user_thread (link s) t name task ctx"
    let ?s1 = "usercopy_probe_clear t ((upd_thread t (\<lambda>_. ?x) ?s0)\<lparr>mem := write64 (mem s) (ctx + CTX_KERNEL_SP) (initial_word (link s) t 1)\<rparr>)"
    have top: "thread_stack_top t s = initial_word (link s) t 1" "thread_stack_top t s \<noteq> 0"
      using initial_frame_ok(3) [OF l v] by (simp_all add: thread_stack_top_def initial_word_def)
    have r: "user_task_is_ready task (upd_thread t f ?s0)" "task_at (upd_thread t f ?s0) = task_at s"
      "user_task_is_ready task ?s0" "task_at ?s0 = task_at s" "thread_stack_top t ?s0 = thread_stack_top t s" for f
      using ready by (simp_all add: user_task_is_ready_def task_at_def fun_eq_iff thread_stack_top_def)
    have m: "install_user_thread t name task ?s0 = Inr ((), ?s1)"
      using top v c r ready
      by (simp add: install_user_thread_def Let_def user_task_trap_frame_def user_task_set_kernel_sp_def
          ctx_def [symmetric] store64_def) (cases "threads s t", simp add: upd_thread_def new_user_thread_def)
    have x: "fresh_ready t ?x" using c by (simp add: fresh_ready_def new_user_thread_def)
    obtain s2 where s2: "ready_enqueue t ?s1 = Inr ((), s2)" "sched_inv Q s2" "kept ?s1 s2" "mem s2 = mem ?s1"
      "threads s2 = (threads s)(t := ?x\<lparr>th_in_ready_queue := True\<rparr>)" "ready_list s2 = ready_list s @ [t]"
      "sleep_list s2 = sleep_list s" "wait_list s2 = wait_list s"
      using enqueue_new [OF inv t(1,2) x, of ?s1] by auto
    show ?thesis
      unfolding thread_create_user_def if_not_P [OF g]
      by (rule masked_returns_eq [OF refl])
        (use fs Some m s2 in \<open>simp add: create_done_def kept_def\<close>)
  qed
qed

section \<open>Initialisation and start\<close>

lemma wait_queue_init_ok:
  fixes s :: "'a sched_scheme"
  assumes inv: "sched_inv Q s" and q: "q \<noteq> 0" "q \<notin> Q" and len: "length (wq_tids (wait_queues s q)) = THREAD_MAX - 1"
  shows "returns (wait_queue_init q name s) (\<lambda>_ s'. sched_inv (insert q Q) s' \<and> wait_list s' = (wait_list s)(q := []) \<and>
    threads s' = threads s \<and> ready_list s' = ready_list s \<and> sleep_list s' = sleep_list s \<and> sched.more s' = sched.more s)"
proof -
  let ?w = "(wait_queues s q)\<lparr>wq_head := 0, wq_tail := 0, wq_count := 0, wq_name := name\<rparr>"
  let ?s' = "s\<lparr>wait_queues := (wait_queues s)(q := ?w)\<rparr>"
  have e: "wait_queue_init q name s = Inr ((), ?s')"
    using q by (simp add: wait_queue_init_def irq_masked_def irq_save_def csr_clear_sstatus_def irq_restore_masked)
  have w: "wq_ok ?w" "wq_items ?w = []" using len by (simp_all add: wq_ok_def wq_items_def ring_def THREAD_MAX_def)
  have wl: "wait_list ?s' = (wait_list s)(q := [])" using w(2) by simp
  have qs: "queues_ok Q s" and con: "consistent {} Q s" using inv by (simp_all add: sched_inv_def consistent_def)
  have "winv (insert q Q) (threads s) ((wait_list s)(q := []))"
    using queues_ok_parts(3) [OF qs] q by (auto simp: winv_def)
  then have "queues_ok (insert q Q) ?s'"
    using qs w wl q(2) by (simp add: queues_ok_def)
  then have "sched_inv (insert q Q) ?s'" using inv by (simp add: sched_inv_def consistent_def)
  then show ?thesis unfolding e using wl by simp
qed

text \<open>The static arrays of the scheduler have their declared sizes.\<close>

definition static_ok :: "'a sched_scheme \<Rightarrow> bool" where
  "static_ok s \<longleftrightarrow> length (tq_tids (ready_queue s)) = THREAD_MAX - 1 \<and> length (sq_tids (sleep_queue s)) = THREAD_MAX - 1 \<and>
     stacks_ok (link s)"

lemma reset_fold:
  "threads (fold reset_thread ts s) t = (if t \<in> set ts then threads (reset_thread t s) t else threads s t)"
proof (induction ts arbitrary: s)
  case (Cons u ts)
  then show ?case by (simp add: reset_thread_def)
qed simp

lemma reset_keep:
  fixes s :: "'a sched_scheme"
  shows "ready_queue (fold reset_thread ts s) = ready_queue s" "sleep_queue (fold reset_thread ts s) = sleep_queue s"
    "wait_queues (fold reset_thread ts s) = wait_queues s" "link (fold reset_thread ts s) = link s"
    "mem (fold reset_thread ts s) = mem s" "sstatus (fold reset_thread ts s) = sstatus s"
  by (induction ts arbitrary: s) (simp_all add: reset_thread_def)

lemma console_write_sched [simp]:
  fixes s :: "'a sched_scheme"
  shows "threads (console_write cs s) = threads s" "ready_queue (console_write cs s) = ready_queue s"
    "sleep_queue (console_write cs s) = sleep_queue s" "wait_queues (console_write cs s) = wait_queues s"
    "current_thread (console_write cs s) = current_thread s" "threads_started (console_write cs s) = threads_started s"
    "threads_initialized (console_write cs s) = threads_initialized s" "mem (console_write cs s) = mem s"
    "preempt_disable_depth (console_write cs s) = preempt_disable_depth s" "link (console_write cs s) = link s"
    "sstatus (console_write cs s) = sstatus s" "sched.more (console_write cs s) = sched.more s"
    "reschedule_requested (console_write cs s) = reschedule_requested s"
  by (induction cs arbitrary: s) (simp_all add: console_putc_def uart_putc_def)

definition unused_thread :: "tid_t \<Rightarrow> thread" where
  "unused_thread t = \<lparr>th_tid = t, th_state = THREAD_UNUSED, th_wait_reason = THREAD_WAIT_NONE, th_wait_queue = 0,
     th_kernel_sp = 0, th_trap_frame = 0, th_address_space = 0, th_user_task = 0, th_quantum_ticks = 0,
     th_in_ready_queue = False, th_in_sleep_queue = False, th_in_wait_queue = False, th_wake_tick = 0,
     th_wait_result = WAIT_OK, th_entry = 0, th_arg = 0, th_name = None\<rparr>"

lemma sched_inv_initial:
  assumes "tq_ok (ready_queue s)" and "sq_ok (sleep_queue s)" and "ready_list s = []" and "sleep_list s = []"
    and th: "\<forall>t. tid_is_real t \<longrightarrow> threads s t = unused_thread t"
    and null: "threads s 0 = new_thread l 0 name entry arg" and "initial_frame l 0 \<noteq> 0"
    and "current_thread s = None" and "\<not> threads_started s" and "preempt_disable_depth s = 0" and "threads_initialized s"
  shows "sched_inv {} s"
proof -
  have u: "\<not> th_in_ready_queue (unused_thread t)" "\<not> th_in_sleep_queue (unused_thread t)"
    "\<not> th_in_wait_queue (unused_thread t)" "th_state (unused_thread t) = THREAD_UNUSED" "thread_ok t (unused_thread t)" for t
    by (simp_all add: unused_thread_def thread_ok_def)
  have "queues_ok {} s" using assms(1-4) th u by (auto simp: queues_ok_def rinv_def sinv_def winv_def)
  moreover have "null_ok (threads s 0)" using null assms(7) by (simp add: null_ok_def new_thread_def)
  moreover have "only_running (threads s) None"
    using th null u by (auto simp: only_running_def valid_iff new_thread_def)
  ultimately show ?thesis using assms(8-11) th u by (simp add: sched_inv_def consistent_def)
qed

lemma init_ok:
  fixes s :: "'a sched_scheme"
  assumes ok: "static_ok s"
  shows "returns (thread_init s) (\<lambda>_ s'. sched_inv {} s' \<and> \<not> threads_started s' \<and> ready_list s' = [] \<and>
    (\<forall>t. tid_is_real t \<longrightarrow> threads s' t = unused_thread t) \<and> link s' = link s \<and>
    wait_queues s' = wait_queues s)"
proof -
  let ?s0 = "s\<lparr>sstatus := sstatus s AND NOT SSTATUS_SIE\<rparr>"
  let ?s1 = "trace_init ?s0"
  let ?s2 = "fold reset_thread all_tids (?s1\<lparr>ready_queue := tid_queue_init (ready_queue ?s1), sleep_queue := sleep_queue_init (sleep_queue ?s1)\<rparr>)"
  define s3 where "s3 = ?s2\<lparr>current_thread := None, threads_started := False, threads_initialized := True,
               reschedule_requested := False, preempt_disable_depth := 0\<rparr>"
  have l3: "link s3 = link s" by (simp add: s3_def reset_keep trace_init_eq)
  have s3: "current_thread s3 = None" "\<not> threads_started s3" "preempt_disable_depth s3 = 0" "threads_initialized s3"
    "ready_queue s3 = tid_queue_init (ready_queue s)" "sleep_queue s3 = sleep_queue_init (sleep_queue s)"
    "wait_queues s3 = wait_queues s" "sstatus s3 = sstatus s AND NOT SSTATUS_SIE"
    by (simp_all add: s3_def reset_keep trace_init_eq)
  have l: "stacks_ok (link s3)" unfolding l3 using ok by (simp add: static_ok_def)
  have v: "tid_is_valid 0" by (simp add: tid_is_valid_def THREAD_MAX_def)
  let ?x = "new_thread (link s) 0 (Some ''null'') (null_task_addr (link s)) 0"
  obtain m where m: "install_thread 0 (Some ''null'') (null_task_addr (link s3)) 0 s3 =
      Inr ((), (usercopy_probe_clear 0 (upd_thread 0 (\<lambda>_. ?x) s3))\<lparr>mem := m\<rparr>)"
    using install_ok [OF l v, of "Some ''null''" "null_task_addr (link s3)" 0] by (auto simp: l3 intro: that)
  let ?s4 = "(usercopy_probe_clear 0 (upd_thread 0 (\<lambda>_. ?x) s3))\<lparr>mem := m\<rparr>"
  have th: "threads ?s4 t = unused_thread t" if "tid_is_real t" for t
  proof -
    have "t \<in> set all_tids" using that by (auto simp: all_tids_def real_iff)
    moreover have "t \<noteq> 0" using that real_nonzero by blast
    ultimately show ?thesis by (simp add: s3_def reset_fold reset_thread_def unused_thread_def)
  qed
  let ?m = "\<lambda>s. console_write (''thread: initialized static table, null tid=0'' @ [CHR 0x0A]) s"
  have q: "ready_queue (?m ?s4) = tid_queue_init (ready_queue s)" "sleep_queue (?m ?s4) = sleep_queue_init (sleep_queue s)"
    "wait_queues (?m ?s4) = wait_queues s" "link (?m ?s4) = link s" "sstatus (?m ?s4) = sstatus s AND NOT SSTATUS_SIE"
    by (simp_all add: s3 l3 del: console_write.simps)
  have "sched_inv {} (?m ?s4)"
    by (rule sched_inv_initial [where l = "link s" and name = "Some ''null''" and entry = "null_task_addr (link s)" and arg = 0])
      (use th ok s3 initial_frame_ok(1) [OF _ v] in \<open>simp_all add: q ready_list_def sleep_list_def tid_queue_init_def
        sleep_queue_init_def tq_ok_def sq_ok_def tq_items_def sq_items_def ring_def static_ok_def THREAD_MAX_def del: console_write.simps\<close>)
  then have r: "returns (Inr ((), ?m ?s4)) (\<lambda>_ s2. sstatus s2 = sstatus s AND NOT SSTATUS_SIE \<and>
      sched_inv {} (s2\<lparr>sstatus := sstatus s\<rparr>) \<and> \<not> threads_started (s2\<lparr>sstatus := sstatus s\<rparr>) \<and>
      ready_list (s2\<lparr>sstatus := sstatus s\<rparr>) = [] \<and>
      (\<forall>t. tid_is_real t \<longrightarrow> threads (s2\<lparr>sstatus := sstatus s\<rparr>) t = unused_thread t) \<and>
      link (s2\<lparr>sstatus := sstatus s\<rparr>) = link s \<and> wait_queues (s2\<lparr>sstatus := sstatus s\<rparr>) = wait_queues s)"
    using th q s3(2) by (simp add: ready_list_def tid_queue_init_def tq_items_def ring_def del: console_write.simps)
  show ?thesis
    unfolding thread_init_def Let_def
    by (rule masked_returns_eq [OF _ r]) (simp only: s3_def [symmetric] THREAD_NULL_TID_def m bindE_Inr prod.case)
qed

lemma sched_inv_console [simp]: "sched_inv Q (console_write cs s) = sched_inv Q (s :: 'a sched_scheme)"
  by (simp add: sched_inv_def consistent_def queues_ok_def ready_list_def sleep_list_def wait_list_def fun_eq_iff winv_def)

text \<open>
  \<open>thread_start\<close> leaves interrupts masked; the frame it returns restores them.
\<close>

lemma start_ok:
  fixes s :: "'a sched_scheme"
  assumes inv: "sched_inv Q s" and ns: "\<not> threads_started s"
  shows "returns (thread_start s) (\<lambda>f s'. sched_inv Q s' \<and> f = th_trap_frame (threads s (next_tid s)) \<and> f \<noteq> 0 \<and>
    current_thread s' = Some (next_tid s) \<and> threads s' = run_next s \<and> ready_list s' = tl (ready_list s) \<and> threads_started s' \<and>
    sched.more s' = sched.more s)"
proof -
  let ?s0 = "s\<lparr>sstatus := sstatus s AND NOT SSTATUS_SIE\<rparr>"
  have con: "consistent {} Q ?s0" and run: "only_running (threads ?s0) None" and i: "threads_initialized s" "preempt_disable_depth s = 0"
    using inv ns by (auto simp: sched_inv_def)
  have n: "next_tid ?s0 = next_tid s" "run_next ?s0 = run_next s" by (simp_all add: next_tid_def run_next_def)
  obtain s1 where s1: "pick_next_thread ?s0 = Inr (next_tid s, s1)" "th_trap_frame (threads s1 (next_tid s)) \<noteq> 0"
    "th_trap_frame (threads s1 (next_tid s)) = th_trap_frame (threads ?s0 (next_tid s))"
    "th_tid (threads s1 (next_tid s)) = next_tid s" "tid_is_valid (next_tid s)" "mem s1 = mem ?s0" "kept ?s0 s1"
    "threads (make_running (next_tid s) s1) = run_next s" "consistent {} Q (make_running (next_tid s) s1)"
    "only_running (run_next s) (Some (next_tid s))" "ready_list s1 = tl (ready_list ?s0)"
    "sleep_list s1 = sleep_list ?s0" "wait_list s1 = wait_list ?s0"
    using pick_next_ok [OF con run] unfolding n by (elim exE conjE) (rule that)
  let ?s2 = "(upd_thread (next_tid s) (\<lambda>th. th\<lparr>th_state := THREAD_RUNNING, th_quantum_ticks := 0\<rparr>) s1)
      \<lparr>current_thread := Some (next_tid s), threads_started := True\<rparr>"
  have l2: "ready_list ?s2 = ready_list s1" "sleep_list ?s2 = sleep_list s1" "wait_list ?s2 = wait_list s1"
    by (simp_all add: ready_list_def sleep_list_def wait_list_def fun_eq_iff)
  have th2: "threads ?s2 = run_next s" using s1(8) by simp
  have more2: "sched.more ?s2 = sched.more s" using s1(7) by (simp add: kept_def)
  have tf: "th_trap_frame (run_next s (next_tid s)) = th_trap_frame (threads s (next_tid s))" by (simp add: run_next_def)
  have "consistent {} Q ?s2" using s1(9) unfolding consistent_def queues_ok_def l2 th2 s1(8) by simp
  then have "sched_inv Q ?s2" using s1(7,10) th2 i by (simp add: sched_inv_def kept_def)
  moreover have "ready_list (console_write cs (trace_emit ty a b c d ?s2)) = ready_list s1" for cs ty a b c d
    unfolding l2(1) [symmetric] by (simp add: ready_list_def)
  ultimately show ?thesis
    using ns i(1) s1(1,2,3,11) th2 tf more2
    by (simp add: thread_start_def irq_save_def csr_clear_sstatus_def Let_def del: console_write.simps upd_thread_simps)
qed

end
