(* ===== verification/Sched_Run.thy ===== *)
theory Sched_Run
  imports Sched_Create
begin

text \<open>
  The scheduler as a state machine: the events that reach it, an abstract scheduler on plain
  lists that says what each event does to the queues and the processor, the simulation of that
  machine by the code, and the reachable states.
\<close>

section \<open>Events\<close>

datatype sched_event =
  Start | Tick | Preempt u64 | Yield u64 | Sleep u64 u64 | Wait u64 u64 u64 | Exit u64 |
  Wake_one u64 | Wake_all u64 | Create "string option" u64 u64 | Create_user "string option" u64 |
  Queue_init u64 "string option"

definition no_frame :: "('b \<times> 'a sched_scheme) res \<Rightarrow> (u64 option \<times> 'a sched_scheme) res" where
  "no_frame m = bindE m (\<lambda>(_, s). Inr (None, s))"

definition with_frame :: "(u64 \<times> 'a sched_scheme) res \<Rightarrow> (u64 option \<times> 'a sched_scheme) res" where
  "with_frame m = bindE m (\<lambda>(f, s). Inr (Some f, s))"

text \<open>The code an event runs, and the frame it resumes, if it leaves through one.\<close>

fun sched_do :: "sched_event \<Rightarrow> 'a sched_scheme \<Rightarrow> (u64 option \<times> 'a sched_scheme) res" where
  "sched_do Start s = with_frame (thread_start s)"
| "sched_do Tick s = no_frame (thread_on_timer_tick s)"
| "sched_do (Preempt f) s = with_frame (thread_maybe_preempt_from_trap f s)"
| "sched_do (Yield f) s = with_frame (thread_yield_current_from_trap f s)"
| "sched_do (Sleep f n) s = with_frame (thread_sleep_current_from_trap f n s)"
| "sched_do (Wait f q n) s = with_frame (block_current_from_trap f q n s)"
| "sched_do (Exit f) s = with_frame (thread_exit_current_from_trap f s)"
| "sched_do (Wake_one q) s = no_frame (wait_queue_wake_one q s)"
| "sched_do (Wake_all q) s = no_frame (wait_queue_wake_all q s)"
| "sched_do (Create name entry arg) s = no_frame (thread_create name entry arg s)"
| "sched_do (Create_user name task) s = no_frame (thread_create_user name task s)"
| "sched_do (Queue_init q name) s = no_frame (wait_queue_init q name s)"

definition runs_real :: "'a sched_scheme \<Rightarrow> bool" where
  "runs_real s \<longleftrightarrow> (case current_thread s of None \<Rightarrow> False | Some c \<Rightarrow> c \<noteq> 0)"

text \<open>
  The caller's obligations: a thread runs, it is not the null thread if it is to block or end,
  the frame pointer is not null, a wait queue has been initialised, and a user thread that ends
  has a task that is ready and owns its memory.
\<close>

definition exit_allowed :: "u64 \<Rightarrow> 'a sched_scheme \<Rightarrow> bool" where
  "exit_allowed f s \<longleftrightarrow> (case current_thread s of None \<Rightarrow> False | Some c \<Rightarrow> c \<noteq> 0 \<and>
     (th_user_task (threads s c) \<noteq> 0 \<longrightarrow> load64 (f + FRAME_MSTATUS) s AND SSTATUS_SPP = 0 \<and>
        user_task_is_ready (th_user_task (threads s c)) s \<and> task_owns (task_at s (th_user_task (threads s c))) s))"

fun allowed :: "u64 set \<Rightarrow> sched_event \<Rightarrow> 'a sched_scheme \<Rightarrow> bool" where
  "allowed Q Start s \<longleftrightarrow> \<not> threads_started s"
| "allowed Q Tick s \<longleftrightarrow> threads_started s"
| "allowed Q (Preempt f) s \<longleftrightarrow> threads_started s \<and> f \<noteq> 0"
| "allowed Q (Yield f) s \<longleftrightarrow> threads_started s \<and> f \<noteq> 0"
| "allowed Q (Sleep f n) s \<longleftrightarrow> runs_real s \<and> f \<noteq> 0"
| "allowed Q (Wait f q n) s \<longleftrightarrow> runs_real s \<and> f \<noteq> 0 \<and> q \<in> Q"
| "allowed Q (Exit f) s \<longleftrightarrow> exit_allowed f s"
| "allowed Q (Wake_one q) s \<longleftrightarrow> q \<in> Q"
| "allowed Q (Wake_all q) s \<longleftrightarrow> q \<in> Q"
| "allowed Q (Create name entry arg) s \<longleftrightarrow> stacks_ok (link s) \<and> entry \<noteq> 0"
| "allowed Q (Create_user name task) s \<longleftrightarrow> stacks_ok (link s) \<and> user_task_is_ready task s"
| "allowed Q (Queue_init q name) s \<longleftrightarrow> q \<noteq> 0 \<and> q \<notin> Q \<and> length (wq_tids (wait_queues s q)) = THREAD_MAX - 1"

fun queues_after :: "sched_event \<Rightarrow> u64 set \<Rightarrow> u64 set" where
  "queues_after (Queue_init q name) Q = insert q Q"
| "queues_after _ Q = Q"

section \<open>The abstract scheduler\<close>

record asched =
  a_cur :: "tid_t option"
  a_ready :: "tid_t list"
  a_sleep :: "(tid_t \<times> u64) list"
  a_wait :: "u64 \<Rightarrow> tid_t list"

definition a_dispatch :: "asched \<Rightarrow> asched" where
  "a_dispatch a = a\<lparr>a_cur := Some (case a_ready a of [] \<Rightarrow> 0 | t # _ \<Rightarrow> t), a_ready := tl (a_ready a)\<rparr>"

definition a_yield :: "asched \<Rightarrow> asched" where
  "a_yield a = (if a_ready a = [] then a
     else a_dispatch (a\<lparr>a_ready := a_ready a @ (if a_cur a = Some 0 then [] else [the (a_cur a)])\<rparr>))"

definition a_enqueue_sleeper :: "tid_t \<Rightarrow> u64 \<Rightarrow> (tid_t \<times> u64) list \<Rightarrow> (tid_t \<times> u64) list" where
  "a_enqueue_sleeper t w xs = takeWhile (\<lambda>x. snd x \<le> w) xs @ (t, w) # dropWhile (\<lambda>x. snd x \<le> w) xs"

definition a_wake :: "tid_t list \<Rightarrow> asched \<Rightarrow> asched" where
  "a_wake ts a = a\<lparr>a_ready := a_ready a @ ts, a_sleep := filter (\<lambda>x. fst x \<notin> set ts) (a_sleep a),
     a_wait := (\<lambda>q. filter (\<lambda>t. t \<notin> set ts) (a_wait a q))\<rparr>"

text \<open>
  One step, given the tick count, whether a switch was requested, and the slot a creation
  finds.
\<close>

fun a_step :: "sched_event \<Rightarrow> u64 \<Rightarrow> bool \<Rightarrow> tid_t option \<Rightarrow> asched \<Rightarrow> asched" where
  "a_step Start now r slot a = a_dispatch a"
| "a_step Tick now r slot a = a_wake (map fst (filter (\<lambda>x. snd x \<le> now) (a_sleep a))) a"
| "a_step (Preempt f) now r slot a = (if r \<and> a_cur a \<noteq> Some 0 then a_yield a else a)"
| "a_step (Yield f) now r slot a = a_yield a"
| "a_step (Sleep f n) now r slot a = (if n = 0 then a_yield a
     else a_dispatch (a\<lparr>a_sleep := a_enqueue_sleeper (the (a_cur a)) (now + n) (a_sleep a)\<rparr>))"
| "a_step (Wait f q n) now r slot a = a_dispatch (a\<lparr>a_wait := (a_wait a)(q := a_wait a q @ [the (a_cur a)]),
     a_sleep := if n = 0 then a_sleep a else a_enqueue_sleeper (the (a_cur a)) (now + n) (a_sleep a)\<rparr>)"
| "a_step (Exit f) now r slot a = a_dispatch a"
| "a_step (Wake_one q) now r slot a = a_wake (take 1 (a_wait a q)) a"
| "a_step (Wake_all q) now r slot a = a_wake (a_wait a q) a"
| "a_step (Create name entry arg) now r slot a = a\<lparr>a_ready := a_ready a @ (case slot of None \<Rightarrow> [] | Some t \<Rightarrow> [t])\<rparr>"
| "a_step (Create_user name task) now r slot a = a\<lparr>a_ready := a_ready a @ (case slot of None \<Rightarrow> [] | Some t \<Rightarrow> [t])\<rparr>"
| "a_step (Queue_init q name) now r slot a = a"

definition abs_sleep :: "(tid_t \<Rightarrow> thread) \<Rightarrow> tid_t list \<Rightarrow> (tid_t \<times> u64) list" where
  "abs_sleep th ts = map (\<lambda>t. (t, th_wake_tick (th t))) ts"

definition abs_sched :: "u64 set \<Rightarrow> 'a sched_scheme \<Rightarrow> asched" where
  "abs_sched Q s = \<lparr>a_cur = current_thread s, a_ready = ready_list s,
     a_sleep = abs_sleep (threads s) (sleep_list s), a_wait = (\<lambda>q. if q \<in> Q then wait_list s q else [])\<rparr>"

definition step_ok :: "u64 set \<Rightarrow> sched_event \<Rightarrow> 'a sched_scheme \<Rightarrow> 'a sched_scheme \<Rightarrow> bool" where
  "step_ok Q e s s' \<longleftrightarrow> sched_inv (queues_after e Q) s' \<and> sched.more s' = sched.more s \<and>
     abs_sched (queues_after e Q) s' = a_step e (ticks s) (reschedule_requested s) (free_slot s) (abs_sched Q s)"

section \<open>The code simulates the abstract scheduler\<close>

text \<open>No event reaches into the state of the components above the scheduler.\<close>

lemma done_more:
  "yield_done c f s x s' \<Longrightarrow> sched.more s' = sched.more s"
  "sleep_done c f n s x s' \<Longrightarrow> sched.more s' = sched.more s"
  "block_done c f q n s x s' \<Longrightarrow> sched.more s' = sched.more s"
  "create_done t th s s' \<Longrightarrow> sched.more s' = sched.more s"
  "exit_done c code s s' \<Longrightarrow> sched.more s' = sched.more s"
  by (simp_all add: yield_done_def sleep_done_def block_done_def create_done_def exit_done_def)

lemma abs_sleep_cong:
  "\<forall>t\<in>set ts. th_wake_tick (th' t) = th_wake_tick (th t) \<Longrightarrow> abs_sleep th' ts = abs_sleep th ts"
  by (simp add: abs_sleep_def)

lemma abs_sleep_insert:
  assumes "c \<notin> set ts" and "\<forall>t\<in>set ts. th_wake_tick (th' t) = th_wake_tick (th t)" and "th_wake_tick (th' c) = w"
  shows "abs_sleep th' (insert_sleeper (\<lambda>t. if t = c then w else th_wake_tick (th t)) c ts) =
    a_enqueue_sleeper c w (abs_sleep th ts)"
  using assms(1,2)
proof (induction ts)
  case Nil
  then show ?case using assms(3) by (simp add: abs_sleep_def insert_sleeper_def a_enqueue_sleeper_def)
next
  case (Cons t ts)
  show ?case
  proof (cases "th_wake_tick (th t) \<le> w")
    case True
    then show ?thesis using Cons by (simp add: abs_sleep_def insert_sleeper_def a_enqueue_sleeper_def)
  next
    case False
    then show ?thesis using Cons.prems assms(3) by (auto simp: abs_sleep_def insert_sleeper_def a_enqueue_sleeper_def)
  qed
qed

lemma sleepers_blocked:
  assumes "sched_inv Q s" and "t \<in> set (sleep_list s)"
  shows "tid_is_real t" "th_state (threads s t) = THREAD_BLOCKED"
proof -
  have con: "consistent {} Q s" using assms(1) by (simp add: sched_inv_def)
  have t: "tid_is_real t \<and> th_in_sleep_queue (threads s t)"
    using assms(2) queues_ok_parts(2) [OF consistentD(1) [OF con]] by (auto simp: sinv_def)
  then show "tid_is_real t" by simp
  show "th_state (threads s t) = THREAD_BLOCKED" using consistentD(2) [OF con, of t] t by (simp add: thread_ok_def)
qed

lemma next_not_sleeping:
  assumes "sched_inv Q s" and "current_thread s = Some c"
  shows "c \<notin> set (sleep_list s)" and "next_tid s \<notin> set (sleep_list s)" "ready_list s = n # ts \<Longrightarrow> n \<notin> set (sleep_list s)"
proof -
  note b = sleepers_blocked [OF assms(1)]
  show "c \<notin> set (sleep_list s)" using b(2) [of c] current_facts(2) [OF assms] by auto
  have con: "consistent {} Q s" using assms(1) by (simp add: sched_inv_def)
  show r: "n \<notin> set (sleep_list s)" if "ready_list s = n # ts" for n ts
  proof -
    have n: "tid_is_real n \<and> th_in_ready_queue (threads s n)"
      using queues_ok_parts(1) [OF consistentD(1) [OF con]] that by (auto simp: rinv_def)
    then have "th_state (threads s n) = THREAD_READY" using consistentD(2) [OF con, of n] by (simp add: thread_ok_def)
    then show ?thesis using b(2) [of n] by auto
  qed
  show "next_tid s \<notin> set (sleep_list s)"
    using r b(1) [of 0] by (cases "ready_list s") (auto simp: next_tid_def THREAD_NULL_TID_def)
qed

lemma abs_yield:
  assumes inv: "sched_inv Q s" and cur: "current_thread s = Some c" and y: "yield_done c frame s f s'"
  shows "abs_sched Q s' = a_yield (abs_sched Q s)"
proof (cases "ready_list s")
  case Nil
  then have "abs_sleep (threads s') (sleep_list s') = abs_sleep (threads s) (sleep_list s)"
    using y by (simp add: yield_done_def) (rule abs_sleep_cong, simp)
  then show ?thesis using Nil y cur by (simp add: yield_done_def abs_sched_def a_yield_def cong: if_cong)
next
  case (Cons n ts)
  have "sleep_list s' = sleep_list s" "th_wake_tick (threads s' t) = th_wake_tick (threads s t)" for t
    using y Cons by (simp_all add: yield_done_def preempted_def null_left_def)
  then have "abs_sleep (threads s') (sleep_list s') = abs_sleep (threads s) (sleep_list s)" by (simp add: abs_sleep_def)
  then show ?thesis using Cons y cur by (simp add: yield_done_def abs_sched_def a_yield_def a_dispatch_def cong: if_cong)
qed

lemma next_tid_case: "next_tid s = (case ready_list s of [] \<Rightarrow> 0 | t # _ \<Rightarrow> t)"
  by (simp add: next_tid_def THREAD_NULL_TID_def split: list.split)

lemma abs_sleep_step:
  assumes inv: "sched_inv Q s" and cur: "current_thread s = Some c" and nz: "c \<noteq> 0" and d: "sleep_done c frame n s f s'"
  shows "abs_sched Q s' = a_dispatch ((abs_sched Q s)\<lparr>a_sleep := a_enqueue_sleeper c (ticks s + n) (a_sleep (abs_sched Q s))\<rparr>)"
proof -
  note ns = next_not_sleeping [OF inv cur]
  have "abs_sleep (threads s') (insert_sleeper (\<lambda>t. if t = c then ticks s + n else th_wake_tick (threads s t)) c (sleep_list s)) =
      a_enqueue_sleeper c (ticks s + n) (abs_sleep (threads s) (sleep_list s))"
    by (rule abs_sleep_insert [OF ns(1)]) (use d ns(1) next_other [OF inv cur nz] in \<open>auto simp: sleep_done_def sleeping_def\<close>)
  then show ?thesis
    using d cur by (simp add: sleep_done_def abs_sched_def a_dispatch_def next_tid_case cong: if_cong)
qed

lemma abs_block_step:
  assumes inv: "sched_inv Q s" and cur: "current_thread s = Some c" and nz: "c \<noteq> 0" and q: "q \<in> Q" and d: "block_done c frame q n s f s'"
  shows "abs_sched Q s' = a_dispatch ((abs_sched Q s)\<lparr>a_wait := (a_wait (abs_sched Q s))(q := a_wait (abs_sched Q s) q @ [c]),
     a_sleep := if n = 0 then a_sleep (abs_sched Q s) else a_enqueue_sleeper c (ticks s + n) (a_sleep (abs_sched Q s))\<rparr>)"
proof -
  note ns = next_not_sleeping [OF inv cur]
  have th: "threads s' = (threads s)(c := waiting frame (load64 (frame + FRAME_SP) s) q n (ticks s) (threads s c),
      next_tid s := (threads s (next_tid s))\<lparr>th_in_ready_queue := False, th_state := THREAD_RUNNING, th_quantum_ticks := 0\<rparr>)"
    using d by (simp add: block_done_def)
  have "abs_sleep (threads s') (sleep_list s') = (if n = 0 then abs_sleep (threads s) (sleep_list s)
      else a_enqueue_sleeper c (ticks s + n) (abs_sleep (threads s) (sleep_list s)))"
  proof (cases "n = 0")
    case True
    then show ?thesis using d ns by (simp add: block_done_def) (rule abs_sleep_cong, auto)
  next
    case False
    have "abs_sleep (threads s') (insert_sleeper (\<lambda>t. if t = c then ticks s + n else th_wake_tick (threads s t)) c (sleep_list s)) =
        a_enqueue_sleeper c (ticks s + n) (abs_sleep (threads s) (sleep_list s))"
      by (rule abs_sleep_insert [OF ns(1)]) (use False ns(1) next_other [OF inv cur nz] in \<open>auto simp: th waiting_def Let_def\<close>)
    then show ?thesis using False d by (simp add: block_done_def)
  qed
  then show ?thesis using d q cur by (auto simp: block_done_def abs_sched_def a_dispatch_def next_tid_case fun_eq_iff)
qed

text \<open>Waking a set of blocked threads.\<close>

lemma filter_abs_sleep:
  "filter (\<lambda>x. fst x \<notin> T) (abs_sleep th ts) = abs_sleep th (filter (\<lambda>t. t \<notin> T) ts)"
  by (induction ts) (simp_all add: abs_sleep_def)

lemma abs_wake:
  assumes "ready_list s' = ready_list s @ ts" and "sleep_list s' = filter (\<lambda>t. t \<notin> set ts) (sleep_list s)"
    and "\<forall>q\<in>Q. wait_list s' q = filter (\<lambda>t. t \<notin> set ts) (wait_list s q)" and "current_thread s' = current_thread s"
    and "\<forall>t. t \<notin> set ts \<longrightarrow> th_wake_tick (threads s' t) = th_wake_tick (threads s t)"
  shows "abs_sched Q s' = a_wake ts (abs_sched Q s)"
proof -
  have "abs_sleep (threads s') (sleep_list s') = filter (\<lambda>x. fst x \<notin> set ts) (abs_sleep (threads s) (sleep_list s))"
    unfolding filter_abs_sleep assms(2) by (rule abs_sleep_cong) (use assms(5) in auto)
  then show ?thesis using assms by (auto simp: abs_sched_def a_wake_def fun_eq_iff)
qed

lemma abs_tick_due: "map fst (filter (\<lambda>x. snd x \<le> now) (a_sleep (abs_sched Q s))) = due now s"
proof -
  have "map fst (filter (\<lambda>x. snd x \<le> now) (abs_sleep th ts)) = filter (\<lambda>t. th_wake_tick (th t) \<le> now) ts" for th ts
    by (induction ts) (simp_all add: abs_sleep_def)
  then show ?thesis by (simp add: abs_sched_def due_def)
qed

lemma started_current: "sched_inv Q s \<Longrightarrow> threads_started s \<longleftrightarrow> (\<exists>c. current_thread s = Some c)"
  by (auto simp: sched_inv_def)

lemma tick_step:
  fixes s :: "'a sched_scheme"
  assumes inv: "sched_inv Q s" and st: "threads_started s"
  shows "returns (thread_on_timer_tick s) (\<lambda>_ s'. step_ok Q Tick s s')"
proof -
  obtain c where cur: "current_thread s = Some c" using started_current [OF inv] st by blast
  show ?thesis
  proof (rule returns_mono [OF returns_conj [OF tick_ok [OF inv cur] tick_keeps [OF inv cur]]], goal_cases)
    case (1 u s')
    then have more: "sched.more s' = sched.more s" by blast
    from 1 have d: "sched_inv Q s'" "current_thread s' = Some c"
      "threads s' = (if c = 0 then woken_at (ticks s) s else (woken_at (ticks s) s)(c := ticked (threads s c)))"
      "ready_list s' = ready_list s @ due (ticks s) s"
      "sleep_list s' = filter (\<lambda>t. th_wake_tick (threads s t) > ticks s) (sleep_list s)"
      "\<forall>q\<in>Q. wait_list s' q = filter (\<lambda>t. t \<notin> set (due (ticks s) s)) (wait_list s q)" by blast+
    have "sleep_list s' = filter (\<lambda>t. t \<notin> set (due (ticks s) s)) (sleep_list s)"
      unfolding d(5) by (rule filter_cong) (auto simp: due_def not_le)
    moreover have "th_wake_tick (threads s' t) = th_wake_tick (threads s t)" if "t \<notin> set (due (ticks s) s)" for t
      using that by (simp add: d(3) woken_at_def ticked_def)
    ultimately have "abs_sched Q s' = a_wake (due (ticks s) s) (abs_sched Q s)"
      using d cur by (intro abs_wake) auto
    then show ?case using d(1) more by (simp add: step_ok_def abs_tick_due)
  qed
qed

lemma filter_removes: "distinct ts \<Longrightarrow> filter (\<lambda>t. t \<notin> set (take n ts)) ts = drop n ts"
proof (induction ts arbitrary: n)
  case (Cons t ts)
  show ?case
  proof (cases n)
    case (Suc m)
    have "filter (\<lambda>x. x \<noteq> t \<and> x \<notin> set (take m ts)) ts = filter (\<lambda>x. x \<notin> set (take m ts)) ts"
      using Cons.prems by (intro filter_cong) auto
    then show ?thesis using Cons Suc by simp
  qed simp
qed simp

text \<open>Waiters of one queue are on no other.\<close>

lemma waiters_elsewhere:
  assumes "sched_inv Q s" and "q \<in> Q" and "q' \<in> Q" and "q' \<noteq> q" and "set ts \<subseteq> set (wait_list s q)"
  shows "filter (\<lambda>t. t \<notin> set ts) (wait_list s q') = wait_list s q'" and "distinct (wait_list s q)"
proof -
  have w: "winv Q (threads s) (wait_list s)"
    using assms(1) queues_ok_parts(3) by (auto simp: sched_inv_def consistent_def)
  then show "distinct (wait_list s q)" using assms(2) by (simp add: winv_def)
  show "filter (\<lambda>t. t \<notin> set ts) (wait_list s q') = wait_list s q'"
    using w assms(2-5) by (auto simp: winv_def intro!: filter_True)
qed

lemma wake_one_step:
  fixes s :: "'a sched_scheme"
  assumes inv: "sched_inv Q s" and q: "q \<in> Q"
  shows "returns (wait_queue_wake_one q s) (\<lambda>_ s'. step_ok Q (Wake_one q) s s')"
proof (rule returns_mono [OF wake_one_ok [OF inv q]], goal_cases)
  case (1 t s')
  let ?ts = "take 1 (wait_list s q)"
  from 1 have d: "sched_inv Q s'" "kept s s'" "threads s' = wake_waiters (set ?ts) (threads s)"
    "ready_list s' = ready_list s @ ?ts" "sleep_list s' = filter (\<lambda>t. t \<notin> set ?ts) (sleep_list s)"
    "\<forall>q'\<in>Q. wait_list s' q' = (if q' = q then tl (wait_list s q) else wait_list s q')" by blast+
  have ds: "distinct (wait_list s q)"
    using inv q queues_ok_parts(3) by (fastforce simp: sched_inv_def consistent_def winv_def)
  have "wait_list s' q' = filter (\<lambda>t. t \<notin> set ?ts) (wait_list s q')" if "q' \<in> Q" for q'
    using d(6) that waiters_elsewhere(1) [OF inv q that, of ?ts] filter_removes [OF ds, of 1] set_take_subset [of 1 "wait_list s q"]
    by (cases "q' = q") (simp_all add: drop_Suc)
  then have "abs_sched Q s' = a_wake ?ts (abs_sched Q s)"
    using d by (intro abs_wake) (auto simp: wake_waiters_def kept_def)
  then show ?case using d(1,2) q by (simp add: step_ok_def abs_sched_def kept_def)
qed

lemma wake_all_step:
  fixes s :: "'a sched_scheme"
  assumes inv: "sched_inv Q s" and q: "q \<in> Q"
  shows "returns (wait_queue_wake_all q s) (\<lambda>_ s'. step_ok Q (Wake_all q) s s')"
proof (rule returns_mono [OF wake_all_ok [OF inv q]], goal_cases)
  case (1 u s')
  let ?ts = "wait_list s q"
  from 1 have d: "sched_inv Q s'" "kept s s'" "threads s' = wake_waiters (set ?ts) (threads s)"
    "ready_list s' = ready_list s @ ?ts" "sleep_list s' = filter (\<lambda>t. t \<notin> set ?ts) (sleep_list s)"
    "\<forall>q'\<in>Q. wait_list s' q' = (if q' = q then [] else wait_list s q')" by blast+
  have "wait_list s' q' = filter (\<lambda>t. t \<notin> set ?ts) (wait_list s q')" if "q' \<in> Q" for q'
    using d(6) that waiters_elsewhere(1) [OF inv q that, of ?ts] by (cases "q' = q") simp_all
  then have "abs_sched Q s' = a_wake ?ts (abs_sched Q s)"
    using d by (intro abs_wake) (auto simp: wake_waiters_def kept_def)
  then show ?case using d(1,2) q by (simp add: step_ok_def abs_sched_def kept_def)
qed

lemma runs_realE:
  assumes "runs_real s"
  obtains c where "current_thread s = Some c" and "c \<noteq> 0"
  using assms by (auto simp: runs_real_def split: option.splits)

lemma abs_create:
  assumes inv: "sched_inv Q s" and slot: "free_slot s = Some t" and d: "create_done t x s s'"
  shows "abs_sched Q s' = (abs_sched Q s)\<lparr>a_ready := ready_list s @ [t]\<rparr>"
proof -
  have "t \<notin> set (sleep_list s)"
    using sleepers_blocked(2) [OF inv, of t] free_slot_Some(2) [OF slot] by (auto simp: is_free_def)
  then have "abs_sleep (threads s') (sleep_list s') = abs_sleep (threads s) (sleep_list s)"
    using d by (simp add: create_done_def) (rule abs_sleep_cong, auto)
  then show ?thesis using d by (simp add: create_done_def abs_sched_def cong: if_cong)
qed

lemma abs_exit:
  assumes inv: "sched_inv Q s" and cur: "current_thread s = Some c" and d: "exit_done c code s s'"
  shows "abs_sched Q s' = a_dispatch (abs_sched Q s)"
proof -
  have "abs_sleep (threads s') (sleep_list s') = abs_sleep (threads s) (sleep_list s)"
    using d next_not_sleeping(1,2) [OF inv cur] by (simp add: exit_done_def) (rule abs_sleep_cong, auto)
  then show ?thesis using d by (simp add: exit_done_def abs_sched_def a_dispatch_def next_tid_case cong: if_cong)
qed

lemma start_step:
  fixes s :: "'a sched_scheme"
  assumes inv: "sched_inv Q s" and ns: "\<not> threads_started s"
  shows "returns (thread_start s) (\<lambda>_ s'. step_ok Q Start s s')"
proof (rule returnsE [OF start_ok [OF inv ns]])
  fix f s'
  assume run: "thread_start s = Inr (f, s')" and "sched_inv Q s' \<and> f = th_trap_frame (threads s (next_tid s)) \<and> f \<noteq> 0 \<and>
    current_thread s' = Some (next_tid s) \<and> threads s' = run_next s \<and> ready_list s' = tl (ready_list s) \<and> threads_started s' \<and>
    sched.more s' = sched.more s"
  then have d: "sched_inv Q s'" "current_thread s' = Some (next_tid s)" "threads s' = run_next s" "ready_list s' = tl (ready_list s)"
    "sched.more s' = sched.more s"
    by blast+
  have g: "\<not> (\<not> threads_initialized s \<or> threads_started s)" using inv ns by (simp add: sched_inv_def)
  have sl: "sleep_queue s' = sleep_queue s \<and> wait_queues s' = wait_queues s"
    using run unfolding thread_start_def if_not_P [OF g]
    by (auto simp: irq_save_def csr_clear_sstatus_def Let_def pick_next_thread_def ready_dequeue_def
        simp del: console_write.simps split: prod.splits if_splits elim!: bindE_InrE)
  have "abs_sleep (threads s') (sleep_list s) = abs_sleep (threads s) (sleep_list s)"
    by (rule abs_sleep_cong) (simp add: d(3) run_next_def)
  then have "abs_sched Q s' = a_dispatch (abs_sched Q s)"
    using d sl by (simp add: abs_sched_def a_dispatch_def next_tid_case sleep_list_def wait_list_def cong: if_cong)
  then show ?thesis using run d(1,5) by (simp add: step_ok_def)
qed

lemma yield_step:
  fixes s :: "'a sched_scheme"
  assumes inv: "sched_inv Q s" and st: "threads_started s" and f: "f \<noteq> 0"
  shows "returns (thread_yield_current_from_trap f s) (\<lambda>_ s'. step_ok Q (Yield f) s s')"
    and "returns (thread_maybe_preempt_from_trap f s) (\<lambda>_ s'. step_ok Q (Preempt f) s s')"
proof -
  obtain c where cur: "current_thread s = Some c" using started_current [OF inv] st by blast
  show "returns (thread_yield_current_from_trap f s) (\<lambda>_ s'. step_ok Q (Yield f) s s')"
    by (rule returns_mono [OF yield_ok [OF inv cur f]]) (auto simp: step_ok_def abs_yield [OF inv cur] done_more)
  have a: "a_cur (abs_sched Q s) = Some c" using cur by (simp add: abs_sched_def)
  show "returns (thread_maybe_preempt_from_trap f s) (\<lambda>_ s'. step_ok Q (Preempt f) s s')"
    by (rule returns_mono [OF preempt_ok [OF inv cur f]])
      (auto simp: step_ok_def preempt_done_def a abs_yield [OF inv cur] done_more split: if_splits)
qed

lemma create_step:
  fixes s :: "'a sched_scheme"
  assumes inv: "sched_inv Q s" and l: "stacks_ok (link s)"
  shows "entry \<noteq> 0 \<Longrightarrow> returns (thread_create name entry arg s) (\<lambda>_ s'. step_ok Q (Create name entry arg) s s')"
    and "user_task_is_ready task s \<Longrightarrow> returns (thread_create_user name task s) (\<lambda>_ s'. step_ok Q (Create_user name task) s s')"
proof -
  have a: "a_ready (abs_sched Q s) = ready_list s" by (simp add: abs_sched_def)
  have *: "step_ok Q e s s'" if "sched_inv Q s'" and "e = Create name entry arg \<or> e = Create_user name task"
    and "case free_slot s of None \<Rightarrow> s' = s | Some t \<Rightarrow> \<exists>x. create_done t x s s'" for e s' entry task
    using that abs_create [OF inv, of _ _ s'] by (auto simp: step_ok_def a done_more split: option.splits)
  show "entry \<noteq> 0 \<Longrightarrow> returns (thread_create name entry arg s) (\<lambda>_ s'. step_ok Q (Create name entry arg) s s')"
    by (rule returns_mono [OF create_ok [OF inv l]]) (auto intro!: * split: option.splits)
  show "user_task_is_ready task s \<Longrightarrow> returns (thread_create_user name task s) (\<lambda>_ s'. step_ok Q (Create_user name task) s s')"
    by (rule returns_mono [OF create_user_ok [OF inv l]]) (auto intro!: * split: option.splits)
qed

lemma blocking_step:
  fixes s :: "'a sched_scheme"
  assumes inv: "sched_inv Q s" and run: "runs_real s" and f: "f \<noteq> 0"
  shows "returns (thread_sleep_current_from_trap f n s) (\<lambda>_ s'. step_ok Q (Sleep f n) s s')"
    and "q \<in> Q \<Longrightarrow> returns (block_current_from_trap f q n s) (\<lambda>_ s'. step_ok Q (Wait f q n) s s')"
proof -
  obtain c where cur: "current_thread s = Some c" and nz: "c \<noteq> 0" using run by (rule runs_realE)
  have a: "the (a_cur (abs_sched Q s)) = c" using cur by (simp add: abs_sched_def)
  show "returns (thread_sleep_current_from_trap f n s) (\<lambda>_ s'. step_ok Q (Sleep f n) s s')"
    by (rule returns_mono [OF sleep_ok [OF inv cur nz f]])
      (auto simp: step_ok_def a abs_yield [OF inv cur] abs_sleep_step [OF inv cur nz] done_more split: if_splits)
  show "q \<in> Q \<Longrightarrow> returns (block_current_from_trap f q n s) (\<lambda>_ s'. step_ok Q (Wait f q n) s s')"
    by (rule returns_mono [OF block_ok [OF inv cur nz f]]) (auto simp: step_ok_def a done_more dest: abs_block_step [OF inv cur nz])
qed

lemma exit_step:
  fixes s :: "'a sched_scheme"
  assumes inv: "sched_inv Q s" and ex: "exit_allowed f s"
  shows "returns (thread_exit_current_from_trap f s) (\<lambda>_ s'. step_ok Q (Exit f) s s')"
proof -
  obtain c where cur: "current_thread s = Some c" and nz: "c \<noteq> 0"
    and u: "th_user_task (threads s c) \<noteq> 0 \<Longrightarrow> load64 (f + FRAME_MSTATUS) s AND SSTATUS_SPP = 0 \<and>
        user_task_is_ready (th_user_task (threads s c)) s \<and> task_owns (task_at s (th_user_task (threads s c))) s"
    using ex by (auto simp: exit_allowed_def split: option.splits)
  show ?thesis
    unfolding thread_exit_current_from_trap_def
    by (rule returns_mono [OF exit_ok [OF inv cur nz]]) (use u in \<open>auto simp: step_ok_def abs_exit [OF inv cur] done_more\<close>)
qed

lemma queue_init_step:
  fixes s :: "'a sched_scheme"
  assumes inv: "sched_inv Q s" and "q \<noteq> 0" "q \<notin> Q" "length (wq_tids (wait_queues s q)) = THREAD_MAX - 1"
  shows "returns (wait_queue_init q name s) (\<lambda>_ s'. step_ok Q (Queue_init q name) s s')"
proof (rule returnsE [OF wait_queue_init_ok [OF assms]])
  fix u s'
  assume run: "wait_queue_init q name s = Inr (u, s')" and d: "sched_inv (insert q Q) s' \<and> wait_list s' = (wait_list s)(q := []) \<and>
    threads s' = threads s \<and> ready_list s' = ready_list s \<and> sleep_list s' = sleep_list s \<and> sched.more s' = sched.more s"
  have "current_thread s' = current_thread s"
    using run assms(2) by (auto simp: wait_queue_init_def irq_masked_def irq_save_def csr_clear_sstatus_def irq_restore_masked)
  then have "abs_sched (insert q Q) s' = abs_sched Q s" using d assms(3) by (auto simp: abs_sched_def)
  then show ?thesis using run d by (simp add: step_ok_def)
qed

lemma sched_do_ok:
  fixes s :: "'a sched_scheme"
  assumes inv: "sched_inv Q s" and al: "allowed Q e s"
  shows "returns (sched_do e s) (\<lambda>_ s'. step_ok Q e s s')"
  using al start_step [OF inv] tick_step [OF inv] yield_step [OF inv] blocking_step [OF inv] exit_step [OF inv]
    wake_one_step [OF inv] wake_all_step [OF inv] create_step [OF inv] queue_init_step [OF inv]
  by (cases e) (auto simp: with_frame_def no_frame_def)

section \<open>Reachable states\<close>

text \<open>
  Between two events the rest of the kernel, user programs and the devices may change anything
  but the scheduler's own variables.
\<close>

definition same_sched :: "'a sched_scheme \<Rightarrow> 'a sched_scheme \<Rightarrow> bool" where
  "same_sched s s' \<longleftrightarrow> threads s' = threads s \<and> ready_queue s' = ready_queue s \<and> sleep_queue s' = sleep_queue s \<and>
     wait_queues s' = wait_queues s \<and> current_thread s' = current_thread s \<and> threads_started s' = threads_started s \<and>
     threads_initialized s' = threads_initialized s \<and> preempt_disable_depth s' = preempt_disable_depth s \<and>
     reschedule_requested s' = reschedule_requested s"

lemma same_sched_inv:
  assumes "same_sched s s'"
  shows "sched_inv Q s' = sched_inv Q s"
proof -
  have "ready_list s' = ready_list s" "sleep_list s' = sleep_list s" "wait_list s' = wait_list s"
    using assms by (simp_all add: same_sched_def ready_list_def sleep_list_def wait_list_def fun_eq_iff)
  then show ?thesis using assms by (simp add: same_sched_def sched_inv_def consistent_def queues_ok_def)
qed

inductive sched_reach :: "u64 set \<Rightarrow> 'a sched_scheme \<Rightarrow> bool" where
  boot: "static_ok s \<Longrightarrow> thread_init s = Inr (u, s') \<Longrightarrow> sched_reach {} s'"
| event: "sched_reach Q s \<Longrightarrow> allowed Q e s \<Longrightarrow> sched_do e s = Inr (f, s') \<Longrightarrow> sched_reach (queues_after e Q) s'"
| other: "sched_reach Q s \<Longrightarrow> same_sched s s' \<Longrightarrow> sched_reach Q s'"

lemma reach_inv: "sched_reach Q s \<Longrightarrow> sched_inv Q s"
proof (induction rule: sched_reach.induct)
  case (boot s u s')
  show ?case using returnsD [OF init_ok [OF boot(1)] boot(2)] by blast
next
  case (event Q s e f s')
  show ?case using returnsD [OF sched_do_ok [OF event.IH event(2)] event(3)] by (simp add: step_ok_def)
next
  case (other Q s s')
  then show ?case using same_sched_inv by blast
qed

section \<open>The control trap\<close>

text \<open>
  The request in \<open>a7\<close>, \<open>a0\<close> and \<open>a1\<close> of a frame, as an event. A
  timed wait of zero ticks is answered at once and is not an event.
\<close>

definition decode_control :: "u64 \<Rightarrow> 'a sched_scheme \<Rightarrow> sched_event option" where
  "decode_control frame s =
     (let op = load64 (frame + FRAME_A7) s; a0 = load64 (frame + FRAME_A0) s; a1 = load64 (frame + FRAME_A1) s in
      if op = THREAD_TRAP_YIELD then Some (Yield frame)
      else if op = THREAD_TRAP_EXIT then Some (Exit frame)
      else if op = THREAD_TRAP_SLEEP then Some (Sleep frame a0)
      else if op = THREAD_TRAP_WAIT then Some (Wait frame a0 0)
      else if op = THREAD_TRAP_WAIT_TIMEOUT \<and> a1 \<noteq> 0 then Some (Wait frame a0 a1)
      else None)"

definition skip_ebreak :: "u64 \<Rightarrow> 'a sched_scheme \<Rightarrow> 'a sched_scheme" where
  "skip_ebreak frame s = store64 (frame + FRAME_MEPC) (load64 (frame + FRAME_MEPC) s + 4) s"

lemma skip_same: "same_sched s (skip_ebreak frame s)"
  by (simp add: same_sched_def skip_ebreak_def)

lemma frame_cells:
  assumes "unat (frame :: u64) mod 8 = 0"
  shows "load64 (frame + FRAME_A0) (skip_ebreak frame s) = load64 (frame + FRAME_A0) s"
    and "load64 (frame + FRAME_A1) (skip_ebreak frame s) = load64 (frame + FRAME_A1) s"
    and "load64 (frame + FRAME_A7) (skip_ebreak frame s) = load64 (frame + FRAME_A7) s"
  using read_word_write [OF assms, of 9 31] read_word_write [OF assms, of 10 31] read_word_write [OF assms, of 16 31]
  by (simp_all add: skip_ebreak_def load64_def store64_def FRAME_A0_def FRAME_A1_def FRAME_A7_def FRAME_MEPC_def)

end
