(* ===== verification/Sched_Thms.thy ===== *)
theory Sched_Thms
  imports Sched_Run
begin

text \<open>
  The properties of the scheduler, on the code's own functions, and a concrete scheduler state
  on which they are applied.
\<close>

section \<open>A concrete scheduler\<close>

text \<open>
  Thread 1 runs, thread 2 is ready, thread 3 sleeps until tick 5, thread 4 waits on the queue
  at \<open>0x100\<close> with a timeout at tick 9. It is tick 5 and a switch has been requested.
\<close>

definition demo_thread :: "tid_t \<Rightarrow> thread" where
  "demo_thread t =
     (let th = (unused_thread t)\<lparr>th_trap_frame := 0x8000\<rparr> in
      if t = 0 then th\<lparr>th_state := THREAD_READY\<rparr>
      else if t = 1 then th\<lparr>th_state := THREAD_RUNNING\<rparr>
      else if t = 2 then th\<lparr>th_state := THREAD_READY, th_in_ready_queue := True\<rparr>
      else if t = 3 then th\<lparr>th_state := THREAD_BLOCKED, th_wait_reason := THREAD_WAIT_SLEEP,
        th_in_sleep_queue := True, th_wake_tick := 5\<rparr>
      else if t = 4 then th\<lparr>th_state := THREAD_BLOCKED, th_wait_reason := THREAD_WAIT_QUEUE_TIMEOUT,
        th_in_sleep_queue := True, th_in_wait_queue := True, th_wait_queue := 0x100, th_wake_tick := 9\<rparr>
      else unused_thread t)"

definition demo_sched :: sched where
  "demo_sched =
     \<lparr>mem = (\<lambda>_. 0), sstatus = 2, satp = 0, sfences = 0, console = [], cycle_at = (\<lambda>_. 0), cycle_reads = 0,
      link = demo_link, page_bitmap = [], page_bitmap_words = 0, managed_start = 0, managed_end = 0, total_pages = 0,
      free_pages = 0, next_free_hint = 0, page_allocator_initialized = False, kernel_space = \<lparr>vm_root = 0\<rparr>,
      kernel_satp = 0, user_tasks = (\<lambda>_. \<lparr>ut_state = USER_TASK_UNUSED, ut_address_space = \<lparr>vm_root = 0\<rparr>,
        ut_user_satp = 0, ut_exit_code = 0, ut_code_page = 0, ut_stack_page = 0, ut_trap_context = 0\<rparr>),
      ticks = 5, next_compare = 0, mtime_at = (\<lambda>_. 0), mtime_reads = 0, mtimecmp = 0,
      csrs = \<lparr>c_mstatus = 0, c_mcause = 0, c_mepc = 0, c_mie = 0, c_mip = 0, c_mtval = 0, c_mtvec = 0, c_mscratch = 0,
        c_medeleg = 0, c_mideleg = 0, c_mcounteren = 0, c_pmpaddr0 = 0, c_pmpcfg0 = 0, c_sie = 0, c_stvec = 0,
        c_scause = 0, c_sepc = 0, c_stval = 0\<rparr>,
      trace_events = [], trace_next_seq = 0, trace_head = 0, trace_count = 0, trace_overwrites = 0,
      threads = demo_thread, usercopy_probes = (\<lambda>_. \<lparr>up_active = False, up_pc_start = 0, up_pc_end = 0,
        up_fixup_pc = 0, up_user_start = 0, up_user_end = 0, up_fault_cause = 0\<rparr>),
      ready_queue = \<lparr>tq_tids = [2, 0, 0, 0, 0, 0, 0], tq_head = 0, tq_tail = 1, tq_count = 1\<rparr>,
      sleep_queue = \<lparr>sq_tids = [3, 4, 0, 0, 0, 0, 0], sq_count = 2\<rparr>,
      wait_queues = (\<lambda>_. \<lparr>wq_tids = [4, 0, 0, 0, 0, 0, 0], wq_head = 0, wq_tail = 1, wq_count = 1, wq_name = None\<rparr>),
      current_thread = Some 1, threads_initialized = True, threads_started = True, reschedule_requested = True,
      preempt_disable_depth = 0\<rparr>"

lemma demo_lists [simp]:
  "ready_list demo_sched = [2]" "sleep_list demo_sched = [3, 4]" "wait_list demo_sched q = [4]"
  "current_thread demo_sched = Some 1" "threads demo_sched = demo_thread" "ticks demo_sched = 5"
  "threads_started demo_sched" "reschedule_requested demo_sched" "link demo_sched = demo_link"
  by (simp_all add: demo_sched_def ready_list_def tq_items_def ring_def THREAD_MAX_def sleep_list_def sq_items_def
      wait_list_def wq_items_def)

lemma demo_inv: "sched_inv {0x100} demo_sched"
proof -
  have "rinv demo_thread [2]" "sinv demo_thread [3, 4]"
    by (auto simp: rinv_def sinv_def real_iff demo_thread_def unused_thread_def)
  moreover have "winv {0x100} demo_thread (wait_list demo_sched)"
    by (auto simp: winv_def real_iff demo_thread_def unused_thread_def)
  moreover have "tq_ok (ready_queue demo_sched)" "sq_ok (sleep_queue demo_sched)" "wq_ok (wait_queues demo_sched q)" for q
    by (simp_all add: demo_sched_def tq_ok_def sq_ok_def wq_ok_def THREAD_MAX_def)
  ultimately have "queues_ok {0x100} demo_sched" by (simp add: queues_ok_def)
  moreover have "\<forall>t. tid_is_real t \<longrightarrow> thread_ok t (demo_thread t)"
    by (auto simp: real_iff demo_thread_def unused_thread_def thread_ok_def)
  moreover have "null_ok (demo_thread 0)" by (simp add: demo_thread_def unused_thread_def null_ok_def)
  moreover have "only_running demo_thread (Some 1)"
    by (auto simp: only_running_def valid_iff real_iff demo_thread_def unused_thread_def)
  ultimately show ?thesis by (simp add: sched_inv_def consistent_def) (simp add: demo_sched_def)
qed

lemma demo_stacks: "stacks_ok demo_link"
  by (simp add: stacks_ok_def demo_link_def THREAD_MAX_def)

lemma demo_free: "free_slot demo_sched = Some 5"
  by (simp add: free_slot_def all_tids_def demo_thread_def unused_thread_def)

text \<open>A booted scheduler is reachable.\<close>

definition demo_off :: sched where
  "demo_off = demo_sched\<lparr>current_thread := None, threads_started := False\<rparr>"

lemma demo_booted:
  obtains s where "thread_init demo_off = Inr ((), s)" and "sched_reach {} s" and "\<not> threads_started s" and "link s = demo_link"
proof -
  have ok: "static_ok demo_off" by (simp add: static_ok_def demo_off_def demo_sched_def THREAD_MAX_def demo_stacks)
  obtain u s where s: "thread_init demo_off = Inr (u, s)" "\<not> threads_started s" "link s = link demo_off"
    using init_ok [OF ok] by (rule returnsE) blast
  have "sched_reach {} s" by (rule sched_reach.boot [OF ok s(1)])
  with s show ?thesis by (intro that [of s]) (simp_all add: demo_off_def)
qed

section \<open>Invariant, safety, refinement\<close>

text \<open>
  C2: In every reachable state exactly the current thread is in the running state, the ready
  queue holds exactly the ready threads, the sleep queue exactly the threads blocked in a sleep or
  a timed wait, in the order of their wake ticks, and each wait queue exactly the threads blocked
  on it, without repetition in any queue.
\<close>

theorem sched_queues_match:
  assumes "sched_reach Q s"
  shows "(\<forall>t. tid_is_valid t \<longrightarrow> (th_state (threads s t) = THREAD_RUNNING \<longleftrightarrow> current_thread s = Some t)) \<and>
    (\<forall>t. tid_is_real t \<longrightarrow>
       (t \<in> set (ready_list s) \<longleftrightarrow> th_state (threads s t) = THREAD_READY) \<and>
       (t \<in> set (sleep_list s) \<longleftrightarrow> th_state (threads s t) = THREAD_BLOCKED \<and>
          th_wait_reason (threads s t) \<in> {THREAD_WAIT_SLEEP, THREAD_WAIT_QUEUE_TIMEOUT}) \<and>
       (\<forall>q\<in>Q. t \<in> set (wait_list s q) \<longleftrightarrow> th_state (threads s t) = THREAD_BLOCKED \<and>
          th_wait_reason (threads s t) \<in> {THREAD_WAIT_QUEUE, THREAD_WAIT_QUEUE_TIMEOUT} \<and> th_wait_queue (threads s t) = q)) \<and>
    distinct (ready_list s) \<and> distinct (sleep_list s) \<and> (\<forall>q\<in>Q. distinct (wait_list s q)) \<and>
    sorted (map (\<lambda>t. th_wake_tick (threads s t)) (sleep_list s))"
proof -
  have con: "consistent {} Q s" and run: "only_running (threads s) (current_thread s)"
    using reach_inv [OF assms] by (simp_all add: sched_inv_def)
  note parts = queues_ok_parts(1-3) [OF consistentD(1) [OF con], unfolded rinv_def sinv_def winv_def]
  have ok: "thread_ok t (threads s t)" if "tid_is_real t" for t using consistentD(2) [OF con that] by simp
  have "(t \<in> set (ready_list s) \<longleftrightarrow> th_state (threads s t) = THREAD_READY) \<and>
       (t \<in> set (sleep_list s) \<longleftrightarrow> th_state (threads s t) = THREAD_BLOCKED \<and>
          th_wait_reason (threads s t) \<in> {THREAD_WAIT_SLEEP, THREAD_WAIT_QUEUE_TIMEOUT}) \<and>
       (\<forall>q\<in>Q. t \<in> set (wait_list s q) \<longleftrightarrow> th_state (threads s t) = THREAD_BLOCKED \<and>
          th_wait_reason (threads s t) \<in> {THREAD_WAIT_QUEUE, THREAD_WAIT_QUEUE_TIMEOUT} \<and> th_wait_queue (threads s t) = q)"
    if "tid_is_real t" for t
    using parts ok [OF that] that unfolding thread_ok_def by simp
  then show ?thesis using parts run unfolding only_running_def by blast
qed

theorem sched_queues_match_witness:
  "\<exists>s :: sched. sched_reach {} s \<and> distinct (ready_list s) \<and> sorted (map (\<lambda>t. th_wake_tick (threads s t)) (sleep_list s))"
proof -
  obtain s :: sched where s: "sched_reach {} s" using demo_booted by blast
  from sched_queues_match [OF s] s show ?thesis by blast
qed

text \<open>
  C3: In a reachable state every call the scheduler's clients are allowed to make returns: none
  of its panics can fire.
\<close>

theorem sched_no_panic:
  fixes s :: "'a sched_scheme"
  assumes "sched_reach Q s" and "allowed Q e s"
  shows "\<exists>f s'. sched_do e s = Inr (f, s') \<and> sched_reach (queues_after e Q) s'"
  using sched_do_ok [OF reach_inv [OF assms(1)] assms(2)] sched_reach.event [OF assms]
  by (auto elim!: returnsE)

theorem sched_no_panic_witness:
  "\<exists>(s :: sched) f s'. sched_reach {} s \<and> sched_do (Create None 0x80000700 0) s = Inr (f, s') \<and> sched_reach {} s'"
proof -
  obtain s :: sched where s: "sched_reach {} s" "link s = demo_link" using demo_booted by blast
  then have "allowed {} (Create None 0x80000700 0) s" using demo_stacks by simp
  from sched_no_panic [OF s(1) this] s(1) show ?thesis by auto
qed

text \<open>
  C1: The code refines the abstract scheduler: whatever event is served, the queues and the
  choice of the running thread change exactly as the abstract step on lists says.
\<close>

theorem sched_refines:
  fixes s :: "'a sched_scheme"
  assumes "sched_inv Q s" and "allowed Q e s"
  shows "\<exists>f s'. sched_do e s = Inr (f, s') \<and> sched_inv (queues_after e Q) s' \<and>
    abs_sched (queues_after e Q) s' = a_step e (ticks s) (reschedule_requested s) (free_slot s) (abs_sched Q s)"
  using sched_do_ok [OF assms] by (auto elim!: returnsE simp: step_ok_def)

theorem sched_refines_witness:
  "\<exists>f s'. sched_do (Sleep 0x9000 3) demo_sched = Inr (f, s') \<and> a_cur (abs_sched {0x100} s') = Some 2 \<and>
     a_ready (abs_sched {0x100} s') = [] \<and> a_sleep (abs_sched {0x100} s') = [(3, 5), (1, 8), (4, 9)]"
proof -
  have al: "allowed {0x100} (Sleep 0x9000 3) demo_sched" by (simp add: runs_real_def)
  obtain f s' where r: "sched_do (Sleep 0x9000 3) demo_sched = Inr (f, s')"
    "abs_sched {0x100} s' = a_step (Sleep 0x9000 3) 5 True (free_slot demo_sched) (abs_sched {0x100} demo_sched)"
    using sched_refines [OF demo_inv al] by auto
  have "abs_sched {0x100} s' = \<lparr>a_cur = Some 2, a_ready = [], a_sleep = [(3, 5), (1, 8), (4, 9)],
      a_wait = (\<lambda>q. if q \<in> {0x100} then [4] else [])\<rparr>"
    unfolding r(2) by (simp add: abs_sched_def abs_sleep_def a_dispatch_def a_enqueue_sleeper_def demo_thread_def unused_thread_def cong: if_cong)
  with r(1) show ?thesis by simp
qed

section \<open>Round robin\<close>

primrec yields :: "u64 list \<Rightarrow> 'a sched_scheme \<Rightarrow> (unit \<times> 'a sched_scheme) res" where
  "yields [] s = Inr ((), s)"
| "yields (f # fs) s = bindE (thread_yield_current_from_trap f s) (\<lambda>(_, s). yields fs s)"

lemma yields_reach:
  fixes s :: "'a sched_scheme"
  assumes "sched_inv Q s" and "threads_started s" and "ready_list s = ts @ t # us" and "length fs = Suc (length ts)"
    and "\<forall>f\<in>set fs. f \<noteq> 0"
  shows "returns (yields fs s) (\<lambda>_ s'. sched_inv Q s' \<and> current_thread s' = Some t)"
  using assms
proof (induction ts arbitrary: s us fs)
  case Nil
  obtain c where cur: "current_thread s = Some c" using started_current [OF Nil(1)] Nil(2) by blast
  obtain f where f: "fs = [f]" "f \<noteq> 0" using Nil(4,5) by (cases fs) auto
  show ?case
    unfolding f by simp (rule returns_mono [OF yield_ok [OF Nil(1) cur f(2)]], use Nil(3) in \<open>simp add: yield_done_def\<close>)
next
  case (Cons n ts)
  obtain c where cur: "current_thread s = Some c" using started_current [OF Cons.prems(1)] Cons.prems(2) by blast
  obtain f fs' where f: "fs = f # fs'" "f \<noteq> 0" "length fs' = Suc (length ts)" "\<forall>f\<in>set fs'. f \<noteq> 0"
    using Cons.prems(4,5) by (cases fs) auto
  show ?case
    unfolding f(1) yields.simps returns_bind
  proof (rule returns_mono [OF yield_ok [OF Cons.prems(1) cur f(2)]], elim conjE)
    fix g s'
    assume i: "sched_inv Q s'" and y: "yield_done c f s g s'"
    then have "current_thread s' = Some n" "ready_list s' = ts @ t # us @ (if c = 0 then [] else [c])"
      using Cons.prems(3) by (simp_all add: yield_done_def)
    then show "returns (yields fs' s') (\<lambda>_ s'. sched_inv Q s' \<and> current_thread s' = Some t)"
      using started_current [OF i] by (intro Cons.IH [OF i _ _ f(3,4)]) auto
  qed
qed

text \<open>
  C25: Round robin: a thread with \<open>n\<close> threads before it in the ready queue runs after
  exactly \<open>n + 1\<close> yields, whoever yields and whatever else is ready.
\<close>

theorem round_robin:
  fixes s :: "'a sched_scheme"
  assumes "sched_inv Q s" and "threads_started s" and "ready_list s = ts @ t # us" and "length fs = Suc (length ts)"
    and "\<forall>f\<in>set fs. f \<noteq> 0"
  shows "\<exists>s'. yields fs s = Inr ((), s') \<and> sched_inv Q s' \<and> current_thread s' = Some t"
  using yields_reach [OF assms] by (auto elim!: returnsE)

theorem round_robin_witness: "\<exists>s'. yields [0x9000] demo_sched = Inr ((), s') \<and> current_thread s' = Some 2"
  using round_robin [OF demo_inv, of "[]" 2 "[]" "[0x9000]"] by auto

section \<open>Preemption\<close>

text \<open>
  Timer interrupts as the scheduler sees them: the tick, and the return from the trap, which may be to another thread.
\<close>

primrec interrupts :: "nat \<Rightarrow> u64 \<Rightarrow> 'a sched_scheme \<Rightarrow> (u64 \<times> 'a sched_scheme) res" where
  "interrupts 0 frame s = Inr (frame, s)"
| "interrupts (Suc n) frame s = bindE (interrupts n frame s) (\<lambda>(frame, s).
     bindE (thread_on_timer_tick (s\<lparr>ticks := ticks s + 1\<rparr>)) (\<lambda>(_, s). thread_maybe_preempt_from_trap frame s))"

lemma same_sched_ticks: "same_sched s (s\<lparr>ticks := n\<rparr>)"
  by (simp add: same_sched_def)

lemma tick_in_quantum:
  fixes s :: "'a sched_scheme"
  assumes inv: "sched_inv Q s" and cur: "current_thread s = Some c" and nz: "c \<noteq> 0" and q: "th_quantum_ticks (threads s c) = of_nat n"
    and n: "n < 10" and r: "\<not> reschedule_requested s"
  shows "returns (thread_on_timer_tick (s\<lparr>ticks := ticks s + 1\<rparr>)) (\<lambda>_ s'. sched_inv Q s' \<and> current_thread s' = Some c \<and>
    th_quantum_ticks (threads s' c) = of_nat (Suc n) \<and> (reschedule_requested s' \<longleftrightarrow> n = 9) \<and>
    ready_list s' = ready_list s @ due (ticks s + 1) s)"
proof -
  let ?s = "s\<lparr>ticks := ticks s + 1\<rparr>"
  have inv': "sched_inv Q ?s" and cur': "current_thread ?s = Some c" using inv cur same_sched_inv [OF same_sched_ticks] by auto
  have lists: "ready_list ?s = ready_list s" "due (ticks ?s) ?s = due (ticks s + 1) s"
    by (simp_all add: ready_list_def due_def sleep_list_def)
  have u: "unat (of_nat n :: u16) = n" "unat (of_nat (Suc n) :: u16) = Suc n" using n by (simp_all add: unat_of_nat del: of_nat_Suc)
  have "(of_nat n :: u16) < 10" unfolding word_less_nat_alt u(1) using n by simp
  then have t: "th_quantum_ticks (ticked (threads s c)) = of_nat (Suc n)" by (simp add: ticked_def q THREAD_QUANTUM_TICKS_def)
  show ?thesis
    by (rule returns_mono [OF tick_ok [OF inv' cur']])
      (use nz r t n u lists in \<open>auto simp: THREAD_QUANTUM_TICKS_def word_le_nat_alt simp del: of_nat_Suc\<close>)
qed

lemma interrupts_in_quantum:
  fixes s :: "'a sched_scheme"
  assumes "sched_inv Q s" and "current_thread s = Some c" and "c \<noteq> 0" and "th_quantum_ticks (threads s c) = 0"
    and "\<not> reschedule_requested s" and "n < 10"
  shows "returns (interrupts n frame s) (\<lambda>f s'. f = frame \<and> sched_inv Q s' \<and> current_thread s' = Some c \<and>
    th_quantum_ticks (threads s' c) = of_nat n \<and> \<not> reschedule_requested s' \<and> (\<exists>ts. ready_list s' = ready_list s @ ts))"
  using assms(6)
proof (induction n)
  case 0
  then show ?case using assms by simp
next
  case (Suc n)
  show ?case
    unfolding interrupts.simps returns_bind
  proof (rule returns_mono [OF Suc.IH], use Suc.prems in simp, elim conjE, hypsubst, goal_cases)
    case (1 f s')
    have "returns (thread_on_timer_tick (s'\<lparr>ticks := ticks s' + 1\<rparr>)) (\<lambda>_ s''. sched_inv Q s'' \<and> current_thread s'' = Some c \<and>
        th_quantum_ticks (threads s'' c) = of_nat (Suc n) \<and> (reschedule_requested s'' \<longleftrightarrow> n = 9) \<and>
        ready_list s'' = ready_list s' @ due (ticks s' + 1) s')"
      by (rule tick_in_quantum) (use 1 assms(3) Suc.prems in simp_all)
    then show ?case
      by (rule returns_mono) (use Suc.prems 1 in \<open>auto simp: thread_maybe_preempt_from_trap_def\<close>)
  qed
qed

text \<open>
  C39: The time slice. A thread that starts with a fresh quantum keeps the processor through nine timer interrupts,
  whatever is ready. At the return from the tenth it is preempted exactly if another thread is ready by then: the first
  ready thread runs and the preempted one is last in line with its frame saved. Otherwise it goes on with a fresh
  quantum and no switch pending.
\<close>

theorem quantum_is_ten_ticks:
  fixes s :: "'a sched_scheme"
  assumes "sched_inv Q s" and "current_thread s = Some c" and "c \<noteq> 0" and "th_quantum_ticks (threads s c) = 0"
    and "\<not> reschedule_requested s" and "frame \<noteq> 0"
  shows "(\<forall>n<10. \<exists>s'. interrupts n frame s = Inr (frame, s') \<and> current_thread s' = Some c) \<and>
    (\<exists>s1 ts f s2. interrupts 9 frame s = Inr (frame, s1) \<and> ready_list s1 = ready_list s @ ts \<and> interrupts 10 frame s = Inr (f, s2) \<and> sched_inv Q s2 \<and>
       \<not> reschedule_requested s2 \<and> th_quantum_ticks (threads s2 (the (current_thread s2))) = 0 \<and>
       (case ready_list s1 @ due (ticks s1 + 1) s1 of
          [] \<Rightarrow> f = frame \<and> current_thread s2 = Some c
        | t # ts \<Rightarrow> current_thread s2 = Some t \<and> t \<noteq> c \<and> f = th_trap_frame (threads s2 t) \<and>
            ready_list s2 = ts @ [c] \<and> th_trap_frame (threads s2 c) = frame))"
proof -
  note nine = interrupts_in_quantum [OF assms(1-5), where frame = frame]
  have "\<exists>s'. interrupts n frame s = Inr (frame, s') \<and> current_thread s' = Some c" if "n < 10" for n
    using nine [OF that] by (auto elim!: returnsE)
  moreover obtain s1 ts where s1: "interrupts 9 frame s = Inr (frame, s1)" "sched_inv Q s1" "current_thread s1 = Some c"
    "th_quantum_ticks (threads s1 c) = of_nat 9" "\<not> reschedule_requested s1"
    and ts: "ready_list s1 = ready_list s @ ts"
    using nine [of 9] by (auto elim!: returnsE)
  obtain z where z: "thread_on_timer_tick (s1\<lparr>ticks := ticks s1 + 1\<rparr>) = Inr ((), z)" "sched_inv Q z" "current_thread z = Some c"
    "reschedule_requested z" "ready_list z = ready_list s1 @ due (ticks s1 + 1) s1"
    using tick_in_quantum [OF s1(2,3) assms(3) s1(4) _ s1(5)] by (auto elim!: returnsE)
  obtain f s2 where s2: "thread_maybe_preempt_from_trap frame z = Inr (f, s2)" "sched_inv Q s2" "yield_done c frame z f s2"
    "\<not> reschedule_requested s2"
    using preempt_ok [OF z(2,3) assms(6)] z(4) assms(3) by (auto elim!: returnsE simp: preempt_done_def)
  have ten: "interrupts 10 frame s = Inr (f, s2)" using s1(1) z(1) s2(1) by (simp add: numeral_eq_Suc)
  have "th_quantum_ticks (threads s2 (the (current_thread s2))) = 0 \<and> (case ready_list z of
          [] \<Rightarrow> f = frame \<and> current_thread s2 = Some c
        | t # ts \<Rightarrow> current_thread s2 = Some t \<and> t \<noteq> c \<and> f = th_trap_frame (threads s2 t) \<and>
            ready_list s2 = ts @ [c] \<and> th_trap_frame (threads s2 c) = frame)"
    using s2(3) assms(3) ready_other(1) [OF z(2,3)]
    by (auto simp: yield_done_def preempted_def split: list.splits)
  ultimately show ?thesis using s1(1) ten s2(2,4) ts unfolding z(5) by blast
qed

theorem quantum_is_ten_ticks_witness:
  "\<exists>f s'. interrupts 10 0x9000 (demo_sched\<lparr>reschedule_requested := False\<rparr>) = Inr (f, s') \<and> current_thread s' = Some 2"
proof -
  let ?s = "demo_sched\<lparr>reschedule_requested := False\<rparr>"
  have l: "ready_list ?s = [2]" "sleep_list ?s = [3, 4]" "wait_list ?s = wait_list demo_sched"
    by (simp_all add: demo_sched_def ready_list_def tq_items_def ring_def THREAD_MAX_def sleep_list_def sq_items_def
        wait_list_def fun_eq_iff)
  have "sched_inv {0x100} ?s" using demo_inv by (simp add: sched_inv_def consistent_def queues_ok_def l)
  from quantum_is_ten_ticks [OF this, of 1 "0x9000"]
  show ?thesis using l(1) by (auto simp: demo_thread_def unused_thread_def)
qed

text \<open>
  C21: The return from an interrupt keeps the processor with the running thread unless a switch
  was requested; then the first ready thread runs, the preempted one is last in line with its
  frame saved, and the request is cleared. The null thread is never preempted here.
\<close>

theorem preempt_correct:
  fixes s :: "'a sched_scheme"
  assumes "sched_inv Q s" and "current_thread s = Some c" and "frame \<noteq> 0"
  shows "\<exists>f s'. thread_maybe_preempt_from_trap frame s = Inr (f, s') \<and> sched_inv Q s' \<and> preempt_done c frame s f s'"
  using preempt_ok [OF assms] by (auto elim!: returnsE)

theorem preempt_correct_witness:
  "\<exists>f s'. thread_maybe_preempt_from_trap 0x9000 demo_sched = Inr (f, s') \<and> current_thread s' = Some 2 \<and> ready_list s' = [1]"
  using preempt_correct [OF demo_inv demo_lists(4), of "0x9000"] by (auto simp: preempt_done_def yield_done_def)

section \<open>Time\<close>

text \<open>
  C24: A tick makes ready exactly the sleepers whose wake tick has come, in the order of their
  wake ticks and behind the threads already ready; the others stay asleep, a thread whose timed wait
  ran out has left its wait queue, and its result is the timeout code.
\<close>

theorem tick_wakes_due:
  fixes s :: "'a sched_scheme"
  assumes "sched_inv Q s" and "current_thread s = Some c"
  shows "\<exists>s'. thread_on_timer_tick s = Inr ((), s') \<and> sched_inv Q s' \<and> current_thread s' = Some c \<and>
    ready_list s' = ready_list s @ filter (\<lambda>t. th_wake_tick (threads s t) \<le> ticks s) (sleep_list s) \<and>
    sleep_list s' = filter (\<lambda>t. th_wake_tick (threads s t) > ticks s) (sleep_list s) \<and>
    (\<forall>q\<in>Q. wait_list s' q = filter (\<lambda>t. t \<notin> set (due (ticks s) s)) (wait_list s q)) \<and>
    (\<forall>t\<in>set (sleep_list s). th_wake_tick (threads s t) \<le> ticks s \<longrightarrow> th_state (threads s' t) = THREAD_READY \<and>
       th_wait_result (threads s' t) =
         (if th_wait_reason (threads s t) = THREAD_WAIT_QUEUE_TIMEOUT then WAIT_TIMEOUT else WAIT_OK))"
proof (rule returnsE [OF tick_ok [OF assms]])
  fix u s'
  assume run: "thread_on_timer_tick s = Inr (u, s')" and d: "sched_inv Q s' \<and> current_thread s' = Some c \<and>
    threads s' = (if c = 0 then woken_at (ticks s) s else (woken_at (ticks s) s)(c := ticked (threads s c))) \<and>
    ready_list s' = ready_list s @ due (ticks s) s \<and>
    sleep_list s' = filter (\<lambda>t. th_wake_tick (threads s t) > ticks s) (sleep_list s) \<and>
    (\<forall>q\<in>Q. wait_list s' q = filter (\<lambda>t. t \<notin> set (due (ticks s) s)) (wait_list s q)) \<and>
    reschedule_requested s' = (reschedule_requested s \<or>
      c \<noteq> 0 \<and> th_quantum_ticks (ticked (threads s c)) \<ge> THREAD_QUANTUM_TICKS) \<and> ticks s' = ticks s"
  have "threads s' t = woken (timeout_result (threads s t)) (threads s t)"
    if "t \<in> set (sleep_list s)" "th_wake_tick (threads s t) \<le> ticks s" for t
    using d that next_not_sleeping(1) [OF assms] by (auto simp: woken_at_def due_def)
  then show ?thesis using run d by (simp add: due_def timeout_result_def)
qed

theorem tick_wakes_due_witness:
  "\<exists>s'. thread_on_timer_tick demo_sched = Inr ((), s') \<and> ready_list s' = [2, 3] \<and> sleep_list s' = [4]"
  using tick_wakes_due [OF demo_inv demo_lists(4)] by (auto simp: demo_thread_def unused_thread_def)

text \<open>
  Sleeping for \<open>n\<close> ticks puts the thread among the sleepers with the wake tick
  \<open>now + n\<close>, behind those that wake no later, saves its frame, and runs the next thread;
  sleeping for no ticks is a yield.
\<close>

theorem sleep_correct:
  fixes s :: "'a sched_scheme"
  assumes "sched_inv Q s" and "current_thread s = Some c" and "c \<noteq> 0" and "frame \<noteq> 0"
  shows "\<exists>f s'. thread_sleep_current_from_trap frame n s = Inr (f, s') \<and> sched_inv Q s' \<and>
    (if n = 0 then yield_done c frame s f s' else sleep_done c frame n s f s')"
  using sleep_ok [OF assms, of n] unfolding returns_def .

theorem sleep_correct_witness:
  "\<exists>f s'. thread_sleep_current_from_trap 0x9000 4 demo_sched = Inr (f, s') \<and> sleep_list s' = [3, 4, 1] \<and> current_thread s' = Some 2"
  using sleep_correct [OF demo_inv demo_lists(4), of "0x9000" 4]
  by (auto simp: sleep_done_def insert_sleeper_def demo_thread_def unused_thread_def next_tid_def)

section \<open>Waiting and waking\<close>

text \<open>
  Blocking on a wait queue puts the thread at its end, and with a timeout also among the
  sleepers; waking one waiter then takes the queue's first thread, gives it the result
  \<open>WAIT_OK\<close>, cancels its timeout and makes it the last ready thread.
\<close>

theorem wait_then_wake:
  fixes s :: "'a sched_scheme"
  assumes "sched_inv Q s" and "current_thread s = Some c" and "c \<noteq> 0" and "frame \<noteq> 0" and "q \<in> Q"
  shows "\<exists>f s1 t s2. block_current_from_trap frame q n s = Inr (f, s1) \<and> block_done c frame q n s f s1 \<and>
    wait_queue_wake_one q s1 = Inr (t, s2) \<and> sched_inv Q s2 \<and> t = hd (wait_list s q @ [c]) \<and>
    th_wait_result (threads s2 t) = WAIT_OK \<and> t \<notin> set (sleep_list s2) \<and>
    ready_list s2 = tl (ready_list s) @ [t] \<and> wait_list s2 q = tl (wait_list s q @ [c])"
proof -
  obtain f s1 where s1: "block_current_from_trap frame q n s = Inr (f, s1)" "sched_inv Q s1" "block_done c frame q n s f s1"
    using block_ok [OF assms, of n] unfolding returns_def by blast
  have w: "wait_list s1 q = wait_list s q @ [c]" "ready_list s1 = tl (ready_list s)"
    using s1(3) by (simp_all add: block_done_def)
  obtain x xs where x: "wait_list s q @ [c] = x # xs" by (cases "wait_list s q @ [c]") auto
  obtain t s2 where s2: "wait_queue_wake_one q s1 = Inr (t, s2)" "sched_inv Q s2"
    "t = (case wait_list s1 q of [] \<Rightarrow> THREAD_INVALID_TID | t # _ \<Rightarrow> t)"
    "threads s2 = wake_waiters (set (take 1 (wait_list s1 q))) (threads s1)"
    "ready_list s2 = ready_list s1 @ take 1 (wait_list s1 q)"
    "sleep_list s2 = filter (\<lambda>t. t \<notin> set (take 1 (wait_list s1 q))) (sleep_list s1)"
    "\<forall>q'\<in>Q. wait_list s2 q' = (if q' = q then tl (wait_list s1 q) else wait_list s1 q')"
    using wake_one_ok [OF s1(2) assms(5)] by (auto elim!: returnsE)
  show ?thesis
    using s1 s2 assms(5) by (intro exI [of _ f] exI [of _ s1] exI [of _ t] exI [of _ s2])
      (simp add: w x wake_waiters_def)
qed

theorem wait_then_wake_witness:
  "\<exists>f s1 t s2. block_current_from_trap 0x9000 0x100 7 demo_sched = Inr (f, s1) \<and> wait_queue_wake_one 0x100 s1 = Inr (t, s2) \<and>
     t = 4 \<and> wait_list s2 0x100 = [1]"
  using wait_then_wake [OF demo_inv demo_lists(4), of "0x9000" "0x100" 7] by auto

text \<open>
  Waking all waiters empties the queue and appends its threads, in their order, to the ready
  queue; no waiter of another queue is touched.
\<close>

theorem wake_all_correct:
  fixes s :: "'a sched_scheme"
  assumes "sched_inv Q s" and "q \<in> Q"
  shows "\<exists>s'. wait_queue_wake_all q s = Inr ((), s') \<and> sched_inv Q s' \<and> ready_list s' = ready_list s @ wait_list s q \<and>
    (\<forall>q'\<in>Q. wait_list s' q' = (if q' = q then [] else wait_list s q')) \<and>
    (\<forall>t\<in>set (wait_list s q). th_wait_result (threads s' t) = WAIT_OK \<and> t \<notin> set (sleep_list s')) \<and>
    (\<forall>t. t \<notin> set (wait_list s q) \<longrightarrow> threads s' t = threads s t)"
  using wake_all_ok [OF assms] by (auto elim!: returnsE simp: wake_waiters_def)

theorem wake_all_correct_witness:
  "\<exists>s'. wait_queue_wake_all 0x100 demo_sched = Inr ((), s') \<and> ready_list s' = [2, 4] \<and> wait_list s' 0x100 = []"
  using wake_all_correct [OF demo_inv, of "0x100"] by auto

section \<open>Ending and creating threads\<close>

text \<open>The concrete scheduler with memory for a user task, which the running thread executes.\<close>

definition demo_usched :: sched where
  "demo_usched = page_init_state 0x80010000 0x80020000 demo_sched"

lemma demo_usched_facts:
  "pages_inv demo_usched" "free_pages demo_usched = 16" "trampoline_ok (link demo_usched)"
  "user_task_can_init 0x80002800 demo_usched" "managed_start demo_usched = 0x80010000" "same_sched demo_sched demo_usched"
  "mem demo_usched = (\<lambda>_. 0)"
proof -
  show "pages_inv demo_usched"
    unfolding demo_usched_def
    by (rule page_init_state_inv) (simp_all add: align_up_def page_base_def PAGE_MASK_def PAGE_SIZE_def demo_link_def)
  show "free_pages demo_usched = 16" "trampoline_ok (link demo_usched)" "user_task_can_init 0x80002800 demo_usched"
    "managed_start demo_usched = 0x80010000" "same_sched demo_sched demo_usched" "mem demo_usched = (\<lambda>_. 0)"
    by (simp_all add: demo_usched_def page_init_state_def align_up_def page_base_def PAGE_MASK_def PAGE_SIZE_def
        demo_link_def Let_def trampoline_ok_def user_task_can_init_def task_at_def same_sched_def)
      (simp_all add: demo_sched_def)
qed

lemma demo_low_in_use: "a < 0x80010000 \<Longrightarrow> page_base a \<in> in_use demo_usched"
  using managed_frame_props(3) [OF demo_usched_facts(1), of "page_base a"] demo_usched_facts(5) page_base_le [of a]
  by (force simp: in_use_def)

lemma demo_user_running:
  obtains s :: sched where "sched_inv {0x100} s" and "current_thread s = Some 1" and "th_user_task (threads s 1) = 0x80002800"
    and "user_task_is_ready 0x80002800 s" and "task_owns (task_at s 0x80002800) s" and "load64 (0x9000 + FRAME_MSTATUS) s = 0"
    and "task_pages (task_at s 0x80002800) \<noteq> {}" and "next_tid s = 2"
    and "load64 (ut_trap_context (task_at s 0x80002800) + FRAME_MSTATUS) s = SSTATUS_SPIE" and "link s = demo_link"
    and "vm_mapping (vm_root (ut_address_space (task_at s 0x80002800))) s = task_mapping (ut_code_page (task_at s 0x80002800))
      (ut_stack_page (task_at s 0x80002800)) (trampoline_start demo_link) (ut_trap_context (task_at s 0x80002800))"
    and "ut_stack_page (task_at s 0x80002800) \<noteq> 0" and "free_pages s = 7" and "managed_frames s = managed_frames demo_usched"
    and "agree_on (in_use demo_usched) (\<lambda>_. 0) (mem s)" and "threads s 4 = demo_thread 4" and "wait_list s 0x100 = [4]" and "managed_end s = 0x80020000"
proof -
  have prog: "page_base (0x80002000 + of_nat i) \<in> in_use demo_usched" if "i < unat (4 :: u64)" for i
    by (rule demo_low_in_use) (use that in \<open>simp add: word_less_nat_alt unat_word_ariths unat_of_nat\<close>)
  obtain s1 where "started 0x80002800 0x80002000 4 demo_usched s1" and fp: "16 = unat (free_pages s1) + 9"
    using user_task_init_spec [where task = "0x80002800" and program = "0x80002000" and n = 4, OF demo_usched_facts(1) prog]
    by (rule returnsE) (auto simp: demo_usched_facts PAGE_SIZE_def)
  then have b: "task_step 0x80002800 demo_usched s1" "task_owns (task_at s1 0x80002800) s1" "user_task_is_ready 0x80002800 s1"
    "agree_on (in_use demo_usched) (mem demo_usched) (mem s1)" "ut_code_page (task_at s1 0x80002800) \<noteq> 0"
    "load64 (ut_trap_context (task_at s1 0x80002800) + FRAME_MSTATUS) s1 = SSTATUS_SPIE"
    "vm_mapping (vm_root (ut_address_space (task_at s1 0x80002800))) s1 = task_mapping (ut_code_page (task_at s1 0x80002800))
      (ut_stack_page (task_at s1 0x80002800)) (trampoline_start (link demo_usched)) (ut_trap_context (task_at s1 0x80002800))"
    "ut_stack_page (task_at s1 0x80002800) \<noteq> 0"
    by (auto simp: started_def Let_def building_def context_ready_def)
  let ?s = "upd_thread 1 (\<lambda>th. th\<lparr>th_user_task := 0x80002800\<rparr>) s1"
  have same: "same_sched demo_sched s1"
    using demo_usched_facts(6) task_step_sched [OF b(1)] by (simp add: same_sched_def)
  have i1: "sched_inv {0x100} s1" using same_sched_inv [OF same] demo_inv by blast
  have th: "threads s1 = demo_thread" "current_thread s1 = Some 1" "ready_queue s1 = ready_queue demo_sched"
    using same by (simp_all add: same_sched_def)
  have "thread_ok 1 ((demo_thread 1)\<lparr>th_user_task := 0x80002800\<rparr>)"
    by (simp add: thread_ok_def demo_thread_def unused_thread_def)
  then have i: "sched_inv {0x100} ?s"
    by (intro sched_inv_upd [OF i1, where t = 1 and x = "(demo_thread 1)\<lparr>th_user_task := 0x80002800\<rparr>"])
      (simp_all add: th real_iff)
  have p: "same_pool s1 ?s" by (simp add: same_pool_def upd_thread_def)
  have t: "task_at ?s = task_at s1" by (simp add: task_at_def fun_eq_iff)
  have "mem s1 a = 0" if "page_base a = 0x9000" for a
    using b(4) demo_low_in_use [of "0x9000"] that by (simp add: agree_on_def demo_usched_facts(7)) (metis page_base_idem that)
  then have z: "load64 (0x9000 + FRAME_MSTATUS) ?s = 0"
    by (simp add: load64_def FRAME_MSTATUS_def read64_def page_base_def PAGE_MASK_def PAGE_SIZE_def)
  have l: "load64 a ?s = load64 a s1" for a by (simp add: load64_def)
  have "link demo_usched = demo_link" by (simp add: demo_usched_def page_init_state_def Let_def)
  then have lk: "link s1 = demo_link" "link demo_usched = demo_link" using task_step_fields(2) [OF b(1)] by simp_all
  have w: "wait_list s1 0x100 = [4]" "free_pages s1 = 7" "managed_frames s1 = managed_frames demo_usched"
    using same fp demo_lists(3) [of "0x100"] task_step_fields(1) [OF b(1)] by (simp_all add: same_sched_def wait_list_def word_unat_eq_iff)
  have "managed_end y = managed_end x" if "pool_step x y" for x y :: sched using that by (auto simp: pool_step_def)
  from this [OF b(1) [unfolded task_step_def]] have "managed_end s1 = 0x80020000"
    by (simp add: set_task_def demo_usched_def page_init_state_def Let_def page_base_def PAGE_MASK_def PAGE_SIZE_def)
  then have more: "free_pages ?s = 7" "managed_frames ?s = managed_frames demo_usched" "agree_on (in_use demo_usched) (\<lambda>_. 0) (mem ?s)"
    "threads ?s 4 = demo_thread 4" "wait_list ?s 0x100 = [4]" "managed_end ?s = 0x80020000"
    using w p b(4) same_pool_pages(3) [OF p] by (simp_all add: same_pool_def th demo_usched_facts(7) wait_list_def)
  show ?thesis
    by (rule that [of ?s]) (use i b z l lk more same_pool_pages(6) [OF p] same_pool_task(2) [OF p] in \<open>simp_all add: th t user_task_is_ready_def task_pages_def
      next_tid_def ready_list_def [symmetric] demo_lists(1) [unfolded ready_list_def]\<close>, simp_all add: ready_list_def th(3) demo_lists(1) [unfolded ready_list_def])
qed

text \<open>
  What may follow: any events the scheduler's clients are allowed to make, and anything that leaves its variables
  alone, as long as no thread is created in the slot \<open>c\<close>.
\<close>

fun creating :: "sched_event \<Rightarrow> bool" where
  "creating (Create name entry arg) = True"
| "creating (Create_user name task) = True"
| "creating _ = False"

inductive later :: "tid_t \<Rightarrow> u64 set \<Rightarrow> 'a sched_scheme \<Rightarrow> u64 set \<Rightarrow> 'a sched_scheme \<Rightarrow> bool" for c Q s where
  now: "later c Q s Q s"
| event: "later c Q s Q' s' \<Longrightarrow> allowed Q' e s' \<Longrightarrow> \<not> (creating e \<and> free_slot s' = Some c) \<Longrightarrow> sched_do e s' = Inr (f, s'') \<Longrightarrow>
     later c Q s (queues_after e Q') s''"
| other: "later c Q s Q' s' \<Longrightarrow> same_sched s' s'' \<Longrightarrow> later c Q s Q' s''"

definition a_gone :: "tid_t \<Rightarrow> asched \<Rightarrow> bool" where
  "a_gone c a \<longleftrightarrow> a_cur a \<noteq> Some c \<and> c \<notin> set (a_ready a) \<and> c \<notin> fst ` set (a_sleep a) \<and> (\<forall>q. c \<notin> set (a_wait a q))"

lemma a_gone_dispatch: "a_gone c a \<Longrightarrow> c \<noteq> 0 \<Longrightarrow> a_gone c (a_dispatch a)"
  by (cases "a_ready a") (auto simp: a_gone_def a_dispatch_def)

lemma a_gone_yield: "a_gone c a \<Longrightarrow> c \<noteq> 0 \<Longrightarrow> a_cur a = Some x \<Longrightarrow> a_gone c (a_yield a)"
  by (cases "a_ready a") (auto simp: a_gone_def a_yield_def a_dispatch_def)

lemma a_gone_wake: "a_gone c a \<Longrightarrow> c \<notin> set ts \<Longrightarrow> a_gone c (a_wake ts a)"
  by (auto simp: a_gone_def a_wake_def)

lemma a_gone_sleeper: "c \<noteq> x \<Longrightarrow> c \<notin> fst ` set xs \<Longrightarrow> c \<notin> fst ` set (a_enqueue_sleeper x w xs)"
  by (auto simp: a_enqueue_sleeper_def dest: set_takeWhileD set_dropWhileD)

lemma a_gone_step:
  assumes g: "a_gone c a" and c: "c \<noteq> 0" and slot: "\<not> (creating e \<and> slot = Some c)" and cur: "e \<noteq> Start \<Longrightarrow> \<not> creating e \<Longrightarrow> a_cur a \<noteq> None \<or> (\<exists>q. e = Wake_one q \<or> e = Wake_all q) \<or> (\<exists>q n. e = Queue_init q n)"
  shows "a_gone c (a_step e now r slot a)"
proof (cases e)
  case (Sleep f n)
  then obtain x where x: "a_cur a = Some x" using cur by auto
  then have "a_gone c (a\<lparr>a_sleep := a_enqueue_sleeper x (now + n) (a_sleep a)\<rparr>)"
    using g a_gone_sleeper [of c x] by (auto simp: a_gone_def)
  then show ?thesis using Sleep x g c by (auto intro: a_gone_yield a_gone_dispatch)
next
  case (Wait f q n)
  then obtain x where x: "a_cur a = Some x" using cur by auto
  then have "a_gone c (a\<lparr>a_wait := (a_wait a)(q := a_wait a q @ [x]),
      a_sleep := if n = 0 then a_sleep a else a_enqueue_sleeper x (now + n) (a_sleep a)\<rparr>)"
    using g a_gone_sleeper [of c x] by (auto simp: a_gone_def)
  then show ?thesis using Wait x c by (auto intro: a_gone_dispatch)
next
  case Tick
  have "c \<notin> set (map fst (filter (\<lambda>x. snd x \<le> now) (a_sleep a)))" using g by (auto simp: a_gone_def)
  then show ?thesis using Tick a_gone_wake [OF g] by simp
next
  case (Wake_one q)
  have "c \<notin> set (take 1 (a_wait a q))" using g by (auto simp: a_gone_def dest: in_set_takeD)
  then show ?thesis using Wake_one a_gone_wake [OF g] by simp
next
  case (Wake_all q)
  then show ?thesis using g a_gone_wake [OF g, of "a_wait a q"] by (simp add: a_gone_def)
next
  case (Create name entry arg)
  then show ?thesis using g slot by (auto simp: a_gone_def split: option.splits)
next
  case (Create_user name task)
  then show ?thesis using g slot by (auto simp: a_gone_def split: option.splits)
qed (use g c cur in \<open>auto intro: a_gone_dispatch a_gone_yield\<close>)

lemma later_gone:
  fixes s :: "'a sched_scheme"
  assumes "later c Q s Q' s'" and "sched_inv Q s" and "a_gone c (abs_sched Q s)" and "c \<noteq> 0"
  shows "sched_inv Q' s' \<and> a_gone c (abs_sched Q' s')"
  using assms
proof (induction rule: later.induct)
  case (event Q' s' e f s'')
  then have i: "sched_inv Q' s'" and g: "a_gone c (abs_sched Q' s')" by simp_all
  have d: "step_ok Q' e s' s''" using returnsD [OF sched_do_ok [OF i event(2)] event(4)] .
  have "a_gone c (a_step e (ticks s') (reschedule_requested s') (free_slot s') (abs_sched Q' s'))"
    by (rule a_gone_step [OF g event.prems(3) event(3)])
      (use event(2) started_current [OF i] in \<open>cases e; auto simp: abs_sched_def runs_real_def exit_allowed_def split: option.splits\<close>)
  then show ?case using d by (simp add: step_ok_def)
next
  case (other Q' s' s'')
  then have "abs_sched Q' s'' = abs_sched Q' s'"
    by (simp add: same_sched_def abs_sched_def ready_list_def sleep_list_def wait_list_def cong: if_cong)
  then show ?case using other same_sched_inv by auto
qed simp

lemma exited_gone:
  fixes s :: "'a sched_scheme"
  assumes inv: "sched_inv Q s" and cur: "current_thread s = Some c" and nz: "c \<noteq> 0" and i': "sched_inv Q s'" and d: "exit_done c code s s'"
  shows "a_gone c (abs_sched Q s')"
proof -
  have n: "next_tid s \<noteq> c" using next_other [OF inv cur nz] by blast
  have real: "tid_is_real c" using current_facts [OF inv cur] nz valid_iff by blast
  have con: "consistent {} Q s'" using i' by (simp add: sched_inv_def)
  have st: "th_state (threads s' c) = THREAD_EXITED" using d n by (simp add: exit_done_def exited_def)
  have ok: "thread_ok c (threads s' c)" using consistentD(2) [OF con real] by simp
  note parts = queues_ok_parts(1-3) [OF consistentD(1) [OF con], unfolded rinv_def sinv_def winv_def]
  have "c \<notin> set (ready_list s')" "c \<notin> set (sleep_list s')" "\<forall>q\<in>Q. c \<notin> set (wait_list s' q)"
    using parts ok st real unfolding thread_ok_def by auto
  moreover have "current_thread s' \<noteq> Some c" using d n by (simp add: exit_done_def)
  ultimately show ?thesis by (auto simp: a_gone_def abs_sched_def abs_sleep_def)
qed

text \<open>Memory outside the managed pages, such as the kernel stacks, is left alone.\<close>

lemma exit_memory:
  fixes s :: "'a sched_scheme"
  assumes d: "exit_done c code s s'" and x: "page_base x \<notin> managed_frames s"
    and own: "th_user_task (threads s c) \<noteq> 0 \<Longrightarrow> task_owns (task_at s (th_user_task (threads s c))) s"
  shows "mem s' x = mem s x"
proof (cases "th_user_task (threads s c) = 0")
  case True
  then show ?thesis using d by (simp add: exit_done_def task_gone_def same_pool_def)
next
  case False
  let ?t = "task_at s (th_user_task (threads s c))"
  have "task_tables ?t s \<subseteq> allocated s"
    using own [OF False] vm_tables_owned [of "vm_root (ut_address_space ?t)" s] by (auto simp: task_owns_def task_tables_def Let_def)
  then have "page_base x \<in> in_use s - task_tables ?t s" using x allocated_subset [of s] by (auto simp: in_use_def)
  then show ?thesis using d False by (simp add: exit_done_def task_gone_def agree_on_def)
qed

text \<open>
  C17: Ending the running thread. The next thread runs, and the ended one is in no queue, no longer refers to its
  task, and never runs again: whatever calls, interrupts and other activity follow, it is neither the running thread nor
  ready, until a new thread is created in its slot. A user task is destroyed with it: its page tables and its pages
  are free again, its exit code is the value in \<open>a0\<close>, and the memory in use by others and every other task are as before.
  No byte outside the pages of the allocator changes, and so none of the stacks of the kernel's threads.
\<close>

theorem exit_releases:
  fixes s :: "'a sched_scheme"
  assumes "sched_inv Q s" and "current_thread s = Some c" and "c \<noteq> 0"
    and "th_user_task (threads s c) \<noteq> 0 \<Longrightarrow> load64 (frame + FRAME_MSTATUS) s AND SSTATUS_SPP = 0 \<and>
      user_task_is_ready (th_user_task (threads s c)) s \<and> task_owns (task_at s (th_user_task (threads s c))) s"
  shows "\<exists>f s'. thread_exit_current_from_trap frame s = Inr (f, s') \<and> sched_inv Q s' \<and>
    f = th_trap_frame (threads s (next_tid s)) \<and> exit_done c (load64 (frame + FRAME_A0) s) s s' \<and>
    (\<forall>x. page_base x \<notin> managed_frames s \<longrightarrow> mem s' x = mem s x) \<and>
    (\<forall>Q' s''. later c Q s' Q' s'' \<longrightarrow> current_thread s'' \<noteq> Some c \<and> c \<notin> set (ready_list s''))"
proof -
  obtain f s' where run: "thread_exit_current_from_trap frame s = Inr (f, s')" and i: "sched_inv Q s'"
    and d: "f = th_trap_frame (threads s (next_tid s))" "exit_done c (load64 (frame + FRAME_A0) s) s s'"
    using exit_ok [OF assms(1-3), of frame] assms(4) unfolding thread_exit_current_from_trap_def returns_def by blast
  note gone = exited_gone [OF assms(1-3) i d(2)]
  have "current_thread s'' \<noteq> Some c \<and> c \<notin> set (ready_list s'')" if "later c Q s' Q' s''" for Q' s''
    using later_gone [OF that i gone assms(3)] by (simp add: a_gone_def abs_sched_def)
  then show ?thesis using run i d exit_memory [OF d(2)] assms(4) by blast
qed

theorem exit_releases_witness:
  "\<exists>(s :: sched) f s'. th_user_task (threads s 1) = 0x80002800 \<and> task_pages (task_at s 0x80002800) \<noteq> {} \<and>
     thread_exit_current_from_trap 0x9000 s = Inr (f, s') \<and> current_thread s' = Some 2 \<and>
     ut_state (task_at s' 0x80002800) = USER_TASK_DESTROYED \<and> task_pages (task_at s 0x80002800) \<inter> allocated s' = {}"
proof -
  obtain s :: sched where s: "sched_inv {0x100} s" "current_thread s = Some 1" "th_user_task (threads s 1) = 0x80002800"
    "user_task_is_ready 0x80002800 s" "task_owns (task_at s 0x80002800) s" "load64 (0x9000 + FRAME_MSTATUS) s = 0"
    "task_pages (task_at s 0x80002800) \<noteq> {}" "next_tid s = 2"
    by (rule demo_user_running) blast
  from exit_releases [OF s(1,2), of "0x9000"] obtain f s' where "thread_exit_current_from_trap 0x9000 s = Inr (f, s')"
    "exit_done 1 (load64 (0x9000 + FRAME_A0) s) s s'" using s(3-6) by auto
  then show ?thesis using s(3,7,8) by (intro exI [of _ s] exI [of _ f] exI [of _ s']) (auto simp: exit_done_def task_gone_def)
qed

text \<open>
  Creating a kernel thread takes the lowest slot whose thread is unused or ended, and fails
  only if there is none. The new thread is the last ready one, every other thread is unchanged, and
  its frame is on its own stack with the trampoline as program counter, the top of that stack as
  stack pointer, supervisor mode with interrupts on return, and every other register zero.
\<close>

theorem create_correct:
  fixes s :: "'a sched_scheme"
  assumes "sched_inv Q s" and "stacks_ok (link s)" and "entry \<noteq> 0"
  shows "\<exists>r s'. thread_create name entry arg s = Inr (r, s') \<and> sched_inv Q s' \<and>
    (if \<forall>t. tid_is_real t \<longrightarrow> th_state (threads s t) \<notin> {THREAD_UNUSED, THREAD_EXITED} then r = -1 \<and> s' = s
     else \<exists>t. r = uint t \<and> tid_is_real t \<and> th_state (threads s t) \<in> {THREAD_UNUSED, THREAD_EXITED} \<and>
       (\<forall>u. tid_is_real u \<longrightarrow> u < t \<longrightarrow> th_state (threads s u) \<notin> {THREAD_UNUSED, THREAD_EXITED}) \<and>
       create_done t (new_thread (link s) t name entry arg) s s' \<and> new_frame (link s) t (mem s) (mem s'))"
proof (rule returnsE [OF create_ok [OF assms, of name arg]])
  fix r s'
  assume run: "thread_create name entry arg s = Inr (r, s')" and d: "sched_inv Q s' \<and>
    (case free_slot s of None \<Rightarrow> r = -1 \<and> s' = s
     | Some t \<Rightarrow> r = uint t \<and> create_done t (new_thread (link s) t name entry arg) s s' \<and>
         new_frame (link s) t (mem s) (mem s'))"
  show ?thesis
  proof (cases "free_slot s")
    case None
    then show ?thesis using run d free_slot_None [of s] by (intro exI [of _ r] exI [of _ s']) (auto simp: is_free_def)
  next
    case (Some t)
    note t = free_slot_Some [OF Some, unfolded is_free_def]
    then have "\<not> (\<forall>t. tid_is_real t \<longrightarrow> th_state (threads s t) \<notin> {THREAD_UNUSED, THREAD_EXITED})" by blast
    then show ?thesis using run d t Some by (intro exI [of _ r] exI [of _ s']) auto
  qed
qed

theorem create_correct_witness:
  "\<exists>s'. thread_create None 0x80000700 7 demo_sched = Inr (5, s') \<and> ready_list s' = [2, 5]"
proof -
  obtain r s' where r: "thread_create None 0x80000700 7 demo_sched = Inr (r, s')"
    "\<exists>t. r = uint t \<and> tid_is_real t \<and> th_state (threads demo_sched t) \<in> {THREAD_UNUSED, THREAD_EXITED} \<and>
       (\<forall>u. tid_is_real u \<longrightarrow> u < t \<longrightarrow> th_state (threads demo_sched u) \<notin> {THREAD_UNUSED, THREAD_EXITED}) \<and>
       create_done t (new_thread (link demo_sched) t None 0x80000700 7) demo_sched s'"
  proof -
    have f: "\<not> (\<forall>t. tid_is_real t \<longrightarrow> th_state (threads demo_sched t) \<notin> {THREAD_UNUSED, THREAD_EXITED})"
      by (auto simp: demo_thread_def unused_thread_def real_iff intro!: exI [of _ 5])
    show ?thesis
      using create_correct [OF demo_inv, of "0x80000700" None 7] demo_stacks that unfolding if_not_P [OF f] by auto
  qed
  then obtain t where t: "r = uint t" "tid_is_real t" "th_state (demo_thread t) \<in> {THREAD_UNUSED, THREAD_EXITED}"
    "\<forall>u. tid_is_real u \<longrightarrow> u < t \<longrightarrow> th_state (demo_thread u) \<notin> {THREAD_UNUSED, THREAD_EXITED}"
    "create_done t (new_thread (link demo_sched) t None 0x80000700 7) demo_sched s'" by auto
  have "t = 5"
    using t(2,3) t(4) [rule_format, of 5] by (auto simp: real_iff demo_thread_def unused_thread_def)
  then show ?thesis using r(1) t(1,5) by (simp add: create_done_def)
qed

text \<open>
  Attaching a user task to a thread: the thread starts from the task's trap context, and the
  top of its kernel stack is stored in that context for the way back into the kernel.
\<close>

theorem create_user_correct:
  fixes s :: "'a sched_scheme"
  assumes "sched_inv Q s" and "stacks_ok (link s)" and "user_task_is_ready task s"
  shows "\<exists>r s'. thread_create_user name task s = Inr (r, s') \<and> sched_inv Q s' \<and>
    (case free_slot s of None \<Rightarrow> r = -1 \<and> s' = s
     | Some t \<Rightarrow> r = uint t \<and>
         create_done t (new_user_thread (link s) t name task (ut_trap_context (task_at s task))) s s' \<and>
         mem s' = write64 (mem s) (ut_trap_context (task_at s task) + CTX_KERNEL_SP) (initial_word (link s) t 1))"
  using create_user_ok [OF assms, of name] unfolding returns_def .

theorem create_user_correct_witness:
  "\<exists>(s :: sched) r s'. user_task_is_ready 0x80002800 s \<and> thread_create_user None 0x80002800 s = Inr (r, s')"
proof -
  obtain s :: sched where s: "sched_inv {0x100} s" "user_task_is_ready 0x80002800 s" by (rule demo_user_running)
  let ?s = "s\<lparr>link := demo_link\<rparr>"
  have "same_sched s ?s" by (simp add: same_sched_def)
  then have i: "sched_inv {0x100} ?s" using s(1) same_sched_inv by blast
  have r: "user_task_is_ready 0x80002800 ?s" using s(2) by (simp add: user_task_is_ready_def task_at_def)
  have l: "stacks_ok (link ?s)" using demo_stacks by simp
  from create_user_correct [OF i l r, of None] r show ?thesis by blast
qed

section \<open>Boot and requests\<close>

text \<open>The threads a boot creates before it starts the scheduler, with their names, entries and arguments.\<close>

primrec creates :: "(string option \<times> u64 \<times> u64) list \<Rightarrow> 'a sched_scheme \<Rightarrow> (unit \<times> 'a sched_scheme) res" where
  "creates [] s = Inr ((), s)"
| "creates (x # xs) s = (case x of (name, entry, arg) \<Rightarrow> bindE (thread_create name entry arg s) (\<lambda>(_, s). creates xs s))"

definition filled :: "nat \<Rightarrow> 'a sched_scheme \<Rightarrow> bool" where
  "filled k s \<longleftrightarrow> sched_inv {} s \<and> \<not> threads_started s \<and> stacks_ok (link s) \<and> ready_list s = map of_nat [1..<Suc k] \<and>
     (\<forall>t. tid_is_real t \<longrightarrow> (is_free (threads s t) \<longleftrightarrow> k < unat t))"

lemma slot_number:
  assumes "k < 7"
  shows "unat (of_nat (Suc k) :: tid_t) = Suc k" and "tid_is_real (of_nat (Suc k))"
proof -
  show u: "unat (of_nat (Suc k) :: tid_t) = Suc k" using assms by (simp add: unat_of_nat del: of_nat_Suc)
  show "tid_is_real (of_nat (Suc k))" unfolding real_unat u using assms by simp
qed

lemma filled_slot:
  assumes "filled k s" and "k < 7"
  shows "free_slot s = Some (of_nat (Suc k))"
proof -
  let ?k = "of_nat (Suc k) :: tid_t"
  have free: "is_free (threads s t) \<longleftrightarrow> k < unat t" if "tid_is_real t" for t using assms(1) that by (simp add: filled_def)
  have new: "tid_is_real ?k" "is_free (threads s ?k)" using slot_number [OF assms(2)] free [of ?k] by simp_all
  then obtain t where t: "free_slot s = Some t" using free_slot_None [of s] by (cases "free_slot s") blast+
  note f = free_slot_Some [OF t]
  have "\<not> ?k < t" using f(3) new by blast
  moreover have "Suc k \<le> unat t" using free [OF f(1)] f(2) by simp
  ultimately have "unat t = Suc k" unfolding word_less_nat_alt slot_number(1) [OF assms(2)] by simp
  then show ?thesis using t slot_number(1) [OF assms(2)] by (metis word_unat_eq_iff)
qed

lemma create_fills:
  fixes s :: "'a sched_scheme"
  assumes "filled k s" and "k < 7" and "entry \<noteq> 0"
  shows "returns (thread_create name entry arg s) (\<lambda>_ s'. filled (Suc k) s' \<and> link s' = link s \<and>
    threads s' = (threads s)(of_nat (Suc k) := (new_thread (link s) (of_nat (Suc k)) name entry arg)\<lparr>th_in_ready_queue := True\<rparr>))"
proof -
  have inv: "sched_inv {} s" and l: "stacks_ok (link s)" using assms(1) by (simp_all add: filled_def)
  note slot = filled_slot [OF assms(1,2)] and num = slot_number [OF assms(2)]
  show ?thesis
  proof (rule returns_mono [OF create_ok [OF inv l assms(3), of name arg]], goal_cases)
    case (1 r s')
    then have d: "sched_inv {} s'" "create_done (of_nat (Suc k)) (new_thread (link s) (of_nat (Suc k)) name entry arg) s s'"
      using slot by simp_all
    have free: "is_free (threads s' t) \<longleftrightarrow> Suc k < unat t" if "tid_is_real t" for t
    proof (cases "t = of_nat (Suc k)")
      case True
      then show ?thesis using d(2) num by (simp add: create_done_def is_free_def new_thread_def del: of_nat_Suc)
    next
      case False
      then have "unat t \<noteq> Suc k" using num(1) by (metis word_unat_eq_iff)
      then show ?thesis using False d(2) assms(1) that by (auto simp: create_done_def filled_def simp del: of_nat_Suc)
    qed
    then show ?case using d assms(1) by (auto simp: filled_def create_done_def simp del: of_nat_Suc)
  qed
qed

lemma creates_filled:
  fixes s :: "'a sched_scheme"
  assumes "filled k s" and "k + length xs \<le> 7" and "\<forall>x\<in>set xs. fst (snd x) \<noteq> 0"
  shows "returns (creates xs s) (\<lambda>_ s'. filled (k + length xs) s' \<and> link s' = link s \<and>
    (\<forall>t. unat t \<le> k \<longrightarrow> threads s' t = threads s t) \<and>
    (\<forall>i<length xs. threads s' (of_nat (Suc k + i)) =
       (new_thread (link s) (of_nat (Suc k + i)) (fst (xs ! i)) (fst (snd (xs ! i))) (snd (snd (xs ! i))))\<lparr>th_in_ready_queue := True\<rparr>))"
  using assms
proof (induction xs arbitrary: k s)
  case (Cons x xs)
  obtain name entry arg where x: "x = (name, entry, arg)" by (cases x)
  have k: "k < 7" "entry \<noteq> 0" using Cons.prems(2,3) x by simp_all
  show ?case
    unfolding creates.simps x prod.case returns_bind
  proof (rule returns_mono [OF create_fills [OF Cons.prems(1) k]], elim conjE, goal_cases)
    case (1 r s')
    have "returns (creates xs s') (\<lambda>_ s''. filled (Suc k + length xs) s'' \<and> link s'' = link s' \<and>
      (\<forall>t. unat t \<le> Suc k \<longrightarrow> threads s'' t = threads s' t) \<and>
      (\<forall>i<length xs. threads s'' (of_nat (Suc (Suc k) + i)) =
       (new_thread (link s') (of_nat (Suc (Suc k) + i)) (fst (xs ! i)) (fst (snd (xs ! i))) (snd (snd (xs ! i))))\<lparr>th_in_ready_queue := True\<rparr>))"
      by (rule Cons.IH [OF 1(1)]) (use Cons.prems in simp_all)
    then show ?case
    proof (rule returns_mono, elim conjE, goal_cases)
      case (1 u s'')
      note here = \<open>threads s' = _\<close> and keep = \<open>\<forall>t. unat t \<le> Suc k \<longrightarrow> _\<close>[rule_format] and later = \<open>\<forall>i<length xs. _\<close>[rule_format]
      have "threads s'' t = threads s t" if "unat t \<le> k" for t
      proof -
        have "t \<noteq> of_nat (Suc k)" using that slot_number(1) [OF k(1)] by auto
        then show ?thesis using keep [of t] that here by (simp del: of_nat_Suc)
      qed
      moreover have "threads s'' (of_nat (Suc k + i)) = (new_thread (link s) (of_nat (Suc k + i)) (fst ((x # xs) ! i))
          (fst (snd ((x # xs) ! i))) (snd (snd ((x # xs) ! i))))\<lparr>th_in_ready_queue := True\<rparr>" if "i < Suc (length xs)" for i
      proof (cases i)
        case 0
        then show ?thesis using keep [of "of_nat (Suc k)"] slot_number(1) [OF k(1)] here x by (simp del: of_nat_Suc)
      next
        case (Suc j)
        then show ?thesis using later [of j] that \<open>link s' = link s\<close> by simp
      qed
      ultimately show ?case using 1 x \<open>link s' = link s\<close> by simp
    qed
  qed
qed simp

text \<open>
  C34: Initialisation, whatever the scheduler's variables held before, gives a scheduler in which only the null thread
  exists. Up to seven threads created then take the slots from 1 on in their order. Starting the scheduler runs
  the first of them, in its initial frame with its entry and argument, the others stay ready in their order, and the
  null thread runs if there are none.
\<close>

theorem init_then_start:
  fixes s :: "'a sched_scheme"
  assumes "static_ok s" and "length xs \<le> 7" and "\<forall>x\<in>set xs. fst (snd x) \<noteq> 0"
  shows "\<exists>s1 s2 f s3. thread_init s = Inr ((), s1) \<and> sched_inv {} s1 \<and> ready_list s1 = [] \<and>
    (\<forall>t. tid_is_real t \<longrightarrow> th_state (threads s1 t) = THREAD_UNUSED) \<and>
    creates xs s1 = Inr ((), s2) \<and> ready_list s2 = map of_nat [1..<Suc (length xs)] \<and>
    thread_start s2 = Inr (f, s3) \<and> sched_inv {} s3 \<and> threads_started s3 \<and> f \<noteq> 0 \<and>
    (case xs of [] \<Rightarrow> current_thread s3 = Some THREAD_NULL_TID
     | (name, entry, arg) # ys \<Rightarrow> current_thread s3 = Some 1 \<and> f = initial_frame (link s) 1 \<and>
         th_entry (threads s3 1) = entry \<and> th_arg (threads s3 1) = arg \<and> ready_list s3 = map of_nat [2..<Suc (length xs)])"
proof -
  obtain s1 where s1: "thread_init s = Inr ((), s1)" "sched_inv {} s1" "\<not> threads_started s1" "ready_list s1 = []"
    "\<forall>t. tid_is_real t \<longrightarrow> threads s1 t = unused_thread t" "link s1 = link s"
    using init_ok [OF assms(1)] by (auto elim!: returnsE)
  have "filled 0 s1"
    using s1 assms(1) real_nonzero by (auto simp: filled_def static_ok_def is_free_def unused_thread_def unat_gt_0)
  from creates_filled [OF this _ assms(3)] assms(2)
  obtain s2 where s2: "creates xs s1 = Inr ((), s2)" "filled (length xs) s2"
    "\<forall>i<length xs. threads s2 (of_nat (Suc i)) =
       (new_thread (link s) (of_nat (Suc i)) (fst (xs ! i)) (fst (snd (xs ! i))) (snd (snd (xs ! i))))\<lparr>th_in_ready_queue := True\<rparr>"
    using s1(6) by (auto elim!: returnsE)
  then have r2: "ready_list s2 = map of_nat [1..<Suc (length xs)]" "sched_inv {} s2" "\<not> threads_started s2" by (simp_all add: filled_def)
  obtain f s3 where s3: "thread_start s2 = Inr (f, s3)" "sched_inv {} s3" "current_thread s3 = Some (next_tid s2)" "f \<noteq> 0"
    "f = th_trap_frame (threads s2 (next_tid s2))" "threads s3 = run_next s2" "ready_list s3 = tl (ready_list s2)" "threads_started s3"
    using start_ok [OF r2(2,3)] by (auto elim!: returnsE)
  have "case xs of [] \<Rightarrow> current_thread s3 = Some THREAD_NULL_TID
     | (name, entry, arg) # ys \<Rightarrow> current_thread s3 = Some 1 \<and> f = initial_frame (link s) 1 \<and>
         th_entry (threads s3 1) = entry \<and> th_arg (threads s3 1) = arg \<and> ready_list s3 = map of_nat [2..<Suc (length xs)]"
  proof (cases xs)
    case Nil
    then show ?thesis using s3(3) r2(1) by (simp add: next_tid_def)
  next
    case (Cons x ys)
    have n: "next_tid s2 = 1" "tl (ready_list s2) = map of_nat [2..<Suc (length xs)]"
      using Cons by (simp_all add: next_tid_def r2(1) upt_conv_Cons numeral_2_eq_2 del: upt_Suc)
    have "threads s2 1 = (new_thread (link s) 1 (fst x) (fst (snd x)) (snd (snd x)))\<lparr>th_in_ready_queue := True\<rparr>"
      using s2(3) Cons by force
    then show ?thesis using s3 n Cons by (cases x) (simp add: run_next_def new_thread_def)
  qed
  then show ?thesis using s1(1,2,4,5) s2(1) r2(1) s3(1,2,4,8) by (auto simp: unused_thread_def)
qed

theorem init_then_start_witness:
  "\<exists>s1 s2 f s3. thread_init demo_off = Inr ((), s1) \<and> creates [(None, 0x80000700, 7), (None, 0x80000740, 8)] s1 = Inr ((), s2) \<and>
     thread_start s2 = Inr (f, s3) \<and> current_thread s3 = Some 1 \<and> th_arg (threads s3 1) = 7 \<and> ready_list s3 = [2]"
proof -
  have "static_ok demo_off" by (simp add: static_ok_def demo_off_def demo_sched_def THREAD_MAX_def demo_stacks)
  from init_then_start [OF this, of "[(None, 0x80000700, 7), (None, 0x80000740, 8)]"]
  show ?thesis by (auto simp: upt_rec [of 2])
qed

text \<open>What the control trap owes to the request in the registers of the frame.\<close>

datatype control_answer = Nothing | Timed_out | Panics string | Serves sched_event

definition control_answer :: "u64 \<Rightarrow> 'a sched_scheme \<Rightarrow> control_answer" where
  "control_answer frame s =
     (let op = load64 (frame + FRAME_A7) s; a0 = load64 (frame + FRAME_A0) s; a1 = load64 (frame + FRAME_A1) s;
          null = (current_thread s = Some 0) in
      if \<not> threads_started s then Nothing
      else if op = THREAD_TRAP_YIELD then Serves (Yield frame)
      else if op = THREAD_TRAP_EXIT then if null then Panics ''null thread cannot exit'' else Serves (Exit frame)
      else if op = THREAD_TRAP_SLEEP then if null then Panics ''null thread cannot sleep'' else Serves (Sleep frame a0)
      else if op = THREAD_TRAP_WAIT
      then if a0 = 0 then Panics ''wait control trap null queue''
           else if null then Panics ''null thread cannot wait'' else Serves (Wait frame a0 0)
      else if op = THREAD_TRAP_WAIT_TIMEOUT
      then if a0 = 0 then Panics ''timed wait control trap null queue''
           else if null then Panics ''null thread cannot timed wait''
           else if a1 = 0 then Timed_out else Serves (Wait frame a0 a1)
      else Panics ''unknown thread control trap'')"

lemma control_cases:
  fixes s :: "'a sched_scheme"
  assumes inv: "sched_inv Q s" and a8: "unat frame mod 8 = 0"
  shows "case control_answer frame s of
      Nothing \<Rightarrow> thread_handle_control_trap_from_trap frame s = Inr (frame, skip_ebreak frame s)
    | Timed_out \<Rightarrow> thread_handle_control_trap_from_trap frame s =
        Inr (frame, store64 (frame + FRAME_A0) (sext64 WAIT_TIMEOUT) (skip_ebreak frame s))
    | Panics msg \<Rightarrow> thread_handle_control_trap_from_trap frame s = Inl msg
    | Serves e \<Rightarrow> with_frame (thread_handle_control_trap_from_trap frame s) = sched_do e (skip_ebreak frame s)"
proof -
  define z where "z = skip_ebreak frame s"
  note cells = frame_cells [OF a8, of s, folded z_def]
  have same: "threads_started z = threads_started s" "current_thread z = current_thread s" "threads z = threads s"
    using skip_same [of s frame] by (simp_all add: same_sched_def z_def)
  have iz: "sched_inv Q z" using inv same_sched_inv [OF skip_same] by (auto simp: z_def)
  have exit0: "switch_to_next_from_trap frame False z = Inl ''null thread cannot exit''" if "current_thread z = Some 0"
    using current_facts [OF iz that]
    by (simp add: switch_to_next_from_trap_def irq_masked_def irq_save_def csr_clear_sstatus_def preempt_disable_def that THREAD_NULL_TID_def)
  have h: "thread_handle_control_trap_from_trap frame s =
     (if \<not> threads_started z then Inr (frame, z)
      else if load64 (frame + FRAME_A7) s = THREAD_TRAP_YIELD then thread_yield_current_from_trap frame z
      else if load64 (frame + FRAME_A7) s = THREAD_TRAP_EXIT then switch_to_next_from_trap frame False z
      else if load64 (frame + FRAME_A7) s = THREAD_TRAP_SLEEP then thread_sleep_current_from_trap frame (load64 (frame + FRAME_A0) s) z
      else if load64 (frame + FRAME_A7) s = THREAD_TRAP_WAIT
      then if load64 (frame + FRAME_A0) s = 0 then Inl ''wait control trap null queue''
        else (case current_thread z of
          None \<Rightarrow> Inr (frame, z)
        | Some c \<Rightarrow> if th_tid (threads z c) = THREAD_NULL_TID then Inl ''null thread cannot wait''
            else block_current_from_trap frame (load64 (frame + FRAME_A0) s) 0 z)
      else if load64 (frame + FRAME_A7) s = THREAD_TRAP_WAIT_TIMEOUT
      then if load64 (frame + FRAME_A0) s = 0 then Inl ''timed wait control trap null queue''
        else (case current_thread z of
          None \<Rightarrow> Inr (frame, store64 (frame + FRAME_A0) (sext64 WAIT_TIMEOUT) z)
        | Some c \<Rightarrow> if th_tid (threads z c) = THREAD_NULL_TID then Inl ''null thread cannot timed wait''
            else if load64 (frame + FRAME_A1) z = 0 then Inr (frame, store64 (frame + FRAME_A0) (sext64 WAIT_TIMEOUT) z)
            else block_current_from_trap frame (load64 (frame + FRAME_A0) s) (load64 (frame + FRAME_A1) z) z)
      else Inl ''unknown thread control trap'')"
    unfolding thread_handle_control_trap_from_trap_def Let_def z_def skip_ebreak_def by (rule refl)
  show ?thesis
  proof (cases "threads_started s")
    case False
    then show ?thesis using h same by (simp add: control_answer_def z_def)
  next
    case True
    obtain c where c: "current_thread z = Some c" "th_tid (threads z c) = c"
      using started_current [OF iz] True same current_facts(3) [OF iz] by auto
    show ?thesis
      using exit0 c True same cells unfolding h control_answer_def Let_def z_def [symmetric]
      by (auto simp: THREAD_NULL_TID_def with_frame_def thread_exit_current_from_trap_def thread_sleep_current_from_trap_def)
  qed
qed

text \<open>
  C35: The control trap serves the request in the frame's registers, in every case. Before the scheduler has started
  it only moves the saved program counter past the trapping instruction. Otherwise the request is the scheduler
  operation it names, on the state in which the program counter has moved; a timed wait of no ticks is answered at
  once with the timeout code; and the panics are those of an unknown request, of a wait without a queue and of the
  null thread if it is to end, sleep or wait. A request that keeps the caller's obligations does not panic, and does to
  the queues and the processor what the abstract scheduler does.
\<close>

theorem control_trap_dispatch:
  fixes s :: "'a sched_scheme"
  assumes "sched_inv Q s" and "unat frame mod 8 = 0"
  shows "case control_answer frame s of
      Nothing \<Rightarrow> thread_handle_control_trap_from_trap frame s = Inr (frame, skip_ebreak frame s)
    | Timed_out \<Rightarrow> thread_handle_control_trap_from_trap frame s =
        Inr (frame, store64 (frame + FRAME_A0) (sext64 WAIT_TIMEOUT) (skip_ebreak frame s))
    | Panics msg \<Rightarrow> thread_handle_control_trap_from_trap frame s = Inl msg
    | Serves e \<Rightarrow> with_frame (thread_handle_control_trap_from_trap frame s) = sched_do e (skip_ebreak frame s) \<and>
        (allowed Q e (skip_ebreak frame s) \<longrightarrow> (\<exists>f s'. thread_handle_control_trap_from_trap frame s = Inr (f, s') \<and>
           sched_inv Q s' \<and> abs_sched Q s' = a_step e (ticks s) (reschedule_requested s) (free_slot s) (abs_sched Q s)))"
proof (cases "control_answer frame s")
  case (Serves e)
  let ?z = "skip_ebreak frame s"
  have eq: "with_frame (thread_handle_control_trap_from_trap frame s) = sched_do e ?z"
    using control_cases [OF assms] Serves by simp
  have inv: "sched_inv Q ?z" using assms(1) same_sched_inv [OF skip_same] by blast
  have q: "queues_after e Q = Q" using Serves by (auto simp: control_answer_def Let_def split: if_splits)
  have same: "ticks ?z = ticks s" "reschedule_requested ?z = reschedule_requested s" "free_slot ?z = free_slot s" "abs_sched Q ?z = abs_sched Q s"
    by (simp_all add: skip_ebreak_def free_slot_def abs_sched_def ready_list_def sleep_list_def wait_list_def store64_def cong: if_cong)
  have "\<exists>f s'. thread_handle_control_trap_from_trap frame s = Inr (f, s') \<and> sched_inv Q s' \<and>
      abs_sched Q s' = a_step e (ticks s) (reschedule_requested s) (free_slot s) (abs_sched Q s)" if al: "allowed Q e ?z"
  proof -
    obtain f s' where "sched_do e ?z = Inr (f, s')" "step_ok Q e ?z s'"
      using sched_do_ok [OF inv al] by (auto elim!: returnsE)
    then show ?thesis
      using eq same q by (cases "thread_handle_control_trap_from_trap frame s") (auto simp: with_frame_def step_ok_def)
  qed
  with eq Serves show ?thesis by simp
qed (use control_cases [OF assms] in simp_all)

theorem control_trap_dispatch_witness:
  "\<exists>f s'. thread_handle_control_trap_from_trap 0x9000
     (demo_sched\<lparr>mem := write64 (\<lambda>_. 0) (0x9000 + FRAME_A7) THREAD_TRAP_YIELD\<rparr>) = Inr (f, s') \<and> current_thread s' = Some 2"
proof -
  let ?s = "demo_sched\<lparr>mem := write64 (\<lambda>_. 0) (0x9000 + FRAME_A7) THREAD_TRAP_YIELD\<rparr>"
  have same: "same_sched demo_sched ?s" by (simp add: same_sched_def)
  then have i: "sched_inv {0x100} ?s" using demo_inv same_sched_inv by blast
  have l: "ready_list ?s = [2]" "current_thread ?s = Some 1" "threads_started ?s"
    using same demo_lists(1) by (simp_all add: same_sched_def ready_list_def)
  then have e: "control_answer 0x9000 ?s = Serves (Yield 0x9000)" by (simp add: control_answer_def load64_def cell64.rd_wr)
  from control_trap_dispatch [OF i, of "0x9000"] l show ?thesis
    unfolding e by (auto simp: skip_ebreak_def a_yield_def a_dispatch_def abs_sched_def)
qed

end
