(* ===== verification/Machine_Mode.thy ===== *)
theory Machine_Mode
  imports Trace
begin

text \<open>
  The machine-mode shim, \<^verbatim>\<open>kernel/arch/riscv64/machine.c\<close>, and the register
  accessors of \<^verbatim>\<open>csr.h\<close>: boot-time delegation, the entry into supervisor mode,
  and the two traps machine mode serves, the timer call and the machine timer interrupt.
\<close>

section \<open>Control and status registers\<close>

definition MCAUSE_CODE_MASK :: u64 where "MCAUSE_CODE_MASK = NOT MCAUSE_INTERRUPT"
definition MSTATUS_MPP_SHIFT :: nat where "MSTATUS_MPP_SHIFT = 11"
definition MSTATUS_MPP_MASK :: u64 where "MSTATUS_MPP_MASK = push_bit MSTATUS_MPP_SHIFT 3"
definition MSTATUS_MPP_S :: u64 where "MSTATUS_MPP_S = push_bit MSTATUS_MPP_SHIFT 1"
definition MIE_MTIE :: u64 where "MIE_MTIE = push_bit 7 1"
definition SIE_STIE :: u64 where "SIE_STIE = push_bit 5 1"
definition MIP_STIP :: u64 where "MIP_STIP = push_bit 5 1"
definition MCOUNTEREN_CY :: u64 where "MCOUNTEREN_CY = 1"
definition MCOUNTEREN_TM :: u64 where "MCOUNTEREN_TM = 2"
definition PMP_R :: u64 where "PMP_R = 1"
definition PMP_W :: u64 where "PMP_W = 2"
definition PMP_X :: u64 where "PMP_X = 4"
definition PMP_A_NAPOT :: u64 where "PMP_A_NAPOT = push_bit 3 3"
definition MCAUSE_INSTRUCTION_ACCESS_FAULT :: u64 where "MCAUSE_INSTRUCTION_ACCESS_FAULT = 1"
definition MCAUSE_ILLEGAL_INSTRUCTION :: u64 where "MCAUSE_ILLEGAL_INSTRUCTION = 2"
definition MCAUSE_LOAD_ACCESS_FAULT :: u64 where "MCAUSE_LOAD_ACCESS_FAULT = 5"
definition MCAUSE_STORE_ACCESS_FAULT :: u64 where "MCAUSE_STORE_ACCESS_FAULT = 7"
definition MCAUSE_ECALL_S_MODE :: u64 where "MCAUSE_ECALL_S_MODE = 9"
definition MCAUSE_MACHINE_TIMER_INTERRUPT :: u64 where "MCAUSE_MACHINE_TIMER_INTERRUPT = 7"

definition upd_csrs :: "(csr_file \<Rightarrow> csr_file) \<Rightarrow> 'a timer_scheme \<Rightarrow> 'a timer_scheme" where
  "upd_csrs f s = s\<lparr>csrs := f (csrs s)\<rparr>"

definition csr_read_mstatus :: "'a timer_scheme \<Rightarrow> u64" where "csr_read_mstatus s = c_mstatus (csrs s)"
definition csr_read_sstatus :: "'a timer_scheme \<Rightarrow> u64" where "csr_read_sstatus s = sstatus s"
definition csr_read_mcause :: "'a timer_scheme \<Rightarrow> u64" where "csr_read_mcause s = c_mcause (csrs s)"
definition csr_read_scause :: "'a timer_scheme \<Rightarrow> u64" where "csr_read_scause s = c_scause (csrs s)"
definition csr_read_mepc :: "'a timer_scheme \<Rightarrow> u64" where "csr_read_mepc s = c_mepc (csrs s)"
definition csr_read_sepc :: "'a timer_scheme \<Rightarrow> u64" where "csr_read_sepc s = c_sepc (csrs s)"
definition csr_read_mie :: "'a timer_scheme \<Rightarrow> u64" where "csr_read_mie s = c_mie (csrs s)"
definition csr_read_sie :: "'a timer_scheme \<Rightarrow> u64" where "csr_read_sie s = c_sie (csrs s)"
definition csr_read_mtval :: "'a timer_scheme \<Rightarrow> u64" where "csr_read_mtval s = c_mtval (csrs s)"
definition csr_read_stval :: "'a timer_scheme \<Rightarrow> u64" where "csr_read_stval s = c_stval (csrs s)"
definition csr_read_mtvec :: "'a timer_scheme \<Rightarrow> u64" where "csr_read_mtvec s = c_mtvec (csrs s)"
definition csr_read_stvec :: "'a timer_scheme \<Rightarrow> u64" where "csr_read_stvec s = c_stvec (csrs s)"
definition csr_read_satp :: "'a timer_scheme \<Rightarrow> u64" where "csr_read_satp s = satp s"

definition csr_write_mepc :: "u64 \<Rightarrow> 'a timer_scheme \<Rightarrow> 'a timer_scheme" where
  "csr_write_mepc v = upd_csrs (\<lambda>c. c\<lparr>c_mepc := v\<rparr>)"

definition csr_write_mstatus :: "u64 \<Rightarrow> 'a timer_scheme \<Rightarrow> 'a timer_scheme" where
  "csr_write_mstatus v = upd_csrs (\<lambda>c. c\<lparr>c_mstatus := v\<rparr>)"

definition csr_write_sepc :: "u64 \<Rightarrow> 'a timer_scheme \<Rightarrow> 'a timer_scheme" where
  "csr_write_sepc v = upd_csrs (\<lambda>c. c\<lparr>c_sepc := v\<rparr>)"

definition csr_write_satp :: "u64 \<Rightarrow> 'a timer_scheme \<Rightarrow> 'a timer_scheme" where
  "csr_write_satp v s = s\<lparr>satp := v\<rparr>"

definition csr_set_mstatus :: "u64 \<Rightarrow> 'a timer_scheme \<Rightarrow> 'a timer_scheme" where
  "csr_set_mstatus m = upd_csrs (\<lambda>c. c\<lparr>c_mstatus := c_mstatus c OR m\<rparr>)"

definition csr_clear_mstatus :: "u64 \<Rightarrow> 'a timer_scheme \<Rightarrow> 'a timer_scheme" where
  "csr_clear_mstatus m = upd_csrs (\<lambda>c. c\<lparr>c_mstatus := c_mstatus c AND NOT m\<rparr>)"

definition csr_set_mie :: "u64 \<Rightarrow> 'a timer_scheme \<Rightarrow> 'a timer_scheme" where
  "csr_set_mie m = upd_csrs (\<lambda>c. c\<lparr>c_mie := c_mie c OR m\<rparr>)"

definition csr_set_sie :: "u64 \<Rightarrow> 'a timer_scheme \<Rightarrow> 'a timer_scheme" where
  "csr_set_sie m = upd_csrs (\<lambda>c. c\<lparr>c_sie := c_sie c OR m\<rparr>)"

definition csr_clear_mie :: "u64 \<Rightarrow> 'a timer_scheme \<Rightarrow> 'a timer_scheme" where
  "csr_clear_mie m = upd_csrs (\<lambda>c. c\<lparr>c_mie := c_mie c AND NOT m\<rparr>)"

definition csr_clear_sie :: "u64 \<Rightarrow> 'a timer_scheme \<Rightarrow> 'a timer_scheme" where
  "csr_clear_sie m = upd_csrs (\<lambda>c. c\<lparr>c_sie := c_sie c AND NOT m\<rparr>)"

definition csr_write_mtvec :: "u64 \<Rightarrow> 'a timer_scheme \<Rightarrow> 'a timer_scheme" where
  "csr_write_mtvec v = upd_csrs (\<lambda>c. c\<lparr>c_mtvec := v\<rparr>)"

definition csr_write_mscratch :: "u64 \<Rightarrow> 'a timer_scheme \<Rightarrow> 'a timer_scheme" where
  "csr_write_mscratch v = upd_csrs (\<lambda>c. c\<lparr>c_mscratch := v\<rparr>)"

definition csr_write_stvec :: "u64 \<Rightarrow> 'a timer_scheme \<Rightarrow> 'a timer_scheme" where
  "csr_write_stvec v = upd_csrs (\<lambda>c. c\<lparr>c_stvec := v\<rparr>)"

definition csr_write_medeleg :: "u64 \<Rightarrow> 'a timer_scheme \<Rightarrow> 'a timer_scheme" where
  "csr_write_medeleg v = upd_csrs (\<lambda>c. c\<lparr>c_medeleg := v\<rparr>)"

definition csr_write_mideleg :: "u64 \<Rightarrow> 'a timer_scheme \<Rightarrow> 'a timer_scheme" where
  "csr_write_mideleg v = upd_csrs (\<lambda>c. c\<lparr>c_mideleg := v\<rparr>)"

definition csr_write_mcounteren :: "u64 \<Rightarrow> 'a timer_scheme \<Rightarrow> 'a timer_scheme" where
  "csr_write_mcounteren v = upd_csrs (\<lambda>c. c\<lparr>c_mcounteren := v\<rparr>)"

definition csr_write_pmpaddr0 :: "u64 \<Rightarrow> 'a timer_scheme \<Rightarrow> 'a timer_scheme" where
  "csr_write_pmpaddr0 v = upd_csrs (\<lambda>c. c\<lparr>c_pmpaddr0 := v\<rparr>)"

definition csr_write_pmpcfg0 :: "u64 \<Rightarrow> 'a timer_scheme \<Rightarrow> 'a timer_scheme" where
  "csr_write_pmpcfg0 v = upd_csrs (\<lambda>c. c\<lparr>c_pmpcfg0 := v\<rparr>)"

definition csr_set_mip :: "u64 \<Rightarrow> 'a timer_scheme \<Rightarrow> 'a timer_scheme" where
  "csr_set_mip m = upd_csrs (\<lambda>c. c\<lparr>c_mip := c_mip c OR m\<rparr>)"

definition csr_clear_mip :: "u64 \<Rightarrow> 'a timer_scheme \<Rightarrow> 'a timer_scheme" where
  "csr_clear_mip m = upd_csrs (\<lambda>c. c\<lparr>c_mip := c_mip c AND NOT m\<rparr>)"

section \<open>Machine mode\<close>

definition MACHINE_ECALL_SET_TIMER :: u64 where "MACHINE_ECALL_SET_TIMER = 1"
definition PMP_ALL_MEMORY_NAPOT :: u64 where "PMP_ALL_MEMORY_NAPOT = 0xffffffffffffffff"

definition machine_write_mtimecmp :: "u64 \<Rightarrow> 'a timer_scheme \<Rightarrow> 'a timer_scheme" where
  "machine_write_mtimecmp v s = s\<lparr>mtimecmp := v\<rparr>"

definition machine_allow_supervisor_memory_access :: "'a timer_scheme \<Rightarrow> 'a timer_scheme" where
  "machine_allow_supervisor_memory_access s =
     csr_write_pmpcfg0 (PMP_R OR PMP_W OR PMP_X OR PMP_A_NAPOT) (csr_write_pmpaddr0 PMP_ALL_MEMORY_NAPOT s)"

definition delegated_exceptions :: u64 where
  "delegated_exceptions =
     push_bit (unat MCAUSE_INSTRUCTION_ACCESS_FAULT) 1 OR push_bit (unat MCAUSE_ILLEGAL_INSTRUCTION) 1 OR
     push_bit (unat MCAUSE_BREAKPOINT) 1 OR push_bit (unat MCAUSE_LOAD_ACCESS_FAULT) 1 OR
     push_bit (unat MCAUSE_STORE_ACCESS_FAULT) 1 OR push_bit (unat MCAUSE_ECALL_U_MODE) 1 OR
     push_bit (unat MCAUSE_INSTRUCTION_PAGE_FAULT) 1 OR push_bit (unat MCAUSE_LOAD_PAGE_FAULT) 1 OR
     push_bit (unat MCAUSE_STORE_PAGE_FAULT) 1"

definition machine_init :: "'a timer_scheme \<Rightarrow> 'a timer_scheme" where
  "machine_init s =
     (let s = machine_allow_supervisor_memory_access s;
          s = machine_write_mtimecmp 0xffffffffffffffff s;
          s = csr_write_mtvec (machine_trap_entry_addr (link s)) s;
          s = csr_write_mscratch (machine_stack_top (link s)) s;
          s = csr_write_medeleg delegated_exceptions s;
          s = csr_write_mideleg (push_bit (unat SCAUSE_SUPERVISOR_TIMER_INTERRUPT) 1) s;
          s = csr_write_mcounteren (MCOUNTEREN_CY OR MCOUNTEREN_TM) s
      in csr_set_mie MIE_MTIE s)"

text \<open>
  \<open>machine_enter_supervisor\<close> up to its \<open>mret\<close>: what the instruction finds in
  \<open>satp\<close>, \<open>mepc\<close> and \<open>mstatus\<close>.
\<close>

definition machine_enter_supervisor :: "u64 \<Rightarrow> u64 \<Rightarrow> 'a timer_scheme \<Rightarrow> 'a timer_scheme" where
  "machine_enter_supervisor satp_value entry s =
     (let s = sfence_vma (csr_write_satp satp_value s);
          s = csr_write_mepc entry s;
          status = csr_read_mstatus s;
          status = status AND NOT MSTATUS_MPP_MASK;
          status = status OR MSTATUS_MPP_S
      in csr_write_mstatus status s)"

definition machine_trap_handle :: "u64 \<Rightarrow> 'a timer_scheme \<Rightarrow> (u64 \<times> 'a timer_scheme) res" where
  "machine_trap_handle frame s =
     (let is_interrupt = load64 (frame + FRAME_MCAUSE) s AND MCAUSE_INTERRUPT;
          cause = load64 (frame + FRAME_MCAUSE) s AND MCAUSE_CODE_MASK in
      if is_interrupt = 0 \<and> cause = MCAUSE_ECALL_S_MODE \<and> load64 (frame + FRAME_A7) s = MACHINE_ECALL_SET_TIMER
      then let s = csr_clear_mip MIP_STIP s;
               s = machine_write_mtimecmp (load64 (frame + FRAME_A0) s) s;
               s = store64 (frame + FRAME_A0) 0 s;
               s = store64 (frame + FRAME_MEPC) (load64 (frame + FRAME_MEPC) s + 4) s
           in Inr (frame, s)
      else if is_interrupt \<noteq> 0 \<and> cause = MCAUSE_MACHINE_TIMER_INTERRUPT
      then let s = machine_write_mtimecmp 0xffffffffffffffff s in Inr (frame, csr_set_mip MIP_STIP s)
      else Inl ''unhandled machine trap'')"

text \<open>
  The \<open>ecall\<close> of \<open>machine_call_set_timer\<close>: the machine trap entry, which is
  assembly, saves the registers in a frame on the machine stack; of these the handler reads
  \<open>a0\<close>, \<open>a7\<close>, the cause and the program counter. The call's result is
  the low half of the frame's \<open>a0\<close>, as a signed number.
\<close>

definition machine_frame :: "'a hw_scheme \<Rightarrow> u64" where
  "machine_frame s = machine_stack_top (link s) - 288"

definition machine_call_set_timer :: "u64 \<Rightarrow> 'a timer_scheme \<Rightarrow> (int \<times> 'a timer_scheme) res" where
  "machine_call_set_timer deadline s =
     (let frame = machine_frame s;
          s = store64 (frame + FRAME_A0) deadline s;
          s = store64 (frame + FRAME_A7) MACHINE_ECALL_SET_TIMER s;
          s = store64 (frame + FRAME_MCAUSE) MCAUSE_ECALL_S_MODE s in
      bindE (machine_trap_handle frame s) (\<lambda>(frame, s).
        Inr (sint (ucast (load64 (frame + FRAME_A0) s) :: 32 word), s)))"

end
