(* ===== verification/Timer.thy ===== *)
theory Timer
  imports Sched_Thms Machine_Mode
begin

text \<open>
  The timer driver, \<^verbatim>\<open>kernel/drivers/timer.c\<close>, on top of the machine-mode timer
  call: programming the next deadline, and the tick that drives the scheduler.
\<close>

section \<open>Operations\<close>

definition TIMER_INTERVAL_CYCLES :: u64 where "TIMER_INTERVAL_CYCLES = 10000"

definition timer_read_mtime :: "'a timer_scheme \<Rightarrow> u64 \<times> 'a timer_scheme" where
  "timer_read_mtime s = (mtime_at s (mtime_reads s), s\<lparr>mtime_reads := Suc (mtime_reads s)\<rparr>)"

definition timer_set_deadline :: "u64 \<Rightarrow> 'a timer_scheme \<Rightarrow> (unit \<times> 'a timer_scheme) res" where
  "timer_set_deadline value s =
     bindE (machine_call_set_timer value s) (\<lambda>(r, s).
       if r \<noteq> 0 then Inl ''machine timer call failed'' else Inr ((), s))"

definition timer_init :: "'a timer_scheme \<Rightarrow> (unit \<times> 'a timer_scheme) res" where
  "timer_init s =
     (let s = s\<lparr>ticks := 0\<rparr>;
          (now, s) = timer_read_mtime s;
          s = s\<lparr>next_compare := now + TIMER_INTERVAL_CYCLES\<rparr> in
      bindE (timer_set_deadline (next_compare s) s) (\<lambda>(_, s).
        let s = csr_set_sie SIE_STIE s;
            s = csr_set_sstatus SSTATUS_SIE s;
            s = console_write ''timer: interval='' s;
            s = console_write_hex64 TIMER_INTERVAL_CYCLES s;
            s = console_write '' sie='' s;
            s = console_write_hex64 (csr_read_sie s) s
        in Inr ((), console_write [CHR 0x0A] s)))"

text \<open>
  The \<open>do ... while\<close> loop that moves the deadline past the present. It may run for
  ever when the clock is in the last interval before it wraps around, so it is a partial
  function: not ending is the value \<open>None\<close>, here and in the operations that contain
  it.
\<close>

partial_function (option) advance_deadline :: "u64 \<Rightarrow> u64 \<Rightarrow> u64 option" where
  "advance_deadline now deadline =
     (let deadline = deadline + TIMER_INTERVAL_CYCLES in
      if deadline \<le> now then advance_deadline now deadline else Some deadline)"

definition timer_handle_interrupt :: "'a sched_scheme \<Rightarrow> (unit \<times> 'a sched_scheme) res option" where
  "timer_handle_interrupt s =
     (let (now, s) = timer_read_mtime s;
          s = s\<lparr>ticks := ticks s + 1\<rparr> in
      case advance_deadline now (next_compare s) of
        None \<Rightarrow> None
      | Some deadline \<Rightarrow>
          let s = s\<lparr>next_compare := deadline\<rparr> in
          Some (bindE (timer_set_deadline (next_compare s) s) (\<lambda>(_, s). thread_on_timer_tick s)))"

section \<open>The deadline\<close>

text \<open>The loop's \<open>k\<close>-th value.\<close>

definition deadline_after :: "u64 \<Rightarrow> nat \<Rightarrow> u64" where
  "deadline_after d k = d + of_nat k * TIMER_INTERVAL_CYCLES"

lemma advance_runs:
  assumes "\<forall>j. 0 < j \<longrightarrow> j < k \<longrightarrow> deadline_after d j \<le> now" and "now < deadline_after d k" and "0 < k"
  shows "advance_deadline now d = Some (deadline_after d k)"
  using assms
proof (induction k arbitrary: d)
  case (Suc k)
  show ?case
  proof (cases k)
    case 0
    then have "\<not> d + TIMER_INTERVAL_CYCLES \<le> now" using Suc.prems(2) by (simp add: deadline_after_def not_le)
    then show ?thesis using 0 by (subst advance_deadline.simps) (simp add: deadline_after_def Let_def)
  next
    case (Suc m)
    have sh: "deadline_after (d + TIMER_INTERVAL_CYCLES) j = deadline_after d (Suc j)" for j
      by (simp add: deadline_after_def algebra_simps)
    have "advance_deadline now (d + TIMER_INTERVAL_CYCLES) = Some (deadline_after (d + TIMER_INTERVAL_CYCLES) k)"
      by (rule Suc.IH) (use Suc.prems Suc in \<open>auto simp: sh\<close>)
    moreover have "d + TIMER_INTERVAL_CYCLES \<le> now"
      using Suc.prems(1) Suc by (auto simp: deadline_after_def dest: spec [of _ 1])
    ultimately show ?thesis by (subst advance_deadline.simps) (simp add: Let_def sh)
  qed
qed simp

text \<open>
  From a clock that is not about to wrap around the loop ends, and the new deadline is the first
  multiple of the interval after the old one that lies in the future.
\<close>

definition next_deadline :: "nat \<Rightarrow> nat \<Rightarrow> nat" where
  "next_deadline now d = (if d \<le> now then d + ((now - d) div 10000 + 1) * 10000 else d + 10000)"

lemma advance_ok:
  fixes now d :: u64
  assumes "unat now + 10000 < 2 ^ 64" and "unat d + 10000 < 2 ^ 64"
  shows "\<exists>d'. advance_deadline now d = Some d' \<and> unat d' = next_deadline (unat now) (unat d) \<and> now < d'"
proof -
  let ?n = "unat now" and ?d = "unat d"
  have un: "unat (deadline_after d k) = ?d + k * 10000" if "?d + k * 10000 < 2 ^ 64" for k
  proof -
    have "unat (of_nat k * TIMER_INTERVAL_CYCLES :: u64) = k * 10000"
      using that by (simp add: unat_word_ariths unat_of_nat TIMER_INTERVAL_CYCLES_def)
    then show ?thesis using that by (simp add: deadline_after_def unat_word_ariths)
  qed
  define k where "k = (if ?d \<le> ?n then (?n - ?d) div 10000 + 1 else 1)"
  have k0: "0 < k" by (simp add: k_def)
  have kd: "?d + k * 10000 = next_deadline ?n ?d" by (simp add: k_def next_deadline_def)
  have fit: "?d + k * 10000 < 2 ^ 64"
  proof (cases "?d \<le> ?n")
    case True
    then have "?d + (?n - ?d) div 10000 * 10000 \<le> ?n" using div_times_less_eq_dividend [of "?n - ?d" 10000] by linarith
    then show ?thesis using True assms(1) by (simp add: k_def algebra_simps)
  qed (use assms(2) in \<open>simp add: k_def\<close>)
  have past: "?n < ?d + k * 10000"
  proof (cases "?d \<le> ?n")
    case True
    have "?n - ?d < ((?n - ?d) div 10000 + 1) * 10000" using dividend_less_div_times [of 10000 "?n - ?d"] by simp
    with True show ?thesis by (simp add: k_def)
  qed (simp add: k_def)
  have before: "deadline_after d j \<le> now" if "0 < j" "j < k" for j
  proof -
    have le: "?d \<le> ?n" and "j \<le> (?n - ?d) div 10000" using that by (auto simp: k_def split: if_splits)
    then have "j * 10000 \<le> ?n - ?d" by (metis div_times_less_eq_dividend le_trans mult_le_mono1)
    then have "?d + j * 10000 \<le> ?n" using le by linarith
    then show ?thesis using assms(1) by (simp add: word_le_nat_alt un)
  qed
  have "advance_deadline now d = Some (deadline_after d k)"
    by (rule advance_runs) (use before past fit k0 in \<open>auto simp: word_less_nat_alt un\<close>)
  then show ?thesis using un [OF fit] kd past by (intro exI [of _ "deadline_after d k"]) (simp add: word_less_nat_alt)
qed

section \<open>The timer call\<close>

lemma set_deadline_ok:
  fixes s :: "'a timer_scheme"
  assumes "unat (machine_frame s) mod 8 = 0"
  shows "\<exists>m. timer_set_deadline d s = Inr ((), (csr_clear_mip MIP_STIP s)\<lparr>mtimecmp := d, mem := m\<rparr>) \<and>
    (\<forall>a. 280 \<le> unat (a - machine_frame s) \<longrightarrow> m a = mem s a)"
proof -
  let ?f = "machine_frame s"
  let ?m = "write64 (write64 (write64 (mem s) (?f + FRAME_A0) d) (?f + FRAME_A7) 1) (?f + FRAME_MCAUSE) 9"
  have off: "FRAME_A0 = 8 * of_nat 9" "FRAME_A7 = 8 * of_nat 16" "FRAME_MCAUSE = 8 * of_nat 33" "FRAME_MEPC = 8 * of_nat 31"
    by (simp_all add: FRAME_A0_def FRAME_A7_def FRAME_MCAUSE_def FRAME_MEPC_def)
  note rw = read_word_write [OF assms]
  have rd: "read64 ?m (?f + FRAME_A0) = d" "read64 ?m (?f + FRAME_A7) = 1" "read64 ?m (?f + FRAME_MCAUSE) = 9"
    unfolding off using rw [of 9 33] rw [of 9 16] rw [of 9 9] rw [of 16 33] rw [of 16 16] rw [of 33 33] by simp_all
  let ?m2 = "write64 ?m (?f + FRAME_A0) 0"
  let ?m3 = "write64 ?m2 (?f + FRAME_MEPC) (read64 ?m2 (?f + FRAME_MEPC) + 4)"
  have rd3: "read64 ?m3 (?f + FRAME_A0) = 0"
    unfolding off using rw [of 9 31] rw [of 9 9] by simp
  have out: "?m3 a = mem s a" if "280 \<le> unat (a - ?f)" for a
    unfolding off using that write_word_outside [of 9 35 a ?f] write_word_outside [of 16 35 a ?f]
      write_word_outside [of 33 35 a ?f] write_word_outside [of 31 35 a ?f] by simp
  have "timer_set_deadline d s = Inr ((), (csr_clear_mip MIP_STIP s)\<lparr>mtimecmp := d, mem := ?m3\<rparr>)"
    using rd rd3
    by (simp add: timer_set_deadline_def machine_call_set_timer_def machine_trap_handle_def Let_def store64_def load64_def
        MACHINE_ECALL_SET_TIMER_def MCAUSE_ECALL_S_MODE_def MCAUSE_INTERRUPT_def MCAUSE_CODE_MASK_def
        machine_write_mtimecmp_def csr_clear_mip_def upd_csrs_def)
  with out show ?thesis by blast
qed

lemma advance_future:
  assumes "advance_deadline now d = Some d'"
  shows "now < d'"
proof (rule advance_deadline.raw_induct [OF _ assms, where P = "\<lambda>now d d'. now < d'"])
  fix advance :: "u64 \<Rightarrow> u64 \<Rightarrow> u64 option" and now d d'
  assume "\<And>now d d'. advance now d = Some d' \<Longrightarrow> now < d'"
    and "(let d = d + TIMER_INTERVAL_CYCLES in if d \<le> now then advance now d else Some d) = Some d'"
  then show "now < d'" by (auto simp: Let_def not_le split: if_splits)
qed

section \<open>The tick\<close>

lemma interrupt_ok:
  fixes s :: "'a sched_scheme"
  assumes inv: "sched_inv Q s" and cur: "current_thread s = Some c" and fr: "unat (machine_frame s) mod 8 = 0"
    and now: "now = mtime_at s (mtime_reads s)" "unat now + 10000 < 2 ^ 64" "unat (next_compare s) + 10000 < 2 ^ 64"
  shows "\<exists>s0 s'. same_sched s s0 \<and> ticks s0 = ticks s + 1 \<and> thread_on_timer_tick s0 = Inr ((), s') \<and>
    timer_handle_interrupt s = Some (Inr ((), s')) \<and> unat (next_compare s') = next_deadline (unat now) (unat (next_compare s)) \<and>
    now < next_compare s' \<and> mtimecmp s' = next_compare s' \<and> c_mip (csrs s') AND MIP_STIP = 0"
proof -
  obtain d where d: "advance_deadline now (next_compare s) = Some d" "unat d = next_deadline (unat now) (unat (next_compare s))" "now < d"
    using advance_ok [OF now(2,3)] by blast
  let ?s1 = "s\<lparr>mtime_reads := Suc (mtime_reads s), ticks := ticks s + 1, next_compare := d\<rparr>"
  have fr1: "unat (machine_frame ?s1) mod 8 = 0" using fr by (simp add: machine_frame_def)
  obtain m where m: "timer_set_deadline d ?s1 = Inr ((), (csr_clear_mip MIP_STIP ?s1)\<lparr>mtimecmp := d, mem := m\<rparr>)"
    using set_deadline_ok [OF fr1, of d] by (elim exE conjE) (rule that)
  define s2 where "s2 = (csr_clear_mip MIP_STIP ?s1)\<lparr>mtimecmp := d, mem := m\<rparr>"
  have same: "same_sched s s2" by (simp add: s2_def same_sched_def csr_clear_mip_def upd_csrs_def)
  have inv2: "sched_inv Q s2" using inv same_sched_inv [OF same] by blast
  have cur2: "current_thread s2 = Some c" using same cur by (simp add: same_sched_def)
  have f2: "ticks s2 = ticks s + 1" "next_compare s2 = d" "mtimecmp s2 = d" "c_mip (csrs s2) AND MIP_STIP = 0"
    by (simp_all add: s2_def csr_clear_mip_def upd_csrs_def bit_eq_iff bit_simps)
  obtain s' where s': "thread_on_timer_tick s2 = Inr ((), s')" "next_compare s' = next_compare s2" "mtimecmp s' = mtimecmp s2"
    "csrs s' = csrs s2"
    using tick_keeps [OF inv2 cur2] by (auto elim!: returnsE)
  have run: "timer_handle_interrupt s = Some (Inr ((), s'))"
    using d(1) m s'(1) now(1) by (simp add: s2_def timer_handle_interrupt_def timer_read_mtime_def Let_def)
  show ?thesis
    by (rule exI [of _ s2], rule exI [of _ s']) (use same f2 s' run d in simp)
qed

text \<open>
  C36: A timer interrupt counts one tick, programs the next deadline and runs the scheduler's
  tick with the new count. The deadline is the first one after the old that lies in the future, so
  the period does not drift and missed intervals give one tick; the pending bit is cleared and the
  sleepers due at the new tick are ready.
\<close>

theorem timer_interrupt_correct:
  fixes s :: "'a sched_scheme"
  assumes "sched_inv Q s" and "current_thread s = Some c" and "unat (machine_frame s) mod 8 = 0"
    and "unat (mtime_at s (mtime_reads s)) + 10000 < 2 ^ 64" and "unat (next_compare s) + 10000 < 2 ^ 64"
  shows "\<exists>s'. timer_handle_interrupt s = Some (Inr ((), s')) \<and> sched_inv Q s' \<and> ticks s' = ticks s + 1 \<and>
    unat (next_compare s') = next_deadline (unat (mtime_at s (mtime_reads s))) (unat (next_compare s)) \<and>
    mtime_at s (mtime_reads s) < next_compare s' \<and> mtimecmp s' = next_compare s' \<and> c_mip (csrs s') AND MIP_STIP = 0 \<and>
    ready_list s' = ready_list s @ filter (\<lambda>t. th_wake_tick (threads s t) \<le> ticks s + 1) (sleep_list s)"
proof -
  obtain s0 s' where s: "same_sched s s0" "ticks s0 = ticks s + 1" "thread_on_timer_tick s0 = Inr ((), s')"
    "timer_handle_interrupt s = Some (Inr ((), s'))"
    "unat (next_compare s') = next_deadline (unat (mtime_at s (mtime_reads s))) (unat (next_compare s))"
    "mtime_at s (mtime_reads s) < next_compare s'" "mtimecmp s' = next_compare s'" "c_mip (csrs s') AND MIP_STIP = 0"
    using interrupt_ok [OF assms(1-3) refl assms(4,5)] by blast
  have inv0: "sched_inv Q s0" using assms(1) same_sched_inv [OF s(1)] by blast
  have cur0: "current_thread s0 = Some c" using s(1) assms(2) by (simp add: same_sched_def)
  have l: "ready_list s0 = ready_list s" "sleep_list s0 = sleep_list s" "threads s0 = threads s"
    using s(1) by (simp_all add: same_sched_def ready_list_def sleep_list_def)
  have "sched_inv Q s' \<and> ticks s' = ticks s0 \<and> ready_list s' = ready_list s0 @ due (ticks s0) s0"
    using returnsD [OF tick_ok [OF inv0 cur0] s(3)] by blast
  with s l show ?thesis by (intro exI [of _ s']) (simp add: due_def)
qed

theorem timer_interrupt_correct_witness:
  "\<exists>s'. timer_handle_interrupt (demo_sched\<lparr>next_compare := 30000, mtime_at := \<lambda>_. 45000\<rparr>) = Some (Inr ((), s')) \<and>
     unat (next_compare s') = 50000 \<and> ready_list s' = [2, 3]"
proof -
  let ?s = "demo_sched\<lparr>next_compare := 30000, mtime_at := \<lambda>_. 45000\<rparr>"
  have same: "same_sched demo_sched ?s" by (simp add: same_sched_def)
  have inv: "sched_inv {0x100} ?s" using demo_inv same_sched_inv [OF same] by blast
  have l: "ready_list ?s = [2]" "sleep_list ?s = [3, 4]" using demo_lists(1,2) by (simp_all add: ready_list_def sleep_list_def)
  have "machine_frame ?s = 0x8040fee0" by (simp add: machine_frame_def demo_link_def)
  with timer_interrupt_correct [OF inv, of 1] l show ?thesis
    by (auto simp: next_deadline_def demo_thread_def unused_thread_def)
qed

text \<open>
  C40: The deadline loop ends whenever the clock is at least one interval away from wrapping
  around, and whenever it ends the deadline lies in the future; with the clock at its last value it
  never ends.
\<close>

theorem deadline_loop_ends:
  fixes now d :: u64
  shows "(unat now + 10000 < 2 ^ 64 \<and> unat d + 10000 < 2 ^ 64 \<longrightarrow>
      (\<exists>d'. advance_deadline now d = Some d' \<and> unat d' = next_deadline (unat now) (unat d))) \<and>
    (\<forall>d'. advance_deadline now d = Some d' \<longrightarrow> now < d') \<and> advance_deadline 0xffffffffffffffff d = None"
proof (intro conjI impI allI)
  show "\<exists>d'. advance_deadline now d = Some d' \<and> unat d' = next_deadline (unat now) (unat d)"
    if "unat now + 10000 < 2 ^ 64 \<and> unat d + 10000 < 2 ^ 64"
    using advance_ok [of now d] that by blast
  show "now < d'" if "advance_deadline now d = Some d'" for d' using that by (rule advance_future)
  show "advance_deadline 0xffffffffffffffff d = None"
  proof (cases "advance_deadline 0xffffffffffffffff d")
    case (Some r)
    then have "0xffffffffffffffff < r" by (rule advance_future)
    then have "unat r > 18446744073709551615" by (simp add: word_less_nat_alt)
    then show ?thesis using unat64_lt [of r] by simp
  qed
qed

theorem deadline_loop_ends_witness:
  "(\<exists>d'. advance_deadline 45000 30000 = Some d' \<and> unat d' = 50000) \<and> advance_deadline 0xffffffffffffffff 30000 = None"
  using deadline_loop_ends [of 45000 30000] by (simp add: next_deadline_def)

end
