(* ===== verification/Sync.thy ===== *)
theory Sync
  imports Timer
begin

text \<open>
  Mutexes, \<^verbatim>\<open>kernel/core/sync.c\<close>: ownership, direct hand-off to the oldest
  waiter, timed acquisition.
\<close>

section \<open>Operations\<close>

text \<open>
  A mutex is reached by its address; its wait queue is the field at offset 8, after the owner.
\<close>

record mutex =
  mx_owner :: tid_t
  mx_name :: "string option"

record sync = sched +
  mutexes :: "u64 \<Rightarrow> mutex"

definition MUTEX_NO_OWNER :: tid_t where "MUTEX_NO_OWNER = THREAD_INVALID_TID"

definition mutex_waiters :: "u64 \<Rightarrow> u64" where "mutex_waiters m = m + 8"

definition set_owner :: "u64 \<Rightarrow> tid_t \<Rightarrow> 'a sync_scheme \<Rightarrow> 'a sync_scheme" where
  "set_owner m t s = s\<lparr>mutexes := (mutexes s)(m := (mutexes s m)\<lparr>mx_owner := t\<rparr>)\<rparr>"

text \<open>
  A call may run to its end, or give up the processor by a control trap in the middle: then the
  result is the request and the interrupt state that the rest of the call will restore, and the
  rest is the function with the suffix \<open>_resume\<close>, run when the thread runs again.
  \<open>Spins\<close> stands for a loop that repeats for ever, with interrupts off.
\<close>

datatype 'r outcome = Done 'r | Blocks "u64 \<times> u64 \<times> u64" u64 | Spins

definition require_thread_context :: "'a sched_scheme \<Rightarrow> tid_t res" where
  "require_thread_context s =
     (let tid = thread_current_tid s in
      if tid = THREAD_NULL_TID then Inl ''sync operation outside real thread context'' else Inr tid)"

definition mutex_init :: "u64 \<Rightarrow> string option \<Rightarrow> 'a sync_scheme \<Rightarrow> (unit \<times> 'a sync_scheme) res" where
  "mutex_init m name s =
     (if m = 0 then Inl ''mutex_init null mutex''
      else irq_masked (\<lambda>s.
        let s = set_owner m MUTEX_NO_OWNER s;
            s = s\<lparr>mutexes := (mutexes s)(m := (mutexes s m)\<lparr>mx_name := name\<rparr>)\<rparr>
        in wait_queue_init (mutex_waiters m) name s) s)"

text \<open>The end of a successful acquisition.\<close>

definition mutex_acquired :: "tid_t \<Rightarrow> u64 \<Rightarrow> u64 \<Rightarrow> 'a sync_scheme \<Rightarrow> 'a sync_scheme" where
  "mutex_acquired tid arg irq s = irq_restore irq (trace_emit TRACE_MUTEX_LOCK tid THREAD_INVALID_TID arg 0 s)"

definition mutex_lock_loop :: "u64 \<Rightarrow> tid_t \<Rightarrow> u64 \<Rightarrow> 'a sync_scheme \<Rightarrow> (unit outcome \<times> 'a sync_scheme) res" where
  "mutex_lock_loop m tid irq s =
     (if mx_owner (mutexes s m) \<noteq> MUTEX_NO_OWNER
      then let s = trace_emit TRACE_MUTEX_BLOCK tid (mx_owner (mutexes s m)) 0 0 s in
        bindE (wait_queue_sleep (mutex_waiters m) s) (\<lambda>req.
          case req of
            Some r \<Rightarrow> Inr (Blocks r irq, s)
          | None \<Rightarrow> if mx_owner (mutexes s m) = tid then Inr (Done (), mutex_acquired tid 0 irq s) else Inr (Spins, s))
      else Inr (Done (), mutex_acquired tid 0 irq (set_owner m tid s)))"

definition mutex_lock :: "u64 \<Rightarrow> 'a sync_scheme \<Rightarrow> (unit outcome \<times> 'a sync_scheme) res" where
  "mutex_lock m s =
     (if m = 0 then Inl ''mutex_lock null mutex''
      else let (irq, s) = irq_save s in
        bindE (require_thread_context s) (\<lambda>tid.
          if mx_owner (mutexes s m) = tid then Inl ''recursive mutex lock''
          else mutex_lock_loop m tid irq s))"

definition mutex_lock_resume :: "u64 \<Rightarrow> tid_t \<Rightarrow> u64 \<Rightarrow> 'a sync_scheme \<Rightarrow> (unit outcome \<times> 'a sync_scheme) res" where
  "mutex_lock_resume m tid irq s =
     (if mx_owner (mutexes s m) = tid then Inr (Done (), mutex_acquired tid 0 irq s)
      else mutex_lock_loop m tid irq s)"

definition mutex_lock_timeout_resume ::
  "u64 \<Rightarrow> tid_t \<Rightarrow> u64 \<Rightarrow> u64 \<Rightarrow> int \<Rightarrow> 'a sync_scheme \<Rightarrow> (int outcome \<times> 'a sync_scheme) res"
where
  "mutex_lock_timeout_resume m tid n irq result s =
     (if result = WAIT_TIMEOUT
      then Inr (Done WAIT_TIMEOUT, irq_restore irq (trace_emit TRACE_MUTEX_TIMEOUT tid THREAD_INVALID_TID n 0 s))
      else if mx_owner (mutexes s m) \<noteq> tid then Inl ''timed mutex wake without ownership''
      else Inr (Done WAIT_OK, mutex_acquired tid n irq s))"

definition mutex_lock_timeout :: "u64 \<Rightarrow> u64 \<Rightarrow> 'a sync_scheme \<Rightarrow> (int outcome \<times> 'a sync_scheme) res" where
  "mutex_lock_timeout m n s =
     (if m = 0 then Inl ''mutex_lock_timeout null mutex''
      else let (irq, s) = irq_save s in
        bindE (require_thread_context s) (\<lambda>tid.
          if mx_owner (mutexes s m) = tid then Inl ''recursive mutex timed lock''
          else if mx_owner (mutexes s m) = MUTEX_NO_OWNER
          then Inr (Done WAIT_OK, mutex_acquired tid 0 irq (set_owner m tid s))
          else if n = 0 then Inr (Done WAIT_TIMEOUT, irq_restore irq s)
          else let s = trace_emit TRACE_MUTEX_BLOCK tid (mx_owner (mutexes s m)) n 0 s in
            bindE (wait_queue_sleep_timeout (mutex_waiters m) n s) (\<lambda>r.
              case r of
                Inr req \<Rightarrow> Inr (Blocks req irq, s)
              | Inl result \<Rightarrow> mutex_lock_timeout_resume m tid n irq result s)))"

definition mutex_trylock :: "u64 \<Rightarrow> 'a sync_scheme \<Rightarrow> (int \<times> 'a sync_scheme) res" where
  "mutex_trylock m s =
     (if m = 0 then Inl ''mutex_trylock null mutex''
      else let (irq, s) = irq_save s in
        bindE (require_thread_context s) (\<lambda>tid.
          if mx_owner (mutexes s m) = tid then Inl ''recursive mutex trylock''
          else if mx_owner (mutexes s m) \<noteq> MUTEX_NO_OWNER then Inr (0, irq_restore irq s)
          else Inr (1, mutex_acquired tid 0 irq (set_owner m tid s))))"

definition mutex_unlock :: "u64 \<Rightarrow> 'a sync_scheme \<Rightarrow> (unit \<times> 'a sync_scheme) res" where
  "mutex_unlock m s =
     (if m = 0 then Inl ''mutex_unlock null mutex''
      else let (irq, s) = irq_save s in
        bindE (require_thread_context s) (\<lambda>tid.
          if mx_owner (mutexes s m) \<noteq> tid then Inl ''mutex unlock by non-owner''
          else bindE (wait_queue_wake_one (mutex_waiters m) s) (\<lambda>(next_owner, s).
            let s = set_owner m (if next_owner = THREAD_INVALID_TID then MUTEX_NO_OWNER else next_owner) s;
                s = trace_emit TRACE_MUTEX_UNLOCK tid next_owner 0 0 s
            in Inr ((), irq_restore irq s))))"

end
