(* ===== verification/Sync_Proofs.thy ===== *)
theory Sync_Proofs
  imports Sync
begin

text \<open>
  What one event of the scheduler can do to one thread: it goes on running, stays where it is, or is
  woken with the result of its wait. The invariant of the mutexes rests on this case distinction.
\<close>

section \<open>What an event does to one thread\<close>

fun blocks :: "sched_event \<Rightarrow> bool" where
  "blocks (Sleep f n) = True"
| "blocks (Wait f q n) = True"
| "blocks (Exit f) = True"
| "blocks _ = False"

fun wakes :: "sched_event \<Rightarrow> u64 \<Rightarrow> bool" where
  "wakes (Wake_one q) q' = (q = q')"
| "wakes (Wake_all q) q' = (q = q')"
| "wakes _ q' = False"

text \<open>
  A ready or running thread stays so and keeps its wait result unless it blocks itself; a blocked
  thread is untouched, or timed out by a tick, or woken through its queue.
\<close>

definition thread_fate :: "sched_event \<Rightarrow> 'a sched_scheme \<Rightarrow> 'a sched_scheme \<Rightarrow> tid_t \<Rightarrow> bool" where
  "thread_fate e s s' p \<longleftrightarrow>
     (th_state (threads s p) \<in> {THREAD_READY, THREAD_RUNNING} \<longrightarrow> \<not> (blocks e \<and> current_thread s = Some p) \<longrightarrow>
        th_state (threads s' p) \<in> {THREAD_READY, THREAD_RUNNING} \<and>
        th_wait_result (threads s' p) = th_wait_result (threads s p)) \<and>
     (th_state (threads s p) = THREAD_BLOCKED \<longrightarrow>
        threads s' p = threads s p \<or>
        e = Tick \<and> p \<in> set (sleep_list s) \<and> threads s' p = woken (timeout_result (threads s p)) (threads s p) \<or>
        wakes e (th_wait_queue (threads s p)) \<and> threads s' p = woken WAIT_OK (threads s p))"

lemma fate_same: "threads s' = threads s \<Longrightarrow> thread_fate e s s' p"
  by (simp add: thread_fate_def)

lemma fate_run:
  assumes "threads s' = (threads s)(c := x, n := (threads s n)\<lparr>th_in_ready_queue := False, th_state := THREAD_RUNNING, th_quantum_ticks := 0\<rparr>)"
    and "th_state (threads s c) = THREAD_RUNNING" and "th_state (threads s n) \<noteq> THREAD_BLOCKED" and "c \<noteq> n"
    and "th_state x \<in> {THREAD_READY, THREAD_RUNNING} \<and> th_wait_result x = th_wait_result (threads s c) \<or> blocks e" and "current_thread s = Some c"
  shows "thread_fate e s s' p"
  using assms by (auto simp: thread_fate_def)

lemma next_not_blocked:
  assumes "sched_inv Q s"
  shows "th_state (threads s (next_tid s)) \<noteq> THREAD_BLOCKED"
proof (cases "ready_list s")
  case Nil
  have "null_ok (threads s 0)" by (rule consistentD(3) [of "{}" Q]) (use assms in \<open>simp add: sched_inv_def\<close>)
  then show ?thesis using Nil by (auto simp: next_tid_case null_ok_def)
next
  case (Cons n ts)
  have con: "consistent {} Q s" using assms(1) by (simp add: sched_inv_def)
  have n: "tid_is_real n \<and> th_in_ready_queue (threads s n)"
    using queues_ok_parts(1) [OF consistentD(1) [OF con]] Cons by (auto simp: rinv_def)
  then have "th_state (threads s n) = THREAD_READY" using consistentD(2) [OF con, of n] by (simp add: thread_ok_def)
  then show ?thesis using Cons by (simp add: next_tid_case)
qed

lemma fate_yield:
  assumes inv: "sched_inv Q s" and cur: "current_thread s = Some c" and y: "yield_done c f s x s'"
  shows "thread_fate e s s' p"
proof (cases "ready_list s")
  case Nil
  then show ?thesis using y current_facts(2) [OF inv cur] by (auto simp: yield_done_def thread_fate_def)
next
  case (Cons n ts)
  have "n = next_tid s" using Cons by (simp add: next_tid_case)
  then show ?thesis
    using y Cons current_facts(2) [OF inv cur] next_not_blocked [OF inv] ready_other(1) [OF inv cur Cons] cur
    by (intro fate_run [where c = c and n = n and x = "(if c = 0 then null_left else preempted) f (load64 (f + FRAME_SP) s) (threads s c)"])
      (auto simp: yield_done_def null_left_def preempted_def)
qed

lemma fate_wakes:
  assumes inv: "sched_inv Q s" and q: "q \<in> Q" and ts: "set ts \<subseteq> set (wait_list s q)"
    and th: "threads s' = wake_waiters (set ts) (threads s)" and e: "wakes e q"
  shows "thread_fate e s s' p"
proof (cases "p \<in> set ts")
  case True
  have "th_wait_queue (threads s p) = q \<and> tid_is_real p \<and> th_in_wait_queue (threads s p)"
    using inv queues_ok_parts(3) ts True q by (fastforce simp: sched_inv_def consistent_def winv_def)
  moreover have "th_state (threads s p) = THREAD_BLOCKED"
    using calculation consistentD(2) [of "{}" Q s p] inv by (auto simp: sched_inv_def thread_ok_def)
  ultimately show ?thesis using e True th by (simp add: thread_fate_def wake_waiters_def)
qed (simp add: thread_fate_def th wake_waiters_def)

lemma fate_create:
  assumes "free_slot s = Some t" and "create_done t x s s'"
  shows "thread_fate e s s' p"
  using free_slot_Some(2) [OF assms(1)] assms(2) by (auto simp: thread_fate_def create_done_def is_free_def)

lemma fate_tick:
  assumes inv: "sched_inv Q s" and cur: "current_thread s = Some c"
    and th: "threads s' = (if c = 0 then woken_at (ticks s) s else (woken_at (ticks s) s)(c := ticked (threads s c)))"
  shows "thread_fate Tick s s' p"
proof -
  have st: "th_state (threads s c) = THREAD_RUNNING" by (rule current_facts(2) [OF inv cur])
  have b: "th_state (threads s t) = THREAD_BLOCKED" if "t \<in> set (due (ticks s) s)" for t
    using due_blocked(2) [OF current_facts(8) [OF inv cur] that] .
  show ?thesis
    using st b th by (auto simp: thread_fate_def woken_at_def ticked_def due_def)
qed

lemma event_fate:
  fixes s :: "'a sched_scheme"
  assumes inv: "sched_inv Q s" and al: "allowed Q e s"
  shows "returns (sched_do e s) (\<lambda>_ s'. \<forall>p. thread_fate e s s' p)"
proof -
  have started: "\<exists>c. current_thread s = Some c" if "threads_started s" using that started_current [OF inv] by simp
  show ?thesis
  proof (cases e)
    case Start
    then have "returns (thread_start s) (\<lambda>_ s'. \<forall>p. thread_fate e s s' p)"
      using al by (intro returns_mono [OF start_ok [OF inv]])
        (auto simp: thread_fate_def run_next_def next_not_blocked [OF inv])
    then show ?thesis by (simp add: Start with_frame_def)
  next
    case Tick
    then obtain c where cur: "current_thread s = Some c" using started al by auto
    have "returns (thread_on_timer_tick s) (\<lambda>_ s'. \<forall>p. thread_fate e s s' p)"
      unfolding Tick by (rule returns_mono [OF tick_ok [OF inv cur]]) 
        (elim conjE, rule allI, rule fate_tick [OF inv cur], assumption)
    then show ?thesis by (simp add: Tick no_frame_def)
  next
    case (Preempt f)
    then obtain c where cur: "current_thread s = Some c" using started al by auto
    have "returns (thread_maybe_preempt_from_trap f s) (\<lambda>_ s'. \<forall>p. thread_fate e s s' p)"
      by (rule returns_mono [OF preempt_ok [OF inv cur]])
        (use al Preempt in \<open>auto simp: preempt_done_def fate_same intro: fate_yield [OF inv cur] split: if_splits\<close>)
    then show ?thesis by (simp add: Preempt with_frame_def)
  next
    case (Yield f)
    then obtain c where cur: "current_thread s = Some c" using started al by auto
    have "returns (thread_yield_current_from_trap f s) (\<lambda>_ s'. \<forall>p. thread_fate e s s' p)"
      by (rule returns_mono [OF yield_ok [OF inv cur]]) (use al Yield fate_yield [OF inv cur] in auto)
    then show ?thesis by (simp add: Yield with_frame_def)
  next
    case (Sleep f n)
    then obtain c where cur: "current_thread s = Some c" and nz: "c \<noteq> 0" using al by (auto elim: runs_realE)
    have "returns (thread_sleep_current_from_trap f n s) (\<lambda>_ s'. \<forall>p. thread_fate e s s' p)"
    proof (rule returns_mono [OF sleep_ok [OF inv cur nz]], goal_cases)
      case (2 x s')
      show ?case
      proof (cases "n = 0")
        case True
        then show ?thesis using 2 by (auto intro: fate_yield [OF inv cur])
      next
        case False
        then show ?thesis
          using 2 Sleep current_facts(2) [OF inv cur] next_not_blocked [OF inv] next_other [OF inv cur nz] cur
          by (auto simp: sleep_done_def intro!: fate_run [where c = c and n = "next_tid s"])
      qed
    qed (use al Sleep in simp)
    then show ?thesis by (simp add: Sleep with_frame_def)
  next
    case (Wait f q n)
    then obtain c where cur: "current_thread s = Some c" and nz: "c \<noteq> 0" using al by (auto elim: runs_realE)
    have "returns (block_current_from_trap f q n s) (\<lambda>_ s'. \<forall>p. thread_fate e s s' p)"
    proof (rule returns_mono [OF block_ok [OF inv cur nz]], goal_cases)
      case (3 x s')
      then show ?case
        using Wait current_facts(2) [OF inv cur] next_not_blocked [OF inv] next_other [OF inv cur nz] cur
        by (auto simp: block_done_def intro!: fate_run [where c = c and n = "next_tid s"])
    qed (use al Wait in simp_all)
    then show ?thesis by (simp add: Wait with_frame_def)
  next
    case (Exit f)
    then obtain c where cur: "current_thread s = Some c" and nz: "c \<noteq> 0"
      and u: "th_user_task (threads s c) \<noteq> 0 \<Longrightarrow> load64 (f + FRAME_MSTATUS) s AND SSTATUS_SPP = 0 \<and>
        user_task_is_ready (th_user_task (threads s c)) s \<and> task_owns (task_at s (th_user_task (threads s c))) s"
      using al by (auto simp: exit_allowed_def split: option.splits)
    have "returns (switch_to_next_from_trap f False s) (\<lambda>_ s'. \<forall>p. thread_fate e s s' p)"
      by (rule returns_mono [OF exit_ok [OF inv cur nz u]])
        (use Exit current_facts(2) [OF inv cur] next_not_blocked [OF inv] next_other [OF inv cur nz] cur in
          \<open>auto simp: exit_done_def intro!: fate_run [where c = c and n = "next_tid s"]\<close>)
    then show ?thesis by (simp add: Exit with_frame_def thread_exit_current_from_trap_def)
  next
    case (Wake_one q)
    have q: "q \<in> Q" using al Wake_one by simp
    have "returns (wait_queue_wake_one q s) (\<lambda>_ s'. \<forall>p. thread_fate e s s' p)"
      by (rule returns_mono [OF wake_one_ok [OF inv q]])
        (use Wake_one in \<open>auto intro!: fate_wakes [OF inv q set_take_subset [of 1]]\<close>)
    then show ?thesis by (simp add: Wake_one no_frame_def)
  next
    case (Wake_all q)
    have q: "q \<in> Q" using al Wake_all by simp
    have "returns (wait_queue_wake_all q s) (\<lambda>_ s'. \<forall>p. thread_fate e s s' p)"
      by (rule returns_mono [OF wake_all_ok [OF inv q]])
        (use Wake_all in \<open>auto intro!: fate_wakes [OF inv q subset_refl]\<close>)
    then show ?thesis by (simp add: Wake_all no_frame_def)
  next
    case (Create name entry arg)
    have "returns (thread_create name entry arg s) (\<lambda>_ s'. \<forall>p. thread_fate e s s' p)"
      by (rule returns_mono [OF create_ok [OF inv]])
        (use al Create in \<open>auto simp: fate_create fate_same split: option.splits\<close>)
    then show ?thesis by (simp add: Create no_frame_def)
  next
    case (Create_user name task)
    have "returns (thread_create_user name task s) (\<lambda>_ s'. \<forall>p. thread_fate e s s' p)"
      by (rule returns_mono [OF create_user_ok [OF inv]])
        (use al Create_user in \<open>auto simp: fate_create fate_same split: option.splits\<close>)
    then show ?thesis by (simp add: Create_user no_frame_def)
  next
    case (Queue_init q name)
    have "returns (wait_queue_init q name s) (\<lambda>_ s'. \<forall>p. thread_fate e s s' p)"
      by (rule returns_mono [OF wait_queue_init_ok [OF inv]]) (use al Queue_init in \<open>auto simp: fate_same\<close>)
    then show ?thesis by (simp add: Queue_init no_frame_def)
  qed
qed

end
