(* ===== verification/Mutex_Spec.thy ===== *)
theory Mutex_Spec
  imports Sync_Proofs
begin

text \<open>
  All interleavings of the operations of one mutex with the scheduler's events: who holds the
  mutex, who waits for it, and an invariant from which mutual exclusion and the absence of panics
  follow.
\<close>

section \<open>Runs\<close>

text \<open>
  A blocking call ends in a control trap, whose request is the event the scheduler serves; the
  trap entry in between only saves registers.
\<close>

definition request_event :: "u64 \<Rightarrow> u64 \<times> u64 \<times> u64 \<Rightarrow> sched_event option" where
  "request_event frame req = (case req of (op, a0, a1) \<Rightarrow>
     if op = THREAD_TRAP_YIELD then Some (Yield frame)
     else if op = THREAD_TRAP_EXIT then Some (Exit frame)
     else if op = THREAD_TRAP_SLEEP then Some (Sleep frame a0)
     else if op = THREAD_TRAP_WAIT then Some (Wait frame a0 0)
     else if op = THREAD_TRAP_WAIT_TIMEOUT \<and> a1 \<noteq> 0 then Some (Wait frame a0 a1)
     else None)"

lemma decode_request:
  "decode_control frame s =
     request_event frame (load64 (frame + FRAME_A7) s, load64 (frame + FRAME_A0) s, load64 (frame + FRAME_A1) s)"
  by (simp add: decode_control_def request_event_def Let_def)

definition quiet :: "u64 \<Rightarrow> sync \<Rightarrow> sync \<Rightarrow> bool" where
  "quiet m s s' \<longleftrightarrow> same_sched s s' \<and> mutexes s' m = mutexes s m"

definition trapped :: "u64 \<Rightarrow> u64 \<Rightarrow> u64 \<times> u64 \<times> u64 \<Rightarrow> sync \<Rightarrow> sync \<Rightarrow> bool" where
  "trapped m frame req s s' \<longleftrightarrow> frame \<noteq> 0 \<and> (\<exists>s1 e x. quiet m s s1 \<and> request_event frame req = Some e \<and>
     sched_do e s1 = Inr (x, s'))"

text \<open>The events of the other users of the scheduler do not go to the mutex's own wait queue.\<close>

fun uses_queue :: "u64 \<Rightarrow> sched_event \<Rightarrow> bool" where
  "uses_queue q (Wait f q' n) = (q' = q)"
| "uses_queue q (Wake_one q') = (q' = q)"
| "uses_queue q (Wake_all q') = (q' = q)"
| "uses_queue q _ = False"

text \<open>
  A run of the mutex \<open>m\<close>: the set \<open>H\<close> of the threads that have acquired and not
  released it, the set \<open>P\<close> of those inside a call that waits, and the subset \<open>T\<close>
  of the latter whose wait has a deadline. A thread inside a call does nothing else until the call
  returns: it neither blocks on something else nor ends. The result of a timed wait is the one the
  waker recorded in the thread and in its frame.
\<close>

inductive mutex_run :: "u64 \<Rightarrow> u64 set \<Rightarrow> sync \<Rightarrow> tid_t set \<Rightarrow> tid_t set \<Rightarrow> tid_t set \<Rightarrow> bool" for m where
  init: "sched_inv Q s \<Longrightarrow> mutex_waiters m \<noteq> 0 \<Longrightarrow> mutex_waiters m \<notin> Q \<Longrightarrow>
     length (wq_tids (wait_queues s (mutex_waiters m))) = THREAD_MAX - 1 \<Longrightarrow> mutex_init m name s = Inr (u, s') \<Longrightarrow>
     mutex_run m (insert (mutex_waiters m) Q) s' {} {} {}"
| lock: "mutex_run m Q s H P T \<Longrightarrow> current_thread s = Some c \<Longrightarrow> c \<notin> H \<union> P \<Longrightarrow> mutex_lock m s = Inr (Done u, s') \<Longrightarrow>
     mutex_run m Q s' (insert c H) P T"
| lock_wait: "mutex_run m Q s H P T \<Longrightarrow> current_thread s = Some c \<Longrightarrow> c \<notin> H \<union> P \<Longrightarrow>
     mutex_lock m s = Inr (Blocks req irq, s1) \<Longrightarrow> trapped m frame req s1 s' \<Longrightarrow> mutex_run m Q s' H (insert c P) T"
| resume: "mutex_run m Q s H P T \<Longrightarrow> current_thread s = Some c \<Longrightarrow> c \<in> P - T \<Longrightarrow>
     mutex_lock_resume m c irq s = Inr (Done u, s') \<Longrightarrow> mutex_run m Q s' (insert c H) (P - {c}) T"
| timed: "mutex_run m Q s H P T \<Longrightarrow> current_thread s = Some c \<Longrightarrow> c \<notin> H \<union> P \<Longrightarrow> mutex_lock_timeout m n s = Inr (Done r, s') \<Longrightarrow>
     mutex_run m Q s' (if r = WAIT_OK then insert c H else H) P T"
| timed_wait: "mutex_run m Q s H P T \<Longrightarrow> current_thread s = Some c \<Longrightarrow> c \<notin> H \<union> P \<Longrightarrow>
     mutex_lock_timeout m n s = Inr (Blocks req irq, s1) \<Longrightarrow> trapped m frame req s1 s' \<Longrightarrow>
     mutex_run m Q s' H (insert c P) (insert c T)"
| timed_resume: "mutex_run m Q s H P T \<Longrightarrow> current_thread s = Some c \<Longrightarrow> c \<in> T \<Longrightarrow>
     mutex_lock_timeout_resume m c n irq (th_wait_result (threads s c)) s = Inr (Done r, s') \<Longrightarrow>
     mutex_run m Q s' (if r = WAIT_OK then insert c H else H) (P - {c}) (T - {c})"
| trylock: "mutex_run m Q s H P T \<Longrightarrow> current_thread s = Some c \<Longrightarrow> c \<notin> H \<union> P \<Longrightarrow> mutex_trylock m s = Inr (r, s') \<Longrightarrow>
     mutex_run m Q s' (if r = 1 then insert c H else H) P T"
| unlock: "mutex_run m Q s H P T \<Longrightarrow> current_thread s = Some c \<Longrightarrow> c \<in> H \<Longrightarrow> mutex_unlock m s = Inr (u, s') \<Longrightarrow>
     mutex_run m Q s' (H - {c}) P T"
| event: "mutex_run m Q s H P T \<Longrightarrow> allowed Q e s \<Longrightarrow> \<not> uses_queue (mutex_waiters m) e \<Longrightarrow>
     \<not> (blocks e \<and> current_thread s \<in> Some ` P) \<Longrightarrow> sched_do e s = Inr (x, s') \<Longrightarrow> mutex_run m (queues_after e Q) s' H P T"
| other: "mutex_run m Q s H P T \<Longrightarrow> quiet m s s' \<Longrightarrow> mutex_run m Q s' H P T"

section \<open>The invariant\<close>

text \<open>
  A thread inside a waiting call is still in the mutex's queue, or has been made the owner, or has
  been timed out.
\<close>

definition pending_ok :: "u64 \<Rightarrow> tid_t set \<Rightarrow> sync \<Rightarrow> tid_t \<Rightarrow> bool" where
  "pending_ok m T s p \<longleftrightarrow> tid_is_real p \<and>
     (th_state (threads s p) = THREAD_BLOCKED \<and> th_wait_queue (threads s p) = mutex_waiters m \<and>
        (p \<notin> T \<longrightarrow> th_wait_reason (threads s p) = THREAD_WAIT_QUEUE) \<and> mx_owner (mutexes s m) \<noteq> p \<or>
      th_state (threads s p) \<in> {THREAD_READY, THREAD_RUNNING} \<and>
        (mx_owner (mutexes s m) = p \<and> th_wait_result (threads s p) = WAIT_OK \<or>
         mx_owner (mutexes s m) \<noteq> p \<and> p \<in> T \<and> th_wait_result (threads s p) = WAIT_TIMEOUT))"

definition owner_ok :: "tid_t \<Rightarrow> tid_t list \<Rightarrow> tid_t set \<Rightarrow> tid_t set \<Rightarrow> bool" where
  "owner_ok x W H P \<longleftrightarrow>
     (if x = MUTEX_NO_OWNER then H = {} \<and> W = [] else x \<in> P \<and> H = {} \<or> x \<notin> P \<and> H = {x}) \<and> set W \<subseteq> P"

definition mutex_inv :: "u64 \<Rightarrow> u64 set \<Rightarrow> sync \<Rightarrow> tid_t set \<Rightarrow> tid_t set \<Rightarrow> tid_t set \<Rightarrow> bool" where
  "mutex_inv m Q s H P T \<longleftrightarrow> sched_inv Q s \<and> m \<noteq> 0 \<and> mutex_waiters m \<in> Q \<and> T \<subseteq> P \<and> (\<forall>p\<in>P. pending_ok m T s p) \<and>
     owner_ok (mx_owner (mutexes s m)) (wait_list s (mutex_waiters m)) H P"

section \<open>What the operations do\<close>

lemma owner_simps [simp]:
  "same_sched s (set_owner m t s') = same_sched s s'" "mx_owner (mutexes (set_owner m t s) m') = (if m' = m then t else mx_owner (mutexes s m'))"
  "same_sched s (trace_emit ty a b c d s') = same_sched s s'" "mutexes (trace_emit ty a b c d s) = mutexes s"
  "same_sched s (irq_restore irq s') = same_sched s s'" "mutexes (irq_restore irq s) = mutexes s"
  "same_sched s (snd (irq_save s')) = same_sched s s'" "mutexes (snd (irq_save s)) = mutexes s"
  "wait_list (set_owner m t s) = wait_list s" "wait_list (irq_restore irq s) = wait_list s"
  "threads (set_owner m t s) = threads s" "threads (irq_restore irq s) = threads s"
  by (simp_all add: same_sched_def set_owner_def trace_emit_eq irq_restore_def irq_save_def csr_clear_sstatus_def
      csr_set_sstatus_def wait_list_def fun_eq_iff Let_def)

lemma same_sched_refl [simp]: "same_sched s s"
  by (simp add: same_sched_def)

lemma same_sched_trans: "same_sched s s1 \<Longrightarrow> same_sched s1 s2 \<Longrightarrow> same_sched s s2"
  by (simp add: same_sched_def)

lemma same_lists: "same_sched s s' \<Longrightarrow> wait_list s' = wait_list s \<and> threads s' = threads s \<and> current_thread s' = current_thread s"
  by (simp add: same_sched_def wait_list_def fun_eq_iff)

lemma acquired_simps [simp]:
  "same_sched s (mutex_acquired t n irq s') = same_sched s s'" "mutexes (mutex_acquired t n irq s) = mutexes s"
  by (simp_all add: mutex_acquired_def)

lemma context_ok:
  assumes "sched_inv Q s" and "current_thread s = Some c" and "c \<noteq> 0"
  shows "require_thread_context s = Inr c" and "require_thread_context (snd (irq_save s)) = Inr c"
  using current_facts(3) [OF assms(1,2)] assms(2,3)
  by (simp_all add: require_thread_context_def thread_current_tid_def THREAD_NULL_TID_def irq_save_def csr_clear_sstatus_def)

lemma waiters_nonzero: "sched_inv Q s \<Longrightarrow> q \<in> Q \<Longrightarrow> q \<noteq> 0"
  using queues_ok_parts(3) [of Q s] by (auto simp: sched_inv_def consistent_def winv_def)

text \<open>Each call that does not block, by the owner it finds.\<close>

lemma lock_ok:
  fixes s :: sync
  assumes inv: "sched_inv Q s" and cur: "current_thread s = Some c" and nz: "c \<noteq> 0" and m: "m \<noteq> 0" "mutex_waiters m \<in> Q"
    and own: "mx_owner (mutexes s m) \<noteq> c"
  shows "mx_owner (mutexes s m) = MUTEX_NO_OWNER \<Longrightarrow>
      \<exists>s'. mutex_lock m s = Inr (Done (), s') \<and> same_sched s s' \<and> mx_owner (mutexes s' m) = c"
    and "mx_owner (mutexes s m) \<noteq> MUTEX_NO_OWNER \<Longrightarrow>
      \<exists>s' irq. mutex_lock m s = Inr (Blocks (THREAD_TRAP_WAIT, mutex_waiters m, 0) irq, s') \<and> quiet m s s'"
proof -
  define irq s1 where d: "irq = fst (irq_save s)" "s1 = snd (irq_save s)"
  have s1: "irq_save s = (irq, s1)" "same_sched s s1" "mutexes s1 = mutexes s" "require_thread_context s1 = Inr c"
    "threads_started s1"
    using context_ok [OF inv cur nz] current_facts(4) [OF inv cur]
    by (simp_all add: d irq_save_def csr_clear_sstatus_def same_sched_def)
  have e: "mutex_lock m s = mutex_lock_loop m c irq s1" using m own s1 by (simp add: mutex_lock_def)
  show "mx_owner (mutexes s m) = MUTEX_NO_OWNER \<Longrightarrow>
      \<exists>s'. mutex_lock m s = Inr (Done (), s') \<and> same_sched s s' \<and> mx_owner (mutexes s' m) = c"
    using s1 by (simp add: e mutex_lock_loop_def)
  have "threads_started (trace_emit ty x y z w s1)" for ty x y z w using s1(5) by (simp add: trace_emit_eq Let_def)
  then show "mx_owner (mutexes s m) \<noteq> MUTEX_NO_OWNER \<Longrightarrow>
      \<exists>s' irq. mutex_lock m s = Inr (Blocks (THREAD_TRAP_WAIT, mutex_waiters m, 0) irq, s') \<and> quiet m s s'"
    using s1 waiters_nonzero [OF inv m(2)] by (simp add: e mutex_lock_loop_def wait_queue_sleep_def quiet_def Let_def)
qed

lemma timed_ok:
  fixes s :: sync
  assumes inv: "sched_inv Q s" and cur: "current_thread s = Some c" and nz: "c \<noteq> 0" and m: "m \<noteq> 0" "mutex_waiters m \<in> Q"
    and own: "mx_owner (mutexes s m) \<noteq> c"
  shows "mx_owner (mutexes s m) = MUTEX_NO_OWNER \<Longrightarrow>
      \<exists>s'. mutex_lock_timeout m n s = Inr (Done WAIT_OK, s') \<and> same_sched s s' \<and> mx_owner (mutexes s' m) = c"
    and "mx_owner (mutexes s m) \<noteq> MUTEX_NO_OWNER \<Longrightarrow> n = 0 \<Longrightarrow>
      \<exists>s'. mutex_lock_timeout m n s = Inr (Done WAIT_TIMEOUT, s') \<and> quiet m s s'"
    and "mx_owner (mutexes s m) \<noteq> MUTEX_NO_OWNER \<Longrightarrow> n \<noteq> 0 \<Longrightarrow>
      \<exists>s' irq. mutex_lock_timeout m n s = Inr (Blocks (THREAD_TRAP_WAIT_TIMEOUT, mutex_waiters m, n) irq, s') \<and> quiet m s s'"
    and "mx_owner (mutexes s m) = MUTEX_NO_OWNER \<Longrightarrow>
      \<exists>s'. mutex_trylock m s = Inr (1, s') \<and> same_sched s s' \<and> mx_owner (mutexes s' m) = c"
    and "mx_owner (mutexes s m) \<noteq> MUTEX_NO_OWNER \<Longrightarrow> \<exists>s'. mutex_trylock m s = Inr (0, s') \<and> quiet m s s'"
proof -
  define irq s1 where d: "irq = fst (irq_save s)" "s1 = snd (irq_save s)"
  have s1: "irq_save s = (irq, s1)" "same_sched s s1" "mutexes s1 = mutexes s" "require_thread_context s1 = Inr c"
    "threads_started s1"
    using context_ok [OF inv cur nz] current_facts(4) [OF inv cur]
    by (simp_all add: d irq_save_def csr_clear_sstatus_def same_sched_def)
  have t: "threads_started (trace_emit ty x y z w s1)" for ty x y z w using s1(5) by (simp add: trace_emit_eq Let_def)
  note simps = mutex_lock_timeout_def mutex_trylock_def wait_queue_sleep_timeout_def quiet_def Let_def
  show "mx_owner (mutexes s m) = MUTEX_NO_OWNER \<Longrightarrow>
      \<exists>s'. mutex_lock_timeout m n s = Inr (Done WAIT_OK, s') \<and> same_sched s s' \<and> mx_owner (mutexes s' m) = c"
    using m own s1 by (simp add: simps)
  show "mx_owner (mutexes s m) \<noteq> MUTEX_NO_OWNER \<Longrightarrow> n = 0 \<Longrightarrow>
      \<exists>s'. mutex_lock_timeout m n s = Inr (Done WAIT_TIMEOUT, s') \<and> quiet m s s'"
    using m own s1 by (simp add: simps)
  show "mx_owner (mutexes s m) \<noteq> MUTEX_NO_OWNER \<Longrightarrow> n \<noteq> 0 \<Longrightarrow>
      \<exists>s' irq. mutex_lock_timeout m n s = Inr (Blocks (THREAD_TRAP_WAIT_TIMEOUT, mutex_waiters m, n) irq, s') \<and> quiet m s s'"
    using m own s1 t waiters_nonzero [OF inv m(2)] by (simp add: simps)
  show "mx_owner (mutexes s m) = MUTEX_NO_OWNER \<Longrightarrow>
      \<exists>s'. mutex_trylock m s = Inr (1, s') \<and> same_sched s s' \<and> mx_owner (mutexes s' m) = c"
    using m own s1 by (simp add: simps)
  show "mx_owner (mutexes s m) \<noteq> MUTEX_NO_OWNER \<Longrightarrow> \<exists>s'. mutex_trylock m s = Inr (0, s') \<and> quiet m s s'"
    using m own s1 by (simp add: simps)
qed

text \<open>Release: the oldest waiter becomes the owner.\<close>

lemma same_mutexes: "sched.more s' = sched.more (s :: sync) \<Longrightarrow> mutexes s' = mutexes s"
  by (cases s, cases s') simp

lemma unlock_ok:
  fixes s :: sync
  assumes inv: "sched_inv Q s" and cur: "current_thread s = Some c" and nz: "c \<noteq> 0" and m: "m \<noteq> 0" "mutex_waiters m \<in> Q"
    and own: "mx_owner (mutexes s m) = c"
  shows "returns (mutex_unlock m s) (\<lambda>_ s'. sched_inv Q s' \<and> current_thread s' = Some c \<and>
    mx_owner (mutexes s' m) = (case wait_list s (mutex_waiters m) of [] \<Rightarrow> MUTEX_NO_OWNER | t # _ \<Rightarrow> t) \<and>
    threads s' = wake_waiters (set (take 1 (wait_list s (mutex_waiters m)))) (threads s) \<and>
    ready_list s' = ready_list s @ take 1 (wait_list s (mutex_waiters m)) \<and>
    wait_list s' (mutex_waiters m) = tl (wait_list s (mutex_waiters m)))"
proof -
  let ?q = "mutex_waiters m"
  define irq s1 where d: "irq = fst (irq_save s)" "s1 = snd (irq_save s)"
  have s1: "irq_save s = (irq, s1)" "same_sched s s1" "mutexes s1 = mutexes s" "require_thread_context s1 = Inr c"
    using context_ok [OF inv cur nz] by (simp_all add: d irq_save_def csr_clear_sstatus_def same_sched_def)
  have l: "ready_list s1 = ready_list s" "wait_list s1 = wait_list s" "threads s1 = threads s" "current_thread s1 = Some c"
    using s1(2) cur by (simp_all add: same_sched_def ready_list_def wait_list_def fun_eq_iff)
  have inv1: "sched_inv Q s1" using inv same_sched_inv [OF s1(2)] by blast
  obtain t s2 where s2: "wait_queue_wake_one ?q s1 = Inr (t, s2)" "sched_inv Q s2" "kept s1 s2"
      "t = (case wait_list s ?q of [] \<Rightarrow> THREAD_INVALID_TID | t # _ \<Rightarrow> t)"
      "threads s2 = wake_waiters (set (take 1 (wait_list s ?q))) (threads s)"
      "ready_list s2 = ready_list s @ take 1 (wait_list s ?q)" "wait_list s2 ?q = tl (wait_list s ?q)"
    by (rule returnsE [OF wake_one_ok [OF inv1 m(2)]], unfold l, elim conjE) (use m(2) in auto)
  define s3 where "s3 = irq_restore irq (trace_emit TRACE_MUTEX_UNLOCK c t 0 0
      (set_owner m (if t = THREAD_INVALID_TID then MUTEX_NO_OWNER else t) s2))"
  have run: "mutex_unlock m s = Inr ((), s3)"
    using m own s1 s2(1) by (simp add: mutex_unlock_def s3_def Let_def)
  have same: "same_sched s2 s3" by (simp add: s3_def)
  have "sched_inv Q s3" using s2(2) same_sched_inv [OF same] by blast
  moreover have "ready_list s3 = ready_list s2" "wait_list s3 = wait_list s2" "threads s3 = threads s2"
      "current_thread s3 = current_thread s2"
    using same by (simp_all add: same_sched_def ready_list_def wait_list_def fun_eq_iff)
  moreover have "current_thread s2 = Some c" using s2(3) l by (simp add: kept_def)
  moreover have "mx_owner (mutexes s3 m) = (case wait_list s ?q of [] \<Rightarrow> MUTEX_NO_OWNER | t # _ \<Rightarrow> t)"
    using s2(4) by (simp add: s3_def MUTEX_NO_OWNER_def split: list.splits)
  ultimately show ?thesis using run s2 by simp
qed

section \<open>The invariant holds in every run\<close>

lemma invD:
  assumes "mutex_inv m Q s H P T"
  shows "sched_inv Q s" "m \<noteq> 0" "mutex_waiters m \<in> Q" "T \<subseteq> P" "p \<in> P \<Longrightarrow> pending_ok m T s p"
    "owner_ok (mx_owner (mutexes s m)) (wait_list s (mutex_waiters m)) H P"
  using assms by (simp_all add: mutex_inv_def)

lemma real_not_no_owner: "tid_is_real t \<Longrightarrow> t \<noteq> MUTEX_NO_OWNER"
  by (auto simp: MUTEX_NO_OWNER_def THREAD_INVALID_TID_def tid_is_real_def tid_is_valid_def THREAD_MAX_def)

lemma event_waiters:
  assumes "step_ok Q e s s'" and "q \<in> Q" and "\<not> uses_queue q e"
  shows "set (wait_list s' q) \<subseteq> set (wait_list s q)"
proof -
  have "q \<in> queues_after e Q" using assms(2) by (cases e) simp_all
  then have "wait_list s' q = a_wait (abs_sched (queues_after e Q) s') q" by (simp add: abs_sched_def)
  also have "\<dots> = a_wait (a_step e (ticks s) (reschedule_requested s) (free_slot s) (abs_sched Q s)) q"
    using assms(1) by (simp add: step_ok_def)
  also have "set \<dots> \<subseteq> set (a_wait (abs_sched Q s) q)"
    using assms(3) by (cases e) (auto simp: a_yield_def a_dispatch_def a_wake_def)
  finally show ?thesis using assms(2) by (simp add: abs_sched_def)
qed

lemma pending_event:
  assumes inv: "sched_inv Q s" and p: "pending_ok m T s p" and f: "thread_fate e s s' p" and q: "mutex_waiters m \<in> Q"
    and "\<not> wakes e (mutex_waiters m)" and "\<not> (blocks e \<and> current_thread s = Some p)" and own: "mutexes s' m = mutexes s m"
  shows "pending_ok m T s' p"
proof (cases "th_state (threads s p) = THREAD_BLOCKED")
  case True
  have real: "tid_is_real p" and wq: "th_wait_queue (threads s p) = mutex_waiters m"
    and r: "p \<notin> T \<longrightarrow> th_wait_reason (threads s p) = THREAD_WAIT_QUEUE" and no: "mx_owner (mutexes s m) \<noteq> p"
    using p True by (auto simp: pending_ok_def)
  have con: "consistent {} Q s" using inv by (simp add: sched_inv_def)
  have ok: "thread_ok p (threads s p)" by (rule consistentD(2) [OF con real]) simp
  have "th_in_wait_queue (threads s p)" using ok wq waiters_nonzero [OF inv q] by (auto simp: thread_ok_def)
  then have w: "th_wait_reason (threads s p) \<in> {THREAD_WAIT_QUEUE, THREAD_WAIT_QUEUE_TIMEOUT}" using ok by (simp add: thread_ok_def)
  consider "threads s' p = threads s p"
    | "p \<in> set (sleep_list s)" "threads s' p = woken (timeout_result (threads s p)) (threads s p)"
    using f True assms(5) wq by (auto simp: thread_fate_def)
  then show ?thesis
  proof cases
    case 1
    then show ?thesis using p own by (simp add: pending_ok_def)
  next
    case 2
    have "th_in_sleep_queue (threads s p)"
      using queues_ok_parts(2) [OF consistentD(1) [OF con]] 2(1) by (auto simp: sinv_def)
    then have "th_wait_reason (threads s p) = THREAD_WAIT_QUEUE_TIMEOUT" using ok w by (auto simp: thread_ok_def)
    then show ?thesis using 2(2) r real no own by (simp add: pending_ok_def timeout_result_def)
  qed
next
  case False
  then have "th_state (threads s p) \<in> {THREAD_READY, THREAD_RUNNING}" using p by (auto simp: pending_ok_def)
  then have "th_state (threads s' p) \<in> {THREAD_READY, THREAD_RUNNING} \<and> th_wait_result (threads s' p) = th_wait_result (threads s p)"
    using f assms(6) by (simp add: thread_fate_def)
  then show ?thesis using p False own unfolding pending_ok_def by simp
qed

lemma pending_cong:
  assumes "pending_ok m T s p" and "threads s' = threads s" and "mx_owner (mutexes s' m) = x"
    and "x = mx_owner (mutexes s m) \<or> x \<noteq> p \<and> mx_owner (mutexes s m) \<noteq> p" and "p \<in> T \<longleftrightarrow> p \<in> T'"
  shows "pending_ok m T' s' p"
  using assms unfolding pending_ok_def by auto

lemma step_event:
  assumes i: "mutex_inv m Q s H P T" and al: "allowed Q e s" and u: "\<not> uses_queue (mutex_waiters m) e"
    and b: "\<not> (blocks e \<and> current_thread s \<in> Some ` P)" and run: "sched_do e s = Inr (x, s')"
  shows "mutex_inv m (queues_after e Q) s' H P T"
proof -
  note d = invD [OF i]
  have st: "step_ok Q e s s'" using returnsD [OF sched_do_ok [OF d(1) al] run] .
  have fate: "thread_fate e s s' p" for p using returnsD [OF event_fate [OF d(1) al] run] by blast
  have mx: "mutexes s' = mutexes s" using st by (intro same_mutexes) (simp add: step_ok_def)
  have "\<not> wakes e (mutex_waiters m)" using u by (cases e) simp_all
  then have "\<forall>p\<in>P. pending_ok m T s' p"
    using b d(5) mx by (intro ballI pending_event [OF d(1) _ fate d(3)]) auto
  moreover have "mutex_waiters m \<in> queues_after e Q" using d(3) by (cases e) simp_all
  moreover have "owner_ok (mx_owner (mutexes s' m)) (wait_list s' (mutex_waiters m)) H P"
    using d(6) event_waiters [OF st d(3) u] mx by (auto simp: owner_ok_def split: if_splits)
  ultimately show ?thesis using d(2,4) st by (simp add: mutex_inv_def step_ok_def)
qed

lemma step_quiet:
  assumes "mutex_inv m Q s H P T" and "quiet m s s'"
  shows "mutex_inv m Q s' H P T"
proof -
  note d = invD [OF assms(1)]
  have q: "same_sched s s'" "mutexes s' m = mutexes s m" using assms(2) by (simp_all add: quiet_def)
  have "\<forall>p\<in>P. pending_ok m T s' p"
    by (intro ballI pending_cong [OF d(5) _ refl]) (use same_lists [OF q(1)] q(2) in simp_all)
  then show ?thesis using d same_lists [OF q(1)] same_sched_inv [OF q(1)] q(2) by (simp add: mutex_inv_def)
qed

text \<open>A successful acquisition without waiting.\<close>

lemma step_acquire:
  assumes i: "mutex_inv m Q s H P T" and cur: "current_thread s = Some c" and nz: "c \<noteq> 0" and c: "c \<notin> H \<union> P"
    and own: "mx_owner (mutexes s m) = MUTEX_NO_OWNER" and s': "same_sched s s'" "mx_owner (mutexes s' m) = c"
  shows "mutex_inv m Q s' (insert c H) P T"
proof -
  note d = invD [OF i]
  have real: "tid_is_real c" using current_facts(5) [OF d(1) cur nz] .
  have "\<forall>p\<in>P. pending_ok m T s' p"
  proof
    fix p assume p: "p \<in> P"
    then have "tid_is_real p" using d(5) by (simp add: pending_ok_def)
    then have "mx_owner (mutexes s m) \<noteq> p \<and> c \<noteq> p" using own real_not_no_owner [of p] c p by auto
    then show "pending_ok m T s' p"
      by (intro pending_cong [OF d(5) [OF p] _ s'(2)]) (use same_lists [OF s'(1)] in simp_all)
  qed
  moreover have "owner_ok c (wait_list s' (mutex_waiters m)) (insert c H) P"
    using d(6) own c same_lists [OF s'(1)] real_not_no_owner [OF real] by (simp add: owner_ok_def)
  ultimately show ?thesis using d(1-4) same_sched_inv [OF s'(1)] s'(2) by (simp add: mutex_inv_def)
qed

text \<open>The current thread starts to wait.\<close>

lemma step_wait:
  assumes i: "mutex_inv m Q s H P T" and cur: "current_thread s = Some c" and nz: "c \<noteq> 0" and c: "c \<notin> H \<union> P"
    and own: "mx_owner (mutexes s m) \<noteq> MUTEX_NO_OWNER" and qu: "quiet m s s1"
    and tr: "trapped m frame (if n = 0 then THREAD_TRAP_WAIT else THREAD_TRAP_WAIT_TIMEOUT, mutex_waiters m, n) s1 s'"
    and T': "T' = (if n = 0 then T else insert c T)"
  shows "mutex_inv m Q s' H (insert c P) T'"
proof -
  let ?q = "mutex_waiters m"
  obtain s2 x where s2: "frame \<noteq> 0" "quiet m s1 s2" "sched_do (Wait frame ?q n) s2 = Inr (x, s')"
    using tr by (auto simp: trapped_def request_event_def THREAD_TRAP_WAIT_def THREAD_TRAP_WAIT_TIMEOUT_def
        THREAD_TRAP_YIELD_def THREAD_TRAP_EXIT_def THREAD_TRAP_SLEEP_def split: if_splits)
  have "quiet m s s2" using qu s2(2) same_sched_trans by (auto simp: quiet_def)
  then have i2: "mutex_inv m Q s2 H P T" and sm: "same_sched s s2" using step_quiet [OF i] by (simp_all add: quiet_def)
  note d = invD [OF i2]
  have cur2: "current_thread s2 = Some c" using cur sm by (simp add: same_sched_def)
  have own2: "mx_owner (mutexes s2 m) \<noteq> MUTEX_NO_OWNER \<and> mx_owner (mutexes s2 m) \<noteq> c"
    using own \<open>quiet m s s2\<close> c d(6) by (auto simp: quiet_def owner_ok_def)
  have al: "allowed Q (Wait frame ?q n) s2" using cur2 nz s2(1) d(3) by (simp add: runs_real_def)
  obtain f where run: "block_current_from_trap frame ?q n s2 = Inr (f, s')"
    using s2(3) by (auto simp: with_frame_def elim!: bindE_InrE)
  have b: "sched_inv Q s'" "block_done c frame ?q n s2 f s'"
    using returnsD [OF block_ok [OF d(1) cur2 nz s2(1) d(3)] run] by simp_all
  have fate: "thread_fate (Wait frame ?q n) s2 s' p" for p using returnsD [OF event_fate [OF d(1) al] s2(3)] by blast
  have mx: "mutexes s' = mutexes s2" using b(2) by (intro same_mutexes) (simp add: block_done_def)
  have real: "tid_is_real c" using current_facts(5) [OF d(1) cur2 nz] .
  have old: "pending_ok m T' s' p" if "p \<in> P" for p
  proof -
    have "p \<noteq> c" using that c by blast
    then have "pending_ok m T s' p"
      using cur2 mx by (intro pending_event [OF d(1) d(5) [OF that] fate d(3)]) simp_all
    then show ?thesis by (rule pending_cong) (use \<open>p \<noteq> c\<close> T' in auto)
  qed
  have "next_tid s2 \<noteq> c" using next_other [OF d(1) cur2 nz] by simp
  then have tc: "threads s' c = waiting frame (load64 (frame + FRAME_SP) s2) ?q n (ticks s2) (threads s2 c)"
    using b(2) by (simp add: block_done_def)
  have "c \<notin> T" using c d(4) by blast
  then have "pending_ok m T' s' c"
    using real own2 mx T' unfolding pending_ok_def tc by (simp add: waiting_def Let_def)
  moreover have "owner_ok (mx_owner (mutexes s' m)) (wait_list s' ?q) H (insert c P)"
    using d(6) own2 b(2) mx by (auto simp: owner_ok_def block_done_def split: if_splits)
  ultimately show ?thesis using d(2-4) b(1) old T' by (auto simp: mutex_inv_def)
qed

text \<open>A waiting call returns.\<close>

lemma step_return:
  assumes i: "mutex_inv m Q s H P T" and cur: "current_thread s = Some c" and c: "c \<in> P" and qu: "quiet m s s'"
  shows "mx_owner (mutexes s m) = c \<Longrightarrow> mutex_inv m Q s' (insert c H) (P - {c}) (T - {c})"
    and "mx_owner (mutexes s m) \<noteq> c \<Longrightarrow> mutex_inv m Q s' H (P - {c}) (T - {c})"
proof -
  have i': "mutex_inv m Q s' H P T" by (rule step_quiet [OF i qu])
  note d = invD [OF i']
  have cur': "current_thread s' = Some c" and own: "mx_owner (mutexes s' m) = mx_owner (mutexes s m)"
    using qu cur by (simp_all add: quiet_def same_sched_def)
  have real: "tid_is_real c" using d(5) [OF c] by (simp add: pending_ok_def)
  have "\<not> th_in_wait_queue (threads s' c)" using current_facts(12) [OF d(1) cur'] real_nonzero [OF real] by blast
  then have nw: "c \<notin> set (wait_list s' (mutex_waiters m))"
    using queues_ok_parts(3) [OF current_facts(10) [OF d(1) cur']] d(3) by (auto simp: winv_def)
  have p: "pending_ok m (T - {c}) s' p" if "p \<in> P - {c}" for p
    by (rule pending_cong [OF d(5)]) (use that in auto)
  have no: "c \<noteq> MUTEX_NO_OWNER" using real_not_no_owner [OF real] .
  show "mx_owner (mutexes s m) = c \<Longrightarrow> mutex_inv m Q s' (insert c H) (P - {c}) (T - {c})"
    using d(1-4,6) p nw no own c by (auto simp: mutex_inv_def owner_ok_def)
  show "mx_owner (mutexes s m) \<noteq> c \<Longrightarrow> mutex_inv m Q s' H (P - {c}) (T - {c})"
    using d(1-4,6) p nw own by (auto simp: mutex_inv_def owner_ok_def split: if_splits)
qed

lemma resume_ok:
  assumes i: "mutex_inv m Q s H P T" and cur: "current_thread s = Some c"
  shows "c \<in> P - T \<Longrightarrow> mx_owner (mutexes s m) = c \<and>
      (\<exists>s'. mutex_lock_resume m c irq s = Inr (Done (), s') \<and> quiet m s s')"
    and "c \<in> T \<Longrightarrow> \<exists>s'. mutex_lock_timeout_resume m c n irq (th_wait_result (threads s c)) s =
      Inr (Done (if mx_owner (mutexes s m) = c then WAIT_OK else WAIT_TIMEOUT), s') \<and> quiet m s s'"
proof -
  note d = invD [OF i]
  have r: "th_state (threads s c) = THREAD_RUNNING" using current_facts(2) [OF d(1) cur] .
  show "c \<in> P - T \<Longrightarrow> mx_owner (mutexes s m) = c \<and>
      (\<exists>s'. mutex_lock_resume m c irq s = Inr (Done (), s') \<and> quiet m s s')"
    using d(5) [of c] r by (auto simp: pending_ok_def mutex_lock_resume_def quiet_def)
  show "c \<in> T \<Longrightarrow> \<exists>s'. mutex_lock_timeout_resume m c n irq (th_wait_result (threads s c)) s =
      Inr (Done (if mx_owner (mutexes s m) = c then WAIT_OK else WAIT_TIMEOUT), s') \<and> quiet m s s'"
    using d(4) d(5) [of c] r
    by (auto simp: pending_ok_def mutex_lock_timeout_resume_def quiet_def WAIT_OK_def WAIT_TIMEOUT_def)
qed

lemma step_unlock:
  assumes i: "mutex_inv m Q s H P T" and cur: "current_thread s = Some c" and nz: "c \<noteq> 0" and c: "c \<in> H"
    and run: "mutex_unlock m s = Inr (u, s')"
  shows "mutex_inv m Q s' (H - {c}) P T"
proof -
  let ?q = "mutex_waiters m"
  note d = invD [OF i]
  have no: "mx_owner (mutexes s m) \<noteq> MUTEX_NO_OWNER" using d(6) c by (auto simp: owner_ok_def)
  then have own: "mx_owner (mutexes s m) = c" and H: "H = {c}" and cP: "c \<notin> P" and W: "set (wait_list s ?q) \<subseteq> P"
    using d(6) c by (auto simp: owner_ok_def)
  let ?x = "case wait_list s ?q of [] \<Rightarrow> MUTEX_NO_OWNER | t # _ \<Rightarrow> t"
  have u: "sched_inv Q s'" "mx_owner (mutexes s' m) = ?x"
    "threads s' = wake_waiters (set (take 1 (wait_list s ?q))) (threads s)" "wait_list s' ?q = tl (wait_list s ?q)"
    using returnsD [OF unlock_ok [OF d(1) cur nz d(2,3) own] run] by blast+
  have "pending_ok m T s' p" if p: "p \<in> P" for p
  proof (cases "p = ?x")
    case True
    have real: "tid_is_real p" using d(5) [OF p] by (simp add: pending_ok_def)
    then obtain ts where W1: "wait_list s ?q = p # ts"
      using True real_not_no_owner [OF real] by (cases "wait_list s ?q") auto
    then have "p \<in> set (take 1 (wait_list s ?q))" by simp
    then show ?thesis using W1 real u(2,3) by (simp add: pending_ok_def wake_waiters_def)
  next
    case False
    then have "threads s' p = threads s p" using u(3) by (auto simp: wake_waiters_def split: list.splits)
    then show ?thesis using d(5) [OF p] own cP p False u(2) unfolding pending_ok_def by auto
  qed
  moreover have "owner_ok ?x (tl (wait_list s ?q)) (H - {c}) P"
  proof (cases "wait_list s ?q")
    case (Cons t ts)
    then have "t \<in> P" using W by simp
    then have "t \<noteq> MUTEX_NO_OWNER" using d(5) [of t] real_not_no_owner [of t] by (simp add: pending_ok_def)
    then show ?thesis using Cons W H by (simp add: owner_ok_def)
  qed (simp add: owner_ok_def H)
  ultimately show ?thesis using d(2-4) u by (simp add: mutex_inv_def)
qed

lemma init_mutex_ok:
  fixes s :: sync
  assumes inv: "sched_inv Q s" and q: "mutex_waiters m \<noteq> 0" "mutex_waiters m \<notin> Q" and m: "m \<noteq> 0"
    and len: "length (wq_tids (wait_queues s (mutex_waiters m))) = THREAD_MAX - 1"
  shows "returns (mutex_init m name s) (\<lambda>_ s'. sched_inv (insert (mutex_waiters m) Q) s' \<and>
    mx_owner (mutexes s' m) = MUTEX_NO_OWNER \<and> mx_name (mutexes s' m) = name \<and> wait_list s' (mutex_waiters m) = [] \<and>
    threads s' = threads s \<and> ready_list s' = ready_list s)"
proof -
  define irq s1 where d: "irq = fst (irq_save s)" "s1 = snd (irq_save s)"
  define s2 where "s2 = (let s = set_owner m MUTEX_NO_OWNER s1
    in s\<lparr>mutexes := (mutexes s)(m := (mutexes s m)\<lparr>mx_name := name\<rparr>)\<rparr>)"
  have same: "same_sched s s2"
    by (simp add: s2_def d irq_save_def csr_clear_sstatus_def same_sched_def set_owner_def Let_def)
  have i2: "sched_inv Q s2" using inv same_sched_inv [OF same] by blast
  have "length (wq_tids (wait_queues s2 (mutex_waiters m))) = THREAD_MAX - 1" using len same by (simp add: same_sched_def)
  from wait_queue_init_ok [OF i2 q this, of name]
  obtain s3 where s3: "wait_queue_init (mutex_waiters m) name s2 = Inr ((), s3)" "sched_inv (insert (mutex_waiters m) Q) s3"
      "wait_list s3 (mutex_waiters m) = []" "threads s3 = threads s2" "ready_list s3 = ready_list s2" "sched.more s3 = sched.more s2"
    by (auto elim!: returnsE)
  have run: "mutex_init m name s = Inr ((), irq_restore irq s3)"
    using m s3(1) unfolding mutex_init_def irq_masked_def d s2_def Let_def by (cases "irq_save s") simp
  have same3: "same_sched s3 (irq_restore irq s3)" by simp
  have "sched_inv (insert (mutex_waiters m) Q) (irq_restore irq s3)" using s3(2) same_sched_inv [OF same3] by blast
  moreover have "ready_list (irq_restore irq s3) = ready_list s3" "ready_list s2 = ready_list s" "threads s2 = threads s"
    using same3 same by (simp_all add: same_sched_def ready_list_def)
  ultimately show ?thesis
    using run s3 same_mutexes [OF s3(6)] by (simp add: s2_def set_owner_def Let_def)
qed

text \<open>Outside a real thread every operation panics.\<close>

lemma runs_real_thread:
  fixes s :: sync
  assumes inv: "sched_inv Q s" and cur: "current_thread s = Some c"
    and run: "mutex_lock m s = Inr r1 \<or> mutex_lock_timeout m n s = Inr r2 \<or> mutex_trylock m s = Inr r3 \<or> mutex_unlock m s = Inr r4"
  shows "c \<noteq> 0 \<and> m \<noteq> 0"
proof -
  have "require_thread_context (snd (irq_save s)) = Inl ''sync operation outside real thread context''" if "c = 0"
    using current_facts(3) [OF inv cur] cur that
    by (simp add: require_thread_context_def thread_current_tid_def THREAD_NULL_TID_def irq_save_def csr_clear_sstatus_def)
  then show ?thesis
    using run by (auto simp: mutex_lock_def mutex_lock_timeout_def mutex_trylock_def mutex_unlock_def split: prod.splits if_splits)
qed

lemma owner_idle:
  assumes "mutex_inv m Q s H P T" and "current_thread s = Some c" and "c \<noteq> 0" and "c \<notin> H \<union> P"
  shows "mx_owner (mutexes s m) \<noteq> c"
  using invD(6) [OF assms(1)] assms(4) real_not_no_owner [OF current_facts(5) [OF invD(1) [OF assms(1)] assms(2,3)]]
  by (auto simp: owner_ok_def split: if_splits)

lemma run_inv: "mutex_run m Q s H P T \<Longrightarrow> mutex_inv m Q s H P T"
proof (induction rule: mutex_run.induct)
  case (init Q s name u s')
  have m: "m \<noteq> 0" using init(5) by (auto simp: mutex_init_def)
  show ?case
    using returnsD [OF init_mutex_ok [OF init(1-3) m init(4)] init(5)] m
    by (simp add: mutex_inv_def owner_ok_def)
next
  case (lock Q s H P T c u s')
  note d = invD [OF lock.IH]
  have c: "c \<noteq> 0" using runs_real_thread [OF d(1) lock(2)] lock(4) by blast
  note o = lock_ok [OF d(1) lock(2) c d(2,3) owner_idle [OF lock.IH lock(2) c lock(3)]]
  have own: "mx_owner (mutexes s m) = MUTEX_NO_OWNER" using o(2) lock(4) by fastforce
  show ?case using o(1) [OF own] lock(4) step_acquire [OF lock.IH lock(2) c lock(3) own] by fastforce
next
  case (lock_wait Q s H P T c req irq s1 frame s')
  note d = invD [OF lock_wait.IH]
  have c: "c \<noteq> 0" using runs_real_thread [OF d(1) lock_wait(2)] lock_wait(4) by blast
  note o = lock_ok [OF d(1) lock_wait(2) c d(2,3) owner_idle [OF lock_wait.IH lock_wait(2) c lock_wait(3)]]
  have own: "mx_owner (mutexes s m) \<noteq> MUTEX_NO_OWNER" using o(1) lock_wait(4) by fastforce
  have q: "req = (THREAD_TRAP_WAIT, mutex_waiters m, 0)" "quiet m s s1" using o(2) [OF own] lock_wait(4) by auto
  show ?case
    by (rule step_wait [OF lock_wait.IH lock_wait(2) c lock_wait(3) own q(2), of frame 0]) (use q(1) lock_wait(5) in simp_all)
next
  case (resume Q s H P T c irq u s')
  have "c \<in> P" "T - {c} = T" using resume(3) by auto
  then show ?case
    using resume_ok(1) [OF resume.IH resume(2,3), of irq] resume(4) step_return(1) [OF resume.IH resume(2)] by fastforce
next
  case (timed Q s H P T c n r s')
  note d = invD [OF timed.IH]
  have c: "c \<noteq> 0" using runs_real_thread [OF d(1) timed(2)] timed(4) by blast
  note o = timed_ok(1-3) [OF d(1) timed(2) c d(2,3) owner_idle [OF timed.IH timed(2) c timed(3)], of n]
  show ?case
  proof (cases "mx_owner (mutexes s m) = MUTEX_NO_OWNER")
    case True
    then show ?thesis using o(1) timed(4) step_acquire [OF timed.IH timed(2) c timed(3) True] by fastforce
  next
    case False
    then have "r = WAIT_TIMEOUT \<and> quiet m s s'" using o(2,3) timed(4) by (cases "n = 0") auto
    then show ?thesis using step_quiet [OF timed.IH] by (simp add: WAIT_OK_def WAIT_TIMEOUT_def)
  qed
next
  case (timed_wait Q s H P T c n req irq s1 frame s')
  note d = invD [OF timed_wait.IH]
  have c: "c \<noteq> 0" using runs_real_thread [OF d(1) timed_wait(2)] timed_wait(4) by blast
  note o = timed_ok(1-3) [OF d(1) timed_wait(2) c d(2,3) owner_idle [OF timed_wait.IH timed_wait(2) c timed_wait(3)], of n]
  have own: "mx_owner (mutexes s m) \<noteq> MUTEX_NO_OWNER" using o(1) timed_wait(4) by fastforce
  have n: "n \<noteq> 0" using o(2) [OF own] timed_wait(4) by auto
  have q: "req = (THREAD_TRAP_WAIT_TIMEOUT, mutex_waiters m, n)" "quiet m s s1" using o(3) [OF own n] timed_wait(4) by auto
  show ?case
    by (rule step_wait [OF timed_wait.IH timed_wait(2) c timed_wait(3) own q(2), of frame n]) (use q(1) n timed_wait(5) in simp_all)
next
  case (timed_resume Q s H P T c n irq r s')
  have c: "c \<in> P" using invD(4) [OF timed_resume.IH] timed_resume(3) by auto
  have q: "r = (if mx_owner (mutexes s m) = c then WAIT_OK else WAIT_TIMEOUT)" "quiet m s s'"
    using resume_ok(2) [OF timed_resume.IH timed_resume(2,3), of n irq] timed_resume(4) by auto
  show ?case
    using step_return [OF timed_resume.IH timed_resume(2) c q(2)] q(1) by (auto simp: WAIT_OK_def WAIT_TIMEOUT_def)
next
  case (trylock Q s H P T c r s')
  note d = invD [OF trylock.IH]
  have c: "c \<noteq> 0" using runs_real_thread [OF d(1) trylock(2)] trylock(4) by blast
  note o = timed_ok(4,5) [OF d(1) trylock(2) c d(2,3) owner_idle [OF trylock.IH trylock(2) c trylock(3)]]
  show ?case
  proof (cases "mx_owner (mutexes s m) = MUTEX_NO_OWNER")
    case True
    then show ?thesis using o(1) trylock(4) step_acquire [OF trylock.IH trylock(2) c trylock(3) True] by fastforce
  next
    case False
    then show ?thesis using o(2) trylock(4) step_quiet [OF trylock.IH, of s'] by fastforce
  qed
next
  case (unlock Q s H P T c u s')
  have "c \<noteq> 0" using runs_real_thread [OF invD(1) [OF unlock.IH] unlock(2)] unlock(4) by blast
  then show ?case by (rule step_unlock [OF unlock.IH unlock(2) _ unlock(3,4)])
next
  case (event Q s H P T e x s')
  show ?case by (rule step_event [OF event.IH event(2-5)])
next
  case (other Q s H P T s')
  show ?case by (rule step_quiet [OF other.IH other(2)])
qed

section \<open>A concrete run\<close>

text \<open>
  Thread 1 initialises and takes the mutex at \<open>0x200\<close>, then yields; thread 2 tries to
  take it and waits, and thread 1 runs again.
\<close>

definition demo_sync :: sync where
  "demo_sync = sched.extend demo_sched \<lparr>mutexes = (\<lambda>_. \<lparr>mx_owner = 0, mx_name = None\<rparr>)\<rparr>"

lemma extend_inv: "sched_inv Q (sched.extend s x) = sched_inv Q s"
proof -
  have "wait_list (sched.extend s x) = wait_list s" by (simp add: wait_list_def sched.defs fun_eq_iff)
  then show ?thesis
    by (simp add: sched_inv_def consistent_def queues_ok_def) (simp add: ready_list_def sleep_list_def sched.defs)
qed

lemma demo_mutex_run:
  obtains s where "mutex_run 0x200 {0x208, 0x100} s {1} {2} {}" and "current_thread s = Some 1" and "wait_list s 0x208 = [2]"
proof -
  let ?m = "0x200 :: u64"
  have inv0: "sched_inv {0x100} demo_sync" using demo_inv by (simp add: demo_sync_def extend_inv)
  have "threads demo_sync = demo_thread" "ready_list demo_sync = [2]"
    by (simp_all add: demo_sync_def sched.defs demo_sched_def ready_list_def tq_items_def ring_def THREAD_MAX_def)
  moreover have len: "length (wq_tids (wait_queues demo_sync (mutex_waiters ?m))) = THREAD_MAX - 1"
    by (simp add: demo_sync_def sched.defs demo_sched_def THREAD_MAX_def)
  ultimately obtain s1 where s1: "mutex_init ?m None demo_sync = Inr ((), s1)" "sched_inv {0x208, 0x100} s1"
      "mx_owner (mutexes s1 ?m) = MUTEX_NO_OWNER" "wait_list s1 0x208 = []" "threads s1 = demo_thread" "ready_list s1 = [2]"
    using init_mutex_ok [OF inv0, of ?m None] by (auto simp: mutex_waiters_def elim!: returnsE)
  have r1: "mutex_run ?m {0x208, 0x100} s1 {} {} {}"
    using mutex_run.init [OF inv0 _ _ len s1(1)] by (simp add: mutex_waiters_def)
  have "th_state (threads s1 1) = THREAD_RUNNING" "tid_is_valid 1"
    by (simp_all add: s1(5) demo_thread_def tid_is_valid_def THREAD_NULL_TID_def THREAD_MAX_def)
  then have cur1: "current_thread s1 = Some 1" using s1(2) by (auto simp: sched_inv_def only_running_def)
  obtain s2 where s2: "mutex_lock ?m s1 = Inr (Done (), s2)" "same_sched s1 s2" "mx_owner (mutexes s2 ?m) = 1"
    using lock_ok(1) [OF s1(2) cur1, of ?m] s1(3) by (auto simp: MUTEX_NO_OWNER_def THREAD_INVALID_TID_def mutex_waiters_def)
  have r2: "mutex_run ?m {0x208, 0x100} s2 {1} {} {}" using mutex_run.lock [OF r1 cur1 _ s2(1)] by simp
  have inv2: "sched_inv {0x208, 0x100} s2" using s1(2) same_sched_inv [OF s2(2)] by blast
  have cur2: "current_thread s2 = Some 1" and l2: "ready_list s2 = [2]" "wait_list s2 = wait_list s1"
    using s2(2) cur1 s1(6) by (simp_all add: same_sched_def ready_list_def wait_list_def fun_eq_iff)
  have st2: "threads_started s2" by (rule current_facts(4) [OF inv2 cur2])
  obtain f s3 where y: "thread_yield_current_from_trap 0x9000 s2 = Inr (f, s3)" "sched_inv {0x208, 0x100} s3"
      "yield_done 1 0x9000 s2 f s3"
    using yield_ok [OF inv2 cur2, of "0x9000"] by (auto elim!: returnsE)
  have s3: "current_thread s3 = Some 2" "ready_list s3 = [1]" "wait_list s3 = wait_list s1" "mutexes s3 = mutexes s2"
    using y(3) l2 done_more(1) [OF y(3)] same_mutexes [of s3 s2] by (simp_all add: yield_done_def)
  have r3: "mutex_run ?m {0x208, 0x100} s3 {1} {} {}"
    using mutex_run.event [OF r2, of "Yield 0x9000" "Some f" s3] st2 y(1) by (simp add: with_frame_def)
  obtain s4 irq where s4: "mutex_lock ?m s3 = Inr (Blocks (THREAD_TRAP_WAIT, 0x208, 0) irq, s4)" "quiet ?m s3 s4"
    using lock_ok(2) [OF y(2) s3(1), of ?m] s2(3) s3(4)
    by (auto simp: MUTEX_NO_OWNER_def THREAD_INVALID_TID_def mutex_waiters_def)
  have sm: "same_sched s3 s4" using s4(2) by (simp add: quiet_def)
  have inv4: "sched_inv {0x208, 0x100} s4" using y(2) same_sched_inv [OF sm] by blast
  have cur4: "current_thread s4 = Some 2" and l4: "ready_list s4 = [1]" "wait_list s4 = wait_list s1"
    using sm s3 by (simp_all add: same_sched_def ready_list_def wait_list_def fun_eq_iff)
  obtain g s5 where b: "block_current_from_trap 0x9000 0x208 0 s4 = Inr (g, s5)" "block_done 2 0x9000 0x208 0 s4 g s5"
    using block_ok [OF inv4 cur4, of "0x9000" "0x208" 0] by (auto elim!: returnsE)
  have "quiet ?m s4 s4" by (simp add: quiet_def)
  then have "trapped ?m 0x9000 (THREAD_TRAP_WAIT, 0x208, 0) s4 s5"
    using b(1) unfolding trapped_def
    by (intro conjI exI [of _ s4] exI [of _ "Wait 0x9000 0x208 0"] exI [of _ "Some g"])
      (simp_all add: request_event_def with_frame_def THREAD_TRAP_WAIT_def THREAD_TRAP_YIELD_def THREAD_TRAP_EXIT_def THREAD_TRAP_SLEEP_def)
  then have "mutex_run ?m {0x208, 0x100} s5 {1} {2} {}" using mutex_run.lock_wait [OF r3 s3(1) _ s4(1)] by simp
  moreover have "current_thread s5 = Some 1" "wait_list s5 0x208 = [2]"
    using b(2) l4 s1(4) by (simp_all add: block_done_def next_tid_case)
  ultimately show thesis by (rule that)
qed

section \<open>Properties\<close>

text \<open>
  C4: Mutual exclusion: in every interleaving at most one thread holds the mutex, it is the
  recorded owner, no holder is at the same time waiting, every queued thread is inside a waiting
  call, and nobody waits for a free mutex.
\<close>

theorem mutex_exclusion:
  assumes "mutex_run m Q s H P T"
  shows "(\<forall>a\<in>H. \<forall>b\<in>H. a = b) \<and> (\<forall>a\<in>H. mx_owner (mutexes s m) = a) \<and> H \<inter> P = {} \<and>
    set (wait_list s (mutex_waiters m)) \<subseteq> P \<and>
    (mx_owner (mutexes s m) = MUTEX_NO_OWNER \<longrightarrow> H = {} \<and> wait_list s (mutex_waiters m) = [])"
  using invD(6) [OF run_inv [OF assms]] by (auto simp: owner_ok_def split: if_splits)

theorem mutex_exclusion_witness:
  "\<exists>s. mutex_run 0x200 {0x208, 0x100} s {1} {2} {} \<and> mx_owner (mutexes s 0x200) = 1"
proof -
  obtain s where s: "mutex_run 0x200 {0x208, 0x100} s {1} {2} {}" by (rule demo_mutex_run)
  with mutex_exclusion [OF s] show ?thesis by auto
qed

text \<open>
  C16: No permitted call panics or loops: a thread outside the mutex can lock it, which succeeds
  at once exactly when it is free and otherwise waits in its queue, lock it with a deadline, or try
  it; a holder can unlock it; and the call of a thread that was woken returns, with the mutex if it
  waited without a deadline, and otherwise with the mutex exactly when the result says so.
\<close>

theorem mutex_calls_return:
  assumes "mutex_run m Q s H P T" and "current_thread s = Some c" and "c \<noteq> 0"
  shows "(c \<notin> H \<union> P \<longrightarrow>
      (\<exists>r s'. mutex_lock m s = Inr (r, s') \<and>
         (if mx_owner (mutexes s m) = MUTEX_NO_OWNER then r = Done () \<and> mx_owner (mutexes s' m) = c
          else \<exists>irq. r = Blocks (THREAD_TRAP_WAIT, mutex_waiters m, 0) irq)) \<and>
      (\<exists>r s'. mutex_lock_timeout m n s = Inr (r, s') \<and>
         (if mx_owner (mutexes s m) = MUTEX_NO_OWNER then r = Done WAIT_OK \<and> mx_owner (mutexes s' m) = c
          else if n = 0 then r = Done WAIT_TIMEOUT
          else \<exists>irq. r = Blocks (THREAD_TRAP_WAIT_TIMEOUT, mutex_waiters m, n) irq)) \<and>
      (\<exists>s'. mutex_trylock m s = Inr (if mx_owner (mutexes s m) = MUTEX_NO_OWNER then 1 else 0, s'))) \<and>
    (c \<in> H \<longrightarrow> (\<exists>s'. mutex_unlock m s = Inr ((), s'))) \<and>
    (c \<in> P - T \<longrightarrow> (\<exists>s'. mutex_lock_resume m c irq s = Inr (Done (), s') \<and> mx_owner (mutexes s' m) = c)) \<and>
    (c \<in> T \<longrightarrow> (\<exists>r s'. mutex_lock_timeout_resume m c n irq (th_wait_result (threads s c)) s = Inr (Done r, s') \<and>
       r = (if mx_owner (mutexes s' m) = c then WAIT_OK else WAIT_TIMEOUT)))"
proof -
  have i: "mutex_inv m Q s H P T" by (rule run_inv [OF assms(1)])
  note d = invD [OF i]
  show ?thesis
  proof (intro conjI impI, goal_cases)
    case 1
    then show ?case using lock_ok [OF d(1) assms(2,3) d(2,3) owner_idle [OF i assms(2,3)]] by auto
  next
    case 2
    note o = timed_ok(1-3) [OF d(1) assms(2,3) d(2,3) owner_idle [OF i assms(2,3) 2], of n]
    show ?case
    proof (cases "mx_owner (mutexes s m) = MUTEX_NO_OWNER")
      case True
      then show ?thesis using o(1) by auto
    next
      case False
      then show ?thesis using o(2,3) by (cases "n = 0") auto
    qed
  next
    case 3
    then show ?case using timed_ok(4,5) [OF d(1) assms(2,3) d(2,3) owner_idle [OF i assms(2,3)]] by auto
  next
    case 4
    then have "mx_owner (mutexes s m) = c" using d(6) by (auto simp: owner_ok_def split: if_splits)
    from unlock_ok [OF d(1) assms(2,3) d(2,3) this] show ?case by (auto elim!: returnsE)
  next
    case 5
    then show ?case using resume_ok(1) [OF i assms(2), of irq] by (auto simp: quiet_def)
  next
    case 6
    then obtain s' where "mutex_lock_timeout_resume m c n irq (th_wait_result (threads s c)) s =
        Inr (Done (if mx_owner (mutexes s m) = c then WAIT_OK else WAIT_TIMEOUT), s')" "quiet m s s'"
      using resume_ok(2) [OF i assms(2), of n irq] by blast
    then show ?case
      by (intro exI [of _ "if mx_owner (mutexes s m) = c then WAIT_OK else WAIT_TIMEOUT"] exI [of _ s']) (simp add: quiet_def)
  qed
qed

theorem mutex_calls_return_witness:
  "\<exists>s :: sync. current_thread s = Some 1 \<and> (\<exists>s'. mutex_unlock 0x200 s = Inr ((), s'))"
proof -
  obtain s where s: "mutex_run 0x200 {0x208, 0x100} s {1} {2} {}" "current_thread s = Some 1" by (rule demo_mutex_run)
  then have "\<exists>s'. mutex_unlock 0x200 s = Inr ((), s')" using mutex_calls_return [OF s] by simp
  with s(2) show ?thesis by blast
qed

text \<open>
  Direct hand-off in waiting order: the thread that unlocks passes the ownership to the
  oldest waiter, which is made ready behind the other ready threads; the rest of the queue keeps its
  order, and the call of the new owner, once it runs, returns with the mutex. Only a mutex nobody
  waits for becomes free.
\<close>

theorem mutex_handoff:
  assumes "mutex_run m Q s H P T" and "current_thread s = Some c" and "c \<noteq> 0" and "c \<in> H"
  shows "\<exists>s'. mutex_unlock m s = Inr ((), s') \<and> mutex_run m Q s' {} P T \<and> current_thread s' = Some c \<and>
    (case wait_list s (mutex_waiters m) of
       [] \<Rightarrow> mx_owner (mutexes s' m) = MUTEX_NO_OWNER \<and> ready_list s' = ready_list s
     | t # ts \<Rightarrow> mx_owner (mutexes s' m) = t \<and> t \<in> P \<and> ready_list s' = ready_list s @ [t] \<and>
         wait_list s' (mutex_waiters m) = ts \<and> th_wait_result (threads s' t) = WAIT_OK)"
proof -
  note d = invD [OF run_inv [OF assms(1)]]
  have own: "mx_owner (mutexes s m) = c" "H = {c}" using d(6) assms(4) by (auto simp: owner_ok_def split: if_splits)
  have W: "set (wait_list s (mutex_waiters m)) \<subseteq> P" using d(6) by (simp add: owner_ok_def)
  obtain s' where run: "mutex_unlock m s = Inr ((), s')" and u: "current_thread s' = Some c"
    "mx_owner (mutexes s' m) = (case wait_list s (mutex_waiters m) of [] \<Rightarrow> MUTEX_NO_OWNER | t # _ \<Rightarrow> t)"
    "threads s' = wake_waiters (set (take 1 (wait_list s (mutex_waiters m)))) (threads s)"
    "ready_list s' = ready_list s @ take 1 (wait_list s (mutex_waiters m))"
    "wait_list s' (mutex_waiters m) = tl (wait_list s (mutex_waiters m))"
    using unlock_ok [OF d(1) assms(2,3) d(2,3) own(1)] by (auto elim!: returnsE)
  have "mutex_run m Q s' {} P T" using mutex_run.unlock [OF assms(1,2,4) run] own(2) by simp
  then show ?thesis
    using run u W by (intro exI [of _ s']) (auto simp: wake_waiters_def split: list.splits)
qed

theorem mutex_handoff_witness:
  "\<exists>(s :: sync) s'. mutex_unlock 0x200 s = Inr ((), s') \<and> mx_owner (mutexes s 0x200) = 1 \<and> mx_owner (mutexes s' 0x200) = 2"
proof -
  obtain s where s: "mutex_run 0x200 {0x208, 0x100} s {1} {2} {}" "current_thread s = Some 1" "wait_list s 0x208 = [2]"
    by (rule demo_mutex_run)
  have "mx_owner (mutexes s 0x200) = 1" using invD(6) [OF run_inv [OF s(1)]] by (auto simp: owner_ok_def split: if_splits)
  then show ?thesis using mutex_handoff [OF s(1,2)] s(3) by (auto simp: mutex_waiters_def)
qed

end
