(* ===== verification/Heap.thy ===== *)
theory Heap
  imports Page_Alloc
begin

text \<open>
  The kernel heap, \<^verbatim>\<open>kernel/memory/heap.c\<close>: seven size classes, each a chain of
  pages cut into blocks of one size. A page begins with a header, stored in memory at the offsets of
  the C structure; its free blocks form a list through their first words, and a bitmap in the header
  records which blocks are handed out.
\<close>

section \<open>Data\<close>

definition HEAP_ALIGNMENT :: u64 where "HEAP_ALIGNMENT = 16"
definition HEAP_MIN_CLASS :: u64 where "HEAP_MIN_CLASS = 32"
definition HEAP_MAX_CLASS :: u64 where "HEAP_MAX_CLASS = 2048"
definition HEAP_CLASS_COUNT :: nat where "HEAP_CLASS_COUNT = 7"
definition HEAP_PAGE_MAGIC :: u64 where "HEAP_PAGE_MAGIC = 0x5148525448454150"
definition HEAP_BITMAP_WORDS :: nat where "HEAP_BITMAP_WORDS = unat ((PAGE_SIZE div HEAP_MIN_CLASS + 63) div 64)"

definition heap_class_sizes :: "u64 list" where
  "heap_class_sizes = [32, 64, 128, 256, 512, 1024, 2048]"

record heap_pool =
  hp_block_size :: u64
  hp_pages :: u64

record heap = pages +
  heap_pools :: "heap_pool list"
  heap_pages :: u64
  heap_free_blocks_bytes :: u64
  heap_allocated_blocks_bytes :: u64
  heap_initialized :: bool

text \<open>Offsets of the fields of \<open>heap_page_t\<close>, and its size.\<close>

definition HP_MAGIC :: u64 where "HP_MAGIC = 0"
definition HP_BLOCK_SIZE :: u64 where "HP_BLOCK_SIZE = 8"
definition HP_BLOCK_COUNT :: u64 where "HP_BLOCK_COUNT = 10"
definition HP_FREE_COUNT :: u64 where "HP_FREE_COUNT = 12"
definition HP_CLASS_INDEX :: u64 where "HP_CLASS_INDEX = 14"
definition HP_FREE_LIST :: u64 where "HP_FREE_LIST = 16"
definition HP_NEXT :: u64 where "HP_NEXT = 24"
definition HP_BITMAP :: u64 where "HP_BITMAP = 32"
definition HP_SIZEOF :: u64 where "HP_SIZEOF = 48"

lemmas hp_offsets = HP_MAGIC_def HP_BLOCK_SIZE_def HP_BLOCK_COUNT_def HP_FREE_COUNT_def HP_CLASS_INDEX_def
  HP_FREE_LIST_def HP_NEXT_def HP_BITMAP_def HP_SIZEOF_def

text \<open>A 16-bit field is promoted when it is read.\<close>

definition load16 :: "u64 \<Rightarrow> 'a hw_scheme \<Rightarrow> u64" where
  "load16 a s = ucast (read16 (mem s) a)"

definition store16 :: "u64 \<Rightarrow> u64 \<Rightarrow> 'a hw_scheme \<Rightarrow> 'a hw_scheme" where
  "store16 a v s = s\<lparr>mem := write16 (mem s) a (ucast v)\<rparr>"

section \<open>Operations\<close>

definition heap_bitmap_word :: "u64 \<Rightarrow> u64 \<Rightarrow> u64" where
  "heap_bitmap_word page index = page + HP_BITMAP + 8 * (index div 64)"

definition heap_bitmap_test :: "u64 \<Rightarrow> u64 \<Rightarrow> 'a hw_scheme \<Rightarrow> bool" where
  "heap_bitmap_test page index s \<longleftrightarrow> load64 (heap_bitmap_word page index) s AND push_bit (unat (index mod 64)) 1 \<noteq> 0"

definition heap_bitmap_set :: "u64 \<Rightarrow> u64 \<Rightarrow> 'a hw_scheme \<Rightarrow> 'a hw_scheme" where
  "heap_bitmap_set page index s =
     (let w = heap_bitmap_word page index in store64 w (load64 w s OR push_bit (unat (index mod 64)) 1) s)"

definition heap_bitmap_clear :: "u64 \<Rightarrow> u64 \<Rightarrow> 'a hw_scheme \<Rightarrow> 'a hw_scheme" where
  "heap_bitmap_clear page index s =
     (let w = heap_bitmap_word page index in store64 w (load64 w s AND NOT (push_bit (unat (index mod 64)) 1)) s)"

definition block_area_start :: "u64 \<Rightarrow> u64" where
  "block_area_start page = align_up (page + HP_SIZEOF) HEAP_ALIGNMENT"

fun first_class :: "u64 \<Rightarrow> nat \<Rightarrow> u64 list \<Rightarrow> int" where
  "first_class sz i [] = -1"
| "first_class sz i (c # cs) = (if sz \<le> c then int i else first_class sz (Suc i) cs)"

definition class_index_for_size :: "u64 \<Rightarrow> int" where
  "class_index_for_size sz =
     (if sz = 0 \<or> sz > HEAP_MAX_CLASS then -1 else first_class sz 0 heap_class_sizes)"

primrec clear_words :: "u64 \<Rightarrow> nat \<Rightarrow> 'a hw_scheme \<Rightarrow> 'a hw_scheme" where
  "clear_words a 0 s = s"
| "clear_words a (Suc n) s = store64 (a + 8 * of_nat n) 0 (clear_words a n s)"

text \<open>The loop that puts every block of a new page in front of its free list.\<close>

primrec link_blocks :: "u64 \<Rightarrow> u64 \<Rightarrow> u64 \<Rightarrow> nat \<Rightarrow> 'a hw_scheme \<Rightarrow> 'a hw_scheme" where
  "link_blocks page start bs 0 s = s"
| "link_blocks page start bs (Suc n) s =
     (let s = link_blocks page start bs n s;
          block = start + of_nat n * bs;
          s = store64 block (load64 (page + HP_FREE_LIST) s) s
      in store64 (page + HP_FREE_LIST) block s)"

definition heap_grow_pool :: "nat \<Rightarrow> 'a heap_scheme \<Rightarrow> (u64 \<times> 'a heap_scheme) res" where
  "heap_grow_pool class_index s =
     bindE (page_alloc s) (\<lambda>(page, s).
       if page = 0 then Inr (0, s)
       else
       let block_size = hp_block_size (heap_pools s ! class_index);
           block_start = block_area_start page;
           page_end = page + PAGE_SIZE;
           block_count = (page_end - block_start) div block_size
       in if block_count = 0 \<or> block_count > PAGE_SIZE div HEAP_MIN_CLASS then Inl ''invalid heap block count''
       else
       let s = store64 (page + HP_MAGIC) HEAP_PAGE_MAGIC s;
           s = store16 (page + HP_BLOCK_SIZE) block_size s;
           s = store16 (page + HP_BLOCK_COUNT) block_count s;
           s = store16 (page + HP_FREE_COUNT) block_count s;
           s = store16 (page + HP_CLASS_INDEX) (of_nat class_index) s;
           s = store64 (page + HP_FREE_LIST) 0 s;
           s = store64 (page + HP_NEXT) (hp_pages (heap_pools s ! class_index)) s;
           s = clear_words (page + HP_BITMAP) HEAP_BITMAP_WORDS s;
           s = link_blocks page block_start block_size (unat block_count) s;
           s = s\<lparr>heap_pools := (heap_pools s)[class_index := (heap_pools s ! class_index)\<lparr>hp_pages := page\<rparr>]\<rparr>;
           s = s\<lparr>heap_pages := heap_pages s + 1\<rparr>;
           s = s\<lparr>heap_free_blocks_bytes := heap_free_blocks_bytes s + block_count * block_size\<rparr>
       in Inr (page, s))"

definition heap_alloc_block :: "u64 \<Rightarrow> 'a heap_scheme \<Rightarrow> (u64 \<times> 'a heap_scheme) res" where
  "heap_alloc_block page s =
     (if load64 (page + HP_FREE_LIST) s = 0 \<or> load16 (page + HP_FREE_COUNT) s = 0
      then Inl ''heap page has no free blocks''
      else
      let block = load64 (page + HP_FREE_LIST) s;
          s = store64 (page + HP_FREE_LIST) (load64 block s) s;
          block_index = (block - block_area_start page) div load16 (page + HP_BLOCK_SIZE) s
      in if block_index \<ge> load16 (page + HP_BLOCK_COUNT) s \<or> heap_bitmap_test page block_index s
         then Inl ''heap free list corruption''
         else
         let s = heap_bitmap_set page block_index s;
             s = store16 (page + HP_FREE_COUNT) (load16 (page + HP_FREE_COUNT) s - 1) s;
             s = s\<lparr>heap_free_blocks_bytes := heap_free_blocks_bytes s - load16 (page + HP_BLOCK_SIZE) s\<rparr>;
             s = s\<lparr>heap_allocated_blocks_bytes := heap_allocated_blocks_bytes s + load16 (page + HP_BLOCK_SIZE) s\<rparr>
         in Inr (block, s))"

definition heap_init :: "'a heap_scheme \<Rightarrow> (unit \<times> 'a heap_scheme) res" where
  "heap_init = irq_masked (\<lambda>s.
     let s = s\<lparr>heap_pools := map (\<lambda>n. \<lparr>hp_block_size = n, hp_pages = 0\<rparr>) heap_class_sizes\<rparr>;
         s = s\<lparr>heap_pages := 0\<rparr>;
         s = s\<lparr>heap_free_blocks_bytes := 0\<rparr>;
         s = s\<lparr>heap_allocated_blocks_bytes := 0\<rparr>
     in Inr ((), s\<lparr>heap_initialized := True\<rparr>))"

text \<open>
  The search for a page with a free block follows the chain in memory, which ends if the heap is
  well formed; a chain with a cycle of full pages is the value \<open>None\<close>.
\<close>

partial_function (option) heap_find_page :: "memory \<Rightarrow> u64 \<Rightarrow> u64 option" where
  "heap_find_page m page =
     (if page \<noteq> 0 \<and> read16 m (page + HP_FREE_COUNT) = 0 then heap_find_page m (read64 m (page + HP_NEXT))
      else Some page)"

definition kmalloc :: "u64 \<Rightarrow> 'a heap_scheme \<Rightarrow> (u64 \<times> 'a heap_scheme) res option" where
  "kmalloc sz s =
     (let (irq_state, s) = irq_save s in
      if \<not> heap_initialized s then Some (Inl ''kmalloc before heap_init'')
      else let class_index = class_index_for_size sz in
      if class_index < 0 then Some (Inr (0, irq_restore irq_state s))
      else case heap_find_page (mem s) (hp_pages (heap_pools s ! nat class_index)) of
        None \<Rightarrow> None
      | Some page \<Rightarrow> Some (
          bindE (if page = 0 then heap_grow_pool (nat class_index) s else Inr (page, s)) (\<lambda>(page, s).
            if page = 0 then Inr (0, irq_restore irq_state s)
            else bindE (heap_alloc_block page s) (\<lambda>(block, s). Inr (block, irq_restore irq_state s)))))"

definition kzalloc :: "u64 \<Rightarrow> 'a heap_scheme \<Rightarrow> (u64 \<times> 'a heap_scheme) res option" where
  "kzalloc sz s =
     (case kmalloc sz s of
        None \<Rightarrow> None
      | Some r \<Rightarrow> Some (bindE r (\<lambda>(block, s).
          if block = 0 then Inr (0, s)
          else let page = align_down block PAGE_SIZE in
          if load64 (page + HP_MAGIC) s \<noteq> HEAP_PAGE_MAGIC then Inl ''kzalloc invalid heap page''
          else Inr (block, memory_zero block (load16 (page + HP_BLOCK_SIZE) s) s))))"

definition kfree :: "u64 \<Rightarrow> 'a heap_scheme \<Rightarrow> (unit \<times> 'a heap_scheme) res" where
  "kfree ptr s =
     (if ptr = 0 then Inr ((), s)
      else irq_masked (\<lambda>s.
        if \<not> heap_initialized s then Inl ''kfree before heap_init''
        else let page = align_down ptr PAGE_SIZE in
        if page < page_managed_start s \<or> page \<ge> page_managed_end s then Inl ''kfree invalid heap address''
        else if load64 (page + HP_MAGIC) s \<noteq> HEAP_PAGE_MAGIC then Inl ''kfree invalid heap page''
        else let block_start = block_area_start page; page_end = page + PAGE_SIZE in
        if ptr < block_start \<or> ptr \<ge> page_end then Inl ''kfree pointer outside heap blocks''
        else let offset = ptr - block_start in
        if offset mod load16 (page + HP_BLOCK_SIZE) s \<noteq> 0 then Inl ''kfree interior pointer''
        else let block_index = offset div load16 (page + HP_BLOCK_SIZE) s in
        if block_index \<ge> load16 (page + HP_BLOCK_COUNT) s then Inl ''kfree block index out of range''
        else if \<not> heap_bitmap_test page block_index s then Inl ''double kfree''
        else
        let s = heap_bitmap_clear page block_index s;
            s = store64 ptr (load64 (page + HP_FREE_LIST) s) s;
            s = store64 (page + HP_FREE_LIST) ptr s;
            s = store16 (page + HP_FREE_COUNT) (load16 (page + HP_FREE_COUNT) s + 1) s;
            s = s\<lparr>heap_free_blocks_bytes := heap_free_blocks_bytes s + load16 (page + HP_BLOCK_SIZE) s\<rparr>;
            s = s\<lparr>heap_allocated_blocks_bytes := heap_allocated_blocks_bytes s - load16 (page + HP_BLOCK_SIZE) s\<rparr>
        in Inr ((), s)) s)"

definition heap_page_count :: "'a heap_scheme \<Rightarrow> (u64 \<times> 'a heap_scheme) res" where
  "heap_page_count = irq_masked (\<lambda>s.
     if \<not> heap_initialized s then Inl ''heap_page_count before heap_init'' else Inr (heap_pages s, s))"

definition heap_free_bytes :: "'a heap_scheme \<Rightarrow> (u64 \<times> 'a heap_scheme) res" where
  "heap_free_bytes = irq_masked (\<lambda>s.
     if \<not> heap_initialized s then Inl ''heap_free_bytes before heap_init'' else Inr (heap_free_blocks_bytes s, s))"

definition heap_allocated_bytes :: "'a heap_scheme \<Rightarrow> (u64 \<times> 'a heap_scheme) res" where
  "heap_allocated_bytes = irq_masked (\<lambda>s.
     if \<not> heap_initialized s then Inl ''heap_allocated_bytes before heap_init''
     else Inr (heap_allocated_blocks_bytes s, s))"

end
