(* ===== verification/Heap_Pages.thy ===== *)
theory Heap_Pages
  imports Heap
begin

text \<open>
  One heap page: the layout of its header and blocks, what a well-formed page is, and the effect
  of taking, giving back and linking blocks on it.
\<close>

section \<open>Addresses within a page\<close>

text \<open>The byte at an offset. It is kept folded so that accesses are compared by their offsets.\<close>

definition at :: "u64 \<Rightarrow> nat \<Rightarrow> u64" where
  "at p k = p + of_nat k"

lemma at_eq: "j < 2 ^ 64 \<Longrightarrow> k < 2 ^ 64 \<Longrightarrow> at p j = at p k \<longleftrightarrow> j = k"
  by (simp add: at_def word_eq_of_nat unat_of_nat)

lemma at_plus: "at p k + of_nat i = at p (k + i)"
  by (simp add: at_def)

lemma hp_at [simp]:
  "p + HP_MAGIC = at p 0" "p + HP_BLOCK_SIZE = at p 8" "p + HP_BLOCK_COUNT = at p 10" "p + HP_FREE_COUNT = at p 12"
  "p + HP_CLASS_INDEX = at p 14" "p + HP_FREE_LIST = at p 16" "p + HP_NEXT = at p 24" "p + HP_BITMAP = at p 32"
  "p + HP_SIZEOF = at p 48"
  by (simp_all add: at_def hp_offsets)

text \<open>Accesses to disjoint ranges of a page do not interfere.\<close>

definition apart :: "nat \<Rightarrow> nat \<Rightarrow> nat \<Rightarrow> nat \<Rightarrow> bool" where
  "apart k w k' w' \<longleftrightarrow> k + w \<le> 4096 \<and> k' + w' \<le> 4096 \<and> (k + w \<le> k' \<or> k' + w' \<le> k)"

lemma at_apart: "apart k w k' w' \<Longrightarrow> i < w \<Longrightarrow> j < w' \<Longrightarrow> at p k + of_nat i \<noteq> at p k' + of_nat j"
  by (auto simp: at_plus at_eq apart_def)

lemma access_apart:
  "apart k 8 k' 8 \<Longrightarrow> read64 (write64 m (at p k') v) (at p k) = read64 m (at p k)"
  "apart k 8 k' 2 \<Longrightarrow> read64 (write16 m (at p k') u) (at p k) = read64 m (at p k)"
  "apart k 2 k' 8 \<Longrightarrow> read16 (write64 m (at p k') v) (at p k) = read16 m (at p k)"
  "apart k 2 k' 2 \<Longrightarrow> read16 (write16 m (at p k') u) (at p k) = read16 m (at p k)"
  by (rule cell64.rd_local cell16.rd_local, rule cell64.wr_outside cell16.wr_outside, erule (2) at_apart)+

lemma apart_simps [simp]:
  "apart k w k' w' \<longleftrightarrow> k + w \<le> 4096 \<and> k' + w' \<le> 4096 \<and> (k + w \<le> k' \<or> k' + w' \<le> k)"
  by (simp add: apart_def)

lemmas access_simps = access_apart cell64.rd_wr cell16.rd_wr

text \<open>An access within a page changes no other page.\<close>

definition only_page :: "u64 \<Rightarrow> memory \<Rightarrow> memory \<Rightarrow> bool" where
  "only_page p m m' \<longleftrightarrow> (\<forall>b. page_base b \<noteq> p \<longrightarrow> m' b = m b)"

lemma page_base_at:
  assumes "unat p mod 4096 = 0" and "k < 4096"
  shows "page_base (at p k) = p"
  using page_base_add [OF assms(1), of "of_nat k"] assms by (simp add: at_def unat_of_nat page_base_of_aligned)

lemma only_page_write:
  assumes "unat p mod 4096 = 0"
  shows "k + 8 \<le> 4096 \<Longrightarrow> only_page p m (write64 m (at p k) v)"
    and "k + 2 \<le> 4096 \<Longrightarrow> only_page p m (write16 m (at p k) u)"
  using page_base_at [OF assms]
  by (auto simp: only_page_def at_plus intro!: cell64.wr_outside cell16.wr_outside)

lemma only_page_refl [simp]: "only_page p m m"
  by (simp add: only_page_def)

lemma only_page_trans: "only_page p m m1 \<Longrightarrow> only_page p m1 m2 \<Longrightarrow> only_page p m m2"
  by (simp add: only_page_def)

section \<open>Size classes\<close>

definition csz :: "nat \<Rightarrow> nat" where "csz c = 32 * 2 ^ c"
definition cnt :: "nat \<Rightarrow> nat" where "cnt c = 4048 div csz c"
definition blk :: "u64 \<Rightarrow> nat \<Rightarrow> nat \<Rightarrow> u64" where "blk p c i = at p (48 + i * csz c)"

lemma class_cases: "c < 7 \<Longrightarrow> c \<in> {0, 1, 2, 3, 4, 5, 6 :: nat}"
  by auto

lemma class_facts:
  assumes "c < 7"
  shows "heap_class_sizes ! c = of_nat (csz c)" "32 \<le> csz c" "csz c \<le> 2048" "0 < cnt c" "cnt c \<le> 126" "16 dvd csz c"
    "cnt c * csz c \<le> 4048"
  using class_cases [OF assms] by (auto simp: heap_class_sizes_def csz_def cnt_def)

lemma block_end: "c < 7 \<Longrightarrow> i < cnt c \<Longrightarrow> 48 + i * csz c + csz c \<le> 4096"
proof -
  assume c: "c < 7" and "i < cnt c"
  then have "(i + 1) * csz c \<le> cnt c * csz c" by (intro mult_le_mono1) simp
  then show ?thesis using class_facts(7) [OF c] by simp
qed

lemma block_apart:
  assumes "c < 7" "i < cnt c" "j < cnt c" "i \<noteq> j"
  shows "apart (48 + i * csz c) (csz c) (48 + j * csz c) (csz c)"
proof -
  have le: "a * csz c + csz c \<le> b * csz c" if "a < b" for a b
    using mult_le_mono1 [of "a + 1" b "csz c"] that by simp
  have "i * csz c + csz c \<le> j * csz c \<or> j * csz c + csz c \<le> i * csz c"
    using assms(4) le [of i j] le [of j i] by (meson nat_neq_iff)
  then show ?thesis
    unfolding apart_def using block_end [OF assms(1,2)] block_end [OF assms(1,3)] by linarith
qed

lemma block_start: "unat p mod 4096 = 0 \<Longrightarrow> block_area_start p = at p 48"
proof -
  assume p: "unat p mod 4096 = 0"
  have u: "unat (p + 63) = unat p + 63" "unat (p + 48) = unat p + 48"
    using p by (subst unat_add_aligned [of _ 4096]; simp)+
  obtain q where "unat p = 4096 * q" using p by auto
  then have "unat p + 63 = 15 + 16 * (256 * q + 3)" by simp
  then have "(unat p + 63) mod 16 = 15" by (simp only: mod_mult_self2) simp
  then have "unat ((p + 63) AND NOT (mask 4)) = unat (p + 48)" using u by (simp add: unat_and_not_mask)
  moreover have "block_area_start p = (p + 63) AND NOT (mask 4)"
    by (simp add: block_area_start_def align_up_def HEAP_ALIGNMENT_def HP_SIZEOF_def mask_eq_exp_minus_1 add.commute del: hp_at)
  ultimately show ?thesis by (simp add: at_def word_unat_eq_iff)
qed

lemma block_index:
  assumes "c < 7" and "i < cnt c"
  shows "(blk p c i - at p 48) div of_nat (csz c) = of_nat i" and "(blk p c i - at p 48) mod of_nat (csz c) = 0"
    and "unat (of_nat (csz c) :: u64) = csz c" "unat (of_nat i :: u64) = i"
proof -
  have z: "csz c \<le> 2048" "32 \<le> csz c" using class_facts [OF assms(1)] by simp_all
  have i: "i < 126" using class_facts(5) [OF assms(1)] assms(2) by simp
  have "i * csz c \<le> 4096" using block_end [OF assms] by simp
  then have u: "unat (of_nat (i * csz c) :: u64) = i * csz c" by (simp add: unat_of_nat del: of_nat_mult)
  show s: "unat (of_nat (csz c) :: u64) = csz c" "unat (of_nat i :: u64) = i" using z i by (simp_all add: unat_of_nat)
  have e: "blk p c i - at p 48 = of_nat (i * csz c)" by (simp add: blk_def at_def)
  show "(blk p c i - at p 48) div of_nat (csz c) = of_nat i"
    unfolding e using z by (simp add: word_unat_eq_iff unat_div u s del: of_nat_mult)
  show "(blk p c i - at p 48) mod of_nat (csz c) = 0"
    unfolding e by (simp add: word_unat_eq_iff unat_mod u s del: of_nat_mult)
qed

section \<open>A well-formed page\<close>

definition used :: "memory \<Rightarrow> u64 \<Rightarrow> nat \<Rightarrow> bool" where
  "used m p i \<longleftrightarrow> bit (read64 m (at p (32 + 8 * (i div 64)))) (i mod 64)"

fun flist :: "memory \<Rightarrow> u64 \<Rightarrow> u64 list \<Rightarrow> bool" where
  "flist m a [] \<longleftrightarrow> a = 0"
| "flist m a (b # bs) \<longleftrightarrow> a = b \<and> a \<noteq> 0 \<and> flist m (read64 m b) bs"

text \<open>
  \<open>L\<close> lists the indices of the free blocks in the order of the free list: it is what the
  bitmap leaves over, and the counter is its length.
\<close>

definition page_wf :: "memory \<Rightarrow> u64 \<Rightarrow> nat \<Rightarrow> nat list \<Rightarrow> bool" where
  "page_wf m p c L \<longleftrightarrow> p \<noteq> 0 \<and> unat p mod 4096 = 0 \<and> read64 m (at p 0) = HEAP_PAGE_MAGIC \<and>
     read16 m (at p 8) = of_nat (csz c) \<and> read16 m (at p 10) = of_nat (cnt c) \<and> read16 m (at p 12) = of_nat (length L) \<and>
     distinct L \<and> set L = {i. i < cnt c \<and> \<not> used m p i} \<and> flist m (read64 m (at p 16)) (map (blk p c) L)"

lemma page_wfD:
  assumes "page_wf m p c L"
  shows "p \<noteq> 0" "unat p mod 4096 = 0" "read64 m (at p 0) = HEAP_PAGE_MAGIC" "read16 m (at p 8) = of_nat (csz c)"
    "read16 m (at p 10) = of_nat (cnt c)" "read16 m (at p 12) = of_nat (length L)" "distinct L"
    "set L = {i. i < cnt c \<and> \<not> used m p i}" "flist m (read64 m (at p 16)) (map (blk p c) L)"
  using assms unfolding page_wf_def by blast+

lemma at_nonzero: "p \<noteq> 0 \<Longrightarrow> unat p mod 4096 = 0 \<Longrightarrow> k < 4096 \<Longrightarrow> at p k \<noteq> 0"
  using page_base_at [of p k] by (auto simp: page_base_of_aligned)

lemma flist_cong: "(\<And>b. b \<in> set bs \<Longrightarrow> read64 m' b = read64 m b) \<Longrightarrow> flist m' a bs = flist m a bs"
  by (induction bs arbitrary: a) auto

text \<open>What a page's state depends on: its header and the first words of its free blocks.\<close>

lemma page_wf_cong:
  assumes "page_wf m p c L" and "\<And>k. k < 48 \<Longrightarrow> m' (at p k) = m (at p k)"
    and "\<And>i k. i \<in> set L \<Longrightarrow> k < 8 \<Longrightarrow> m' (blk p c i + of_nat k) = m (blk p c i + of_nat k)"
  shows "page_wf m' p c L" and "read64 m' (at p 24) = read64 m (at p 24)" and "i < cnt c \<Longrightarrow> c < 7 \<Longrightarrow> used m' p i = used m p i"
proof -
  have r64: "read64 m' (at p k) = read64 m (at p k)" if "k + 8 \<le> 48" for k
    using that assms(2) by (intro cell64.rd_local) (simp add: at_plus)
  have r16: "read16 m' (at p k) = read16 m (at p k)" if "k + 2 \<le> 48" for k
    using that assms(2) by (intro cell16.rd_local) (simp add: at_plus)
  show "read64 m' (at p 24) = read64 m (at p 24)" by (simp add: r64)
  have u: "used m' p i = used m p i" if "i < 128" for i
    using that r64 [of "32 + 8 * (i div 64)"] by (simp add: used_def) 
  then show "i < cnt c \<Longrightarrow> c < 7 \<Longrightarrow> used m' p i = used m p i" using class_facts(5) [of c] by simp
  have L: "set L = {i. i < cnt c \<and> \<not> used m' p i}"
  proof (cases "cnt c \<le> 128")
    case True
    then show ?thesis using assms(1) u by (auto simp: page_wf_def)
  next
    case False
    have "cnt c \<le> 4048 div 32" unfolding cnt_def csz_def by (intro div_le_mono2) simp_all
    with False show ?thesis by simp
  qed
  have "flist m' (read64 m (at p 16)) (map (blk p c) L) = flist m (read64 m (at p 16)) (map (blk p c) L)"
    using assms(3) by (intro flist_cong) (auto intro!: cell64.rd_local)
  then show "page_wf m' p c L" using assms(1) L by (simp add: page_wf_def r64 r16)
qed

text \<open>The two words of the bitmap.\<close>

lemma bitmap_word_at: "i < 128 \<Longrightarrow> heap_bitmap_word p (of_nat i) = at p (32 + 8 * (i div 64))"
proof -
  assume "i < 128"
  then have "(of_nat i :: u64) div 64 = of_nat (i div 64)" by (simp add: word_unat_eq_iff unat_div unat_of_nat)
  then show ?thesis by (simp add: heap_bitmap_word_def at_def HP_BITMAP_def del: hp_at)
qed

lemma bitmap_test_used: "i < 128 \<Longrightarrow> heap_bitmap_test p (of_nat i) s = used (mem s) p i"
  by (simp add: heap_bitmap_test_def bitmap_word_at used_def load64_def and_exp_eq_0_iff_not_bit unat_mod unat_of_nat)

lemma used_write:
  assumes "i < 128" "j < 128"
  shows "used (write64 m (at p (32 + 8 * (i div 64))) (read64 m (at p (32 + 8 * (i div 64))) OR push_bit (i mod 64) 1)) p j \<longleftrightarrow> j = i \<or> used m p j"
    and "used (write64 m (at p (32 + 8 * (i div 64))) (read64 m (at p (32 + 8 * (i div 64))) AND NOT (push_bit (i mod 64) 1))) p j \<longleftrightarrow> j \<noteq> i \<and> used m p j"
proof -
  have ji: "j = i \<longleftrightarrow> j div 64 = i div 64 \<and> j mod 64 = i mod 64" by (metis div_mult_mod_eq)
  have d: "i div 64 \<le> 1" "j div 64 \<le> 1" using assms by auto
  have ap: "apart (32 + 8 * (j div 64)) 8 (32 + 8 * (i div 64)) 8" if "j div 64 \<noteq> i div 64"
    using that d by (auto simp: less_Suc_eq_le)
  show "used (write64 m (at p (32 + 8 * (i div 64))) (read64 m (at p (32 + 8 * (i div 64))) OR push_bit (i mod 64) 1)) p j \<longleftrightarrow> j = i \<or> used m p j"
    unfolding used_def ji by (cases "j div 64 = i div 64")
      (auto simp: access_apart(1) [OF ap] cell64.rd_wr bit_simps simp del: apart_simps)
  show "used (write64 m (at p (32 + 8 * (i div 64))) (read64 m (at p (32 + 8 * (i div 64))) AND NOT (push_bit (i mod 64) 1))) p j \<longleftrightarrow> j \<noteq> i \<and> used m p j"
    unfolding used_def ji by (cases "j div 64 = i div 64")
      (auto simp: access_apart(1) [OF ap] cell64.rd_wr bit_simps simp del: apart_simps)
qed

lemma byte_outside:
  assumes "k < 4096"
  shows "o' + 8 \<le> 4096 \<Longrightarrow> k < o' \<or> o' + 8 \<le> k \<Longrightarrow> write64 m (at p o') v (at p k) = m (at p k)"
    and "o' + 2 \<le> 4096 \<Longrightarrow> k < o' \<or> o' + 2 \<le> k \<Longrightarrow> write16 m (at p o') u (at p k) = m (at p k)"
  using assms by (auto intro!: cell64.wr_outside cell16.wr_outside simp: at_plus at_eq)

lemma unat_ucast16:
  fixes u :: u16 and w :: u64
  shows "unat (ucast u :: u64) = unat u" and "unat (ucast w :: u16) = unat w mod 65536"
proof -
  have "unat u < 2 ^ 64" using unsigned_less [of u, where 'a = nat] by simp
  then show "unat (ucast u :: u64) = unat u" by (simp add: unsigned_ucast_eq take_bit_nat_eq_self)
  show "unat (ucast w :: u16) = unat w mod 65536" by (simp add: unsigned_ucast_eq take_bit_eq_mod)
qed

section \<open>Taking a block\<close>

text \<open>What a change of page \<open>p\<close> leaves alone: other pages, the chain, the blocks outside \<open>F\<close>.\<close>

definition page_step :: "u64 \<Rightarrow> nat \<Rightarrow> nat set \<Rightarrow> memory \<Rightarrow> memory \<Rightarrow> bool" where
  "page_step p c F m m' \<longleftrightarrow> only_page p m m' \<and> read64 m' (at p 24) = read64 m (at p 24) \<and>
     (\<forall>i<cnt c. i \<notin> F \<longrightarrow> (\<forall>k<csz c. m' (blk p c i + of_nat k) = m (blk p c i + of_nat k)))"

lemma blk_byte: "blk p c i + of_nat k = at p (48 + i * csz c + k)"
  by (simp only: blk_def at_plus)

lemma alloc_block_ok:
  fixes s :: "'a heap_scheme"
  assumes wf: "page_wf (mem s) p c (i # L)" and c: "c < 7"
  shows "\<exists>m'. heap_alloc_block p s = Inr (blk p c i, s\<lparr>mem := m',
      heap_free_blocks_bytes := heap_free_blocks_bytes s - of_nat (csz c),
      heap_allocated_blocks_bytes := heap_allocated_blocks_bytes s + of_nat (csz c)\<rparr>) \<and>
    page_wf m' p c L \<and> page_step p c {} (mem s) m' \<and> (\<forall>j<cnt c. used m' p j \<longleftrightarrow> j = i \<or> used (mem s) p j)"
proof -
  let ?m = "mem s"
  let ?w = "32 + 8 * (i div 64)"
  define m1 where "m1 = write64 ?m (at p 16) (read64 ?m (blk p c i))"
  define m2 where "m2 = write64 m1 (at p ?w) (read64 m1 (at p ?w) OR push_bit (i mod 64) 1)"
  define m3 where "m3 = write16 m2 (at p 12) (read16 m2 (at p 12) - 1)"
  note f = class_facts [OF c]
  have p: "unat p mod 4096 = 0" and free: "set (i # L) = {j. j < cnt c \<and> \<not> used ?m p j}"
    and fl0: "flist ?m (read64 ?m (at p 16)) (map (blk p c) (i # L))" and di: "distinct (i # L)"
    using wf by (simp_all only: page_wf_def)
  have fl: "read64 ?m (at p 16) = blk p c i" "blk p c i \<noteq> 0" "flist ?m (read64 ?m (blk p c i)) (map (blk p c) L)"
    using fl0 by auto
  have "i \<in> {j. j < cnt c \<and> \<not> used ?m p j}" unfolding free [symmetric] by simp
  then have i: "i < cnt c" "\<not> used ?m p i" "i \<notin> set L" "distinct L" using di by simp_all
  have L: "j < cnt c" if "j \<in> set L" for j
  proof -
    have "j \<in> {j. j < cnt c \<and> \<not> used ?m p j}" unfolding free [symmetric] using that by simp
    then show ?thesis by simp
  qed
  have i128: "i < 128" "i div 64 \<le> 1" using i(1) f(5) by auto
  have len: "length L < 126"
  proof -
    have "card (set (i # L)) \<le> card {..<cnt c}" unfolding free by (intro card_mono) auto
    then show ?thesis using di f(5) distinct_card [OF di] by simp
  qed
  have wa: "?w + 8 \<le> 48" using i128(2) by simp
  have c1: "read16 m1 (at p k) = read16 ?m (at p k)" if "k \<le> 14" for k
    using that by (simp add: m1_def access_apart)
  have u1: "used m1 p j = used ?m p j" if "j < 128" for j
    using that by (simp add: used_def m1_def access_apart)
  have c2: "read16 m2 (at p k) = read16 ?m (at p k)" if "k \<le> 14" for k
    using that c1 [OF that] wa by (simp add: m2_def access_apart)
  have free0: "read16 ?m (at p 12) = of_nat (Suc (length L))" using wf by (simp add: page_wf_def)
  have nz: "(ucast (of_nat (Suc (length L)) :: u16) :: u64) \<noteq> 0"
    using len by (simp add: word_unat_eq_iff unat_ucast16 unat_of_nat del: of_nat_Suc)
  have dec: "(ucast ((ucast (of_nat (Suc (length L)) :: u16) :: u64) - 1) :: u16) = of_nat (Suc (length L)) - 1"
    using len by (simp add: word_unat_eq_iff unat_ucast16 unat_of_nat unat_sub_if' word_le_nat_alt del: of_nat_Suc)
  have bs: "(ucast (read16 ?m (at p 8)) :: u64) = of_nat (csz c)" "(ucast (read16 ?m (at p 10)) :: u64) = of_nat (cnt c)"
    using wf f(3,5) by (simp_all add: page_wf_def word_unat_eq_iff unat_ucast16 unat_of_nat)
  have lt: "(of_nat i :: u64) < of_nat (cnt c)" using i(1) f(5) by (simp add: word_less_nat_alt unat_of_nat)
  have run: "heap_alloc_block p s = Inr (blk p c i, s\<lparr>mem := m3,
      heap_free_blocks_bytes := heap_free_blocks_bytes s - of_nat (csz c),
      heap_allocated_blocks_bytes := heap_allocated_blocks_bytes s + of_nat (csz c)\<rparr>)"
  proof -
    have b: "heap_bitmap_test p (of_nat i) (s\<lparr>mem := m1\<rparr>) = False"
      using i(2) by (simp add: bitmap_test_used i128 u1)
    have m8: "read16 m3 (at p 8) = read16 ?m (at p 8)" using c2 by (simp add: m3_def access_apart)
    have m: "heap_bitmap_set p (of_nat i) (s\<lparr>mem := m1\<rparr>) = s\<lparr>mem := m2\<rparr>"
      using i128 by (simp add: heap_bitmap_set_def bitmap_word_at m2_def load64_def store64_def unat_mod unat_of_nat Let_def)
    have s16: "store16 (at p 12) (load16 (at p 12) (s\<lparr>mem := m2\<rparr>) - 1) (s\<lparr>mem := m2\<rparr>) = s\<lparr>mem := m3\<rparr>"
      by (simp add: store16_def load16_def m3_def c2 free0 dec del: of_nat_Suc)
    have l: "load16 (at p 8) (s\<lparr>mem := m1\<rparr>) = of_nat (csz c)" "load16 (at p 10) (s\<lparr>mem := m1\<rparr>) = of_nat (cnt c)"
        "load64 (at p 16) s = blk p c i" "load16 (at p 12) s \<noteq> 0"
        "store64 (at p 16) (load64 (blk p c i) s) s = s\<lparr>mem := m1\<rparr>"
      using c1 bs fl(1) nz by (simp_all add: load16_def load64_def store64_def m1_def free0 del: of_nat_Suc)
    have g1: "\<not> (load64 (at p 16) s = 0 \<or> load16 (at p 12) s = 0)" using fl(2) l by simp
    have g2: "\<not> (of_nat (cnt c) \<le> (of_nat i :: u64) \<or> heap_bitmap_test p (of_nat i) (s\<lparr>mem := m1\<rparr>))"
      using lt b by (simp only: not_le simp_thms)
    have "heap_alloc_block p s = Inr (blk p c i, s\<lparr>mem := m3,
        heap_free_blocks_bytes := heap_free_blocks_bytes s - load16 (at p 8) (s\<lparr>mem := m3\<rparr>),
        heap_allocated_blocks_bytes := heap_allocated_blocks_bytes s + load16 (at p 8) (s\<lparr>mem := m3\<rparr>)\<rparr>)"
      unfolding heap_alloc_block_def hp_at if_not_P [OF g1]
      unfolding Let_def l(1-3) l(5) block_start [OF p]
        block_index(1) [OF c i(1), of p] if_not_P [OF g2] m s16
      by (simp add: load16_def)
    then show ?thesis by (simp add: load16_def m8 bs)
  qed
  have hdr: "m3 (at p k) = ?m (at p k)" if "48 \<le> k" "k < 4096" for k
    using that wa by (simp add: m3_def m2_def m1_def byte_outside)
  have only: "only_page p ?m m3"
    unfolding m3_def m2_def m1_def
    by (rule only_page_trans [OF only_page_trans [OF only_page_write(1) [OF p] only_page_write(1) [OF p]] only_page_write(2) [OF p]])
      (use wa in simp_all)
  have rd: "read64 m3 (at p 0) = read64 ?m (at p 0)" "read64 m3 (at p 24) = read64 ?m (at p 24)"
    "read64 m3 (at p 16) = read64 ?m (blk p c i)"
    "read16 m3 (at p 8) = read16 ?m (at p 8)" "read16 m3 (at p 10) = read16 ?m (at p 10)"
    "read16 m3 (at p 12) = of_nat (length L)"
    using wa c2 by (simp_all add: m3_def m2_def m1_def access_simps) (simp_all add: c2 free0 [symmetric] m2_def m1_def access_simps free0)
  have u: "used m3 p j \<longleftrightarrow> j = i \<or> used ?m p j" if "j < 128" for j
  proof -
    have "used m3 p j = used m2 p j" using that by (simp add: used_def m3_def access_apart)
    then show ?thesis using used_write(1) [OF i128(1) that, of m1 p] u1 [OF that] by (simp add: m2_def)
  qed
  have fl3: "flist m3 (read64 m3 (at p 16)) (map (blk p c) L)"
  proof -
    have "read64 m3 (blk p c j) = read64 ?m (blk p c j)" if "j \<in> set L" for j
    proof -
      have "48 + j * csz c + csz c \<le> 4096" by (rule block_end [OF c L [OF that]])
      then show ?thesis using f(2) by (intro cell64.rd_local) (simp only: blk_byte, intro hdr, simp_all)
    qed
    then have "flist m3 a (map (blk p c) L) = flist ?m a (map (blk p c) L)" for a by (intro flist_cong) auto
    then show ?thesis using fl(3) rd(3) by simp
  qed
  have "set L = {j. j < cnt c \<and> \<not> used m3 p j}"
  proof (rule set_eqI)
    fix j
    have "j \<in> set L \<longleftrightarrow> j \<in> set (i # L) \<and> j \<noteq> i" using i(3) by auto
    also have "\<dots> \<longleftrightarrow> j < cnt c \<and> \<not> used ?m p j \<and> j \<noteq> i" unfolding free by auto
    finally show "j \<in> set L \<longleftrightarrow> j \<in> {j. j < cnt c \<and> \<not> used m3 p j}" using u f(5) by auto
  qed
  then have "page_wf m3 p c L" using wf rd fl3 i(4) by (simp add: page_wf_def)
  moreover have "page_step p c {} ?m m3"
    unfolding page_step_def using only rd(2) block_end [OF c] f(2)
    by (auto simp: blk_byte intro!: hdr) (meson add_strict_left_mono le_trans less_le_trans)
  ultimately show ?thesis using run u f(5) by (intro exI [of _ m3]) auto
qed

section \<open>Giving a block back\<close>

text \<open>The memory after the checks of \<open>kfree\<close> have passed.\<close>

definition freed :: "memory \<Rightarrow> u64 \<Rightarrow> nat \<Rightarrow> nat \<Rightarrow> memory" where
  "freed m p c i =
     (let w = at p (32 + 8 * (i div 64));
          m = write64 m w (read64 m w AND NOT (push_bit (i mod 64) 1));
          m = write64 m (blk p c i) (read64 m (at p 16));
          m = write64 m (at p 16) (blk p c i)
      in write16 m (at p 12) (read16 m (at p 12) + 1))"

lemma freed_ok:
  assumes wf: "page_wf m p c L" and c: "c < 7" and i: "i < cnt c" "used m p i"
  shows "page_wf (freed m p c i) p c (i # L)" and "page_step p c {i} m (freed m p c i)"
    and "j < cnt c \<Longrightarrow> used (freed m p c i) p j \<longleftrightarrow> j \<noteq> i \<and> used m p j"
proof -
  let ?w = "32 + 8 * (i div 64)" and ?b = "48 + i * csz c"
  define m1 where "m1 = write64 m (at p ?w) (read64 m (at p ?w) AND NOT (push_bit (i mod 64) 1))"
  define m2 where "m2 = write64 m1 (at p ?b) (read64 m1 (at p 16))"
  define m3 where "m3 = write64 m2 (at p 16) (at p ?b)"
  define m4 where "m4 = write16 m3 (at p 12) (read16 m3 (at p 12) + 1)"
  have e: "freed m p c i = m4" by (simp add: freed_def m4_def m3_def m2_def m1_def Let_def blk_def)
  note f = class_facts [OF c]
  note p = page_wfD(1,2) [OF wf] and free = page_wfD(8) [OF wf] and fl0 = page_wfD(9) [OF wf] and hd = page_wfD(3-7) [OF wf]
  have L: "j < cnt c \<and> j \<noteq> i" if "j \<in> set L" for j using that i unfolding free by auto
  have i128: "i < 128" "i div 64 \<le> 1" using i(1) f(5) by auto
  have wa: "?w + 8 \<le> 48" using i128(2) by simp
  have b: "?b + csz c \<le> 4096" "?b + 8 \<le> 4096" using block_end [OF c i(1)] f(2) by simp_all
  have rd: "read64 m4 (at p 0) = read64 m (at p 0)" "read64 m4 (at p 24) = read64 m (at p 24)"
    "read64 m4 (at p 16) = at p ?b" "read64 m4 (at p ?b) = read64 m (at p 16)"
    "read16 m4 (at p 8) = read16 m (at p 8)" "read16 m4 (at p 10) = read16 m (at p 10)"
    "read16 m4 (at p 12) = read16 m (at p 12) + 1"
    using wa b(2) unfolding m4_def m3_def m2_def m1_def by (simp_all add: access_simps)
  have u: "used m4 p j \<longleftrightarrow> j \<noteq> i \<and> used m p j" if "j < 128" for j
  proof -
    have "32 + 8 * (j div 64) + 8 \<le> 48" using that by auto
    then have "used m4 p j = used m1 p j" using b(2) by (simp add: used_def m4_def m3_def m2_def access_apart)
    then show ?thesis using used_write(2) [OF i128(1) that, of m p] by (simp add: m1_def)
  qed
  have only: "only_page p m m4"
    unfolding m4_def m3_def m2_def m1_def
    by (rule only_page_trans [OF only_page_trans [OF only_page_trans [OF only_page_write(1) [OF p(2)] only_page_write(1) [OF p(2)]]
          only_page_write(1) [OF p(2)]] only_page_write(2) [OF p(2)]]) (use wa b(2) in simp_all)
  have blocks: "m4 (at p k) = m (at p k)" if "48 \<le> k" "k < 4096" "k < ?b \<or> ?b + 8 \<le> k" for k
    using that wa b(2) by (simp add: m4_def m3_def m2_def m1_def byte_outside)
  have other: "m4 (blk p c j + of_nat k) = m (blk p c j + of_nat k)" if "j < cnt c" "j \<noteq> i" "k < csz c" for j k
  proof -
    have "apart (48 + j * csz c) (csz c) ?b (csz c)" by (rule block_apart [OF c that(1) i(1) that(2)])
    then show ?thesis
      unfolding blk_byte using that(3) f(2) by (intro blocks) (simp_all only: apart_def, linarith+)
  qed
  have "flist m4 a (map (blk p c) L) = flist m a (map (blk p c) L)" for a
    using L f(2) by (intro flist_cong) (auto intro!: cell64.rd_local other)
  then have "flist m4 (read64 m4 (at p 16)) (map (blk p c) (i # L))"
    using fl0 rd(3,4) at_nonzero [OF p, of ?b] b(2) by (simp add: blk_def)
  moreover have "set (i # L) = {j. j < cnt c \<and> \<not> used m4 p j}"
  proof (rule set_eqI)
    fix j
    show "j \<in> set (i # L) \<longleftrightarrow> j \<in> {j. j < cnt c \<and> \<not> used m4 p j}" using u f(5) free i(1) by auto
  qed
  moreover have "distinct (i # L)" using L hd(5) by auto
  ultimately show "page_wf (freed m p c i) p c (i # L)"
    unfolding e page_wf_def using p hd rd at_nonzero [OF p, of ?b] b(2) by (simp add: blk_def)
  show "page_step p c {i} m (freed m p c i)"
    unfolding e page_step_def using only rd(2) other by auto
  show "j < cnt c \<Longrightarrow> used (freed m p c i) p j \<longleftrightarrow> j \<noteq> i \<and> used m p j" unfolding e using u f(5) by simp
qed

section \<open>A new page\<close>

lemma link_ok:
  fixes s :: "'a hw_scheme"
  assumes p: "p \<noteq> 0" "unat p mod 4096 = 0" and c: "c < 7" and z: "read64 (mem s) (at p 16) = 0" and n: "n \<le> cnt c"
  shows "\<exists>m'. link_blocks p (at p 48) (of_nat (csz c)) n s = s\<lparr>mem := m'\<rparr> \<and> only_page p (mem s) m' \<and>
    flist m' (read64 m' (at p 16)) (map (blk p c) (rev [0..<n])) \<and>
    (\<forall>k<48. k < 16 \<or> 24 \<le> k \<longrightarrow> m' (at p k) = mem s (at p k))"
  using n
proof (induction n)
  case 0
  then show ?case using z by (intro exI [of _ "mem s"]) simp
next
  case (Suc n)
  let ?b = "48 + n * csz c"
  obtain m where m: "link_blocks p (at p 48) (of_nat (csz c)) n s = s\<lparr>mem := m\<rparr>" "only_page p (mem s) m"
    "flist m (read64 m (at p 16)) (map (blk p c) (rev [0..<n]))"
    "\<forall>k<48. k < 16 \<or> 24 \<le> k \<longrightarrow> m (at p k) = mem s (at p k)"
    using Suc by auto
  define m1 where "m1 = write64 m (at p ?b) (read64 m (at p 16))"
  define m2 where "m2 = write64 m1 (at p 16) (at p ?b)"
  have lt: "n < cnt c" using Suc.prems by simp
  have b: "?b + 8 \<le> 4096" using block_end [OF c lt] class_facts(2) [OF c] by simp
  have blk: "at p 48 + of_nat n * of_nat (csz c) = at p ?b" by (simp add: at_def)
  have run: "link_blocks p (at p 48) (of_nat (csz c)) (Suc n) s = s\<lparr>mem := m2\<rparr>"
    using m(1) by (simp add: Let_def store64_def load64_def blk m1_def m2_def)
  have only: "only_page p (mem s) m2"
    unfolding m2_def m1_def
    by (rule only_page_trans [OF only_page_trans [OF m(2) only_page_write(1) [OF p(2)]] only_page_write(1) [OF p(2)]])
      (use b in simp_all)
  have rd: "read64 m2 (at p 16) = at p ?b" "read64 m2 (at p ?b) = read64 m (at p 16)"
    using b by (simp_all add: m2_def m1_def access_simps)
  have "read64 m2 (blk p c j) = read64 m (blk p c j)" if j: "j < n" for j
  proof -
    have "apart (48 + j * csz c) (csz c) ?b (csz c)" by (rule block_apart [OF c _ lt]) (use j lt in simp_all)
    then have a: "apart (48 + j * csz c) 8 ?b 8" "apart (48 + j * csz c) 8 16 8"
      using class_facts(2) [OF c] by (auto simp only: apart_def)
    show ?thesis unfolding m2_def m1_def blk_def by (simp only: access_apart(1) [OF a(1)] access_apart(1) [OF a(2)])
  qed
  then have "flist m2 a (map (blk p c) (rev [0..<n])) = flist m a (map (blk p c) (rev [0..<n]))" for a
    by (intro flist_cong) auto
  then have "flist m2 (read64 m2 (at p 16)) (map (blk p c) (rev [0..<Suc n]))"
    using m(3) rd at_nonzero [OF p, of ?b] b by (simp add: blk_def)
  moreover have "\<forall>k<48. k < 16 \<or> 24 \<le> k \<longrightarrow> m2 (at p k) = mem s (at p k)"
    using m(4) b by (auto simp: m2_def m1_def byte_outside)
  ultimately show ?case using run only by blast
qed

lemma clear_words_ok:
  assumes "unat p mod 4096 = 0" and "k + 8 * n \<le> 4096"
  shows "\<exists>m'. clear_words (at p k) n s = s\<lparr>mem := m'\<rparr> \<and> only_page p (mem s) m' \<and>
    (\<forall>j<4096. j < k \<longrightarrow> m' (at p j) = mem s (at p j)) \<and> (\<forall>i<n. read64 m' (at p (k + 8 * i)) = 0)"
  using assms(2)
proof (induction n)
  case 0
  then show ?case by (intro exI [of _ "mem s"]) simp
next
  case (Suc n)
  then obtain m where m: "clear_words (at p k) n s = s\<lparr>mem := m\<rparr>" "only_page p (mem s) m"
    "\<forall>j<4096. j < k \<longrightarrow> m (at p j) = mem s (at p j)" "\<forall>i<n. read64 m (at p (k + 8 * i)) = 0"
    by auto
  have a: "at p k + 8 * of_nat n = at p (k + 8 * n)" by (simp add: at_def)
  let ?m = "write64 m (at p (k + 8 * n)) 0"
  have "read64 ?m (at p (k + 8 * i)) = 0" if "i < Suc n" for i
    using that m(4) Suc.prems by (cases "i = n") (simp_all add: access_simps)
  moreover have "only_page p (mem s) ?m"
    by (rule only_page_trans [OF m(2) only_page_write(1) [OF assms(1)]]) (use Suc.prems in simp)
  ultimately show ?case
    using m(1,3) Suc.prems a by (intro exI [of _ ?m]) (auto simp: store64_def byte_outside)
qed

lemma grow_ok:
  fixes s :: "'a heap_scheme"
  assumes al: "page_alloc s = Inr (p, s1)" and p: "p \<noteq> 0" "unat p mod 4096 = 0" and c: "c < 7" and inv: "pages_inv s"
    and pool: "hp_block_size (heap_pools s ! c) = of_nat (csz c)"
  shows "\<exists>m'. heap_grow_pool c s = Inr (p, s1\<lparr>mem := m',
      heap_pools := (heap_pools s)[c := (heap_pools s ! c)\<lparr>hp_pages := p\<rparr>], heap_pages := heap_pages s + 1,
      heap_free_blocks_bytes := heap_free_blocks_bytes s + of_nat (cnt c * csz c)\<rparr>) \<and>
    page_wf m' p c (rev [0..<cnt c]) \<and> only_page p (mem s) m' \<and> read64 m' (at p 24) = hp_pages (heap_pools s ! c) \<and>
    (\<forall>j<cnt c. \<not> used m' p j)"
proof -
  note f = class_facts [OF c]
  obtain bm fp hint where s1: "s1 = s\<lparr>page_bitmap := bm, free_pages := fp, next_free_hint := hint\<rparr>"
    using page_alloc_frame [OF inv al] by auto
  let ?bs = "of_nat (csz c) :: u64" and ?n = "of_nat (cnt c) :: u64"
  have count: "(p + PAGE_SIZE - at p 48) div ?bs = ?n"
  proof -
    have "p + PAGE_SIZE - at p 48 = 4048" by (simp add: at_def PAGE_SIZE_def)
    then show ?thesis using f(3,5) by (simp add: word_unat_eq_iff unat_div unat_of_nat cnt_def)
  qed
  have g: "\<not> (?n = 0 \<or> ?n > PAGE_SIZE div HEAP_MIN_CLASS)"
    using f(4,5) by (simp add: word_unat_eq_iff word_less_nat_alt unat_div unat_of_nat PAGE_SIZE_def HEAP_MIN_CLASS_def)
  define m0 where "m0 = write16 (write16 (write16 (write16 (write64 (mem s) (at p 0) HEAP_PAGE_MAGIC) (at p 8) (of_nat (csz c)))
      (at p 10) (of_nat (cnt c))) (at p 12) (of_nat (cnt c))) (at p 14) (of_nat c)"
  define m1 where "m1 = write64 (write64 m0 (at p 16) 0) (at p 24) (hp_pages (heap_pools s ! c))"
  have only1: "only_page p (mem s) m1"
    unfolding m1_def m0_def
    by (rule only_page_trans [OF only_page_trans [OF only_page_trans [OF only_page_trans [OF only_page_trans
        [OF only_page_trans [OF only_page_write(1) [OF p(2)] only_page_write(2) [OF p(2)]] only_page_write(2) [OF p(2)]]
        only_page_write(2) [OF p(2)]] only_page_write(2) [OF p(2)]] only_page_write(1) [OF p(2)]] only_page_write(1) [OF p(2)]]) simp_all
  have r1: "read64 m1 (at p 0) = HEAP_PAGE_MAGIC" "read16 m1 (at p 8) = of_nat (csz c)" "read16 m1 (at p 10) = of_nat (cnt c)"
    "read16 m1 (at p 12) = of_nat (cnt c)" "read64 m1 (at p 16) = 0" "read64 m1 (at p 24) = hp_pages (heap_pools s ! c)"
    by (simp_all add: m1_def m0_def access_simps)
  let ?s1 = "s1\<lparr>mem := m1\<rparr>"
  obtain m2 where m2: "clear_words (at p 32) 2 ?s1 = s1\<lparr>mem := m2\<rparr>" "only_page p m1 m2"
    "\<And>j. j < 32 \<Longrightarrow> m2 (at p j) = m1 (at p j)" "\<And>i. i < 2 \<Longrightarrow> read64 m2 (at p (32 + 8 * i)) = 0"
    using clear_words_ok [OF p(2), of 32 2 ?s1] by auto
  have r2: "read64 m2 (at p k) = read64 m1 (at p k)" if "k + 8 \<le> 32" for k
    using that m2(3) by (intro cell64.rd_local) (simp add: at_plus)
  obtain m3 where m3: "link_blocks p (at p 48) ?bs (cnt c) (s1\<lparr>mem := m2\<rparr>) = s1\<lparr>mem := m3\<rparr>" "only_page p m2 m3"
    "flist m3 (read64 m3 (at p 16)) (map (blk p c) (rev [0..<cnt c]))"
    "\<And>k. k < 48 \<Longrightarrow> k < 16 \<or> 24 \<le> k \<Longrightarrow> m3 (at p k) = m2 (at p k)"
    using link_ok [OF p c, of "s1\<lparr>mem := m2\<rparr>" "cnt c"] r1(5) r2 [of 16] by auto
  have r3: "read64 m3 (at p 0) = HEAP_PAGE_MAGIC" "read64 m3 (at p 24) = hp_pages (heap_pools s ! c)"
    "read16 m3 (at p k) = read16 m1 (at p k)" "j < 2 \<Longrightarrow> read64 m3 (at p (32 + 8 * j)) = 0" if "k \<le> 12" for k j
  proof -
    have e64: "read64 m3 (at p k) = read64 m2 (at p k)" if "k + 8 \<le> 16 \<or> 24 \<le> k" "k + 8 \<le> 48" for k
      using that m3(4) by (intro cell64.rd_local) (auto simp: at_plus)
    show "read64 m3 (at p 0) = HEAP_PAGE_MAGIC" "read64 m3 (at p 24) = hp_pages (heap_pools s ! c)"
      "j < 2 \<Longrightarrow> read64 m3 (at p (32 + 8 * j)) = 0"
      using r1 r2 m2(4) by (simp_all add: e64)
    show "read16 m3 (at p k) = read16 m1 (at p k)"
      using that m3(4) m2(3) by (intro cell16.rd_local) (simp add: at_plus)
  qed
  have nu: "\<not> used m3 p j" if "j < cnt c" for j
    using that f(5) r3(4) [of 0 "j div 64"] by (simp add: used_def)
  then have "set (rev [0..<cnt c]) = {i. i < cnt c \<and> \<not> used m3 p i}" by auto
  then have wf: "page_wf m3 p c (rev [0..<cnt c])"
    using p r3(1,3) [of 8] r3(3) [of 10] r3(3) [of 12] r1 m3(3) by (simp add: page_wf_def)
  have u16: "(ucast ?bs :: u16) = of_nat (csz c)" "(ucast ?n :: u16) = of_nat (cnt c)" "(ucast (of_nat c :: u64) :: u16) = of_nat c"
    using f(3,5) c by (simp_all add: word_unat_eq_iff unat_ucast16 unat_of_nat)
  have st: "mem s1 = mem s" "heap_pools s1 = heap_pools s" "heap_pages s1 = heap_pages s"
    "heap_free_blocks_bytes s1 = heap_free_blocks_bytes s" by (simp_all add: s1)
  have w2: "HEAP_BITMAP_WORDS = 2" by (simp add: HEAP_BITMAP_WORDS_def PAGE_SIZE_def HEAP_MIN_CLASS_def)
  have un: "unat ?n = cnt c" using f(5) by (simp add: unat_of_nat)
  have "heap_grow_pool c s = Inr (p, s1\<lparr>mem := m3,
      heap_pools := (heap_pools s)[c := (heap_pools s ! c)\<lparr>hp_pages := p\<rparr>], heap_pages := heap_pages s + 1,
      heap_free_blocks_bytes := heap_free_blocks_bytes s + ?n * ?bs\<rparr>)"
    unfolding heap_grow_pool_def al bindE_Inr prod.case if_not_P [OF p(1)] Let_def hp_at block_start [OF p(2)]
      st pool count if_not_P [OF g] w2 un
    using m2(1) m3(1) by (simp add: store64_def store16_def u16 st m1_def m0_def)
  then show ?thesis
    using wf only_page_trans [OF only_page_trans [OF only1 m2(2)] m3(2)] r3(2) [of 0] nu by (intro exI [of _ m3]) simp
qed

end
