(* ===== verification/Heap_Spec.thy ===== *)
theory Heap_Spec
  imports Heap_Pages
begin

text \<open>
  The heap as a whole: the chains of pages, the blocks handed out, and what \<open>kmalloc\<close>,
  \<open>kzalloc\<close> and \<open>kfree\<close> do to them.
\<close>

section \<open>The invariant\<close>

fun plist :: "memory \<Rightarrow> u64 \<Rightarrow> u64 list \<Rightarrow> bool" where
  "plist m a [] \<longleftrightarrow> a = 0"
| "plist m a (p # ps) \<longleftrightarrow> a = p \<and> a \<noteq> 0 \<and> plist m (read64 m (at p 24)) ps"

text \<open>
  \<open>ps c\<close> is the chain of class \<open>c\<close>. A block is named by its class, its page and its
  index, and seen from outside by its address and size.
\<close>

definition heap_frames :: "(nat \<Rightarrow> u64 list) \<Rightarrow> u64 set" where
  "heap_frames ps = (\<Union>c<7. set (ps c))"

definition chains_ok :: "(nat \<Rightarrow> u64 list) \<Rightarrow> heap_pool list \<Rightarrow> memory \<Rightarrow> bool" where
  "chains_ok ps pools m \<longleftrightarrow> length pools = 7 \<and>
     (\<forall>c<7. hp_block_size (pools ! c) = of_nat (csz c) \<and> plist m (hp_pages (pools ! c)) (ps c) \<and>
        distinct (ps c) \<and> (\<forall>p\<in>set (ps c). \<exists>L. page_wf m p c L)) \<and>
     (\<forall>c<7. \<forall>d<7. c \<noteq> d \<longrightarrow> set (ps c) \<inter> set (ps d) = {})"

definition cells :: "(nat \<Rightarrow> u64 list) \<Rightarrow> (nat \<times> u64 \<times> nat) set" where
  "cells ps = {(c, p, i). c < 7 \<and> p \<in> set (ps c) \<and> i < cnt c}"

definition used_cells :: "(nat \<Rightarrow> u64 list) \<Rightarrow> memory \<Rightarrow> (nat \<times> u64 \<times> nat) set" where
  "used_cells ps m = {(c, p, i) \<in> cells ps. used m p i}"

definition cell_bytes :: "(nat \<times> u64 \<times> nat) set \<Rightarrow> nat" where
  "cell_bytes A = (\<Sum>x\<in>A. csz (fst x))"

definition heap_inv :: "(nat \<Rightarrow> u64 list) \<Rightarrow> 'a heap_scheme \<Rightarrow> bool" where
  "heap_inv ps s \<longleftrightarrow> pages_inv s \<and> heap_initialized s \<and> chains_ok ps (heap_pools s) (mem s) \<and>
     heap_frames ps \<subseteq> allocated s \<and> heap_pages s = of_nat (card (heap_frames ps)) \<and>
     heap_allocated_blocks_bytes s = of_nat (cell_bytes (used_cells ps (mem s))) \<and>
     heap_free_blocks_bytes s = of_nat (cell_bytes (cells ps - used_cells ps (mem s)))"

definition live :: "(nat \<Rightarrow> u64 list) \<Rightarrow> memory \<Rightarrow> (u64 \<times> nat) set" where
  "live ps m = (\<lambda>(c, p, i). (blk p c i, csz c)) ` used_cells ps m"

section \<open>Consequences of the shape\<close>

lemma cells_finite [simp]: "finite (cells ps)"
proof -
  have "cells ps \<subseteq> {..<7} \<times> (\<Union>c<7. set (ps c)) \<times> {..<126}" using class_facts(5) by (fastforce simp: cells_def)
  then show ?thesis by (rule finite_subset) auto
qed

lemma used_cells_finite [simp]: "finite (used_cells ps m)"
  by (rule finite_subset [of _ "cells ps"]) (auto simp: used_cells_def)

lemma chainsD:
  assumes "chains_ok ps pools m" and "c < 7"
  shows "hp_block_size (pools ! c) = of_nat (csz c)" "plist m (hp_pages (pools ! c)) (ps c)" "distinct (ps c)"
    "p \<in> set (ps c) \<Longrightarrow> \<exists>L. page_wf m p c L" "p \<in> set (ps c) \<Longrightarrow> p \<noteq> 0 \<and> unat p mod 4096 = 0"
    "p \<in> set (ps c) \<Longrightarrow> d < 7 \<Longrightarrow> p \<in> set (ps d) \<Longrightarrow> d = c" "length pools = 7"
proof -
  show "hp_block_size (pools ! c) = of_nat (csz c)" "plist m (hp_pages (pools ! c)) (ps c)" "distinct (ps c)" "length pools = 7"
    and w: "p \<in> set (ps c) \<Longrightarrow> \<exists>L. page_wf m p c L"
    using assms by (simp_all add: chains_ok_def)
  show "p \<in> set (ps c) \<Longrightarrow> p \<noteq> 0 \<and> unat p mod 4096 = 0" using w page_wfD(1,2) by blast
  show "p \<in> set (ps c) \<Longrightarrow> d < 7 \<Longrightarrow> p \<in> set (ps d) \<Longrightarrow> d = c" using assms unfolding chains_ok_def by blast
qed

lemma blk_page: "c < 7 \<Longrightarrow> i < cnt c \<Longrightarrow> unat p mod 4096 = 0 \<Longrightarrow> k < csz c \<Longrightarrow> page_base (blk p c i + of_nat k) = p"
  using block_end [of c i] by (simp only: blk_byte) (rule page_base_at, auto)

text \<open>Distinct cells are disjoint ranges of bytes.\<close>

lemma cells_disjoint:
  assumes ch: "chains_ok ps pools m" and x: "(c, p, i) \<in> cells ps" and y: "(d, q, j) \<in> cells ps"
    and b: "blk p c i + of_nat k = blk q d j + of_nat l" "k < csz c" "l < csz d"
  shows "(c, p, i) = (d, q, j)"
proof -
  have c: "c < 7" "p \<in> set (ps c)" "i < cnt c" and d: "d < 7" "q \<in> set (ps d)" "j < cnt d"
    using x y by (simp_all add: cells_def)
  have a: "unat p mod 4096 = 0" "unat q mod 4096 = 0" using chainsD(5) [OF ch c(1,2)] chainsD(5) [OF ch d(1,2)] by simp_all
  have pq: "p = q" using blk_page [OF c(1,3) a(1) b(2)] blk_page [OF d(1,3) a(2) b(3)] b(1) by simp
  then have cd: "d = c" using chainsD(6) [OF ch c(1,2) d(1)] d(2) by simp
  have "i = j"
  proof (rule ccontr)
    assume "i \<noteq> j"
    then have "apart (48 + i * csz c) (csz c) (48 + j * csz c) (csz c)" using block_apart [OF c(1,3)] d(3) cd by simp
    from at_apart [OF this b(2), of l p] b(3) show False using b(1) pq cd by (simp add: blk_def)
  qed
  with pq cd show ?thesis by simp
qed

lemma cell_eq:
  assumes "chains_ok ps pools m" and "(c, p, i) \<in> cells ps" and "(d, q, j) \<in> cells ps" and "blk p c i = blk q d j"
  shows "(c, p, i) = (d, q, j)"
proof (rule cells_disjoint [OF assms(1-3), of 0 0])
  show "0 < csz c" "0 < csz d" using assms(2,3) class_facts(2) by (fastforce simp: cells_def)+
qed (simp add: assms(4))

section \<open>Changing one page\<close>

lemma plist_cong: "(\<And>p. p \<in> set ps \<Longrightarrow> read64 m' (at p 24) = read64 m (at p 24)) \<Longrightarrow> plist m' a ps = plist m a ps"
  by (induction ps arbitrary: a) auto

lemma other_page:
  assumes "only_page p m m'" and "q \<noteq> p" and "unat q mod 4096 = 0" and "k < 4096"
  shows "m' (at q k) = m (at q k)"
  using assms page_base_at [of q k] by (simp add: only_page_def)

lemma other_page_wf:
  assumes "only_page p m m'" and "q \<noteq> p" and wf: "page_wf m q c L" and c: "c < 7"
  shows "page_wf m' q c L" "read64 m' (at q 24) = read64 m (at q 24)" "i < cnt c \<Longrightarrow> used m' q i = used m q i"
proof -
  note a = page_wfD(2) [OF wf]
  have h: "m' (at q k) = m (at q k)" if "k < 48" for k using other_page [OF assms(1,2) a] that by simp
  have f: "m' (blk q c i + of_nat k) = m (blk q c i + of_nat k)" if "i \<in> set L" "k < 8" for i k
  proof -
    have "i < cnt c" using page_wfD(8) [OF wf] that by auto
    then have "48 + i * csz c + k < 4096" using block_end [OF c, of i] class_facts(2) [OF c] that by simp
    then show ?thesis unfolding blk_byte by (rule other_page [OF assms(1,2) a])
  qed
  show "page_wf m' q c L" "read64 m' (at q 24) = read64 m (at q 24)" "i < cnt c \<Longrightarrow> used m' q i = used m q i"
    using page_wf_cong [OF wf h f] c by blast+
qed

lemma chains_step:
  assumes ch: "chains_ok ps pools m" and c: "c < 7" "p \<in> set (ps c)" and st: "page_step p c F m m'" and wf: "page_wf m' p c L"
  shows "chains_ok ps pools m'" and "(d, q, i) \<in> cells ps \<Longrightarrow> q \<noteq> p \<Longrightarrow> used m' q i = used m q i"
proof -
  have only: "only_page p m m'" and nx: "read64 m' (at p 24) = read64 m (at p 24)" using st by (simp_all add: page_step_def)
  have o: "(\<exists>L. page_wf m' q d L) \<and> read64 m' (at q 24) = read64 m (at q 24) \<and> (q \<noteq> p \<longrightarrow> i < cnt d \<longrightarrow> used m' q i = used m q i)"
    if d: "d < 7" "q \<in> set (ps d)" for d q i
  proof (cases "q = p")
    case True
    then have "d = c" using chainsD(6) [OF ch c d(1)] d(2) by simp
    then show ?thesis using True wf nx by blast
  next
    case False
    obtain L where "page_wf m q d L" using chainsD(4) [OF ch d] by blast
    from other_page_wf [OF only False this d(1)] show ?thesis by blast
  qed
  then have "plist m' a (ps d) = plist m a (ps d)" if "d < 7" for a d using that by (intro plist_cong) blast
  then show "chains_ok ps pools m'" using ch o unfolding chains_ok_def by simp
  show "(d, q, i) \<in> cells ps \<Longrightarrow> q \<noteq> p \<Longrightarrow> used m' q i = used m q i" using o [of d q i] by (simp add: cells_def)
qed

lemma step_bytes:
  assumes ch: "chains_ok ps pools m" and c: "c < 7" "p \<in> set (ps c)" and st: "page_step p c F m m'"
    and x: "(d, q, j) \<in> cells ps" and "q = p \<Longrightarrow> j \<notin> F" and k: "k < csz d"
  shows "m' (blk q d j + of_nat k) = m (blk q d j + of_nat k)"
proof (cases "q = p")
  case True
  have d: "d < 7" "q \<in> set (ps d)" "j < cnt d" using x by (simp_all add: cells_def)
  have "d = c" using chainsD(6) [OF ch c d(1)] d(2) True by simp
  then show ?thesis using st True assms(6) d(3) k by (simp add: page_step_def)
next
  case False
  have d: "d < 7" "q \<in> set (ps d)" "j < cnt d" using x by (simp_all add: cells_def)
  have "unat q mod 4096 = 0" using chainsD(5) [OF ch d(1,2)] by simp
  moreover have "48 + j * csz d + k < 4096" using block_end [OF d(1,3)] k by simp
  ultimately show ?thesis unfolding blk_byte using st False by (intro other_page) (simp_all add: page_step_def)
qed

lemma live_bytes:
  assumes ch: "chains_ok ps pools m" and c: "c < 7" "p \<in> set (ps c)" and st: "page_step p c F m m'"
    and a: "(a, n) \<in> live ps m" and F: "\<And>i. i \<in> F \<Longrightarrow> a \<noteq> blk p c i" and k: "k < n"
  shows "m' (a + of_nat k) = m (a + of_nat k)"
proof -
  obtain d q j where x: "(d, q, j) \<in> cells ps" "a = blk q d j" "n = csz d"
    using a by (auto simp: live_def used_cells_def)
  have "j \<notin> F" if "q = p"
  proof -
    have "d = c" using chainsD(6) [OF ch c, of d] x(1) that by (simp add: cells_def)
    then show ?thesis using F x(2) that by blast
  qed
  then show ?thesis using step_bytes [OF ch c st x(1)] k x(2,3) by blast
qed

section \<open>Bookkeeping\<close>

lemma cell_bytes_insert: "finite A \<Longrightarrow> x \<notin> A \<Longrightarrow> cell_bytes (insert x A) = csz (fst x) + cell_bytes A"
  by (simp add: cell_bytes_def)

lemma cell_bytes_remove: "finite A \<Longrightarrow> x \<in> A \<Longrightarrow> cell_bytes A = csz (fst x) + cell_bytes (A - {x})"
  by (simp add: cell_bytes_def sum.remove)

lemma heap_invD:
  assumes "heap_inv ps s"
  shows "pages_inv s" "heap_initialized s" "chains_ok ps (heap_pools s) (mem s)" "heap_frames ps \<subseteq> allocated s"
    "heap_pages s = of_nat (card (heap_frames ps))" "heap_allocated_blocks_bytes s = of_nat (cell_bytes (used_cells ps (mem s)))"
    "heap_free_blocks_bytes s = of_nat (cell_bytes (cells ps - used_cells ps (mem s)))"
  using assms by (simp_all add: heap_inv_def)

lemma pages_fields:
  assumes "mem s' = mem s \<or> True" and "page_allocator_initialized s' = page_allocator_initialized s" "managed_start s' = managed_start s"
    "managed_end s' = managed_end s" "total_pages s' = total_pages s" "page_bitmap s' = page_bitmap s"
    "page_bitmap_words s' = page_bitmap_words s" "free_pages s' = free_pages s" "next_free_hint s' = next_free_hint s"
  shows "pages_inv s' = pages_inv s" "allocated s' = allocated s" "managed_frames s' = managed_frames s"
  using assms by (simp_all add: pages_inv_def allocated_def used_pages_def managed_frames_def page_addr_from_index_def)

lemma heap_irq [simp]:
  "heap_inv ps (irq_restore w s) = heap_inv ps s" "heap_inv ps (snd (irq_save s)) = heap_inv ps s"
  "heap_inv ps (s\<lparr>sstatus := v\<rparr>) = heap_inv ps s" "mem (irq_restore w s) = mem s" "allocated (irq_restore w s) = allocated s"
  "mem (snd (irq_save s)) = mem s" "allocated (snd (irq_save s)) = allocated s"
proof -
  have f: "allocated (s\<lparr>sstatus := v\<rparr>) = allocated s" "pages_inv (s\<lparr>sstatus := v\<rparr>) = pages_inv s" for v and s :: "'b heap_scheme"
    by (rule pages_fields; simp)+
  have g: "allocated (s\<lparr>sstatus := v\<rparr>) = allocated s" for v and s :: "'b pages_scheme"
    by (rule pages_fields; simp)
  show "heap_inv ps (s\<lparr>sstatus := v\<rparr>) = heap_inv ps s" by (simp add: heap_inv_def f)
  show "heap_inv ps (irq_restore w s) = heap_inv ps s" "heap_inv ps (snd (irq_save s)) = heap_inv ps s"
    by (simp_all add: irq_restore_def irq_save_def csr_set_sstatus_def csr_clear_sstatus_def heap_inv_def f)
  show "mem (irq_restore w s) = mem s" "mem (snd (irq_save s)) = mem s"
    by (simp_all add: irq_restore_def irq_save_def csr_set_sstatus_def csr_clear_sstatus_def)
  show "allocated (irq_restore w s) = allocated s" "allocated (snd (irq_save s)) = allocated s"
    by (simp_all add: irq_restore_def irq_save_def csr_set_sstatus_def csr_clear_sstatus_def g)
qed

section \<open>Choosing a class and a page\<close>

lemma class_ok:
  assumes "sz \<noteq> 0" and "sz \<le> 2048"
  obtains c where "c < 7" and "class_index_for_size sz = int c" and "unat sz \<le> csz c" and "0 < c \<Longrightarrow> csz (c - 1) < unat sz"
proof -
  define c :: nat where "c = (if sz \<le> 32 then 0 else if sz \<le> 64 then 1 else if sz \<le> 128 then 2 else if sz \<le> 256 then 3
    else if sz \<le> 512 then 4 else if sz \<le> 1024 then 5 else 6)"
  have e: "class_index_for_size sz = int c"
    using assms by (simp add: class_index_for_size_def HEAP_MAX_CLASS_def heap_class_sizes_def c_def not_less)
  show thesis
    by (rule that [OF _ e]) (use assms in \<open>auto simp: c_def csz_def word_le_nat_alt word_less_nat_alt not_le split: if_splits\<close>)
qed

lemma class_none: "sz = 0 \<or> 2048 < sz \<Longrightarrow> class_index_for_size sz = -1"
  by (auto simp: class_index_for_size_def HEAP_MAX_CLASS_def)

lemma free_count_zero:
  assumes "page_wf m p c L" and "c < 7"
  shows "read16 m (at p 12) = 0 \<longleftrightarrow> L = []"
proof -
  have "length L = card (set L)" using distinct_card [OF page_wfD(7) [OF assms(1)]] by simp
  also have "\<dots> \<le> card {..<cnt c}" unfolding page_wfD(8) [OF assms(1)] by (intro card_mono) auto
  finally have "length L < 65536" using class_facts(5) [OF assms(2)] by simp
  then show ?thesis using page_wfD(6) [OF assms(1)] by (simp add: word_unat_eq_iff unat_of_nat)
qed

text \<open>The search ends, at a page with a free block or, when every page is full, at the end of the chain.\<close>

lemma find_ok:
  assumes "plist m a qs" and "\<forall>p\<in>set qs. \<exists>L. page_wf m p c L" and c: "c < 7"
  shows "(heap_find_page m a = Some 0 \<and> (\<forall>p\<in>set qs. page_wf m p c [])) \<or>
    (\<exists>p i L. heap_find_page m a = Some p \<and> p \<in> set qs \<and> p \<noteq> 0 \<and> page_wf m p c (i # L))"
  using assms(1,2)
proof (induction qs arbitrary: a)
  case Nil
  then show ?case by (subst heap_find_page.simps) simp
next
  case (Cons p qs)
  then obtain L where wf: "page_wf m p c L" by auto
  have p: "a = p" "p \<noteq> 0" using Cons.prems(1) by auto
  show ?case
  proof (cases L)
    case Nil
    then have "heap_find_page m p = heap_find_page m (read64 m (at p 24))"
      using free_count_zero [OF wf c] p(2) by (subst heap_find_page.simps) simp
    then show ?thesis using Cons.IH [of "read64 m (at p 24)"] Cons.prems wf Nil p(1) by auto
  next
    case (Cons i L')
    then have "heap_find_page m p = Some p"
      using free_count_zero [OF wf c] p(2) by (subst heap_find_page.simps) simp
    then show ?thesis using wf Cons p by auto
  qed
qed

section \<open>Taking a block\<close>

text \<open>
  A block of \<open>n\<close> bytes at \<open>b\<close> has been added to the live ones: it overlaps none of
  them, their contents are as before, and so is all memory outside the heap's pages.
\<close>

definition block_given ::
  "(nat \<Rightarrow> u64 list) \<Rightarrow> (nat \<Rightarrow> u64 list) \<Rightarrow> u64 \<Rightarrow> nat \<Rightarrow> memory \<Rightarrow> memory \<Rightarrow> bool"
where
  "block_given ps ps' b n m m' \<longleftrightarrow> b \<noteq> 0 \<and> unat b mod 16 = 0 \<and> live ps' m' = insert (b, n) (live ps m) \<and>
     (\<forall>(a, l)\<in>live ps m. \<forall>k<l. m' (a + of_nat k) = m (a + of_nat k) \<and> (\<forall>j<n. a + of_nat k \<noteq> b + of_nat j)) \<and>
     (\<forall>x. page_base x \<notin> heap_frames ps' \<longrightarrow> m' x = m x)"

lemma blk_aligned:
  assumes "c < 7" "i < cnt c" "unat p mod 4096 = 0"
  shows "unat (blk p c i) mod 16 = 0" and "unat (blk p c i) = unat p + (48 + i * csz c)"
proof -
  have "48 + i * csz c < 4096" using block_end [OF assms(1,2)] class_facts(2) [OF assms(1)] by simp
  then show u: "unat (blk p c i) = unat p + (48 + i * csz c)"
    unfolding blk_def at_def using assms(3) by (subst unat_add_aligned [of _ 4096]) (simp_all add: unat_of_nat del: of_nat_add)
  have "16 dvd unat p" using assms(3) by (auto intro: dvd_trans [of 16 4096])
  then show "unat (blk p c i) mod 16 = 0"
    unfolding u using class_facts(6) [OF assms(1)] by (simp add: dvd_eq_mod_eq_0 [symmetric])
qed

lemma take_ok:
  fixes s :: "'a heap_scheme"
  assumes inv: "heap_inv ps s" and c: "c < 7" "p \<in> set (ps c)" and wf: "page_wf (mem s) p c (i # L)"
  shows "\<exists>s'. heap_alloc_block p s = Inr (blk p c i, s') \<and> heap_inv ps s' \<and> allocated s' = allocated s \<and>
    sstatus s' = sstatus s \<and> block_given ps ps (blk p c i) (csz c) (mem s) (mem s')"
proof -
  note d = heap_invD [OF inv]
  obtain m' where r: "heap_alloc_block p s = Inr (blk p c i, s\<lparr>mem := m',
      heap_free_blocks_bytes := heap_free_blocks_bytes s - of_nat (csz c),
      heap_allocated_blocks_bytes := heap_allocated_blocks_bytes s + of_nat (csz c)\<rparr>)"
    "page_wf m' p c L" "page_step p c {} (mem s) m'" "\<forall>j<cnt c. used m' p j \<longleftrightarrow> j = i \<or> used (mem s) p j"
    using alloc_block_ok [OF wf c(1)] by blast
  let ?s' = "s\<lparr>mem := m', heap_free_blocks_bytes := heap_free_blocks_bytes s - of_nat (csz c),
      heap_allocated_blocks_bytes := heap_allocated_blocks_bytes s + of_nat (csz c)\<rparr>"
  note ch = chains_step [OF d(3) c r(3,2)]
  have i: "i < cnt c" "\<not> used (mem s) p i" using page_wfD(8) [OF wf] by auto
  have x: "(c, p, i) \<in> cells ps" "(c, p, i) \<notin> used_cells ps (mem s)"
    using c i by (simp_all add: cells_def used_cells_def)
  have u: "used_cells ps m' = insert (c, p, i) (used_cells ps (mem s))"
  proof (rule set_eqI)
    fix y :: "nat \<times> u64 \<times> nat"
    obtain e q j where y: "y = (e, q, j)" by (cases y) auto
    show "y \<in> used_cells ps m' \<longleftrightarrow> y \<in> insert (c, p, i) (used_cells ps (mem s))"
    proof (cases "(e, q, j) \<in> cells ps")
      case False
      then show ?thesis using y x(1) by (auto simp: used_cells_def)
    next
      case True
      then have e: "e < 7" "q \<in> set (ps e)" "j < cnt e" by (simp_all add: cells_def)
      show ?thesis
      proof (cases "q = p")
        case True
        have "e = c" using chainsD(6) [OF d(3) c e(1)] e(2) True by simp
        then show ?thesis using y True r(4) e \<open>(e, q, j) \<in> cells ps\<close> by (auto simp: used_cells_def)
      next
        case False
        then show ?thesis using y ch(2) [OF \<open>(e, q, j) \<in> cells ps\<close>] by (simp add: used_cells_def)
      qed
    qed
  qed
  have "cells ps - used_cells ps m' = (cells ps - used_cells ps (mem s)) - {(c, p, i)}" using u by auto
  then have cb: "cell_bytes (cells ps - used_cells ps (mem s)) = csz c + cell_bytes (cells ps - used_cells ps m')"
    using cell_bytes_remove [of "cells ps - used_cells ps (mem s)" "(c, p, i)"] x by simp
  have pf: "pages_inv (s\<lparr>mem := m', heap_free_blocks_bytes := a, heap_allocated_blocks_bytes := b\<rparr>) = pages_inv s"
    "allocated (s\<lparr>mem := m', heap_free_blocks_bytes := a, heap_allocated_blocks_bytes := b\<rparr>) = allocated s" for a b
    by (rule pages_fields; simp)+
  have "heap_inv ps ?s'"
    using d ch(1) cb u x(2) by (simp add: heap_inv_def pf cell_bytes_insert)
  moreover have "block_given ps ps (blk p c i) (csz c) (mem s) m'"
    unfolding block_given_def
  proof (intro conjI ballI allI impI, goal_cases)
    case 1
    show ?case using page_wfD(9) [OF wf] by auto
  next
    case 2
    show ?case by (rule blk_aligned(1) [OF c(1) i(1) page_wfD(2) [OF wf]])
  next
    case 3
    show ?case by (simp add: live_def u)
  next
    case (4 al)
    obtain a l where al: "al = (a, l)" by (cases al)
    obtain e q j where y: "(e, q, j) \<in> used_cells ps (mem s)" "a = blk q e j" "l = csz e"
      using 4 al by (auto simp: live_def)
    have yc: "(e, q, j) \<in> cells ps" using y(1) by (simp add: used_cells_def)
    have "(e, q, j) \<noteq> (c, p, i)" using y(1) x(2) by metis
    then have "blk q e j + of_nat k \<noteq> blk p c i + of_nat h" if "k < csz e" "h < csz c" for k h
      using cells_disjoint [OF d(3) yc x(1) _ that] by blast
    then show ?case using live_bytes [OF d(3) c r(3), of a l] 4 al y(2,3) by auto
  next
    case (5 y)
    then have "page_base y \<noteq> p" using c by (auto simp: heap_frames_def)
    then show ?case using r(3) by (simp add: page_step_def only_page_def)
  qed
  ultimately show ?thesis using r(1) by (intro exI [of _ ?s']) (simp add: pf)
qed

section \<open>Growing a pool\<close>

lemma grow_inv:
  fixes s :: "'a heap_scheme"
  assumes inv: "heap_inv ps s" and c: "c < 7"
  shows "page_alloc s = Inr (0, s1) \<Longrightarrow> heap_grow_pool c s = Inr (0, s) \<and> s1 = s \<and> allocated s = managed_frames s"
    and "page_alloc s = Inr (p, s1) \<Longrightarrow> p \<noteq> 0 \<Longrightarrow> \<exists>s'. heap_grow_pool c s = Inr (p, s') \<and> heap_inv (ps(c := p # ps c)) s' \<and>
      allocated s' = insert p (allocated s) \<and> p \<notin> allocated s \<and> sstatus s' = sstatus s \<and> page_wf (mem s') p c (rev [0..<cnt c]) \<and>
      only_page p (mem s) (mem s') \<and> live (ps(c := p # ps c)) (mem s') = live ps (mem s)"
proof -
  note d = heap_invD [OF inv]
  show "page_alloc s = Inr (0, s1) \<Longrightarrow> heap_grow_pool c s = Inr (0, s) \<and> s1 = s \<and> allocated s = managed_frames s"
    using pages.alloc_null [OF d(1)] by (simp add: heap_grow_pool_def)
  assume al: "page_alloc s = Inr (p, s1)" and p0: "p \<noteq> 0"
  note fr = pages.alloc_fresh [OF d(1) al p0]
  have pm: "unat p mod 4096 = 0" using managed_frame_props(2) [OF d(1)] fr by blast
  obtain m' where r: "heap_grow_pool c s = Inr (p, s1\<lparr>mem := m',
      heap_pools := (heap_pools s)[c := (heap_pools s ! c)\<lparr>hp_pages := p\<rparr>], heap_pages := heap_pages s + 1,
      heap_free_blocks_bytes := heap_free_blocks_bytes s + of_nat (cnt c * csz c)\<rparr>)"
    "page_wf m' p c (rev [0..<cnt c])" "only_page p (mem s) m'" "read64 m' (at p 24) = hp_pages (heap_pools s ! c)"
    "\<forall>j<cnt c. \<not> used m' p j"
    using grow_ok [OF al p0 pm c d(1) chainsD(1) [OF d(3) c]] by blast
  let ?s' = "s1\<lparr>mem := m', heap_pools := (heap_pools s)[c := (heap_pools s ! c)\<lparr>hp_pages := p\<rparr>],
      heap_pages := heap_pages s + 1, heap_free_blocks_bytes := heap_free_blocks_bytes s + of_nat (cnt c * csz c)\<rparr>"
  let ?ps = "ps(c := p # ps c)"
  obtain bm fp hint where s1: "s1 = s\<lparr>page_bitmap := bm, free_pages := fp, next_free_hint := hint\<rparr>"
    using page_alloc_frame [OF d(1) al] by auto
  have new: "p \<notin> heap_frames ps" using d(4) fr by blast
  have old: "(\<exists>L. page_wf m' q e L) \<and> read64 m' (at q 24) = read64 (mem s) (at q 24) \<and> (j < cnt e \<longrightarrow> used m' q j = used (mem s) q j)"
    if e: "e < 7" "q \<in> set (ps e)" for e q j
  proof -
    have "q \<noteq> p" using new e by (auto simp: heap_frames_def)
    moreover obtain L where "page_wf (mem s) q e L" using chainsD(4) [OF d(3) e] by blast
    ultimately show ?thesis using other_page_wf [OF r(3)] e(1) by blast
  qed
  have pl: "plist m' a (ps e) = plist (mem s) a (ps e)" if "e < 7" for a e using that old by (intro plist_cong) blast
  have ch: "chains_ok ?ps (heap_pools ?s') m'"
    unfolding chains_ok_def
  proof (intro conjI allI impI, goal_cases)
    case 1
    show ?case using chainsD(7) [OF d(3) c] by simp
  next
    case (2 e)
    then show ?case using chainsD(1) [OF d(3) 2] chainsD(7) [OF d(3) c] by (cases "e = c") simp_all
  next
    case (3 e)
    then show ?case using chainsD(2) [OF d(3) 3] chainsD(7) [OF d(3) c] pl p0 r(4) by (cases "e = c") simp_all
  next
    case (4 e)
    then show ?case using chainsD(3) [OF d(3) 4] new c by (auto simp: heap_frames_def)
  next
    case (5 e)
    then show ?case using old [of e] r(2) by (cases "e = c") auto
  next
    case (6 e f)
    have "set (ps e) \<inter> set (ps f) = {}" using chainsD(6) [OF d(3)] 6 by blast
    moreover have "p \<notin> set (ps e)" "p \<notin> set (ps f)" using new 6 by (auto simp: heap_frames_def)
    ultimately show ?case using 6(3) by auto
  qed
  have frames: "heap_frames ?ps = insert p (heap_frames ps)" using c by (auto simp: heap_frames_def split: if_splits)
  have cl: "cells ?ps = cells ps \<union> (\<lambda>i. (c, p, i)) ` {..<cnt c}" using c by (auto simp: cells_def split: if_splits)
  have u: "used_cells ?ps m' = used_cells ps (mem s)"
    using old r(5) c unfolding used_cells_def cl by (auto simp: cells_def)
  have dis: "(cells ps - used_cells ps (mem s)) \<inter> (\<lambda>i. (c, p, i)) ` {..<cnt c} = {}"
    using new c by (auto simp: cells_def heap_frames_def)
  have "cells ?ps - used_cells ?ps m' = (cells ps - used_cells ps (mem s)) \<union> (\<lambda>i. (c, p, i)) ` {..<cnt c}"
    unfolding u cl using new c by (auto simp: used_cells_def cells_def heap_frames_def)
  then have "cell_bytes (cells ?ps - used_cells ?ps m') = cell_bytes (cells ps - used_cells ps (mem s)) + cell_bytes ((\<lambda>i. (c, p, i)) ` {..<cnt c})"
    using dis by (simp add: cell_bytes_def sum.union_disjoint)
  also have "cell_bytes ((\<lambda>i. (c, p, i)) ` {..<cnt c}) = cnt c * csz c"
    by (simp add: cell_bytes_def sum.reindex inj_on_def)
  finally have cb: "cell_bytes (cells ?ps - used_cells ?ps m') = cell_bytes (cells ps - used_cells ps (mem s)) + cnt c * csz c" .
  have pf: "pages_inv (s1\<lparr>mem := m', heap_pools := a, heap_pages := b, heap_free_blocks_bytes := e\<rparr>) = pages_inv s1"
    "allocated (s1\<lparr>mem := m', heap_pools := a, heap_pages := b, heap_free_blocks_bytes := e\<rparr>) = allocated s1" for a b e
    by (rule pages_fields; simp)+
  have st: "heap_initialized s1 = heap_initialized s" "heap_allocated_blocks_bytes s1 = heap_allocated_blocks_bytes s"
    "sstatus s1 = sstatus s" by (simp_all add: s1)
  have "finite (heap_frames ps)" by (simp add: heap_frames_def)
  then have "heap_inv ?ps ?s'"
    using d ch frames new cb u fr by (simp add: heap_inv_def pf st del: fun_upd_apply) blast
  moreover have "live ?ps m' = live ps (mem s)" by (simp add: live_def u)
  ultimately show "\<exists>s'. heap_grow_pool c s = Inr (p, s') \<and> heap_inv ?ps s' \<and> allocated s' = insert p (allocated s) \<and>
      p \<notin> allocated s \<and> sstatus s' = sstatus s \<and> page_wf (mem s') p c (rev [0..<cnt c]) \<and> only_page p (mem s) (mem s') \<and>
      live ?ps (mem s') = live ps (mem s)"
    using r(1-3) fr by (intro exI [of _ ?s']) (simp add: pf st)
qed

section \<open>The operations\<close>

lemma irq_save_restore:
  obtains s0 :: "'a hw_scheme" where "irq_save s = (sstatus s, s0)" and "s0 = s\<lparr>sstatus := sstatus s AND NOT SSTATUS_SIE\<rparr>"
    and "\<And>t. sstatus t = sstatus s0 \<Longrightarrow> sstatus (irq_restore (sstatus s) (t :: 'a hw_scheme)) = sstatus s"
proof (rule that)
  show "irq_save s = (sstatus s, s\<lparr>sstatus := sstatus s AND NOT SSTATUS_SIE\<rparr>)"
    by (simp add: irq_save_def csr_clear_sstatus_def)
  show "sstatus (irq_restore (sstatus s) t) = sstatus s"
    if "sstatus t = sstatus (s\<lparr>sstatus := sstatus s AND NOT SSTATUS_SIE\<rparr>)" for t :: "'a hw_scheme"
    using that restore_set_bit [of "sstatus s" 1] restore_clear_bit [of "sstatus s" 2]
    by (simp add: irq_restore_def csr_set_sstatus_def csr_clear_sstatus_def SSTATUS_SIE_def)
qed simp

text \<open>What a successful or failed \<open>kmalloc\<close> of class \<open>c\<close> leaves.\<close>

definition malloc_done ::
  "nat \<Rightarrow> (nat \<Rightarrow> u64 list) \<Rightarrow> (nat \<Rightarrow> u64 list) \<Rightarrow> u64 \<Rightarrow> 'a heap_scheme \<Rightarrow> 'a heap_scheme \<Rightarrow> bool"
where
  "malloc_done c ps ps' b s s' \<longleftrightarrow> heap_inv ps' s' \<and> sstatus s' = sstatus s \<and> heap_frames ps \<subseteq> heap_frames ps' \<and>
     heap_frames ps' \<inter> allocated s \<subseteq> heap_frames ps \<and> allocated s' = allocated s \<union> heap_frames ps' \<and>
     (if b = 0 then ps' = ps \<and> mem s' = mem s \<and> allocated s = managed_frames s \<and>
         (\<forall>p\<in>set (ps c). \<forall>i<cnt c. used (mem s) p i)
      else block_given ps ps' b (csz c) (mem s) (mem s') \<and> page_base b \<in> set (ps' c))"

lemma kmalloc_ok:
  fixes s :: "'a heap_scheme"
  assumes inv: "heap_inv ps s" and c: "c < 7" "class_index_for_size sz = int c"
  shows "\<exists>b s' ps'. kmalloc sz s = Some (Inr (b, s')) \<and> malloc_done c ps ps' b s s'"
proof -
  obtain s0 where s0: "irq_save s = (sstatus s, s0)" "s0 = s\<lparr>sstatus := sstatus s AND NOT SSTATUS_SIE\<rparr>"
    "\<And>t. sstatus t = sstatus s0 \<Longrightarrow> sstatus (irq_restore (sstatus s) (t :: 'a heap_scheme)) = sstatus s"
    by (rule irq_save_restore [of s]) blast
  have inv0: "heap_inv ps s0" using inv by (simp add: s0(2))
  have eq: "mem s0 = mem s" "managed_frames s0 = managed_frames s" by (simp add: s0(2), unfold s0(2), rule pages_fields(3), simp_all)
  have al: "allocated s0 = allocated s" unfolding s0(2) by (rule pages_fields(2)) simp_all
  note d = heap_invD [OF inv0]
  have fr: "allocated s0 = allocated s0 \<union> heap_frames ps" using d(4) by blast
  have km: "kmalloc sz s = (case heap_find_page (mem s0) (hp_pages (heap_pools s0 ! c)) of None \<Rightarrow> None
    | Some page \<Rightarrow> Some (bindE (if page = 0 then heap_grow_pool c s0 else Inr (page, s0)) (\<lambda>(page, t).
        if page = 0 then Inr (0, irq_restore (sstatus s) t)
        else bindE (heap_alloc_block page t) (\<lambda>(block, t). Inr (block, irq_restore (sstatus s) t)))))"
    using d(2) unfolding kmalloc_def s0(1) c(2) nat_int Let_def prod.case by simp
  have fin: "malloc_done c ps ps' b s (irq_restore (sstatus s) t)"
    if "heap_inv ps' t" "sstatus t = sstatus s0" "heap_frames ps \<subseteq> heap_frames ps'" "allocated t = allocated s0 \<union> heap_frames ps'"
      "block_given ps ps' b (csz c) (mem s0) (mem t)" "page_base b \<in> set (ps' c)"
      "heap_frames ps' \<inter> allocated s0 \<subseteq> heap_frames ps" for b t ps'
    using that s0(3) by (simp add: malloc_done_def eq al block_given_def [of ps ps' b])
  consider "heap_find_page (mem s0) (hp_pages (heap_pools s0 ! c)) = Some 0" "\<forall>p\<in>set (ps c). page_wf (mem s0) p c []"
    | p i L where "heap_find_page (mem s0) (hp_pages (heap_pools s0 ! c)) = Some p" "p \<in> set (ps c)" "p \<noteq> 0" "page_wf (mem s0) p c (i # L)"
    using find_ok [OF chainsD(2) [OF d(3) c(1)] _ c(1)] chainsD(4) [OF d(3) c(1)] by blast
  then show ?thesis
  proof cases
    case 1
    obtain p s1 where pa: "page_alloc s0 = Inr (p, s1)" using pages.alloc_returns [OF d(1)] by blast
    show ?thesis
    proof (cases "p = 0")
      case True
      have g: "heap_grow_pool c s0 = Inr (0, s0)" "allocated s0 = managed_frames s0"
        using grow_inv(1) [OF inv0 c(1)] pa True by simp_all
      have "kmalloc sz s = Some (Inr (0, irq_restore (sstatus s) s0))" unfolding km using 1(1) g(1) by simp
      moreover have "\<forall>p\<in>set (ps c). \<forall>i<cnt c. used (mem s) p i" using 1(2) page_wfD(8) eq(1) by fastforce
      ultimately show ?thesis
        using inv0 g(2) fr s0(3) by (intro exI [of _ 0] exI [of _ "irq_restore (sstatus s) s0"] exI [of _ ps])
          (simp add: malloc_done_def eq al)
    next
      case False
      let ?ps = "ps(c := p # ps c)"
      obtain s2 where g: "heap_grow_pool c s0 = Inr (p, s2)" "heap_inv ?ps s2" "allocated s2 = insert p (allocated s0)"
        "p \<notin> allocated s0" "sstatus s2 = sstatus s0" "page_wf (mem s2) p c (rev [0..<cnt c])" "only_page p (mem s0) (mem s2)"
        "live ?ps (mem s2) = live ps (mem s0)"
        using grow_inv(2) [OF inv0 c(1) pa False] by blast
      obtain i L where iL: "rev [0..<cnt c] = i # L" using class_facts(4) [OF c(1)] by (cases "rev [0..<cnt c]") auto
      have pin: "p \<in> set (?ps c)" by simp
      obtain s3 where t: "heap_alloc_block p s2 = Inr (blk p c i, s3)" "heap_inv ?ps s3" "allocated s3 = allocated s2"
        "sstatus s3 = sstatus s2" "block_given ?ps ?ps (blk p c i) (csz c) (mem s2) (mem s3)"
        using take_ok [OF g(2) c(1) pin g(6) [unfolded iL]] by blast
      have frames: "heap_frames ?ps = insert p (heap_frames ps)" using c(1) by (auto simp: heap_frames_def split: if_splits)
      have keep: "mem s2 (a + of_nat k) = mem s0 (a + of_nat k)" if al: "(a, l) \<in> live ps (mem s0)" and k: "k < l" for a l k
      proof -
        obtain e q j where y: "(e, q, j) \<in> cells ps" "a = blk q e j" "l = csz e"
          using al by (auto simp: live_def used_cells_def)
        then have q: "e < 7" "q \<in> set (ps e)" "j < cnt e" by (simp_all add: cells_def)
        have "q \<noteq> p" using q d(4) g(4) by (auto simp: heap_frames_def)
        moreover have "page_base (blk q e j + of_nat k) = q"
          using blk_page [OF q(1,3)] chainsD(5) [OF d(3) q(1,2)] k y(3) by simp
        ultimately show ?thesis using g(7) y(2) by (simp add: only_page_def)
      qed
      have "block_given ps ?ps (blk p c i) (csz c) (mem s0) (mem s3)"
        using t(5) g(7,8) keep frames unfolding block_given_def by (fastforce simp: only_page_def)
      moreover have "kmalloc sz s = Some (Inr (blk p c i, irq_restore (sstatus s) s3))"
        unfolding km using 1(1) g(1) False t(1) by simp
      moreover have "page_base (blk p c i) = p"
        using blk_page [OF c(1), of i p 0] page_wfD(2,8) [OF g(6)] iL class_facts(2) [OF c(1)] by force
      moreover have "allocated s3 = allocated s0 \<union> heap_frames ?ps" using t(3) g(3) frames d(4) by auto
      ultimately have "malloc_done c ps ?ps (blk p c i) s (irq_restore (sstatus s) s3)"
        using t(2,4) g(4,5) frames by (intro fin) auto
      with \<open>kmalloc sz s = Some (Inr (blk p c i, irq_restore (sstatus s) s3))\<close> show ?thesis by blast
    qed
  next
    case (2 p i L)
    obtain s3 where t: "heap_alloc_block p s0 = Inr (blk p c i, s3)" "heap_inv ps s3" "allocated s3 = allocated s0"
      "sstatus s3 = sstatus s0" "block_given ps ps (blk p c i) (csz c) (mem s0) (mem s3)"
      using take_ok [OF inv0 c(1) 2(2,4)] by blast
    have "kmalloc sz s = Some (Inr (blk p c i, irq_restore (sstatus s) s3))"
      unfolding km using 2(1,3) t(1) by simp
    moreover have "page_base (blk p c i) = p"
      using blk_page [OF c(1), of i p 0] page_wfD(2,8) [OF 2(4)] class_facts(2) [OF c(1)] by force
    moreover have "malloc_done c ps ps (blk p c i) s (irq_restore (sstatus s) s3)" if "page_base (blk p c i) = p"
      using t(2-5) fr 2(2) that by (intro fin) auto
    ultimately show ?thesis by blast
  qed
qed

text \<open>
  Programs may write to the blocks they were given, and to pages that are not the heap's: the heap does
  not depend on their contents.
\<close>

lemma user_write:
  assumes ch: "chains_ok ps pools m" and w: "\<And>x. page_base x \<in> heap_frames ps \<Longrightarrow> (\<forall>(a, n)\<in>live ps m. \<forall>k<n. x \<noteq> a + of_nat k) \<Longrightarrow> m' x = m x"
  shows "chains_ok ps pools m'" and "used_cells ps m' = used_cells ps m"
proof -
  have o: "page_wf m' p c L \<and> read64 m' (at p 24) = read64 m (at p 24) \<and> (i < cnt c \<longrightarrow> used m' p i = used m p i)"
    if c: "c < 7" "p \<in> set (ps c)" and wf: "page_wf m p c L" for c p L i
  proof -
    note a = page_wfD(2) [OF wf]
    have fr: "p \<in> heap_frames ps" using c by (auto simp: heap_frames_def)
    have h: "m' (at p k) = m (at p k)" if k: "k < 48" for k
    proof (rule w)
      show "page_base (at p k) \<in> heap_frames ps" using page_base_at [OF a, of k] k fr by simp
      show "\<forall>(b, n)\<in>live ps m. \<forall>l<n. at p k \<noteq> b + of_nat l"
      proof clarify
      fix b n l
      assume "(b, n) \<in> live ps m" and l: "l < n" and e: "at p k = b + of_nat l"
      then obtain d q j where y: "(d, q, j) \<in> cells ps" "b = blk q d j" "n = csz d" by (auto simp: live_def used_cells_def)
      then have q: "d < 7" "q \<in> set (ps d)" "j < cnt d" by (simp_all add: cells_def)
      have "page_base (blk q d j + of_nat l) = q" using blk_page [OF q(1,3)] chainsD(5) [OF ch q(1,2)] l y(3) by simp
      moreover have "page_base (at p k) = p" using page_base_at [OF a] k by simp
      ultimately have "at p k = at p (48 + j * csz d + l)" using e y(2) by (simp add: blk_byte)
      moreover have "48 + j * csz d + l < 4096" using block_end [OF q(1,3)] l y(3) by simp
      ultimately show False using k by (simp add: at_eq)
      qed
    qed
    have f: "m' (blk p c i + of_nat k) = m (blk p c i + of_nat k)" if i: "i \<in> set L" and k: "k < 8" for i k
    proof (rule w)
      have "i < cnt c" using i page_wfD(8) [OF wf] by auto
      then show "page_base (blk p c i + of_nat k) \<in> heap_frames ps"
        using blk_page [OF c(1) _ a, of i k] k class_facts(2) [OF c(1)] fr by simp
      show "\<forall>(b, n)\<in>live ps m. \<forall>l<n. blk p c i + of_nat k \<noteq> b + of_nat l"
      proof clarify
      fix b n l
      assume bn: "(b, n) \<in> live ps m" and l: "l < n" and e: "blk p c i + of_nat k = b + of_nat l"
      obtain d q j where y: "(d, q, j) \<in> used_cells ps m" "b = blk q d j" "n = csz d" using bn by (auto simp: live_def)
      have x: "(c, p, i) \<in> cells ps" "\<not> used m p i" using c i page_wfD(8) [OF wf] by (auto simp: cells_def)
      have "(c, p, i) = (d, q, j)"
        using cells_disjoint [OF ch x(1), of d q j k l] y l k e class_facts(2) [OF c(1)] by (auto simp: used_cells_def)
      then show False using y(1) x(2) by (simp add: used_cells_def)
      qed
    qed
    show ?thesis using page_wf_cong [OF wf h f] c(1) by blast
  qed
  have oo: "(\<exists>L. page_wf m' p c L) \<and> read64 m' (at p 24) = read64 m (at p 24) \<and> (i < cnt c \<longrightarrow> used m' p i = used m p i)"
    if "c < 7" "p \<in> set (ps c)" for c p i
    using chainsD(4) [OF ch that] o [OF that] by blast
  then have "plist m' a (ps c) = plist m a (ps c)" if "c < 7" for a c using that by (intro plist_cong) blast
  then show "chains_ok ps pools m'" using ch oo unfolding chains_ok_def by simp
  show "used_cells ps m' = used_cells ps m" using oo by (auto simp: used_cells_def cells_def)
qed

lemma user_write_inv:
  assumes inv: "heap_inv ps s" and w: "\<And>x. page_base x \<in> heap_frames ps \<Longrightarrow> (\<forall>(a, n)\<in>live ps (mem s). \<forall>k<n. x \<noteq> a + of_nat k) \<Longrightarrow> m' x = mem s x"
  shows "heap_inv ps (s\<lparr>mem := m'\<rparr>)" and "live ps m' = live ps (mem s)"
proof -
  note d = heap_invD [OF inv]
  note u = user_write [OF d(3) w]
  have pf: "pages_inv (s\<lparr>mem := m'\<rparr>) = pages_inv s" "allocated (s\<lparr>mem := m'\<rparr>) = allocated s" by (rule pages_fields; simp)+
  show "heap_inv ps (s\<lparr>mem := m'\<rparr>)" using d u by (simp add: heap_inv_def pf)
  show "live ps m' = live ps (mem s)" by (simp add: live_def u(2))
qed

lemma kzalloc_ok:
  fixes s :: "'a heap_scheme"
  assumes inv: "heap_inv ps s" and c: "c < 7" "class_index_for_size sz = int c"
  shows "\<exists>b s' ps'. kzalloc sz s = Some (Inr (b, s')) \<and> malloc_done c ps ps' b s s' \<and>
    (b \<noteq> 0 \<longrightarrow> (\<forall>k<csz c. mem s' (b + of_nat k) = 0))"
proof -
  obtain b s1 ps' where k: "kmalloc sz s = Some (Inr (b, s1))" "malloc_done c ps ps' b s s1" using kmalloc_ok [OF assms] by blast
  show ?thesis
  proof (cases "b = 0")
    case True
    then show ?thesis using k by (simp add: kzalloc_def) blast
  next
    case False
    then have g: "heap_inv ps' s1" "block_given ps ps' b (csz c) (mem s) (mem s1)" "page_base b \<in> set (ps' c)"
      and o: "sstatus s1 = sstatus s" "heap_frames ps \<subseteq> heap_frames ps'" "heap_frames ps' \<inter> allocated s \<subseteq> heap_frames ps"
        "allocated s1 = allocated s \<union> heap_frames ps'"
      using k(2) by (simp_all add: malloc_done_def)
    obtain L where wf: "page_wf (mem s1) (page_base b) c L" using chainsD(4) [OF heap_invD(3) [OF g(1)] c(1) g(3)] by blast
    have bs: "unat (load16 (at (page_base b) 8) s1) = csz c"
      using page_wfD(4) [OF wf] class_facts(3) [OF c(1)] by (simp add: load16_def unat_ucast16 unat_of_nat)
    let ?m = "fill_bytes (mem s1) b 0 (csz c)"
    have run: "kzalloc sz s = Some (Inr (b, s1\<lparr>mem := ?m\<rparr>))"
      using k(1) False page_wfD(3) [OF wf] by (simp add: kzalloc_def align_down_page memory_zero_def bs load64_def Let_def)
    have z: "csz c \<le> 2 ^ 64" using class_facts(3) [OF c(1)] by simp
    have out: "?m x = mem s1 x" if "\<forall>k<csz c. x \<noteq> b + of_nat k" for x
    proof -
      have "\<not> unat (x - b) < csz c" using that [rule_format, of "unat (x - b)"] by auto
      then show ?thesis using z by (simp add: fill_bytes_apply)
    qed
    have bl: "(b, csz c) \<in> live ps' (mem s1)" using g(2) by (simp add: block_given_def)
    have w: "?m x = mem s1 x" if "page_base x \<in> heap_frames ps'" "\<forall>(a, n)\<in>live ps' (mem s1). \<forall>k<n. x \<noteq> a + of_nat k" for x
      using that(2) bl by (intro out) blast
    have u: "heap_inv ps' (s1\<lparr>mem := ?m\<rparr>)" "live ps' ?m = live ps' (mem s1)"
      by (rule user_write_inv [OF g(1)], erule (1) w)+
    have pf: "allocated (s1\<lparr>mem := ?m\<rparr>) = allocated s1" by (rule pages_fields) simp_all
    have page: "page_base (b + of_nat k) = page_base b" if "k < csz c" for k
    proof -
      obtain d q j where y: "(d, q, j) \<in> cells ps'" "b = blk q d j" "csz c = csz d"
        using bl by (auto simp: live_def used_cells_def)
      then have q: "d < 7" "j < cnt d" "unat q mod 4096 = 0"
        using chainsD(5) [OF heap_invD(3) [OF g(1)]] by (auto simp: cells_def)
      show ?thesis using blk_page [OF q] that y(2,3) class_facts(2) [OF q(1)] blk_page [OF q, of 0] by simp
    qed
    have "block_given ps ps' b (csz c) (mem s) ?m"
      unfolding block_given_def
    proof (intro conjI ballI allI impI, goal_cases)
      case 1
      show ?case by (rule False)
    next
      case 2
      show ?case using g(2) by (simp add: block_given_def)
    next
      case 3
      show ?case using g(2) u(2) by (simp add: block_given_def)
    next
      case (4 al)
      obtain a l where al: "al = (a, l)" by (cases al)
      have "mem s1 (a + of_nat k) = mem s (a + of_nat k) \<and> (\<forall>j<csz c. a + of_nat k \<noteq> b + of_nat j)" if "k < l" for k
        using g(2) 4 al that unfolding block_given_def by blast
      then show ?case using al out by auto
    next
      case (5 x)
      have "?m x = mem s1 x"
      proof (rule out, intro allI impI notI)
        fix k assume "k < csz c" and "x = b + of_nat k"
        then have "page_base x = page_base b" using page by simp
        then show False using 5 g(3) c(1) by (auto simp: heap_frames_def)
      qed
      then show ?case using g(2) 5 by (simp add: block_given_def)
    qed
    then have "malloc_done c ps ps' b s (s1\<lparr>mem := ?m\<rparr>)"
      using u(1) o g(3) False by (simp add: malloc_done_def pf)
    moreover have "\<forall>k<csz c. ?m (b + of_nat k) = 0" using z by (simp add: fill_bytes_apply unat_of_nat)
    ultimately show ?thesis using run by (intro exI [of _ b] exI [of _ "s1\<lparr>mem := ?m\<rparr>"] exI [of _ ps']) simp
  qed
qed

end
