(* ===== verification/Heap_Free.thy ===== *)
theory Heap_Free
  imports Heap_Spec
begin

text \<open>
  \<open>kfree\<close>: it gives back exactly the blocks that are handed out and refuses every other address.
\<close>

section \<open>Giving a block back\<close>

definition kfree_body :: "u64 \<Rightarrow> 'a heap_scheme \<Rightarrow> (unit \<times> 'a heap_scheme) res" where
  "kfree_body ptr s =
     (if \<not> heap_initialized s then Inl ''kfree before heap_init''
      else let page = align_down ptr PAGE_SIZE in
      if page < page_managed_start s \<or> page \<ge> page_managed_end s then Inl ''kfree invalid heap address''
      else if load64 (page + HP_MAGIC) s \<noteq> HEAP_PAGE_MAGIC then Inl ''kfree invalid heap page''
      else let block_start = block_area_start page; page_end = page + PAGE_SIZE in
      if ptr < block_start \<or> ptr \<ge> page_end then Inl ''kfree pointer outside heap blocks''
      else let offset = ptr - block_start in
      if offset mod load16 (page + HP_BLOCK_SIZE) s \<noteq> 0 then Inl ''kfree interior pointer''
      else let block_index = offset div load16 (page + HP_BLOCK_SIZE) s in
      if block_index \<ge> load16 (page + HP_BLOCK_COUNT) s then Inl ''kfree block index out of range''
      else if \<not> heap_bitmap_test page block_index s then Inl ''double kfree''
      else
      let s = heap_bitmap_clear page block_index s;
          s = store64 ptr (load64 (page + HP_FREE_LIST) s) s;
          s = store64 (page + HP_FREE_LIST) ptr s;
          s = store16 (page + HP_FREE_COUNT) (load16 (page + HP_FREE_COUNT) s + 1) s;
          s = s\<lparr>heap_free_blocks_bytes := heap_free_blocks_bytes s + load16 (page + HP_BLOCK_SIZE) s\<rparr>;
          s = s\<lparr>heap_allocated_blocks_bytes := heap_allocated_blocks_bytes s - load16 (page + HP_BLOCK_SIZE) s\<rparr>
      in Inr ((), s))"

lemma kfree_eq: "kfree ptr s = (if ptr = 0 then Inr ((), s) else kfree_body ptr s)"
proof -
  have "irq_neutral (kfree_body ptr)"
    by (rule irq_neutralI)
      (simp add: kfree_body_def Let_def page_managed_start_def page_managed_end_def load64_def load16_def store64_def store16_def
        heap_bitmap_test_def heap_bitmap_clear_def del: hp_at)
  from irq_masked_neutral [OF this, of s] show ?thesis
    unfolding kfree_def kfree_body_def [abs_def] by simp
qed

lemma ptr_blk:
  assumes "unat p mod 4096 = 0" "c < 7" and b: "page_base b = p" "at p 48 \<le> b"
  obtains k where "b = at p (48 + k)" "48 + k < 4096" "b - at p 48 = of_nat k" "unat (of_nat k :: u64) = k"
proof -
  have "unat b div 4096 * 4096 = unat p" using b(1) by (simp add: unat_page_base_div [symmetric])
  moreover have "unat (at p 48) = unat p + 48"
    unfolding at_def using assms(1) by (subst unat_add_aligned [of _ 4096]) simp_all
  ultimately have k: "unat p + 48 \<le> unat b" "unat b < unat p + 4096" using b(2) by (simp_all add: word_le_nat_alt)
  define k where "k = unat b - unat p - 48"
  have e: "unat b = unat p + (48 + k)" "48 + k < 4096" using k by (simp_all add: k_def)
  have "unat (at p (48 + k)) = unat p + (48 + k)"
    unfolding at_def using assms(1) e(2) by (subst unat_add_aligned [of _ 4096]) (simp_all add: unat_of_nat del: of_nat_add)
  then have b: "b = at p (48 + k)" using e(1) by (simp add: word_unat_eq_iff)
  show thesis by (rule that [OF b e(2)]) (use e(2) in \<open>simp_all add: b at_def unat_of_nat\<close>)
qed

lemma allocated_range:
  assumes "pages_inv s" and "p \<in> allocated s"
  shows "\<not> (p < page_managed_start s \<or> p \<ge> page_managed_end s)"
  using managed_frame_props(3,4) [OF assms(1), of p] allocated_subset [of s] assms(2)
  by (auto simp: page_managed_start_def page_managed_end_def not_less)

lemma page_fields16:
  assumes "page_wf (mem s) p c L" and "c < 7"
  shows "load16 (at p 8) s = of_nat (csz c)" "load16 (at p 10) s = of_nat (cnt c)"
  using page_wfD(4,5) [OF assms(1)] class_facts(3,5) [OF assms(2)]
  by (simp_all add: load16_def word_unat_eq_iff unat_ucast16 unat_of_nat)

lemma page_top:
  assumes inv: "pages_inv s" and p: "p \<in> allocated s"
  shows "unat (p + PAGE_SIZE) = unat p + 4096"
proof -
  obtain i where i: "i < total_pages s" "p = page_addr_from_index s i"
    using p allocated_subset [of s] by (auto simp: managed_frames_def)
  have "unat p + 4096 = unat (managed_start s) + (unat i + 1) * 4096" using unat_page_addr [OF inv i(1)] i(2) by simp
  also have "\<dots> \<le> unat (managed_end s)" using inv i(1) by (simp add: pages_inv_def word_less_nat_alt)
  finally have "unat p + 4096 < 2 ^ 64" using unat64_lt [of "managed_end s"] by simp
  then show ?thesis unfolding PAGE_SIZE_def by (subst unat_add_lem [THEN iffD1]) simp_all
qed

text \<open>Every check of \<open>kfree\<close> passes on a block that is handed out.\<close>

lemma kfree_run:
  fixes s :: "'a heap_scheme"
  assumes inv: "heap_inv ps s" and x: "(c, p, i) \<in> used_cells ps (mem s)"
  shows "kfree (blk p c i) s = Inr ((), s\<lparr>mem := freed (mem s) p c i,
      heap_free_blocks_bytes := heap_free_blocks_bytes s + of_nat (csz c),
      heap_allocated_blocks_bytes := heap_allocated_blocks_bytes s - of_nat (csz c)\<rparr>)"
proof -
  note d = heap_invD [OF inv]
  let ?m = "mem s"
  have us: "used ?m p i" and c: "c < 7" "p \<in> set (ps c)" and i: "i < cnt c" using x by (simp_all add: used_cells_def cells_def)
  obtain L where wf: "page_wf ?m p c L" using chainsD(4) [OF d(3) c] by blast
  note p = page_wfD(1,2) [OF wf] and f = class_facts [OF c(1)]
  have i128: "i < 128" using i f(5) by simp
  have b: "blk p c i \<noteq> 0" "page_base (blk p c i) = p" "unat (blk p c i) = unat p + (48 + i * csz c)"
    using at_nonzero [OF p, of "48 + i * csz c"] block_end [OF c(1) i] f(2) blk_page [OF c(1) i p(2), of 0]
      blk_aligned(2) [OF c(1) i p(2)] by (simp_all add: blk_def)
  have bl: "48 + i * csz c + csz c \<le> 4096" by (rule block_end [OF c(1) i])
  have lo: "unat (at p 48) = unat p + 48"
    unfolding at_def using p(2) by (subst unat_add_aligned [of _ 4096]) simp_all
  have al: "p \<in> allocated s" using c d(4) by (auto simp: heap_frames_def)
  note rng = allocated_range [OF d(1) al]
  have hi: "\<not> (blk p c i < at p 48 \<or> p + PAGE_SIZE \<le> blk p c i)"
    using b(3) lo bl f(2) page_top [OF d(1) al] by (simp add: word_less_nat_alt word_le_nat_alt)
  have magic: "\<not> load64 (at p 0) s \<noteq> HEAP_PAGE_MAGIC" using page_wfD(3) [OF wf] by (simp add: load64_def)
  note pf = page_fields16 [OF wf c(1)]
  have lt: "\<not> of_nat (cnt c) \<le> (of_nat i :: u64)" using i f(5) by (simp add: word_less_nat_alt unat_of_nat not_le)
  have ut: "\<not> \<not> heap_bitmap_test p (of_nat i) s" using us by (simp add: bitmap_test_used i128)
  define w where "w = 32 + 8 * (i div 64)"
  define m1 where "m1 = write64 ?m (at p w) (read64 ?m (at p w) AND NOT (push_bit (i mod 64) 1))"
  define m2 where "m2 = write64 m1 (blk p c i) (read64 m1 (at p 16))"
  define m3 where "m3 = write64 m2 (at p 16) (blk p c i)"
  define m4 where "m4 = write16 m3 (at p 12) (read16 m3 (at p 12) + 1)"
  have e: "freed ?m p c i = m4" by (simp add: freed_def m4_def m3_def m2_def m1_def w_def Let_def)
  have m: "heap_bitmap_clear p (of_nat i) s = s\<lparr>mem := m1\<rparr>"
    using i128 by (simp add: heap_bitmap_clear_def bitmap_word_at m1_def w_def load64_def store64_def unat_mod unat_of_nat Let_def)
  have st: "store64 (blk p c i) (load64 (at p 16) (s\<lparr>mem := m1\<rparr>)) (s\<lparr>mem := m1\<rparr>) = s\<lparr>mem := m2\<rparr>"
    "store64 (at p 16) (blk p c i) (s\<lparr>mem := m2\<rparr>) = s\<lparr>mem := m3\<rparr>"
    by (simp_all add: store64_def load64_def m2_def m3_def)
  have inc: "(ucast ((ucast (u :: u16) :: u64) + 1) :: u16) = u + 1" for u
    by (simp add: word_unat_eq_iff unat_ucast16 unat_word_ariths mod_mod_cancel)
  have s16: "store16 (at p 12) (load16 (at p 12) (s\<lparr>mem := m3\<rparr>) + 1) (s\<lparr>mem := m3\<rparr>) = s\<lparr>mem := m4\<rparr>"
    by (simp add: store16_def load16_def m4_def inc)
  have m8: "load16 (at p 8) (s\<lparr>mem := m4, heap_free_blocks_bytes := v\<rparr>) = of_nat (csz c)"
    "load16 (at p 8) (s\<lparr>mem := m4\<rparr>) = of_nat (csz c)" for v
    using page_fields16(1) [of "s\<lparr>mem := m4\<rparr>", OF _ c(1)] freed_ok(1) [OF wf c(1) i us] e by (simp_all add: load16_def)
  have "kfree_body (blk p c i) s = Inr ((), s\<lparr>mem := m4,
      heap_free_blocks_bytes := heap_free_blocks_bytes s + of_nat (csz c),
      heap_allocated_blocks_bytes := heap_allocated_blocks_bytes s - of_nat (csz c)\<rparr>)"
    unfolding kfree_body_def align_down_page b(2) Let_def hp_at block_start [OF p(2)]
    unfolding pf block_index(1,2) [OF c(1) i, of p] if_not_P [OF rng] if_not_P [OF magic] if_not_P [OF hi] if_not_P [OF lt]
      if_not_P [OF ut] m st s16 m8
    using d(2) by (simp add: m8)
  then show ?thesis using b(1) e by (simp add: kfree_eq)
qed

text \<open>A block that is handed out is given back, and nothing else changes hands.\<close>

lemma kfree_ok:
  fixes s :: "'a heap_scheme"
  assumes inv: "heap_inv ps s" and b: "(b, n) \<in> live ps (mem s)"
  shows "\<exists>s'. kfree b s = Inr ((), s') \<and> heap_inv ps s' \<and> allocated s' = allocated s \<and> sstatus s' = sstatus s \<and>
    live ps (mem s') = live ps (mem s) - {(b, n)} \<and>
    (\<forall>(a, l)\<in>live ps (mem s'). \<forall>k<l. mem s' (a + of_nat k) = mem s (a + of_nat k)) \<and>
    (\<forall>y. page_base y \<notin> heap_frames ps \<longrightarrow> mem s' y = mem s y)"
proof -
  obtain c p i where x: "(c, p, i) \<in> used_cells ps (mem s)" and bn: "b = blk p c i" "n = csz c" using b by (auto simp: live_def)
  note d = heap_invD [OF inv]
  have xc: "(c, p, i) \<in> cells ps" and us: "used (mem s) p i" using x by (simp_all add: used_cells_def)
  then have c: "c < 7" "p \<in> set (ps c)" and i: "i < cnt c" by (simp_all add: cells_def)
  obtain L where wf: "page_wf (mem s) p c L" using chainsD(4) [OF d(3) c] by blast
  define m' where "m' = freed (mem s) p c i"
  note fr = freed_ok [OF wf c(1) i us, folded m'_def]
  note ch = chains_step [OF d(3) c fr(2,1)]
  let ?s' = "s\<lparr>mem := m', heap_free_blocks_bytes := heap_free_blocks_bytes s + of_nat (csz c),
      heap_allocated_blocks_bytes := heap_allocated_blocks_bytes s - of_nat (csz c)\<rparr>"
  have run: "kfree b s = Inr ((), ?s')" using kfree_run [OF inv x] by (simp add: bn m'_def)
  have u: "used_cells ps m' = used_cells ps (mem s) - {(c, p, i)}"
  proof (rule set_eqI)
    fix y :: "nat \<times> u64 \<times> nat"
    obtain e q j where y: "y = (e, q, j)" by (cases y) auto
    show "y \<in> used_cells ps m' \<longleftrightarrow> y \<in> used_cells ps (mem s) - {(c, p, i)}"
    proof (cases "(e, q, j) \<in> cells ps")
      case False
      then show ?thesis using y by (auto simp: used_cells_def)
    next
      case True
      then have e: "e < 7" "q \<in> set (ps e)" "j < cnt e" by (simp_all add: cells_def)
      show ?thesis
      proof (cases "q = p")
        case True
        have "e = c" using chainsD(6) [OF d(3) c e(1)] e(2) True by simp
        then show ?thesis using y True fr(3) [of j] e \<open>(e, q, j) \<in> cells ps\<close> by (auto simp: used_cells_def)
      next
        case False
        then show ?thesis using y ch(2) [OF \<open>(e, q, j) \<in> cells ps\<close>] by (simp add: used_cells_def)
      qed
    qed
  qed
  have "cells ps - used_cells ps m' = insert (c, p, i) (cells ps - used_cells ps (mem s))" using u xc by auto
  then have cb: "cell_bytes (cells ps - used_cells ps m') = csz c + cell_bytes (cells ps - used_cells ps (mem s))"
    using cell_bytes_insert [of "cells ps - used_cells ps (mem s)" "(c, p, i)"] x by simp
  have cu: "cell_bytes (used_cells ps (mem s)) = csz c + cell_bytes (used_cells ps m')"
    using cell_bytes_remove [OF _ x] u by simp
  have pf: "pages_inv (s\<lparr>mem := m', heap_free_blocks_bytes := a, heap_allocated_blocks_bytes := b\<rparr>) = pages_inv s"
    "allocated (s\<lparr>mem := m', heap_free_blocks_bytes := a, heap_allocated_blocks_bytes := b\<rparr>) = allocated s" for a b
    by (rule pages_fields; simp)+
  have "heap_inv ps ?s'" using d ch(1) cb cu by (simp add: heap_inv_def pf)
  moreover have "live ps m' = live ps (mem s) - {(b, n)}"
  proof -
    have "inj_on (\<lambda>(c, p, i). (blk p c i, csz c)) (used_cells ps (mem s))"
      using cell_eq [OF d(3)] by (intro inj_onI) (auto simp: used_cells_def)
    then have "(\<lambda>(c, p, i). (blk p c i, csz c)) ` (used_cells ps (mem s) - {(c, p, i)}) =
        (\<lambda>(c, p, i). (blk p c i, csz c)) ` used_cells ps (mem s) - (\<lambda>(c, p, i). (blk p c i, csz c)) ` {(c, p, i)}"
      by (rule inj_on_image_set_diff) (use x in auto)
    then show ?thesis by (simp add: live_def u bn)
  qed
  moreover have "m' (a + of_nat k) = mem s (a + of_nat k)" if al: "(a, l) \<in> live ps m'" and k: "k < l" for a l k
  proof -
    obtain e q j where y: "(e, q, j) \<in> used_cells ps m'" "a = blk q e j" "l = csz e" using al by (auto simp: live_def)
    have "j \<noteq> i" if "q = p"
      using y(1) that chainsD(6) [OF d(3) c, of e] unfolding u by (auto simp: used_cells_def cells_def)
    then show ?thesis using step_bytes [OF d(3) c fr(2), of e q j k] y k u by (auto simp: used_cells_def)
  qed
  moreover have "m' y = mem s y" if "page_base y \<notin> heap_frames ps" for y
  proof -
    have "page_base y \<noteq> p" using that c by (auto simp: heap_frames_def)
    then show ?thesis using fr(2) by (simp add: page_step_def only_page_def)
  qed
  ultimately show ?thesis using run by (intro exI [of _ ?s']) (auto simp: pf)
qed

text \<open>Every other address in the heap's pages is refused, and so is every address that shows no heap page.\<close>

lemma kfree_refuses:
  fixes s :: "'a heap_scheme"
  assumes inv: "heap_inv ps s" and b: "b \<noteq> 0" "\<And>n. (b, n) \<notin> live ps (mem s)"
    and pg: "page_base b \<in> heap_frames ps \<or> page_base b < managed_start s \<or> managed_end s \<le> page_base b \<or>
      read64 (mem s) (page_base b) \<noteq> HEAP_PAGE_MAGIC"
  shows "\<exists>e. kfree b s = Inl e"
proof -
  note d = heap_invD [OF inv]
  let ?p = "page_base b"
  have at0: "at p 0 = p" for p by (simp add: at_def)
  show ?thesis
  proof (cases "?p \<in> heap_frames ps")
    case False
    then show ?thesis using pg b(1) d(2)
      by (auto simp: kfree_eq kfree_body_def align_down_page Let_def page_managed_start_def page_managed_end_def load64_def at0)
  next
    case True
    then obtain c where c: "c < 7" "?p \<in> set (ps c)" by (auto simp: heap_frames_def)
    obtain L where wf: "page_wf (mem s) ?p c L" using chainsD(4) [OF d(3) c] by blast
    note p = page_wfD(1,2) [OF wf] and f = class_facts [OF c(1)] and pf = page_fields16 [OF wf c(1)]
    have "?p \<in> allocated s" using True d(4) by blast
    note rng = allocated_range [OF d(1) this]
    have magic: "\<not> load64 (at ?p 0) s \<noteq> HEAP_PAGE_MAGIC" using page_wfD(3) [OF wf] by (simp add: load64_def)
    have body: "kfree b s = kfree_body b s" using b(1) by (simp add: kfree_eq)
    show ?thesis
    proof (cases "b < at ?p 48 \<or> ?p + PAGE_SIZE \<le> b")
      case True
      then show ?thesis
        unfolding body kfree_body_def align_down_page Let_def hp_at block_start [OF p(2)] if_not_P [OF rng] if_not_P [OF magic]
        using d(2) by simp
    next
      case False
      then have "at ?p 48 \<le> b" by (simp add: not_less)
      then obtain k where k: "b = at ?p (48 + k)" "48 + k < 4096" "b - at ?p 48 = of_nat k" "unat (of_nat k :: u64) = k"
        by (rule ptr_blk [OF p(2) c(1) refl])
      have un: "unat (of_nat (csz c) :: u64) = csz c" "unat (of_nat (cnt c) :: u64) = cnt c"
        using f(3,5) by (simp_all add: unat_of_nat)
      have le: "k mod csz c < 4096" "k div csz c < 4096" using k(2) mod_less_eq_dividend [of k "csz c"] div_le_dividend [of k "csz c"] by linarith+
      then have ul: "unat (of_nat (k mod csz c) :: u64) = k mod csz c" "unat (of_nat (k div csz c) :: u64) = k div csz c"
        by (simp_all add: unat_of_nat)
      then have md: "(of_nat k :: u64) mod of_nat (csz c) = of_nat (k mod csz c)" "(of_nat k :: u64) div of_nat (csz c) = of_nat (k div csz c)"
        by (simp_all add: word_unat_eq_iff unat_mod unat_div k(4) un(1))
      have eq: "kfree b s = (if k mod csz c \<noteq> 0 then Inl ''kfree interior pointer''
          else if k div csz c \<ge> cnt c then Inl ''kfree block index out of range''
          else if \<not> heap_bitmap_test ?p (of_nat (k div csz c)) s then Inl ''double kfree'' else kfree b s)"
      proof -
        have z: "(of_nat (k mod csz c) = (0 :: u64)) = (k mod csz c = 0)"
          "((of_nat (cnt c) :: u64) \<le> of_nat (k div csz c)) = (cnt c \<le> k div csz c)"
          by (simp_all add: word_unat_eq_iff ul word_le_nat_alt un)
        show ?thesis
          unfolding body unfolding kfree_body_def align_down_page Let_def hp_at block_start [OF p(2)] if_not_P [OF rng] if_not_P [OF magic]
            if_not_P [OF False] k(3) pf md z
          using d(2) by simp
      qed
      have "\<not> used (mem s) ?p (k div csz c)" if "k mod csz c = 0" "k div csz c < cnt c"
      proof
        assume "used (mem s) ?p (k div csz c)"
        then have "(c, ?p, k div csz c) \<in> used_cells ps (mem s)" using c that by (simp add: used_cells_def cells_def)
        then have "(blk ?p c (k div csz c), csz c) \<in> live ps (mem s)" by (force simp: live_def)
        moreover have "k div csz c * csz c = k" using div_mult_mod_eq [of k "csz c"] that(1) by simp
        then have "blk ?p c (k div csz c) = b" using k(1) by (simp add: blk_def)
        ultimately show False using b(2) by simp
      qed
      then show ?thesis using eq f(5) by (auto simp: bitmap_test_used split: if_splits)
    qed
  qed
qed

end
