(* ===== verification/Heap_Run.thy ===== *)
theory Heap_Run
  imports Heap_Free
begin

text \<open>
  The heap under use: what its clients may rely on after any sequence of calls, page
  allocations by others, and writes to the memory they own.
\<close>

section \<open>Initialisation\<close>

lemma heap_init_ok:
  fixes s :: "'a heap_scheme"
  assumes "pages_inv s"
  shows "\<exists>s'. heap_init s = Inr ((), s') \<and> heap_inv (\<lambda>_. []) s' \<and> allocated s' = allocated s \<and> mem s' = mem s \<and>
    sstatus s' = sstatus s \<and> managed_frames s' = managed_frames s"
proof -
  let ?s' = "s\<lparr>heap_pools := map (\<lambda>n. \<lparr>hp_block_size = n, hp_pages = 0\<rparr>) heap_class_sizes, heap_pages := 0,
    heap_free_blocks_bytes := 0, heap_allocated_blocks_bytes := 0, heap_initialized := True\<rparr>"
  have "irq_neutral (\<lambda>s :: 'a heap_scheme. Inr ((), s\<lparr>heap_pools := map (\<lambda>n. \<lparr>hp_block_size = n, hp_pages = 0\<rparr>) heap_class_sizes,
      heap_pages := 0, heap_free_blocks_bytes := 0, heap_allocated_blocks_bytes := 0, heap_initialized := True\<rparr>))"
    by (rule irq_neutralI) simp
  from irq_masked_neutral [OF this, of s] have run: "heap_init s = Inr ((), ?s')"
    by (simp add: heap_init_def Let_def)
  have pf: "pages_inv ?s' = pages_inv s" "allocated ?s' = allocated s" "managed_frames ?s' = managed_frames s"
    by (rule pages_fields; simp)+
  have L: "length heap_class_sizes = 7" by (simp add: heap_class_sizes_def)
  have "hp_block_size (heap_pools ?s' ! c) = of_nat (csz c) \<and> hp_pages (heap_pools ?s' ! c) = 0" if "c < 7" for c
    using that class_facts(1) [OF that] by (simp add: L)
  moreover have none: "cells (\<lambda>_. []) = {}" "used_cells (\<lambda>_. []) m = {}" for m
    by (auto simp: cells_def used_cells_def)
  ultimately have "heap_inv (\<lambda>_. []) ?s'"
    using assms L none by (simp add: heap_inv_def pf chains_ok_def heap_frames_def cell_bytes_def)
  with run show ?thesis by (simp add: pf)
qed

section \<open>Runs\<close>

text \<open>
  \<open>B\<close> holds the blocks the clients own, with the sizes they asked for, and \<open>P\<close> the
  pages they own.
\<close>

inductive heap_run :: "(u64 \<times> nat) set \<Rightarrow> u64 set \<Rightarrow> heap \<Rightarrow> bool" where
  run_init: "pages_inv s \<Longrightarrow> heap_init s = Inr ((), s') \<Longrightarrow> heap_run {} {} s'"
| run_kmalloc: "heap_run B P s \<Longrightarrow> kmalloc sz s = Some (Inr (b, s')) \<Longrightarrow> b \<noteq> 0 \<Longrightarrow> heap_run (insert (b, unat sz) B) P s'"
| run_kmalloc_null: "heap_run B P s \<Longrightarrow> kmalloc sz s = Some (Inr (0, s')) \<Longrightarrow> heap_run B P s'"
| run_kzalloc: "heap_run B P s \<Longrightarrow> kzalloc sz s = Some (Inr (b, s')) \<Longrightarrow> b \<noteq> 0 \<Longrightarrow> heap_run (insert (b, unat sz) B) P s'"
| run_kfree: "heap_run B P s \<Longrightarrow> (b, n) \<in> B \<Longrightarrow> kfree b s = Inr ((), s') \<Longrightarrow> heap_run (B - {(b, n)}) P s'"
| run_page_alloc: "heap_run B P s \<Longrightarrow> page_alloc s = Inr (p, s') \<Longrightarrow> p \<noteq> 0 \<Longrightarrow> heap_run B (insert p P) s'"
| run_page_free: "heap_run B P s \<Longrightarrow> p \<in> P \<Longrightarrow> page_free p s = Inr ((), s') \<Longrightarrow> heap_run B (P - {p}) s'"
| run_block_write: "heap_run B P s \<Longrightarrow> (b, n) \<in> B \<Longrightarrow> k < n \<Longrightarrow> heap_run B P (s\<lparr>mem := (mem s)(b + of_nat k := v)\<rparr>)"
| run_page_write: "heap_run B P s \<Longrightarrow> page_base a \<in> P \<Longrightarrow> heap_run B P (s\<lparr>mem := (mem s)(a := v)\<rparr>)"

definition owns :: "(u64 \<times> nat) set \<Rightarrow> u64 set \<Rightarrow> (nat \<Rightarrow> u64 list) \<Rightarrow> 'a heap_scheme \<Rightarrow> bool" where
  "owns B P ps s \<longleftrightarrow> heap_inv ps s \<and> P \<subseteq> allocated s \<and> P \<inter> heap_frames ps = {} \<and>
     inj_on fst B \<and> fst ` B = fst ` live ps (mem s) \<and> (\<forall>(b, n)\<in>B. \<exists>l\<ge>n. (b, l) \<in> live ps (mem s))"

lemma ownsD:
  assumes "owns B P ps s"
  shows "heap_inv ps s" "P \<subseteq> allocated s" "P \<inter> heap_frames ps = {}" "inj_on fst B" "fst ` B = fst ` live ps (mem s)"
    "(b, n) \<in> B \<Longrightarrow> \<exists>l\<ge>n. (b, l) \<in> live ps (mem s)"
  using assms by (auto simp: owns_def)

lemma live_unique:
  assumes "heap_inv ps s" and "(a, l) \<in> live ps (mem s)" and "(a, n) \<in> live ps (mem s)"
  shows "l = n"
proof -
  obtain c p i d q h where "(c, p, i) \<in> cells ps" "a = blk p c i" "l = csz c" "(d, q, h) \<in> cells ps" "a = blk q d h" "n = csz d"
    using assms(2,3) by (auto simp: live_def used_cells_def)
  then show ?thesis using cell_eq [OF heap_invD(3) [OF assms(1)], of c p i d q h] by simp
qed

lemma live_frame:
  assumes "heap_inv ps s" and "(b, l) \<in> live ps (mem s)" and "k < l"
  shows "page_base (b + of_nat k) \<in> heap_frames ps"
proof -
  obtain c p i where x: "(c, p, i) \<in> cells ps" "b = blk p c i" "l = csz c" using assms(2) by (auto simp: live_def used_cells_def)
  then have c: "c < 7" "p \<in> set (ps c)" "i < cnt c" by (simp_all add: cells_def)
  have "unat p mod 4096 = 0" using chainsD(5) [OF heap_invD(3) [OF assms(1)] c(1,2)] by simp
  then show ?thesis using blk_page [OF c(1,3)] assms(3) x c by (auto simp: heap_frames_def)
qed

lemma live_overlap:
  assumes "heap_inv ps s" and "(a, l) \<in> live ps (mem s)" "(b, n) \<in> live ps (mem s)" and "a + of_nat j = b + of_nat k" "j < l" "k < n"
  shows "a = b"
proof -
  obtain c p i d q h where "(c, p, i) \<in> cells ps" "a = blk p c i" "l = csz c" "(d, q, h) \<in> cells ps" "b = blk q d h" "n = csz d"
    using assms(2,3) by (auto simp: live_def used_cells_def)
  then show ?thesis using cells_disjoint [OF heap_invD(3) [OF assms(1)], of c p i d q h j k] assms(4-6) by simp
qed

lemma owns_write:
  fixes s :: heap
  assumes o: "owns B P ps s" and a: "page_base a \<notin> heap_frames ps \<or> (\<exists>(b, l)\<in>live ps (mem s). \<exists>k<l. a = b + of_nat k)"
  shows "owns B P ps (s\<lparr>mem := (mem s)(a := v)\<rparr>)"
proof -
  let ?s' = "s\<lparr>mem := (mem s)(a := v)\<rparr>"
  have pf: "allocated ?s' = allocated s" "pages_inv ?s' = pages_inv s" by (rule pages_fields; simp)+
  have "((mem s)(a := v)) x = mem s x"
    if "page_base x \<in> heap_frames ps" "\<forall>(b, n)\<in>live ps (mem s). \<forall>k<n. x \<noteq> b + of_nat k" for x
    using that a by auto
  then have "heap_inv ps ?s'" "live ps (mem ?s') = live ps (mem s)"
    using user_write_inv [OF ownsD(1) [OF o], of "(mem s)(a := v)"] by (simp_all del: fun_upd_apply)
  then show ?thesis using o by (simp add: owns_def pf)
qed

lemma class_of_size:
  assumes "class_index_for_size sz = int c"
  obtains "c < 7" "unat sz \<le> csz c"
proof -
  have z: "sz \<noteq> 0" "sz \<le> 2048" using assms class_none [of sz] by (auto simp: not_less [symmetric])
  obtain d where d: "d < 7" "class_index_for_size sz = int d" "unat sz \<le> csz d" by (rule class_ok [OF z])
  then show thesis using that assms by simp
qed

text \<open>A call that returns a block chose a class.\<close>

lemma kmalloc_class:
  assumes "kmalloc sz s = Some (Inr (b, s'))"
  shows "class_index_for_size sz = -1 \<and> b = 0 \<and> s' = irq_restore (sstatus s) (snd (irq_save s)) \<or> (\<exists>c. class_index_for_size sz = int c)"
proof (cases "class_index_for_size sz < 0")
  case True
  then have "class_index_for_size sz = -1"
    using class_ok [of sz] by (cases "sz = 0 \<or> 2048 < sz") (auto simp: class_none not_less)
  then show ?thesis using assms by (auto simp: kmalloc_def irq_save_def csr_clear_sstatus_def Let_def split: if_splits)
next
  case False
  then show ?thesis by (metis nonneg_int_cases not_less)
qed

lemma owns_given:
  fixes s s' :: heap
  assumes o: "owns B P ps s" and m: "malloc_done c ps ps' b s s'" and b: "b \<noteq> 0" and z: "n \<le> csz c"
  shows "owns (insert (b, n) B) P ps' s'"
proof -
  note d = ownsD [OF o]
  have g: "heap_inv ps' s'" "allocated s' = allocated s \<union> heap_frames ps'" "live ps' (mem s') = insert (b, csz c) (live ps (mem s))"
    using m b by (simp_all add: malloc_done_def block_given_def)
  have new: "b \<noteq> a" if "(a, l) \<in> live ps (mem s)" for a l
  proof -
    have "0 < l" using that class_facts(2) by (fastforce simp: live_def used_cells_def cells_def)
    moreover have "\<forall>k<l. \<forall>j<csz c. a + of_nat k \<noteq> b + of_nat j"
      using m b that unfolding malloc_done_def block_given_def by fastforce
    moreover have "0 < csz c" by (simp add: csz_def)
    ultimately show ?thesis by fastforce
  qed
  then have "b \<notin> fst ` B" unfolding d(5) by fastforce
  then have "inj_on fst (insert (b, n) B)" using d(4) by auto
  moreover have "P \<inter> heap_frames ps' = {}" using m d(2,3) by (auto simp: malloc_done_def)
  moreover have "\<forall>(a, m)\<in>insert (b, n) B. \<exists>l\<ge>m. (a, l) \<in> live ps' (mem s')"
    using z g(3) by (auto dest!: d(6))
  ultimately show ?thesis unfolding owns_def using d g by auto
qed

lemma owns_mem_same:
  fixes s s' :: heap
  assumes "owns B P ps s" and "heap_inv ps s'" and "mem s' = mem s" and "P' \<subseteq> allocated s'" and "P' \<inter> heap_frames ps = {}"
  shows "owns B P' ps s'"
  using assms by (simp add: owns_def)

lemma heap_inv_page:
  fixes s :: heap
  assumes inv: "heap_inv ps s" and s': "s' = s\<lparr>page_bitmap := bm, free_pages := fp, next_free_hint := hint\<rparr>"
    and "pages_inv s'" and "heap_frames ps \<subseteq> allocated s'"
  shows "heap_inv ps s'"
  using inv assms(3,4) unfolding s' by (simp add: heap_inv_def)

lemma owns_run: "heap_run B P s \<Longrightarrow> \<exists>ps. owns B P ps s"
proof (induction rule: heap_run.induct)
  case (run_init s s')
  then obtain t where "heap_init s = Inr ((), t)" "heap_inv (\<lambda>_. []) t" using heap_init_ok by blast
  moreover have "live (\<lambda>_. []) m = {}" "heap_frames (\<lambda>_. []) = {}" for m
    by (auto simp: live_def used_cells_def cells_def heap_frames_def)
  ultimately have "owns {} {} (\<lambda>_. []) s'" using run_init by (simp add: owns_def)
  then show ?case by blast
next
  case (run_kmalloc B P s sz b s')
  then obtain ps where o: "owns B P ps s" by blast
  obtain c where "class_index_for_size sz = int c" using kmalloc_class run_kmalloc by blast
  then have c: "c < 7" "class_index_for_size sz = int c" "unat sz \<le> csz c" by (auto elim: class_of_size)
  obtain ps' where "malloc_done c ps ps' b s s'" using kmalloc_ok [OF ownsD(1) [OF o] c(1,2)] run_kmalloc by auto
  then show ?case using owns_given [OF o _ run_kmalloc(3) c(3)] by blast
next
  case (run_kmalloc_null B P s sz s')
  then obtain ps where o: "owns B P ps s" by blast
  consider "s' = irq_restore (sstatus s) (snd (irq_save s))" | c where "class_index_for_size sz = int c"
    using kmalloc_class run_kmalloc_null by blast
  then show ?case
  proof cases
    case 1
    then have "owns B P ps s'" using o by (simp add: owns_def)
    then show ?thesis by blast
  next
    case 2
    then have c: "c < 7" by (auto elim: class_of_size)
    obtain ps' where m: "malloc_done c ps ps' 0 s s'" using kmalloc_ok [OF ownsD(1) [OF o] c 2] run_kmalloc_null by auto
    then have "owns B P ps s'" using ownsD(2,3) [OF o] by (intro owns_mem_same [OF o]) (auto simp: malloc_done_def)
    then show ?thesis by blast
  qed
next
  case (run_kzalloc B P s sz b s')
  then obtain ps where o: "owns B P ps s" by blast
  obtain s1 where "kmalloc sz s = Some (Inr (b, s1))"
    using run_kzalloc by (auto simp: kzalloc_def bindE_def Let_def split: option.splits sum.splits if_splits)
  then obtain c where "class_index_for_size sz = int c" using kmalloc_class run_kzalloc(3) by blast
  then have c: "c < 7" "class_index_for_size sz = int c" "unat sz \<le> csz c" by (auto elim: class_of_size)
  obtain ps' where "malloc_done c ps ps' b s s'" using kzalloc_ok [OF ownsD(1) [OF o] c(1,2)] run_kzalloc by auto
  then show ?case using owns_given [OF o _ run_kzalloc(3) c(3)] by blast
next
  case (run_kfree B P s b n s')
  then obtain ps where o: "owns B P ps s" by blast
  note d = ownsD [OF o]
  obtain l where l: "(b, l) \<in> live ps (mem s)" using d(6) run_kfree by blast
  then have f: "heap_inv ps s'" "allocated s' = allocated s" "live ps (mem s') = live ps (mem s) - {(b, l)}"
    using kfree_ok [OF d(1) l] run_kfree by auto
  have inj: "m = n" if "(b, m) \<in> B" for m using inj_onD [OF d(4), of "(b, m)" "(b, n)"] that run_kfree by simp
  then have "fst ` (B - {(b, n)}) = fst ` B - {b}" by force
  moreover have "fst ` live ps (mem s') = fst ` live ps (mem s) - {b}"
    unfolding f(3) using live_unique [OF d(1) l] by force
  moreover have "(a, k) \<noteq> (b, l)" if "(a, m) \<in> B - {(b, n)}" for a m k
    using that inj by auto
  then have "\<forall>(a, m)\<in>B - {(b, n)}. \<exists>k\<ge>m. (a, k) \<in> live ps (mem s')" unfolding f(3) using d(6) by blast
  ultimately have "owns (B - {(b, n)}) P ps s'"
    unfolding owns_def using d f by (auto intro: inj_on_subset)
  then show ?case by blast
next
  case (run_page_alloc B P s p s')
  then obtain ps where o: "owns B P ps s" by blast
  note d = ownsD [OF o] and h = heap_invD [OF d(1)]
  note fr = pages.alloc_fresh [OF h(1) run_page_alloc(2,3)]
  obtain bm fp hint where s': "s' = s\<lparr>page_bitmap := bm, free_pages := fp, next_free_hint := hint\<rparr>"
    using page_alloc_frame [OF h(1) run_page_alloc(2)] by blast
  have "heap_inv ps s'" using fr h(4) by (intro heap_inv_page [OF d(1) s']) auto
  then have "owns B (insert p P) ps s'"
    using fr d h(4) by (intro owns_mem_same [OF o]) (auto simp: s')
  then show ?case by blast
next
  case (run_page_free B P s p s')
  then obtain ps where o: "owns B P ps s" by blast
  note d = ownsD [OF o] and h = heap_invD [OF d(1)]
  have p: "p \<in> allocated s" "p \<notin> heap_frames ps" using d(2,3) run_page_free by auto
  have fr: "pages_inv s'" "allocated s' = allocated s - {p}" using pages.free_owned [OF h(1) p(1)] run_page_free by auto
  obtain bm fp hint where s': "s' = s\<lparr>page_bitmap := bm, free_pages := fp, next_free_hint := hint\<rparr>"
    using page_free_frame run_page_free by blast
  have "heap_inv ps s'" using fr h(4) p by (intro heap_inv_page [OF d(1) s']) auto
  then have "owns B (P - {p}) ps s'"
    using fr d p by (intro owns_mem_same [OF o]) (auto simp: s')
  then show ?case by blast
next
  case (run_block_write B P s b n k v)
  then obtain ps where o: "owns B P ps s" by blast
  obtain l where l: "(b, l) \<in> live ps (mem s)" "n \<le> l" using ownsD(6) [OF o] run_block_write by blast
  have "\<exists>k'<l. b + of_nat k = b + of_nat k'" using l(2) run_block_write(3) by (intro exI [of _ k]) simp
  then have "\<exists>(b', l)\<in>live ps (mem s). \<exists>k'<l. b + of_nat k = b' + of_nat k'" using l(1) by blast
  then show ?case using owns_write [OF o] by blast
next
  case (run_page_write B P s a v)
  then obtain ps where o: "owns B P ps s" by blast
  then have "page_base a \<notin> heap_frames ps" using ownsD(3) [OF o] run_page_write by blast
  then show ?case using owns_write [OF o] by blast
qed

section \<open>Properties\<close>

text \<open>
  C11: A request the heap can serve either gets a block or fails because memory is exhausted. The block
  belongs to the smallest size class that fits the request, is 16-byte aligned, and overlaps no block
  that is already handed out; those blocks keep their contents, and so does all memory outside the
  heap's own pages. A null result means that every block of the class and every managed page is in
  use, and then nothing has changed.
\<close>

theorem kmalloc_serves:
  fixes s :: "'a heap_scheme"
  assumes "heap_inv ps s" and "sz \<noteq> 0" and "sz \<le> 2048"
  shows "\<exists>c b s' ps'. c < 7 \<and> unat sz \<le> csz c \<and> (0 < c \<longrightarrow> csz (c - 1) < unat sz) \<and>
    kmalloc sz s = Some (Inr (b, s')) \<and> malloc_done c ps ps' b s s'"
proof -
  obtain c where c: "c < 7" "class_index_for_size sz = int c" "unat sz \<le> csz c" "0 < c \<longrightarrow> csz (c - 1) < unat sz"
    using class_ok [OF assms(2,3)] by metis
  with kmalloc_ok [OF assms(1) c(1,2)] show ?thesis by blast
qed

text \<open>
  C12: \<open>kfree\<close> takes back exactly the blocks that are handed out. Any other non-null address
  of a heap page (inside the header, inside a block, past the last block, or of a block that is
  free), any address outside managed memory, and any address whose page does not begin with the
  heap's magic number stops the kernel.
\<close>

theorem kfree_exact:
  fixes s :: "'a heap_scheme"
  assumes "heap_inv ps s" and "b \<noteq> 0"
    and "page_base b \<in> heap_frames ps \<or> page_base b < managed_start s \<or> managed_end s \<le> page_base b \<or>
      read64 (mem s) (page_base b) \<noteq> HEAP_PAGE_MAGIC"
  shows "(\<exists>s'. kfree b s = Inr ((), s')) \<longleftrightarrow> (\<exists>n. (b, n) \<in> live ps (mem s))"
  using kfree_refuses [OF assms(1,2) _ assms(3)] kfree_ok [OF assms(1)] by (metis Inl_Inr_False)

text \<open>
  C18: The heap stays well formed under use. After initialisation and any sequence of
  \<open>kmalloc\<close>, \<open>kzalloc\<close>, \<open>kfree\<close>, page allocations and page
  frees, with clients writing anything to the blocks and pages they own, every page of every class has
  a sound header, free list and bitmap, the byte counters are exact, the blocks handed out are
  those the clients own, each at least as large as its client asked, and no client page is a heap page.
  Blocks never overlap, and each of them can be given back.
\<close>

theorem heap_run_well_formed:
  assumes "heap_run B P s"
  shows "\<exists>ps. owns B P ps s \<and> (\<forall>(a, m)\<in>B. \<exists>s'. kfree a s = Inr ((), s')) \<and>
    (\<forall>(a, m)\<in>B. \<forall>(b, n)\<in>B. \<forall>j<m. \<forall>k<n. a + of_nat j = b + of_nat k \<longrightarrow> (a, m) = (b, n))"
proof -
  obtain ps where o: "owns B P ps s" using owns_run [OF assms] by blast
  note d = ownsD [OF o]
  have "\<exists>s'. kfree a s = Inr ((), s')" if am: "(a, m) \<in> B" for a m
    using d(6) [OF am] kfree_ok [OF d(1)] by blast
  moreover have "(a, m) = (b, n)"
    if ab: "(a, m) \<in> B" "(b, n) \<in> B" and jk: "j < m" "k < n" "a + of_nat j = b + of_nat k" for a m b n j k
  proof -
    obtain l h where "(a, l) \<in> live ps (mem s)" "m \<le> l" "(b, h) \<in> live ps (mem s)" "n \<le> h"
      using d(6) [OF ab(1)] d(6) [OF ab(2)] by blast
    then have "a = b" using live_overlap [OF d(1) _ _ jk(3)] jk(1,2) by simp
    then show ?thesis using inj_onD [OF d(4), of "(a, m)" "(b, n)"] ab by simp
  qed
  ultimately show ?thesis using o by (intro exI [of _ ps]) blast
qed

section \<open>A concrete heap\<close>

definition demo_unbooted :: heap where
  "demo_unbooted = \<lparr>mem = (\<lambda>_. 0), sstatus = 2, satp = 0, sfences = 0, console = [],
     cycle_at = (\<lambda>_. 0), cycle_reads = 0, link = demo_link, page_bitmap = [],
     page_bitmap_words = 0, managed_start = 0, managed_end = 0, total_pages = 0,
     free_pages = 0, next_free_hint = 0, page_allocator_initialized = False,
     heap_pools = [], heap_pages = 0, heap_free_blocks_bytes = 0, heap_allocated_blocks_bytes = 0,
     heap_initialized = False\<rparr>"

text \<open>Four pages, the heap started, and one block of 100 bytes asked for.\<close>

lemma demo_heap:
  obtains s b s1 ps where "heap_run {} {} s" "heap_inv (\<lambda>_. []) s" "kmalloc 100 s = Some (Inr (b, s1))" "b \<noteq> 0"
    "heap_inv ps s1" "live ps (mem s1) = {(b, 128)}" "heap_run {(b, 100)} {} s1"
proof -
  define s0 where "s0 = page_init_state 0x80000000 0x80004000 demo_unbooted"
  have inv: "pages_inv s0" "used_pages s0 = {}" "total_pages s0 = 4"
    unfolding s0_def
    by (rule page_init_state_inv; simp add: align_up_def page_base_def PAGE_MASK_def PAGE_SIZE_def demo_unbooted_def demo_link_def)+
      (simp add: page_init_state_def align_up_def page_base_def PAGE_MASK_def PAGE_SIZE_def demo_unbooted_def demo_link_def Let_def)
  obtain s where s: "heap_init s0 = Inr ((), s)" "heap_inv (\<lambda>_. []) s" "allocated s = allocated s0" "managed_frames s = managed_frames s0"
    using heap_init_ok [OF inv(1)] by blast
  have "page_addr_from_index s0 0 \<in> managed_frames s0" using inv(3) by (auto simp: managed_frames_def)
  moreover have "allocated s0 = {}" using inv(2) by (simp add: allocated_def)
  ultimately have free: "allocated s \<noteq> managed_frames s" using s(3,4) by auto
  have c: "(2 :: nat) < 7" "class_index_for_size 100 = int 2"
    by (simp_all add: class_index_for_size_def HEAP_MAX_CLASS_def heap_class_sizes_def)
  obtain b s1 ps where k: "kmalloc 100 s = Some (Inr (b, s1))" "malloc_done 2 (\<lambda>_. []) ps b s s1"
    using kmalloc_ok [OF s(2) c] by blast
  have b: "b \<noteq> 0" using k(2) free by (auto simp: malloc_done_def)
  have r: "heap_run {} {} s" by (rule run_init [OF inv(1) s(1)])
  from run_kmalloc [OF this k(1) b] have r1: "heap_run {(b, 100)} {} s1" by simp
  have "live (\<lambda>_. []) (mem s) = {}" by (auto simp: live_def used_cells_def cells_def)
  then have l: "heap_inv ps s1" "live ps (mem s1) = {(b, 128)}"
    using k(2) b by (simp_all add: malloc_done_def block_given_def csz_def)
  show thesis by (rule that [OF r s(2) k(1) b l r1])
qed

theorem kmalloc_serves_witness:
  "\<exists>(s :: heap) b s1 ps. heap_inv (\<lambda>_. []) s \<and> kmalloc 100 s = Some (Inr (b, s1)) \<and> b \<noteq> 0 \<and> live ps (mem s1) = {(b, 128)}"
proof -
  obtain s :: heap and b s1 where d: "heap_inv (\<lambda>_. []) s" "kmalloc 100 s = Some (Inr (b, s1))" "b \<noteq> 0"
    by (rule demo_heap) (rule that)
  obtain c ps where m: "c < 7" "unat (100 :: u64) \<le> csz c" "0 < c \<longrightarrow> csz (c - 1) < unat (100 :: u64)"
    "malloc_done c (\<lambda>_. []) ps b s s1"
    using kmalloc_serves [OF d(1), of 100] d(2) by auto
  have "csz c = 128" using m(1-3) class_cases [OF m(1)] by (auto simp: csz_def)
  moreover have "live (\<lambda>_. []) (mem s) = {}" by (auto simp: live_def used_cells_def cells_def)
  ultimately have "live ps (mem s1) = {(b, 128)}" using m(4) d(3) by (simp add: malloc_done_def block_given_def)
  with d show ?thesis by blast
qed

theorem kfree_exact_witness:
  "\<exists>(s :: heap) b ps s1. heap_inv ps s \<and> live ps (mem s) = {(b, 128)} \<and> kfree b s = Inr ((), s1) \<and>
     \<not> (\<exists>s1. kfree (b + 64) s = Inr ((), s1))"
proof -
  obtain s :: heap and b ps where d: "b \<noteq> 0" "heap_inv ps s" "live ps (mem s) = {(b, 128)}" by (rule demo_heap) (rule that)
  have f: "page_base (b + 64) \<in> heap_frames ps" "page_base b \<in> heap_frames ps"
    using live_frame [OF d(2), of b 128 64] live_frame [OF d(2), of b 128 0] d(3) by simp_all
  have "\<exists>c<7. page_base (b + 64) \<in> set (ps c)" using f(1) by (auto simp: heap_frames_def)
  then have "page_base (b + 64) \<noteq> 0" using chainsD(5) [OF heap_invD(3) [OF d(2)]] by blast
  then have "b + 64 \<noteq> 0" by (auto simp: page_base_def)
  then have "\<not> (\<exists>s1. kfree (b + 64) s = Inr ((), s1))" using kfree_exact [OF d(2), of "b + 64"] f(1) d(3) by simp
  moreover have "\<exists>s1. kfree b s = Inr ((), s1)" using kfree_exact [OF d(2,1)] f(2) d(3) by simp
  ultimately show ?thesis using d by blast
qed

theorem heap_run_well_formed_witness:
  "\<exists>s b ps. heap_run {(b, 100)} {} s \<and> owns {(b, 100)} {} ps s \<and> (\<exists>s'. kfree b s = Inr ((), s'))"
proof -
  obtain s b where r: "heap_run {(b, 100)} {} s" by (rule demo_heap) (rule that)
  from heap_run_well_formed [OF r] r show ?thesis by auto
qed

end
