(* ===== verification/Hart.thy ===== *)
theory Hart
  imports Machine_Mode Sched_Create
begin

text \<open>
  What the hart does on its own, between the instructions of the kernel: the translation of a virtual address in
  supervisor mode and the taking of and return from a supervisor trap, as the RISC-V privileged specification gives
  them, with the part of \<^verbatim>\<open>arch/riscv64/trap.S\<close> that carries the registers of the trap over to the frame and
  back. The main lemma ties the hart's walk to the mappings that \<^verbatim>\<open>vm.c\<close> makes.
\<close>

section \<open>Address translation\<close>

text \<open>
  Sv39. A walk starts at the root table on level 2 and ends at a leaf, which may be on any level. An entry that is
  not valid, writable but not readable, or has a reserved bit set faults, as does a pointer on the last level.
\<close>

definition sv39_vpn :: "u64 \<Rightarrow> nat \<Rightarrow> u64" where
  "sv39_vpn va l = take_bit 9 (drop_bit (12 + 9 * l) va)"

definition sv39_ppn :: "u64 \<Rightarrow> u64" where
  "sv39_ppn pte = take_bit 44 (drop_bit 10 pte)"

definition sv39_canonical :: "u64 \<Rightarrow> bool" where
  "sv39_canonical va \<longleftrightarrow> drop_bit 38 va = 0 \<or> drop_bit 38 va = mask 26"

definition sv39_entry_ok :: "u64 \<Rightarrow> bool" where
  "sv39_entry_ok pte \<longleftrightarrow> pte AND VM_PTE_V \<noteq> 0 \<and> (pte AND VM_PTE_W \<noteq> 0 \<longrightarrow> pte AND VM_PTE_R \<noteq> 0) \<and> drop_bit 54 pte = 0"

primrec sv39_walk :: "memory \<Rightarrow> u64 \<Rightarrow> nat \<Rightarrow> u64 \<Rightarrow> (nat \<times> u64) option" where
  "sv39_walk m va 0 table =
     (let pte = read64 m (table + sv39_vpn va 0 * 8) in
      if sv39_entry_ok pte \<and> pte AND (VM_PTE_R OR VM_PTE_X) \<noteq> 0 then Some (0, pte) else None)"
| "sv39_walk m va (Suc l) table =
     (let pte = read64 m (table + sv39_vpn va (Suc l) * 8) in
      if \<not> sv39_entry_ok pte then None
      else if pte AND (VM_PTE_R OR VM_PTE_X) \<noteq> 0 then Some (Suc l, pte)
      else sv39_walk m va l (push_bit 12 (sv39_ppn pte)))"

text \<open>
  Whether a leaf allows a load or a store (\<open>write\<close>) in supervisor mode. A user page is accessible only while
  \<open>SUM\<close> is set in \<open>sstatus\<close>, an execute-only page can be read only while \<open>MXR\<close> is set. A page whose
  accessed bit is clear, or whose dirty bit is clear on a store, faults: the scheme in which software manages these
  bits. On a hart that sets them itself the two schemes agree on every page whose flags have them set, as
  the kernel's own have.
\<close>

definition SSTATUS_MXR :: u64 where "SSTATUS_MXR = 0x80000"

definition sv39_allows :: "bool \<Rightarrow> u64 \<Rightarrow> u64 \<Rightarrow> bool" where
  "sv39_allows write status pte \<longleftrightarrow>
     (if write then pte AND VM_PTE_W \<noteq> 0 \<and> pte AND VM_PTE_D \<noteq> 0
      else pte AND VM_PTE_R \<noteq> 0 \<or> status AND SSTATUS_MXR \<noteq> 0 \<and> pte AND VM_PTE_X \<noteq> 0) \<and>
     (pte AND VM_PTE_U \<noteq> 0 \<longrightarrow> status AND SSTATUS_SUM \<noteq> 0) \<and> pte AND VM_PTE_A \<noteq> 0"

text \<open>
  The physical address of a load or store, or \<open>None\<close> for a page fault. \<open>satp\<close> selects the mode and the root; of
  its modes the hart has bare and Sv39. A leaf above the last level maps a superpage, which must be aligned.
\<close>

definition hart_translate :: "bool \<Rightarrow> u64 \<Rightarrow> 'a hw_scheme \<Rightarrow> u64 option" where
  "hart_translate write va s =
     (if drop_bit 60 (satp s) = 0 then Some va
      else if drop_bit 60 (satp s) \<noteq> 8 \<or> \<not> sv39_canonical va then None
      else case sv39_walk (mem s) va 2 (push_bit 12 (take_bit 44 (satp s))) of
          None \<Rightarrow> None
        | Some (l, pte) \<Rightarrow>
            if sv39_allows write (sstatus s) pte \<and> take_bit (9 * l) (sv39_ppn pte) = 0
            then Some (push_bit 12 (sv39_ppn pte) OR take_bit (12 + 9 * l) va) else None)"

section \<open>Supervisor traps\<close>

text \<open>
  A trap taken in supervisor mode: the cause and its address, and in \<open>sstatus\<close> the previous mode and the
  previous interrupt enable, with interrupts off. \<open>sret\<close> undoes this and leaves the user as the previous mode.
\<close>

definition hart_trap :: "u64 \<Rightarrow> u64 \<Rightarrow> u64 \<Rightarrow> 'a timer_scheme \<Rightarrow> 'a timer_scheme" where
  "hart_trap pc cause tval s =
     (upd_csrs (\<lambda>c. c\<lparr>c_sepc := pc, c_scause := cause, c_stval := tval\<rparr>) s)
       \<lparr>sstatus := (sstatus s AND NOT (SSTATUS_SIE OR SSTATUS_SPIE)) OR SSTATUS_SPP OR
          (if sstatus s AND SSTATUS_SIE \<noteq> 0 then SSTATUS_SPIE else 0)\<rparr>"

definition hart_sret :: "'a timer_scheme \<Rightarrow> 'a timer_scheme" where
  "hart_sret s = s\<lparr>sstatus := (sstatus s AND NOT (SSTATUS_SIE OR SSTATUS_SPP)) OR SSTATUS_SPIE OR
     (if sstatus s AND SSTATUS_SPIE \<noteq> 0 then SSTATUS_SIE else 0)\<rparr>"

text \<open>
  The trap entry from \<open>trap_entry_save_csrs\<close> and the return from \<open>trap_restore_frame\<close>, as far as the control and
  status registers go. The general registers, which are saved and restored beside them, are not part of the model, nor is \<open>sscratch\<close>, which
  only the entry code itself uses.
\<close>

definition trap_entry_save_csrs :: "u64 \<Rightarrow> 'a timer_scheme \<Rightarrow> 'a timer_scheme" where
  "trap_entry_save_csrs frame s =
     (let s = store64 (frame + FRAME_MEPC) (csr_read_sepc s) s;
          s = store64 (frame + FRAME_MSTATUS) (csr_read_sstatus s) s;
          s = store64 (frame + FRAME_MCAUSE) (csr_read_scause s) s
      in store64 (frame + FRAME_MTVAL) (csr_read_stval s) s)"

definition trap_restore_frame :: "u64 \<Rightarrow> 'a timer_scheme \<Rightarrow> 'a timer_scheme" where
  "trap_restore_frame frame s =
     (let s = csr_write_sepc (load64 (frame + FRAME_MEPC) s) s;
          s = s\<lparr>sstatus := load64 (frame + FRAME_MSTATUS) s\<rparr>
      in hart_sret s)"

text \<open>What \<open>sstatus\<close> has become when a trap has come back.\<close>

definition after_trap :: "u64 \<Rightarrow> u64" where
  "after_trap v = (v OR SSTATUS_SPIE) AND NOT SSTATUS_SPP"

lemma status_bit:
  "bit SSTATUS_SIE n \<longleftrightarrow> n = 1" "bit SSTATUS_SPIE n \<longleftrightarrow> n = 5" "bit SSTATUS_SPP n \<longleftrightarrow> n = 8" "bit SSTATUS_SUM n \<longleftrightarrow> n = 18"
  using bit_exp_iff [where 'a = "64 word", of 1 n] bit_exp_iff [where 'a = "64 word", of 5 n] bit_exp_iff [where 'a = "64 word", of 8 n]
    bit_exp_iff [where 'a = "64 word", of 18 n]
  by (auto simp: SSTATUS_SIE_def SSTATUS_SPIE_def SSTATUS_SPP_def SSTATUS_SUM_def)

lemma status_test:
  "x AND SSTATUS_SIE \<noteq> 0 \<longleftrightarrow> bit x 1" "x AND SSTATUS_SPIE \<noteq> 0 \<longleftrightarrow> bit x 5" "x AND SSTATUS_SPP \<noteq> 0 \<longleftrightarrow> bit x 8"
  "x AND SSTATUS_SUM \<noteq> 0 \<longleftrightarrow> bit x 18"
  using and_exp_eq_0_iff_not_bit [of x 1] and_exp_eq_0_iff_not_bit [of x 5] and_exp_eq_0_iff_not_bit [of x 8] and_exp_eq_0_iff_not_bit [of x 18]
  by (simp_all add: SSTATUS_SIE_def SSTATUS_SPIE_def SSTATUS_SPP_def SSTATUS_SUM_def)

lemmas status_simps = bit_and_iff bit_or_iff bit_not_iff status_bit

lemma trap_status:
  fixes v :: u64
  defines "w \<equiv> (v AND NOT (SSTATUS_SIE OR SSTATUS_SPIE)) OR SSTATUS_SPP OR (if v AND SSTATUS_SIE \<noteq> 0 then SSTATUS_SPIE else 0)"
  shows "(w AND NOT (SSTATUS_SIE OR SSTATUS_SPP)) OR SSTATUS_SPIE OR (if w AND SSTATUS_SPIE \<noteq> 0 then SSTATUS_SIE else 0) = after_trap v"
    and "w AND SSTATUS_SPP \<noteq> 0"
proof -
  have w: "bit w n \<longleftrightarrow> n < 64 \<and> (bit v n \<and> n \<noteq> 1 \<and> n \<noteq> 5 \<or> n = 8 \<or> n = 5 \<and> bit v 1)" for n
    unfolding w_def status_test(1) by (auto simp: status_simps dest: bit_imp_le_length)
  have "bit ((w AND NOT (SSTATUS_SIE OR SSTATUS_SPP)) OR SSTATUS_SPIE OR (if w AND SSTATUS_SPIE \<noteq> 0 then SSTATUS_SIE else 0)) n =
      bit (after_trap v) n" if "n < 64" for n
    unfolding status_test(2) after_trap_def using that by (auto simp: status_simps w)
  then show "(w AND NOT (SSTATUS_SIE OR SSTATUS_SPP)) OR SSTATUS_SPIE OR (if w AND SSTATUS_SPIE \<noteq> 0 then SSTATUS_SIE else 0) = after_trap v"
    by (intro bit_word_eqI) simp
  show "w AND SSTATUS_SPP \<noteq> 0" unfolding status_test(3) by (simp add: w)
qed

text \<open>The frame after the trap entry.\<close>

lemma trap_frame_words:
  fixes m :: memory and f pc st cause va x :: u64
  assumes f: "unat f mod 8 = 0"
  defines "m' \<equiv> write64 (write64 (write64 (write64 m (f + FRAME_MEPC) pc) (f + FRAME_MSTATUS) st) (f + FRAME_MCAUSE) cause) (f + FRAME_MTVAL) va"
  shows "read64 m' (f + FRAME_MEPC) = pc" "read64 m' (f + FRAME_MSTATUS) = st" "read64 m' (f + FRAME_MTVAL) = va"
    "read64 (write64 m' (f + FRAME_MEPC) x) (f + FRAME_MSTATUS) = st"
  using read_word_write [OF f, of 31 34] read_word_write [OF f, of 31 33] read_word_write [OF f, of 31 32]
    read_word_write [OF f, of 32 34] read_word_write [OF f, of 32 33] read_word_write [OF f, of 32 31]
  by (simp_all add: m'_def cell64.rd_wr FRAME_MEPC_def FRAME_MCAUSE_def FRAME_MTVAL_def FRAME_MSTATUS_def)

section \<open>The hart on the kernel's tables\<close>

lemma sv39_vpn_index: "sv39_vpn va l = vpn_index va l"
  by (rule bit_word_eqI) (auto simp: sv39_vpn_def bit_vpn_index bit_take_bit_iff bit_drop_bit_eq ac_simps)

lemma drop_bit_zero: "drop_bit n (x :: u64) = 0 \<longleftrightarrow> (\<forall>i\<ge>n. \<not> bit x i)"
proof
  assume e: "drop_bit n x = 0"
  show "\<forall>i\<ge>n. \<not> bit x i"
  proof (intro allI impI)
    fix i assume "n \<le> i"
    have "\<not> bit (drop_bit n x) (i - n)" unfolding e by simp
    then show "\<not> bit x i" using \<open>n \<le> i\<close> by (simp add: bit_drop_bit_eq)
  qed
qed (auto intro!: bit_word_eqI simp: bit_drop_bit_eq)

lemma sv39_canonical_iff: "sv39_canonical va \<longleftrightarrow> va_is_canonical va"
proof -
  have z: "drop_bit 38 va = 0 \<longleftrightarrow> (\<forall>n. 38 \<le> n \<longrightarrow> n < 64 \<longrightarrow> \<not> bit va n)"
    unfolding drop_bit_zero using bit_imp_le_length [of va] by (auto simp: not_le [symmetric])
  have m: "drop_bit 38 va = mask 26 \<longleftrightarrow> (\<forall>n. 38 \<le> n \<longrightarrow> n < 64 \<longrightarrow> bit va n)"
  proof
    assume e: "drop_bit 38 va = mask 26"
    show "\<forall>n. 38 \<le> n \<longrightarrow> n < 64 \<longrightarrow> bit va n"
    proof (intro allI impI)
      fix n :: nat assume "38 \<le> n" "n < 64"
      then have "n - 38 < 26" "n - 38 < 64" by linarith+
      then have "bit (drop_bit 38 va) (n - 38)" unfolding e by (simp add: bit_mask_iff)
      then show "bit va n" using \<open>38 \<le> n\<close> by (simp add: bit_drop_bit_eq)
    qed
  next
    assume "\<forall>n. 38 \<le> n \<longrightarrow> n < 64 \<longrightarrow> bit va n"
    then show "drop_bit 38 va = mask 26"
      by (intro bit_word_eqI) (auto simp: bit_drop_bit_eq bit_mask_iff dest: bit_imp_le_length)
  qed
  have "(\<forall>n. 38 \<le> n \<longrightarrow> n < 64 \<longrightarrow> bit va n = v) \<longleftrightarrow> bit va 38 = v \<and> (\<forall>n. 39 \<le> n \<longrightarrow> n < 64 \<longrightarrow> bit va n = v)" for v
  proof
    assume r: "bit va 38 = v \<and> (\<forall>n. 39 \<le> n \<longrightarrow> n < 64 \<longrightarrow> bit va n = v)"
    show "\<forall>n. 38 \<le> n \<longrightarrow> n < 64 \<longrightarrow> bit va n = v"
    proof (intro allI impI)
      fix n :: nat assume "38 \<le> n" "n < 64"
      then show "bit va n = v" using r by (cases "n = 38") auto
    qed
  qed auto
  from this [of True] this [of False] show ?thesis unfolding sv39_canonical_def z m va_is_canonical_iff by auto
qed

lemma sv39_ppn_pa:
  assumes "drop_bit 54 e = 0"
  shows "push_bit 12 (sv39_ppn e) = pte_to_pa e"
proof (rule bit_word_eqI)
  fix n assume "n < LENGTH(64)"
  have "n - 12 < 44" if "bit e (n - 12 + 10)"
  proof (rule ccontr)
    assume "\<not> n - 12 < 44"
    then have "54 \<le> n - 12 + 10" by simp
    then show False using that assms unfolding drop_bit_zero by blast
  qed
  then show "bit (push_bit 12 (sv39_ppn e)) n = bit (pte_to_pa e) n"
    by (auto simp: sv39_ppn_def pte_to_pa_def SV39_PPN_SHIFT_def bit_push_bit_iff bit_take_bit_iff bit_drop_bit_eq ac_simps)
qed

lemma clean_drop:
  assumes "pte_clean e"
  shows "drop_bit 54 e = 0 \<longleftrightarrow> drop_bit 56 (pte_to_pa e) = 0"
proof -
  have b: "bit (pte_to_pa e) i \<longleftrightarrow> i < 64 \<and> bit e (i - 2)" if "56 \<le> i" for i
  proof -
    have "10 + (i - 12) = i - 2" using that by simp
    then show ?thesis using that by (auto simp: pte_to_pa_def SV39_PPN_SHIFT_def bit_push_bit_iff bit_drop_bit_eq)
  qed
  have "\<not> bit e i" if "62 \<le> i" for i
  proof (cases "i < 64")
    case True
    then have "i = 62 \<or> i = 63" using that by auto
    then show ?thesis using assms by (auto simp: pte_clean_bits)
  qed (auto dest: bit_imp_le_length)
  then have "(\<forall>i\<ge>54. \<not> bit e i) \<longleftrightarrow> (\<forall>i\<ge>56. i < 64 \<longrightarrow> \<not> bit e (i - 2))"
    (is "?L \<longleftrightarrow> ?R")
  proof (intro iffI allI impI)
    fix i assume hi: "\<And>i. 62 \<le> i \<Longrightarrow> \<not> bit e i" and r: ?R and i: "(54 :: nat) \<le> i"
    show "\<not> bit e i"
    proof (cases "62 \<le> i")
      case False
      then show ?thesis using r [rule_format, of "i + 2"] i by simp
    qed (rule hi)
  qed auto
  then show ?thesis by (auto simp: drop_bit_zero b)
qed

text \<open>A leaf or a pointer of a well-formed tree, for the hart.\<close>

lemma clean_entry:
  assumes "pte_is_valid e" and "pte_clean e"
  shows "sv39_entry_ok e \<longleftrightarrow> drop_bit 56 (pte_to_pa e) = 0"
    and "e AND (VM_PTE_R OR VM_PTE_X) \<noteq> 0 \<longleftrightarrow> pte_is_leaf e"
proof -
  show "sv39_entry_ok e \<longleftrightarrow> drop_bit 56 (pte_to_pa e) = 0"
    using assms clean_drop [OF assms(2)] by (auto simp: sv39_entry_ok_def pte_is_valid_def pte_clean_def)
  have "e AND (VM_PTE_R OR VM_PTE_X) = (e AND 2) OR (e AND 8)" unfolding vm_flags by (simp only: bit.conj_disj_distrib)
  then show "e AND (VM_PTE_R OR VM_PTE_X) \<noteq> 0 \<longleftrightarrow> pte_is_leaf e"
    using assms(2) by (auto simp: or_neq_0 and_pow2_bit pte_is_leaf_bits pte_clean_bits)
qed

lemma entry_zero: "\<not> sv39_entry_ok 0"
  by (simp add: sv39_entry_ok_def)

lemma walk_entry: "read64 m (t + sv39_vpn va l * 8) = pt_entry m t (vpn_index va l)"
  by (simp add: pt_entry_def pte_addr_def sv39_vpn_index)

lemma sv39_walk_from:
  assumes wf: "pt_wf A m root" and ram: "\<forall>t\<in>pt_tables m root. drop_bit 56 t = 0"
    and "vpath p" "length p + l = 2" "pt_table m root p = Some t"
  shows "sv39_walk m va l t = (case pt_table m t (walk_path l va) of None \<Rightarrow> None
    | Some t' \<Rightarrow> let e = pt_entry m t' (vpn_index va 0) in
        if e = 0 \<or> drop_bit 56 (pte_to_pa e) \<noteq> 0 then None else Some (0, e))"
  using assms(3-5)
proof (induction l arbitrary: p t)
  case 0
  have "pt_entry m t (vpn_index va 0) = 0 \<or> pte_is_valid (pt_entry m t (vpn_index va 0)) \<and>
      pte_clean (pt_entry m t (vpn_index va 0)) \<and> pte_is_leaf (pt_entry m t (vpn_index va 0))"
    using pt_wf_table(2) [OF wf 0(1,3), of "vpn_index va 0"] 0(2) by auto
  then show ?case using clean_entry [of "pt_entry m t (vpn_index va 0)"] by (auto simp: Let_def walk_entry entry_zero)
next
  case (Suc l)
  let ?i = "vpn_index va (Suc l)"
  let ?e = "pt_entry m t ?i"
  have len: "length p < 2" "length (p @ [?i]) + l = 2" and vp: "vpath (p @ [?i])"
    using Suc.prems by (auto simp: vpath_snoc)
  from pt_wf_table(2) [OF wf Suc.prems(1,3), of ?i] len
  consider (link) "pte_is_valid ?e" "pte_clean ?e" "\<not> pte_is_leaf ?e" | (empty) "?e = 0" by auto
  then show ?case
  proof cases
    case link
    then have nt: "next_table m t ?i = Some (pte_to_pa ?e)" by (simp add: next_table_def)
    with Suc.prems(3) have tab: "pt_table m root (p @ [?i]) = Some (pte_to_pa ?e)" by (simp add: pt_table_snoc)
    then have "pte_to_pa ?e \<in> pt_tables m root" using vp unfolding pt_tables_def by blast
    then have d: "drop_bit 56 (pte_to_pa ?e) = 0" using ram by blast
    then have "drop_bit 54 ?e = 0" using clean_drop [OF link(2)] by simp
    then have "sv39_walk m va (Suc l) t = sv39_walk m va l (pte_to_pa ?e)"
      using clean_entry [OF link(1,2)] link(3) d by (simp add: Let_def walk_entry sv39_ppn_pa)
    then show ?thesis using Suc.IH [OF vp len(2) tab] nt by simp
  next
    case empty
    then show ?thesis by (simp add: Let_def walk_entry entry_zero next_table_def)
  qed
qed

text \<open>
  With \<open>satp\<close> naming a well-formed tree whose tables lie within the hart's physical addresses, the hart finds
  exactly the mappings of the tree, as far as their flags allow the access.
\<close>

definition in_sv39 :: "u64 \<Rightarrow> 'a pages_scheme \<Rightarrow> bool" where
  "in_sv39 root s \<longleftrightarrow> satp s = SATP_MODE_SV39 OR drop_bit 12 root \<and> vm_inv root s \<and> unat (managed_end s) \<le> 2 ^ 56"

lemma satp_fields:
  assumes "drop_bit 56 root = 0" and "page_aligned root"
  shows "drop_bit 60 (SATP_MODE_SV39 OR drop_bit 12 root) = 8"
    and "push_bit 12 (take_bit 44 (SATP_MODE_SV39 OR drop_bit 12 root)) = root"
proof -
  have r: "\<not> bit root i" if "56 \<le> i \<or> i < 12" for i
    using that assms by (auto simp: drop_bit_zero page_aligned_bits)
  have "drop_bit 60 (drop_bit 12 root) = 0" using r by (auto simp: drop_bit_zero bit_drop_bit_eq)
  then show "drop_bit 60 (SATP_MODE_SV39 OR drop_bit 12 root) = 8" by (simp add: drop_bit_or SATP_MODE_SV39_def)
  have b: "bit (SATP_MODE_SV39 :: u64) i \<longleftrightarrow> i = 63" for i
    using bit_exp_iff [where 'a = "64 word", of 63 i] by (auto simp: SATP_MODE_SV39_def)
  show "push_bit 12 (take_bit 44 (SATP_MODE_SV39 OR drop_bit 12 root)) = root"
  proof (rule bit_word_eqI)
    fix n assume "n < LENGTH(64)"
    show "bit (push_bit 12 (take_bit 44 (SATP_MODE_SV39 OR drop_bit 12 root))) n = bit root n"
    proof (cases "56 \<le> n \<or> n < 12")
      case True
      then have "n < 12 \<or> \<not> n - 12 < 44" by auto
      then show ?thesis using r [OF True] by (auto simp only: bit_push_bit_iff bit_take_bit_iff)
    next
      case False
      then have "n - 12 < 44" "n - 12 \<noteq> 63" "12 + (n - 12) = n" by auto
      then show ?thesis using False \<open>n < LENGTH(64)\<close>
        by (simp add: bit_push_bit_iff bit_take_bit_iff bit_or_iff bit_drop_bit_eq b)
    qed
  qed
qed

lemma low_frame:
  fixes x y :: u64
  assumes "x < y" and "unat y \<le> 2 ^ 56"
  shows "drop_bit 56 x = 0"
proof -
  have "unat x < 2 ^ 56" using assms by (simp add: word_less_nat_alt)
  then have "unat (drop_bit 56 x) = 0" unfolding unat_drop_bit_eq by (simp add: drop_bit_eq_div)
  then show ?thesis by (simp add: unat_eq_0)
qed

lemma in_sv39_tables:
  assumes "in_sv39 root s"
  shows "\<forall>t\<in>pt_tables (mem s) root. drop_bit 56 t = 0" and "drop_bit 56 root = 0" and "page_aligned root"
proof -
  have inv: "vm_inv root s" and top: "unat (managed_end s) \<le> 2 ^ 56" using assms by (auto simp: in_sv39_def)
  have p: "pages_inv s" and wf: "pt_wf (allocated s) (mem s) root" using inv by (auto simp: vm_inv_def)
  have "drop_bit 56 t = 0" if "t \<in> allocated s" for t
    using managed_frame_props(4) [OF p, of t] that allocated_subset [of s] top low_frame by blast
  then show "\<forall>t\<in>pt_tables (mem s) root. drop_bit 56 t = 0" "drop_bit 56 root = 0"
    using pt_tables_subset [OF wf] vm_inv_root(1) [OF inv] by auto
  show "page_aligned root"
    using vm_inv_root(1) [OF inv] frames_allocated(1) [OF p] by (auto simp: frames_def page_aligned_mod)
qed

lemma hart_translate_lookup:
  assumes "in_sv39 root s"
  shows "hart_translate w va s = (if va_is_canonical va then case pt_lookup (mem s) root va of None \<Rightarrow> None
    | Some e \<Rightarrow> if drop_bit 56 (pte_to_pa e) = 0 \<and> sv39_allows w (sstatus s) e
        then Some (pte_to_pa e OR (va AND VM_PAGE_OFFSET_MASK)) else None else None)"
proof -
  note t = in_sv39_tables [OF assms]
  have wf: "pt_wf (allocated s) (mem s) root" and sa: "satp s = SATP_MODE_SV39 OR drop_bit 12 root"
    using assms by (auto simp: in_sv39_def vm_inv_def)
  have off: "VM_PAGE_OFFSET_MASK = mask 12" by (simp add: VM_PAGE_OFFSET_MASK_def mask_eq_exp_minus_1)
  have pa: "push_bit 12 (sv39_ppn e) OR take_bit 12 va = pte_to_pa e OR (va AND VM_PAGE_OFFSET_MASK)"
    if "drop_bit 56 (pte_to_pa e) = 0" "pt_lookup (mem s) root va = Some e" for e
  proof -
    have "pte_clean e" using pt_wf_table(2) [OF wf va_path_vpath(1) [of va], where i = "vpn_index va 0"] that(2)
      by (auto simp: pt_lookup_def Let_def split: option.splits if_splits)
    then show ?thesis using that(1) by (simp add: clean_drop [symmetric] sv39_ppn_pa off take_bit_eq_mask)
  qed
  have "sv39_walk (mem s) va 2 root = (case pt_lookup (mem s) root va of None \<Rightarrow> None
      | Some e \<Rightarrow> if drop_bit 56 (pte_to_pa e) = 0 then Some (0, e) else None)"
    using sv39_walk_from [OF wf t(1) vpath_Nil, of 2 root va] walk_path_2 [of va]
    by (auto simp: pt_lookup_def Let_def split: option.splits)
  then show ?thesis
    using pa unfolding hart_translate_def sa satp_fields [OF t(2,3)] sv39_canonical_iff
    by (auto split: option.splits)
qed

lemma allows_flags: "sv39_allows w v (e AND SV39_PTE_FLAG_MASK) = sv39_allows w v e"
proof -
  have "(e AND SV39_PTE_FLAG_MASK) AND f = e AND f" if "SV39_PTE_FLAG_MASK AND f = f" for f
    by (simp only: and.assoc that)
  then show ?thesis by (simp add: sv39_allows_def vm_flags SV39_PTE_FLAG_MASK_def)
qed

lemma hart_translate_mapped:
  assumes "in_sv39 root s"
  shows "hart_translate w va s = (case vm_mapping root s (page_base va) of None \<Rightarrow> None
    | Some (pa, flags) \<Rightarrow> if drop_bit 56 pa = 0 \<and> sv39_allows w (sstatus s) flags
        then Some (pa OR (va AND VM_PAGE_OFFSET_MASK)) else None)"
  unfolding hart_translate_lookup [OF assms] by (auto simp: vm_mapping_def allows_flags split: option.split)

lemma hart_translate_agree:
  assumes h: "in_sv39 root s" and ag: "agree_on (pt_tables (mem s) root) (mem s) m"
  shows "in_sv39 root (s\<lparr>mem := m\<rparr>)" and "hart_translate w va (s\<lparr>mem := m\<rparr>) = hart_translate w va s"
    and "pt_tables m root = pt_tables (mem s) root"
proof -
  have wf: "pt_wf (allocated s) (mem s) root" and fr: "frames (allocated s)"
    using h by (auto simp: in_sv39_def vm_inv_def frames_allocated)
  note same = pt_agree [OF wf fr ag]
  show h': "in_sv39 root (s\<lparr>mem := m\<rparr>)" using h same(1) by (simp add: in_sv39_def vm_inv_def)
  show "hart_translate w va (s\<lparr>mem := m\<rparr>) = hart_translate w va s"
    unfolding hart_translate_lookup [OF h] hart_translate_lookup [OF h'] by (simp add: same(3) cong: option.case_cong)
  show "pt_tables m root = pt_tables (mem s) root" by (rule same(2))
qed

end
