(* ===== verification/Usercopy.thy ===== *)
theory Usercopy
  imports Sync Hart
begin

text \<open>
  Copies between the kernel and user memory, \<^verbatim>\<open>kernel/memory/usercopy.c\<close> with its
  assembly loop: validation of a user range against a page table, copies that go through the page
  table in software, and copies by the hart itself, whose page faults are recovered.
\<close>

section \<open>Validation\<close>

definition USERCOPY_OK :: int where "USERCOPY_OK = 0"
definition USERCOPY_ERR_INVALID :: int where "USERCOPY_ERR_INVALID = -1"
definition USERCOPY_ERR_FAULT :: int where "USERCOPY_ERR_FAULT = -2"

text \<open>The output parameter is a result; \<open>outs\<close> says that the pointer is not null.\<close>

definition usercopy_range_end :: "u64 \<Rightarrow> u64 \<Rightarrow> bool \<Rightarrow> int \<times> u64" where
  "usercopy_range_end start len outs =
     (if \<not> outs then (USERCOPY_ERR_INVALID, 0)
      else if len = 0 then (USERCOPY_OK, start)
      else let range_end = start + len in
        if range_end < start then (USERCOPY_ERR_INVALID, 0) else (USERCOPY_OK, range_end))"

text \<open>
  The loop over the pages of a range. Both ends are page aligned, so the test
  \<open>page == last_page\<close> ends it after as many steps as there are pages between them, which
  is the number here; it includes the last page.
\<close>

primrec usercopy_validate_pages :: "vm_space \<Rightarrow> u64 \<Rightarrow> u64 \<Rightarrow> nat \<Rightarrow> 'a pages_scheme \<Rightarrow> (int \<times> 'a pages_scheme) res" where
  "usercopy_validate_pages space needed page 0 s =
     bindE (vm_get_mapping (Some space) page True s) (\<lambda>((r, pa, flags), s).
       if r \<noteq> VM_OK then Inr (USERCOPY_ERR_INVALID, s)
       else if flags AND VM_PTE_U = 0 \<or> flags AND needed = 0 then Inr (USERCOPY_ERR_INVALID, s)
       else Inr (USERCOPY_OK, s))"
| "usercopy_validate_pages space needed page (Suc n) s =
     bindE (vm_get_mapping (Some space) page True s) (\<lambda>((r, pa, flags), s).
       if r \<noteq> VM_OK then Inr (USERCOPY_ERR_INVALID, s)
       else if flags AND VM_PTE_U = 0 \<or> flags AND needed = 0 then Inr (USERCOPY_ERR_INVALID, s)
       else usercopy_validate_pages space needed (page + PAGE_SIZE) n s)"

definition usercopy_validate_range_in_space ::
  "vm_space \<Rightarrow> u64 \<Rightarrow> u64 \<Rightarrow> bool \<Rightarrow> 'a pages_scheme \<Rightarrow> (int \<times> 'a pages_scheme) res"
where
  "usercopy_validate_range_in_space space user_va len write s =
     (let (r, end') = usercopy_range_end user_va len True in
      if r \<noteq> USERCOPY_OK then Inr (USERCOPY_ERR_INVALID, s)
      else if len = 0 then Inr (USERCOPY_OK, s)
      else if \<not> user_space_va_range_is_valid user_va len then Inr (USERCOPY_ERR_INVALID, s)
      else let first_page = user_va AND NOT PAGE_MASK;
               last_page = (end' - 1) AND NOT PAGE_MASK;
               needed = (if write then VM_PTE_W else VM_PTE_R)
           in usercopy_validate_pages space needed first_page (unat ((last_page - first_page) div PAGE_SIZE)) s)"

definition usercopy_validate_range :: "u64 \<Rightarrow> u64 \<Rightarrow> bool \<Rightarrow> 'a paging_scheme \<Rightarrow> (int \<times> 'a paging_scheme) res" where
  "usercopy_validate_range user_va len write s =
     usercopy_validate_range_in_space (paging_kernel_space s) user_va len write s"

section \<open>Copies by the hart\<close>

text \<open>
  The copy loop is assembly; its two instructions that access memory, which the hart translates, have the addresses
  \<open>load_pc\<close> and \<open>store_pc\<close>, and a trap they cause saves the registers at \<open>fault_frame\<close> on the
  kernel stack.
\<close>

record copy_env =
  load_pc :: u64
  store_pc :: u64
  fault_frame :: u64

text \<open>
  A page fault in the loop: the hart takes the trap and the trap entry saves its registers; the frame goes through
  \<open>thread_usercopy_probe_recover\<close>, as in \<open>trap_handle\<close>; when it is recovered the registers are restored
  from it and the hart goes on at the frame's new program counter, the fixup code, which returns
  \<open>USERCOPY_ERR_FAULT\<close>.
\<close>

definition usercopy_fault :: "copy_env \<Rightarrow> u64 \<Rightarrow> u64 \<Rightarrow> u64 \<Rightarrow> 'a sched_scheme \<Rightarrow> (int \<times> 'a sched_scheme) res" where
  "usercopy_fault env pc va cause s =
     (let frame = fault_frame env;
          s = trap_entry_save_csrs frame (hart_trap pc cause va s);
          (recovered, s) = thread_usercopy_probe_recover frame cause s in
      if recovered
      then let s = trap_restore_frame frame s in
        if csr_read_sepc s = usercopy_copy_fixup (link s) then Inr (USERCOPY_ERR_FAULT, s) else Inl ''page fault''
      else Inl ''page fault'')"

fun riscv_usercopy_copy_bytes :: "copy_env \<Rightarrow> u64 \<Rightarrow> u64 \<Rightarrow> nat \<Rightarrow> 'a sched_scheme \<Rightarrow> (int \<times> 'a sched_scheme) res" where
  "riscv_usercopy_copy_bytes env dst src 0 s = Inr (USERCOPY_OK, s)"
| "riscv_usercopy_copy_bytes env dst src (Suc n) s =
     (case hart_translate False src s of
        None \<Rightarrow> usercopy_fault env (load_pc env) src MCAUSE_LOAD_PAGE_FAULT s
      | Some from \<Rightarrow> let t0 = mem s from in
        (case hart_translate True dst s of
           None \<Rightarrow> usercopy_fault env (store_pc env) dst MCAUSE_STORE_PAGE_FAULT s
         | Some to \<Rightarrow> riscv_usercopy_copy_bytes env (dst + 1) (src + 1) n (s\<lparr>mem := (mem s)(to := t0)\<rparr>)))"

definition usercopy_restore_sstatus :: "u64 \<Rightarrow> 'a hw_scheme \<Rightarrow> 'a hw_scheme" where
  "usercopy_restore_sstatus saved s =
     (if saved AND SSTATUS_SUM \<noteq> 0 then csr_set_sstatus SSTATUS_SUM s else csr_clear_sstatus SSTATUS_SUM s)"

definition probed_copy_bytes ::
  "copy_env \<Rightarrow> u64 \<Rightarrow> u64 \<Rightarrow> u64 \<Rightarrow> u64 \<Rightarrow> u64 \<Rightarrow> u64 \<Rightarrow> 'a sched_scheme \<Rightarrow> (int \<times> 'a sched_scheme) res"
where
  "probed_copy_bytes env dst src len user_start user_end fault_cause s =
     (let (irq_state, s) = irq_save s;
          saved_sstatus = csr_read_sstatus s in
      bindE (thread_usercopy_probe_begin (usercopy_copy_start (link s)) (usercopy_copy_end (link s))
               (usercopy_copy_fixup (link s)) user_start user_end fault_cause s) (\<lambda>(r, s).
        if r < 0 then Inr (USERCOPY_ERR_INVALID, irq_restore irq_state (usercopy_restore_sstatus saved_sstatus s))
        else let s = csr_set_sstatus SSTATUS_SUM s in
          bindE (riscv_usercopy_copy_bytes env dst src (unat len) s) (\<lambda>(result, s).
          bindE (thread_usercopy_probe_end s) (\<lambda>(_, s).
            Inr (result, irq_restore irq_state (usercopy_restore_sstatus saved_sstatus s))))))"

definition copy_from_user :: "copy_env \<Rightarrow> u64 \<Rightarrow> u64 \<Rightarrow> u64 \<Rightarrow> 'a sched_scheme \<Rightarrow> (int \<times> 'a sched_scheme) res" where
  "copy_from_user env dst user_src len s =
     (if len = 0 then Inr (USERCOPY_OK, s)
      else if dst = 0 \<or> user_src = 0 then Inr (USERCOPY_ERR_INVALID, s)
      else let (r, user_end) = usercopy_range_end user_src len True in
      if r \<noteq> USERCOPY_OK then Inr (USERCOPY_ERR_INVALID, s)
      else bindE (usercopy_validate_range user_src len False s) (\<lambda>(result, s).
        if result \<noteq> USERCOPY_OK then Inr (result, s)
        else probed_copy_bytes env dst user_src len user_src user_end MCAUSE_LOAD_PAGE_FAULT s))"

definition copy_to_user :: "copy_env \<Rightarrow> u64 \<Rightarrow> u64 \<Rightarrow> u64 \<Rightarrow> 'a sched_scheme \<Rightarrow> (int \<times> 'a sched_scheme) res" where
  "copy_to_user env user_dst src len s =
     (if len = 0 then Inr (USERCOPY_OK, s)
      else if user_dst = 0 \<or> src = 0 then Inr (USERCOPY_ERR_INVALID, s)
      else let (r, user_end) = usercopy_range_end user_dst len True in
      if r \<noteq> USERCOPY_OK then Inr (USERCOPY_ERR_INVALID, s)
      else bindE (usercopy_validate_range user_dst len True s) (\<lambda>(result, s).
        if result \<noteq> USERCOPY_OK then Inr (result, s)
        else probed_copy_bytes env user_dst src len user_dst user_end MCAUSE_STORE_PAGE_FAULT s))"

text \<open>\<open>sink\<close> is the address of the local variable.\<close>

definition usercopy_recoverable_fault_selftest ::
  "copy_env \<Rightarrow> u64 \<Rightarrow> 'a sched_scheme \<Rightarrow> (int \<times> 'a sched_scheme) res"
where
  "usercopy_recoverable_fault_selftest env sink s =
     (let user_start = USER_SPACE_STACK_BASE; user_end = user_start + 1 in
      probed_copy_bytes env sink user_start 1 user_start user_end MCAUSE_LOAD_PAGE_FAULT s)"

section \<open>Copies through a task's page table\<close>

definition usercopy_task_validate :: "u64 \<Rightarrow> u64 \<Rightarrow> u64 \<Rightarrow> bool \<Rightarrow> 'a utasks_scheme \<Rightarrow> (int \<times> 'a utasks_scheme) res" where
  "usercopy_task_validate task user_va len write s =
     (if \<not> user_task_is_ready task s then Inr (USERCOPY_ERR_INVALID, s)
      else usercopy_validate_range_in_space (ut_address_space (task_at s task)) user_va len write s)"

text \<open>How many bytes one step of the loop copies: up to the end of the page or of the range.\<close>

definition copy_chunk :: "u64 \<Rightarrow> u64 \<Rightarrow> u64" where
  "copy_chunk current_va remaining =
     (let page_remaining = PAGE_SIZE - (current_va AND PAGE_MASK) in
      if remaining > page_remaining then page_remaining else remaining)"

lemma copy_chunk_bounds:
  assumes "0 < r"
  shows "0 < copy_chunk va r" and "copy_chunk va r \<le> r" and "unat (copy_chunk va r) \<le> 4096 - unat va mod 4096"
proof -
  note m = unat_and_PAGE_MASK [of va]
  have "unat (va AND PAGE_MASK) < 4096" by (simp add: m)
  then have p: "unat (PAGE_SIZE - (va AND PAGE_MASK)) = 4096 - unat va mod 4096"
    by (subst unat_sub) (simp_all add: m word_le_nat_alt PAGE_SIZE_def)
  show "0 < copy_chunk va r" "copy_chunk va r \<le> r" "unat (copy_chunk va r) \<le> 4096 - unat va mod 4096"
    using assms p by (auto simp: copy_chunk_def Let_def word_less_nat_alt word_le_nat_alt)
qed

lemma copied_step:
  fixes copied len :: u64
  assumes "copied < len"
  shows "unat (copied + copy_chunk va (len - copied)) = unat copied + unat (copy_chunk va (len - copied))"
    and "unat copied + unat (copy_chunk va (len - copied)) \<le> unat len" and "0 < unat (copy_chunk va (len - copied))"
proof -
  have r: "0 < len - copied" "unat (len - copied) = unat len - unat copied"
    using assms by (simp_all add: word_less_nat_alt unat_sub_if')
  note b = copy_chunk_bounds [OF r(1), of va]
  show le: "unat copied + unat (copy_chunk va (len - copied)) \<le> unat len" and "0 < unat (copy_chunk va (len - copied))"
    using b(1,2) r assms by (simp_all add: word_less_nat_alt word_le_nat_alt)
  show "unat (copied + copy_chunk va (len - copied)) = unat copied + unat (copy_chunk va (len - copied))"
    by (rule unat_add_lem [THEN iffD1]) (use le unat64_lt [of len] in simp)
qed

function copy_user_task_loop :: "u64 \<Rightarrow> u64 \<Rightarrow> u64 \<Rightarrow> u64 \<Rightarrow> bool \<Rightarrow> u64 \<Rightarrow> 'a utasks_scheme \<Rightarrow> (int \<times> 'a utasks_scheme) res" where
  "copy_user_task_loop task kernel_ptr user_va len write_user copied s =
     (if copied < len
      then let current_va = user_va + copied in
        bindE (vm_get_mapping (Some (ut_address_space (task_at s task))) current_va True s) (\<lambda>((r, pa, flags), s).
          if r \<noteq> VM_OK then Inr (USERCOPY_ERR_INVALID, s)
          else let chunk = copy_chunk current_va (len - copied);
                   s = (if write_user then memory_copy pa (kernel_ptr + copied) chunk s
                        else memory_copy (kernel_ptr + copied) pa chunk s)
               in copy_user_task_loop task kernel_ptr user_va len write_user (copied + chunk) s)
      else Inr (USERCOPY_OK, s))"
  by pat_completeness auto
termination
proof (relation "measure (\<lambda>(task, k, va, len, w, copied, s). unat (len - copied))", goal_cases)
  case (2 task kernel_ptr user_va len write_user copied s current_va x s' y pa flags r chunk s'')
  then show ?case using copied_step [of copied len current_va] by (simp add: unat_sub_if')
qed simp

definition copy_user_task_bytes :: "u64 \<Rightarrow> u64 \<Rightarrow> u64 \<Rightarrow> u64 \<Rightarrow> bool \<Rightarrow> 'a utasks_scheme \<Rightarrow> (int \<times> 'a utasks_scheme) res" where
  "copy_user_task_bytes task kernel_ptr user_va len write_user s =
     (if len = 0 then Inr (USERCOPY_OK, s)
      else bindE (usercopy_task_validate task user_va len write_user s) (\<lambda>(result, s).
        if result \<noteq> USERCOPY_OK then Inr (result, s)
        else copy_user_task_loop task kernel_ptr user_va len write_user 0 s))"

definition copy_from_user_task :: "u64 \<Rightarrow> u64 \<Rightarrow> u64 \<Rightarrow> u64 \<Rightarrow> 'a utasks_scheme \<Rightarrow> (int \<times> 'a utasks_scheme) res" where
  "copy_from_user_task task dst user_src len s =
     (if len = 0 then Inr (USERCOPY_OK, s)
      else if dst = 0 \<or> user_src = 0 then Inr (USERCOPY_ERR_INVALID, s)
      else copy_user_task_bytes task dst user_src len False s)"

definition copy_to_user_task :: "u64 \<Rightarrow> u64 \<Rightarrow> u64 \<Rightarrow> u64 \<Rightarrow> 'a utasks_scheme \<Rightarrow> (int \<times> 'a utasks_scheme) res" where
  "copy_to_user_task task user_dst src len s =
     (if len = 0 then Inr (USERCOPY_OK, s)
      else if user_dst = 0 \<or> src = 0 then Inr (USERCOPY_ERR_INVALID, s)
      else copy_user_task_bytes task src user_dst len True s)"

end
