(* ===== verification/Usercopy_Spec.thy ===== *)
theory Usercopy_Spec
  imports Usercopy
begin

text \<open>
  What the copies through a task's page table do: the physical byte behind a user address, which ranges
  are accepted, and the effect of a copy.
\<close>

section \<open>User addresses\<close>

definition user_addr :: "u64 \<Rightarrow> 'a hw_scheme \<Rightarrow> u64 \<Rightarrow> u64 option" where
  "user_addr root s va = map_option (\<lambda>(pa, flags). pa + (va - page_base va)) (vm_mapping root s (page_base va))"

text \<open>A range a task may read, or write when \<open>w\<close>.\<close>

definition user_page_ok :: "u64 \<Rightarrow> 'a hw_scheme \<Rightarrow> bool \<Rightarrow> u64 \<Rightarrow> bool" where
  "user_page_ok root s w page \<longleftrightarrow>
     (case vm_mapping root s page of None \<Rightarrow> False
      | Some (pa, flags) \<Rightarrow> flags AND VM_PTE_U \<noteq> 0 \<and> flags AND (if w then VM_PTE_W else VM_PTE_R) \<noteq> 0)"

definition user_range_ok :: "u64 \<Rightarrow> 'a hw_scheme \<Rightarrow> bool \<Rightarrow> u64 \<Rightarrow> u64 \<Rightarrow> bool" where
  "user_range_ok root s w va len \<longleftrightarrow>
     user_space_va_range_is_valid va len \<and> (\<forall>i<unat len. user_page_ok root s w (page_base (va + of_nat i)))"

lemma get_mapping:
  assumes "vm_inv (vm_root sp) s"
  shows "vm_get_mapping (Some sp) va True s = Inr (case vm_mapping (vm_root sp) s (page_base va) of
      Some (pa, flags) \<Rightarrow> (VM_OK, pa + (va - page_base va), flags) | None \<Rightarrow> (VM_ERR_NOT_MAPPED, 0, 0), s)"
proof (cases "vm_mapping (vm_root sp) s (page_base va)")
  case None
  then show ?thesis using vm_get_mapping_spec [OF assms, of va True] by simp
next
  case (Some pf)
  then obtain pa flags where pf: "pf = (pa, flags)" "va_is_canonical va" "page_aligned pa"
    by (cases pf) (auto simp: vm_mapping_def split: if_splits)
  have off: "va AND VM_PAGE_OFFSET_MASK = va - page_base va"
  proof -
    have "VM_PAGE_OFFSET_MASK = mask 12" by (simp add: VM_PAGE_OFFSET_MASK_def mask_eq_exp_minus_1)
    moreover have "page_base va = va - (va AND mask 12)"
      using and_not_mask_eq [of va 12] by (simp only: page_base_def PAGE_MASK_mask)
    ultimately show ?thesis by simp
  qed
  have "pa AND (va AND mask 12) = 0" using pf(3) by (auto simp: page_aligned_bits bit_eq_iff bit_simps)
  then have "pa OR (va AND VM_PAGE_OFFSET_MASK) = pa + (va AND VM_PAGE_OFFSET_MASK)"
    by (intro disjunctive_add [symmetric])
      (auto simp: VM_PAGE_OFFSET_MASK_def mask_eq_exp_minus_1 bit_eq_iff bit_and_iff)
  then show ?thesis using vm_get_mapping_spec [OF assms, of va True] Some pf off by simp
qed

section \<open>Validation\<close>

lemma check_page:
  assumes "vm_inv (vm_root sp) s" and "page_base page = page"
  shows "bindE (vm_get_mapping (Some sp) page True s) (\<lambda>((r, pa, flags), s).
      if r \<noteq> VM_OK then Inr (USERCOPY_ERR_INVALID, s)
      else if flags AND VM_PTE_U = 0 \<or> flags AND (if w then VM_PTE_W else VM_PTE_R) = 0 then Inr (USERCOPY_ERR_INVALID, s)
      else g s) = (if user_page_ok (vm_root sp) s w page then g s else Inr (USERCOPY_ERR_INVALID, s))"
  using get_mapping [OF assms(1), of page] assms(2)
  by (simp add: user_page_ok_def VM_OK_def VM_ERR_NOT_MAPPED_def split: option.splits)

lemma validate_pages_ok:
  assumes "vm_inv (vm_root sp) s" and "\<And>k. k \<le> n \<Longrightarrow> page_base (page + of_nat k * PAGE_SIZE) = page + of_nat k * PAGE_SIZE"
  shows "usercopy_validate_pages sp (if w then VM_PTE_W else VM_PTE_R) page n s =
    Inr (if \<forall>k\<le>n. user_page_ok (vm_root sp) s w (page + of_nat k * PAGE_SIZE) then USERCOPY_OK else USERCOPY_ERR_INVALID, s)"
  using assms(2)
proof (induction n arbitrary: page)
  case 0
  then have "page_base page = page" by simp
  then show ?case
    unfolding usercopy_validate_pages.simps check_page [OF assms(1) \<open>page_base page = page\<close>, of w] by simp
next
  case (Suc n)
  have b: "page_base page = page" using Suc.prems [of 0] by simp
  have sh: "page + PAGE_SIZE + of_nat k * PAGE_SIZE = page + of_nat (Suc k) * PAGE_SIZE" for k by (simp add: algebra_simps)
  define P where "P k = user_page_ok (vm_root sp) s w (page + of_nat k * PAGE_SIZE)" for k :: nat
  have IH: "usercopy_validate_pages sp (if w then VM_PTE_W else VM_PTE_R) (page + PAGE_SIZE) n s =
    Inr (if \<forall>k\<le>n. P (Suc k) then USERCOPY_OK else USERCOPY_ERR_INVALID, s)"
    unfolding P_def sh [symmetric]
  proof (rule Suc.IH)
    show "page_base (page + PAGE_SIZE + of_nat k * PAGE_SIZE) = page + PAGE_SIZE + of_nat k * PAGE_SIZE" if "k \<le> n" for k
      unfolding sh by (rule Suc.prems) (use that in simp)
  qed
  have all: "(\<forall>k\<le>Suc n. P k) \<longleftrightarrow> P 0 \<and> (\<forall>k\<le>n. P (Suc k))"
    by (metis Suc_le_mono le0 not0_implies_Suc)
  have p0: "user_page_ok (vm_root sp) s w page = P 0" by (simp add: P_def)
  show ?case
    unfolding usercopy_validate_pages.simps check_page [OF assms(1) b, of w] IH P_def [symmetric] all p0 by simp
qed

text \<open>The pages the loop visits are those of the bytes of the range.\<close>

lemma range_pages_nat:
  fixes a l :: nat
  assumes "0 < l"
  shows "(\<forall>i<l. Q ((a + i) div 4096)) \<longleftrightarrow> (\<forall>k\<le>(a + l - 1) div 4096 - a div 4096. Q (a div 4096 + k))"
proof (intro iffI allI impI)
  fix k assume r: "\<forall>i<l. Q ((a + i) div 4096)" and k: "k \<le> (a + l - 1) div 4096 - a div 4096"
  show "Q (a div 4096 + k)"
  proof (cases "k = 0")
    case True
    then show ?thesis using r assms by (metis add.right_neutral)
  next
    case False
    let ?i = "(a div 4096 + k) * 4096 - a"
    have "a div 4096 + k \<le> (a + l - 1) div 4096" using k False by simp
    then have "(a div 4096 + k) * 4096 \<le> a + l - 1" by (metis div_times_less_eq_dividend le_trans mult_le_mono1)
    moreover have "a < (a div 4096 + k) * 4096" using False div_mult_mod_eq [of a 4096] mod_less_divisor [of 4096 a] by (cases k) auto
    ultimately have "?i < l" "a + ?i = (a div 4096 + k) * 4096" using assms by auto
    then show ?thesis using r by (metis nonzero_mult_div_cancel_right zero_neq_numeral)
  qed
next
  fix i assume r: "\<forall>k\<le>(a + l - 1) div 4096 - a div 4096. Q (a div 4096 + k)" and i: "i < l"
  have "a div 4096 \<le> (a + i) div 4096" "(a + i) div 4096 \<le> (a + l - 1) div 4096" using i by (auto intro: div_le_mono)
  moreover from this have "(a + i) div 4096 - a div 4096 \<le> (a + l - 1) div 4096 - a div 4096" by (intro diff_le_mono)
  ultimately show "Q ((a + i) div 4096)" using r [rule_format, of "(a + i) div 4096 - a div 4096"] by simp
qed

lemma validate_range_ok:
  assumes inv: "vm_inv (vm_root sp) s" and len: "len \<noteq> 0"
  shows "usercopy_validate_range_in_space sp va len w s =
    Inr (if user_range_ok (vm_root sp) s w va len then USERCOPY_OK else USERCOPY_ERR_INVALID, s)"
proof (cases "user_space_va_range_is_valid va len")
  case False
  then show ?thesis using len by (simp add: usercopy_validate_range_in_space_def usercopy_range_end_def user_range_ok_def Let_def
      USERCOPY_OK_def USERCOPY_ERR_INVALID_def)
next
  case True
  have nw: "\<not> va + len < va" using True by (auto simp: user_space_va_range_is_valid_def Let_def split: if_splits)
  then have sum: "unat (va + len) = unat va + unat len" by (metis not_less unat_plus_simple)
  have l0: "0 < unat len" using len by (simp add: unat_gt_0)
  have um: "unat (va + len - 1) = unat va + unat len - 1"
    using sum l0 by (subst unat_minus_one) (auto simp: word_unat_eq_iff)
  let ?f = "page_base va" and ?l = "page_base (va + len - 1)"
  let ?a = "unat va" and ?n = "unat ((?l - ?f) div PAGE_SIZE)"
  have uf: "unat ?f = ?a div 4096 * 4096" "unat ?l = (?a + unat len - 1) div 4096 * 4096"
    by (simp_all only: unat_page_base_div um)
  have le: "?a div 4096 \<le> (?a + unat len - 1) div 4096" using l0 by (intro div_le_mono) simp
  then have "?f \<le> ?l" using uf by (simp add: word_le_nat_alt)
  then have n: "?n = (?a + unat len - 1) div 4096 - ?a div 4096"
    by (simp add: unat_div unat_sub uf diff_mult_distrib [symmetric])
  have pg: "unat (?f + of_nat k * PAGE_SIZE) = (?a div 4096 + k) * 4096" if "k \<le> ?n" for k
  proof -
    have "(?a div 4096 + k) * 4096 \<le> (?a + unat len - 1) div 4096 * 4096" using that n le by (intro mult_le_mono1) linarith
    then have lt: "(?a div 4096 + k) * 4096 < 2 ^ 64" using uf(2) unat64_lt [of ?l] by simp
    have k: "k * 4096 < 2 ^ 64" using lt by (simp add: add_mult_distrib)
    then have "unat (of_nat k :: u64) = k" by (simp add: unat_of_nat)
    then have kp: "unat (of_nat k * PAGE_SIZE) = k * 4096" using k by (simp add: unat_word_ariths PAGE_SIZE_def)
    have "unat ?f + unat (of_nat k * PAGE_SIZE) < 2 ^ 64" using lt by (simp only: uf(1) kp add_mult_distrib)
    then have "unat (?f + of_nat k * PAGE_SIZE) = unat ?f + unat (of_nat k * PAGE_SIZE)"
      by (subst unat_add_lem [THEN iffD1]) simp_all
    then show ?thesis by (simp only: uf(1) kp add_mult_distrib)
  qed
  have al: "page_base (?f + of_nat k * PAGE_SIZE) = ?f + of_nat k * PAGE_SIZE" if "k \<le> ?n" for k
    by (rule page_base_of_aligned) (simp add: pg [OF that])
  define Q where "Q j = user_page_ok (vm_root sp) s w (of_nat (j * 4096))" for j
  have "(\<forall>k\<le>?n. user_page_ok (vm_root sp) s w (?f + of_nat k * PAGE_SIZE)) \<longleftrightarrow> (\<forall>k\<le>?n. Q (?a div 4096 + k))"
  proof -
    have "of_nat ((?a div 4096 + k) * 4096) = ?f + of_nat k * PAGE_SIZE" if "k \<le> ?n" for k
      by (simp only: pg [OF that, symmetric] of_nat_unat ucast_id)
    then show ?thesis by (simp only: Q_def cong: conj_cong imp_cong)
  qed
  also have "\<dots> \<longleftrightarrow> (\<forall>i<unat len. Q ((?a + i) div 4096))" unfolding n by (rule range_pages_nat [OF l0, symmetric])
  also have "\<dots> \<longleftrightarrow> (\<forall>i<unat len. user_page_ok (vm_root sp) s w (page_base (va + of_nat i)))"
  proof -
    have "of_nat ((?a + i) div 4096 * 4096) = page_base (va + of_nat i)" if "i < unat len" for i
    proof -
      have "unat (va + of_nat i) = ?a + i"
        using that sum unat64_lt [of "va + len"] by (subst unat_add_lem [THEN iffD1]) (simp_all add: unat_of_nat)
      then show ?thesis by (simp only: unat_page_base_div [symmetric] of_nat_unat ucast_id flip: \<open>unat (va + of_nat i) = ?a + i\<close>)
    qed
    then show ?thesis by (simp only: Q_def cong: imp_cong)
  qed
  finally show ?thesis
    using True len nw validate_pages_ok [OF inv al, of ?n w]
    by (simp add: usercopy_validate_range_in_space_def usercopy_range_end_def user_range_ok_def Let_def USERCOPY_OK_def
        USERCOPY_ERR_INVALID_def page_base_def)
qed

section \<open>The copying loop\<close>

text \<open>Bytes \<open>src i\<close> have been copied to \<open>dst i\<close>, for the first \<open>n\<close> indices, and nothing else has changed.\<close>

definition moved :: "(nat \<Rightarrow> u64) \<Rightarrow> (nat \<Rightarrow> u64) \<Rightarrow> nat \<Rightarrow> memory \<Rightarrow> memory \<Rightarrow> bool" where
  "moved dst src n m m' \<longleftrightarrow> (\<forall>i<n. m' (dst i) = m (src i)) \<and> (\<forall>x. (\<forall>i<n. x \<noteq> dst i) \<longrightarrow> m' x = m x)"

lemma moved_copy:
  assumes mv: "moved dst src c m0 m" and n: "n \<le> 2 ^ 64"
    and inj: "\<And>i j. i < c + n \<Longrightarrow> j < c + n \<Longrightarrow> dst i = dst j \<Longrightarrow> i = j"
    and apart: "\<And>i j. i < c + n \<Longrightarrow> j < c + n \<Longrightarrow> dst i \<noteq> src j"
    and seq: "\<And>j. j < n \<Longrightarrow> dst (c + j) = dst c + of_nat j" "\<And>j. j < n \<Longrightarrow> src (c + j) = src c + of_nat j"
  shows "moved dst src (c + n) m0 (copy_bytes m (dst c) (src c) n)"
proof -
  have out: "copy_bytes m (dst c) (src c) n x = m x" if "\<And>j. j < n \<Longrightarrow> x \<noteq> dst (c + j)" for x
  proof (rule copy_bytes_outside [OF n], rule ccontr)
    assume "\<not> n \<le> unat (x - dst c)"
    then show False using that [of "unat (x - dst c)"] seq(1) [of "unat (x - dst c)"] by simp
  qed
  have cp: "copy_bytes m (dst c) (src c) n (dst (c + j)) = m (src (c + j))" if j: "j < n" for j
  proof -
    have "copy_bytes m (dst c) (src c) n (dst c + of_nat j) = m (src c + of_nat j)"
    proof (rule copy_bytes_copies [OF j n], rule ccontr)
      fix i assume i: "i < n" "\<not> n \<le> unat (src c + of_nat i - dst c)"
      then show False
        using apart [of "c + unat (src c + of_nat i - dst c)" "c + i"] seq(1) [of "unat (src c + of_nat i - dst c)"] seq(2) [of i] by simp
    qed
    then show ?thesis using seq j by simp
  qed
  show ?thesis
    unfolding moved_def
  proof (intro conjI allI impI)
    fix i assume i: "i < c + n"
    show "copy_bytes m (dst c) (src c) n (dst i) = m0 (src i)"
    proof (cases "i < c")
      case True
      have "dst i \<noteq> dst (c + j)" if "j < n" for j using inj [of i "c + j"] True that by auto
      then show ?thesis using out mv True by (simp add: moved_def)
    next
      case False
      then obtain j where j: "i = c + j" "j < n" using i by (metis add_less_cancel_left le_iff_add not_less)
      have "src (c + j) \<noteq> dst k" if "k < c" for k using apart [of k "c + j"] that j by auto
      then show ?thesis using cp [OF j(2)] mv j(1) by (simp add: moved_def)
    qed
  next
    fix x assume x: "\<forall>i<c + n. x \<noteq> dst i"
    then show "copy_bytes m (dst c) (src c) n x = m0 x" using out [of x] mv by (simp add: moved_def)
  qed
qed

lemma user_addr_chunk:
  assumes "user_addr root s cur = Some a" and "user_addr root s (cur + of_nat j) = Some b" and "unat cur mod 4096 + j < 4096"
  shows "b = a + of_nat j"
proof -
  have "unat (cur - page_base cur) = unat cur mod 4096"
    by (subst unat_sub) (simp_all add: page_base_le unat_page_base)
  moreover have "unat (of_nat j :: u64) = j" using assms(3) by (simp add: unat_of_nat)
  ultimately have "unat (cur - page_base cur + of_nat j) = unat cur mod 4096 + j"
    using assms(3) by (subst unat_add_lem [THEN iffD1]) simp_all
  then have "page_base (page_base cur + (cur - page_base cur + of_nat j)) = page_base cur"
    using assms(3) by (intro page_base_add) simp_all
  then have "page_base (cur + of_nat j) = page_base cur" by (simp add: add.assoc [symmetric])
  then show ?thesis using assms(1,2) by (auto simp: user_addr_def)
qed

lemma copy_loop_ok:
  fixes s0 :: "'a utasks_scheme"
  assumes inv: "vm_inv root s0" and root: "root = vm_root (ut_address_space (task_at s0 task))"
    and ua: "\<And>i. i < unat len \<Longrightarrow> user_addr root s0 (va + of_nat i) = Some (ua i)"
    and dst: "dst = (if w then ua else (\<lambda>i. k + of_nat i))" and src: "src = (if w then (\<lambda>i. k + of_nat i) else ua)"
    and inj: "\<And>i j. i < unat len \<Longrightarrow> j < unat len \<Longrightarrow> dst i = dst j \<Longrightarrow> i = j"
    and apart: "\<And>i j. i < unat len \<Longrightarrow> j < unat len \<Longrightarrow> dst i \<noteq> src j"
    and tabs: "\<And>i. i < unat len \<Longrightarrow> page_base (dst i) \<notin> pt_tables (mem s0) root"
  shows "moved dst src (unat c) (mem s0) m \<Longrightarrow> unat c \<le> unat len \<Longrightarrow>
    \<exists>m'. copy_user_task_loop task k va len w c (s0\<lparr>mem := m\<rparr>) = Inr (USERCOPY_OK, s0\<lparr>mem := m'\<rparr>) \<and>
      moved dst src (unat len) (mem s0) m'"
proof (induction "unat len - unat c" arbitrary: c m rule: less_induct)
  case less
  let ?s = "s0\<lparr>mem := m\<rparr>"
  show ?case
  proof (cases "c < len")
    case False
    then have "unat c = unat len" using less.prems(2) by (simp add: word_less_nat_alt)
    then show ?thesis using False less.prems(1)
      by (intro exI [of _ m]) (subst copy_user_task_loop.simps, simp)
  next
    case True
    then have cl: "unat c < unat len" by (simp add: word_less_nat_alt)
    let ?cur = "va + c"
    let ?ch = "copy_chunk ?cur (len - c)"
    define n where "n = unat ?ch"
    note st = copied_step [OF True, of ?cur, folded n_def]
    have nb: "n \<le> 4096 - unat ?cur mod 4096" "n \<le> 2 ^ 64"
      using copy_chunk_bounds(3) [of "len - c" ?cur] True unat64_lt [of ?ch]
      by (simp_all add: n_def word_less_nat_alt unat_sub_if')
    have "agree_on (pt_tables (mem s0) root) (mem s0) m"
      unfolding agree_on_def using less.prems cl tabs by (auto simp: moved_def) (metis less_trans)
    then have same: "vm_inv root ?s" "vm_mapping root ?s = vm_mapping root s0"
      using vm_inv_mem_cong(1,2) [OF inv, of ?s] inv by (simp_all add: vm_inv_def)
    have cur: "va + of_nat (unat c) = ?cur" by simp
    have uc: "user_addr root s0 ?cur = Some (ua (unat c))" using ua [OF cl] by (simp only: cur)
    obtain pa flags where pf: "vm_mapping root s0 (page_base ?cur) = Some (pa, flags)" "ua (unat c) = pa + (?cur - page_base ?cur)"
      using uc by (auto simp: user_addr_def)
    have map: "vm_get_mapping (Some (ut_address_space (task_at ?s task))) ?cur True ?s = Inr ((VM_OK, ua (unat c), flags), ?s)"
      using get_mapping [of "ut_address_space (task_at s0 task)" ?s ?cur] same pf root by (simp add: task_at_def)
    have seq: "ua (unat c + j) = ua (unat c) + of_nat j" if "j < n" for j
    proof (rule user_addr_chunk [OF uc])
      show "user_addr root s0 (?cur + of_nat j) = Some (ua (unat c + j))"
        using ua [of "unat c + j"] that st(2) by (simp add: add.assoc)
      show "unat ?cur mod 4096 + j < 4096" using that nb(1) by linarith
    qed
    have kseq: "k + of_nat (unat c + j) = k + c + of_nat j" for j by (simp add: add.assoc)
    let ?m = "copy_bytes m (dst (unat c)) (src (unat c)) n"
    have mv: "moved dst src (unat c + n) (mem s0) ?m"
    proof (rule moved_copy [OF less.prems(1) nb(2)])
      show "i < unat c + n \<Longrightarrow> j < unat c + n \<Longrightarrow> dst i = dst j \<Longrightarrow> i = j" for i j using inj st(2) by simp
      show "i < unat c + n \<Longrightarrow> j < unat c + n \<Longrightarrow> dst i \<noteq> src j" for i j using apart st(2) by simp
      show "j < n \<Longrightarrow> dst (unat c + j) = dst (unat c) + of_nat j" "j < n \<Longrightarrow> src (unat c + j) = src (unat c) + of_nat j" for j
        using seq [of j] kseq [of j] by (simp_all add: dst src add.assoc)
    qed
    have sm: "(if w then memory_copy (ua (unat c)) (k + c) ?ch ?s else memory_copy (k + c) (ua (unat c)) ?ch ?s) = s0\<lparr>mem := ?m\<rparr>"
      by (simp add: memory_copy_def dst src n_def)
    have step: "copy_user_task_loop task k va len w c ?s = copy_user_task_loop task k va len w (c + ?ch) (s0\<lparr>mem := ?m\<rparr>)"
      using True map sm by (subst copy_user_task_loop.simps) (simp add: Let_def VM_OK_def)
    have "unat len - unat (c + ?ch) < unat len - unat c" using st cl by simp
    from less.hyps [OF this, of ?m] mv st(1,2) show ?thesis unfolding step by simp
  qed
qed

section \<open>Copies through a page table\<close>

text \<open>
  What the callers guarantee for a copy of \<open>len\<close> bytes between the user address
  \<open>va\<close> and the kernel address \<open>k\<close>: the buffer is not in the user's pages, no two
  user addresses of the range share a byte, and the copy does not overwrite the page table.
\<close>

definition copy_apart :: "u64 \<Rightarrow> 'a hw_scheme \<Rightarrow> bool \<Rightarrow> u64 \<Rightarrow> u64 \<Rightarrow> u64 \<Rightarrow> bool" where
  "copy_apart root s w va k len \<longleftrightarrow>
     (\<forall>i<unat len. \<forall>j<unat len. user_addr root s (va + of_nat i) \<noteq> Some (k + of_nat j)) \<and>
     (\<forall>i<unat len. \<forall>j<unat len. \<forall>a. user_addr root s (va + of_nat i) = Some a \<longrightarrow> user_addr root s (va + of_nat j) = Some a \<longrightarrow> i = j) \<and>
     (if w then \<forall>i<unat len. \<forall>a. user_addr root s (va + of_nat i) = Some a \<longrightarrow> page_base a \<notin> pt_tables (mem s) root
      else \<forall>j<unat len. page_base (k + of_nat j) \<notin> pt_tables (mem s) root)"

definition user_byte :: "u64 \<Rightarrow> 'a hw_scheme \<Rightarrow> u64 \<Rightarrow> nat \<Rightarrow> u64" where
  "user_byte root s va i = the (user_addr root s (va + of_nat i))"

lemma copy_bytes_task:
  fixes s :: "'a utasks_scheme"
  assumes inv: "vm_inv root s" and root: "root = vm_root (ut_address_space (task_at s task))"
    and ap: "copy_apart root s w va k len" and len: "len \<noteq> 0"
  shows "if user_task_is_ready task s \<and> user_range_ok root s w va len
    then \<exists>m'. copy_user_task_bytes task k va len w s = Inr (USERCOPY_OK, s\<lparr>mem := m'\<rparr>) \<and>
      moved (if w then user_byte root s va else (\<lambda>i. k + of_nat i)) (if w then (\<lambda>i. k + of_nat i) else user_byte root s va)
        (unat len) (mem s) m'
    else copy_user_task_bytes task k va len w s = Inr (USERCOPY_ERR_INVALID, s)"
proof (cases "user_task_is_ready task s \<and> user_range_ok root s w va len")
  case False
  then have "usercopy_task_validate task va len w s = Inr (USERCOPY_ERR_INVALID, s)"
    using validate_range_ok [of "ut_address_space (task_at s task)" s len va w] inv root len
    by (simp add: usercopy_task_validate_def)
  then show ?thesis using False len by (simp add: copy_user_task_bytes_def USERCOPY_OK_def USERCOPY_ERR_INVALID_def)
next
  case True
  have v: "usercopy_task_validate task va len w s = Inr (USERCOPY_OK, s)"
    using validate_range_ok [of "ut_address_space (task_at s task)" s len va w] inv root len True
    by (simp add: usercopy_task_validate_def)
  have ua: "user_addr root s (va + of_nat i) = Some (user_byte root s va i)" if "i < unat len" for i
    using True that by (auto simp: user_range_ok_def user_page_ok_def user_byte_def user_addr_def split: option.splits)
  define dst where "dst = (if w then user_byte root s va else (\<lambda>i. k + of_nat i))"
  define src where "src = (if w then (\<lambda>i. k + of_nat i) else user_byte root s va)"
  have "\<exists>m'. copy_user_task_loop task k va len w 0 (s\<lparr>mem := mem s\<rparr>) = Inr (USERCOPY_OK, s\<lparr>mem := m'\<rparr>) \<and>
      moved dst src (unat len) (mem s) m'"
  proof (rule copy_loop_ok [OF inv root ua dst_def src_def])
    fix i j assume ij: "i < unat len" "j < unat len"
    show "i = j" if "dst i = dst j"
    proof (cases w)
      case True
      then have "user_addr root s (va + of_nat j) = Some (user_byte root s va i)" using ua [OF ij(2)] that by (simp add: dst_def)
      then show ?thesis using ap ua [OF ij(1)] ij unfolding copy_apart_def by blast
    next
      case False
      then have "(of_nat i :: u64) = of_nat j" using that by (simp add: dst_def)
      then show ?thesis using ij unat64_lt [of len] by (simp add: word_eq_of_nat unat_of_nat)
    qed
    show "dst i \<noteq> src j"
    proof (cases w)
      case True
      then show ?thesis using ap ua [OF ij(1)] ij by (auto simp: copy_apart_def dst_def src_def)
    next
      case False
      have "user_addr root s (va + of_nat j) \<noteq> Some (k + of_nat i)" using ap ij unfolding copy_apart_def by blast
      then show ?thesis using ua [OF ij(2)] False by (auto simp: dst_def src_def)
    qed
    show "page_base (dst i) \<notin> pt_tables (mem s) root"
      using ap ua [OF ij(1)] ij by (cases w) (simp_all add: copy_apart_def dst_def)
  qed (simp_all add: moved_def)
  then show ?thesis using True v len by (simp add: copy_user_task_bytes_def dst_def src_def)
qed

text \<open>
  C13: \<open>copy_to_user_task\<close> always returns. It copies exactly when both pointers are non-null,
  the task is ready and every byte of the range lies in user space, off the device windows, on a page the
  task may write; then the user's bytes are those of the kernel buffer and no other byte of memory has
  changed. Otherwise it reports \<open>USERCOPY_ERR_INVALID\<close> with nothing changed, so that a partial copy is
  never left behind.
\<close>

theorem copy_to_user_task_exact:
  fixes s :: "'a utasks_scheme"
  assumes "vm_inv root s" and "root = vm_root (ut_address_space (task_at s task))" and "copy_apart root s True va src len"
  shows "if len = 0 then copy_to_user_task task va src len s = Inr (USERCOPY_OK, s)
    else if va \<noteq> 0 \<and> src \<noteq> 0 \<and> user_task_is_ready task s \<and> user_range_ok root s True va len
    then \<exists>m'. copy_to_user_task task va src len s = Inr (USERCOPY_OK, s\<lparr>mem := m'\<rparr>) \<and>
      (\<forall>i<unat len. m' (user_byte root s va i) = mem s (src + of_nat i)) \<and>
      (\<forall>x. (\<forall>i<unat len. x \<noteq> user_byte root s va i) \<longrightarrow> m' x = mem s x)
    else copy_to_user_task task va src len s = Inr (USERCOPY_ERR_INVALID, s)"
proof (cases "len = 0 \<or> va = 0 \<or> src = 0")
  case True
  then show ?thesis by (auto simp: copy_to_user_task_def)
next
  case False
  then show ?thesis using copy_bytes_task [OF assms] unfolding copy_to_user_task_def moved_def if_True by simp
qed

lemma copy_from_user_task_exact:
  fixes s :: "'a utasks_scheme"
  assumes "vm_inv root s" and "root = vm_root (ut_address_space (task_at s task))" and "copy_apart root s False va dst len"
    and "len \<noteq> 0" "va \<noteq> 0" "dst \<noteq> 0"
  shows "if user_task_is_ready task s \<and> user_range_ok root s False va len
    then \<exists>m'. copy_from_user_task task dst va len s = Inr (USERCOPY_OK, s\<lparr>mem := m'\<rparr>) \<and>
      (\<forall>i<unat len. m' (dst + of_nat i) = mem s (user_byte root s va i)) \<and>
      (\<forall>x. (\<forall>i<unat len. x \<noteq> dst + of_nat i) \<longrightarrow> m' x = mem s x)
    else copy_from_user_task task dst va len s = Inr (USERCOPY_ERR_INVALID, s)"
  using copy_bytes_task [OF assms(1-4)] assms(4-6) unfolding copy_from_user_task_def moved_def if_False by simp

section \<open>A concrete task\<close>

lemma demo_stack:
  assumes m: "vm_mapping (vm_root (ut_address_space (task_at s 0x80002800))) s = task_mapping (ut_code_page (task_at s 0x80002800))
      (ut_stack_page (task_at s 0x80002800)) tramp (ut_trap_context (task_at s 0x80002800))" and i: "i < 16"
  shows "user_addr (vm_root (ut_address_space (task_at s 0x80002800))) s (0x3ffff800 + of_nat i) =
      Some (ut_stack_page (task_at s 0x80002800) + (0x800 + of_nat i))"
    and "user_page_ok (vm_root (ut_address_space (task_at s 0x80002800))) s w (page_base (0x3ffff800 + of_nat i))"
proof -
  let ?t = "task_at s 0x80002800" and ?root = "vm_root (ut_address_space (task_at s 0x80002800))"
  have b: "page_base (0x3ffff800 + of_nat i) = 0x3ffff000"
  proof -
    have "(0x3ffff800 :: u64) + of_nat i = 0x3ffff000 + (0x800 + of_nat i)" by simp
    moreover have "unat (0x800 + of_nat i :: u64) < 4096" using i by (simp add: unat_word_ariths unat_of_nat)
    ultimately show ?thesis by (simp only:) (rule page_base_add, simp_all)
  qed
  have p: "vm_mapping ?root s 0x3ffff000 = Some (ut_stack_page ?t, stack_flags)"
    unfolding m by (simp add: task_mapping_def task_va_values)
  show "user_addr ?root s (0x3ffff800 + of_nat i) = Some (ut_stack_page ?t + (0x800 + of_nat i))"
    by (simp add: user_addr_def b p)
  show "user_page_ok ?root s w (page_base (0x3ffff800 + of_nat i))"
    unfolding b user_page_ok_def p by (simp add: stack_flags_def VM_PTE_U_def VM_PTE_W_def VM_PTE_R_def VM_PTE_V_def VM_PTE_A_def VM_PTE_D_def)
qed

theorem copy_to_user_task_exact_witness:
  "\<exists>s m'. started 0x80002800 0x80002000 4 demo_utasks s \<and>
     copy_to_user_task 0x80002800 0x3ffff800 0x80002000 16 s = Inr (USERCOPY_OK, s\<lparr>mem := m'\<rparr>) \<and>
     m' (ut_stack_page (task_at s 0x80002800) + 0x800) = 0x73"
proof -
  obtain s where st: "started 0x80002800 0x80002000 4 demo_utasks s" by (rule demo_started)
  let ?t = "task_at s 0x80002800" and ?root = "vm_root (ut_address_space (task_at s 0x80002800))"
  have m: "vm_mapping ?root s = task_mapping (ut_code_page ?t) (ut_stack_page ?t) (trampoline_start (link demo_utasks)) (ut_trap_context ?t)"
    using st by (simp add: started_def Let_def)
  note da = demo_stack(1) [OF m] and dp = demo_stack(2) [OF m]
  have b: "building 0x80002800 demo_utasks s" and rd: "user_task_is_ready 0x80002800 s" and nz: "ut_stack_page ?t \<noteq> 0"
    using st by (auto simp: started_def Let_def)
  have root: "?root \<noteq> 0" using rd by (auto simp: user_task_is_ready_def)
  have own: "task_owns ?t s" using b by (simp add: building_def)
  then have inv: "vm_inv ?root s" using root by (simp add: task_owns_def)
  have sp: "ut_stack_page ?t \<in> allocated s - pt_tables (mem s) ?root"
    using own nz root by (auto simp: task_owns_def task_pages_def task_tables_def Let_def)
  have fresh: "ut_stack_page ?t \<notin> in_use demo_utasks"
  proof -
    have "managed_frames s = managed_frames demo_utasks" using b task_step_fields(1) unfolding building_def by blast
    then show ?thesis using b sp nz allocated_subset [of s] by (auto simp: in_use_def building_def task_pages_def)
  qed
  have pm: "unat (ut_stack_page ?t) mod 4096 = 0" using sp inv managed_frame_props(2) allocated_subset [of s] by (auto simp: vm_inv_def)
  have pb: "page_base (ut_stack_page ?t + (0x800 + of_nat i)) = ut_stack_page ?t" if "i < 16" for i
    using pm that by (intro page_base_add) (simp_all add: unat_word_ariths unat_of_nat)
  have kb: "page_base (0x80002000 + of_nat j) = 0x80002000" if "j < 16" for j
    using that by (intro page_base_add) (simp_all add: unat_of_nat)
  have use: "0x80002000 \<in> in_use demo_utasks" using demo_program_in_use [of 0] by (simp add: page_base_of_aligned)
  have ap: "copy_apart ?root s True 0x3ffff800 0x80002000 16"
    unfolding copy_apart_def if_True
  proof (intro conjI allI impI, goal_cases)
    case (1 i j)
    then have ij: "i < 16" "j < 16" by simp_all
    have "ut_stack_page ?t + (0x800 + of_nat i) \<noteq> 0x80002000 + of_nat j"
      using pb [OF ij(1)] kb [OF ij(2)] fresh use by metis
    then show ?case using da [OF ij(1)] by simp
  next
    case (2 i j a)
    then have "i < 16" "j < 16" by simp_all
    then show ?case using da [of i] da [of j] 2 by (simp add: word_eq_of_nat unat_of_nat)
  next
    case (3 i a)
    then show ?case using da [of i] pb [of i] sp by auto
  qed
  have ok: "user_range_ok ?root s True 0x3ffff800 16"
    using dp by (simp add: user_range_ok_def user_space_va_range_is_valid_def range_overlaps_platform_mmio_def ranges_overlap_def
        user_layout PAGE_SIZE_def)
  have "\<exists>m'. copy_to_user_task 0x80002800 0x3ffff800 0x80002000 16 s = Inr (USERCOPY_OK, s\<lparr>mem := m'\<rparr>) \<and>
      (\<forall>i<unat (16 :: u64). m' (user_byte ?root s 0x3ffff800 i) = mem s (0x80002000 + of_nat i))"
    using copy_to_user_task_exact [OF inv refl ap] ok rd by auto
  then obtain m' where m': "copy_to_user_task 0x80002800 0x3ffff800 0x80002000 16 s = Inr (USERCOPY_OK, s\<lparr>mem := m'\<rparr>)"
    "m' (user_byte ?root s 0x3ffff800 0) = mem s 0x80002000" by force
  have "mem s 0x80002000 = mem demo_utasks 0x80002000"
    using b use kb [of 0] by (simp add: building_def agree_on_def)
  also have "\<dots> = 0x73" by (simp add: demo_utasks_def page_init_state_def Let_def)
  finally show ?thesis using st m' da [of 0] by (auto simp: user_byte_def)
qed

end
