(* ===== verification/Usercopy_Fault.thy ===== *)
theory Usercopy_Fault
  imports Usercopy_Spec
begin

text \<open>
  Copies by the hart with \<open>copy_from_user\<close> and \<open>copy_to_user\<close>: a page fault on the user's
  side is recovered, the bytes before it have been copied, and the kernel goes on with its access to user pages closed
  again.
\<close>

section \<open>The hart\<close>

text \<open>
  The two instructions that access memory lie in the window that the kernel registers, and the trap entry has a
  place for the frame.
\<close>

definition copy_env_ok :: "copy_env \<Rightarrow> 'a hw_scheme \<Rightarrow> bool" where
  "copy_env_ok env s \<longleftrightarrow>
     (\<forall>pc\<in>{load_pc env, store_pc env}. usercopy_copy_start (link s) \<le> pc \<and> pc < usercopy_copy_end (link s)) \<and>
     usercopy_copy_fixup (link s) \<noteq> 0 \<and> fault_frame env \<noteq> 0 \<and> unat (fault_frame env) mod 8 = 0"

text \<open>
  The physical byte that a load or store of the kernel reaches while it has access to user pages: that of the page
  table, provided that the page's flags allow the access.
\<close>

definition hart_byte :: "u64 \<Rightarrow> 'a hw_scheme \<Rightarrow> bool \<Rightarrow> u64 \<Rightarrow> u64 option" where
  "hart_byte root s w va =
     (case vm_mapping root s (page_base va) of None \<Rightarrow> None
      | Some (pa, flags) \<Rightarrow> if drop_bit 56 pa = 0 \<and> sv39_allows w (sstatus s OR SSTATUS_SUM) flags
          then Some (pa OR (va AND VM_PAGE_OFFSET_MASK)) else None)"

text \<open>The words of the frame that the trap entry and the recovery write.\<close>

definition frame_words :: "copy_env \<Rightarrow> u64 set" where
  "frame_words env = {fault_frame env + off + of_nat i | off i. off \<in> {FRAME_MEPC, FRAME_MSTATUS, FRAME_MCAUSE, FRAME_MTVAL} \<and> i < 8}"

lemma frame_store:
  assumes "x \<notin> frame_words env" and "off \<in> {FRAME_MEPC, FRAME_MSTATUS, FRAME_MCAUSE, FRAME_MTVAL}"
  shows "write64 m (fault_frame env + off) v x = m x"
  using assms by (intro cell64.wr_outside) (auto simp: frame_words_def)

text \<open>What a fault at \<open>va\<close> leaves in the registers of the hart when it has been recovered.\<close>

definition after_fault :: "bool \<Rightarrow> u64 \<Rightarrow> 'a timer_scheme \<Rightarrow> 'a timer_scheme" where
  "after_fault w va s = s\<lparr>sstatus := after_trap (sstatus s), csrs := (csrs s)\<lparr>c_sepc := usercopy_copy_fixup (link s),
     c_scause := (if w then MCAUSE_STORE_PAGE_FAULT else MCAUSE_LOAD_PAGE_FAULT), c_stval := va\<rparr>\<rparr>"

definition cleared_probe :: usercopy_probe where
  "cleared_probe = \<lparr>up_active = False, up_pc_start = 0, up_pc_end = 0, up_fixup_pc = 0, up_user_start = 0, up_user_end = 0, up_fault_cause = 0\<rparr>"

lemma fault_ok:
  fixes s :: "'a sched_scheme"
  assumes cur: "current_thread s = Some c" "c \<noteq> 0" "th_tid (threads s c) = c" and env: "copy_env_ok env s"
    and probe: "usercopy_probes s c = \<lparr>up_active = True, up_pc_start = usercopy_copy_start (link s), up_pc_end = usercopy_copy_end (link s),
      up_fixup_pc = usercopy_copy_fixup (link s), up_user_start = us, up_user_end = ue, up_fault_cause = cause\<rparr>"
    and va: "us \<le> va" "va < ue" and cause: "cause = (if w then MCAUSE_STORE_PAGE_FAULT else MCAUSE_LOAD_PAGE_FAULT)"
    and pc: "pc \<in> {load_pc env, store_pc env}"
  shows "\<exists>m' p. usercopy_fault env pc va cause s =
      Inr (USERCOPY_ERR_FAULT, (after_fault w va s)\<lparr>mem := m', usercopy_probes := (usercopy_probes s)(c := p)\<rparr>) \<and>
    (\<forall>x. x \<notin> frame_words env \<longrightarrow> m' x = mem s x)"
proof -
  let ?f = "fault_frame env"
  define t where "t = hart_trap pc cause va s"
  define m4 where "m4 = write64 (write64 (write64 (write64 (mem s) (?f + FRAME_MEPC) pc) (?f + FRAME_MSTATUS) (sstatus t))
    (?f + FRAME_MCAUSE) cause) (?f + FRAME_MTVAL) va"
  have f8: "unat ?f mod 8 = 0" "?f \<noteq> 0" using env by (simp_all add: copy_env_ok_def)
  note r = trap_frame_words [OF f8(1), where m = "mem s" and pc = pc and st = "sstatus t" and cause = cause and va = va, folded m4_def]
  have w: "usercopy_copy_start (link s) \<le> pc" "pc < usercopy_copy_end (link s)" using env pc by (auto simp: copy_env_ok_def)
  have tf: "mem t = mem s" "current_thread t = Some c" "th_tid (threads t c) = c" "usercopy_probes t = usercopy_probes s" "link t = link s"
    using cur by (simp_all add: t_def hart_trap_def upd_csrs_def)
  have save: "trap_entry_save_csrs ?f t = t\<lparr>mem := m4\<rparr>"
    by (simp add: trap_entry_save_csrs_def Let_def store64_def csr_read_sepc_def csr_read_scause_def csr_read_stval_def
        csr_read_sstatus_def m4_def t_def hart_trap_def upd_csrs_def)
  let ?m' = "write64 m4 (?f + FRAME_MEPC) (usercopy_copy_fixup (link s))" and ?p = "(usercopy_probes s c)\<lparr>up_active := False\<rparr>"
  define u where "u = t\<lparr>mem := ?m', usercopy_probes := (usercopy_probes s)(c := ?p)\<rparr>"
  have rec: "thread_usercopy_probe_recover ?f cause (t\<lparr>mem := m4\<rparr>) = (True, u)"
    using tf cur(2) probe va cause w r(1,3) f8(2)
    by (simp add: thread_usercopy_probe_recover_def trap_cause_is_usercopy_recoverable_def THREAD_NULL_TID_def Let_def load64_def store64_def
        not_less not_le u_def split: if_splits)
  have st: "sstatus t = (sstatus s AND NOT (SSTATUS_SIE OR SSTATUS_SPIE)) OR SSTATUS_SPP OR (if sstatus s AND SSTATUS_SIE \<noteq> 0 then SSTATUS_SPIE else 0)"
    "csrs t = (csrs s)\<lparr>c_sepc := pc, c_scause := cause, c_stval := va\<rparr>"
    by (simp_all add: t_def hart_trap_def upd_csrs_def)
  have "load64 (?f + FRAME_MEPC) u = usercopy_copy_fixup (link s)" "load64 (?f + FRAME_MSTATUS) u = sstatus t"
    using r(4) by (simp_all add: u_def load64_def cell64.rd_wr)
  moreover have "after_trap (sstatus s) = (sstatus t AND NOT (SSTATUS_SIE OR SSTATUS_SPP)) OR SSTATUS_SPIE OR
      (if sstatus t AND SSTATUS_SPIE \<noteq> 0 then SSTATUS_SIE else 0)"
    unfolding st(1) by (rule trap_status(1) [symmetric])
  ultimately have "trap_restore_frame ?f u = u\<lparr>sstatus := after_trap (sstatus s), csrs := (csrs s)\<lparr>c_sepc := usercopy_copy_fixup (link s),
      c_scause := cause, c_stval := va\<rparr>\<rparr>"
    by (simp add: trap_restore_frame_def Let_def csr_write_sepc_def upd_csrs_def hart_sret_def load64_def) (simp add: u_def st(2))
  moreover have "u\<lparr>sstatus := after_trap (sstatus s), csrs := (csrs s)\<lparr>c_sepc := usercopy_copy_fixup (link s), c_scause := cause, c_stval := va\<rparr>\<rparr> =
      (after_fault w va s)\<lparr>mem := ?m', usercopy_probes := (usercopy_probes s)(c := ?p)\<rparr>"
    by (simp add: u_def t_def hart_trap_def upd_csrs_def after_fault_def cause)
  ultimately have ret: "trap_restore_frame ?f u = (after_fault w va s)\<lparr>mem := ?m', usercopy_probes := (usercopy_probes s)(c := ?p)\<rparr>"
    by (simp only:)
  have "usercopy_fault env pc va cause s = Inr (USERCOPY_ERR_FAULT, (after_fault w va s)\<lparr>mem := ?m', usercopy_probes := (usercopy_probes s)(c := ?p)\<rparr>)"
    unfolding usercopy_fault_def Let_def t_def [symmetric] save rec prod.case if_True ret
    by (simp add: csr_read_sepc_def after_fault_def)
  moreover have "\<forall>x. x \<notin> frame_words env \<longrightarrow> ?m' x = mem s x" by (simp add: m4_def frame_store)
  ultimately show ?thesis by blast
qed

section \<open>The loop\<close>

primrec seq_copy :: "(nat \<Rightarrow> u64) \<Rightarrow> (nat \<Rightarrow> u64) \<Rightarrow> nat \<Rightarrow> memory \<Rightarrow> memory" where
  "seq_copy dst src 0 m = m"
| "seq_copy dst src (Suc n) m = (let m = seq_copy dst src n m in m(dst n := m (src n)))"

lemma seq_copy_moved:
  assumes "\<forall>i<n. \<forall>j<n. dst i \<noteq> src j" and "\<forall>i<n. \<forall>j<n. dst i = dst j \<longrightarrow> i = j"
  shows "moved dst src n m (seq_copy dst src n m)"
  using assms
proof (induction n)
  case (Suc n)
  then have mv: "moved dst src n m (seq_copy dst src n m)" by (meson less_SucI)
  moreover have "\<forall>i<n. src n \<noteq> dst i" using Suc.prems(1) by (metis less_SucI lessI)
  ultimately have "seq_copy dst src n m (src n) = m (src n)" by (simp only: moved_def)
  then show ?case using Suc.prems(2) mv unfolding moved_def by (auto simp: Let_def less_Suc_eq)
qed (simp add: moved_def)

lemma seq_copy_agree:
  assumes "\<forall>i<n. page_base (dst i) \<notin> A"
  shows "agree_on A m (seq_copy dst src n m)"
  using assms by (induction n) (auto simp: Let_def agree_on_def)

lemma loop_prefix:
  assumes h: "in_sv39 root s"
    and tr: "\<forall>i<n. hart_translate False (src + of_nat i) s = Some (ks i) \<and> hart_translate True (dst + of_nat i) s = Some (kd i) \<and>
      page_base (kd i) \<notin> pt_tables (mem s) root"
  shows "riscv_usercopy_copy_bytes env dst src (n + k) s =
    riscv_usercopy_copy_bytes env (dst + of_nat n) (src + of_nat n) k (s\<lparr>mem := seq_copy kd ks n (mem s)\<rparr>)"
  using tr
proof (induction n arbitrary: k)
  case (Suc n)
  have "riscv_usercopy_copy_bytes env dst src (n + Suc k) s =
    riscv_usercopy_copy_bytes env (dst + of_nat n) (src + of_nat n) (Suc k) (s\<lparr>mem := seq_copy kd ks n (mem s)\<rparr>)"
    using Suc.prems by (intro Suc.IH) simp
  moreover have "agree_on (pt_tables (mem s) root) (mem s) (seq_copy kd ks n (mem s))" using Suc.prems by (intro seq_copy_agree) simp
  note same = hart_translate_agree(2) [OF h this]
  ultimately show ?case using Suc.prems by (simp add: same Let_def add.commute add.left_commute fun_upd_def)
qed simp

section \<open>A probed copy\<close>

text \<open>The index of the first byte whose user address does not translate, or \<open>n\<close>.\<close>

definition first_fault :: "(u64 \<Rightarrow> u64 option) \<Rightarrow> u64 \<Rightarrow> nat \<Rightarrow> nat" where
  "first_fault tr va n = length (takeWhile (\<lambda>i. tr (va + of_nat i) \<noteq> None) [0..<n])"

lemma first_fault_props:
  "first_fault tr va n \<le> n" "i < first_fault tr va n \<Longrightarrow> tr (va + of_nat i) \<noteq> None"
  "first_fault tr va n < n \<Longrightarrow> tr (va + of_nat (first_fault tr va n)) = None"
proof -
  let ?P = "\<lambda>i. tr (va + of_nat i) \<noteq> None" and ?l = "takeWhile (\<lambda>i. tr (va + of_nat i) \<noteq> None) [0..<n]"
  have l: "length ?l \<le> n" using length_takeWhile_le [of ?P "[0..<n]"] by simp
  then show "first_fault tr va n \<le> n" by (simp add: first_fault_def)
  show "tr (va + of_nat i) \<noteq> None" if "i < first_fault tr va n"
  proof -
    have "?l ! i = [0..<n] ! i" "i < n" using that l by (auto simp: first_fault_def takeWhile_nth)
    moreover have "?l ! i \<in> set ?l" using that by (simp add: first_fault_def)
    ultimately show ?thesis using set_takeWhileD [of "?l ! i" ?P] by simp
  qed
  show "tr (va + of_nat (first_fault tr va n)) = None" if "first_fault tr va n < n"
    using nth_length_takeWhile [of ?P "[0..<n]"] that by (simp add: first_fault_def)
qed

text \<open>
  The physical bytes of the two sides. The kernel's buffer always translates, no byte is on both
  sides, none is written twice, and the copy overwrites neither the trap frame nor the page tables.
\<close>

definition sides_ok :: "copy_env \<Rightarrow> u64 set \<Rightarrow> (bool \<Rightarrow> u64 \<Rightarrow> u64 option) \<Rightarrow> bool \<Rightarrow> u64 \<Rightarrow> u64 \<Rightarrow> nat \<Rightarrow> bool" where
  "sides_ok env tables tr w va k n \<longleftrightarrow> (\<forall>i<n. tr (\<not> w) (k + of_nat i) \<noteq> None) \<and>
     (\<forall>i<n. \<forall>j<n. \<forall>a. tr w (va + of_nat i) = Some a \<longrightarrow> tr (\<not> w) (k + of_nat j) \<noteq> Some a) \<and>
     (let dst = if w then va else k in
      (\<forall>i<n. \<forall>j<n. \<forall>a. tr True (dst + of_nat i) = Some a \<longrightarrow> tr True (dst + of_nat j) = Some a \<longrightarrow> i = j) \<and>
      (\<forall>i<n. \<forall>a. tr True (dst + of_nat i) = Some a \<longrightarrow> a \<notin> frame_words env \<and> page_base a \<notin> tables))"

definition byte_at :: "(bool \<Rightarrow> u64 \<Rightarrow> u64 option) \<Rightarrow> bool \<Rightarrow> u64 \<Rightarrow> nat \<Rightarrow> u64" where
  "byte_at tr w va i = the (tr w (va + of_nat i))"

lemma loop_ok:
  fixes s :: "'a sched_scheme"
  assumes cur: "current_thread s = Some c" "c \<noteq> 0" "th_tid (threads s c) = c" and env: "copy_env_ok env s"
    and h: "in_sv39 root s" and st: "\<And>w va. hart_translate w va s = tr w va"
    and sides: "sides_ok env (pt_tables (mem s) root) tr w va k (unat len)" and nw: "unat va + unat len < 2 ^ 64"
    and probe: "usercopy_probes s c = \<lparr>up_active = True, up_pc_start = usercopy_copy_start (link s), up_pc_end = usercopy_copy_end (link s),
      up_fixup_pc = usercopy_copy_fixup (link s), up_user_start = va, up_user_end = va + len,
      up_fault_cause = (if w then MCAUSE_STORE_PAGE_FAULT else MCAUSE_LOAD_PAGE_FAULT)\<rparr>"
  defines "dst \<equiv> if w then va else k" and "src \<equiv> if w then k else va" and "n \<equiv> first_fault (tr w) va (unat len)"
  shows "\<exists>m' p. riscv_usercopy_copy_bytes env dst src (unat len) s =
      Inr (if n < unat len then USERCOPY_ERR_FAULT else USERCOPY_OK,
        (if n < unat len then after_fault w (va + of_nat n) s else s)\<lparr>mem := m', usercopy_probes := (usercopy_probes s)(c := p)\<rparr>) \<and>
    (\<forall>i<n. m' (byte_at tr True dst i) = mem s (byte_at tr False src i)) \<and>
    (\<forall>x. x \<notin> frame_words env \<longrightarrow> (\<forall>i<n. x \<noteq> byte_at tr True dst i) \<longrightarrow> m' x = mem s x)"
proof -
  let ?kd = "byte_at tr True dst" and ?ks = "byte_at tr False src"
  note ff = first_fault_props [where tr = "tr w" and va = va and n = "unat len", folded n_def]
  have us: "tr w (va + of_nat i) = Some (byte_at tr w va i)" if "i < n" for i using ff(2) [OF that] by (auto simp: byte_at_def)
  have ke: "tr (\<not> w) (k + of_nat i) = Some (byte_at tr (\<not> w) k i)" if "i < unat len" for i
    using sides that by (auto simp: sides_ok_def byte_at_def)
  have ds: "tr False (src + of_nat i) = Some (?ks i) \<and> tr True (dst + of_nat i) = Some (?kd i)" if "i < n" for i
    using us [OF that] ke [of i] that ff(1) by (cases w) (simp_all add: dst_def src_def)
  have out: "?kd i \<notin> frame_words env \<and> page_base (?kd i) \<notin> pt_tables (mem s) root" if "i < n" for i
    using sides ds [OF that] that ff(1) unfolding sides_ok_def Let_def dst_def by (meson less_le_trans)
  have apart: "\<forall>i<n. \<forall>j<n. ?kd i \<noteq> ?ks j"
  proof (intro allI impI)
    fix i j assume ij: "i < n" "j < n"
    then have l: "i < unat len" "j < unat len" using ff(1) by simp_all
    show "?kd i \<noteq> ?ks j"
      using sides us [OF ij(1)] us [OF ij(2)] ke [OF l(1)] ke [OF l(2)] l
      by (cases w) (auto simp: sides_ok_def dst_def src_def)
  qed
  have inj: "\<forall>i<n. \<forall>j<n. ?kd i = ?kd j \<longrightarrow> i = j"
  proof (intro allI impI)
    fix i j assume ij: "i < n" "j < n" "?kd i = ?kd j"
    have l: "i < unat len" "j < unat len" using ij ff(1) by simp_all
    have "tr True (dst + of_nat i) = Some (?kd i)" "tr True (dst + of_nat j) = Some (?kd i)" using ds [OF ij(1)] ds [OF ij(2)] ij(3) by simp_all
    then show "i = j" using sides l unfolding sides_ok_def Let_def dst_def by blast
  qed
  define m1 where "m1 = seq_copy ?kd ?ks n (mem s)"
  have mv: "moved ?kd ?ks n (mem s) m1" unfolding m1_def by (rule seq_copy_moved [OF apart inj])
  have run: "riscv_usercopy_copy_bytes env dst src (n + r) s =
      riscv_usercopy_copy_bytes env (dst + of_nat n) (src + of_nat n) r (s\<lparr>mem := m1\<rparr>)" for r
    unfolding m1_def using ds out by (intro loop_prefix [OF h]) (simp add: st)
  have "agree_on (pt_tables (mem s) root) (mem s) m1" unfolding m1_def using out by (intro seq_copy_agree) simp
  then have st1: "hart_translate w va (s\<lparr>mem := m1\<rparr>) = tr w va" for w va
    using hart_translate_agree(2) [OF h] st by simp
  show ?thesis
  proof (cases "n < unat len")
    case False
    then have "unat len = n + 0" using ff(1) by simp
    then have "riscv_usercopy_copy_bytes env dst src (unat len) s = Inr (USERCOPY_OK, s\<lparr>mem := m1\<rparr>)" using run [of 0] by simp
    then show ?thesis using False mv
      by (intro exI [of _ m1] exI [of _ "usercopy_probes s c"]) (simp add: moved_def)
  next
    case True
    then obtain r where r: "unat len = n + Suc r" by (metis add_Suc_right less_imp_Suc_add)
    let ?s1 = "s\<lparr>mem := m1\<rparr>" and ?cause = "if w then MCAUSE_STORE_PAGE_FAULT else MCAUSE_LOAD_PAGE_FAULT"
    let ?pc = "if w then store_pc env else load_pc env"
    have e: "riscv_usercopy_copy_bytes env dst src (unat len) s = usercopy_fault env ?pc (va + of_nat n) ?cause ?s1"
      using ff(3) [OF True] ke [OF True] st1 unfolding r run by (cases w) (simp_all add: dst_def src_def Let_def)
    have un: "unat (va + of_nat n) = unat va + n" using nw True unat64_lt [of len]
      by (subst unat_add_lem [THEN iffD1]) (simp_all add: unat_of_nat)
    have ue: "unat (va + len) = unat va + unat len" using nw by (subst unat_add_lem [THEN iffD1]) simp_all
    have "\<exists>m' p. usercopy_fault env ?pc (va + of_nat n) ?cause ?s1 =
        Inr (USERCOPY_ERR_FAULT, (after_fault w (va + of_nat n) ?s1)\<lparr>mem := m', usercopy_probes := (usercopy_probes ?s1)(c := p)\<rparr>) \<and>
        (\<forall>x. x \<notin> frame_words env \<longrightarrow> m' x = mem ?s1 x)"
    proof (rule fault_ok)
      show "copy_env_ok env ?s1" using env by (simp add: copy_env_ok_def)
      show "va \<le> va + of_nat n" "va + of_nat n < va + len" using un ue True by (simp_all add: word_le_nat_alt word_less_nat_alt)
    qed (use cur probe in simp_all)
    then obtain m' p where m': "usercopy_fault env ?pc (va + of_nat n) ?cause ?s1 =
        Inr (USERCOPY_ERR_FAULT, (after_fault w (va + of_nat n) s)\<lparr>mem := m', usercopy_probes := (usercopy_probes s)(c := p)\<rparr>)"
        "\<forall>x. x \<notin> frame_words env \<longrightarrow> m' x = m1 x" by (auto simp: after_fault_def)
    show ?thesis using e m' mv True out by (intro exI [of _ m'] exI [of _ p]) (simp add: moved_def)
  qed
qed

text \<open>The status register on the way out, with access to user pages and interrupts as they were.\<close>

lemma restored_status:
  fixes st :: u64 and f :: bool
  defines "v \<equiv> st AND NOT SSTATUS_SIE"
  defines "x \<equiv> if f then after_trap (v OR SSTATUS_SUM) else v OR SSTATUS_SUM"
  defines "y \<equiv> if v AND SSTATUS_SUM \<noteq> 0 then x OR SSTATUS_SUM else x AND NOT SSTATUS_SUM"
  shows "x AND SSTATUS_SIE = 0" "x AND NOT SSTATUS_SIE = x"
    and "(if st AND SSTATUS_SIE \<noteq> 0 then y OR SSTATUS_SIE else y AND NOT SSTATUS_SIE) = (if f then after_trap st else st)"
proof -
  have v: "bit v n \<longleftrightarrow> bit st n \<and> n \<noteq> 1" for n by (auto simp: v_def status_simps dest: bit_imp_le_length)
  have a: "bit (after_trap w) n \<longleftrightarrow> (bit w n \<or> n = 5) \<and> n \<noteq> 8" for w n
    by (auto simp: after_trap_def status_simps dest: bit_imp_le_length)
  have x: "bit x n \<longleftrightarrow> (if f then (bit st n \<and> n \<noteq> 1 \<or> n = 18 \<or> n = 5) \<and> n \<noteq> 8 else bit st n \<and> n \<noteq> 1 \<or> n = 18)" for n
    by (auto simp: x_def a v status_simps)
  show "x AND SSTATUS_SIE = 0" using status_test(1) [of x] x [of 1] by (auto split: if_splits)
  show "x AND NOT SSTATUS_SIE = x" by (rule bit_word_eqI) (auto simp: status_simps x)
  have y: "bit y n \<longleftrightarrow> (if f then (bit st n \<and> n \<noteq> 1 \<or> n = 5) \<and> n \<noteq> 8 else bit st n \<and> n \<noteq> 1)" for n
  proof (cases "n = 18")
    case True
    then show ?thesis unfolding y_def status_test(4) by (auto simp: status_simps x v)
  next
    case False
    then show ?thesis unfolding y_def status_test(4) by (auto simp: status_simps x v dest: bit_imp_le_length)
  qed
  show "(if st AND SSTATUS_SIE \<noteq> 0 then y OR SSTATUS_SIE else y AND NOT SSTATUS_SIE) = (if f then after_trap st else st)"
    unfolding status_test(1) by (rule bit_word_eqI) (auto simp: status_simps y a)
qed

lemma allows_sum:
  assumes "v AND SSTATUS_SUM \<noteq> 0" and "v AND SSTATUS_MXR = v' AND SSTATUS_MXR" and "v' AND SSTATUS_SUM \<noteq> 0"
  shows "sv39_allows w v flags = sv39_allows w v' flags"
  using assms by (simp add: sv39_allows_def)

lemma probe_end_ok:
  fixes s :: "'a sched_scheme"
  assumes "current_thread s = Some c" "c \<noteq> 0" "th_tid (threads s c) = c" "tid_is_valid c" and "sstatus s AND SSTATUS_SIE = 0" "sstatus s AND NOT SSTATUS_SIE = sstatus s"
  shows "thread_usercopy_probe_end s = Inr ((), s\<lparr>usercopy_probes := (usercopy_probes s)(c := cleared_probe)\<rparr>)"
  using assms
  by (simp add: thread_usercopy_probe_end_def irq_masked_def irq_save_def csr_clear_sstatus_def THREAD_NULL_TID_def
      usercopy_probe_clear_def cleared_probe_def [symmetric] irq_restore_def)

lemma probed_ok:
  fixes s :: "'a sched_scheme"
  assumes inv: "sched_inv Q s" and cur: "current_thread s = Some c" and nz: "c \<noteq> 0" and idle: "\<not> up_active (usercopy_probes s c)"
    and env: "copy_env_ok env s" and h: "in_sv39 root s" and sides: "sides_ok env (pt_tables (mem s) root) (hart_byte root s) w va k (unat len)"
    and nw: "unat va + unat len < 2 ^ 64" and len: "len \<noteq> 0"
  defines "dst \<equiv> if w then va else k" and "src \<equiv> if w then k else va" and "n \<equiv> first_fault (hart_byte root s w) va (unat len)"
  shows "\<exists>m'. probed_copy_bytes env dst src len va (va + len) (if w then MCAUSE_STORE_PAGE_FAULT else MCAUSE_LOAD_PAGE_FAULT) s =
      Inr (if n < unat len then USERCOPY_ERR_FAULT else USERCOPY_OK,
        (if n < unat len then after_fault w (va + of_nat n) s else s)\<lparr>mem := m', usercopy_probes := (usercopy_probes s)(c := cleared_probe)\<rparr>) \<and>
    (\<forall>i<n. m' (byte_at (hart_byte root s) True dst i) = mem s (byte_at (hart_byte root s) False src i)) \<and>
    (\<forall>x. x \<notin> frame_words env \<longrightarrow> (\<forall>i<n. x \<noteq> byte_at (hart_byte root s) True dst i) \<longrightarrow> m' x = mem s x)"
proof -
  note f = current_facts [OF inv cur]
  let ?cause = "if w then MCAUSE_STORE_PAGE_FAULT else MCAUSE_LOAD_PAGE_FAULT" and ?tr = "hart_byte root s"
  let ?v = "sstatus s AND NOT SSTATUS_SIE" and ?fault = "n < unat len"
  define p0 where "p0 = \<lparr>up_active = True, up_pc_start = usercopy_copy_start (link s), up_pc_end = usercopy_copy_end (link s),
      up_fixup_pc = usercopy_copy_fixup (link s), up_user_start = va, up_user_end = va + len, up_fault_cause = ?cause\<rparr>"
  define s1 where "s1 = s\<lparr>sstatus := ?v\<rparr>"
  define s2 where "s2 = s\<lparr>sstatus := ?v OR SSTATUS_SUM, usercopy_probes := (usercopy_probes s)(c := p0)\<rparr>"
  have ue: "unat (va + len) = unat va + unat len" using nw by (subst unat_add_lem [THEN iffD1]) simp_all
  have lt: "va < va + len" using ue len by (simp add: word_less_nat_alt unat_gt_0)
  have pcs: "usercopy_copy_start (link s) < usercopy_copy_end (link s)" "usercopy_copy_fixup (link s) \<noteq> 0"
    using env by (auto simp: copy_env_ok_def intro: le_less_trans)
  have vv: "?v AND NOT SSTATUS_SIE = ?v" by (auto intro!: bit_word_eqI simp: bit_simps)
  have pb: "thread_usercopy_probe_begin (usercopy_copy_start (link s)) (usercopy_copy_end (link s)) (usercopy_copy_fixup (link s))
      va (va + len) ?cause s1 = Inr (0, s1\<lparr>usercopy_probes := (usercopy_probes s)(c := p0)\<rparr>)"
    using cur nz idle pcs lt f(3)
    by (simp add: thread_usercopy_probe_begin_def irq_masked_def irq_save_def csr_clear_sstatus_def s1_def vv THREAD_NULL_TID_def
        trap_cause_is_usercopy_recoverable_def not_le p0_def irq_restore_masked)
  have set: "csr_set_sstatus SSTATUS_SUM (s1\<lparr>usercopy_probes := (usercopy_probes s)(c := p0)\<rparr>) = s2"
    by (simp add: csr_set_sstatus_def s1_def s2_def)
  have h2: "in_sv39 root s2" using h by (simp add: in_sv39_def s2_def vm_inv_def pages_inv_def used_pages_def allocated_def page_addr_from_index_def)
  have mx: "(?v OR SSTATUS_SUM) AND SSTATUS_MXR = (sstatus s OR SSTATUS_SUM) AND SSTATUS_MXR" "(?v OR SSTATUS_SUM) AND SSTATUS_SUM \<noteq> 0"
    "(sstatus s OR SSTATUS_SUM) AND SSTATUS_SUM \<noteq> 0"
    by (auto intro!: bit_word_eqI simp: bit_simps SSTATUS_SIE_def SSTATUS_SUM_def SSTATUS_MXR_def)
  have tr: "hart_translate w va s2 = ?tr w va" for w va
    unfolding hart_translate_mapped [OF h2] hart_byte_def
    by (auto simp: s2_def vm_mapping_def allows_sum [OF mx(2,1,3)] split: option.split)
  have "\<exists>m' p. riscv_usercopy_copy_bytes env dst src (unat len) s2 =
      Inr (if ?fault then USERCOPY_ERR_FAULT else USERCOPY_OK,
        (if ?fault then after_fault w (va + of_nat n) s2 else s2)\<lparr>mem := m', usercopy_probes := (usercopy_probes s2)(c := p)\<rparr>) \<and>
    (\<forall>i<n. m' (byte_at ?tr True dst i) = mem s2 (byte_at ?tr False src i)) \<and>
    (\<forall>x. x \<notin> frame_words env \<longrightarrow> (\<forall>i<n. x \<noteq> byte_at ?tr True dst i) \<longrightarrow> m' x = mem s2 x)"
    unfolding dst_def src_def n_def
  proof (rule loop_ok [OF _ nz _ _ h2 tr _ nw])
    show "current_thread s2 = Some c" "th_tid (threads s2 c) = c" "copy_env_ok env s2"
      "sides_ok env (pt_tables (mem s2) root) (hart_byte root s) w va k (unat len)"
      using cur f(3) env sides by (simp_all add: s2_def copy_env_ok_def)
  qed (simp add: s2_def p0_def)
  then obtain m' p where m': "riscv_usercopy_copy_bytes env dst src (unat len) s2 =
      Inr (if ?fault then USERCOPY_ERR_FAULT else USERCOPY_OK,
        (if ?fault then after_fault w (va + of_nat n) s2 else s2)\<lparr>mem := m', usercopy_probes := (usercopy_probes s2)(c := p)\<rparr>)"
    "\<forall>i<n. m' (byte_at ?tr True dst i) = mem s (byte_at ?tr False src i)"
    "\<forall>x. x \<notin> frame_words env \<longrightarrow> (\<forall>i<n. x \<noteq> byte_at ?tr True dst i) \<longrightarrow> m' x = mem s x"
    by (auto simp: s2_def)
  define g where "g = (if ?fault then after_fault w (va + of_nat n) else id)"
  let ?x = "if ?fault then after_trap (?v OR SSTATUS_SUM) else ?v OR SSTATUS_SUM"
  let ?s3 = "(if ?fault then after_fault w (va + of_nat n) s2 else s2)\<lparr>mem := m', usercopy_probes := (usercopy_probes s2)(c := p)\<rparr>"
  let ?s4 = "(if ?fault then after_fault w (va + of_nat n) s else s)\<lparr>mem := m', sstatus := ?x, usercopy_probes := (usercopy_probes s)(c := cleared_probe)\<rparr>"
  note rs = restored_status [where st = "sstatus s" and f = ?fault]
  have x3: "sstatus ?s3 = ?x" by (simp add: after_fault_def s2_def)
  have fin: "thread_usercopy_probe_end ?s3 = Inr ((), ?s3\<lparr>usercopy_probes := (usercopy_probes ?s3)(c := cleared_probe)\<rparr>)"
  proof (rule probe_end_ok [OF _ nz])
    show "current_thread ?s3 = Some c" "th_tid (threads ?s3 c) = c" "tid_is_valid c" using cur f(1,3) by (simp_all add: after_fault_def s2_def)
  qed (use rs(1,2) x3 in simp_all)
  have s4: "?s3\<lparr>usercopy_probes := (usercopy_probes ?s3)(c := cleared_probe)\<rparr> = ?s4" by (simp add: after_fault_def s2_def)
  let ?last = "(if ?fault then after_fault w (va + of_nat n) s else s)\<lparr>mem := m', usercopy_probes := (usercopy_probes s)(c := cleared_probe)\<rparr>"
  have out: "irq_restore (sstatus s) (usercopy_restore_sstatus ?v ?s4) = ?last"
  proof -
    have "irq_restore (sstatus s) (usercopy_restore_sstatus ?v ?s4) = ?s4\<lparr>sstatus :=
        (let y = if ?v AND SSTATUS_SUM \<noteq> 0 then ?x OR SSTATUS_SUM else ?x AND NOT SSTATUS_SUM in
         if sstatus s AND SSTATUS_SIE \<noteq> 0 then y OR SSTATUS_SIE else y AND NOT SSTATUS_SIE)\<rparr>"
      by (simp add: irq_restore_def usercopy_restore_sstatus_def csr_set_sstatus_def csr_clear_sstatus_def Let_def)
    also have "\<dots> = ?s4\<lparr>sstatus := if ?fault then after_trap (sstatus s) else sstatus s\<rparr>" unfolding Let_def rs(3) ..
    also have "\<dots> = ?last" by (simp add: after_fault_def)
    finally show ?thesis .
  qed
  have "irq_save s = (sstatus s, s1)" "csr_read_sstatus s1 = ?v" "link s1 = link s"
    by (simp_all add: irq_save_def csr_clear_sstatus_def s1_def csr_read_sstatus_def)
  then have "probed_copy_bytes env dst src len va (va + len) ?cause s = Inr (if ?fault then USERCOPY_ERR_FAULT else USERCOPY_OK, ?last)"
    unfolding probed_copy_bytes_def Let_def prod.case by (simp only: prod.case pb bindE_Inr set m'(1) fin s4 out) simp
  then show ?thesis using m'(2,3) by blast
qed

text \<open>
  C20: A copy between the kernel and user memory by the hart never panics, whatever the pages' flags are. It runs on
  the page table that \<open>satp\<close> names, the kernel's own, which the hart walks as Sv39 has it. The copy is refused, with
  nothing changed, exactly when a pointer is null or the kernel's page table does not allow the user range.
  Otherwise it opens the user's pages to the kernel and copies up to the first user byte that the hart cannot access
  even so: all of it, reported as \<open>USERCOPY_OK\<close>, or a prefix, reported as \<open>USERCOPY_ERR_FAULT\<close>. Afterwards the
  user's pages are closed again, interrupts and all other variables are as they were, no probe is active, and no other
  byte has changed; a fault has left its traces in the trap frame, in the registers that describe the last trap and in
  the status register's record of the state before it.
\<close>

theorem hart_copy_recovers:
  fixes s :: "'a sched_scheme"
  assumes "sched_inv Q s" and "current_thread s = Some c" and "c \<noteq> 0" and "\<not> up_active (usercopy_probes s c)"
    and "in_sv39 root s" and "root = vm_root (kernel_space s)" and "len \<noteq> 0"
    and "copy_env_ok env s" and "sides_ok env (pt_tables (mem s) root) (hart_byte root s) w va k (unat len)"
  defines "dst \<equiv> if w then va else k" and "src \<equiv> if w then k else va" and "n \<equiv> first_fault (hart_byte root s w) va (unat len)"
    and "copy \<equiv> if w then copy_to_user else copy_from_user"
  shows "if va = 0 \<or> k = 0 \<or> \<not> user_range_ok root s w va len then copy env dst src len s = Inr (USERCOPY_ERR_INVALID, s)
    else \<exists>m'. copy env dst src len s = Inr (if n < unat len then USERCOPY_ERR_FAULT else USERCOPY_OK,
        (if n < unat len then after_fault w (va + of_nat n) s else s)\<lparr>mem := m', usercopy_probes := (usercopy_probes s)(c := cleared_probe)\<rparr>) \<and>
      (\<forall>i<n. m' (byte_at (hart_byte root s) True dst i) = mem s (byte_at (hart_byte root s) False src i)) \<and>
      (\<forall>x. x \<notin> frame_words env \<longrightarrow> (\<forall>i<n. x \<noteq> byte_at (hart_byte root s) True dst i) \<longrightarrow> m' x = mem s x)"
proof -
  have inv: "vm_inv root s" using assms(5) by (simp add: in_sv39_def)
  have v: "usercopy_validate_range va len w s = Inr (if user_range_ok root s w va len then USERCOPY_OK else USERCOPY_ERR_INVALID, s)"
    using validate_range_ok [of "kernel_space s" s len va w] inv assms(6,7)
    by (simp add: usercopy_validate_range_def paging_kernel_space_def)
  have codes: "USERCOPY_OK = 0" "USERCOPY_ERR_INVALID = -1" by (simp_all add: USERCOPY_OK_def USERCOPY_ERR_INVALID_def)
  have nw: "\<not> va + len < va" if "user_range_ok root s w va len"
    using that by (auto simp: user_range_ok_def user_space_va_range_is_valid_def Let_def split: if_splits)
  have e: "copy env dst src len s = (if va = 0 \<or> k = 0 \<or> \<not> user_range_ok root s w va len then Inr (USERCOPY_ERR_INVALID, s)
      else probed_copy_bytes env dst src len va (va + len) (if w then MCAUSE_STORE_PAGE_FAULT else MCAUSE_LOAD_PAGE_FAULT) s)"
    using v nw assms(7) by (cases w) (auto simp: copy_def dst_def src_def copy_to_user_def copy_from_user_def usercopy_range_end_def Let_def codes)
  show ?thesis
  proof (cases "va = 0 \<or> k = 0 \<or> \<not> user_range_ok root s w va len")
    case True
    then show ?thesis unfolding e by simp
  next
    case False
    then have "unat va + unat len < 2 ^ 64" using nw unat64_lt [of "va + len"] by (metis not_less unat_plus_simple)
    from probed_ok [OF assms(1-4) assms(8) assms(5) assms(9) this assms(7)] show ?thesis
      unfolding if_not_P [OF False] e [unfolded if_not_P [OF False] dst_def src_def] dst_def src_def n_def .
  qed
qed

section \<open>A concrete copy\<close>

text \<open>
  A page table with a user page, a second user page whose accessed bit is clear, and the kernel's buffer; and a copy of
  sixteen bytes whose fourth byte lies on the second page.
\<close>

definition demo_env :: copy_env where
  "demo_env = \<lparr>load_pc = 0x80000904, store_pc = 0x80000908, fault_frame = 0x80009000\<rparr>"

definition demo_mapping :: "u64 \<Rightarrow> (u64 \<times> u64) option" where
  "demo_mapping = [0x3fff0000 \<mapsto> (0x80005000, 0xd7), 0x3fff1000 \<mapsto> (0x80008000, 0x97), 0x80006000 \<mapsto> (0x80006000, 0xc7)]"

lemma demo_map:
  fixes s :: sched
  assumes inv: "vm_inv root s" "vm_args_ok va pa flags" "vm_mapping root s va = None" and free: "2 \<le> unat (free_pages s)"
  obtains s' where "vm_inv root s'" "vm_mapping root s' = (vm_mapping root s)(va \<mapsto> (pa, flags))" "pool_step s s'"
    "unat (free_pages s) \<le> unat (free_pages s') + 2"
proof -
  have "vm_missing root s va \<le> 2" by (simp add: vm_missing_def missing_le)
  then show ?thesis
    using vm_map_page_spec [of "\<lparr>vm_root = root\<rparr>" s va pa flags] inv free that by (auto simp: vm_step_def split: if_splits)
qed

lemma demo_hart:
  obtains s :: sched and root where "sched_inv {0x100} s" "current_thread s = Some 1" "\<not> up_active (usercopy_probes s 1)" "in_sv39 root s"
    "root = vm_root (kernel_space s)" "link s = demo_link" "sstatus s = 2" "vm_mapping root s = demo_mapping"
    "\<And>x. x \<in> pt_tables (mem s) root \<Longrightarrow> 0x80010000 \<le> x"
proof -
  note f = demo_usched_facts
  obtain sp :: vm_space and s0 where s0: "vm_inv (vm_root sp) s0" "vm_mapping (vm_root sp) s0 = Map.empty" "pool_step demo_usched s0"
    "allocated s0 = insert (vm_root sp) (allocated demo_usched)" "vm_root sp \<notin> allocated demo_usched"
  proof -
    obtain r and sp :: vm_space and s0 where "vm_space_init (Some \<lparr>vm_root = 0\<rparr>) demo_usched = Inr ((r, Some sp), s0)"
      "if free_pages demo_usched = 0 then r = VM_ERR_NO_MEMORY \<and> sp = \<lparr>vm_root = 0\<rparr> \<and> s0 = demo_usched
       else r = VM_OK \<and> vm_inv (vm_root sp) s0 \<and> vm_mapping (vm_root sp) s0 = Map.empty \<and>
         vm_root sp \<notin> allocated demo_usched \<and> allocated s0 = insert (vm_root sp) (allocated demo_usched) \<and>
         pt_tables (mem s0) (vm_root sp) = {vm_root sp} \<and> pool_step demo_usched s0 \<and>
         agree_on (- {vm_root sp}) (mem demo_usched) (mem s0)"
      using vm_space_init_spec [OF f(1), of "\<lparr>vm_root = 0\<rparr>"] by blast
    with f(2) show ?thesis by (intro that [of sp s0]) simp_all
  qed
  let ?r = "vm_root sp"
  have n0: "15 \<le> unat (free_pages s0)"
  proof -
    have i0: "pages_inv s0" using s0(1) by (simp add: vm_inv_def)
    note m = pool_step_fields(1) [OF s0(3)]
    have fin: "finite (managed_frames s0 - allocated s0)" using pages.frames_finite [of s0] by simp
    have "managed_frames demo_usched - allocated demo_usched \<subseteq> insert ?r (managed_frames s0 - allocated s0)" using s0(4) m by auto
    then have "card (managed_frames demo_usched - allocated demo_usched) \<le> card (insert ?r (managed_frames s0 - allocated s0))"
      using fin by (intro card_mono) simp_all
    moreover have "card (insert ?r (managed_frames s0 - allocated s0)) \<le> Suc (card (managed_frames s0 - allocated s0))"
      using fin by (simp add: card_insert_if)
    ultimately have "card (managed_frames demo_usched - allocated demo_usched) \<le> Suc (card (managed_frames s0 - allocated s0))"
      by (rule le_trans)
    then show ?thesis using managed_frames_card [OF f(1)] managed_frames_card [OF i0] f(2) by simp
  qed
  have ok: "vm_args_ok 0x3fff0000 0x80005000 0xd7" "vm_args_ok 0x3fff1000 0x80008000 0x97" "vm_args_ok 0x80006000 0x80006000 0xc7"
    by (simp_all add: vm_args_ok_def va_is_canonical_def SV39_TOP_BIT_def page_aligned_def PAGE_MASK_def PAGE_SIZE_def flags_are_valid_def vm_flags)
  obtain s1 where s1: "vm_inv ?r s1" "vm_mapping ?r s1 = [0x3fff0000 \<mapsto> (0x80005000, 0xd7)]" "pool_step s0 s1" "13 \<le> unat (free_pages s1)"
    by (rule demo_map [OF s0(1) ok(1)]) (use s0(2) n0 in auto)
  obtain s2 where s2: "vm_inv ?r s2" "vm_mapping ?r s2 = [0x3fff0000 \<mapsto> (0x80005000, 0xd7), 0x3fff1000 \<mapsto> (0x80008000, 0x97)]"
    "pool_step s1 s2" "11 \<le> unat (free_pages s2)"
    by (rule demo_map [OF s1(1) ok(2)]) (use s1(2,4) in auto)
  obtain s3 where s3: "vm_inv ?r s3" "vm_mapping ?r s3 = demo_mapping" "pool_step s2 s3"
    by (rule demo_map [OF s2(1) ok(3)]) (use s2(2,4) in \<open>auto simp: demo_mapping_def\<close>)
  have ps: "pool_step demo_usched s3" using s0(3) s1(3) s2(3) s3(3) pool_step_trans by blast
  define s where "s = s3\<lparr>kernel_space := sp, satp := SATP_MODE_SV39 OR drop_bit 12 ?r, usercopy_probes := (\<lambda>_. cleared_probe)\<rparr>"
  have p: "same_pool s3 s" and "same_sched s3 s" by (simp_all add: s_def same_pool_def same_sched_def)
  have "same_sched demo_sched s" using f(6) ps by (auto simp: s_def same_sched_def pool_step_def)
  then have i: "sched_inv {0x100} s" "current_thread s = Some 1"
    using same_sched_inv [of demo_sched s "{0x100}"] demo_inv by (blast, simp add: same_sched_def)
  have "managed_end s3 = managed_end demo_usched" using ps by (auto simp: pool_step_def)
  then have e: "managed_end s = 0x80020000"
    by (simp add: s_def demo_usched_def page_init_state_def Let_def page_base_def PAGE_MASK_def PAGE_SIZE_def)
  have h: "in_sv39 ?r s" using s3(1) e same_pool_pages(5) [OF p] by (simp add: in_sv39_def) (simp add: s_def)
  have l: "link s = demo_link" "sstatus s = 2"
    using pool_step_fields(2,4) [OF ps] by (simp_all add: s_def demo_usched_def page_init_state_def Let_def) (simp add: demo_sched_def)
  have t: "0x80010000 \<le> x" if x: "x \<in> pt_tables (mem s) ?r" for x
  proof -
    have wf: "pt_wf (allocated s3) (mem s3) ?r" "pages_inv s3" using s3(1) by (simp_all add: vm_inv_def)
    have "x \<in> managed_frames demo_usched"
      using x pt_tables_subset [OF wf(1)] allocated_subset [of s3] pool_step_fields(1) [OF ps] by (auto simp: s_def)
    then show ?thesis using managed_frame_props(3) [OF f(1)] f(5) by simp
  qed
  show ?thesis
    by (rule that [of s ?r]) (use i h l t s3(2) same_pool_pages(6) [OF p] in \<open>simp_all add: s_def cleared_probe_def\<close>)
qed

lemma below_16: "i < (16 :: nat) \<Longrightarrow> i \<in> {0, 1, 2, 3, 4, 5, 6, 7, 8, 9, 10, 11, 12, 13, 14, 15}"
  unfolding insert_iff empty_iff by presburger

lemma demo_byte:
  assumes m: "vm_mapping root s = demo_mapping" and st: "sstatus s = 2" and i: "i < 16"
  shows "hart_byte root s False (0x3fff0ffd + of_nat i) = (if i < 3 then Some (0x80005ffd + of_nat i) else None)"
    and "hart_byte root s w (0x80006000 + of_nat i) = Some (0x80006000 + of_nat i)"
proof -
  note d = hart_byte_def m st demo_mapping_def page_base_def PAGE_MASK_def PAGE_SIZE_def VM_PAGE_OFFSET_MASK_def sv39_allows_def
    SSTATUS_SUM_def SSTATUS_MXR_def vm_flags
  show "hart_byte root s False (0x3fff0ffd + of_nat i) = (if i < 3 then Some (0x80005ffd + of_nat i) else None)"
    using below_16 [OF i] unfolding insert_iff empty_iff by (elim disjE) (simp_all add: d)
  show "hart_byte root s w (0x80006000 + of_nat i) = Some (0x80006000 + of_nat i)"
    using below_16 [OF i] unfolding insert_iff empty_iff by (elim disjE) (simp_all add: d)
qed

lemma demo_sides:
  assumes m: "vm_mapping root s = demo_mapping" "sstatus s = 2" and t: "\<And>x. x \<in> tables \<Longrightarrow> 0x80010000 \<le> x"
  shows "sides_ok demo_env tables (hart_byte root s) False 0x3fff0ffd 0x80006000 16"
proof -
  have u: "unat (0x80005ffd + of_nat i :: u64) = 0x80005ffd + i" "unat (0x80006000 + of_nat i :: u64) = 0x80006000 + i" if "i < 16" for i
    using that by (subst unat_add_lem [THEN iffD1]; simp add: unat_of_nat)+
  have f: "x \<in> frame_words demo_env \<Longrightarrow> 0x80009000 \<le> unat x" for x
  proof -
    assume "x \<in> frame_words demo_env"
    then obtain off i where "x = 0x80009000 + off + of_nat i" "off \<in> {248, 256, 264, 272 :: u64}" "i < 8"
      by (auto simp: frame_words_def demo_env_def FRAME_MEPC_def FRAME_MSTATUS_def FRAME_MCAUSE_def FRAME_MTVAL_def)
    then show ?thesis by (auto simp: unat_word_ariths unat_of_nat)
  qed
  have a: "(0x80005ffd + of_nat i :: u64) \<noteq> 0x80006000 + of_nat j" if "i < 3" "j < 16" for i j
  proof
    assume e: "(0x80005ffd + of_nat i :: u64) = 0x80006000 + of_nat j"
    have "0x80005ffd + i = 0x80006000 + j" using u(1) [of i] u(2) [OF that(2)] that(1) unfolding e by simp
    then show False using that by simp
  qed
  note b = demo_byte [OF m]
  show ?thesis
    unfolding sides_ok_def Let_def if_False
  proof (intro conjI allI impI, goal_cases)
    case (1 i)
    then show ?case by (simp add: b)
  next
    case (2 i j x)
    then show ?case using a [of i j] by (auto simp: b split: if_splits)
  next
    case (3 i j x)
    then have "(0x80006000 + of_nat i :: u64) = 0x80006000 + of_nat j" by (simp add: b)
    then have "0x80006000 + i = 0x80006000 + j" using u(2) [OF 3(1)] u(2) [OF 3(2)] by metis
    then show ?case by simp
  next
    case (4 i x)
    then show ?case using f [of x] u(2) [of i] by (auto simp: b)
  next
    case (5 i x)
    then have "unat x < 0x80010000" "page_base x \<le> x" using u(2) [of i] by (auto simp: b page_base_le)
    then show ?case using t [of "page_base x"] by (auto simp: word_le_nat_alt)
  qed
qed

theorem hart_copy_recovers_witness:
  "\<exists>(s :: sched) m'. copy_from_user demo_env 0x80006000 0x3fff0ffd 16 s = Inr (USERCOPY_ERR_FAULT, (after_fault False 0x3fff1000 s)\<lparr>mem := m',
     usercopy_probes := (usercopy_probes s)(1 := cleared_probe)\<rparr>) \<and> m' 0x80006002 = mem s 0x80005fff \<and> m' 0x80006003 = mem s 0x80006003"
proof -
  obtain s :: sched and root where s: "sched_inv {0x100} s" "current_thread s = Some 1" "\<not> up_active (usercopy_probes s 1)" "in_sv39 root s"
    "root = vm_root (kernel_space s)" "link s = demo_link" "sstatus s = 2" "vm_mapping root s = demo_mapping"
    "\<And>x. x \<in> pt_tables (mem s) root \<Longrightarrow> 0x80010000 \<le> x"
    by (rule demo_hart) blast
  have env: "copy_env_ok demo_env s" using s(6) by (simp add: copy_env_ok_def demo_env_def demo_link_def)
  have sides: "sides_ok demo_env (pt_tables (mem s) root) (hart_byte root s) False 0x3fff0ffd 0x80006000 16"
    by (rule demo_sides [OF s(8,7,9)])
  note b = demo_byte [OF s(8,7)]
  have "user_page_ok root s False (page_base (0x3fff0ffd + of_nat i))" if "i < 16" for i
    using below_16 [OF that] unfolding insert_iff empty_iff
    by (elim disjE) (simp_all add: user_page_ok_def s(8) demo_mapping_def page_base_def PAGE_MASK_def PAGE_SIZE_def vm_flags)
  then have ok: "user_range_ok root s False 0x3fff0ffd 16"
    by (simp add: user_range_ok_def user_space_va_range_is_valid_def range_overlaps_platform_mmio_def ranges_overlap_def
        user_layout PAGE_SIZE_def)
  let ?tr = "hart_byte root s"
  have n: "first_fault (?tr False) 0x3fff0ffd 16 = 3"
  proof -
    let ?n = "first_fault (?tr False) 0x3fff0ffd 16"
    note ff = first_fault_props [where tr = "?tr False" and va = "0x3fff0ffd" and n = 16]
    have "\<not> 3 < ?n" using ff(2) [of 3] b(1) [of 3] by auto
    moreover have "\<not> ?n < 3" using ff(3) b(1) [of ?n] by auto
    ultimately show ?thesis by simp
  qed
  have tr: "byte_at ?tr True 0x80006000 i = 0x80006000 + of_nat i" "i < 3 \<Longrightarrow> byte_at ?tr False 0x3fff0ffd i = 0x80005ffd + of_nat i"
    if "i < 16" for i using that by (simp_all add: byte_at_def b)
  obtain m' where m': "copy_from_user demo_env 0x80006000 0x3fff0ffd 16 s = Inr (USERCOPY_ERR_FAULT, (after_fault False 0x3fff1000 s)\<lparr>mem := m',
     usercopy_probes := (usercopy_probes s)(1 := cleared_probe)\<rparr>)"
    "\<forall>i<3. m' (byte_at ?tr True 0x80006000 i) = mem s (byte_at ?tr False 0x3fff0ffd i)"
    "\<forall>x. x \<notin> frame_words demo_env \<longrightarrow> (\<forall>i<3. x \<noteq> byte_at ?tr True 0x80006000 i) \<longrightarrow> m' x = mem s x"
    using hart_copy_recovers [where len = 16 and k = "0x80006000" and w = False and va = "0x3fff0ffd", OF s(1,2) _ s(3-5) _ env] ok sides n by auto
  have "0x80006003 \<notin> frame_words demo_env"
    using sides b(2) [of 3 True] by (auto simp: sides_ok_def Let_def dest: spec [of _ 3])
  moreover have "0x80006003 \<noteq> byte_at ?tr True 0x80006000 i" if "i < 3" for i
  proof -
    have "i = 0 \<or> i = 1 \<or> i = 2" using that by auto
    then show ?thesis using tr(1) [of i] by auto
  qed
  ultimately have "m' 0x80006003 = mem s 0x80006003" using m'(3) by simp
  moreover have "m' 0x80006002 = mem s 0x80005fff" using m'(2) [rule_format, of 2] tr [of 2] by simp
  ultimately show ?thesis using m'(1) by blast
qed

end
