(* ===== verification/Paging_Spec.thy ===== *)
theory Paging_Spec
  imports Paging
begin

text \<open>
  What the kernel's own map contains when \<open>paging_init_kernel\<close> has finished: no page that is both writable and
  executable, no user page, and every address but the trampoline's mapped to itself.
\<close>

definition kernel_flags :: "u64 set" where
  "kernel_flags = {text_flags, ro_flags, rw_flags}"

definition kernel_map_sound :: "u64 \<Rightarrow> 'a paging_scheme \<Rightarrow> bool" where
  "kernel_map_sound root s \<longleftrightarrow> vm_inv root s \<and> vm_root (kernel_space s) = root \<and>
     (\<forall>va pa flags. vm_mapping root s va = Some (pa, flags) \<longrightarrow> flags \<in> kernel_flags \<and> (va \<noteq> USER_TRAMPOLINE_VA \<longrightarrow> pa = va))"

lemma kernel_flags_safe:
  assumes "flags \<in> kernel_flags"
  shows "\<not> (flags AND VM_PTE_W \<noteq> 0 \<and> flags AND VM_PTE_X \<noteq> 0)" and "flags AND VM_PTE_U = 0"
  using assms by (auto simp: kernel_flags_def text_flags_def ro_flags_def rw_flags_def vm_flags)

lemma kernel_map_page:
  fixes s :: "'a paging_scheme"
  assumes ok: "kernel_map_sound root s" and run: "vm_map_page (Some (kernel_space s)) va pa flags s = Inr (VM_OK, s')"
    and fl: "flags \<in> kernel_flags" "va \<noteq> USER_TRAMPOLINE_VA \<longrightarrow> pa = va"
  shows "kernel_map_sound root s'"
proof -
  let ?r = "vm_root (kernel_space s)"
  have r: "?r = root" and inv: "vm_inv ?r s" using ok by (simp_all add: kernel_map_sound_def)
  obtain r s2 where e: "vm_map_page (Some (kernel_space s)) va pa flags s = Inr (r, s2)"
    and c: "if \<not> vm_args_ok va pa flags then r = VM_ERR_INVALID \<and> s2 = s
     else if unat (free_pages s) < vm_missing ?r s va then r = VM_ERR_NO_MEMORY \<and> restored s s2
     else if vm_mapping ?r s va \<noteq> None then r = VM_ERR_EXISTS \<and> s2 = s
     else r = VM_OK \<and> vm_step ?r s s2 \<and> vm_mapping ?r s2 = (vm_mapping ?r s)(va \<mapsto> (pa, flags)) \<and>
       pt_paths (mem s2) ?r = pt_paths (mem s) ?r \<union> {p. prefix p (va_path va)} \<and>
       unat (free_pages s) = unat (free_pages s2) + vm_missing ?r s va"
    using vm_map_page_spec [OF inv, of va pa flags] by blast
  have "r = VM_OK" "s2 = s'" using e run by simp_all
  moreover have "VM_OK \<noteq> VM_ERR_INVALID" "VM_OK \<noteq> VM_ERR_NO_MEMORY" "VM_OK \<noteq> VM_ERR_EXISTS" by (simp_all add: vm_codes)
  ultimately have step: "vm_step ?r s s'" "vm_mapping ?r s' = (vm_mapping ?r s)(va \<mapsto> (pa, flags))"
    using c by presburger+
  have "kernel_space s' = kernel_space s" using step(1) by (auto simp: vm_step_def pool_step_def)
  moreover have "vm_inv root s'" using step(1) r by (simp add: vm_step_def)
  ultimately show ?thesis using ok fl step(2) r by (auto simp: kernel_map_sound_def split: if_splits)
qed

lemma map_each_sound:
  fixes s :: "'a paging_scheme"
  assumes "kernel_map_sound root s" and "flags \<in> kernel_flags"
    and "for_each (\<lambda>addr s. bindE (vm_map_page (Some (kernel_space s)) addr addr flags s) (\<lambda>(result, s).
      if result \<noteq> VM_OK then Inl e else Inr ((), s))) addrs s = Inr (u, s')"
  shows "kernel_map_sound root s'"
  using assms(1,3)
proof (induction addrs arbitrary: s)
  case (Cons a as)
  then obtain s1 where "vm_map_page (Some (kernel_space s)) a a flags s = Inr (VM_OK, s1)"
    "for_each (\<lambda>addr s. bindE (vm_map_page (Some (kernel_space s)) addr addr flags s) (\<lambda>(result, s).
      if result \<noteq> VM_OK then Inl e else Inr ((), s))) as s1 = Inr (u, s')"
    by (cases "vm_map_page (Some (kernel_space s)) a a flags s") (auto split: if_splits)
  with Cons kernel_map_page [OF Cons.prems(1)] assms(2) show ?case by blast
qed simp

lemma map_range_sound:
  fixes s :: "'a paging_scheme"
  assumes "kernel_map_sound root s" and "map_range start end' flags s = Inr (u, s')" and "flags \<in> kernel_flags"
  shows "kernel_map_sound root s'"
  using assms unfolding map_range_def by (intro map_each_sound [OF assms(1,3)])

lemma map_range_then:
  fixes s :: "'a paging_scheme"
  assumes "bindE (map_range start end' flags s) (\<lambda>(_, s). f s) = Inr y" and "kernel_map_sound root s" and "flags \<in> kernel_flags"
    and "\<And>s1. f s1 = Inr y \<Longrightarrow> kernel_map_sound root s1 \<Longrightarrow> R"
  shows R
  using assms(1) map_range_sound [OF assms(2) _ assms(3)] assms(4) by (cases "map_range start end' flags s") auto

lemma map_page_then:
  fixes s :: "'a paging_scheme"
  assumes "bindE (vm_map_page (Some (kernel_space s)) va pa flags s) (\<lambda>(r, s). if r \<noteq> VM_OK then Inl e else f s) = Inr y"
    and "kernel_map_sound root s" and "flags \<in> kernel_flags" and "va = USER_TRAMPOLINE_VA"
    and "\<And>s1. f s1 = Inr y \<Longrightarrow> kernel_map_sound root s1 \<Longrightarrow> R"
  shows R
  using assms(1) kernel_map_page [OF assms(2) _ assms(3)] assms(4,5)
  by (cases "vm_map_page (Some (kernel_space s)) va pa flags s") (auto split: if_splits)

text \<open>
  If the initialisation returns, it has made a well-formed tree, which the value for \<open>satp\<close> names, and the map is sound.
\<close>

theorem paging_init_sound:
  fixes s :: "'a paging_scheme"
  assumes "pages_inv s" and "paging_init_kernel s = Inr (v, s')"
  shows "\<exists>root. kernel_map_sound root s' \<and> v = SATP_MODE_SV39 OR drop_bit 12 root \<and> kernel_satp s' = v"
proof -
  have k: "text_flags \<in> kernel_flags" "ro_flags \<in> kernel_flags" "rw_flags \<in> kernel_flags" by (simp_all add: kernel_flags_def)
  obtain r sp s0 where init: "vm_space_init (Some (kernel_space s)) s = Inr ((r, Some sp), s0)"
    and i: "if free_pages s = 0 then r = VM_ERR_NO_MEMORY \<and> sp = kernel_space s \<and> s0 = s
      else r = VM_OK \<and> vm_inv (vm_root sp) s0 \<and> vm_mapping (vm_root sp) s0 = Map.empty"
    using vm_space_init_spec [OF assms(1), of "kernel_space s"] by (auto split: if_splits)
  show ?thesis
  proof (cases "r = VM_OK")
    case False
    then show ?thesis using assms(2) by (simp add: paging_init_kernel_def init)
  next
    case True
    let ?root = "vm_root sp" and ?s = "s0\<lparr>kernel_space := sp\<rparr>"
    have "vm_inv ?root ?s = vm_inv ?root s0" "vm_mapping ?root ?s = vm_mapping ?root s0"
      by (simp_all add: vm_inv_def pages_inv_def used_pages_def allocated_def page_addr_from_index_def vm_mapping_def fun_eq_iff)
    then have s0: "kernel_map_sound ?root ?s" using i True by (auto simp: kernel_map_sound_def vm_codes split: if_splits)
    have run: "paging_init_kernel s = Inr (v, s')" by (rule assms(2))
    have fin: "\<exists>root. kernel_map_sound root s' \<and> v = SATP_MODE_SV39 OR drop_bit 12 root \<and> kernel_satp s' = v"
      if "kernel_map_sound ?root s9" "Inr (kernel_satp s10, s10) = Inr (v, s')" "s10 = s9\<lparr>kernel_satp := SATP_MODE_SV39 OR drop_bit 12 (vm_root (kernel_space s9))\<rparr>"
      for s9 s10 :: "'a paging_scheme"
    proof -
      have same: "vm_inv ?root s10 = vm_inv ?root s9" "vm_mapping ?root s10 = vm_mapping ?root s9" "kernel_space s10 = kernel_space s9"
        unfolding that(3)
        by (simp_all add: vm_inv_def pages_inv_def used_pages_def allocated_def page_addr_from_index_def vm_mapping_def fun_eq_iff)
      then have "kernel_map_sound ?root s10" using that(1) unfolding kernel_map_sound_def same by blast
      moreover have "vm_root (kernel_space s9) = ?root" using that(1) by (simp add: kernel_map_sound_def)
      ultimately show ?thesis using that(2,3) by auto
    qed
    have ok: "\<not> r \<noteq> VM_OK" using True by simp
    show ?thesis
      using run unfolding paging_init_kernel_def init bindE_Inr prod.case option.sel Let_def if_not_P [OF ok]
      apply -
      apply (erule map_range_then, rule s0, rule k(1))
      apply (erule map_range_then, assumption, rule k(2))
      apply (erule map_range_then, assumption, rule k(3))+
      apply (simp only: split: if_splits)
      subgoal by simp
      apply (erule map_page_then, assumption, rule k(1), rule refl)
      apply (rule fin, assumption, assumption, rule refl)
      done
  qed
qed

end
