(* ===== verification/Scenario_Alloc.thy ===== *)
theory Scenario_Alloc
  imports Vm_Contract
begin

text \<open>
  The allocator's self-test at boot, \<open>scenario_allocator\<close> of \<^verbatim>\<open>kernel/core/scenario.c\<close>, with the
  helpers that the scenarios share. A scenario panics if the kernel does not behave, and otherwise prints and
  idles for ever; the state it idles in is its result.
\<close>

section \<open>Helpers of the scenarios\<close>

text \<open>A sequence of operations of which one may not end.\<close>

definition bindO :: "('a \<times> 's) res option \<Rightarrow> ('a \<Rightarrow> 's \<Rightarrow> ('b \<times> 't) res option) \<Rightarrow> ('b \<times> 't) res option" where
  "bindO m f = (case m of None \<Rightarrow> None | Some (Inl e) \<Rightarrow> Some (Inl e) | Some (Inr (x, s)) \<Rightarrow> f x s)"

lemma bindO_simps [simp]:
  "bindO None f = None" "bindO (Some (Inl e)) f = Some (Inl e)" "bindO (Some (Inr (x, s))) f = f x s"
  by (simp_all add: bindO_def)

definition println :: "string \<Rightarrow> 'a hw_scheme \<Rightarrow> 'a hw_scheme" where
  "println text s = console_write (text @ [CHR 0x0A]) s"

definition page_is_aligned :: "u64 \<Rightarrow> bool" where
  "page_is_aligned page \<longleftrightarrow> page AND PAGE_MASK = 0"

definition pointer_is_aligned :: "u64 \<Rightarrow> u64 \<Rightarrow> bool" where
  "pointer_is_aligned ptr alignment \<longleftrightarrow> ptr AND (alignment - 1) = 0"

section \<open>The scenario\<close>

text \<open>Taking every page, each linked to the one before through its first word, and giving them back.\<close>

partial_function (option) hold_pages :: "u64 \<Rightarrow> u64 \<Rightarrow> 'a pages_scheme \<Rightarrow> ((u64 \<times> u64) \<times> 'a pages_scheme) res option" where
  "hold_pages allocated_pages exhausted_count s =
     (case page_alloc s of
        Inl e \<Rightarrow> Some (Inl e)
      | Inr (page, s) \<Rightarrow>
          if page = 0 then Some (Inr ((allocated_pages, exhausted_count), s))
          else hold_pages page (exhausted_count + 1) (store64 page allocated_pages s))"

partial_function (option) release_pages :: "u64 \<Rightarrow> 'a pages_scheme \<Rightarrow> (unit \<times> 'a pages_scheme) res option" where
  "release_pages allocated_pages s =
     (if allocated_pages = 0 then Some (Inr ((), s))
      else case page_free allocated_pages s of
        Inl e \<Rightarrow> Some (Inl e)
      | Inr (_, s') \<Rightarrow> release_pages (load64 allocated_pages s) s')"

definition allocator_reuse :: "'a pages_scheme \<Rightarrow> (u64 \<times> 'a pages_scheme) res" where
  "allocator_reuse s =
     bindE (page_free_count s) (\<lambda>(initial_free, s).
     bindE (page_total_count s) (\<lambda>(total, s).
     if initial_free = 0 \<or> total = 0 then Inl ''page allocator empty after init''
     else
     bindE (page_alloc s) (\<lambda>(first, s).
     bindE (page_alloc s) (\<lambda>(second, s).
     if first = 0 \<or> second = 0 then Inl ''page allocator failed initial allocation''
     else if \<not> page_is_aligned first \<or> \<not> page_is_aligned second then Inl ''page allocator returned unaligned page''
     else if first = second then Inl ''page allocator returned duplicate page''
     else
     bindE (page_free_count s) (\<lambda>(n, s).
     if n \<noteq> initial_free - 2 then Inl ''page allocator count mismatch after alloc''
     else
     bindE (page_free first s) (\<lambda>(_, s).
     bindE (page_alloc s) (\<lambda>(reused, s).
     if reused \<noteq> first then Inl ''page allocator did not reuse freed page''
     else
     bindE (page_free reused s) (\<lambda>(_, s).
     bindE (page_free second s) (\<lambda>(_, s).
     bindE (page_free_count s) (\<lambda>(n, s).
     if n \<noteq> initial_free then Inl ''page allocator count mismatch after free''
     else Inr (initial_free, s)))))))))))"

definition allocator_report :: "'a pages_scheme \<Rightarrow> (unit \<times> 'a pages_scheme) res" where
  "allocator_report s =
     (let s = console_write ''page: managed_start='' s;
          s = console_write_hex64 (page_managed_start s) s;
          s = console_write '' managed_end='' s;
          s = console_write_hex64 (page_managed_end s) s;
          s = console_write '' total='' s in
      bindE (page_total_count s) (\<lambda>(total, s).
        let s = console_write_hex64 total s;
            s = console_write [CHR 0x0A] s
        in Inr ((), println ''milestone 11: physical page allocator'' s)))"

definition scenario_allocator :: "'a pages_scheme \<Rightarrow> (unit \<times> 'a pages_scheme) res option" where
  "scenario_allocator s =
     bindO (Some (allocator_reuse (println ''scenario: allocator'' s))) (\<lambda>initial_free s.
     bindO (hold_pages 0 0 s) (\<lambda>(allocated_pages, exhausted_count) s.
     bindO (Some (page_free_count s)) (\<lambda>n s.
     if exhausted_count \<noteq> initial_free \<or> n \<noteq> 0 then Some (Inl ''page allocator exhaustion mismatch'')
     else
     bindO (release_pages allocated_pages s) (\<lambda>_ s.
     bindO (Some (page_free_count s)) (\<lambda>n s.
     if n \<noteq> initial_free then Some (Inl ''page allocator count mismatch after exhaustion'')
     else Some (allocator_report s))))))"

section \<open>The allocator between the checks\<close>

lemma putc_only: "\<exists>x. console_putc c s = s\<lparr>console := x\<rparr>"
  by (intro exI [of _ "console s @ (if c = CHR 0x0A then [CHR 0x0D, c] else [c])"])
    (simp add: console_putc_def uart_putc_def Let_def)

lemma console_only: "\<exists>c. console_write cs s = s\<lparr>console := c\<rparr>"
proof (induction cs arbitrary: s)
  case Nil
  show ?case by (intro exI [of _ "console s"]) simp
next
  case (Cons c cs)
  obtain x where "console_putc c s = s\<lparr>console := x\<rparr>" using putc_only by blast
  moreover obtain y where "console_write cs (s\<lparr>console := x\<rparr>) = (s\<lparr>console := x\<rparr>)\<lparr>console := y\<rparr>" using Cons.IH by blast
  ultimately show ?case by (intro exI [of _ y]) simp
qed

lemma console_hex_only: "\<exists>c. console_write_hex64 v s = s\<lparr>console := c\<rparr>"
proof -
  have f: "\<exists>c. fold (\<lambda>k. console_putc (hex_digit v k)) ks s = s\<lparr>console := c\<rparr>" for ks and s :: "'b hw_scheme"
  proof (induction ks arbitrary: s)
    case Nil
    show ?case by (intro exI [of _ "console s"]) simp
  next
    case (Cons k ks)
    obtain x where x: "console_putc (hex_digit v k) s = s\<lparr>console := x\<rparr>" using putc_only by blast
    obtain y where "fold (\<lambda>k. console_putc (hex_digit v k)) ks (s\<lparr>console := x\<rparr>) = (s\<lparr>console := x\<rparr>)\<lparr>console := y\<rparr>"
      using Cons.IH by blast
    then show ?case by (intro exI [of _ y]) (simp add: x)
  qed
  obtain c where "console_write ''0x'' s = s\<lparr>console := c\<rparr>" using console_only by blast
  then show ?thesis using f [of _ "s\<lparr>console := c\<rparr>"] by (simp add: console_write_hex64_def del: fold.simps)
qed

lemma pages_console [simp]:
  "pages_inv (s\<lparr>console := c\<rparr>) = pages_inv s" "allocated (s\<lparr>console := c\<rparr>) = allocated s"
  "used_pages (s\<lparr>console := c\<rparr>) = used_pages s"
  by (simp_all add: pages_inv_def allocated_def used_pages_def page_addr_from_index_def)

lemma counts [simp]:
  assumes "pages_inv s"
  shows "page_free_count s = Inr (free_pages s, s)" and "page_total_count s = Inr (total_pages s, s)"
proof -
  have f: "irq_neutral (\<lambda>s :: 'a pages_scheme. if \<not> page_allocator_initialized s then Inl msg else Inr (g s, s))"
    if "\<And>s v. g (s\<lparr>sstatus := v\<rparr>) = g s" for msg and g :: "'a pages_scheme \<Rightarrow> u64"
    by (rule irq_neutralI) (simp add: that)
  have i: "page_allocator_initialized s" using assms by (simp add: pages_inv_def)
  show "page_free_count s = Inr (free_pages s, s)" unfolding page_free_count_def
    by (subst irq_masked_neutral [OF f]) (simp_all add: i)
  show "page_total_count s = Inr (total_pages s, s)" unfolding page_total_count_def
    by (subst irq_masked_neutral [OF f]) (simp_all add: i)
qed

text \<open>The next page is \<open>i\<close> if the search starts there, or at 0 with no free page before it.\<close>

lemma first_fit:
  assumes inv: "pages_inv s" and i: "i < total_pages s" "i \<notin> used_pages s"
    and hint: "next_free_hint s = i \<or> next_free_hint s = 0 \<and> (\<forall>j < i. j \<in> used_pages s)"
  shows "page_alloc s = Inr (page_addr_from_index s i, mark_used i s)"
  using inv
proof (cases rule: page_alloc_cases)
  case full
  then show ?thesis using i by blast
next
  case (found x)
  then obtain k where k: "k < total_pages s" "x = (next_free_hint s + k) mod total_pages s" "x < total_pages s"
    "\<not> bitmap_test (page_bitmap s) x"
    and skip: "\<And>j. j < k \<Longrightarrow> bitmap_test (page_bitmap s) ((next_free_hint s + j) mod total_pages s)"
    using page_alloc_scan_Some [OF found(2)] by auto
  have m: "j mod total_pages s = j" if "j < total_pages s" for j
    using that by (simp add: word_unat_eq_iff unat_mod word_less_nat_alt)
  have ni: "\<not> bitmap_test (page_bitmap s) i" using i by (simp add: used_pages_def)
  have "x = i"
  proof (cases "next_free_hint s = i")
    case True
    then have "k = 0" using skip [of 0] ni m [OF i(1)] by (cases "k = 0") (auto simp: word_gt_0)
    then show ?thesis using k(2) True m [OF i(1)] by simp
  next
    case False
    then have h: "next_free_hint s = 0" "\<forall>j < i. j \<in> used_pages s" using hint by auto
    then have "x = k" using k(1,2) m by simp
    moreover have "\<not> i < k" using skip [of i] ni m [OF i(1)] h(1) by auto
    moreover have "\<not> k < i" using h(2) k(4) \<open>x = k\<close> by (auto simp: used_pages_def)
    ultimately show ?thesis by simp
  qed
  then show ?thesis using found(1) by simp
qed

text \<open>Pages have only been taken, in order, since the allocator was started.\<close>

definition taken_in_order :: "'a pages_scheme \<Rightarrow> bool" where
  "taken_in_order s \<longleftrightarrow> used_pages s = {i. i < next_free_hint s}"

lemma mark_used_simps [simp]:
  "mem (mark_used i s) = mem s" "free_pages (mark_used i s) = free_pages s - 1" "total_pages (mark_used i s) = total_pages s"
  "mem (mark_free i s) = mem s" "free_pages (mark_free i s) = free_pages s + 1" "total_pages (mark_free i s) = total_pages s"
  "managed_start (mark_used i s) = managed_start s" "managed_start (mark_free i s) = managed_start s"
  "managed_frames (mark_used i s) = managed_frames s" "managed_frames (mark_free i s) = managed_frames s"
  "next_free_hint (mark_used i s) = (i + 1) mod total_pages s"
  "next_free_hint (mark_free i s) = (if i < next_free_hint s then i else next_free_hint s)"
  by (simp_all add: mark_used_def mark_free_def managed_frames_def page_addr_from_index_def)

lemma reuse_ok:
  assumes inv: "pages_inv s" and ord: "taken_in_order s" and two: "2 \<le> free_pages s"
  shows "\<exists>s'. allocator_reuse s = Inr (free_pages s, s') \<and> pages_inv s' \<and> allocated s' = allocated s \<and>
    managed_frames s' = managed_frames s \<and> free_pages s' = free_pages s \<and> mem s' = mem s"
proof -
  let ?h = "next_free_hint s" and ?t = "total_pages s"
  have used: "used_pages s = {i. i < ?h}" using ord by (simp add: taken_in_order_def)
  have cnt: "unat (free_pages s) + unat ?h = unat ?t" using inv by (simp add: pages_inv_def used card_below_word)
  have f2: "2 \<le> unat (free_pages s)" using two by (simp add: word_le_nat_alt)
  have u1: "unat (?h + 1) = unat ?h + 1" using cnt f2 unat64_lt [of ?t] by (simp add: unat_word_ariths)
  have lt: "?h < ?t" "?h + 1 < ?t" "?h \<noteq> ?h + 1" using cnt f2 u1 by (simp_all add: word_less_nat_alt)
  have m1: "(?h + 1) mod ?t = ?h + 1" using lt(2) by (simp add: word_unat_eq_iff unat_mod word_less_nat_alt)
  have below: "j \<in> used_pages s \<or> j = ?h" if "j < ?h + 1" for j using that u1 by (auto simp: used word_less_nat_alt word_unat_eq_iff)
  let ?p = "page_addr_from_index s ?h" and ?q = "page_addr_from_index s (?h + 1)"
  define s1 where "s1 = mark_used ?h s"
  define s2 where "s2 = mark_used (?h + 1) s1"
  define s3 where "s3 = mark_free ?h s2"
  define s4 where "s4 = mark_used ?h s3"
  define s5 where "s5 = mark_free ?h s4"
  define s6 where "s6 = mark_free (?h + 1) s5"
  have hn: "?h \<notin> used_pages s" "?h + 1 \<notin> used_pages s" using u1 by (auto simp: used word_less_nat_alt)
  have U1: "used_pages s1 = insert ?h (used_pages s)" unfolding s1_def by (rule used_pages_mark_used [OF inv lt(1)])
  have t1: "total_pages s1 = ?t" by (simp add: s1_def)
  have free: "\<not> bitmap_test (page_bitmap x) i" if "i \<notin> used_pages x" "i < total_pages x" for i and x :: "'a pages_scheme"
    using that by (simp add: used_pages_def)
  have n1: "?h + 1 \<notin> used_pages s1" using hn lt(3) by (simp add: U1)
  note fr = free [OF hn(1) lt(1)] free [OF n1 lt(2) [folded t1]]
  have i1: "pages_inv s1" unfolding s1_def by (rule pages_inv_mark_used [OF inv lt(1) fr(1)])
  have i2: "pages_inv s2" unfolding s2_def by (rule pages_inv_mark_used [OF i1 _ fr(2)]) (simp add: s1_def lt)
  have U2: "used_pages s2 = insert (?h + 1) (used_pages s1)" unfolding s2_def by (rule used_pages_mark_used [OF i1]) (simp add: s1_def lt)
  have i3: "pages_inv s3" unfolding s3_def by (rule pages_inv_mark_free [OF i2]) (simp add: U2 U1)
  have U3: "used_pages s3 = used_pages s2 - {?h}" unfolding s3_def by (rule used_pages_mark_free [OF i2]) (simp add: s2_def s1_def lt)
  have n3: "?h \<notin> used_pages s3" by (simp add: U3)
  have t3: "?h < total_pages s3" using lt by (simp add: s3_def s2_def s1_def)
  have i4: "pages_inv s4" unfolding s4_def by (rule pages_inv_mark_used [OF i3 t3 free [OF n3 t3]])
  have U4: "used_pages s4 = insert ?h (used_pages s3)" unfolding s4_def by (rule used_pages_mark_used [OF i3]) (simp add: s3_def s2_def s1_def lt)
  have i5: "pages_inv s5" unfolding s5_def by (rule pages_inv_mark_free [OF i4]) (simp add: U4)
  have U5: "used_pages s5 = used_pages s4 - {?h}" unfolding s5_def by (rule used_pages_mark_free [OF i4]) (simp add: s4_def s3_def s2_def s1_def lt)
  have h15: "?h + 1 \<in> used_pages s5" using lt(3) by (simp add: U5 U4 U3 U2)
  have i6: "pages_inv s6" unfolding s6_def by (rule pages_inv_mark_free [OF i5 h15])
  have U6: "used_pages s6 = used_pages s5 - {?h + 1}"
    unfolding s6_def by (rule used_pages_mark_free [OF i5]) (simp add: s5_def s4_def s3_def s2_def s1_def lt)
  have addr: "page_addr_from_index x = page_addr_from_index s" if "x \<in> {s1, s2, s3, s4, s5, s6}" for x
    using that by (auto simp: s6_def s5_def s4_def s3_def s2_def s1_def)
  have a1: "page_alloc s = Inr (?p, s1)" unfolding s1_def by (rule first_fit [OF inv lt(1)]) (simp_all add: used)
  have a2: "page_alloc s1 = Inr (?q, s2)"
    using first_fit [OF i1 lt(2) [folded t1] n1] m1 by (simp add: s2_def addr) (simp add: s1_def)
  have r1: "page_free ?p s2 = Inr ((), s3)" using page_free_allocated [OF i2, of ?h] by (simp add: U2 U1 addr s3_def)
  have a3: "page_alloc s3 = Inr (?p, s4)"
  proof -
    have "next_free_hint s3 = ?h \<or> next_free_hint s3 = 0"
    proof (cases "?h + 1 + 1 = ?t")
      case True
      then have "next_free_hint s2 = 0" by (simp add: s2_def s1_def)
      then show ?thesis by (simp add: s3_def)
    next
      case False
      then have "unat (?h + 1 + 1) = unat ?h + 2" using cnt f2 u1 unat64_lt [of ?t] by (simp add: unat_word_ariths)
      moreover from this have "?h + 1 + 1 < ?t" using False cnt f2 by (auto simp: word_less_nat_alt word_unat_eq_iff)
      moreover from this have "(?h + 1 + 1) mod ?t = ?h + 1 + 1" by (simp add: word_unat_eq_iff unat_mod word_less_nat_alt)
      ultimately have "?h < next_free_hint s2" by (simp add: s2_def s1_def word_less_nat_alt)
      then show ?thesis by (simp add: s3_def)
    qed
    moreover have "\<forall>j < ?h. j \<in> used_pages s3" using lt(3) by (auto simp: U3 U2 U1 used)
    moreover have "?h < total_pages s3" using lt by (simp add: s3_def s2_def s1_def)
    ultimately show ?thesis using first_fit [OF i3 _ n3] by (auto simp: addr s4_def)
  qed
  have r2: "page_free ?p s4 = Inr ((), s5)" using page_free_allocated [OF i4, of ?h] by (simp add: U4 addr s5_def)
  have r3: "page_free ?q s5 = Inr ((), s6)" using page_free_allocated [OF i5 h15] by (simp add: addr s6_def)
  have U: "used_pages s6 = used_pages s" using hn lt(3) by (auto simp: U6 U5 U4 U3 U2 U1)
  then have al: "allocated s6 = allocated s" by (simp add: allocated_def addr)
  have nz: "?p \<noteq> 0" "?q \<noteq> 0" using page_addr_props(1) [OF inv] lt by auto
  have ali: "page_is_aligned ?p" "page_is_aligned ?q"
    using page_addr_props(2) [OF inv] lt by (simp_all add: page_is_aligned_def page_aligned_iff)
  have pq: "?p \<noteq> ?q" using page_addr_inj [OF inv] lt by blast
  have g: "free_pages s \<noteq> 0" "?t \<noteq> 0" using f2 cnt by (auto simp: word_unat_eq_iff)
  have c: "free_pages s2 = free_pages s - 2" "free_pages s6 = free_pages s" "mem s6 = mem s" "managed_frames s6 = managed_frames s"
    by (simp_all add: s6_def s5_def s4_def s3_def s2_def s1_def)
  have "allocator_reuse s = Inr (free_pages s, s6)"
    using g nz ali pq by (simp add: allocator_reuse_def inv a1 a2 i2 c r1 a3 r2 r3 i6)
  then show ?thesis using i6 al c by blast
qed

section \<open>Exhaustion and return\<close>

text \<open>The pages held, linked through their first words, newest first.\<close>

fun linked :: "memory \<Rightarrow> u64 list \<Rightarrow> u64 \<Rightarrow> bool" where
  "linked m [] p = (p = 0)"
| "linked m (x # xs) p = (p = x \<and> x \<noteq> 0 \<and> linked m xs (read64 m x))"

lemma mod8_of_mod4096: "unat (x :: u64) mod 4096 = 0 \<Longrightarrow> unat x mod 8 = 0"
  using mod_mod_cancel [of 8 4096 "unat x"] by simp

lemma linked_write:
  assumes "linked m ps p" and "\<forall>x \<in> set ps. unat x mod 4096 = 0 \<and> x \<noteq> q" and "unat q mod 4096 = 0"
  shows "linked (write64 m q v) ps p"
  using assms
proof (induction ps arbitrary: p)
  case (Cons x xs)
  have a: "unat x mod 8 = 0" "unat q mod 8 = 0" "x \<noteq> q" using Cons.prems(2,3) by (auto intro: mod8_of_mod4096)
  have "read64 (write64 m q v) x = read64 m x" using a by (intro cell64.rd_wr_aligned) auto
  then show ?case using Cons by simp
qed simp

lemma hold_ok:
  fixes s :: "'a pages_scheme"
  assumes "pages_inv s" and "linked (mem s) ps held" and "set ps \<subseteq> allocated s" and "unat (free_pages s) = n"
  shows "\<exists>qs held' s'. hold_pages held k s = Some (Inr ((held', k + of_nat n), s')) \<and> linked (mem s') (qs @ ps) held' \<and>
    distinct qs \<and> set qs = managed_frames s - allocated s \<and> pages_inv s' \<and> allocated s' = managed_frames s \<and>
    managed_frames s' = managed_frames s \<and> agree_on (- set qs) (mem s) (mem s')"
  using assms
proof (induction n arbitrary: s held k ps)
  case 0
  have "card (managed_frames s - allocated s) = 0" using managed_frames_card [OF 0(1)] 0(4) by simp
  then have all: "allocated s = managed_frames s" using pages.owned_frames [OF 0(1)] by (auto simp: managed_frames_def)
  obtain p s' where a: "page_alloc s = Inr (p, s')" using pages.alloc_returns [OF 0(1)] by blast
  have p: "p = 0" using pages.alloc_fresh [OF 0(1) a] all by blast
  then have "s' = s" using pages.alloc_null [OF 0(1)] a by simp
  then have "hold_pages held k s = Some (Inr ((held, k), s))" using a p by (subst hold_pages.simps) simp
  then show ?case using 0 all by (intro exI [of _ "[]"] exI [of _ held] exI [of _ s]) simp
next
  case (Suc n)
  have "card (managed_frames s - allocated s) = Suc n" using managed_frames_card [OF Suc.prems(1)] Suc.prems(4) by simp
  then have "allocated s \<noteq> managed_frames s" by auto
  then obtain p s1 where a: "page_alloc s = Inr (p, s1)" "p \<noteq> 0" using pages.alloc_available [OF Suc.prems(1)] by blast
  have f: "pages_inv s1" "p \<in> managed_frames s" "p \<notin> allocated s" "allocated s1 = insert p (allocated s)"
    "managed_frames s1 = managed_frames s"
    using pages.alloc_fresh [OF Suc.prems(1) a] by auto
  have m1: "mem s1 = mem s" using page_alloc_frame [OF Suc.prems(1) a(1)] by auto
  let ?s2 = "store64 p held s1"
  have al: "unat x mod 4096 = 0" if "x \<in> managed_frames s" for x by (rule managed_frame_props(2) [OF Suc.prems(1) that])
  have "linked (mem ?s2) ps held"
    unfolding store_simps m1 using Suc.prems(2,3) f(2,3) al pages.owned_frames [OF Suc.prems(1)]
    by (intro linked_write) (auto simp: subset_iff)
  then have l2: "linked (mem ?s2) (p # ps) p" using a(2) by (simp add: cell64.rd_wr)
  have "card (managed_frames s1 - allocated s1) = n"
  proof -
    have "managed_frames s1 - allocated s1 = (managed_frames s - allocated s) - {p}" using f by auto
    then show ?thesis using \<open>card (managed_frames s - allocated s) = Suc n\<close> f(2,3) by simp
  qed
  then have n2: "unat (free_pages ?s2) = n" using managed_frames_card [OF f(1)] by simp
  have mf: "managed_frames ?s2 = managed_frames s" using f(5) by (simp add: store64_def managed_frames_def page_addr_from_index_def)
  have "set (p # ps) \<subseteq> allocated ?s2" using Suc.prems(3) f(4) by auto
  from Suc.IH [OF _ l2 this n2, of "k + 1"] f(1)
  obtain qs held' s' where r: "hold_pages p (k + 1) ?s2 = Some (Inr ((held', (k + 1) + of_nat n), s'))"
    "linked (mem s') (qs @ p # ps) held'" "distinct qs" "set qs = managed_frames ?s2 - allocated ?s2" "pages_inv s'"
    "allocated s' = managed_frames ?s2" "managed_frames s' = managed_frames ?s2" "agree_on (- set qs) (mem ?s2) (mem s')"
    by auto
  have "hold_pages held k s = Some (Inr ((held', k + of_nat (Suc n)), s'))"
    using a r(1) by (subst hold_pages.simps) (simp add: add.assoc add.commute)
  moreover have "p \<notin> set qs" using r(4) f(4) by simp
  moreover have "agree_on (- set (qs @ [p])) (mem s) (mem s')"
  proof (rule agree_on_trans [OF _ agree_on_mono [OF r(8)]])
    show "agree_on (- set (qs @ [p])) (mem s) (mem ?s2)"
      unfolding store_simps m1 agree_on_def using al [OF f(2)] page_base_of_aligned [OF al [OF f(2)]]
      by (auto intro!: cell64.wr_other_page [symmetric] mod8_of_mod4096)
  qed auto
  moreover have "set (qs @ [p]) = managed_frames s - allocated s" using r(4) f mf by auto
  ultimately show ?case using r(2,3,5-7) mf by (intro exI [of _ "qs @ [p]"] exI [of _ held'] exI [of _ s']) simp
qed

lemma release_ok:
  fixes s :: "'a pages_scheme"
  assumes "pages_inv s" and "linked (mem s) ps p" and "set ps \<subseteq> allocated s" and "distinct ps"
  shows "\<exists>s'. release_pages p s = Some (Inr ((), s')) \<and> pages_inv s' \<and> allocated s' = allocated s - set ps \<and>
    managed_frames s' = managed_frames s \<and> mem s' = mem s"
  using assms
proof (induction ps arbitrary: p s)
  case Nil
  then show ?case by (subst release_pages.simps) simp
next
  case (Cons x xs)
  have x: "p = x" "x \<noteq> 0" "linked (mem s) xs (load64 x s)" using Cons.prems(2) by (simp_all add: load64_def)
  have "x \<in> allocated s" using Cons.prems(3) by simp
  from pages.free_owned [OF Cons.prems(1) this] obtain s1 where s1: "page_free x s = Inr ((), s1)" "pages_inv s1"
    "allocated s1 = allocated s - {x}" "managed_frames s1 = managed_frames s" by blast
  have m1: "mem s1 = mem s" using page_free_frame [OF s1(1)] by auto
  have sub: "set xs \<subseteq> allocated s1" using Cons.prems(3,4) s1(3) by auto
  obtain s' where r: "release_pages (load64 x s) s1 = Some (Inr ((), s'))" "pages_inv s'" "allocated s' = allocated s1 - set xs"
    "managed_frames s' = managed_frames s1" "mem s' = mem s1"
    using Cons.IH [OF s1(2) _ sub, of "load64 x s"] x(3) m1 Cons.prems(4) by auto
  have "release_pages p s = Some (Inr ((), s'))" using x(1,2) s1(1) r(1) by (subst release_pages.simps) simp
  then show ?case using r s1(3,4) m1 by auto
qed

lemma report_ok:
  assumes "pages_inv s"
  shows "\<exists>c. allocator_report s = Inr ((), s\<lparr>console := c\<rparr>)"
proof -
  have inv: "pages_inv (s\<lparr>console := c\<rparr>)" for c using assms by simp
  obtain c1 where c1: "console_write ''page: managed_start='' s = s\<lparr>console := c1\<rparr>" using console_only by blast
  obtain c2 where c2: "console_write_hex64 (managed_start s) (s\<lparr>console := c1\<rparr>) = s\<lparr>console := c2\<rparr>"
    using console_hex_only [of "managed_start s" "s\<lparr>console := c1\<rparr>"] by auto
  obtain c3 where c3: "console_write '' managed_end='' (s\<lparr>console := c2\<rparr>) = s\<lparr>console := c3\<rparr>"
    using console_only [of "'' managed_end=''" "s\<lparr>console := c2\<rparr>"] by auto
  obtain c4 where c4: "console_write_hex64 (managed_end s) (s\<lparr>console := c3\<rparr>) = s\<lparr>console := c4\<rparr>"
    using console_hex_only [of "managed_end s" "s\<lparr>console := c3\<rparr>"] by auto
  obtain c5 where c5: "console_write '' total='' (s\<lparr>console := c4\<rparr>) = s\<lparr>console := c5\<rparr>"
    using console_only [of "'' total=''" "s\<lparr>console := c4\<rparr>"] by auto
  obtain c6 where c6: "console_write_hex64 (total_pages s) (s\<lparr>console := c5\<rparr>) = s\<lparr>console := c6\<rparr>"
    using console_hex_only [of "total_pages s" "s\<lparr>console := c5\<rparr>"] by auto
  obtain c7 where c7: "console_write [CHR 0x0A] (s\<lparr>console := c6\<rparr>) = s\<lparr>console := c7\<rparr>"
    using console_only [of "[CHR 0x0A]" "s\<lparr>console := c6\<rparr>"] by auto
  obtain c8 where c8: "println ''milestone 11: physical page allocator'' (s\<lparr>console := c7\<rparr>) = s\<lparr>console := c8\<rparr>"
    using console_only [of "''milestone 11: physical page allocator'' @ [CHR 0x0A]" "s\<lparr>console := c7\<rparr>"] unfolding println_def by auto
  have m: "page_managed_start (s\<lparr>console := c\<rparr>) = managed_start s" "page_managed_end (s\<lparr>console := c\<rparr>) = managed_end s"
    "total_pages (s\<lparr>console := c\<rparr>) = total_pages s" for c
    by (simp_all add: page_managed_start_def page_managed_end_def)
  have "allocator_report s = Inr ((), s\<lparr>console := c8\<rparr>)"
    unfolding allocator_report_def Let_def c1 m c2 c3 c4 c5 counts(2) [OF inv] bindE_Inr prod.case m c6 c7 c8 by (rule refl)
  then show ?thesis by blast
qed

text \<open>
  C28: The allocator's self-test passes and ends. From any state in which pages have only been taken in order
  since the allocator was started, with two pages free, \<open>scenario_allocator\<close> makes all its checks without a
  panic: distinct aligned pages, the reuse of a page just freed, the exact counts, the exhaustion of the whole
  pool by a chain of pages linked through memory and its return. Afterwards the same pages are owned as before, and
  only free pages have been written.
\<close>

theorem scenario_allocator_passes:
  fixes s :: "'a pages_scheme"
  assumes "pages_inv s" and "taken_in_order s" and "2 \<le> free_pages s"
  shows "\<exists>s'. scenario_allocator s = Some (Inr ((), s')) \<and> pages_inv s' \<and> allocated s' = allocated s \<and>
    free_pages s' = free_pages s \<and> agree_on (- (managed_frames s - allocated s)) (mem s) (mem s')"
proof -
  obtain c where c: "println ''scenario: allocator'' s = s\<lparr>console := c\<rparr>"
    using console_only [of "''scenario: allocator'' @ [CHR 0x0A]" s] by (auto simp: println_def)
  let ?s0 = "s\<lparr>console := c\<rparr>"
  have mf: "managed_frames ?s0 = managed_frames s" by (simp add: managed_frames_def page_addr_from_index_def)
  obtain s1 where s1: "allocator_reuse ?s0 = Inr (free_pages s, s1)" "pages_inv s1" "allocated s1 = allocated s"
    "managed_frames s1 = managed_frames s" "free_pages s1 = free_pages s" "mem s1 = mem s"
    using reuse_ok [of ?s0] assms mf by (auto simp: taken_in_order_def)
  obtain qs held s2 where s2: "hold_pages 0 0 s1 = Some (Inr ((held, 0 + of_nat (unat (free_pages s))), s2))"
    "linked (mem s2) (qs @ []) held" "distinct qs" "set qs = managed_frames s1 - allocated s1" "pages_inv s2"
    "allocated s2 = managed_frames s1" "managed_frames s2 = managed_frames s1" "agree_on (- set qs) (mem s1) (mem s2)"
    using hold_ok [OF s1(2), of "[]" 0 "unat (free_pages s)" 0] s1(5) by auto
  have f2: "free_pages s2 = 0" using managed_frames_card [OF s2(5)] s2(6,7) by (simp add: unat_eq_0)
  obtain s3 where s3: "release_pages held s2 = Some (Inr ((), s3))" "pages_inv s3" "allocated s3 = allocated s2 - set qs"
    "managed_frames s3 = managed_frames s2" "mem s3 = mem s2"
    using release_ok [OF s2(5), of qs held] s2(2,3,4,6) by auto
  have a3: "allocated s3 = allocated s" "managed_frames s3 = managed_frames s"
    using s3(3,4) s2(4,6,7) s1(3,4) pages.owned_frames [OF assms(1)] by auto
  then have f3: "free_pages s3 = free_pages s"
    using managed_frames_card [OF s3(2)] managed_frames_card [OF assms(1)] by (simp add: word_unat_eq_iff)
  obtain c' where c': "allocator_report s3 = Inr ((), s3\<lparr>console := c'\<rparr>)" using report_ok [OF s3(2)] by blast
  have "scenario_allocator s = Some (Inr ((), s3\<lparr>console := c'\<rparr>))"
    using s1(1) s2(1) f2 s2(5) s3(1,2) f3 c' by (simp add: scenario_allocator_def c)
  moreover have "agree_on (- (managed_frames s - allocated s)) (mem s) (mem s3)"
    using s2(4,8) s1(3,4,6) s3(5) by simp
  ultimately show ?thesis using s3(2) a3(1) f3 by (intro exI [of _ "s3\<lparr>console := c'\<rparr>"]) simp
qed

theorem scenario_allocator_passes_witness:
  "\<exists>s'. scenario_allocator demo_booted = Some (Inr ((), s')) \<and> free_pages s' = 4"
proof -
  have "taken_in_order demo_booted" "2 \<le> free_pages demo_booted"
    by (simp_all add: taken_in_order_def demo_booted_used demo_booted_fields)
  from scenario_allocator_passes [OF demo_booted_inv this] show ?thesis by (auto simp: demo_booted_fields)
qed

end
