(* ===== verification/Scenario_Memory.thy ===== *)
theory Scenario_Memory
  imports Scenario_Alloc Heap_Run Task_Proofs
begin

text \<open>
  The self-tests of the page tables and of the user address space, \<open>scenario_vm\<close> and
  \<open>scenario_user_space\<close> of \<^verbatim>\<open>kernel/core/scenario.c\<close>. Each function of the file is split
  where its comments or blank lines split it.
\<close>

section \<open>Checks\<close>

text \<open>The test \<open>if (!ok(f(x))) PANIC(msg)\<close>.\<close>

definition must :: "('r \<times> 's) res \<Rightarrow> ('r \<Rightarrow> bool) \<Rightarrow> string \<Rightarrow> ('r \<times> 's) res" where
  "must m ok msg = bindE m (\<lambda>(r, s). if ok r then Inr (r, s) else Inl msg)"

lemma returns_must: "returns (must m ok msg) P \<longleftrightarrow> returns m (\<lambda>r s. ok r \<and> P r s)"
  by (auto simp: must_def returns_def bindE_def split: sum.split prod.split if_splits)

section \<open>The page tables\<close>

text \<open>\<open>space\<close> is the uninitialised local variable.\<close>

definition vm_scenario_start :: "vm_space \<Rightarrow> 'a pages_scheme \<Rightarrow> ((u64 \<times> vm_space option \<times> u64) \<times> 'a pages_scheme) res" where
  "vm_scenario_start space s =
     (let s = println ''scenario: vm'' s in
     bindE (page_free_count s) (\<lambda>(initial_free, s).
     bindE (must (vm_space_init (Some space) s) (\<lambda>(r, sp). r = VM_OK \<and> vm_root (the sp) \<noteq> 0) ''vm space init failed'') (\<lambda>((_, sp), s).
     if \<not> page_is_aligned (vm_root (the sp)) then Inl ''vm root page is unaligned''
     else
     bindE (must (page_alloc s) (\<lambda>p. p \<noteq> 0 \<and> page_is_aligned p) ''vm data page allocation failed'') (\<lambda>(data_page, s).
     Inr ((initial_free, sp, data_page), s)))))"

definition scenario_va :: u64 where "scenario_va = 0x40000000"
definition sparse_va_a :: u64 where "sparse_va_a = 0x200000"
definition sparse_va_b :: u64 where "sparse_va_b = 0x2000000000"
definition failing_va :: u64 where "failing_va = 0x3000000000"
definition scenario_rw_flags :: u64 where "scenario_rw_flags = VM_PTE_V OR VM_PTE_R OR VM_PTE_W"

definition vm_scenario_page :: "vm_space option \<Rightarrow> u64 \<Rightarrow> 'a pages_scheme \<Rightarrow> (unit \<times> 'a pages_scheme) res" where
  "vm_scenario_page space pa s =
     bindE (must (vm_map_page space scenario_va pa scenario_rw_flags s) (\<lambda>r. r = VM_OK) ''vm map page failed'') (\<lambda>(_, s).
     bindE (must (vm_translate space scenario_va s) (\<lambda>r. r = pa) ''vm translate base failed'') (\<lambda>(_, s).
     bindE (must (vm_translate space (scenario_va + 0x123) s) (\<lambda>r. r = pa + 0x123) ''vm translate offset failed'') (\<lambda>(_, s).
     bindE (must (vm_map_page space scenario_va pa scenario_rw_flags s) (\<lambda>r. r = VM_ERR_EXISTS) ''vm duplicate map did not fail'') (\<lambda>(_, s).
     bindE (must (vm_unmap_page space scenario_va s) (\<lambda>r. r = VM_OK) ''vm unmap page failed'') (\<lambda>(_, s).
     bindE (must (vm_translate space scenario_va s) (\<lambda>r. r = VM_TRANSLATE_INVALID) ''vm unmapped translation succeeded'') (\<lambda>(_, s).
     bindE (must (vm_unmap_page space scenario_va s) (\<lambda>r. r = VM_ERR_NOT_MAPPED) ''vm duplicate unmap did not fail'') (\<lambda>(_, s).
     Inr ((), s))))))))"

definition vm_scenario_sparse :: "vm_space option \<Rightarrow> 'a pages_scheme \<Rightarrow> (unit \<times> 'a pages_scheme) res" where
  "vm_scenario_sparse space s =
     bindE (page_alloc s) (\<lambda>(sparse_a, s).
     bindE (page_alloc s) (\<lambda>(sparse_b, s).
     if sparse_a = 0 \<or> sparse_b = 0 then Inl ''vm sparse data allocation failed''
     else
     bindE (must (vm_map_page space sparse_va_a sparse_a scenario_rw_flags s) (\<lambda>r. r = VM_OK) ''vm sparse map failed'') (\<lambda>(_, s).
     bindE (must (vm_map_page space sparse_va_b sparse_b scenario_rw_flags s) (\<lambda>r. r = VM_OK) ''vm sparse map failed'') (\<lambda>(_, s).
     bindE (must (vm_translate space sparse_va_a s) (\<lambda>r. r = sparse_a) ''vm sparse translate failed'') (\<lambda>(_, s).
     bindE (must (vm_translate space sparse_va_b s) (\<lambda>r. r = sparse_b) ''vm sparse translate failed'') (\<lambda>(_, s).
     Inr ((), s)))))))"

partial_function (option) leave_one_page :: "u64 \<Rightarrow> 'a pages_scheme \<Rightarrow> (u64 \<times> 'a pages_scheme) res option" where
  "leave_one_page held_pages s =
     (case page_free_count s of
        Inl e \<Rightarrow> Some (Inl e)
      | Inr (n, s) \<Rightarrow>
          if n \<le> 1 then Some (Inr (held_pages, s))
          else case page_alloc s of
            Inl e \<Rightarrow> Some (Inl e)
          | Inr (page, s) \<Rightarrow>
              if page = 0 then Some (Inl ''vm exhaustion setup failed'')
              else leave_one_page page (store64 page held_pages s))"

definition vm_scenario_full :: "vm_space option \<Rightarrow> u64 \<Rightarrow> 'a pages_scheme \<Rightarrow> (unit \<times> 'a pages_scheme) res" where
  "vm_scenario_full space pa s =
     bindE (must (page_free_count s) (\<lambda>n. n = 1) ''vm failed-map setup mismatch'') (\<lambda>(free_before_failed_map, s).
     bindE (must (vm_map_page space failing_va pa scenario_rw_flags s) (\<lambda>r. r = VM_ERR_NO_MEMORY)
       ''vm failed sparse map did not report no memory'') (\<lambda>(_, s).
     bindE (must (page_free_count s) (\<lambda>n. n = free_before_failed_map) ''vm failed sparse map leaked page-table pages'') (\<lambda>(_, s).
     bindE (must (vm_translate space failing_va s) (\<lambda>r. r = VM_TRANSLATE_INVALID) ''vm failed sparse map left a mapping'') (\<lambda>(_, s).
     Inr ((), s)))))"

definition vm_scenario_exhaust :: "vm_space option \<Rightarrow> u64 \<Rightarrow> 'a pages_scheme \<Rightarrow> (unit \<times> 'a pages_scheme) res option" where
  "vm_scenario_exhaust space pa s =
     bindO (Some (page_free_count s)) (\<lambda>free_before_exhaustion s.
     bindO (leave_one_page 0 s) (\<lambda>held_pages s.
     bindO (Some (vm_scenario_full space pa s)) (\<lambda>_ s.
     bindO (release_pages held_pages s) (\<lambda>_ s.
     Some (bindE (must (page_free_count s) (\<lambda>n. n = free_before_exhaustion) ''vm exhaustion cleanup mismatch'') (\<lambda>(_, s).
     Inr ((), s)))))))"

definition vm_scenario_refused :: "vm_space option \<Rightarrow> u64 \<Rightarrow> 'a pages_scheme \<Rightarrow> (unit \<times> 'a pages_scheme) res" where
  "vm_scenario_refused space pa s =
     bindE (must (vm_map_page space (scenario_va + 1) pa scenario_rw_flags s) (\<lambda>r. r = VM_ERR_INVALID) ''vm accepted unaligned va'') (\<lambda>(_, s).
     bindE (must (vm_map_page space scenario_va (pa + 1) scenario_rw_flags s) (\<lambda>r. r = VM_ERR_INVALID) ''vm accepted unaligned pa'') (\<lambda>(_, s).
     bindE (must (vm_map_page space scenario_va pa (VM_PTE_V OR VM_PTE_W) s) (\<lambda>r. r = VM_ERR_INVALID)
       ''vm accepted write without read'') (\<lambda>(_, s).
     bindE (must (vm_map_page space 0x8000000000 pa scenario_rw_flags s) (\<lambda>r. r = VM_ERR_INVALID)
       ''vm accepted non-canonical va'') (\<lambda>(_, s).
     Inr ((), s)))))"

definition vm_scenario_report :: "vm_space option \<Rightarrow> u64 \<Rightarrow> 'a pages_scheme \<Rightarrow> (unit \<times> 'a pages_scheme) res" where
  "vm_scenario_report space initial_free s =
     bindE (must (page_free_count s) (\<lambda>n. n < initial_free) ''vm did not allocate page-table pages'') (\<lambda>(_, s).
     let s = console_write ''vm: root='' s;
         s = console_write_hex64 (vm_root (the space)) s;
         s = console_write '' free_pages='' s in
     bindE (page_free_count s) (\<lambda>(n, s).
     let s = console_write_hex64 n s;
         s = console_write [CHR 0x0A] s in
     Inr ((), println ''milestone 13: sv39 page table primitives'' s)))"

definition scenario_vm :: "vm_space \<Rightarrow> 'a pages_scheme \<Rightarrow> (unit \<times> 'a pages_scheme) res option" where
  "scenario_vm space s =
     bindO (Some (vm_scenario_start space s)) (\<lambda>(initial_free, sp, pa) s.
     bindO (Some (vm_scenario_page sp pa s)) (\<lambda>_ s.
     bindO (Some (vm_scenario_sparse sp s)) (\<lambda>_ s.
     bindO (vm_scenario_exhaust sp pa s) (\<lambda>_ s.
     bindO (Some (vm_scenario_refused sp pa s)) (\<lambda>_ s.
     Some (vm_scenario_report sp initial_free s))))))"

section \<open>The user address space\<close>

definition scenario_user_rw :: u64 where "scenario_user_rw = VM_PTE_V OR VM_PTE_R OR VM_PTE_W OR VM_PTE_U"

definition user_space_mapped :: "vm_space option \<Rightarrow> u64 \<Rightarrow> u64 \<Rightarrow> 'a pages_scheme \<Rightarrow> (unit \<times> 'a pages_scheme) res" where
  "user_space_mapped space code_page stack_page s =
     bindE (must (user_space_map_code_page space code_page s) (\<lambda>r. r = VM_OK) ''user code map failed'') (\<lambda>(_, s).
     bindE (must (user_space_map_stack_page space stack_page s) (\<lambda>r. r = VM_OK) ''user stack map failed'') (\<lambda>(_, s).
     bindE (must (vm_translate space USER_SPACE_CODE_BASE s) (\<lambda>r. r = code_page) ''user code translate failed'') (\<lambda>(_, s).
     bindE (must (vm_translate space USER_SPACE_STACK_BASE s) (\<lambda>r. r = stack_page) ''user stack translate failed'') (\<lambda>(_, s).
     Inr ((), s)))))"

definition user_space_refused :: "vm_space option \<Rightarrow> u64 \<Rightarrow> 'a pages_scheme \<Rightarrow> (unit \<times> 'a pages_scheme) res" where
  "user_space_refused space code_page s =
     bindE (must (user_space_map_page space 0 code_page scenario_user_rw s) (\<lambda>r. r = VM_ERR_INVALID) ''user null guard accepted'') (\<lambda>(_, s).
     bindE (must (user_space_map_page space (USER_SPACE_CODE_BASE + PAGE_SIZE) code_page (VM_PTE_V OR VM_PTE_R OR VM_PTE_W) s)
       (\<lambda>r. r = VM_ERR_INVALID) ''user map without U accepted'') (\<lambda>(_, s).
     bindE (must (user_space_map_page space 0x10000000 code_page scenario_user_rw s)
       (\<lambda>r. r = VM_ERR_INVALID) ''user mmio-looking va accepted'') (\<lambda>(_, s).
     bindE (must (user_space_map_page space (USER_SPACE_CODE_BASE + PAGE_SIZE) 0x10000000 scenario_user_rw s)
       (\<lambda>r. r = VM_ERR_INVALID) ''user non-managed pa accepted'') (\<lambda>(_, s).
     bindE (must (user_space_map_page space (USER_SPACE_CODE_BASE + PAGE_SIZE) code_page (scenario_user_rw OR VM_PTE_G) s)
       (\<lambda>r. r = VM_ERR_INVALID) ''user global mapping accepted'') (\<lambda>(_, s).
     Inr ((), s))))))"

definition user_space_released ::
  "vm_space option \<Rightarrow> u64 \<Rightarrow> u64 \<Rightarrow> u64 \<Rightarrow> 'a pages_scheme \<Rightarrow> (unit \<times> 'a pages_scheme) res"
where
  "user_space_released space code_page stack_page initial_free s =
     bindE (must (vm_space_destroy space s) (\<lambda>(r, _). r = VM_ERR_BUSY) ''busy user vm space destroy accepted'') (\<lambda>((_, space), s).
     bindE (must (vm_unmap_page space USER_SPACE_CODE_BASE s) (\<lambda>r. r = VM_OK) ''user unmap failed'') (\<lambda>(_, s).
     bindE (must (vm_unmap_page space USER_SPACE_STACK_BASE s) (\<lambda>r. r = VM_OK) ''user unmap failed'') (\<lambda>(_, s).
     bindE (page_free code_page s) (\<lambda>(_, s).
     bindE (page_free stack_page s) (\<lambda>(_, s).
     bindE (must (vm_space_destroy space s) (\<lambda>(r, sp). r = VM_OK \<and> vm_root (the sp) = 0) ''user vm space destroy failed'') (\<lambda>(_, s).
     bindE (must (page_free_count s) (\<lambda>n. n = initial_free) ''user vm space leaked pages'') (\<lambda>(_, s).
     Inr ((), s))))))))"

definition user_space_report :: "'a hw_scheme \<Rightarrow> 'a hw_scheme" where
  "user_space_report s =
     (let s = console_write ''user: code='' s;
          s = console_write_hex64 USER_SPACE_CODE_BASE s;
          s = console_write '' stack='' s;
          s = console_write_hex64 USER_SPACE_STACK_BASE s;
          s = console_write '' top='' s;
          s = console_write_hex64 USER_SPACE_TOP s;
          s = console_write [CHR 0x0A] s
      in println ''milestone 14: user address space skeleton'' s)"

definition scenario_user_space :: "vm_space \<Rightarrow> 'a pages_scheme \<Rightarrow> (unit \<times> 'a pages_scheme) res" where
  "scenario_user_space space s =
     (let s = println ''scenario: user-space'' s in
     bindE (page_free_count s) (\<lambda>(initial_free, s).
     bindE (must (vm_space_init (Some space) s) (\<lambda>(r, sp). r = VM_OK \<and> vm_root (the sp) \<noteq> 0) ''user vm space init failed'') (\<lambda>((_, sp), s).
     bindE (page_alloc s) (\<lambda>(code_page, s).
     bindE (page_alloc s) (\<lambda>(stack_page, s).
     if code_page = 0 \<or> stack_page = 0 then Inl ''user backing page allocation failed''
     else
     bindE (user_space_mapped sp code_page stack_page s) (\<lambda>(_, s).
     bindE (user_space_refused sp code_page s) (\<lambda>(_, s).
     bindE (user_space_released sp code_page stack_page initial_free s) (\<lambda>(_, s).
     Inr ((), user_space_report s)))))))))"

end
