(* ===== verification/Scenario_Proofs.thy ===== *)
theory Scenario_Proofs
  imports Scenario_Memory Task_Init
begin

text \<open>
  An address space followed through the operations of the allocator and of \<^verbatim>\<open>vm.c\<close>, beside pages that hold
  data, and with it the self-test of the user address space: it passes.
\<close>

section \<open>An address space beside pages of data\<close>

text \<open>
  Since the state \<open>b\<close> the tables of an address space and the pages of data \<open>D\<close> have been taken, and
  nothing but pages that were free has been written.
\<close>

definition tracked :: "u64 \<Rightarrow> u64 set \<Rightarrow> 'a pages_scheme \<Rightarrow> 'a pages_scheme \<Rightarrow> bool" where
  "tracked root D b s \<longleftrightarrow> vm_inv root s \<and> pool_step b s \<and> (D \<union> pt_tables (mem s) root) \<inter> allocated b = {} \<and>
     D \<inter> pt_tables (mem s) root = {} \<and> allocated s = allocated b \<union> D \<union> pt_tables (mem s) root \<and>
     agree_on (- (managed_frames b - allocated b)) (mem b) (mem s)"

lemma trackedD:
  assumes "tracked root D b s"
  shows "vm_inv root s" "pages_inv s" "managed_frames s = managed_frames b" "D \<subseteq> managed_frames b"
    "pt_tables (mem s) root \<subseteq> managed_frames b"
proof -
  show i: "vm_inv root s" using assms by (simp add: tracked_def)
  then show "pages_inv s" by (simp add: vm_inv_def)
  show m: "managed_frames s = managed_frames b" using assms pool_step_fields(1) by (auto simp: tracked_def)
  have "allocated s \<subseteq> managed_frames b" using allocated_subset [of s] m by simp
  then show "D \<subseteq> managed_frames b" "pt_tables (mem s) root \<subseteq> managed_frames b" using assms by (auto simp: tracked_def)
qed

text \<open>Changes outside the tables.\<close>

lemma tracked_cong:
  assumes t: "tracked root D b s" and step: "pool_step s s'" "pages_inv s'"
    and alloc: "allocated s' = allocated b \<union> D' \<union> pt_tables (mem s) root"
    and D': "D' \<inter> (allocated b \<union> pt_tables (mem s) root) = {}"
    and mem: "agree_on (- (managed_frames b - allocated b - pt_tables (mem s) root)) (mem s) (mem s')"
  shows "tracked root D' b s'" "vm_mapping root s' = vm_mapping root s" "pt_paths (mem s') root = pt_paths (mem s) root"
proof -
  have inv: "vm_inv root s" by (rule trackedD(1) [OF t])
  have wf: "pt_wf (allocated s) (mem s) root" and fr: "frames (allocated s)" using inv by (auto simp: vm_inv_def frames_allocated)
  have tabs: "pt_tables (mem s) root \<subseteq> allocated s'" using alloc by blast
  have ag: "agree_on (pt_tables (mem s) root) (mem s) (mem s')" by (rule agree_on_mono [OF mem]) blast
  note same = pt_agree [OF wf fr ag]
  have "pt_wf (allocated s') (mem s') root"
    using same(1) tabs unfolding same(2) [symmetric] unfolding pt_wf_def pt_tables_def by blast
  then have inv': "vm_inv root s'" using step(2) by (simp add: vm_inv_def)
  have "agree_on (- (managed_frames b - allocated b)) (mem s) (mem s')" by (rule agree_on_mono [OF mem]) blast
  then have "agree_on (- (managed_frames b - allocated b)) (mem b) (mem s')"
    using t unfolding tracked_def by (meson agree_on_trans)
  then show "tracked root D' b s'"
    using inv' t step alloc D' same(2) unfolding tracked_def by (auto intro: pool_step_trans)
  show "vm_mapping root s' = vm_mapping root s" by (simp add: vm_mapping_def same(3) fun_eq_iff)
  show "pt_paths (mem s') root = pt_paths (mem s) root" by (rule same(4))
qed

lemma tracked_init:
  assumes inv: "pages_inv s" and free: "1 \<le> unat (free_pages s)"
  obtains sp' s' where "vm_space_init (Some sp) s = Inr ((VM_OK, Some sp'), s')" "tracked (vm_root sp') {} s s'"
    "vm_mapping (vm_root sp') s' = Map.empty" "pt_paths (mem s') (vm_root sp') = {[]}"
    "unat (free_pages s) = Suc (unat (free_pages s'))" "vm_root sp' \<noteq> 0" "page_is_aligned (vm_root sp')"
proof -
  have "free_pages s \<noteq> 0" using free by auto
  with vm_space_init_spec [OF inv, of sp] obtain r sp' s' where
    i: "vm_space_init (Some sp) s = Inr ((r, Some sp'), s')" "r = VM_OK" "vm_inv (vm_root sp') s'"
      "vm_mapping (vm_root sp') s' = Map.empty" "vm_root sp' \<notin> allocated s"
      "allocated s' = insert (vm_root sp') (allocated s)" "pt_tables (mem s') (vm_root sp') = {vm_root sp'}" "pool_step s s'"
      "agree_on (- {vm_root sp'}) (mem s) (mem s')"
    by (auto split: if_splits)
  have inv': "pages_inv s'" using i(3) by (simp add: vm_inv_def)
  have mf: "managed_frames s' = managed_frames s" by (rule pool_step_fields(1) [OF i(8)])
  have root: "vm_root sp' \<in> managed_frames s" using i(6) mf allocated_subset [of s'] by auto
  have "agree_on (- (managed_frames s - allocated s)) (mem s) (mem s')"
    by (rule agree_on_mono [OF i(9)]) (use root i(5) in blast)
  then have t: "tracked (vm_root sp') {} s s'" using i by (simp add: tracked_def)
  have p: "pt_paths (mem s') (vm_root sp') = {[]}" by (rule paths_of_root [OF conjunct2 [OF i(3) [unfolded vm_inv_def]] i(7)])
  have al: "page_is_aligned (vm_root sp')"
    using managed_frame_pa_valid(2) [OF inv root] by (simp add: page_is_aligned_def page_aligned_def)
  show thesis
    by (rule that [OF i(1) [unfolded i(2)] t i(4) p free_insert [OF inv inv' mf i(6,5)] vm_inv_root(2) [OF i(3)] al])
qed

lemma tracked_alloc:
  assumes t: "tracked root D b s" and free: "1 \<le> unat (free_pages s)"
  obtains p s' where "page_alloc s = Inr (p, s')" "p \<noteq> 0" "page_is_aligned p" "p \<in> managed_frames b" "p \<notin> D" "p \<notin> allocated b"
    "tracked root (insert p D) b s'" "vm_mapping root s' = vm_mapping root s" "pt_paths (mem s') root = pt_paths (mem s) root"
    "unat (free_pages s) = Suc (unat (free_pages s'))" "mem s' = mem s"
proof (rule page_alloc_outcome [OF trackedD(2) [OF t]])
  assume "free_pages s = 0"
  then show thesis using free by simp
next
  fix p s'
  assume p: "page_alloc s = Inr (p, s')" "p \<noteq> 0" "unat p mod 4096 = 0" "p \<notin> allocated s" "p \<in> managed_frames s" "pages_inv s'"
    "allocated s' = insert p (allocated s)" "pool_step s s'" "mem s' = mem s" "unat (free_pages s) = Suc (unat (free_pages s'))"
  have a: "allocated s = allocated b \<union> D \<union> pt_tables (mem s) root" using t by (simp add: tracked_def)
  have d: "(D \<union> pt_tables (mem s) root) \<inter> allocated b = {}" "D \<inter> pt_tables (mem s) root = {}" using t by (simp_all add: tracked_def)
  have alloc: "allocated s' = allocated b \<union> insert p D \<union> pt_tables (mem s) root" using p(7) a by blast
  have disj: "insert p D \<inter> (allocated b \<union> pt_tables (mem s) root) = {}" using p(4) a d by blast
  note c = tracked_cong [OF t p(8,6) alloc disj agree_on_mem [OF p(9) [symmetric]]]
  have al: "page_is_aligned p" using p(3) by (simp add: page_is_aligned_def page_aligned_mod page_aligned_def [symmetric])
  show thesis
    by (rule that [OF p(1,2) al _ _ _ c p(10,9)]) (use p(4,5) a trackedD(3) [OF t] in auto)
qed

lemma tracked_write:
  assumes t: "tracked root D b s" and p: "p \<in> D"
  shows "tracked root D b (store64 p v s)" "vm_mapping root (store64 p v s) = vm_mapping root s"
    "pt_paths (mem (store64 p v s)) root = pt_paths (mem s) root"
proof -
  have pm: "p \<in> managed_frames b" "p \<notin> pt_tables (mem s) root" "p \<notin> allocated b"
    using p trackedD(4) [OF t] t by (auto simp: tracked_def)
  have al: "unat p mod 4096 = 0" using managed_frame_props(2) [OF trackedD(2) [OF t], of p] pm(1) trackedD(3) [OF t] by simp
  have ag: "agree_on (- (managed_frames b - allocated b - pt_tables (mem s) root)) (mem s) (mem (store64 p v s))"
    unfolding store_simps agree_on_def using pm page_base_of_aligned [OF al]
    by (auto intro!: cell64.wr_other_page [symmetric] mod8_of_mod4096 [OF al])
  have a: "allocated (store64 p v s) = allocated b \<union> D \<union> pt_tables (mem s) root" using t by (simp add: tracked_def)
  have d: "D \<inter> (allocated b \<union> pt_tables (mem s) root) = {}" using t by (auto simp: tracked_def)
  note c = tracked_cong [OF t pool_step_store(1) _ a d ag]
  show "tracked root D b (store64 p v s)" "vm_mapping root (store64 p v s) = vm_mapping root s"
    "pt_paths (mem (store64 p v s)) root = pt_paths (mem s) root"
    using c trackedD(2) [OF t] by simp_all
qed

lemma tracked_free:
  assumes t: "tracked root D b s" and p: "p \<in> D"
  obtains s' where "page_free p s = Inr ((), s')" "tracked root (D - {p}) b s'" "vm_mapping root s' = vm_mapping root s"
    "pt_paths (mem s') root = pt_paths (mem s) root" "mem s' = mem s" "unat (free_pages s') = Suc (unat (free_pages s))"
proof -
  have a: "allocated s = allocated b \<union> D \<union> pt_tables (mem s) root" using t by (simp add: tracked_def)
  have d: "D \<inter> (allocated b \<union> pt_tables (mem s) root) = {}" using t by (auto simp: tracked_def)
  have owned: "p \<in> allocated s" using p a by blast
  then obtain s' where s': "page_free p s = Inr ((), s')" "pages_inv s'" "allocated s' = allocated s - {p}"
    using pages.free_owned [OF trackedD(2) [OF t]] by blast
  have m: "mem s' = mem s" using page_free_frame [OF s'(1)] by auto
  have alloc: "allocated s' = allocated b \<union> (D - {p}) \<union> pt_tables (mem s) root" using s'(3) a d p by blast
  have disj: "(D - {p}) \<inter> (allocated b \<union> pt_tables (mem s) root) = {}" using d by blast
  note c = tracked_cong [OF t pool_step_free [OF s'(1)] s'(2) alloc disj agree_on_mem [OF m [symmetric]]]
  have "allocated s = insert p (allocated s')" "p \<notin> allocated s'" using s'(3) owned by auto
  then have n: "unat (free_pages s') = Suc (unat (free_pages s))"
    using pool_step_fields(1) [OF pool_step_free [OF s'(1)]] by (intro free_insert [OF s'(2) trackedD(2) [OF t]]) simp_all
  show thesis by (rule that [OF s'(1) c m n])
qed

text \<open>Changes of the tables.\<close>

lemma tracked_frame:
  assumes t: "tracked root D b s" and f: "vm_frame root s s'"
  shows "tracked root D b s'"
proof -
  let ?T = "pt_tables (mem s) root" and ?T' = "pt_tables (mem s') root"
  have a: "allocated s = allocated b \<union> D \<union> ?T" "(D \<union> ?T) \<inter> allocated b = {}" "D \<inter> ?T = {}" using t by (auto simp: tracked_def)
  have f': "vm_inv root s'" "pool_step s s'" "?T \<subseteq> ?T'" "allocated s' - ?T' = allocated s - ?T"
    "agree_on (- (?T' \<union> (managed_frames s - allocated s))) (mem s) (mem s')"
    using f by (simp_all add: vm_frame_def)
  have sub: "?T' \<subseteq> allocated s'" by (rule vm_tables_owned [OF f'(1)])
  have other: "allocated s' - ?T' = allocated b \<union> D" using f'(4) a by blast
  have al: "allocated s' = allocated b \<union> D \<union> ?T'" using other sub by blast
  have disj: "?T' \<inter> (allocated b \<union> D) = {}" using other by blast
  have man: "allocated s' \<subseteq> managed_frames b"
    using allocated_subset [of s'] trackedD(3) [OF t] pool_step_fields(1) [OF f'(2)] by simp
  have "agree_on (- (managed_frames b - allocated b)) (mem s) (mem s')"
    by (rule agree_on_mono [OF f'(5)]) (use disj sub man a trackedD(3) [OF t] in blast)
  then have "agree_on (- (managed_frames b - allocated b)) (mem b) (mem s')"
    using t unfolding tracked_def by (meson agree_on_trans)
  then show ?thesis using f'(1,2) t al disj unfolding tracked_def by (auto intro: pool_step_trans)
qed

lemma tracked_map:
  assumes t: "tracked (vm_root sp) D b s" and args: "vm_args_ok va pa flags" and none: "vm_mapping (vm_root sp) s va = None"
    and free: "vm_missing (vm_root sp) s va \<le> unat (free_pages s)"
  obtains s' where "vm_map_page (Some sp) va pa flags s = Inr (VM_OK, s')" "tracked (vm_root sp) D b s'"
    "vm_mapping (vm_root sp) s' = (vm_mapping (vm_root sp) s)(va \<mapsto> (pa, flags))"
    "pt_paths (mem s') (vm_root sp) = pt_paths (mem s) (vm_root sp) \<union> {[], [vpn_index va 2], va_path va}"
    "unat (free_pages s) = unat (free_pages s') + vm_missing (vm_root sp) s va"
  using vm_map_page_exact [OF trackedD(1) [OF t] args none] tracked_frame [OF t] free
  by (auto elim!: returnsE intro: that)

lemma tracked_unmap:
  assumes t: "tracked (vm_root sp) D b s" and some: "vm_mapping (vm_root sp) s va \<noteq> None"
  obtains s' where "vm_unmap_page (Some sp) va s = Inr (VM_OK, s')" "tracked (vm_root sp) D b s'"
    "vm_mapping (vm_root sp) s' = (vm_mapping (vm_root sp) s)(va := None)" "free_pages s' = free_pages s"
    "pt_paths (mem s') (vm_root sp) = pt_paths (mem s) (vm_root sp)"
proof -
  have c: "va_is_canonical va \<and> page_aligned va" using some by (auto simp: vm_mapping_def split: if_splits)
  obtain s' where s': "vm_unmap_page (Some sp) va s = Inr (VM_OK, s')" "vm_step (vm_root sp) s s'" "free_pages s' = free_pages s"
    "pt_paths (mem s') (vm_root sp) = pt_paths (mem s) (vm_root sp)"
    "vm_mapping (vm_root sp) s' = (vm_mapping (vm_root sp) s)(va := None)"
    using vm_unmap_page_spec [OF trackedD(1) [OF t], of va] c some by auto
  show thesis
    by (rule that [OF s'(1) tracked_frame [OF t vm_frame_step [OF s'(2) trackedD(1) [OF t]]] s'(5,3,4)])
qed

lemma tracked_destroy:
  assumes t: "tracked (vm_root sp) D b s" and none: "vm_mapping (vm_root sp) s = Map.empty"
  obtains sp' s' where "vm_space_destroy (Some sp) s = Inr ((VM_OK, Some sp'), s')" "vm_root sp' = 0" "pages_inv s'"
    "pool_step b s'" "allocated s' = allocated b \<union> D" "agree_on (- (managed_frames b - allocated b)) (mem b) (mem s')"
proof -
  obtain r sp' s' where d: "vm_space_destroy (Some sp) s = Inr ((r, Some sp'), s')" "r = VM_OK" "vm_root sp' = 0" "pages_inv s'"
    "allocated s' = allocated s - pt_tables (mem s) (vm_root sp)" "pool_step s s'"
    "agree_on (- pt_tables (mem s) (vm_root sp)) (mem s) (mem s')"
    using vm_space_destroy_spec [OF trackedD(1) [OF t]] none by auto
  have a: "allocated s' = allocated b \<union> D" using d(5) t unfolding tracked_def by blast
  have "agree_on (- (managed_frames b - allocated b)) (mem s) (mem s')"
    by (rule agree_on_mono [OF d(7)]) (use t trackedD(5) [OF t] in \<open>auto simp: tracked_def\<close>)
  then have m: "agree_on (- (managed_frames b - allocated b)) (mem b) (mem s')"
    using t unfolding tracked_def by (meson agree_on_trans)
  have p: "pool_step b s'" using t d(6) unfolding tracked_def by (blast intro: pool_step_trans)
  show thesis by (rule that [OF d(1) [unfolded d(2)] d(3,4) p a m])
qed

lemma tracked_translate:
  assumes "tracked (vm_root sp) D b s" and "va_is_canonical va"
  shows "vm_translate (Some sp) va s = Inr (case vm_mapping (vm_root sp) s (page_base va) of
        Some (pa, flags) \<Rightarrow> pa OR (va AND VM_PAGE_OFFSET_MASK) | None \<Rightarrow> VM_TRANSLATE_INVALID, s)"
  using vm_translate_spec [OF trackedD(1) [OF assms(1)], of va] assms(2) by simp

lemma missing_most: "vm_missing root s va \<le> 2"
  unfolding vm_missing_paths by simp

section \<open>The user address space\<close>

lemma refused_ok:
  assumes "0x10000000 < managed_start s"
  shows "user_space_refused sp code s = Inr ((), s)"
proof -
  have va: "\<not> user_space_va_range_is_valid 0 PAGE_SIZE" "\<not> user_space_va_range_is_valid 0x10000000 PAGE_SIZE"
    by (simp_all add: user_space_va_range_is_valid_def range_overlaps_platform_mmio_def ranges_overlap_def user_layout)
  have pa: "\<not> user_pa_range_is_valid 0x10000000 PAGE_SIZE s"
    using assms by (auto simp: user_pa_range_is_valid_def page_managed_start_def page_managed_end_def Let_def PAGE_SIZE_def)
  have fl: "(VM_PTE_V OR VM_PTE_R OR VM_PTE_W) AND VM_PTE_U = 0" "VM_PTE_G \<noteq> 0"
    by (simp_all add: scenario_user_rw_def vm_flags)
  show ?thesis by (simp add: user_space_refused_def must_def user_space_map_page_def va pa fl)
qed

lemma user_report_ok: "\<exists>c. user_space_report s = s\<lparr>console := c\<rparr>"
proof -
  define w where "w t s = console_write t s" for t and s :: "'a hw_scheme"
  define h where "h v s = console_write_hex64 v s" for v and s :: "'a hw_scheme"
  have w: "\<exists>c. w t (s\<lparr>console := x\<rparr>) = s\<lparr>console := c\<rparr>" for t x using console_only [of t "s\<lparr>console := x\<rparr>"] by (simp add: w_def)
  have h: "\<exists>c. h v (s\<lparr>console := x\<rparr>) = s\<lparr>console := c\<rparr>" for v x
    using console_hex_only [of v "s\<lparr>console := x\<rparr>"] by (simp add: h_def)
  have s: "s = s\<lparr>console := console s\<rparr>" by simp
  have e: "user_space_report s = w (''milestone 14: user address space skeleton'' @ [CHR 0x0A]) (w [CHR 0x0A] (h USER_SPACE_TOP
    (w '' top='' (h USER_SPACE_STACK_BASE (w '' stack='' (h USER_SPACE_CODE_BASE (w ''user: code='' (s\<lparr>console := console s\<rparr>))))))))"
    by (simp add: user_space_report_def println_def w_def h_def)
  show ?thesis unfolding e by (metis w h)
qed

text \<open>
  The self-test of the user address space passes. With six pages free and the managed memory above the serial port,
  \<open>scenario_user_space\<close> makes all its checks without a panic: the code page and the stack page translate to the
  pages given, the null page, a page that is not a user page, the registers of the serial port as address and
  as frame, and a global page are refused, the address space cannot be destroyed while it maps a page, and at the
  end every page it took has been given back and nothing but free pages has been written.
\<close>

theorem scenario_user_space_passes:
  fixes s :: "'a pages_scheme"
  assumes inv: "pages_inv s" and free: "6 \<le> unat (free_pages s)" and low: "0x10000000 < managed_start s"
  shows "\<exists>s'. scenario_user_space space s = Inr ((), s') \<and> pages_inv s' \<and> allocated s' = allocated s \<and>
    free_pages s' = free_pages s \<and> agree_on (- (managed_frames s - allocated s)) (mem s) (mem s')"
proof -
  obtain c where c: "println ''scenario: user-space'' s = s\<lparr>console := c\<rparr>"
    using console_only [of "''scenario: user-space'' @ [CHR 0x0A]" s] by (auto simp: println_def)
  define b where "b = s\<lparr>console := c\<rparr>"
  have b: "pages_inv b" "allocated b = allocated s" "free_pages b = free_pages s" "mem b = mem s" "managed_start b = managed_start s"
    "managed_frames b = managed_frames s"
    using inv by (simp_all add: b_def managed_frames_def page_addr_from_index_def)
  obtain sp s1 where s1: "vm_space_init (Some space) b = Inr ((VM_OK, Some sp), s1)" "tracked (vm_root sp) {} b s1"
    "vm_mapping (vm_root sp) s1 = Map.empty" "pt_paths (mem s1) (vm_root sp) = {[]}"
    "unat (free_pages b) = Suc (unat (free_pages s1))" "vm_root sp \<noteq> 0"
    by (rule tracked_init [OF b(1), of space]) (use free b(3) in simp)
  have f1: "1 \<le> unat (free_pages s1)" using s1(5) b(3) free by simp
  obtain code s2 where s2: "page_alloc s1 = Inr (code, s2)" "code \<noteq> 0" "code \<in> managed_frames b" "tracked (vm_root sp) {code} b s2"
    "vm_mapping (vm_root sp) s2 = Map.empty" "pt_paths (mem s2) (vm_root sp) = {[]}" "unat (free_pages s1) = Suc (unat (free_pages s2))"
    by (rule tracked_alloc [OF s1(2) f1]) (simp add: s1(3,4))
  have f2: "1 \<le> unat (free_pages s2)" using s1(5) s2(7) b(3) free by simp
  obtain stack s3 where s3: "page_alloc s2 = Inr (stack, s3)" "stack \<noteq> 0" "stack \<in> managed_frames b" "stack \<noteq> code"
    "tracked (vm_root sp) {stack, code} b s3"
    "vm_mapping (vm_root sp) s3 = Map.empty" "pt_paths (mem s3) (vm_root sp) = {[]}" "unat (free_pages s2) = Suc (unat (free_pages s3))"
    by (rule tracked_alloc [OF s2(4) f2]) (simp add: s2(5,6))
  note al = managed_frame_pa_valid(2) [OF b(1)]
  have m3: "vm_missing (vm_root sp) s3 USER_SPACE_CODE_BASE = 2" by (simp add: vm_missing_paths task_va_paths s3(7))
  obtain s4 where s4: "vm_map_page (Some sp) USER_SPACE_CODE_BASE code code_flags s3 = Inr (VM_OK, s4)" "tracked (vm_root sp) {stack, code} b s4"
    "vm_mapping (vm_root sp) s4 = [USER_SPACE_CODE_BASE \<mapsto> (code, code_flags)]"
    "pt_paths (mem s4) (vm_root sp) = {[]} \<union> {[], [0], [0, 0]}" "unat (free_pages s3) = unat (free_pages s4) + 2"
    by (rule tracked_map [OF s3(5) task_va_args(1) [OF al [OF s2(3)]]])
      (use s1(5) s2(7) s3(6-8) b(3) free in \<open>simp_all add: m3 task_va_paths\<close>)
  have m4: "vm_missing (vm_root sp) s4 USER_SPACE_STACK_BASE = 1" by (simp add: vm_missing_paths task_va_paths s4(4))
  have n4: "vm_mapping (vm_root sp) s4 USER_SPACE_STACK_BASE = None" by (simp add: s4(3) task_va_values)
  have g4: "vm_missing (vm_root sp) s4 USER_SPACE_STACK_BASE \<le> unat (free_pages s4)"
    using s1(5) s2(7) s3(8) s4(5) b(3) free by (simp add: m4)
  obtain s5 where s5: "vm_map_page (Some sp) USER_SPACE_STACK_BASE stack stack_flags s4 = Inr (VM_OK, s5)" "tracked (vm_root sp) {stack, code} b s5"
    "vm_mapping (vm_root sp) s5 = [USER_SPACE_CODE_BASE \<mapsto> (code, code_flags), USER_SPACE_STACK_BASE \<mapsto> (stack, stack_flags)]"
    by (rule tracked_map [OF s4(2) task_va_args(2) [OF al [OF s3(3)]] n4 g4]) (simp add: s4(3))
  note d3 = trackedD(1,2,3) [OF s3(5)] trackedD(1,2,3) [OF s4(2)]
  have e: "user_space_map_code_page (Some sp) code s3 = Inr (VM_OK, s4)" "user_space_map_stack_page (Some sp) stack s4 = Inr (VM_OK, s5)"
    using user_map_eqs(1) [OF d3(2), of code sp] user_map_eqs(2) [OF d3(5), of stack sp] s2(3) s3(3) d3(3,6) s4(1) s5(1) by simp_all
  have can: "va_is_canonical USER_SPACE_CODE_BASE" "va_is_canonical USER_SPACE_STACK_BASE"
    "page_base USER_SPACE_CODE_BASE = USER_SPACE_CODE_BASE" "page_base USER_SPACE_STACK_BASE = USER_SPACE_STACK_BASE"
    "USER_SPACE_CODE_BASE AND VM_PAGE_OFFSET_MASK = 0" "USER_SPACE_STACK_BASE AND VM_PAGE_OFFSET_MASK = 0"
    "USER_SPACE_STACK_BASE \<noteq> USER_SPACE_CODE_BASE"
    by (simp_all add: task_va_values va_is_canonical_def SV39_TOP_BIT_def page_base_def PAGE_MASK_def PAGE_SIZE_def VM_PAGE_OFFSET_MASK_def)
  have tr: "vm_translate (Some sp) USER_SPACE_CODE_BASE s5 = Inr (code, s5)" "vm_translate (Some sp) USER_SPACE_STACK_BASE s5 = Inr (stack, s5)"
    using tracked_translate [OF s5(2) can(1)] tracked_translate [OF s5(2) can(2)] s5(3) can(3-7) by simp_all
  have mapped: "user_space_mapped (Some sp) code stack s3 = Inr ((), s5)" by (simp add: user_space_mapped_def must_def e tr)
  have ms: "managed_start s5 = managed_start b" using s5(2) pool_step_fields(6) by (auto simp: tracked_def)
  have refused: "user_space_refused (Some sp) code s5 = Inr ((), s5)" using low b(5) ms by (intro refused_ok) simp
  have busy: "vm_space_destroy (Some sp) s5 = Inr ((VM_ERR_BUSY, Some sp), s5)"
    using vm_space_destroy_spec [OF trackedD(1) [OF s5(2)]] s5(3) by auto
  obtain s6 where s6: "vm_unmap_page (Some sp) USER_SPACE_CODE_BASE s5 = Inr (VM_OK, s6)" "tracked (vm_root sp) {stack, code} b s6"
    "vm_mapping (vm_root sp) s6 = [USER_SPACE_STACK_BASE \<mapsto> (stack, stack_flags)]"
    by (rule tracked_unmap [OF s5(2), of USER_SPACE_CODE_BASE]) (use s5(3) can(7) in \<open>auto simp: fun_eq_iff\<close>)
  obtain s7 where s7: "vm_unmap_page (Some sp) USER_SPACE_STACK_BASE s6 = Inr (VM_OK, s7)" "tracked (vm_root sp) {stack, code} b s7"
    "vm_mapping (vm_root sp) s7 = Map.empty"
    by (rule tracked_unmap [OF s6(2), of USER_SPACE_STACK_BASE]) (use s6(3) in \<open>auto simp: fun_eq_iff\<close>)
  obtain s8 where s8: "page_free code s7 = Inr ((), s8)" "tracked (vm_root sp) ({stack, code} - {code}) b s8" "vm_mapping (vm_root sp) s8 = Map.empty"
    by (rule tracked_free [OF s7(2), of code]) (use s7(3) in auto)
  obtain s9 where s9: "page_free stack s8 = Inr ((), s9)" "tracked (vm_root sp) ({stack, code} - {code} - {stack}) b s9"
    "vm_mapping (vm_root sp) s9 = Map.empty"
    by (rule tracked_free [OF s8(2), of stack]) (use s8(3) s3(4) in auto)
  obtain sp' s10 where s10: "vm_space_destroy (Some sp) s9 = Inr ((VM_OK, Some sp'), s10)" "vm_root sp' = 0" "pages_inv s10"
    "pool_step b s10" "allocated s10 = allocated b \<union> ({stack, code} - {code} - {stack})"
    "agree_on (- (managed_frames b - allocated b)) (mem b) (mem s10)"
    by (rule tracked_destroy [OF s9(2,3)])
  have a10: "allocated s10 = allocated b" using s10(5) by auto
  have n10: "free_pages s10 = free_pages b" by (rule free_pages_allocated [OF b(1) s10(3) pool_step_fields(1) [OF s10(4)] a10])
  have released: "user_space_released (Some sp) code stack (free_pages s) s5 = Inr ((), s10)"
    using n10 b(3) by (simp add: user_space_released_def must_def busy s6(1) s7(1) s8(1) s9(1) s10(1,2) counts(1) [OF s10(3)] vm_codes)
  obtain c' where c': "user_space_report s10 = s10\<lparr>console := c'\<rparr>" using user_report_ok by blast
  have "scenario_user_space space s = Inr ((), s10\<lparr>console := c'\<rparr>)"
    unfolding scenario_user_space_def Let_def c b_def [symmetric]
    by (simp add: counts(1) [OF b(1)] must_def s1(1,6) s2(1,2) s3(1,2) mapped refused b(3) released c')
  then show ?thesis
    using s10(3,6) a10 n10 b by (intro exI [of _ "s10\<lparr>console := c'\<rparr>"]) simp
qed

text \<open>A booted machine with eleven pages.\<close>

definition demo_eleven :: pages where
  "demo_eleven = page_init_state 0x80000000 0x8000b000 demo_pages"

lemma demo_eleven: "pages_inv demo_eleven" "free_pages demo_eleven = 11" "managed_start demo_eleven = 0x80000000"
proof -
  show "pages_inv demo_eleven"
    unfolding demo_eleven_def
    by (rule page_init_state_inv) (simp_all add: align_up_def page_base_def PAGE_MASK_def PAGE_SIZE_def demo_pages_def demo_link_def)
  show "free_pages demo_eleven = 11" "managed_start demo_eleven = 0x80000000"
    by (simp_all add: demo_eleven_def page_init_state_def align_up_def page_base_def PAGE_MASK_def PAGE_SIZE_def
        demo_pages_def demo_link_def Let_def)
qed

theorem scenario_user_space_passes_witness:
  "\<exists>s'. scenario_user_space \<lparr>vm_root = 0\<rparr> demo_eleven = Inr ((), s') \<and> free_pages s' = 11"
  using scenario_user_space_passes [OF demo_eleven(1), of "\<lparr>vm_root = 0\<rparr>"] by (auto simp: demo_eleven)

end
