(* ===== verification/Scenario_Vm.thy ===== *)
theory Scenario_Vm
  imports Scenario_Proofs
begin

text \<open>
  The self-test of the page tables passes: pages held in a list through their first words while an address space is
  used, the mapping that must fail for want of pages, and the property of \<open>scenario_vm\<close>.
\<close>

section \<open>Pages held beside an address space\<close>

lemma linked_agree:
  "linked m ps p \<Longrightarrow> agree_on (set ps) m m' \<Longrightarrow> (\<And>x. x \<in> set ps \<Longrightarrow> unat x mod 4096 = 0) \<Longrightarrow> linked m' ps p"
proof (induction ps arbitrary: p)
  case (Cons x xs)
  have al: "unat x mod 4096 = 0" using Cons.prems(3) by simp
  have "read64 m' x = read64 m x"
    using Cons.prems(2) page_base_of_aligned [OF al] mod8_of_mod4096 [OF al]
    by (intro cell64.rd_page_cong) (auto simp: agree_on_def)
  moreover have "agree_on (set xs) m m'" by (rule agree_on_mono [OF Cons.prems(2)]) auto
  ultimately show ?case using Cons.IH [of "read64 m x"] Cons.prems by simp
qed simp

lemma tracked_aligned: "tracked root D b s \<Longrightarrow> x \<in> D \<Longrightarrow> unat x mod 4096 = 0"
  using managed_frame_props(2) [OF trackedD(2), of root D b s x] trackedD(3,4) [of root D b s] by auto

lemma leave_one_ok:
  assumes "tracked root D b s" and "linked (mem s) ps held" and "set ps \<subseteq> D" and "unat (free_pages s) = Suc n"
  shows "\<exists>qs held' s'. leave_one_page held s = Some (Inr (held', s')) \<and> tracked root (D \<union> set qs) b s' \<and>
    vm_mapping root s' = vm_mapping root s \<and> pt_paths (mem s') root = pt_paths (mem s) root \<and> free_pages s' = 1 \<and>
    linked (mem s') (qs @ ps) held' \<and> distinct qs \<and> set qs \<inter> D = {} \<and> length qs = n"
  using assms
proof (induction n arbitrary: s held ps D)
  case 0
  then have f: "free_pages s = 1" by (simp add: word_unat_eq_iff)
  have "leave_one_page held s = Some (Inr (held, s))"
    using counts(1) [OF trackedD(2) [OF 0(1)]] f by (subst leave_one_page.simps) simp
  then show ?case using 0 f by (intro exI [of _ "[]"] exI [of _ held] exI [of _ s]) simp
next
  case (Suc n)
  have more: "\<not> free_pages s \<le> 1" using Suc.prems(4) by (simp add: word_le_nat_alt)
  have one: "1 \<le> unat (free_pages s)" using Suc.prems(4) by simp
  obtain p s1 where p: "page_alloc s = Inr (p, s1)" "p \<noteq> 0" "p \<notin> D" "tracked root (insert p D) b s1"
    "vm_mapping root s1 = vm_mapping root s" "pt_paths (mem s1) root = pt_paths (mem s) root"
    "unat (free_pages s) = Suc (unat (free_pages s1))" "mem s1 = mem s"
    by (rule tracked_alloc [OF Suc.prems(1) one])
  let ?s2 = "store64 p held s1"
  note w = tracked_write [OF p(4), of p held, simplified]
  have "linked (mem ?s2) ps held"
    unfolding store_simps p(8) using Suc.prems(2,3) p(3) tracked_aligned [OF p(4)] by (intro linked_write) auto
  then have l2: "linked (mem ?s2) (p # ps) p" using p(2) by (simp add: cell64.rd_wr)
  have sub: "set (p # ps) \<subseteq> insert p D" using Suc.prems(3) by auto
  have n2: "unat (free_pages ?s2) = Suc n" using p(7) Suc.prems(4) by simp
  obtain qs held' s' where r: "leave_one_page p ?s2 = Some (Inr (held', s'))" "tracked root (insert p D \<union> set qs) b s'"
    "vm_mapping root s' = vm_mapping root ?s2" "pt_paths (mem s') root = pt_paths (mem ?s2) root" "free_pages s' = 1"
    "linked (mem s') (qs @ p # ps) held'" "distinct qs" "set qs \<inter> insert p D = {}" "length qs = n"
    using Suc.IH [OF w(1) l2 sub n2] by blast
  have step: "leave_one_page held s = Some (Inr (held', s'))"
    using counts(1) [OF trackedD(2) [OF Suc.prems(1)]] more p(1,2) r(1) by (subst leave_one_page.simps) simp
  have D: "insert p D \<union> set qs = D \<union> set (qs @ [p])" by auto
  show ?case
    by (rule exI [of _ "qs @ [p]"], rule exI [of _ held'], rule exI [of _ s'])
      (use step r(2) [unfolded D] r(3-9) w(2,3) p(3,5,6) in auto)
qed

lemma tracked_release:
  assumes "tracked root D b s" and "linked (mem s) ps p" and "set ps \<subseteq> D" and "distinct ps"
  shows "\<exists>s'. release_pages p s = Some (Inr ((), s')) \<and> tracked root (D - set ps) b s' \<and> vm_mapping root s' = vm_mapping root s \<and>
    unat (free_pages s') = unat (free_pages s) + length ps"
  using assms
proof (induction ps arbitrary: p s D)
  case Nil
  then show ?case by (subst release_pages.simps) simp
next
  case (Cons x xs)
  have x: "p = x" "x \<noteq> 0" "linked (mem s) xs (load64 x s)" "x \<in> D" using Cons.prems(2,3) by (simp_all add: load64_def)
  obtain s1 where s1: "page_free x s = Inr ((), s1)" "tracked root (D - {x}) b s1" "vm_mapping root s1 = vm_mapping root s" "mem s1 = mem s"
    "unat (free_pages s1) = Suc (unat (free_pages s))"
    by (rule tracked_free [OF Cons.prems(1) x(4)])
  have sub: "set xs \<subseteq> D - {x}" using Cons.prems(3,4) by auto
  obtain s' where r: "release_pages (load64 x s) s1 = Some (Inr ((), s'))" "tracked root (D - {x} - set xs) b s'"
    "vm_mapping root s' = vm_mapping root s1" "unat (free_pages s') = unat (free_pages s1) + length xs"
    using Cons.IH [OF s1(2) _ sub, of "load64 x s"] x(3) s1(4) Cons.prems(4) by auto
  have "release_pages p s = Some (Inr ((), s'))" using x(1,2) s1(1) r(1) by (subst release_pages.simps) simp
  moreover have "D - {x} - set xs = D - set (x # xs)" by auto
  ultimately show ?case using r(2-4) s1(3,5) by auto
qed

text \<open>A mapping that needs more tables than pages are free.\<close>

lemma tracked_map_full:
  assumes t: "tracked (vm_root sp) D b s" and args: "vm_args_ok va pa flags" and none: "vm_mapping (vm_root sp) s va = None"
    and full: "unat (free_pages s) < vm_missing (vm_root sp) s va"
  obtains s' where "vm_map_page (Some sp) va pa flags s = Inr (VM_ERR_NO_MEMORY, s')" "tracked (vm_root sp) D b s'"
    "vm_mapping (vm_root sp) s' = vm_mapping (vm_root sp) s" "free_pages s' = free_pages s" "agree_on D (mem s) (mem s')"
proof -
  obtain s' where s': "vm_map_page (Some sp) va pa flags s = Inr (VM_ERR_NO_MEMORY, s')" "restored s s'"
    using vm_map_page_spec [OF trackedD(1) [OF t], of va pa flags] args full by auto
  note inv = trackedD(1) [OF t]
  have r: "pages_inv s'" "allocated s' = allocated s" "pool_step s s'" "agree_on (- (managed_frames s - allocated s)) (mem s) (mem s')"
    using s'(2) by (simp_all add: restored_def)
  have "agree_on D (mem s) (mem s')" by (rule agree_on_mono [OF r(4)]) (use t in \<open>auto simp: tracked_def\<close>)
  moreover have "free_pages s' = free_pages s"
    by (rule free_pages_allocated [OF trackedD(2) [OF t] r(1) pool_step_fields(1) [OF r(3)] r(2)])
  ultimately show thesis
    using s'(1) tracked_frame [OF t vm_frame_restored [OF s'(2) inv]] restored_vm(2) [OF s'(2) inv] by (intro that)
qed

section \<open>The parts of the scenario\<close>

lemmas scenario_vas = scenario_va_def sparse_va_a_def sparse_va_b_def failing_va_def

lemma scenario_va_facts:
  assumes "va \<in> {scenario_va, sparse_va_a, sparse_va_b, failing_va}"
  shows "va_is_canonical va" "page_base va = va" "va AND VM_PAGE_OFFSET_MASK = 0"
    "page_aligned pa \<Longrightarrow> vm_args_ok va pa scenario_rw_flags"
  using assms by (auto simp: scenario_vas va_is_canonical_def SV39_TOP_BIT_def page_base_def PAGE_MASK_def PAGE_SIZE_def
      VM_PAGE_OFFSET_MASK_def vm_args_ok_def page_aligned_def flags_are_valid_def vm_flags scenario_rw_flags_def)

lemma scenario_va_paths:
  "va_path scenario_va = [1, 0]" "va_path sparse_va_a = [0, 1]" "va_path sparse_va_b = [128, 0]"
  "vpn_index scenario_va 2 = 1" "vpn_index sparse_va_a 2 = 0" "vpn_index sparse_va_b 2 = 128" "vpn_index failing_va 2 = 192"
  by (simp_all add: va_path_def vpn_index_def SV39_VPN_BITS_def SV39_ENTRIES_PER_TABLE_def scenario_vas)

lemma page_part_ok:
  assumes t: "tracked (vm_root sp) D b s" and none: "vm_mapping (vm_root sp) s = Map.empty"
    and paths: "pt_paths (mem s) (vm_root sp) = {[]}" and pa: "page_aligned pa" and free: "2 \<le> unat (free_pages s)"
  obtains s' where "vm_scenario_page (Some sp) pa s = Inr ((), s')" "tracked (vm_root sp) D b s'"
    "vm_mapping (vm_root sp) s' = Map.empty" "pt_paths (mem s') (vm_root sp) = {[], [1], [1, 0]}"
    "unat (free_pages s) = unat (free_pages s') + 2"
proof -
  let ?va = scenario_va
  note va = scenario_va_facts [of ?va, simplified]
  have m: "vm_missing (vm_root sp) s ?va = 2" by (simp add: vm_missing_paths scenario_va_paths paths)
  obtain s1 where s1: "vm_map_page (Some sp) ?va pa scenario_rw_flags s = Inr (VM_OK, s1)" "tracked (vm_root sp) D b s1"
    "vm_mapping (vm_root sp) s1 = [?va \<mapsto> (pa, scenario_rw_flags)]" "pt_paths (mem s1) (vm_root sp) = {[]} \<union> {[], [1], [1, 0]}"
    "unat (free_pages s) = unat (free_pages s1) + 2"
    by (rule tracked_map [OF t va(4) [OF pa]]) (use free in \<open>simp_all add: m none paths scenario_va_paths\<close>)
  have off: "va_is_canonical (?va + 0x123)" "page_base (?va + 0x123) = ?va" "(?va + 0x123) AND VM_PAGE_OFFSET_MASK = 0x123"
    by (simp_all add: scenario_va_def va_is_canonical_def SV39_TOP_BIT_def page_base_def PAGE_MASK_def PAGE_SIZE_def VM_PAGE_OFFSET_MASK_def)
  have low: "(mask 12 :: u64) AND 0x123 = 0x123" by (simp add: mask_eq_exp_minus_1)
  have "pa AND mask 12 = 0" using pa by (auto simp: page_aligned_bits bit_eq_iff bit_and_iff bit_mask_iff)
  moreover have "pa AND 0x123 = (pa AND mask 12) AND 0x123" by (simp only: and.assoc low)
  ultimately have "pa AND 0x123 = 0 AND 0x123" by (simp only:)
  then have "pa AND 0x123 = 0" by simp
  then have add: "pa OR 0x123 = pa + 0x123" by (rule disjunctive_add_eq_or [symmetric])
  have tr: "vm_translate (Some sp) ?va s1 = Inr (pa, s1)" "vm_translate (Some sp) (?va + 0x123) s1 = Inr (pa + 0x123, s1)"
    using tracked_translate [OF s1(2) va(1)] tracked_translate [OF s1(2) off(1)] s1(3) va(2,3) off(2,3) add by simp_all
  have dup: "vm_map_page (Some sp) ?va pa scenario_rw_flags s1 = Inr (VM_ERR_EXISTS, s1)"
    using vm_map_page_spec [OF trackedD(1) [OF s1(2)], of ?va pa scenario_rw_flags] va(4) [OF pa] s1(3)
      vm_missing_mapped [of "vm_root sp" s1 ?va] by auto
  obtain s2 where s2: "vm_unmap_page (Some sp) ?va s1 = Inr (VM_OK, s2)" "tracked (vm_root sp) D b s2"
    "vm_mapping (vm_root sp) s2 = Map.empty" "free_pages s2 = free_pages s1" "pt_paths (mem s2) (vm_root sp) = {[], [1], [1, 0]}"
    by (rule tracked_unmap [OF s1(2), of ?va]) (use s1(3,4) in auto)
  have un: "vm_translate (Some sp) ?va s2 = Inr (VM_TRANSLATE_INVALID, s2)" using tracked_translate [OF s2(2) va(1)] s2(3) by simp
  have again: "vm_unmap_page (Some sp) ?va s2 = Inr (VM_ERR_NOT_MAPPED, s2)"
    using vm_unmap_page_spec [OF trackedD(1) [OF s2(2)], of ?va] va(1,4) pa s2(3) by (auto simp: vm_args_ok_def)
  have "vm_scenario_page (Some sp) pa s = Inr ((), s2)"
    by (simp add: vm_scenario_page_def must_def s1(1) tr dup s2(1) un again)
  then show thesis by (rule that) (use s2 s1(5) in auto)
qed

lemma sparse_part_ok:
  assumes t: "tracked (vm_root sp) D b s" and none: "vm_mapping (vm_root sp) s = Map.empty"
    and paths: "pt_paths (mem s) (vm_root sp) = {[], [1], [1, 0]}" and free: "7 \<le> unat (free_pages s)"
  obtains a c s' where "vm_scenario_sparse (Some sp) s = Inr ((), s')" "tracked (vm_root sp) (insert c (insert a D)) b s'"
    "vm_mapping (vm_root sp) s' = [sparse_va_a \<mapsto> (a, scenario_rw_flags), sparse_va_b \<mapsto> (c, scenario_rw_flags)]"
    "[192] \<notin> pt_paths (mem s') (vm_root sp)"
    "unat (free_pages s) = unat (free_pages s') + 6"
proof -
  have g: "1 \<le> unat (free_pages s)" using free by simp
  obtain a s1 where s1: "page_alloc s = Inr (a, s1)" "a \<noteq> 0" "page_is_aligned a" "tracked (vm_root sp) (insert a D) b s1"
    "vm_mapping (vm_root sp) s1 = Map.empty" "pt_paths (mem s1) (vm_root sp) = {[], [1], [1, 0]}"
    "unat (free_pages s) = Suc (unat (free_pages s1))"
    by (rule tracked_alloc [OF t g]) (simp add: none paths)
  have g1: "1 \<le> unat (free_pages s1)" using free s1(7) by simp
  obtain c s2 where s2: "page_alloc s1 = Inr (c, s2)" "c \<noteq> 0" "page_is_aligned c" "tracked (vm_root sp) (insert c (insert a D)) b s2"
    "vm_mapping (vm_root sp) s2 = Map.empty" "pt_paths (mem s2) (vm_root sp) = {[], [1], [1, 0]}"
    "unat (free_pages s1) = Suc (unat (free_pages s2))"
    by (rule tracked_alloc [OF s1(4) g1]) (simp add: s1(5,6))
  have al: "page_aligned a" "page_aligned c" using s1(3) s2(3) by (simp_all add: page_is_aligned_def page_aligned_def)
  have m3: "vm_missing (vm_root sp) s2 sparse_va_a = 2" by (simp add: vm_missing_paths scenario_va_paths s2(6))
  note ok = scenario_va_facts(4) [of sparse_va_a, simplified, OF al(1)] scenario_va_facts(4) [of sparse_va_b, simplified, OF al(2)]
  obtain s3 where s3: "vm_map_page (Some sp) sparse_va_a a scenario_rw_flags s2 = Inr (VM_OK, s3)" "tracked (vm_root sp) (insert c (insert a D)) b s3"
    "vm_mapping (vm_root sp) s3 = [sparse_va_a \<mapsto> (a, scenario_rw_flags)]"
    "pt_paths (mem s3) (vm_root sp) = {[], [1], [1, 0]} \<union> {[], [0], [0, 1]}" "unat (free_pages s2) = unat (free_pages s3) + 2"
    by (rule tracked_map [OF s2(4) ok(1)])
      (use free s1(7) s2(5-7) in \<open>simp_all add: m3 scenario_va_paths\<close>)
  have m4: "vm_missing (vm_root sp) s3 sparse_va_b = 2" by (simp add: vm_missing_paths scenario_va_paths s3(4))
  have ne: "sparse_va_b \<noteq> sparse_va_a" "failing_va \<noteq> sparse_va_a" "failing_va \<noteq> sparse_va_b" by (simp_all add: scenario_vas)
  have n4: "vm_mapping (vm_root sp) s3 sparse_va_b = None" using ne by (simp add: s3(3))
  have f4: "vm_missing (vm_root sp) s3 sparse_va_b \<le> unat (free_pages s3)" using free s1(7) s2(7) s3(5) by (simp add: m4)
  obtain s4 where s4: "vm_map_page (Some sp) sparse_va_b c scenario_rw_flags s3 = Inr (VM_OK, s4)" "tracked (vm_root sp) (insert c (insert a D)) b s4"
    "vm_mapping (vm_root sp) s4 = [sparse_va_a \<mapsto> (a, scenario_rw_flags), sparse_va_b \<mapsto> (c, scenario_rw_flags)]"
    "pt_paths (mem s4) (vm_root sp) = {[], [1], [1, 0]} \<union> {[], [0], [0, 1]} \<union> {[], [128], [128, 0]}"
    "unat (free_pages s3) = unat (free_pages s4) + 2"
    by (rule tracked_map [OF s3(2) ok(2) n4 f4]) (simp_all add: m4 s3(3,4) scenario_va_paths)
  note va = scenario_va_facts(1-3) [of sparse_va_a, simplified] scenario_va_facts(1-3) [of sparse_va_b, simplified]
  have tr: "vm_translate (Some sp) sparse_va_a s4 = Inr (a, s4)" "vm_translate (Some sp) sparse_va_b s4 = Inr (c, s4)"
    using tracked_translate [OF s4(2) va(1)] tracked_translate [OF s4(2) va(4)] s4(3) va ne by simp_all
  have "vm_scenario_sparse (Some sp) s = Inr ((), s4)"
    by (simp add: vm_scenario_sparse_def must_def s1(1,2) s2(1,2) s3(1) s4(1) tr)
  then show thesis
    by (rule that [OF _ s4(2,3)]) (use s4 s1(7) s2(7) s3(5) in auto)
qed

lemma exhaust_part_ok:
  assumes t: "tracked (vm_root sp) D b s" and none: "vm_mapping (vm_root sp) s failing_va = None"
    and paths: "[192] \<notin> pt_paths (mem s) (vm_root sp)" and pa: "page_aligned pa" and free: "1 \<le> unat (free_pages s)"
  obtains s' where "vm_scenario_exhaust (Some sp) pa s = Some (Inr ((), s'))" "tracked (vm_root sp) D b s'" "free_pages s' = free_pages s"
    "vm_mapping (vm_root sp) s' = vm_mapping (vm_root sp) s"
proof -
  obtain n where n: "unat (free_pages s) = Suc n" using free by (cases "unat (free_pages s)") auto
  obtain qs held s1 where s1: "leave_one_page 0 s = Some (Inr (held, s1))" "tracked (vm_root sp) (D \<union> set qs) b s1"
    "vm_mapping (vm_root sp) s1 = vm_mapping (vm_root sp) s" "pt_paths (mem s1) (vm_root sp) = pt_paths (mem s) (vm_root sp)"
    "free_pages s1 = 1" "linked (mem s1) qs held" "distinct qs" "set qs \<inter> D = {}" "length qs = n"
    using leave_one_ok [OF t, of "[]" 0 n] n by auto
  have m: "vm_missing (vm_root sp) s1 failing_va = 2" using paths by (simp add: vm_missing_paths scenario_va_paths s1(4))
  have full: "unat (free_pages s1) < vm_missing (vm_root sp) s1 failing_va" by (simp add: m s1(5))
  note va = scenario_va_facts [of failing_va, simplified]
  obtain s2 where s2: "vm_map_page (Some sp) failing_va pa scenario_rw_flags s1 = Inr (VM_ERR_NO_MEMORY, s2)"
    "tracked (vm_root sp) (D \<union> set qs) b s2" "vm_mapping (vm_root sp) s2 = vm_mapping (vm_root sp) s1" "free_pages s2 = free_pages s1"
    "agree_on (D \<union> set qs) (mem s1) (mem s2)"
    by (rule tracked_map_full [OF s1(2) va(4) [OF pa] _ full]) (use none s1(3) in auto)
  have tr: "vm_translate (Some sp) failing_va s2 = Inr (VM_TRANSLATE_INVALID, s2)"
    using tracked_translate [OF s2(2) va(1)] va(2) s2(3) s1(3) none by simp
  have part: "vm_scenario_full (Some sp) pa s1 = Inr ((), s2)"
    by (simp add: vm_scenario_full_def must_def counts(1) [OF trackedD(2) [OF s1(2)]] counts(1) [OF trackedD(2) [OF s2(2)]] s1(5) s2(1,4) tr)
  have l2: "linked (mem s2) qs held"
    by (rule linked_agree [OF s1(6)]) (use s2(5) tracked_aligned [OF s1(2)] in \<open>auto intro: agree_on_mono\<close>)
  obtain s3 where s3: "release_pages held s2 = Some (Inr ((), s3))" "tracked (vm_root sp) (D \<union> set qs - set qs) b s3"
    "vm_mapping (vm_root sp) s3 = vm_mapping (vm_root sp) s2" "unat (free_pages s3) = unat (free_pages s2) + length qs"
    using tracked_release [OF s2(2) l2 _ s1(7)] by auto
  have D: "D \<union> set qs - set qs = D" using s1(8) by auto
  note t3 = s3(2) [unfolded D]
  have n3: "free_pages s3 = free_pages s" using s3(4) s2(4) s1(5,9) n by (simp add: word_unat_eq_iff)
  have "vm_scenario_exhaust (Some sp) pa s = Some (Inr ((), s3))"
    by (simp add: vm_scenario_exhaust_def must_def counts(1) [OF trackedD(2) [OF t]] counts(1) [OF trackedD(2) [OF t3]] s1(1) part s3(1) n3)
  then show thesis by (rule that [OF _ t3 n3]) (simp add: s3(3) s2(3) s1(3))
qed

lemma refused_part_ok:
  assumes "page_aligned pa"
  shows "vm_scenario_refused sp pa s = Inr ((), s)"
proof -
  have "\<not> page_aligned (scenario_va + 1)" "\<not> va_is_canonical 0x8000000000"
    by (simp_all add: scenario_va_def page_aligned_def PAGE_MASK_def PAGE_SIZE_def va_is_canonical_def SV39_TOP_BIT_def)
  moreover have "\<not> page_aligned (pa + 1)"
  proof -
    have "\<not> bit pa 0" using assms by (simp add: page_aligned_bits)
    then have "bit (pa + 1) 0" by (simp add: bit_0)
    then show ?thesis by (auto simp: page_aligned_bits intro: exI [of _ 0])
  qed
  moreover have "\<not> flags_are_valid (VM_PTE_V OR VM_PTE_W)" by (simp add: flags_are_valid_def vm_flags)
  ultimately show ?thesis by (simp add: vm_scenario_refused_def must_def vm_map_page_def)
qed

lemma vm_report_ok:
  assumes inv: "pages_inv s" and less: "free_pages s < n"
  shows "\<exists>c. vm_scenario_report sp n s = Inr ((), s\<lparr>console := c\<rparr>)"
proof -
  define w where "w t s = console_write t s" for t and s :: "'a pages_scheme"
  define h where "h v s = console_write_hex64 v s" for v and s :: "'a pages_scheme"
  have w: "\<exists>c. w t (s\<lparr>console := x\<rparr>) = s\<lparr>console := c\<rparr>" for t x using console_only [of t "s\<lparr>console := x\<rparr>"] by (simp add: w_def)
  have h: "\<exists>c. h v (s\<lparr>console := x\<rparr>) = s\<lparr>console := c\<rparr>" for v x
    using console_hex_only [of v "s\<lparr>console := x\<rparr>"] by (simp add: h_def)
  have "\<exists>c. w '' free_pages='' (h (vm_root (the sp)) (w ''vm: root='' (s\<lparr>console := console s\<rparr>))) = s\<lparr>console := c\<rparr>"
    by (metis w h)
  then obtain c1 where c1: "console_write '' free_pages='' (console_write_hex64 (vm_root (the sp)) (console_write ''vm: root='' s)) =
      s\<lparr>console := c1\<rparr>" by (auto simp: w_def h_def)
  have "\<exists>c. w (''milestone 13: sv39 page table primitives'' @ [CHR 0x0A]) (w [CHR 0x0A] (h (free_pages s) (s\<lparr>console := c1\<rparr>))) =
      s\<lparr>console := c\<rparr>" by (metis w h)
  then obtain c2 where c2: "println ''milestone 13: sv39 page table primitives'' (console_write [CHR 0x0A] (console_write_hex64 (free_pages s)
      (s\<lparr>console := c1\<rparr>))) = s\<lparr>console := c2\<rparr>" by (auto simp: w_def h_def println_def)
  have n: "page_free_count (s\<lparr>console := c1\<rparr>) = Inr (free_pages s, s\<lparr>console := c1\<rparr>)" using counts(1) [of "s\<lparr>console := c1\<rparr>"] inv by simp
  have "vm_scenario_report sp n s = Inr ((), s\<lparr>console := c2\<rparr>)"
    unfolding vm_scenario_report_def must_def counts(1) [OF inv] bindE_Inr prod.case if_P [OF less] Let_def c1 n c2 by (rule refl)
  then show ?thesis by blast
qed

text \<open>
  C27: The self-test of the page tables passes and ends. With eleven pages free, \<open>scenario_vm\<close> makes all its checks
  without a panic: a page is mapped, translated at its base and at an offset, not mapped twice, unmapped and not
  unmapped twice; two addresses far apart are mapped beside each other; after all pages but one have been taken
  and linked through memory, a mapping that needs two tables is refused and the page it took is given
  back; the pages held are released; bad arguments are refused. The address space it leaves has well-formed tables:
  its mappings are exactly the two pages far apart, its tables are apart from the three data pages,
  and these three and the tables, ten pages in all, are exactly what the test has taken. The memory of every page that was in use before is
  unchanged.
\<close>

theorem scenario_vm_passes:
  fixes s :: "'a pages_scheme"
  assumes inv: "pages_inv s" and free: "11 \<le> unat (free_pages s)"
  shows "\<exists>s' root p a b. scenario_vm space s = Some (Inr ((), s')) \<and> pages_inv s' \<and> vm_inv root s' \<and>
    vm_mapping root s' = [sparse_va_a \<mapsto> (a, scenario_rw_flags), sparse_va_b \<mapsto> (b, scenario_rw_flags)] \<and>
    allocated s' = allocated s \<union> pt_tables (mem s') root \<union> {p, a, b} \<and> allocated s \<inter> (pt_tables (mem s') root \<union> {p, a, b}) = {} \<and>
    pt_tables (mem s') root \<inter> {p, a, b} = {} \<and>
    unat (free_pages s) = unat (free_pages s') + 10 \<and> agree_on (- (managed_frames s - allocated s)) (mem s) (mem s')"
proof -
  obtain c where c: "println ''scenario: vm'' s = s\<lparr>console := c\<rparr>"
    using console_only [of "''scenario: vm'' @ [CHR 0x0A]" s] by (auto simp: println_def)
  define b where "b = s\<lparr>console := c\<rparr>"
  have b: "pages_inv b" "allocated b = allocated s" "free_pages b = free_pages s" "mem b = mem s" "managed_frames b = managed_frames s"
    using inv by (simp_all add: b_def managed_frames_def page_addr_from_index_def)
  obtain sp s1 where s1: "vm_space_init (Some space) b = Inr ((VM_OK, Some sp), s1)" "tracked (vm_root sp) {} b s1"
    "vm_mapping (vm_root sp) s1 = Map.empty" "pt_paths (mem s1) (vm_root sp) = {[]}"
    "unat (free_pages b) = Suc (unat (free_pages s1))" "vm_root sp \<noteq> 0" "page_is_aligned (vm_root sp)"
    by (rule tracked_init [OF b(1), of space]) (use free b(3) in simp)
  have g1: "1 \<le> unat (free_pages s1)" using s1(5) b(3) free by simp
  obtain pa s2 where s2: "page_alloc s1 = Inr (pa, s2)" "pa \<noteq> 0" "page_is_aligned pa" "tracked (vm_root sp) {pa} b s2"
    "vm_mapping (vm_root sp) s2 = Map.empty" "pt_paths (mem s2) (vm_root sp) = {[]}" "unat (free_pages s1) = Suc (unat (free_pages s2))"
    by (rule tracked_alloc [OF s1(2) g1]) (simp add: s1(3,4))
  have start: "vm_scenario_start space s = Inr ((free_pages s, Some sp, pa), s2)"
    unfolding vm_scenario_start_def Let_def c b_def [symmetric]
    by (simp add: counts(1) [OF b(1)] b(3) must_def s1(1,6,7) s2(1-3))
  have al: "page_aligned pa" using s2(3) by (simp add: page_is_aligned_def page_aligned_def)
  have g2: "2 \<le> unat (free_pages s2)" using s1(5) s2(7) b(3) free by simp
  obtain s3 where s3: "vm_scenario_page (Some sp) pa s2 = Inr ((), s3)" "tracked (vm_root sp) {pa} b s3"
    "vm_mapping (vm_root sp) s3 = Map.empty" "pt_paths (mem s3) (vm_root sp) = {[], [1], [1, 0]}"
    "unat (free_pages s2) = unat (free_pages s3) + 2"
    by (rule page_part_ok [OF s2(4,5,6) al g2])
  have g3: "7 \<le> unat (free_pages s3)" using s1(5) s2(7) s3(5) b(3) free by simp
  obtain p q s4 where s4: "vm_scenario_sparse (Some sp) s3 = Inr ((), s4)" "tracked (vm_root sp) {q, p, pa} b s4"
    "vm_mapping (vm_root sp) s4 = [sparse_va_a \<mapsto> (p, scenario_rw_flags), sparse_va_b \<mapsto> (q, scenario_rw_flags)]"
    "[192] \<notin> pt_paths (mem s4) (vm_root sp)"
    "unat (free_pages s3) = unat (free_pages s4) + 6"
    by (rule sparse_part_ok [OF s3(2-4) g3])
  have none: "vm_mapping (vm_root sp) s4 failing_va = None" by (simp add: s4(3) scenario_vas)
  have g4: "1 \<le> unat (free_pages s4)" using g3 s4(5) by simp
  obtain s5 where s5: "vm_scenario_exhaust (Some sp) pa s4 = Some (Inr ((), s5))" "tracked (vm_root sp) {q, p, pa} b s5" "free_pages s5 = free_pages s4"
    "vm_mapping (vm_root sp) s5 = vm_mapping (vm_root sp) s4"
    by (rule exhaust_part_ok [OF s4(2) none s4(4) al g4])
  note i5 = trackedD(2) [OF s5(2)]
  have n5: "unat (free_pages s) = unat (free_pages s5) + 10" using s1(5) s2(7) s3(5) s4(5) s5(3) b(3) by simp
  then have less: "free_pages s5 < free_pages s" by (simp add: word_less_nat_alt)
  obtain c' where c': "vm_scenario_report (Some sp) (free_pages s) s5 = Inr ((), s5\<lparr>console := c'\<rparr>)" using vm_report_ok [OF i5 less] by blast
  have "scenario_vm space s = Some (Inr ((), s5\<lparr>console := c'\<rparr>))"
    by (simp add: scenario_vm_def start s3(1) s4(1) s5(1) refused_part_ok [OF al] c')
  moreover have "allocated s5 = allocated s \<union> pt_tables (mem s5) (vm_root sp) \<union> {pa, p, q}"
    "allocated s \<inter> (pt_tables (mem s5) (vm_root sp) \<union> {pa, p, q}) = {}" "pt_tables (mem s5) (vm_root sp) \<inter> {pa, p, q} = {}" "agree_on (- (managed_frames s - allocated s)) (mem s) (mem s5)"
    using s5(2) b by (auto simp: tracked_def)
  moreover have "vm_mapping (vm_root sp) (s5\<lparr>console := c'\<rparr>) = vm_mapping (vm_root sp) s5" by (simp add: vm_mapping_def fun_eq_iff)
  then have "vm_mapping (vm_root sp) (s5\<lparr>console := c'\<rparr>) = [sparse_va_a \<mapsto> (p, scenario_rw_flags), sparse_va_b \<mapsto> (q, scenario_rw_flags)]"
    by (simp only: s5(4) s4(3))
  moreover have "vm_inv (vm_root sp) (s5\<lparr>console := c'\<rparr>)" using trackedD(1) [OF s5(2)] by (simp add: vm_inv_def)
  ultimately show ?thesis using i5 n5
    by (intro exI [of _ "s5\<lparr>console := c'\<rparr>"] exI [of _ "vm_root sp"] exI [of _ pa] exI [of _ p] exI [of _ q]) simp
qed

theorem scenario_vm_passes_witness:
  "\<exists>s'. scenario_vm \<lparr>vm_root = 0\<rparr> demo_eleven = Some (Inr ((), s')) \<and> free_pages s' = 1"
  using scenario_vm_passes [OF demo_eleven(1), of "\<lparr>vm_root = 0\<rparr>"] by (auto simp: demo_eleven word_unat_eq_iff)

end
