(* ===== verification/Device.thy ===== *)
theory Device
  imports Sync
begin

text \<open>
  The device registry, \<^verbatim>\<open>kernel/drivers/device.c\<close>, over the one resource of
  \<^verbatim>\<open>kernel/arch/riscv64/platform.c\<close>: the table of devices, binding them to drivers, finding
  them and handing them their interrupts.
\<close>

section \<open>Data\<close>

definition DEVICE_MAX :: nat where "DEVICE_MAX = 16"
definition IRQ_NONE :: int where "IRQ_NONE = -1"

text \<open>A character pointer that may be null is a string option.\<close>

record device_resource =
  dr_name :: "string option"
  dr_compatible :: "string option"
  dr_mmio_base :: u64
  dr_mmio_size :: u64
  dr_irq :: int

text \<open>
  A device is named by its index in the table, a driver by its index in
  \<open>built_in_drivers\<close>; the drivers are a parameter of this file because they call back into
  the code that uses it. A null function pointer is \<open>None\<close>.
\<close>

record device =
  dv_resource :: "device_resource option"
  dv_driver :: "nat option"

record devs = sync +
  devices :: "nat \<Rightarrow> device"
  device_count :: nat
  devices_initialized :: bool

record 's driver =
  drv_name :: "string option"
  drv_compatible :: "string option"
  drv_probe :: "(nat \<Rightarrow> 's \<Rightarrow> (int \<times> 's) res) option"
  drv_irq_handler :: "(nat \<Rightarrow> 's \<Rightarrow> (unit \<times> 's) res) option"

record driver_probe_result =
  pr_device_count :: nat
  pr_driver_count :: nat
  pr_bound_count :: nat
  pr_failed_count :: nat

section \<open>The platform\<close>

definition ACCEL_DEVICE_NAME :: string where "ACCEL_DEVICE_NAME = ''sim-accel0''"
definition ACCEL_DEVICE_COMPATIBLE :: string where "ACCEL_DEVICE_COMPATIBLE = ''qemu-rtos,sim-accel''"
definition ACCEL_DEVICE_IRQ :: int where "ACCEL_DEVICE_IRQ = 2"
definition ACCEL_MMIO_SIZE :: u64 where "ACCEL_MMIO_SIZE = 0x20"

definition platform_accel_resource :: "'a hw_scheme \<Rightarrow> device_resource" where
  "platform_accel_resource s =
     \<lparr>dr_name = Some ACCEL_DEVICE_NAME, dr_compatible = Some ACCEL_DEVICE_COMPATIBLE,
      dr_mmio_base = accel_mmio_addr (link s), dr_mmio_size = ACCEL_MMIO_SIZE, dr_irq = ACCEL_DEVICE_IRQ\<rparr>"

definition platform_device_resource_count :: nat where
  "platform_device_resource_count = 1"

definition platform_device_resource_at :: "nat \<Rightarrow> 'a hw_scheme \<Rightarrow> device_resource option" where
  "platform_device_resource_at index s = (if index \<noteq> 0 then None else Some (platform_accel_resource s))"

section \<open>Operations\<close>

text \<open>The loop stops at the first difference or at the end of one string.\<close>

fun string_equal_chars :: "string \<Rightarrow> string \<Rightarrow> bool" where
  "string_equal_chars (a # as) (b # bs) = (if a \<noteq> b then False else string_equal_chars as bs)"
| "string_equal_chars as bs = (as = [] \<and> bs = [])"

definition string_equal :: "string option \<Rightarrow> string option \<Rightarrow> bool" where
  "string_equal a b = (case (a, b) of (Some a, Some b) \<Rightarrow> string_equal_chars a b | _ \<Rightarrow> False)"

definition dev_resource :: "nat \<Rightarrow> 'a devs_scheme \<Rightarrow> device_resource" where
  "dev_resource i s = the (dv_resource (devices s i))"

definition device_validate_unique_irqs :: "'a devs_scheme \<Rightarrow> (unit \<times> 'a devs_scheme) res" where
  "device_validate_unique_irqs s =
     (if list_ex (\<lambda>i. let irq = dr_irq (dev_resource i s) in
           irq \<noteq> IRQ_NONE \<and> list_ex (\<lambda>j. dr_irq (dev_resource j s) = irq) [i + 1..<device_count s]) [0..<device_count s]
      then Inl ''duplicate platform irq'' else Inr ((), s))"

definition device_init :: "'a devs_scheme \<Rightarrow> (unit \<times> 'a devs_scheme) res" where
  "device_init s =
     (if devices_initialized s then Inr ((), s)
      else if platform_device_resource_count > DEVICE_MAX then Inl ''too many platform devices''
      else bindE (for_each (\<lambda>i s.
          let s = s\<lparr>devices := (devices s)(i := (devices s i)\<lparr>dv_resource := platform_device_resource_at i s\<rparr>)\<rparr> in
          if dv_resource (devices s i) = None then Inl ''missing platform device resource''
          else Inr ((), s\<lparr>devices := (devices s)(i := (devices s i)\<lparr>dv_driver := None\<rparr>)\<rparr>))
        [0..<platform_device_resource_count] s) (\<lambda>(_, s).
        let s = s\<lparr>device_count := platform_device_resource_count\<rparr> in
        bindE (device_validate_unique_irqs s) (\<lambda>(_, s). Inr ((), s\<lparr>devices_initialized := True\<rparr>))))"

text \<open>The two loops of \<open>driver_probe_all\<close>.\<close>

fun probe_devices ::
  "nat \<Rightarrow> ('a devs_scheme) driver \<Rightarrow> (nat \<Rightarrow> 'a devs_scheme \<Rightarrow> (int \<times> 'a devs_scheme) res) \<Rightarrow> nat list \<Rightarrow>
   driver_probe_result \<Rightarrow> 'a devs_scheme \<Rightarrow> (driver_probe_result \<times> 'a devs_scheme) res"
where
  "probe_devices k drv probe [] result s = Inr (result, s)"
| "probe_devices k drv probe (i # is) result s =
     (if dv_driver (devices s i) \<noteq> None \<or> \<not> string_equal (dr_compatible (dev_resource i s)) (drv_compatible drv)
      then probe_devices k drv probe is result s
      else bindE (probe i s) (\<lambda>(r, s).
        if r = 0
        then probe_devices k drv probe is (result\<lparr>pr_bound_count := pr_bound_count result + 1\<rparr>)
               (s\<lparr>devices := (devices s)(i := (devices s i)\<lparr>dv_driver := Some k\<rparr>)\<rparr>)
        else probe_devices k drv probe is (result\<lparr>pr_failed_count := pr_failed_count result + 1\<rparr>) s))"

fun probe_drivers ::
  "('a devs_scheme) driver option list \<Rightarrow> nat \<Rightarrow> driver_probe_result \<Rightarrow> 'a devs_scheme \<Rightarrow> (driver_probe_result \<times> 'a devs_scheme) res"
where
  "probe_drivers [] k result s = Inr (result, s)"
| "probe_drivers (None # ds) k result s =
     probe_drivers ds (k + 1) (result\<lparr>pr_failed_count := pr_failed_count result + 1\<rparr>) s"
| "probe_drivers (Some drv # ds) k result s =
     (case drv_probe drv of
        None \<Rightarrow> probe_drivers ds (k + 1) (result\<lparr>pr_failed_count := pr_failed_count result + 1\<rparr>) s
      | Some probe \<Rightarrow>
          if drv_compatible drv = None
          then probe_drivers ds (k + 1) (result\<lparr>pr_failed_count := pr_failed_count result + 1\<rparr>) s
          else bindE (probe_devices k drv probe [0..<device_count s] result s) (\<lambda>(result, s).
            probe_drivers ds (k + 1) result s))"

definition driver_probe_all ::
  "('a devs_scheme) driver option list \<Rightarrow> 'a devs_scheme \<Rightarrow> (driver_probe_result \<times> 'a devs_scheme) res"
where
  "driver_probe_all drivers s =
     bindE (device_init s) (\<lambda>(_, s).
       probe_drivers drivers 0 \<lparr>pr_device_count = device_count s, pr_driver_count = length drivers,
         pr_bound_count = 0, pr_failed_count = 0\<rparr> s)"

definition device_find_by_name :: "string option \<Rightarrow> 'a devs_scheme \<Rightarrow> (nat option \<times> 'a devs_scheme) res" where
  "device_find_by_name name s =
     bindE (device_init s) (\<lambda>(_, s).
       Inr (List.find (\<lambda>i. string_equal (dr_name (dev_resource i s)) name) [0..<device_count s], s))"

definition device_find_by_compatible :: "string option \<Rightarrow> 'a devs_scheme \<Rightarrow> (nat option \<times> 'a devs_scheme) res" where
  "device_find_by_compatible compatible s =
     bindE (device_init s) (\<lambda>(_, s).
       Inr (List.find (\<lambda>i. string_equal (dr_compatible (dev_resource i s)) compatible) [0..<device_count s], s))"

definition device_is_bound :: "nat option \<Rightarrow> 'a devs_scheme \<Rightarrow> bool" where
  "device_is_bound dev s = (case dev of None \<Rightarrow> False | Some i \<Rightarrow> dv_driver (devices s i) \<noteq> None)"

definition device_name :: "nat option \<Rightarrow> 'a devs_scheme \<Rightarrow> string option" where
  "device_name dev s = (case dev of None \<Rightarrow> None | Some i \<Rightarrow> dr_name (dev_resource i s))"

definition device_compatible :: "nat option \<Rightarrow> 'a devs_scheme \<Rightarrow> string option" where
  "device_compatible dev s = (case dev of None \<Rightarrow> None | Some i \<Rightarrow> dr_compatible (dev_resource i s))"

definition device_mmio_base :: "nat option \<Rightarrow> 'a devs_scheme \<Rightarrow> u64" where
  "device_mmio_base dev s = (case dev of None \<Rightarrow> 0 | Some i \<Rightarrow> dr_mmio_base (dev_resource i s))"

definition device_mmio_size :: "nat option \<Rightarrow> 'a devs_scheme \<Rightarrow> u64" where
  "device_mmio_size dev s = (case dev of None \<Rightarrow> 0 | Some i \<Rightarrow> dr_mmio_size (dev_resource i s))"

definition device_irq :: "nat option \<Rightarrow> 'a devs_scheme \<Rightarrow> int" where
  "device_irq dev s = (case dev of None \<Rightarrow> IRQ_NONE | Some i \<Rightarrow> dr_irq (dev_resource i s))"

definition device_driver :: "nat option \<Rightarrow> 'a devs_scheme \<Rightarrow> nat option" where
  "device_driver dev s = (case dev of None \<Rightarrow> None | Some i \<Rightarrow> dv_driver (devices s i))"

definition irq_handler_of :: "('a devs_scheme) driver option list \<Rightarrow> nat \<Rightarrow> 'a devs_scheme \<Rightarrow>
  (nat \<Rightarrow> 'a devs_scheme \<Rightarrow> (unit \<times> 'a devs_scheme) res) option"
where
  "irq_handler_of drivers i s =
     (case dv_driver (devices s i) of
        None \<Rightarrow> None
      | Some k \<Rightarrow> case drivers ! k of None \<Rightarrow> None | Some drv \<Rightarrow> drv_irq_handler drv)"

definition device_dispatch_irq ::
  "('a devs_scheme) driver option list \<Rightarrow> int \<Rightarrow> 'a devs_scheme \<Rightarrow> (int \<times> 'a devs_scheme) res"
where
  "device_dispatch_irq drivers irq s =
     (if irq = IRQ_NONE then Inr (0, s)
      else bindE (device_init s) (\<lambda>(_, s).
        case List.find (\<lambda>i. dr_irq (dev_resource i s) = irq \<and> irq_handler_of drivers i s \<noteq> None) [0..<device_count s] of
          None \<Rightarrow> Inr (0, s)
        | Some i \<Rightarrow> bindE (the (irq_handler_of drivers i s) i s) (\<lambda>(_, s). Inr (1, s))))"

section \<open>Finding devices\<close>

lemma string_equal_chars_iff: "string_equal_chars a b \<longleftrightarrow> a = b"
  by (induction a b rule: string_equal_chars.induct) auto

lemma string_equal_iff: "string_equal a b \<longleftrightarrow> a \<noteq> None \<and> a = b"
  by (auto simp: string_equal_def string_equal_chars_iff split: option.splits)

text \<open>What initialisation leaves: one device, the accelerator, with the driver it was bound to.\<close>

definition devices_ok :: "'a devs_scheme \<Rightarrow> bool" where
  "devices_ok s \<longleftrightarrow> devices_initialized s \<and> device_count s = 1 \<and> dv_resource (devices s 0) = Some (platform_accel_resource s)"

lemma device_init_ready: "devices_initialized s \<Longrightarrow> device_init s = Inr ((), s)"
  by (simp add: device_init_def)

lemma device_init_first:
  assumes "\<not> devices_initialized s"
  shows "device_init s = Inr ((), s\<lparr>devices := (devices s)(0 := \<lparr>dv_resource = Some (platform_accel_resource s), dv_driver = None\<rparr>),
    device_count := 1, devices_initialized := True\<rparr>)"
proof -
  define d where "d = \<lparr>dv_resource = Some (platform_accel_resource s), dv_driver = None\<rparr>"
  let ?s1 = "s\<lparr>devices := (devices s)(0 := d)\<rparr>"
  have e: "x\<lparr>dv_resource := y, dv_driver := z\<rparr> = \<lparr>dv_resource = y, dv_driver = z\<rparr>" for x :: device and y z
    by (cases x) simp
  have l: "[0..<platform_device_resource_count] = [0]" by (simp add: platform_device_resource_count_def)
  have r: "platform_device_resource_at 0 s = Some (platform_accel_resource s)" by (simp add: platform_device_resource_at_def)
  have b: "\<not> DEVICE_MAX < platform_device_resource_count" by (simp add: platform_device_resource_count_def DEVICE_MAX_def)
  have loop: "for_each (\<lambda>i s. let s = s\<lparr>devices := (devices s)(i := (devices s i)\<lparr>dv_resource := platform_device_resource_at i s\<rparr>)\<rparr> in
      if dv_resource (devices s i) = None then Inl ''missing platform device resource''
      else Inr ((), s\<lparr>devices := (devices s)(i := (devices s i)\<lparr>dv_driver := None\<rparr>)\<rparr>)) [0] s = Inr ((), ?s1)"
    by (simp add: Let_def r d_def e)
  have v: "device_validate_unique_irqs (?s1\<lparr>device_count := platform_device_resource_count\<rparr>) =
      Inr ((), ?s1\<lparr>device_count := platform_device_resource_count\<rparr>)"
    by (simp add: device_validate_unique_irqs_def platform_device_resource_count_def)
  have "device_init s = Inr ((), (?s1\<lparr>device_count := platform_device_resource_count\<rparr>)\<lparr>devices_initialized := True\<rparr>)"
    unfolding device_init_def if_not_P [OF assms] if_not_P [OF b] l Let_def loop [unfolded Let_def] bindE_Inr prod.case v by (rule refl)
  then show ?thesis by (simp add: d_def platform_device_resource_count_def)
qed

lemma device_find_accel:
  assumes "devices_ok s"
  shows "device_find_by_compatible (Some ACCEL_DEVICE_COMPATIBLE) s = Inr (Some 0, s)"
  using assms by (simp add: device_find_by_compatible_def device_init_ready devices_ok_def dev_resource_def
      platform_accel_resource_def string_equal_iff)

end
