(* ===== verification/Accel_Platform.thy ===== *)
theory Accel_Platform
  imports Device
begin

text \<open>
  The simulated accelerator, \<^verbatim>\<open>kernel/arch/riscv64/accel_platform.c\<close>: a register block in
  memory, and the step that performs what the registers ask for.
\<close>

section \<open>Registers and descriptors\<close>

definition ACCEL_DEVICE_ID_VALUE :: u32 where "ACCEL_DEVICE_ID_VALUE = 0xacc35001"
definition ACCEL_REG_ID :: u64 where "ACCEL_REG_ID = 0x00"
definition ACCEL_REG_STATUS :: u64 where "ACCEL_REG_STATUS = 0x04"
definition ACCEL_REG_CONTROL :: u64 where "ACCEL_REG_CONTROL = 0x08"
definition ACCEL_REG_IRQ_STATUS :: u64 where "ACCEL_REG_IRQ_STATUS = 0x0c"
definition ACCEL_REG_IRQ_ACK :: u64 where "ACCEL_REG_IRQ_ACK = 0x10"
definition ACCEL_REG_CMD_BASE :: u64 where "ACCEL_REG_CMD_BASE = 0x18"
definition ACCEL_STATUS_IDLE :: u32 where "ACCEL_STATUS_IDLE = 1"
definition ACCEL_STATUS_BUSY :: u32 where "ACCEL_STATUS_BUSY = 2"
definition ACCEL_STATUS_DONE :: u32 where "ACCEL_STATUS_DONE = 4"
definition ACCEL_STATUS_ERROR :: u32 where "ACCEL_STATUS_ERROR = 8"
definition ACCEL_CONTROL_START :: u32 where "ACCEL_CONTROL_START = 1"
definition ACCEL_CONTROL_RESET :: u32 where "ACCEL_CONTROL_RESET = 2"
definition ACCEL_IRQ_DONE :: u32 where "ACCEL_IRQ_DONE = 1"
definition ACCEL_IRQ_ERROR :: u32 where "ACCEL_IRQ_ERROR = 2"

definition ACCEL_CMD_OP_MEMSET :: u32 where "ACCEL_CMD_OP_MEMSET = 1"
definition ACCEL_CMD_STATUS_PENDING :: u32 where "ACCEL_CMD_STATUS_PENDING = 0"
definition ACCEL_CMD_STATUS_OK :: u32 where "ACCEL_CMD_STATUS_OK = 1"
definition ACCEL_CMD_STATUS_INVALID :: u32 where "ACCEL_CMD_STATUS_INVALID = 2"
definition ACCEL_CMD_STATUS_ERROR :: u32 where "ACCEL_CMD_STATUS_ERROR = 3"
definition ACCEL_CMD_STATUS_REJECTED :: u32 where "ACCEL_CMD_STATUS_REJECTED = 4"
definition ACCEL_CMD_STATUS_TIMEOUT :: u32 where "ACCEL_CMD_STATUS_TIMEOUT = 5"
definition ACCEL_CMD_ALIGNMENT :: u64 where "ACCEL_CMD_ALIGNMENT = 8"

lemmas accel_regs = ACCEL_REG_ID_def ACCEL_REG_STATUS_def ACCEL_REG_CONTROL_def ACCEL_REG_IRQ_STATUS_def
  ACCEL_REG_IRQ_ACK_def ACCEL_REG_CMD_BASE_def
lemmas accel_bits = ACCEL_STATUS_IDLE_def ACCEL_STATUS_BUSY_def ACCEL_STATUS_DONE_def ACCEL_STATUS_ERROR_def
  ACCEL_CONTROL_START_def ACCEL_CONTROL_RESET_def ACCEL_IRQ_DONE_def ACCEL_IRQ_ERROR_def
lemmas accel_cmd_codes = ACCEL_CMD_OP_MEMSET_def ACCEL_CMD_STATUS_PENDING_def ACCEL_CMD_STATUS_OK_def
  ACCEL_CMD_STATUS_INVALID_def ACCEL_CMD_STATUS_ERROR_def ACCEL_CMD_STATUS_REJECTED_def ACCEL_CMD_STATUS_TIMEOUT_def

text \<open>Offsets of the fields of \<open>accel_cmd_t\<close>, and its size.\<close>

definition CMD_OP :: u64 where "CMD_OP = 0"
definition CMD_FLAGS :: u64 where "CMD_FLAGS = 4"
definition CMD_DST_PA :: u64 where "CMD_DST_PA = 8"
definition CMD_LEN :: u64 where "CMD_LEN = 16"
definition CMD_VALUE :: u64 where "CMD_VALUE = 20"
definition CMD_STATUS :: u64 where "CMD_STATUS = 24"
definition CMD_RESERVED :: u64 where "CMD_RESERVED = 28"
definition CMD_SIZEOF :: u64 where "CMD_SIZEOF = 32"

lemmas cmd_offsets = CMD_OP_def CMD_FLAGS_def CMD_DST_PA_def CMD_LEN_def CMD_VALUE_def CMD_STATUS_def CMD_RESERVED_def
  CMD_SIZEOF_def

definition load32 :: "u64 \<Rightarrow> 'a hw_scheme \<Rightarrow> u32" where
  "load32 a s = read32 (mem s) a"

definition store32 :: "u64 \<Rightarrow> u32 \<Rightarrow> 'a hw_scheme \<Rightarrow> 'a hw_scheme" where
  "store32 a v s = s\<lparr>mem := write32 (mem s) a v\<rparr>"

text \<open>
  The device's registers are the fields of the variable \<open>accel_mmio\<close>; the device reads and
  writes them by name and the driver through its MMIO base address. Both are the same memory.
\<close>

definition mmio_get :: "u64 \<Rightarrow> 'a hw_scheme \<Rightarrow> u32" where
  "mmio_get reg s = load32 (accel_mmio_addr (link s) + reg) s"

definition mmio_set :: "u64 \<Rightarrow> u32 \<Rightarrow> 'a hw_scheme \<Rightarrow> 'a hw_scheme" where
  "mmio_set reg v s = store32 (accel_mmio_addr (link s) + reg) v s"

section \<open>The device\<close>

definition accel_enter_error :: "'a hw_scheme \<Rightarrow> 'a hw_scheme" where
  "accel_enter_error s =
     (let s = mmio_set ACCEL_REG_STATUS ACCEL_STATUS_ERROR s in mmio_set ACCEL_REG_IRQ_STATUS ACCEL_IRQ_ERROR s)"

definition accel_reset_state :: "'a hw_scheme \<Rightarrow> 'a hw_scheme" where
  "accel_reset_state s =
     (let s = mmio_set ACCEL_REG_STATUS ACCEL_STATUS_IDLE s;
          s = mmio_set ACCEL_REG_IRQ_STATUS 0 s;
          s = mmio_set ACCEL_REG_IRQ_ACK 0 s
      in store64 (accel_mmio_addr (link s) + ACCEL_REG_CMD_BASE) 0 s)"

definition accel_descriptor_location_is_valid :: "u64 \<Rightarrow> 'a pages_scheme \<Rightarrow> bool" where
  "accel_descriptor_location_is_valid addr s \<longleftrightarrow>
     addr \<noteq> 0 \<and> addr AND (ACCEL_CMD_ALIGNMENT - 1) = 0 \<and> page_range_is_managed_page_contained addr CMD_SIZEOF s"

definition accel_descriptor_payload_is_valid :: "u64 \<Rightarrow> 'a pages_scheme \<Rightarrow> bool" where
  "accel_descriptor_payload_is_valid cmd s \<longleftrightarrow>
     (if load32 (cmd + CMD_OP) s \<noteq> ACCEL_CMD_OP_MEMSET \<or> load32 (cmd + CMD_FLAGS) s \<noteq> 0 \<or>
         load32 (cmd + CMD_RESERVED) s \<noteq> 0 \<or> load32 (cmd + CMD_STATUS) s \<noteq> ACCEL_CMD_STATUS_PENDING \<or>
         load32 (cmd + CMD_LEN) s = 0
      then False
      else page_range_is_managed_page_contained (load64 (cmd + CMD_DST_PA) s) (ucast (load32 (cmd + CMD_LEN) s)) s)"

text \<open>
  The device's loop reads the length from the descriptor before every byte, so a destination
  that covers the descriptor changes the bound of the loop while it runs. The counter has 32 bits and
  is below a 32-bit bound, so it does not wrap around and the loop ends.
\<close>

function accel_memset_loop :: "u64 \<Rightarrow> u64 \<Rightarrow> u8 \<Rightarrow> u32 \<Rightarrow> memory \<Rightarrow> memory" where
  "accel_memset_loop cmd dst value i m =
     (if i < read32 m (cmd + CMD_LEN) then accel_memset_loop cmd dst value (i + 1) (m(dst + ucast i := value)) else m)"
  by pat_completeness auto
termination
proof (relation "measure (\<lambda>(cmd, dst, value, i, m). 2 ^ 32 - unat i)", goal_cases)
  case (2 cmd dst v i m)
  then have i: "unat i < 4294967295" using unsigned_less [of "read32 m (cmd + CMD_LEN)", where 'a = nat]
    by (simp add: word_less_nat_alt)
  then have "unat (i + 1) = unat i + 1" by (simp add: unat_word_ariths)
  then show ?case using i by simp
qed simp

definition accel_execute_memset :: "u64 \<Rightarrow> 'a hw_scheme \<Rightarrow> 'a hw_scheme" where
  "accel_execute_memset cmd s =
     (let dst = load64 (cmd + CMD_DST_PA) s;
          value = ucast (load32 (cmd + CMD_VALUE) s);
          s = s\<lparr>mem := accel_memset_loop cmd dst value 0 (mem s)\<rparr>;
          s = store32 (cmd + CMD_STATUS) ACCEL_CMD_STATUS_OK s;
          s = mmio_set ACCEL_REG_STATUS ACCEL_STATUS_DONE s
      in mmio_set ACCEL_REG_IRQ_STATUS ACCEL_IRQ_DONE s)"

definition accel_start_descriptor :: "u64 \<Rightarrow> 'a pages_scheme \<Rightarrow> 'a pages_scheme" where
  "accel_start_descriptor cmd s =
     (if \<not> accel_descriptor_location_is_valid cmd s then accel_enter_error s
      else if load32 (cmd + CMD_STATUS) s = ACCEL_CMD_STATUS_TIMEOUT then accel_enter_error s
      else if \<not> accel_descriptor_payload_is_valid cmd s
      then accel_enter_error (store32 (cmd + CMD_STATUS) ACCEL_CMD_STATUS_INVALID s)
      else accel_execute_memset cmd s)"

definition accel_start :: "'a pages_scheme \<Rightarrow> 'a pages_scheme" where
  "accel_start s =
     (if mmio_get ACCEL_REG_STATUS s \<noteq> ACCEL_STATUS_IDLE then accel_enter_error s
      else let s = mmio_set ACCEL_REG_STATUS ACCEL_STATUS_BUSY s;
               cmd_base = load64 (accel_mmio_addr (link s) + ACCEL_REG_CMD_BASE) s in
        if cmd_base = 0
        then let s = mmio_set ACCEL_REG_STATUS ACCEL_STATUS_DONE s in mmio_set ACCEL_REG_IRQ_STATUS ACCEL_IRQ_DONE s
        else accel_start_descriptor cmd_base s)"

definition platform_accel_irq_pending :: "'a hw_scheme \<Rightarrow> bool" where
  "platform_accel_irq_pending s \<longleftrightarrow> mmio_get ACCEL_REG_IRQ_STATUS s \<noteq> 0"

definition platform_accel_step :: "'a pages_scheme \<Rightarrow> 'a pages_scheme" where
  "platform_accel_step s =
     (let control = mmio_get ACCEL_REG_CONTROL s;
          irq_ack = mmio_get ACCEL_REG_IRQ_ACK s;
          s = mmio_set ACCEL_REG_CONTROL 0 s;
          s = mmio_set ACCEL_REG_IRQ_ACK 0 s in
      if control AND ACCEL_CONTROL_RESET \<noteq> 0 then accel_reset_state s
      else let s = (if control AND ACCEL_CONTROL_START \<noteq> 0 then accel_start s else s)
           in mmio_set ACCEL_REG_IRQ_STATUS (mmio_get ACCEL_REG_IRQ_STATUS s AND NOT irq_ack) s)"

definition platform_dispatch_pending_irqs ::
  "('a devs_scheme) driver option list \<Rightarrow> 'a devs_scheme \<Rightarrow> (unit \<times> 'a devs_scheme) res"
where
  "platform_dispatch_pending_irqs drivers s =
     (if platform_accel_irq_pending s
      then bindE (device_dispatch_irq drivers ACCEL_DEVICE_IRQ s) (\<lambda>(r, s).
        if r = 0 then Inl ''unhandled simulated platform irq'' else Inr ((), s))
      else Inr ((), s))"

end
