(* ===== verification/Accel.thy ===== *)
theory Accel
  imports Accel_Platform
begin

text \<open>
  The accelerator driver, \<^verbatim>\<open>kernel/drivers/accel.c\<close>: one request at a time, submitted by a thread
  that waits for its completion or gives up after a timeout, and the interrupt handler that completes it.
\<close>

section \<open>State and operations\<close>

definition ACCEL_OK :: int where "ACCEL_OK = 0"
definition ACCEL_ERR_NO_DEVICE :: int where "ACCEL_ERR_NO_DEVICE = -1"
definition ACCEL_ERR_INVALID :: int where "ACCEL_ERR_INVALID = -2"
definition ACCEL_ERR_BUSY :: int where "ACCEL_ERR_BUSY = -3"
definition ACCEL_ERR_IO :: int where "ACCEL_ERR_IO = -4"
definition ACCEL_ERR_TIMEOUT :: int where "ACCEL_ERR_TIMEOUT = -5"

lemmas accel_errors = ACCEL_OK_def ACCEL_ERR_NO_DEVICE_def ACCEL_ERR_INVALID_def ACCEL_ERR_BUSY_def ACCEL_ERR_IO_def
  ACCEL_ERR_TIMEOUT_def

text \<open>The request; its wait queue is at \<open>accel_waiters_addr\<close>.\<close>

record accel = devs +
  ar_cmd :: u64
  ar_in_use :: bool
  ar_completed :: bool
  ar_result :: int
  ar_reset_required :: bool
  ar_submitter :: tid_t

definition accel_device :: "'a devs_scheme \<Rightarrow> (nat option \<times> 'a devs_scheme) res" where
  "accel_device s =
     bindE (device_find_by_compatible (Some ACCEL_DEVICE_COMPATIBLE) s) (\<lambda>(dev, s).
       if dev = None \<or> \<not> device_is_bound dev s then Inr (None, s) else Inr (dev, s))"

definition accel_probe :: "nat \<Rightarrow> 'a accel_scheme \<Rightarrow> (int \<times> 'a accel_scheme) res" where
  "accel_probe dev s =
     (if load32 (device_mmio_base (Some dev) s + ACCEL_REG_ID) s \<noteq> ACCEL_DEVICE_ID_VALUE then Inr (-1, s)
      else bindE (wait_queue_init (accel_waiters_addr (link s)) (Some ''accel-request'') s) (\<lambda>(_, s).
        Inr (0, s\<lparr>ar_cmd := 0, ar_in_use := False, ar_completed := False, ar_result := ACCEL_ERR_IO,
                  ar_reset_required := False, ar_submitter := THREAD_INVALID_TID\<rparr>)))"

definition accel_irq_handler :: "nat \<Rightarrow> 'a accel_scheme \<Rightarrow> (unit \<times> 'a accel_scheme) res" where
  "accel_irq_handler dev s =
     (let base = device_mmio_base (Some dev) s;
          irq_status = load32 (base + ACCEL_REG_IRQ_STATUS) s;
          known_irq = irq_status AND (ACCEL_IRQ_DONE OR ACCEL_IRQ_ERROR) in
      if known_irq = 0 then Inr ((), s)
      else let (irq_state, s) = irq_save s in
      if \<not> ar_in_use s \<or> ar_cmd s = 0
      then let s = store32 (base + ACCEL_REG_IRQ_ACK) known_irq s;
               s = platform_accel_step s
           in Inr ((), irq_restore irq_state s)
      else
      let status = load32 (base + ACCEL_REG_STATUS) s;
          s = (if irq_status AND ACCEL_IRQ_DONE \<noteq> 0 \<and> status = ACCEL_STATUS_DONE \<and>
                  load32 (ar_cmd s + CMD_STATUS) s = ACCEL_CMD_STATUS_OK
               then s\<lparr>ar_result := ACCEL_OK\<rparr> else s\<lparr>ar_result := ACCEL_ERR_IO\<rparr>);
          s = s\<lparr>ar_completed := True\<rparr>;
          s = trace_emit TRACE_ACCEL_COMPLETE (ar_submitter s) (thread_current_tid s) (sext64 (ar_result s))
                (ucast (load32 (ar_cmd s + CMD_STATUS) s)) s;
          s = store32 (base + ACCEL_REG_IRQ_ACK) known_irq s;
          s = platform_accel_step s
      in bindE (wait_queue_wake_all (accel_waiters_addr (link s)) s) (\<lambda>(_, s). Inr ((), irq_restore irq_state s)))"

definition accel_driver :: "('a accel_scheme) driver" where
  "accel_driver = \<lparr>drv_name = Some ''sim-accel'', drv_compatible = Some ACCEL_DEVICE_COMPATIBLE,
     drv_probe = Some accel_probe, drv_irq_handler = Some accel_irq_handler\<rparr>"

definition built_in_drivers :: "('a accel_scheme) driver option list" where
  "built_in_drivers = [Some accel_driver]"

definition accel_cmd_pointer_is_safe :: "u64 \<Rightarrow> 'a pages_scheme \<Rightarrow> bool" where
  "accel_cmd_pointer_is_safe cmd s \<longleftrightarrow>
     cmd \<noteq> 0 \<and> cmd AND (ACCEL_CMD_ALIGNMENT - 1) = 0 \<and> page_range_is_managed_page_contained cmd CMD_SIZEOF s"

definition accel_cmd_payload_is_valid :: "u64 \<Rightarrow> 'a pages_scheme \<Rightarrow> bool" where
  "accel_cmd_payload_is_valid cmd s \<longleftrightarrow>
     (if load32 (cmd + CMD_OP) s \<noteq> ACCEL_CMD_OP_MEMSET \<or> load32 (cmd + CMD_FLAGS) s \<noteq> 0 \<or>
         load32 (cmd + CMD_RESERVED) s \<noteq> 0 \<or> load32 (cmd + CMD_LEN) s = 0
      then False
      else page_range_is_managed_page_contained (load64 (cmd + CMD_DST_PA) s) (ucast (load32 (cmd + CMD_LEN) s)) s)"

definition accel_device_is_ready :: "nat option \<Rightarrow> 'a devs_scheme \<Rightarrow> bool" where
  "accel_device_is_ready dev s \<longleftrightarrow>
     (let base = device_mmio_base dev s in
      load32 (base + ACCEL_REG_STATUS) s = ACCEL_STATUS_IDLE \<and> load32 (base + ACCEL_REG_IRQ_STATUS) s = 0)"

definition accel_get_status :: "bool \<Rightarrow> 'a accel_scheme \<Rightarrow> ((int \<times> u32) \<times> 'a accel_scheme) res" where
  "accel_get_status outs s =
     (if \<not> outs then Inr ((ACCEL_ERR_INVALID, 0), s)
      else bindE (accel_device s) (\<lambda>(dev, s).
        if dev = None then Inr ((ACCEL_ERR_NO_DEVICE, 0), s)
        else Inr ((ACCEL_OK, load32 (device_mmio_base dev s + ACCEL_REG_STATUS) s), s)))"

definition accel_get_irq_status :: "bool \<Rightarrow> 'a accel_scheme \<Rightarrow> ((int \<times> u32) \<times> 'a accel_scheme) res" where
  "accel_get_irq_status outs s =
     (if \<not> outs then Inr ((ACCEL_ERR_INVALID, 0), s)
      else bindE (accel_device s) (\<lambda>(dev, s).
        if dev = None then Inr ((ACCEL_ERR_NO_DEVICE, 0), s)
        else Inr ((ACCEL_OK, load32 (device_mmio_base dev s + ACCEL_REG_IRQ_STATUS) s), s)))"

definition accel_ack_irq :: "u32 \<Rightarrow> 'a accel_scheme \<Rightarrow> (int \<times> 'a accel_scheme) res" where
  "accel_ack_irq bits s =
     (if bits AND NOT (ACCEL_IRQ_DONE OR ACCEL_IRQ_ERROR) \<noteq> 0 then Inr (ACCEL_ERR_INVALID, s)
      else bindE (accel_device s) (\<lambda>(dev, s).
        if dev = None then Inr (ACCEL_ERR_NO_DEVICE, s)
        else let (irq_state, s) = irq_save s in
          if ar_in_use s \<or> ar_reset_required s then Inr (ACCEL_ERR_BUSY, irq_restore irq_state s)
          else let s = store32 (device_mmio_base dev s + ACCEL_REG_IRQ_ACK) bits s;
                   s = platform_accel_step s
               in Inr (ACCEL_OK, irq_restore irq_state s)))"

definition accel_write_control_raw :: "u32 \<Rightarrow> 'a accel_scheme \<Rightarrow> (int \<times> 'a accel_scheme) res" where
  "accel_write_control_raw control s =
     (if control AND NOT (ACCEL_CONTROL_START OR ACCEL_CONTROL_RESET) \<noteq> 0 then Inr (ACCEL_ERR_INVALID, s)
      else bindE (accel_device s) (\<lambda>(dev, s).
        if dev = None then Inr (ACCEL_ERR_NO_DEVICE, s)
        else let (irq_state, s) = irq_save s in
          if ar_in_use s then Inr (ACCEL_ERR_BUSY, irq_restore irq_state s)
          else if ar_reset_required s \<and> control AND ACCEL_CONTROL_RESET = 0
          then Inr (ACCEL_ERR_BUSY, irq_restore irq_state s)
          else let s = store32 (device_mmio_base dev s + ACCEL_REG_CONTROL) control s;
                   s = platform_accel_step s;
                   s = (if control AND ACCEL_CONTROL_RESET \<noteq> 0
                        then trace_emit TRACE_ACCEL_RESET (thread_current_tid s) THREAD_INVALID_TID (ucast control)
                               (sext64 ACCEL_OK) (s\<lparr>ar_reset_required := False\<rparr>)
                        else s)
               in Inr (ACCEL_OK, irq_restore irq_state s)))"

definition accel_reset :: "'a accel_scheme \<Rightarrow> (int \<times> 'a accel_scheme) res" where
  "accel_reset s = accel_write_control_raw ACCEL_CONTROL_RESET s"

definition accel_start_selftest :: "'a accel_scheme \<Rightarrow> (int \<times> 'a accel_scheme) res" where
  "accel_start_selftest s = accel_write_control_raw ACCEL_CONTROL_START s"

section \<open>Submission\<close>

text \<open>
  The waiting loop gives up the processor: the call is a function that ends where it waits, and
  \<open>accel_submit_resume\<close> is the rest, run when the thread is woken with the result of the wait.
  \<open>accel_submit_end\<close> is the code after the loop.
\<close>

definition accel_submit_end :: "int \<Rightarrow> u64 \<Rightarrow> 'a accel_scheme \<Rightarrow> (int outcome \<times> 'a accel_scheme) res" where
  "accel_submit_end result irq_state s =
     (let result = (if ar_completed s then ar_result s else result);
          s = s\<lparr>ar_cmd := 0, ar_in_use := False, ar_completed := False, ar_result := ACCEL_ERR_IO,
                 ar_submitter := THREAD_INVALID_TID\<rparr>
      in Inr (Done result, irq_restore irq_state s))"

definition accel_submit_timed_out :: "u64 \<Rightarrow> u64 \<Rightarrow> u64 \<Rightarrow> 'a accel_scheme \<Rightarrow> (int outcome \<times> 'a accel_scheme) res" where
  "accel_submit_timed_out cmd n irq_state s =
     (let s = store32 (cmd + CMD_STATUS) ACCEL_CMD_STATUS_TIMEOUT s;
          s = s\<lparr>ar_reset_required := True\<rparr>;
          s = trace_emit TRACE_ACCEL_TIMEOUT (ar_submitter s) THREAD_INVALID_TID n (ucast (load32 (cmd + CMD_STATUS) s)) s
      in accel_submit_end ACCEL_ERR_TIMEOUT irq_state s)"

definition accel_submit_wait :: "u64 \<Rightarrow> u64 \<Rightarrow> u64 \<Rightarrow> 'a accel_scheme \<Rightarrow> (int outcome \<times> 'a accel_scheme) res" where
  "accel_submit_wait cmd n irq_state s =
     (if ar_completed s then accel_submit_end ACCEL_ERR_IO irq_state s
      else if n = 0xffffffffffffffff
      then bindE (wait_queue_sleep (accel_waiters_addr (link s)) s) (\<lambda>req.
        case req of Some r \<Rightarrow> Inr (Blocks r irq_state, s) | None \<Rightarrow> Inr (Spins, s))
      else bindE (wait_queue_sleep_timeout (accel_waiters_addr (link s)) n s) (\<lambda>r.
        case r of
          Inr req \<Rightarrow> Inr (Blocks req irq_state, s)
        | Inl result \<Rightarrow> if result = WAIT_TIMEOUT then accel_submit_timed_out cmd n irq_state s else Inr (Spins, s)))"

definition accel_submit_resume :: "u64 \<Rightarrow> u64 \<Rightarrow> u64 \<Rightarrow> int \<Rightarrow> 'a accel_scheme \<Rightarrow> (int outcome \<times> 'a accel_scheme) res" where
  "accel_submit_resume cmd n irq_state result s =
     (if n \<noteq> 0xffffffffffffffff \<and> result = WAIT_TIMEOUT then accel_submit_timed_out cmd n irq_state s
      else accel_submit_wait cmd n irq_state s)"

definition accel_submit_sync_timeout :: "u64 \<Rightarrow> u64 \<Rightarrow> 'a accel_scheme \<Rightarrow> (int outcome \<times> 'a accel_scheme) res" where
  "accel_submit_sync_timeout cmd n s =
     (if \<not> accel_cmd_pointer_is_safe cmd s then Inr (Done ACCEL_ERR_INVALID, s)
      else if n = 0 then Inr (Done ACCEL_ERR_TIMEOUT, store32 (cmd + CMD_STATUS) ACCEL_CMD_STATUS_TIMEOUT s)
      else bindE (accel_device s) (\<lambda>(dev, s).
      if dev = None then Inr (Done ACCEL_ERR_NO_DEVICE, s)
      else if \<not> accel_cmd_payload_is_valid cmd s
      then Inr (Done ACCEL_ERR_INVALID, store32 (cmd + CMD_STATUS) ACCEL_CMD_STATUS_INVALID s)
      else
      let base = device_mmio_base dev s;
          (irq_state, s) = irq_save s in
      if ar_in_use s
      then Inr (Done ACCEL_ERR_BUSY, irq_restore irq_state (store32 (cmd + CMD_STATUS) ACCEL_CMD_STATUS_REJECTED s))
      else if ar_reset_required s \<or> \<not> accel_device_is_ready dev s
      then Inr (Done ACCEL_ERR_BUSY, irq_restore irq_state (store32 (cmd + CMD_STATUS) ACCEL_CMD_STATUS_REJECTED s))
      else
      let s = s\<lparr>ar_cmd := cmd, ar_in_use := True, ar_completed := False, ar_result := ACCEL_ERR_IO,
                 ar_submitter := thread_current_tid s\<rparr>;
          s = store32 (cmd + CMD_STATUS) ACCEL_CMD_STATUS_PENDING s;
          s = trace_emit TRACE_ACCEL_SUBMIT (ar_submitter s) THREAD_INVALID_TID (ucast (load32 (cmd + CMD_LEN) s)) n s;
          s = store64 (base + ACCEL_REG_CMD_BASE) cmd s;
          s = store32 (base + ACCEL_REG_CONTROL) ACCEL_CONTROL_START s
      in accel_submit_wait cmd n irq_state s))"

definition accel_submit_sync :: "u64 \<Rightarrow> 'a accel_scheme \<Rightarrow> (int outcome \<times> 'a accel_scheme) res" where
  "accel_submit_sync cmd s = accel_submit_sync_timeout cmd 0xffffffffffffffff s"

end
