(* ===== verification/Syscall.thy ===== *)
theory Syscall
  imports Accel Usercopy
begin

text \<open>
  System calls: \<^verbatim>\<open>kernel/user/syscall.c\<close> and \<^verbatim>\<open>kernel/user/accel_syscall.c\<close>. A call may give
  up the processor in the middle (the accelerator request), so the result is an \<open>outcome\<close>.
\<close>

section \<open>State\<close>

definition USER_SYSCALL_EXIT :: u64 where "USER_SYSCALL_EXIT = 1"
definition USER_SYSCALL_YIELD :: u64 where "USER_SYSCALL_YIELD = 2"
definition USER_SYSCALL_SLEEP :: u64 where "USER_SYSCALL_SLEEP = 3"
definition USER_SYSCALL_ACCEL_MEMSET :: u64 where "USER_SYSCALL_ACCEL_MEMSET = 4"
definition USER_SYSCALL_NOOP :: u64 where "USER_SYSCALL_NOOP = 5"
definition USER_SYSCALL_OK :: int where "USER_SYSCALL_OK = 0"
definition USER_SYSCALL_ERR_UNKNOWN :: int where "USER_SYSCALL_ERR_UNKNOWN = -1"

definition USER_ACCEL_OK :: int where "USER_ACCEL_OK = 0"
definition USER_ACCEL_ERR_INVALID :: int where "USER_ACCEL_ERR_INVALID = -2"
definition USER_ACCEL_ERR_TIMEOUT :: int where "USER_ACCEL_ERR_TIMEOUT = -5"
definition USER_ACCEL_ERR_NO_MEMORY :: int where "USER_ACCEL_ERR_NO_MEMORY = -6"
definition USER_ACCEL_MEMSET_MAX_LEN :: u64 where "USER_ACCEL_MEMSET_MAX_LEN = 4096"

lemmas syscall_numbers = USER_SYSCALL_EXIT_def USER_SYSCALL_YIELD_def USER_SYSCALL_SLEEP_def
  USER_SYSCALL_ACCEL_MEMSET_def USER_SYSCALL_NOOP_def
lemmas user_accel_errors = USER_ACCEL_OK_def USER_ACCEL_ERR_INVALID_def USER_ACCEL_ERR_TIMEOUT_def
  USER_ACCEL_ERR_NO_MEMORY_def

definition SCENARIO_BENCHMARK_ACCELERATOR :: nat where "SCENARIO_BENCHMARK_ACCELERATOR = 23"
definition FRAME_A2 :: u64 where "FRAME_A2 = 88"
definition FRAME_A3 :: u64 where "FRAME_A3 = 96"

record user_syscall_benchmark =
  bm_iterations :: u64
  bm_cycles_total :: u64
  bm_cycles_min :: u64
  bm_cycles_max :: u64

text \<open>\<open>config_scenario\<close> is the build's \<open>CONFIG_SCENARIO\<close>.\<close>

record syscalls = accel +
  user_exit_code :: u64
  user_noop_benchmark :: user_syscall_benchmark
  config_scenario :: nat

section \<open>The accelerator call\<close>

definition user_accel_copyback_result :: "int \<Rightarrow> int" where
  "user_accel_copyback_result result = (if result = ACCEL_OK then USER_ACCEL_OK else result)"

definition user_accel_trace :: "trace_type_t \<Rightarrow> u64 \<Rightarrow> u64 \<Rightarrow> 'a sched_scheme \<Rightarrow> 'a sched_scheme" where
  "user_accel_trace type arg0 arg1 s = trace_emit type (thread_current_tid s) THREAD_INVALID_TID arg0 arg1 s"

definition user_accel_reset_after_timeout :: "'a accel_scheme \<Rightarrow> (unit \<times> 'a accel_scheme) res" where
  "user_accel_reset_after_timeout s =
     bindE (accel_reset s) (\<lambda>(r, s). if r \<noteq> ACCEL_OK then Inl ''accelerator timeout reset failed'' else Inr ((), s))"

definition user_accel_should_report :: "'a syscalls_scheme \<Rightarrow> bool" where
  "user_accel_should_report s \<longleftrightarrow> config_scenario s \<noteq> SCENARIO_BENCHMARK_ACCELERATOR"

text \<open>The rest of the call after the request has ended: reset after a timeout, copy back, free the pages.\<close>

definition user_accel_memset_finish ::
  "u64 \<Rightarrow> u64 \<Rightarrow> u64 \<Rightarrow> u64 \<Rightarrow> u64 \<Rightarrow> u64 \<Rightarrow> int \<Rightarrow> 'a accel_scheme \<Rightarrow> (int \<times> 'a accel_scheme) res"
where
  "user_accel_memset_finish task user_dst len timeout_ticks cmd bounce_page submit_result s =
     (let result = user_accel_copyback_result submit_result in
      bindE (if result = USER_ACCEL_ERR_TIMEOUT \<and> timeout_ticks \<noteq> 0 then user_accel_reset_after_timeout s else Inr ((), s)) (\<lambda>(_, s).
      bindE (if result = USER_ACCEL_OK
             then bindE (copy_to_user_task task user_dst bounce_page len s) (\<lambda>(copy_result, s).
               let s = user_accel_trace TRACE_USER_ACCEL_COPYBACK len (sext64 copy_result) s in
               if copy_result \<noteq> USERCOPY_OK then Inr (USER_ACCEL_ERR_INVALID, s) else Inr (result, s))
             else Inr (result, s)) (\<lambda>(result, s).
      bindE (page_free bounce_page s) (\<lambda>(_, s).
      bindE (page_free cmd s) (\<lambda>(_, s). Inr (result, s))))))"

text \<open>
  The call up to the end of the submission. \<open>Inl\<close> is a result without a request;
  \<open>Inr\<close> gives the pages and the outcome of the submission.
\<close>

definition user_accel_memset_start ::
  "u64 \<Rightarrow> u64 \<Rightarrow> u64 \<Rightarrow> u32 \<Rightarrow> u64 \<Rightarrow> 'a accel_scheme \<Rightarrow> ((int + u64 \<times> u64 \<times> int outcome) \<times> 'a accel_scheme) res"
where
  "user_accel_memset_start task user_dst len_arg v timeout_ticks s =
     (if len_arg = 0 \<or> len_arg > USER_ACCEL_MEMSET_MAX_LEN
      then Inr (Inl USER_ACCEL_ERR_INVALID,
             user_accel_trace TRACE_USER_ACCEL_VALIDATE len_arg (sext64 USER_ACCEL_ERR_INVALID) s)
      else bindE (usercopy_task_validate task user_dst len_arg True s) (\<lambda>(result, s).
      let s = user_accel_trace TRACE_USER_ACCEL_VALIDATE len_arg
                (if result = USERCOPY_OK then sext64 USER_ACCEL_OK else sext64 USER_ACCEL_ERR_INVALID) s in
      if result \<noteq> USERCOPY_OK then Inr (Inl USER_ACCEL_ERR_INVALID, s)
      else
      bindE (page_alloc s) (\<lambda>(cmd, s).
      bindE (page_alloc s) (\<lambda>(bounce_page, s).
      if cmd = 0 \<or> bounce_page = 0
      then bindE (if cmd \<noteq> 0 then page_free cmd s else Inr ((), s)) (\<lambda>(_, s).
           bindE (if bounce_page \<noteq> 0 then page_free bounce_page s else Inr ((), s)) (\<lambda>(_, s).
             Inr (Inl USER_ACCEL_ERR_NO_MEMORY, s)))
      else
      let s = memory_zero cmd CMD_SIZEOF s;
          s = store32 (cmd + CMD_OP) ACCEL_CMD_OP_MEMSET s;
          s = store64 (cmd + CMD_DST_PA) bounce_page s;
          s = store32 (cmd + CMD_LEN) (ucast len_arg) s;
          s = store32 (cmd + CMD_VALUE) v s
      in bindE (accel_submit_sync_timeout cmd timeout_ticks s) (\<lambda>(r, s). Inr (Inr (cmd, bounce_page, r), s))))))"

text \<open>The end of the system call: the return value, the trace and the report.\<close>

definition user_accel_syscall_return :: "u64 \<Rightarrow> int \<Rightarrow> 'a syscalls_scheme \<Rightarrow> u64 \<times> 'a syscalls_scheme" where
  "user_accel_syscall_return frame result s =
     (let s = store64 (frame + FRAME_MEPC) (load64 (frame + FRAME_MEPC) s + 4) s;
          s = store64 (frame + FRAME_A0) (sext64 result) s;
          s = trace_emit TRACE_USER_SYSCALL_RETURN (thread_current_tid s) THREAD_INVALID_TID USER_SYSCALL_ACCEL_MEMSET (sext64 result) s;
          s = (if user_accel_should_report s
               then if result = USER_ACCEL_OK then console_write (''user: accel memset'' @ [CHR 0x0A]) s
                    else if result = USER_ACCEL_ERR_TIMEOUT then console_write (''user: accel memset timeout'' @ [CHR 0x0A]) s
                    else if result = USER_ACCEL_ERR_INVALID then console_write (''user: accel memset invalid'' @ [CHR 0x0A]) s
                    else console_write (''user: accel memset error'' @ [CHR 0x0A]) s
               else s)
      in (frame, s))"

text \<open>
  \<open>user_accel_syscall_memset\<close> runs to its end or to the wait in the submission;
  \<open>user_accel_syscall_resume\<close> is the rest after the wait, with the call's values
  that it had put on its stack.
\<close>

definition user_accel_syscall_after ::
  "u64 \<Rightarrow> u64 \<Rightarrow> u64 \<Rightarrow> u64 \<Rightarrow> u64 \<Rightarrow> u64 \<Rightarrow> u64 \<Rightarrow> int outcome \<Rightarrow> 'a syscalls_scheme \<Rightarrow> (u64 outcome \<times> 'a syscalls_scheme) res"
where
  "user_accel_syscall_after frame task user_dst len timeout_ticks cmd bounce_page r s =
     (case r of
        Blocks req irq_state \<Rightarrow> Inr (Blocks req irq_state, s)
      | Spins \<Rightarrow> Inr (Spins, s)
      | Done result \<Rightarrow>
          bindE (user_accel_memset_finish task user_dst len timeout_ticks cmd bounce_page result s) (\<lambda>(result, s).
            let (f, s) = user_accel_syscall_return frame result s in Inr (Done f, s)))"

definition user_accel_syscall_memset :: "u64 \<Rightarrow> 'a syscalls_scheme \<Rightarrow> (u64 outcome \<times> 'a syscalls_scheme) res" where
  "user_accel_syscall_memset frame s =
     (if frame = 0 then Inl ''null user accelerator syscall frame''
      else let task = thread_current_user_task_for_frame frame s in
      if task = 0 then Inl ''scheduled user task required for accelerator syscall''
      else
      let user_dst = load64 (frame + FRAME_A0) s;
          len = load64 (frame + FRAME_A1) s;
          v = ucast (load64 (frame + FRAME_A2) s);
          timeout_ticks = load64 (frame + FRAME_A3) s in
      bindE (user_accel_memset_start task user_dst len v timeout_ticks s) (\<lambda>(r, s).
        case r of
          Inl result \<Rightarrow> let (f, s) = user_accel_syscall_return frame result s in Inr (Done f, s)
        | Inr (cmd, bounce_page, r) \<Rightarrow>
            user_accel_syscall_after frame task user_dst len timeout_ticks cmd bounce_page r s))"

definition user_accel_syscall_resume ::
  "u64 \<Rightarrow> u64 \<Rightarrow> u64 \<Rightarrow> u64 \<Rightarrow> u64 \<Rightarrow> u64 \<Rightarrow> u64 \<Rightarrow> u64 \<Rightarrow> int \<Rightarrow> 'a syscalls_scheme \<Rightarrow> (u64 outcome \<times> 'a syscalls_scheme) res"
where
  "user_accel_syscall_resume frame task user_dst len timeout_ticks cmd bounce_page irq_state wait_result s =
     bindE (accel_submit_resume cmd timeout_ticks irq_state wait_result s) (\<lambda>(r, s).
       user_accel_syscall_after frame task user_dst len timeout_ticks cmd bounce_page r s)"

section \<open>The other calls\<close>

text \<open>What runs when the first user program exits: it reports and idles for ever.\<close>

definition first_user_exit_return :: "'a syscalls_scheme \<Rightarrow> 'a syscalls_scheme" where
  "first_user_exit_return s =
     (let s = console_write ''user: exited code='' s;
          s = console_write_hex64 (user_exit_code s) s;
          s = console_write [CHR 0x0A] s
      in console_write (''milestone 15: first user task'' @ [CHR 0x0A]) s)"

definition user_syscall_report_exit :: "u64 \<Rightarrow> 'a hw_scheme \<Rightarrow> 'a hw_scheme" where
  "user_syscall_report_exit code s =
     console_write [CHR 0x0A] (console_write_hex64 code (console_write ''user: exited code='' s))"

definition user_syscall_advance :: "u64 \<Rightarrow> 'a hw_scheme \<Rightarrow> 'a hw_scheme" where
  "user_syscall_advance frame s = store64 (frame + FRAME_MEPC) (load64 (frame + FRAME_MEPC) s + 4) s"

definition user_syscall_trace :: "trace_type_t \<Rightarrow> u64 \<Rightarrow> u64 \<Rightarrow> u64 \<Rightarrow> 'a sched_scheme \<Rightarrow> 'a sched_scheme" where
  "user_syscall_trace type frame arg0 arg1 s =
     (if thread_current_user_task_for_frame frame s \<noteq> 0
      then trace_emit type (thread_current_tid s) THREAD_INVALID_TID arg0 arg1 s else s)"

definition user_syscall_exit :: "u64 \<Rightarrow> 'a syscalls_scheme \<Rightarrow> (u64 \<times> 'a syscalls_scheme) res" where
  "user_syscall_exit frame s =
     (if thread_current_user_task_for_frame frame s \<noteq> 0
      then let s = user_syscall_trace TRACE_USER_SYSCALL_RETURN frame USER_SYSCALL_EXIT (load64 (frame + FRAME_A0) s) s;
               s = user_syscall_report_exit (load64 (frame + FRAME_A0) s) s;
               s = console_write (''milestone 22: user address-space switching'' @ [CHR 0x0A]) s
           in thread_exit_current_from_trap frame s
      else
      let s = s\<lparr>user_exit_code := load64 (frame + FRAME_A0) s\<rparr>;
          s = store64 (frame + FRAME_MEPC) (first_user_exit_return_addr (link s)) s;
          s = store64 (frame + FRAME_MSTATUS) (load64 (frame + FRAME_MSTATUS) s OR (SSTATUS_SPP OR SSTATUS_SPIE)) s;
          s = store64 (frame + FRAME_SP) (frame + TRAP_FRAME_STACK_SIZE) s
      in Inr (frame, s))"

definition user_syscall_require_task :: "u64 \<Rightarrow> 'a sched_scheme \<Rightarrow> (unit \<times> 'a sched_scheme) res" where
  "user_syscall_require_task frame s =
     (if thread_current_user_task_for_frame frame s = 0 then Inl ''scheduled user task required for syscall''
      else Inr ((), s))"

definition user_syscall_benchmark_reset :: "'a syscalls_scheme \<Rightarrow> 'a syscalls_scheme" where
  "user_syscall_benchmark_reset s =
     s\<lparr>user_noop_benchmark := \<lparr>bm_iterations = 0, bm_cycles_total = 0, bm_cycles_min = 0xffffffffffffffff, bm_cycles_max = 0\<rparr>\<rparr>"

definition user_syscall_benchmark_snapshot :: "'a syscalls_scheme \<Rightarrow> user_syscall_benchmark" where
  "user_syscall_benchmark_snapshot s =
     (let snapshot = user_noop_benchmark s in
      if bm_iterations snapshot = 0 then snapshot\<lparr>bm_cycles_min := 0\<rparr> else snapshot)"

definition user_syscall_yield :: "u64 \<Rightarrow> 'a sched_scheme \<Rightarrow> (u64 \<times> 'a sched_scheme) res" where
  "user_syscall_yield frame s =
     bindE (user_syscall_require_task frame s) (\<lambda>(_, s).
       let s = user_syscall_advance frame s;
           s = store64 (frame + FRAME_A0) (sext64 USER_SYSCALL_OK) s;
           s = user_syscall_trace TRACE_USER_SYSCALL_RETURN frame USER_SYSCALL_YIELD (sext64 USER_SYSCALL_OK) s;
           s = console_write (''user: syscall yield'' @ [CHR 0x0A]) s
       in thread_yield_current_from_trap frame s)"

definition user_syscall_sleep :: "u64 \<Rightarrow> 'a sched_scheme \<Rightarrow> (u64 \<times> 'a sched_scheme) res" where
  "user_syscall_sleep frame s =
     (let n = load64 (frame + FRAME_A0) s in
      bindE (user_syscall_require_task frame s) (\<lambda>(_, s).
       let s = user_syscall_advance frame s;
           s = store64 (frame + FRAME_A0) (sext64 USER_SYSCALL_OK) s;
           s = user_syscall_trace TRACE_USER_SYSCALL_RETURN frame USER_SYSCALL_SLEEP (sext64 USER_SYSCALL_OK) s;
           s = console_write ''user: syscall sleep ticks='' s;
           s = console_write_hex64 n s;
           s = console_write [CHR 0x0A] s
       in thread_sleep_current_from_trap frame n s))"

definition user_syscall_noop :: "u64 \<Rightarrow> u64 \<Rightarrow> 'a syscalls_scheme \<Rightarrow> (u64 \<times> 'a syscalls_scheme) res" where
  "user_syscall_noop frame dispatch_start_cycle s =
     bindE (user_syscall_require_task frame s) (\<lambda>(_, s).
       let s = user_syscall_advance frame s;
           s = store64 (frame + FRAME_A0) (sext64 USER_SYSCALL_OK) s;
           s = user_syscall_trace TRACE_USER_SYSCALL_RETURN frame USER_SYSCALL_NOOP (sext64 USER_SYSCALL_OK) s;
           (now, s) = csr_read_cycle s;
           elapsed = now - dispatch_start_cycle;
           b = user_noop_benchmark s;
           b = b\<lparr>bm_iterations := bm_iterations b + 1\<rparr>;
           b = b\<lparr>bm_cycles_total := bm_cycles_total b + elapsed\<rparr>;
           b = (if elapsed < bm_cycles_min b then b\<lparr>bm_cycles_min := elapsed\<rparr> else b);
           b = (if elapsed > bm_cycles_max b then b\<lparr>bm_cycles_max := elapsed\<rparr> else b)
       in Inr (frame, s\<lparr>user_noop_benchmark := b\<rparr>))"

section \<open>Dispatch\<close>

definition done_frame :: "(u64 \<times> 's) res \<Rightarrow> (u64 outcome \<times> 's) res" where
  "done_frame r = bindE r (\<lambda>(f, s). Inr (Done f, s))"

definition user_syscall_dispatch :: "u64 \<Rightarrow> 'a syscalls_scheme \<Rightarrow> (u64 outcome \<times> 'a syscalls_scheme) res" where
  "user_syscall_dispatch frame s =
     (if frame = 0 then Inl ''null user syscall frame''
      else
      let (dispatch_start_cycle, s) = csr_read_cycle s;
          syscall_nr = load64 (frame + FRAME_A7) s;
          s = user_syscall_trace TRACE_USER_SYSCALL_ENTER frame syscall_nr (load64 (frame + FRAME_MEPC) s) s in
      if syscall_nr = USER_SYSCALL_EXIT then done_frame (user_syscall_exit frame s)
      else if syscall_nr = USER_SYSCALL_YIELD then done_frame (user_syscall_yield frame s)
      else if syscall_nr = USER_SYSCALL_SLEEP then done_frame (user_syscall_sleep frame s)
      else if syscall_nr = USER_SYSCALL_ACCEL_MEMSET then user_accel_syscall_memset frame s
      else if syscall_nr = USER_SYSCALL_NOOP then done_frame (user_syscall_noop frame dispatch_start_cycle s)
      else
      bindE (user_syscall_require_task frame s) (\<lambda>(_, s).
        let s = user_syscall_advance frame s;
            s = store64 (frame + FRAME_A0) (sext64 USER_SYSCALL_ERR_UNKNOWN) s;
            s = user_syscall_trace TRACE_USER_SYSCALL_ERROR frame syscall_nr (sext64 USER_SYSCALL_ERR_UNKNOWN) s
        in Inr (Done frame, console_write (''user: unknown syscall'' @ [CHR 0x0A]) s)))"

end
