(* ===== verification/Trap.thy ===== *)
theory Trap
  imports Syscall
begin

text \<open>
  Traps taken in supervisor mode, \<^verbatim>\<open>kernel/core/trap.c\<close>: the dispatch on the cause and the way
  back, and the boot sequence of \<^verbatim>\<open>kernel/core/main.c\<close> up to the change of mode, with the text of
  \<^verbatim>\<open>kernel/core/panic.c\<close>.
\<close>

section \<open>Panics\<close>

text \<open>The loop that fills \<open>buf\<close> with the digits, least significant first.\<close>

function dec_digits :: "nat \<Rightarrow> u64 \<Rightarrow> string" where
  "dec_digits i v = (if v \<noteq> 0 \<and> i < 20 then char_of (48 + unat (v mod 10)) # dec_digits (i + 1) (v div 10) else [])"
  by pat_completeness auto
termination by (relation "measure (\<lambda>(i, v). 20 - i)") auto

definition console_write_u64_dec :: "u64 \<Rightarrow> 'a hw_scheme \<Rightarrow> 'a hw_scheme" where
  "console_write_u64_dec v s =
     (if v = 0 then console_putc (CHR ''0'') s else fold console_putc (rev (dec_digits 0 v)) s)"

text \<open>\<open>panic\<close> up to its idle loop; a panic is the value \<open>Inl\<close> of the operations.\<close>

definition panic :: "string \<Rightarrow> u64 \<Rightarrow> string \<Rightarrow> 'a hw_scheme \<Rightarrow> 'a hw_scheme" where
  "panic file line msg s =
     (let s = console_write ([CHR 0x0A] @ ''PANIC at '') s;
          s = console_write file s;
          s = console_putc (CHR '':'') s;
          s = console_write_u64_dec line s;
          s = console_write '': '' s;
          s = console_write msg s
      in console_write [CHR 0x0A] s)"

section \<open>Traps\<close>

record traps = syscalls +
  trap_selftest_seen :: u64

definition trap_print_field :: "string \<Rightarrow> u64 \<Rightarrow> 'a hw_scheme \<Rightarrow> 'a hw_scheme" where
  "trap_print_field name v s = console_write '' '' (console_write_hex64 v (console_write ''='' (console_write name s)))"

definition trap_is_page_fault :: "u64 \<Rightarrow> bool" where
  "trap_is_page_fault cause \<longleftrightarrow>
     cause = MCAUSE_INSTRUCTION_PAGE_FAULT \<or> cause = MCAUSE_LOAD_PAGE_FAULT \<or> cause = MCAUSE_STORE_PAGE_FAULT"

definition trap_page_fault_access :: "u64 \<Rightarrow> string" where
  "trap_page_fault_access cause =
     (if cause = MCAUSE_INSTRUCTION_PAGE_FAULT then ''instruction''
      else if cause = MCAUSE_LOAD_PAGE_FAULT then ''load''
      else if cause = MCAUSE_STORE_PAGE_FAULT then ''store'' else ''unknown'')"

text \<open>What is printed before the panic is the state that \<open>trap_fault_report\<close> gives.\<close>

definition trap_fault_report :: "u64 \<Rightarrow> u64 \<Rightarrow> 'a sched_scheme \<Rightarrow> 'a sched_scheme" where
  "trap_fault_report frame cause s =
     (let s = console_write ([CHR 0x0A] @ ''trap: page fault access='') s;
          s = console_write (trap_page_fault_access cause) s;
          s = console_write '' '' s;
          s = trap_print_field ''scause'' (load64 (frame + FRAME_MCAUSE) s) s;
          s = trap_print_field ''sepc'' (load64 (frame + FRAME_MEPC) s) s;
          s = trap_print_field ''stval'' (load64 (frame + FRAME_MTVAL) s) s;
          s = trap_print_field ''sstatus'' (load64 (frame + FRAME_MSTATUS) s) s;
          s = trap_print_field ''satp'' (csr_read_satp s) s;
          s = trap_print_field ''tid'' (ucast (thread_current_tid s)) s
      in console_write [CHR 0x0A] s)"

definition trap_report_page_fault :: "u64 \<Rightarrow> u64 \<Rightarrow> 'a sched_scheme \<Rightarrow> (u64 outcome \<times> 'a sched_scheme) res" where
  "trap_report_page_fault frame cause s = Inl ''page fault''"

text \<open>
  \<open>None\<close> comes from the timer's deadline loop. A call that gives up the processor in the
  middle of the handler is an \<open>outcome\<close>, as in the other theories.
\<close>

definition trap_handle :: "u64 \<Rightarrow> 'a traps_scheme \<Rightarrow> (u64 outcome \<times> 'a traps_scheme) res option" where
  "trap_handle frame s =
     (let is_interrupt = load64 (frame + FRAME_MCAUSE) s AND MCAUSE_INTERRUPT;
          cause = load64 (frame + FRAME_MCAUSE) s AND MCAUSE_CODE_MASK in
      if is_interrupt = 0 \<and> cause = MCAUSE_BREAKPOINT \<and> trap_selftest_seen s = 0
      then let s = s\<lparr>trap_selftest_seen := 1\<rparr>;
               s = store64 (frame + FRAME_MEPC) (load64 (frame + FRAME_MEPC) s + 4) s
           in Some (Inr (Done frame, s))
      else if is_interrupt = 0 \<and> cause = MCAUSE_BREAKPOINT
      then Some (done_frame (thread_handle_control_trap_from_trap frame s))
      else if is_interrupt \<noteq> 0 \<and> cause = SCAUSE_SUPERVISOR_TIMER_INTERRUPT
      then (case timer_handle_interrupt s of
          None \<Rightarrow> None
        | Some r \<Rightarrow> Some (bindE r (\<lambda>(_, s). done_frame (thread_maybe_preempt_from_trap frame s))))
      else if is_interrupt = 0 \<and> cause = MCAUSE_ECALL_U_MODE then Some (user_syscall_dispatch frame s)
      else if is_interrupt = 0 \<and> trap_is_page_fault cause
      then Some (let (recovered, s) = thread_usercopy_probe_recover frame cause s in
        if recovered then Inr (Done frame, s) else trap_report_page_fault frame cause s)
      else Some (Inl ''unhandled trap''))"

text \<open>
  The way back from a trap does not return: it restores the registers from a frame, or jumps to
  the trampoline's \<open>userret\<close> with the user's page table and the address of its trap context.
\<close>

datatype trap_exit = Trap_Restore u64 | Userret u64 u64 u64

definition trap_return_to_user :: "u64 \<Rightarrow> 'a sched_scheme \<Rightarrow> trap_exit res" where
  "trap_return_to_user task s =
     (let frame = user_task_trap_frame task s;
          user_satp = user_task_satp task s in
      if frame = 0 \<or> user_satp = 0 \<or> load64 (frame + FRAME_MSTATUS) s AND SSTATUS_SPP \<noteq> 0
      then Inl ''invalid user trap return''
      else let userret_offset = userret_addr (link s) - trampoline_start (link s)
           in Inr (Userret (USER_TRAMPOLINE_VA + userret_offset) user_satp USER_TRAP_CONTEXT_VA))"

definition trap_return_from_handler :: "u64 \<Rightarrow> 'a sched_scheme \<Rightarrow> (trap_exit \<times> 'a sched_scheme) res" where
  "trap_return_from_handler frame s =
     (let task = thread_current_user_task_for_frame frame s in
      if task \<noteq> 0
      then let s = thread_set_current_trap_frame_from_trap frame s in
        bindE (trap_return_to_user task s) (\<lambda>e. Inr (e, s))
      else Inr (Trap_Restore frame, s))"

text \<open>\<open>Inl\<close> in the result: the handler gave up the processor before it came to the return.\<close>

definition trap_handle_user :: "u64 \<Rightarrow> 'a traps_scheme \<Rightarrow> ((u64 outcome + trap_exit) \<times> 'a traps_scheme) res option" where
  "trap_handle_user frame s =
     map_option (\<lambda>r. bindE r (\<lambda>(out, s).
       case out of
         Done f \<Rightarrow> bindE (trap_return_from_handler f s) (\<lambda>(e, s). Inr (Inr e, s))
       | _ \<Rightarrow> Inr (Inl out, s))) (trap_handle frame s)"

definition trap_init :: "'a timer_scheme \<Rightarrow> 'a timer_scheme" where
  "trap_init s =
     (let s = csr_write_stvec (trap_entry_addr (link s)) s;
          s = console_write ''trap: stvec='' s;
          s = console_write_hex64 (csr_read_stvec s) s
      in console_write [CHR 0x0A] s)"

text \<open>
  The self-test executes an \<open>ebreak\<close> at \<open>pc\<close>: the trap entry saves the registers at
  \<open>frame\<close> and calls the handler, and the test goes on at the frame's program counter.
\<close>

definition trap_selftest :: "u64 \<Rightarrow> u64 \<Rightarrow> 'a traps_scheme \<Rightarrow> (unit \<times> 'a traps_scheme) res option" where
  "trap_selftest frame pc s =
     (let s = s\<lparr>trap_selftest_seen := 0\<rparr>;
          s = store64 (frame + FRAME_MEPC) pc s;
          s = store64 (frame + FRAME_MCAUSE) MCAUSE_BREAKPOINT s in
      map_option (\<lambda>r. bindE r (\<lambda>(_, s).
        if trap_selftest_seen s \<noteq> 1 then Inl ''trap self-test did not return through handler''
        else Inr ((), console_write (''trap: self-test passed'' @ [CHR 0x0A]) s))) (trap_handle frame s))"

section \<open>Boot\<close>

definition kmain :: "'a timer_scheme \<Rightarrow> (unit \<times> 'a timer_scheme) res" where
  "kmain s =
     (let s = console_write [CHR 0x0A] s;
          s = console_write (''qemu-rtos: booting RISC-V kernel'' @ [CHR 0x0A]) s;
          s = console_write ''kernel_start='' s;
          s = console_write_hex64 (kernel_start (link s)) s;
          s = console_write '' kernel_end='' s;
          s = console_write_hex64 (kernel_end (link s)) s;
          s = console_write '' stack_top='' s;
          s = console_write_hex64 (stack_top (link s)) s;
          s = console_write [CHR 0x0A] s;
          s = console_write (''milestone 1: boot, stack, bss, uart console'' @ [CHR 0x0A]) s in
      bindE (page_init (kernel_end (link s)) (ram_end (link s)) s) (\<lambda>(_, s).
      bindE (paging_init_kernel s) (\<lambda>(satp_value, s).
        let s = machine_init s
        in Inr ((), machine_enter_supervisor satp_value (supervisor_main_addr (link s)) s))))"

end
