(* ===== verification/Trap_Spec.thy ===== *)
theory Trap_Spec
  imports Trap Usercopy_Spec
begin

text \<open>
  The numbers of the diagnostics that \<^verbatim>\<open>trap.c\<close> and \<^verbatim>\<open>panic.c\<close> print can be read back.
\<close>

section \<open>Numbers on the console\<close>

text \<open>Reading a numeral back, most significant digit first.\<close>

definition digit_value :: "char \<Rightarrow> nat" where
  "digit_value c = (if of_char c < (97 :: nat) then of_char c - 48 else of_char c - 87)"

definition numeral_value :: "nat \<Rightarrow> string \<Rightarrow> nat" where
  "numeral_value base ds = fold (\<lambda>d v. v * base + digit_value d) ds 0"

lemma numeral_value_snoc: "numeral_value b (ds @ [d]) = numeral_value b ds * b + digit_value d"
  by (simp add: numeral_value_def)

lemma numeral_value_Nil [simp]: "numeral_value b [] = 0"
  by (simp add: numeral_value_def)

lemma dec_digit_table: "list_all (\<lambda>n :: nat. digit_value (char_of (48 + n)) = n \<and> char_of (48 + n) \<in> set ''0123456789'' \<and>
    (n \<noteq> 0 \<longrightarrow> char_of (48 + n) \<noteq> CHR ''0'')) [0..<10]"
  by code_simp

lemma dec_digit:
  assumes "n < (10 :: nat)"
  shows "digit_value (char_of (48 + n)) = n" "char_of (48 + n) \<in> set ''0123456789''" "n \<noteq> 0 \<Longrightarrow> char_of (48 + n) \<noteq> CHR ''0''"
  using dec_digit_table assms by (simp_all add: list_all_iff del: upt_rec_numeral)

declare dec_digits.simps [simp del]

lemma dec_digits_value:
  assumes "unat v < 10 ^ (20 - i)"
  shows "numeral_value 10 (rev (dec_digits i v)) = unat v \<and> length (dec_digits i v) \<le> 20 - i \<and>
    (\<forall>d\<in>set (dec_digits i v). d \<in> set ''0123456789'') \<and> (v \<noteq> 0 \<longrightarrow> dec_digits i v \<noteq> [] \<and> last (dec_digits i v) \<noteq> CHR ''0'')"
  using assms
proof (induction i v rule: dec_digits.induct)
  case (1 i v)
  show ?case
  proof (cases "v = 0")
    case True
    then show ?thesis by (simp add: dec_digits.simps)
  next
    case False
    then have i: "i < 20" using 1(2) by (cases "i < 20") (auto simp: unat_eq_0)
    have d: "unat (v div 10) = unat v div 10" "unat (v mod 10) = unat v mod 10" by (simp_all add: unat_div unat_mod)
    have "20 - i = Suc (20 - (i + 1))" using i by simp
    then have "unat (v div 10) < 10 ^ (20 - (i + 1))" using 1(2) unfolding d by (simp add: less_mult_imp_div_less mult.commute)
    note ih = 1(1) [OF conjI [OF False i] this]
    have dig: "char_of (48 + unat v mod 10) \<in> set ''0123456789''" by (rule dec_digit(2)) simp
    have dig0: "unat v mod 10 \<noteq> 0 \<Longrightarrow> char_of (48 + unat v mod 10) \<noteq> CHR ''0''" by (rule dec_digit(3)) simp_all
    have z: "v div 10 = 0 \<Longrightarrow> unat v mod 10 \<noteq> 0" using False d(1) by (metis mod_div_trivial mod_less div_eq_0_iff unat_eq_0 zero_neq_numeral)
    have c: "dec_digits i v = char_of (48 + unat v mod 10) # dec_digits (Suc i) (v div 10)"
      using False i d by (simp add: dec_digits.simps [of i v])
    have "numeral_value 10 (rev (dec_digits i v)) = unat v"
      using ih d by (simp add: c numeral_value_snoc dec_digit(1))
    moreover have "length (dec_digits i v) \<le> 20 - i" 
    proof -
      have "length (dec_digits (Suc i) (v div 10)) \<le> 20 - Suc i" using ih by simp
      then show ?thesis using i unfolding c list.size by linarith
    qed
    moreover have "\<forall>d\<in>set (dec_digits i v). d \<in> set ''0123456789''" using ih dig unfolding c by (simp only: set_simps(2)) simp
    moreover have "last (dec_digits i v) \<noteq> CHR ''0''"
    proof (cases "v div 10 = 0")
      case True
      then show ?thesis using dig0 z by (simp add: c dec_digits.simps [of "Suc i" 0])
    next
      case False
      then show ?thesis using ih by (simp add: c)
    qed
    ultimately show ?thesis by (simp add: c)
  qed
qed

lemma console_write_append: "CHR 0x0A \<notin> set cs \<Longrightarrow> console_write cs s = s\<lparr>console := console s @ cs\<rparr>"
  by (induction cs arbitrary: s) (auto simp: console_putc_def uart_putc_def)

lemma fold_putc: "fold console_putc cs s = console_write cs s"
  by (induction cs arbitrary: s) simp_all

lemma fold_hex: "fold (\<lambda>k. console_putc (hex_digit v k)) ks s = console_write (map (hex_digit v) ks) s"
  by (induction ks arbitrary: s) simp_all

lemma hex_digit_table: "list_all (\<lambda>n. digit_value (hex_digits ! n) = n \<and> hex_digits ! n \<noteq> CHR 0x0A) [0..<16]"
  by code_simp

lemma hex_digit_value: "digit_value (hex_digit v k) = unat v div 2 ^ k mod 16" "hex_digit v k \<noteq> CHR 0x0A"
proof -
  have "drop_bit k v AND 0xf = take_bit 4 (drop_bit k v)" using take_bit_eq_mask [of 4 "drop_bit k v"] by (simp add: mask_eq_exp_minus_1)
  moreover have "unat (take_bit 4 (drop_bit k v)) = unat v div 2 ^ k mod 16"
    by (subst unsigned_take_bit_eq, subst unat_drop_bit_eq) (simp add: take_bit_eq_mod drop_bit_eq_div)
  ultimately have "unat (drop_bit k v AND 0xf) = unat v div 2 ^ k mod 16" by (simp only:)
  moreover have "unat v div 2 ^ k mod 16 < 16" by simp
  ultimately show "digit_value (hex_digit v k) = unat v div 2 ^ k mod 16" "hex_digit v k \<noteq> CHR 0x0A"
    using hex_digit_table by (simp_all add: hex_digit_def list_all_iff del: upt_rec_numeral)
qed

lemma positional: "fold (\<lambda>d v :: nat. v * 16 + d) (map (\<lambda>k. n div 16 ^ k mod 16) (rev [0..<m])) a = a * 16 ^ m + n mod 16 ^ m"
proof (induction m arbitrary: a)
  case (Suc m)
  have "n mod 16 ^ Suc m = 16 ^ m * (n div 16 ^ m mod 16) + n mod 16 ^ m"
    using mod_mult2_eq [of n "16 ^ m" 16] by (simp add: mult.commute)
  then show ?case using Suc by (simp add: algebra_simps)
qed simp

lemma hex_value: "numeral_value 16 (map (hex_digit v) (map (\<lambda>k. 4 * k) (rev [0..<16]))) = unat v"
proof -
  have p: "2 ^ (4 * k) = (16 :: nat) ^ k" for k by (simp add: power_mult)
  have "numeral_value 16 (map (hex_digit v) (map (\<lambda>k. 4 * k) (rev [0..<16]))) =
      fold (\<lambda>d v. v * 16 + d) (map (\<lambda>k. unat v div 16 ^ k mod 16) (rev [0..<16])) 0"
    unfolding numeral_value_def fold_map comp_def hex_digit_value p ..
  also have "\<dots> = unat v" unfolding positional using unat64_lt [of v] by simp
  finally show ?thesis .
qed

text \<open>
  The numbers the kernel prints can be read back. The decimal form has at most twenty digits, so the
  buffer of \<open>console_write_u64_dec\<close> is long enough for every value, and no leading zero; the
  hexadecimal form is sixteen digits after \<open>0x\<close>. Nothing else of the state changes.
\<close>

theorem console_numbers_read_back:
  fixes s :: "'a hw_scheme"
  shows
  "(\<exists>ds. console_write_u64_dec v s = s\<lparr>console := console s @ ds\<rparr> \<and> numeral_value 10 ds = unat v \<and>
     length ds \<in> {1..20} \<and> set ds \<subseteq> set ''0123456789'' \<and> (hd ds = CHR ''0'') = (v = 0)) \<and>
   (\<exists>hs. console_write_hex64 v s = s\<lparr>console := console s @ ''0x'' @ hs\<rparr> \<and> numeral_value 16 hs = unat v \<and> length hs = 16)"
proof (intro conjI exI)
  let ?ds = "if v = 0 then ''0'' else rev (dec_digits 0 v)" and ?hs = "map (hex_digit v) (map (\<lambda>k. 4 * k) (rev [0..<16]))"
  have d: "numeral_value 10 (rev (dec_digits 0 v)) = unat v" "length (dec_digits 0 v) \<le> 20"
    "set (dec_digits 0 v) \<subseteq> set ''0123456789''" "v \<noteq> 0 \<longrightarrow> dec_digits 0 v \<noteq> [] \<and> last (dec_digits 0 v) \<noteq> CHR ''0''"
    using dec_digits_value [of v 0] unat64_lt [of v] by (auto simp del: set_simps)
  have "CHR 0x0A \<notin> set (rev (dec_digits 0 v))" using d(3) by auto
  then show "console_write_u64_dec v s = s\<lparr>console := console s @ ?ds\<rparr>"
    by (simp add: console_write_u64_dec_def fold_putc console_write_append) (simp add: console_putc_def uart_putc_def)
  show "numeral_value 10 ?ds = unat v" using d(1) by (simp add: numeral_value_def digit_value_def)
  show "length ?ds \<in> {1..20}" using d(2,4) by (auto simp: Suc_le_eq)
  show "set ?ds \<subseteq> set ''0123456789''" using d(3) by (simp del: set_simps) simp
  show "(hd ?ds = CHR ''0'') = (v = 0)" using d(4) by (auto simp: hd_rev)
  have k: "[60, 56, 52, 48, 44, 40, 36, 32, 28, 24, 20, 16, 12, 8, 4, 0] = map (\<lambda>k. 4 * k) (rev [0..<16 :: nat])"
    by code_simp
  have "CHR 0x0A \<notin> set ?hs" using hex_digit_value(2) by (metis imageE list.set_map)
  then have "console_write ?hs u = u\<lparr>console := console u @ ?hs\<rparr>" for u :: "'a hw_scheme" by (rule console_write_append)
  moreover have "console_write ''0x'' s = s\<lparr>console := console s @ ''0x''\<rparr>" by (rule console_write_append) simp
  ultimately show "console_write_hex64 v s = s\<lparr>console := console s @ ''0x'' @ ?hs\<rparr>"
    unfolding console_write_hex64_def k by (simp only: fold_hex) simp
  show "numeral_value 16 ?hs = unat v" by (rule hex_value)
  show "length ?hs = 16" by simp
qed

end
