(* ===== verification/Syscall_Spec.thy ===== *)
theory Syscall_Spec
  imports Trap_Spec
begin

text \<open>
  System calls of a user thread: each one is the scheduler operation it names, started with the
  program counter moved past the call and the result in \<open>a0\<close>, and none of them can panic.
\<close>

section \<open>What logging leaves alone\<close>

text \<open>The console, the trace and the cycle counter are the only differences.\<close>

definition logged :: "'a tracing_scheme \<Rightarrow> 'a tracing_scheme \<Rightarrow> bool" where
  "logged s s' \<longleftrightarrow> (\<exists>c n e q h k w. s' = s\<lparr>console := c, cycle_reads := n, trace_events := e, trace_next_seq := q,
     trace_head := h, trace_count := k, trace_overwrites := w\<rparr>)"

lemma loggedI:
  "s' = s\<lparr>console := console s', cycle_reads := cycle_reads s', trace_events := trace_events s',
     trace_next_seq := trace_next_seq s', trace_head := trace_head s', trace_count := trace_count s',
     trace_overwrites := trace_overwrites s'\<rparr> \<Longrightarrow> logged s s'"
  unfolding logged_def by blast

lemma logged_refl [simp]: "logged s s"
  by (rule loggedI) simp

lemma logged_trans: "logged s t \<Longrightarrow> logged t u \<Longrightarrow> logged s u"
  unfolding logged_def by (elim exE) (simp, blast)

lemma logged_trace: "logged s t \<Longrightarrow> logged s (trace_emit ty a b x y t)"
  by (erule logged_trans, rule loggedI) (simp add: trace_emit_eq Let_def)

lemma logged_putc: "logged s t \<Longrightarrow> logged s (console_putc c t)"
  by (erule logged_trans, rule loggedI) (simp add: console_putc_def uart_putc_def)

lemma logged_write: "logged s t \<Longrightarrow> logged s (console_write cs t)"
  by (induction cs arbitrary: t) (simp_all add: logged_putc)

lemma logged_hex: "logged s t \<Longrightarrow> logged s (console_write_hex64 v t)"
  unfolding console_write_hex64_def fold_hex by (intro logged_write)

lemma logged_cycle: "logged s t \<Longrightarrow> logged s (snd (csr_read_cycle t))"
  by (erule logged_trans, rule loggedI) (simp add: csr_read_cycle_def)

lemmas logged_intros = logged_refl logged_trace logged_write logged_hex logged_cycle

lemma logged_fields:
  assumes "logged s s'"
  shows "mem s' = mem s" "link s' = link s" "user_tasks s' = user_tasks s" "task_at s' = task_at s" "sstatus s' = sstatus s"
    "tracing.more s' = tracing.more s" "satp s' = satp s" "ticks s' = ticks s" "load64 a s' = load64 a s"
    "user_task_is_ready t s' = user_task_is_ready t s"
  using assms by (auto simp: logged_def task_at_def fun_eq_iff load64_def user_task_is_ready_def)

lemma logged_sched:
  fixes s :: "'a sched_scheme"
  assumes "logged s s'"
  shows "same_sched s s'" "threads s' = threads s" "current_thread s' = current_thread s" "sched.more s' = sched.more s"
    "usercopy_probes s' = usercopy_probes s" "same_pool s s'"
  using assms by (auto simp: logged_def same_sched_def same_pool_def)

lemma logged_lists:
  fixes s :: "'a sched_scheme"
  assumes "logged s s'"
  shows "ready_list s' = ready_list s" "sleep_list s' = sleep_list s" "wait_list s' = wait_list s" "next_tid s' = next_tid s"
  using assms by (auto simp: logged_def ready_list_def sleep_list_def wait_list_def next_tid_def)

lemma logged_store: "logged s s' \<Longrightarrow> logged (store64 a v s) (store64 a v s')"
  by (rule loggedI) (auto simp: logged_def store64_def)

section \<open>A call of the running user thread\<close>

text \<open>The running thread executes a user task whose trap context is the frame of the trap.\<close>

definition user_running :: "u64 set \<Rightarrow> tid_t \<Rightarrow> u64 \<Rightarrow> 'a sched_scheme \<Rightarrow> bool" where
  "user_running Q c frame s \<longleftrightarrow> sched_inv Q s \<and> current_thread s = Some c \<and> c \<noteq> 0 \<and> frame \<noteq> 0 \<and>
     (let task = th_user_task (threads s c) in task \<noteq> 0 \<and> user_task_is_ready task s \<and> task_owns (task_at s task) s \<and>
        ut_trap_context (task_at s task) = frame) \<and>
     load64 (frame + FRAME_MSTATUS) s AND SSTATUS_SPP = 0"

text \<open>The frame as the call leaves it: past the instruction, with the result in \<open>a0\<close>.\<close>

definition returned :: "u64 \<Rightarrow> int \<Rightarrow> memory \<Rightarrow> memory" where
  "returned frame r m =
     write64 (write64 m (frame + FRAME_MEPC) (read64 m (frame + FRAME_MEPC) + 4)) (frame + FRAME_A0) (sext64 r)"

lemma user_running_frame:
  assumes "user_running Q c frame s"
  shows "unat frame mod 8 = 0" and "thread_current_user_task_for_frame frame s = th_user_task (threads s c)"
proof -
  let ?t = "task_at s (th_user_task (threads s c))"
  have o: "task_owns ?t s" "ut_trap_context ?t = frame" "frame \<noteq> 0" using assms by (simp_all add: user_running_def Let_def)
  then have "frame \<in> managed_frames s" "pages_inv s"
    using allocated_subset [of s] by (auto simp: task_owns_def task_pages_def)
  then have "unat frame mod 4096 = 0" using managed_frame_props(2) by blast
  then have "4096 dvd unat frame" by (simp add: dvd_eq_mod_eq_0)
  then have "8 dvd unat frame" by (rule dvd_trans [rotated]) simp
  then show "unat frame mod 8 = 0" by (simp add: dvd_eq_mod_eq_0)
  show "thread_current_user_task_for_frame frame s = th_user_task (threads s c)"
    using assms by (auto simp: user_running_def Let_def thread_current_user_task_for_frame_def user_task_trap_frame_def)
qed

lemma logged_call:
  assumes "logged s s'"
  shows "thread_current_user_task_for_frame frame s' = thread_current_user_task_for_frame frame s"
  using logged_sched [OF assms] logged_fields [OF assms]
  by (simp add: thread_current_user_task_for_frame_def user_task_trap_frame_def split: option.splits)

lemma logged_user_trace: "logged s t \<Longrightarrow> logged s (user_syscall_trace ty frame a b t)"
  by (simp add: user_syscall_trace_def logged_trace)

lemma logged_switch:
  assumes "logged s t"
  shows "yield_done c frame t g s' = yield_done c frame s g s'" "sleep_done c frame n t g s' = sleep_done c frame n s g s'"
  unfolding yield_done_def sleep_done_def logged_lists [OF assms] logged_sched(2-4) [OF assms] logged_fields [OF assms] by (rule refl)+

lemma logged_exit:
  assumes "logged s t"
  shows "exit_done c code t s' = exit_done c code s s'"
proof -
  note p = logged_sched(6) [OF assms]
  have "task_gone task code t s' = task_gone task code s s'" for task
    using logged_fields [OF assms] same_pool_task(1) [OF p] same_pool_pages [OF p] p
    by (simp add: task_gone_def same_pool_def)
  then show ?thesis
    using logged_lists [OF assms] logged_sched [OF assms] logged_fields [OF assms] unfolding exit_done_def by simp
qed

text \<open>The common part of the calls that go on in user mode.\<close>

lemma call_returned:
  fixes s :: "'a sched_scheme" and r :: int
  assumes u: "user_running Q c frame s" and l: "logged s x"
  defines "y \<equiv> store64 (frame + FRAME_A0) (sext64 r) (user_syscall_advance frame x)"
  shows "logged (s\<lparr>mem := returned frame r (mem s)\<rparr>) y" and "thread_current_user_task_for_frame frame y = th_user_task (threads s c)"
    and "sched_inv Q y" and "current_thread y = Some c"
proof -
  have "s\<lparr>mem := returned frame r (mem s)\<rparr> =
      store64 (frame + FRAME_A0) (sext64 r) (store64 (frame + FRAME_MEPC) (load64 (frame + FRAME_MEPC) s + 4) s)"
    by (simp add: returned_def store64_def load64_def)
  then show lg: "logged (s\<lparr>mem := returned frame r (mem s)\<rparr>) y"
    unfolding y_def user_syscall_advance_def logged_fields(9) [OF l] by (simp add: logged_store l)
  have a8: "unat frame mod 8 = 0" by (rule user_running_frame(1) [OF u])
  have m: "load64 (frame + FRAME_MSTATUS) y = load64 (frame + FRAME_MSTATUS) s"
    using read_word_write [OF a8, of 32 9] read_word_write [OF a8, of 32 31] logged_fields(1) [OF lg]
    by (simp add: load64_def returned_def FRAME_A0_def FRAME_MEPC_def FRAME_MSTATUS_def)
  have f: "threads y = threads s" "current_thread y = current_thread s" "user_tasks y = user_tasks s"
    using logged_sched [OF lg] logged_fields [OF lg] by simp_all
  then show "thread_current_user_task_for_frame frame y = th_user_task (threads s c)"
    using u m by (auto simp: user_running_def Let_def thread_current_user_task_for_frame_def user_task_trap_frame_def
        user_task_is_ready_def task_at_def)
  have "same_sched s y" using logged_sched(1) [OF lg] by (simp add: same_sched_def)
  then show "sched_inv Q y" using same_sched_inv u by (auto simp: user_running_def)
  show "current_thread y = Some c" using f u by (simp add: user_running_def)
qed

text \<open>
  The effect of a call: exit, yield and sleep are the scheduler's operations; the others go on with
  the same frame.
\<close>

definition call_done :: "tid_t \<Rightarrow> u64 \<Rightarrow> 'a sched_scheme \<Rightarrow> u64 \<Rightarrow> 'a sched_scheme \<Rightarrow> bool" where
  "call_done c frame s g s' \<longleftrightarrow>
     (let nr = load64 (frame + FRAME_A7) s; n = load64 (frame + FRAME_A0) s; ok = s\<lparr>mem := returned frame USER_SYSCALL_OK (mem s)\<rparr> in
      if nr = USER_SYSCALL_EXIT then g = th_trap_frame (threads s (next_tid s)) \<and> exit_done c n s s'
      else if nr = USER_SYSCALL_YIELD \<or> nr = USER_SYSCALL_SLEEP \<and> n = 0 then yield_done c frame ok g s'
      else if nr = USER_SYSCALL_SLEEP then sleep_done c frame n ok g s'
      else g = frame \<and> same_sched s s' \<and> user_tasks s' = user_tasks s \<and>
        same_pool (s\<lparr>mem := returned frame (if nr = USER_SYSCALL_NOOP then USER_SYSCALL_OK else USER_SYSCALL_ERR_UNKNOWN) (mem s)\<rparr>) s')"

lemma exit_call:
  fixes s :: "'a syscalls_scheme"
  assumes u: "user_running Q c frame s" and l: "logged s x"
  shows "returns (user_syscall_exit frame x) (\<lambda>g s'. sched_inv Q s' \<and> g = th_trap_frame (threads s (next_tid s)) \<and>
    exit_done c (load64 (frame + FRAME_A0) s) s s')"
proof -
  let ?task = "th_user_task (threads s c)"
  define y where "y = console_write (''milestone 22: user address-space switching'' @ [CHR 0x0A])
     (user_syscall_report_exit (load64 (frame + FRAME_A0) (user_syscall_trace TRACE_USER_SYSCALL_RETURN frame USER_SYSCALL_EXIT
        (load64 (frame + FRAME_A0) x) x)) (user_syscall_trace TRACE_USER_SYSCALL_RETURN frame USER_SYSCALL_EXIT (load64 (frame + FRAME_A0) x) x))"
  have ly: "logged s y" unfolding y_def user_syscall_report_exit_def
    by (intro logged_intros logged_user_trace l)
  note f = logged_fields [OF ly] logged_sched [OF ly] logged_lists [OF ly]
  have e: "user_syscall_exit frame x = thread_exit_current_from_trap frame y"
    using user_running_frame(2) [OF u] u logged_call [OF l]
    by (simp add: user_syscall_exit_def y_def user_running_def Let_def)
  have inv: "sched_inv Q y" and cur: "current_thread y = Some c" and nz: "c \<noteq> 0"
    using u f same_sched_inv [OF f(11)] by (simp_all add: user_running_def)
  have own: "load64 (frame + FRAME_MSTATUS) y AND SSTATUS_SPP = 0 \<and> user_task_is_ready (th_user_task (threads y c)) y \<and>
      task_owns (task_at y (th_user_task (threads y c))) y"
    using u f same_pool_task(2) [OF f(16)] by (simp add: user_running_def Let_def)
  show ?thesis unfolding e thread_exit_current_from_trap_def
    by (rule returns_mono [OF exit_ok [OF inv cur nz own]]) (simp add: f logged_exit [OF ly])
qed

lemma yield_call:
  fixes s :: "'a sched_scheme"
  assumes u: "user_running Q c frame s" and l: "logged s x"
  shows "returns (user_syscall_yield frame x) (\<lambda>g s'. sched_inv Q s' \<and>
    yield_done c frame (s\<lparr>mem := returned frame USER_SYSCALL_OK (mem s)\<rparr>) g s')"
proof -
  note y = call_returned [OF u l, of USER_SYSCALL_OK]
  define z where "z = console_write (''user: syscall yield'' @ [CHR 0x0A])
     (user_syscall_trace TRACE_USER_SYSCALL_RETURN frame USER_SYSCALL_YIELD (sext64 USER_SYSCALL_OK)
       (store64 (frame + FRAME_A0) (sext64 USER_SYSCALL_OK) (user_syscall_advance frame x)))"
  have lz: "logged (s\<lparr>mem := returned frame USER_SYSCALL_OK (mem s)\<rparr>) z"
    and yz: "logged (store64 (frame + FRAME_A0) (sext64 USER_SYSCALL_OK) (user_syscall_advance frame x)) z"
    unfolding z_def by (intro logged_intros logged_user_trace y(1))+
  have e: "user_syscall_yield frame x = thread_yield_current_from_trap frame z"
    using user_running_frame(2) [OF u] u logged_call [OF l]
    by (simp add: user_syscall_yield_def user_syscall_require_task_def z_def user_running_def Let_def)
  have inv: "sched_inv Q z" "current_thread z = Some c" "frame \<noteq> 0"
    using y(3,4) u logged_sched(3) [OF yz] same_sched_inv [OF logged_sched(1) [OF yz]] by (simp_all add: user_running_def)
  show ?thesis unfolding e by (rule returns_mono [OF yield_ok [OF inv]]) (simp add: logged_switch [OF lz])
qed

lemma sleep_call:
  fixes s :: "'a sched_scheme"
  assumes u: "user_running Q c frame s" and l: "logged s x"
  defines "n \<equiv> load64 (frame + FRAME_A0) s" and "ok \<equiv> s\<lparr>mem := returned frame USER_SYSCALL_OK (mem s)\<rparr>"
  shows "returns (user_syscall_sleep frame x) (\<lambda>g s'. sched_inv Q s' \<and>
    (if n = 0 then yield_done c frame ok g s' else sleep_done c frame n ok g s'))"
proof -
  note y = call_returned [OF u l, of USER_SYSCALL_OK]
  define z where "z = console_write [CHR 0x0A] (console_write_hex64 n (console_write ''user: syscall sleep ticks=''
     (user_syscall_trace TRACE_USER_SYSCALL_RETURN frame USER_SYSCALL_SLEEP (sext64 USER_SYSCALL_OK)
       (store64 (frame + FRAME_A0) (sext64 USER_SYSCALL_OK) (user_syscall_advance frame x)))))"
  have lz: "logged ok z" and yz: "logged (store64 (frame + FRAME_A0) (sext64 USER_SYSCALL_OK) (user_syscall_advance frame x)) z"
    unfolding z_def ok_def by (intro logged_intros logged_user_trace y(1))+
  have e: "user_syscall_sleep frame x = thread_sleep_current_from_trap frame n z"
    using user_running_frame(2) [OF u] u logged_call [OF l] logged_fields(9) [OF l]
    by (simp add: user_syscall_sleep_def user_syscall_require_task_def z_def user_running_def Let_def n_def)
  have inv: "sched_inv Q z" "current_thread z = Some c" "c \<noteq> 0" "frame \<noteq> 0"
    using y(3,4) u logged_sched(3) [OF yz] same_sched_inv [OF logged_sched(1) [OF yz]] by (simp_all add: user_running_def)
  show ?thesis unfolding e by (rule returns_mono [OF sleep_ok [OF inv]]) (auto simp: logged_switch [OF lz] split: if_splits)
qed

text \<open>The calls that go straight back: the state differs in the frame, the log and, for a no-op, the counters.\<close>

lemma stay_done:
  fixes s :: "'a sched_scheme"
  assumes u: "user_running Q c frame s" and lg: "logged (s\<lparr>mem := returned frame r (mem s)\<rparr>) z"
    and z': "same_sched z z'" "user_tasks z' = user_tasks z" "same_pool z z'"
  shows "sched_inv Q z' \<and> same_sched s z' \<and> user_tasks z' = user_tasks s \<and> same_pool (s\<lparr>mem := returned frame r (mem s)\<rparr>) z'"
proof -
  have "same_sched s z'" using logged_sched(1) [OF lg] z'(1) by (simp add: same_sched_def)
  moreover from this have "sched_inv Q z'" using same_sched_inv u by (auto simp: user_running_def)
  ultimately show ?thesis using logged_fields [OF lg] z' same_pool_trans [OF logged_sched(6) [OF lg]] by simp
qed

lemma noop_call:
  fixes s :: "'a syscalls_scheme"
  assumes u: "user_running Q c frame s" and l: "logged s x"
  shows "returns (user_syscall_noop frame start x) (\<lambda>g s'. sched_inv Q s' \<and> g = frame \<and> same_sched s s' \<and>
    user_tasks s' = user_tasks s \<and> same_pool (s\<lparr>mem := returned frame USER_SYSCALL_OK (mem s)\<rparr>) s')"
proof -
  note y = call_returned [OF u l, of USER_SYSCALL_OK]
  define z where "z = snd (csr_read_cycle (user_syscall_trace TRACE_USER_SYSCALL_RETURN frame USER_SYSCALL_NOOP (sext64 USER_SYSCALL_OK)
       (store64 (frame + FRAME_A0) (sext64 USER_SYSCALL_OK) (user_syscall_advance frame x))))"
  have lz: "logged (s\<lparr>mem := returned frame USER_SYSCALL_OK (mem s)\<rparr>) z"
    unfolding z_def by (intro logged_intros logged_user_trace y(1))
  have "\<exists>b. user_syscall_noop frame start x = Inr (frame, z\<lparr>user_noop_benchmark := b\<rparr>)"
  proof -
    have "thread_current_user_task_for_frame frame x \<noteq> 0"
      using user_running_frame(2) [OF u] u logged_call [OF l] by (simp add: user_running_def Let_def)
    note t = if_not_P [OF this]
    show ?thesis
      unfolding user_syscall_noop_def user_syscall_require_task_def t bindE_Inr prod.case Let_def case_prod_beta snd_conv z_def [symmetric]
      by (rule exI, rule refl)
  qed
  then obtain b where e: "user_syscall_noop frame start x = Inr (frame, z\<lparr>user_noop_benchmark := b\<rparr>)" by blast
  have "same_sched z (z\<lparr>user_noop_benchmark := b\<rparr>)" by (simp add: same_sched_def)
  moreover have "same_pool z (z\<lparr>user_noop_benchmark := b\<rparr>)" by (simp add: same_pool_def)
  ultimately show ?thesis unfolding e using stay_done [OF u lz, of "z\<lparr>user_noop_benchmark := b\<rparr>"] by simp
qed

lemma dispatch_done:
  fixes s :: "'a syscalls_scheme"
  assumes u: "user_running Q c frame s" and nr: "load64 (frame + FRAME_A7) s \<noteq> USER_SYSCALL_ACCEL_MEMSET"
  shows "\<exists>g s'. user_syscall_dispatch frame s = Inr (Done g, s') \<and> sched_inv Q s' \<and> call_done c frame s g s'"
proof -
  let ?nr = "load64 (frame + FRAME_A7) s" and ?x0 = "snd (csr_read_cycle s)"
  define start where "start = fst (csr_read_cycle s)"
  define x where "x = user_syscall_trace TRACE_USER_SYSCALL_ENTER frame ?nr (load64 (frame + FRAME_MEPC) ?x0) ?x0"
  have l0: "logged s ?x0" by (intro logged_intros)
  have lx: "logged s x" unfolding x_def by (intro logged_intros logged_user_trace)
  have n0: "load64 (frame + FRAME_A7) ?x0 = ?nr" using logged_fields(9) [OF l0] by blast
  have fr: "frame \<noteq> 0" using u by (simp add: user_running_def)
  have task: "thread_current_user_task_for_frame frame x \<noteq> 0"
    using user_running_frame(2) [OF u] u logged_call [OF lx] by (simp add: user_running_def Let_def)
  note y = call_returned [OF u lx, of USER_SYSCALL_ERR_UNKNOWN]
  define z where "z = console_write (''user: unknown syscall'' @ [CHR 0x0A])
     (user_syscall_trace TRACE_USER_SYSCALL_ERROR frame ?nr (sext64 USER_SYSCALL_ERR_UNKNOWN)
       (store64 (frame + FRAME_A0) (sext64 USER_SYSCALL_ERR_UNKNOWN) (user_syscall_advance frame x)))"
  have lz: "logged (s\<lparr>mem := returned frame USER_SYSCALL_ERR_UNKNOWN (mem s)\<rparr>) z"
    unfolding z_def by (intro logged_intros logged_user_trace y(1))
  have e: "user_syscall_dispatch frame s =
     (if ?nr = USER_SYSCALL_EXIT then done_frame (user_syscall_exit frame x)
      else if ?nr = USER_SYSCALL_YIELD then done_frame (user_syscall_yield frame x)
      else if ?nr = USER_SYSCALL_SLEEP then done_frame (user_syscall_sleep frame x)
      else if ?nr = USER_SYSCALL_NOOP then done_frame (user_syscall_noop frame start x)
      else Inr (Done frame, z))"
    unfolding user_syscall_dispatch_def if_not_P [OF fr] case_prod_beta Let_def n0 x_def [symmetric] start_def [symmetric] if_not_P [OF nr]
    using task by (simp add: user_syscall_require_task_def z_def)
  have d: "\<exists>g s'. done_frame m = Inr (Done g, s') \<and> sched_inv Q s' \<and> P g s'"
    if "returns m (\<lambda>g s'. sched_inv Q s' \<and> P g s')" for m and P :: "u64 \<Rightarrow> 'a syscalls_scheme \<Rightarrow> bool"
    using that by (auto simp: done_frame_def elim!: returnsE)
  consider "?nr = USER_SYSCALL_EXIT" | "?nr = USER_SYSCALL_YIELD" | "?nr = USER_SYSCALL_SLEEP" | "?nr = USER_SYSCALL_NOOP"
    | (unknown) "?nr \<notin> {USER_SYSCALL_EXIT, USER_SYSCALL_YIELD, USER_SYSCALL_SLEEP, USER_SYSCALL_NOOP}" by blast
  then show ?thesis
  proof cases
    case 1
    with d [OF exit_call [OF u lx]] show ?thesis unfolding e by (simp add: call_done_def)
  next
    case 2
    with d [OF yield_call [OF u lx]] show ?thesis unfolding e by (simp add: call_done_def syscall_numbers)
  next
    case 3
    with d [OF sleep_call [OF u lx]] show ?thesis unfolding e
      by (cases "load64 (frame + FRAME_A0) s = 0") (simp_all add: call_done_def syscall_numbers Let_def)
  next
    case 4
    with d [OF noop_call [OF u lx]] show ?thesis unfolding e by (simp add: call_done_def syscall_numbers)
  next
    case unknown
    have "sched_inv Q z \<and> same_sched s z \<and> user_tasks z = user_tasks s \<and> 
        same_pool (s\<lparr>mem := returned frame USER_SYSCALL_ERR_UNKNOWN (mem s)\<rparr>) z"
      by (rule stay_done [OF u lz]) (simp_all add: same_sched_def same_pool_def)
    with unknown show ?thesis unfolding e by (simp add: call_done_def syscall_numbers)
  qed
qed

lemma user_running_frames:
  fixes s :: "'a sched_scheme"
  assumes "user_running Q c frame s"
  shows "unat frame mod 4096 = 0" and "root = vm_root (ut_address_space (task_at s (th_user_task (threads s c)))) \<Longrightarrow>
    vm_inv root s \<and> frame \<notin> pt_tables (mem s) root"
proof -
  let ?t = "task_at s (th_user_task (threads s c))"
  have o: "task_owns ?t s" "ut_trap_context ?t = frame" "frame \<noteq> 0" "vm_root (ut_address_space ?t) \<noteq> 0"
    using assms by (simp_all add: user_running_def Let_def user_task_is_ready_def)
  then have "frame \<in> managed_frames s - task_tables ?t s" "pages_inv s"
    using allocated_subset [of s] by (auto simp: task_owns_def task_pages_def)
  then show "unat frame mod 4096 = 0" using managed_frame_props(2) by blast
  show "root = vm_root (ut_address_space ?t) \<Longrightarrow> vm_inv root s \<and> frame \<notin> pt_tables (mem s) root"
    using o \<open>frame \<in> _\<close> by (simp add: task_owns_def task_tables_def Let_def)
qed

text \<open>Any word of the frame but the saved status may change.\<close>

lemma user_running_store:
  fixes s :: "'a sched_scheme"
  assumes u: "user_running Q c frame s" and off: "unat off < 4096" "unat off mod 8 = 0" "off \<noteq> FRAME_MSTATUS"
  shows "user_running Q c frame (store64 (frame + off) v s)"
proof -
  let ?s = "store64 (frame + off) v s" and ?t = "task_at s (th_user_task (threads s c))"
  let ?root = "vm_root (ut_address_space ?t)"
  note f = user_running_frames [OF u]
  have o: "task_owns ?t s" "?root \<noteq> 0" using u by (simp_all add: user_running_def Let_def user_task_is_ready_def)
  have ms: "mem ?s = write64 (mem s) (frame + off) v" by (simp add: store64_def)
  have ag: "agree_on (pt_tables (mem s) ?root) (mem s) (mem ?s)"
    unfolding ms by (rule agree_on_mono [OF store_in_page [OF f(1) off(1,2)]]) (use f(2) in auto)
  have p: "pages_inv ?s = pages_inv s" "allocated ?s = allocated s"
    by (simp_all add: store64_def pages_inv_def used_pages_def allocated_def page_addr_from_index_def)
  have inv: "pages_inv s" using o by (simp add: task_owns_def)
  note vm = vm_inv_mem_cong [OF conjunct1 [OF f(2) [OF refl]] ag, unfolded p, OF inv subset_refl]
  have "task_owns ?t ?s" using o vm by (simp add: task_owns_def p task_tables_def Let_def)
  moreover have "load64 (frame + FRAME_MSTATUS) ?s = load64 (frame + FRAME_MSTATUS) s"
    unfolding load64_def ms by (rule read_other_field [OF f(1)]) (use off in \<open>simp_all add: FRAME_MSTATUS_def\<close>)
  moreover have "same_sched s ?s" by (simp add: same_sched_def)
  then have "sched_inv Q ?s" using u same_sched_inv by (auto simp: user_running_def)
  ultimately show ?thesis using u
    by (simp add: user_running_def Let_def user_task_is_ready_def task_at_def store64_def)
qed

lemma user_syscall_total:
  fixes s :: "'a traps_scheme"
  assumes "user_running Q c frame s" and "load64 (frame + FRAME_MCAUSE) s = MCAUSE_ECALL_U_MODE"
    and "load64 (frame + FRAME_A7) s \<noteq> USER_SYSCALL_ACCEL_MEMSET"
  shows "\<exists>g s'. trap_handle frame s = Some (Inr (Done g, s')) \<and> sched_inv Q s' \<and> call_done c frame s g s'"
proof -
  have "MCAUSE_ECALL_U_MODE AND MCAUSE_INTERRUPT = 0" "MCAUSE_ECALL_U_MODE AND MCAUSE_CODE_MASK = MCAUSE_ECALL_U_MODE"
    by (simp_all add: MCAUSE_ECALL_U_MODE_def MCAUSE_INTERRUPT_def MCAUSE_CODE_MASK_def)
  then have "trap_handle frame s = Some (user_syscall_dispatch frame s)"
    unfolding trap_handle_def assms(2) Let_def by (simp add: MCAUSE_ECALL_U_MODE_def MCAUSE_BREAKPOINT_def)
  then show ?thesis using dispatch_done [OF assms(1,3)] by simp
qed

lemma user_running_keep:
  fixes s :: "'a sched_scheme"
  assumes u: "user_running Q c frame s" and k: "same_sched s s'" "user_tasks s' = user_tasks s" "same_pool s s'"
  shows "user_running Q c frame s'"
proof -
  have "task_at s' = task_at s" "mem s' = mem s" using k by (simp_all add: task_at_def fun_eq_iff same_pool_def)
  then show ?thesis
    using u k same_sched_inv [OF k(1)] same_pool_task(2) [OF k(3)]
    by (simp add: user_running_def Let_def user_task_is_ready_def load64_def same_sched_def)
qed

lemma user_running_returned:
  fixes s :: "'a sched_scheme"
  assumes "user_running Q c frame s"
  shows "user_running Q c frame (s\<lparr>mem := returned frame r (mem s)\<rparr>)"
proof -
  have "s\<lparr>mem := returned frame r (mem s)\<rparr> =
      store64 (frame + FRAME_A0) (sext64 r) (store64 (frame + FRAME_MEPC) (load64 (frame + FRAME_MEPC) s + 4) s)"
    by (simp add: returned_def store64_def load64_def)
  then show ?thesis
    by (simp add: user_running_store assms FRAME_A0_def FRAME_MEPC_def FRAME_MSTATUS_def)
qed

lemma return_to_user:
  fixes s :: "'a sched_scheme"
  assumes u: "user_running Q c frame s"
  shows "trap_return_from_handler frame s = Inr (Userret (USER_TRAMPOLINE_VA + (userret_addr (link s) - trampoline_start (link s)))
      (ut_user_satp (task_at s (th_user_task (threads s c)))) USER_TRAP_CONTEXT_VA,
      upd_thread c (\<lambda>th. th\<lparr>th_trap_frame := frame\<rparr>) s)"
    and "user_running Q c frame (upd_thread c (\<lambda>th. th\<lparr>th_trap_frame := frame\<rparr>) s)"
proof -
  let ?s = "upd_thread c (\<lambda>th. th\<lparr>th_trap_frame := frame\<rparr>) s" and ?task = "th_user_task (threads s c)"
  have facts: "current_thread s = Some c" "c \<noteq> 0" "frame \<noteq> 0" "?task \<noteq> 0" "user_task_is_ready ?task s" "task_owns (task_at s ?task) s"
    "ut_trap_context (task_at s ?task) = frame" "load64 (frame + FRAME_MSTATUS) s AND SSTATUS_SPP = 0" "sched_inv Q s"
    using u by (simp_all add: user_running_def Let_def)
  have t: "task_at ?s = task_at s" "mem ?s = mem s" by (simp_all add: task_at_def fun_eq_iff upd_thread_def)
  have r: "user_task_is_ready k ?s = user_task_is_ready k s" for k by (simp add: user_task_is_ready_def t)
  have p: "same_pool s ?s" by (simp add: same_pool_def upd_thread_def)
  show "trap_return_from_handler frame s = Inr (Userret (USER_TRAMPOLINE_VA + (userret_addr (link s) - trampoline_start (link s)))
      (ut_user_satp (task_at s ?task)) USER_TRAP_CONTEXT_VA, ?s)"
    using facts r user_running_frame(2) [OF u] p
    by (simp add: trap_return_from_handler_def thread_set_current_trap_frame_from_trap_def trap_return_to_user_def Let_def
        user_task_trap_frame_def user_task_satp_def t user_task_is_ready_def load64_def same_pool_def)
  note c = current_facts [OF facts(9) facts(1)]
  have "thread_ok c ((threads s c)\<lparr>th_trap_frame := frame\<rparr>)" using c(11) [OF facts(2)] facts(3) by (simp add: thread_ok_def)
  then have "sched_inv Q ?s"
    by (intro sched_inv_upd [OF facts(9), where t = c and x = "(threads s c)\<lparr>th_trap_frame := frame\<rparr>"])
      (use c(5) facts(2) in simp_all)
  then show "user_running Q c frame ?s"
    using facts same_pool_task(2) [OF p] by (simp add: user_running_def Let_def r t load64_def)
qed

text \<open>A call that the handler ends with the caller's own frame.\<close>

lemma back_to_user:
  fixes s :: "'a traps_scheme"
  assumes u: "user_running Q c frame s" and h: "trap_handle frame s = Some (Inr (Done frame, s1))"
    and k: "same_sched s s1" "user_tasks s1 = user_tasks s" "same_pool (s\<lparr>mem := returned frame r (mem s)\<rparr>) s1"
  defines "s' \<equiv> upd_thread c (\<lambda>th. th\<lparr>th_trap_frame := frame\<rparr>) s1"
  shows "trap_handle_user frame s = Some (Inr (Inr (Userret
      (USER_TRAMPOLINE_VA + (userret_addr (link s) - trampoline_start (link s)))
      (ut_user_satp (task_at s (th_user_task (threads s c)))) USER_TRAP_CONTEXT_VA), s'))"
    and "user_running Q c frame s'" and "mem s' = returned frame r (mem s)"
    and "threads s' = (threads s)(c := (threads s c)\<lparr>th_trap_frame := frame\<rparr>)"
proof -
  have "same_sched (s\<lparr>mem := returned frame r (mem s)\<rparr>) s1" "user_tasks s1 = user_tasks (s\<lparr>mem := returned frame r (mem s)\<rparr>)"
    using k by (simp_all add: same_sched_def)
  from user_running_keep [OF user_running_returned [OF u] this k(3)] have u1: "user_running Q c frame s1" .
  have f: "link s1 = link s" "threads s1 = threads s" "task_at s1 = task_at s" "mem s1 = returned frame r (mem s)"
    using k by (simp_all add: same_sched_def same_pool_def task_at_def fun_eq_iff)
  show "mem s' = returned frame r (mem s)" "threads s' = (threads s)(c := (threads s c)\<lparr>th_trap_frame := frame\<rparr>)"
    by (simp_all add: s'_def upd_thread_def f)
  show "user_running Q c frame s'" unfolding s'_def by (rule return_to_user(2) [OF u1])
  show "trap_handle_user frame s = Some (Inr (Inr (Userret (USER_TRAMPOLINE_VA + (userret_addr (link s) - trampoline_start (link s)))
      (ut_user_satp (task_at s (th_user_task (threads s c)))) USER_TRAP_CONTEXT_VA), s'))"
    unfolding trap_handle_user_def h using return_to_user(1) [OF u1] by (simp add: s'_def f)
qed

text \<open>
  C10: A system call of the running user thread, other than the accelerator request, never panics. Exit, yield
  and sleep are the scheduler's operations of that name; yield and sleep have first put 0 into the caller's
  \<open>a0\<close> and moved its program counter past the call. The no-op and every unknown number go straight back to
  the caller with 0 or -1, the scheduler and all tasks as they were, and no byte of memory changed outside
  these two registers of the frame.
\<close>

theorem user_syscall_correct:
  fixes s :: "'a traps_scheme"
  assumes "user_running Q c frame s" and "load64 (frame + FRAME_MCAUSE) s = MCAUSE_ECALL_U_MODE"
    and "load64 (frame + FRAME_A7) s \<noteq> USER_SYSCALL_ACCEL_MEMSET"
  shows "\<exists>g s'. trap_handle frame s = Some (Inr (Done g, s')) \<and> sched_inv Q s' \<and> call_done c frame s g s'"
  by (rule user_syscall_total [OF assms])

text \<open>
  C37: A no-op or unknown system call is a round trip: the trap handler leaves to the trampoline's return code
  with the caller's page table, the frame differs only in the program counter, four bytes further, and in
  \<open>a0\<close>, the thread still runs and can trap again.
\<close>

theorem user_call_round_trip:
  fixes s :: "'a traps_scheme"
  assumes "user_running Q c frame s" and "load64 (frame + FRAME_MCAUSE) s = MCAUSE_ECALL_U_MODE"
    and "load64 (frame + FRAME_A7) s \<notin> {USER_SYSCALL_EXIT, USER_SYSCALL_YIELD, USER_SYSCALL_SLEEP, USER_SYSCALL_ACCEL_MEMSET}"
  shows "\<exists>s'. trap_handle_user frame s = Some (Inr (Inr (Userret
      (USER_TRAMPOLINE_VA + (userret_addr (link s) - trampoline_start (link s)))
      (ut_user_satp (task_at s (th_user_task (threads s c)))) USER_TRAP_CONTEXT_VA), s')) \<and> user_running Q c frame s' \<and>
    mem s' = returned frame (if load64 (frame + FRAME_A7) s = USER_SYSCALL_NOOP then 0 else -1) (mem s) \<and>
    threads s' = (threads s)(c := (threads s c)\<lparr>th_trap_frame := frame\<rparr>)"
proof -
  define r where "r = (if load64 (frame + FRAME_A7) s = USER_SYSCALL_NOOP then USER_SYSCALL_OK else USER_SYSCALL_ERR_UNKNOWN)"
  have "load64 (frame + FRAME_A7) s \<noteq> USER_SYSCALL_ACCEL_MEMSET" using assms(3) by blast
  from user_syscall_total [OF assms(1,2) this] obtain s1 where s1: "trap_handle frame s = Some (Inr (Done frame, s1))"
    "same_sched s s1" "user_tasks s1 = user_tasks s" "same_pool (s\<lparr>mem := returned frame r (mem s)\<rparr>) s1"
    using assms(3) by (auto simp: call_done_def Let_def r_def)
  show ?thesis
    using back_to_user [OF assms(1) s1] by (intro exI conjI) (auto simp: r_def USER_SYSCALL_OK_def USER_SYSCALL_ERR_UNKNOWN_def)
qed

section \<open>A concrete call\<close>

text \<open>The concrete scheduler with the state of the components above it.\<close>

definition demo_traps :: "sched \<Rightarrow> traps" where
  "demo_traps s = sched.extend s
     \<lparr>mutexes = (\<lambda>_. \<lparr>mx_owner = MUTEX_NO_OWNER, mx_name = None\<rparr>), devices = (\<lambda>_. \<lparr>dv_resource = None, dv_driver = None\<rparr>),
      device_count = 0, devices_initialized = False, ar_cmd = 0, ar_in_use = False, ar_completed = False,
      ar_result = ACCEL_ERR_IO, ar_reset_required = False, ar_submitter = THREAD_INVALID_TID, user_exit_code = 0,
      user_noop_benchmark = \<lparr>bm_iterations = 0, bm_cycles_total = 0, bm_cycles_min = 0, bm_cycles_max = 0\<rparr>,
      config_scenario = 0, trap_selftest_seen = 1\<rparr>"

lemma demo_traps_simps [simp]:
  "mem (demo_traps s) = mem s" "link (demo_traps s) = link s" "threads (demo_traps s) = threads s"
  "current_thread (demo_traps s) = current_thread s" "task_at (demo_traps s) = task_at s"
  "ticks (demo_traps s) = ticks s" "ready_list (demo_traps s) = ready_list s" "sleep_list (demo_traps s) = sleep_list s"
  "wait_list (demo_traps s) = wait_list s" "load64 a (demo_traps s) = load64 a s" "trap_selftest_seen (demo_traps s) = 1"
  by (simp_all add: demo_traps_def sched.defs ready_list_def sleep_list_def wait_list_def task_at_def fun_eq_iff load64_def)

lemma demo_traps_same:
  "sched_inv Q (demo_traps s) = sched_inv Q s" "pages_inv (demo_traps s) = pages_inv s"
  "allocated (demo_traps s) = allocated s" "vm_inv root (demo_traps s) = vm_inv root s"
  "vm_mapping root (demo_traps s) = vm_mapping root s" "user_task_is_ready k (demo_traps s) = user_task_is_ready k s"
  "task_owns t (demo_traps s) = task_owns t s"
proof -
  show "sched_inv Q (demo_traps s) = sched_inv Q s"
    by (simp add: sched_inv_def consistent_def queues_ok_def) (simp add: demo_traps_def sched.defs)
  show p: "pages_inv (demo_traps s) = pages_inv s" "allocated (demo_traps s) = allocated s"
    by (simp_all add: pages_inv_def used_pages_def allocated_def page_addr_from_index_def demo_traps_def sched.defs)
  show v: "vm_inv root (demo_traps s) = vm_inv root s" for root by (simp add: vm_inv_def p)
  show m: "vm_mapping root (demo_traps s) = vm_mapping root s" for root by (rule ext) (simp add: vm_mapping_def)
  show "user_task_is_ready k (demo_traps s) = user_task_is_ready k s" by (simp add: user_task_is_ready_def)
  show "task_owns t (demo_traps s) = task_owns t s" by (simp add: task_owns_def p v m task_tables_def Let_def)
qed

lemma demo_user_trap:
  obtains s :: traps and f where "user_running {0x100} 1 f s" and "load64 (f + FRAME_MCAUSE) s = MCAUSE_ECALL_U_MODE"
    and "load64 (f + FRAME_A7) s = n"
proof -
  obtain s :: sched where s: "sched_inv {0x100} s" "current_thread s = Some 1" "th_user_task (threads s 1) = 0x80002800"
    "user_task_is_ready 0x80002800 s" "task_owns (task_at s 0x80002800) s" "next_tid s = 2"
    "load64 (ut_trap_context (task_at s 0x80002800) + FRAME_MSTATUS) s = SSTATUS_SPIE"
    by (rule demo_user_running) blast
  let ?f = "ut_trap_context (task_at s 0x80002800)"
  have "user_running {0x100} 1 ?f (demo_traps s)"
    using s by (simp add: user_running_def Let_def demo_traps_same user_task_is_ready_def SSTATUS_SPIE_def SSTATUS_SPP_def)
  then have "user_running {0x100} 1 ?f (store64 (?f + FRAME_A7) n (demo_traps s))" (is "user_running _ _ _ ?s1")
    by (rule user_running_store) (simp_all add: FRAME_A7_def FRAME_MSTATUS_def)
  then have u: "user_running {0x100} 1 ?f (store64 (?f + FRAME_MCAUSE) MCAUSE_ECALL_U_MODE ?s1)" (is "user_running _ _ _ ?s2")
    by (rule user_running_store) (simp_all add: FRAME_MCAUSE_def FRAME_MSTATUS_def)
  have "unat ?f mod 4096 = 0" by (rule user_running_frames(1) [OF u])
  then have "load64 (?f + FRAME_A7) ?s2 = n" "load64 (?f + FRAME_MCAUSE) ?s2 = MCAUSE_ECALL_U_MODE"
    by (simp_all add: load64_def store64_def cell64.rd_wr read_other_field FRAME_A7_def FRAME_MCAUSE_def)
  then show ?thesis by (intro that [OF u])
qed

theorem user_syscall_correct_witness:
  "\<exists>(s :: traps) f g s'. load64 (f + FRAME_A7) s = USER_SYSCALL_YIELD \<and> trap_handle f s = Some (Inr (Done g, s')) \<and>
     sched_inv {0x100} s' \<and> call_done 1 f s g s'"
proof -
  obtain s :: traps and f where s: "user_running {0x100} 1 f s" "load64 (f + FRAME_MCAUSE) s = MCAUSE_ECALL_U_MODE"
    "load64 (f + FRAME_A7) s = USER_SYSCALL_YIELD" by (rule demo_user_trap)
  then show ?thesis using user_syscall_correct [OF s(1,2)] by (auto simp: syscall_numbers)
qed

theorem user_call_round_trip_witness:
  "\<exists>(s :: traps) f e s'. load64 (f + FRAME_A7) s = 77 \<and> trap_handle_user f s = Some (Inr (Inr e, s')) \<and>
     mem s' = returned f (-1) (mem s)"
proof -
  obtain s :: traps and f where s: "user_running {0x100} 1 f s" "load64 (f + FRAME_MCAUSE) s = MCAUSE_ECALL_U_MODE"
    "load64 (f + FRAME_A7) s = 77" by (rule demo_user_trap)
  then show ?thesis using user_call_round_trip [OF s(1,2)] by (auto simp: syscall_numbers)
qed

end
