(* ===== verification/Accel_Spec.thy ===== *)
theory Accel_Spec
  imports Accel Syscall_Spec
begin

text \<open>
  The simulated accelerator: an abstract device on registers and memory, and one step of the code
  against one step of it.
\<close>

section \<open>Bytes and ranges\<close>

definition byte_range :: "u64 \<Rightarrow> nat \<Rightarrow> u64 set" where
  "byte_range a n = {x. unat (x - a) < n}"

text \<open>Equality of memory outside a set of bytes.\<close>

definition same_outside :: "u64 set \<Rightarrow> memory \<Rightarrow> memory \<Rightarrow> bool" where
  "same_outside A m m' \<longleftrightarrow> (\<forall>x. x \<notin> A \<longrightarrow> m' x = m x)"

lemma same_outside_refl [simp]: "same_outside A m m"
  by (simp add: same_outside_def)

lemma same_outside_trans: "same_outside A m m' \<Longrightarrow> same_outside A m' m'' \<Longrightarrow> same_outside A m m''"
  by (simp add: same_outside_def)

lemma same_outside_mono: "same_outside A m m' \<Longrightarrow> A \<subseteq> B \<Longrightarrow> same_outside B m m'"
  by (auto simp: same_outside_def)

lemma range_iff:
  assumes "unat a + n \<le> 2 ^ 64"
  shows "x \<in> byte_range a n \<longleftrightarrow> unat a \<le> unat x \<and> unat x < unat a + n"
proof
  assume x: "x \<in> byte_range a n"
  have "unat a + unat (x - a) < 2 ^ 64" using x assms by (simp add: byte_range_def)
  then have "unat (a + (x - a)) = unat a + unat (x - a)" by (subst unat_add_lem [THEN iffD1]) simp_all
  then show "unat a \<le> unat x \<and> unat x < unat a + n" using x by (simp add: byte_range_def)
qed (auto simp: byte_range_def unat_sub word_le_nat_alt)

lemma range_at: "i < n \<Longrightarrow> n \<le> 2 ^ 64 \<Longrightarrow> a + of_nat i \<in> byte_range a n"
  by (simp add: byte_range_def unat_of_nat)

lemma range_elem: "x \<in> byte_range a n \<Longrightarrow> \<exists>i<n. x = a + of_nat i"
  by (intro exI [of _ "unat (x - a)"]) (simp add: byte_range_def)

lemma range_write:
  "same_outside (byte_range a 4) m (write32 m a v)" "same_outside (byte_range a 8) m (write64 m a w)"
  unfolding same_outside_def
  by (intro allI impI, rule cell32.wr_outside cell64.wr_outside, use range_at [of _ 4 a] range_at [of _ 8 a] in force)+

lemma range_read:
  "same_outside A m m' \<Longrightarrow> byte_range a 4 \<inter> A = {} \<Longrightarrow> read32 m' a = read32 m a"
  "same_outside A m m' \<Longrightarrow> byte_range a 8 \<inter> A = {} \<Longrightarrow> read64 m' a = read64 m a"
  unfolding same_outside_def
  by (rule cell32.rd_local cell64.rd_local, use range_at [of _ 4 a] range_at [of _ 8 a] in force)+

lemma range_fill: "n \<le> 2 ^ 64 \<Longrightarrow> same_outside (byte_range a n) m (fill_bytes m a v n)"
  by (simp add: same_outside_def fill_bytes_apply byte_range_def)

section \<open>Registers\<close>

text \<open>The register block is aligned, does not wrap around, and lies outside the managed memory.\<close>

definition regs_ok :: "'a pages_scheme \<Rightarrow> bool" where
  "regs_ok s \<longleftrightarrow> (let a = unat (accel_mmio_addr (link s)) in a mod 8 = 0 \<and> a + 32 < 2 ^ 64 \<and>
     (a + 32 \<le> unat (managed_start s) \<or> unat (managed_end s) \<le> a))"

abbreviation reg_bytes :: "'a hw_scheme \<Rightarrow> u64 set" where
  "reg_bytes s \<equiv> byte_range (accel_mmio_addr (link s)) 32"

record regs =
  rg_status :: u32
  rg_control :: u32
  rg_irq :: u32
  rg_ack :: u32
  rg_cmd :: u64

definition regs_at :: "u64 \<Rightarrow> memory \<Rightarrow> regs" where
  "regs_at a m = \<lparr>rg_status = read32 m (a + ACCEL_REG_STATUS), rg_control = read32 m (a + ACCEL_REG_CONTROL),
     rg_irq = read32 m (a + ACCEL_REG_IRQ_STATUS), rg_ack = read32 m (a + ACCEL_REG_IRQ_ACK),
     rg_cmd = read64 m (a + ACCEL_REG_CMD_BASE)\<rparr>"

abbreviation regs_of :: "'a hw_scheme \<Rightarrow> regs" where
  "regs_of s \<equiv> regs_at (accel_mmio_addr (link s)) (mem s)"

lemma reg_unat:
  assumes "unat a + 32 < 2 ^ 64"
  shows "unat (a + ACCEL_REG_STATUS) = unat a + 4" "unat (a + ACCEL_REG_CONTROL) = unat a + 8"
    "unat (a + ACCEL_REG_IRQ_STATUS) = unat a + 12" "unat (a + ACCEL_REG_IRQ_ACK) = unat a + 16"
    "unat (a + ACCEL_REG_CMD_BASE) = unat a + 24"
  using assms by (simp_all only: accel_regs) (subst unat_add_lem [THEN iffD1]; simp)+

lemma ranges_apart:
  assumes "unat a + n \<le> 2 ^ 64" "unat b + k \<le> 2 ^ 64" "unat a + n \<le> unat b \<or> unat b + k \<le> unat a"
  shows "byte_range a n \<inter> byte_range b k = {}"
  using assms by (auto simp: range_iff)

lemma reg_write:
  assumes "unat a + 32 < 2 ^ 64"
  shows "regs_at a (write32 m (a + ACCEL_REG_STATUS) v) = (regs_at a m)\<lparr>rg_status := v\<rparr>"
    and "regs_at a (write32 m (a + ACCEL_REG_CONTROL) v) = (regs_at a m)\<lparr>rg_control := v\<rparr>"
    and "regs_at a (write32 m (a + ACCEL_REG_IRQ_STATUS) v) = (regs_at a m)\<lparr>rg_irq := v\<rparr>"
    and "regs_at a (write32 m (a + ACCEL_REG_IRQ_ACK) v) = (regs_at a m)\<lparr>rg_ack := v\<rparr>"
    and "regs_at a (write64 m (a + ACCEL_REG_CMD_BASE) w) = (regs_at a m)\<lparr>rg_cmd := w\<rparr>"
proof -
  note u = reg_unat [OF assms]
  have a32: "read32 (write32 m x v) y = read32 m y" if "byte_range y 4 \<inter> byte_range x 4 = {}" for x y
    using range_read(1) [OF range_write(1)] that by blast
  have a64: "read64 (write32 m x v) y = read64 m y" if "byte_range y 8 \<inter> byte_range x 4 = {}" for x y
    using range_read(2) [OF range_write(1)] that by blast
  have b32: "read32 (write64 m x w) y = read32 m y" if "byte_range y 4 \<inter> byte_range x 8 = {}" for x y
    using range_read(1) [OF range_write(2)] that by blast
  show "regs_at a (write32 m (a + ACCEL_REG_STATUS) v) = (regs_at a m)\<lparr>rg_status := v\<rparr>"
    "regs_at a (write32 m (a + ACCEL_REG_CONTROL) v) = (regs_at a m)\<lparr>rg_control := v\<rparr>"
    "regs_at a (write32 m (a + ACCEL_REG_IRQ_STATUS) v) = (regs_at a m)\<lparr>rg_irq := v\<rparr>"
    "regs_at a (write32 m (a + ACCEL_REG_IRQ_ACK) v) = (regs_at a m)\<lparr>rg_ack := v\<rparr>"
    "regs_at a (write64 m (a + ACCEL_REG_CMD_BASE) w) = (regs_at a m)\<lparr>rg_cmd := w\<rparr>"
    using assms by (simp_all add: regs_at_def a32 a64 b32 ranges_apart u cell32.rd_wr cell64.rd_wr)
qed

lemma reg_inside:
  assumes "unat a + 32 < 2 ^ 64"
  shows "same_outside (byte_range a 32) m (write32 m (a + ACCEL_REG_STATUS) v)"
    and "same_outside (byte_range a 32) m (write32 m (a + ACCEL_REG_CONTROL) v)"
    and "same_outside (byte_range a 32) m (write32 m (a + ACCEL_REG_IRQ_STATUS) v)"
    and "same_outside (byte_range a 32) m (write32 m (a + ACCEL_REG_IRQ_ACK) v)"
    and "same_outside (byte_range a 32) m (write64 m (a + ACCEL_REG_CMD_BASE) w)"
  using assms reg_unat [OF assms]
  by (auto intro!: same_outside_mono [OF range_write(1)] same_outside_mono [OF range_write(2)] simp: range_iff)

lemma regs_same:
  assumes "unat a + 32 < 2 ^ 64" and "same_outside A m m'" and "byte_range a 32 \<inter> A = {}"
  shows "regs_at a m' = regs_at a m"
proof -
  note u = reg_unat [OF assms(1)]
  have "byte_range (a + ACCEL_REG_STATUS) 4 \<subseteq> byte_range a 32" "byte_range (a + ACCEL_REG_CONTROL) 4 \<subseteq> byte_range a 32"
    "byte_range (a + ACCEL_REG_IRQ_STATUS) 4 \<subseteq> byte_range a 32" "byte_range (a + ACCEL_REG_IRQ_ACK) 4 \<subseteq> byte_range a 32"
    "byte_range (a + ACCEL_REG_CMD_BASE) 8 \<subseteq> byte_range a 32"
    using u assms(1) by (auto simp: range_iff)
  then have "byte_range (a + ACCEL_REG_STATUS) 4 \<inter> A = {}" "byte_range (a + ACCEL_REG_CONTROL) 4 \<inter> A = {}"
    "byte_range (a + ACCEL_REG_IRQ_STATUS) 4 \<inter> A = {}" "byte_range (a + ACCEL_REG_IRQ_ACK) 4 \<inter> A = {}"
    "byte_range (a + ACCEL_REG_CMD_BASE) 8 \<inter> A = {}" using assms(3) by blast+
  then show ?thesis unfolding regs_at_def by (simp only: range_read [OF assms(2)])
qed

section \<open>One step of the device\<close>

lemma contained_range:
  assumes "page_range_is_managed_page_contained a n s"
  shows "0 < unat n" "unat a + unat n \<le> 2 ^ 64" "unat (managed_start s) \<le> unat a" "unat a + unat n \<le> unat (managed_end s)"
    and "i < unat n \<Longrightarrow> page_base (a + of_nat i) = page_base a"
proof -
  have d: "n \<noteq> 0" "\<not> a + n - 1 < a" "managed_start s \<le> a" "a + n - 1 < managed_end s" "page_base a = page_base (a + n - 1)"
    using assms by (auto simp: page_range_is_managed_page_contained_def Let_def page_base_def not_less not_le split: if_splits)
  have n1: "unat (n - 1) = unat n - 1" "0 < unat n" using d(1) by (simp_all add: unat_minus_one unat_gt_0)
  have "a \<le> a + (n - 1)" using d(2) by (simp add: not_less add_diff_eq)
  then have "unat (a + (n - 1)) = unat a + unat (n - 1)" by (rule unat_plus_simple [THEN iffD1])
  then have e: "unat (a + n - 1) = unat a + unat n - 1" using n1 by (simp add: add_diff_eq)
  show "0 < unat n" by (rule n1(2))
  show "unat a + unat n \<le> 2 ^ 64" "unat a + unat n \<le> unat (managed_end s)" "unat (managed_start s) \<le> unat a"
    using e n1(2) unat64_lt [of "a + n - 1"] d(3,4) by (simp_all add: word_le_nat_alt word_less_nat_alt)
  show "page_base (a + of_nat i) = page_base a" if "i < unat n"
  proof -
    have u: "unat (a + of_nat i) = unat a + i" using that \<open>unat a + unat n \<le> 2 ^ 64\<close>
      by (subst unat_add_lem [THEN iffD1]) (simp_all add: unat_of_nat)
    have "unat a div 4096 = (unat a + unat n - 1) div 4096" using d(5) by (simp add: word_unat_eq_iff unat_page_base_div e)
    moreover have "unat a div 4096 \<le> (unat a + i) div 4096" "(unat a + i) div 4096 \<le> (unat a + unat n - 1) div 4096"
      using that by (auto intro!: div_le_mono)
    ultimately show ?thesis by (simp add: word_unat_eq_iff unat_page_base_div u)
  qed
qed

lemma contained_apart:
  assumes "regs_ok s" and "page_range_is_managed_page_contained a n s"
  shows "byte_range a (unat n) \<inter> reg_bytes s = {}"
  using assms(1) contained_range(2-4) [OF assms(2)] unfolding regs_ok_def Let_def by (intro ranges_apart) auto

lemma same_outside_writes:
  assumes "same_outside A m m'"
  shows "same_outside A (write32 m a v) (write32 m' a v)" "n \<le> 2 ^ 64 \<Longrightarrow> same_outside A (fill_bytes m a b n) (fill_bytes m' a b n)"
  using assms by (auto simp: same_outside_def write32_def fill_bytes_apply)

lemma memset_fill:
  assumes n: "n = unat (read32 m (cmd + CMD_LEN))" and nw: "unat dst + n \<le> 2 ^ 64"
    and apart: "byte_range dst n \<inter> byte_range (cmd + CMD_LEN) 4 = {}"
  shows "accel_memset_loop cmd dst v 0 m = fill_bytes m dst v n"
proof -
  have same: "read32 (fill_bytes m dst v k) (cmd + CMD_LEN) = read32 m (cmd + CMD_LEN)" if "k \<le> n" for k
  proof (rule range_read(1))
    show "same_outside (byte_range dst n) m (fill_bytes m dst v k)"
      using that nw by (intro same_outside_mono [OF range_fill]) (auto simp: byte_range_def)
  qed (use apart in blast)
  have "accel_memset_loop cmd dst v i (fill_bytes m dst v (unat i)) = fill_bytes m dst v n" if "unat i \<le> n" for i
    using that
  proof (induction "n - unat i" arbitrary: i)
    case 0
    then have "unat i = n" by simp
    then show ?case using same [of n] n by (subst accel_memset_loop.simps) (simp add: word_less_nat_alt)
  next
    case (Suc k)
    then have i: "unat i < n" by simp
    then have lt: "unat i < 2 ^ 32 - 1" using unsigned_less [of "read32 m (cmd + CMD_LEN)", where 'a = nat] n by simp
    then have u: "unat (i + 1) = Suc (unat i)" by (simp add: unat_word_ariths)
    have "(fill_bytes m dst v (unat i))(dst + ucast i := v) = fill_bytes m dst v (unat (i + 1))"
      by (simp add: u)
    moreover have "i < read32 (fill_bytes m dst v (unat i)) (cmd + CMD_LEN)" using same [of "unat i"] i n by (simp add: word_less_nat_alt)
    ultimately show ?case using Suc.hyps(1) [of "i + 1"] Suc.hyps(2) Suc.prems i u by (subst accel_memset_loop.simps) simp
  qed
  from this [of 0] show ?thesis by simp
qed

text \<open>The descriptor at \<open>cmd\<close>, and the outcome of starting it: status, interrupt bits, effect on memory.\<close>

definition descriptor_effect :: "u64 \<Rightarrow> 'a pages_scheme \<Rightarrow> u32 \<times> u32 \<times> (memory \<Rightarrow> memory)" where
  "descriptor_effect cmd s =
     (if \<not> accel_descriptor_location_is_valid cmd s \<or> load32 (cmd + CMD_STATUS) s = ACCEL_CMD_STATUS_TIMEOUT
      then (ACCEL_STATUS_ERROR, ACCEL_IRQ_ERROR, (\<lambda>m. m))
      else if \<not> accel_descriptor_payload_is_valid cmd s
      then (ACCEL_STATUS_ERROR, ACCEL_IRQ_ERROR, (\<lambda>m. write32 m (cmd + CMD_STATUS) ACCEL_CMD_STATUS_INVALID))
      else (ACCEL_STATUS_DONE, ACCEL_IRQ_DONE, (\<lambda>m. write32
        (fill_bytes m (load64 (cmd + CMD_DST_PA) s) (ucast (load32 (cmd + CMD_VALUE) s)) (unat (load32 (cmd + CMD_LEN) s)))
        (cmd + CMD_STATUS) ACCEL_CMD_STATUS_OK)))"

text \<open>The destination of a valid descriptor does not cover the descriptor.\<close>

definition dst_apart :: "u64 \<Rightarrow> 'a hw_scheme \<Rightarrow> bool" where
  "dst_apart cmd s \<longleftrightarrow>
     byte_range (load64 (cmd + CMD_DST_PA) s) (unat (load32 (cmd + CMD_LEN) s)) \<inter> byte_range cmd (unat CMD_SIZEOF) = {}"

lemma cmd_field_unat:
  assumes "accel_descriptor_location_is_valid cmd s"
  shows "unat (cmd + CMD_OP) = unat cmd" "unat (cmd + CMD_FLAGS) = unat cmd + 4" "unat (cmd + CMD_DST_PA) = unat cmd + 8"
    "unat (cmd + CMD_LEN) = unat cmd + 16" "unat (cmd + CMD_VALUE) = unat cmd + 20" "unat (cmd + CMD_STATUS) = unat cmd + 24"
    "unat (cmd + CMD_RESERVED) = unat cmd + 28" "unat cmd + 32 \<le> 2 ^ 64"
proof -
  show w: "unat cmd + 32 \<le> 2 ^ 64"
    using contained_range(2) [of cmd CMD_SIZEOF s] assms by (simp add: accel_descriptor_location_is_valid_def CMD_SIZEOF_def)
  show "unat (cmd + CMD_OP) = unat cmd" by (simp add: CMD_OP_def)
  show "unat (cmd + CMD_FLAGS) = unat cmd + 4" "unat (cmd + CMD_DST_PA) = unat cmd + 8" "unat (cmd + CMD_LEN) = unat cmd + 16"
    "unat (cmd + CMD_VALUE) = unat cmd + 20" "unat (cmd + CMD_STATUS) = unat cmd + 24" "unat (cmd + CMD_RESERVED) = unat cmd + 28"
    using w by (simp_all only: cmd_offsets) (subst unat_add_lem [THEN iffD1]; simp)+
qed

text \<open>The fields of a descriptor lie in it, and away from the registers.\<close>

lemma cmd_field_ranges:
  assumes "accel_descriptor_location_is_valid cmd s"
  shows "byte_range (cmd + CMD_OP) 4 \<subseteq> byte_range cmd 32" "byte_range (cmd + CMD_FLAGS) 4 \<subseteq> byte_range cmd 32"
    "byte_range (cmd + CMD_DST_PA) 8 \<subseteq> byte_range cmd 32" "byte_range (cmd + CMD_LEN) 4 \<subseteq> byte_range cmd 32"
    "byte_range (cmd + CMD_VALUE) 4 \<subseteq> byte_range cmd 32" "byte_range (cmd + CMD_STATUS) 4 \<subseteq> byte_range cmd 32"
    "byte_range (cmd + CMD_RESERVED) 4 \<subseteq> byte_range cmd 32"
  using cmd_field_unat [OF assms] by (auto simp: range_iff)

lemma cmd_regs_apart:
  assumes "regs_ok s" and "accel_descriptor_location_is_valid cmd s"
  shows "byte_range cmd 32 \<inter> reg_bytes s = {}"
  using contained_apart [OF assms(1), of cmd CMD_SIZEOF] assms(2) by (simp add: accel_descriptor_location_is_valid_def CMD_SIZEOF_def)

lemma cmd_loads:
  assumes "regs_ok s" and "accel_descriptor_location_is_valid cmd s" and "same_outside (reg_bytes s) (mem s) m"
  shows "read32 m (cmd + CMD_OP) = read32 (mem s) (cmd + CMD_OP)" "read32 m (cmd + CMD_FLAGS) = read32 (mem s) (cmd + CMD_FLAGS)"
    "read64 m (cmd + CMD_DST_PA) = read64 (mem s) (cmd + CMD_DST_PA)" "read32 m (cmd + CMD_LEN) = read32 (mem s) (cmd + CMD_LEN)"
    "read32 m (cmd + CMD_VALUE) = read32 (mem s) (cmd + CMD_VALUE)" "read32 m (cmd + CMD_STATUS) = read32 (mem s) (cmd + CMD_STATUS)"
    "read32 m (cmd + CMD_RESERVED) = read32 (mem s) (cmd + CMD_RESERVED)"
  using range_read [OF assms(3)] cmd_field_ranges [OF assms(2)] cmd_regs_apart [OF assms(1,2)] by blast+

lemma contained_mem [simp]:
  "page_range_is_managed_page_contained a n (s\<lparr>mem := m\<rparr>) = page_range_is_managed_page_contained a n s"
  "accel_descriptor_location_is_valid cmd (s\<lparr>mem := m\<rparr>) = accel_descriptor_location_is_valid cmd s"
  by (simp_all add: page_range_is_managed_page_contained_def accel_descriptor_location_is_valid_def)

lemma payload_same:
  assumes "regs_ok s" and "accel_descriptor_location_is_valid cmd s" and "same_outside (reg_bytes s) (mem s) m"
  shows "accel_descriptor_payload_is_valid cmd (s\<lparr>mem := m\<rparr>) = accel_descriptor_payload_is_valid cmd s"
  using cmd_loads [OF assms] by (simp add: accel_descriptor_payload_is_valid_def load32_def load64_def)

lemma enter_error_eq:
  assumes "regs_ok s"
  shows "\<exists>m'. accel_enter_error (s\<lparr>mem := m\<rparr>) = s\<lparr>mem := m'\<rparr> \<and> same_outside (reg_bytes s) m m' \<and>
    regs_at (accel_mmio_addr (link s)) m' = (regs_at (accel_mmio_addr (link s)) m)\<lparr>rg_status := ACCEL_STATUS_ERROR, rg_irq := ACCEL_IRQ_ERROR\<rparr>"
proof -
  let ?a = "accel_mmio_addr (link s)"
  have a: "unat ?a + 32 < 2 ^ 64" using assms by (simp add: regs_ok_def Let_def)
  let ?m' = "write32 (write32 m (?a + ACCEL_REG_STATUS) ACCEL_STATUS_ERROR) (?a + ACCEL_REG_IRQ_STATUS) ACCEL_IRQ_ERROR"
  have "accel_enter_error (s\<lparr>mem := m\<rparr>) = s\<lparr>mem := ?m'\<rparr>"
    by (simp add: accel_enter_error_def mmio_set_def store32_def Let_def)
  moreover have "same_outside (reg_bytes s) m ?m'"
    by (rule same_outside_trans [OF reg_inside(1) [OF a] reg_inside(3) [OF a]])
  moreover have "regs_at ?a ?m' = (regs_at ?a m)\<lparr>rg_status := ACCEL_STATUS_ERROR, rg_irq := ACCEL_IRQ_ERROR\<rparr>"
    by (simp add: reg_write [OF a])
  ultimately show ?thesis by blast
qed

lemma payload_dst:
  assumes "accel_descriptor_payload_is_valid cmd s"
  defines "n \<equiv> unat (load32 (cmd + CMD_LEN) s)" and "d \<equiv> load64 (cmd + CMD_DST_PA) s"
  shows "0 < n" "unat d + n \<le> 2 ^ 64" "unat (managed_start s) \<le> unat d" "unat d + n \<le> unat (managed_end s)"
    and "regs_ok s \<Longrightarrow> byte_range d n \<inter> reg_bytes s = {}" and "i < n \<Longrightarrow> page_base (d + of_nat i) = page_base d"
proof -
  have c: "page_range_is_managed_page_contained d (ucast (load32 (cmd + CMD_LEN) s)) s"
    using assms(1) by (simp add: accel_descriptor_payload_is_valid_def d_def split: if_splits)
  have u: "unat (ucast (load32 (cmd + CMD_LEN) s) :: u64) = n" 
    using unsigned_less [of "load32 (cmd + CMD_LEN) s", where 'a = nat] by (simp add: n_def unsigned_ucast_eq take_bit_nat_eq_self_iff)
  note r = contained_range [OF c, unfolded u]
  show "0 < n" "unat d + n \<le> 2 ^ 64" "unat (managed_start s) \<le> unat d" "unat d + n \<le> unat (managed_end s)"
    "i < n \<Longrightarrow> page_base (d + of_nat i) = page_base d" by (fact r)+
  show "regs_ok s \<Longrightarrow> byte_range d n \<inter> reg_bytes s = {}" using contained_apart [OF _ c] by (simp only: u)
qed

lemma start_descriptor_eq:
  assumes ok: "regs_ok s" and so: "same_outside (reg_bytes s) (mem s) m"
    and d: "accel_descriptor_payload_is_valid cmd s \<Longrightarrow> dst_apart cmd s"
    and e: "descriptor_effect cmd s = (st, irq, eff)"
  shows "\<exists>m'. accel_start_descriptor cmd (s\<lparr>mem := m\<rparr>) = s\<lparr>mem := m'\<rparr> \<and> same_outside (reg_bytes s) (eff (mem s)) m' \<and>
    regs_at (accel_mmio_addr (link s)) m' = (regs_at (accel_mmio_addr (link s)) m)\<lparr>rg_status := st, rg_irq := irq\<rparr>"
proof -
  let ?a = "accel_mmio_addr (link s)"
  have a: "unat ?a + 32 < 2 ^ 64" using ok by (simp add: regs_ok_def Let_def)
  show ?thesis
  proof (cases "accel_descriptor_location_is_valid cmd s")
    case False
    then have "st = ACCEL_STATUS_ERROR" "irq = ACCEL_IRQ_ERROR" "eff = (\<lambda>m. m)"
      "accel_start_descriptor cmd (s\<lparr>mem := m\<rparr>) = accel_enter_error (s\<lparr>mem := m\<rparr>)"
      using e by (auto simp: descriptor_effect_def accel_start_descriptor_def)
    with enter_error_eq [OF ok, of m] same_outside_trans [OF so] show ?thesis by auto
  next
    case loc: True
    note ld = cmd_loads [OF ok loc so] and fr = cmd_field_ranges [OF loc] and ap = cmd_regs_apart [OF ok loc]
    have keep: "regs_at ?a (write32 m' (cmd + CMD_STATUS) v) = regs_at ?a m'" for m' v
      by (rule regs_same [OF a range_write(1)]) (use fr(6) ap in blast)
    show ?thesis
    proof (cases "load32 (cmd + CMD_STATUS) s = ACCEL_CMD_STATUS_TIMEOUT")
      case True
      then have "st = ACCEL_STATUS_ERROR" "irq = ACCEL_IRQ_ERROR" "eff = (\<lambda>m. m)"
        "accel_start_descriptor cmd (s\<lparr>mem := m\<rparr>) = accel_enter_error (s\<lparr>mem := m\<rparr>)"
        using e loc ld by (auto simp: descriptor_effect_def accel_start_descriptor_def load32_def)
      with enter_error_eq [OF ok, of m] same_outside_trans [OF so] show ?thesis by auto
    next
      case nt: False
      show ?thesis
      proof (cases "accel_descriptor_payload_is_valid cmd s")
        case False
        let ?m1 = "write32 m (cmd + CMD_STATUS) ACCEL_CMD_STATUS_INVALID"
        have "st = ACCEL_STATUS_ERROR" "irq = ACCEL_IRQ_ERROR" "eff = (\<lambda>m. write32 m (cmd + CMD_STATUS) ACCEL_CMD_STATUS_INVALID)"
          "accel_start_descriptor cmd (s\<lparr>mem := m\<rparr>) = accel_enter_error (s\<lparr>mem := ?m1\<rparr>)"
          using e loc nt False ld payload_same [OF ok loc so]
          by (auto simp: descriptor_effect_def accel_start_descriptor_def load32_def store32_def)
        with enter_error_eq [OF ok, of ?m1] same_outside_trans [OF same_outside_writes(1) [OF so]] keep show ?thesis by auto
      next
        case pay: True
        let ?d = "load64 (cmd + CMD_DST_PA) s" and ?v = "ucast (load32 (cmd + CMD_VALUE) s) :: u8" and ?n = "unat (load32 (cmd + CMD_LEN) s)"
        let ?f = "fill_bytes m ?d ?v ?n"
        let ?m1 = "write32 ?f (cmd + CMD_STATUS) ACCEL_CMD_STATUS_OK"
        let ?m2 = "write32 (write32 ?m1 (?a + ACCEL_REG_STATUS) ACCEL_STATUS_DONE) (?a + ACCEL_REG_IRQ_STATUS) ACCEL_IRQ_DONE"
        note pd = payload_dst [OF pay]
        have n64: "?n \<le> 2 ^ 64" using pd(2) by simp
        have ef: "st = ACCEL_STATUS_DONE" "irq = ACCEL_IRQ_DONE" "eff = (\<lambda>m. write32 (fill_bytes m ?d ?v ?n) (cmd + CMD_STATUS) ACCEL_CMD_STATUS_OK)"
          using e loc nt pay by (auto simp: descriptor_effect_def)
        have "accel_memset_loop cmd ?d ?v 0 m = ?f"
        proof (rule memset_fill)
          show "?n = unat (read32 m (cmd + CMD_LEN))" using ld(4) by (simp add: load32_def)
          show "byte_range ?d ?n \<inter> byte_range (cmd + CMD_LEN) 4 = {}" using d [OF pay] fr(4) by (auto simp: dst_apart_def CMD_SIZEOF_def)
        qed (rule pd(2))
        moreover have "accel_start_descriptor cmd (s\<lparr>mem := m\<rparr>) = accel_execute_memset cmd (s\<lparr>mem := m\<rparr>)"
          using loc nt pay ld payload_same [OF ok loc so] by (simp add: accel_start_descriptor_def load32_def)
        ultimately have run: "accel_start_descriptor cmd (s\<lparr>mem := m\<rparr>) = s\<lparr>mem := ?m2\<rparr>"
          using ld by (simp add: accel_execute_memset_def load32_def load64_def store32_def mmio_set_def Let_def)
        have "same_outside (reg_bytes s) (eff (mem s)) ?m1"
          unfolding ef by (intro same_outside_writes so n64)
        then have "same_outside (reg_bytes s) (eff (mem s)) ?m2"
          by (rule same_outside_trans [OF _ same_outside_trans [OF reg_inside(1) [OF a] reg_inside(3) [OF a]]])
        moreover have "regs_at ?a ?f = regs_at ?a m"
          by (rule regs_same [OF a range_fill [OF n64]]) (use pd(5) [OF ok] in blast)
        then have "regs_at ?a ?m2 = (regs_at ?a m)\<lparr>rg_status := st, rg_irq := irq\<rparr>" unfolding ef by (simp add: reg_write [OF a] keep)
        ultimately show ?thesis using run by blast
      qed
    qed
  qed
qed

text \<open>The start command, as the device finds its registers.\<close>

definition start_effect :: "'a pages_scheme \<Rightarrow> u32 \<times> u32 \<times> (memory \<Rightarrow> memory)" where
  "start_effect s =
     (let r = regs_of s in
      if rg_status r \<noteq> ACCEL_STATUS_IDLE then (ACCEL_STATUS_ERROR, ACCEL_IRQ_ERROR, (\<lambda>m. m))
      else if rg_cmd r = 0 then (ACCEL_STATUS_DONE, ACCEL_IRQ_DONE, (\<lambda>m. m))
      else descriptor_effect (rg_cmd r) s)"

lemma start_eq:
  assumes ok: "regs_ok s" and so: "same_outside (reg_bytes s) (mem s) m"
    and d: "rg_status (regs_of s) = ACCEL_STATUS_IDLE \<Longrightarrow> rg_cmd (regs_of s) \<noteq> 0 \<Longrightarrow>
      accel_descriptor_payload_is_valid (rg_cmd (regs_of s)) s \<Longrightarrow> dst_apart (rg_cmd (regs_of s)) s"
    and r: "rg_status (regs_at (accel_mmio_addr (link s)) m) = rg_status (regs_of s)"
      "rg_cmd (regs_at (accel_mmio_addr (link s)) m) = rg_cmd (regs_of s)"
    and e: "start_effect s = (st, irq, eff)"
  shows "\<exists>m'. accel_start (s\<lparr>mem := m\<rparr>) = s\<lparr>mem := m'\<rparr> \<and> same_outside (reg_bytes s) (eff (mem s)) m' \<and>
    regs_at (accel_mmio_addr (link s)) m' = (regs_at (accel_mmio_addr (link s)) m)\<lparr>rg_status := st, rg_irq := irq\<rparr>"
proof -
  let ?a = "accel_mmio_addr (link s)"
  have a: "unat ?a + 32 < 2 ^ 64" using ok by (simp add: regs_ok_def Let_def)
  have st: "mmio_get ACCEL_REG_STATUS (s\<lparr>mem := m\<rparr>) = rg_status (regs_of s)"
    using r by (simp add: mmio_get_def load32_def regs_at_def)
  show ?thesis
  proof (cases "rg_status (regs_of s) = ACCEL_STATUS_IDLE")
    case False
    then have "st = ACCEL_STATUS_ERROR" "irq = ACCEL_IRQ_ERROR" "eff = (\<lambda>m. m)"
      "accel_start (s\<lparr>mem := m\<rparr>) = accel_enter_error (s\<lparr>mem := m\<rparr>)"
      using e st by (auto simp: start_effect_def accel_start_def Let_def)
    with enter_error_eq [OF ok, of m] same_outside_trans [OF so] show ?thesis by auto
  next
    case idle: True
    let ?m1 = "write32 m (?a + ACCEL_REG_STATUS) ACCEL_STATUS_BUSY"
    have so1: "same_outside (reg_bytes s) (mem s) ?m1" by (rule same_outside_trans [OF so reg_inside(1) [OF a]])
    have r1: "regs_at ?a ?m1 = (regs_at ?a m)\<lparr>rg_status := ACCEL_STATUS_BUSY\<rparr>" by (simp add: reg_write [OF a])
    have "rg_cmd (regs_at ?a ?m1) = rg_cmd (regs_of s)" using r1 r(2) by simp
    then have base: "load64 (?a + ACCEL_REG_CMD_BASE) (s\<lparr>mem := ?m1\<rparr>) = rg_cmd (regs_of s)"
      by (simp add: load64_def regs_at_def)
    have set: "mmio_set ACCEL_REG_STATUS ACCEL_STATUS_BUSY (s\<lparr>mem := m\<rparr>) = s\<lparr>mem := ?m1\<rparr>"
      by (simp add: mmio_set_def store32_def)
    show ?thesis
    proof (cases "rg_cmd (regs_of s) = 0")
      case True
      let ?m2 = "write32 (write32 ?m1 (?a + ACCEL_REG_STATUS) ACCEL_STATUS_DONE) (?a + ACCEL_REG_IRQ_STATUS) ACCEL_IRQ_DONE"
      have "accel_start (s\<lparr>mem := m\<rparr>) = s\<lparr>mem := ?m2\<rparr>"
        using st idle base True by (simp add: accel_start_def set Let_def mmio_set_def store32_def)
      moreover have "same_outside (reg_bytes s) (mem s) ?m2"
        by (rule same_outside_trans [OF so1 same_outside_trans [OF reg_inside(1) [OF a] reg_inside(3) [OF a]]])
      moreover have "st = ACCEL_STATUS_DONE" "irq = ACCEL_IRQ_DONE" "eff = (\<lambda>m. m)"
        using e idle True by (auto simp: start_effect_def Let_def)
      ultimately show ?thesis by (intro exI [of _ ?m2]) (simp add: reg_write [OF a])
    next
      case False
      then have "accel_start (s\<lparr>mem := m\<rparr>) = accel_start_descriptor (rg_cmd (regs_of s)) (s\<lparr>mem := ?m1\<rparr>)"
        using st idle base by (simp add: accel_start_def set Let_def)
      moreover have "descriptor_effect (rg_cmd (regs_of s)) s = (st, irq, eff)" using e idle False by (simp add: start_effect_def Let_def)
      ultimately show ?thesis using start_descriptor_eq [OF ok so1 d [OF idle False]] r1 by auto
    qed
  qed
qed

text \<open>A whole step: the registers it leaves, and its effect on memory.\<close>

definition step_effect :: "'a pages_scheme \<Rightarrow> regs \<times> (memory \<Rightarrow> memory)" where
  "step_effect s =
     (let r = regs_of s in
      if rg_control r AND ACCEL_CONTROL_RESET \<noteq> 0
      then (\<lparr>rg_status = ACCEL_STATUS_IDLE, rg_control = 0, rg_irq = 0, rg_ack = 0, rg_cmd = 0\<rparr>, (\<lambda>m. m))
      else let (st, irq, eff) = (if rg_control r AND ACCEL_CONTROL_START \<noteq> 0 then start_effect s
                                 else (rg_status r, rg_irq r, (\<lambda>m. m)))
           in (r\<lparr>rg_status := st, rg_control := 0, rg_irq := irq AND NOT (rg_ack r), rg_ack := 0\<rparr>, eff))"

lemma reset_state_eq:
  assumes "regs_ok s"
  shows "\<exists>m'. accel_reset_state (s\<lparr>mem := m\<rparr>) = s\<lparr>mem := m'\<rparr> \<and> same_outside (reg_bytes s) m m' \<and>
    regs_at (accel_mmio_addr (link s)) m' =
      (regs_at (accel_mmio_addr (link s)) m)\<lparr>rg_status := ACCEL_STATUS_IDLE, rg_irq := 0, rg_ack := 0, rg_cmd := 0\<rparr>"
proof -
  let ?a = "accel_mmio_addr (link s)"
  have a: "unat ?a + 32 < 2 ^ 64" using assms by (simp add: regs_ok_def Let_def)
  let ?m' = "write64 (write32 (write32 (write32 m (?a + ACCEL_REG_STATUS) ACCEL_STATUS_IDLE) (?a + ACCEL_REG_IRQ_STATUS) 0)
    (?a + ACCEL_REG_IRQ_ACK) 0) (?a + ACCEL_REG_CMD_BASE) 0"
  have "accel_reset_state (s\<lparr>mem := m\<rparr>) = s\<lparr>mem := ?m'\<rparr>"
    by (simp add: accel_reset_state_def mmio_set_def store32_def store64_def Let_def)
  moreover have "same_outside (reg_bytes s) m ?m'"
    by (rule same_outside_trans [OF same_outside_trans [OF same_outside_trans [OF reg_inside(1) [OF a] reg_inside(3) [OF a]]
      reg_inside(4) [OF a]] reg_inside(5) [OF a]])
  moreover have "regs_at ?a ?m' = (regs_at ?a m)\<lparr>rg_status := ACCEL_STATUS_IDLE, rg_irq := 0, rg_ack := 0, rg_cmd := 0\<rparr>"
    by (simp add: reg_write [OF a])
  ultimately show ?thesis by blast
qed

text \<open>A descriptor that will be performed does not have itself as destination.\<close>

definition start_safe :: "'a pages_scheme \<Rightarrow> bool" where
  "start_safe s \<longleftrightarrow> (let r = regs_of s in
     rg_control r AND ACCEL_CONTROL_RESET = 0 \<and> rg_control r AND ACCEL_CONTROL_START \<noteq> 0 \<and> rg_status r = ACCEL_STATUS_IDLE \<and>
     rg_cmd r \<noteq> 0 \<and> accel_descriptor_payload_is_valid (rg_cmd r) s \<longrightarrow> dst_apart (rg_cmd r) s)"

lemma accel_step:
  fixes s :: "'a pages_scheme"
  assumes ok: "regs_ok s"
    and d: "start_safe s"
  shows "\<exists>m'. platform_accel_step s = s\<lparr>mem := m'\<rparr> \<and> regs_at (accel_mmio_addr (link s)) m' = fst (step_effect s) \<and>
    same_outside (reg_bytes s) (snd (step_effect s) (mem s)) m'"
proof -
  let ?a = "accel_mmio_addr (link s)" and ?r = "regs_of s"
  have a: "unat ?a + 32 < 2 ^ 64" using ok by (simp add: regs_ok_def Let_def)
  define m1 where "m1 = write32 (write32 (mem s) (?a + ACCEL_REG_CONTROL) 0) (?a + ACCEL_REG_IRQ_ACK) 0"
  have s1: "mmio_set ACCEL_REG_IRQ_ACK 0 (mmio_set ACCEL_REG_CONTROL 0 s) = s\<lparr>mem := m1\<rparr>"
    by (simp add: mmio_set_def store32_def m1_def)
  have so: "same_outside (reg_bytes s) (mem s) m1"
    unfolding m1_def by (rule same_outside_trans [OF reg_inside(2) [OF a] reg_inside(4) [OF a]])
  have r1: "regs_at ?a m1 = ?r\<lparr>rg_control := 0, rg_ack := 0\<rparr>" unfolding m1_def by (simp add: reg_write [OF a])
  have g: "mmio_get ACCEL_REG_CONTROL s = rg_control ?r" "mmio_get ACCEL_REG_IRQ_ACK s = rg_ack ?r"
    by (simp_all add: mmio_get_def load32_def regs_at_def)
  define fin where "fin = (\<lambda>x :: 'a pages_scheme. mmio_set ACCEL_REG_IRQ_STATUS (mmio_get ACCEL_REG_IRQ_STATUS x AND NOT (rg_ack ?r)) x)"
  have step: "platform_accel_step s =
      (if rg_control ?r AND ACCEL_CONTROL_RESET \<noteq> 0 then accel_reset_state (s\<lparr>mem := m1\<rparr>)
       else fin (if rg_control ?r AND ACCEL_CONTROL_START \<noteq> 0 then accel_start (s\<lparr>mem := m1\<rparr>) else s\<lparr>mem := m1\<rparr>))"
    by (simp only: platform_accel_step_def Let_def s1 g fin_def)
  have fin: "fin (s\<lparr>mem := m\<rparr>) = s\<lparr>mem := write32 m (?a + ACCEL_REG_IRQ_STATUS) (rg_irq (regs_at ?a m) AND NOT (rg_ack ?r))\<rparr>" for m
    by (simp add: fin_def mmio_get_def mmio_set_def load32_def store32_def regs_at_def)
  show ?thesis
  proof (cases "rg_control ?r AND ACCEL_CONTROL_RESET = 0")
    case False
    then have e: "step_effect s = (\<lparr>rg_status = ACCEL_STATUS_IDLE, rg_control = 0, rg_irq = 0, rg_ack = 0, rg_cmd = 0\<rparr>, (\<lambda>m. m))"
      by (simp add: step_effect_def Let_def)
    obtain m' where m': "accel_reset_state (s\<lparr>mem := m1\<rparr>) = s\<lparr>mem := m'\<rparr>" "same_outside (reg_bytes s) m1 m'"
      "regs_at ?a m' = (regs_at ?a m1)\<lparr>rg_status := ACCEL_STATUS_IDLE, rg_irq := 0, rg_ack := 0, rg_cmd := 0\<rparr>"
      using reset_state_eq [OF ok] by blast
    have "regs_at ?a m' = fst (step_effect s)" unfolding m'(3) r1 e by (cases ?r) simp
    moreover have "platform_accel_step s = s\<lparr>mem := m'\<rparr>" using False m'(1) by (simp add: step)
    ultimately show ?thesis using same_outside_trans [OF so m'(2)] by (intro exI [of _ m']) (simp add: e)
  next
    case run: True
    obtain st irq eff where e: "(if rg_control ?r AND ACCEL_CONTROL_START \<noteq> 0 then start_effect s
        else (rg_status ?r, rg_irq ?r, (\<lambda>m. m))) = (st, irq, eff)" by (metis prod_cases3)
    have "\<exists>m2. (if rg_control ?r AND ACCEL_CONTROL_START \<noteq> 0 then accel_start (s\<lparr>mem := m1\<rparr>) else s\<lparr>mem := m1\<rparr>) = s\<lparr>mem := m2\<rparr> \<and>
        same_outside (reg_bytes s) (eff (mem s)) m2 \<and> regs_at ?a m2 = (regs_at ?a m1)\<lparr>rg_status := st, rg_irq := irq\<rparr>"
    proof (cases "rg_control ?r AND ACCEL_CONTROL_START = 0")
      case True
      then have "st = rg_status ?r" "irq = rg_irq ?r" "eff = (\<lambda>m. m)" using e by auto
      then show ?thesis using True so by (intro exI [of _ m1]) (simp add: r1)
    next
      case False
      then have "start_effect s = (st, irq, eff)" using e by simp
      moreover have "rg_status ?r = ACCEL_STATUS_IDLE \<Longrightarrow> rg_cmd ?r \<noteq> 0 \<Longrightarrow>
          accel_descriptor_payload_is_valid (rg_cmd ?r) s \<Longrightarrow> dst_apart (rg_cmd ?r) s"
        using d run False by (simp add: start_safe_def Let_def)
      ultimately show ?thesis using start_eq [OF ok so] False by (simp add: r1)
    qed
    then obtain m2 where m2: "(if rg_control ?r AND ACCEL_CONTROL_START \<noteq> 0 then accel_start (s\<lparr>mem := m1\<rparr>) else s\<lparr>mem := m1\<rparr>) = s\<lparr>mem := m2\<rparr>"
      "same_outside (reg_bytes s) (eff (mem s)) m2" "regs_at ?a m2 = (regs_at ?a m1)\<lparr>rg_status := st, rg_irq := irq\<rparr>" by blast
    let ?m' = "write32 m2 (?a + ACCEL_REG_IRQ_STATUS) (irq AND NOT (rg_ack ?r))"
    have "platform_accel_step s = s\<lparr>mem := ?m'\<rparr>" unfolding step m2(1) fin m2(3) using run by simp
    moreover have "step_effect s = (?r\<lparr>rg_status := st, rg_control := 0, rg_irq := irq AND NOT (rg_ack ?r), rg_ack := 0\<rparr>, eff)"
      unfolding step_effect_def Let_def e using run by simp
    moreover have "regs_at ?a ?m' = ?r\<lparr>rg_status := st, rg_control := 0, rg_irq := irq AND NOT (rg_ack ?r), rg_ack := 0\<rparr>"
      by (simp add: reg_write [OF a] m2(3) r1)
    ultimately show ?thesis using same_outside_trans [OF m2(2) reg_inside(3) [OF a]] by (intro exI [of _ ?m']) simp
  qed
qed
text \<open>
  C19: One step of the simulated accelerator does what the registers ask for and nothing else. Under a reset it
  goes back to the idle state with no pending interrupt; under a start it performs the checked
  descriptor (an idle device fills the destination with the value and marks the descriptor done, and
  rejects a descriptor outside the managed pages, a timed-out one, or one with a bad payload with the error status and
  interrupt); it then clears the acknowledged interrupts and consumes the
  control and acknowledge registers. Outside its register block, memory has exactly
  the effect of the descriptor. The destination of a descriptor that the step performs must not cover the descriptor.
\<close>

theorem accel_step_correct:
  fixes s :: "'a pages_scheme"
  assumes "regs_ok s" and "start_safe s"
  shows "\<exists>m'. platform_accel_step s = s\<lparr>mem := m'\<rparr> \<and> regs_at (accel_mmio_addr (link s)) m' = fst (step_effect s) \<and>
    same_outside (reg_bytes s) (snd (step_effect s) (mem s)) m'"
  by (rule accel_step [OF assms])


text \<open>A device that is asked to fill four bytes of a page.\<close>

definition demo_device :: pages where
  "demo_device = demo_booted\<lparr>mem := (\<lambda>_. 0)(0x80420004 := 1, 0x80420008 := 1, 0x80420019 := 0x10, 0x8042001b := 0x80,
     0x80001000 := 1, 0x80001009 := 0x20, 0x8000100b := 0x80, 0x80001010 := 4, 0x80001014 := 0x5a)\<rparr>"

lemma demo_device_fields:
  "link demo_device = demo_link" "managed_start demo_device = 0x80000000" "managed_end demo_device = 0x80004000"
  "page_allocator_initialized demo_device"
  by (simp_all add: demo_device_def demo_booted_def page_init_state_def Let_def demo_pages_def align_up_def page_base_def PAGE_MASK_def PAGE_SIZE_def)

lemma demo_device_regs: "regs_of demo_device = \<lparr>rg_status = 1, rg_control = 1, rg_irq = 0, rg_ack = 0, rg_cmd = 0x80001000\<rparr>"
  by (simp add: demo_device_fields demo_link_def regs_at_def read32_def read64_def accel_regs) (simp add: demo_device_def)

theorem accel_step_correct_witness:
  "\<exists>m'. platform_accel_step demo_device = demo_device\<lparr>mem := m'\<rparr> \<and> m' 0x80002003 = 0x5a \<and> m' 0x80002004 = 0 \<and>
    rg_status (regs_at 0x80420000 m') = ACCEL_STATUS_DONE"
proof -
  let ?s = demo_device and ?c = "0x80001000 :: u64"
  have a: "accel_mmio_addr (link ?s) = 0x80420000" by (simp add: demo_device_fields demo_link_def)
  have l: "load32 (?c + CMD_OP) ?s = 1" "load32 (?c + CMD_FLAGS) ?s = 0" "load64 (?c + CMD_DST_PA) ?s = 0x80002000"
    "load32 (?c + CMD_LEN) ?s = 4" "load32 (?c + CMD_VALUE) ?s = 0x5a" "load32 (?c + CMD_STATUS) ?s = 0" "load32 (?c + CMD_RESERVED) ?s = 0"
    by (simp_all add: load32_def load64_def read32_def read64_def cmd_offsets) (simp_all add: demo_device_def)
  have loc: "accel_descriptor_location_is_valid ?c ?s"
    by (simp add: accel_descriptor_location_is_valid_def ACCEL_CMD_ALIGNMENT_def page_range_is_managed_page_contained_def
        demo_device_fields CMD_SIZEOF_def PAGE_MASK_def PAGE_SIZE_def Let_def)
  have pay: "accel_descriptor_payload_is_valid ?c ?s"
    by (simp add: accel_descriptor_payload_is_valid_def l accel_cmd_codes page_range_is_managed_page_contained_def
        demo_device_fields PAGE_MASK_def PAGE_SIZE_def Let_def)
  have ok: "regs_ok ?s" by (simp add: regs_ok_def demo_device_fields demo_link_def)
  have d: "dst_apart (rg_cmd (regs_of ?s)) ?s"
    by (simp add: dst_apart_def demo_device_regs l CMD_SIZEOF_def) (rule ranges_apart; simp)
  have e: "step_effect ?s = (\<lparr>rg_status = ACCEL_STATUS_DONE, rg_control = 0, rg_irq = 1, rg_ack = 0, rg_cmd = ?c\<rparr>,
      (\<lambda>m. write32 (fill_bytes m 0x80002000 0x5a 4) (?c + CMD_STATUS) ACCEL_CMD_STATUS_OK))"
    using loc pay by (simp add: step_effect_def start_effect_def descriptor_effect_def demo_device_regs l accel_bits accel_cmd_codes)
  obtain m' where m': "platform_accel_step ?s = ?s\<lparr>mem := m'\<rparr>" "regs_at 0x80420000 m' = fst (step_effect ?s)"
    "same_outside (reg_bytes ?s) (snd (step_effect ?s) (mem ?s)) m'"
    using accel_step_correct [OF ok] d by (auto simp: a start_safe_def)
  have "m' x = write32 (fill_bytes (mem ?s) 0x80002000 0x5a 4) (?c + CMD_STATUS) ACCEL_CMD_STATUS_OK x" if "x \<notin> byte_range 0x80420000 32" for x
    using m'(3) that by (simp add: same_outside_def e a)
  then have "m' 0x80002003 = 0x5a" "m' 0x80002004 = 0"
    by (simp_all add: range_iff write32_def fill_bytes_apply cmd_offsets demo_device_def)
  then show ?thesis using m'(1,2) by (intro exI [of _ m']) (simp add: e)
qed

end
