(* ===== verification/Accel_Request.thy ===== *)
theory Accel_Request
  imports Accel_Spec
begin

text \<open>
  An accelerator request from end to end: the submission posts it and waits, the device performs
  it, the interrupt completes it and wakes the submitter, and the rest of the call returns the result.
\<close>

section \<open>The device and its request\<close>

text \<open>The device is registered, bound to the driver, and has its registers outside the managed memory.\<close>

definition accel_bound :: "'a accel_scheme \<Rightarrow> bool" where
  "accel_bound s \<longleftrightarrow> devices_ok s \<and> dv_driver (devices s 0) = Some 0 \<and> regs_ok s"

definition posted :: "u64 \<Rightarrow> 'a accel_scheme \<Rightarrow> bool" where
  "posted c s \<longleftrightarrow> accel_bound s \<and> ar_in_use s \<and> \<not> ar_completed s \<and> ar_cmd s = c \<and>
     regs_of s = \<lparr>rg_status = ACCEL_STATUS_IDLE, rg_control = ACCEL_CONTROL_START, rg_irq = 0, rg_ack = 0, rg_cmd = c\<rparr> \<and>
     accel_descriptor_location_is_valid c s \<and> accel_descriptor_payload_is_valid c s \<and> dst_apart c s"

text \<open>What the operations of the device and its driver leave alone, memory apart.\<close>

definition same_device :: "'a accel_scheme \<Rightarrow> 'a accel_scheme \<Rightarrow> bool" where
  "same_device s s' \<longleftrightarrow> link s' = link s \<and> managed_start s' = managed_start s \<and> managed_end s' = managed_end s \<and>
     page_allocator_initialized s' = page_allocator_initialized s \<and> devices s' = devices s \<and>
     device_count s' = device_count s \<and> devices_initialized s' = devices_initialized s \<and> page_bitmap s' = page_bitmap s \<and>
     page_bitmap_words s' = page_bitmap_words s \<and> total_pages s' = total_pages s \<and> free_pages s' = free_pages s \<and>
     next_free_hint s' = next_free_hint s \<and> user_tasks s' = user_tasks s"

definition same_request :: "'a accel_scheme \<Rightarrow> 'a accel_scheme \<Rightarrow> bool" where
  "same_request s s' \<longleftrightarrow> ar_cmd s' = ar_cmd s \<and> ar_in_use s' = ar_in_use s \<and> ar_completed s' = ar_completed s \<and>
     ar_result s' = ar_result s \<and> ar_reset_required s' = ar_reset_required s \<and> ar_submitter s' = ar_submitter s"

lemma more_device:
  fixes s s' :: "'a accel_scheme"
  assumes "sched.more s' = sched.more s"
  shows "devices s' = devices s" "device_count s' = device_count s" "devices_initialized s' = devices_initialized s"
    and "same_request s s'"
  using assms by (cases s, cases s', simp add: same_request_def)+

lemma bound_same: "same_device s s' \<Longrightarrow> accel_bound s' = accel_bound s"
  by (simp add: same_device_def accel_bound_def devices_ok_def regs_ok_def platform_accel_resource_def)

lemma location_same:
  "same_device s s' \<Longrightarrow> accel_descriptor_location_is_valid c s' = accel_descriptor_location_is_valid c s"
  "same_device s s' \<Longrightarrow> page_range_is_managed_page_contained a n s' = page_range_is_managed_page_contained a n s"
  by (simp_all add: same_device_def accel_descriptor_location_is_valid_def page_range_is_managed_page_contained_def)

lemma posted_same:
  assumes "same_device s s'" and "same_request s s'" and "mem s' = mem s"
  shows "posted c s' = posted c s"
proof -
  have "accel_descriptor_payload_is_valid c s' = accel_descriptor_payload_is_valid c s"
    by (simp add: accel_descriptor_payload_is_valid_def load32_def load64_def assms(3) location_same [OF assms(1)])
  then show ?thesis
    using assms bound_same [OF assms(1)] location_same [OF assms(1)]
    by (simp add: posted_def same_request_def same_device_def dst_apart_def load32_def load64_def)
qed

lemma bound_device:
  assumes "accel_bound s"
  shows "accel_device s = Inr (Some 0, s)" and "device_mmio_base (Some 0) s = accel_mmio_addr (link s)"
    and "device_dispatch_irq built_in_drivers ACCEL_DEVICE_IRQ s = bindE (accel_irq_handler 0 s) (\<lambda>(_, s). Inr (1, s))"
proof -
  have d: "devices_ok s" "dv_driver (devices s 0) = Some 0" using assms by (simp_all add: accel_bound_def)
  then show "accel_device s = Inr (Some 0, s)"
    by (simp add: accel_device_def device_find_accel device_is_bound_def)
  show "device_mmio_base (Some 0) s = accel_mmio_addr (link s)"
    using d by (simp add: device_mmio_base_def dev_resource_def devices_ok_def platform_accel_resource_def)
  have i: "device_init s = Inr ((), s)" using d by (simp add: device_init_ready devices_ok_def)
  have h: "irq_handler_of built_in_drivers 0 s = Some accel_irq_handler"
    using d by (simp add: irq_handler_of_def built_in_drivers_def accel_driver_def)
  have f: "List.find (\<lambda>i. dr_irq (dev_resource i s) = ACCEL_DEVICE_IRQ \<and> irq_handler_of built_in_drivers i s \<noteq> None)
      [0..<device_count s] = Some 0"
    using d h by (simp add: devices_ok_def dev_resource_def platform_accel_resource_def)
  have n: "ACCEL_DEVICE_IRQ \<noteq> IRQ_NONE" by (simp add: ACCEL_DEVICE_IRQ_def IRQ_NONE_def)
  show "device_dispatch_irq built_in_drivers ACCEL_DEVICE_IRQ s = bindE (accel_irq_handler 0 s) (\<lambda>(_, s). Inr (1, s))"
    unfolding device_dispatch_irq_def if_not_P [OF n] i bindE_Inr prod.case f option.case h option.sel by (rule refl)
qed

section \<open>Submission\<close>

text \<open>The state that the submission leaves when it begins to wait.\<close>

definition submit_store :: "u64 \<Rightarrow> 'a hw_scheme \<Rightarrow> memory" where
  "submit_store c s =
     write32 (write64 (write32 (mem s) (c + CMD_STATUS) ACCEL_CMD_STATUS_PENDING) (accel_mmio_addr (link s) + ACCEL_REG_CMD_BASE) c)
       (accel_mmio_addr (link s) + ACCEL_REG_CONTROL) ACCEL_CONTROL_START"

definition wait_request :: "u64 \<Rightarrow> 'a hw_scheme \<Rightarrow> u64 \<times> u64 \<times> u64" where
  "wait_request n s = (if n = 0xffffffffffffffff then (THREAD_TRAP_WAIT, accel_waiters_addr (link s), 0)
     else (THREAD_TRAP_WAIT_TIMEOUT, accel_waiters_addr (link s), n))"

definition can_submit :: "u64 \<Rightarrow> 'a accel_scheme \<Rightarrow> bool" where
  "can_submit c s \<longleftrightarrow> accel_bound s \<and> accel_cmd_pointer_is_safe c s \<and> accel_cmd_payload_is_valid c s \<and> dst_apart c s \<and>
     \<not> ar_in_use s \<and> \<not> ar_reset_required s \<and>
     rg_status (regs_of s) = ACCEL_STATUS_IDLE \<and> rg_irq (regs_of s) = 0 \<and> rg_ack (regs_of s) = 0"

lemma submit_run:
  fixes s :: "'a accel_scheme"
  assumes can: "can_submit c s" and started: "threads_started s" and q: "accel_waiters_addr (link s) \<noteq> 0" and n: "n \<noteq> 0"
  shows "\<exists>s'. accel_submit_sync_timeout c n s = Inr (Blocks (wait_request n s) (sstatus s), s') \<and> same_sched s s' \<and>
    mem s' = submit_store c s \<and> same_device s s' \<and> ar_in_use s' \<and> \<not> ar_completed s' \<and> ar_cmd s' = c \<and>
    ar_submitter s' = thread_current_tid s"
proof -
  let ?a = "accel_mmio_addr (link s)"
  define s0 where "s0 = snd (irq_save s)"
  have save: "irq_save s = (sstatus s, s0)" by (simp add: s0_def irq_save_def)
  have f0: "same_sched s s0" "mem s0 = mem s" "same_device s s0" "ar_in_use s0 = ar_in_use s" "ar_reset_required s0 = ar_reset_required s"
      "link s0 = link s" "thread_current_tid s0 = thread_current_tid s"
    by (simp_all add: s0_def irq_save_def csr_clear_sstatus_def same_sched_def same_device_def thread_current_tid_def split: option.split)
  define s1 where "s1 = store32 (c + CMD_STATUS) ACCEL_CMD_STATUS_PENDING (s0\<lparr>ar_cmd := c, ar_in_use := True,
    ar_completed := False, ar_result := ACCEL_ERR_IO, ar_submitter := thread_current_tid s0\<rparr>)"
  define s2 where "s2 = trace_emit TRACE_ACCEL_SUBMIT (ar_submitter s1) THREAD_INVALID_TID (ucast (load32 (c + CMD_LEN) s1)) n s1"
  define s3 where "s3 = store32 (?a + ACCEL_REG_CONTROL) ACCEL_CONTROL_START (store64 (?a + ACCEL_REG_CMD_BASE) c s2)"
  have lg: "logged s1 s2" unfolding s2_def by (intro logged_intros)
  have m3: "mem s3 = submit_store c s"
    unfolding s3_def submit_store_def store32_def store64_def by (simp add: logged_fields [OF lg] s1_def store32_def f0)
  have sch: "same_sched s s3" using f0(1) by (simp add: s3_def s2_def s1_def store32_def store64_def same_sched_def trace_emit_eq Let_def)
  have dev: "same_device s s3" using f0(3) by (simp add: s3_def s2_def s1_def store32_def store64_def same_device_def trace_emit_eq Let_def)
  have req: "ar_in_use s3" "\<not> ar_completed s3" "ar_cmd s3 = c" "ar_submitter s3 = thread_current_tid s"
    by (simp_all add: s3_def s2_def s1_def store32_def store64_def trace_emit_eq Let_def f0)
  have ready: "accel_device_is_ready (Some 0) s0"
  proof -
    have b: "accel_bound s0" using can bound_same [OF f0(3)] by (simp add: can_submit_def)
    show ?thesis using can by (simp add: accel_device_is_ready_def bound_device(2) [OF b] f0 can_submit_def regs_at_def load32_def)
  qed
  have c: "accel_cmd_pointer_is_safe c s" "accel_cmd_payload_is_valid c s" "\<not> ar_in_use s0" "\<not> ar_reset_required s0" "accel_bound s"
    using can f0 by (simp_all add: can_submit_def)
  have "accel_submit_sync_timeout c n s = accel_submit_wait c n (sstatus s) s3"
    unfolding accel_submit_sync_timeout_def bound_device(1) [OF c(5)] bindE_Inr prod.case bound_device(2) [OF c(5)] save Let_def
    using c n ready by (simp add: s1_def [symmetric] s2_def [symmetric] s3_def [symmetric])
  moreover have "accel_submit_wait c n (sstatus s) s3 = Inr (Blocks (wait_request n s) (sstatus s), s3)"
  proof -
    have l3: "link s3 = link s" "threads_started s3" using dev sch started by (simp_all add: same_device_def same_sched_def)
    show ?thesis using req(2) q n l3
      by (simp add: accel_submit_wait_def wait_queue_sleep_def wait_queue_sleep_timeout_def wait_request_def)
  qed
  ultimately show ?thesis using m3 sch dev req by (intro exI [of _ s3]) simp
qed

lemma submit_posted:
  fixes s :: "'a accel_scheme"
  assumes can: "can_submit c s" and m: "mem s' = submit_store c s" and d: "same_device s s'"
    and r: "ar_in_use s'" "\<not> ar_completed s'" "ar_cmd s' = c"
  shows "posted c s'" and "load64 (c + CMD_DST_PA) s' = load64 (c + CMD_DST_PA) s" "load32 (c + CMD_LEN) s' = load32 (c + CMD_LEN) s"
    "load32 (c + CMD_VALUE) s' = load32 (c + CMD_VALUE) s" "same_outside (byte_range c 32 \<union> reg_bytes s) (mem s) (mem s')"
proof -
  let ?a = "accel_mmio_addr (link s)"
  have ok: "regs_ok s" using can by (simp add: can_submit_def accel_bound_def)
  have a: "unat ?a + 32 < 2 ^ 64" using ok by (simp add: regs_ok_def Let_def)
  have loc: "accel_descriptor_location_is_valid c s"
    using can by (simp add: can_submit_def accel_cmd_pointer_is_safe_def accel_descriptor_location_is_valid_def)
  note fr = cmd_field_ranges [OF loc] and u = cmd_field_unat [OF loc] and ap = cmd_regs_apart [OF ok loc]
  let ?m1 = "write32 (mem s) (c + CMD_STATUS) ACCEL_CMD_STATUS_PENDING"
  have so: "same_outside (reg_bytes s) ?m1 (mem s')"
    unfolding m submit_store_def by (rule same_outside_trans [OF reg_inside(5) [OF a] reg_inside(2) [OF a]])
  have s1: "same_outside (byte_range (c + CMD_STATUS) 4) (mem s) ?m1" by (rule range_write(1))
  have x: "read32 (mem s') y = read32 ?m1 y" if "byte_range y 4 \<inter> reg_bytes s = {}" for y
    by (rule range_read(1) [OF so that])
  have y: "read64 (mem s') y = read64 ?m1 y" if "byte_range y 8 \<inter> reg_bytes s = {}" for y
    by (rule range_read(2) [OF so that])
  have z: "read32 ?m1 y = read32 (mem s) y" if "byte_range y 4 \<inter> byte_range (c + CMD_STATUS) 4 = {}" for y
    by (rule range_read(1) [OF s1 that])
  have w: "read64 ?m1 y = read64 (mem s) y" if "byte_range y 8 \<inter> byte_range (c + CMD_STATUS) 4 = {}" for y
    by (rule range_read(2) [OF s1 that])
  have f: "load32 (c + CMD_OP) s' = load32 (c + CMD_OP) s" "load32 (c + CMD_FLAGS) s' = load32 (c + CMD_FLAGS) s"
    "load32 (c + CMD_RESERVED) s' = load32 (c + CMD_RESERVED) s" "load32 (c + CMD_STATUS) s' = ACCEL_CMD_STATUS_PENDING"
    and g: "load64 (c + CMD_DST_PA) s' = load64 (c + CMD_DST_PA) s" "load32 (c + CMD_LEN) s' = load32 (c + CMD_LEN) s"
    "load32 (c + CMD_VALUE) s' = load32 (c + CMD_VALUE) s"
    using fr ap u by (simp_all add: load32_def load64_def x y z w ranges_apart cell32.rd_wr Int_mono disjoint_iff subset_iff)
  show "load64 (c + CMD_DST_PA) s' = load64 (c + CMD_DST_PA) s" "load32 (c + CMD_LEN) s' = load32 (c + CMD_LEN) s"
    "load32 (c + CMD_VALUE) s' = load32 (c + CMD_VALUE) s" by (fact g)+
  show "same_outside (byte_range c 32 \<union> reg_bytes s) (mem s) (mem s')"
    by (rule same_outside_trans [OF same_outside_mono [OF s1] same_outside_mono [OF so]]) (use fr in auto)
  have "accel_descriptor_payload_is_valid c s'"
    using can f g location_same(2) [OF d]
    by (simp add: can_submit_def accel_descriptor_payload_is_valid_def accel_cmd_payload_is_valid_def split: if_splits)
  moreover have "dst_apart c s'" using can g by (simp add: can_submit_def dst_apart_def)
  moreover have "regs_at ?a ?m1 = regs_of s" by (rule regs_same [OF a s1]) (use fr(6) ap in blast)
  then have "regs_at ?a (mem s') = (regs_of s)\<lparr>rg_cmd := c, rg_control := ACCEL_CONTROL_START\<rparr>"
    unfolding m submit_store_def by (simp add: reg_write [OF a])
  then have "regs_of s' = \<lparr>rg_status = ACCEL_STATUS_IDLE, rg_control = ACCEL_CONTROL_START, rg_irq = 0, rg_ack = 0, rg_cmd = c\<rparr>"
    using can d by (cases "regs_of s") (simp add: can_submit_def same_device_def)
  ultimately show "posted c s'"
    using can r d loc location_same(1) [OF d] bound_same [OF d] by (simp add: posted_def can_submit_def)
qed

section \<open>Completion\<close>

text \<open>The memory after the command: the destination is filled and the descriptor marked.\<close>

definition performed :: "u64 \<Rightarrow> 'a hw_scheme \<Rightarrow> memory" where
  "performed c s = write32 (fill_bytes (mem s) (load64 (c + CMD_DST_PA) s) (ucast (load32 (c + CMD_VALUE) s))
     (unat (load32 (c + CMD_LEN) s))) (c + CMD_STATUS) ACCEL_CMD_STATUS_OK"

lemma posted_step:
  fixes s :: "'a accel_scheme"
  assumes p: "posted c s"
  shows "\<exists>m'. platform_accel_step s = s\<lparr>mem := m'\<rparr> \<and> same_outside (reg_bytes s) (performed c s) m' \<and>
    regs_at (accel_mmio_addr (link s)) m' =
      \<lparr>rg_status = ACCEL_STATUS_DONE, rg_control = 0, rg_irq = ACCEL_IRQ_DONE, rg_ack = 0, rg_cmd = c\<rparr>"
proof -
  have r: "regs_of s = \<lparr>rg_status = ACCEL_STATUS_IDLE, rg_control = ACCEL_CONTROL_START, rg_irq = 0, rg_ack = 0, rg_cmd = c\<rparr>"
    and v: "accel_descriptor_location_is_valid c s" "accel_descriptor_payload_is_valid c s" "dst_apart c s" "regs_ok s"
    using p by (simp_all add: posted_def accel_bound_def)
  have c0: "c \<noteq> 0" using v(1) by (simp add: accel_descriptor_location_is_valid_def)
  have st: "load32 (c + CMD_STATUS) s \<noteq> ACCEL_CMD_STATUS_TIMEOUT"
    using v(2) by (simp add: accel_descriptor_payload_is_valid_def accel_cmd_codes split: if_splits)
  have "step_effect s = (\<lparr>rg_status = ACCEL_STATUS_DONE, rg_control = 0, rg_irq = ACCEL_IRQ_DONE, rg_ack = 0, rg_cmd = c\<rparr>,
      (\<lambda>m. write32 (fill_bytes m (load64 (c + CMD_DST_PA) s) (ucast (load32 (c + CMD_VALUE) s))
        (unat (load32 (c + CMD_LEN) s))) (c + CMD_STATUS) ACCEL_CMD_STATUS_OK))"
    using v st c0 by (simp add: step_effect_def start_effect_def descriptor_effect_def r accel_bits)
  then show ?thesis using accel_step [of s, OF v(4)] v(3) r by (auto simp: performed_def start_safe_def)
qed

text \<open>The bytes of the frames in which a wake-up stores the wait result.\<close>

definition wake_bytes :: "u64 \<Rightarrow> 'a sched_scheme \<Rightarrow> u64 set" where
  "wake_bytes q s = (\<Union>t\<in>set (wait_list s q). byte_range (th_trap_frame (threads s t) + FRAME_A0) 8)"

lemma wake_all_outside:
  "same_outside (\<Union>t\<in>set ts. byte_range (th_trap_frame (th t) + FRAME_A0) 8) m (wake_all_mem th ts m)"
proof (induction ts arbitrary: m)
  case (Cons t ts)
  let ?A = "\<lambda>ts. \<Union>t\<in>set ts. byte_range (th_trap_frame (th t) + FRAME_A0) 8"
  have "same_outside (?A (t # ts)) m (wake_mem (th_trap_frame (th t)) WAIT_OK m)"
    using range_write(2) by (auto simp: wake_mem_def intro: same_outside_mono)
  moreover have "same_outside (?A (t # ts)) (wake_mem (th_trap_frame (th t)) WAIT_OK m) (wake_all_mem th (t # ts) m)"
    using Cons.IH [of "wake_mem (th_trap_frame (th t)) WAIT_OK m"] by (auto simp: wake_all_mem_def intro: same_outside_mono)
  ultimately show ?case by (rule same_outside_trans)
qed (simp add: wake_all_mem_def)

text \<open>The interrupt of a command that was performed.\<close>

lemma irq_completes:
  fixes s :: "'a accel_scheme"
  assumes inv: "sched_inv Q s" and q: "accel_waiters_addr (link s) \<in> Q" and b: "accel_bound s"
    and use: "ar_in_use s" "ar_cmd s = c" and loc: "accel_descriptor_location_is_valid c s"
    and r: "regs_of s = \<lparr>rg_status = ACCEL_STATUS_DONE, rg_control = 0, rg_irq = ACCEL_IRQ_DONE, rg_ack = 0, rg_cmd = c\<rparr>"
    and ok: "load32 (c + CMD_STATUS) s = ACCEL_CMD_STATUS_OK"
    and ap: "wake_bytes (accel_waiters_addr (link s)) s \<inter> reg_bytes s = {}"
  shows "returns (accel_irq_handler 0 s) (\<lambda>_ s'. sched_inv Q s' \<and> same_device s s' \<and> ar_in_use s' \<and> ar_cmd s' = c \<and>
    ar_completed s' \<and> ar_result s' = ACCEL_OK \<and> regs_of s' = (regs_of s)\<lparr>rg_irq := 0\<rparr> \<and>
    same_outside (reg_bytes s \<union> wake_bytes (accel_waiters_addr (link s)) s) (mem s) (mem s') \<and>
    current_thread s' = current_thread s \<and>
    threads s' = wake_waiters (set (wait_list s (accel_waiters_addr (link s)))) (threads s) \<and>
    ready_list s' = ready_list s @ wait_list s (accel_waiters_addr (link s)) \<and>
    wait_list s' (accel_waiters_addr (link s)) = [])"
proof -
  let ?a = "accel_mmio_addr (link s)" and ?q = "accel_waiters_addr (link s)"
  have rok: "regs_ok s" and a: "unat ?a + 32 < 2 ^ 64" and c0: "c \<noteq> 0"
    using b loc by (simp_all add: accel_bound_def regs_ok_def Let_def accel_descriptor_location_is_valid_def)
  define s0 where "s0 = snd (irq_save s)"
  have save: "irq_save s = (sstatus s, s0)" by (simp add: s0_def irq_save_def)
  define s1 where "s1 = s0\<lparr>ar_result := ACCEL_OK, ar_completed := True\<rparr>"
  define s2 where "s2 = trace_emit TRACE_ACCEL_COMPLETE (ar_submitter s1) (thread_current_tid s1) (sext64 (ar_result s1))
    (ucast (load32 (ar_cmd s1 + CMD_STATUS) s1)) s1"
  define s3 where "s3 = store32 (?a + ACCEL_REG_IRQ_ACK) ACCEL_IRQ_DONE s2"
  have f0: "mem s0 = mem s" "link s0 = link s" "ar_in_use s0" "ar_cmd s0 = c"
    by (simp_all add: s0_def irq_save_def csr_clear_sstatus_def use)
  have m3: "mem s3 = write32 (mem s) (?a + ACCEL_REG_IRQ_ACK) ACCEL_IRQ_DONE"
    by (simp add: s3_def s2_def s1_def s0_def store32_def trace_emit_eq Let_def irq_save_def csr_clear_sstatus_def)
  have f3: "same_sched s s3" "same_device s s3" "ar_in_use s3" "ar_cmd s3 = c" "ar_completed s3" "ar_result s3 = ACCEL_OK"
    by (simp_all add: s3_def s2_def s1_def s0_def store32_def trace_emit_eq Let_def irq_save_def csr_clear_sstatus_def
        same_sched_def same_device_def use)
  have l3: "link s3 = link s" using f3(2) by (simp add: same_device_def)
  have so3: "same_outside (reg_bytes s) (mem s) (mem s3)" unfolding m3 by (rule reg_inside(4) [OF a])
  have r3: "regs_of s3 = (regs_of s)\<lparr>rg_ack := ACCEL_IRQ_DONE\<rparr>" unfolding m3 l3 by (simp add: reg_write [OF a])
  have "load32 (c + CMD_STATUS) s3 = ACCEL_CMD_STATUS_OK"
    using cmd_loads(6) [OF rok loc so3] ok by (simp add: load32_def)
  then have pay: "\<not> accel_descriptor_payload_is_valid (rg_cmd (regs_of s3)) s3"
    using r r3 by (simp add: accel_descriptor_payload_is_valid_def accel_cmd_codes)
  have rok3: "regs_ok s3" using rok f3(2) by (simp add: regs_ok_def same_device_def)
  have e3: "step_effect s3 = ((regs_of s)\<lparr>rg_irq := 0\<rparr>, (\<lambda>m. m))"
    by (simp add: step_effect_def r3 r accel_bits)
  obtain m4 where m4: "platform_accel_step s3 = s3\<lparr>mem := m4\<rparr>" "regs_at ?a m4 = (regs_of s)\<lparr>rg_irq := 0\<rparr>"
    "same_outside (reg_bytes s) (mem s3) m4"
    using accel_step [OF rok3] pay e3 l3 by (auto simp: start_safe_def)
  define s4 where "s4 = s3\<lparr>mem := m4\<rparr>"
  have f4: "same_sched s s4" "same_device s s4" "ar_in_use s4" "ar_cmd s4 = c" "ar_completed s4" "ar_result s4 = ACCEL_OK"
    using f3 by (simp_all add: s4_def same_sched_def same_device_def)
  have li: "ready_list s4 = ready_list s" "wait_list s4 = wait_list s" "threads s4 = threads s" "current_thread s4 = current_thread s"
    using f4(1) by (simp_all add: same_sched_def ready_list_def wait_list_def fun_eq_iff)
  have "sched_inv Q s4" using inv same_sched_inv [OF f4(1)] by blast
  from wake_all_ok [OF this q] obtain s5 where s5: "wait_queue_wake_all ?q s4 = Inr ((), s5)" "sched_inv Q s5" "kept s4 s5"
    "threads s5 = wake_waiters (set (wait_list s ?q)) (threads s)" "ready_list s5 = ready_list s @ wait_list s ?q"
    "wait_list s5 ?q = []" "mem s5 = wake_all_mem (threads s) (wait_list s ?q) m4"
    by (auto simp: li q elim!: returnsE) (simp add: s4_def)
  have more: "sched.more s5 = sched.more s4" using s5(3) by (simp add: kept_def)
  have d5: "same_device s s5" using f4(2) s5(3) more_device(1-3) [OF more] by (simp add: same_device_def kept_def)
  have q5: "ar_in_use s5" "ar_cmd s5 = c" "ar_completed s5" "ar_result s5 = ACCEL_OK"
    using f4 more_device(4) [OF more] by (simp_all add: same_request_def)
  let ?s6 = "irq_restore (sstatus s) s5"
  have f6: "same_sched s5 ?s6" "same_device s5 ?s6" "mem ?s6 = mem s5" "link ?s6 = link s5" "current_thread ?s6 = current_thread s5"
     "threads ?s6 = threads s5" "ready_list ?s6 = ready_list s5" "wait_list ?s6 = wait_list s5"
     "ar_in_use ?s6 = ar_in_use s5" "ar_cmd ?s6 = ar_cmd s5" "ar_completed ?s6 = ar_completed s5" "ar_result ?s6 = ar_result s5"
    by (simp_all add: irq_restore_def csr_set_sstatus_def csr_clear_sstatus_def same_sched_def same_device_def
        ready_list_def wait_list_def fun_eq_iff)
  have run: "accel_irq_handler 0 s = Inr ((), ?s6)"
  proof -
    have base: "device_mmio_base (Some 0) s = ?a" by (rule bound_device(2) [OF b])
    have irq: "load32 (?a + ACCEL_REG_IRQ_STATUS) s = ACCEL_IRQ_DONE" "load32 (?a + ACCEL_REG_STATUS) s0 = ACCEL_STATUS_DONE"
      using r by (simp_all add: regs_at_def load32_def f0)
    have st: "load32 (c + CMD_STATUS) s0 = ACCEL_CMD_STATUS_OK" using ok by (simp add: load32_def f0)
    have known: "ACCEL_IRQ_DONE AND (ACCEL_IRQ_DONE OR ACCEL_IRQ_ERROR) = ACCEL_IRQ_DONE" "ACCEL_IRQ_DONE \<noteq> 0"
      "ACCEL_IRQ_DONE AND ACCEL_IRQ_DONE = ACCEL_IRQ_DONE" by (simp_all add: accel_bits)
    have upd: "s0\<lparr>ar_result := ACCEL_OK\<rparr>\<lparr>ar_completed := True\<rparr> = s1" by (simp add: s1_def)
    have l4: "link s4 = link s" using f4(2) by (simp add: same_device_def)
    show ?thesis
      unfolding accel_irq_handler_def Let_def base irq known save prod.case
      using f0 c0 irq known st l4
      by (simp add: upd s2_def [symmetric] s3_def [symmetric] m4(1) s4_def [symmetric] s5(1))
  qed
  have wo: "same_outside (wake_bytes ?q s) m4 (mem s5)"
    using wake_all_outside [of "threads s" "wait_list s ?q" m4] by (simp add: s5(7) wake_bytes_def)
  have l5: "link s5 = link s" using d5 by (simp add: same_device_def)
  have "regs_at ?a (mem s5) = (regs_of s)\<lparr>rg_irq := 0\<rparr>"
    using regs_same [OF a wo] ap m4(2) by (simp add: Int_commute)
  moreover have "same_outside (reg_bytes s \<union> wake_bytes ?q s) (mem s) (mem s5)"
    by (rule same_outside_trans [OF same_outside_mono [OF same_outside_trans [OF so3 m4(3)]] same_outside_mono [OF wo]]) auto
  moreover have "sched_inv Q ?s6" using s5(2) same_sched_inv [OF f6(1)] by blast
  moreover have "same_device s ?s6" using d5 f6(2) by (simp add: same_device_def)
  moreover have "current_thread s5 = current_thread s" using s5(3) li(4) by (simp add: kept_def)
  ultimately show ?thesis unfolding run using q5 s5(4-6) by (simp add: f6 l5)
qed

section \<open>The whole request\<close>

text \<open>The bytes a request depends on: the registers, the descriptor and the destination.\<close>

definition request_bytes :: "u64 \<Rightarrow> 'a hw_scheme \<Rightarrow> u64 set" where
  "request_bytes c s = reg_bytes s \<union> byte_range c 32 \<union>
     byte_range (load64 (c + CMD_DST_PA) s) (unat (load32 (c + CMD_LEN) s))"

text \<open>A posted request that is carried out and completed.\<close>

lemma request_done:
  fixes s :: "'a accel_scheme"
  assumes inv: "sched_inv Q s" and q: "accel_waiters_addr (link s) \<in> Q" and p: "posted c s"
    and ap: "wake_bytes (accel_waiters_addr (link s)) s \<inter> request_bytes c s = {}"
  shows "returns (platform_dispatch_pending_irqs built_in_drivers (platform_accel_step s)) (\<lambda>_ s'. sched_inv Q s' \<and>
    ar_completed s' \<and> ar_result s' = ACCEL_OK \<and> ar_cmd s' = c \<and> rg_irq (regs_of s') = 0 \<and>
    ready_list s' = ready_list s @ wait_list s (accel_waiters_addr (link s)) \<and>
    wait_list s' (accel_waiters_addr (link s)) = [] \<and> load32 (c + CMD_STATUS) s' = ACCEL_CMD_STATUS_OK \<and>
    (\<forall>i < unat (load32 (c + CMD_LEN) s). mem s' (load64 (c + CMD_DST_PA) s + of_nat i) = ucast (load32 (c + CMD_VALUE) s)) \<and>
    same_device s s' \<and>
    same_outside (request_bytes c s \<union> wake_bytes (accel_waiters_addr (link s)) s) (mem s) (mem s'))"
proof -
  let ?a = "accel_mmio_addr (link s)" and ?q = "accel_waiters_addr (link s)"
  let ?d = "load64 (c + CMD_DST_PA) s" and ?n = "unat (load32 (c + CMD_LEN) s)"
  have v: "accel_descriptor_location_is_valid c s" "accel_descriptor_payload_is_valid c s" "dst_apart c s" "regs_ok s" "accel_bound s"
    "ar_in_use s" "ar_cmd s = c"
    using p by (simp_all add: posted_def accel_bound_def)
  note pd = payload_dst [OF v(2)] and fr = cmd_field_ranges(6) [OF v(1)] and cr = cmd_regs_apart [OF v(4,1)]
  have n64: "?n \<le> 2 ^ 64" using pd(2) by simp
  obtain m1 where m1: "platform_accel_step s = s\<lparr>mem := m1\<rparr>" "same_outside (reg_bytes s) (performed c s) m1"
    "regs_at ?a m1 = \<lparr>rg_status = ACCEL_STATUS_DONE, rg_control = 0, rg_irq = ACCEL_IRQ_DONE, rg_ack = 0, rg_cmd = c\<rparr>"
    using posted_step [OF p] by blast
  let ?s1 = "s\<lparr>mem := m1\<rparr>"
  have same: "same_sched s ?s1" "same_device s ?s1" by (simp_all add: same_sched_def same_device_def)
  have li: "wake_bytes ?q ?s1 = wake_bytes ?q s" "wait_list ?s1 = wait_list s" "ready_list ?s1 = ready_list s"
    by (simp_all add: wake_bytes_def wait_list_def ready_list_def fun_eq_iff)
  have st1: "read32 m1 (c + CMD_STATUS) = ACCEL_CMD_STATUS_OK"
  proof -
    have "read32 m1 (c + CMD_STATUS) = read32 (performed c s) (c + CMD_STATUS)"
      by (rule range_read(1) [OF m1(2)]) (use fr cr in blast)
    then show ?thesis by (simp add: performed_def cell32.rd_wr)
  qed
  have irq: "returns (accel_irq_handler 0 ?s1) (\<lambda>_ s'. sched_inv Q s' \<and> same_device ?s1 s' \<and> ar_in_use s' \<and> ar_cmd s' = c \<and>
      ar_completed s' \<and> ar_result s' = ACCEL_OK \<and> regs_of s' = (regs_of ?s1)\<lparr>rg_irq := 0\<rparr> \<and>
      same_outside (reg_bytes s \<union> wake_bytes ?q s) m1 (mem s') \<and> current_thread s' = current_thread ?s1 \<and>
      threads s' = wake_waiters (set (wait_list s ?q)) (threads ?s1) \<and>
      ready_list s' = ready_list s @ wait_list s ?q \<and> wait_list s' ?q = [])"
    using irq_completes [of Q ?s1 c] inv same_sched_inv [OF same(1)] q v bound_same [OF same(2)] location_same(1) [OF same(2)] m1(3) st1 ap
    by (simp add: li load32_def request_bytes_def Int_Un_distrib)
  have e: "platform_dispatch_pending_irqs built_in_drivers ?s1 = bindE (accel_irq_handler 0 ?s1) (\<lambda>(_, s). Inr ((), s))"
  proof -
    have "platform_accel_irq_pending ?s1" using m1(3) by (simp add: platform_accel_irq_pending_def mmio_get_def load32_def regs_at_def accel_bits)
    moreover have "accel_bound ?s1" using v(5) bound_same [OF same(2)] by blast
    ultimately show ?thesis
      by (simp add: platform_dispatch_pending_irqs_def bound_device(3)) (cases "accel_irq_handler 0 ?s1"; auto)
  qed
  show ?thesis
    unfolding m1(1) e returns_bind
  proof (rule returns_mono [OF irq], goal_cases)
    case (1 u s')
    then have so: "same_outside (reg_bytes s \<union> wake_bytes ?q s) m1 (mem s')" and l: "link s' = link s"
      by (simp_all add: same_device_def)
    have ri: "rg_irq (regs_of s') = 0" using 1 by (cases "regs_of ?s1") simp
    have cs: "read32 (mem s') (c + CMD_STATUS) = ACCEL_CMD_STATUS_OK"
      unfolding st1 [symmetric] by (rule range_read(1) [OF so]) (use fr cr ap in \<open>auto simp: request_bytes_def\<close>)
    have "mem s' (?d + of_nat i) = ucast (load32 (c + CMD_VALUE) s)" if i: "i < ?n" for i
    proof -
      have x: "?d + of_nat i \<in> byte_range ?d ?n" by (rule range_at [OF i n64])
      then have nr: "?d + of_nat i \<notin> reg_bytes s" "?d + of_nat i \<notin> wake_bytes ?q s" "?d + of_nat i \<notin> byte_range (c + CMD_STATUS) 4"
        using pd(5) [OF v(4)] ap fr v(3) by (auto simp: request_bytes_def dst_apart_def CMD_SIZEOF_def)
      then have "mem s' (?d + of_nat i) = performed c s (?d + of_nat i)"
        using so m1(2) by (simp add: same_outside_def)
      also have "\<dots> = fill_bytes (mem s) ?d (ucast (load32 (c + CMD_VALUE) s)) ?n (?d + of_nat i)"
        using range_write(1) nr(3) by (auto simp: performed_def same_outside_def)
      also have "\<dots> = ucast (load32 (c + CMD_VALUE) s)" using x n64 by (simp add: fill_bytes_apply byte_range_def)
      finally show ?thesis .
    qed
    moreover have "same_outside (request_bytes c s \<union> wake_bytes ?q s) (mem s) (mem s')"
    proof (rule same_outside_trans)
      have "same_outside (request_bytes c s) (mem s) (performed c s)"
        unfolding performed_def
        by (rule same_outside_trans [OF same_outside_mono [OF range_fill [OF n64]] same_outside_mono [OF range_write(1)]])
          (use fr in \<open>auto simp: request_bytes_def\<close>)
      then show "same_outside (request_bytes c s \<union> wake_bytes ?q s) (mem s) (performed c s)" by (rule same_outside_mono) simp
      show "same_outside (request_bytes c s \<union> wake_bytes ?q s) (performed c s) (mem s')"
        by (rule same_outside_trans [OF same_outside_mono [OF m1(2)] same_outside_mono [OF so]]) (auto simp: request_bytes_def)
    qed
    ultimately show ?case using 1 ri cs by (simp add: load32_def same_device_def)
  qed
qed

text \<open>The rest of the submission, run by the woken submitter.\<close>

lemma resume_done:
  assumes "ar_completed s"
  shows "\<exists>s'. accel_submit_resume c n irq WAIT_OK s = Inr (Done (ar_result s), s') \<and> \<not> ar_in_use s' \<and> ar_cmd s' = 0 \<and>
    same_device s s' \<and> mem s' = mem s \<and> same_sched s s'"
proof -
  define z where "z = irq_restore irq (s\<lparr>ar_cmd := 0, ar_in_use := False, ar_completed := False, ar_result := ACCEL_ERR_IO,
    ar_submitter := THREAD_INVALID_TID\<rparr>)"
  have "accel_submit_resume c n irq WAIT_OK s = Inr (Done (ar_result s), z)"
    using assms by (simp add: accel_submit_resume_def accel_submit_wait_def accel_submit_end_def WAIT_OK_def WAIT_TIMEOUT_def
        z_def Let_def)
  moreover have "\<not> ar_in_use z \<and> ar_cmd z = 0 \<and> same_device s z \<and> mem z = mem s \<and> same_sched s z"
    by (simp add: z_def irq_restore_def csr_set_sstatus_def csr_clear_sstatus_def same_device_def same_sched_def)
  ultimately show ?thesis by blast
qed

text \<open>The submitter begins to wait: its request is posted and the next thread runs.\<close>

lemma request_waits:
  fixes s :: "'a accel_scheme"
  assumes inv: "sched_inv Q s" and cur: "current_thread s = Some t" and nz: "t \<noteq> 0" and frame: "frame \<noteq> 0"
    and q: "accel_waiters_addr (link s) \<in> Q" and can: "can_submit c s" and n: "n \<noteq> 0"
  shows "\<exists>op k s1 f s2. accel_submit_sync_timeout c n s = Inr (Blocks (op, accel_waiters_addr (link s), k) (sstatus s), s1) \<and>
    block_current_from_trap frame (accel_waiters_addr (link s)) k s1 = Inr (f, s2) \<and> sched_inv Q s2 \<and> posted c s2 \<and>
    same_device s s2 \<and> current_thread s2 = Some (next_tid s) \<and> ready_list s2 = tl (ready_list s) \<and>
    wait_list s2 (accel_waiters_addr (link s)) = wait_list s (accel_waiters_addr (link s)) @ [t] \<and>
    (\<forall>x. th_trap_frame (threads s2 x) = (if x = t then frame else th_trap_frame (threads s x))) \<and>
    load64 (c + CMD_DST_PA) s2 = load64 (c + CMD_DST_PA) s \<and> load32 (c + CMD_LEN) s2 = load32 (c + CMD_LEN) s \<and>
    load32 (c + CMD_VALUE) s2 = load32 (c + CMD_VALUE) s \<and> same_outside (byte_range c 32 \<union> reg_bytes s) (mem s) (mem s2)"
proof -
  let ?q = "accel_waiters_addr (link s)"
  have started: "threads_started s" and q0: "?q \<noteq> 0"
    using inv cur q queues_ok_parts(3) [OF consistentD(1) [of "{}" Q s]] by (auto simp: sched_inv_def winv_def)
  obtain op k where w: "wait_request n s = (op, ?q, k)"
    by (cases "n = 0xffffffffffffffff") (simp_all add: wait_request_def)
  obtain s1 where s1: "accel_submit_sync_timeout c n s = Inr (Blocks (op, ?q, k) (sstatus s), s1)" "same_sched s s1"
    "mem s1 = submit_store c s" "same_device s s1" "ar_in_use s1" "\<not> ar_completed s1" "ar_cmd s1 = c"
    using submit_run [OF can started q0 n] w by auto
  note po = submit_posted [OF can s1(3-7)]
  have inv1: "sched_inv Q s1" and cur1: "current_thread s1 = Some t"
    using inv cur same_sched_inv [OF s1(2)] s1(2) by (simp_all add: same_sched_def)
  have li: "ready_list s1 = ready_list s" "wait_list s1 = wait_list s" "threads s1 = threads s" "next_tid s1 = next_tid s"
    using s1(2) by (simp_all add: same_sched_def ready_list_def wait_list_def next_tid_def fun_eq_iff)
  obtain f s2 s4 where b: "block_current_from_trap frame ?q k s1 = Inr (f, s2)" "sched_inv Q s2" "left_cpu s1 s4 s2"
    "mem s4 = mem s1" "threads s4 = (threads s1)(t := waiting frame (load64 (frame + FRAME_SP) s1) ?q k (ticks s1) (threads s1 t))"
    "ready_list s4 = ready_list s1" "wait_list s4 = (wait_list s1)(?q := wait_list s1 ?q @ [t])"
    using block_current_ok [OF inv1 cur1 nz frame q, of k] by (elim returnsE conjE exE) (rule that)
  note l = kept_leftD [OF b(3)]
  have mem2: "mem s2 = mem s1" by (simp only: l(6) b(4))
  have nt: "next_tid s4 = next_tid s" using b(6) li by (simp add: next_tid_def)
  have dev: "same_device s1 s2" using b(3) more_device(1-3) [OF l(9)] by (simp add: left_cpu_def kept_def same_device_def)
  have post: "posted c s2" using posted_same [OF dev more_device(4) [OF l(9)] mem2] po(1) by blast
  have dev0: "same_device s s2" using dev s1(4) by (simp add: same_device_def)
  have fr: "th_trap_frame (threads s2 x) = (if x = t then frame else th_trap_frame (threads s x))" for x
    using next_other [OF inv cur nz] nt by (auto simp: l(2) run_next_def b(5) li(3) waiting_def Let_def)
  have ld: "load64 (c + CMD_DST_PA) s2 = load64 (c + CMD_DST_PA) s" "load32 (c + CMD_LEN) s2 = load32 (c + CMD_LEN) s"
    "load32 (c + CMD_VALUE) s2 = load32 (c + CMD_VALUE) s"
    using po(2-4) mem2 by (simp_all add: load64_def load32_def)
  show ?thesis
    using s1(1) b(1,2) post dev0 fr ld l(1,3,5) nt b(6,7) li po(5) mem2
    by (intro exI [of _ op] exI [of _ k] exI [of _ s1] exI [of _ f] exI [of _ s2]) simp
qed

text \<open>
  C8: An accelerator request runs to its end. A thread submits a valid descriptor to the idle device: the
  call posts the request and asks for the processor to be given up, and the scheduler blocks the thread on
  the request's queue. The next step of the device and the dispatch of its interrupt do not panic: the
  destination then holds the value in all its bytes, the descriptor is marked as done, the interrupt is
  acknowledged and every waiter, the submitter last, is ready again. When it resumes, the submission
  returns success and the request is free for the next one. The frames of the
  waiting threads must not lie in the registers, the descriptor or the destination.
\<close>

theorem accel_request_completes:
  fixes s :: "'a accel_scheme"
  assumes inv: "sched_inv Q s" and cur: "current_thread s = Some t" and nz: "t \<noteq> 0" and frame: "frame \<noteq> 0"
    and q: "accel_waiters_addr (link s) \<in> Q" and can: "can_submit c s" and n: "n \<noteq> 0"
    and ap: "(wake_bytes (accel_waiters_addr (link s)) s \<union> byte_range (frame + FRAME_A0) 8) \<inter> request_bytes c s = {}"
  shows "\<exists>op k irq s1 f s2 s3 s4.
    accel_submit_sync_timeout c n s = Inr (Blocks (op, accel_waiters_addr (link s), k) irq, s1) \<and>
    block_current_from_trap frame (accel_waiters_addr (link s)) k s1 = Inr (f, s2) \<and> current_thread s2 = Some (next_tid s) \<and>
    platform_dispatch_pending_irqs built_in_drivers (platform_accel_step s2) = Inr ((), s3) \<and> sched_inv Q s3 \<and>
    ready_list s3 = tl (ready_list s) @ wait_list s (accel_waiters_addr (link s)) @ [t] \<and>
    wait_list s3 (accel_waiters_addr (link s)) = [] \<and>
    (\<forall>i < unat (load32 (c + CMD_LEN) s). mem s3 (load64 (c + CMD_DST_PA) s + of_nat i) = ucast (load32 (c + CMD_VALUE) s)) \<and>
    load32 (c + CMD_STATUS) s3 = ACCEL_CMD_STATUS_OK \<and> rg_irq (regs_of s3) = 0 \<and>
    accel_submit_resume c n irq WAIT_OK s3 = Inr (Done ACCEL_OK, s4) \<and> \<not> ar_in_use s4"
proof -
  let ?q = "accel_waiters_addr (link s)"
  obtain op k s1 f s2 where s2: "accel_submit_sync_timeout c n s = Inr (Blocks (op, ?q, k) (sstatus s), s1)"
    "block_current_from_trap frame ?q k s1 = Inr (f, s2)" "sched_inv Q s2" "posted c s2" "same_device s s2"
    "current_thread s2 = Some (next_tid s)" "ready_list s2 = tl (ready_list s)" "wait_list s2 ?q = wait_list s ?q @ [t]"
    "\<forall>x. th_trap_frame (threads s2 x) = (if x = t then frame else th_trap_frame (threads s x))"
    "load64 (c + CMD_DST_PA) s2 = load64 (c + CMD_DST_PA) s" "load32 (c + CMD_LEN) s2 = load32 (c + CMD_LEN) s"
    "load32 (c + CMD_VALUE) s2 = load32 (c + CMD_VALUE) s"
    using request_waits [OF inv cur nz frame q can n] by (elim exE conjE) (rule that)
  have l2: "link s2 = link s" using s2(5) by (simp add: same_device_def)
  have "wake_bytes ?q s2 \<subseteq> wake_bytes ?q s \<union> byte_range (frame + FRAME_A0) 8"
    using s2(8,9) by (auto simp: wake_bytes_def split: if_splits)
  moreover have "request_bytes c s2 = request_bytes c s" by (simp add: request_bytes_def l2 s2(10,11))
  ultimately have "wake_bytes (accel_waiters_addr (link s2)) s2 \<inter> request_bytes c s2 = {}" using ap l2 by auto
  note rd = request_done [OF s2(3) _ s2(4) this, unfolded l2, OF q]
  obtain s3 where s3: "platform_dispatch_pending_irqs built_in_drivers (platform_accel_step s2) = Inr ((), s3)" "sched_inv Q s3"
    "ar_completed s3" "ar_result s3 = ACCEL_OK" "rg_irq (regs_of s3) = 0" "ready_list s3 = ready_list s2 @ wait_list s2 ?q"
    "wait_list s3 ?q = []" "load32 (c + CMD_STATUS) s3 = ACCEL_CMD_STATUS_OK"
    "\<forall>i < unat (load32 (c + CMD_LEN) s2). mem s3 (load64 (c + CMD_DST_PA) s2 + of_nat i) = ucast (load32 (c + CMD_VALUE) s2)"
    using rd unfolding returns_def by (elim exE conjE) (rule that; simp)
  obtain s4 where s4: "accel_submit_resume c n (sstatus s) WAIT_OK s3 = Inr (Done ACCEL_OK, s4)" "\<not> ar_in_use s4"
    using resume_done [OF s3(3)] s3(4) by metis
  show ?thesis
    by (intro exI conjI) (rule s2(1) s2(2) s2(6) s3(1) s3(2) s3(6) [unfolded s2(7,8)] s3(7) s3(9) [unfolded s2(10-12)] s3(8)
        s3(5) s4(1) s4(2))+
qed

text \<open>A request on the concrete scheduler: four bytes of a page, with another waiter on the queue.\<close>

definition demo_request_memory :: memory where
  "demo_request_memory = (\<lambda>_. 0)(0x80420004 := 1, 0x80001000 := 1, 0x80001009 := 0x20, 0x8000100b := 0x80, 0x80001010 := 4,
     0x80001014 := 0x5a)"

definition demo_request :: traps where
  "demo_request = (let s = (demo_traps demo_sched)\<lparr>link := demo_link\<lparr>accel_waiters_addr := 0x100\<rparr>, mem := demo_request_memory,
      managed_start := 0x80000000, managed_end := 0x80004000, page_allocator_initialized := True\<rparr>
    in s\<lparr>devices := (\<lambda>_. \<lparr>dv_resource = Some (platform_accel_resource s), dv_driver = Some 0\<rparr>), device_count := 1,
         devices_initialized := True\<rparr>)"

lemma demo_request_fields:
  "link demo_request = demo_link\<lparr>accel_waiters_addr := 0x100\<rparr>" "mem demo_request = demo_request_memory"
  "managed_start demo_request = 0x80000000" "managed_end demo_request = 0x80004000" "page_allocator_initialized demo_request"
  "\<not> ar_in_use demo_request" "\<not> ar_reset_required demo_request" "devices_ok demo_request" "dv_driver (devices demo_request 0) = Some 0"
  by (simp_all add: demo_request_def Let_def demo_traps_def sched.defs devices_ok_def platform_accel_resource_def)

lemma demo_request_sched:
  "sched_inv {0x100} demo_request" "current_thread demo_request = Some 1" "threads demo_request = demo_thread"
  "wait_list demo_request 0x100 = [4]" "ready_list demo_request = [2]"
proof -
  have same: "same_sched (demo_traps demo_sched) demo_request" by (simp add: demo_request_def Let_def same_sched_def)
  show "sched_inv {0x100} demo_request" using same_sched_inv [OF same] demo_traps_same(1) demo_inv by blast
  show "current_thread demo_request = Some 1" "threads demo_request = demo_thread" using same by (simp_all add: same_sched_def)
  have "wait_list demo_request = wait_list (demo_traps demo_sched)" "ready_list demo_request = ready_list (demo_traps demo_sched)"
    using same by (simp_all del: demo_traps_simps add: same_sched_def wait_list_def ready_list_def fun_eq_iff)
  then show "wait_list demo_request 0x100 = [4]" "ready_list demo_request = [2]" by simp_all
qed

lemma demo_request_loads:
  "load32 (0x80001000 + CMD_OP) demo_request = 1" "load32 (0x80001000 + CMD_FLAGS) demo_request = 0"
  "load64 (0x80001000 + CMD_DST_PA) demo_request = 0x80002000" "load32 (0x80001000 + CMD_LEN) demo_request = 4"
  "load32 (0x80001000 + CMD_VALUE) demo_request = 0x5a" "load32 (0x80001000 + CMD_RESERVED) demo_request = 0"
  by (simp_all add: load32_def load64_def read32_def read64_def cmd_offsets demo_request_fields) (simp_all add: demo_request_memory_def)

lemma demo_can_submit: "can_submit 0x80001000 demo_request"
proof -
  have "regs_of demo_request = \<lparr>rg_status = 1, rg_control = 0, rg_irq = 0, rg_ack = 0, rg_cmd = 0\<rparr>"
    by (simp add: demo_request_fields demo_link_def regs_at_def read32_def read64_def accel_regs) (simp add: demo_request_memory_def)
  moreover have "accel_cmd_pointer_is_safe 0x80001000 demo_request"
    by (simp add: accel_cmd_pointer_is_safe_def ACCEL_CMD_ALIGNMENT_def page_range_is_managed_page_contained_def
        demo_request_fields CMD_SIZEOF_def PAGE_MASK_def PAGE_SIZE_def Let_def)
  moreover have "accel_cmd_payload_is_valid 0x80001000 demo_request"
    by (simp add: accel_cmd_payload_is_valid_def demo_request_loads accel_cmd_codes page_range_is_managed_page_contained_def
        demo_request_fields PAGE_MASK_def PAGE_SIZE_def Let_def)
  moreover have "dst_apart 0x80001000 demo_request"
    by (simp add: dst_apart_def demo_request_loads CMD_SIZEOF_def) (rule ranges_apart; simp)
  moreover have "regs_ok demo_request" by (simp add: regs_ok_def demo_request_fields demo_link_def)
  ultimately show ?thesis by (simp add: can_submit_def accel_bound_def demo_request_fields accel_bits)
qed

theorem accel_request_completes_witness:
  "\<exists>op k irq s1 f s2 s3 s4.
    accel_submit_sync_timeout 0x80001000 7 demo_request = Inr (Blocks (op, 0x100, k) irq, s1) \<and>
    block_current_from_trap 0x9000 0x100 k s1 = Inr (f, s2) \<and> current_thread s2 = Some 2 \<and>
    platform_dispatch_pending_irqs built_in_drivers (platform_accel_step s2) = Inr ((), s3) \<and>
    ready_list s3 = [4, 1] \<and> mem s3 (0x80002000 + of_nat 3) = 0x5a \<and>
    accel_submit_resume 0x80001000 7 irq WAIT_OK s3 = Inr (Done ACCEL_OK, s4)"
proof -
  have a: "accel_waiters_addr (link demo_request) = 0x100" by (simp add: demo_request_fields)
  have ap: "(wake_bytes (accel_waiters_addr (link demo_request)) demo_request \<union> byte_range (0x9000 + FRAME_A0) 8) \<inter>
      request_bytes 0x80001000 demo_request = {}"
    by (simp add: a wake_bytes_def request_bytes_def demo_request_sched demo_request_loads demo_request_fields demo_link_def
        demo_thread_def unused_thread_def FRAME_A0_def Int_Un_distrib Int_Un_distrib2 ranges_apart)
  have n: "next_tid demo_request = 2" by (simp add: next_tid_case demo_request_sched)
  have i: "(3::nat) < unat (load32 (0x80001000 + CMD_LEN) demo_request)" by (simp add: demo_request_loads)
  obtain op k irq s1 f s2 s3 s4 where r:
    "accel_submit_sync_timeout 0x80001000 7 demo_request = Inr (Blocks (op, 0x100, k) irq, s1)"
    "block_current_from_trap 0x9000 0x100 k s1 = Inr (f, s2)" "current_thread s2 = Some (next_tid demo_request)"
    "platform_dispatch_pending_irqs built_in_drivers (platform_accel_step s2) = Inr ((), s3)"
    "ready_list s3 = tl (ready_list demo_request) @ wait_list demo_request 0x100 @ [1]"
    "\<forall>i < unat (load32 (0x80001000 + CMD_LEN) demo_request). mem s3 (load64 (0x80001000 + CMD_DST_PA) demo_request + of_nat i) =
      ucast (load32 (0x80001000 + CMD_VALUE) demo_request)"
    "accel_submit_resume 0x80001000 7 irq WAIT_OK s3 = Inr (Done ACCEL_OK, s4)"
    using accel_request_completes [OF demo_request_sched(1,2) _ _ _ demo_can_submit _ ap, of 7, unfolded a]
    by simp (elim exE conjE, rule that)
  have "mem s3 (load64 (0x80001000 + CMD_DST_PA) demo_request + of_nat 3) = ucast (load32 (0x80001000 + CMD_VALUE) demo_request)"
    using r(6) i by blast
  then have m: "mem s3 (0x80002000 + of_nat 3) = 0x5a" by (simp only: demo_request_loads) simp
  have rl: "ready_list s3 = [4, 1]" using r(5) by (simp add: demo_request_sched)
  show ?thesis
    by (intro exI conjI) (rule r(1) r(2) r(3) [unfolded n] r(4) rl m r(7))+
qed

end
