(* ===== verification/Driver_Spec.thy ===== *)
theory Driver_Spec
  imports Accel_Request
begin

text \<open>
  The drivers at boot: probing registers the platform's device and binds it if it answers.
\<close>

section \<open>Probing\<close>

text \<open>The device answers with the accelerator's identification.\<close>

definition accel_answers :: "'a hw_scheme \<Rightarrow> bool" where
  "accel_answers s \<longleftrightarrow> load32 (accel_mmio_addr (link s) + ACCEL_REG_ID) s = ACCEL_DEVICE_ID_VALUE"

text \<open>The registry after probing: one device, bound to the first driver if it answered.\<close>

definition probed :: "'a accel_scheme \<Rightarrow> 'a accel_scheme \<Rightarrow> bool" where
  "probed s s' \<longleftrightarrow> devices_ok s' \<and> dv_driver (devices s' 0) = (if accel_answers s then Some 0 else None) \<and>
     mem s' = mem s \<and> link s' = link s \<and> threads s' = threads s \<and>
     (if accel_answers s then \<not> ar_in_use s' \<and> \<not> ar_completed s' \<and> \<not> ar_reset_required s' \<and> ar_cmd s' = 0
      else same_request s s')"

text \<open>The state in which a probe leaves the driver of a device that answered.\<close>

definition probe_reset :: "'a accel_scheme \<Rightarrow> 'a accel_scheme" where
  "probe_reset s = s\<lparr>wait_queues := (wait_queues s)(accel_waiters_addr (link s) :=
      (wait_queues s (accel_waiters_addr (link s)))\<lparr>wq_head := 0, wq_tail := 0, wq_count := 0, wq_name := Some ''accel-request''\<rparr>),
    ar_cmd := 0, ar_in_use := False, ar_completed := False, ar_result := ACCEL_ERR_IO,
    ar_reset_required := False, ar_submitter := THREAD_INVALID_TID\<rparr>"

lemma probe_result:
  fixes s :: "'a accel_scheme"
  assumes "accel_waiters_addr (link s) \<noteq> 0" and "devices_ok s"
  shows "accel_probe 0 s = Inr (if accel_answers s then (0, probe_reset s) else (-1, s))"
proof -
  have base: "device_mmio_base (Some 0) s = accel_mmio_addr (link s)"
    using assms(2) by (simp add: device_mmio_base_def dev_resource_def devices_ok_def platform_accel_resource_def)
  define z where "z = s\<lparr>wait_queues := (wait_queues s)(accel_waiters_addr (link s) :=
    (wait_queues s (accel_waiters_addr (link s)))\<lparr>wq_head := 0, wq_tail := 0, wq_count := 0, wq_name := Some ''accel-request''\<rparr>)\<rparr>"
  have w: "wait_queue_init (accel_waiters_addr (link s)) (Some ''accel-request'') s = Inr ((), z)"
    using assms(1) by (simp add: z_def wait_queue_init_def irq_masked_def irq_save_def csr_clear_sstatus_def irq_restore_masked)
  show ?thesis by (simp add: accel_probe_def base accel_answers_def w) (simp add: z_def probe_reset_def)
qed

text \<open>The state after all probes: the one device is bound if it answered.\<close>

definition probe_bound :: "'a accel_scheme \<Rightarrow> 'a accel_scheme" where
  "probe_bound s = (if accel_answers s
     then (probe_reset s)\<lparr>devices := (devices s)(0 := (devices s 0)\<lparr>dv_driver := Some 0\<rparr>)\<rparr> else s)"

lemma probe_drivers_built_in:
  "probe_drivers built_in_drivers 0 r s = probe_devices 0 accel_driver accel_probe [0..<device_count s] r s"
proof -
  have a: "drv_probe accel_driver = Some (accel_probe :: nat \<Rightarrow> 'a accel_scheme \<Rightarrow> (int \<times> 'a accel_scheme) res)"
    "drv_compatible accel_driver \<noteq> None" by (simp_all add: accel_driver_def)
  show ?thesis
    unfolding built_in_drivers_def probe_drivers.simps a(1) option.case if_not_P [OF a(2)]
    by (cases "probe_devices 0 accel_driver accel_probe [0..<device_count s] r s") auto
qed

lemma probe_all_result:
  fixes s :: "'a accel_scheme"
  assumes "device_init s = Inr ((), s0)" and "devices_ok s0" and "dv_driver (devices s0 0) = None"
    and "accel_waiters_addr (link s0) \<noteq> 0"
  shows "driver_probe_all built_in_drivers s = Inr (\<lparr>pr_device_count = 1, pr_driver_count = 1,
      pr_bound_count = (if accel_answers s0 then 1 else 0), pr_failed_count = (if accel_answers s0 then 0 else 1)\<rparr>, probe_bound s0)"
proof -
  let ?r = "\<lparr>pr_device_count = 1, pr_driver_count = 1, pr_bound_count = 0, pr_failed_count = 0\<rparr>"
  have m: "string_equal (dr_compatible (dev_resource 0 s0)) (drv_compatible accel_driver)"
    using assms(2) by (simp add: devices_ok_def dev_resource_def platform_accel_resource_def string_equal_iff accel_driver_def)
  have one: "length (built_in_drivers :: ('a accel_scheme) driver option list) = 1" "[0..<1] = [0 :: nat]" "device_count s0 = 1"
    using assms(2) by (simp_all add: built_in_drivers_def devices_ok_def)
  have d: "devices (probe_reset s0) = devices s0" by (simp add: probe_reset_def)
  have pd: "probe_devices 0 accel_driver accel_probe [0] ?r s0 = Inr (?r\<lparr>pr_bound_count := (if accel_answers s0 then 1 else 0),
      pr_failed_count := (if accel_answers s0 then 0 else 1)\<rparr>, probe_bound s0)"
    using assms(3) m by (simp add: probe_result [OF assms(4,2)] probe_bound_def d)
  show ?thesis unfolding driver_probe_all_def assms(1) bindE_Inr prod.case probe_drivers_built_in one pd by simp
qed

lemma probe_again:
  fixes s :: "'a accel_scheme"
  assumes "devices_ok s" and "dv_driver (devices s 0) \<noteq> None"
  shows "driver_probe_all built_in_drivers s =
    Inr (\<lparr>pr_device_count = 1, pr_driver_count = 1, pr_bound_count = 0, pr_failed_count = 0\<rparr>, s)"
proof -
  have one: "length (built_in_drivers :: ('a accel_scheme) driver option list) = 1" "[0..<1] = [0 :: nat]" "device_count s = 1"
    "device_init s = Inr ((), s)"
    using assms(1) by (simp_all add: built_in_drivers_def devices_ok_def device_init_ready)
  then show ?thesis unfolding driver_probe_all_def using assms(2) by (simp add: probe_drivers_built_in one del: One_nat_def)
qed

lemma probe_bound_fields:
  "mem (probe_bound s) = mem s" "link (probe_bound s) = link s" "threads (probe_bound s) = threads s"
  "devices_ok (probe_bound s) = devices_ok s" "dv_driver (devices (probe_bound s) 0) = (if accel_answers s then Some 0 else dv_driver (devices s 0))"
  by (simp_all add: probe_bound_def probe_reset_def devices_ok_def platform_accel_resource_def)

text \<open>
  \<open>driver_probe_all\<close> at boot registers the platform's one device and offers it to the one built-in
  driver: it never panics, binds the device and resets the driver's request exactly when the identification
  register holds the accelerator's value, and counts it as bound or as failed accordingly. Only a bound device is
  found by the driver's operations. Probing again offers a bound device to no driver and changes nothing.
\<close>

theorem driver_probe_binds:
  fixes s :: "'a accel_scheme"
  assumes "\<not> devices_initialized s" and "accel_waiters_addr (link s) \<noteq> 0"
  shows "\<exists>s'. driver_probe_all built_in_drivers s = Inr (\<lparr>pr_device_count = 1, pr_driver_count = 1,
      pr_bound_count = (if accel_answers s then 1 else 0), pr_failed_count = (if accel_answers s then 0 else 1)\<rparr>, s') \<and>
    probed s s' \<and> accel_device s' = Inr (if accel_answers s then Some 0 else None, s') \<and>
    (accel_answers s \<longrightarrow> driver_probe_all built_in_drivers s' =
      Inr (\<lparr>pr_device_count = 1, pr_driver_count = 1, pr_bound_count = 0, pr_failed_count = 0\<rparr>, s'))"
proof -
  define s0 where "s0 = s\<lparr>devices := (devices s)(0 := \<lparr>dv_resource = Some (platform_accel_resource s), dv_driver = None\<rparr>),
    device_count := 1, devices_initialized := True\<rparr>"
  have i0: "device_init s = Inr ((), s0)" unfolding s0_def by (rule device_init_first [OF assms(1)])
  have f0: "devices_ok s0" "dv_driver (devices s0 0) = None" "mem s0 = mem s" "link s0 = link s"
    "threads s0 = threads s" "same_request s s0" "accel_answers s0 = accel_answers s"
    by (simp_all add: s0_def devices_ok_def platform_accel_resource_def same_request_def accel_answers_def load32_def)
  have w: "accel_waiters_addr (link s0) \<noteq> 0" using assms(2) f0(4) by simp
  note run = probe_all_result [OF i0 f0(1,2) w, unfolded f0(7)]
  let ?s = "probe_bound s0"
  have ok: "devices_ok ?s" "dv_driver (devices ?s 0) = (if accel_answers s then Some 0 else None)"
    using f0 by (simp_all add: probe_bound_fields)
  have req: "if accel_answers s then \<not> ar_in_use ?s \<and> \<not> ar_completed ?s \<and> \<not> ar_reset_required ?s \<and> ar_cmd ?s = 0
      else same_request s ?s"
    using f0(6,7) by (simp add: probe_bound_def probe_reset_def)
  have "probed s ?s" using ok req f0(3,4,5) by (simp add: probed_def probe_bound_fields)
  moreover have "accel_device ?s = Inr (if accel_answers s then Some 0 else None, ?s)"
    using ok by (simp add: accel_device_def device_find_accel device_is_bound_def)
  moreover have "accel_answers s \<Longrightarrow> driver_probe_all built_in_drivers ?s =
      Inr (\<lparr>pr_device_count = 1, pr_driver_count = 1, pr_bound_count = 0, pr_failed_count = 0\<rparr>, ?s)"
    using probe_again [OF ok(1)] ok(2) by simp
  ultimately show ?thesis using run by blast
qed

theorem driver_probe_binds_witness:
  "\<exists>r s'. driver_probe_all built_in_drivers ((demo_traps demo_sched)\<lparr>mem := (\<lambda>_. 0)(0x80420000 := 0x01, 0x80420001 := 0x50,
      0x80420002 := 0xc3, 0x80420003 := 0xac)\<rparr>) = Inr (r, s') \<and> pr_bound_count r = 1 \<and> accel_device s' = Inr (Some 0, s')"
proof -
  let ?s = "(demo_traps demo_sched)\<lparr>mem := (\<lambda>_. 0)(0x80420000 := 0x01, 0x80420001 := 0x50, 0x80420002 := 0xc3, 0x80420003 := 0xac)\<rparr>"
  have a: "accel_answers ?s"
    by (simp add: accel_answers_def load32_def read32_def accel_regs demo_link_def ACCEL_DEVICE_ID_VALUE_def)
  have "\<not> devices_initialized ?s" "accel_waiters_addr (link ?s) \<noteq> 0"
    by (simp_all add: demo_link_def) (simp add: demo_traps_def sched.defs)
  from driver_probe_binds [OF this] a show ?thesis by auto
qed

end
