(* ===== verification/Scenario_Accel.thy ===== *)
theory Scenario_Accel
  imports Scenario_Memory Driver_Spec Mutex_Spec
begin

text \<open>
  The self-tests of the driver framework and of the registers of the accelerator, \<open>scenario_driver_framework\<close> and
  \<open>scenario_accelerator_registers\<close> of \<^verbatim>\<open>kernel/core/scenario.c\<close>, with the helpers of the other tests of the accelerator.
\<close>

section \<open>Helpers\<close>

definition scenario_init_memset_cmd :: "u64 \<Rightarrow> u64 \<Rightarrow> u32 \<Rightarrow> u32 \<Rightarrow> 'a hw_scheme \<Rightarrow> 'a hw_scheme" where
  "scenario_init_memset_cmd cmd dst len v s =
     (let s = store32 (cmd + CMD_OP) ACCEL_CMD_OP_MEMSET s;
          s = store32 (cmd + CMD_FLAGS) 0 s;
          s = store64 (cmd + CMD_DST_PA) dst s;
          s = store32 (cmd + CMD_LEN) len s;
          s = store32 (cmd + CMD_VALUE) v s;
          s = store32 (cmd + CMD_STATUS) ACCEL_CMD_STATUS_ERROR s
      in store32 (cmd + CMD_RESERVED) 0 s)"

definition scenario_expect_memset_range :: "u64 \<Rightarrow> u64 \<Rightarrow> u32 \<Rightarrow> u8 \<Rightarrow> 'a hw_scheme \<Rightarrow> (unit \<times> 'a hw_scheme) res" where
  "scenario_expect_memset_range page offset len v s =
     (if offset = 0 \<or> PAGE_SIZE \<le> offset + ucast len then Inl ''invalid memset verification range''
      else if mem s (page + offset - 1) \<noteq> 0xcc \<or> mem s (page + offset + ucast len) \<noteq> 0xcc
      then Inl ''accelerator memset overflowed buffer''
      else if \<exists>i<unat len. mem s (page + offset + of_nat i) \<noteq> v then Inl ''accelerator memset wrote wrong value''
      else Inr ((), s))"

definition expect_accel_status :: "u32 \<Rightarrow> string \<Rightarrow> 'a accel_scheme \<Rightarrow> (unit \<times> 'a accel_scheme) res" where
  "expect_accel_status expected name s =
     bindE (accel_get_status True s) (\<lambda>((r, status), s).
       if r \<noteq> ACCEL_OK \<or> status \<noteq> expected then Inl ''accelerator status mismatch'' else Inr ((), s))"

definition expect_accel_irq_status :: "u32 \<Rightarrow> string \<Rightarrow> 'a accel_scheme \<Rightarrow> (unit \<times> 'a accel_scheme) res" where
  "expect_accel_irq_status expected name s =
     bindE (accel_get_irq_status True s) (\<lambda>((r, irq_status), s).
       if r \<noteq> ACCEL_OK \<or> irq_status \<noteq> expected then Inl ''accelerator irq status mismatch'' else Inr ((), s))"

definition expect_accel :: "u32 \<Rightarrow> u32 \<Rightarrow> string \<Rightarrow> 'a accel_scheme \<Rightarrow> (unit \<times> 'a accel_scheme) res" where
  "expect_accel status irq_status name s =
     bindE (expect_accel_status status name s) (\<lambda>(_, s). expect_accel_irq_status irq_status name s)"

section \<open>The driver framework\<close>

definition scenario_driver_framework :: "'a accel_scheme \<Rightarrow> (unit \<times> 'a accel_scheme) res" where
  "scenario_driver_framework s =
     (let s = println ''scenario: driver-framework'' s in
     bindE (must (device_find_by_name (Some ACCEL_DEVICE_NAME) s) (\<lambda>dev. dev \<noteq> None) ''accelerator lookup by name failed'') (\<lambda>(by_name, s).
     bindE (must (device_find_by_compatible (Some ACCEL_DEVICE_COMPATIBLE) s) (\<lambda>dev. dev = by_name)
       ''accelerator lookup by compatible failed'') (\<lambda>(_, s).
     if \<not> device_is_bound by_name s then Inl ''accelerator did not bind''
     else if device_driver by_name s = None \<or> irq_handler_of built_in_drivers (the by_name) s = None \<or>
       device_irq by_name s \<noteq> ACCEL_DEVICE_IRQ \<or> device_mmio_size by_name s < ACCEL_MMIO_SIZE
     then Inl ''accelerator metadata invalid''
     else
     bindE (must (accel_reset s) (\<lambda>r. r = ACCEL_OK) ''accelerator framework operation failed'') (\<lambda>(_, s).
     bindE (must (accel_start_selftest s) (\<lambda>r. r = ACCEL_OK) ''accelerator framework operation failed'') (\<lambda>(_, s).
     bindE (must (accel_get_status True s) (\<lambda>(r, status). r = ACCEL_OK \<and> status = ACCEL_STATUS_DONE)
       ''accelerator framework status invalid'') (\<lambda>(_, s).
     let s = println ''driver: accelerator device bound'' s;
         s = println ''driver: accelerator mmio path passed'' s in
     Inr ((), println ''milestone 17: driver framework'' s)))))))"

section \<open>The registers of the accelerator\<close>

definition registers_start :: "'a accel_scheme \<Rightarrow> (unit \<times> 'a accel_scheme) res" where
  "registers_start s =
     bindE (must (accel_reset s) (\<lambda>r. r = ACCEL_OK) ''accelerator reset failed'') (\<lambda>(_, s).
     bindE (expect_accel ACCEL_STATUS_IDLE 0 ''reset'' s) (\<lambda>(_, s).
     bindE (must (accel_start_selftest s) (\<lambda>r. r = ACCEL_OK) ''accelerator start failed'') (\<lambda>(_, s).
     bindE (expect_accel ACCEL_STATUS_DONE ACCEL_IRQ_DONE ''start'' s) (\<lambda>(_, s).
     bindE (must (accel_ack_irq ACCEL_IRQ_DONE s) (\<lambda>r. r = ACCEL_OK) ''accelerator done ack failed'') (\<lambda>(_, s).
     expect_accel ACCEL_STATUS_DONE 0 ''ack-done'' s)))))"

definition registers_error :: "'a accel_scheme \<Rightarrow> (unit \<times> 'a accel_scheme) res" where
  "registers_error s =
     bindE (must (accel_start_selftest s) (\<lambda>r. r = ACCEL_OK) ''accelerator invalid start command failed'') (\<lambda>(_, s).
     bindE (expect_accel ACCEL_STATUS_ERROR ACCEL_IRQ_ERROR ''start-after-done'' s) (\<lambda>(_, s).
     bindE (must (accel_ack_irq ACCEL_IRQ_ERROR s) (\<lambda>r. r = ACCEL_OK) ''accelerator error ack failed'') (\<lambda>(_, s).
     expect_accel ACCEL_STATUS_ERROR 0 ''ack-error'' s)))"

definition registers_raw :: "'a accel_scheme \<Rightarrow> (unit \<times> 'a accel_scheme) res" where
  "registers_raw s =
     bindE (must (accel_write_control_raw (ACCEL_CONTROL_RESET OR ACCEL_CONTROL_START) s) (\<lambda>r. r = ACCEL_OK)
       ''accelerator reset-start command failed'') (\<lambda>(_, s).
     bindE (expect_accel ACCEL_STATUS_IDLE 0 ''reset-start'' s) (\<lambda>(_, s).
     bindE (must (accel_write_control_raw (ACCEL_CONTROL_START OR push_bit 31 1) s) (\<lambda>r. r = ACCEL_ERR_INVALID)
       ''accelerator invalid control bits accepted'') (\<lambda>(_, s).
     expect_accel ACCEL_STATUS_IDLE 0 ''invalid-control'' s)))"

definition registers_report :: "'a hw_scheme \<Rightarrow> 'a hw_scheme" where
  "registers_report s =
     (let s = println ''accel: reset idle'' s;
          s = println ''accel: start done'' s;
          s = println ''accel: invalid transition error'' s;
          s = println ''accel: reset priority passed'' s
      in println ''milestone 18: simulated accelerator registers'' s)"

definition scenario_accelerator_registers :: "'a accel_scheme \<Rightarrow> (unit \<times> 'a accel_scheme) res" where
  "scenario_accelerator_registers s =
     (let s = println ''scenario: accelerator-registers'' s in
     bindE (must (device_find_by_name (Some ACCEL_DEVICE_NAME) s) (\<lambda>dev. dev \<noteq> None) ''accelerator device unavailable'') (\<lambda>(dev, s).
     if \<not> device_is_bound dev s then Inl ''accelerator device unavailable''
     else
     bindE (registers_start s) (\<lambda>(_, s).
     bindE (registers_error s) (\<lambda>(_, s).
     bindE (registers_raw s) (\<lambda>(_, s).
     Inr ((), registers_report s))))))"

section \<open>The driver's raw operations\<close>

lemma status_ok:
  assumes "accel_bound s"
  shows "accel_get_status True s = Inr ((ACCEL_OK, rg_status (regs_of s)), s)"
    and "accel_get_irq_status True s = Inr ((ACCEL_OK, rg_irq (regs_of s)), s)"
  using bound_device(1,2) [OF assms] by (simp_all add: accel_get_status_def accel_get_irq_status_def regs_at_def load32_def)

lemma expect_ok:
  assumes "accel_bound s" and "rg_status (regs_of s) = st" and "rg_irq (regs_of s) = irq"
  shows "expect_accel st irq name s = Inr ((), s)"
  using status_ok [OF assms(1)] assms(2,3) by (simp add: expect_accel_def expect_accel_status_def expect_accel_irq_status_def)

text \<open>The registers after a raw control word, when no descriptor is set or the device is reset.\<close>

definition control_regs :: "u32 \<Rightarrow> regs \<Rightarrow> regs" where
  "control_regs c r =
     (if c AND ACCEL_CONTROL_RESET \<noteq> 0
      then \<lparr>rg_status = ACCEL_STATUS_IDLE, rg_control = 0, rg_irq = 0, rg_ack = 0, rg_cmd = 0\<rparr>
      else if c AND ACCEL_CONTROL_START = 0 then r\<lparr>rg_control := 0, rg_irq := rg_irq r AND NOT (rg_ack r), rg_ack := 0\<rparr>
      else if rg_status r = ACCEL_STATUS_IDLE
      then r\<lparr>rg_status := ACCEL_STATUS_DONE, rg_control := 0, rg_irq := ACCEL_IRQ_DONE AND NOT (rg_ack r), rg_ack := 0\<rparr>
      else r\<lparr>rg_status := ACCEL_STATUS_ERROR, rg_control := 0, rg_irq := ACCEL_IRQ_ERROR AND NOT (rg_ack r), rg_ack := 0\<rparr>)"

definition settled :: "'a accel_scheme \<Rightarrow> regs \<Rightarrow> 'a accel_scheme \<Rightarrow> bool" where
  "settled b r s \<longleftrightarrow> accel_bound s \<and> \<not> ar_in_use s \<and> \<not> ar_reset_required s \<and> regs_of s = r \<and>
     same_device b s \<and> same_sched b s \<and> same_outside (reg_bytes b) (mem b) (mem s)"

lemma same_device_trans: "same_device s s' \<Longrightarrow> same_device s' s'' \<Longrightarrow> same_device s s''"
  by (simp add: same_device_def)

lemma control_step:
  fixes s :: "'a accel_scheme"
  assumes b: "accel_bound s" and m: "mem s1 = write32 (mem s) (accel_mmio_addr (link s) + ACCEL_REG_CONTROL) c" and d: "same_device s s1"
    and safe: "c AND ACCEL_CONTROL_RESET \<noteq> 0 \<or> rg_cmd (regs_of s) = 0"
  shows "\<exists>m'. platform_accel_step s1 = s1\<lparr>mem := m'\<rparr> \<and> regs_at (accel_mmio_addr (link s)) m' = control_regs c (regs_of s) \<and>
    same_outside (reg_bytes s) (mem s) m'"
proof -
  let ?a = "accel_mmio_addr (link s)"
  have ok: "regs_ok s" using b by (simp add: accel_bound_def)
  have a: "unat ?a + 32 < 2 ^ 64" using ok by (simp add: regs_ok_def Let_def)
  have l: "link s1 = link s" using d by (simp add: same_device_def)
  have ok1: "regs_ok s1" using ok d by (simp add: regs_ok_def same_device_def)
  have r1: "regs_of s1 = (regs_of s)\<lparr>rg_control := c\<rparr>" unfolding m l by (simp add: reg_write [OF a])
  have so1: "same_outside (reg_bytes s) (mem s) (mem s1)" unfolding m by (rule reg_inside(2) [OF a])
  have safe1: "start_safe s1" using safe by (auto simp: start_safe_def Let_def r1)
  have e: "step_effect s1 = (control_regs c (regs_of s), (\<lambda>m. m))"
    using safe by (auto simp: step_effect_def start_effect_def control_regs_def Let_def r1)
  obtain m' where m': "platform_accel_step s1 = s1\<lparr>mem := m'\<rparr>" "regs_at (accel_mmio_addr (link s1)) m' = control_regs c (regs_of s)"
    "same_outside (reg_bytes s1) (mem s1) m'"
    using accel_step [OF ok1 safe1] by (auto simp: e)
  have "same_outside (reg_bytes s) (mem s) m'" using same_outside_trans [OF so1] m'(3) l by simp
  then show ?thesis using m'(1,2) l by auto
qed

lemma control_ok:
  fixes s :: "'a accel_scheme"
  assumes b: "accel_bound s" and idle: "\<not> ar_in_use s" "ar_reset_required s \<longrightarrow> c AND ACCEL_CONTROL_RESET \<noteq> 0"
    and bits: "c AND NOT (ACCEL_CONTROL_START OR ACCEL_CONTROL_RESET) = 0"
    and safe: "c AND ACCEL_CONTROL_RESET \<noteq> 0 \<or> rg_cmd (regs_of s) = 0"
  obtains s' where "accel_write_control_raw c s = Inr (ACCEL_OK, s')" "settled s (control_regs c (regs_of s)) s'"
proof -
  define s0 where "s0 = snd (irq_save s)"
  have save: "irq_save s = (sstatus s, s0)" by (simp add: s0_def irq_save_def)
  define s1 where "s1 = store32 (accel_mmio_addr (link s) + ACCEL_REG_CONTROL) c s0"
  have f0: "mem s0 = mem s" "link s0 = link s" "ar_in_use s0 = ar_in_use s" "ar_reset_required s0 = ar_reset_required s"
    by (simp_all add: s0_def irq_save_def csr_clear_sstatus_def)
  have "same_device s s0" by (simp add: s0_def irq_save_def csr_clear_sstatus_def same_device_def)
  then have base: "device_mmio_base (Some 0) s0 = accel_mmio_addr (link s)"
    using bound_device(2) [of s0] b bound_same f0(2) by metis
  have f1: "mem s1 = write32 (mem s) (accel_mmio_addr (link s) + ACCEL_REG_CONTROL) c" "same_device s s1" "same_sched s s1"
    "ar_in_use s1 = ar_in_use s" "ar_reset_required s1 = ar_reset_required s"
    by (simp_all add: s1_def store32_def f0) (simp_all add: s0_def irq_save_def csr_clear_sstatus_def same_device_def same_sched_def)
  obtain m' where m': "platform_accel_step s1 = s1\<lparr>mem := m'\<rparr>" "regs_at (accel_mmio_addr (link s)) m' = control_regs c (regs_of s)"
    "same_outside (reg_bytes s) (mem s) m'"
    using control_step [OF b f1(1,2) safe] by blast
  define s2 where "s2 = s1\<lparr>mem := m'\<rparr>"
  define s3 where "s3 = (if c AND ACCEL_CONTROL_RESET \<noteq> 0
    then trace_emit TRACE_ACCEL_RESET (thread_current_tid s2) THREAD_INVALID_TID (ucast c) (sext64 ACCEL_OK) (s2\<lparr>ar_reset_required := False\<rparr>)
    else s2)"
  have run: "accel_write_control_raw c s = Inr (ACCEL_OK, irq_restore (sstatus s) s3)"
    unfolding accel_write_control_raw_def bound_device(1) [OF b] bindE_Inr prod.case bound_device(2) [OF b] save Let_def
    using bits idle f0 by (auto simp: base s1_def [symmetric] m'(1) s2_def [symmetric] s3_def)
  have f3: "mem s3 = m'" "same_device s s3" "same_sched s s3" "\<not> ar_in_use s3" "\<not> ar_reset_required s3"
    using f1(2-5) idle by (auto simp: s3_def s2_def trace_emit_eq Let_def same_device_def same_sched_def)
  define s4 where "s4 = irq_restore (sstatus s) s3"
  have f4: "mem s4 = m'" "same_device s s4" "same_sched s s4" "\<not> ar_in_use s4" "\<not> ar_reset_required s4"
    using f3 by (auto simp: s4_def irq_restore_def csr_set_sstatus_def csr_clear_sstatus_def same_device_def same_sched_def)
  have "link s4 = link s" using f4(2) by (simp add: same_device_def)
  then have st: "settled s (control_regs c (regs_of s)) s4"
    using f4 m'(2,3) b bound_same [OF f4(2)] by (simp add: settled_def)
  show thesis by (rule that [OF run [folded s4_def] st])
qed

lemma ack_ok:
  fixes s :: "'a accel_scheme"
  assumes st: "settled b r s" and ctl: "rg_control r = 0"
    and bits: "bits AND NOT (ACCEL_IRQ_DONE OR ACCEL_IRQ_ERROR) = 0"
  obtains s' where "accel_ack_irq bits s = Inr (ACCEL_OK, s')" "settled b (r\<lparr>rg_irq := rg_irq r AND NOT bits, rg_ack := 0\<rparr>) s'"
proof -
  have b: "accel_bound s" and free: "\<not> ar_in_use s" "\<not> ar_reset_required s" and r: "regs_of s = r" using st by (simp_all add: settled_def)
  let ?a = "accel_mmio_addr (link s)"
  have ok: "regs_ok s" using b by (simp add: accel_bound_def)
  have a: "unat ?a + 32 < 2 ^ 64" using ok by (simp add: regs_ok_def Let_def)
  define s0 where "s0 = snd (irq_save s)"
  have save: "irq_save s = (sstatus s, s0)" by (simp add: s0_def irq_save_def)
  define s1 where "s1 = store32 (?a + ACCEL_REG_IRQ_ACK) bits s0"
  have f0: "mem s0 = mem s" "link s0 = link s" "ar_in_use s0 = ar_in_use s" "ar_reset_required s0 = ar_reset_required s"
    by (simp_all add: s0_def irq_save_def csr_clear_sstatus_def)
  have "same_device s s0" by (simp add: s0_def irq_save_def csr_clear_sstatus_def same_device_def)
  then have base: "device_mmio_base (Some 0) s0 = ?a"
    using bound_device(2) [of s0] b bound_same f0(2) by metis
  have f1: "mem s1 = write32 (mem s) (?a + ACCEL_REG_IRQ_ACK) bits" "same_device s s1" "same_sched s s1" "link s1 = link s"
    "\<not> ar_in_use s1" "\<not> ar_reset_required s1"
    using free by (simp_all add: s1_def store32_def f0) (simp_all add: s0_def irq_save_def csr_clear_sstatus_def same_device_def same_sched_def)
  have ok1: "regs_ok s1" using ok f1(2) by (simp add: regs_ok_def same_device_def)
  have r1: "regs_of s1 = r\<lparr>rg_ack := bits\<rparr>" unfolding f1(1,4) using r by (simp add: reg_write [OF a])
  have safe1: "start_safe s1" using ctl by (simp add: start_safe_def Let_def r1)
  have e: "step_effect s1 = (r\<lparr>rg_irq := rg_irq r AND NOT bits, rg_ack := 0\<rparr>, (\<lambda>m. m))"
    using ctl by (cases r) (simp add: step_effect_def Let_def r1)
  obtain m' where m': "platform_accel_step s1 = s1\<lparr>mem := m'\<rparr>" "regs_at ?a m' = r\<lparr>rg_irq := rg_irq r AND NOT bits, rg_ack := 0\<rparr>"
    "same_outside (reg_bytes s) (mem s1) m'"
    using accel_step [OF ok1 safe1] f1(4) by (auto simp: e)
  define s4 where "s4 = irq_restore (sstatus s) (s1\<lparr>mem := m'\<rparr>)"
  have run: "accel_ack_irq bits s = Inr (ACCEL_OK, s4)"
    unfolding accel_ack_irq_def bound_device(1) [OF b] bindE_Inr prod.case bound_device(2) [OF b] save Let_def
    using bits free f0 by (auto simp: base s1_def [symmetric] m'(1) s4_def)
  have f4: "mem s4 = m'" "same_device s s4" "same_sched s s4" "\<not> ar_in_use s4" "\<not> ar_reset_required s4"
    using f1 by (auto simp: s4_def irq_restore_def csr_set_sstatus_def csr_clear_sstatus_def same_device_def same_sched_def)
  have l4: "link s4 = link s" "link s = link b" using f4(2) st by (auto simp: same_device_def settled_def)
  have so: "same_outside (reg_bytes s) (mem s) m'"
    by (rule same_outside_trans [OF _ m'(3)]) (unfold f1(1), rule reg_inside(4) [OF a])
  have "settled b (r\<lparr>rg_irq := rg_irq r AND NOT bits, rg_ack := 0\<rparr>) s4"
    unfolding settled_def
    using st f4 m'(2) so l4 b bound_same [OF f4(2)] by (auto simp: settled_def intro: same_device_trans same_sched_trans same_outside_trans)
  then show thesis using run by (rule that [rotated])
qed

section \<open>The scenarios pass\<close>

lemma settled_trans: "settled b r s \<Longrightarrow> settled s r' s' \<Longrightarrow> settled b r' s'"
  unfolding settled_def by (auto intro: same_device_trans same_sched_trans same_outside_trans simp: same_device_def)

lemma settledD: "settled b r s \<Longrightarrow> accel_bound s \<and> \<not> ar_in_use s \<and> \<not> ar_reset_required s \<and> regs_of s = r"
  by (simp add: settled_def)

abbreviation idle_regs :: regs where
  "idle_regs \<equiv> \<lparr>rg_status = ACCEL_STATUS_IDLE, rg_control = 0, rg_irq = 0, rg_ack = 0, rg_cmd = 0\<rparr>"

lemma control_word_bits:
  "ACCEL_CONTROL_RESET AND ACCEL_CONTROL_RESET \<noteq> 0" "ACCEL_CONTROL_RESET AND NOT (ACCEL_CONTROL_START OR ACCEL_CONTROL_RESET) = 0"
  "ACCEL_CONTROL_START AND ACCEL_CONTROL_RESET = 0" "ACCEL_CONTROL_START \<noteq> 0"
  "ACCEL_CONTROL_START AND NOT (ACCEL_CONTROL_START OR ACCEL_CONTROL_RESET) = 0"
  "(ACCEL_CONTROL_RESET OR ACCEL_CONTROL_START) AND ACCEL_CONTROL_RESET \<noteq> 0"
  "(ACCEL_CONTROL_RESET OR ACCEL_CONTROL_START) AND NOT (ACCEL_CONTROL_START OR ACCEL_CONTROL_RESET) = 0"
  "(ACCEL_CONTROL_START OR push_bit 31 1) AND NOT (ACCEL_CONTROL_START OR ACCEL_CONTROL_RESET) \<noteq> 0"
  "ACCEL_IRQ_DONE AND NOT (ACCEL_IRQ_DONE OR ACCEL_IRQ_ERROR) = 0" "ACCEL_IRQ_ERROR AND NOT (ACCEL_IRQ_DONE OR ACCEL_IRQ_ERROR) = 0"
  "ACCEL_STATUS_DONE \<noteq> ACCEL_STATUS_IDLE"
  by (simp_all add: accel_bits)

lemma reset_ok:
  assumes "accel_bound s" and "\<not> ar_in_use s"
  obtains s' where "accel_reset s = Inr (ACCEL_OK, s')" "settled s idle_regs s'"
  by (rule control_ok [OF assms, of ACCEL_CONTROL_RESET])
    (use control_word_bits in \<open>simp_all add: accel_reset_def control_regs_def that\<close>)

lemma selftest_ok:
  assumes "settled b r s" and "rg_cmd r = 0" and "rg_ack r = 0" and "rg_control r = 0"
  obtains s' where "accel_start_selftest s = Inr (ACCEL_OK, s')"
    "settled b (if rg_status r = ACCEL_STATUS_IDLE then r\<lparr>rg_status := ACCEL_STATUS_DONE, rg_irq := ACCEL_IRQ_DONE\<rparr>
       else r\<lparr>rg_status := ACCEL_STATUS_ERROR, rg_irq := ACCEL_IRQ_ERROR\<rparr>) s'"
proof -
  have d: "accel_bound s" "\<not> ar_in_use s" "\<not> ar_reset_required s" "regs_of s = r" using settledD [OF assms(1)] by simp_all
  obtain s' where s': "accel_write_control_raw ACCEL_CONTROL_START s = Inr (ACCEL_OK, s')" "settled s (control_regs ACCEL_CONTROL_START r) s'"
    by (rule control_ok [OF d(1,2), of ACCEL_CONTROL_START]) (use control_word_bits d assms(2) in auto)
  have "control_regs ACCEL_CONTROL_START r = (if rg_status r = ACCEL_STATUS_IDLE then r\<lparr>rg_status := ACCEL_STATUS_DONE, rg_irq := ACCEL_IRQ_DONE\<rparr>
       else r\<lparr>rg_status := ACCEL_STATUS_ERROR, rg_irq := ACCEL_IRQ_ERROR\<rparr>)"
    using assms(3,4) by (cases r) (simp add: control_regs_def control_word_bits)
  then show thesis using s' settled_trans [OF assms(1)] by (intro that) (auto simp: accel_start_selftest_def)
qed

lemma registers_ok:
  assumes "accel_bound s" and "\<not> ar_in_use s"
  shows "\<exists>s'. bindE (registers_start s) (\<lambda>(_, s). bindE (registers_error s) (\<lambda>(_, s). registers_raw s)) = Inr ((), s') \<and> settled s idle_regs s'"
proof -
  obtain s1 where s1: "accel_reset s = Inr (ACCEL_OK, s1)" "settled s idle_regs s1" by (rule reset_ok [OF assms])
  obtain s2 where s2: "accel_start_selftest s1 = Inr (ACCEL_OK, s2)"
    "settled s (idle_regs\<lparr>rg_status := ACCEL_STATUS_DONE, rg_irq := ACCEL_IRQ_DONE\<rparr>) s2"
    by (rule selftest_ok [OF s1(2)]) simp_all
  obtain s3 where s3: "accel_ack_irq ACCEL_IRQ_DONE s2 = Inr (ACCEL_OK, s3)" "settled s (idle_regs\<lparr>rg_status := ACCEL_STATUS_DONE\<rparr>) s3"
    by (rule ack_ok [OF s2(2) _ control_word_bits(9)]) simp_all
  obtain s4 where s4: "accel_start_selftest s3 = Inr (ACCEL_OK, s4)"
    "settled s (idle_regs\<lparr>rg_status := ACCEL_STATUS_ERROR, rg_irq := ACCEL_IRQ_ERROR\<rparr>) s4"
    by (rule selftest_ok [OF s3(2)]) (simp_all add: control_word_bits)
  obtain s5 where s5: "accel_ack_irq ACCEL_IRQ_ERROR s4 = Inr (ACCEL_OK, s5)" "settled s (idle_regs\<lparr>rg_status := ACCEL_STATUS_ERROR\<rparr>) s5"
    by (rule ack_ok [OF s4(2) _ control_word_bits(10)]) simp_all
  have d5: "accel_bound s5" "\<not> ar_in_use s5" "\<not> ar_reset_required s5" using settledD [OF s5(2)] by simp_all
  obtain s6 where s6: "accel_write_control_raw (ACCEL_CONTROL_RESET OR ACCEL_CONTROL_START) s5 = Inr (ACCEL_OK, s6)" "settled s5 idle_regs s6"
    by (rule control_ok [OF d5(1,2), of "ACCEL_CONTROL_RESET OR ACCEL_CONTROL_START"])
      (use control_word_bits in \<open>simp_all add: control_regs_def that\<close>)
  have inv: "accel_write_control_raw (ACCEL_CONTROL_START OR push_bit 31 1) s6 = Inr (ACCEL_ERR_INVALID, s6)"
    unfolding accel_write_control_raw_def using control_word_bits(8) by simp
  note D = settledD [OF s1(2)] settledD [OF s2(2)] settledD [OF s3(2)] settledD [OF s4(2)] settledD [OF s5(2)] settledD [OF s6(2)]
  have e: "expect_accel ACCEL_STATUS_IDLE 0 n s1 = Inr ((), s1)" "expect_accel ACCEL_STATUS_DONE ACCEL_IRQ_DONE n s2 = Inr ((), s2)"
    "expect_accel ACCEL_STATUS_DONE 0 n s3 = Inr ((), s3)" "expect_accel ACCEL_STATUS_ERROR ACCEL_IRQ_ERROR n s4 = Inr ((), s4)"
    "expect_accel ACCEL_STATUS_ERROR 0 n s5 = Inr ((), s5)" "expect_accel ACCEL_STATUS_IDLE 0 n s6 = Inr ((), s6)" for n
    using D by (auto intro!: expect_ok)
  have a: "registers_start s = Inr ((), s3)" by (simp add: registers_start_def must_def s1(1) s2(1) s3(1) e)
  have b: "registers_error s3 = Inr ((), s5)" by (simp add: registers_error_def must_def s4(1) s5(1) e)
  have c: "registers_raw s5 = Inr ((), s6)" by (simp only: registers_raw_def must_def s6(1) inv e bindE_Inr prod.case if_True refl)
  show ?thesis using settled_trans [OF s5(2) s6(2)] by (simp add: a b c)
qed

lemma bound_find:
  assumes "accel_bound s"
  shows "device_find_by_name (Some ACCEL_DEVICE_NAME) s = Inr (Some 0, s)" "device_is_bound (Some 0) s"
    "device_find_by_compatible (Some ACCEL_DEVICE_COMPATIBLE) s = Inr (Some 0, s)" "device_driver (Some 0) s = Some 0"
    "irq_handler_of built_in_drivers 0 s = Some accel_irq_handler" "device_irq (Some 0) s = ACCEL_DEVICE_IRQ"
    "device_mmio_size (Some 0) s = ACCEL_MMIO_SIZE"
proof -
  have d: "devices_ok s" "dv_driver (devices s 0) = Some 0" using assms by (simp_all add: accel_bound_def)
  have r: "dev_resource 0 s = platform_accel_resource s" "device_count s = 1" using d(1) by (simp_all add: devices_ok_def dev_resource_def)
  have i: "device_init s = Inr ((), s)" using d by (simp add: device_init_ready devices_ok_def)
  show "device_find_by_name (Some ACCEL_DEVICE_NAME) s = Inr (Some 0, s)"
    "device_find_by_compatible (Some ACCEL_DEVICE_COMPATIBLE) s = Inr (Some 0, s)"
    by (simp_all add: device_find_by_name_def device_find_by_compatible_def i r platform_accel_resource_def string_equal_iff)
  show "device_is_bound (Some 0) s" "device_driver (Some 0) s = Some 0" using d(2) by (simp_all add: device_is_bound_def device_driver_def)
  show "irq_handler_of built_in_drivers 0 s = Some accel_irq_handler"
    using d by (simp add: irq_handler_of_def built_in_drivers_def accel_driver_def)
  show "device_irq (Some 0) s = ACCEL_DEVICE_IRQ" "device_mmio_size (Some 0) s = ACCEL_MMIO_SIZE"
    by (simp_all add: device_irq_def device_mmio_size_def r platform_accel_resource_def)
qed

lemma settled_console: "settled (s\<lparr>console := c\<rparr>) r s' \<Longrightarrow> settled s r s'" "settled s r s' \<Longrightarrow> settled s r (s'\<lparr>console := c\<rparr>)"
proof -
  have b: "accel_bound (x\<lparr>console := c\<rparr>) = accel_bound x" for x :: "'a accel_scheme" by (rule bound_same) (simp add: same_device_def)
  show "settled (s\<lparr>console := c\<rparr>) r s' \<Longrightarrow> settled s r s'" "settled s r s' \<Longrightarrow> settled s r (s'\<lparr>console := c\<rparr>)"
    by (auto simp: settled_def same_device_def same_sched_def b)
qed

lemma settled_println: "settled s r s' \<Longrightarrow> settled s r (println t s')"
  using console_only [of "t @ [CHR 0x0A]" s'] settled_console(2) by (auto simp: println_def)

text \<open>
  The self-test of the accelerator's registers passes whenever the device is bound and no request is
  active: a reset makes the device idle, a start without a descriptor completes with its interrupt, the interrupt is
  acknowledged, a start of a device that is not idle is an error with its own interrupt, a reset wins over a start given in
  the same control word, and other control bits are refused. It leaves the device idle with no interrupt
  pending, the scheduler as it was, and memory unchanged outside the registers.
\<close>

theorem scenario_registers_pass:
  fixes s :: "'a accel_scheme"
  assumes "accel_bound s" and "\<not> ar_in_use s"
  shows "\<exists>s'. scenario_accelerator_registers s = Inr ((), s') \<and> regs_of s' = idle_regs \<and> \<not> ar_in_use s' \<and>
    \<not> ar_reset_required s' \<and> same_sched s s' \<and> same_outside (reg_bytes s) (mem s) (mem s')"
proof -
  obtain c where c: "println ''scenario: accelerator-registers'' s = s\<lparr>console := c\<rparr>"
    using console_only [of "''scenario: accelerator-registers'' @ [CHR 0x0A]" s] by (auto simp: println_def)
  have b: "accel_bound (s\<lparr>console := c\<rparr>)" "\<not> ar_in_use (s\<lparr>console := c\<rparr>)"
    using assms bound_same [of s "s\<lparr>console := c\<rparr>"] by (simp_all add: same_device_def)
  obtain s' where s': "bindE (registers_start (s\<lparr>console := c\<rparr>)) (\<lambda>(_, s). bindE (registers_error s) (\<lambda>(_, s). registers_raw s)) = Inr ((), s')"
    "settled (s\<lparr>console := c\<rparr>) idle_regs s'"
    using registers_ok [OF b] by blast
  have run: "scenario_accelerator_registers s = Inr ((), registers_report s')"
  proof -
    obtain x y where "registers_start (s\<lparr>console := c\<rparr>) = Inr ((), x)" "registers_error x = Inr ((), y)" "registers_raw y = Inr ((), s')"
      using s'(1) by (auto simp: bindE_eq_Inr)
    then show ?thesis unfolding scenario_accelerator_registers_def Let_def c by (simp add: must_def bound_find(1,2) [OF b(1)])
  qed
  have "settled s idle_regs (registers_report s')"
    unfolding registers_report_def Let_def by (intro settled_println settled_console(1) [OF s'(2)])
  then show ?thesis using run by (auto simp: settled_def)
qed

theorem scenario_registers_pass_witness:
  "\<exists>s'. scenario_accelerator_registers demo_request = Inr ((), s') \<and> regs_of s' = idle_regs \<and> same_sched demo_request s'"
proof -
  have "accel_bound demo_request" "\<not> ar_in_use demo_request" using demo_can_submit by (simp_all add: can_submit_def)
  from scenario_registers_pass [OF this] show ?thesis by auto
qed

text \<open>The self-test of the driver framework.\<close>

lemma driver_framework_ok:
  assumes "accel_bound s" and "\<not> ar_in_use s"
  shows "\<exists>s'. scenario_driver_framework s = Inr ((), s') \<and>
    settled s (idle_regs\<lparr>rg_status := ACCEL_STATUS_DONE, rg_irq := ACCEL_IRQ_DONE\<rparr>) s'"
proof -
  obtain c where c: "println ''scenario: driver-framework'' s = s\<lparr>console := c\<rparr>"
    using console_only [of "''scenario: driver-framework'' @ [CHR 0x0A]" s] by (auto simp: println_def)
  let ?s = "s\<lparr>console := c\<rparr>"
  have b: "accel_bound ?s" "\<not> ar_in_use ?s" using assms bound_same [of s ?s] by (simp_all add: same_device_def)
  obtain s1 where s1: "accel_reset ?s = Inr (ACCEL_OK, s1)" "settled ?s idle_regs s1" by (rule reset_ok [OF b])
  obtain s2 where s2: "accel_start_selftest s1 = Inr (ACCEL_OK, s2)"
    "settled ?s (idle_regs\<lparr>rg_status := ACCEL_STATUS_DONE, rg_irq := ACCEL_IRQ_DONE\<rparr>) s2"
    by (rule selftest_ok [OF s1(2)]) simp_all
  have st: "accel_get_status True s2 = Inr ((ACCEL_OK, ACCEL_STATUS_DONE), s2)" using status_ok(1) [of s2] settledD [OF s2(2)] by simp
  have "scenario_driver_framework s = Inr ((), println ''milestone 17: driver framework'' (println ''driver: accelerator mmio path passed''
      (println ''driver: accelerator device bound'' s2)))"
    unfolding scenario_driver_framework_def Let_def c using bound_find [OF b(1)]
    by (simp add: must_def s1(1) s2(1) st)
  then show ?thesis using settled_println [OF settled_println [OF settled_println [OF settled_console(1) [OF s2(2)]]]] by blast
qed

end
