(* ===== verification/Scenario_Threads.thy ===== *)
theory Scenario_Threads
  imports Scenario_Accel Trap
begin

text \<open>
  The scenarios of \<^verbatim>\<open>kernel/core/scenario.c\<close> that start threads: each creates its threads and starts the
  scheduler, and its result is the frame of the first thread, as for \<open>thread_start\<close>. The body of a thread is
  a function of the point at which it runs, of the value its last trap gives back and of the state; it runs to the next
  trap. A panic of a thread is a panic of the kernel.
\<close>

section \<open>The variables and the image\<close>

text \<open>The static variables of the file that change; those that hold a kernel object are addresses, below.\<close>

record scenarios = traps +
  demo_shared_counter :: int
  accel_desc_cmd_bytes :: u64
  accel_desc_cmd :: u64
  accel_desc_buffer :: u64
  accel_desc_submit_started :: bool
  accel_irq_primary_cmd :: u64
  accel_irq_competing_cmd :: u64
  accel_irq_buffer :: u64
  accel_irq_submitter_started :: bool
  accel_irq_competitor_done :: bool
  accel_irq_worker_dispatched :: bool
  accel_irq_reuse_started :: bool
  accel_timeout_stuck_cmd :: u64
  accel_timeout_reuse_cmd :: u64
  accel_timeout_invalid_cmd :: u64
  accel_timeout_buffer :: u64
  user_lifecycle_initial_free :: u64
  accel_timeout_submit_started :: bool
  accel_timeout_observed :: bool
  accel_timeout_late_irq_done :: bool
  accel_timeout_reuse_started :: bool
  accel_timeout_reuse_dispatched :: bool
  benchmark_syscall_start_cycle :: u64
  benchmark_scheduler_start_cycle :: u64
  benchmark_scheduler_finished :: u32
  benchmark_accelerator_user_done :: bool
  benchmark_accelerator_driver_done :: bool
  benchmark_accelerator_driver_cmd :: u64
  benchmark_accelerator_driver_buffer :: u64

text \<open>
  What the linker gives an address: the programs embedded in the image, the static kernel objects, the local arrays
  of \<open>usercopy_worker\<close>, and the entry points of the threads. The addresses are a parameter of the definitions.
\<close>

datatype symbol =
    First_User_Start | First_User_End | Syscall_Basic_Start | Syscall_Basic_End | User_Runtime_Start | User_Runtime_End
  | User_Satp_Task | User_Lifecycle_Task | Syscall_Basic_Task | User_Runtime_Task | User_Accelerator_Task | Syscall_Negative_Task
  | Runtime_Tracing_Task | Benchmark_Syscall_Task | Benchmark_Accelerator_Task | Demo_Mutex | Static_Accel_Cmd
  | Kernel_Buf | Write_Buf | Selftest_Sink
  | User_Task_Lifecycle_Observer | Syscall_Basic_Observer | User_Runtime_Observer | User_Accelerator_Observer
  | Syscall_Negative_Observer | Runtime_Tracing_Observer | Benchmark_Syscall_Observer | Benchmark_Scheduler_Worker
  | Benchmark_Accelerator_Driver_Worker | Benchmark_Accelerator_Driver_Submitter | Benchmark_Accelerator_Observer
  | Usercopy_Worker | Demo_Thread_A | Demo_Thread_B | Demo_Thread_C | Accel_Descriptor_Submitter | Accel_Descriptor_Worker
  | Accel_Irq_Submitter | Accel_Irq_Competing | Accel_Irq_Worker | Accel_Timeout_Submitter | Accel_Timeout_Worker

type_synonym image = "symbol \<Rightarrow> u64"

section \<open>Running threads\<close>

text \<open>
  A thread executes \<open>ebreak\<close> with a request and goes on at a point, executes the exit request, or loops for ever
  with nothing to trap it.
\<close>

datatype 'p step = Traps "u64 \<times> u64 \<times> u64" 'p | Exits | Stuck

definition yield_at :: "'p \<Rightarrow> 'a sched_scheme \<Rightarrow> ('p step \<times> 'a sched_scheme) res" where
  "yield_at p s = (case thread_yield s of None \<Rightarrow> Inr (Stuck, s) | Some r \<Rightarrow> Inr (Traps r p, s))"

text \<open>A call that sleeps and then goes on at a point; without a started scheduler it returns at once.\<close>

definition sleep_at :: "u64 \<Rightarrow> 'p \<Rightarrow> ('a sched_scheme \<Rightarrow> ('p step \<times> 'a sched_scheme) res) \<Rightarrow> 'a sched_scheme \<Rightarrow>
  ('p step \<times> 'a sched_scheme) res" where
  "sleep_at n p k s = (case thread_sleep n s of None \<Rightarrow> k s | Some r \<Rightarrow> Inr (Traps r p, s))"

text \<open>A call that may block in the middle: the point that resumes it keeps the interrupt state it will restore.\<close>

definition calls :: "('r outcome \<times> 's) res \<Rightarrow> (u64 \<Rightarrow> 'p) \<Rightarrow> ('r \<Rightarrow> 's \<Rightarrow> ('p step \<times> 's) res) \<Rightarrow> ('p step \<times> 's) res" where
  "calls m p k = bindE m (\<lambda>(out, s). case out of Done r \<Rightarrow> k r s | Blocks req irq \<Rightarrow> Inr (Traps req (p irq), s) | Spins \<Rightarrow> Inr (Stuck, s))"

definition device_step :: "'a accel_scheme \<Rightarrow> (unit \<times> 'a accel_scheme) res" where
  "device_step s = platform_dispatch_pending_irqs built_in_drivers (platform_accel_step s)"

section \<open>Benchmark output\<close>

definition USER_BENCH_SYSCALL_ITERATIONS :: u64 where "USER_BENCH_SYSCALL_ITERATIONS = 64"
definition USER_BENCH_ACCEL_ITERATIONS :: u64 where "USER_BENCH_ACCEL_ITERATIONS = 1"
definition USER_BENCH_ACCEL_LEN :: u64 where "USER_BENCH_ACCEL_LEN = 64"
definition BENCHMARK_ACCEL_DRIVER_ITERATIONS :: u64 where "BENCHMARK_ACCEL_DRIVER_ITERATIONS = 8"

definition benchmark_average :: "u64 \<Rightarrow> u64 \<Rightarrow> u64" where
  "benchmark_average cycles iterations = (if iterations = 0 then 0 else cycles div iterations)"

definition benchmark_print_common :: "string \<Rightarrow> u64 \<Rightarrow> u64 \<Rightarrow> 'a hw_scheme \<Rightarrow> 'a hw_scheme" where
  "benchmark_print_common name iterations cycles_total s =
     (let s = console_write ''bench: '' s;
          s = console_write name s;
          s = console_write '' iterations='' s;
          s = console_write_hex64 iterations s;
          s = console_write '' cycles_total='' s;
          s = console_write_hex64 cycles_total s;
          s = console_write '' cycles_avg='' s
      in console_write_hex64 (benchmark_average cycles_total iterations) s)"

definition benchmark_print_line :: "string \<Rightarrow> u64 \<Rightarrow> u64 \<Rightarrow> 'a hw_scheme \<Rightarrow> 'a hw_scheme" where
  "benchmark_print_line name iterations cycles_total s = console_write [CHR 0x0A] (benchmark_print_common name iterations cycles_total s)"

definition benchmark_print_bytes_line :: "string \<Rightarrow> u64 \<Rightarrow> u64 \<Rightarrow> u64 \<Rightarrow> 'a hw_scheme \<Rightarrow> 'a hw_scheme" where
  "benchmark_print_bytes_line name iterations bytes_total cycles_total s =
     (let s = benchmark_print_common name iterations cycles_total s;
          s = console_write '' bytes_total='' s;
          s = console_write_hex64 bytes_total s
      in console_write [CHR 0x0A] s)"

definition benchmark_print_syscall_dispatch_line :: "user_syscall_benchmark \<Rightarrow> 'a hw_scheme \<Rightarrow> 'a hw_scheme" where
  "benchmark_print_syscall_dispatch_line benchmark s =
     (let s = benchmark_print_common ''syscall_noop_dispatch'' (bm_iterations benchmark) (bm_cycles_total benchmark) s;
          s = console_write '' cycles_min='' s;
          s = console_write_hex64 (bm_cycles_min benchmark) s;
          s = console_write '' cycles_max='' s;
          s = console_write_hex64 (bm_cycles_max benchmark) s
      in console_write [CHR 0x0A] s)"

section \<open>Starting a user task\<close>

text \<open>
  The steps that the scenarios of a user task share. \<open>load_task\<close> builds the task and reads its frame,
  \<open>create_threads\<close> sets up the scheduler with the user thread and, if there is one, the kernel thread
  that observes it, and \<open>print_entry\<close> prints where the task will start. The values printed come from the
  frame: its program counter and stack pointer.
\<close>

definition load_task :: "u64 \<Rightarrow> u64 \<Rightarrow> u64 \<Rightarrow> string \<Rightarrow> string \<Rightarrow> 'a utasks_scheme \<Rightarrow> (u64 \<times> 'a utasks_scheme) res" where
  "load_task task program program_end taskless frameless s =
     (let user_program_size = program_end - program in
     bindE (must (user_task_init task program user_program_size s) (\<lambda>r. \<not> r < 0) taskless) (\<lambda>(_, s).
     let frame = user_task_trap_frame task s in
     if frame = 0 then Inl frameless else Inr (frame, s)))"

definition create_threads :: "string \<Rightarrow> u64 \<Rightarrow> (string \<times> u64) option \<Rightarrow> string \<Rightarrow> 'a sched_scheme \<Rightarrow> (unit \<times> 'a sched_scheme) res" where
  "create_threads name task observer threadless s =
     bindE (thread_init s) (\<lambda>(_, s).
     bindE (must (thread_create_user (Some name) task s) (\<lambda>r. \<not> r < 0) threadless) (\<lambda>(_, s).
     case observer of
       None \<Rightarrow> Inr ((), s)
     | Some (oname, entry) \<Rightarrow>
         bindE (must (thread_create (Some oname) entry 0 s) (\<lambda>r. \<not> r < 0) threadless) (\<lambda>(_, s). Inr ((), s))))"

definition print_entry :: "u64 \<Rightarrow> u64 \<Rightarrow> 'a utasks_scheme \<Rightarrow> 'a utasks_scheme" where
  "print_entry frame task s =
     (let s = console_write ''user: entering u-mode pc='' s;
          s = console_write_hex64 (load64 (frame + FRAME_MEPC) s) s;
          s = console_write '' sp='' s;
          s = console_write_hex64 (load64 (frame + FRAME_SP) s) s;
          s = console_write '' satp='' s;
          s = console_write_hex64 (user_task_satp task s) s
      in console_write [CHR 0x0A] s)"

definition scenario_user_satp :: "image \<Rightarrow> 'a sched_scheme \<Rightarrow> (u64 \<times> 'a sched_scheme) res" where
  "scenario_user_satp A s =
     (let s = println ''scenario: user-satp'' s in
     bindE (load_task (A User_Satp_Task) (A First_User_Start) (A First_User_End)
       ''user satp task init failed'' ''user satp missing trap frame'' s) (\<lambda>(frame, s).
     bindE (create_threads ''user-satp'' (A User_Satp_Task) None ''user satp thread create failed'' s) (\<lambda>(_, s).
     thread_start (print_entry frame (A User_Satp_Task) s))))"

definition scenario_user_task :: "image \<Rightarrow> 'a scenarios_scheme \<Rightarrow> (u64 \<times> 'a scenarios_scheme) res" where
  "scenario_user_task A s =
     (let s = println ''scenario: user-task'' s; task = A User_Lifecycle_Task; program = A First_User_Start in
     bindE (page_free_count s) (\<lambda>(n, s).
     let s = s\<lparr>user_lifecycle_initial_free := n\<rparr>; user_program_size = A First_User_End - program in
     bindE (must (user_task_init task program user_program_size s) (\<lambda>r. \<not> r < 0) ''user lifecycle task init failed'') (\<lambda>(_, s).
     bindE (page_free_count s) (\<lambda>(free_after_init, s).
     bindE (must (user_task_init task program user_program_size s) (\<lambda>r. r < 0) ''ready user task reinit was accepted'') (\<lambda>(_, s).
     bindE (must (page_free_count s) (\<lambda>n. n = free_after_init) ''ready user task reinit was accepted'') (\<lambda>(_, s).
     let frame = user_task_trap_frame task s in
     if frame = 0 then Inl ''user lifecycle missing trap frame''
     else
     bindE (create_threads ''user-task'' task (Some (''user-task-observer'', A User_Task_Lifecycle_Observer))
       ''user lifecycle thread create failed'' s) (\<lambda>(_, s).
     thread_start (print_entry frame task s))))))))"

definition scenario_syscall_basic :: "image \<Rightarrow> 'a sched_scheme \<Rightarrow> (u64 \<times> 'a sched_scheme) res" where
  "scenario_syscall_basic A s =
     (let s = println ''scenario: syscall-basic'' s in
     bindE (load_task (A Syscall_Basic_Task) (A Syscall_Basic_Start) (A Syscall_Basic_End)
       ''syscall basic task init failed'' ''syscall basic missing trap frame'' s) (\<lambda>(frame, s).
     bindE (create_threads ''syscall-basic'' (A Syscall_Basic_Task) (Some (''syscall-basic-observer'', A Syscall_Basic_Observer))
       ''syscall basic thread create failed'' s) (\<lambda>(_, s).
     thread_start (print_entry frame (A Syscall_Basic_Task) s))))"

definition scenario_user_runtime :: "image \<Rightarrow> 'a sched_scheme \<Rightarrow> (u64 \<times> 'a sched_scheme) res" where
  "scenario_user_runtime A s =
     (let s = println ''scenario: user-runtime'' s in
     bindE (load_task (A User_Runtime_Task) (A User_Runtime_Start) (A User_Runtime_End)
       ''user runtime task init failed'' ''user runtime missing trap frame'' s) (\<lambda>(frame, s).
     bindE (create_threads ''user-runtime'' (A User_Runtime_Task) (Some (''user-runtime-observer'', A User_Runtime_Observer))
       ''user runtime thread create failed'' s) (\<lambda>(_, s).
     thread_start (print_entry frame (A User_Runtime_Task) s))))"

definition scenario_user_accelerator :: "image \<Rightarrow> 'a accel_scheme \<Rightarrow> (u64 \<times> 'a accel_scheme) res" where
  "scenario_user_accelerator A s =
     (let s = println ''scenario: user-accelerator'' s in
     bindE (must (accel_reset s) (\<lambda>r. r = ACCEL_OK) ''user accelerator reset failed'') (\<lambda>(_, s).
     bindE (load_task (A User_Accelerator_Task) (A User_Runtime_Start) (A User_Runtime_End)
       ''user accelerator task init failed'' ''user accelerator missing trap frame'' s) (\<lambda>(frame, s).
     bindE (create_threads ''user-accelerator'' (A User_Accelerator_Task) (Some (''user-accelerator-observer'', A User_Accelerator_Observer))
       ''user accelerator thread create failed'' s) (\<lambda>(_, s).
     thread_start (print_entry frame (A User_Accelerator_Task) s)))))"

definition scenario_syscall_negative :: "image \<Rightarrow> 'a accel_scheme \<Rightarrow> (u64 \<times> 'a accel_scheme) res" where
  "scenario_syscall_negative A s =
     (let s = println ''scenario: syscall-negative'' s in
     bindE (must (accel_reset s) (\<lambda>r. r = ACCEL_OK) ''syscall negative accelerator reset failed'') (\<lambda>(_, s).
     bindE (load_task (A Syscall_Negative_Task) (A User_Runtime_Start) (A User_Runtime_End)
       ''syscall negative task init failed'' ''syscall negative missing trap frame'' s) (\<lambda>(frame, s).
     bindE (create_threads ''syscall-negative'' (A Syscall_Negative_Task) (Some (''syscall-negative-observer'', A Syscall_Negative_Observer))
       ''syscall negative thread create failed'' s) (\<lambda>(_, s).
     thread_start (print_entry frame (A Syscall_Negative_Task) s)))))"

definition scenario_runtime_tracing :: "image \<Rightarrow> 'a accel_scheme \<Rightarrow> (u64 \<times> 'a accel_scheme) res" where
  "scenario_runtime_tracing A s =
     (let s = println ''scenario: runtime-tracing'' s in
     bindE (must (accel_reset s) (\<lambda>r. r = ACCEL_OK) ''runtime tracing accelerator reset failed'') (\<lambda>(_, s).
     bindE (load_task (A Runtime_Tracing_Task) (A User_Runtime_Start) (A User_Runtime_End)
       ''runtime tracing task init failed'' ''runtime tracing missing trap frame'' s) (\<lambda>(frame, s).
     bindE (create_threads ''runtime-tracing'' (A Runtime_Tracing_Task) (Some (''runtime-tracing-observer'', A Runtime_Tracing_Observer))
       ''runtime tracing thread create failed'' s) (\<lambda>(_, s).
     thread_start (print_entry frame (A Runtime_Tracing_Task) s)))))"

definition scenario_benchmark_syscall :: "image \<Rightarrow> 'a scenarios_scheme \<Rightarrow> (u64 \<times> 'a scenarios_scheme) res" where
  "scenario_benchmark_syscall A s =
     (let s = user_syscall_benchmark_reset (println ''scenario: benchmark-syscall'' s) in
     bindE (load_task (A Benchmark_Syscall_Task) (A User_Runtime_Start) (A User_Runtime_End)
       ''benchmark syscall task init failed'' ''benchmark syscall missing trap frame'' s) (\<lambda>(frame, s).
     bindE (create_threads ''benchmark-syscall'' (A Benchmark_Syscall_Task) (Some (''benchmark-syscall-observer'', A Benchmark_Syscall_Observer))
       ''benchmark syscall thread create failed'' s) (\<lambda>(_, s).
     let (cycle, s) = csr_read_cycle (print_entry frame (A Benchmark_Syscall_Task) s) in
     thread_start (s\<lparr>benchmark_syscall_start_cycle := cycle\<rparr>))))"

definition scenario_benchmark_accelerator :: "image \<Rightarrow> 'a scenarios_scheme \<Rightarrow> (u64 \<times> 'a scenarios_scheme) res" where
  "scenario_benchmark_accelerator A s =
     (let s = println ''scenario: benchmark-accelerator'' s;
          s = s\<lparr>benchmark_accelerator_user_done := False, benchmark_accelerator_driver_done := False\<rparr> in
     bindE (must (accel_reset s) (\<lambda>r. r = ACCEL_OK) ''benchmark accelerator reset failed'') (\<lambda>(_, s).
     bindE (load_task (A Benchmark_Accelerator_Task) (A User_Runtime_Start) (A User_Runtime_End)
       ''benchmark accelerator task init failed'' ''benchmark accelerator missing trap frame'' s) (\<lambda>(frame, s).
     bindE (create_threads ''benchmark-accelerator'' (A Benchmark_Accelerator_Task)
       (Some (''benchmark-accelerator-observer'', A Benchmark_Accelerator_Observer))
       ''benchmark accelerator thread create failed'' s) (\<lambda>(_, s).
     thread_start (print_entry frame (A Benchmark_Accelerator_Task) s)))))"

text \<open>The first user program runs in the kernel's own address space, without a thread; the result is its frame.\<close>

definition scenario_first_user :: "image \<Rightarrow> 'a paging_scheme \<Rightarrow> (u64 \<times> 'a paging_scheme) res" where
  "scenario_first_user A s =
     (let s = println ''scenario: first-user'' s;
          user_program_size = A First_User_End - A First_User_Start in
     if user_program_size = 0 \<or> user_program_size > PAGE_SIZE then Inl ''invalid first user program size''
     else
     bindE (page_alloc s) (\<lambda>(code_page, s).
     bindE (page_alloc s) (\<lambda>(stack_page, s).
     bindE (page_alloc s) (\<lambda>(trap_stack_page, s).
     if code_page = 0 \<or> stack_page = 0 \<or> trap_stack_page = 0 then Inl ''first user page allocation failed''
     else
     let s = memory_zero code_page PAGE_SIZE s;
         s = memory_zero stack_page PAGE_SIZE s;
         s = memory_zero trap_stack_page PAGE_SIZE s;
         s = memory_copy code_page (A First_User_Start) user_program_size s in
     bindE (must (user_space_map_code_page (Some (paging_kernel_space s)) code_page s) (\<lambda>r. r = VM_OK) ''first user code map failed'') (\<lambda>(_, s).
     bindE (must (user_space_map_stack_page (Some (paging_kernel_space s)) stack_page s) (\<lambda>r. r = VM_OK) ''first user stack map failed'') (\<lambda>(_, s).
     let frame = trap_stack_page + PAGE_SIZE - TRAP_FRAME_STACK_SIZE;
         s = memory_zero frame TRAP_FRAME_STACK_SIZE s;
         s = store64 (frame + FRAME_SP) USER_SPACE_STACK_TOP s;
         s = store64 (frame + FRAME_MEPC) USER_SPACE_CODE_BASE s;
         s = store64 (frame + FRAME_MSTATUS) SSTATUS_SPIE s;
         s = console_write ''user: entering u-mode pc='' s;
         s = console_write_hex64 (load64 (frame + FRAME_MEPC) s) s;
         s = console_write '' sp='' s;
         s = console_write_hex64 (load64 (frame + FRAME_SP) s) s;
         s = console_write [CHR 0x0A] s in
     Inr (frame, s)))))))"

section \<open>The threads that observe a user task\<close>

definition user_task_lifecycle_observer :: "image \<Rightarrow> 'a scenarios_scheme \<Rightarrow> (unit step \<times> 'a scenarios_scheme) res" where
  "user_task_lifecycle_observer A s =
     (if user_task_state (A User_Lifecycle_Task) s \<noteq> USER_TASK_DESTROYED then Inl ''user task was not destroyed after exit''
      else if user_task_exit_code (A User_Lifecycle_Task) s \<noteq> 0 then Inl ''user task recorded wrong exit code''
      else
      bindE (must (page_free_count s) (\<lambda>n. n = user_lifecycle_initial_free s) ''user task lifecycle leaked pages'') (\<lambda>(_, s).
      bindE (must (thread_create_user (Some ''resume-destroyed'') (A User_Lifecycle_Task) s) (\<lambda>r. \<not> r \<ge> 0)
        ''destroyed user task was resumable'') (\<lambda>(_, s).
      Inr (Exits, println ''milestone 23: user task lifecycle'' (println ''user: task lifecycle cleanup passed'' s)))))"

text \<open>The loop that waits for the end of the task, and the check of its exit code.\<close>

definition await_task :: "u64 \<Rightarrow> string \<Rightarrow> ('a sched_scheme \<Rightarrow> (unit step \<times> 'a sched_scheme) res) \<Rightarrow> 'a sched_scheme \<Rightarrow>
  (unit step \<times> 'a sched_scheme) res" where
  "await_task task wrong_exit finish s =
     (if user_task_state task s \<noteq> USER_TASK_DESTROYED then yield_at () s
      else if user_task_exit_code task s \<noteq> 0 then Inl wrong_exit else finish s)"

definition syscall_basic_observer_thread :: "image \<Rightarrow> 'a sched_scheme \<Rightarrow> (unit step \<times> 'a sched_scheme) res" where
  "syscall_basic_observer_thread A = await_task (A Syscall_Basic_Task) ''syscall basic recorded wrong exit code''
     (\<lambda>s. Inr (Exits, println ''milestone 24: syscall ABI'' s))"

definition user_runtime_observer_thread :: "image \<Rightarrow> 'a sched_scheme \<Rightarrow> (unit step \<times> 'a sched_scheme) res" where
  "user_runtime_observer_thread A = await_task (A User_Runtime_Task) ''user runtime recorded wrong exit code''
     (\<lambda>s. Inr (Exits, println ''milestone 25: userspace runtime'' (println ''user: runtime stubs passed'' s)))"

text \<open>The observers of the accelerator wait for some ticks, then step the device until the task ends.\<close>

datatype ticks_point = At_Entry | In_Ticks u64 | In_Task

definition step_device_task ::
  "u64 \<Rightarrow> string \<Rightarrow> ('a accel_scheme \<Rightarrow> 'a accel_scheme) \<Rightarrow> 'a accel_scheme \<Rightarrow> (ticks_point step \<times> 'a accel_scheme) res"
where
  "step_device_task task wrong_exit finish s =
     (if user_task_state task s \<noteq> USER_TASK_DESTROYED
      then bindE (device_step s) (\<lambda>(_, s). yield_at In_Task s)
      else if user_task_exit_code task s \<noteq> 0 then Inl wrong_exit
      else Inr (Exits, finish s))"

definition step_device_until ::
  "u64 \<Rightarrow> u64 \<Rightarrow> string \<Rightarrow> ('a accel_scheme \<Rightarrow> 'a accel_scheme) \<Rightarrow> ticks_point \<Rightarrow> 'a accel_scheme \<Rightarrow> (ticks_point step \<times> 'a accel_scheme) res"
where
  "step_device_until task k wrong_exit finish p s =
     (case p of
        In_Task \<Rightarrow> step_device_task task wrong_exit finish s
      | _ \<Rightarrow> let start_ticks = (case p of In_Ticks n \<Rightarrow> n | _ \<Rightarrow> timer_ticks s) in
          if timer_ticks s - start_ticks < k then yield_at (In_Ticks start_ticks) s
          else step_device_task task wrong_exit finish s)"

definition user_accelerator_observer_thread :: "image \<Rightarrow> ticks_point \<Rightarrow> 'a accel_scheme \<Rightarrow> (ticks_point step \<times> 'a accel_scheme) res" where
  "user_accelerator_observer_thread A = step_device_until (A User_Accelerator_Task) 3 ''user accelerator recorded wrong exit code''
     (\<lambda>s. println ''milestone 26: user accelerator API'' (println ''user: accelerator memset passed'' s))"

definition syscall_negative_observer_thread :: "image \<Rightarrow> ticks_point \<Rightarrow> 'a accel_scheme \<Rightarrow> (ticks_point step \<times> 'a accel_scheme) res" where
  "syscall_negative_observer_thread A = step_device_until (A Syscall_Negative_Task) 3 ''syscall negative recorded wrong exit code''
     (\<lambda>s. println ''milestone 27: syscall validation'' (println ''user: syscall validation passed'' s))"

definition runtime_tracing_observer_thread :: "image \<Rightarrow> ticks_point \<Rightarrow> 'a accel_scheme \<Rightarrow> (ticks_point step \<times> 'a accel_scheme) res" where
  "runtime_tracing_observer_thread A = step_device_until (A Runtime_Tracing_Task) 8 ''runtime tracing recorded wrong exit code''
     (\<lambda>s. println ''milestone 28: runtime tracing'' (trace_dump (println ''user: runtime tracing passed'' s)))"

definition benchmark_syscall_observer_thread :: "image \<Rightarrow> 'a scenarios_scheme \<Rightarrow> (unit step \<times> 'a scenarios_scheme) res" where
  "benchmark_syscall_observer_thread A s =
     (if user_task_state (A Benchmark_Syscall_Task) s \<noteq> USER_TASK_DESTROYED then yield_at () s
      else
      let (cycle, s) = csr_read_cycle s;
          total_cycles = cycle - benchmark_syscall_start_cycle s;
          syscall_benchmark = user_syscall_benchmark_snapshot s in
      if user_task_exit_code (A Benchmark_Syscall_Task) s \<noteq> 0 \<or> bm_iterations syscall_benchmark \<noteq> USER_BENCH_SYSCALL_ITERATIONS
      then Inl ''syscall benchmark failed''
      else
      let s = benchmark_print_line ''syscall_noop_task'' USER_BENCH_SYSCALL_ITERATIONS total_cycles s;
          s = benchmark_print_syscall_dispatch_line syscall_benchmark s in
      Inr (Exits, println ''milestone 29: performance evaluation'' s))"

end
