(* ===== verification/Scenario_Bodies.thy ===== *)
theory Scenario_Bodies
  imports Scenario_Threads Usercopy
begin

text \<open>
  The threads of the benchmarks, of the user-copy test and of the scheduler demonstration of
  \<^verbatim>\<open>kernel/core/scenario.c\<close>, with the functions that start them.
\<close>

section \<open>The benchmark of the scheduler\<close>

text \<open>The point is the number of iterations done.\<close>

definition benchmark_scheduler_worker_thread :: "u32 \<Rightarrow> 'a scenarios_scheme \<Rightarrow> (u32 step \<times> 'a scenarios_scheme) res" where
  "benchmark_scheduler_worker_thread i s =
     (case if ucast i < USER_BENCH_SYSCALL_ITERATIONS then thread_yield s else None of
        Some r \<Rightarrow> Inr (Traps r (i + 1), s)
      | None \<Rightarrow>
          let (irq_state, s) = irq_save s;
              s = s\<lparr>benchmark_scheduler_finished := benchmark_scheduler_finished s + 1\<rparr>;
              is_last = (benchmark_scheduler_finished s = 2);
              s = irq_restore irq_state s in
          if is_last
          then let (cycle, s) = csr_read_cycle s;
                   total_cycles = cycle - benchmark_scheduler_start_cycle s;
                   s = benchmark_print_line ''scheduler_yield_pair'' (2 * USER_BENCH_SYSCALL_ITERATIONS) total_cycles s in
            Inr (Exits, println ''milestone 29: performance evaluation'' s)
          else Inr (Exits, s))"

definition create_thread :: "string \<Rightarrow> u64 \<Rightarrow> string \<Rightarrow> 'a sched_scheme \<Rightarrow> (unit \<times> 'a sched_scheme) res" where
  "create_thread name entry threadless s =
     bindE (must (thread_create (Some name) entry 0 s) (\<lambda>r. \<not> r < 0) threadless) (\<lambda>(_, s). Inr ((), s))"

definition scenario_benchmark_scheduler :: "image \<Rightarrow> 'a scenarios_scheme \<Rightarrow> (u64 \<times> 'a scenarios_scheme) res" where
  "scenario_benchmark_scheduler A s =
     (let s = println ''scenario: benchmark-scheduler'' s; s = s\<lparr>benchmark_scheduler_finished := 0\<rparr> in
     bindE (thread_init s) (\<lambda>(_, s).
     bindE (create_thread ''benchmark-scheduler-a'' (A Benchmark_Scheduler_Worker) ''benchmark scheduler thread create failed'' s) (\<lambda>(_, s).
     bindE (create_thread ''benchmark-scheduler-b'' (A Benchmark_Scheduler_Worker) ''benchmark scheduler thread create failed'' s) (\<lambda>(_, s).
     let (cycle, s) = csr_read_cycle s in
     thread_start (s\<lparr>benchmark_scheduler_start_cycle := cycle\<rparr>)))))"

section \<open>The benchmark of the accelerator\<close>

definition benchmark_accelerator_driver_worker_thread :: "'a scenarios_scheme \<Rightarrow> (unit step \<times> 'a scenarios_scheme) res" where
  "benchmark_accelerator_driver_worker_thread s =
     (if \<not> benchmark_accelerator_driver_done s then bindE (device_step s) (\<lambda>(_, s). yield_at () s) else Inr (Exits, s))"

text \<open>
  The submitter keeps the cycle at which it started, the number of iterations left with the one
  that it waits for, and the interrupt state of the call.
\<close>

datatype driver_point = Driver_Entry | Driver_Submit u64 nat u64

definition driver_value :: "nat \<Rightarrow> u8" where
  "driver_value left = 0x61 + of_nat (8 - left)"

definition driver_finish :: "u64 \<Rightarrow> 'a scenarios_scheme \<Rightarrow> (driver_point step \<times> 'a scenarios_scheme) res" where
  "driver_finish start_cycle s =
     (let (cycle, s) = csr_read_cycle s;
          total_cycles = cycle - start_cycle;
          s = benchmark_print_bytes_line ''accelerator_driver_memset'' BENCHMARK_ACCEL_DRIVER_ITERATIONS
                (BENCHMARK_ACCEL_DRIVER_ITERATIONS * USER_BENCH_ACCEL_LEN) total_cycles s;
          s = s\<lparr>benchmark_accelerator_driver_done := True\<rparr> in
     bindE (page_free (benchmark_accelerator_driver_cmd s) s) (\<lambda>(_, s).
     bindE (page_free (benchmark_accelerator_driver_buffer s) s) (\<lambda>(_, s).
     Inr (Exits, println ''milestone 29: performance evaluation'' s))))"

definition driver_submitted ::
  "nat \<Rightarrow> ('a scenarios_scheme \<Rightarrow> (driver_point step \<times> 'a scenarios_scheme) res) \<Rightarrow> int \<Rightarrow> 'a scenarios_scheme \<Rightarrow>
   (driver_point step \<times> 'a scenarios_scheme) res"
where
  "driver_submitted left next' r s =
     (if r \<noteq> ACCEL_OK then Inl ''benchmark accelerator driver submit failed''
      else bindE (scenario_expect_memset_range (benchmark_accelerator_driver_buffer s) 128 (ucast USER_BENCH_ACCEL_LEN) (driver_value left) s)
        (\<lambda>(_, s). next' s))"

primrec driver_iterations :: "nat \<Rightarrow> u64 \<Rightarrow> 'a scenarios_scheme \<Rightarrow> (driver_point step \<times> 'a scenarios_scheme) res" where
  "driver_iterations 0 start_cycle s = driver_finish start_cycle s"
| "driver_iterations (Suc n) start_cycle s =
     bindE (must (accel_reset s) (\<lambda>r. r = ACCEL_OK) ''benchmark accelerator driver reset failed'') (\<lambda>(_, s).
     let s = s\<lparr>mem := fill_bytes (mem s) (benchmark_accelerator_driver_buffer s) 0xcc (unat PAGE_SIZE)\<rparr>;
         s = scenario_init_memset_cmd (benchmark_accelerator_driver_cmd s) (benchmark_accelerator_driver_buffer s + 128)
               (ucast USER_BENCH_ACCEL_LEN) (ucast (driver_value (Suc n))) s in
     calls (accel_submit_sync_timeout (benchmark_accelerator_driver_cmd s) 100 s) (Driver_Submit start_cycle (Suc n))
       (driver_submitted (Suc n) (driver_iterations n start_cycle)))"

fun benchmark_accelerator_driver_submitter_thread ::
  "driver_point \<Rightarrow> int \<Rightarrow> 'a scenarios_scheme \<Rightarrow> (driver_point step \<times> 'a scenarios_scheme) res"
where
  "benchmark_accelerator_driver_submitter_thread Driver_Entry result s =
     (let (start_cycle, s) = csr_read_cycle s in driver_iterations (unat BENCHMARK_ACCEL_DRIVER_ITERATIONS) start_cycle s)"
| "benchmark_accelerator_driver_submitter_thread (Driver_Submit start_cycle left irq) result s =
     calls (accel_submit_resume (benchmark_accelerator_driver_cmd s) 100 irq result s) (Driver_Submit start_cycle left)
       (driver_submitted left (driver_iterations (left - 1) start_cycle))"

definition benchmark_accelerator_start_driver_phase :: "image \<Rightarrow> 'a scenarios_scheme \<Rightarrow> (unit \<times> 'a scenarios_scheme) res" where
  "benchmark_accelerator_start_driver_phase A s =
     (let s = s\<lparr>benchmark_accelerator_driver_done := False\<rparr> in
     bindE (page_alloc s) (\<lambda>(p, s). let s = s\<lparr>benchmark_accelerator_driver_cmd := p\<rparr> in
     bindE (page_alloc s) (\<lambda>(p, s). let s = s\<lparr>benchmark_accelerator_driver_buffer := p\<rparr> in
     if benchmark_accelerator_driver_cmd s = 0 \<or> benchmark_accelerator_driver_buffer s = 0
     then Inl ''benchmark accelerator driver pages unavailable''
     else
     let s = memory_zero (benchmark_accelerator_driver_cmd s) PAGE_SIZE s;
         s = memory_zero (benchmark_accelerator_driver_buffer s) PAGE_SIZE s in
     bindE (must (accel_reset s) (\<lambda>r. r = ACCEL_OK) ''benchmark accelerator driver reset failed'') (\<lambda>(_, s).
     bindE (create_thread ''benchmark-accel-driver-submit'' (A Benchmark_Accelerator_Driver_Submitter)
       ''benchmark accelerator driver thread create failed'' s) (\<lambda>(_, s).
     create_thread ''benchmark-accel-driver-worker'' (A Benchmark_Accelerator_Driver_Worker)
       ''benchmark accelerator driver thread create failed'' s)))))"

text \<open>The point is the cycle at which the observer started.\<close>

definition benchmark_accelerator_observer_thread ::
  "image \<Rightarrow> u64 option \<Rightarrow> 'a scenarios_scheme \<Rightarrow> (u64 option step \<times> 'a scenarios_scheme) res"
where
  "benchmark_accelerator_observer_thread A p s =
     (let (start_cycle, s) = (case p of None \<Rightarrow> csr_read_cycle s | Some c \<Rightarrow> (c, s)) in
     if user_task_state (A Benchmark_Accelerator_Task) s \<noteq> USER_TASK_DESTROYED
     then bindE (device_step s) (\<lambda>(_, s). yield_at (Some start_cycle) s)
     else
     let (cycle, s) = csr_read_cycle s; total_cycles = cycle - start_cycle in
     if user_task_exit_code (A Benchmark_Accelerator_Task) s \<noteq> 0 then Inl ''benchmark accelerator user task failed''
     else
     let s = benchmark_print_bytes_line ''accelerator_user_memset'' USER_BENCH_ACCEL_ITERATIONS
               (USER_BENCH_ACCEL_ITERATIONS * USER_BENCH_ACCEL_LEN) total_cycles s;
         s = s\<lparr>benchmark_accelerator_user_done := True\<rparr> in
     bindE (benchmark_accelerator_start_driver_phase A s) (\<lambda>(_, s). Inr (Exits, s)))"

section \<open>User copies\<close>

definition expect_usercopy_invalid :: "(int \<times> 's) res \<Rightarrow> (unit \<times> 's) res" where
  "expect_usercopy_invalid m = bindE (must m (\<lambda>r. r = USERCOPY_ERR_INVALID) ''usercopy invalid check failed'') (\<lambda>(_, s). Inr ((), s))"

primrec store_bytes :: "u64 \<Rightarrow> u8 list \<Rightarrow> memory \<Rightarrow> memory" where
  "store_bytes a [] m = m"
| "store_bytes a (b # bs) m = store_bytes (a + 1) bs (m(a := b))"

definition usercopy_rw :: u64 where
  "usercopy_rw = VM_PTE_V OR VM_PTE_R OR VM_PTE_W OR VM_PTE_U OR VM_PTE_A OR VM_PTE_D"

definition usercopy_ro :: u64 where
  "usercopy_ro = VM_PTE_V OR VM_PTE_R OR VM_PTE_U OR VM_PTE_A"

definition usercopy_user_b :: u64 where "usercopy_user_b = USER_SPACE_CODE_BASE + PAGE_SIZE"
definition usercopy_user_read_only :: u64 where "usercopy_user_read_only = USER_SPACE_CODE_BASE + 4 * PAGE_SIZE"

definition usercopy_pages :: "'a sched_scheme \<Rightarrow> ((u64 \<times> u64 \<times> u64) \<times> 'a sched_scheme) res" where
  "usercopy_pages s =
     bindE (page_alloc s) (\<lambda>(page_a, s).
     bindE (page_alloc s) (\<lambda>(page_b, s).
     bindE (page_alloc s) (\<lambda>(read_only_page, s).
     if page_a = 0 \<or> page_b = 0 \<or> read_only_page = 0 then Inl ''usercopy backing page allocation failed''
     else
     let s = memory_zero page_a PAGE_SIZE s;
         s = memory_zero page_b PAGE_SIZE s;
         s = memory_zero read_only_page PAGE_SIZE s in
     bindE (must (user_space_map_page (Some (paging_kernel_space s)) USER_SPACE_CODE_BASE page_a usercopy_rw s)
       (\<lambda>r. r = VM_OK) ''usercopy map failed'') (\<lambda>(_, s).
     bindE (must (user_space_map_page (Some (paging_kernel_space s)) usercopy_user_b page_b usercopy_rw s)
       (\<lambda>r. r = VM_OK) ''usercopy map failed'') (\<lambda>(_, s).
     bindE (must (user_space_map_page (Some (paging_kernel_space s)) usercopy_user_read_only read_only_page usercopy_ro s)
       (\<lambda>r. r = VM_OK) ''usercopy map failed'') (\<lambda>(_, s).
     let s = s\<lparr>mem := fold (\<lambda>i m. m(page_a + of_nat i := 0x10 + (of_nat i AND 0x0f), page_b + of_nat i := 0x80 + (of_nat i AND 0x0f)))
                [0..<unat PAGE_SIZE] (mem s)\<rparr> in
     Inr ((page_a, page_b, read_only_page), s)))))))"

definition usercopy_reads ::
  "copy_env \<Rightarrow> u64 \<Rightarrow> u64 \<Rightarrow> u64 \<Rightarrow> 'a sched_scheme \<Rightarrow> (unit \<times> 'a sched_scheme) res"
where
  "usercopy_reads env kernel_buf page_a page_b s =
     bindE (must (copy_from_user env kernel_buf (usercopy_user_b - 4) 8 s) (\<lambda>r. r = USERCOPY_OK) ''usercopy cross-page read failed'') (\<lambda>(_, s).
     if \<exists>i<4. mem s (kernel_buf + of_nat i) \<noteq> mem s (page_a + PAGE_SIZE - 4 + of_nat i) then Inl ''usercopy first-page read mismatch''
     else if \<exists>i<4. mem s (kernel_buf + 4 + of_nat i) \<noteq> mem s (page_b + of_nat i) then Inl ''usercopy second-page read mismatch''
     else Inr ((), s))"

definition usercopy_writes ::
  "copy_env \<Rightarrow> u64 \<Rightarrow> u64 \<Rightarrow> u64 \<Rightarrow> 'a sched_scheme \<Rightarrow> (unit \<times> 'a sched_scheme) res"
where
  "usercopy_writes env write_buf page_a page_b s =
     (let s = s\<lparr>mem := store_bytes write_buf [0xa0, 0xa1, 0xa2, 0xa3, 0xa4, 0xa5, 0xa6, 0xa7] (mem s)\<rparr> in
     bindE (must (copy_to_user env (usercopy_user_b - 2) write_buf 8 s) (\<lambda>r. r = USERCOPY_OK) ''usercopy cross-page write failed'') (\<lambda>(_, s).
     if mem s (page_a + PAGE_SIZE - 2) \<noteq> mem s write_buf \<or> mem s (page_a + PAGE_SIZE - 1) \<noteq> mem s (write_buf + 1)
     then Inl ''usercopy first-page write mismatch''
     else if \<exists>i<6. mem s (page_b + of_nat i) \<noteq> mem s (write_buf + 2 + of_nat i) then Inl ''usercopy second-page write mismatch''
     else Inr ((), s)))"

definition usercopy_refusals ::
  "copy_env \<Rightarrow> u64 \<Rightarrow> u64 \<Rightarrow> u64 \<Rightarrow> 'a sched_scheme \<Rightarrow> (unit \<times> 'a sched_scheme) res"
where
  "usercopy_refusals env kernel_buf write_buf sink s =
     bindE (expect_usercopy_invalid (copy_from_user env kernel_buf 0 1 s)) (\<lambda>(_, s).
     bindE (expect_usercopy_invalid (copy_from_user env kernel_buf 0xffffffffffffffff 2 s)) (\<lambda>(_, s).
     bindE (expect_usercopy_invalid (copy_from_user env kernel_buf (usercopy_user_b + PAGE_SIZE - 4) 8 s)) (\<lambda>(_, s).
     bindE (expect_usercopy_invalid (copy_from_user env kernel_buf 0x10000000 1 s)) (\<lambda>(_, s).
     bindE (expect_usercopy_invalid (copy_to_user env usercopy_user_read_only write_buf 1 s)) (\<lambda>(_, s).
     bindE (must (usercopy_recoverable_fault_selftest env sink s) (\<lambda>r. r = USERCOPY_ERR_FAULT)
       ''usercopy recoverable fault selftest failed'') (\<lambda>(_, s).
     Inr ((), s)))))))"

definition usercopy_cleanup :: "u64 \<Rightarrow> u64 \<Rightarrow> u64 \<Rightarrow> 'a sched_scheme \<Rightarrow> (unit \<times> 'a sched_scheme) res" where
  "usercopy_cleanup page_a page_b read_only_page s =
     bindE (must (vm_unmap_page (Some (paging_kernel_space s)) USER_SPACE_CODE_BASE s) (\<lambda>r. r = VM_OK) ''usercopy unmap failed'') (\<lambda>(_, s).
     bindE (must (vm_unmap_page (Some (paging_kernel_space s)) usercopy_user_b s) (\<lambda>r. r = VM_OK) ''usercopy unmap failed'') (\<lambda>(_, s).
     bindE (must (vm_unmap_page (Some (paging_kernel_space s)) usercopy_user_read_only s) (\<lambda>r. r = VM_OK) ''usercopy unmap failed'') (\<lambda>(_, s).
     bindE (page_free page_a s) (\<lambda>(_, s).
     bindE (page_free page_b s) (\<lambda>(_, s).
     bindE (page_free read_only_page s) (\<lambda>(_, s).
     Inr ((), s)))))))"

definition usercopy_worker ::
  "image \<Rightarrow> copy_env \<Rightarrow> 'a sched_scheme \<Rightarrow> (unit step \<times> 'a sched_scheme) res"
where
  "usercopy_worker A env s =
     bindE (usercopy_pages s) (\<lambda>((page_a, page_b, read_only_page), s).
     bindE (usercopy_reads env (A Kernel_Buf) page_a page_b s) (\<lambda>(_, s).
     bindE (usercopy_writes env (A Write_Buf) page_a page_b s) (\<lambda>(_, s).
     bindE (usercopy_refusals env (A Kernel_Buf) (A Write_Buf) (A Selftest_Sink) s) (\<lambda>(_, s).
     bindE (usercopy_cleanup page_a page_b read_only_page s) (\<lambda>(_, s).
     Inr (Exits, println ''milestone 16: safe usercopy'' (println ''usercopy: passed'' s)))))))"

definition scenario_usercopy :: "image \<Rightarrow> 'a sched_scheme \<Rightarrow> (u64 \<times> 'a sched_scheme) res" where
  "scenario_usercopy A s =
     (let s = println ''scenario: usercopy'' s in
     bindE (thread_init s) (\<lambda>(_, s).
     bindE (create_thread ''usercopy'' (A Usercopy_Worker) ''failed to create usercopy worker'' s) (\<lambda>(_, s).
     thread_start s)))"

section \<open>The scheduler demonstration\<close>

datatype demo_point = Demo_Entry | Demo_Locking tid_t u64 | Demo_Slept

definition demo_a_slept :: "image \<Rightarrow> 'a scenarios_scheme \<Rightarrow> (demo_point step \<times> 'a scenarios_scheme) res" where
  "demo_a_slept A s =
     (let s = println ''thread: mutex-a unlocking'' s in
      bindE (mutex_unlock (A Demo_Mutex) s) (\<lambda>(_, s). Inr (Exits, s)))"

definition demo_a_locked :: "image \<Rightarrow> 'a scenarios_scheme \<Rightarrow> (demo_point step \<times> 'a scenarios_scheme) res" where
  "demo_a_locked A s =
     (let s = println ''thread: mutex-a acquired'' s; s = s\<lparr>demo_shared_counter := demo_shared_counter s + 1\<rparr> in
      sleep_at 20 Demo_Slept (demo_a_slept A) s)"

fun demo_thread_a :: "image \<Rightarrow> demo_point \<Rightarrow> 'a scenarios_scheme \<Rightarrow> (demo_point step \<times> 'a scenarios_scheme) res" where
  "demo_thread_a A Demo_Entry s =
     (let s = println ''thread: mutex-a locking'' s in
      calls (mutex_lock (A Demo_Mutex) s) (Demo_Locking (thread_current_tid s)) (\<lambda>_. demo_a_locked A))"
| "demo_thread_a A (Demo_Locking tid irq) s =
     calls (mutex_lock_resume (A Demo_Mutex) tid irq s) (Demo_Locking tid) (\<lambda>_. demo_a_locked A)"
| "demo_thread_a A Demo_Slept s = demo_a_slept A s"

definition demo_b_waited :: "int \<Rightarrow> 's hw_scheme \<Rightarrow> ((tid_t \<times> u64) option step \<times> 's hw_scheme) res" where
  "demo_b_waited r s =
     (if r \<noteq> WAIT_TIMEOUT then Inl ''mutex-b acquired unexpectedly''
      else Inr (Exits, println ''thread: mutex-b timed out'' s))"

text \<open>The second thread blocks at one point only.\<close>

fun demo_thread_b ::
  "image \<Rightarrow> (tid_t \<times> u64) option \<Rightarrow> int \<Rightarrow> 'a sync_scheme \<Rightarrow> ((tid_t \<times> u64) option step \<times> 'a sync_scheme) res"
where
  "demo_thread_b A None result s =
     (let s = println ''thread: mutex-b timed wait'' s; tid = thread_current_tid s in
      calls (mutex_lock_timeout (A Demo_Mutex) 5 s) (\<lambda>irq. Some (tid, irq)) demo_b_waited)"
| "demo_thread_b A (Some (tid, irq)) result s =
     calls (mutex_lock_timeout_resume (A Demo_Mutex) tid 5 irq result s) (\<lambda>irq. Some (tid, irq)) demo_b_waited"

definition demo_c_locked :: "u64 \<Rightarrow> 'a scenarios_scheme \<Rightarrow> (demo_point step \<times> 'a scenarios_scheme) res" where
  "demo_c_locked m s =
     (let s = println ''thread: mutex-c acquired'' s; s = s\<lparr>demo_shared_counter := demo_shared_counter s + 1\<rparr> in
      bindE (mutex_unlock m s) (\<lambda>(_, s). Inr (Exits, trace_dump (println ''milestone 10: scheduler tracing'' s))))"

definition demo_c_slept :: "image \<Rightarrow> 'a scenarios_scheme \<Rightarrow> (demo_point step \<times> 'a scenarios_scheme) res" where
  "demo_c_slept A s =
     (let s = println ''thread: mutex-c locking'' s in
      calls (mutex_lock (A Demo_Mutex) s) (Demo_Locking (thread_current_tid s)) (\<lambda>_. demo_c_locked (A Demo_Mutex)))"

fun demo_thread_c :: "image \<Rightarrow> demo_point \<Rightarrow> 'a scenarios_scheme \<Rightarrow> (demo_point step \<times> 'a scenarios_scheme) res" where
  "demo_thread_c A Demo_Entry s = sleep_at 30 Demo_Slept (demo_c_slept A) s"
| "demo_thread_c A Demo_Slept s = demo_c_slept A s"
| "demo_thread_c A (Demo_Locking tid irq) s =
     calls (mutex_lock_resume (A Demo_Mutex) tid irq s) (Demo_Locking tid) (\<lambda>_. demo_c_locked (A Demo_Mutex))"

definition scenario_scheduler_sync :: "image \<Rightarrow> 'a scenarios_scheme \<Rightarrow> (u64 \<times> 'a scenarios_scheme) res" where
  "scenario_scheduler_sync A s =
     (let s = println ''scenario: scheduler-sync'' s in
     bindE (thread_init s) (\<lambda>(_, s).
     bindE (mutex_init (A Demo_Mutex) (Some ''demo-mutex'') s) (\<lambda>(_, s).
     let s = s\<lparr>demo_shared_counter := 0\<rparr> in
     bindE (create_thread ''demo-a'' (A Demo_Thread_A) ''failed to create demo-a'' s) (\<lambda>(_, s).
     bindE (create_thread ''demo-b'' (A Demo_Thread_B) ''failed to create demo-b'' s) (\<lambda>(_, s).
     bindE (create_thread ''demo-c'' (A Demo_Thread_C) ''failed to create demo-c'' s) (\<lambda>(_, s).
     thread_start s))))))"

end
