(* ===== verification/Scenario_Requests.thy ===== *)
theory Scenario_Requests
  imports Scenario_Bodies Accel_Request
begin

text \<open>
  The threads that test the requests of the accelerator: descriptors, completion by interrupt, and timeouts, of
  \<^verbatim>\<open>kernel/core/scenario.c\<close>, with the functions that start them.
\<close>

section \<open>Points\<close>

text \<open>
  A thread runs from its entry, goes on in one of its calls of \<open>accel_submit_sync\<close>, numbered in the order of the code, with the
  interrupt state of the call, or goes on in one of its waiting loops.
\<close>

datatype call_point = Entry | In_Call nat u64 | Waiting nat

definition submitted :: "nat \<Rightarrow> (int outcome \<times> 's) res \<Rightarrow> (int \<Rightarrow> 's \<Rightarrow> (call_point step \<times> 's) res) \<Rightarrow> (call_point step \<times> 's) res" where
  "submitted k m cont = calls m (In_Call k) cont"

definition resumed ::
  "nat \<Rightarrow> u64 \<Rightarrow> u64 \<Rightarrow> u64 \<Rightarrow> int \<Rightarrow> 'a accel_scheme \<Rightarrow>
   (int \<Rightarrow> 'a accel_scheme \<Rightarrow> (call_point step \<times> 'a accel_scheme) res) \<Rightarrow> (call_point step \<times> 'a accel_scheme) res"
where
  "resumed k cmd n irq result s cont = calls (accel_submit_resume cmd n irq result s) (In_Call k) cont"

definition FOREVER :: u64 where "FOREVER = 0xffffffffffffffff"

definition cmd_status :: "u64 \<Rightarrow> 'a hw_scheme \<Rightarrow> u32" where
  "cmd_status cmd s = load32 (cmd + CMD_STATUS) s"

section \<open>Descriptors\<close>

text \<open>The parts of the submitter, from the last call back to the first.\<close>

definition desc_crossing_cmd :: "int \<Rightarrow> 'a scenarios_scheme \<Rightarrow> (call_point step \<times> 'a scenarios_scheme) res" where
  "desc_crossing_cmd r s =
     (if r \<noteq> ACCEL_ERR_INVALID then Inl ''accelerator descriptor page-crossing descriptor accepted''
      else
      let s = println ''accel: descriptor validation passed'' s;
          s = println ''accel: descriptor lifecycle rejection passed'' s in
      Inr (Exits, println ''milestone 19: accelerator descriptors'' s))"

definition desc_unaligned :: "int \<Rightarrow> 'a scenarios_scheme \<Rightarrow> (call_point step \<times> 'a scenarios_scheme) res" where
  "desc_unaligned r s =
     (if r \<noteq> ACCEL_ERR_INVALID then Inl ''accelerator descriptor unaligned descriptor accepted''
      else submitted 6 (accel_submit_sync (accel_desc_cmd_bytes s + PAGE_SIZE - 16) s) desc_crossing_cmd)"

definition desc_static :: "image \<Rightarrow> int \<Rightarrow> 'a scenarios_scheme \<Rightarrow> (call_point step \<times> 'a scenarios_scheme) res" where
  "desc_static A r s =
     (if r \<noteq> ACCEL_ERR_INVALID \<or> cmd_status (A Static_Accel_Cmd) s \<noteq> ACCEL_CMD_STATUS_ERROR
      then Inl ''accelerator descriptor unmanaged descriptor accepted''
      else submitted 5 (accel_submit_sync (accel_desc_cmd_bytes s + 1) s) desc_unaligned)"

definition desc_crossing_buffer :: "image \<Rightarrow> int \<Rightarrow> 'a scenarios_scheme \<Rightarrow> (call_point step \<times> 'a scenarios_scheme) res" where
  "desc_crossing_buffer A r s =
     (if r \<noteq> ACCEL_ERR_INVALID \<or> cmd_status (accel_desc_cmd s) s \<noteq> ACCEL_CMD_STATUS_INVALID
      then Inl ''accelerator descriptor page-crossing buffer accepted''
      else bindE (expect_accel ACCEL_STATUS_IDLE 0 ''crossing-buffer'' s) (\<lambda>(_, s).
        let s = scenario_init_memset_cmd (A Static_Accel_Cmd) (accel_desc_buffer s + 37) 64 0x33 s in
        submitted 4 (accel_submit_sync (A Static_Accel_Cmd) s) (desc_static A)))"

definition desc_invalid_op :: "image \<Rightarrow> int \<Rightarrow> 'a scenarios_scheme \<Rightarrow> (call_point step \<times> 'a scenarios_scheme) res" where
  "desc_invalid_op A r s =
     (if r \<noteq> ACCEL_ERR_INVALID \<or> cmd_status (accel_desc_cmd s) s \<noteq> ACCEL_CMD_STATUS_INVALID
      then Inl ''accelerator descriptor invalid op accepted''
      else bindE (expect_accel ACCEL_STATUS_IDLE 0 ''invalid-op'' s) (\<lambda>(_, s).
        let s = scenario_init_memset_cmd (accel_desc_cmd s) (accel_desc_buffer s + PAGE_SIZE - 8) 16 0x22 s in
        submitted 3 (accel_submit_sync (accel_desc_cmd s) s) (desc_crossing_buffer A)))"

definition desc_again :: "image \<Rightarrow> int \<Rightarrow> 'a scenarios_scheme \<Rightarrow> (call_point step \<times> 'a scenarios_scheme) res" where
  "desc_again A r s =
     (if r \<noteq> ACCEL_ERR_BUSY \<or> cmd_status (accel_desc_cmd s) s \<noteq> ACCEL_CMD_STATUS_REJECTED
      then Inl ''accelerator descriptor lifecycle rejection failed''
      else bindE (must (accel_reset s) (\<lambda>r. r = ACCEL_OK) ''accelerator descriptor cleanup failed'') (\<lambda>(_, s).
        let s = scenario_init_memset_cmd (accel_desc_cmd s) (accel_desc_buffer s + 37) 64 0x11 s;
            s = store32 (accel_desc_cmd s + CMD_OP) 99 s in
        submitted 2 (accel_submit_sync (accel_desc_cmd s) s) (desc_invalid_op A)))"

definition desc_memset :: "image \<Rightarrow> int \<Rightarrow> 'a scenarios_scheme \<Rightarrow> (call_point step \<times> 'a scenarios_scheme) res" where
  "desc_memset A r s =
     (let buffer = accel_desc_buffer s; dst = buffer + 37 in
      if r \<noteq> ACCEL_OK \<or> cmd_status (accel_desc_cmd s) s \<noteq> ACCEL_CMD_STATUS_OK then Inl ''accelerator descriptor memset failed''
      else bindE (expect_accel ACCEL_STATUS_DONE 0 ''descriptor-memset'' s) (\<lambda>(_, s).
        if mem s (buffer + 36) \<noteq> 0xcc \<or> mem s (buffer + 37 + 64) \<noteq> 0xcc then Inl ''accelerator descriptor memset overflowed buffer''
        else if \<exists>i<64. mem s (dst + of_nat i) \<noteq> 0x5a then Inl ''accelerator descriptor memset wrote wrong value''
        else let s = println ''accel: descriptor memset passed'' s in
          submitted 1 (accel_submit_sync (accel_desc_cmd s) s) (desc_again A)))"

definition desc_entry :: "image \<Rightarrow> 'a scenarios_scheme \<Rightarrow> (call_point step \<times> 'a scenarios_scheme) res" where
  "desc_entry A s =
     bindE (must (accel_reset s) (\<lambda>r. r = ACCEL_OK) ''accelerator descriptor reset failed'') (\<lambda>(_, s).
       let s = scenario_init_memset_cmd (accel_desc_cmd s) (accel_desc_buffer s + 37) 64 0x1234565a s;
           s = s\<lparr>accel_desc_submit_started := True\<rparr> in
       submitted 0 (accel_submit_sync (accel_desc_cmd s) s) (desc_memset A))"

definition accel_descriptor_submitter_thread ::
  "image \<Rightarrow> call_point \<Rightarrow> int \<Rightarrow> 'a scenarios_scheme \<Rightarrow> (call_point step \<times> 'a scenarios_scheme) res"
where
  "accel_descriptor_submitter_thread A p result s =
     (let cmd = accel_desc_cmd s; bytes = accel_desc_cmd_bytes s in
      case p of
        In_Call k irq \<Rightarrow>
          (if k = 0 then resumed k cmd FOREVER irq result s (desc_memset A)
           else if k = 1 then resumed k cmd FOREVER irq result s (desc_again A)
           else if k = 2 then resumed k cmd FOREVER irq result s (desc_invalid_op A)
           else if k = 3 then resumed k cmd FOREVER irq result s (desc_crossing_buffer A)
           else if k = 4 then resumed k (A Static_Accel_Cmd) FOREVER irq result s (desc_static A)
           else if k = 5 then resumed k (bytes + 1) FOREVER irq result s desc_unaligned
           else resumed k (bytes + PAGE_SIZE - 16) FOREVER irq result s desc_crossing_cmd)
      | _ \<Rightarrow> desc_entry A s)"

definition accel_descriptor_worker_thread :: "'a scenarios_scheme \<Rightarrow> (unit step \<times> 'a scenarios_scheme) res" where
  "accel_descriptor_worker_thread s =
     (if \<not> accel_desc_submit_started s then yield_at () s
      else bindE (device_step s) (\<lambda>(_, s). Inr (Exits, s)))"

text \<open>The pages of a test: one for the descriptors, zeroed, and one for the buffer, filled with a pattern.\<close>

definition request_pages :: "string \<Rightarrow> 'a pages_scheme \<Rightarrow> ((u64 \<times> u64) \<times> 'a pages_scheme) res" where
  "request_pages unavailable s =
     bindE (page_alloc s) (\<lambda>(cmd_page, s).
     bindE (page_alloc s) (\<lambda>(buffer_page, s).
     if cmd_page = 0 \<or> buffer_page = 0 then Inl unavailable
     else
     let s = memory_zero cmd_page PAGE_SIZE s;
         s = s\<lparr>mem := fill_bytes (mem s) buffer_page 0xcc (unat PAGE_SIZE)\<rparr> in
     Inr ((cmd_page, buffer_page), s)))"

definition scenario_accelerator_descriptors :: "image \<Rightarrow> 'a scenarios_scheme \<Rightarrow> (u64 \<times> 'a scenarios_scheme) res" where
  "scenario_accelerator_descriptors A s =
     (let s = println ''scenario: accelerator-descriptors'' s in
     bindE (request_pages ''accelerator descriptor pages unavailable'' s) (\<lambda>((cmd_bytes, buffer_page), s).
     let s = s\<lparr>accel_desc_buffer := buffer_page, accel_desc_cmd_bytes := cmd_bytes, accel_desc_cmd := cmd_bytes + 64,
                accel_desc_submit_started := False\<rparr> in
     bindE (thread_init s) (\<lambda>(_, s).
     bindE (create_thread ''accel-desc-submit'' (A Accel_Descriptor_Submitter) ''failed to create accelerator descriptor threads'' s) (\<lambda>(_, s).
     bindE (create_thread ''accel-desc-worker'' (A Accel_Descriptor_Worker) ''failed to create accelerator descriptor threads'' s) (\<lambda>(_, s).
     thread_start s)))))"

section \<open>Completion by interrupt\<close>

definition irq_reused :: "int \<Rightarrow> 'a scenarios_scheme \<Rightarrow> (call_point step \<times> 'a scenarios_scheme) res" where
  "irq_reused r s =
     (if r \<noteq> ACCEL_OK \<or> cmd_status (accel_irq_primary_cmd s) s \<noteq> ACCEL_CMD_STATUS_OK then Inl ''accelerator irq reuse submit failed''
      else
      bindE (scenario_expect_memset_range (accel_irq_buffer s) 200 32 0x55 s) (\<lambda>(_, s).
      bindE (expect_accel ACCEL_STATUS_DONE 0 ''irq-reuse'' s) (\<lambda>(_, s).
      let s = println ''accel: reset allows descriptor reuse'' s in
      bindE (must (accel_reset s) (\<lambda>r. r = ACCEL_OK) ''accelerator spurious irq setup failed'') (\<lambda>(_, s).
      bindE (must (accel_start_selftest s) (\<lambda>r. r = ACCEL_OK) ''accelerator spurious irq setup failed'') (\<lambda>(_, s).
      bindE (expect_accel_irq_status ACCEL_IRQ_DONE ''spurious-before-dispatch'' s) (\<lambda>(_, s).
      bindE (platform_dispatch_pending_irqs built_in_drivers s) (\<lambda>(_, s).
      bindE (expect_accel_irq_status 0 ''spurious-after-dispatch'' s) (\<lambda>(_, s).
      let s = println ''accel: spurious irq ack passed'' s in
      Inr (Exits, println ''milestone 20: interrupt-driven accelerator completion'' s)))))))))"

definition irq_unreset :: "int \<Rightarrow> 'a scenarios_scheme \<Rightarrow> (call_point step \<times> 'a scenarios_scheme) res" where
  "irq_unreset r s =
     (if r \<noteq> ACCEL_ERR_BUSY \<or> cmd_status (accel_irq_primary_cmd s) s \<noteq> ACCEL_CMD_STATUS_REJECTED
      then Inl ''accelerator irq submit without reset accepted''
      else
      bindE (must (accel_reset s) (\<lambda>r. r = ACCEL_OK) ''accelerator irq reuse reset failed'') (\<lambda>(_, s).
      let s = scenario_init_memset_cmd (accel_irq_primary_cmd s) (accel_irq_buffer s + 200) 32 0x55 s;
          s = s\<lparr>accel_irq_reuse_started := True\<rparr> in
      submitted 2 (accel_submit_sync (accel_irq_primary_cmd s) s) irq_reused))"

definition irq_completed :: "int \<Rightarrow> 'a scenarios_scheme \<Rightarrow> (call_point step \<times> 'a scenarios_scheme) res" where
  "irq_completed r s =
     (if r \<noteq> ACCEL_OK \<or> cmd_status (accel_irq_primary_cmd s) s \<noteq> ACCEL_CMD_STATUS_OK then Inl ''accelerator irq submit failed''
      else if \<not> accel_irq_worker_dispatched s then Inl ''accelerator irq submit returned before dispatch''
      else
      bindE (scenario_expect_memset_range (accel_irq_buffer s) 53 80 0x44 s) (\<lambda>(_, s).
      bindE (expect_accel ACCEL_STATUS_DONE 0 ''irq-completion'' s) (\<lambda>(_, s).
      let s = println ''accel: irq completion woke submitter'' s;
          s = scenario_init_memset_cmd (accel_irq_primary_cmd s) (accel_irq_buffer s + 200) 32 0x55 s in
      submitted 1 (accel_submit_sync (accel_irq_primary_cmd s) s) irq_unreset)))"

definition accel_irq_submitter_thread :: "call_point \<Rightarrow> int \<Rightarrow> 'a scenarios_scheme \<Rightarrow> (call_point step \<times> 'a scenarios_scheme) res" where
  "accel_irq_submitter_thread p result s =
     (case p of
        In_Call k irq \<Rightarrow> resumed k (accel_irq_primary_cmd s) FOREVER irq result s
          (if k = 0 then irq_completed else if k = 1 then irq_unreset else irq_reused)
      | _ \<Rightarrow>
          let s = scenario_init_memset_cmd (accel_irq_primary_cmd s) (accel_irq_buffer s + 53) 80 0x11111144 s in
          bindE (must (accel_reset s) (\<lambda>r. r = ACCEL_OK) ''accelerator irq reset failed'') (\<lambda>(_, s).
          let s = s\<lparr>accel_irq_submitter_started := True\<rparr> in
          submitted 0 (accel_submit_sync (accel_irq_primary_cmd s) s) irq_completed))"

definition irq_competed :: "int \<Rightarrow> 'a scenarios_scheme \<Rightarrow> (call_point step \<times> 'a scenarios_scheme) res" where
  "irq_competed r s =
     (if r \<noteq> ACCEL_ERR_BUSY \<or> cmd_status (accel_irq_competing_cmd s) s \<noteq> ACCEL_CMD_STATUS_REJECTED
      then Inl ''accelerator competing submit was not rejected''
      else
      bindE (must (accel_reset s) (\<lambda>r. r = ACCEL_ERR_BUSY) ''accelerator raw helpers perturbed active request'') (\<lambda>(_, s).
      bindE (must (accel_start_selftest s) (\<lambda>r. r = ACCEL_ERR_BUSY) ''accelerator raw helpers perturbed active request'') (\<lambda>(_, s).
      bindE (must (accel_ack_irq ACCEL_IRQ_DONE s) (\<lambda>r. r = ACCEL_ERR_BUSY) ''accelerator raw helpers perturbed active request'') (\<lambda>(_, s).
      if accel_irq_worker_dispatched s then Inl ''accelerator worker dispatched too early''
      else
      let s = println ''accel: submitter blocked before irq'' s;
          s = println ''accel: competing submit rejected'' s in
      Inr (Exits, s\<lparr>accel_irq_competitor_done := True\<rparr>)))))"

definition accel_irq_competing_thread :: "call_point \<Rightarrow> int \<Rightarrow> 'a scenarios_scheme \<Rightarrow> (call_point step \<times> 'a scenarios_scheme) res" where
  "accel_irq_competing_thread p result s =
     (case p of
        In_Call k irq \<Rightarrow> resumed k (accel_irq_competing_cmd s) FOREVER irq result s irq_competed
      | _ \<Rightarrow>
          if \<not> accel_irq_submitter_started s then yield_at (Waiting 0) s
          else let s = scenario_init_memset_cmd (accel_irq_competing_cmd s) (accel_irq_buffer s + 400) 16 0x66 s in
            submitted 0 (accel_submit_sync (accel_irq_competing_cmd s) s) irq_competed)"

definition irq_worker_reuse :: "'a scenarios_scheme \<Rightarrow> (call_point step \<times> 'a scenarios_scheme) res" where
  "irq_worker_reuse s =
     (if \<not> accel_irq_reuse_started s then yield_at (Waiting 1) s
      else bindE (device_step s) (\<lambda>(_, s). Inr (Exits, s)))"

definition accel_irq_worker_thread :: "call_point \<Rightarrow> 'a scenarios_scheme \<Rightarrow> (call_point step \<times> 'a scenarios_scheme) res" where
  "accel_irq_worker_thread p s =
     (if p = Waiting 1 then irq_worker_reuse s
      else if \<not> accel_irq_competitor_done s then yield_at (Waiting 0) s
      else bindE (device_step s) (\<lambda>(_, s). irq_worker_reuse (s\<lparr>accel_irq_worker_dispatched := True\<rparr>)))"

definition scenario_accelerator_irq_completion :: "image \<Rightarrow> 'a scenarios_scheme \<Rightarrow> (u64 \<times> 'a scenarios_scheme) res" where
  "scenario_accelerator_irq_completion A s =
     (let s = println ''scenario: accelerator-irq-completion'' s in
     bindE (request_pages ''accelerator irq pages unavailable'' s) (\<lambda>((cmd_bytes, buffer_page), s).
     let s = s\<lparr>accel_irq_buffer := buffer_page, accel_irq_primary_cmd := cmd_bytes + 64, accel_irq_competing_cmd := cmd_bytes + 128,
                accel_irq_submitter_started := False, accel_irq_competitor_done := False,
                accel_irq_worker_dispatched := False, accel_irq_reuse_started := False\<rparr> in
     bindE (thread_init s) (\<lambda>(_, s).
     bindE (create_thread ''accel-submit'' (A Accel_Irq_Submitter) ''failed to create accelerator irq threads'' s) (\<lambda>(_, s).
     bindE (create_thread ''accel-compete'' (A Accel_Irq_Competing) ''failed to create accelerator irq threads'' s) (\<lambda>(_, s).
     bindE (create_thread ''accel-worker'' (A Accel_Irq_Worker) ''failed to create accelerator irq threads'' s) (\<lambda>(_, s).
     thread_start s))))))"

section \<open>Timeouts\<close>

definition timeout_invalid :: "int \<Rightarrow> 'a scenarios_scheme \<Rightarrow> (call_point step \<times> 'a scenarios_scheme) res" where
  "timeout_invalid r s =
     (if r \<noteq> ACCEL_ERR_INVALID \<or> cmd_status (accel_timeout_invalid_cmd s) s \<noteq> ACCEL_CMD_STATUS_INVALID
      then Inl ''accelerator timed invalid command accepted''
      else
      bindE (expect_accel ACCEL_STATUS_IDLE 0 ''timed-invalid-command'' s) (\<lambda>(_, s).
      let s = println ''accel: invalid command error passed'' s in
      Inr (Exits, println ''milestone 21: accelerator timeout/error handling'' s)))"

definition timeout_timed :: "int \<Rightarrow> 'a scenarios_scheme \<Rightarrow> (call_point step \<times> 'a scenarios_scheme) res" where
  "timeout_timed r s =
     (if r \<noteq> ACCEL_OK \<or> cmd_status (accel_timeout_reuse_cmd s) s \<noteq> ACCEL_CMD_STATUS_OK then Inl ''accelerator timed submit did not complete''
      else if \<not> accel_timeout_reuse_dispatched s then Inl ''accelerator timed submit returned before dispatch''
      else
      bindE (scenario_expect_memset_range (accel_timeout_buffer s) 240 32 0x99 s) (\<lambda>(_, s).
      bindE (expect_accel ACCEL_STATUS_DONE 0 ''timed-submit'' s) (\<lambda>(_, s).
      let s = println ''accel: timed submit completed before timeout'' s in
      bindE (must (accel_reset s) (\<lambda>r. r = ACCEL_OK) ''accelerator invalid command reset failed'') (\<lambda>(_, s).
      let s = scenario_init_memset_cmd (accel_timeout_invalid_cmd s) (accel_timeout_buffer s + 320) 8 0xaa s;
          s = store32 (accel_timeout_invalid_cmd s + CMD_OP) 99 s in
      submitted 3 (accel_submit_sync_timeout (accel_timeout_invalid_cmd s) 5 s) timeout_invalid))))"

definition timeout_late :: "'a scenarios_scheme \<Rightarrow> (call_point step \<times> 'a scenarios_scheme) res" where
  "timeout_late s =
     (if \<not> accel_timeout_late_irq_done s then yield_at (Waiting 0) s
      else if cmd_status (accel_timeout_stuck_cmd s) s \<noteq> ACCEL_CMD_STATUS_TIMEOUT then Inl ''accelerator late irq rewrote timeout descriptor''
      else
      bindE (expect_accel ACCEL_STATUS_ERROR 0 ''late-timeout'' s) (\<lambda>(_, s).
      let s = println ''accel: late irq after timeout acked'' s in
      bindE (must (accel_reset s) (\<lambda>r. r = ACCEL_OK) ''accelerator timeout recovery reset failed'') (\<lambda>(_, s).
      bindE (expect_accel ACCEL_STATUS_IDLE 0 ''timeout-reset'' s) (\<lambda>(_, s).
      let s = scenario_init_memset_cmd (accel_timeout_reuse_cmd s) (accel_timeout_buffer s + 240) 32 0x99 s;
          s = s\<lparr>accel_timeout_reuse_started := True\<rparr> in
      submitted 2 (accel_submit_sync_timeout (accel_timeout_reuse_cmd s) 30 s) timeout_timed))))"

definition timeout_rejected :: "int \<Rightarrow> 'a scenarios_scheme \<Rightarrow> (call_point step \<times> 'a scenarios_scheme) res" where
  "timeout_rejected r s =
     (if r \<noteq> ACCEL_ERR_BUSY \<or> cmd_status (accel_timeout_reuse_cmd s) s \<noteq> ACCEL_CMD_STATUS_REJECTED
      then Inl ''accelerator timeout recovery did not require reset''
      else
      bindE (must (accel_start_selftest s) (\<lambda>r. r = ACCEL_ERR_BUSY) ''accelerator timeout recovery did not require reset'') (\<lambda>(_, s).
      bindE (must (accel_ack_irq ACCEL_IRQ_ERROR s) (\<lambda>r. r = ACCEL_ERR_BUSY) ''accelerator timeout recovery did not require reset'') (\<lambda>(_, s).
      timeout_late ((println ''accel: reset required after timeout'' s)\<lparr>accel_timeout_observed := True\<rparr>))))"

definition timeout_stuck :: "int \<Rightarrow> 'a scenarios_scheme \<Rightarrow> (call_point step \<times> 'a scenarios_scheme) res" where
  "timeout_stuck r s =
     (if r \<noteq> ACCEL_ERR_TIMEOUT \<or> cmd_status (accel_timeout_stuck_cmd s) s \<noteq> ACCEL_CMD_STATUS_TIMEOUT
      then Inl ''accelerator stuck request did not time out''
      else if mem s (accel_timeout_buffer s + 80) \<noteq> 0xcc then Inl ''accelerator timeout wrote before hardware step''
      else
      let s = println ''accel: stuck request timed out'' s;
          s = scenario_init_memset_cmd (accel_timeout_reuse_cmd s) (accel_timeout_buffer s + 160) 16 0x88 s in
      submitted 1 (accel_submit_sync_timeout (accel_timeout_reuse_cmd s) 5 s) timeout_rejected)"

definition accel_timeout_submitter_thread :: "call_point \<Rightarrow> int \<Rightarrow> 'a scenarios_scheme \<Rightarrow> (call_point step \<times> 'a scenarios_scheme) res" where
  "accel_timeout_submitter_thread p result s =
     (case p of
        In_Call k irq \<Rightarrow>
          (if k = 0 then resumed k (accel_timeout_stuck_cmd s) 5 irq result s timeout_stuck
           else if k = 1 then resumed k (accel_timeout_reuse_cmd s) 5 irq result s timeout_rejected
           else if k = 2 then resumed k (accel_timeout_reuse_cmd s) 30 irq result s timeout_timed
           else resumed k (accel_timeout_invalid_cmd s) 5 irq result s timeout_invalid)
      | Waiting _ \<Rightarrow> timeout_late s
      | Entry \<Rightarrow>
          let s = scenario_init_memset_cmd (accel_timeout_stuck_cmd s) (accel_timeout_buffer s + 80) 48 0x77 s in
          bindE (must (accel_reset s) (\<lambda>r. r = ACCEL_OK) ''accelerator timeout reset failed'') (\<lambda>(_, s).
          let s = s\<lparr>accel_timeout_submit_started := True\<rparr> in
          submitted 0 (accel_submit_sync_timeout (accel_timeout_stuck_cmd s) 5 s) timeout_stuck))"

text \<open>The worker's loops: until the request is submitted, until its timeout is observed, until the second request, until it is done.\<close>

definition timeout_worker_loop :: "'a scenarios_scheme \<Rightarrow> (call_point step \<times> 'a scenarios_scheme) res" where
  "timeout_worker_loop s =
     bindE (device_step s) (\<lambda>(_, s).
     bindE (accel_get_status True s) (\<lambda>((r, status), s).
       if r = ACCEL_OK \<and> status = ACCEL_STATUS_DONE then Inr (Exits, s\<lparr>accel_timeout_reuse_dispatched := True\<rparr>)
       else yield_at (Waiting 3) s))"

definition timeout_worker_reuse :: "'a scenarios_scheme \<Rightarrow> (call_point step \<times> 'a scenarios_scheme) res" where
  "timeout_worker_reuse s = (if \<not> accel_timeout_reuse_started s then yield_at (Waiting 2) s else timeout_worker_loop s)"

definition timeout_worker_observed :: "'a scenarios_scheme \<Rightarrow> (call_point step \<times> 'a scenarios_scheme) res" where
  "timeout_worker_observed s =
     (if \<not> accel_timeout_observed s then yield_at (Waiting 1) s
      else bindE (device_step s) (\<lambda>(_, s). timeout_worker_reuse (s\<lparr>accel_timeout_late_irq_done := True\<rparr>)))"

definition accel_timeout_worker_thread :: "call_point \<Rightarrow> 'a scenarios_scheme \<Rightarrow> (call_point step \<times> 'a scenarios_scheme) res" where
  "accel_timeout_worker_thread p s =
     (if p = Waiting 3 then timeout_worker_loop s
      else if p = Waiting 2 then timeout_worker_reuse s
      else if p = Waiting 1 then timeout_worker_observed s
      else if \<not> accel_timeout_submit_started s then yield_at (Waiting 0) s
      else timeout_worker_observed s)"

text \<open>The call with timeout zero, made before the scheduler is started, returns without waiting.\<close>

definition zero_timeout :: "'a scenarios_scheme \<Rightarrow> (unit \<times> 'a scenarios_scheme) res" where
  "zero_timeout s =
     bindE (must (accel_reset s) (\<lambda>r. r = ACCEL_OK) ''accelerator zero-timeout reset failed'') (\<lambda>(_, s).
     let cmd = accel_timeout_stuck_cmd s;
         s = scenario_init_memset_cmd cmd (accel_timeout_buffer s + 32) 16 0x55 s in
     bindE (accel_submit_sync_timeout cmd 0 s) (\<lambda>(out, s).
     if out \<noteq> Done ACCEL_ERR_TIMEOUT \<or> cmd_status cmd s \<noteq> ACCEL_CMD_STATUS_TIMEOUT then Inl ''accelerator zero timeout did not reject''
     else
     bindE (expect_accel ACCEL_STATUS_IDLE 0 ''zero-timeout'' s) (\<lambda>(_, s).
     Inr ((), println ''accel: zero timeout rejected before start'' s))))"

definition scenario_accelerator_timeout_error_handling :: "image \<Rightarrow> 'a scenarios_scheme \<Rightarrow> (u64 \<times> 'a scenarios_scheme) res" where
  "scenario_accelerator_timeout_error_handling A s =
     (let s = println ''scenario: accelerator-timeout-error-handling'' s in
     bindE (request_pages ''accelerator timeout pages unavailable'' s) (\<lambda>((cmd_bytes, buffer_page), s).
     let s = s\<lparr>accel_timeout_buffer := buffer_page, accel_timeout_stuck_cmd := cmd_bytes + 64, accel_timeout_reuse_cmd := cmd_bytes + 128,
                accel_timeout_invalid_cmd := cmd_bytes + 192\<rparr> in
     bindE (zero_timeout s) (\<lambda>(_, s).
     let s = s\<lparr>accel_timeout_submit_started := False, accel_timeout_observed := False, accel_timeout_late_irq_done := False,
                accel_timeout_reuse_started := False, accel_timeout_reuse_dispatched := False\<rparr> in
     bindE (thread_init s) (\<lambda>(_, s).
     bindE (create_thread ''accel-timeout-submit'' (A Accel_Timeout_Submitter) ''failed to create accelerator timeout threads'' s) (\<lambda>(_, s).
     bindE (create_thread ''accel-timeout-worker'' (A Accel_Timeout_Worker) ''failed to create accelerator timeout threads'' s) (\<lambda>(_, s).
     thread_start s))))))"

end
