(* ===== verification/Scenario_Heap.thy ===== *)
theory Scenario_Heap
  imports Scenario_Memory Heap_Run
begin

text \<open>
  The self-test of the kernel heap, \<open>scenario_heap\<close> of \<^verbatim>\<open>kernel/core/scenario.c\<close>, split where its blank
  lines split it. \<open>kmalloc\<close> may not end on a heap whose page lists are cyclic, so the parts that
  allocate have an optional result.
\<close>

section \<open>The scenario\<close>

definition heap_scenario_lazy :: "'a heap_scheme \<Rightarrow> (unit \<times> 'a heap_scheme) res" where
  "heap_scenario_lazy s =
     bindE (must (heap_page_count s) (\<lambda>n. n = 0) ''heap not lazy after init'') (\<lambda>(_, s).
     bindE (must (heap_free_bytes s) (\<lambda>n. n = 0) ''heap not lazy after init'') (\<lambda>(_, s).
     bindE (must (heap_allocated_bytes s) (\<lambda>n. n = 0) ''heap not lazy after init'') (\<lambda>(_, s).
     Inr ((), s))))"

text \<open>The calls of \<open>kmalloc\<close> and \<open>kzalloc\<close> with a test of the block.\<close>

definition mustO :: "('r \<times> 's) res option \<Rightarrow> ('r \<Rightarrow> bool) \<Rightarrow> string \<Rightarrow> ('r \<times> 's) res option" where
  "mustO m ok msg = map_option (\<lambda>r. must r ok msg) m"

definition heap_scenario_small :: "'a heap_scheme \<Rightarrow> (unit \<times> 'a heap_scheme) res option" where
  "heap_scenario_small s =
     bindO (mustO (kmalloc 1 s) (\<lambda>p. p \<noteq> 0 \<and> pointer_is_aligned p 16) ''heap small allocation failed'') (\<lambda>small s.
     bindO (Some (must (heap_page_count s) (\<lambda>n. n = 1) ''heap small allocation stats mismatch'')) (\<lambda>_ s.
     bindO (Some (must (heap_allocated_bytes s) (\<lambda>n. n = 32) ''heap small allocation stats mismatch'')) (\<lambda>_ s.
     bindO (Some (kfree small s)) (\<lambda>_ s.
     bindO (Some (must (heap_allocated_bytes s) (\<lambda>n. n = 0) ''heap free stats mismatch'')) (\<lambda>_ s.
     bindO (mustO (kmalloc 1 s) (\<lambda>p. p = small) ''heap did not reuse freed block'') (\<lambda>reused s.
     Some (kfree reused s)))))))"

definition heap_scenario_zeroed :: "'a heap_scheme \<Rightarrow> (unit \<times> 'a heap_scheme) res option" where
  "heap_scenario_zeroed s =
     bindO (mustO (kmalloc 33 s) (\<lambda>p. p \<noteq> 0 \<and> pointer_is_aligned p 16) ''heap 64-byte class allocation failed'') (\<lambda>dirty s.
     let s = s\<lparr>mem := fill_bytes (mem s) dirty 0xa5 64\<rparr> in
     bindO (Some (kfree dirty s)) (\<lambda>_ s.
     bindO (mustO (kzalloc 33 s) (\<lambda>p. p = dirty) ''heap did not reuse dirty 64-byte block'') (\<lambda>zeroed s.
     if \<exists>i<64. mem s (zeroed + of_nat i) \<noteq> 0 then Some (Inl ''kzalloc did not zero entire block'')
     else Some (kfree zeroed s))))"

primrec allocate_each :: "u64 list \<Rightarrow> 'a heap_scheme \<Rightarrow> (u64 list \<times> 'a heap_scheme) res option" where
  "allocate_each [] s = Some (Inr ([], s))"
| "allocate_each (sz # szs) s =
     bindO (mustO (kmalloc sz s) (\<lambda>p. p \<noteq> 0 \<and> pointer_is_aligned p 16) ''heap class allocation failed'') (\<lambda>block s.
     bindO (allocate_each szs s) (\<lambda>blocks s. Some (Inr (block # blocks, s))))"

primrec free_each :: "u64 list \<Rightarrow> 'a heap_scheme \<Rightarrow> (unit \<times> 'a heap_scheme) res" where
  "free_each [] s = Inr ((), s)"
| "free_each (p # ps) s = bindE (kfree p s) (\<lambda>(_, s). free_each ps s)"

definition heap_scenario_classes :: "'a heap_scheme \<Rightarrow> (unit \<times> 'a heap_scheme) res option" where
  "heap_scenario_classes s =
     bindO (allocate_each [32, 64, 128, 256, 512, 1024, 2048] s) (\<lambda>class_blocks s.
     bindO (Some (must (heap_page_count s) (\<lambda>n. n = 7) ''heap lazy class growth mismatch'')) (\<lambda>_ s.
     Some (free_each class_blocks s)))"

primrec grow_by :: "nat \<Rightarrow> 'a heap_scheme \<Rightarrow> (u64 list \<times> 'a heap_scheme) res option" where
  "grow_by 0 s = Some (Inr ([], s))"
| "grow_by (Suc n) s =
     bindO (mustO (kmalloc 1 s) (\<lambda>p. p \<noteq> 0) ''heap growth allocation failed'') (\<lambda>block s.
     bindO (grow_by n s) (\<lambda>blocks s. Some (Inr (block # blocks, s))))"

definition heap_scenario_growth :: "'a heap_scheme \<Rightarrow> (unit \<times> 'a heap_scheme) res option" where
  "heap_scenario_growth s =
     bindO (Some (heap_page_count s)) (\<lambda>pages_before_growth s.
     bindO (grow_by 130 s) (\<lambda>growth_blocks s.
     bindO (Some (must (heap_page_count s) (\<lambda>n. pages_before_growth < n) ''heap did not grow exhausted size class'')) (\<lambda>_ s.
     Some (free_each growth_blocks s))))"

definition heap_scenario_report :: "'a heap_scheme \<Rightarrow> (unit \<times> 'a heap_scheme) res" where
  "heap_scenario_report s =
     (let s = console_write ''heap: pages='' s in
     bindE (heap_page_count s) (\<lambda>(n, s).
     let s = console_write '' free='' (console_write_hex64 n s) in
     bindE (heap_free_bytes s) (\<lambda>(n, s).
     let s = console_write '' allocated='' (console_write_hex64 n s) in
     bindE (heap_allocated_bytes s) (\<lambda>(n, s).
     let s = console_write [CHR 0x0A] (console_write_hex64 n s) in
     Inr ((), println ''milestone 12: kernel heap'' s)))))"

definition scenario_heap :: "'a heap_scheme \<Rightarrow> (unit \<times> 'a heap_scheme) res option" where
  "scenario_heap s =
     (let s = println ''scenario: heap'' s in
     bindO (Some (heap_scenario_lazy s)) (\<lambda>_ s.
     bindO (heap_scenario_small s) (\<lambda>_ s.
     bindO (heap_scenario_zeroed s) (\<lambda>_ s.
     bindO (heap_scenario_classes s) (\<lambda>_ s.
     bindO (heap_scenario_growth s) (\<lambda>_ s.
     bindO (mustO (kmalloc 2049 s) (\<lambda>p. p = 0) ''heap oversized allocation succeeded'') (\<lambda>_ s.
     bindO (Some (kfree 0 s)) (\<lambda>_ s.
     Some (heap_scenario_report s)))))))))"

end
