(* ===== verification/Boot.thy ===== *)
theory Boot
  imports Scenario_Requests Scenario_Heap
begin

text \<open>
  The rest of the boot: \<open>supervisor_main\<close> of \<^verbatim>\<open>kernel/core/main.c\<close>, which starts the components in
  order, and \<open>scenario_run\<close> of \<^verbatim>\<open>kernel/core/scenario.c\<close>, which starts the scenario that the build chose. Here
  all the state of the kernel comes together.
\<close>

section \<open>The state of the whole kernel\<close>

text \<open>
  The heap's variables extend the page allocator in \<open>heap\<close>, beside the scheduler; in the whole kernel they are
  one more field, and \<open>on_heap\<close> runs an operation of the heap on the allocator and that field.
\<close>

record heap_vars =
  hv_pools :: "heap_pool list"
  hv_pages :: u64
  hv_free_blocks_bytes :: u64
  hv_allocated_blocks_bytes :: u64
  hv_initialized :: bool

record kernel = scenarios +
  heap_vars :: heap_vars
  page_fault_sink :: u64

definition heap_of :: "'a kernel_scheme \<Rightarrow> heap" where
  "heap_of s = pages.extend (pages.truncate s)
     (heap.fields (hv_pools (heap_vars s)) (hv_pages (heap_vars s)) (hv_free_blocks_bytes (heap_vars s))
       (hv_allocated_blocks_bytes (heap_vars s)) (hv_initialized (heap_vars s)))"

definition with_heap :: "heap \<Rightarrow> 'a kernel_scheme \<Rightarrow> 'a kernel_scheme" where
  "with_heap h s = (pages.extend (pages.truncate h) (pages.more s))
     \<lparr>heap_vars := \<lparr>hv_pools = heap_pools h, hv_pages = heap_pages h, hv_free_blocks_bytes = heap_free_blocks_bytes h,
        hv_allocated_blocks_bytes = heap_allocated_blocks_bytes h, hv_initialized = heap_initialized h\<rparr>\<rparr>"

definition on_heap :: "(heap \<Rightarrow> ('r \<times> heap) res option) \<Rightarrow> 'a kernel_scheme \<Rightarrow> ('r \<times> 'a kernel_scheme) res option" where
  "on_heap f s = map_option (\<lambda>r. bindE r (\<lambda>(x, h). Inr (x, with_heap h s))) (f (heap_of s))"

text \<open>
  What the code of the kernel does not determine: the addresses the linker gives, the frame in which the trap entry
  saves the registers of the boot code, the addresses of its two instructions that trap and of the one after its
  \<open>wfi\<close>, and the contents of the local address space that two scenarios start from.
\<close>

record boot_env =
  be_image :: image
  be_frame :: u64
  be_selftest_pc :: u64
  be_fault_load_pc :: u64
  be_wfi_pc :: u64
  be_space :: vm_space

section \<open>Traps of the boot code\<close>

text \<open>
  A trap that the boot code takes in supervisor mode: the hart enters the handler that \<open>stvec\<close> names, the trap entry
  saves the registers at \<open>frame\<close>, \<open>trap_handle\<close> serves the trap and \<open>trap_return_from_handler\<close> chooses the way
  back, which ends in \<open>sret\<close>. The value \<open>None\<close> stands for a hart that does not come back to the boot code: because
  \<open>stvec\<close> names other code, or because another frame is restored.
\<close>

definition supervisor_trap :: "u64 \<Rightarrow> u64 \<Rightarrow> u64 \<Rightarrow> u64 \<Rightarrow> 'a traps_scheme \<Rightarrow> (unit \<times> 'a traps_scheme) res option" where
  "supervisor_trap frame pc cause tval s =
     (if csr_read_stvec s \<noteq> trap_entry_addr (link s) then None
      else bindO (trap_handle frame (trap_entry_save_csrs frame (hart_trap pc cause tval s))) (\<lambda>out s.
        case out of
          Done f \<Rightarrow> bindO (Some (trap_return_from_handler f s)) (\<lambda>e s.
            if e = Trap_Restore frame then Some (Inr ((), trap_restore_frame frame s)) else None)
        | _ \<Rightarrow> None))"

section \<open>The page-fault scenario\<close>

text \<open>
  A load that the hart cannot translate goes through the trap entry to \<open>trap_handle\<close>. Only a copy of user data can be
  recovered, so the handler does not come back here; a handler that did would be the value \<open>None\<close>.
\<close>

definition scenario_fault_load :: "boot_env \<Rightarrow> u64 \<Rightarrow> 'a kernel_scheme \<Rightarrow> (unit \<times> 'a kernel_scheme) res option" where
  "scenario_fault_load env address s =
     (case hart_translate False address s of
        Some pa \<Rightarrow> Some (Inr ((), s\<lparr>page_fault_sink := load64 pa s\<rparr>))
      | None \<Rightarrow> bindO (supervisor_trap (be_frame env) (be_fault_load_pc env) MCAUSE_LOAD_PAGE_FAULT address s) (\<lambda>_ _. None))"

definition scenario_page_fault :: "boot_env \<Rightarrow> 'a kernel_scheme \<Rightarrow> (unit \<times> 'a kernel_scheme) res option" where
  "scenario_page_fault env s =
     bindO (scenario_fault_load env 0x40000000 (println ''scenario: page-fault'' s)) (\<lambda>_ s.
     Some (Inl ''page fault scenario returned from unmapped load''))"

section \<open>Running a scenario\<close>

definition SCENARIO_ALLOCATOR :: nat where "SCENARIO_ALLOCATOR = 1"
definition SCENARIO_HEAP :: nat where "SCENARIO_HEAP = 2"
definition SCENARIO_VM :: nat where "SCENARIO_VM = 3"
definition SCENARIO_PAGE_FAULT :: nat where "SCENARIO_PAGE_FAULT = 4"
definition SCENARIO_USER_SPACE :: nat where "SCENARIO_USER_SPACE = 5"
definition SCENARIO_FIRST_USER :: nat where "SCENARIO_FIRST_USER = 6"
definition SCENARIO_USERCOPY :: nat where "SCENARIO_USERCOPY = 7"
definition SCENARIO_SCHEDULER_SYNC :: nat where "SCENARIO_SCHEDULER_SYNC = 8"
definition SCENARIO_DRIVER_FRAMEWORK :: nat where "SCENARIO_DRIVER_FRAMEWORK = 9"
definition SCENARIO_ACCELERATOR_REGISTERS :: nat where "SCENARIO_ACCELERATOR_REGISTERS = 10"
definition SCENARIO_ACCELERATOR_DESCRIPTORS :: nat where "SCENARIO_ACCELERATOR_DESCRIPTORS = 11"
definition SCENARIO_ACCELERATOR_IRQ_COMPLETION :: nat where "SCENARIO_ACCELERATOR_IRQ_COMPLETION = 12"
definition SCENARIO_ACCELERATOR_TIMEOUT_ERROR_HANDLING :: nat where "SCENARIO_ACCELERATOR_TIMEOUT_ERROR_HANDLING = 13"
definition SCENARIO_USER_SATP :: nat where "SCENARIO_USER_SATP = 14"
definition SCENARIO_USER_TASK :: nat where "SCENARIO_USER_TASK = 15"
definition SCENARIO_SYSCALL_BASIC :: nat where "SCENARIO_SYSCALL_BASIC = 16"
definition SCENARIO_USER_RUNTIME :: nat where "SCENARIO_USER_RUNTIME = 17"
definition SCENARIO_USER_ACCELERATOR :: nat where "SCENARIO_USER_ACCELERATOR = 18"
definition SCENARIO_SYSCALL_NEGATIVE :: nat where "SCENARIO_SYSCALL_NEGATIVE = 19"
definition SCENARIO_RUNTIME_TRACING :: nat where "SCENARIO_RUNTIME_TRACING = 20"
definition SCENARIO_BENCHMARK_SYSCALL :: nat where "SCENARIO_BENCHMARK_SYSCALL = 21"
definition SCENARIO_BENCHMARK_SCHEDULER :: nat where "SCENARIO_BENCHMARK_SCHEDULER = 22"

lemmas scenario_numbers = SCENARIO_ALLOCATOR_def SCENARIO_HEAP_def SCENARIO_VM_def SCENARIO_PAGE_FAULT_def
  SCENARIO_USER_SPACE_def SCENARIO_FIRST_USER_def SCENARIO_USERCOPY_def SCENARIO_SCHEDULER_SYNC_def
  SCENARIO_DRIVER_FRAMEWORK_def SCENARIO_ACCELERATOR_REGISTERS_def SCENARIO_ACCELERATOR_DESCRIPTORS_def
  SCENARIO_ACCELERATOR_IRQ_COMPLETION_def SCENARIO_ACCELERATOR_TIMEOUT_ERROR_HANDLING_def SCENARIO_USER_SATP_def
  SCENARIO_USER_TASK_def SCENARIO_SYSCALL_BASIC_def SCENARIO_USER_RUNTIME_def SCENARIO_USER_ACCELERATOR_def
  SCENARIO_SYSCALL_NEGATIVE_def SCENARIO_RUNTIME_TRACING_def SCENARIO_BENCHMARK_SYSCALL_def SCENARIO_BENCHMARK_SCHEDULER_def
  SCENARIO_BENCHMARK_ACCELERATOR_def

text \<open>
  A scenario does not return: it idles for ever (\<open>scenario_idle_forever\<close>) or restores the registers from a frame,
  which starts a thread or the first user program.
\<close>

datatype scenario_end = Idles | Starts u64

definition idles :: "(unit \<times> 's) res option \<Rightarrow> (scenario_end \<times> 's) res option" where
  "idles m = bindO m (\<lambda>_ s. Some (Inr (Idles, s)))"

definition starts :: "(u64 \<times> 's) res \<Rightarrow> (scenario_end \<times> 's) res option" where
  "starts m = Some (bindE m (\<lambda>(frame, s). Inr (Starts frame, s)))"

definition scenario_run :: "boot_env \<Rightarrow> 'a kernel_scheme \<Rightarrow> (scenario_end \<times> 'a kernel_scheme) res option" where
  "scenario_run env s =
     (let A = be_image env; n = config_scenario s in
      if n = SCENARIO_ALLOCATOR then idles (scenario_allocator s)
      else if n = SCENARIO_HEAP then idles (on_heap scenario_heap s)
      else if n = SCENARIO_VM then idles (scenario_vm (be_space env) s)
      else if n = SCENARIO_PAGE_FAULT then idles (scenario_page_fault env s)
      else if n = SCENARIO_USER_SPACE then idles (Some (scenario_user_space (be_space env) s))
      else if n = SCENARIO_FIRST_USER then starts (scenario_first_user A s)
      else if n = SCENARIO_USER_SATP then starts (scenario_user_satp A s)
      else if n = SCENARIO_USER_TASK then starts (scenario_user_task A s)
      else if n = SCENARIO_SYSCALL_BASIC then starts (scenario_syscall_basic A s)
      else if n = SCENARIO_USER_RUNTIME then starts (scenario_user_runtime A s)
      else if n = SCENARIO_USER_ACCELERATOR then starts (scenario_user_accelerator A s)
      else if n = SCENARIO_SYSCALL_NEGATIVE then starts (scenario_syscall_negative A s)
      else if n = SCENARIO_RUNTIME_TRACING then starts (scenario_runtime_tracing A s)
      else if n = SCENARIO_BENCHMARK_SYSCALL then starts (scenario_benchmark_syscall A s)
      else if n = SCENARIO_BENCHMARK_SCHEDULER then starts (scenario_benchmark_scheduler A s)
      else if n = SCENARIO_BENCHMARK_ACCELERATOR then starts (scenario_benchmark_accelerator A s)
      else if n = SCENARIO_USERCOPY then starts (scenario_usercopy A s)
      else if n = SCENARIO_SCHEDULER_SYNC then starts (scenario_scheduler_sync A s)
      else if n = SCENARIO_DRIVER_FRAMEWORK then idles (Some (scenario_driver_framework s))
      else if n = SCENARIO_ACCELERATOR_REGISTERS then idles (Some (scenario_accelerator_registers s))
      else if n = SCENARIO_ACCELERATOR_DESCRIPTORS then starts (scenario_accelerator_descriptors A s)
      else if n = SCENARIO_ACCELERATOR_IRQ_COMPLETION then starts (scenario_accelerator_irq_completion A s)
      else if n = SCENARIO_ACCELERATOR_TIMEOUT_ERROR_HANDLING then starts (scenario_accelerator_timeout_error_handling A s)
      else Some (Inl ''unknown kernel scenario''))"

section \<open>The supervisor's boot\<close>

text \<open>
  The \<open>wfi\<close> of the boot code, with all that decides whether it ever ends. The hart sleeps until an interrupt is
  pending that is enabled. A supervisor timer interrupt is pending when its bit of \<open>mip\<close> is set, is enabled by
  \<open>sie\<close>, must be delegated by \<open>mideleg\<close> to reach supervisor mode, and is taken while \<open>sstatus\<close> enables interrupts.
  Otherwise the hart sleeps until the clock has reached \<open>mtimecmp\<close>, if \<open>mie\<close> enables the machine timer interrupt,
  which is then taken whatever supervisor mode has masked: the readings of the clock that nobody makes go by. The
  handler that \<open>mtvec\<close> names passes it on as a supervisor timer interrupt. \<open>None\<close> stands for a hart that sleeps for
  ever.
\<close>

partial_function (option) clock_reaches :: "u64 \<Rightarrow> (nat \<Rightarrow> u64) \<Rightarrow> nat \<Rightarrow> nat option" where
  "clock_reaches deadline clock n = (if deadline \<le> clock n then Some n else clock_reaches deadline clock (Suc n))"

definition supervisor_timer_pending :: "'a timer_scheme \<Rightarrow> bool" where
  "supervisor_timer_pending s \<longleftrightarrow> c_mip (csrs s) AND MIP_STIP \<noteq> 0 \<and> csr_read_sie s AND SIE_STIE \<noteq> 0 \<and>
     c_mideleg (csrs s) AND push_bit (unat SCAUSE_SUPERVISOR_TIMER_INTERRUPT) 1 \<noteq> 0"

definition take_supervisor_timer :: "u64 \<Rightarrow> u64 \<Rightarrow> 'a traps_scheme \<Rightarrow> (unit \<times> 'a traps_scheme) res option" where
  "take_supervisor_timer frame pc s =
     (if supervisor_timer_pending s \<and> sstatus s AND SSTATUS_SIE \<noteq> 0
      then supervisor_trap frame pc (MCAUSE_INTERRUPT OR SCAUSE_SUPERVISOR_TIMER_INTERRUPT) 0 s
      else Some (Inr ((), s)))"

definition wfi :: "u64 \<Rightarrow> u64 \<Rightarrow> 'a traps_scheme \<Rightarrow> (unit \<times> 'a traps_scheme) res option" where
  "wfi frame pc s =
     (if supervisor_timer_pending s then take_supervisor_timer frame pc s
      else if csr_read_mie s AND MIE_MTIE = 0 then None
      else case clock_reaches (mtimecmp s) (mtime_at s) (mtime_reads s) of
          None \<Rightarrow> None
        | Some n \<Rightarrow>
            if csr_read_mtvec s \<noteq> machine_trap_entry_addr (link s) then None
            else let s = s\<lparr>mtime_reads := n\<rparr>;
                     s = store64 (machine_frame s + FRAME_MCAUSE) (MCAUSE_INTERRUPT OR MCAUSE_MACHINE_TIMER_INTERRUPT) s
                 in bindO (Some (machine_trap_handle (machine_frame s) s)) (\<lambda>_ s. take_supervisor_timer frame pc s))"

text \<open>The loop \<open>while (timer_ticks() < 3) wfi\<close>.\<close>

partial_function (option) wait_ticks :: "u64 \<Rightarrow> u64 \<Rightarrow> u64 \<Rightarrow> 'a traps_scheme \<Rightarrow> (unit \<times> 'a traps_scheme) res option" where
  "wait_ticks n frame pc s =
     (if timer_ticks s < n then
        (case wfi frame pc s of None \<Rightarrow> None | Some (Inl e) \<Rightarrow> Some (Inl e) | Some (Inr (_, s)) \<Rightarrow> wait_ticks n frame pc s)
      else Some (Inr ((), s)))"

definition supervisor_main :: "boot_env \<Rightarrow> 'a kernel_scheme \<Rightarrow> (scenario_end \<times> 'a kernel_scheme) res option" where
  "supervisor_main env s =
     (let s = console_write ''paging: satp='' s;
          s = console_write_hex64 (csr_read_satp s) s;
          s = console_write [CHR 0x0A] s;
          s = println ''milestone 13: kernel paging'' s;
          s = trap_init s in
     bindO (trap_selftest (be_frame env) (be_selftest_pc env) s) (\<lambda>_ s.
     let s = println ''milestone 2: trap vector setup'' s in
     bindO (Some (timer_init s)) (\<lambda>_ s.
     bindO (wait_ticks 3 (be_frame env) (be_wfi_pc env) s) (\<lambda>_ s.
     let s = console_write ''timer: observed '' s;
         s = console_write_hex64 (timer_ticks s) s;
         s = println '' ticks'' s;
         s = println ''milestone 2: timer interrupt setup'' s in
     bindO (on_heap (\<lambda>h. Some (heap_init h)) s) (\<lambda>_ s.
     bindO (Some (device_init s)) (\<lambda>_ s.
     bindO (Some (driver_probe_all built_in_drivers s)) (\<lambda>_ s.
     scenario_run env s)))))))"

end
