(* ===== verification/Boot_Spec.thy ===== *)
theory Boot_Spec
  imports Boot Driver_Spec
begin

text \<open>
  The supervisor's boot comes to its scenario: every step of \<open>supervisor_main\<close> succeeds, the wait for the
  third tick ends, and the scenario starts with the components as their initialisation leaves them.
\<close>

section \<open>Frames\<close>

text \<open>The trap frames of the boot code: outside of them its traps leave memory alone.\<close>

definition boot_frames :: "u64 \<Rightarrow> 'a hw_scheme \<Rightarrow> u64 set" where
  "boot_frames frame s = {a. unat (a - frame) < 280 \<or> unat (a - machine_frame s) < 280}"

definition only_frames :: "u64 \<Rightarrow> 'a hw_scheme \<Rightarrow> memory \<Rightarrow> bool" where
  "only_frames frame s m \<longleftrightarrow> (\<forall>a. a \<notin> boot_frames frame s \<longrightarrow> m a = mem s a)"

lemma frame_offsets:
  "FRAME_MCAUSE = 8 * of_nat 33" "FRAME_MEPC = 8 * of_nat 31" "FRAME_MSTATUS = 8 * of_nat 32" "FRAME_MTVAL = 8 * of_nat 34" "FRAME_A0 = 8 * of_nat 9" "FRAME_A7 = 8 * of_nat 16"
  by (simp_all add: FRAME_MCAUSE_def FRAME_MEPC_def FRAME_MSTATUS_def FRAME_MTVAL_def FRAME_A0_def FRAME_A7_def)

lemma frame_write_outside:
  assumes "280 \<le> unat (a - f)"
  shows "write64 m (f + FRAME_MCAUSE) v a = m a" "write64 m (f + FRAME_MEPC) v a = m a" "write64 m (f + FRAME_MSTATUS) v a = m a"
    "write64 m (f + FRAME_MTVAL) v a = m a"
  unfolding frame_offsets using assms write_word_outside [of 33 35 a f] write_word_outside [of 31 35 a f]
    write_word_outside [of 32 35 a f] write_word_outside [of 34 35 a f] by simp_all

lemma frame_mcause:
  assumes "unat f mod 8 = 0"
  shows "read64 (write64 m (f + FRAME_MCAUSE) v) (f + FRAME_MCAUSE) = v"
  unfolding frame_offsets using read_word_write [OF assms, of 33 33] by simp

text \<open>What the boot code's frame holds does not depend on the machine frame.\<close>

definition frames_apart :: "u64 \<Rightarrow> 'a hw_scheme \<Rightarrow> bool" where
  "frames_apart f s \<longleftrightarrow> (\<forall>a. unat (a - f) < 280 \<longrightarrow> 280 \<le> unat (a - machine_frame s))"

lemma frame_read:
  assumes "frames_apart f s" and "\<forall>a. 280 \<le> unat (a - machine_frame s) \<longrightarrow> m' a = m a" and "unat off + 8 \<le> 280"
  shows "read64 m' (f + off) = read64 m (f + off)"
proof (rule cell64.rd_local)
  fix i :: nat
  assume "i < 8"
  then have "unat (f + off + of_nat i - f) < 280"
    using assms(3) by (simp add: unat_word_ariths unat_of_nat)
  then show "m' (f + off + of_nat i) = m (f + off + of_nat i)" using assms(1,2) by (simp add: frames_apart_def)
qed

section \<open>Output\<close>

text \<open>Output changes the console and nothing else.\<close>

definition prints :: "('a hw_scheme \<Rightarrow> 'a hw_scheme) \<Rightarrow> bool" where
  "prints f \<longleftrightarrow> (\<forall>s. \<exists>c. f s = s\<lparr>console := c\<rparr>)"

lemma prints_write: "prints (\<lambda>s. console_write text s)"
  unfolding prints_def by (intro allI console_only)

lemma prints_println: "prints (\<lambda>s. println text s)"
  unfolding prints_def println_def by (intro allI console_only)

lemma prints_hex: "prints (\<lambda>s. console_write_hex64 v s)"
  unfolding prints_def by (intro allI console_hex_only)

lemma prints_then:
  assumes "prints f" and "prints g"
  shows "prints (\<lambda>s. f (g s))"
proof (unfold prints_def, rule allI)
  fix s :: "'a hw_scheme"
  obtain c where c: "g s = s\<lparr>console := c\<rparr>" using assms(2) by (auto simp: prints_def)
  have "\<exists>d. f (s\<lparr>console := c\<rparr>) = s\<lparr>console := c, console := d\<rparr>" using assms(1) by (simp only: prints_def)
  then show "\<exists>c. f (g s) = s\<lparr>console := c\<rparr>" by (simp add: c)
qed

lemmas prints_intros = prints_then prints_write prints_println prints_hex

lemma printsE:
  assumes "prints f"
  obtains c where "f s = s\<lparr>console := c\<rparr>"
  using assms by (auto simp: prints_def)

section \<open>The traps of the boot\<close>

lemma trap_selftest_ok:
  fixes s :: "'a traps_scheme"
  assumes "unat f mod 8 = 0"
  obtains m c where "trap_selftest f pc s = Some (Inr ((), s\<lparr>trap_selftest_seen := 1, mem := m, console := c\<rparr>))"
    and "\<forall>a. 280 \<le> unat (a - f) \<longrightarrow> m a = mem s a"
proof -
  let ?m = "write64 (write64 (mem s) (f + FRAME_MEPC) pc) (f + FRAME_MCAUSE) MCAUSE_BREAKPOINT"
  let ?m' = "write64 ?m (f + FRAME_MEPC) (read64 ?m (f + FRAME_MEPC) + 4)"
  define s1 where "s1 = s\<lparr>trap_selftest_seen := 1, mem := ?m'\<rparr>"
  have h: "trap_handle f (store64 (f + FRAME_MCAUSE) MCAUSE_BREAKPOINT (store64 (f + FRAME_MEPC) pc (s\<lparr>trap_selftest_seen := 0\<rparr>))) =
      Some (Inr (Done f, s1))"
    using frame_mcause [OF assms]
    by (simp add: trap_handle_def load64_def store64_def s1_def MCAUSE_BREAKPOINT_def MCAUSE_INTERRUPT_def MCAUSE_CODE_MASK_def Let_def)
  obtain c where c: "console_write (''trap: self-test passed'' @ [CHR 0x0A]) s1 = s1\<lparr>console := c\<rparr>"
    using console_only by blast
  have "trap_selftest_seen s1 = 1" by (simp add: s1_def)
  then have "trap_selftest f pc s = Some (Inr ((), s1\<lparr>console := c\<rparr>))"
    unfolding trap_selftest_def Let_def h option.map bindE_Inr prod.case c by simp
  moreover have "\<forall>a. 280 \<le> unat (a - f) \<longrightarrow> ?m' a = mem s a" by (simp add: frame_write_outside)
  ultimately show ?thesis by (intro that [of c ?m']) (simp_all add: s1_def)
qed

lemma timer_init_ok:
  fixes s :: "'a timer_scheme"
  assumes "unat (machine_frame s) mod 8 = 0"
  obtains m c where "timer_init s = Inr ((), s\<lparr>ticks := 0, mtime_reads := Suc (mtime_reads s),
      next_compare := mtime_at s (mtime_reads s) + TIMER_INTERVAL_CYCLES, mtimecmp := mtime_at s (mtime_reads s) + TIMER_INTERVAL_CYCLES,
      csrs := (csrs s)\<lparr>c_mip := c_mip (csrs s) AND NOT MIP_STIP, c_sie := c_sie (csrs s) OR SIE_STIE\<rparr>, sstatus := sstatus s OR SSTATUS_SIE, mem := m, console := c\<rparr>)"
    and "\<forall>a. 280 \<le> unat (a - machine_frame s) \<longrightarrow> m a = mem s a"
proof -
  let ?d = "mtime_at s (mtime_reads s) + TIMER_INTERVAL_CYCLES"
  let ?s1 = "s\<lparr>ticks := 0, mtime_reads := Suc (mtime_reads s), next_compare := ?d\<rparr>"
  have f: "machine_frame ?s1 = machine_frame s" by (simp add: machine_frame_def)
  obtain m where m: "timer_set_deadline ?d ?s1 = Inr ((), (csr_clear_mip MIP_STIP ?s1)\<lparr>mtimecmp := ?d, mem := m\<rparr>)"
    "\<forall>a. 280 \<le> unat (a - machine_frame s) \<longrightarrow> m a = mem s a"
    using set_deadline_ok [of ?s1 ?d, unfolded f, OF assms] by auto
  define z where "z = csr_set_sstatus SSTATUS_SIE (csr_set_sie SIE_STIE ((csr_clear_mip MIP_STIP ?s1)\<lparr>mtimecmp := ?d, mem := m\<rparr>))"
  define v where "v = csr_read_sie z"
  define w where "w s = console_write [CHR 0x0A] (console_write_hex64 v (console_write '' sie='' (console_write_hex64
    TIMER_INTERVAL_CYCLES (console_write ''timer: interval='' s))))" for s :: "'a timer_scheme"
  have pw: "prints w" unfolding w_def
    by (rule prints_then [OF prints_write], rule prints_then [OF prints_hex], rule prints_then [OF prints_write],
        rule prints_then [OF prints_hex], rule prints_write)
  obtain c where c: "w z = z\<lparr>console := c\<rparr>" by (rule printsE [OF pw])
  define q where "q s = console_write '' sie='' (console_write_hex64 TIMER_INTERVAL_CYCLES (console_write ''timer: interval='' s))"
    for s :: "'a timer_scheme"
  have pq: "prints q" unfolding q_def
    by (rule prints_then [OF prints_write], rule prints_then [OF prints_hex], rule prints_write)
  obtain c' where c': "q z = z\<lparr>console := c'\<rparr>" by (rule printsE [OF pq])
  have v: "csr_read_sie (q z) = v" unfolding c' by (simp add: v_def csr_read_sie_def)
  have "timer_init s = Inr ((), console_write [CHR 0x0A] (console_write_hex64 (csr_read_sie (q z)) (q z)))"
    unfolding timer_init_def timer_read_mtime_def Let_def prod.case timer.select_convs timer.update_convs
    by (simp add: m(1) z_def [symmetric] q_def [symmetric] del: console_write.simps)
  then have "timer_init s = Inr ((), w z)" unfolding v unfolding w_def q_def .
  with c m(2) show ?thesis
    by (intro that [where m = m and c = c])
      (simp_all add: z_def csr_set_sstatus_def csr_set_sie_def csr_clear_mip_def upd_csrs_def)
qed

lemma interrupt_before_start:
  fixes s :: "'a sched_scheme"
  assumes "\<not> threads_started s" and "unat (machine_frame s) mod 8 = 0"
    and "unat (mtime_at s (mtime_reads s)) + 10000 < 2 ^ 64" and "unat (next_compare s) + 10000 < 2 ^ 64"
  obtains d m where "timer_handle_interrupt s = Some (Inr ((), s\<lparr>mtime_reads := Suc (mtime_reads s), ticks := ticks s + 1,
      next_compare := d, mtimecmp := d, csrs := (csrs s)\<lparr>c_mip := c_mip (csrs s) AND NOT MIP_STIP\<rparr>, mem := m\<rparr>))"
    and "unat d = next_deadline (unat (mtime_at s (mtime_reads s))) (unat (next_compare s))" and "mtime_at s (mtime_reads s) < d"
    and "\<forall>a. 280 \<le> unat (a - machine_frame s) \<longrightarrow> m a = mem s a"
proof -
  obtain d where d: "advance_deadline (mtime_at s (mtime_reads s)) (next_compare s) = Some d"
    "unat d = next_deadline (unat (mtime_at s (mtime_reads s))) (unat (next_compare s))" "mtime_at s (mtime_reads s) < d"
    using advance_ok [OF assms(3,4)] by blast
  let ?s1 = "s\<lparr>mtime_reads := Suc (mtime_reads s), ticks := ticks s + 1, next_compare := d\<rparr>"
  have f: "machine_frame ?s1 = machine_frame s" by (simp add: machine_frame_def)
  obtain m where m: "timer_set_deadline d ?s1 = Inr ((), (csr_clear_mip MIP_STIP ?s1)\<lparr>mtimecmp := d, mem := m\<rparr>)"
    "\<forall>a. 280 \<le> unat (a - machine_frame s) \<longrightarrow> m a = mem s a"
    using set_deadline_ok [of ?s1 d, unfolded f, OF assms(2)] by auto
  let ?x = "c_mip (csrs s) AND NOT MIP_STIP"
  have "timer_handle_interrupt s = Some (Inr ((), s\<lparr>mtime_reads := Suc (mtime_reads s), ticks := ticks s + 1,
      next_compare := d, mtimecmp := d, csrs := (csrs s)\<lparr>c_mip := ?x\<rparr>, mem := m\<rparr>))"
    using d(1) m(1) assms(1)
    by (simp add: timer_handle_interrupt_def timer_read_mtime_def Let_def thread_on_timer_tick_def csr_clear_mip_def upd_csrs_def)
  then show ?thesis using d(2,3) m(2) by (rule that)
qed

section \<open>The clock\<close>

text \<open>
  What is known of the clock: it does not go back, no two successive readings lie more than \<open>2 ^ 40\<close> apart, and it
  does not stand still for ever. Nothing is known of its upper half, where it may wrap around.
\<close>

definition clock_runs :: "(nat \<Rightarrow> u64) \<Rightarrow> bool" where
  "clock_runs clock \<longleftrightarrow> (\<forall>n. unat (clock n) < 2 ^ 63 \<longrightarrow>
     clock n \<le> clock (Suc n) \<and> unat (clock (Suc n)) \<le> unat (clock n) + 2 ^ 40 \<and> (\<exists>m>n. clock n < clock m))"

lemma clock_passes:
  assumes "clock_runs clock" and "unat d \<le> 2 ^ 63"
  shows "\<exists>m\<ge>n. d \<le> clock m"
proof (induction "unat d - unat (clock n)" arbitrary: n rule: less_induct)
  case less
  show ?case
  proof (cases "d \<le> clock n")
    case False
    then have lt: "unat (clock n) < unat d" by (simp add: word_less_nat_alt not_le)
    then have "unat (clock n) < 2 ^ 63" using assms(2) by linarith
    then obtain m where m: "n < m" "clock n < clock m" using assms(1) by (auto simp: clock_runs_def)
    then have "unat d - unat (clock m) < unat d - unat (clock n)" using lt by (simp add: word_less_nat_alt)
    then obtain k where "m \<le> k" "d \<le> clock k" using less by blast
    then show ?thesis using m(1) by (intro exI [of _ k]) simp
  qed auto
qed

lemma clock_reaches_ok:
  assumes run: "clock_runs clock" and d: "unat d \<le> 2 ^ 63"
  obtains k where "clock_reaches d clock n = Some k" and "n \<le> k" and "d \<le> clock k"
    and "k = n \<or> unat (clock k) \<le> unat d + 2 ^ 40"
proof -
  obtain m where m: "n \<le> m" "d \<le> clock m" using clock_passes [OF run d] by blast
  have "\<exists>k. clock_reaches d clock n = Some k \<and> n \<le> k \<and> d \<le> clock k \<and> (k = n \<or> unat (clock k) \<le> unat d + 2 ^ 40)"
    using m
  proof (induction "m - n" arbitrary: n)
    case 0
    then show ?case by (subst clock_reaches.simps) simp
  next
    case (Suc j)
    show ?case
    proof (cases "d \<le> clock n")
      case True
      then show ?thesis by (subst clock_reaches.simps) simp
    next
      case False
      have "j = m - Suc n" "Suc n \<le> m" using Suc.hyps(2) Suc.prems by auto
      then obtain k where k: "clock_reaches d clock (Suc n) = Some k" "Suc n \<le> k" "d \<le> clock k"
        "k = Suc n \<or> unat (clock k) \<le> unat d + 2 ^ 40"
        using Suc.hyps(1) [of "Suc n"] Suc.prems(2) by blast
      have lt: "unat (clock n) < unat d" using False by (simp add: word_less_nat_alt not_le)
      then have "unat (clock n) < 2 ^ 63" using d by linarith
      then have "unat (clock (Suc n)) \<le> unat (clock n) + 2 ^ 40" using run unfolding clock_runs_def by blast
      then have "unat (clock k) \<le> unat d + 2 ^ 40" using k(4) lt by auto
      moreover have "clock_reaches d clock n = Some k" using False k(1) by (subst clock_reaches.simps) simp
      ultimately show ?thesis using k(2,3) by (intro exI [of _ k]) simp
    qed
  qed
  then show ?thesis using that by blast
qed

section \<open>The wait for an interrupt\<close>

text \<open>What the machine-mode part of the boot has set up, and that it has.\<close>

definition machine_ready :: "'a timer_scheme \<Rightarrow> bool" where
  "machine_ready s \<longleftrightarrow> csr_read_mie s AND MIE_MTIE \<noteq> 0 \<and> csr_read_mtvec s = machine_trap_entry_addr (link s) \<and>
     c_mideleg (csrs s) = push_bit (unat SCAUSE_SUPERVISOR_TIMER_INTERRUPT) 1"

lemma machine_init_ready: "machine_ready (machine_enter_supervisor v entry (machine_init s))"
proof -
  have "(c OR MIE_MTIE) AND MIE_MTIE \<noteq> 0" for c
  proof -
    have "(c OR MIE_MTIE) AND MIE_MTIE = MIE_MTIE" by (rule bit_word_eqI) (auto simp: bit_simps)
    then show ?thesis by (simp add: MIE_MTIE_def)
  qed
  then show ?thesis
    by (simp add: machine_ready_def machine_enter_supervisor_def machine_init_def Let_def machine_allow_supervisor_memory_access_def
        machine_write_mtimecmp_def csr_write_mtvec_def csr_write_mscratch_def csr_write_medeleg_def csr_write_mideleg_def
        csr_write_mcounteren_def csr_set_mie_def csr_write_pmpcfg0_def csr_write_pmpaddr0_def csr_write_mepc_def csr_write_mstatus_def
        csr_write_satp_def csr_read_mie_def csr_read_mtvec_def sfence_vma_def upd_csrs_def)
qed

text \<open>A supervisor timer interrupt before the threads start: one tick more, and the boot code goes on.\<close>

lemma boot_timer_trap:
  fixes s :: "'a traps_scheme"
  assumes off: "\<not> threads_started s" "\<not> reschedule_requested s" and al: "unat (machine_frame s) mod 8 = 0" "unat f mod 8 = 0"
    and ap: "frames_apart f s" and clock: "unat (mtime_at s (mtime_reads s)) + 10000 < 2 ^ 64" "unat (next_compare s) + 10000 < 2 ^ 64"
    and vec: "csr_read_stvec s = trap_entry_addr (link s)"
  obtains d x m where "supervisor_trap f pc (MCAUSE_INTERRUPT OR SCAUSE_SUPERVISOR_TIMER_INTERRUPT) 0 s = Some (Inr ((), s\<lparr>
      mtime_reads := Suc (mtime_reads s), ticks := ticks s + 1, next_compare := d, mtimecmp := d, sstatus := after_trap (sstatus s),
      csrs := (csrs s)\<lparr>c_mip := c_mip (csrs s) AND NOT MIP_STIP, c_sepc := x, c_scause := MCAUSE_INTERRUPT OR SCAUSE_SUPERVISOR_TIMER_INTERRUPT,
        c_stval := 0\<rparr>, mem := m\<rparr>))"
    and "unat d = next_deadline (unat (mtime_at s (mtime_reads s))) (unat (next_compare s))" and "mtime_at s (mtime_reads s) < d"
    and "only_frames f s m"
proof -
  let ?cs = "MCAUSE_INTERRUPT OR SCAUSE_SUPERVISOR_TIMER_INTERRUPT"
  have c: "?cs AND MCAUSE_INTERRUPT \<noteq> 0" "?cs AND MCAUSE_CODE_MASK = SCAUSE_SUPERVISOR_TIMER_INTERRUPT"
    "SCAUSE_SUPERVISOR_TIMER_INTERRUPT \<noteq> MCAUSE_BREAKPOINT"
    by (simp_all add: MCAUSE_INTERRUPT_def MCAUSE_CODE_MASK_def SCAUSE_SUPERVISOR_TIMER_INTERRUPT_def MCAUSE_BREAKPOINT_def)
  define t where "t = hart_trap pc ?cs 0 s"
  have tf: "mem t = mem s" "sstatus t = (sstatus s AND NOT (SSTATUS_SIE OR SSTATUS_SPIE)) OR SSTATUS_SPP OR
      (if sstatus s AND SSTATUS_SIE \<noteq> 0 then SSTATUS_SPIE else 0)"
    by (simp_all add: t_def hart_trap_def upd_csrs_def)
  define m3 where "m3 = write64 (write64 (write64 (write64 (mem s) (f + FRAME_MEPC) pc) (f + FRAME_MSTATUS) (sstatus t))
    (f + FRAME_MCAUSE) ?cs) (f + FRAME_MTVAL) 0"
  define s3 where "s3 = t\<lparr>mem := m3\<rparr>"
  have save: "trap_entry_save_csrs f (hart_trap pc ?cs 0 s) = s3"
    by (simp add: trap_entry_save_csrs_def Let_def store64_def csr_read_sepc_def csr_read_scause_def csr_read_stval_def
        csr_read_sstatus_def s3_def m3_def t_def hart_trap_def upd_csrs_def)
  have e3: "s3 = s\<lparr>mem := m3, sstatus := sstatus t, csrs := (csrs s)\<lparr>c_sepc := pc, c_scause := ?cs, c_stval := 0\<rparr>\<rparr>"
    by (simp add: s3_def t_def hart_trap_def upd_csrs_def)
  have "read64 m3 (f + FRAME_MCAUSE) = ?cs"
    using read_word_write [OF al(2), of 33 34] frame_mcause [OF al(2)] unfolding m3_def frame_offsets by simp
  then have l3: "load64 (f + FRAME_MCAUSE) s3 = ?cs" by (simp add: s3_def load64_def)
  note ms = trap_frame_words(2) [OF al(2), where m = "mem s" and pc = pc and st = "sstatus t" and cause = ?cs and va = 0, folded m3_def]
  have o3: "\<forall>a. a \<notin> boot_frames f s \<longrightarrow> m3 a = mem s a" by (auto simp: m3_def boot_frames_def frame_write_outside)
  have k3: "\<not> threads_started s3" "machine_frame s3 = machine_frame s" "mtime_at s3 (mtime_reads s3) = mtime_at s (mtime_reads s)"
    "next_compare s3 = next_compare s"
    using off unfolding e3 by (simp_all add: machine_frame_def)
  have a3: "unat (machine_frame s3) mod 8 = 0" "unat (mtime_at s3 (mtime_reads s3)) + 10000 < 2 ^ 64"
    "unat (next_compare s3) + 10000 < 2 ^ 64" using k3 al clock by simp_all
  obtain d m where h: "timer_handle_interrupt s3 = Some (Inr ((), s3\<lparr>mtime_reads := Suc (mtime_reads s3), ticks := ticks s3 + 1,
      next_compare := d, mtimecmp := d, csrs := (csrs s3)\<lparr>c_mip := c_mip (csrs s3) AND NOT MIP_STIP\<rparr>, mem := m\<rparr>))"
    and d: "unat d = next_deadline (unat (mtime_at s3 (mtime_reads s3))) (unat (next_compare s3))" "mtime_at s3 (mtime_reads s3) < d"
    and m: "\<forall>a. 280 \<le> unat (a - machine_frame s3) \<longrightarrow> m a = mem s3 a"
    by (rule interrupt_before_start [OF k3(1) a3])
  define s4 where "s4 = s\<lparr>mtime_reads := Suc (mtime_reads s), ticks := ticks s + 1, next_compare := d, mtimecmp := d, sstatus := sstatus t,
      csrs := (csrs s)\<lparr>c_mip := c_mip (csrs s) AND NOT MIP_STIP, c_sepc := pc, c_scause := ?cs, c_stval := 0\<rparr>, mem := m\<rparr>"
  have t4: "timer_handle_interrupt s3 = Some (Inr ((), s4))" unfolding h s4_def unfolding e3 by simp
  have p4: "thread_maybe_preempt_from_trap f s4 = Inr (f, s4)" using off by (simp add: thread_maybe_preempt_from_trap_def s4_def)
  obtain i where i: "?cs AND MCAUSE_INTERRUPT = i" "i \<noteq> 0" using c(1) by blast
  have hd: "trap_handle f s3 = Some (Inr (Done f, s4))"
    unfolding trap_handle_def Let_def l3 c(2) i(1) using i(2) by (simp add: t4 p4 done_frame_def)
  have "read64 m (f + FRAME_MSTATUS) = read64 m3 (f + FRAME_MSTATUS)"
    by (rule frame_read [OF ap]) (use m k3(2) in \<open>simp_all add: s3_def FRAME_MSTATUS_def\<close>)
  then have l4: "load64 (f + FRAME_MSTATUS) s4 = sstatus t" using ms by (simp add: s4_def load64_def)
  have "thread_current_user_task_for_frame f s4 = 0"
    using l4 trap_status(2) [of "sstatus s"] tf(2) by (simp add: thread_current_user_task_for_frame_def split: option.split)
  then have ret: "trap_return_from_handler f s4 = Inr (Trap_Restore f, s4)" by (simp add: trap_return_from_handler_def)
  define x where "x = load64 (f + FRAME_MEPC) s4"
  have st: "after_trap (sstatus s) = (sstatus t AND NOT (SSTATUS_SIE OR SSTATUS_SPP)) OR SSTATUS_SPIE OR
      (if sstatus t AND SSTATUS_SPIE \<noteq> 0 then SSTATUS_SIE else 0)"
    unfolding tf(2) by (rule trap_status(1) [symmetric])
  have "trap_restore_frame f s4 = s4\<lparr>sstatus := after_trap (sstatus s), csrs := (csrs s4)\<lparr>c_sepc := x\<rparr>\<rparr>"
    unfolding st using l4 by (simp add: trap_restore_frame_def Let_def csr_write_sepc_def upd_csrs_def hart_sret_def load64_def x_def)
  also have "\<dots> = s\<lparr>mtime_reads := Suc (mtime_reads s), ticks := ticks s + 1, next_compare := d, mtimecmp := d, sstatus := after_trap (sstatus s),
      csrs := (csrs s)\<lparr>c_mip := c_mip (csrs s) AND NOT MIP_STIP, c_sepc := x, c_scause := ?cs, c_stval := 0\<rparr>, mem := m\<rparr>"
    by (simp add: s4_def)
  finally have restore: "trap_restore_frame f s4 = s\<lparr>mtime_reads := Suc (mtime_reads s), ticks := ticks s + 1, next_compare := d, mtimecmp := d,
      sstatus := after_trap (sstatus s),
      csrs := (csrs s)\<lparr>c_mip := c_mip (csrs s) AND NOT MIP_STIP, c_sepc := x, c_scause := ?cs, c_stval := 0\<rparr>, mem := m\<rparr>" .
  have "supervisor_trap f pc ?cs 0 s = Some (Inr ((), trap_restore_frame f s4))"
    unfolding supervisor_trap_def save using vec by (simp add: hd ret)
  moreover have "only_frames f s m" using o3 m k3(2) by (auto simp: only_frames_def boot_frames_def s3_def)
  ultimately show ?thesis using d k3 unfolding restore by (intro that) simp_all
qed

text \<open>A \<open>wfi\<close> with the timer armed: it ends at the reading of the clock that first reaches the deadline.\<close>

definition wfi_ready :: "u64 \<Rightarrow> 'a traps_scheme \<Rightarrow> bool" where
  "wfi_ready f s \<longleftrightarrow> \<not> threads_started s \<and> \<not> reschedule_requested s \<and> unat (machine_frame s) mod 8 = 0 \<and> unat f mod 8 = 0 \<and>
     frames_apart f s \<and> machine_ready s \<and> csr_read_stvec s = trap_entry_addr (link s) \<and> csr_read_sie s AND SIE_STIE \<noteq> 0 \<and>
     sstatus s AND SSTATUS_SIE \<noteq> 0 \<and> c_mip (csrs s) AND MIP_STIP = 0"

lemma wfi_ok:
  fixes s :: "'a traps_scheme"
  assumes r: "wfi_ready f s" and n: "clock_reaches (mtimecmp s) (mtime_at s) (mtime_reads s) = Some n"
    and clock: "unat (mtime_at s n) + 10000 < 2 ^ 64" "unat (next_compare s) + 10000 < 2 ^ 64"
  obtains d x y m where "wfi f pc s = Some (Inr ((), s\<lparr>mtime_reads := Suc n, ticks := ticks s + 1, next_compare := d, mtimecmp := d,
      sstatus := after_trap (sstatus s), csrs := (csrs s)\<lparr>c_mip := y, c_sepc := x,
        c_scause := MCAUSE_INTERRUPT OR SCAUSE_SUPERVISOR_TIMER_INTERRUPT, c_stval := 0\<rparr>, mem := m\<rparr>))"
    and "unat d = next_deadline (unat (mtime_at s n)) (unat (next_compare s))" and "mtime_at s n < d"
    and "only_frames f s m" and "y AND MIP_STIP = 0"
proof -
  let ?M = "machine_frame s" and ?cm = "MCAUSE_INTERRUPT OR MCAUSE_MACHINE_TIMER_INTERRUPT"
    and ?cs = "MCAUSE_INTERRUPT OR SCAUSE_SUPERVISOR_TIMER_INTERRUPT"
  have c: "?cm AND MCAUSE_INTERRUPT \<noteq> 0" "?cm AND MCAUSE_CODE_MASK = MCAUSE_MACHINE_TIMER_INTERRUPT"
    by (simp_all add: MCAUSE_INTERRUPT_def MCAUSE_CODE_MASK_def MCAUSE_MACHINE_TIMER_INTERRUPT_def)
  have r': "\<not> threads_started s" "\<not> reschedule_requested s" "unat ?M mod 8 = 0" "unat f mod 8 = 0" "frames_apart f s"
    "csr_read_mie s AND MIE_MTIE \<noteq> 0" "csr_read_mtvec s = machine_trap_entry_addr (link s)"
    "c_mideleg (csrs s) = push_bit (unat SCAUSE_SUPERVISOR_TIMER_INTERRUPT) 1" "csr_read_stvec s = trap_entry_addr (link s)"
    "csr_read_sie s AND SIE_STIE \<noteq> 0" "sstatus s AND SSTATUS_SIE \<noteq> 0" "c_mip (csrs s) AND MIP_STIP = 0"
    using r by (simp_all add: wfi_ready_def machine_ready_def)
  have np: "\<not> supervisor_timer_pending s" using r'(12) by (simp add: supervisor_timer_pending_def)
  define s0 where "s0 = s\<lparr>mtime_reads := n\<rparr>"
  define s1 where "s1 = store64 (?M + FRAME_MCAUSE) ?cm s0"
  define s2 where "s2 = csr_set_mip MIP_STIP (machine_write_mtimecmp 0xffffffffffffffff s1)"
  have f0: "machine_frame s0 = ?M" by (simp add: s0_def machine_frame_def)
  have l1: "load64 (?M + FRAME_MCAUSE) s1 = ?cm" using frame_mcause [OF r'(3)] by (simp add: s1_def load64_def store64_def)
  have f1: "machine_frame s1 = ?M" using f0 by (simp add: s1_def machine_frame_def store64_def)
  have m1: "machine_trap_handle ?M s1 = Inr (?M, s2)"
    unfolding machine_trap_handle_def Let_def l1 c(2) s2_def using c(1) by simp
  have e2: "s2 = s\<lparr>mtime_reads := n, mem := write64 (mem s) (?M + FRAME_MCAUSE) ?cm,
      csrs := (csrs s)\<lparr>c_mip := c_mip (csrs s) OR MIP_STIP\<rparr>, mtimecmp := 0xffffffffffffffff\<rparr>"
    by (simp add: s2_def s1_def s0_def store64_def csr_set_mip_def upd_csrs_def machine_write_mtimecmp_def)
  have f2: "machine_frame s2 = ?M" by (simp add: e2 machine_frame_def)
  have "(c_mip (csrs s) OR MIP_STIP) AND MIP_STIP = MIP_STIP" by (rule bit_word_eqI) (auto simp: bit_simps)
  then have p2: "supervisor_timer_pending s2" "sstatus s2 AND SSTATUS_SIE \<noteq> 0"
    using r' by (simp_all add: supervisor_timer_pending_def e2 csr_read_sie_def MIP_STIP_def SCAUSE_SUPERVISOR_TIMER_INTERRUPT_def)
  have a2: "\<not> threads_started s2" "\<not> reschedule_requested s2" "unat (machine_frame s2) mod 8 = 0" "unat f mod 8 = 0" "frames_apart f s2"
    "unat (mtime_at s2 (mtime_reads s2)) + 10000 < 2 ^ 64" "unat (next_compare s2) + 10000 < 2 ^ 64" "csr_read_stvec s2 = trap_entry_addr (link s2)"
    using r' clock f2 by (simp_all add: frames_apart_def) (simp_all add: e2 csr_read_stvec_def)
  obtain d x m where t: "supervisor_trap f pc ?cs 0 s2 = Some (Inr ((), s2\<lparr>
      mtime_reads := Suc (mtime_reads s2), ticks := ticks s2 + 1, next_compare := d, mtimecmp := d, sstatus := after_trap (sstatus s2),
      csrs := (csrs s2)\<lparr>c_mip := c_mip (csrs s2) AND NOT MIP_STIP, c_sepc := x, c_scause := ?cs, c_stval := 0\<rparr>, mem := m\<rparr>))"
    and d: "unat d = next_deadline (unat (mtime_at s2 (mtime_reads s2))) (unat (next_compare s2))" "mtime_at s2 (mtime_reads s2) < d"
    and m: "only_frames f s2 m"
    by (rule boot_timer_trap [OF a2])
  have take: "take_supervisor_timer f pc s2 = Some (Inr ((), s\<lparr>mtime_reads := Suc n, ticks := ticks s + 1, next_compare := d, mtimecmp := d,
      sstatus := after_trap (sstatus s), csrs := (csrs s)\<lparr>c_mip := (c_mip (csrs s) OR MIP_STIP) AND NOT MIP_STIP, c_sepc := x,
        c_scause := ?cs, c_stval := 0\<rparr>, mem := m\<rparr>))"
    using p2 t unfolding take_supervisor_timer_def unfolding e2 by simp
  have "wfi f pc s = take_supervisor_timer f pc s2"
    unfolding wfi_def n option.case Let_def s0_def [symmetric] f0 s1_def [symmetric] f1 m1 bindO_simps
    using np r'(6,7) by simp
  moreover have "only_frames f s m"
    using m f2 by (auto simp: only_frames_def boot_frames_def e2 frame_write_outside)
  moreover have "((c_mip (csrs s) OR MIP_STIP) AND NOT MIP_STIP) AND MIP_STIP = 0" by (rule bit_word_eqI) (auto simp: bit_simps)
  ultimately show ?thesis using d take unfolding e2 by (intro that) simp_all
qed

section \<open>The wait for the third tick\<close>

text \<open>
  After \<open>k\<close> interrupts: the last reading of the clock was the one before \<open>mtime_reads\<close>, and the deadline lies at most
  one interval after it.
\<close>

definition boot_ticked :: "u64 \<Rightarrow> nat \<Rightarrow> 'a traps_scheme \<Rightarrow> 'a traps_scheme \<Rightarrow> bool" where
  "boot_ticked f k s0 s \<longleftrightarrow> (\<exists>n d x y z w m. s = s0\<lparr>mtime_reads := Suc n, ticks := of_nat k, next_compare := d, mtimecmp := d,
      sstatus := (if k = 0 then sstatus s0 else after_trap (sstatus s0)),
      csrs := (csrs s0)\<lparr>c_mip := x, c_sepc := y, c_scause := z, c_stval := w\<rparr>, mem := m\<rparr> \<and>
    only_frames f s0 m \<and> x AND MIP_STIP = 0 \<and> mtime_at s0 n < d \<and> unat d \<le> unat (mtime_at s0 n) + 10000 \<and>
    unat (mtime_at s0 n) \<le> 2 ^ 62 + k * 2 ^ 42)"

lemma after_trap_idem: "after_trap (after_trap v) = after_trap v"
  unfolding after_trap_def by (rule bit_word_eqI) (auto simp: status_simps)

lemma after_trap_sie: "after_trap v AND SSTATUS_SIE \<noteq> 0 \<longleftrightarrow> v AND SSTATUS_SIE \<noteq> 0"
  unfolding status_test(1) after_trap_def by (simp add: status_simps)

lemma boot_ticked_step:
  fixes s0 s :: "'a traps_scheme"
  assumes r: "wfi_ready f s0" and run: "clock_runs (mtime_at s0)" and t: "boot_ticked f k s0 s" and k: "k < 3"
  obtains s' where "wfi f pc s = Some (Inr ((), s'))" and "boot_ticked f (Suc k) s0 s'"
proof -
  let ?st = "if k = 0 then sstatus s0 else after_trap (sstatus s0)" and ?clock = "mtime_at s0"
  obtain n d x y z w m where s: "s = s0\<lparr>mtime_reads := Suc n, ticks := of_nat k, next_compare := d, mtimecmp := d,
      sstatus := ?st, csrs := (csrs s0)\<lparr>c_mip := x, c_sepc := y, c_scause := z, c_stval := w\<rparr>, mem := m\<rparr>"
    and m: "only_frames f s0 m" and x: "x AND MIP_STIP = 0" and d: "?clock n < d" "unat d \<le> unat (?clock n) + 10000"
    and b: "unat (?clock n) \<le> 2 ^ 62 + k * 2 ^ 42"
    using t by (auto simp: boot_ticked_def)
  have fs: "mtime_at s = ?clock" "mtimecmp s = d" "next_compare s = d" "mtime_reads s = Suc n" "machine_frame s = machine_frame s0"
    by (simp_all add: s machine_frame_def)
  have b2: "unat (?clock n) \<le> 2 ^ 62 + 3 * 2 ^ 42" using b k by auto
  have "?st AND SSTATUS_SIE \<noteq> 0" using r after_trap_sie by (simp add: wfi_ready_def)
  then have rs: "wfi_ready f s"
    using r x fs(5) by (simp add: wfi_ready_def frames_apart_def machine_ready_def csr_read_mie_def csr_read_mtvec_def csr_read_stvec_def csr_read_sie_def)
      (simp add: s)
  have "unat d \<le> 2 ^ 63" using d(2) b2 by simp
  from clock_reaches_ok [OF run this, of "Suc n"] obtain j where j: "clock_reaches d ?clock (Suc n) = Some j" "d \<le> ?clock j"
    "j = Suc n \<or> unat (?clock j) \<le> unat d + 2 ^ 40" by blast
  have "unat (?clock (Suc n)) \<le> unat (?clock n) + 2 ^ 40" using run b2 by (simp add: clock_runs_def)
  then have bj: "unat (?clock j) \<le> 2 ^ 62 + Suc k * 2 ^ 42" using j(3) d(2) b by auto
  then have bj': "unat (?clock j) + 10000 < 2 ^ 64" using k by auto
  have cr: "clock_reaches (mtimecmp s) (mtime_at s) (mtime_reads s) = Some j" using j(1) by (simp add: fs)
  have c64: "unat (mtime_at s j) + 10000 < 2 ^ 64" "unat (next_compare s) + 10000 < 2 ^ 64" using bj' d(2) b2 by (simp_all add: fs)
  obtain d' x' y' m' where w: "wfi f pc s = Some (Inr ((), s\<lparr>mtime_reads := Suc j, ticks := ticks s + 1, next_compare := d', mtimecmp := d',
      sstatus := after_trap (sstatus s), csrs := (csrs s)\<lparr>c_mip := y', c_sepc := x',
        c_scause := MCAUSE_INTERRUPT OR SCAUSE_SUPERVISOR_TIMER_INTERRUPT, c_stval := 0\<rparr>, mem := m'\<rparr>))"
    and d': "unat d' = next_deadline (unat (mtime_at s j)) (unat (next_compare s))" "mtime_at s j < d'"
    and m': "only_frames f s m'" and y': "y' AND MIP_STIP = 0"
    by (rule wfi_ok [OF rs cr c64])
  have le: "unat d \<le> unat (?clock j)" using j(2) by (simp add: word_le_nat_alt)
  have "unat d + (unat (?clock j) - unat d) div 10000 * 10000 \<le> unat (?clock j)"
    using div_times_less_eq_dividend [of "unat (?clock j) - unat d" 10000] le by linarith
  then have dd: "unat d' \<le> unat (?clock j) + 10000" using le d'(1) by (simp add: fs next_deadline_def algebra_simps)
  have st: "after_trap (sstatus s) = after_trap (sstatus s0)" by (simp add: s after_trap_idem)
  have eq: "s\<lparr>mtime_reads := Suc j, ticks := ticks s + 1, next_compare := d', mtimecmp := d',
      sstatus := after_trap (sstatus s), csrs := (csrs s)\<lparr>c_mip := y', c_sepc := x',
        c_scause := MCAUSE_INTERRUPT OR SCAUSE_SUPERVISOR_TIMER_INTERRUPT, c_stval := 0\<rparr>, mem := m'\<rparr> =
      s0\<lparr>mtime_reads := Suc j, ticks := of_nat (Suc k), next_compare := d', mtimecmp := d',
      sstatus := (if Suc k = 0 then sstatus s0 else after_trap (sstatus s0)), csrs := (csrs s0)\<lparr>c_mip := y', c_sepc := x',
        c_scause := MCAUSE_INTERRUPT OR SCAUSE_SUPERVISOR_TIMER_INTERRUPT, c_stval := 0\<rparr>, mem := m'\<rparr>"
    unfolding st unfolding s by (simp add: add.commute)
  have out: "only_frames f s0 m'" using m m' fs(5) by (simp add: only_frames_def boot_frames_def) (simp add: s)
  have "boot_ticked f (Suc k) s0 (s\<lparr>mtime_reads := Suc j, ticks := ticks s + 1, next_compare := d', mtimecmp := d',
      sstatus := after_trap (sstatus s), csrs := (csrs s)\<lparr>c_mip := y', c_sepc := x',
        c_scause := MCAUSE_INTERRUPT OR SCAUSE_SUPERVISOR_TIMER_INTERRUPT, c_stval := 0\<rparr>, mem := m'\<rparr>)"
    unfolding boot_ticked_def eq by (intro exI conjI, rule refl) (use out y' d'(2) [unfolded fs(1)] dd bj in blast)+
  with w show ?thesis by (rule that)
qed

lemma wait_ok:
  fixes s0 s :: "'a traps_scheme"
  assumes r: "wfi_ready f s0" and run: "clock_runs (mtime_at s0)" and "boot_ticked f k s0 s" and "k \<le> 3"
  shows "\<exists>s'. wait_ticks 3 f pc s = Some (Inr ((), s')) \<and> boot_ticked f 3 s0 s'"
  using assms(3,4)
proof (induction "3 - k" arbitrary: k s)
  case 0
  then have k: "k = 3" by simp
  then have "timer_ticks s = 3" using 0 by (auto simp: boot_ticked_def timer_ticks_def)
  then show ?case using 0 k by (subst wait_ticks.simps) simp
next
  case (Suc n)
  then have k: "k < 3" by simp
  obtain s' where s': "wfi f pc s = Some (Inr ((), s'))" "boot_ticked f (Suc k) s0 s'"
    by (rule boot_ticked_step [OF r run Suc.prems(1) k])
  obtain s'' where s'': "wait_ticks 3 f pc s' = Some (Inr ((), s''))" "boot_ticked f 3 s0 s''"
    using Suc.hyps(1) [OF _ s'(2)] Suc.hyps(2) k by (metis Suc_diff_Suc Suc_leI Suc_inject)
  have "timer_ticks s = of_nat k" using Suc.prems(1) by (auto simp: boot_ticked_def timer_ticks_def)
  moreover have "(of_nat k :: u64) < 3" using k by (simp add: word_less_nat_alt unat_of_nat)
  ultimately show ?case using s'(1) s'' by (subst wait_ticks.simps) simp
qed

text \<open>The state that the machine-mode part hands over.\<close>

definition before_threads :: "u64 \<Rightarrow> 'a sched_scheme \<Rightarrow> bool" where
  "before_threads f s \<longleftrightarrow> \<not> threads_started s \<and> \<not> reschedule_requested s \<and> unat (machine_frame s) mod 8 = 0 \<and> unat f mod 8 = 0 \<and>
     frames_apart f s \<and> machine_ready s \<and> clock_runs (mtime_at s) \<and> unat (mtime_at s (mtime_reads s)) < 2 ^ 62"

section \<open>The heap within the kernel\<close>

definition empty_heap :: heap_vars where
  "empty_heap = \<lparr>hv_pools = map (\<lambda>n. \<lparr>hp_block_size = n, hp_pages = 0\<rparr>) heap_class_sizes, hv_pages = 0,
     hv_free_blocks_bytes = 0, hv_allocated_blocks_bytes = 0, hv_initialized = True\<rparr>"

lemma heap_init_boot: "on_heap (\<lambda>h. Some (heap_init h)) s = Some (Inr ((), s\<lparr>heap_vars := empty_heap\<rparr>))"
proof -
  have "heap_init h = Inr ((), h\<lparr>heap_pools := hv_pools empty_heap, heap_pages := 0, heap_free_blocks_bytes := 0,
      heap_allocated_blocks_bytes := 0, heap_initialized := True\<rparr>)" for h :: heap
    by (simp add: heap_init_def irq_masked_def irq_save_def csr_clear_sstatus_def irq_restore_masked Let_def empty_heap_def)
  then show ?thesis
    by (cases s) (simp add: on_heap_def heap_of_def with_heap_def empty_heap_def pages.defs heap.defs)
qed

section \<open>The boot\<close>

text \<open>How the kernel's state has changed when the scenario starts.\<close>

definition booted :: "u64 \<Rightarrow> 'a kernel_scheme \<Rightarrow> 'a kernel_scheme \<Rightarrow> bool" where
  "booted f s s' \<longleftrightarrow>
     timer_ticks s' = 3 \<and> mtimecmp s' = next_compare s' \<and> mtime_at s (mtime_reads s' - 1) < next_compare s' \<and>
     unat (next_compare s') \<le> unat (mtime_at s (mtime_reads s' - 1)) + 10000 \<and>
     c_stvec (csrs s') = trap_entry_addr (link s) \<and> c_sie (csrs s') = c_sie (csrs s) OR SIE_STIE \<and>
     sstatus s' = after_trap (sstatus s OR SSTATUS_SIE) \<and> satp s' = satp s \<and>
     heap_vars s' = empty_heap \<and> devices_ok s' \<and> dv_driver (devices s' 0) = (if accel_answers s then Some 0 else None) \<and>
     only_frames f s (mem s') \<and> link s' = link s \<and> config_scenario s' = config_scenario s \<and>
     pages_inv s' = pages_inv s \<and> allocated s' = allocated s \<and> free_pages s' = free_pages s \<and>
     kernel_space s' = kernel_space s \<and> user_tasks s' = user_tasks s \<and> threads s' = threads s \<and> threads_started s' = threads_started s"

lemma trap_init_ok:
  obtains c where "trap_init s = s\<lparr>csrs := (csrs s)\<lparr>c_stvec := trap_entry_addr (link s)\<rparr>, console := c\<rparr>"
proof -
  define z where "z = csr_write_stvec (trap_entry_addr (link s)) s"
  obtain c where c: "console_write ''trap: stvec='' z = z\<lparr>console := c\<rparr>" by (rule printsE [OF prints_write])
  let ?z = "z\<lparr>console := c\<rparr>"
  obtain d where d: "console_write [CHR 0x0A] (console_write_hex64 (csr_read_stvec ?z) ?z) = ?z\<lparr>console := d\<rparr>"
    by (rule printsE [OF prints_then [OF prints_write prints_hex]])
  have "trap_init s = ?z\<lparr>console := d\<rparr>" unfolding trap_init_def Let_def z_def [symmetric] c d ..
  then show ?thesis by (intro that [of d]) (simp add: z_def csr_write_stvec_def upd_csrs_def)
qed

lemma boot_steps:
  fixes s :: "'a kernel_scheme"
  assumes "before_threads (be_frame env) s"
  obtains n d x y z w m c where "supervisor_main env s = (let s = s\<lparr>trap_selftest_seen := 1, sstatus := after_trap (sstatus s OR SSTATUS_SIE),
        mtime_reads := Suc n, ticks := 3, next_compare := d, mtimecmp := d, mem := m, console := c,
        csrs := (csrs s)\<lparr>c_stvec := trap_entry_addr (link s), c_sie := c_sie (csrs s) OR SIE_STIE, c_mip := x, c_sepc := y, c_scause := z,
          c_stval := w\<rparr>, heap_vars := empty_heap\<rparr> in
      bindO (Some (device_init s)) (\<lambda>_ s. bindO (Some (driver_probe_all built_in_drivers s)) (\<lambda>_ s. scenario_run env s)))"
    and "mtime_at s n < d" and "unat d \<le> unat (mtime_at s n) + 10000" and "only_frames (be_frame env) s m"
proof -
  let ?f = "be_frame env"
  have al: "unat ?f mod 8 = 0" "unat (machine_frame s) mod 8 = 0" using assms by (simp_all add: before_threads_def)
  obtain c1 where c1: "console_write ''paging: satp='' s = s\<lparr>console := c1\<rparr>" by (rule printsE [OF prints_write])
  let ?s1 = "s\<lparr>console := c1\<rparr>"
  obtain c2 where c2: "println ''milestone 13: kernel paging'' (console_write [CHR 0x0A] (console_write_hex64 (csr_read_satp ?s1) ?s1)) =
      ?s1\<lparr>console := c2\<rparr>"
    by (rule printsE [OF prints_then [OF prints_println prints_then [OF prints_write prints_hex]]])
  obtain c3 where c3: "trap_init (?s1\<lparr>console := c2\<rparr>) = (?s1\<lparr>console := c2\<rparr>)\<lparr>csrs := (csrs (?s1\<lparr>console := c2\<rparr>))\<lparr>c_stvec :=
      trap_entry_addr (link (?s1\<lparr>console := c2\<rparr>))\<rparr>, console := c3\<rparr>"
    by (rule trap_init_ok)
  define s3 where "s3 = s\<lparr>csrs := (csrs s)\<lparr>c_stvec := trap_entry_addr (link s)\<rparr>, console := c3\<rparr>"
  have t3: "trap_init (?s1\<lparr>console := c2\<rparr>) = s3" unfolding c3 s3_def by simp
  obtain m4 c4 where s4: "trap_selftest ?f (be_selftest_pc env) s3 = Some (Inr ((), s3\<lparr>trap_selftest_seen := 1, mem := m4, console := c4\<rparr>))"
    and m4: "\<forall>a. 280 \<le> unat (a - ?f) \<longrightarrow> m4 a = mem s3 a"
    by (rule trap_selftest_ok [OF al(1)])
  define s5 where "s5 = s3\<lparr>trap_selftest_seen := 1, mem := m4, console := c4\<rparr>"
  obtain c5 where c5: "println ''milestone 2: trap vector setup'' s5 = s5\<lparr>console := c5\<rparr>" by (rule printsE [OF prints_println])
  define s6 where "s6 = s5\<lparr>console := c5\<rparr>"
  have f6: "machine_frame s6 = machine_frame s" by (simp add: s6_def s5_def s3_def machine_frame_def)
  let ?x7 = "c_mip (csrs s) AND NOT MIP_STIP"
  obtain m7 c7 where t7: "timer_init s6 = Inr ((), s6\<lparr>ticks := 0, mtime_reads := Suc (mtime_reads s6),
      next_compare := mtime_at s6 (mtime_reads s6) + TIMER_INTERVAL_CYCLES, mtimecmp := mtime_at s6 (mtime_reads s6) + TIMER_INTERVAL_CYCLES,
      csrs := (csrs s6)\<lparr>c_mip := c_mip (csrs s6) AND NOT MIP_STIP, c_sie := c_sie (csrs s6) OR SIE_STIE\<rparr>, sstatus := sstatus s6 OR SSTATUS_SIE, mem := m7, console := c7\<rparr>)"
    and m7: "\<forall>a. 280 \<le> unat (a - machine_frame s6) \<longrightarrow> m7 a = mem s6 a"
    by (rule timer_init_ok [of s6]) (use al(2) f6 in auto)
  define d7 where "d7 = mtime_at s (mtime_reads s) + TIMER_INTERVAL_CYCLES"
  define s7 where "s7 = s\<lparr>trap_selftest_seen := 1, sstatus := sstatus s OR SSTATUS_SIE, mtime_reads := Suc (mtime_reads s), ticks := 0,
      next_compare := d7, mtimecmp := d7, mem := m7, console := c7,
      csrs := (csrs s)\<lparr>c_stvec := trap_entry_addr (link s), c_sie := c_sie (csrs s) OR SIE_STIE, c_mip := ?x7\<rparr>\<rparr>"
  have t7': "timer_init s6 = Inr ((), s7)" unfolding t7 unfolding s6_def s5_def s3_def s7_def d7_def by simp
  have o7: "only_frames ?f s m7"
    using m4 m7 unfolding f6 by (auto simp: only_frames_def boot_frames_def s6_def s5_def s3_def)
  have clock: "clock_runs (mtime_at s7)" "unat (mtime_at s (mtime_reads s)) < 2 ^ 62"
    using assms by (simp_all add: before_threads_def s7_def)
  have d7: "mtime_at s (mtime_reads s) < d7" "unat d7 = unat (mtime_at s (mtime_reads s)) + 10000"
    using clock(2) by (simp_all add: d7_def TIMER_INTERVAL_CYCLES_def unat_word_ariths word_less_nat_alt)
  have set: "(v OR SIE_STIE) AND SIE_STIE \<noteq> 0" "(v OR SSTATUS_SIE) AND SSTATUS_SIE \<noteq> 0" "?x7 AND MIP_STIP = 0" for v
  proof -
    have "(v OR SIE_STIE) AND SIE_STIE = SIE_STIE" "(v OR SSTATUS_SIE) AND SSTATUS_SIE = SSTATUS_SIE"
      by (rule bit_word_eqI; auto simp: bit_simps)+
    then show "(v OR SIE_STIE) AND SIE_STIE \<noteq> 0" "(v OR SSTATUS_SIE) AND SSTATUS_SIE \<noteq> 0"
      by (simp_all add: SIE_STIE_def SSTATUS_SIE_def)
    show "?x7 AND MIP_STIP = 0" by (rule bit_word_eqI) (auto simp: bit_simps)
  qed
  have r7: "wfi_ready ?f s7"
    using assms set by (simp add: wfi_ready_def before_threads_def s7_def machine_frame_def frames_apart_def machine_ready_def csr_read_mie_def
        csr_read_mtvec_def csr_read_stvec_def csr_read_sie_def)
  have k7: "boot_ticked ?f 0 s7 s7"
    unfolding boot_ticked_def
    by (rule exI [of _ "mtime_reads s"], rule exI [of _ d7], rule exI [of _ ?x7], rule exI [of _ "c_sepc (csrs s)"],
        rule exI [of _ "c_scause (csrs s)"], rule exI [of _ "c_stval (csrs s)"], rule exI [of _ m7])
      (use d7 clock(2) set(3) in \<open>simp add: s7_def only_frames_def\<close>)
  obtain s8 where w8: "wait_ticks 3 ?f (be_wfi_pc env) s7 = Some (Inr ((), s8))" and k8: "boot_ticked ?f 3 s7 s8"
    using wait_ok [OF r7 clock(1) k7] by auto
  obtain n d x y z w m where s8: "s8 = s7\<lparr>mtime_reads := Suc n, ticks := of_nat 3, next_compare := d, mtimecmp := d,
      sstatus := after_trap (sstatus s7), csrs := (csrs s7)\<lparr>c_mip := x, c_sepc := y, c_scause := z, c_stval := w\<rparr>, mem := m\<rparr>"
    and m8: "only_frames ?f s7 m" and d8: "mtime_at s7 n < d" "unat d \<le> unat (mtime_at s7 n) + 10000"
    using k8 by (auto simp: boot_ticked_def)
  obtain c9 where c9: "console_write ''timer: observed '' s8 = s8\<lparr>console := c9\<rparr>" by (rule printsE [OF prints_write])
  let ?s9 = "s8\<lparr>console := c9\<rparr>"
  obtain c where c: "println ''milestone 2: timer interrupt setup'' (println '' ticks'' (console_write_hex64 (timer_ticks ?s9) ?s9)) = ?s9\<lparr>console := c\<rparr>"
    by (rule printsE [OF prints_then [OF prints_println prints_then [OF prints_println prints_hex]]])
  let ?t = "s\<lparr>trap_selftest_seen := 1, sstatus := after_trap (sstatus s OR SSTATUS_SIE),
        mtime_reads := Suc n, ticks := 3, next_compare := d, mtimecmp := d, mem := m, console := c,
        csrs := (csrs s)\<lparr>c_stvec := trap_entry_addr (link s), c_sie := c_sie (csrs s) OR SIE_STIE, c_mip := x, c_sepc := y, c_scause := z,
          c_stval := w\<rparr>, heap_vars := empty_heap\<rparr>"
  have t9: "(?s9\<lparr>console := c\<rparr>)\<lparr>heap_vars := empty_heap\<rparr> = ?t" unfolding s8 s7_def by simp
  have "supervisor_main env s = bindO (Some (device_init ?t)) (\<lambda>_ s. bindO (Some (driver_probe_all built_in_drivers s)) (\<lambda>_ s. scenario_run env s))"
    unfolding supervisor_main_def Let_def c1 c2 t3 s4 bindO_simps s5_def [symmetric] c5 s6_def [symmetric] t7' w8 c9 c heap_init_boot t9 ..
  moreover have "mtime_at s n < d" "unat d \<le> unat (mtime_at s n) + 10000" using d8 by (simp_all add: s7_def)
  moreover have "only_frames ?f s m" using m8 o7 unfolding s7_def by (simp add: only_frames_def boot_frames_def machine_frame_def)
  ultimately show ?thesis by (intro that [where n = n and d = d and m = m and c = c and x = x and y = y and z = z and w = w]) (simp_all add: Let_def)
qed

text \<open>What the probe leaves alone, and what decides that the device answers.\<close>

lemma probe_bound_kernel:
  fixes s :: "'a kernel_scheme"
  shows "ticks (probe_bound s) = ticks s" "mtimecmp (probe_bound s) = mtimecmp s" "next_compare (probe_bound s) = next_compare s"
    "mtime_reads (probe_bound s) = mtime_reads s"
    "csrs (probe_bound s) = csrs s" "sstatus (probe_bound s) = sstatus s" "satp (probe_bound s) = satp s"
    "heap_vars (probe_bound s) = heap_vars s" "config_scenario (probe_bound s) = config_scenario s"
    "pages_inv (probe_bound s) = pages_inv s" "allocated (probe_bound s) = allocated s" "free_pages (probe_bound s) = free_pages s"
    "kernel_space (probe_bound s) = kernel_space s" "user_tasks (probe_bound s) = user_tasks s"
    "threads_started (probe_bound s) = threads_started s"
  by (simp_all add: probe_bound_def probe_reset_def pages_inv_def used_pages_def allocated_def page_addr_from_index_def)

lemma answers_frame:
  fixes s :: "'a kernel_scheme" and t :: "'b accel_scheme"
  assumes "only_frames f s (mem t) \<and> link t = link s" and "\<forall>i<4. accel_mmio_addr (link s) + ACCEL_REG_ID + of_nat i \<notin> boot_frames f s"
  shows "accel_answers t = accel_answers s"
proof -
  have "read32 (mem t) (accel_mmio_addr (link s) + ACCEL_REG_ID) = read32 (mem s) (accel_mmio_addr (link s) + ACCEL_REG_ID)"
    by (rule cell32.rd_local) (use assms in \<open>simp add: only_frames_def\<close>)
  then show ?thesis using assms by (simp add: accel_answers_def load32_def)
qed

text \<open>
  C23: The boot reaches its scenario. When the machine-mode part hands over with its traps set up as \<open>machine_init\<close> does
  (\<open>machine_init_ready\<close>), the scheduler not started, frames that are aligned and apart, a clock that runs, and the
  device's identification register outside the frames, \<open>supervisor_main\<close> does not panic and does not wait for ever: each
  of its waits ends by the deadline that the code has programmed, with interrupts that the code has enabled. It runs
  the chosen scenario in a state with three ticks counted, the next deadline programmed within one interval after the
  last reading of the clock and still ahead of it, the trap vector set, timer interrupts enabled, an empty heap,
  the device registered and bound to its driver exactly if it answers, and memory unchanged outside the two trap frames.
\<close>

theorem boot_reaches_scenario:
  fixes s :: "'a kernel_scheme"
  assumes "before_threads (be_frame env) s" and "\<not> devices_initialized s" and "accel_waiters_addr (link s) \<noteq> 0"
    and "\<forall>i<4. accel_mmio_addr (link s) + ACCEL_REG_ID + of_nat i \<notin> boot_frames (be_frame env) s"
  shows "\<exists>s'. supervisor_main env s = scenario_run env s' \<and> booted (be_frame env) s s'"
proof -
  obtain n d x y z w m c where run: "supervisor_main env s = (let s = s\<lparr>trap_selftest_seen := 1, sstatus := after_trap (sstatus s OR SSTATUS_SIE),
        mtime_reads := Suc n, ticks := 3, next_compare := d, mtimecmp := d, mem := m, console := c,
        csrs := (csrs s)\<lparr>c_stvec := trap_entry_addr (link s), c_sie := c_sie (csrs s) OR SIE_STIE, c_mip := x, c_sepc := y, c_scause := z,
          c_stval := w\<rparr>, heap_vars := empty_heap\<rparr> in
      bindO (Some (device_init s)) (\<lambda>_ s. bindO (Some (driver_probe_all built_in_drivers s)) (\<lambda>_ s. scenario_run env s)))"
    and d: "mtime_at s n < d" "unat d \<le> unat (mtime_at s n) + 10000" and m: "only_frames (be_frame env) s m"
    by (rule boot_steps [OF assms(1)])
  define t where "t = s\<lparr>trap_selftest_seen := 1, sstatus := after_trap (sstatus s OR SSTATUS_SIE),
        mtime_reads := Suc n, ticks := 3, next_compare := d, mtimecmp := d, mem := m, console := c,
        csrs := (csrs s)\<lparr>c_stvec := trap_entry_addr (link s), c_sie := c_sie (csrs s) OR SIE_STIE, c_mip := x, c_sepc := y, c_scause := z,
          c_stval := w\<rparr>, heap_vars := empty_heap\<rparr>"
  define t0 where "t0 = t\<lparr>devices := (devices t)(0 := \<lparr>dv_resource = Some (platform_accel_resource t), dv_driver = None\<rparr>),
    device_count := 1, devices_initialized := True\<rparr>"
  have "\<not> devices_initialized t" using assms(2) by (simp add: t_def)
  from device_init_first [OF this] have i: "device_init t = Inr ((), t0)" by (simp add: t0_def)
  have ok: "devices_ok t0" "dv_driver (devices t0 0) = None" "device_init t0 = Inr ((), t0)"
    by (simp_all add: t0_def devices_ok_def platform_accel_resource_def device_init_ready)
  have f0: "link t0 = link s" "mem t0 = m" by (simp_all add: t0_def t_def)
  have ans: "accel_answers t0 = accel_answers s" using answers_frame [OF _ assms(4), of t0] m f0 by simp
  have w: "accel_waiters_addr (link t0) \<noteq> 0" using assms(3) f0(1) by simp
  note p = probe_all_result [OF ok(3,1,2) w]
  have run': "supervisor_main env s = scenario_run env (probe_bound t0)"
    unfolding run Let_def t_def [symmetric] i bindO_simps p ..
  have k: "devices_ok (probe_bound t0)" "dv_driver (devices (probe_bound t0) 0) = (if accel_answers s then Some 0 else None)"
    "mem (probe_bound t0) = m" "link (probe_bound t0) = link s" "threads (probe_bound t0) = threads s"
    using ok f0 ans by (simp_all add: probe_bound_fields) (simp add: t0_def t_def)
  have "booted (be_frame env) s (probe_bound t0)"
    unfolding booted_def k probe_bound_kernel timer_ticks_def using d m k(1)
    by (simp add: t0_def t_def pages_inv_def used_pages_def allocated_def page_addr_from_index_def)
  with run' show ?thesis by blast
qed

lemma demo_clock: "clock_runs of_nat"
  unfolding clock_runs_def
proof (intro allI impI)
  fix n :: nat
  assume l: "unat (of_nat n :: u64) < 2 ^ 63"
  have "unat (of_nat n + 1 :: u64) = unat (of_nat n :: u64) + 1" using l by (subst unat_add_lem [THEN iffD1]) simp_all
  then have "unat (of_nat (Suc n) :: u64) = unat (of_nat n :: u64) + 1" by (simp add: add.commute)
  then show "(of_nat n :: u64) \<le> of_nat (Suc n) \<and> unat (of_nat (Suc n) :: u64) \<le> unat (of_nat n :: u64) + 2 ^ 40 \<and>
      (\<exists>m>n. (of_nat n :: u64) < of_nat m)"
    by (intro conjI exI [of _ "Suc n"]) (simp_all only: word_le_nat_alt word_less_nat_alt, simp_all)
qed

definition demo_kernel :: kernel where
  "demo_kernel = scenarios.extend (traps.extend (demo_traps (demo_sched\<lparr>threads_started := False, reschedule_requested := False,
       mtime_at := of_nat, csrs := (csrs demo_sched)\<lparr>c_mie := MIE_MTIE, c_mtvec := 0x80000300, c_mideleg := 0x20\<rparr>, mem := (\<lambda>_. 0)(0x80420000 := 0x01, 0x80420001 := 0x50, 0x80420002 := 0xc3, 0x80420003 := 0xac)\<rparr>))
       (scenarios.fields 0 0 0 0 False 0 0 0 False False False False 0 0 0 0 0 False False False False False 0 0 0 False False 0 0))
     (kernel.fields \<lparr>hv_pools = [], hv_pages = 0, hv_free_blocks_bytes = 0, hv_allocated_blocks_bytes = 0, hv_initialized = False\<rparr> 0)"

definition demo_boot_env :: boot_env where
  "demo_boot_env = \<lparr>be_image = (\<lambda>_. 0), be_frame = 0x80418000, be_selftest_pc = 0, be_fault_load_pc = 0, be_wfi_pc = 0,
     be_space = \<lparr>vm_root = 0\<rparr>\<rparr>"

theorem boot_reaches_scenario_witness:
  "\<exists>s'. supervisor_main demo_boot_env demo_kernel = scenario_run demo_boot_env s' \<and> timer_ticks s' = 3 \<and>
     dv_driver (devices s' 0) = Some 0 \<and> heap_vars s' = empty_heap"
proof -
  note d = demo_kernel_def scenarios.defs traps.defs kernel.defs demo_traps_def sched.defs
  have l: "link demo_kernel = demo_link" by (simp add: d)
  have mf: "machine_frame demo_kernel = 0x8040fee0" by (simp add: machine_frame_def l demo_link_def)
  have "before_threads (be_frame demo_boot_env) demo_kernel"
    unfolding before_threads_def
  proof (intro conjI)
    show "frames_apart (be_frame demo_boot_env) demo_kernel"
      unfolding frames_apart_def mf
    proof (intro allI impI)
      fix a :: u64
      assume "unat (a - be_frame demo_boot_env) < 280"
      then have k: "unat (a - 0x80418000) < 280" by (simp add: demo_boot_env_def)
      define k where "k = unat (a - 0x80418000)"
      have k: "a = 0x80418000 + of_nat k" "k < 280" using k by (simp_all add: k_def)
      have "unat (a - 0x8040fee0) = unat (0x8120 + of_nat k :: u64)" by (simp add: k(1))
      also have "\<dots> = 0x8120 + k" using k(2) by (simp add: unat_word_ariths unat_of_nat)
      finally show "280 \<le> unat (a - 0x8040fee0)" by simp
    qed
    show "machine_ready demo_kernel"
      by (simp add: machine_ready_def l demo_link_def csr_read_mie_def csr_read_mtvec_def SCAUSE_SUPERVISOR_TIMER_INTERRUPT_def)
        (simp add: d MIE_MTIE_def)
    show "clock_runs (mtime_at demo_kernel)" using demo_clock by (simp add: d)
  qed (simp_all add: mf demo_boot_env_def, simp_all add: d, simp add: demo_sched_def)
  moreover have "\<not> devices_initialized demo_kernel" by (simp add: d)
  moreover have "accel_waiters_addr (link demo_kernel) \<noteq> 0" by (simp add: l demo_link_def)
  moreover have "accel_mmio_addr (link demo_kernel) + ACCEL_REG_ID + of_nat i \<notin> boot_frames (be_frame demo_boot_env) demo_kernel"
    if "i < 4" for i
    using that by (simp add: boot_frames_def mf l demo_link_def accel_regs demo_boot_env_def unat_word_ariths unat_of_nat)
  ultimately obtain s' where "supervisor_main demo_boot_env demo_kernel = scenario_run demo_boot_env s'"
    "booted (be_frame demo_boot_env) demo_kernel s'"
    using boot_reaches_scenario [of demo_boot_env demo_kernel] by blast
  moreover have "accel_answers demo_kernel"
    by (simp add: accel_answers_def load32_def read32_def l demo_link_def accel_regs ACCEL_DEVICE_ID_VALUE_def) (simp add: d)
  ultimately show ?thesis by (auto simp: booted_def)
qed

end
