(* ===== verification/User_Programs.thy ===== *)
theory User_Programs
  imports Syscall_Spec
begin

text \<open>
  The programs that run in user mode: the call wrappers of \<^verbatim>\<open>user/runtime.c\<close>, the programs under
  \<^verbatim>\<open>user/programs\<close>, and their execution against the kernel of the other theories.
\<close>

section \<open>Programs\<close>

text \<open>
  A program computes on the memory of its address space until it executes \<open>ecall\<close> with a number and the arguments
  it loads into \<open>a0\<close>, \<open>a1\<close> and so on; it goes on with the \<open>a0\<close> and the memory that it finds then. It ends by
  returning or by looping for ever. A local array is an address on the user stack.
\<close>

datatype 'r uprog = Ret 'r memory | Ecall u64 "u64 list" memory "u64 \<Rightarrow> memory \<Rightarrow> 'r uprog" | Loops

primrec ubind :: "'r uprog \<Rightarrow> ('r \<Rightarrow> memory \<Rightarrow> 'q uprog) \<Rightarrow> 'q uprog" where
  "ubind (Ret r m) k = k r m"
| "ubind (Ecall nr args m c) k = Ecall nr args m (\<lambda>a0 m. ubind (c a0 m) k)"
| "ubind Loops k = Loops"

definition user_syscall0 :: "u64 \<Rightarrow> memory \<Rightarrow> u64 uprog" where
  "user_syscall0 nr m = Ecall nr [0] m Ret"

definition user_syscall1 :: "u64 \<Rightarrow> u64 \<Rightarrow> memory \<Rightarrow> u64 uprog" where
  "user_syscall1 nr arg0 m = Ecall nr [arg0] m Ret"

definition user_syscall4 :: "u64 \<Rightarrow> u64 \<Rightarrow> u64 \<Rightarrow> u64 \<Rightarrow> u64 \<Rightarrow> memory \<Rightarrow> u64 uprog" where
  "user_syscall4 nr arg0 arg1 arg2 arg3 m = Ecall nr [arg0, arg1, arg2, arg3] m Ret"

definition user_exit :: "u64 \<Rightarrow> memory \<Rightarrow> 'r uprog" where
  "user_exit code m = ubind (user_syscall1 USER_SYSCALL_EXIT code m) (\<lambda>_ _. Loops)"

definition user_yield :: "memory \<Rightarrow> u64 uprog" where
  "user_yield m = user_syscall0 USER_SYSCALL_YIELD m"

definition user_noop :: "memory \<Rightarrow> u64 uprog" where
  "user_noop m = user_syscall0 USER_SYSCALL_NOOP m"

definition user_sleep :: "u64 \<Rightarrow> memory \<Rightarrow> u64 uprog" where
  "user_sleep n m = user_syscall1 USER_SYSCALL_SLEEP n m"

text \<open>The conversion of the result to \<open>int\<close>.\<close>

definition int_of_result :: "u64 \<Rightarrow> int" where
  "int_of_result r = sint (ucast r :: 32 word)"

definition user_accel_memset :: "u64 \<Rightarrow> u32 \<Rightarrow> u32 \<Rightarrow> u64 \<Rightarrow> memory \<Rightarrow> int uprog" where
  "user_accel_memset dst len v timeout_ticks m =
     ubind (user_syscall4 USER_SYSCALL_ACCEL_MEMSET dst (ucast len) (ucast v) timeout_ticks m) (\<lambda>result m.
     Ret (int_of_result result) m)"

text \<open>The entry code in assembly: the value that \<open>user_main\<close> returns is the exit code.\<close>

definition user_start :: "int uprog \<Rightarrow> 'r uprog" where
  "user_start user_main = ubind user_main (\<lambda>r m. user_exit (sext64 r) m)"

text \<open>The loop that looks for a byte with another value.\<close>

definition buffer_holds :: "u64 \<Rightarrow> nat \<Rightarrow> u8 \<Rightarrow> memory \<Rightarrow> bool" where
  "buffer_holds buffer n v m \<longleftrightarrow> list_all (\<lambda>i. m (buffer + of_nat i) = v) [0..<n]"

definition accelerator_main :: "u64 \<Rightarrow> memory \<Rightarrow> int uprog" where
  "accelerator_main buffer m =
     (let m = fill_bytes m buffer 0 64 in
      ubind (user_accel_memset buffer 64 0xa5 1 m) (\<lambda>timeout_result m.
      if timeout_result \<noteq> USER_ACCEL_ERR_TIMEOUT then Ret 1 m
      else if \<not> buffer_holds buffer 64 0 m then Ret 2 m
      else
      ubind (user_accel_memset buffer 64 0x5a 100 m) (\<lambda>result m.
      if result \<noteq> USER_ACCEL_OK then Ret 3 m
      else if \<not> buffer_holds buffer 64 0x5a m then Ret 4 m
      else Ret 0 m)))"

text \<open>The iterations that are left, with the value of the next one.\<close>

primrec benchmark_accelerator_iterations :: "u64 \<Rightarrow> nat \<Rightarrow> u32 \<Rightarrow> memory \<Rightarrow> int uprog" where
  "benchmark_accelerator_iterations buffer 0 iteration m = Ret 0 m"
| "benchmark_accelerator_iterations buffer (Suc n) iteration m =
     (let v = ucast (0x31 + iteration) :: u8;
          m = fill_bytes m buffer 0 64 in
      ubind (user_accel_memset buffer 64 (ucast v) 100 m) (\<lambda>result m.
      if result \<noteq> USER_ACCEL_OK then Ret 1 m
      else if \<not> buffer_holds buffer 64 v m then Ret 2 m
      else benchmark_accelerator_iterations buffer n (iteration + 1) m))"

definition benchmark_accelerator_main :: "u64 \<Rightarrow> memory \<Rightarrow> int uprog" where
  "benchmark_accelerator_main buffer m = benchmark_accelerator_iterations buffer 1 0 m"

primrec benchmark_syscall_iterations :: "nat \<Rightarrow> memory \<Rightarrow> int uprog" where
  "benchmark_syscall_iterations 0 m = Ret 0 m"
| "benchmark_syscall_iterations (Suc n) m =
     ubind (user_noop m) (\<lambda>r m. if r \<noteq> 0 then Ret 1 m else benchmark_syscall_iterations n m)"

definition benchmark_syscall_main :: "memory \<Rightarrow> int uprog" where
  "benchmark_syscall_main m = benchmark_syscall_iterations 64 m"

definition runtime_main :: "memory \<Rightarrow> int uprog" where
  "runtime_main m =
     ubind (user_yield m) (\<lambda>r m. if r \<noteq> 0 then Ret 1 m
     else ubind (user_sleep 2 m) (\<lambda>r m. if r \<noteq> 0 then Ret 2 m
     else Ret 0 m))"

definition runtime_tracing_main :: "u64 \<Rightarrow> memory \<Rightarrow> int uprog" where
  "runtime_tracing_main buffer m =
     (let m = fill_bytes m buffer 0 64 in
      ubind (user_yield m) (\<lambda>r m. if r \<noteq> 0 then Ret 1 m
      else ubind (user_sleep 2 m) (\<lambda>r m. if r \<noteq> 0 then Ret 2 m
      else ubind (user_accel_memset buffer 64 0xa5 1 m) (\<lambda>timeout_result m.
      if timeout_result \<noteq> USER_ACCEL_ERR_TIMEOUT then Ret 3 m
      else if \<not> buffer_holds buffer 64 0 m then Ret 4 m
      else ubind (user_accel_memset buffer 64 0x3d 100 m) (\<lambda>result m.
      if result \<noteq> USER_ACCEL_OK then Ret 5 m
      else if \<not> buffer_holds buffer 64 0x3d m then Ret 6 m
      else Ret 0 m)))))"

definition USER_NEG_UNKNOWN_SYSCALL :: u64 where "USER_NEG_UNKNOWN_SYSCALL = 0xffff"
definition USER_NEG_CODE_BASE :: u64 where "USER_NEG_CODE_BASE = 0x1000"
definition USER_NEG_UNMAPPED_VA :: u64 where "USER_NEG_UNMAPPED_VA = 0x2000"
definition USER_NEG_WRAP_VA :: u64 where "USER_NEG_WRAP_VA = 0xffffffffffffffff - 3"

definition user_negative_syscall0 :: "u64 \<Rightarrow> memory \<Rightarrow> u64 uprog" where
  "user_negative_syscall0 nr m = Ecall nr [0] m Ret"

definition expect_result :: "int \<Rightarrow> int \<Rightarrow> int \<Rightarrow> int" where
  "expect_result actual expected code = (if actual = expected then 0 else code)"

text \<open>A call whose unexpected result the program returns.\<close>

definition expects :: "int uprog \<Rightarrow> int \<Rightarrow> int \<Rightarrow> (memory \<Rightarrow> int uprog) \<Rightarrow> int uprog" where
  "expects call expected code k =
     ubind call (\<lambda>actual m. let result = expect_result actual expected code in if result \<noteq> 0 then Ret result m else k m)"

definition syscall_negative_main :: "u64 \<Rightarrow> memory \<Rightarrow> int uprog" where
  "syscall_negative_main buffer m =
     (let m = fill_bytes m buffer 0 64 in
      expects (ubind (user_negative_syscall0 USER_NEG_UNKNOWN_SYSCALL m) (\<lambda>r m. Ret (int_of_result r) m)) USER_SYSCALL_ERR_UNKNOWN 1 (\<lambda>m.
      expects (user_accel_memset 0 64 0x11 100 m) USER_ACCEL_ERR_INVALID 2 (\<lambda>m.
      expects (user_accel_memset buffer 0 0x22 100 m) USER_ACCEL_ERR_INVALID 3 (\<lambda>m.
      expects (user_accel_memset buffer (ucast USER_ACCEL_MEMSET_MAX_LEN + 1) 0x33 100 m) USER_ACCEL_ERR_INVALID 4 (\<lambda>m.
      expects (user_accel_memset USER_NEG_UNMAPPED_VA 1 0x44 100 m) USER_ACCEL_ERR_INVALID 5 (\<lambda>m.
      expects (user_accel_memset USER_NEG_CODE_BASE 1 0x55 100 m) USER_ACCEL_ERR_INVALID 6 (\<lambda>m.
      expects (user_accel_memset USER_NEG_WRAP_VA 8 0x66 100 m) USER_ACCEL_ERR_INVALID 7 (\<lambda>m.
      expects (user_accel_memset buffer 64 0xa5 1 m) USER_ACCEL_ERR_TIMEOUT 8 (\<lambda>m.
      if \<not> buffer_holds buffer 64 0 m then Ret 9 m
      else expects (user_accel_memset buffer 64 0x5a 100 m) USER_ACCEL_OK 10 (\<lambda>m.
      if \<not> buffer_holds buffer 64 0x5a m then Ret 11 m
      else Ret 0 m))))))))))"

section \<open>Running a program on the kernel\<close>

text \<open>
  A user \<open>ecall\<close> at \<open>pc\<close> saves the registers in the task's trap context, where the status shows user mode already. Of
  the words that the trap entry writes these are the ones the kernel reads.
\<close>

definition arg_registers :: "u64 list" where
  "arg_registers = [FRAME_A0, FRAME_A1, FRAME_A2, FRAME_A3]"

definition user_trap :: "u64 \<Rightarrow> u64 \<Rightarrow> u64 \<Rightarrow> u64 list \<Rightarrow> 'a hw_scheme \<Rightarrow> 'a hw_scheme" where
  "user_trap frame pc nr args s =
     store64 (frame + FRAME_MCAUSE) MCAUSE_ECALL_U_MODE (store64 (frame + FRAME_MEPC) pc (store64 (frame + FRAME_A7) nr
       (fold (\<lambda>(reg, v). store64 (frame + reg) v) (zip arg_registers args) s)))"

text \<open>
  The first \<open>n\<close> calls of a program that the kernel answers at once: the trap handler goes back to the trampoline, and
  the program goes on with the \<open>a0\<close> of the frame. Such calls leave the user's memory alone. \<open>pc k\<close> is the address of the
  call with \<open>k\<close> calls to follow. \<open>None\<close> if a call does not come back at once.
\<close>

fun run_calls :: "u64 \<Rightarrow> (nat \<Rightarrow> u64) \<Rightarrow> nat \<Rightarrow> 'r uprog \<Rightarrow> 'a traps_scheme \<Rightarrow> ('r uprog \<times> 'a traps_scheme) option" where
  "run_calls frame pc (Suc n) (Ecall nr args m k) s =
     (case trap_handle_user frame (user_trap frame (pc n) nr args s) of
        Some (Inr (Inr (Userret _ _ _), s)) \<Rightarrow> run_calls frame pc n (k (load64 (frame + FRAME_A0) s) m) s
      | _ \<Rightarrow> None)"
| "run_calls frame pc n p s = Some (p, s)"

end
