(* ===== verification/User_Run.thy ===== *)
theory User_Run
  imports User_Programs
begin

text \<open>
  Programs running on the kernel: a call that the kernel answers at once brings the program back with the answer in
  \<open>a0\<close>, and so whole runs of such calls can be followed.
\<close>

section \<open>A task that runs\<close>

text \<open>\<open>M\<close> is what the page table of the running task maps.\<close>

definition task_runs :: "u64 set \<Rightarrow> tid_t \<Rightarrow> u64 \<Rightarrow> (u64 \<Rightarrow> (u64 \<times> u64) option) \<Rightarrow> 'a sched_scheme \<Rightarrow> bool" where
  "task_runs Q c frame M s \<longleftrightarrow> user_running Q c frame s \<and>
     vm_mapping (vm_root (ut_address_space (task_at s (th_user_task (threads s c))))) s = M"

lemma task_runs_store:
  fixes s :: "'a sched_scheme"
  assumes t: "task_runs Q c frame M s" and off: "unat off < 4096" "unat off mod 8 = 0" "off \<noteq> FRAME_MSTATUS"
  shows "task_runs Q c frame M (store64 (frame + off) v s)"
proof -
  let ?s = "store64 (frame + off) v s" and ?root = "vm_root (ut_address_space (task_at s (th_user_task (threads s c))))"
  have u: "user_running Q c frame s" and m: "vm_mapping ?root s = M" using t by (simp_all add: task_runs_def)
  note f = user_running_frames [OF u]
  have ms: "mem ?s = write64 (mem s) (frame + off) v" by (simp add: store64_def)
  have ag: "agree_on (pt_tables (mem s) ?root) (mem s) (mem ?s)"
    unfolding ms by (rule agree_on_mono [OF store_in_page [OF f(1) off(1,2)]]) (use f(2) in auto)
  have p: "pages_inv ?s = pages_inv s" "allocated ?s = allocated s"
    by (simp_all add: store64_def pages_inv_def used_pages_def allocated_def page_addr_from_index_def)
  have inv: "pages_inv s" using u by (simp add: user_running_def task_owns_def Let_def)
  have "vm_mapping ?root ?s = vm_mapping ?root s"
    using vm_inv_mem_cong [OF conjunct1 [OF f(2) [OF refl]] ag, unfolded p, OF inv subset_refl] by simp
  then show ?thesis using user_running_store [OF u off] m by (simp add: task_runs_def store64_def task_at_def)
qed

text \<open>The registers of the frame that a call uses.\<close>

lemma frame_register:
  "off \<in> {FRAME_A0, FRAME_A1, FRAME_A2, FRAME_A3, FRAME_A7, FRAME_MEPC, FRAME_MCAUSE} \<Longrightarrow>
     unat off < 4096 \<and> unat off mod 8 = 0 \<and> off \<noteq> FRAME_MSTATUS"
  by (auto simp: FRAME_A0_def FRAME_A1_def FRAME_A2_def FRAME_A3_def FRAME_A7_def FRAME_MEPC_def FRAME_MCAUSE_def FRAME_MSTATUS_def)

lemma load_register:
  assumes "unat frame mod 4096 = 0" and "a \<in> {FRAME_A0, FRAME_A1, FRAME_A2, FRAME_A3, FRAME_A7, FRAME_MEPC, FRAME_MCAUSE}"
    and "b \<in> {FRAME_A0, FRAME_A1, FRAME_A2, FRAME_A3, FRAME_A7, FRAME_MEPC, FRAME_MCAUSE}"
  shows "load64 (frame + a) (store64 (frame + b) v s) = (if a = b then v else load64 (frame + a) s)"
  using read_other_field [OF assms(1)] frame_register [OF assms(2)] frame_register [OF assms(3)]
  by (simp add: load64_def store64_def cell64.rd_wr)

text \<open>What a store to a frame leaves alone.\<close>

lemma store_keeps:
  "threads (store64 a v s) = threads s" "user_tasks (store64 a v s) = user_tasks s" "link (store64 a v s) = link s"
  "user_noop_benchmark (store64 a v z) = user_noop_benchmark z"
  by (simp_all add: store64_def)

lemma stores_keep_benchmark:
  "user_noop_benchmark (fold (\<lambda>(reg, v). store64 (frame + reg) v) l s) = user_noop_benchmark s"
  by (induction l arbitrary: s) (auto simp: store_keeps)

lemma user_trap_runs:
  fixes s :: "'a sched_scheme" and pc nr :: u64
  assumes t: "task_runs Q c frame M s" and n: "length args \<le> 4"
  defines "s' \<equiv> user_trap frame pc nr args s"
  shows "task_runs Q c frame M s'" and "load64 (frame + FRAME_MCAUSE) s' = MCAUSE_ECALL_U_MODE" and "load64 (frame + FRAME_A7) s' = nr"
    and "threads s' = threads s" and "user_tasks s' = user_tasks s"
proof -
  have al: "unat frame mod 4096 = 0" using t user_running_frames(1) by (auto simp: task_runs_def)
  define z where "z = fold (\<lambda>(reg, v). store64 (frame + reg) v) (zip arg_registers args) s"
  have k: "task_runs Q c frame M (fold (\<lambda>(reg, v). store64 (frame + reg) v) l x) \<and>
      threads (fold (\<lambda>(reg, v). store64 (frame + reg) v) l x) = threads x \<and>
      user_tasks (fold (\<lambda>(reg, v). store64 (frame + reg) v) l x) = user_tasks x"
    if "task_runs Q c frame M x" "set (map fst l) \<subseteq> set arg_registers" for l and x :: "'a sched_scheme"
    using that
  proof (induction l arbitrary: x)
    case (Cons p l)
    obtain r v where p: "p = (r, v)" by fastforce
    have "unat r < 4096 \<and> unat r mod 8 = 0 \<and> r \<noteq> FRAME_MSTATUS"
      by (rule frame_register) (use Cons.prems(2) p in \<open>auto simp: arg_registers_def\<close>)
    then have "task_runs Q c frame M (store64 (frame + r) v x)"
      by (elim conjE) (rule task_runs_store [OF Cons.prems(1)])
    from Cons.IH [OF this] Cons.prems(2) show ?case by (simp add: p store_keeps)
  qed simp
  have "set (map fst (zip arg_registers args)) \<subseteq> set arg_registers" by (auto dest: set_zip_leftD)
  then have z: "task_runs Q c frame M z" "threads z = threads s" "user_tasks z = user_tasks s" using k [OF t] by (simp_all add: z_def)
  have e: "s' = store64 (frame + FRAME_MCAUSE) MCAUSE_ECALL_U_MODE (store64 (frame + FRAME_MEPC) pc (store64 (frame + FRAME_A7) nr z))"
    by (simp add: s'_def user_trap_def z_def)
  show "task_runs Q c frame M s'" unfolding e by (intro task_runs_store z) (simp_all add: frame_register)
  show "threads s' = threads s" "user_tasks s' = user_tasks s" unfolding e by (simp_all add: store_keeps z)
  show "load64 (frame + FRAME_MCAUSE) s' = MCAUSE_ECALL_U_MODE" unfolding e by (simp add: load_register al)
  show "load64 (frame + FRAME_A7) s' = nr"
    unfolding e by (simp add: load_register al) (simp add: FRAME_A7_def FRAME_MEPC_def FRAME_MCAUSE_def)
qed

text \<open>The arguments of an accelerator request in the frame.\<close>

lemma user_trap_args:
  assumes "unat frame mod 4096 = 0" and "s' = user_trap frame pc nr [a, b, x, y] s"
  shows "load64 (frame + FRAME_A0) s' = a" and "load64 (frame + FRAME_A1) s' = b"
  unfolding assms(2) user_trap_def arg_registers_def
  by (simp_all add: load_register assms(1)) (simp_all add: FRAME_A0_def FRAME_A1_def FRAME_A2_def FRAME_A3_def FRAME_A7_def
      FRAME_MEPC_def FRAME_MCAUSE_def)

section \<open>Calls that come straight back\<close>

text \<open>An accelerator request that the kernel refuses: no bytes, too many, or not all of them writable by the task.\<close>

definition request_refused :: "(u64 \<Rightarrow> (u64 \<times> u64) option) \<Rightarrow> u64 \<Rightarrow> u64 \<Rightarrow> bool" where
  "request_refused M va len \<longleftrightarrow> len = 0 \<or> len > USER_ACCEL_MEMSET_MAX_LEN \<or> \<not> user_space_va_range_is_valid va len \<or>
     (\<exists>i<unat len. case M (page_base (va + of_nat i)) of None \<Rightarrow> True
        | Some (pa, flags) \<Rightarrow> flags AND VM_PTE_U = 0 \<or> flags AND VM_PTE_W = 0)"

text \<open>The answer to a call with which the program goes on at once.\<close>

definition direct_answer :: "(u64 \<Rightarrow> (u64 \<times> u64) option) \<Rightarrow> u64 \<Rightarrow> u64 list \<Rightarrow> int option" where
  "direct_answer M nr args =
     (if nr = USER_SYSCALL_NOOP then Some 0
      else if nr = USER_SYSCALL_ACCEL_MEMSET
      then (case args of [va, len, v, t] \<Rightarrow> if request_refused M va len then Some USER_ACCEL_ERR_INVALID else None | _ \<Rightarrow> None)
      else if nr \<in> {USER_SYSCALL_EXIT, USER_SYSCALL_YIELD, USER_SYSCALL_SLEEP} then None else Some USER_SYSCALL_ERR_UNKNOWN)"

lemma refused_range:
  assumes "request_refused (vm_mapping root s) va len" and "len \<noteq> 0" and "\<not> len > USER_ACCEL_MEMSET_MAX_LEN"
  shows "\<not> user_range_ok root s True va len"
  using assms by (auto simp: request_refused_def user_range_ok_def user_page_ok_def split: option.splits)

lemma logged_if: "logged s a \<Longrightarrow> logged s b \<Longrightarrow> logged s (if p then a else b)"
  by simp

text \<open>The way of a call to its handler.\<close>

lemma call_enters:
  fixes s :: "'a traps_scheme"
  assumes "load64 (frame + FRAME_MCAUSE) s = MCAUSE_ECALL_U_MODE"
  shows "trap_handle frame s = Some (user_syscall_dispatch frame s)"
proof -
  have "MCAUSE_ECALL_U_MODE AND MCAUSE_INTERRUPT = 0" "MCAUSE_ECALL_U_MODE AND MCAUSE_CODE_MASK = MCAUSE_ECALL_U_MODE"
    by (simp_all add: MCAUSE_ECALL_U_MODE_def MCAUSE_INTERRUPT_def MCAUSE_CODE_MASK_def)
  then show ?thesis unfolding trap_handle_def assms Let_def by (simp add: MCAUSE_ECALL_U_MODE_def MCAUSE_BREAKPOINT_def)
qed

lemma accel_call_enters:
  fixes s :: "'a traps_scheme"
  assumes u: "user_running Q c frame s" and ec: "load64 (frame + FRAME_MCAUSE) s = MCAUSE_ECALL_U_MODE"
    and nr: "load64 (frame + FRAME_A7) s = USER_SYSCALL_ACCEL_MEMSET"
  shows "\<exists>x. logged s x \<and> trap_handle frame s = Some (user_accel_syscall_memset frame x)"
proof -
  let ?x0 = "snd (csr_read_cycle s)"
  define x where "x = user_syscall_trace TRACE_USER_SYSCALL_ENTER frame USER_SYSCALL_ACCEL_MEMSET (load64 (frame + FRAME_MEPC) ?x0) ?x0"
  have l0: "logged s ?x0" by (intro logged_intros)
  have lx: "logged s x" unfolding x_def by (intro logged_intros logged_user_trace)
  have n0: "load64 (frame + FRAME_A7) ?x0 = USER_SYSCALL_ACCEL_MEMSET" using logged_fields(9) [OF l0] nr by simp
  have fr: "frame \<noteq> 0" using u by (simp add: user_running_def)
  have "user_syscall_dispatch frame s = user_accel_syscall_memset frame x"
    unfolding user_syscall_dispatch_def if_not_P [OF fr] case_prod_beta Let_def n0 x_def [symmetric] by (simp add: syscall_numbers)
  then show ?thesis using call_enters [OF ec] lx by metis
qed

lemma refused_call:
  fixes s :: "'a traps_scheme"
  assumes t: "task_runs Q c frame M s" and ec: "load64 (frame + FRAME_MCAUSE) s = MCAUSE_ECALL_U_MODE"
    and nr: "load64 (frame + FRAME_A7) s = USER_SYSCALL_ACCEL_MEMSET"
    and rf: "request_refused M (load64 (frame + FRAME_A0) s) (load64 (frame + FRAME_A1) s)"
  shows "\<exists>z. trap_handle frame s = Some (Inr (Done frame, z)) \<and> logged (s\<lparr>mem := returned frame USER_ACCEL_ERR_INVALID (mem s)\<rparr>) z"
proof -
  let ?va = "load64 (frame + FRAME_A0) s" and ?len = "load64 (frame + FRAME_A1) s" and ?task = "th_user_task (threads s c)"
  have u: "user_running Q c frame s" using t by (simp add: task_runs_def)
  obtain x where lx: "logged s x" and h: "trap_handle frame s = Some (user_accel_syscall_memset frame x)"
    using accel_call_enters [OF u ec nr] by blast
  have fr: "frame \<noteq> 0" using u by (simp add: user_running_def)
  have task: "thread_current_user_task_for_frame frame x = ?task" "?task \<noteq> 0"
    using user_running_frame(2) [OF u] u logged_call [OF lx] by (simp_all add: user_running_def Let_def)
  define y where "y = user_accel_trace TRACE_USER_ACCEL_VALIDATE ?len (sext64 USER_ACCEL_ERR_INVALID) x"
  have ly: "logged s y" unfolding y_def user_accel_trace_def by (rule logged_trace [OF lx])
  have start: "user_accel_memset_start ?task ?va ?len v w x = Inr (Inl USER_ACCEL_ERR_INVALID, y)" for v w
  proof (cases "?len = 0 \<or> ?len > USER_ACCEL_MEMSET_MAX_LEN")
    case True
    show ?thesis unfolding user_accel_memset_start_def if_P [OF True] y_def by (rule refl)
  next
    case False
    let ?root = "vm_root (ut_address_space (task_at s ?task))"
    have inv: "vm_inv ?root x" using user_running_frames(2) [OF u refl] same_pool_pages(5) [OF logged_sched(6) [OF lx]] by simp
    have "vm_mapping ?root x = M" using t same_pool_pages(6) [OF logged_sched(6) [OF lx]] by (simp add: task_runs_def)
    then have "\<not> user_range_ok ?root x True ?va ?len" using refused_range [of ?root x] rf False by blast
    moreover have "user_task_is_ready ?task x" "task_at x = task_at s"
      using u logged_fields [OF lx] by (simp_all add: user_running_def Let_def)
    ultimately have "usercopy_task_validate ?task ?va ?len True x = Inr (USERCOPY_ERR_INVALID, x)"
      using validate_range_ok [OF inv, of ?len ?va True] False by (simp add: usercopy_task_validate_def)
    then show ?thesis
      unfolding user_accel_memset_start_def if_not_P [OF False] by (simp add: y_def USERCOPY_ERR_INVALID_def USERCOPY_OK_def)
  qed
  define z where "z = snd (user_accel_syscall_return frame USER_ACCEL_ERR_INVALID y)"
  have zf: "user_accel_syscall_return frame USER_ACCEL_ERR_INVALID y = (frame, z)"
    by (simp add: z_def user_accel_syscall_return_def Let_def)
  have ret: "user_accel_syscall_memset frame x = Inr (Done frame, z)"
    unfolding user_accel_syscall_memset_def if_not_P [OF fr] task(1) if_not_P [OF task(2)] Let_def logged_fields(9) [OF lx] start
    by (simp add: zf)
  have "logged (s\<lparr>mem := returned frame USER_ACCEL_ERR_INVALID (mem s)\<rparr>) z"
  proof -
    note cr = call_returned(1) [OF u ly, of USER_ACCEL_ERR_INVALID, unfolded user_syscall_advance_def]
    show ?thesis unfolding z_def user_accel_syscall_return_def Let_def snd_conv
      by (intro logged_if logged_write logged_trace cr)
  qed
  then show ?thesis using h ret by auto
qed

lemma noop_counts:
  fixes s :: "'a traps_scheme"
  assumes u: "user_running Q c frame s" and ec: "load64 (frame + FRAME_MCAUSE) s = MCAUSE_ECALL_U_MODE"
    and nr: "load64 (frame + FRAME_A7) s = USER_SYSCALL_NOOP" and h: "trap_handle frame s = Some (Inr (g, s'))"
  shows "bm_iterations (user_noop_benchmark s') = bm_iterations (user_noop_benchmark s) + 1"
proof -
  let ?x0 = "snd (csr_read_cycle s)"
  note h1 = call_enters [OF ec]
  define start where "start = fst (csr_read_cycle s)"
  define x where "x = user_syscall_trace TRACE_USER_SYSCALL_ENTER frame USER_SYSCALL_NOOP (load64 (frame + FRAME_MEPC) ?x0) ?x0"
  have l0: "logged s ?x0" by (intro logged_intros)
  have lx: "logged s x" unfolding x_def by (intro logged_intros logged_user_trace)
  have n0: "load64 (frame + FRAME_A7) ?x0 = USER_SYSCALL_NOOP" using logged_fields(9) [OF l0] nr by simp
  have fr: "frame \<noteq> 0" using u by (simp add: user_running_def)
  have d: "user_syscall_dispatch frame s = done_frame (user_syscall_noop frame start x)"
    unfolding user_syscall_dispatch_def if_not_P [OF fr] case_prod_beta Let_def n0 x_def [symmetric] start_def [symmetric]
    by (simp add: syscall_numbers)
  define z where "z = snd (csr_read_cycle (user_syscall_trace TRACE_USER_SYSCALL_RETURN frame USER_SYSCALL_NOOP (sext64 USER_SYSCALL_OK)
       (store64 (frame + FRAME_A0) (sext64 USER_SYSCALL_OK) (user_syscall_advance frame x))))"
  have "logged (s\<lparr>mem := returned frame USER_SYSCALL_OK (mem s)\<rparr>) z"
    unfolding z_def by (intro logged_intros logged_user_trace call_returned(1) [OF u lx])
  then have nz: "user_noop_benchmark z = user_noop_benchmark s" by (auto simp: logged_def)
  have "\<exists>b. user_syscall_noop frame start x = Inr (frame, z\<lparr>user_noop_benchmark := b\<rparr>) \<and>
      bm_iterations b = bm_iterations (user_noop_benchmark z) + 1"
  proof -
    have "thread_current_user_task_for_frame frame x \<noteq> 0"
      using user_running_frame(2) [OF u] u logged_call [OF lx] by (simp add: user_running_def Let_def)
    note t = if_not_P [OF this]
    show ?thesis
      unfolding user_syscall_noop_def user_syscall_require_task_def t bindE_Inr prod.case Let_def case_prod_beta snd_conv z_def [symmetric]
      by (rule exI, rule conjI, rule refl) simp
  qed
  then show ?thesis using h h1 d nz by (auto simp: done_frame_def)
qed

lemma task_runs_keep:
  fixes s :: "'a sched_scheme"
  assumes t: "task_runs Q c frame M s" and k: "same_sched s s'" "user_tasks s' = user_tasks s" "same_pool s s'"
  shows "task_runs Q c frame M s'"
proof -
  have "user_running Q c frame s'" using user_running_keep [OF _ k] t by (simp add: task_runs_def)
  then show ?thesis using t k same_pool_pages(6) [OF k(3)] by (simp add: task_runs_def task_at_def same_sched_def)
qed

lemma task_runs_returned:
  fixes s :: "'a sched_scheme"
  assumes "task_runs Q c frame M s"
  shows "task_runs Q c frame M (s\<lparr>mem := returned frame r (mem s)\<rparr>)"
proof -
  have "s\<lparr>mem := returned frame r (mem s)\<rparr> =
      store64 (frame + FRAME_A0) (sext64 r) (store64 (frame + FRAME_MEPC) (load64 (frame + FRAME_MEPC) s + 4) s)"
    by (simp add: returned_def store64_def load64_def)
  then show ?thesis by (simp add: task_runs_store assms FRAME_A0_def FRAME_MEPC_def FRAME_MSTATUS_def)
qed

text \<open>A call with a direct answer comes back with it; the no-op counts itself.\<close>

lemma direct_call:
  fixes s :: "'a traps_scheme"
  assumes t: "task_runs Q c frame M s" and n: "length args \<le> 4" and an: "direct_answer M nr args = Some r"
  obtains a b d s' where "trap_handle_user frame (user_trap frame pc nr args s) = Some (Inr (Inr (Userret a b d), s'))"
    and "task_runs Q c frame M s'" and "load64 (frame + FRAME_A0) s' = sext64 r"
    and "nr = USER_SYSCALL_NOOP \<longrightarrow> bm_iterations (user_noop_benchmark s') = bm_iterations (user_noop_benchmark s) + 1"
proof -
  define s1 where "s1 = user_trap frame pc nr args s"
  have t1: "task_runs Q c frame M s1" and ec: "load64 (frame + FRAME_MCAUSE) s1 = MCAUSE_ECALL_U_MODE"
    and nr: "load64 (frame + FRAME_A7) s1 = nr"
    using user_trap_runs [OF t n, of pc nr] by (simp_all add: s1_def)
  have u1: "user_running Q c frame s1" using t1 by (simp add: task_runs_def)
  have al: "unat frame mod 4096 = 0" by (rule user_running_frames(1) [OF u1])
  have "\<exists>s2. trap_handle frame s1 = Some (Inr (Done frame, s2)) \<and> same_sched s1 s2 \<and> user_tasks s2 = user_tasks s1 \<and>
      same_pool (s1\<lparr>mem := returned frame r (mem s1)\<rparr>) s2"
  proof (cases "nr = USER_SYSCALL_ACCEL_MEMSET")
    case True
    then obtain va len v w where a: "args = [va, len, v, w]" "request_refused M va len" "r = USER_ACCEL_ERR_INVALID"
      using an by (auto simp: direct_answer_def syscall_numbers split: list.splits if_splits)
    note ar = user_trap_args [OF al, of s1 pc nr va len v w s]
    obtain z where z: "trap_handle frame s1 = Some (Inr (Done frame, z))"
      "logged (s1\<lparr>mem := returned frame USER_ACCEL_ERR_INVALID (mem s1)\<rparr>) z"
      using refused_call [OF t1 ec] nr True ar a(1,2) s1_def by auto
    have "sched_inv Q z \<and> same_sched s1 z \<and> user_tasks z = user_tasks s1 \<and>
        same_pool (s1\<lparr>mem := returned frame USER_ACCEL_ERR_INVALID (mem s1)\<rparr>) z"
      by (rule stay_done [OF u1 z(2)]) (simp_all add: same_sched_def same_pool_def)
    then show ?thesis using z(1) a(3) by blast
  next
    case False
    from user_syscall_total [OF u1 ec] nr False obtain g s2 where s2: "trap_handle frame s1 = Some (Inr (Done g, s2))"
      "call_done c frame s1 g s2" by auto
    have "r = (if nr = USER_SYSCALL_NOOP then USER_SYSCALL_OK else USER_SYSCALL_ERR_UNKNOWN)"
      "nr \<notin> {USER_SYSCALL_EXIT, USER_SYSCALL_YIELD, USER_SYSCALL_SLEEP}"
      using an False by (auto simp: direct_answer_def USER_SYSCALL_OK_def syscall_numbers split: if_splits)
    then show ?thesis using s2 by (auto simp: call_done_def nr Let_def)
  qed
  then obtain s2 where s2: "trap_handle frame s1 = Some (Inr (Done frame, s2))" "same_sched s1 s2" "user_tasks s2 = user_tasks s1"
    "same_pool (s1\<lparr>mem := returned frame r (mem s1)\<rparr>) s2" by blast
  define s' where "s' = upd_thread c (\<lambda>th. th\<lparr>th_trap_frame := frame\<rparr>) s2"
  note b = back_to_user [OF u1 s2, folded s'_def]
  have k: "same_sched (s1\<lparr>mem := returned frame r (mem s1)\<rparr>) s2" "user_tasks s2 = user_tasks (s1\<lparr>mem := returned frame r (mem s1)\<rparr>)"
    using s2 by (simp_all add: same_sched_def)
  have t2: "task_runs Q c frame M s2" by (rule task_runs_keep [OF task_runs_returned [OF t1] k s2(4)])
  have "same_pool s2 s'" "task_at s' = task_at s2" "th_user_task (threads s' c) = th_user_task (threads s2 c)"
    by (simp_all add: s'_def upd_thread_def same_pool_def task_at_def fun_eq_iff)
  then have "task_runs Q c frame M s'" using b(2) t2 same_pool_pages(6) [of s2 s'] by (simp add: task_runs_def)
  moreover have "load64 (frame + FRAME_A0) s' = sext64 r" by (simp add: load64_def b(3) returned_def cell64.rd_wr)
  moreover have "bm_iterations (user_noop_benchmark s') = bm_iterations (user_noop_benchmark s) + 1" if "nr = USER_SYSCALL_NOOP"
  proof -
    have "user_noop_benchmark s1 = user_noop_benchmark s"
      unfolding s1_def user_trap_def by (simp add: store_keeps stores_keep_benchmark)
    then show ?thesis using noop_counts [OF u1 ec _ s2(1)] nr that by (simp add: s'_def upd_thread_def)
  qed
  ultimately show ?thesis using b(1) unfolding s1_def by (intro that) blast+
qed

lemma run_direct:
  fixes s :: "'a traps_scheme"
  assumes "task_runs Q c frame M s" and "length args \<le> 4" and "direct_answer M nr args = Some r"
  shows "\<exists>s'. run_calls frame pc (Suc n) (Ecall nr args m k) s = run_calls frame pc n (k (sext64 r) m) s' \<and> task_runs Q c frame M s' \<and>
    (nr = USER_SYSCALL_NOOP \<longrightarrow> bm_iterations (user_noop_benchmark s') = bm_iterations (user_noop_benchmark s) + 1)"
proof -
  obtain a b d s' where "trap_handle_user frame (user_trap frame (pc n) nr args s) = Some (Inr (Inr (Userret a b d), s'))"
    "task_runs Q c frame M s'" "load64 (frame + FRAME_A0) s' = sext64 r"
    "nr = USER_SYSCALL_NOOP \<longrightarrow> bm_iterations (user_noop_benchmark s') = bm_iterations (user_noop_benchmark s) + 1"
    by (rule direct_call [OF assms, where pc = "pc n"])
  then show ?thesis by (intro exI [of _ s']) simp
qed

lemma noop_run:
  fixes s :: "'a traps_scheme"
  assumes "task_runs Q c frame M s"
  shows "\<exists>s'. run_calls frame pc n (ubind (benchmark_syscall_iterations n m) k) s = Some (k 0 m, s') \<and> task_runs Q c frame M s' \<and>
    bm_iterations (user_noop_benchmark s') = bm_iterations (user_noop_benchmark s) + of_nat n"
  using assms
proof (induction n arbitrary: s)
  case 0
  then show ?case by simp
next
  case (Suc n)
  have a: "direct_answer M USER_SYSCALL_NOOP [0] = Some 0" by (simp add: direct_answer_def)
  let ?k = "\<lambda>r m. ubind (if r \<noteq> 0 then Ret 1 m else benchmark_syscall_iterations n m) k"
  obtain s1 where s1: "run_calls frame pc (Suc n) (Ecall USER_SYSCALL_NOOP [0] m ?k) s = run_calls frame pc n (?k (sext64 0) m) s1"
    "task_runs Q c frame M s1" "bm_iterations (user_noop_benchmark s1) = bm_iterations (user_noop_benchmark s) + 1"
    using run_direct [OF Suc.prems _ a, of pc n m ?k] by auto
  have e: "ubind (benchmark_syscall_iterations (Suc n) m) k = Ecall USER_SYSCALL_NOOP [0] m ?k"
    by (simp add: user_noop_def user_syscall0_def)
  obtain s' where "run_calls frame pc n (ubind (benchmark_syscall_iterations n m) k) s1 = Some (k 0 m, s')" "task_runs Q c frame M s'"
    "bm_iterations (user_noop_benchmark s') = bm_iterations (user_noop_benchmark s1) + of_nat n"
    using Suc.IH [OF s1(2)] by blast
  then show ?case unfolding e s1(1) using s1(3) by (intro exI [of _ s']) (simp add: sext64_def)
qed

text \<open>A call that the program expects to fail in this way.\<close>

lemma expects_call:
  "ubind (expects (user_accel_memset dst len v t m) expected code k) q =
     Ecall USER_SYSCALL_ACCEL_MEMSET [dst, ucast len, ucast v, t] m
       (\<lambda>a0 m. ubind (let result = expect_result (int_of_result a0) expected code in if result \<noteq> 0 then Ret result m else k m) q)"
  by (simp add: expects_def user_accel_memset_def user_syscall4_def)

lemma run_expects:
  fixes s :: "'a traps_scheme"
  assumes "task_runs Q c frame M s" and "request_refused M dst (ucast len)"
  shows "\<exists>s'. task_runs Q c frame M s' \<and> (\<forall>code k. run_calls frame pc (Suc n)
      (ubind (expects (user_accel_memset dst len v t m) USER_ACCEL_ERR_INVALID code k) q) s = run_calls frame pc n (ubind (k m) q) s')"
proof -
  have a: "direct_answer M USER_SYSCALL_ACCEL_MEMSET [dst, ucast len, ucast v, t] = Some USER_ACCEL_ERR_INVALID"
    using assms(2) by (simp add: direct_answer_def syscall_numbers)
  have n: "length [dst, ucast len, ucast v, t] \<le> 4" by simp
  obtain x y d s' where s': "trap_handle_user frame (user_trap frame (pc n) USER_SYSCALL_ACCEL_MEMSET [dst, ucast len, ucast v, t] s) =
      Some (Inr (Inr (Userret x y d), s'))" "task_runs Q c frame M s'" "load64 (frame + FRAME_A0) s' = sext64 USER_ACCEL_ERR_INVALID"
    by (rule direct_call [OF assms(1) n a, where pc = "pc n"])
  have i: "int_of_result (sext64 USER_ACCEL_ERR_INVALID) = USER_ACCEL_ERR_INVALID"
    by (simp add: int_of_result_def sext64_def USER_ACCEL_ERR_INVALID_def)
  show ?thesis by (intro exI [of _ s'] conjI allI s'(2)) (simp add: expects_call s' i expect_result_def)
qed

text \<open>A run of such requests, each checked before the next, and the call with the unknown number before them.\<close>

lemma run_refusals:
  fixes s :: "'a traps_scheme"
  assumes "task_runs Q c frame M s" and "\<forall>(dst, len, v, code)\<in>set rs. request_refused M dst (ucast len)"
  shows "\<exists>s'. task_runs Q c frame M s' \<and> run_calls frame pc (length rs + n) (ubind (foldr (\<lambda>(dst, len, v, code) k m.
      expects (user_accel_memset dst len v t m) USER_ACCEL_ERR_INVALID code k) rs k m) q) s = run_calls frame pc n (ubind (k m) q) s'"
  using assms
proof (induction rs arbitrary: s)
  case (Cons r rs)
  obtain dst len v code where r: "r = (dst, len, v, code)" by (cases r)
  from Cons.prems have "request_refused M dst (ucast len)" by (simp add: r)
  from run_expects [OF Cons.prems(1) this, of pc "length rs + n" v t m q]
  obtain s1 where s1: "task_runs Q c frame M s1" and e: "\<forall>code k. run_calls frame pc (Suc (length rs + n))
      (ubind (expects (user_accel_memset dst len v t m) USER_ACCEL_ERR_INVALID code k) q) s = run_calls frame pc (length rs + n) (ubind (k m) q) s1"
    by blast
  from Cons.IH [OF s1] Cons.prems(2) show ?case by (simp add: r e del: run_calls.simps)
qed auto

lemma run_unknown:
  fixes s :: "'a traps_scheme"
  assumes "task_runs Q c frame M s"
  shows "\<exists>s'. task_runs Q c frame M s' \<and> (\<forall>k. run_calls frame pc (Suc n)
      (ubind (expects (ubind (user_negative_syscall0 USER_NEG_UNKNOWN_SYSCALL m) (\<lambda>r m. Ret (int_of_result r) m))
        USER_SYSCALL_ERR_UNKNOWN code k) q) s = run_calls frame pc n (ubind (k m) q) s')"
proof -
  have a: "direct_answer M USER_NEG_UNKNOWN_SYSCALL [0] = Some USER_SYSCALL_ERR_UNKNOWN"
    by (simp add: direct_answer_def USER_NEG_UNKNOWN_SYSCALL_def syscall_numbers)
  have n: "length [0 :: u64] \<le> 4" by simp
  obtain x y d s1 where s1: "trap_handle_user frame (user_trap frame (pc n) USER_NEG_UNKNOWN_SYSCALL [0] s) =
      Some (Inr (Inr (Userret x y d), s1))" "load64 (frame + FRAME_A0) s1 = sext64 USER_SYSCALL_ERR_UNKNOWN" and t1: "task_runs Q c frame M s1"
    by (rule direct_call [OF assms n a, where pc = "pc n"])
  have w: "(ucast (- 1 :: u64) :: 32 word) = - 1" by (rule bit_word_eqI) (simp add: bit_simps)
  have i: "int_of_result (sext64 USER_SYSCALL_ERR_UNKNOWN) = USER_SYSCALL_ERR_UNKNOWN"
    by (simp add: int_of_result_def sext64_def USER_SYSCALL_ERR_UNKNOWN_def w)
  show ?thesis
    unfolding user_negative_syscall0_def expects_def ubind.simps run_calls.simps s1 option.case sum.case prod.case trap_exit.case
    by (intro exI [of _ s1] conjI allI t1) (simp add: i expect_result_def)
qed

section \<open>Two programs\<close>

text \<open>
  C26: The system-call benchmark on the kernel. Started as the running user thread, the benchmark program makes its 64
  no-op calls, each of which the kernel answers at once with 0 and counts, and comes to its exit call with code 0; it
  still runs in its own frame, and the kernel has counted 64 calls more.
\<close>

theorem benchmark_program_counts:
  fixes s :: "'a traps_scheme"
  assumes "user_running Q c frame s"
  shows "\<exists>s'. run_calls frame pc 64 (user_start (benchmark_syscall_main m)) s = Some (user_exit 0 m, s') \<and>
    user_running Q c frame s' \<and> bm_iterations (user_noop_benchmark s') = bm_iterations (user_noop_benchmark s) + 64"
proof -
  obtain M where "task_runs Q c frame M s" using assms by (auto simp: task_runs_def)
  from noop_run [OF this, of pc 64 m "\<lambda>r m. user_exit (sext64 r) m"] show ?thesis
    by (auto simp: user_start_def benchmark_syscall_main_def task_runs_def sext64_def)
qed

lemma code_page_not_writable: "code_flags AND VM_PTE_W = 0"
  by (simp add: code_flags_def vm_flags)

lemma negative_requests:
  assumes "M = task_mapping code stack tramp ctx"
  shows "request_refused M 0 64" "request_refused M b 0" "request_refused M b 4097" "request_refused M 0x2000 1"
    "request_refused M 0x1000 1" "request_refused M 0xfffffffffffffffc 8"
proof -
  have "\<not> user_space_va_range_is_valid 0 64" "\<not> user_space_va_range_is_valid 0xfffffffffffffffc 8"
    by (simp_all add: user_space_va_range_is_valid_def range_overlaps_platform_mmio_def ranges_overlap_def user_layout)
  then show "request_refused M 0 64" "request_refused M 0xfffffffffffffffc 8" by (simp_all add: request_refused_def)
  show "request_refused M b 0" "request_refused M b 4097" by (simp_all add: request_refused_def USER_ACCEL_MEMSET_MAX_LEN_def)
  have "M 0x2000 = None" "M 0x1000 = Some (code, code_flags)"
    by (simp_all add: assms task_mapping_def user_layout)
  then show "request_refused M 0x2000 1" "request_refused M 0x1000 1"
    by (auto simp: request_refused_def page_base_def PAGE_MASK_def PAGE_SIZE_def code_page_not_writable)
qed

text \<open>
  C22: The negative system-call test on the kernel. Run by a user task with the address space that \<open>user_task_init\<close>
  builds, the program gets through its seven calls that have to fail: an unknown number, and accelerator requests for
  the null page, for no bytes, for too many bytes, for an unmapped page, for its own code page, and across the end of the
  address space. The kernel answers each at once with the error that the program expects, and the program comes to its
  first valid request.
\<close>

theorem negative_program_refused:
  fixes s :: "'a traps_scheme"
  assumes "user_running Q c frame s"
    and "vm_mapping (vm_root (ut_address_space (task_at s (th_user_task (threads s c))))) s = task_mapping code stack tramp ctx"
  shows "\<exists>k s'. run_calls frame pc 7 (user_start (syscall_negative_main buffer m)) s =
      Some (Ecall USER_SYSCALL_ACCEL_MEMSET [buffer, 64, 0xa5, 1] (fill_bytes m buffer 0 64) k :: 'r uprog, s') \<and>
    user_running Q c frame s'"
proof -
  define M where "M = task_mapping code stack tramp ctx"
  define m0 where "m0 = fill_bytes m buffer 0 64"
  define rs :: "(u64 \<times> u32 \<times> u32 \<times> int) list" where
    "rs = [(0, 64, 0x11, 2), (buffer, 0, 0x22, 3), (buffer, ucast USER_ACCEL_MEMSET_MAX_LEN + 1, 0x33, 4), (USER_NEG_UNMAPPED_VA, 1, 0x44, 5),
       (USER_NEG_CODE_BASE, 1, 0x55, 6), (USER_NEG_WRAP_VA, 8, 0x66, 7)]"
  define q where "q = (\<lambda>r m. user_exit (sext64 r) m :: 'r uprog)"
  have t: "task_runs Q c frame M s" using assms by (simp add: task_runs_def M_def)
  obtain s1 where t1: "task_runs Q c frame M s1" and e1: "\<And>k. run_calls frame pc (Suc 6)
      (ubind (expects (ubind (user_negative_syscall0 USER_NEG_UNKNOWN_SYSCALL m0) (\<lambda>r m. Ret (int_of_result r) m))
        USER_SYSCALL_ERR_UNKNOWN 1 k) q) s = run_calls frame pc 6 (ubind (k m0) q) s1"
    using run_unknown [OF t] by blast
  have bad: "\<forall>(dst, len, v, code)\<in>set rs. request_refused M dst (ucast len)"
    using negative_requests [OF M_def]
    by (simp add: rs_def USER_NEG_UNMAPPED_VA_def USER_NEG_CODE_BASE_def USER_NEG_WRAP_VA_def USER_ACCEL_MEMSET_MAX_LEN_def)
  have l: "length rs + 0 = 6" by (simp add: rs_def)
  have e2: "\<exists>s'. task_runs Q c frame M s' \<and> run_calls frame pc 6 (ubind (foldr (\<lambda>(dst, len, v, code) k m.
      expects (user_accel_memset dst len v 100 m) USER_ACCEL_ERR_INVALID code k) rs k m0) q) s1 = run_calls frame pc 0 (ubind (k m0) q) s'" for k
    using run_refusals [OF t1 bad, where pc = pc and n = 0 and t = 100 and m = m0 and k = k and q = q] unfolding l by simp
  obtain k where prog: "user_start (syscall_negative_main buffer m) =
      ubind (expects (ubind (user_negative_syscall0 USER_NEG_UNKNOWN_SYSCALL m0) (\<lambda>r m. Ret (int_of_result r) m)) USER_SYSCALL_ERR_UNKNOWN 1
        (foldr (\<lambda>(dst, len, v, code) k m. expects (user_accel_memset dst len v 100 m) USER_ACCEL_ERR_INVALID code k) rs
          (\<lambda>m. expects (user_accel_memset buffer 64 0xa5 1 m) USER_ACCEL_ERR_TIMEOUT 8 k))) q"
    unfolding user_start_def syscall_negative_main_def Let_def m0_def [symmetric] q_def [symmetric] rs_def
      foldr_Cons foldr_Nil comp_def id_def prod.case by blast
  obtain s' where t': "task_runs Q c frame M s'" and run: "run_calls frame pc (Suc 6) (user_start (syscall_negative_main buffer m)) s =
      run_calls frame pc 0 (ubind (expects (user_accel_memset buffer 64 0xa5 1 m0) USER_ACCEL_ERR_TIMEOUT 8 k) q) s'"
    unfolding prog e1 using e2 by blast
  from run t' show ?thesis by (auto simp: expects_call task_runs_def m0_def)
qed

text \<open>Both are run by the task of the concrete kernel.\<close>

lemma demo_task_runs:
  obtains s :: traps and f code stack tramp ctx where "user_running {0x100} 1 f s"
    and "vm_mapping (vm_root (ut_address_space (task_at s (th_user_task (threads s 1))))) s = task_mapping code stack tramp ctx"
proof -
  obtain s :: sched where s: "sched_inv {0x100} s" "current_thread s = Some 1" "th_user_task (threads s 1) = 0x80002800"
    "user_task_is_ready 0x80002800 s" "task_owns (task_at s 0x80002800) s"
    "load64 (ut_trap_context (task_at s 0x80002800) + FRAME_MSTATUS) s = SSTATUS_SPIE"
    "vm_mapping (vm_root (ut_address_space (task_at s 0x80002800))) s = task_mapping (ut_code_page (task_at s 0x80002800))
      (ut_stack_page (task_at s 0x80002800)) (trampoline_start demo_link) (ut_trap_context (task_at s 0x80002800))"
    by (rule demo_user_running) blast
  let ?f = "ut_trap_context (task_at s 0x80002800)"
  have "user_running {0x100} 1 ?f (demo_traps s)"
    using s by (simp add: user_running_def Let_def demo_traps_same user_task_is_ready_def SSTATUS_SPIE_def SSTATUS_SPP_def)
  moreover have "vm_mapping (vm_root (ut_address_space (task_at (demo_traps s) (th_user_task (threads (demo_traps s) 1))))) (demo_traps s) =
      task_mapping (ut_code_page (task_at s 0x80002800)) (ut_stack_page (task_at s 0x80002800)) (trampoline_start demo_link) ?f"
    using s(3,7) by (simp add: demo_traps_same)
  ultimately show ?thesis by (rule that)
qed

theorem benchmark_program_counts_witness:
  "\<exists>(s :: traps) f s'. run_calls f (\<lambda>_. 0x1000) 64 (user_start (benchmark_syscall_main (\<lambda>_. 0))) s = Some (user_exit 0 (\<lambda>_. 0) :: int uprog, s') \<and>
     bm_iterations (user_noop_benchmark s') = bm_iterations (user_noop_benchmark s) + 64"
proof -
  obtain s :: traps and f where "user_running {0x100} 1 f s" by (rule demo_task_runs)
  from benchmark_program_counts [OF this, of "\<lambda>_. 0x1000" "\<lambda>_. 0"] show ?thesis by blast
qed

theorem negative_program_refused_witness:
  "\<exists>(s :: traps) f k s'. run_calls f (\<lambda>_. 0x1000) 7 (user_start (syscall_negative_main 0x3fffff00 (\<lambda>_. 0))) s =
     Some (Ecall USER_SYSCALL_ACCEL_MEMSET [0x3fffff00, 64, 0xa5, 1] (fill_bytes (\<lambda>_. 0) 0x3fffff00 0 64) k :: int uprog, s')"
proof -
  obtain s :: traps and f code stack tramp ctx where s: "user_running {0x100} 1 f s"
    "vm_mapping (vm_root (ut_address_space (task_at s (th_user_task (threads s 1))))) s = task_mapping code stack tramp ctx"
    by (rule demo_task_runs)
  from negative_program_refused [OF s, of "\<lambda>_. 0x1000" "0x3fffff00" "\<lambda>_. 0"] show ?thesis by blast
qed

end
