(* ===== verification/Accel_Call.thy ===== *)
theory Accel_Call
  imports User_Run Accel_Request
begin

text \<open>
  The accelerator call of a user program, from its \<open>ecall\<close> to its return: two pages are taken, the descriptor in the
  first asks for a fill of the second, the thread waits for the device, and the second page is copied to the user and
  both are given back.
\<close>

section \<open>The descriptor\<close>

definition device_idle :: "'a accel_scheme \<Rightarrow> bool" where
  "device_idle s \<longleftrightarrow> accel_bound s \<and> \<not> ar_in_use s \<and> \<not> ar_reset_required s \<and>
     rg_status (regs_of s) = ACCEL_STATUS_IDLE \<and> rg_irq (regs_of s) = 0 \<and> rg_ack (regs_of s) = 0"

text \<open>What the call stores in the page it took for the descriptor.\<close>

definition described :: "u64 \<Rightarrow> u64 \<Rightarrow> u64 \<Rightarrow> u32 \<Rightarrow> memory \<Rightarrow> memory" where
  "described c b len v m = write32 (write32 (write64 (write32 (fill_bytes m c 0 32) (c + CMD_OP) ACCEL_CMD_OP_MEMSET)
     (c + CMD_DST_PA) b) (c + CMD_LEN) (ucast len)) (c + CMD_VALUE) v"

lemma page_contained:
  assumes "pages_inv s" and "p \<in> managed_frames s" and "0 < unat n" and "unat n \<le> 4096"
  shows "page_range_is_managed_page_contained p n s" and "byte_range p (unat n) \<subseteq> {x. page_base x = p}"
proof -
  note p = managed_frame_props [OF assms(1,2)]
  have e: "unat (managed_end s) mod 4096 = 0" using assms(1) by (auto simp: pages_inv_def)
  have "4096 dvd unat (managed_end s) - unat p"
    using e p(2) by (intro dvd_diff_nat) (simp_all add: mod_eq_0_iff_dvd)
  moreover have "0 < unat (managed_end s) - unat p" using p(4) by (simp add: word_less_nat_alt)
  ultimately have top: "unat p + 4096 \<le> unat (managed_end s)" by (auto dest!: dvd_imp_le)
  then have u: "unat p + unat n \<le> unat (managed_end s)" "unat p + 4096 < 2 ^ 64"
    using assms(4) unat64_lt [of "managed_end s"] by simp_all
  have pn: "unat (p + n) = unat p + unat n" using u assms(4) unat64_lt [of "managed_end s"] by (subst unat_add_lem [THEN iffD1]) simp_all
  have l: "unat (p + n - 1) = unat p + (unat n - 1)" using pn assms(3) by (subst unat_minus_one) (auto simp: word_unat_eq_iff)
  have base: "page_base x = p" if "unat p \<le> unat x" "unat x < unat p + 4096" for x
  proof -
    have "unat x div 4096 = unat p div 4096" using that p(2) by (auto simp: mod_eq_0_iff_dvd elim!: dvdE)
    then show ?thesis using p(2) by (auto simp: word_unat_eq_iff unat_page_base_div mod_eq_0_iff_dvd elim!: dvdE)
  qed
  have "page_base (p + n - 1) = page_base p" using base [of "p + n - 1"] base [of p] l assms(3,4) by simp
  then show "page_range_is_managed_page_contained p n s"
    using assms(1,3) p(3) l u(1) unfolding page_range_is_managed_page_contained_def
    by (auto simp: Let_def pages_inv_def word_less_nat_alt word_le_nat_alt page_base_def)
  show "byte_range p (unat n) \<subseteq> {x. page_base x = p}"
    using base u assms(4) by (auto simp: range_iff)
qed

lemma described_loads:
  assumes "unat c + 32 \<le> 2 ^ 64" and m: "m = described c b len v m0"
  shows "read32 m (c + CMD_OP) = ACCEL_CMD_OP_MEMSET" "read32 m (c + CMD_FLAGS) = 0" "read64 m (c + CMD_DST_PA) = b"
    "read32 m (c + CMD_LEN) = ucast len" "read32 m (c + CMD_VALUE) = v" "read32 m (c + CMD_RESERVED) = 0"
    and "same_outside (byte_range c 32) m0 m"
proof -
  have u: "unat (c + CMD_OP) = unat c" "unat (c + CMD_FLAGS) = unat c + 4" "unat (c + CMD_DST_PA) = unat c + 8"
    "unat (c + CMD_LEN) = unat c + 16" "unat (c + CMD_VALUE) = unat c + 20" "unat (c + CMD_RESERVED) = unat c + 28"
    using assms(1) by (simp_all add: cmd_offsets unat_word_ariths)
  note rw = range_read [OF range_write(1)] range_read [OF range_write(2)] ranges_apart u
  have z: "read32 (fill_bytes m0 c 0 32) (c + CMD_FLAGS) = 0" "read32 (fill_bytes m0 c 0 32) (c + CMD_RESERVED) = 0"
    by (simp_all add: read32_def fill_bytes_apply cmd_offsets add.assoc)
  show "read32 m (c + CMD_OP) = ACCEL_CMD_OP_MEMSET" "read32 m (c + CMD_FLAGS) = 0" "read64 m (c + CMD_DST_PA) = b"
    "read32 m (c + CMD_LEN) = ucast len" "read32 m (c + CMD_VALUE) = v" "read32 m (c + CMD_RESERVED) = 0"
    using assms(1) unfolding m described_def by (simp_all add: rw z cell32.rd_wr cell64.rd_wr)
  have sub: "byte_range (c + CMD_OP) 4 \<subseteq> byte_range c 32" "byte_range (c + CMD_DST_PA) 8 \<subseteq> byte_range c 32"
    "byte_range (c + CMD_LEN) 4 \<subseteq> byte_range c 32" "byte_range (c + CMD_VALUE) 4 \<subseteq> byte_range c 32"
    using assms(1) u by (auto simp: range_iff)
  show "same_outside (byte_range c 32) m0 m"
    unfolding m described_def
    by (intro same_outside_trans [OF range_fill same_outside_trans [OF same_outside_mono [OF range_write(1) sub(1)]
          same_outside_trans [OF same_outside_mono [OF range_write(2) sub(2)] same_outside_trans [OF same_outside_mono [OF range_write(1) sub(3)]
          same_outside_mono [OF range_write(1) sub(4)]]]]]) simp
qed

text \<open>With it, an idle device takes the request.\<close>

lemma described_submit:
  fixes s :: "'a accel_scheme"
  assumes inv: "pages_inv s" and idle: "device_idle s" and c: "c \<in> managed_frames s" and b: "b \<in> managed_frames s" and cb: "c \<noteq> b"
    and len: "len \<noteq> 0" "unat len \<le> 4096" and z: "z = s\<lparr>mem := described c b len v (mem s)\<rparr>"
  shows "can_submit c z" and "load64 (c + CMD_DST_PA) z = b" and "unat (load32 (c + CMD_LEN) z) = unat len" and "load32 (c + CMD_VALUE) z = v"
    and "same_outside (byte_range c 32) (mem s) (mem z)" and "request_bytes c z \<subseteq> reg_bytes s \<union> {x. page_base x = c \<or> page_base x = b}"
    and "accel_cmd_pointer_is_safe c z"
proof -
  have l0: "0 < unat len" using len(1) by (simp add: unat_gt_0)
  have lu: "unat (ucast len :: u32) = unat len" using len(2) by (simp add: unsigned_ucast_eq take_bit_nat_eq_self)
  then have lz: "(ucast len :: u32) \<noteq> 0" "(ucast (ucast len :: u32) :: u64) = len"
    using l0 len(2) by (auto simp: word_unat_eq_iff unsigned_ucast_eq unsigned_take_bit_eq take_bit_nat_eq_self)
  note pc = page_contained [OF inv c, of CMD_SIZEOF, simplified CMD_SIZEOF_def, simplified] and pb = page_contained [OF inv b l0 len(2)]
  have c0: "c \<noteq> 0" "c AND (ACCEL_CMD_ALIGNMENT - 1) = 0"
  proof -
    show "c \<noteq> 0" by (rule managed_frame_props(1) [OF inv c])
    have "unat c mod 4096 = 0" by (rule managed_frame_props(2) [OF inv c])
    then have "c AND mask 12 = 0" by (simp add: word_unat_eq_iff unat_and_mask)
    then have "(c AND mask 12) AND 7 = 0" by simp
    then show "c AND (ACCEL_CMD_ALIGNMENT - 1) = 0" by (simp add: ACCEL_CMD_ALIGNMENT_def and.assoc mask_eq_exp_minus_1)
  qed
  have loc: "accel_descriptor_location_is_valid c s"
    using c0 pc(1) by (simp add: accel_descriptor_location_is_valid_def CMD_SIZEOF_def)
  note d = described_loads [OF cmd_field_unat(8) [OF loc] refl, where b = b and len = len and v = v and ?m0.0 = "mem s"]
  have ld: "load64 (c + CMD_DST_PA) z = b" "load32 (c + CMD_LEN) z = ucast len" "load32 (c + CMD_VALUE) z = v"
    "load32 (c + CMD_OP) z = ACCEL_CMD_OP_MEMSET" "load32 (c + CMD_FLAGS) z = 0" "load32 (c + CMD_RESERVED) z = 0"
    using d by (simp_all add: z load32_def load64_def)
  have zf: "link z = link s" "page_range_is_managed_page_contained a n z = page_range_is_managed_page_contained a n s"
    "ar_in_use z = ar_in_use s" "ar_reset_required z = ar_reset_required s" for a n by (simp_all add: z)
  show "load64 (c + CMD_DST_PA) z = b" "unat (load32 (c + CMD_LEN) z) = unat len" "load32 (c + CMD_VALUE) z = v" using ld lu by simp_all
  show so: "same_outside (byte_range c 32) (mem s) (mem z)" using d(7) by (simp add: z)
  show "request_bytes c z \<subseteq> reg_bytes s \<union> {x. page_base x = c \<or> page_base x = b}"
    using pc(2) pb(2) by (auto simp: request_bytes_def ld lu zf)
  show safe: "accel_cmd_pointer_is_safe c z" using c0 pc(1) by (simp add: accel_cmd_pointer_is_safe_def CMD_SIZEOF_def zf)
  have rok: "regs_ok s" using idle by (simp add: device_idle_def accel_bound_def)
  have "regs_at (accel_mmio_addr (link s)) (mem z) = regs_of s"
    by (rule regs_same [OF _ so]) (use rok cmd_regs_apart [OF rok loc] in \<open>simp_all add: regs_ok_def Let_def Int_commute\<close>)
  moreover have "accel_bound z = accel_bound s" by (rule bound_same) (simp add: same_device_def z)
  moreover have "dst_apart c z" using pc(2) pb(2) cb by (auto simp: dst_apart_def ld lu CMD_SIZEOF_def)
  moreover have "accel_cmd_payload_is_valid c z" using ld lz pb(1) by (simp add: accel_cmd_payload_is_valid_def zf)
  ultimately show "can_submit c z" using safe idle by (simp add: can_submit_def device_idle_def zf)
qed

section \<open>The two pages\<close>

definition taken :: "u64 \<Rightarrow> u64 \<Rightarrow> 'a pages_scheme \<Rightarrow> 'a pages_scheme \<Rightarrow> bool" where
  "taken c b s s' \<longleftrightarrow> c \<noteq> b \<and> {c, b} \<subseteq> managed_frames s - allocated s \<and> pages_inv s' \<and> allocated s' = allocated s \<union> {c, b} \<and>
     (\<exists>bm fp h. s' = s\<lparr>page_bitmap := bm, free_pages := fp, next_free_hint := h\<rparr>)"

lemma take_pages:
  assumes inv: "pages_inv s" and two: "2 \<le> unat (free_pages s)"
  obtains c b s1 s2 where "page_alloc s = Inr (c, s1)" and "page_alloc s1 = Inr (b, s2)" and "c \<noteq> 0" and "b \<noteq> 0" and "taken c b s s2"
proof -
  obtain c s1 where a: "page_alloc s = Inr (c, s1)" "pages_inv s1" "pool_step s s1" "allocated s1 = allocated s \<union> ({c} - {0})"
    "c \<noteq> 0 \<longrightarrow> c \<in> managed_frames s - allocated s" "unat (free_pages s) = unat (free_pages s1) + (if c = 0 then 0 else 1)"
    "c = 0 \<longrightarrow> unat (free_pages s) = 0"
    using page_alloc_any [OF inv] by auto
  obtain b s2 where d: "page_alloc s1 = Inr (b, s2)" "pages_inv s2" "allocated s2 = allocated s1 \<union> ({b} - {0})"
    "b \<noteq> 0 \<longrightarrow> b \<in> managed_frames s1 - allocated s1" "b = 0 \<longrightarrow> unat (free_pages s1) = 0"
    using page_alloc_any [OF a(2)] by auto
  have c0: "c \<noteq> 0" and b0: "b \<noteq> 0" using a(6,7) d(5) two by (auto split: if_splits)
  obtain bm fp h where "s1 = s\<lparr>page_bitmap := bm, free_pages := fp, next_free_hint := h\<rparr>" using page_alloc_frame [OF inv a(1)] by auto
  moreover obtain bm' fp' h' where "s2 = s1\<lparr>page_bitmap := bm', free_pages := fp', next_free_hint := h'\<rparr>"
    using page_alloc_frame [OF a(2) d(1)] by auto
  ultimately have "s2 = s\<lparr>page_bitmap := bm', free_pages := fp', next_free_hint := h'\<rparr>" by simp
  moreover have "{c, b} \<subseteq> managed_frames s - allocated s" "c \<noteq> b" "allocated s2 = allocated s \<union> {c, b}"
    using a d c0 b0 pool_step_fields(1) [OF a(3)] by auto
  ultimately have "taken c b s s2" using d(2) unfolding taken_def by blast
  then show ?thesis using that a(1) d(1) c0 b0 by blast
qed

section \<open>From the call to the wait\<close>

lemma accel_start:
  fixes s :: "'a accel_scheme"
  assumes inv: "vm_inv root s" and two: "2 \<le> unat (free_pages s)" and root: "root = vm_root (ut_address_space (task_at s task))"
    and ready: "user_task_is_ready task s" and range: "user_range_ok root s True va len" and len: "len \<noteq> 0" "unat len \<le> 4096"
  shows "\<exists>c b y s2. logged s y \<and> taken c b y s2 \<and> (\<forall>v n. user_accel_memset_start task va len v n s =
    bindE (accel_submit_sync_timeout c n (s2\<lparr>mem := described c b len v (mem s2)\<rparr>)) (\<lambda>(r, s). Inr (Inr (c, b, r), s)))"
proof -
  define y where "y = user_accel_trace TRACE_USER_ACCEL_VALIDATE len (sext64 USER_ACCEL_OK) s"
  have lg: "logged s y" unfolding y_def user_accel_trace_def by (intro logged_trace logged_refl)
  note sp = logged_sched(6) [OF lg]
  have py: "pages_inv y" "2 \<le> unat (free_pages y)"
    using inv two same_pool_pages(1) [OF sp] sp by (simp_all add: vm_inv_def same_pool_def)
  obtain c b s1 s2 where a: "page_alloc y = Inr (c, s1)" "page_alloc s1 = Inr (b, s2)" "c \<noteq> 0" "b \<noteq> 0" "taken c b y s2"
    by (rule take_pages [OF py])
  have v: "usercopy_task_validate task va len True s = Inr (USERCOPY_OK, s)"
    using validate_range_ok [of "ut_address_space (task_at s task)" s len va True] inv root len(1) ready range
    by (simp add: usercopy_task_validate_def)
  have n: "\<not> (len = 0 \<or> len > USER_ACCEL_MEMSET_MAX_LEN)"
    using len by (simp add: USER_ACCEL_MEMSET_MAX_LEN_def word_less_nat_alt)
  have d: "store32 (c + CMD_VALUE) v (store32 (c + CMD_LEN) (ucast len) (store64 (c + CMD_DST_PA) b
      (store32 (c + CMD_OP) ACCEL_CMD_OP_MEMSET (memory_zero c CMD_SIZEOF s2)))) = s2\<lparr>mem := described c b len v (mem s2)\<rparr>" for v
    by (simp add: store32_def store64_def memory_zero_def described_def CMD_SIZEOF_def)
  have "user_accel_memset_start task va len v n s = bindE (accel_submit_sync_timeout c n (s2\<lparr>mem := described c b len v (mem s2)\<rparr>))
      (\<lambda>(r, s). Inr (Inr (c, b, r), s))" for v n
    unfolding user_accel_memset_start_def if_not_P [OF \<open>\<not> (len = 0 \<or> len > USER_ACCEL_MEMSET_MAX_LEN)\<close>] v bindE_Inr prod.case Let_def if_P [OF refl]
      y_def [symmetric] a(1,2) using a(3,4) by (simp add: d)
  then show ?thesis using lg a(5) by blast
qed

section \<open>From the wait to the return\<close>

lemma accel_finish:
  fixes s :: "'a accel_scheme"
  assumes inv: "vm_inv root s" and root: "root = vm_root (ut_address_space (task_at s task))" and ready: "user_task_is_ready task s"
    and range: "user_range_ok root s True va len" and ap: "copy_apart root s True va b len" and len: "len \<noteq> 0"
    and own: "c \<in> allocated s" "b \<in> allocated s" "c \<noteq> b"
  shows "\<exists>z. user_accel_memset_finish task va len n c b ACCEL_OK s = Inr (USER_ACCEL_OK, z) \<and>
    pages_inv z \<and> allocated z = allocated s - {c, b} \<and> managed_frames z = managed_frames s \<and> user_tasks z = user_tasks s \<and>
    same_sched s z \<and> sched.more z = sched.more s \<and>
    (\<forall>i<unat len. mem z (user_byte root s va i) = mem s (b + of_nat i)) \<and>
    (\<forall>x. (\<forall>i<unat len. x \<noteq> user_byte root s va i) \<longrightarrow> mem z x = mem s x)"
proof -
  have va: "va \<noteq> 0" and b0: "b \<noteq> 0"
    using range own(2) allocated_subset [of s] managed_frame_props(1) [of s b] inv
    by (auto simp: user_range_ok_def user_space_va_range_is_valid_def user_layout vm_inv_def Let_def split: if_splits)
  obtain m where m: "copy_to_user_task task va b len s = Inr (USERCOPY_OK, s\<lparr>mem := m\<rparr>)"
    "\<forall>i<unat len. m (user_byte root s va i) = mem s (b + of_nat i)"
    "\<forall>x. (\<forall>i<unat len. x \<noteq> user_byte root s va i) \<longrightarrow> m x = mem s x"
    using copy_to_user_task_exact [OF inv root ap] len va b0 ready range by auto
  define s1 where "s1 = s\<lparr>mem := m\<rparr>"
  define s2 where "s2 = user_accel_trace TRACE_USER_ACCEL_COPYBACK len (sext64 USERCOPY_OK) s1"
  have lg: "logged s1 s2" unfolding s2_def user_accel_trace_def by (intro logged_trace logged_refl)
  note sp = logged_sched(6) [OF lg]
  have "managed_frames s1 = managed_frames s" by (simp add: s1_def managed_frames_def page_addr_from_index_def)
  then have p2: "pages_inv s2" "allocated s2 = allocated s" "managed_frames s2 = managed_frames s"
    using inv same_pool_pages(1-3) [OF sp] by (simp_all add: vm_inv_def s1_def)
  obtain s3 where s3: "page_free b s2 = Inr ((), s3)" "pages_inv s3" "allocated s3 = allocated s - {b}" "managed_frames s3 = managed_frames s"
    using pages.free_owned [OF p2(1), of b] own p2 by auto
  obtain z where z: "page_free c s3 = Inr ((), z)" "pages_inv z" "allocated z = allocated s - {b} - {c}" "managed_frames z = managed_frames s"
    using pages.free_owned [OF s3(2), of c] own s3 by auto
  obtain bm fp h where "s3 = s2\<lparr>page_bitmap := bm, free_pages := fp, next_free_hint := h\<rparr>" using page_free_frame [OF s3(1)] by auto
  moreover obtain bm' fp' h' where "z = s3\<lparr>page_bitmap := bm', free_pages := fp', next_free_hint := h'\<rparr>"
    using page_free_frame [OF z(1)] by auto
  ultimately have zf: "z = s2\<lparr>page_bitmap := bm', free_pages := fp', next_free_hint := h'\<rparr>" by simp
  have k: "user_tasks z = user_tasks s" "same_sched s z" "sched.more z = sched.more s" "mem z = m"
    using logged_sched [OF lg] logged_fields(1,3) [OF lg] by (simp_all add: zf s1_def same_sched_def)
  have run: "user_accel_memset_finish task va len n c b ACCEL_OK s = Inr (USER_ACCEL_OK, z)"
    unfolding user_accel_memset_finish_def Let_def
    by (simp add: m(1) user_accel_copyback_result_def user_accel_errors s1_def [symmetric] s2_def [symmetric] s3(1) z(1))
  show ?thesis using run z k m by (intro exI [of _ z]) (auto simp: insert_commute)
qed

section \<open>The whole call\<close>

lemma idle_frame:
  fixes s s' :: "'a accel_scheme"
  assumes "sched.more s' = sched.more s" and "mem s' = mem s" and "link s' = link s" and "managed_start s' = managed_start s"
    and "managed_end s' = managed_end s"
  shows "device_idle s' = device_idle s"
  using assms more_device [OF assms(1)]
  by (simp add: device_idle_def accel_bound_def devices_ok_def regs_ok_def platform_accel_resource_def same_request_def)

lemma device_pages:
  assumes "same_device s s'"
  shows "pages_inv s' = pages_inv s" "allocated s' = allocated s" "managed_frames s' = managed_frames s" "task_at s' = task_at s"
  using assms
  by (simp_all add: same_device_def pages_inv_def used_pages_def allocated_def managed_frames_def page_addr_from_index_def task_at_def fun_eq_iff)

text \<open>The frames of the kernel threads that wait and the device's registers are not in managed pages.\<close>

definition kernel_bytes :: "u64 \<Rightarrow> u64 \<Rightarrow> 'a sched_scheme \<Rightarrow> u64 set" where
  "kernel_bytes q kframe s = wake_bytes q s \<union> byte_range (kframe + FRAME_A0) 8"

definition kernel_apart :: "u64 \<Rightarrow> u64 \<Rightarrow> 'a sched_scheme \<Rightarrow> bool" where
  "kernel_apart q kframe s \<longleftrightarrow> kernel_bytes q kframe s \<inter> reg_bytes s = {} \<and>
     (\<forall>x\<in>kernel_bytes q kframe s. page_base x \<notin> managed_frames s)"

text \<open>The call of the running user thread up to the device: two fresh pages, and a request that the device will take.\<close>

lemma call_starts:
  fixes s :: "'a traps_scheme"
  assumes u: "user_running Q t frame s" and ec: "load64 (frame + FRAME_MCAUSE) s = MCAUSE_ECALL_U_MODE"
    and nr: "load64 (frame + FRAME_A7) s = USER_SYSCALL_ACCEL_MEMSET"
    and args: "va = load64 (frame + FRAME_A0) s" "len = load64 (frame + FRAME_A1) s" "v = ucast (load64 (frame + FRAME_A2) s)" "n = load64 (frame + FRAME_A3) s"
    and task: "task = th_user_task (threads s t)" "root = vm_root (ut_address_space (task_at s task))"
    and idle: "device_idle s" and two: "2 \<le> unat (free_pages s)"
    and len: "len \<noteq> 0" "unat len \<le> 4096" and range: "user_range_ok root s True va len"
  shows "\<exists>c b z. (\<forall>op i s1. accel_submit_sync_timeout c n z = Inr (Blocks op i, s1) \<longrightarrow> trap_handle frame s = Some (Inr (Blocks op i, s1))) \<and>
    same_sched s z \<and> link z = link s \<and> sstatus z = sstatus s \<and> user_tasks z = user_tasks s \<and> managed_frames z = managed_frames s \<and>
    pages_inv z \<and> c \<noteq> b \<and> {c, b} \<subseteq> managed_frames s - allocated s \<and> allocated z = allocated s \<union> {c, b} \<and> can_submit c z \<and>
    load64 (c + CMD_DST_PA) z = b \<and> unat (load32 (c + CMD_LEN) z) = unat len \<and> load32 (c + CMD_VALUE) z = v \<and>
    same_outside (byte_range c 32) (mem s) (mem z) \<and> request_bytes c z \<subseteq> reg_bytes s \<union> {x. page_base x = c \<or> page_base x = b}"
proof -
  obtain x where lx: "logged s x" and h: "trap_handle frame s = Some (user_accel_syscall_memset frame x)"
    using accel_call_enters [OF u ec nr] by blast
  have inv: "vm_inv root s" using user_running_frames(2) [OF u] task by simp
  note sx = logged_sched [OF lx] and fx = logged_fields [OF lx]
  have ux: "user_task_is_ready task x" "task_at x = task_at s" "frame \<noteq> 0" "task \<noteq> 0"
    using u fx(4,10) by (simp_all add: user_running_def Let_def task(1))
  have tx: "thread_current_user_task_for_frame frame x = task"
    using user_running_frame(2) [OF u] logged_call [OF lx] task(1) by simp
  have ix: "vm_inv root x" "2 \<le> unat (free_pages x)" using inv two same_pool_pages(5) [OF sx(6)] sx(6) by (simp_all add: same_pool_def)
  have rx: "user_range_ok root x True va len"
    using range same_pool_pages(6) [OF sx(6)] by (simp add: user_range_ok_def user_page_ok_def)
  obtain c b y w where ly: "logged x y" and tk: "taken c b y w" and start: "\<forall>v n. user_accel_memset_start task va len v n x =
      bindE (accel_submit_sync_timeout c n (w\<lparr>mem := described c b len v (mem w)\<rparr>)) (\<lambda>(r, s). Inr (Inr (c, b, r), s))"
    using accel_start [OF ix _ ux(1) rx len] task(2) ux(2) by auto
  note lsy = logged_trans [OF lx ly]
  note sy = logged_sched [OF lsy] and fy = logged_fields [OF lsy] and py = same_pool_pages [OF logged_sched(6) [OF lsy]]
  obtain bm fp hi where w: "w = y\<lparr>page_bitmap := bm, free_pages := fp, next_free_hint := hi\<rparr>" using tk by (auto simp: taken_def)
  define z where "z = w\<lparr>mem := described c b len v (mem w)\<rparr>"
  have my: "managed_start y = managed_start s" "managed_end y = managed_end s" "page_allocator_initialized y = page_allocator_initialized s"
    using sy(6) by (simp_all add: same_pool_def)
  have ww: "mem w = mem s" "link w = link s" "managed_frames w = managed_frames s" "user_tasks w = user_tasks s" "device_idle w"
    "sstatus w = sstatus s" "same_sched s w"
    using fy my sy(1) py(3) idle idle_frame [of w s] sy(4) by (simp_all add: w managed_frames_def page_addr_from_index_def same_sched_def)
  have cb: "c \<in> managed_frames w" "b \<in> managed_frames w" "c \<noteq> b" "{c, b} \<subseteq> managed_frames s - allocated s" "pages_inv w"
    "allocated w = allocated s \<union> {c, b}"
    using tk py(2,3) ww(3) by (auto simp: taken_def)
  note ds = described_submit [OF cb(5) ww(5) cb(1-3) len z_def]
  have mz: "managed_frames z = managed_frames w" by (simp add: z_def managed_frames_def page_addr_from_index_def)
  have zf: "same_sched s z" "link z = link s" "sstatus z = sstatus s" "user_tasks z = user_tasks s" "pages_inv z"
    "allocated z = allocated s \<union> {c, b}" "managed_frames z = managed_frames s"
    using ww cb(5,6) mz by (simp_all add: z_def same_sched_def)
  have "user_accel_syscall_memset frame x = Inr (Blocks op i, s1)" if "accel_submit_sync_timeout c n z = Inr (Blocks op i, s1)" for op i s1
    unfolding user_accel_syscall_memset_def if_not_P [OF ux(3)] tx if_not_P [OF ux(4)] Let_def fx(9) args [symmetric] start [rule_format]
    by (simp add: z_def [symmetric] that user_accel_syscall_after_def)
  then show ?thesis
    using h zf cb(3,4) ds(1-6) ww(1,2) by (intro exI [of _ c] exI [of _ b] exI [of _ z]) simp
qed

text \<open>A call that waits: its pages are taken, the request is posted and the thread is in the device's queue.\<close>

definition call_posted :: "u64 \<Rightarrow> u64 \<Rightarrow> u64 \<Rightarrow> u32 \<Rightarrow> u16 \<Rightarrow> u64 \<Rightarrow> u64 \<Rightarrow> 'a accel_scheme \<Rightarrow> 'b accel_scheme \<Rightarrow> bool" where
  "call_posted q kframe len v t c b s s' \<longleftrightarrow> posted c s' \<and> c \<noteq> b \<and> {c, b} \<subseteq> managed_frames s - allocated s \<and>
     pages_inv s' \<and> allocated s' = allocated s \<union> {c, b} \<and> managed_frames s' = managed_frames s \<and> link s' = link s \<and>
     user_tasks s' = user_tasks s \<and> load64 (c + CMD_DST_PA) s' = b \<and> unat (load32 (c + CMD_LEN) s') = unat len \<and>
     load32 (c + CMD_VALUE) s' = v \<and> ready_list s' = tl (ready_list s) \<and> wait_list s' q = wait_list s q @ [t] \<and>
     request_bytes c s' \<subseteq> reg_bytes s \<union> {x. page_base x = c \<or> page_base x = b} \<and> wake_bytes q s' \<subseteq> kernel_bytes q kframe s \<and>
     same_outside (reg_bytes s \<union> {x. page_base x = c \<or> page_base x = b}) (mem s) (mem s')"

lemma call_waits:
  fixes s :: "'a traps_scheme"
  assumes u: "user_running Q t frame s" and ec: "load64 (frame + FRAME_MCAUSE) s = MCAUSE_ECALL_U_MODE"
    and nr: "load64 (frame + FRAME_A7) s = USER_SYSCALL_ACCEL_MEMSET"
    and args: "va = load64 (frame + FRAME_A0) s" "len = load64 (frame + FRAME_A1) s" "v = ucast (load64 (frame + FRAME_A2) s)" "n = load64 (frame + FRAME_A3) s"
    and task: "task = th_user_task (threads s t)" "root = vm_root (ut_address_space (task_at s task))" and q: "q = accel_waiters_addr (link s)" "q \<in> Q"
    and idle: "device_idle s" and two: "2 \<le> unat (free_pages s)" and kf: "kframe \<noteq> 0" and n: "n \<noteq> 0"
    and len: "len \<noteq> 0" "unat len \<le> 4096" and range: "user_range_ok root s True va len"
  shows "\<exists>op k c b s1 f s2. trap_handle frame s = Some (Inr (Blocks (op, q, k) (sstatus s), s1)) \<and>
    block_current_from_trap kframe q k s1 = Inr (f, s2) \<and> current_thread s2 = Some (next_tid s) \<and> sched_inv Q s2 \<and>
    call_posted q kframe len v t c b s s2"
proof -
  obtain c b z where h: "\<forall>op i s1. accel_submit_sync_timeout c n z = Inr (Blocks op i, s1) \<longrightarrow> trap_handle frame s = Some (Inr (Blocks op i, s1))"
    and zf: "same_sched s z" "link z = link s" "sstatus z = sstatus s" "user_tasks z = user_tasks s" "managed_frames z = managed_frames s" "pages_inv z"
    and cb: "c \<noteq> b" "{c, b} \<subseteq> managed_frames s - allocated s" "allocated z = allocated s \<union> {c, b}"
    and ds: "can_submit c z" "load64 (c + CMD_DST_PA) z = b" "unat (load32 (c + CMD_LEN) z) = unat len" "load32 (c + CMD_VALUE) z = v"
      "same_outside (byte_range c 32) (mem s) (mem z)" "request_bytes c z \<subseteq> reg_bytes s \<union> {x. page_base x = c \<or> page_base x = b}"
    using call_starts [OF u ec nr args task idle two len range] by (elim exE conjE) (rule that)
  have sz: "sched_inv Q z" "current_thread z = Some t" "t \<noteq> 0"
    using u same_sched_inv [OF zf(1)] zf(1) by (simp_all add: user_running_def same_sched_def)
  have lz: "ready_list z = ready_list s" "wait_list z = wait_list s" "next_tid z = next_tid s" "threads z = threads s"
    using zf(1) by (simp_all add: same_sched_def ready_list_def wait_list_def next_tid_def fun_eq_iff)
  have qz: "accel_waiters_addr (link z) = q" "accel_waiters_addr (link z) \<in> Q" using q zf(2) by simp_all
  obtain op k s1 f s2 where r: "accel_submit_sync_timeout c n z = Inr (Blocks (op, q, k) (sstatus s), s1)"
    "block_current_from_trap kframe q k s1 = Inr (f, s2)" "sched_inv Q s2" "posted c s2" "same_device z s2"
    "current_thread s2 = Some (next_tid s)" "ready_list s2 = tl (ready_list s)" "wait_list s2 q = wait_list s q @ [t]"
    "\<forall>x. th_trap_frame (threads s2 x) = (if x = t then kframe else th_trap_frame (threads s x))"
    "load64 (c + CMD_DST_PA) s2 = load64 (c + CMD_DST_PA) z" "load32 (c + CMD_LEN) s2 = load32 (c + CMD_LEN) z"
    "load32 (c + CMD_VALUE) s2 = load32 (c + CMD_VALUE) z" "same_outside (byte_range c 32 \<union> reg_bytes z) (mem z) (mem s2)"
    using request_waits [OF sz kf qz(2) ds(1) n] unfolding qz(1) lz zf(3) by (elim exE conjE) (rule that)
  have "wake_bytes q s2 \<subseteq> kernel_bytes q kframe s"
    using r(8,9) by (auto simp: kernel_bytes_def wake_bytes_def split: if_splits)
  moreover have l2: "link s2 = link s" "user_tasks s2 = user_tasks s" using r(5) zf by (simp_all add: same_device_def)
  moreover have "request_bytes c s2 \<subseteq> reg_bytes s \<union> {x. page_base x = c \<or> page_base x = b}"
    using ds(6) r(10,11) l2(1) zf(2) by (simp add: request_bytes_def)
  moreover have "same_outside (reg_bytes s \<union> {x. page_base x = c \<or> page_base x = b}) (mem s) (mem s2)"
  proof -
    have "byte_range c 32 \<subseteq> request_bytes c z" by (auto simp: request_bytes_def)
    then have sub: "byte_range c 32 \<subseteq> reg_bytes s \<union> {x. page_base x = c \<or> page_base x = b}" using ds(6) by auto
    show ?thesis
      by (rule same_outside_trans [OF same_outside_mono [OF ds(5) sub] same_outside_mono [OF r(13)]]) (use sub zf(2) in auto)
  qed
  ultimately show ?thesis
    using h [rule_format, OF r(1)] r(2-4,6-8,10-12) ds(2-4) cb device_pages [OF r(5)] zf(5,6)
    unfolding call_posted_def by (intro exI [of _ op] exI [of _ k] exI [of _ c] exI [of _ b] exI [of _ s1] exI [of _ f] exI [of _ s2]) simp
qed

text \<open>The user's bytes: only the stack page of a task is writable.\<close>

lemma stack_bytes:
  assumes m: "vm_mapping root s = task_mapping code stack tramp ctx" and range: "user_range_ok root s True va len"
    and al: "unat stack mod 4096 = 0" and i: "i < unat len"
  shows "user_addr root s (va + of_nat i) = Some (stack + (va + of_nat i - USER_SPACE_STACK_BASE))"
    and "user_byte root s va i = stack + (va + of_nat i - USER_SPACE_STACK_BASE)" and "page_base (user_byte root s va i) = stack"
proof -
  let ?a = "va + of_nat i"
  have fl: "code_flags AND VM_PTE_W = 0" "trampoline_flags AND VM_PTE_U = 0" "context_flags AND VM_PTE_U = 0"
    by (simp_all add: task_flags vm_flags)
  have "user_page_ok root s True (page_base ?a)" using range i by (simp add: user_range_ok_def)
  then have b: "page_base ?a = USER_SPACE_STACK_BASE" "task_mapping code stack tramp ctx (page_base ?a) = Some (stack, stack_flags)"
    using fl by (auto simp: user_page_ok_def m task_mapping_def split: option.splits if_splits)
  then show a: "user_addr root s ?a = Some (stack + (?a - USER_SPACE_STACK_BASE))" by (simp add: user_addr_def m)
  then show u: "user_byte root s va i = stack + (?a - USER_SPACE_STACK_BASE)" by (simp add: user_byte_def)
  have "unat (?a - page_base ?a) < 4096"
    using page_base_le [of ?a] by (simp add: unat_sub word_le_nat_alt unat_page_base)
  then show "page_base (user_byte root s va i) = stack" using page_base_add [OF al] b(1) u by simp
qed

lemma stack_apart:
  assumes m: "vm_mapping root s = task_mapping code stack tramp ctx" and range: "user_range_ok root s True va len"
    and al: "unat stack mod 4096 = 0" "unat b mod 4096 = 0" and ne: "b \<noteq> stack" and len: "unat len \<le> 4096"
    and tables: "stack \<notin> pt_tables (mem s) root"
  shows "copy_apart root s True va b len"
proof -
  note sb = stack_bytes [OF m range al(1)]
  have kb: "page_base (b + of_nat j) = b" if "j < unat len" for j
    using that len by (intro page_base_add [OF al(2)]) (simp add: unat_of_nat)
  have "user_addr root s (va + of_nat i) \<noteq> Some (b + of_nat j)" if "i < unat len" "j < unat len" for i j
    using sb(2,3) [OF that(1)] kb [OF that(2)] ne by (auto simp: sb(1) [OF that(1)])
  moreover have "i = j" if "i < unat len" "j < unat len" "user_addr root s (va + of_nat i) = Some a" "user_addr root s (va + of_nat j) = Some a" for i j a
  proof -
    have "stack + (va + of_nat i - USER_SPACE_STACK_BASE) = stack + (va + of_nat j - USER_SPACE_STACK_BASE)"
      using that(3,4) unfolding sb(1) [OF that(1)] sb(1) [OF that(2)] option.inject by (rule HOL.trans [OF _ sym])
    then have "(of_nat i :: u64) = of_nat j" by simp
    then show ?thesis using that(1,2) unat64_lt [of len] by (simp add: word_eq_of_nat unat_of_nat)
  qed
  moreover have "page_base a \<notin> pt_tables (mem s) root" if "i < unat len" "user_addr root s (va + of_nat i) = Some a" for i a
    using that sb(1-3) [OF that(1)] tables by simp
  ultimately show ?thesis unfolding copy_apart_def by simp
qed

text \<open>What lies in pages that are in use stays, if only other bytes are written.\<close>

lemma space_kept:
  assumes inv: "vm_inv root s" and so: "same_outside B (mem s) (mem s')" and B: "\<forall>x\<in>B. page_base x \<notin> allocated s"
    and s': "pages_inv s'" "allocated s \<subseteq> allocated s'"
  shows "vm_inv root s'" "vm_mapping root s' = vm_mapping root s" "pt_tables (mem s') root = pt_tables (mem s) root"
    and "page_base x \<in> allocated s \<Longrightarrow> mem s' x = mem s x"
proof -
  show k: "page_base x \<in> allocated s \<Longrightarrow> mem s' x = mem s x" for x using so B by (auto simp: same_outside_def)
  have "agree_on (pt_tables (mem s) root) (mem s) (mem s')"
    using k vm_tables_owned [OF inv] by (auto simp: agree_on_def)
  from vm_inv_mem_cong [OF inv this s'] show "vm_inv root s'" "vm_mapping root s' = vm_mapping root s"
    "pt_tables (mem s') root = pt_tables (mem s) root" by blast+
qed

lemma regs_unmanaged:
  assumes "regs_ok s" and "pages_inv s" and "x \<in> reg_bytes s"
  shows "page_base x \<notin> managed_frames s"
proof
  assume m: "page_base x \<in> managed_frames s"
  have c: "page_range_is_managed_page_contained (page_base x) 4096 s" using page_contained(1) [OF assms(2) m, of 4096] by simp
  have "x \<in> byte_range (page_base x) 4096"
    using page_base_le [of x] by (simp add: byte_range_def unat_sub word_le_nat_alt unat_page_base)
  then show False using contained_apart [OF assms(1) c] assms(3) by auto
qed

lemma call_result:
  fixes z :: "'a syscalls_scheme"
  shows "\<exists>z'. user_accel_syscall_return frame r z = (frame, z') \<and> logged (z\<lparr>mem := returned frame r (mem z)\<rparr>) z'"
proof -
  have y: "z\<lparr>mem := returned frame r (mem z)\<rparr> =
      store64 (frame + FRAME_A0) (sext64 r) (store64 (frame + FRAME_MEPC) (load64 (frame + FRAME_MEPC) z + 4) z)"
    by (simp add: returned_def store64_def load64_def)
  have "logged (z\<lparr>mem := returned frame r (mem z)\<rparr>) (snd (user_accel_syscall_return frame r z))"
    unfolding user_accel_syscall_return_def Let_def snd_conv y by (intro logged_if logged_write logged_trace logged_refl)
  moreover have "user_accel_syscall_return frame r z = (frame, snd (user_accel_syscall_return frame r z))"
    by (simp add: user_accel_syscall_return_def Let_def)
  ultimately show ?thesis by blast
qed

lemma mepc_local:
  assumes "unat frame mod 4096 = 0" and "\<And>x. page_base x = frame \<Longrightarrow> m x = m' x"
  shows "read64 m (frame + FRAME_MEPC) = read64 m' (frame + FRAME_MEPC)"
proof (rule cell64.rd_local)
  fix i :: nat assume i: "i < 8"
  have "page_base (frame + (FRAME_MEPC + of_nat i)) = frame"
    by (rule page_base_add [OF assms(1)]) (use i in \<open>simp add: FRAME_MEPC_def unat_word_ariths unat_of_nat\<close>)
  then show "m (frame + FRAME_MEPC + of_nat i) = m' (frame + FRAME_MEPC + of_nat i)" by (intro assms(2)) (simp add: add.assoc)
qed

text \<open>The rest of the call, in any state in which the device has answered: the pages are still taken and the task is as it was.\<close>

lemma call_resumes:
  fixes s :: "'a traps_scheme"
  assumes ans: "ar_completed s" "ar_result s = ACCEL_OK" and inv: "vm_inv root s"
    and root: "root = vm_root (ut_address_space (task_at s task))" and ready: "user_task_is_ready task s"
    and range: "user_range_ok root s True va len" and ap: "copy_apart root s True va b len" and len: "len \<noteq> 0"
    and own: "c \<in> allocated s" "b \<in> allocated s" "c \<noteq> b"
    and frame: "\<forall>i<unat len. page_base (user_byte root s va i) \<noteq> frame" "unat frame mod 4096 = 0"
  shows "\<exists>z. user_accel_syscall_resume frame task va len n c b irq WAIT_OK s = Inr (Done frame, z) \<and>
    pages_inv z \<and> allocated z = allocated s - {c, b} \<and> managed_frames z = managed_frames s \<and> \<not> ar_in_use z \<and>
    (\<forall>i<unat len. mem z (user_byte root s va i) = mem s (b + of_nat i)) \<and>
    load64 (frame + FRAME_A0) z = sext64 USER_ACCEL_OK \<and> load64 (frame + FRAME_MEPC) z = load64 (frame + FRAME_MEPC) s + 4 \<and>
    (\<forall>x. page_base x \<noteq> frame \<longrightarrow> (\<forall>i<unat len. x \<noteq> user_byte root s va i) \<longrightarrow> mem z x = mem s x)"
proof -
  obtain s1 where s1: "accel_submit_resume c n irq WAIT_OK s = Inr (Done ACCEL_OK, s1)" "\<not> ar_in_use s1" "same_device s s1" "mem s1 = mem s"
    using resume_done [OF ans(1), of c n irq] ans(2) by auto
  note d = device_pages [OF s1(3)]
  have m1: "vm_inv root s1" using inv d(1,2) s1(4) by (simp add: vm_inv_def)
  have m2: "vm_mapping root s1 = vm_mapping root s" by (rule ext) (simp add: vm_mapping_def s1(4))
  have ub: "user_byte root s1 = user_byte root s" "user_addr root s1 = user_addr root s"
    by (intro ext, simp add: user_byte_def user_addr_def m2)+
  have k: "user_range_ok root s1 w a l = user_range_ok root s w a l" "user_byte root s1 = user_byte root s"
      "copy_apart root s1 w a p l = copy_apart root s w a p l" for w a p l
    by (simp_all add: user_range_ok_def user_page_ok_def m2 ub copy_apart_def s1(4))
  have root1: "root = vm_root (ut_address_space (task_at s1 task))" using root d(4) by simp
  have range1: "user_range_ok root s1 True va len" and ap1: "copy_apart root s1 True va b len" using range ap k by simp_all
  have own1: "c \<in> allocated s1" "b \<in> allocated s1" "c \<noteq> b" using own d(2) by simp_all
  have r1: "user_task_is_ready task s1" using ready d(4) by (simp add: user_task_is_ready_def)
  obtain z where z: "user_accel_memset_finish task va len n c b ACCEL_OK s1 = Inr (USER_ACCEL_OK, z)" "pages_inv z"
    "allocated z = allocated s - {c, b}" "managed_frames z = managed_frames s" "sched.more z = sched.more s1"
    "\<forall>i<unat len. mem z (user_byte root s va i) = mem s (b + of_nat i)"
    "\<forall>x. (\<forall>i<unat len. x \<noteq> user_byte root s va i) \<longrightarrow> mem z x = mem s x"
    using accel_finish [OF m1 root1 r1 range1 ap1 len own1, of n] unfolding d ub s1(4) by blast
  obtain z' where z': "user_accel_syscall_return frame USER_ACCEL_OK z = (frame, z')" "logged (z\<lparr>mem := returned frame USER_ACCEL_OK (mem z)\<rparr>) z'"
    using call_result by blast
  note sp = same_pool_pages [OF logged_sched(6) [OF z'(2)]]
  have mz: "mem z' = returned frame USER_ACCEL_OK (mem z)" using logged_fields(1) [OF z'(2)] by simp
  have run: "user_accel_syscall_resume frame task va len n c b irq WAIT_OK s = Inr (Done frame, z')"
    by (simp add: user_accel_syscall_resume_def s1(1) user_accel_syscall_after_def z(1) z'(1))
  have use: "\<not> ar_in_use z'"
    using more_device(4) [of z' s1] logged_sched(4) [OF z'(2)] z(5) s1(2) by (simp add: same_request_def)
  have out: "mem z' x = mem z x" if "page_base x \<noteq> frame" for x
    using that store_in_page [OF frame(2), of FRAME_MEPC "mem z"] store_in_page [OF frame(2), of FRAME_A0]
    unfolding mz returned_def by (simp add: agree_on_def FRAME_MEPC_def FRAME_A0_def)
  have a8: "unat frame mod 8 = 0" using frame(2) by (auto simp: mod_eq_0_iff_dvd intro: dvd_trans [rotated])
  have fx: "mem z x = mem s x" if "page_base x = frame" for x using z(7) frame(1) that by metis
  have "load64 (frame + FRAME_A0) z' = sext64 USER_ACCEL_OK" by (simp add: load64_def mz returned_def cell64.rd_wr)
  moreover have "load64 (frame + FRAME_MEPC) z' = load64 (frame + FRAME_MEPC) s + 4"
  proof -
    have "read64 (mem z) (frame + FRAME_MEPC) = read64 (mem s) (frame + FRAME_MEPC)" by (rule mepc_local [OF frame(2) fx])
    then show ?thesis
      using read_word_write [OF a8, of 31 9] by (simp add: load64_def mz returned_def FRAME_MEPC_def FRAME_A0_def cell64.rd_wr)
  qed
  moreover have "mem z' (user_byte root s va i) = mem s (b + of_nat i)" if "i < unat len" for i
    using out z(6) frame(1) that by simp
  moreover have "mem z' x = mem s x" if "page_base x \<noteq> frame" "\<forall>i<unat len. x \<noteq> user_byte root s va i" for x
    using out [OF that(1)] z(7) that(2) by simp
  moreover have "managed_frames z' = managed_frames s"
    using sp(3) z(4) by (simp add: managed_frames_def page_addr_from_index_def)
  ultimately show ?thesis using run use sp z(2-3) by (intro exI [of _ z']) simp
qed

lemma posted_apart:
  assumes k: "kernel_apart q kframe s" and rok: "regs_ok s" and inv: "pages_inv s" and p: "call_posted q kframe len v t c b s s2"
  shows "wake_bytes q s2 \<inter> request_bytes c s2 = {}"
    and "\<forall>x \<in> request_bytes c s2 \<union> wake_bytes q s2 \<union> (reg_bytes s \<union> {x. page_base x = c \<or> page_base x = b}). page_base x \<notin> allocated s"
proof -
  have cb: "{c, b} \<subseteq> managed_frames s - allocated s" and w: "wake_bytes q s2 \<subseteq> kernel_bytes q kframe s"
    and r: "request_bytes c s2 \<subseteq> reg_bytes s \<union> {x. page_base x = c \<or> page_base x = b}"
    using p by (simp_all add: call_posted_def)
  have "kernel_bytes q kframe s \<inter> (reg_bytes s \<union> {x. page_base x = c \<or> page_base x = b}) = {}"
    using k cb by (auto simp: kernel_apart_def)
  then show "wake_bytes q s2 \<inter> request_bytes c s2 = {}" using w r by blast
  have "page_base x \<notin> allocated s" if "x \<in> reg_bytes s \<union> {x. page_base x = c \<or> page_base x = b} \<union> kernel_bytes q kframe s" for x
    using that regs_unmanaged [OF rok inv, of x] k cb allocated_subset [of s] by (auto simp: kernel_apart_def)
  then show "\<forall>x \<in> request_bytes c s2 \<union> wake_bytes q s2 \<union> (reg_bytes s \<union> {x. page_base x = c \<or> page_base x = b}). page_base x \<notin> allocated s"
    using w r by blast
qed

text \<open>The device answers: the bounce page holds the fill, the thread is ready again and the pages in use are as they were.\<close>

lemma call_answered:
  fixes s :: "'a accel_scheme"
  assumes inv: "vm_inv root s" and k: "kernel_apart q kframe s" and rok: "regs_ok s" and q: "q = accel_waiters_addr (link s)" "q \<in> Q"
    and i2: "sched_inv Q s2" and p: "call_posted q kframe len v t c b s s2"
  shows "\<exists>s3. platform_dispatch_pending_irqs built_in_drivers (platform_accel_step s2) = Inr ((), s3) \<and> sched_inv Q s3 \<and>
    ar_completed s3 \<and> ar_result s3 = ACCEL_OK \<and> ready_list s3 = tl (ready_list s) @ wait_list s q @ [t] \<and>
    (\<forall>i < unat len. mem s3 (b + of_nat i) = ucast v) \<and> pages_inv s3 \<and> allocated s3 = allocated s \<union> {c, b} \<and>
    managed_frames s3 = managed_frames s \<and> task_at s3 = task_at s \<and> vm_inv root s3 \<and> vm_mapping root s3 = vm_mapping root s \<and>
    pt_tables (mem s3) root = pt_tables (mem s) root \<and> (\<forall>x. page_base x \<in> allocated s \<longrightarrow> mem s3 x = mem s x)"
proof -
  have w: "posted c s2" "pages_inv s2" "allocated s2 = allocated s \<union> {c, b}" "managed_frames s2 = managed_frames s" "link s2 = link s"
    "user_tasks s2 = user_tasks s" "load64 (c + CMD_DST_PA) s2 = b" "unat (load32 (c + CMD_LEN) s2) = unat len" "load32 (c + CMD_VALUE) s2 = v"
    "ready_list s2 = tl (ready_list s)" "wait_list s2 q = wait_list s q @ [t]"
    "same_outside (reg_bytes s \<union> {x. page_base x = c \<or> page_base x = b}) (mem s) (mem s2)"
    using p by (simp_all add: call_posted_def)
  have pi: "pages_inv s" using inv by (simp add: vm_inv_def)
  note ap = posted_apart [OF k rok pi p]
  have q2: "accel_waiters_addr (link s2) = q" "accel_waiters_addr (link s2) \<in> Q" using q w(5) by simp_all
  have "wake_bytes (accel_waiters_addr (link s2)) s2 \<inter> request_bytes c s2 = {}" using ap(1) q2(1) by simp
  from request_done [OF i2 q2(2) w(1) this]
  obtain s3 where d: "platform_dispatch_pending_irqs built_in_drivers (platform_accel_step s2) = Inr ((), s3)" "sched_inv Q s3" "ar_completed s3"
    "ar_result s3 = ACCEL_OK" "ready_list s3 = ready_list s2 @ wait_list s2 q" "same_device s2 s3"
    "\<forall>i < unat len. mem s3 (b + of_nat i) = ucast v" "same_outside (request_bytes c s2 \<union> wake_bytes q s2) (mem s2) (mem s3)"
    unfolding q2(1) w(7-9) by (auto elim: returnsE)
  note dp = device_pages [OF d(6)]
  have t3: "task_at s3 = task_at s" using dp(4) w(6) by (simp add: task_at_def fun_eq_iff)
  have p3: "pages_inv s3" "allocated s \<subseteq> allocated s3" using dp w(2,3) by auto
  have so: "same_outside (request_bytes c s2 \<union> wake_bytes q s2 \<union> (reg_bytes s \<union> {x. page_base x = c \<or> page_base x = b})) (mem s) (mem s3)"
    by (rule same_outside_trans [OF same_outside_mono [OF w(12)] same_outside_mono [OF d(8)]]) auto
  note kept = space_kept [OF inv so ap(2) p3]
  show ?thesis
    using d(1-5,7) w(3,4,10,11) dp p3(1) t3 kept by (intro exI [of _ s3]) simp
qed

text \<open>The pages of a running task that the call uses.\<close>

lemma running_stack:
  fixes s :: "'a sched_scheme"
  assumes u: "user_running Q t frame s" and task: "task = th_user_task (threads s t)" "root = vm_root (ut_address_space (task_at s task))"
    and stack: "stack = ut_stack_page (task_at s task)" "stack \<noteq> 0"
  shows "vm_inv root s" "user_task_is_ready task s" "stack \<in> allocated s" "stack \<notin> pt_tables (mem s) root" "frame \<in> allocated s" "stack \<noteq> frame"
    and "unat stack mod 4096 = 0" "unat frame mod 4096 = 0"
proof -
  have T: "task_owns (task_at s task) s" "ut_trap_context (task_at s task) = frame" "user_task_is_ready task s" "root \<noteq> 0" "frame \<noteq> 0"
    using u by (simp_all add: user_running_def Let_def task user_task_is_ready_def)
  then show inv: "vm_inv root s" "user_task_is_ready task s" using task(2) by (simp_all add: task_owns_def)
  show st: "stack \<in> allocated s" "stack \<notin> pt_tables (mem s) root" "frame \<in> allocated s" "stack \<noteq> frame"
    using T(1,2,4,5) stack task(2) by (auto simp: task_owns_def task_pages_def task_tables_def task_distinct_def Let_def)
  have "unat p mod 4096 = 0" if "p \<in> allocated s" for p
    using managed_frame_props(2) [of s p] that inv(1) allocated_subset [of s] by (auto simp: vm_inv_def)
  then show "unat stack mod 4096 = 0" "unat frame mod 4096 = 0" using st by simp_all
qed

text \<open>
  C9: The accelerator call of a user program runs to its end. The running user thread asks for a fill of \<open>len\<close> bytes of
  its stack while the device is idle and two pages are free. The call takes two pages, posts a request and blocks; the
  device's step and its interrupt do not panic and make the thread ready again; the rest of the call, taken up from there
  with nothing else run in between, writes the value to exactly the user's bytes, reports success in the frame, steps
  over the \<open>ecall\<close> and gives both pages back. Of the memory in use, only the user's bytes and the task's own frame change.
\<close>

theorem accel_call_completes:
  fixes s :: "'a traps_scheme" and v :: u32
  assumes u: "user_running Q t frame s" and ec: "load64 (frame + FRAME_MCAUSE) s = MCAUSE_ECALL_U_MODE"
    and nr: "load64 (frame + FRAME_A7) s = USER_SYSCALL_ACCEL_MEMSET"
    and args: "va = load64 (frame + FRAME_A0) s" "len = load64 (frame + FRAME_A1) s" "v = ucast (load64 (frame + FRAME_A2) s)" "n = load64 (frame + FRAME_A3) s"
    and task: "task = th_user_task (threads s t)" "root = vm_root (ut_address_space (task_at s task))"
    and stack: "stack = ut_stack_page (task_at s task)" "stack \<noteq> 0" and map: "vm_mapping root s = task_mapping code stack tramp frame"
    and q: "q = accel_waiters_addr (link s)" "q \<in> Q" and idle: "device_idle s" and two: "2 \<le> unat (free_pages s)"
    and kf: "kframe \<noteq> 0" "kernel_apart q kframe s" and n: "n \<noteq> 0"
    and len: "len \<noteq> 0" "unat len \<le> 4096" and range: "user_range_ok root s True va len"
  shows "\<exists>op k c b s1 f s2 s3 s4. trap_handle frame s = Some (Inr (Blocks (op, q, k) (sstatus s), s1)) \<and>
    block_current_from_trap kframe q k s1 = Inr (f, s2) \<and> current_thread s2 = Some (next_tid s) \<and>
    platform_dispatch_pending_irqs built_in_drivers (platform_accel_step s2) = Inr ((), s3) \<and> sched_inv Q s3 \<and>
    ready_list s3 = tl (ready_list s) @ wait_list s q @ [t] \<and>
    user_accel_syscall_resume frame task va len n c b (sstatus s) WAIT_OK s3 = Inr (Done frame, s4) \<and>
    (\<forall>i<unat len. mem s4 (user_byte root s va i) = ucast v) \<and>
    load64 (frame + FRAME_A0) s4 = sext64 USER_ACCEL_OK \<and> load64 (frame + FRAME_MEPC) s4 = load64 (frame + FRAME_MEPC) s + 4 \<and>
    pages_inv s4 \<and> allocated s4 = allocated s \<and> free_pages s4 = free_pages s \<and> \<not> ar_in_use s4 \<and>
    (\<forall>x. page_base x \<in> allocated s \<and> page_base x \<noteq> frame \<and> (\<forall>i<unat len. x \<noteq> user_byte root s va i) \<longrightarrow> mem s4 x = mem s x)"
proof -
  note rs = running_stack [OF u task stack]
  note inv = rs(1) and st = rs(3-6) and al = rs(7,8)
  have pi: "pages_inv s" using inv by (simp add: vm_inv_def)
  have rok: "regs_ok s" using idle by (simp add: device_idle_def accel_bound_def)
  obtain op k c b s1 f s2 where w: "trap_handle frame s = Some (Inr (Blocks (op, q, k) (sstatus s), s1))"
    "block_current_from_trap kframe q k s1 = Inr (f, s2)" "current_thread s2 = Some (next_tid s)" "sched_inv Q s2"
    "call_posted q kframe len v t c b s s2"
    using call_waits [OF u ec nr args task(1,2) q idle two kf(1) n len range] by (elim exE conjE) (rule that)
  have cb: "c \<noteq> b" "{c, b} \<subseteq> managed_frames s - allocated s" using w(5) by (simp_all add: call_posted_def)
  obtain s3 where d: "platform_dispatch_pending_irqs built_in_drivers (platform_accel_step s2) = Inr ((), s3)" "sched_inv Q s3" "ar_completed s3"
    "ar_result s3 = ACCEL_OK" "ready_list s3 = tl (ready_list s) @ wait_list s q @ [t]" "\<forall>i < unat len. mem s3 (b + of_nat i) = ucast v"
    "allocated s3 = allocated s \<union> {c, b}" "managed_frames s3 = managed_frames s" "task_at s3 = task_at s" "vm_inv root s3"
    "vm_mapping root s3 = vm_mapping root s" "pt_tables (mem s3) root = pt_tables (mem s) root" "\<forall>x. page_base x \<in> allocated s \<longrightarrow> mem s3 x = mem s x"
    using call_answered [OF inv kf(2) rok q w(4,5)] by (elim exE conjE) (rule that)
  have r3: "user_range_ok root s3 True va len" using range d(11) by (simp add: user_range_ok_def user_page_ok_def)
  have ub: "user_byte root s3 = user_byte root s" by (intro ext) (simp add: user_byte_def user_addr_def d(11))
  have map3: "vm_mapping root s3 = task_mapping code stack tramp frame" and tb3: "stack \<notin> pt_tables (mem s3) root"
    using map st(2) d(11,12) by simp_all
  have bs: "b \<noteq> stack" "unat b mod 4096 = 0" using cb(2) st(1) managed_frame_props(2) [OF pi, of b] by auto
  note cp = stack_apart [OF map3 r3 al(1) bs(2,1) len(2) tb3]
  have fb: "\<forall>i<unat len. page_base (user_byte root s3 va i) \<noteq> frame"
    using stack_bytes(3) [OF map3 r3 al(1)] st(4) by simp
  have root3: "root = vm_root (ut_address_space (task_at s3 task))" and ready3: "user_task_is_ready task s3"
    using task(2) rs(2) d(9) by (simp_all add: user_task_is_ready_def)
  have own3: "c \<in> allocated s3" "b \<in> allocated s3" using d(7) by simp_all
  obtain s4 where z: "user_accel_syscall_resume frame task va len n c b (sstatus s) WAIT_OK s3 = Inr (Done frame, s4)" "pages_inv s4"
    "allocated s4 = allocated s3 - {c, b}" "managed_frames s4 = managed_frames s3" "\<not> ar_in_use s4"
    "\<forall>i<unat len. mem s4 (user_byte root s va i) = mem s3 (b + of_nat i)" "load64 (frame + FRAME_A0) s4 = sext64 USER_ACCEL_OK"
    "load64 (frame + FRAME_MEPC) s4 = load64 (frame + FRAME_MEPC) s3 + 4"
    "\<forall>x. page_base x \<noteq> frame \<longrightarrow> (\<forall>i<unat len. x \<noteq> user_byte root s va i) \<longrightarrow> mem s4 x = mem s3 x"
    using call_resumes [OF d(3,4,10) root3 ready3 r3 cp len(1) own3 cb(1) fb al(2), of n "sstatus s"] unfolding ub by blast
  have a4: "allocated s4 = allocated s" "managed_frames s4 = managed_frames s" using z(3,4) d(7,8) cb(2) by auto
  have f4: "free_pages s4 = free_pages s" by (rule free_pages_allocated [OF pi z(2) a4(2,1)])
  have mepc: "load64 (frame + FRAME_MEPC) s4 = load64 (frame + FRAME_MEPC) s + 4"
    using mepc_local [OF al(2), of "mem s3" "mem s"] d(13) st(3) z(8) by (simp add: load64_def)
  have out: "\<forall>i<unat len. mem s4 (user_byte root s va i) = ucast v"
    "\<forall>x. page_base x \<in> allocated s \<and> page_base x \<noteq> frame \<and> (\<forall>i<unat len. x \<noteq> user_byte root s va i) \<longrightarrow> mem s4 x = mem s x"
    using z(6,9) d(6,13) by metis+
  show ?thesis using w(1-3) d(1,2,5) z(1,2,5,7) a4(1) f4 mepc out by blast
qed

section \<open>A concrete call\<close>

text \<open>A change of memory that is not in use leaves the running task as it is.\<close>

lemma task_runs_change:
  fixes s s' :: "'a sched_scheme"
  assumes t: "task_runs Q c frame M s" and same: "same_sched s s'" "user_tasks s' = user_tasks s" "pages_inv s'" "allocated s' = allocated s"
    and m: "\<And>x. page_base x \<in> allocated s \<Longrightarrow> mem s' x = mem s x"
  shows "task_runs Q c frame M s'"
proof -
  let ?t = "task_at s (th_user_task (threads s c))"
  let ?root = "vm_root (ut_address_space ?t)"
  have u: "user_running Q c frame s" and M: "vm_mapping ?root s = M" using t by (simp_all add: task_runs_def)
  have o: "task_owns ?t s" "ut_trap_context ?t = frame" "frame \<noteq> 0" "?root \<noteq> 0"
    using u by (simp_all add: user_running_def Let_def user_task_is_ready_def)
  have inv: "vm_inv ?root s" using o by (simp add: task_owns_def)
  have ag: "agree_on (pt_tables (mem s) ?root) (mem s) (mem s')" using m vm_tables_owned [OF inv] by (auto simp: agree_on_def)
  note vm = vm_inv_mem_cong [OF inv ag same(3), unfolded same(4), OF subset_refl]
  have f: "frame \<in> allocated s" "unat frame mod 4096 = 0"
    using o user_running_frames(1) [OF u] by (auto simp: task_owns_def task_pages_def)
  have "load64 (frame + FRAME_MSTATUS) s' = load64 (frame + FRAME_MSTATUS) s"
    unfolding load64_def
  proof (rule cell64.rd_local)
    fix i :: nat assume "i < 8"
    then have "page_base (frame + (FRAME_MSTATUS + of_nat i)) = frame"
      by (intro page_base_add [OF f(2)]) (simp add: FRAME_MSTATUS_def unat_word_ariths unat_of_nat)
    then show "mem s' (frame + FRAME_MSTATUS + of_nat i) = mem s (frame + FRAME_MSTATUS + of_nat i)"
      by (intro m) (simp add: add.assoc f(1))
  qed
  moreover have "task_at s' = task_at s" by (simp add: task_at_def same(2) fun_eq_iff)
  moreover have "task_owns ?t s'" using o(1,4) vm(1-3) by (simp add: task_owns_def same(3,4) task_tables_def Let_def)
  moreover have "sched_inv Q s'" using u same_sched_inv [OF same(1)] by (simp add: user_running_def)
  ultimately show ?thesis
    using u M vm(2) same(1) by (simp add: task_runs_def user_running_def Let_def user_task_is_ready_def same_sched_def)
qed

text \<open>The trap of a user call writes its frame only.\<close>

lemma user_trap_frame:
  assumes "unat frame mod 4096 = 0" and "length args \<le> 4"
  shows "\<exists>m. user_trap frame pc nr args s = s\<lparr>mem := m\<rparr> \<and> same_outside {x. page_base x = frame} (mem s) m"
proof -
  have st: "\<exists>m. store64 (frame + r) v z = s\<lparr>mem := m\<rparr> \<and> same_outside {x. page_base x = frame} (mem s) m"
    if z: "\<exists>m. z = s\<lparr>mem := m\<rparr> \<and> same_outside {x. page_base x = frame} (mem s) m"
      and r: "r \<in> {FRAME_A0, FRAME_A1, FRAME_A2, FRAME_A3, FRAME_A7, FRAME_MEPC, FRAME_MCAUSE}" for r v z
  proof -
    obtain m where m: "z = s\<lparr>mem := m\<rparr>" "same_outside {x. page_base x = frame} (mem s) m" using z by blast
    have "unat r < 4096" "unat r mod 8 = 0" using frame_register [OF r] by simp_all
    from store_in_page [OF assms(1) this] have "same_outside {x. page_base x = frame} m (write64 m (frame + r) v)"
      by (auto simp: agree_on_def same_outside_def)
    with m show ?thesis by (intro exI [of _ "write64 m (frame + r) v"]) (simp add: store64_def same_outside_trans)
  qed
  have f: "\<exists>m. fold (\<lambda>(reg, v). store64 (frame + reg) v) l z = s\<lparr>mem := m\<rparr> \<and> same_outside {x. page_base x = frame} (mem s) m"
    if "set (map fst l) \<subseteq> set arg_registers" "\<exists>m. z = s\<lparr>mem := m\<rparr> \<and> same_outside {x. page_base x = frame} (mem s) m" for l z
    using that
  proof (induction l arbitrary: z)
    case (Cons p l)
    obtain r v where p: "p = (r, v)" by fastforce
    have "\<exists>m. store64 (frame + r) v z = s\<lparr>mem := m\<rparr> \<and> same_outside {x. page_base x = frame} (mem s) m"
      by (rule st [OF Cons.prems(2)]) (use Cons.prems(1) p in \<open>auto simp: arg_registers_def\<close>)
    from Cons.IH [OF _ this] Cons.prems(1) show ?case by (simp add: p)
  qed simp
  have "\<exists>m. s = s\<lparr>mem := m\<rparr> \<and> same_outside {x. page_base x = frame} (mem s) m" by (rule exI [of _ "mem s"]) simp
  moreover have "set (map fst (zip arg_registers args)) \<subseteq> set arg_registers" by (auto dest: set_zip_leftD)
  ultimately show ?thesis unfolding user_trap_def by (intro st f) simp_all
qed

text \<open>
  The concrete kernel of the scheduler with the device bound and idle: its task, in user mode, fills four bytes of its
  stack with \<open>0x5a\<close> and waits at most ten ticks. Thread 4 waits in the device's queue already.
\<close>

definition demo_accel :: "sched \<Rightarrow> traps" where
  "demo_accel s = (let s = (demo_traps s)\<lparr>link := demo_link\<lparr>accel_waiters_addr := 0x100\<rparr>, mem := (mem s)(0x80420004 := 1)\<rparr>
     in s\<lparr>devices := (\<lambda>_. \<lparr>dv_resource = Some (platform_accel_resource s), dv_driver = Some 0\<rparr>), device_count := 1,
          devices_initialized := True\<rparr>)"

lemma demo_accel_fields:
  "link (demo_accel s) = demo_link\<lparr>accel_waiters_addr := 0x100\<rparr>" "mem (demo_accel s) = (mem s)(0x80420004 := 1)"
  "managed_end (demo_accel s) = managed_end s" "free_pages (demo_accel s) = free_pages s" "pages_inv (demo_accel s) = pages_inv s"
  "allocated (demo_accel s) = allocated s" "managed_frames (demo_accel s) = managed_frames s" "user_tasks (demo_accel s) = user_tasks s"
  "threads (demo_accel s) = threads s" "wait_list (demo_accel s) = wait_list s" "same_sched (demo_traps s) (demo_accel s)"
  "\<not> ar_in_use (demo_accel s)" "\<not> ar_reset_required (demo_accel s)" "devices_ok (demo_accel s)" "dv_driver (devices (demo_accel s) 0) = Some 0"
  by (simp_all add: demo_accel_def Let_def demo_traps_def sched.defs devices_ok_def platform_accel_resource_def same_sched_def wait_list_def
      pages_inv_def used_pages_def allocated_def managed_frames_def page_addr_from_index_def fun_eq_iff)

lemma demo_accel_idle:
  assumes "managed_end s = 0x80020000" and z: "\<And>x. page_base x = 0x80420000 \<Longrightarrow> mem s x = 0"
  shows "device_idle (demo_accel s)"
proof -
  let ?m = "(\<lambda>_. 0)(0x80420004 := 1) :: memory"
  have "page_base x = 0x80420000" if "x \<in> byte_range 0x80420000 32" for x :: u64
  proof -
    have "page_base (0x80420000 + (x - 0x80420000)) = 0x80420000" using that by (intro page_base_add) (simp_all add: byte_range_def)
    then show ?thesis by simp
  qed
  then have "same_outside (- byte_range 0x80420000 32) ?m (mem (demo_accel s))"
    by (simp add: same_outside_def demo_accel_fields z)
  from regs_same [OF _ this, of "0x80420000"] have "regs_of (demo_accel s) = regs_at 0x80420000 ?m"
    by (simp add: demo_accel_fields demo_link_def)
  also have "\<dots> = \<lparr>rg_status = 1, rg_control = 0, rg_irq = 0, rg_ack = 0, rg_cmd = 0\<rparr>"
    by (simp add: regs_at_def read32_def read64_def accel_regs)
  finally show ?thesis
    using assms(1) by (simp add: device_idle_def accel_bound_def demo_accel_fields regs_ok_def demo_link_def ACCEL_STATUS_IDLE_def)
qed

lemma idle_outside:
  fixes s :: "'a accel_scheme"
  assumes "device_idle s" and "same_outside A (mem s) m" and "reg_bytes s \<inter> A = {}"
  shows "device_idle (s\<lparr>mem := m\<rparr>)"
proof -
  have "unat (accel_mmio_addr (link s)) + 32 < 2 ^ 64" using assms(1) by (simp add: device_idle_def accel_bound_def regs_ok_def Let_def)
  from regs_same [OF this assms(2,3)] show ?thesis
    using assms(1) by (simp add: device_idle_def accel_bound_def devices_ok_def regs_ok_def platform_accel_resource_def)
qed

lemma user_trap_args2:
  assumes "unat frame mod 4096 = 0" and "s' = user_trap frame pc nr [a, b, x, y] s"
  shows "load64 (frame + FRAME_A2) s' = x" and "load64 (frame + FRAME_A3) s' = y"
  unfolding assms(2) user_trap_def arg_registers_def
  by (simp_all add: load_register assms(1)) (simp_all add: FRAME_A0_def FRAME_A1_def FRAME_A2_def FRAME_A3_def FRAME_A7_def
      FRAME_MEPC_def FRAME_MCAUSE_def)

lemma demo_accel_runs:
  obtains z t f where "task_runs {0x100} 1 f (task_mapping (ut_code_page t) (ut_stack_page t) (trampoline_start demo_link) f) (demo_accel z)"
    and "device_idle (demo_accel z)" and "th_user_task (threads z 1) = 0x80002800" and "task_at z 0x80002800 = t" and "ut_trap_context t = f"
    and "ut_stack_page t \<noteq> 0" and "f \<in> managed_frames z" and "threads z 4 = demo_thread 4" and "wait_list z 0x100 = [4]" and "free_pages z = 7"
    and "\<And>x. x < 0x80010000 \<or> page_base x = 0x80420000 \<Longrightarrow> page_base x \<notin> managed_frames z"
proof -
  obtain z :: sched where z: "sched_inv {0x100} z" "current_thread z = Some 1" "th_user_task (threads z 1) = 0x80002800"
    "user_task_is_ready 0x80002800 z" "task_owns (task_at z 0x80002800) z"
    "load64 (ut_trap_context (task_at z 0x80002800) + FRAME_MSTATUS) z = SSTATUS_SPIE"
    "vm_mapping (vm_root (ut_address_space (task_at z 0x80002800))) z = task_mapping (ut_code_page (task_at z 0x80002800))
      (ut_stack_page (task_at z 0x80002800)) (trampoline_start demo_link) (ut_trap_context (task_at z 0x80002800))"
    "ut_stack_page (task_at z 0x80002800) \<noteq> 0" "free_pages z = 7" "managed_frames z = managed_frames demo_usched"
    "agree_on (in_use demo_usched) (\<lambda>_. 0) (mem z)" "threads z 4 = demo_thread 4" "wait_list z 0x100 = [4]" "managed_end z = 0x80020000"
    by (rule demo_user_running) blast
  define t where "t = task_at z 0x80002800"
  define f where "f = ut_trap_context t"
  define M where "M = task_mapping (ut_code_page t) (ut_stack_page t) (trampoline_start demo_link) f"
  have inv: "pages_inv z" "f \<in> allocated z" using z(4,5) by (auto simp: task_owns_def task_pages_def user_task_is_ready_def f_def t_def)
  have un: "page_base x \<notin> managed_frames z" if "x < 0x80010000 \<or> page_base x = 0x80420000" for x
    using that managed_frame_props(4) [OF inv(1), of "page_base x"] managed_frame_props(3) [OF demo_usched_facts(1), of "page_base x"]
      demo_usched_facts(5) page_base_le [of x] z(10,14) by fastforce
  have u: "task_runs {0x100} 1 f M (demo_traps z)"
    using z(1-7) by (simp add: task_runs_def user_running_def Let_def demo_traps_same user_task_is_ready_def SSTATUS_SPIE_def SSTATUS_SPP_def
        M_def f_def t_def)
  have nreg: "page_base x \<noteq> 0x80420000" if "page_base x \<in> allocated z" for x
    using un [of x] that allocated_subset [of z] by auto
  have u1: "task_runs {0x100} 1 f M (demo_accel z)"
  proof (rule task_runs_change [OF u])
    have "page_base (0x80420004 :: u64) = 0x80420000" by (simp add: page_base_def PAGE_MASK_def PAGE_SIZE_def)
    then show "page_base x \<in> allocated (demo_traps z) \<Longrightarrow> mem (demo_accel z) x = mem (demo_traps z) x" for x
      using nreg [of x] by (auto simp: demo_accel_fields demo_traps_same)
  qed (simp_all add: demo_accel_fields demo_traps_same inv, simp add: demo_traps_def sched.defs)
  have "mem z x = 0" if "page_base x = 0x80420000" for x
    using z(11) un [of x] that z(10) by (simp add: agree_on_def in_use_def)
  then have idle: "device_idle (demo_accel z)" by (intro demo_accel_idle z(14))
  have "f \<in> managed_frames z" using inv(2) allocated_subset [of z] by auto
  then show ?thesis by (intro that [OF u1 [unfolded M_def] idle]) (use z un in \<open>simp_all add: t_def f_def\<close>)
qed

lemma demo_call:
  obtains s :: traps and f code stack tramp where "user_running {0x100} 1 f s" and "load64 (f + FRAME_MCAUSE) s = MCAUSE_ECALL_U_MODE"
    and "load64 (f + FRAME_A7) s = USER_SYSCALL_ACCEL_MEMSET" and "load64 (f + FRAME_A0) s = 0x3ffff800" and "load64 (f + FRAME_A1) s = 4"
    and "load64 (f + FRAME_A2) s = 0x5a" and "load64 (f + FRAME_A3) s = 10" and "th_user_task (threads s 1) = 0x80002800"
    and "ut_stack_page (task_at s 0x80002800) = stack" and "stack \<noteq> 0"
    and "vm_mapping (vm_root (ut_address_space (task_at s 0x80002800))) s = task_mapping code stack tramp f"
    and "accel_waiters_addr (link s) = 0x100" and "device_idle s" and "2 \<le> unat (free_pages s)" and "kernel_apart 0x100 0x9000 s"
    and "user_range_ok (vm_root (ut_address_space (task_at s 0x80002800))) s True 0x3ffff800 4" and "wait_list s 0x100 = [4]"
proof -
  obtain z t f where u1: "task_runs {0x100} 1 f (task_mapping (ut_code_page t) (ut_stack_page t) (trampoline_start demo_link) f) (demo_accel z)"
    and idle: "device_idle (demo_accel z)" and z: "th_user_task (threads z 1) = 0x80002800" "task_at z 0x80002800 = t" "ut_trap_context t = f"
      "ut_stack_page t \<noteq> 0" "f \<in> managed_frames z" "threads z 4 = demo_thread 4" "wait_list z 0x100 = [4]" "free_pages z = 7"
    and un: "\<And>x. x < 0x80010000 \<or> page_base x = 0x80420000 \<Longrightarrow> page_base x \<notin> managed_frames z"
    by (rule demo_accel_runs) blast
  define s where "s = user_trap f 0x1000 USER_SYSCALL_ACCEL_MEMSET [0x3ffff800, 4, 0x5a, 10] (demo_accel z)"
  note ut = user_trap_runs [OF u1, where pc = "0x1000" and nr = USER_SYSCALL_ACCEL_MEMSET and args = "[0x3ffff800, 4, 0x5a, 10]", folded s_def]
  have al: "unat f mod 4096 = 0" using u1 user_running_frames(1) by (auto simp: task_runs_def)
  obtain m where m: "s = (demo_accel z)\<lparr>mem := m\<rparr>" "same_outside {x. page_base x = f} (mem (demo_accel z)) m"
    using user_trap_frame [OF al, of "[0x3ffff800, 4, 0x5a, 10]"] unfolding s_def by fastforce
  have sf: "link s = demo_link\<lparr>accel_waiters_addr := 0x100\<rparr>" "managed_frames s = managed_frames z" "threads s = threads z"
    "wait_list s = wait_list z" "free_pages s = free_pages z" "task_at s 0x80002800 = t"
    using demo_accel_fields by (simp_all add: m(1) wait_list_def fun_eq_iff managed_frames_def page_addr_from_index_def task_at_def flip: z(2))
  have M: "user_running {0x100} 1 f s" "vm_mapping (vm_root (ut_address_space t)) s =
      task_mapping (ut_code_page t) (ut_stack_page t) (trampoline_start demo_link) f"
    using ut(1) z(1) sf(3,6) by (simp_all add: task_runs_def)
  have fr: "page_base x \<noteq> f" if "page_base x \<notin> managed_frames z" for x
    using that z(5) by auto
  have regs: "page_base x = 0x80420000" if "x \<in> byte_range 0x80420000 32" for x :: u64
  proof -
    have "page_base (0x80420000 + (x - 0x80420000)) = 0x80420000" using that by (intro page_base_add) (simp_all add: byte_range_def)
    then show ?thesis by simp
  qed
  have idle1: "device_idle s"
    unfolding m(1) by (rule idle_outside [OF idle m(2)]) (use regs un fr in \<open>auto simp: demo_accel_fields demo_link_def\<close>)
  have kb: "x < 0xa000" if "x \<in> kernel_bytes 0x100 0x9000 s" for x
    using that by (auto simp: kernel_bytes_def wake_bytes_def sf(3,4) z(6,7) demo_thread_def FRAME_A0_def range_iff word_less_nat_alt)
  have apart: "kernel_apart 0x100 0x9000 s"
    unfolding kernel_apart_def sf(2)
  proof (intro conjI ballI)
    show "kernel_bytes 0x100 0x9000 s \<inter> reg_bytes s = {}"
      using kb by (force simp: sf(1) demo_link_def range_iff word_less_nat_alt)
    show "page_base x \<notin> managed_frames z" if "x \<in> kernel_bytes 0x100 0x9000 s" for x
      by (rule un) (use kb [OF that] in \<open>simp add: word_less_nat_alt\<close>)
  qed
  have ur: "user_range_ok (vm_root (ut_address_space t)) s True 0x3ffff800 4"
    using demo_stack(2) [of s "trampoline_start demo_link"] M(2) sf(6)
    by (simp add: user_range_ok_def user_space_va_range_is_valid_def user_layout range_overlaps_platform_mmio_def ranges_overlap_def z(3))
  note ar = user_trap_args [OF al s_def] user_trap_args2 [OF al s_def]
  show ?thesis
    by (rule that [OF M(1) ut(2,3) ar _ _ _ _ _ idle1 _ apart])
      (use z sf M ur in \<open>simp_all\<close>)
qed

theorem accel_call_completes_witness:
  "\<exists>(s :: traps) frame root op k c b s1 f s2 s3 s4. trap_handle frame s = Some (Inr (Blocks (op, 0x100, k) (sstatus s), s1)) \<and>
     block_current_from_trap 0x9000 0x100 k s1 = Inr (f, s2) \<and>
     platform_dispatch_pending_irqs built_in_drivers (platform_accel_step s2) = Inr ((), s3) \<and>
     ready_list s3 = tl (ready_list s) @ [4, 1] \<and>
     user_accel_syscall_resume frame 0x80002800 0x3ffff800 4 10 c b (sstatus s) WAIT_OK s3 = Inr (Done frame, s4) \<and>
     (\<forall>i<4. mem s4 (user_byte root s 0x3ffff800 i) = 0x5a) \<and> load64 (frame + FRAME_A0) s4 = sext64 USER_ACCEL_OK \<and> allocated s4 = allocated s"
proof -
  obtain s :: traps and f code stack tramp where s: "user_running {0x100} 1 f s" "load64 (f + FRAME_MCAUSE) s = MCAUSE_ECALL_U_MODE"
    "load64 (f + FRAME_A7) s = USER_SYSCALL_ACCEL_MEMSET" and a: "load64 (f + FRAME_A0) s = 0x3ffff800" "load64 (f + FRAME_A1) s = 4"
    "load64 (f + FRAME_A2) s = 0x5a" "load64 (f + FRAME_A3) s = 10" and t: "th_user_task (threads s 1) = 0x80002800"
    "ut_stack_page (task_at s 0x80002800) = stack" and nz: "stack \<noteq> 0"
    and m: "vm_mapping (vm_root (ut_address_space (task_at s 0x80002800))) s = task_mapping code stack tramp f"
    and d: "accel_waiters_addr (link s) = 0x100" "device_idle s" "2 \<le> unat (free_pages s)" "kernel_apart 0x100 0x9000 s"
    and r: "user_range_ok (vm_root (ut_address_space (task_at s 0x80002800))) s True 0x3ffff800 4" and w: "wait_list s 0x100 = [4]"
    by (rule demo_call)
  have v: "(0x5a :: u32) = ucast (load64 (f + FRAME_A2) s)" by (simp add: a)
  have k: "(0x9000 :: u64) \<noteq> 0" "(10 :: u64) \<noteq> 0" "(4 :: u64) \<noteq> 0" "unat (4 :: u64) \<le> 4096" "(0x100 :: u64) \<in> {0x100}"
    and n: "unat (4 :: u64) = 4" "(ucast (0x5a :: u32) :: u8) = 0x5a" "[4] @ [1] = [4, 1 :: u16]" by simp_all
  from accel_call_completes [OF s a(1,2) [symmetric] v a(4) [symmetric] t(1) [symmetric] refl t(2) [symmetric] nz m d(1) [symmetric] k(5) d(2,3) k(1) d(4) k(2-4) r]
  show ?thesis unfolding w n by (elim exE conjE) (intro exI conjI, assumption+)
qed

end
