(* ===== verification/Edge_Cases.thy ===== *)
theory Edge_Cases
  imports Syscall_Spec Accel_Request
begin

text \<open>
  What the code does at the edges of its interfaces: requests that a user program can raise through the trap that the
  kernel threads use among themselves, a deadline past the end of the tick counter, a submission to a device that is
  still in the state of the previous request, and a descriptor inside its own destination.
\<close>

section \<open>A breakpoint in user mode\<close>

text \<open>
  The dispatch of breakpoints does not look at the privilege the trap came from, so the registers of a user program
  choose an operation of the scheduler: a wait on any address, or a panic.
\<close>

lemma breakpoint_is_control_trap:
  fixes s :: "'a traps_scheme"
  assumes "load64 (frame + FRAME_MCAUSE) s = MCAUSE_BREAKPOINT" and "trap_selftest_seen s \<noteq> 0"
  shows "trap_handle frame s = Some (done_frame (thread_handle_control_trap_from_trap frame s))"
  using assms by (simp add: trap_handle_def Let_def MCAUSE_BREAKPOINT_def MCAUSE_INTERRUPT_def MCAUSE_CODE_MASK_def)

theorem user_breakpoint_waits:
  fixes s :: "'a traps_scheme"
  assumes "user_running Q c frame s" and "load64 (frame + FRAME_MCAUSE) s = MCAUSE_BREAKPOINT" and "trap_selftest_seen s \<noteq> 0"
    and "load64 (frame + FRAME_A7) s = THREAD_TRAP_WAIT" and "load64 (frame + FRAME_A0) s = q" and "q \<noteq> 0"
  shows "trap_handle frame s = Some (done_frame (block_current_from_trap frame q 0 (skip_ebreak frame s)))"
proof -
  have s: "sched_inv Q s" "current_thread s = Some c" "c \<noteq> 0" using assms(1) by (simp_all add: user_running_def)
  then have "th_tid (threads s c) \<noteq> THREAD_NULL_TID" by (simp add: current_facts(3) [OF s(1,2)] THREAD_NULL_TID_def)
  then show ?thesis
    using assms s(2) current_facts(4) [OF s(1,2)]
    by (simp add: breakpoint_is_control_trap thread_handle_control_trap_from_trap_def skip_ebreak_def store64_def Let_def
        THREAD_TRAP_WAIT_def THREAD_TRAP_YIELD_def THREAD_TRAP_EXIT_def THREAD_TRAP_SLEEP_def)
qed

theorem user_breakpoint_panics:
  fixes s :: "'a traps_scheme"
  assumes "user_running Q c frame s" and "load64 (frame + FRAME_MCAUSE) s = MCAUSE_BREAKPOINT" and "trap_selftest_seen s \<noteq> 0"
    and "load64 (frame + FRAME_A7) s = 0"
  shows "trap_handle frame s = Some (Inl ''unknown thread control trap'')"
proof -
  have "threads_started s" using assms(1) current_facts(4) by (auto simp: user_running_def)
  then show ?thesis
    using assms
    by (simp add: breakpoint_is_control_trap thread_handle_control_trap_from_trap_def store64_def Let_def done_frame_def
        THREAD_TRAP_WAIT_def THREAD_TRAP_YIELD_def THREAD_TRAP_EXIT_def THREAD_TRAP_SLEEP_def THREAD_TRAP_WAIT_TIMEOUT_def)
qed

section \<open>A deadline past the end of the counter\<close>

text \<open>The wake tick is a 64-bit sum, so the longest sleeps are due at the next tick.\<close>

theorem long_sleep_is_due:
  fixes s :: "'a sched_scheme"
  assumes "sched_inv Q s" and "current_thread s = Some c" and "c \<noteq> 0" and "frame \<noteq> 0" and "ticks s \<noteq> 0"
  shows "\<exists>f s'. thread_sleep_current_from_trap frame (- 1) s = Inr (f, s') \<and> c \<in> set (sleep_list s') \<and> th_wake_tick (threads s' c) < ticks s"
proof -
  have n: "(- 1 :: u64) \<noteq> 0" by simp
  obtain f s' where r: "thread_sleep_current_from_trap frame (- 1) s = Inr (f, s')" and d: "sleep_done c frame (- 1) s f s'"
    using sleep_ok [OF assms(1-4), of "- 1"] n by (auto simp: returns_def)
  have "ticks s + - 1 < ticks s" using assms(5) by (simp add: word_less_nat_alt unat_minus_one unat_gt_0)
  then have "th_wake_tick (threads s' c) < ticks s"
    using d next_other [OF assms(1-3)] by (simp add: sleep_done_def sleeping_def)
  moreover have "c \<in> set (sleep_list s')" using d by (simp add: sleep_done_def insert_sleeper_set)
  ultimately show ?thesis using r by blast
qed

section \<open>A device that was not reset\<close>

text \<open>
  A completed request leaves the device in its final state, and only a reset makes it idle again: until then the driver
  refuses every further request.
\<close>

theorem finished_device_refuses:
  fixes s :: "'a accel_scheme"
  assumes "accel_bound s" and "accel_cmd_pointer_is_safe c s" and "accel_cmd_payload_is_valid c s" and "n \<noteq> 0"
    and "rg_status (regs_of s) \<noteq> ACCEL_STATUS_IDLE"
  shows "\<exists>s'. accel_submit_sync_timeout c n s = Inr (Done ACCEL_ERR_BUSY, s')"
proof -
  define s0 where "s0 = snd (irq_save s)"
  have save: "irq_save s = (sstatus s, s0)" by (simp add: s0_def irq_save_def)
  have "device_mmio_base (Some 0) s0 = accel_mmio_addr (link s)" "load32 (accel_mmio_addr (link s) + ACCEL_REG_STATUS) s0 \<noteq> ACCEL_STATUS_IDLE"
    using assms(1,5) bound_device(2) [OF assms(1)]
    by (simp_all add: s0_def irq_save_def csr_clear_sstatus_def device_mmio_base_def dev_resource_def regs_at_def load32_def)
  then have "\<not> accel_device_is_ready (Some 0) s0" by (simp add: accel_device_is_ready_def)
  then show ?thesis
    unfolding accel_submit_sync_timeout_def bound_device(1) [OF assms(1)] bindE_Inr prod.case save Let_def
    using assms(2-4) by simp
qed

section \<open>A descriptor inside its destination\<close>

theorem payload_may_cover_descriptor:
  "\<exists>(s :: traps) c. accel_cmd_pointer_is_safe c s \<and> accel_cmd_payload_is_valid c s \<and> load64 (c + CMD_DST_PA) s = c \<and>
     unat (load32 (c + CMD_LEN) s) = 32"
proof -
  define s where "s = demo_request\<lparr>mem := (\<lambda>_. 0)(0x80001000 := 1, 0x80001009 := 0x10, 0x8000100b := 0x80, 0x80001010 := 0x20)\<rparr>"
  have l: "load32 (0x80001000 + CMD_OP) s = 1" "load32 (0x80001000 + CMD_FLAGS) s = 0" "load64 (0x80001000 + CMD_DST_PA) s = 0x80001000"
    "load32 (0x80001000 + CMD_LEN) s = 0x20" "load32 (0x80001000 + CMD_RESERVED) s = 0"
    by (simp_all add: load32_def load64_def read32_def read64_def cmd_offsets s_def)
  have f: "managed_start s = 0x80000000" "managed_end s = 0x80004000" "page_allocator_initialized s"
    by (simp_all add: s_def demo_request_fields)
  have "accel_cmd_pointer_is_safe 0x80001000 s"
    by (simp add: accel_cmd_pointer_is_safe_def ACCEL_CMD_ALIGNMENT_def page_range_is_managed_page_contained_def f CMD_SIZEOF_def
        PAGE_MASK_def PAGE_SIZE_def Let_def)
  moreover have "accel_cmd_payload_is_valid 0x80001000 s"
    by (simp add: accel_cmd_payload_is_valid_def l accel_cmd_codes page_range_is_managed_page_contained_def f PAGE_MASK_def PAGE_SIZE_def Let_def)
  ultimately show ?thesis using l by (intro exI [of _ s] exI [of _ "0x80001000"]) (simp add: CMD_SIZEOF_def)
qed

end
