(* ===== verification/Spec2Isabelle.thy ===== *)
theory Spec2Isabelle
  imports Mutex_Spec Heap_Run Usercopy_Fault Paging_Spec Scenario_Vm Boot_Spec Accel_Call Edge_Cases
begin

text \<open>
  This library models the kernel of the repository, a single-hart RISC-V kernel for the QEMU \<^verbatim>\<open>virt\<close> machine, and
  proves the properties that make its parts correct. All paths below are relative to \<^verbatim>\<open>src/\<close>.

  \<^bold>\<open>The program.\<close> The machine-mode part (\<^verbatim>\<open>kernel/core/main.c\<close>, \<open>kmain\<close>) sets up the page allocator and the kernel's
  page table, delegates traps and changes to supervisor mode; \<open>supervisor_main\<close> starts traps, timer, heap and devices
  and runs the scenario the build chose. From then on everything happens in traps: a timer interrupt counts a tick,
  wakes sleepers and may preempt; an \<open>ebreak\<close> of a kernel thread asks the scheduler for an operation; an \<open>ecall\<close> of a
  user program is a system call; a page fault is fatal except inside a guarded user copy. Every trap returns a saved
  frame, possibly that of another thread, or goes back to user mode through the trampoline. User tasks own an address
  space, three pages and the tables of their page table, taken from the page allocator; the accelerator driver blocks a
  thread on a wait queue until the device's interrupt wakes it.

  \<^bold>\<open>State.\<close> The state is one record, extended along the layers of the code, so that an operation of a layer acts on any
  state of the layers above it and visibly leaves their fields alone: \<open>hw\<close> (memory, control registers, console and
  the linker's addresses, \<open>link\<close>), \<open>pages\<close>, \<open>paging\<close>, \<open>utasks\<close>, \<open>timer\<close>, \<open>tracing\<close>, \<open>sched\<close>, \<open>sync\<close>, \<open>devs\<close>,
  \<open>accel\<close>, \<open>syscalls\<close>, \<open>traps\<close>, \<open>scenarios\<close> and \<open>kernel\<close>. The heap extends \<open>pages\<close> beside them (\<open>heap\<close>); \<open>on_heap\<close>
  in Boot runs its operations on the whole kernel. Memory is a function from addresses to bytes; what the code reads and
  writes through pointers into pages is there, at the offsets of the C structures: page tables, trap frames, heap
  headers, blocks and bitmaps, device registers, descriptors. Static objects that are only used through their names, such as
  the thread table or the queues, are fields. Machine integers are words of their width, so sums wrap as in C.

  \<^bold>\<open>Results.\<close> An operation that may panic gives \<open>'a res\<close>, \<open>Inl\<close> with the text of the panic or \<open>Inr\<close> with the result and
  the state; what is printed on the way to a panic is not kept. A loop that need not end gives \<open>None\<close> where it does not:
  the deadline loop of the timer, the walks through the pages of the heap and of the allocator's self-test, the wait for the
  first ticks, which does not end on a hart that is never interrupted. No fuel is used; the loops with a bound the code shows are \<open>function\<close>s with a measure or recursion on the
  number of rounds. A call that gives up the processor in the middle is the call up to there, with the outcome
  \<open>Blocks\<close> and the request it raises, and a second function for the rest; \<open>Spins\<close> stands for a waiting loop that
  cannot block because no thread runs yet.

  \<^bold>\<open>Theories.\<close>
  Prelude has the result type, alignment and the word lemmas that all share.
  Machine models \<^verbatim>\<open>arch/riscv64/csr.h\<close>, \<^verbatim>\<open>irq.h\<close> and the memory accesses; Memory_Laws proves the laws of the accesses
  in the locale \<open>mem_cell\<close>, interpreted for 16, 32 and 64 bits.

  Page_Alloc models \<^verbatim>\<open>memory/page_alloc.c\<close>, its invariant and the interface \<open>frame_allocator\<close> (a locale interpreted on it) that its
  clients rely on. Vm models \<^verbatim>\<open>memory/vm.c\<close>; Vm_Tables reads the tables in memory as a tree, Vm_Proofs and Vm_Destroy show the
  effect of the operations on it, Vm_Spec the map from pages to pages that it stands for, and Vm_Contract the interface \<open>page_map\<close>
  with its interpretation and the properties. User_Space models \<^verbatim>\<open>memory/user_space.c\<close>, Paging \<^verbatim>\<open>memory/paging.c\<close>, whose kernel map
  Paging_Spec shows to be the identity with no page both writable and executable and none for the user. Task
  models \<^verbatim>\<open>user/task.c\<close>; Task_Proofs, Task_Lifecycle and Task_Init show what starting, exiting and destroying
  a task does to its pages.

  Ring has the facts on ring buffers that Trace (\<^verbatim>\<open>core/trace.c\<close>) and Tid_Queue (the queues of \<^verbatim>\<open>core/thread.c\<close>, with the locale
  \<open>tid_fifo\<close> for the ready and the wait queue) use. Thread models the operations of \<^verbatim>\<open>core/thread.c\<close>. Sched_Inv states the invariant of
  the queues, and Sched_Wake, Sched_Switch, Sched_Exit, Sched_Ops and Sched_Create show that the operations
  keep it and what they do. Sched_Run is the abstract scheduler, a state machine on plain lists, and its simulation by
  the code; Sched_Thms has the properties.

  Hart has what the hart does between the instructions of the kernel: the Sv39 translation of a supervisor's access with the
  page tables, \<open>satp\<close> and \<open>sstatus\<close> of the state, and the entry to and return from a supervisor trap, with the part of
  \<^verbatim>\<open>arch/riscv64/trap.S\<close> that carries the trap's registers to the frame and back. Its lemma \<open>hart_translate_mapped\<close> says that the
  hart finds the mappings that Vm_Spec reads off the tables, as far as their flags allow the access.

  Machine_Mode models \<^verbatim>\<open>arch/riscv64/machine.c\<close>, Timer \<^verbatim>\<open>drivers/timer.c\<close>, Sync \<^verbatim>\<open>core/sync.c\<close>. Sync_Proofs
  and Mutex_Spec follow a mutex through all interleavings of its operations with the events of the scheduler.
  Heap models \<^verbatim>\<open>memory/heap.c\<close>; Heap_Pages treats one page of it, Heap_Spec the whole, Heap_Free \<open>kfree\<close>, and Heap_Run
  any run of heap operations, page allocations and writes of the clients. Usercopy models \<^verbatim>\<open>memory/usercopy.c\<close> with the
  copy loop of \<^verbatim>\<open>arch/riscv64/usercopy.S\<close>; Usercopy_Spec has the copies through a page table, Usercopy_Fault those by the hart, on the tables
  that \<open>satp\<close> names and with the \<open>SUM\<close> bit that the code sets.

  Device models \<^verbatim>\<open>drivers/device.c\<close> and \<^verbatim>\<open>arch/riscv64/platform.c\<close>, Accel_Platform \<^verbatim>\<open>arch/riscv64/accel_platform.c\<close>, Accel
  \<^verbatim>\<open>drivers/accel.c\<close>. Accel_Spec has an abstract device and its refinement, Accel_Request a request from the submission to its
  result, Driver_Spec the probing. Syscall models \<^verbatim>\<open>user/syscall.c\<close> and \<^verbatim>\<open>user/accel_syscall.c\<close>, Trap \<^verbatim>\<open>core/trap.c\<close>,
  \<^verbatim>\<open>core/panic.c\<close> and \<open>kmain\<close>; Trap_Spec and Syscall_Spec have their properties.

  Scenario_Alloc, Scenario_Memory, Scenario_Heap, Scenario_Accel, Scenario_Threads, Scenario_Bodies and Scenario_Requests
  model \<^verbatim>\<open>core/scenario.c\<close>; the first and Scenario_Proofs and Scenario_Vm show that the self-tests of the memory
  components pass. Boot models \<open>supervisor_main\<close> with the \<open>wfi\<close> of its wait, which ends only by an interrupt
  that the control registers enable and delegate, at the deadline programmed; Boot_Spec shows that it comes to its scenario. User_Programs models the
  C programs of \<^verbatim>\<open>user/\<close> as computations between system calls; User_Run runs two of them on the trap handler, and Accel_Call
  follows an accelerator call from the \<open>ecall\<close> through the device to its return. Edge_Cases shows what the code does at the
  edges of its interfaces.

  \<^bold>\<open>Parameters.\<close> The addresses of the linker script are fields of \<open>link\<close>. The clock is an arbitrary function of the number of
  reads. The addresses of the two instructions of the copy loop that access memory and of those of the boot code that trap,
  the contents of uninitialised local variables, the addresses of local variables and the frames that the
  trap entry saves are arguments. Pointers to functions that are given to \<open>thread_create\<close> are addresses.

  \<^bold>\<open>Hypotheses.\<close> A property about one operation assumes the invariant of its component, which the initialisation
  establishes and every operation keeps. Where an operation writes through a pointer its caller owns, a hypothesis says that the bytes
  are apart from those of the others, such as \<open>copy_apart\<close> for a user copy, \<open>sides_ok\<close> for a copy by the hart or \<open>start_safe\<close> for a
  fill of the device. \<open>in_sv39\<close> says that the hart translates through a well-formed page table, \<open>machine_ready\<close>
  that the registers are as \<open>machine_init\<close> leaves them (\<open>machine_init_ready\<close>), and \<open>clock_runs\<close> that the clock does not stand still.

  \<^bold>\<open>Not modelled.\<close> The entry and the context code in assembly (\<^verbatim>\<open>boot.S\<close>, \<^verbatim>\<open>context.S\<close>, and \<^verbatim>\<open>trap.S\<close> but for the control registers
  of a supervisor's trap): the general registers are not part of the state, and a C function starts with the frame saved.
  The registers of a machine-mode trap beyond its cause. Interrupts at points other than the wait of the boot are not placed
  in the middle of the C code; for the scheduler they are events between its operations. The two first user programs in assembly
  (\<^verbatim>\<open>user/first_user.S\<close>). The empty versions of the trace functions for a
  build without tracing. The effect of fences (memory is sequential) and of the translation cache beyond the count of its flushes: the hart walks the
  tables at every access. A hart that sets the accessed and dirty bits by itself. Masking of
  register fields by the hardware. The idle loops at the ends. The build files, the host tools and the documents.
\<close>

end
